(* ===== verification/Buzz_Prelude.thy ===== *)
theory Buzz_Prelude
  imports Main "HOL-Library.Sublist" "HOL-Library.Char_ord" "HOL-Library.List_Lexorder"
begin

text \<open>
  Shared vocabulary of the development: Rust's \<open>Result\<close>, the string operations of its
  standard library that several crates use, the insert-if-new idiom (a \<open>HashSet\<close> called
  \<open>seen\<close> beside a vector), hash maps from keys to vectors, unspecified hash-map iteration
  order, and the generic notion of a run of a state machine with its invariant rule.
\<close>

section \<open>Results\<close>

type_synonym ('e, 'a) result = "'e + 'a"

abbreviation Ok :: "'a \<Rightarrow> ('e, 'a) result" where
  "Ok \<equiv> Inr"

abbreviation Err :: "'e \<Rightarrow> ('e, 'a) result" where
  "Err \<equiv> Inl"

text \<open>The question-mark operator: return the error, or go on with the value.\<close>

fun and_then :: "('e, 'a) result \<Rightarrow> ('a \<Rightarrow> ('e, 'b) result) \<Rightarrow> ('e, 'b) result" where
  "and_then (Inl e) f = Inl e"
| "and_then (Inr a) f = f a"

fun is_ok :: "('e, 'a) result \<Rightarrow> bool" where
  "is_ok (Inl e) = False"
| "is_ok (Inr a) = True"

text \<open>
  The question-mark operator in a method that takes \<open>&mut self\<close>: the error is returned
  with the state as it is at that point.
\<close>

definition try_in :: "'s \<Rightarrow> ('e, 'a) result \<Rightarrow> ('a \<Rightarrow> ('e, 'b) result \<times> 's) \<Rightarrow> ('e, 'b) result \<times> 's" where
  "try_in s r k = (case r of Inl e \<Rightarrow> (Inl e, s) | Inr a \<Rightarrow> k a)"

lemma try_in_simps [simp]: "try_in s (Inl e) k = (Inl e, s)" "try_in s (Inr a) k = k a"
  by (simp_all add: try_in_def)

lemma try_in_Ok: "fst (try_in s r k) = Inr b \<longleftrightarrow> (\<exists>a. r = Inr a \<and> fst (k a) = Inr b)"
  by (cases r) auto

lemma try_in_eq_Ok: "try_in s r k = (Inr b, t) \<longleftrightarrow> (\<exists>a. r = Inr a \<and> k a = (Inr b, t))"
  by (cases r) auto

lemma try_in_eq_Err:
  "try_in s r k = (Inl e, t) \<longleftrightarrow> r = Inl e \<and> t = s \<or> (\<exists>a. r = Inr a \<and> k a = (Inl e, t))"
  by (cases r) auto

lemma and_then_Ok_iff [simp]: "and_then r f = Inr b \<longleftrightarrow> (\<exists>a. r = Inr a \<and> f a = Inr b)"
  by (cases r) auto

lemma and_then_Err_iff: "and_then r f = Inl e \<longleftrightarrow> r = Inl e \<or> (\<exists>a. r = Inr a \<and> f a = Inl e)"
  by (cases r) auto

text \<open>A match that returns early on the error or on \<open>None\<close>, read as success.\<close>

lemma early_return_Ok:
  "(case r of Inl e \<Rightarrow> Inl (m e) | Inr a \<Rightarrow> f a) = Inr b \<longleftrightarrow> (\<exists>a. r = Inr a \<and> f a = Inr b)"
  "(case x of None \<Rightarrow> Inl n | Some a \<Rightarrow> g a) = Inr b \<longleftrightarrow> (\<exists>a. x = Some a \<and> g a = Inr b)"
  "(if c then Inl n else t) = Inr b \<longleftrightarrow> \<not> c \<and> t = Inr b"
  by (auto split: sum.splits option.splits)

lemma is_ok_iff: "is_ok r \<longleftrightarrow> (\<exists>a. r = Inr a)"
  by (cases r) auto

section \<open>Strings\<close>

text \<open>
  A Rust string is its sequence of UTF-8 bytes, a \<open>char list\<close>. \<open>split_on\<close> is
  \<open>str::split\<close> with a character pattern, \<open>strip_prefix\<close> and \<open>starts_with\<close> are the methods
  of these names.
\<close>

fun split_on :: "'a \<Rightarrow> 'a list \<Rightarrow> 'a list list" where
  "split_on c [] = [[]]"
| "split_on c (x # xs) =
     (if x = c then [] # split_on c xs
      else (case split_on c xs of [] \<Rightarrow> [[x]] | w # ws \<Rightarrow> (x # w) # ws))"

fun join_with :: "'a \<Rightarrow> 'a list list \<Rightarrow> 'a list" where
  "join_with c [] = []"
| "join_with c [w] = w"
| "join_with c (w # v # ws) = w @ c # join_with c (v # ws)"

definition starts_with :: "'a list \<Rightarrow> 'a list \<Rightarrow> bool" where
  "starts_with s p \<longleftrightarrow> take (length p) s = p"

definition strip_prefix :: "'a list \<Rightarrow> 'a list \<Rightarrow> 'a list option" where
  "strip_prefix p s = (if take (length p) s = p then Some (drop (length p) s) else None)"

lemma starts_with_iff_prefix: "starts_with s p \<longleftrightarrow> prefix p s"
  by (metis append_eq_conv_conj prefix_def starts_with_def)

lemma starts_with_same_length: "length s = length p \<Longrightarrow> starts_with s p \<longleftrightarrow> s = p"
  by (simp add: starts_with_def)

lemma strip_prefix_Some: "strip_prefix p s = Some r \<longleftrightarrow> s = p @ r"
proof
  assume "strip_prefix p s = Some r"
  then show "s = p @ r"
    by (metis append_take_drop_id option.discI option.inject strip_prefix_def)
next
  assume "s = p @ r"
  then show "strip_prefix p s = Some r" by (simp add: strip_prefix_def)
qed

lemma split_on_nonempty [simp]: "split_on c xs \<noteq> []"
  by (induction xs) (auto split: list.splits)

lemma join_split [simp]: "join_with c (split_on c xs) = xs"
proof (induction xs)
  case (Cons x xs)
  obtain w ws where s: "split_on c xs = w # ws" by (cases "split_on c xs") auto
  then show ?case using Cons.IH by (cases ws) auto
qed simp

lemma split_on_inj: "split_on c xs = split_on c ys \<longleftrightarrow> xs = ys"
  by (metis join_split)

lemma split_on_segment_free: "w \<in> set (split_on c xs) \<Longrightarrow> c \<notin> set w"
  by (induction xs arbitrary: w) (auto split: if_splits list.splits)

lemma split_on_prefix: "c \<notin> set w \<Longrightarrow> split_on c (w @ c # xs) = w # split_on c xs"
  by (induction w) auto

lemma split_on_whole: "c \<notin> set w \<Longrightarrow> split_on c w = [w]"
  by (induction w) auto

lemma split_on_join: "ws \<noteq> [] \<Longrightarrow> (\<And>w. w \<in> set ws \<Longrightarrow> c \<notin> set w) \<Longrightarrow> split_on c (join_with c ws) = ws"
  by (induction c ws rule: join_with.induct) (auto simp: split_on_prefix split_on_whole)

text \<open>\<open>str::split_once\<close> with a character: the text before and after its first occurrence.\<close>

definition split_once :: "'a \<Rightarrow> 'a list \<Rightarrow> ('a list \<times> 'a list) option" where
  "split_once c s = (if c \<in> set s then Some (takeWhile (\<lambda>x. x \<noteq> c) s, tl (dropWhile (\<lambda>x. x \<noteq> c) s)) else None)"

lemma split_once_at: "c \<notin> set w \<Longrightarrow> split_once c (w @ c # xs) = Some (w, xs)"
proof -
  assume "c \<notin> set w"
  then have "takeWhile (\<lambda>x. x \<noteq> c) (w @ c # xs) = w" "dropWhile (\<lambda>x. x \<noteq> c) (w @ c # xs) = c # xs"
    by (induction w) auto
  then show ?thesis by (simp add: split_once_def)
qed

text \<open>
  The ASCII classes of \<open>char\<close>, on bytes. A byte of a multi-byte character is in none of
  them, so testing every byte gives what testing every character gives.
\<close>

definition is_ascii_digit :: "char \<Rightarrow> bool" where
  "is_ascii_digit c \<longleftrightarrow> CHR ''0'' \<le> c \<and> c \<le> CHR ''9''"

definition is_ascii_lowercase :: "char \<Rightarrow> bool" where
  "is_ascii_lowercase c \<longleftrightarrow> CHR ''a'' \<le> c \<and> c \<le> CHR ''z''"

definition is_ascii_uppercase :: "char \<Rightarrow> bool" where
  "is_ascii_uppercase c \<longleftrightarrow> CHR ''A'' \<le> c \<and> c \<le> CHR ''Z''"

definition is_ascii_alphanumeric :: "char \<Rightarrow> bool" where
  "is_ascii_alphanumeric c \<longleftrightarrow>
     is_ascii_digit c \<or> is_ascii_lowercase c \<or> is_ascii_uppercase c"

definition is_ascii_hexdigit :: "char \<Rightarrow> bool" where
  "is_ascii_hexdigit c \<longleftrightarrow>
     is_ascii_digit c \<or> CHR ''a'' \<le> c \<and> c \<le> CHR ''f'' \<or> CHR ''A'' \<le> c \<and> c \<le> CHR ''F''"

lemmas ascii_class_defs =
  is_ascii_digit_def is_ascii_lowercase_def is_ascii_uppercase_def
  is_ascii_alphanumeric_def is_ascii_hexdigit_def

text \<open>\<open>to_string\<close> of an unsigned integer: its decimal digits.\<close>

definition digit_char :: "nat \<Rightarrow> char" where
  "digit_char d = char_of (48 + d)"

fun nat_to_string :: "nat \<Rightarrow> string" where
  "nat_to_string n =
     (if n < 10 then [digit_char n] else nat_to_string (n div 10) @ [digit_char (n mod 10)])"

declare nat_to_string.simps [simp del]

lemma of_char_digit [simp]: "d < 10 \<Longrightarrow> (of_char (digit_char d) :: nat) = 48 + d"
  by (simp add: digit_char_def)

lemma is_ascii_digit_code: "is_ascii_digit c \<longleftrightarrow> 48 \<le> (of_char c :: nat) \<and> (of_char c :: nat) \<le> 57"
  by (simp add: is_ascii_digit_def less_eq_char_def)

lemma is_ascii_digit_digit_char [simp]: "d < 10 \<Longrightarrow> is_ascii_digit (digit_char d)"
  by (simp add: is_ascii_digit_code)

lemma nat_to_string_digits: "list_all is_ascii_digit (nat_to_string n)"
  by (induction n rule: nat_to_string.induct)
    (subst nat_to_string.simps, simp)

lemma nat_to_string_nonempty [simp]: "nat_to_string n \<noteq> []"
  by (subst nat_to_string.simps) simp

text \<open>The number a digit string stands for, which the printed form determines.\<close>

definition digits_value :: "string \<Rightarrow> nat" where
  "digits_value ds = foldl (\<lambda>acc c. acc * 10 + (of_char c - 48)) 0 ds"

lemma digits_value_nat_to_string [simp]: "digits_value (nat_to_string n) = n"
  by (induction n rule: nat_to_string.induct)
    (subst nat_to_string.simps, auto simp: digits_value_def)

lemma nat_to_string_inj [simp]: "nat_to_string m = nat_to_string n \<longleftrightarrow> m = n"
  by (metis digits_value_nat_to_string)

text \<open>A text up to its first separator determines both halves.\<close>

lemma append_sep_inj:
  "c \<notin> set xs \<Longrightarrow> c \<notin> set ys \<Longrightarrow> xs @ c # us = ys @ c # vs \<longleftrightarrow> xs = ys \<and> us = vs"
  by (induction xs arbitrary: ys) (case_tac ys; auto)+

lemma digit_not_in_nat_to_string: "\<not> is_ascii_digit c \<Longrightarrow> c \<notin> set (nat_to_string n)"
  using nat_to_string_digits [of n] by (auto simp: list_all_iff)

section \<open>Insert-if-new vectors\<close>

text \<open>
  \<open>if seen.insert(x) { out.push(x) }\<close>: the set \<open>seen\<close> always holds the elements of
  \<open>out\<close>, so the pair is the vector with a membership test.
\<close>

definition push_new :: "'a list \<Rightarrow> 'a \<Rightarrow> 'a list" where
  "push_new xs x = (if x \<in> set xs then xs else xs @ [x])"

lemma set_push_new [simp]: "set (push_new xs x) = insert x (set xs)"
  by (auto simp: push_new_def)

lemma distinct_push_new [simp]: "distinct xs \<Longrightarrow> distinct (push_new xs x)"
  by (auto simp: push_new_def)

lemma set_foldl_push_new [simp]: "set (foldl push_new xs ys) = set xs \<union> set ys"
  by (induction ys arbitrary: xs) auto

lemma distinct_foldl_push_new [simp]: "distinct xs \<Longrightarrow> distinct (foldl push_new xs ys)"
  by (induction ys arbitrary: xs) auto

lemma distinct_map_sort_key: "distinct (map f (sort_key k xs)) \<longleftrightarrow> distinct (map f xs)"
  by (simp add: distinct_map)

section \<open>Hash maps\<close>

text \<open>
  A \<open>HashMap\<close> or \<open>DashMap\<close> is a partial function with a finite domain. Its iteration
  order is unspecified: an operation that iterates takes the order as an argument, any
  enumeration of the keys.
\<close>

definition iter_order :: "'k list \<Rightarrow> ('k \<rightharpoonup> 'v) \<Rightarrow> bool" where
  "iter_order ks m \<longleftrightarrow> distinct ks \<and> set ks = dom m"

lemma iter_order_exists: "finite (dom m) \<Longrightarrow> \<exists>ks. iter_order ks m"
  using finite_distinct_list [of "dom m"] by (auto simp: iter_order_def)

text \<open>
  \<open>map.entry(k).or_default().push(v)\<close>, and the paired removal: \<open>retain\<close> on the vector,
  and the key dropped when nothing is left.
\<close>

definition index_push :: "('k \<rightharpoonup> 'v list) \<Rightarrow> 'k \<Rightarrow> 'v \<Rightarrow> ('k \<rightharpoonup> 'v list)" where
  "index_push m k v = m(k \<mapsto> (case m k of None \<Rightarrow> [] | Some vs \<Rightarrow> vs) @ [v])"

definition index_retain :: "('v \<Rightarrow> bool) \<Rightarrow> ('k \<rightharpoonup> 'v list) \<Rightarrow> 'k \<Rightarrow> ('k \<rightharpoonup> 'v list)" where
  "index_retain keep m k =
     (case m k of
        None \<Rightarrow> m
      | Some vs \<Rightarrow>
          (let vs' = filter keep vs in if vs' = [] then m(k := None) else m(k \<mapsto> vs')))"

definition index_at :: "('k \<rightharpoonup> 'v list) \<Rightarrow> 'k \<Rightarrow> 'v list" where
  "index_at m k = (case m k of None \<Rightarrow> [] | Some vs \<Rightarrow> vs)"

definition index_tight :: "('k \<rightharpoonup> 'v list) \<Rightarrow> bool" where
  "index_tight m \<longleftrightarrow> (\<forall>k. m k \<noteq> Some [])"

section \<open>Runs of a state machine\<close>

text \<open>
  A component with state is given by its start states and its labelled steps. \<open>run\<close> is
  the execution of a sequence of labels, \<open>reachable\<close> the states some run leads to.
\<close>

inductive run :: "('s \<Rightarrow> 'l \<Rightarrow> 's \<Rightarrow> bool) \<Rightarrow> 's \<Rightarrow> 'l list \<Rightarrow> 's \<Rightarrow> bool"
  for step :: "'s \<Rightarrow> 'l \<Rightarrow> 's \<Rightarrow> bool" where
  run_nil: "run step s [] s"
| run_cons: "step s l t \<Longrightarrow> run step t ls u \<Longrightarrow> run step s (l # ls) u"

inductive_simps run_Nil_simps [simp]: "run step s [] t"
inductive_simps run_Cons_simps: "run step s (l # ls) t"

inductive reachable :: "('s \<Rightarrow> bool) \<Rightarrow> ('s \<Rightarrow> 'l \<Rightarrow> 's \<Rightarrow> bool) \<Rightarrow> 's \<Rightarrow> bool"
  for start :: "'s \<Rightarrow> bool" and step :: "'s \<Rightarrow> 'l \<Rightarrow> 's \<Rightarrow> bool" where
  reach_start: "start s \<Longrightarrow> reachable start step s"
| reach_step: "reachable start step s \<Longrightarrow> step s l t \<Longrightarrow> reachable start step t"

lemma run_append: "run step s (ls @ ms) u \<longleftrightarrow> (\<exists>t. run step s ls t \<and> run step t ms u)"
  by (induction ls arbitrary: s) (auto simp: run_Cons_simps)

lemma run_snoc: "run step s (ls @ [l]) u \<longleftrightarrow> (\<exists>t. run step s ls t \<and> step t l u)"
  by (auto simp: run_append run_Cons_simps)

lemma run_restrict: "run step s ls t \<Longrightarrow> (\<And>l. l \<in> set ls \<Longrightarrow> P l) \<Longrightarrow> run (\<lambda>s l t. step s l t \<and> P l) s ls t"
  by (induction ls arbitrary: s) (auto simp: run_Cons_simps)

lemma reachable_run: "reachable start step s \<Longrightarrow> run step s ls t \<Longrightarrow> reachable start step t"
  by (induction ls arbitrary: s) (auto simp: run_Cons_simps intro: reach_step)

text \<open>
  The contract of an invariant: the start states have it and every step keeps it. What
  follows for reachable states and runs is proved once here.
\<close>

locale invariant_system =
  fixes start :: "'s \<Rightarrow> bool"
    and step :: "'s \<Rightarrow> 'l \<Rightarrow> 's \<Rightarrow> bool"
    and inv :: "'s \<Rightarrow> bool"
  assumes start_inv: "start s \<Longrightarrow> inv s"
    and step_inv: "inv s \<Longrightarrow> step s l t \<Longrightarrow> inv t"
begin

lemma reachable_inv: "reachable start step s \<Longrightarrow> inv s"
  by (induction rule: reachable.induct) (auto intro: start_inv step_inv)

lemma run_inv: "inv s \<Longrightarrow> run step s ls t \<Longrightarrow> inv t"
  by (induction ls arbitrary: s) (auto simp: run_Cons_simps intro: step_inv)

end

section \<open>Hash maps of vectors as sets of pairs\<close>

text \<open>
  The contract the fan-out indexes are used by: after a push the vector at the key has the
  new entry as well, after a retain only the kept ones, other keys are unchanged, and no
  key is left with an empty vector.
\<close>

locale multi_index =
  fixes push :: "'m \<Rightarrow> 'k \<Rightarrow> 'v \<Rightarrow> 'm"
    and retain :: "('v \<Rightarrow> bool) \<Rightarrow> 'm \<Rightarrow> 'k \<Rightarrow> 'm"
    and at :: "'m \<Rightarrow> 'k \<Rightarrow> 'v list"
    and tight :: "'m \<Rightarrow> bool"
  assumes at_push: "set (at (push m k v) j) = (if j = k then insert v (set (at m j)) else set (at m j))"
    and at_retain: "set (at (retain keep m k) j) =
           (if j = k then {v \<in> set (at m j). keep v} else set (at m j))"
    and tight_push: "tight m \<Longrightarrow> tight (push m k v)"
    and tight_retain: "tight m \<Longrightarrow> tight (retain keep m k)"
begin

lemma at_pushes:
  "set (at (foldl (\<lambda>m k. push m k v) m ks) j) =
     (if j \<in> set ks then insert v (set (at m j)) else set (at m j))"
  by (induction ks arbitrary: m) (auto simp: at_push)

lemma at_retains:
  "set (at (foldl (retain keep) m ks) j) =
     (if j \<in> set ks then {v \<in> set (at m j). keep v} else set (at m j))"
  by (induction ks arbitrary: m) (auto simp: at_retain)

lemma tight_pushes: "tight m \<Longrightarrow> tight (foldl (\<lambda>m k. push m k v) m ks)"
  by (induction ks arbitrary: m) (auto simp: tight_push)

lemma tight_retains: "tight m \<Longrightarrow> tight (foldl (retain keep) m ks)"
  by (induction ks arbitrary: m) (auto simp: tight_retain)

end

interpretation vec_index: multi_index index_push index_retain index_at index_tight
proof unfold_locales
  fix m :: "'k \<rightharpoonup> 'v list" and k j :: 'k and v :: 'v
  show "set (index_at (index_push m k v) j) =
      (if j = k then insert v (set (index_at m j)) else set (index_at m j))"
    by (auto simp: index_at_def index_push_def split: option.splits)
next
  fix m :: "'k \<rightharpoonup> 'v list" and k j :: 'k and keep :: "'v \<Rightarrow> bool"
  show "set (index_at (index_retain keep m k) j) =
      (if j = k then {v \<in> set (index_at m j). keep v} else set (index_at m j))"
    by (auto simp: index_at_def index_retain_def Let_def filter_empty_conv split: option.splits)
next
  fix m :: "'k \<rightharpoonup> 'v list" and k :: 'k and v :: 'v
  assume "index_tight m"
  then show "index_tight (index_push m k v)"
    by (auto simp: index_tight_def index_push_def)
next
  fix m :: "'k \<rightharpoonup> 'v list" and k :: 'k and keep :: "'v \<Rightarrow> bool"
  assume "index_tight m"
  then show "index_tight (index_retain keep m k)"
    by (auto simp: index_tight_def index_retain_def Let_def split: option.splits)
qed

text \<open>A tight index in which every key reads as empty is the empty map.\<close>

lemma index_tight_empty: "index_tight m \<Longrightarrow> (\<And>k. set (index_at m k) = {}) \<Longrightarrow> m = Map.empty"
proof
  fix k
  assume t: "index_tight m" and e: "\<And>k. set (index_at m k) = {}"
  show "m k = None"
  proof (cases "m k")
    case (Some vs)
    with e [of k] have "m k = Some []" by (simp add: index_at_def)
    with t show ?thesis by (simp add: index_tight_def)
  qed
qed

end
