(* ===== verification/Ifc_Core.thy ===== *)
theory Ifc_Core
  imports Buzz_Prelude "HOL-Library.FSet"
begin

text \<open>
  Information-flow control over reader-set labels (\<open>crates/ifc-core/src/lib.rs\<close>):
  the lattice of reader sets, confidentiality labels inside one universe, and the monotone
  flow state that a computation carries from its inputs to its egress checks. A
  \<open>BTreeSet\<close> is a finite set. The main result describes the egress decision by the inputs
  alone, for every sequence of observations.
\<close>

section \<open>Reader sets\<close>

datatype 'p reader_set = Everyone | Only "'p fset"

fun reader_can_flow_to :: "'p reader_set \<Rightarrow> 'p reader_set \<Rightarrow> bool" where
  "reader_can_flow_to Everyone d = True"
| "reader_can_flow_to (Only s) Everyone = False"
| "reader_can_flow_to (Only s) (Only d) = (d |\<subseteq>| s)"

fun reader_join :: "'p reader_set \<Rightarrow> 'p reader_set \<Rightarrow> 'p reader_set" where
  "reader_join Everyone v = v"
| "reader_join v Everyone = v"
| "reader_join (Only l) (Only r) = Only (l |\<inter>| r)"

fun reader_meet :: "'p reader_set \<Rightarrow> 'p reader_set \<Rightarrow> 'p reader_set" where
  "reader_meet Everyone v = Everyone"
| "reader_meet v Everyone = Everyone"
| "reader_meet (Only l) (Only r) = Only (l |\<union>| r)"

fun explicit_readers :: "'p reader_set \<Rightarrow> 'p fset option" where
  "explicit_readers Everyone = None"
| "explicit_readers (Only rs) = Some rs"

definition explicit_count :: "'p reader_set \<Rightarrow> nat option" where
  "explicit_count r = map_option fcard (explicit_readers r)"

section \<open>Labels\<close>

datatype label_error = EmptyReaderSet | CrossUniverse

record ('u, 'p) confidentiality_label =
  universe :: 'u
  readers :: "'p reader_set"

definition label_public :: "'u \<Rightarrow> ('u, 'p) confidentiality_label" where
  "label_public u = \<lparr>universe = u, readers = Everyone\<rparr>"

definition label_restricted ::
  "'u \<Rightarrow> 'p fset \<Rightarrow> (label_error, ('u, 'p) confidentiality_label) result" where
  "label_restricted u rs =
     (if rs = {||} then Err EmptyReaderSet else Ok \<lparr>universe = u, readers = Only rs\<rparr>)"

definition label_restricted_to :: "'u \<Rightarrow> 'p \<Rightarrow> ('u, 'p) confidentiality_label" where
  "label_restricted_to u p = \<lparr>universe = u, readers = Only {|p|}\<rparr>"

definition label_is_public :: "('u, 'p) confidentiality_label \<Rightarrow> bool" where
  "label_is_public l = (readers l = Everyone)"

definition label_reader_count :: "('u, 'p) confidentiality_label \<Rightarrow> nat option" where
  "label_reader_count l = explicit_count (readers l)"

definition label_can_flow_to ::
  "('u, 'p) confidentiality_label \<Rightarrow> ('u, 'p) confidentiality_label \<Rightarrow> bool" where
  "label_can_flow_to l d \<longleftrightarrow>
     universe l = universe d \<and> reader_can_flow_to (readers l) (readers d)"

definition label_join ::
  "('u, 'p) confidentiality_label \<Rightarrow> ('u, 'p) confidentiality_label \<Rightarrow>
   (label_error, ('u, 'p) confidentiality_label) result" where
  "label_join l m =
     (if universe l \<noteq> universe m then Err CrossUniverse
      else Ok \<lparr>universe = universe l, readers = reader_join (readers l) (readers m)\<rparr>)"

section \<open>The flow state\<close>

record ('u, 'p) flow_state =
  accumulated :: "('u, 'p) confidentiality_label option"
  unresolved_input :: bool

definition flow_default :: "('u, 'p) flow_state" where
  "flow_default = \<lparr>accumulated = None, unresolved_input = False\<rparr>"

definition observe ::
  "('u, 'p) flow_state \<Rightarrow> ('u, 'p) confidentiality_label \<Rightarrow> ('u, 'p) flow_state" where
  "observe s l =
     (case accumulated s of
        None \<Rightarrow> s\<lparr>accumulated := Some l\<rparr>
      | Some existing \<Rightarrow>
          (case label_join existing l of
             Inr combined \<Rightarrow> s\<lparr>accumulated := Some combined\<rparr>
           | Inl e \<Rightarrow> s\<lparr>accumulated := Some existing, unresolved_input := True\<rparr>))"

definition mark_unknown :: "('u, 'p) flow_state \<Rightarrow> ('u, 'p) flow_state" where
  "mark_unknown s = s\<lparr>unresolved_input := True\<rparr>"

datatype egress_error = UnresolvedInput | DestinationUniverseMismatch | DestinationWidensReaders

definition check_egress ::
  "('u, 'p) flow_state \<Rightarrow> ('u, 'p) confidentiality_label \<Rightarrow> (egress_error, unit) result" where
  "check_egress s d =
     (if unresolved_input s then Err UnresolvedInput
      else case accumulated s of
             None \<Rightarrow> Ok ()
           | Some a \<Rightarrow>
               if universe a \<noteq> universe d then Err DestinationUniverseMismatch
               else if \<not> reader_can_flow_to (readers a) (readers d)
                    then Err DestinationWidensReaders
               else Ok ())"

definition has_observed_input :: "('u, 'p) flow_state \<Rightarrow> bool" where
  "has_observed_input s = (accumulated s \<noteq> None)"

record ('u, 'p) flow_snapshot =
  snap_accumulated :: "('u, 'p) confidentiality_label option"
  snap_unresolved_input :: bool

definition flow_snapshot_of :: "('u, 'p) flow_state \<Rightarrow> ('u, 'p) flow_snapshot" where
  "flow_snapshot_of s =
     \<lparr>snap_accumulated = accumulated s, snap_unresolved_input = unresolved_input s\<rparr>"

text \<open>What a caller does with a flow state between two egress checks.\<close>

datatype ('u, 'p) flow_input = Labelled "('u, 'p) confidentiality_label" | Unlabelled

fun flow_step :: "('u, 'p) flow_state \<Rightarrow> ('u, 'p) flow_input \<Rightarrow> ('u, 'p) flow_state" where
  "flow_step s (Labelled l) = observe s l"
| "flow_step s Unlabelled = mark_unknown s"

definition flow_after :: "('u, 'p) flow_input list \<Rightarrow> ('u, 'p) flow_state" where
  "flow_after ins = foldl flow_step flow_default ins"

definition observed :: "('u, 'p) flow_input list \<Rightarrow> ('u, 'p) confidentiality_label set" where
  "observed ins = {l. Labelled l \<in> set ins}"

section \<open>The lattice of reader sets\<close>

text \<open>
  The contract the flow state relies on: flowing is a partial order, joining gives the
  least label both inputs flow to, meeting the greatest that flows to both.
\<close>

locale flow_lattice =
  fixes flows :: "'r \<Rightarrow> 'r \<Rightarrow> bool"
    and join :: "'r \<Rightarrow> 'r \<Rightarrow> 'r"
    and meet :: "'r \<Rightarrow> 'r \<Rightarrow> 'r"
  assumes flows_refl: "flows a a"
    and flows_trans: "flows a b \<Longrightarrow> flows b c \<Longrightarrow> flows a c"
    and flows_antisym: "flows a b \<Longrightarrow> flows b a \<Longrightarrow> a = b"
    and join_lub: "flows (join a b) d \<longleftrightarrow> flows a d \<and> flows b d"
    and meet_glb: "flows d (meet a b) \<longleftrightarrow> flows d a \<and> flows d b"
begin

lemma flows_join: "flows a (join a b)" "flows b (join a b)"
  using join_lub flows_refl by blast+

lemma flows_meet: "flows (meet a b) a" "flows (meet a b) b"
  using meet_glb flows_refl by blast+

lemma join_commute: "join a b = join b a"
  by (rule flows_antisym) (simp_all add: join_lub flows_join)

lemma join_assoc: "join (join a b) c = join a (join b c)"
  using join_lub flows_join by (intro flows_antisym) (simp_all, blast+)

lemma foldl_join_flows: "flows (foldl join a bs) d \<longleftrightarrow> flows a d \<and> (\<forall>b \<in> set bs. flows b d)"
  by (induction bs arbitrary: a) (auto simp: join_lub)

end

interpretation rset: flow_lattice reader_can_flow_to reader_join reader_meet
proof unfold_locales
  fix a b c d :: "'p reader_set"
  show "reader_can_flow_to a a" by (cases a) auto
  show "reader_can_flow_to a b \<Longrightarrow> reader_can_flow_to b c \<Longrightarrow> reader_can_flow_to a c"
    by (cases a; cases b; cases c) auto
  show "reader_can_flow_to a b \<Longrightarrow> reader_can_flow_to b a \<Longrightarrow> a = b"
    by (cases a; cases b) auto
  show "reader_can_flow_to (reader_join a b) d \<longleftrightarrow> reader_can_flow_to a d \<and> reader_can_flow_to b d"
    by (cases a; cases b; cases d) auto
  show "reader_can_flow_to d (reader_meet a b) \<longleftrightarrow> reader_can_flow_to d a \<and> reader_can_flow_to d b"
    by (cases a; cases b; cases d) auto
qed

text \<open>Reader sets as an instance of the library's lattices: the bottom is public data.\<close>

instantiation reader_set :: (type) bounded_lattice
begin

definition "less_eq_reader_set a b = reader_can_flow_to a b"

definition "less_reader_set a b \<longleftrightarrow> reader_can_flow_to a b \<and> \<not> reader_can_flow_to b a"

definition "sup_reader_set = (reader_join :: 'a reader_set \<Rightarrow> 'a reader_set \<Rightarrow> 'a reader_set)"

definition "inf_reader_set = (reader_meet :: 'a reader_set \<Rightarrow> 'a reader_set \<Rightarrow> 'a reader_set)"

definition "bot_reader_set = (Everyone :: 'a reader_set)"

definition "top_reader_set = (Only {||} :: 'a reader_set)"

instance
proof
  fix x y z a :: "'a reader_set"
  show "bot \<le> a" by (simp add: bot_reader_set_def less_eq_reader_set_def)
  show "a \<le> top" by (cases a) (simp_all add: top_reader_set_def less_eq_reader_set_def)
  show "x \<le> y \<Longrightarrow> y \<le> z \<Longrightarrow> x \<le> z"
    unfolding less_eq_reader_set_def by (rule rset.flows_trans)
  show "x \<le> y \<Longrightarrow> y \<le> x \<Longrightarrow> x = y"
    unfolding less_eq_reader_set_def by (rule rset.flows_antisym)
qed (simp_all add: less_eq_reader_set_def less_reader_set_def sup_reader_set_def inf_reader_set_def
      rset.flows_refl rset.join_lub rset.flows_join rset.flows_meet rset.meet_glb)

end

section \<open>What the flow state has accumulated\<close>

lemma observed_simps [simp]:
  "observed [] = {}"
  "observed (Labelled l # ins) = insert l (observed ins)"
  "observed (Unlabelled # ins) = observed ins"
  "observed (ins @ js) = observed ins \<union> observed js"
  by (auto simp: observed_def)

text \<open>Two observed labels of different universes, or input without a label.\<close>

definition unresolved_inputs :: "('u, 'p) flow_input list \<Rightarrow> bool" where
  "unresolved_inputs ins \<longleftrightarrow>
     Unlabelled \<in> set ins \<or> (\<exists>l \<in> observed ins. \<exists>m \<in> observed ins. universe l \<noteq> universe m)"

definition flow_spec :: "('u, 'p) flow_input list \<Rightarrow> ('u, 'p) flow_state \<Rightarrow> bool" where
  "flow_spec ins s \<longleftrightarrow>
     unresolved_input s = unresolved_inputs ins \<and>
     (accumulated s = None \<longleftrightarrow> observed ins = {}) \<and>
     (\<forall>a. accumulated s = Some a \<longrightarrow>
        (\<exists>l \<in> observed ins. universe l = universe a) \<and>
        (\<not> unresolved_inputs ins \<longrightarrow>
          (\<forall>d. reader_can_flow_to (readers a) d \<longleftrightarrow>
               (\<forall>l \<in> observed ins. reader_can_flow_to (readers l) d))))"

lemma flow_after_snoc: "flow_after (ins @ [i]) = flow_step (flow_after ins) i"
  by (simp add: flow_after_def)

lemma unresolved_inputs_unlabelled [simp]: "unresolved_inputs (ins @ [Unlabelled])"
  by (simp add: unresolved_inputs_def)

lemma unresolved_inputs_labelled:
  "unresolved_inputs (ins @ [Labelled l]) \<longleftrightarrow>
     unresolved_inputs ins \<or> (\<exists>m \<in> observed ins. universe m \<noteq> universe l)" (is "?L = ?R")
proof
  assume ?L
  then have "Unlabelled \<in> set ins \<or>
      (\<exists>a \<in> insert l (observed ins). \<exists>m \<in> insert l (observed ins). universe a \<noteq> universe m)"
    by (simp add: unresolved_inputs_def)
  then show ?R
    unfolding unresolved_inputs_def by (elim disjE bexE insertE) (metis | blast)+
next
  assume ?R
  then show ?L unfolding unresolved_inputs_def observed_simps set_append by blast
qed

lemma flow_spec_mark_unknown: "flow_spec ins s \<Longrightarrow> flow_spec (ins @ [Unlabelled]) (mark_unknown s)"
  by (simp add: flow_spec_def mark_unknown_def)

lemma flow_spec_observe:
  assumes s: "flow_spec ins s"
  shows "flow_spec (ins @ [Labelled l]) (observe s l)"
proof (cases "accumulated s")
  case None
  with s show ?thesis
    by (auto simp: flow_spec_def observe_def unresolved_inputs_labelled)
next
  case (Some a)
  with s obtain m where m: "m \<in> observed ins" "universe m = universe a"
    by (auto simp: flow_spec_def)
  show ?thesis
  proof (cases "universe a = universe l")
    case True
    then have "observe s l =
        s\<lparr>accumulated := Some \<lparr>universe = universe a, readers = reader_join (readers a) (readers l)\<rparr>\<rparr>"
      using Some by (simp add: observe_def label_join_def)
    moreover have "unresolved_inputs (ins @ [Labelled l]) = unresolved_inputs ins"
      using m True by (auto simp: unresolved_inputs_labelled) (metis unresolved_inputs_def)
    ultimately show ?thesis
      using s Some m by (auto simp: flow_spec_def rset.join_lub)
  next
    case False
    then have "observe s l = s\<lparr>accumulated := Some a, unresolved_input := True\<rparr>"
      using Some by (simp add: observe_def label_join_def)
    moreover have "unresolved_inputs (ins @ [Labelled l])"
      using m False by (auto simp: unresolved_inputs_labelled)
    ultimately show ?thesis using s m by (auto simp: flow_spec_def)
  qed
qed

lemma flow_after_spec: "flow_spec ins (flow_after ins)"
proof (induction ins rule: rev_induct)
  case Nil
  show ?case by (simp add: flow_spec_def flow_after_def flow_default_def unresolved_inputs_def)
next
  case (snoc i ins)
  then show ?case
    by (cases i) (simp_all add: flow_after_snoc flow_spec_observe flow_spec_mark_unknown)
qed

lemma check_egress_unresolved: "unresolved_inputs ins \<Longrightarrow> check_egress (flow_after ins) d = Err UnresolvedInput"
  using flow_after_spec [of ins] by (simp add: flow_spec_def check_egress_def)

lemma check_egress_resolved:
  assumes "\<not> unresolved_inputs ins"
  shows "check_egress (flow_after ins) d =
    (if \<exists>l \<in> observed ins. universe l \<noteq> universe d then Err DestinationUniverseMismatch
     else if \<exists>l \<in> observed ins. \<not> reader_can_flow_to (readers l) (readers d)
          then Err DestinationWidensReaders else Ok ())"
proof (cases "accumulated (flow_after ins)")
  case None
  with assms flow_after_spec [of ins] show ?thesis by (auto simp: flow_spec_def check_egress_def)
next
  case (Some a)
  have u: "universe l = universe m" if "l \<in> observed ins" "m \<in> observed ins" for l m
    using assms that unfolding unresolved_inputs_def by blast
  from Some assms flow_after_spec [of ins] obtain m where
      m: "m \<in> observed ins" "universe m = universe a"
    and f: "\<And>e. reader_can_flow_to (readers a) e \<longleftrightarrow>
              (\<forall>l \<in> observed ins. reader_can_flow_to (readers l) e)"
    and r: "\<not> unresolved_input (flow_after ins)"
    unfolding flow_spec_def by blast
  have "(\<exists>l \<in> observed ins. universe l \<noteq> universe d) \<longleftrightarrow> universe a \<noteq> universe d"
    using u m by metis
  with Some f r show ?thesis by (simp add: check_egress_def)
qed

lemma check_egress_Ok_iff:
  "check_egress (flow_after ins) d = Ok () \<longleftrightarrow>
     Unlabelled \<notin> set ins \<and> (\<forall>l \<in> observed ins. label_can_flow_to l d)"
proof (cases "unresolved_inputs ins")
  case True
  moreover have "\<not> (Unlabelled \<notin> set ins \<and> (\<forall>l \<in> observed ins. label_can_flow_to l d))"
    using True unfolding unresolved_inputs_def label_can_flow_to_def by metis
  ultimately show ?thesis by (simp add: check_egress_unresolved)
next
  case False
  then have "Unlabelled \<notin> set ins" by (simp add: unresolved_inputs_def)
  with False show ?thesis by (auto simp: check_egress_resolved label_can_flow_to_def)
qed

section \<open>Properties\<close>

text \<open>
  C27: The egress decision is exactly the policy: after any sequence of labelled and unlabelled
  inputs, sending to \<open>d\<close> is allowed if and only if no input was unlabelled and the label of
  every single input may flow to \<open>d\<close>. Nothing observed is forgotten and nothing else is
  refused.
\<close>

theorem egress_decision_exact:
  "check_egress (flow_after ins) d = Ok () \<longleftrightarrow>
     Unlabelled \<notin> set ins \<and> (\<forall>l \<in> observed ins. label_can_flow_to l d)"
  by (rule check_egress_Ok_iff)

theorem egress_decision_exact_witness:
  "check_egress (flow_after [Labelled (label_public (1::nat)),
        Labelled \<lparr>universe = 1, readers = Only {|''alice'', ''bob''|}\<rparr>])
      (label_restricted_to 1 ''alice'') = Ok () \<and>
   check_egress (flow_after [Labelled \<lparr>universe = 1, readers = Only {|''alice'', ''bob''|}\<rparr>])
      (label_public (1::nat)) \<noteq> Ok ()"
  unfolding egress_decision_exact
  by (simp add: label_can_flow_to_def label_public_def label_restricted_to_def)

text \<open>
  Each refusal names its cause: unresolved input when something unlabelled or labels of
  two universes came in, otherwise a universe mismatch when an input belongs to another
  universe than the destination, otherwise widening when the destination adds a reader that
  some input does not allow.
\<close>

theorem egress_error_cause:
  "check_egress (flow_after ins) d =
     (if unresolved_inputs ins then Err UnresolvedInput
      else if \<exists>l \<in> observed ins. universe l \<noteq> universe d then Err DestinationUniverseMismatch
      else if \<exists>l \<in> observed ins. \<not> reader_can_flow_to (readers l) (readers d)
           then Err DestinationWidensReaders
      else Ok ())"
  by (simp add: check_egress_unresolved check_egress_resolved)

text \<open>
  A refused destination stays refused: no later input, labelled or not, makes an egress
  that was denied possible again.
\<close>

theorem egress_denial_is_final:
  assumes "check_egress (flow_after ins) d \<noteq> Ok ()"
  shows "check_egress (flow_after (ins @ js)) d \<noteq> Ok ()"
  using assms unfolding check_egress_Ok_iff observed_simps set_append by blast

theorem egress_denial_is_final_witness:
  "check_egress (flow_after ([Unlabelled] @ [Labelled (label_public (1::nat))]))
      (label_restricted_to 1 ''alice'') \<noteq> Ok ()"
  by (rule egress_denial_is_final)
    (simp add: check_egress_def flow_after_def flow_default_def mark_unknown_def)

text \<open>
  Joining two labels of one universe gives the least label both flow to, and two
  restricted labels without a common reader join to a label that flows to no label a
  constructor can make (public, restricted to a non-empty set, or to one principal), while
  labels of different universes do not join.
\<close>

theorem label_join_least:
  assumes "label_join l m = Ok j"
  shows "universe l = universe m \<and>
    (\<forall>d. label_can_flow_to j d \<longleftrightarrow> label_can_flow_to l d \<and> label_can_flow_to m d) \<and>
    (\<forall>a b d. readers l = Only a \<longrightarrow> readers m = Only b \<longrightarrow> a |\<inter>| b = {||} \<longrightarrow>
       label_can_flow_to j d \<longrightarrow> readers d = Only {||})"
proof -
  from assms have u: "universe l = universe m"
    and j: "j = \<lparr>universe = universe l, readers = reader_join (readers l) (readers m)\<rparr>"
    by (auto simp: label_join_def split: if_splits)
  have "readers d = Only {||}"
    if "readers l = Only a" "readers m = Only b" "a |\<inter>| b = {||}" "label_can_flow_to j d" for a b d
    using that j by (cases "readers d") (auto simp: label_can_flow_to_def)
  with u j show ?thesis by (auto simp: label_can_flow_to_def rset.join_lub)
qed

theorem label_join_least_witness:
  "\<exists>j. label_join (label_restricted_to (1::nat) ''alice'') (label_restricted_to 1 ''bob'') = Ok j \<and>
       \<not> label_can_flow_to j (label_public 1) \<and>
       \<not> label_can_flow_to j (label_restricted_to 1 ''alice'')"
proof -
  let ?l = "label_restricted_to (1::nat) ''alice''" and ?m = "label_restricted_to (1::nat) ''bob''"
  let ?j = "\<lparr>universe = 1::nat, readers = Only ({|''alice''|} |\<inter>| {|''bob''|})\<rparr>"
  have "label_join ?l ?m = Ok ?j" by (simp add: label_join_def label_restricted_to_def)
  with label_join_least [OF this] show ?thesis
    by (auto simp: label_can_flow_to_def label_public_def label_restricted_to_def)
qed

end
