(* ===== verification/Channel_Roles.thy ===== *)
theory Channel_Roles
  imports Buzz_Prelude
begin

text \<open>
  Channel and membership enums (\<open>crates/buzz-core/src/channel.rs\<close>): visibility, channel type
  and member role, their canonical strings and parsers, and the permission order of roles.
  A parse error carries the rejected text (the message quotes it).
\<close>

section \<open>Visibility and type\<close>

datatype channel_visibility = Open | Private

fun visibility_as_str :: "channel_visibility \<Rightarrow> string" where
  "visibility_as_str Open = ''open''"
| "visibility_as_str Private = ''private''"

definition visibility_from_str :: "string \<Rightarrow> (string, channel_visibility) result" where
  "visibility_from_str s =
     (if s = ''open'' then Ok Open else if s = ''private'' then Ok Private else Err s)"

datatype channel_type = Stream | Forum | Dm | Workflow

fun channel_type_as_str :: "channel_type \<Rightarrow> string" where
  "channel_type_as_str Stream = ''stream''"
| "channel_type_as_str Forum = ''forum''"
| "channel_type_as_str Dm = ''dm''"
| "channel_type_as_str Workflow = ''workflow''"

definition channel_type_from_str :: "string \<Rightarrow> (string, channel_type) result" where
  "channel_type_from_str s =
     (if s = ''stream'' then Ok Stream else if s = ''forum'' then Ok Forum
      else if s = ''dm'' then Ok Dm else if s = ''workflow'' then Ok Workflow else Err s)"

section \<open>Member roles\<close>

datatype member_role = Owner | Admin | Member | Guest | Bot

fun role_as_str :: "member_role \<Rightarrow> string" where
  "role_as_str Owner = ''owner''"
| "role_as_str Admin = ''admin''"
| "role_as_str Member = ''member''"
| "role_as_str Guest = ''guest''"
| "role_as_str Bot = ''bot''"

definition role_from_str :: "string \<Rightarrow> (string, member_role) result" where
  "role_from_str s =
     (if s = ''owner'' then Ok Owner else if s = ''admin'' then Ok Admin
      else if s = ''member'' then Ok Member else if s = ''guest'' then Ok Guest
      else if s = ''bot'' then Ok Bot else Err s)"

fun is_elevated :: "member_role \<Rightarrow> bool" where
  "is_elevated Owner = True"
| "is_elevated Admin = True"
| "is_elevated r = False"

fun permission_level :: "member_role \<Rightarrow> nat" where
  "permission_level Owner = 4"
| "permission_level Admin = 3"
| "permission_level Member = 2"
| "permission_level Guest = 1"
| "permission_level Bot = 0"

definition has_at_least :: "member_role \<Rightarrow> member_role \<Rightarrow> bool" where
  "has_at_least r required \<longleftrightarrow> permission_level r \<ge> permission_level required"

lemma permission_level_inj [simp]: "permission_level r = permission_level s \<longleftrightarrow> r = s"
  by (cases r; cases s) simp_all

text \<open>Roles are linearly ordered by permission level, so the library's order facts apply.\<close>

instantiation member_role :: linorder
begin

definition less_eq_member_role :: "member_role \<Rightarrow> member_role \<Rightarrow> bool" where
  "less_eq_member_role r s \<longleftrightarrow> permission_level r \<le> permission_level s"

definition less_member_role :: "member_role \<Rightarrow> member_role \<Rightarrow> bool" where
  "less_member_role r s \<longleftrightarrow> permission_level r < permission_level s"

instance
  by standard (auto simp: less_eq_member_role_def less_member_role_def)

end

lemma has_at_least_iff_le: "has_at_least r s \<longleftrightarrow> s \<le> r"
  by (simp add: has_at_least_def less_eq_member_role_def)

lemma permission_level_le: "permission_level r \<le> permission_level s \<longleftrightarrow> r \<le> s"
  by (simp add: less_eq_member_role_def)

lemma permission_level_less: "permission_level r < permission_level s \<longleftrightarrow> r < s"
  by (simp add: less_member_role_def)

lemma role_from_as_str [simp]: "role_from_str (role_as_str r) = Ok r"
  by (cases r) (simp_all add: role_from_str_def)

lemma role_as_str_inj [simp]: "role_as_str r = role_as_str s \<longleftrightarrow> r = s"
  by (cases r; cases s) simp_all

lemma role_from_str_Ok: "role_from_str s = Ok r \<longleftrightarrow> s = role_as_str r"
  by (cases r) (auto simp: role_from_str_def split: if_splits)

lemma visibility_from_str_Ok: "visibility_from_str s = Ok v \<longleftrightarrow> s = visibility_as_str v"
  by (cases v) (auto simp: visibility_from_str_def split: if_splits)

lemma channel_type_from_str_Ok: "channel_type_from_str s = Ok t \<longleftrightarrow> s = channel_type_as_str t"
  by (cases t) (auto simp: channel_type_from_str_def split: if_splits)

end
