(* ===== verification/Git_Perms.thy ===== *)
theory Git_Perms
  imports Channel_Roles
begin

text \<open>
  Git push permissions (\<open>crates/buzz-core/src/git_perms.rs\<close>): ref patterns and their
  matching, the \<open>buzz-protect\<close> rules of a repository announcement and their parser, the
  union of the rules that match a ref, and the decision on one ref update and on a whole
  push. A call of \<open>unreachable!\<close> in the matcher is \<open>None\<close>.
\<close>

section \<open>Limits\<close>

definition MAX_PROTECTION_RULES :: nat where "MAX_PROTECTION_RULES = 50"

definition MAX_PATTERN_LENGTH :: nat where "MAX_PATTERN_LENGTH = 256"

definition MAX_WILDCARDS_PER_PATTERN :: nat where "MAX_WILDCARDS_PER_PATTERN = 3"

lemmas git_limits = MAX_PROTECTION_RULES_def MAX_PATTERN_LENGTH_def MAX_WILDCARDS_PER_PATTERN_def

section \<open>Ref patterns\<close>

datatype pattern_segment = Literal string | Wildcard | RecursiveWildcard

record ref_pattern =
  raw :: string
  segments :: "pattern_segment list"

datatype pattern_error =
  Empty | TooLong | MissingRefsPrefix | InvalidSegment string | TooManyWildcards

definition is_glob_char :: "char \<Rightarrow> bool" where
  "is_glob_char c \<longleftrightarrow> c = CHR ''*'' \<or> c = CHR ''?'' \<or> c = CHR ''['' \<or> c = CHR '']''"

definition is_segment_char :: "char \<Rightarrow> bool" where
  "is_segment_char c \<longleftrightarrow>
     is_ascii_alphanumeric c \<or> c = CHR ''.'' \<or> c = CHR ''_'' \<or> c = CHR ''-''"

text \<open>The loop over the parts, with the wildcards counted so far.\<close>

fun parse_segments :: "nat \<Rightarrow> string list \<Rightarrow> (pattern_error, pattern_segment list) result" where
  "parse_segments wildcard_count [] = Ok []"
| "parse_segments wildcard_count (part # rest) =
     (if part = ''**'' then
        if rest \<noteq> [] then Err (InvalidSegment ''** must be the last segment'')
        else if wildcard_count + 1 > MAX_WILDCARDS_PER_PATTERN then Err TooManyWildcards
        else and_then (parse_segments (wildcard_count + 1) rest) (\<lambda>ss. Ok (RecursiveWildcard # ss))
      else if part = ''*'' then
        if wildcard_count + 1 > MAX_WILDCARDS_PER_PATTERN then Err TooManyWildcards
        else and_then (parse_segments (wildcard_count + 1) rest) (\<lambda>ss. Ok (Wildcard # ss))
      else if part = [] then Err (InvalidSegment [])
      else if list_ex is_glob_char part then Err (InvalidSegment part)
      else if \<not> list_all is_segment_char part then Err (InvalidSegment part)
      else and_then (parse_segments wildcard_count rest) (\<lambda>ss. Ok (Literal part # ss)))"

definition ref_pattern_parse :: "string \<Rightarrow> (pattern_error, ref_pattern) result" where
  "ref_pattern_parse pattern =
     (if pattern = [] then Err Empty
      else if length pattern > MAX_PATTERN_LENGTH then Err TooLong
      else if \<not> starts_with pattern ''refs/'' then Err MissingRefsPrefix
      else and_then (parse_segments 0 (split_on CHR ''/'' pattern))
             (\<lambda>ss. Ok \<lparr>raw = pattern, segments = ss\<rparr>))"

fun segment_matches :: "pattern_segment \<Rightarrow> string \<Rightarrow> bool option" where
  "segment_matches Wildcard seg = Some True"
| "segment_matches (Literal lit) seg = Some (lit = seg)"
| "segment_matches RecursiveWildcard seg = None"

text \<open>\<open>Iterator::all\<close>: stops at the first mismatch.\<close>

fun all_segments_match :: "(pattern_segment \<times> string) list \<Rightarrow> bool option" where
  "all_segments_match [] = Some True"
| "all_segments_match ((pat, seg) # rest) =
     (case segment_matches pat seg of
        None \<Rightarrow> None
      | Some b \<Rightarrow> if b then all_segments_match rest else Some False)"

definition ref_pattern_matches :: "ref_pattern \<Rightarrow> string \<Rightarrow> bool option" where
  "ref_pattern_matches p ref =
     (let ref_segments = split_on CHR ''/'' ref in
      if segments p \<noteq> [] \<and> last (segments p) = RecursiveWildcard then
        (let prefix_len = length (segments p) - 1 in
         if length ref_segments \<le> prefix_len then Some False
         else all_segments_match (zip (take prefix_len (segments p)) (take prefix_len ref_segments)))
      else if length ref_segments \<noteq> length (segments p) then Some False
      else all_segments_match (zip (segments p) ref_segments))"

section \<open>Ref updates\<close>

datatype update_kind = Create | FastForward | NonFastForward | Delete

definition ZERO_OID :: string where
  "ZERO_OID = replicate 40 CHR ''0''"

definition classify :: "string \<Rightarrow> string \<Rightarrow> bool \<Rightarrow> update_kind" where
  "classify old_oid new_oid is_ancestor =
     (if old_oid = ZERO_OID then Create
      else if new_oid = ZERO_OID then Delete
      else if is_ancestor then FastForward
      else NonFastForward)"

record ref_update =
  ref_name :: string
  kind :: update_kind
  old_oid :: string
  new_oid :: string

section \<open>Protection rules\<close>

record protection_rule =
  pattern :: ref_pattern
  push_role :: "member_role option"
  no_force_push :: bool
  no_delete :: bool
  require_patch :: bool

datatype rule_parse_error =
  TooFewValues | TooManyRules | InvalidPattern pattern_error | UnknownRule string
| InvalidRole string

definition take_strictest :: "member_role option \<Rightarrow> member_role \<Rightarrow> member_role option" where
  "take_strictest current role =
     Some (case current of
             None \<Rightarrow> role
           | Some existing \<Rightarrow>
               if permission_level role > permission_level existing then role else existing)"

text \<open>One pass of the loop over the rule strings of a tag.\<close>

fun parse_rule_strings ::
  "protection_rule \<Rightarrow> string list \<Rightarrow> string list \<Rightarrow>
   (rule_parse_error, protection_rule \<times> string list) result" where
  "parse_rule_strings r unknown [] = Ok (r, unknown)"
| "parse_rule_strings r unknown (rule_str # rest) =
     (case strip_prefix ''push:'' rule_str of
        Some role_str \<Rightarrow>
          (case role_from_str role_str of
             Inl e \<Rightarrow> Err (InvalidRole role_str)
           | Inr role \<Rightarrow>
               if role = Bot \<or> role = Guest then Err (InvalidRole role_str)
               else parse_rule_strings (r\<lparr>push_role := take_strictest (push_role r) role\<rparr>) unknown rest)
      | None \<Rightarrow>
          if rule_str = ''no-force-push'' then parse_rule_strings (r\<lparr>no_force_push := True\<rparr>) unknown rest
          else if rule_str = ''no-delete'' then parse_rule_strings (r\<lparr>no_delete := True\<rparr>) unknown rest
          else if rule_str = ''require-patch'' then parse_rule_strings (r\<lparr>require_patch := True\<rparr>) unknown rest
          else parse_rule_strings r (unknown @ [rule_str]) rest)"

definition parse_protection_tag_with_warnings ::
  "string list \<Rightarrow> (rule_parse_error, protection_rule \<times> string list) result" where
  "parse_protection_tag_with_warnings values =
     (case values of
        pat # rule # rest \<Rightarrow>
          (case ref_pattern_parse pat of
             Inl e \<Rightarrow> Err (InvalidPattern e)
           | Inr p \<Rightarrow>
               parse_rule_strings
                 \<lparr>pattern = p, push_role = None, no_force_push = False, no_delete = False,
                  require_patch = False\<rparr>
                 [] (rule # rest))
      | _ \<Rightarrow> Err TooFewValues)"

definition parse_protection_tag :: "string list \<Rightarrow> (rule_parse_error, protection_rule) result" where
  "parse_protection_tag values =
     and_then (parse_protection_tag_with_warnings values) (\<lambda>(rule, unknowns). Ok rule)"

record parsed_protection =
  rules :: "protection_rule list"
  unknown_rules :: "string list"

fun parse_tags_from ::
  "parsed_protection \<Rightarrow> string list list \<Rightarrow> (rule_parse_error, parsed_protection) result" where
  "parse_tags_from acc [] = Ok acc"
| "parse_tags_from acc (tag # tags) =
     (case tag of
        [] \<Rightarrow> parse_tags_from acc tags
      | name # values \<Rightarrow>
          if name \<noteq> ''buzz-protect'' then parse_tags_from acc tags
          else if length (rules acc) \<ge> MAX_PROTECTION_RULES then Err TooManyRules
          else and_then (parse_protection_tag_with_warnings values)
                 (\<lambda>(rule, unknowns).
                    parse_tags_from
                      \<lparr>rules = rules acc @ [rule], unknown_rules = unknown_rules acc @ unknowns\<rparr> tags))"

definition parse_protection_tags ::
  "string list list \<Rightarrow> (rule_parse_error, parsed_protection) result" where
  "parse_protection_tags tags = parse_tags_from \<lparr>rules = [], unknown_rules = []\<rparr> tags"

section \<open>Effective rules and decisions\<close>

definition default_min_role :: "string \<Rightarrow> update_kind \<Rightarrow> member_role" where
  "default_min_role ref k =
     (let is_branch = starts_with ref ''refs/heads/''; is_tag = starts_with ref ''refs/tags/'' in
      case k of
        Create \<Rightarrow> if is_branch \<or> is_tag then Member else Admin
      | FastForward \<Rightarrow> if is_branch then Member else if is_tag then Admin else Admin
      | NonFastForward \<Rightarrow> Admin
      | Delete \<Rightarrow> Admin)"

record effective_rules =
  eff_push_role :: "member_role option"
  eff_no_force_push :: bool
  eff_no_delete :: bool
  eff_require_patch :: bool
  has_explicit_match :: bool

definition for_ref_step :: "string \<Rightarrow> effective_rules \<Rightarrow> protection_rule \<Rightarrow> effective_rules" where
  "for_ref_step ref acc rule =
     (if ref_pattern_matches (pattern rule) ref \<noteq> Some True then acc
      else \<lparr>eff_push_role = (case push_role rule of
                                None \<Rightarrow> eff_push_role acc
                              | Some role \<Rightarrow> take_strictest (eff_push_role acc) role),
            eff_no_force_push = (eff_no_force_push acc \<or> no_force_push rule),
            eff_no_delete = (eff_no_delete acc \<or> no_delete rule),
            eff_require_patch = (eff_require_patch acc \<or> require_patch rule),
            has_explicit_match = True\<rparr>)"

definition for_ref :: "string \<Rightarrow> protection_rule list \<Rightarrow> effective_rules" where
  "for_ref ref rs =
     foldl (for_ref_step ref)
       \<lparr>eff_push_role = None, eff_no_force_push = False, eff_no_delete = False,
        eff_require_patch = False, has_explicit_match = False\<rparr> rs"

record denial =
  denied_ref :: string
  reason :: string

definition requires_role_reason :: "member_role \<Rightarrow> member_role \<Rightarrow> string" where
  "requires_role_reason min_role role =
     ''requires '' @ role_as_str min_role @ '' role (you have '' @ role_as_str role @ '')''"

definition evaluate_ref_update ::
  "ref_update \<Rightarrow> member_role \<Rightarrow> protection_rule list \<Rightarrow> (denial, unit) result" where
  "evaluate_ref_update update role rs =
     (let effective = for_ref (ref_name update) rs in
      if \<not> has_explicit_match effective then
        (let min_role = default_min_role (ref_name update) (kind update) in
         if \<not> has_at_least role min_role then
           Err \<lparr>denied_ref = ref_name update,
                reason = requires_role_reason min_role role @ '', using built-in defaults''\<rparr>
         else Ok ())
      else if eff_require_patch effective then
        Err \<lparr>denied_ref = ref_name update,
             reason = ''direct push denied: require-patch is set, submit a NIP-34 patch''\<rparr>
      else
        (let default_role = default_min_role (ref_name update) (kind update);
             min_role = (case eff_push_role effective of
                           Some explicit \<Rightarrow>
                             if permission_level explicit \<ge> permission_level default_role
                             then explicit else default_role
                         | None \<Rightarrow> default_role) in
         if \<not> has_at_least role min_role then
           Err \<lparr>denied_ref = ref_name update, reason = requires_role_reason min_role role\<rparr>
         else if eff_no_force_push effective \<and> kind update = NonFastForward then
           Err \<lparr>denied_ref = ref_name update,
                reason = ''non-fast-forward update denied: no-force-push is set''\<rparr>
         else if eff_no_delete effective \<and> kind update = Delete then
           Err \<lparr>denied_ref = ref_name update, reason = ''ref deletion denied: no-delete is set''\<rparr>
         else Ok ()))"

definition denials_of ::
  "ref_update list \<Rightarrow> member_role \<Rightarrow> protection_rule list \<Rightarrow> denial list" where
  "denials_of updates role rs =
     List.map_filter
       (\<lambda>u. case evaluate_ref_update u role rs of Inl d \<Rightarrow> Some d | Inr x \<Rightarrow> None) updates"

definition evaluate_push ::
  "ref_update list \<Rightarrow> member_role \<Rightarrow> protection_rule list \<Rightarrow> (denial list, unit) result" where
  "evaluate_push updates role rs =
     (let denials = denials_of updates role rs in
      if denials = [] then Ok () else Err denials)"

section \<open>Well-formed patterns and what they match\<close>

fun segment_text :: "pattern_segment \<Rightarrow> string" where
  "segment_text (Literal l) = l"
| "segment_text Wildcard = ''*''"
| "segment_text RecursiveWildcard = ''**''"

fun is_wildcard :: "pattern_segment \<Rightarrow> bool" where
  "is_wildcard (Literal l) = False"
| "is_wildcard s = True"

definition wf_segments :: "pattern_segment list \<Rightarrow> bool" where
  "wf_segments ss \<longleftrightarrow>
     RecursiveWildcard \<notin> set (butlast ss) \<and>
     length (filter is_wildcard ss) \<le> MAX_WILDCARDS_PER_PATTERN \<and>
     (\<forall>l. Literal l \<in> set ss \<longrightarrow> l \<noteq> [] \<and> list_all is_segment_char l)"

text \<open>The meaning of a pattern, segment by segment.\<close>

fun glob :: "pattern_segment list \<Rightarrow> string list \<Rightarrow> bool" where
  "glob [] [] = True"
| "glob [RecursiveWildcard] (s # ss) = True"
| "glob (Wildcard # ps) (s # ss) = glob ps ss"
| "glob (Literal l # ps) (s # ss) = (l = s \<and> glob ps ss)"
| "glob _ _ = False"

lemma parse_segments_text: "parse_segments n parts = Ok ss \<Longrightarrow> map segment_text ss = parts"
  by (induction n parts arbitrary: ss rule: parse_segments.induct) (auto split: if_splits)

lemma parse_segments_last:
  "parse_segments n parts = Ok ss \<Longrightarrow> RecursiveWildcard \<notin> set (butlast ss)"
  by (induction n parts arbitrary: ss rule: parse_segments.induct) (auto split: if_splits)

lemma parse_segments_wildcards:
  "parse_segments n parts = Ok ss \<Longrightarrow> n \<le> MAX_WILDCARDS_PER_PATTERN \<Longrightarrow>
   n + length (filter is_wildcard ss) \<le> MAX_WILDCARDS_PER_PATTERN"
  by (induction n parts arbitrary: ss rule: parse_segments.induct) (fastforce split: if_splits)+

lemma parse_segments_literals:
  "parse_segments n parts = Ok ss \<Longrightarrow> Literal l \<in> set ss \<Longrightarrow> l \<noteq> [] \<and> list_all is_segment_char l"
  by (induction n parts arbitrary: ss rule: parse_segments.induct) (fastforce split: if_splits)+

lemma ref_pattern_parse_Ok:
  assumes "ref_pattern_parse pat = Ok p"
  shows "raw p = pat" "parse_segments 0 (split_on CHR ''/'' pat) = Ok (segments p)"
    and "wf_segments (segments p)" "map segment_text (segments p) = split_on CHR ''/'' pat"
proof -
  from assms show "raw p = pat" and s: "parse_segments 0 (split_on CHR ''/'' pat) = Ok (segments p)"
    by (auto simp: ref_pattern_parse_def split: if_splits)
  from parse_segments_last [OF s] parse_segments_wildcards [OF s] parse_segments_literals [OF s]
  show "wf_segments (segments p)" by (simp add: wf_segments_def)
  from s show "map segment_text (segments p) = split_on CHR ''/'' pat" by (rule parse_segments_text)
qed

lemma glob_length: "RecursiveWildcard \<notin> set ps \<Longrightarrow> glob ps ss \<Longrightarrow> length ps = length ss"
  by (induction ps ss rule: glob.induct) auto

lemma all_segments_match_plain:
  "length ps = length ss \<Longrightarrow> RecursiveWildcard \<notin> set ps \<Longrightarrow>
   all_segments_match (zip ps ss) = Some (glob ps ss)"
proof (induction ps ss rule: list_induct2)
  case (Cons p ps s ss)
  then show ?case by (cases p) auto
qed simp

lemma glob_recursive_length: "glob (ps @ [RecursiveWildcard]) ss \<Longrightarrow> length ps < length ss"
proof (induction ps arbitrary: ss)
  case Nil
  then show ?case by (cases ss) auto
next
  case (Cons p ps)
  then show ?case by (cases ss; cases p) (auto simp: neq_Nil_conv, cases ps, auto)
qed

lemma all_segments_match_recursive:
  "length ps < length ss \<Longrightarrow> RecursiveWildcard \<notin> set ps \<Longrightarrow>
   all_segments_match (zip ps (take (length ps) ss)) = Some (glob (ps @ [RecursiveWildcard]) ss)"
proof (induction ps arbitrary: ss)
  case Nil
  then show ?case by (cases ss) auto
next
  case (Cons p ps)
  then show ?case by (cases ss; cases p) auto
qed

lemma ref_pattern_matches_glob:
  assumes "RecursiveWildcard \<notin> set (butlast (segments p))"
  shows "ref_pattern_matches p ref = Some (glob (segments p) (split_on CHR ''/'' ref))"
proof (cases "segments p \<noteq> [] \<and> last (segments p) = RecursiveWildcard")
  case True
  then have s: "segments p = butlast (segments p) @ [RecursiveWildcard]"
    by (metis append_butlast_last_id)
  have b: "take (length (segments p) - Suc 0) (segments p) = butlast (segments p)"
    by (simp add: butlast_conv_take)
  from s b True assms show ?thesis
    using all_segments_match_recursive [of "butlast (segments p)" "split_on CHR ''/'' ref"]
      glob_recursive_length [of "butlast (segments p)" "split_on CHR ''/'' ref"]
    by (auto simp: ref_pattern_matches_def Let_def not_le)
next
  case False
  then have "RecursiveWildcard \<notin> set (segments p)"
    using assms by (cases "segments p" rule: rev_cases) auto
  with False show ?thesis
    using all_segments_match_plain [of "segments p" "split_on CHR ''/'' ref"]
      glob_length [of "segments p" "split_on CHR ''/'' ref"]
    by (auto simp: ref_pattern_matches_def Let_def)
qed

lemma glob_literals: "filter is_wildcard ps = [] \<Longrightarrow> glob ps ss \<longleftrightarrow> map segment_text ps = ss"
proof (induction ps arbitrary: ss)
  case Nil
  then show ?case by (cases ss) auto
next
  case (Cons p ps)
  then show ?case by (cases p; cases ss) (auto split: if_splits)
qed

section \<open>The union of the matching rules\<close>

definition rule_matches :: "string \<Rightarrow> protection_rule \<Rightarrow> bool" where
  "rule_matches ref r \<longleftrightarrow> ref_pattern_matches (pattern r) ref = Some True"

lemma take_strictest_bound: "take_strictest c r = Some m \<Longrightarrow> m \<le> b \<longleftrightarrow> r \<le> b \<and> (\<forall>e. c = Some e \<longrightarrow> e \<le> b)"
  by (auto simp: take_strictest_def permission_level_less split: option.splits if_splits)

lemma take_strictest_not_None [simp]: "take_strictest c r \<noteq> None"
  by (simp add: take_strictest_def)

definition eff_role_le :: "effective_rules \<Rightarrow> member_role \<Rightarrow> bool" where
  "eff_role_le e b \<longleftrightarrow> (\<forall>m. eff_push_role e = Some m \<longrightarrow> m \<le> b)"

lemma for_ref_step_simps:
  "has_explicit_match (for_ref_step ref a r) \<longleftrightarrow> has_explicit_match a \<or> rule_matches ref r"
  "eff_require_patch (for_ref_step ref a r) \<longleftrightarrow> eff_require_patch a \<or> rule_matches ref r \<and> require_patch r"
  "eff_no_force_push (for_ref_step ref a r) \<longleftrightarrow> eff_no_force_push a \<or> rule_matches ref r \<and> no_force_push r"
  "eff_no_delete (for_ref_step ref a r) \<longleftrightarrow> eff_no_delete a \<or> rule_matches ref r \<and> no_delete r"
  by (auto simp: for_ref_step_def rule_matches_def)

lemma for_ref_step_role:
  "eff_role_le (for_ref_step ref a r) b \<longleftrightarrow>
     eff_role_le a b \<and> (rule_matches ref r \<longrightarrow> (\<forall>m. push_role r = Some m \<longrightarrow> m \<le> b))"
  by (auto simp: for_ref_step_def rule_matches_def eff_role_le_def take_strictest_def
      permission_level_less split: option.splits if_splits)

lemma for_ref_foldl:
  "has_explicit_match (foldl (for_ref_step ref) a rs) \<longleftrightarrow>
     has_explicit_match a \<or> (\<exists>r \<in> set rs. rule_matches ref r)"
  "eff_require_patch (foldl (for_ref_step ref) a rs) \<longleftrightarrow>
     eff_require_patch a \<or> (\<exists>r \<in> set rs. rule_matches ref r \<and> require_patch r)"
  "eff_no_force_push (foldl (for_ref_step ref) a rs) \<longleftrightarrow>
     eff_no_force_push a \<or> (\<exists>r \<in> set rs. rule_matches ref r \<and> no_force_push r)"
  "eff_no_delete (foldl (for_ref_step ref) a rs) \<longleftrightarrow>
     eff_no_delete a \<or> (\<exists>r \<in> set rs. rule_matches ref r \<and> no_delete r)"
  "eff_role_le (foldl (for_ref_step ref) a rs) b \<longleftrightarrow>
     eff_role_le a b \<and>
     (\<forall>r \<in> set rs. rule_matches ref r \<longrightarrow> (\<forall>m. push_role r = Some m \<longrightarrow> m \<le> b))"
  by (induction rs arbitrary: a) (auto simp: for_ref_step_simps for_ref_step_role)

lemma for_ref_simps:
  "has_explicit_match (for_ref ref rs) \<longleftrightarrow> (\<exists>r \<in> set rs. rule_matches ref r)"
  "eff_require_patch (for_ref ref rs) \<longleftrightarrow> (\<exists>r \<in> set rs. rule_matches ref r \<and> require_patch r)"
  "eff_no_force_push (for_ref ref rs) \<longleftrightarrow> (\<exists>r \<in> set rs. rule_matches ref r \<and> no_force_push r)"
  "eff_no_delete (for_ref ref rs) \<longleftrightarrow> (\<exists>r \<in> set rs. rule_matches ref r \<and> no_delete r)"
  "eff_role_le (for_ref ref rs) b \<longleftrightarrow>
     (\<forall>r \<in> set rs. rule_matches ref r \<longrightarrow> (\<forall>m. push_role r = Some m \<longrightarrow> m \<le> b))"
  by (simp_all add: for_ref_def for_ref_foldl) (simp add: eff_role_le_def)

text \<open>One rule, taken alone, permits an update by a role.\<close>

definition rule_permits :: "ref_update \<Rightarrow> member_role \<Rightarrow> protection_rule \<Rightarrow> bool" where
  "rule_permits u role r \<longleftrightarrow>
     \<not> require_patch r \<and> (\<forall>m. push_role r = Some m \<longrightarrow> has_at_least role m) \<and>
     \<not> (no_force_push r \<and> kind u = NonFastForward) \<and> \<not> (no_delete r \<and> kind u = Delete)"

lemma min_role_le:
  "(case eff_push_role e of
      Some x \<Rightarrow> if permission_level x \<ge> permission_level d then x else d | None \<Rightarrow> d) \<le> b \<longleftrightarrow>
   d \<le> b \<and> eff_role_le e b"
  by (auto simp: eff_role_le_def permission_level_le split: option.splits)

lemma evaluate_ref_update_Ok_iff:
  "evaluate_ref_update u role rs = Ok () \<longleftrightarrow>
     has_at_least role (default_min_role (ref_name u) (kind u)) \<and>
     (\<forall>r \<in> set rs. rule_matches (ref_name u) r \<longrightarrow> rule_permits u role r)"
proof (cases "has_explicit_match (for_ref (ref_name u) rs)")
  case False
  then show ?thesis
    by (auto simp: evaluate_ref_update_def Let_def for_ref_simps)
next
  case True
  then have "evaluate_ref_update u role rs = Ok () \<longleftrightarrow>
      \<not> eff_require_patch (for_ref (ref_name u) rs) \<and>
      default_min_role (ref_name u) (kind u) \<le> role \<and> eff_role_le (for_ref (ref_name u) rs) role \<and>
      \<not> (eff_no_force_push (for_ref (ref_name u) rs) \<and> kind u = NonFastForward) \<and>
      \<not> (eff_no_delete (for_ref (ref_name u) rs) \<and> kind u = Delete)"
    by (auto simp: evaluate_ref_update_def Let_def has_at_least_iff_le min_role_le)
  then show ?thesis
    unfolding for_ref_simps rule_permits_def has_at_least_iff_le by blast
qed

lemma evaluate_ref_update_denied_ref:
  "evaluate_ref_update u role rs = Err d \<Longrightarrow> denied_ref d = ref_name u"
  by (auto simp: evaluate_ref_update_def Let_def split: if_splits)

lemma result_unit_cases: "r = Ok () \<or> (\<exists>e. r = Err e)"
  by (cases r) auto

lemma denials_of_simps [simp]:
  "denials_of [] role rs = []"
  "denials_of (u # us) role rs =
     (case evaluate_ref_update u role rs of Inl d \<Rightarrow> [d] | Inr x \<Rightarrow> []) @ denials_of us role rs"
  by (simp_all add: denials_of_def map_filter_simps split: sum.splits)

lemma denials_of_empty_iff:
  "denials_of us role rs = [] \<longleftrightarrow> (\<forall>u \<in> set us. evaluate_ref_update u role rs = Ok ())"
  by (induction us) (auto split: sum.splits)

lemma denied_refs_of:
  "map denied_ref (denials_of us role rs) =
     map ref_name (filter (\<lambda>u. evaluate_ref_update u role rs \<noteq> Ok ()) us)"
  by (induction us) (auto simp: evaluate_ref_update_denied_ref split: sum.splits)

section \<open>What a parsed rule says\<close>

definition known_flag :: "string \<Rightarrow> bool" where
  "known_flag s \<longleftrightarrow> s = ''no-force-push'' \<or> s = ''no-delete'' \<or> s = ''require-patch''"

definition is_push_rule :: "string \<Rightarrow> bool" where
  "is_push_rule s \<longleftrightarrow> strip_prefix ''push:'' s \<noteq> None"

definition push_rule_text :: "member_role \<Rightarrow> string" where
  "push_rule_text r = ''push:'' @ role_as_str r"

definition rule_role_le :: "protection_rule \<Rightarrow> member_role \<Rightarrow> bool" where
  "rule_role_le r b \<longleftrightarrow> (\<forall>m. push_role r = Some m \<longrightarrow> m \<le> b)"

text \<open>The rule \<open>r'\<close> adds to \<open>r\<close> exactly the rule strings \<open>ss\<close>.\<close>

definition rule_extends :: "protection_rule \<Rightarrow> string list \<Rightarrow> protection_rule \<Rightarrow> bool" where
  "rule_extends r ss r' \<longleftrightarrow>
     pattern r' = pattern r \<and>
     no_force_push r' = (no_force_push r \<or> ''no-force-push'' \<in> set ss) \<and>
     no_delete r' = (no_delete r \<or> ''no-delete'' \<in> set ss) \<and>
     require_patch r' = (require_patch r \<or> ''require-patch'' \<in> set ss) \<and>
     (\<forall>b. rule_role_le r' b \<longleftrightarrow>
           rule_role_le r b \<and> (\<forall>m. push_rule_text m \<in> set ss \<longrightarrow> m \<le> b))"

lemma rule_extends_refl: "rule_extends r [] r"
  by (simp add: rule_extends_def)

lemma push_rule_text_inj [simp]: "push_rule_text m = push_rule_text n \<longleftrightarrow> m = n"
  by (cases m; cases n) (simp_all add: push_rule_text_def)

lemma push_rule_text_not_flag:
  "push_rule_text m \<noteq> ''no-force-push''" "push_rule_text m \<noteq> ''no-delete''"
  "push_rule_text m \<noteq> ''require-patch''"
  by (simp_all add: push_rule_text_def)

lemma is_push_rule_text: "is_push_rule (push_rule_text m)"
  by (simp add: is_push_rule_def push_rule_text_def strip_prefix_def)

lemma push_rule_text_of: "strip_prefix ''push:'' s = Some t \<Longrightarrow> role_from_str t = Ok m \<Longrightarrow> s = push_rule_text m"
  by (simp add: strip_prefix_Some role_from_str_Ok push_rule_text_def)

lemma rule_extendsD:
  assumes "rule_extends r ss r'"
  shows "pattern r' = pattern r" "no_force_push r' = (no_force_push r \<or> ''no-force-push'' \<in> set ss)"
    and "no_delete r' = (no_delete r \<or> ''no-delete'' \<in> set ss)"
    and "require_patch r' = (require_patch r \<or> ''require-patch'' \<in> set ss)"
    and "rule_role_le r' b \<longleftrightarrow> rule_role_le r b \<and> (\<forall>m. push_rule_text m \<in> set ss \<longrightarrow> m \<le> b)"
  using assms by (simp_all only: rule_extends_def)

lemma rule_extends_step:
  assumes a: "rule_extends r [s] r1" and b: "rule_extends r1 ss r2"
  shows "rule_extends r (s # ss) r2"
  unfolding rule_extends_def rule_extendsD [OF b] rule_extendsD [OF a] by auto

lemma rule_extends_unknown:
  "\<not> is_push_rule s \<Longrightarrow> \<not> known_flag s \<Longrightarrow> rule_extends r [s] r"
  using is_push_rule_text by (auto simp: rule_extends_def known_flag_def)

lemma rule_extends_flag:
  "rule_extends r [''no-force-push''] (r\<lparr>no_force_push := True\<rparr>)"
  "rule_extends r [''no-delete''] (r\<lparr>no_delete := True\<rparr>)"
  "rule_extends r [''require-patch''] (r\<lparr>require_patch := True\<rparr>)"
  by (simp_all add: rule_extends_def rule_role_le_def push_rule_text_not_flag)

lemma rule_extends_push:
  "rule_extends r [push_rule_text m] (r\<lparr>push_role := take_strictest (push_role r) m\<rparr>)"
proof -
  have "rule_role_le (r\<lparr>push_role := take_strictest (push_role r) m\<rparr>) b \<longleftrightarrow> rule_role_le r b \<and> m \<le> b" for b
    by (auto simp: rule_role_le_def take_strictest_def permission_level_less split: option.splits if_splits)
  then show ?thesis
    using push_rule_text_not_flag [of m] by (simp add: rule_extends_def)
qed

lemma parse_rule_strings_Ok:
  "parse_rule_strings r unk ss = Ok (r', unk') \<Longrightarrow>
   rule_extends r ss r' \<and> unk' = unk @ filter (\<lambda>s. \<not> is_push_rule s \<and> \<not> known_flag s) ss"
proof (induction ss arbitrary: r unk)
  case Nil
  then show ?case by (simp add: rule_extends_refl)
next
  case (Cons s ss)
  show ?case
  proof (cases "strip_prefix ''push:'' s")
    case (Some t)
    then obtain m where m: "role_from_str t = Ok m"
      and p: "parse_rule_strings (r\<lparr>push_role := take_strictest (push_role r) m\<rparr>) unk ss = Ok (r', unk')"
      using Cons.prems by (auto split: sum.splits if_splits)
    from Cons.IH [OF p] rule_extends_push [of r m] have "rule_extends r (push_rule_text m # ss) r'"
      by (blast intro: rule_extends_step)
    with Cons.IH [OF p] Some push_rule_text_of [OF Some m] show ?thesis
      by (simp add: is_push_rule_def)
  next
    case None
    then have np: "\<not> is_push_rule s" by (simp add: is_push_rule_def)
    show ?thesis
    proof (cases "known_flag s")
      case True
      with None Cons.prems Cons.IH show ?thesis
        unfolding known_flag_def
        by (elim disjE) (auto intro: rule_extends_step rule_extends_flag)
    next
      case False
      with None Cons.prems have "parse_rule_strings r (unk @ [s]) ss = Ok (r', unk')"
        by (auto simp: known_flag_def)
      from Cons.IH [OF this] np False show ?thesis
        by (auto intro: rule_extends_step rule_extends_unknown)
    qed
  qed
qed

lemma parse_rule_strings_role:
  "parse_rule_strings r unk ss = Ok (r', unk') \<Longrightarrow> (\<And>m. push_role r = Some m \<Longrightarrow> Member \<le> m) \<Longrightarrow>
   push_role r' = Some m \<Longrightarrow> Member \<le> m"
proof (induction r unk ss rule: parse_rule_strings.induct)
  case (2 r unk s ss)
  have "Member \<le> n" if "n \<noteq> Bot" "n \<noteq> Guest" for n
    using that by (cases n) (simp_all add: less_eq_member_role_def)
  with 2 show ?case
    by (auto simp: take_strictest_def split: option.splits sum.splits if_splits)
qed simp

lemma parse_tags_from_count:
  "parse_tags_from acc tags = Ok p \<Longrightarrow> length (rules acc) \<le> MAX_PROTECTION_RULES \<Longrightarrow>
   length (rules p) \<le> MAX_PROTECTION_RULES \<and>
   length (rules p) = length (rules acc) + length (filter (\<lambda>t. t \<noteq> [] \<and> hd t = ''buzz-protect'') tags)"
proof (induction acc tags rule: parse_tags_from.induct)
  case (2 acc tag tags)
  then show ?case by (cases tag) (auto split: if_splits)
qed simp

lemma parse_tags_from_rules:
  "parse_tags_from acc tags = Ok p \<Longrightarrow> r \<in> set (rules p) \<Longrightarrow> r \<notin> set (rules acc) \<Longrightarrow>
   \<exists>vs u. (''buzz-protect'' # vs) \<in> set tags \<and>
     parse_protection_tag_with_warnings vs = Ok (r, u)"
proof (induction tags arbitrary: acc)
  case (Cons tag tags)
  show ?case
  proof (cases "tag \<noteq> [] \<and> hd tag = ''buzz-protect''")
    case True
    then obtain vs where t: "tag = ''buzz-protect'' # vs" by (cases tag) auto
    with Cons.prems obtain r1 u1 where
      w: "parse_protection_tag_with_warnings vs = Ok (r1, u1)" and
      q: "parse_tags_from \<lparr>rules = rules acc @ [r1], unknown_rules = unknown_rules acc @ u1\<rparr> tags = Ok p"
      by (auto split: if_splits)
    show ?thesis
    proof (cases "r = r1")
      case True
      with w t show ?thesis by auto
    next
      case False
      with Cons.IH [OF q] Cons.prems show ?thesis by auto
    qed
  next
    case False
    with Cons.prems have "parse_tags_from acc tags = Ok p" by (cases tag) auto
    with Cons.IH [OF this] Cons.prems show ?thesis by auto
  qed
qed simp

lemma parse_protection_tag_with_warnings_Ok:
  assumes "parse_protection_tag_with_warnings vs = Ok (r, u)"
  shows "\<exists>pat strs. vs = pat # strs \<and> ref_pattern_parse pat = Ok (pattern r) \<and>
     no_force_push r = (''no-force-push'' \<in> set strs) \<and> no_delete r = (''no-delete'' \<in> set strs) \<and>
     require_patch r = (''require-patch'' \<in> set strs) \<and>
     (\<forall>b. rule_role_le r b \<longleftrightarrow> (\<forall>m. push_rule_text m \<in> set strs \<longrightarrow> m \<le> b)) \<and>
     (\<forall>m. push_role r = Some m \<longrightarrow> Member \<le> m)"
proof -
  from assms obtain pat s0 rest p where v: "vs = pat # s0 # rest" and p: "ref_pattern_parse pat = Ok p"
    and q: "parse_rule_strings \<lparr>pattern = p, push_role = None, no_force_push = False, no_delete = False,
                  require_patch = False\<rparr> [] (s0 # rest) = Ok (r, u)"
    by (auto simp: parse_protection_tag_with_warnings_def split: list.splits sum.splits)
  have e: "rule_extends \<lparr>pattern = p, push_role = None, no_force_push = False, no_delete = False,
                  require_patch = False\<rparr> (s0 # rest) r"
    using parse_rule_strings_Ok [OF q] by simp
  have "Member \<le> m" if "push_role r = Some m" for m
    using parse_rule_strings_role [OF q _ that] by simp
  moreover have "pattern r = p"
    using e by (simp add: rule_extends_def)
  ultimately show ?thesis
    using v p e unfolding rule_extends_def rule_role_le_def by (intro exI [of _ pat] exI [of _ "s0 # rest"]) auto
qed

section \<open>Properties\<close>

text \<open>
  A pattern string that parses is kept as it was written and its segments spell it
  again, joined by slashes. The segments are well formed: a recursive wildcard only in the
  last place, at most three wildcards, and literals over the allowed alphabet.
\<close>

theorem pattern_parse_roundtrip:
  assumes "ref_pattern_parse pat = Ok p"
  shows "raw p = pat \<and> join_with CHR ''/'' (map segment_text (segments p)) = pat \<and>
    wf_segments (segments p) \<and> length pat \<le> MAX_PATTERN_LENGTH \<and> starts_with pat ''refs/''"
  using assms ref_pattern_parse_Ok [OF assms]
  by (auto simp: ref_pattern_parse_def split: if_splits)

theorem pattern_parse_roundtrip_witness:
  "\<exists>p. ref_pattern_parse ''refs/heads/*/**'' = Ok p \<and>
     segments p = [Literal ''refs'', Literal ''heads'', Wildcard, RecursiveWildcard] \<and> wf_segments (segments p)"
proof -
  let ?p = "\<lparr>raw = ''refs/heads/*/**'',
    segments = [Literal ''refs'', Literal ''heads'', Wildcard, RecursiveWildcard]\<rparr>"
  have "ref_pattern_parse ''refs/heads/*/**'' = Ok ?p" by code_simp
  with pattern_parse_roundtrip [OF this] show ?thesis by auto
qed

text \<open>
  Matching against a parsed pattern never panics and is the segment-wise glob: a
  wildcard stands for one segment, a recursive one for one or more at the end, and a
  pattern without wildcards matches the ref with its own spelling and no other.
\<close>

theorem pattern_match_glob:
  assumes "ref_pattern_parse pat = Ok p"
  shows "ref_pattern_matches p ref = Some (glob (segments p) (split_on CHR ''/'' ref)) \<and>
    (filter is_wildcard (segments p) = [] \<longrightarrow> ref_pattern_matches p ref = Some (ref = pat))"
proof -
  note ok = ref_pattern_parse_Ok [OF assms]
  then have m: "ref_pattern_matches p ref = Some (glob (segments p) (split_on CHR ''/'' ref))"
    by (intro ref_pattern_matches_glob) (simp add: wf_segments_def)
  moreover have "glob (segments p) (split_on CHR ''/'' ref) \<longleftrightarrow> ref = pat"
    if "filter is_wildcard (segments p) = []"
    using glob_literals [OF that] ok(4) split_on_inj [of "CHR ''/''" pat ref] by auto
  ultimately show ?thesis by simp
qed

theorem pattern_match_glob_witness:
  "\<exists>p. ref_pattern_parse ''refs/heads/main'' = Ok p \<and>
     ref_pattern_matches p ''refs/heads/main'' = Some True \<and>
     ref_pattern_matches p ''refs/heads/dev'' = Some False"
proof -
  let ?p = "\<lparr>raw = ''refs/heads/main'',
    segments = [Literal ''refs'', Literal ''heads'', Literal ''main'']\<rparr>"
  have p: "ref_pattern_parse ''refs/heads/main'' = Ok ?p" by code_simp
  show ?thesis
    using pattern_match_glob [OF p, of "''refs/heads/main''"]
      pattern_match_glob [OF p, of "''refs/heads/dev''"] p by auto
qed

text \<open>
  The decision on one ref update, exactly: it is allowed when the pusher's role reaches
  the built-in minimum for this kind of update of this ref, and every protection rule whose
  pattern matches the ref permits it. Explicit rules are thus read independently of their
  order and of each other.
\<close>

theorem ref_update_decision_exact:
  "evaluate_ref_update u role rs = Ok () \<longleftrightarrow>
     has_at_least role (default_min_role (ref_name u) (kind u)) \<and>
     filter (\<lambda>r. rule_matches (ref_name u) r \<and> \<not> rule_permits u role r) rs = []"
  by (auto simp: evaluate_ref_update_Ok_iff filter_empty_conv)

text \<open>
  Rules only tighten and roles only loosen. An update allowed under a list of rules is
  allowed under any part of these rules, and to every role at least as high.
\<close>

theorem rules_only_tighten:
  assumes "evaluate_ref_update u role rs = Ok ()" and "set rs' \<subseteq> set rs"
    and "has_at_least role' role"
  shows "evaluate_ref_update u role' rs' = Ok ()"
proof -
  have "has_at_least role' m" if "has_at_least role m" for m
    using that assms(3) by (auto simp: has_at_least_iff_le)
  then show ?thesis
    using assms(1,2) unfolding evaluate_ref_update_Ok_iff rule_permits_def by blast
qed

definition heads_rule :: protection_rule where
  "heads_rule =
     \<lparr>pattern = \<lparr>raw = ''refs/heads/**'', segments = [Literal ''refs'', Literal ''heads'', RecursiveWildcard]\<rparr>,
      push_role = Some Admin, no_force_push = True, no_delete = True, require_patch = False\<rparr>"

theorem rules_only_tighten_witness:
  "evaluate_ref_update \<lparr>ref_name = ''refs/heads/main'', kind = FastForward, old_oid = ''a'', new_oid = ''b''\<rparr>
     Owner [] = Ok ()"
proof -
  have "evaluate_ref_update \<lparr>ref_name = ''refs/heads/main'', kind = FastForward, old_oid = ''a'', new_oid = ''b''\<rparr>
     Admin [heads_rule] = Ok ()" by code_simp
  moreover have "has_at_least Owner Admin" by code_simp
  ultimately show ?thesis by (intro rules_only_tighten [where rs' = "[]"]) simp_all
qed

text \<open>
  A push is all or nothing: it is allowed exactly when each of its updates is, and
  otherwise the denials name precisely the refs whose updates are not allowed, in the order
  of the push.
\<close>

theorem push_all_or_nothing:
  "(evaluate_push us role rs = Ok () \<longleftrightarrow> list_all (\<lambda>u. evaluate_ref_update u role rs = Ok ()) us) \<and>
   (case evaluate_push us role rs of
      Inl ds \<Rightarrow> ds \<noteq> [] \<and> map denied_ref ds =
                  map ref_name (filter (\<lambda>u. evaluate_ref_update u role rs \<noteq> Ok ()) us)
    | Inr x \<Rightarrow> filter (\<lambda>u. evaluate_ref_update u role rs \<noteq> Ok ()) us = [])"
  using denials_of_empty_iff [of us role rs] denied_refs_of [of us role rs]
  by (auto simp: evaluate_push_def Let_def list_all_iff filter_empty_conv)

text \<open>
  What a repository's \<open>buzz-protect\<close> tags say. When the tags parse there is one rule
  per tag and at most fifty; every rule comes from one of the tags, carries that tag's
  pattern and exactly the flags it lists, requires the strictest of the roles it lists, and
  never a role below member; the tag's unknown strings are reported and change nothing.
\<close>

theorem protection_tags_meaning:
  assumes "parse_protection_tags tags = Ok pp"
  shows "length (rules pp) = length (filter (\<lambda>t. t \<noteq> [] \<and> hd t = ''buzz-protect'') tags) \<and>
    length (rules pp) \<le> MAX_PROTECTION_RULES \<and>
    (\<forall>r \<in> set (rules pp). \<exists>pat strs.
       (''buzz-protect'' # pat # strs) \<in> set tags \<and> ref_pattern_parse pat = Ok (pattern r) \<and>
       no_force_push r = (''no-force-push'' \<in> set strs) \<and> no_delete r = (''no-delete'' \<in> set strs) \<and>
       require_patch r = (''require-patch'' \<in> set strs) \<and>
       (\<forall>b. rule_role_le r b \<longleftrightarrow> (\<forall>m. push_rule_text m \<in> set strs \<longrightarrow> m \<le> b)) \<and>
       (\<forall>m. push_role r = Some m \<longrightarrow> Member \<le> m))"
proof -
  have p: "parse_tags_from \<lparr>rules = [], unknown_rules = []\<rparr> tags = Ok pp"
    using assms by (simp add: parse_protection_tags_def)
  have "\<exists>pat strs. (''buzz-protect'' # pat # strs) \<in> set tags \<and> ref_pattern_parse pat = Ok (pattern r) \<and>
       no_force_push r = (''no-force-push'' \<in> set strs) \<and> no_delete r = (''no-delete'' \<in> set strs) \<and>
       require_patch r = (''require-patch'' \<in> set strs) \<and>
       (\<forall>b. rule_role_le r b \<longleftrightarrow> (\<forall>m. push_rule_text m \<in> set strs \<longrightarrow> m \<le> b)) \<and>
       (\<forall>m. push_role r = Some m \<longrightarrow> Member \<le> m)" if r: "r \<in> set (rules pp)" for r
  proof -
    from parse_tags_from_rules [OF p r] obtain vs u where
      t: "(''buzz-protect'' # vs) \<in> set tags" and w: "parse_protection_tag_with_warnings vs = Ok (r, u)"
      by auto
    from parse_protection_tag_with_warnings_Ok [OF w] t show ?thesis by blast
  qed
  then show ?thesis using parse_tags_from_count [OF p] by auto
qed

theorem protection_tags_meaning_witness:
  "\<exists>pp. parse_protection_tags
      [[''d'', ''repo''], [''buzz-protect'', ''refs/heads/main'', ''push:admin'', ''no-delete'', ''later'']] = Ok pp \<and>
     length (rules pp) = 1 \<and> unknown_rules pp = [''later'']"
proof -
  let ?tags = "[[''d'', ''repo''], [''buzz-protect'', ''refs/heads/main'', ''push:admin'', ''no-delete'', ''later'']]"
  let ?pp = "\<lparr>rules = [\<lparr>pattern = \<lparr>raw = ''refs/heads/main'',
         segments = [Literal ''refs'', Literal ''heads'', Literal ''main'']\<rparr>,
       push_role = Some Admin, no_force_push = False, no_delete = True, require_patch = False\<rparr>],
     unknown_rules = [''later'']\<rparr>"
  have "parse_protection_tags ?tags = Ok ?pp" by code_simp
  with protection_tags_meaning [OF this] show ?thesis by simp
qed

end
