(* ===== verification/Nostr_Events.thy ===== *)
theory Nostr_Events
  imports Buzz_Prelude
begin

text \<open>
  Nostr events as the relay keeps them and NIP-01 filters
  (\<open>crates/buzz-core/src/{event,filter,nip10,kind}.rs\<close>). An event id, a public key and a
  UUID are represented by their canonical texts, on which \<open>to_hex\<close> and \<open>to_string\<close> are the
  identity; a tag is its list of strings, its kind the first of them and its content the
  second; a kind is its number. A filter's \<open>BTreeSet\<close>s are lists.
\<close>

section \<open>Events\<close>

type_synonym uuid = string
type_synonym pubkey = string
type_synonym tag = "string list"

record event =
  event_id :: string
  event_pubkey :: pubkey
  created_at :: nat
  event_kind :: nat
  event_tags :: "tag list"
  content :: string
  event_sig :: string

record stored_event =
  the_event :: event
  received_at :: nat
  channel_id :: "uuid option"
  verified :: bool

definition stored_event_new :: "nat \<Rightarrow> event \<Rightarrow> uuid option \<Rightarrow> stored_event" where
  "stored_event_new now e ch =
     \<lparr>the_event = e, received_at = now, channel_id = ch, verified = False\<rparr>"

definition with_received_at :: "event \<Rightarrow> nat \<Rightarrow> uuid option \<Rightarrow> bool \<Rightarrow> stored_event" where
  "with_received_at e t ch v = \<lparr>the_event = e, received_at = t, channel_id = ch, verified = v\<rparr>"

text \<open>\<open>Tag::kind\<close> and \<open>Tag::content\<close>. A tag has at least its kind.\<close>

definition tag_is :: "string \<Rightarrow> tag \<Rightarrow> bool" where
  "tag_is k t \<longleftrightarrow> t \<noteq> [] \<and> hd t = k"

definition tag_content :: "tag \<Rightarrow> string option" where
  "tag_content t = (if length t \<ge> 2 then Some (t ! 1) else None)"

text \<open>The contents of the tags of one kind, in order.\<close>

definition tag_contents :: "string \<Rightarrow> tag list \<Rightarrow> string list" where
  "tag_contents k ts = List.map_filter tag_content (filter (tag_is k) ts)"

section \<open>Kinds\<close>

definition KIND_CHANNEL_METADATA :: nat where "KIND_CHANNEL_METADATA = 41"
definition RELAY_ADMIN_ADD_MEMBER :: nat where "RELAY_ADMIN_ADD_MEMBER = 9030"
definition RELAY_ADMIN_REMOVE_MEMBER :: nat where "RELAY_ADMIN_REMOVE_MEMBER = 9031"
definition RELAY_ADMIN_CHANGE_ROLE :: nat where "RELAY_ADMIN_CHANGE_ROLE = 9032"
definition RELAY_ADMIN_SET_WORKSPACE_PROFILE :: nat where "RELAY_ADMIN_SET_WORKSPACE_PROFILE = 9033"
definition KIND_IA_ARCHIVE_REQUEST :: nat where "KIND_IA_ARCHIVE_REQUEST = 9035"
definition KIND_IA_UNARCHIVE_REQUEST :: nat where "KIND_IA_UNARCHIVE_REQUEST = 9036"
definition KIND_NIP43_MEMBERSHIP_LIST :: nat where "KIND_NIP43_MEMBERSHIP_LIST = 13534"
definition KIND_THREAD_SUMMARY :: nat where "KIND_THREAD_SUMMARY = 39005"
definition KIND_WINDOW_BOUNDS :: nat where "KIND_WINDOW_BOUNDS = 39006"
definition KIND_WORKFLOW_DEF :: nat where "KIND_WORKFLOW_DEF = 30620"
definition KIND_DM_VISIBILITY :: nat where "KIND_DM_VISIBILITY = 30622"
definition PARAM_REPLACEABLE_KIND_MIN :: nat where "PARAM_REPLACEABLE_KIND_MIN = 30000"
definition PARAM_REPLACEABLE_KIND_MAX :: nat where "PARAM_REPLACEABLE_KIND_MAX = 39999"
definition KIND_PAIRING :: nat where "KIND_PAIRING = 24134"
definition EPHEMERAL_KIND_MIN :: nat where "EPHEMERAL_KIND_MIN = 20000"
definition EPHEMERAL_KIND_MAX :: nat where "EPHEMERAL_KIND_MAX = 29999"
definition KIND_CHANNEL_SUMMARY :: nat where "KIND_CHANNEL_SUMMARY = 40901"
definition KIND_PRESENCE_SNAPSHOT :: nat where "KIND_PRESENCE_SNAPSHOT = 40902"
definition KIND_DM_OPEN :: nat where "KIND_DM_OPEN = 41010"
definition KIND_DM_ADD_MEMBER :: nat where "KIND_DM_ADD_MEMBER = 41011"
definition KIND_DM_HIDE :: nat where "KIND_DM_HIDE = 41012"
definition KIND_AGENT_TURN_METRIC :: nat where "KIND_AGENT_TURN_METRIC = 44200"
definition KIND_WORKFLOW_TRIGGER :: nat where "KIND_WORKFLOW_TRIGGER = 46020"
definition KIND_APPROVAL_GRANT :: nat where "KIND_APPROVAL_GRANT = 46030"
definition KIND_APPROVAL_DENY :: nat where "KIND_APPROVAL_DENY = 46031"
definition KIND_WORKFLOW_TRIGGERED :: nat where "KIND_WORKFLOW_TRIGGERED = 46001"
definition KIND_WORKFLOW_APPROVAL_DENIED :: nat where "KIND_WORKFLOW_APPROVAL_DENIED = 46012"
definition KIND_CONTACT_DECISION :: nat where "KIND_CONTACT_DECISION = 46044"

lemmas kind_numbers =
  KIND_CHANNEL_METADATA_def RELAY_ADMIN_ADD_MEMBER_def RELAY_ADMIN_REMOVE_MEMBER_def
  RELAY_ADMIN_CHANGE_ROLE_def RELAY_ADMIN_SET_WORKSPACE_PROFILE_def KIND_IA_ARCHIVE_REQUEST_def
  KIND_IA_UNARCHIVE_REQUEST_def KIND_NIP43_MEMBERSHIP_LIST_def KIND_THREAD_SUMMARY_def
  KIND_WINDOW_BOUNDS_def KIND_WORKFLOW_DEF_def KIND_DM_VISIBILITY_def
  PARAM_REPLACEABLE_KIND_MIN_def PARAM_REPLACEABLE_KIND_MAX_def EPHEMERAL_KIND_MIN_def
  EPHEMERAL_KIND_MAX_def KIND_CHANNEL_SUMMARY_def KIND_PRESENCE_SNAPSHOT_def KIND_DM_OPEN_def
  KIND_DM_ADD_MEMBER_def KIND_DM_HIDE_def KIND_AGENT_TURN_METRIC_def KIND_WORKFLOW_TRIGGER_def
  KIND_APPROVAL_GRANT_def KIND_APPROVAL_DENY_def KIND_WORKFLOW_TRIGGERED_def
  KIND_WORKFLOW_APPROVAL_DENIED_def KIND_CONTACT_DECISION_def

definition is_ephemeral :: "nat \<Rightarrow> bool" where
  "is_ephemeral k \<longleftrightarrow> k \<ge> EPHEMERAL_KIND_MIN \<and> k \<le> EPHEMERAL_KIND_MAX"

definition is_replaceable :: "nat \<Rightarrow> bool" where
  "is_replaceable k \<longleftrightarrow> k = 0 \<or> k = 3 \<or> k = KIND_CHANNEL_METADATA \<or> 10000 \<le> k \<and> k \<le> 19999"

definition is_parameterized_replaceable :: "nat \<Rightarrow> bool" where
  "is_parameterized_replaceable k \<longleftrightarrow>
     k \<ge> PARAM_REPLACEABLE_KIND_MIN \<and> k \<le> PARAM_REPLACEABLE_KIND_MAX"

definition is_workflow_execution_kind :: "nat \<Rightarrow> bool" where
  "is_workflow_execution_kind k \<longleftrightarrow>
     k \<ge> KIND_WORKFLOW_TRIGGERED \<and> k \<le> KIND_WORKFLOW_APPROVAL_DENIED"

definition is_relay_admin_kind :: "nat \<Rightarrow> bool" where
  "is_relay_admin_kind k \<longleftrightarrow>
     k \<in> {RELAY_ADMIN_ADD_MEMBER, RELAY_ADMIN_REMOVE_MEMBER, RELAY_ADMIN_CHANGE_ROLE,
          RELAY_ADMIN_SET_WORKSPACE_PROFILE}"

definition is_identity_archive_request_kind :: "nat \<Rightarrow> bool" where
  "is_identity_archive_request_kind k \<longleftrightarrow> k \<in> {KIND_IA_ARCHIVE_REQUEST, KIND_IA_UNARCHIVE_REQUEST}"

definition is_command_kind :: "nat \<Rightarrow> bool" where
  "is_command_kind k \<longleftrightarrow>
     k \<in> {KIND_WORKFLOW_DEF, KIND_DM_OPEN, KIND_DM_ADD_MEMBER, KIND_DM_HIDE,
          KIND_WORKFLOW_TRIGGER, KIND_APPROVAL_GRANT, KIND_APPROVAL_DENY}"

definition is_relay_only_kind :: "nat \<Rightarrow> bool" where
  "is_relay_only_kind k \<longleftrightarrow>
     k \<in> {KIND_NIP43_MEMBERSHIP_LIST, KIND_CHANNEL_SUMMARY, KIND_PRESENCE_SNAPSHOT,
          KIND_DM_VISIBILITY, KIND_THREAD_SUMMARY, KIND_WINDOW_BOUNDS, KIND_CONTACT_DECISION}"

lemmas kind_predicates =
  is_ephemeral_def is_replaceable_def is_parameterized_replaceable_def
  is_workflow_execution_kind_def is_relay_admin_kind_def is_identity_archive_request_kind_def
  is_command_kind_def is_relay_only_kind_def

section \<open>Filters\<close>

text \<open>The keys of \<open>generic_tags\<close> are single letters, each at most once.\<close>

record event_filter =
  filter_ids :: "string list option"
  filter_authors :: "pubkey list option"
  filter_kinds :: "nat list option"
  filter_since :: "nat option"
  filter_until :: "nat option"
  generic_tags :: "(char \<times> string list) list"

definition generic_tag_match :: "stored_event \<Rightarrow> char \<times> string list \<Rightarrow> bool" where
  "generic_tag_match ev tag_constraint =
     (let (tag_key, tag_values) = tag_constraint;
          has_match = list_ex (\<lambda>filter_val.
            list_ex (\<lambda>event_val. event_val = filter_val)
              (tag_contents [tag_key] (event_tags (the_event ev)))) tag_values in
      if \<not> has_match \<and> tag_key = CHR ''h'' then
        if \<not> list_ex (tag_is ''h'') (event_tags (the_event ev)) then
          case channel_id ev of
            Some ch_id \<Rightarrow> list_ex (\<lambda>v. v = ch_id) tag_values
          | None \<Rightarrow> False
        else False
      else has_match)"

definition filter_match_one :: "event_filter \<Rightarrow> stored_event \<Rightarrow> bool" where
  "filter_match_one f ev =
     (if (case filter_kinds f of None \<Rightarrow> False | Some ks \<Rightarrow> event_kind (the_event ev) \<notin> set ks)
      then False
      else if (case filter_authors f of None \<Rightarrow> False | Some authors \<Rightarrow> event_pubkey (the_event ev) \<notin> set authors)
      then False
      else if (case filter_since f of None \<Rightarrow> False | Some since \<Rightarrow> created_at (the_event ev) < since)
      then False
      else if (case filter_until f of None \<Rightarrow> False | Some until \<Rightarrow> created_at (the_event ev) > until)
      then False
      else if (case filter_ids f of None \<Rightarrow> False
               | Some ids \<Rightarrow> \<not> list_ex (\<lambda>id. starts_with (event_id (the_event ev)) id) ids)
      then False
      else list_all (generic_tag_match ev) (generic_tags f))"

definition filters_match :: "event_filter list \<Rightarrow> stored_event \<Rightarrow> bool" where
  "filters_match fs ev \<longleftrightarrow> list_ex (\<lambda>f. filter_match_one f ev) fs"

definition reader_authorized_for_event :: "event \<Rightarrow> string \<Rightarrow> bool" where
  "reader_authorized_for_event e reader =
     (if event_kind e \<noteq> KIND_DM_VISIBILITY \<and> event_kind e \<noteq> KIND_AGENT_TURN_METRIC then True
      else list_ex (\<lambda>t. tag_content t = Some reader) (filter (tag_is ''p'') (event_tags e)))"

section \<open>Thread markers\<close>

record thread_markers =
  root :: "string option"
  reply :: "string option"

definition is_event_id_hex :: "string \<Rightarrow> bool" where
  "is_event_id_hex i \<longleftrightarrow> length i = 64 \<and> list_all is_ascii_hexdigit i"

definition marker_step :: "thread_markers \<Rightarrow> tag \<Rightarrow> thread_markers" where
  "marker_step m parts =
     (if length parts \<ge> 4 \<and> parts ! 0 = ''e'' \<and> is_event_id_hex (parts ! 1) then
        if parts ! 3 = ''root'' then m\<lparr>root := Some (parts ! 1)\<rparr>
        else if parts ! 3 = ''reply'' then m\<lparr>reply := Some (parts ! 1)\<rparr>
        else m
      else m)"

definition parse_thread_markers_from_parts :: "tag list \<Rightarrow> thread_markers" where
  "parse_thread_markers_from_parts ts = foldl marker_step \<lparr>root = None, reply = None\<rparr> ts"

definition parse_thread_markers :: "tag list \<Rightarrow> thread_markers" where
  "parse_thread_markers ts = parse_thread_markers_from_parts ts"

definition thread_resolve :: "thread_markers \<Rightarrow> (string \<times> string) option" where
  "thread_resolve m =
     (case (root m, reply m) of
        (Some r, Some p) \<Rightarrow> Some (r, p)
      | (None, Some p) \<Rightarrow> Some (p, p)
      | _ \<Rightarrow> None)"

section \<open>Lemmas\<close>

lemma set_tag_contents:
  "v \<in> set (tag_contents k ts) \<longleftrightarrow> (\<exists>t \<in> set ts. tag_is k t \<and> tag_content t = Some v)"
  by (induction ts) (auto simp: tag_contents_def map_filter_simps split: option.splits)

lemma filter_match_one_iff:
  "filter_match_one f ev \<longleftrightarrow>
     (\<forall>ks. filter_kinds f = Some ks \<longrightarrow> event_kind (the_event ev) \<in> set ks) \<and>
     (\<forall>as. filter_authors f = Some as \<longrightarrow> event_pubkey (the_event ev) \<in> set as) \<and>
     (\<forall>t. filter_since f = Some t \<longrightarrow> t \<le> created_at (the_event ev)) \<and>
     (\<forall>t. filter_until f = Some t \<longrightarrow> created_at (the_event ev) \<le> t) \<and>
     (\<forall>is. filter_ids f = Some is \<longrightarrow> (\<exists>i \<in> set is. starts_with (event_id (the_event ev)) i)) \<and>
     (\<forall>c \<in> set (generic_tags f). generic_tag_match ev c)"
  by (cases "filter_kinds f"; cases "filter_authors f"; cases "filter_since f"; cases "filter_until f";
      cases "filter_ids f") (auto simp: filter_match_one_def list_ex_iff list_all_iff not_less)

lemma generic_tag_match_other:
  "k \<noteq> CHR ''h'' \<Longrightarrow>
   generic_tag_match ev (k, vs) \<longleftrightarrow> (\<exists>v \<in> set vs. v \<in> set (tag_contents [k] (event_tags (the_event ev))))"
  by (auto simp: generic_tag_match_def list_ex_iff)

lemma generic_tag_match_h:
  "generic_tag_match ev (CHR ''h'', vs) \<longleftrightarrow>
     (if \<exists>t \<in> set (event_tags (the_event ev)). tag_is ''h'' t
      then \<exists>v \<in> set vs. v \<in> set (tag_contents ''h'' (event_tags (the_event ev)))
      else \<exists>ch \<in> set vs. channel_id ev = Some ch)"
  by (auto simp: generic_tag_match_def list_ex_iff set_tag_contents split: option.splits)

lemma kind_class_pairs:
  "\<not> (is_ephemeral k \<and> is_replaceable k)"
  "\<not> (is_ephemeral k \<and> is_parameterized_replaceable k)"
  "\<not> (is_replaceable k \<and> is_parameterized_replaceable k)"
  "\<not> (is_relay_only_kind k \<and> is_command_kind k)"
  "\<not> (is_relay_only_kind k \<and> is_relay_admin_kind k)"
  "\<not> (is_relay_only_kind k \<and> is_identity_archive_request_kind k)"
  "\<not> (is_relay_only_kind k \<and> is_workflow_execution_kind k)"
  "\<not> (is_command_kind k \<and> is_relay_admin_kind k)"
  "\<not> (is_command_kind k \<and> is_identity_archive_request_kind k)"
  "\<not> (is_command_kind k \<and> is_workflow_execution_kind k)"
  "\<not> (is_relay_admin_kind k \<and> is_identity_archive_request_kind k)"
  "\<not> (is_relay_admin_kind k \<and> is_workflow_execution_kind k)"
  "\<not> (is_identity_archive_request_kind k \<and> is_workflow_execution_kind k)"
  by (auto simp: kind_predicates kind_numbers)

text \<open>The last element of a list with a property.\<close>

fun last_such :: "('a \<Rightarrow> bool) \<Rightarrow> 'a list \<Rightarrow> 'a option" where
  "last_such P [] = None"
| "last_such P (x # xs) = (case last_such P xs of Some y \<Rightarrow> Some y | None \<Rightarrow> if P x then Some x else None)"

lemma last_such_None: "last_such P xs = None \<longleftrightarrow> (\<forall>x \<in> set xs. \<not> P x)"
  by (induction xs) (auto split: option.splits)

definition valid_marker :: "string \<Rightarrow> tag \<Rightarrow> bool" where
  "valid_marker m t \<longleftrightarrow> length t \<ge> 4 \<and> t ! 0 = ''e'' \<and> is_event_id_hex (t ! 1) \<and> t ! 3 = m"

lemma marker_foldl:
  "root (foldl marker_step m ts) =
     (case last_such (valid_marker ''root'') ts of None \<Rightarrow> root m | Some t \<Rightarrow> Some (t ! 1))"
  "reply (foldl marker_step m ts) =
     (case last_such (valid_marker ''reply'') ts of None \<Rightarrow> reply m | Some t \<Rightarrow> Some (t ! 1))"
  by (induction ts arbitrary: m) (auto simp: marker_step_def valid_marker_def split: option.splits)

section \<open>Properties\<close>

text \<open>
  Channel filters cannot be widened by the fallback. A filter with an \<open>#h\<close> constraint
  matches an event that carries h-tags only by one of these tags, whatever channel the
  relay stored the event under, and an event without h-tags only by its stored channel.
\<close>

theorem h_filter_scope:
  assumes "filter_match_one f ev" and "(CHR ''h'', chans) \<in> set (generic_tags f)"
  shows "(\<exists>ch \<in> set chans. [''h'', ch] \<in> set (map (take 2) (event_tags (the_event ev)))) \<or>
    (filter (tag_is ''h'') (event_tags (the_event ev)) = [] \<and> channel_id ev \<in> Some ` set chans)"
proof -
  from assms have m: "generic_tag_match ev (CHR ''h'', chans)" by (simp add: filter_match_one_iff)
  show ?thesis
  proof (cases "\<exists>t \<in> set (event_tags (the_event ev)). tag_is ''h'' t")
    case True
    with m obtain t ch where t: "t \<in> set (event_tags (the_event ev))" "tag_is ''h'' t"
      and c: "tag_content t = Some ch" "ch \<in> set chans"
      by (auto simp: generic_tag_match_h set_tag_contents)
    then obtain x y zs where t2: "t = x # y # zs" by (cases t rule: remdups_adj.cases) (auto simp: tag_content_def)
    have "[''h'', ch] = take 2 t" using t c t2 by (auto simp: tag_is_def tag_content_def)
    with t c show ?thesis by (metis image_eqI set_map)
  next
    case False
    with m show ?thesis by (auto simp: generic_tag_match_h filter_empty_conv)
  qed
qed

theorem h_filter_scope_witness:
  "\<exists>f ev. filter_match_one f ev \<and> generic_tags f = [(CHR ''h'', [''c1''])] \<and> channel_id ev = Some ''c2'' \<and>
     [''h'', ''c1''] \<in> set (map (take 2) (event_tags (the_event ev)))"
proof -
  let ?f = "\<lparr>filter_ids = None, filter_authors = None, filter_kinds = Some [9], filter_since = None,
     filter_until = None, generic_tags = [(CHR ''h'', [''c1''])]\<rparr>"
  let ?ev = "stored_event_new 5 \<lparr>event_id = ''ab'', event_pubkey = ''cd'', created_at = 4, event_kind = 9,
     event_tags = [[''h'', ''c1'', ''x'']], content = ''hi'', event_sig = []\<rparr> (Some ''c2'')"
  have "filter_match_one ?f ?ev" by code_simp
  then show ?thesis
    using h_filter_scope [of ?f ?ev "[''c1'']"]
    by (intro exI [of _ ?f] exI [of _ ?ev]) (simp add: stored_event_new_def tag_is_def)
qed

text \<open>
  How an event is placed in a thread. It is a reply exactly when some \<open>e\<close> tag is a
  well-formed reply marker; its parent is the id in the last such tag, and its root the id in
  the last well-formed root marker, or the parent when there is none. Ids that are not 64
  hexadecimal digits never link.
\<close>

theorem thread_resolution:
  "thread_resolve (parse_thread_markers ts) =
     (case last_such (valid_marker ''reply'') ts of
        None \<Rightarrow> None
      | Some p \<Rightarrow>
          Some (case last_such (valid_marker ''root'') ts of None \<Rightarrow> p ! 1 | Some r \<Rightarrow> r ! 1, p ! 1))"
  by (simp add: thread_resolve_def parse_thread_markers_def parse_thread_markers_from_parts_def
      marker_foldl split: option.splits)

text \<open>
  The kind classes the ingest path branches on are disjoint: an event is stored in at
  most one of the ephemeral, replaceable and parameterized-replaceable ways, and a kind only
  the relay may author is none of the client's command, admin, archival or workflow kinds,
  which do not overlap either.
\<close>

theorem kind_classes_disjoint:
  "length (filter (\<lambda>c. c k) [is_ephemeral, is_replaceable, is_parameterized_replaceable]) \<le> 1 \<and>
   length (filter (\<lambda>c. c k) [is_relay_only_kind, is_command_kind, is_relay_admin_kind,
      is_identity_archive_request_kind, is_workflow_execution_kind]) \<le> 1"
  using kind_class_pairs [of k] by auto

end
