(* ===== verification/Git_Policy.thy ===== *)
theory Git_Policy
  imports Git_Perms Nostr_Events
begin

text \<open>
  The relay's decision on a git push (\<open>crates/buzz-relay/src/api/git/policy.rs\<close>, the callback
  of the pre-receive hook, and \<open>binding.rs\<close>, the channel binding of a repository). HMAC,
  hexadecimal coding and UUID parsing are library code, the lookups are database queries:
  they are the fields of \<open>git_env\<close>. Logging is left out.
\<close>

section \<open>Channel binding\<close>

datatype repo_binding = NotBound | Bound uuid | Broken

definition resolve_repo_binding :: "(string \<Rightarrow> uuid option) \<Rightarrow> event \<Rightarrow> repo_binding" where
  "resolve_repo_binding parse ev =
     (case find (tag_is ''buzz-channel'') (event_tags ev) of
        None \<Rightarrow> NotBound
      | Some first \<Rightarrow>
          (case tag_content first of
             None \<Rightarrow> Broken
           | Some v \<Rightarrow> (case parse v of Some i \<Rightarrow> Bound i | None \<Rightarrow> Broken)))"

section \<open>Requests and responses\<close>

record hook_ref_update =
  h_old_oid :: string
  h_new_oid :: string
  h_ref_name :: string
  h_is_ancestor :: bool

record hook_request =
  repo_id :: string
  repo_owner :: string
  community_id :: string
  pusher_pubkey :: string
  ref_updates :: "hook_ref_update list"
  timestamp :: nat
  signature :: string

record hook_response =
  allowed :: bool
  denials :: "denial list"

datatype hook_body = TextBody string | JsonBody hook_response

record http_response =
  status :: nat
  body :: hook_body

record event_query =
  q_kinds :: "nat list option"
  q_pubkey :: "string option"
  q_d_tag :: "string option"
  q_global_only :: bool
  q_limit :: "nat option"
  q_community :: uuid

record channel_row =
  archived_at :: "nat option"

record git_env =
  hmac_sha256 :: "string \<Rightarrow> string \<Rightarrow> string"
  hex_decode :: "string \<Rightarrow> string option"
  hex_encode :: "string \<Rightarrow> string"
  parse_uuid :: "string \<Rightarrow> uuid option"
  query_events :: "event_query \<Rightarrow> (string, stored_event list) result"
  get_channel :: "uuid \<Rightarrow> uuid \<Rightarrow> (string, channel_row) result"
  is_agent_owner :: "uuid \<Rightarrow> string \<Rightarrow> string \<Rightarrow> (string, bool) result"
  get_member_role :: "uuid \<Rightarrow> uuid \<Rightarrow> string \<Rightarrow> (string, string option) result"
  git_hook_hmac_secret :: string

definition MAX_CALLBACK_AGE_SECS :: nat where "MAX_CALLBACK_AGE_SECS = 30"

section \<open>The signature\<close>

definition ref_payload :: "hook_ref_update \<Rightarrow> string" where
  "ref_payload r =
     h_old_oid r @ h_new_oid r @ nat_to_string (length (h_ref_name r)) @ '':'' @ h_ref_name r @
     (if h_is_ancestor r then ''1'' else ''0'')"

definition refs_sorted :: "hook_request \<Rightarrow> hook_ref_update list" where
  "refs_sorted req = sort_key h_ref_name (ref_updates req)"

text \<open>The bytes fed to the MAC, one update after the other.\<close>

definition hmac_payload :: "hook_request \<Rightarrow> string" where
  "hmac_payload req =
     nat_to_string (length (repo_id req)) @ '':'' @ repo_id req @ ''|'' @ repo_owner req @ ''|'' @
     community_id req @ ''|'' @ pusher_pubkey req @ ''|'' @
     concat (map ref_payload (refs_sorted req)) @ ''|'' @ nat_to_string (timestamp req)"

definition compute_hmac :: "git_env \<Rightarrow> string \<Rightarrow> hook_request \<Rightarrow> string" where
  "compute_hmac env secret req = hmac_sha256 env secret (hmac_payload req)"

definition verify_hmac :: "git_env \<Rightarrow> string \<Rightarrow> hook_request \<Rightarrow> bool" where
  "verify_hmac env secret req =
     (case hex_decode env (signature req) of
        None \<Rightarrow> False
      | Some provided \<Rightarrow> compute_hmac env secret req = provided)"

definition generate_hook_hmac ::
  "git_env \<Rightarrow> string \<Rightarrow> string \<Rightarrow> string \<Rightarrow> string \<Rightarrow> string \<Rightarrow> hook_ref_update list \<Rightarrow> nat \<Rightarrow> string" where
  "generate_hook_hmac env secret rid owner cid pusher refs ts =
     hex_encode env (compute_hmac env secret
       \<lparr>repo_id = rid, repo_owner = owner, community_id = cid, pusher_pubkey = pusher,
        ref_updates = refs, timestamp = ts, signature = []\<rparr>)"

section \<open>Structural checks\<close>

definition is_lower_hex :: "char \<Rightarrow> bool" where
  "is_lower_hex c \<longleftrightarrow> is_ascii_hexdigit c \<and> \<not> is_ascii_uppercase c"

fun has_dot_dot :: "string \<Rightarrow> bool" where
  "has_dot_dot (c # d # cs) = ((c = CHR ''.'' \<and> d = CHR ''.'') \<or> has_dot_dot (d # cs))"
| "has_dot_dot _ = False"

definition is_control_byte :: "char \<Rightarrow> bool" where
  "is_control_byte c \<longleftrightarrow> (of_char c :: nat) \<le> 32 \<or> (of_char c :: nat) = 127"

definition check_ref_update :: "hook_ref_update \<Rightarrow> (string, unit) result" where
  "check_ref_update r =
     (if length (h_old_oid r) \<noteq> 40 \<or> \<not> list_all is_ascii_hexdigit (h_old_oid r)
      then Err ''invalid old_oid''
      else if length (h_new_oid r) \<noteq> 40 \<or> \<not> list_all is_ascii_hexdigit (h_new_oid r)
      then Err ''invalid new_oid''
      else if h_ref_name r = [] \<or> length (h_ref_name r) > 256 \<or> \<not> starts_with (h_ref_name r) ''refs/'' \<or>
              has_dot_dot (h_ref_name r) \<or> list_ex is_control_byte (h_ref_name r)
      then Err ''invalid ref_name''
      else Ok ())"

fun check_ref_updates :: "hook_ref_update list \<Rightarrow> (string, unit) result" where
  "check_ref_updates [] = Ok ()"
| "check_ref_updates (r # rs) = and_then (check_ref_update r) (\<lambda>_. check_ref_updates rs)"

definition validate_fields :: "git_env \<Rightarrow> hook_request \<Rightarrow> (string, uuid) result" where
  "validate_fields env req =
     (if repo_id req = [] \<or> length (repo_id req) > 64 then Err ''invalid repo_id''
      else if length (repo_owner req) \<noteq> 64 \<or> \<not> list_all is_lower_hex (repo_owner req)
      then Err ''invalid repo_owner''
      else if length (pusher_pubkey req) \<noteq> 64 \<or> \<not> list_all is_lower_hex (pusher_pubkey req)
      then Err ''invalid pusher_pubkey''
      else case parse_uuid env (community_id req) of
             None \<Rightarrow> Err ''invalid community_id''
           | Some community \<Rightarrow>
               if ref_updates req = [] \<or> length (ref_updates req) > 500
               then Err ''invalid ref_updates count''
               else and_then (check_ref_updates (ref_updates req)) (\<lambda>_. Ok community))"

section \<open>The handler\<close>

definition hex_decode32 :: "git_env \<Rightarrow> string \<Rightarrow> string option" where
  "hex_decode32 env s =
     (case hex_decode env s of Some b \<Rightarrow> if length b = 32 then Some b else None | None \<Rightarrow> None)"

definition announcement_query :: "uuid \<Rightarrow> string \<Rightarrow> string \<Rightarrow> event_query" where
  "announcement_query community owner_bytes rid =
     \<lparr>q_kinds = Some [30617], q_pubkey = Some owner_bytes, q_d_tag = Some rid,
      q_global_only = True, q_limit = Some 1, q_community = community\<rparr>"

definition find_announcement :: "git_env \<Rightarrow> uuid \<Rightarrow> string \<Rightarrow> string \<Rightarrow> (string, event) result" where
  "find_announcement env community owner_bytes rid =
     (case query_events env (announcement_query community owner_bytes rid) of
        Inl e \<Rightarrow> Err ''internal error''
      | Inr events \<Rightarrow>
          if events = [] then Err ''repository not found'' else Ok (the_event (last events)))"

definition check_binding ::
  "git_env \<Rightarrow> uuid \<Rightarrow> event \<Rightarrow> (string, uuid option) result" where
  "check_binding env community ev =
     (case resolve_repo_binding (parse_uuid env) ev of
        Broken \<Rightarrow> Err ''invalid channel binding''
      | NotBound \<Rightarrow> Ok None
      | Bound ch \<Rightarrow>
          (case get_channel env community ch of
             Inl e \<Rightarrow> Err ''internal error''
           | Inr row \<Rightarrow>
               if archived_at row \<noteq> None then Err ''channel is archived (read-only)'' else Ok (Some ch)))"

definition GIT_NO_CHANNEL_BINDING_BODY :: string where
  "GIT_NO_CHANNEL_BINDING_BODY = ''no_channel_binding: repository has no channel binding''"

definition resolve_role ::
  "git_env \<Rightarrow> uuid \<Rightarrow> hook_request \<Rightarrow> string \<Rightarrow> event \<Rightarrow> uuid option \<Rightarrow> (string, member_role) result" where
  "resolve_role env community req owner_bytes ev ch =
     (case hex_decode32 env (pusher_pubkey req) of
        None \<Rightarrow> Err ''invalid pusher pubkey''
      | Some pusher_bytes \<Rightarrow>
          (let is_repo_owner = (pusher_pubkey req = event_pubkey ev) in
           case (if is_repo_owner then Ok False
                 else is_agent_owner env community owner_bytes pusher_bytes) of
             Inl e \<Rightarrow> Err ''internal error''
           | Inr is_managed_agent_owner \<Rightarrow>
               if is_repo_owner \<or> is_managed_agent_owner then Ok Owner
               else
                 (case ch of
                    None \<Rightarrow> Err GIT_NO_CHANNEL_BINDING_BODY
                  | Some ch_id \<Rightarrow>
                      (case get_member_role env community ch_id pusher_bytes of
                         Inl e \<Rightarrow> Err ''internal error''
                       | Inr None \<Rightarrow> Err ''not a channel member''
                       | Inr (Some role_str) \<Rightarrow>
                           (case role_from_str role_str of
                              Inr role \<Rightarrow> Ok role
                            | Inl e \<Rightarrow> Err ''internal error'')))))"

definition git_role :: "member_role \<Rightarrow> member_role" where
  "git_role role = (case role of Bot \<Rightarrow> Member | other \<Rightarrow> other)"

definition classify_update :: "hook_ref_update \<Rightarrow> ref_update" where
  "classify_update r =
     \<lparr>ref_name = h_ref_name r, kind = classify (h_old_oid r) (h_new_oid r) (h_is_ancestor r),
      old_oid = h_old_oid r, new_oid = h_new_oid r\<rparr>"

text \<open>Everything up to the evaluation: the role and the rules, or the text of the refusal.\<close>

definition hook_authority ::
  "git_env \<Rightarrow> nat \<Rightarrow> hook_request \<Rightarrow> (string, member_role \<times> protection_rule list) result" where
  "hook_authority env now req =
     and_then (validate_fields env req) (\<lambda>community.
       if \<not> verify_hmac env (git_hook_hmac_secret env) req then Err ''signature verification failed''
       else if now - timestamp req > MAX_CALLBACK_AGE_SECS then Err ''callback expired''
       else if timestamp req - now > 5 then Err ''callback timestamp invalid''
       else case hex_decode32 env (repo_owner req) of
              None \<Rightarrow> Err ''invalid repo owner''
            | Some owner_bytes \<Rightarrow>
                and_then (find_announcement env community owner_bytes (repo_id req)) (\<lambda>ev.
                  case parse_protection_tags (event_tags ev) of
                    Inl e \<Rightarrow> Err ''malformed protection rules''
                  | Inr parsed \<Rightarrow>
                      and_then (check_binding env community ev) (\<lambda>ch.
                        and_then (resolve_role env community req owner_bytes ev ch) (\<lambda>role.
                          Ok (git_role role, rules parsed)))))"

definition hook_policy_check :: "git_env \<Rightarrow> nat \<Rightarrow> hook_request \<Rightarrow> http_response" where
  "hook_policy_check env now req =
     (case hook_authority env now req of
        Inl msg \<Rightarrow> \<lparr>status = 403, body = TextBody msg\<rparr>
      | Inr (role, rs) \<Rightarrow>
          (case evaluate_push (map classify_update (ref_updates req)) role rs of
             Inr _ \<Rightarrow> \<lparr>status = 200, body = JsonBody \<lparr>allowed = True, denials = []\<rparr>\<rparr>
           | Inl ds \<Rightarrow> \<lparr>status = 403, body = JsonBody \<lparr>allowed = False, denials = ds\<rparr>\<rparr>))"

section \<open>The payload\<close>

text \<open>The shape of a request that passed the structural checks.\<close>

definition wf_ref :: "hook_ref_update \<Rightarrow> bool" where
  "wf_ref r \<longleftrightarrow> length (h_old_oid r) = 40 \<and> length (h_new_oid r) = 40 \<and> list_all is_ascii_hexdigit (h_old_oid r)"

lemma check_ref_update_wf: "check_ref_update r = Ok () \<Longrightarrow> wf_ref r"
  by (auto simp: check_ref_update_def wf_ref_def split: if_splits)

lemma check_ref_updates_Ok: "check_ref_updates rs = Ok () \<longleftrightarrow> (\<forall>r \<in> set rs. check_ref_update r = Ok ())"
  by (induction rs) auto

lemma validate_fields_Ok:
  assumes "validate_fields env req = Ok c"
  shows "length (repo_owner req) = 64" "length (pusher_pubkey req) = 64" "ref_updates req \<noteq> []"
    and "parse_uuid env (community_id req) = Some c" "\<And>r. r \<in> set (ref_updates req) \<Longrightarrow> wf_ref r"
  using assms
  by (auto simp: validate_fields_def check_ref_updates_Ok split: if_splits option.splits
      intro: check_ref_update_wf)

lemma length_prefixed_inj:
  "nat_to_string (length xs) @ CHR '':'' # xs @ us = nat_to_string (length ys) @ CHR '':'' # ys @ vs \<longleftrightarrow>
   xs = ys \<and> us = vs"
proof -
  have "CHR '':'' \<notin> set (nat_to_string n)" for n
    by (rule digit_not_in_nat_to_string) (simp add: is_ascii_digit_def less_eq_char_def)
  then show ?thesis by (auto simp: append_sep_inj)
qed

lemma ref_payload_inj:
  assumes "wf_ref r" and "wf_ref s" and "ref_payload r @ us = ref_payload s @ vs"
  shows "r = s \<and> us = vs"
proof -
  let ?f = "\<lambda>b. if b then ''1'' else ''0''"
  from assms have "h_old_oid r = h_old_oid s" "h_new_oid r = h_new_oid s"
    and l: "nat_to_string (length (h_ref_name r)) @ CHR '':'' # h_ref_name r @ ?f (h_is_ancestor r) @ us =
      nat_to_string (length (h_ref_name s)) @ CHR '':'' # h_ref_name s @ ?f (h_is_ancestor s) @ vs"
    by (auto simp: ref_payload_def wf_ref_def)
  moreover from l have "h_ref_name r = h_ref_name s" "?f (h_is_ancestor r) @ us = ?f (h_is_ancestor s) @ vs"
    unfolding length_prefixed_inj by simp_all
  ultimately show ?thesis by (auto split: if_splits)
qed

lemma ref_payload_hd: "wf_ref r \<Longrightarrow> \<exists>c cs. ref_payload r = c # cs \<and> is_ascii_hexdigit c"
  by (cases "h_old_oid r") (auto simp: ref_payload_def wf_ref_def)

lemma bar_not_hex [simp]: "\<not> is_ascii_hexdigit CHR ''|''"
  by (simp add: ascii_class_defs less_eq_char_def)

lemma refs_payload_inj:
  "list_all wf_ref rs \<Longrightarrow> list_all wf_ref ss \<Longrightarrow>
   concat (map ref_payload rs) @ CHR ''|'' # us = concat (map ref_payload ss) @ CHR ''|'' # vs \<Longrightarrow>
   rs = ss \<and> us = vs"
proof (induction rs arbitrary: ss)
  case Nil
  then show ?case
    using ref_payload_hd by (cases ss) (auto, (metis append_Cons bar_not_hex list.inject)+)
next
  case (Cons r rs)
  show ?case
  proof (cases ss)
    case Nil
    with Cons.prems show ?thesis
      using ref_payload_hd [of r] by auto
  next
    case (Cons s ts)
    with Cons.prems ref_payload_inj [of r s] have
      "r = s" "concat (map ref_payload rs) @ CHR ''|'' # us = concat (map ref_payload ts) @ CHR ''|'' # vs"
      by auto
    with Cons.IH [of ts] Cons.prems Cons show ?thesis by simp
  qed
qed

section \<open>Authority\<close>

text \<open>
  The role a pusher has in git, by the announcement: the repository's key and its verified
  managed-agent owner own it, everyone else acts with the role of the bound channel.
\<close>

definition pusher_git_role ::
  "git_env \<Rightarrow> uuid \<Rightarrow> string \<Rightarrow> string \<Rightarrow> string \<Rightarrow> event \<Rightarrow> member_role \<Rightarrow> bool" where
  "pusher_git_role env community owner_bytes pusher pusher_bytes ev g \<longleftrightarrow>
     (if pusher = event_pubkey ev \<or> is_agent_owner env community owner_bytes pusher_bytes = Ok True
      then g = Owner
      else is_agent_owner env community owner_bytes pusher_bytes = Ok False \<and>
           (\<exists>ch role. resolve_repo_binding (parse_uuid env) ev = Bound ch \<and>
              get_member_role env community ch pusher_bytes = Ok (Some (role_as_str role)) \<and>
              g = git_role role))"

definition binding_usable :: "git_env \<Rightarrow> uuid \<Rightarrow> event \<Rightarrow> bool" where
  "binding_usable env community ev \<longleftrightarrow>
     (case resolve_repo_binding (parse_uuid env) ev of
        NotBound \<Rightarrow> True
      | Bound ch \<Rightarrow> get_channel env community ch = Ok \<lparr>archived_at = None\<rparr>
      | Broken \<Rightarrow> False)"

definition callback_authentic :: "git_env \<Rightarrow> nat \<Rightarrow> hook_request \<Rightarrow> bool" where
  "callback_authentic env now req \<longleftrightarrow>
     hex_decode env (signature req) = Some (hmac_sha256 env (git_hook_hmac_secret env) (hmac_payload req)) \<and>
     now \<le> 30 + timestamp req \<and> timestamp req \<le> 5 + now"

lemma check_binding_Ok:
  "check_binding env c ev = Ok ch \<longleftrightarrow>
     binding_usable env c ev \<and> resolve_repo_binding (parse_uuid env) ev = (case ch of None \<Rightarrow> NotBound | Some i \<Rightarrow> Bound i)"
proof (cases "resolve_repo_binding (parse_uuid env) ev")
  case (Bound i)
  then show ?thesis
    by (cases "get_channel env c i"; cases ch)
      (auto simp: check_binding_def binding_usable_def intro: channel_row.equality)
qed (cases ch; simp add: check_binding_def binding_usable_def)+

lemma resolve_role_git:
  assumes "check_binding env c ev = Ok ch" and "hex_decode32 env (pusher_pubkey req) = Some pb"
  shows "(\<exists>role. resolve_role env c req ob ev ch = Ok role \<and> git_role role = g) \<longleftrightarrow>
    pusher_git_role env c ob (pusher_pubkey req) pb ev g"
proof (cases "pusher_pubkey req = event_pubkey ev \<or> is_agent_owner env c ob pb = Ok True")
  case True
  then have "resolve_role env c req ob ev ch = Ok Owner"
    using assms(2) by (auto simp: resolve_role_def Let_def)
  with True show ?thesis by (auto simp: pusher_git_role_def git_role_def)
next
  case False
  have b: "resolve_repo_binding (parse_uuid env) ev = (case ch of None \<Rightarrow> NotBound | Some i \<Rightarrow> Bound i)"
    using assms(1) by (simp add: check_binding_Ok)
  show ?thesis
  proof (cases "is_agent_owner env c ob pb")
    case (Inr x)
    with False have x: "\<not> x" "pusher_pubkey req \<noteq> event_pubkey ev" by auto
    show ?thesis
    proof (cases ch)
      case None
      with x Inr assms(2) b show ?thesis by (simp add: resolve_role_def pusher_git_role_def)
    next
      case (Some i)
      have "resolve_role env c req ob ev ch = Ok role \<longleftrightarrow>
          get_member_role env c i pb = Ok (Some (role_as_str role))" for role
        using x Inr assms(2) Some
        by (auto simp: resolve_role_def Let_def role_from_str_Ok split: sum.splits option.splits)
      then show ?thesis
        using x Inr b Some by (auto simp: pusher_git_role_def)
    qed
  qed (use False assms(2) in \<open>auto simp: resolve_role_def pusher_git_role_def\<close>)
qed

lemma hook_authority_Ok:
  "hook_authority env now req = Ok (g, rs) \<longleftrightarrow>
     (\<exists>community owner_bytes pusher_bytes events pp.
        validate_fields env req = Ok community \<and> callback_authentic env now req \<and>
        hex_decode32 env (repo_owner req) = Some owner_bytes \<and>
        query_events env (announcement_query community owner_bytes (repo_id req)) = Ok events \<and> events \<noteq> [] \<and>
        parse_protection_tags (event_tags (the_event (last events))) = Ok pp \<and> rs = rules pp \<and>
        binding_usable env community (the_event (last events)) \<and>
        hex_decode32 env (pusher_pubkey req) = Some pusher_bytes \<and>
        pusher_git_role env community owner_bytes (pusher_pubkey req) pusher_bytes (the_event (last events)) g)"
  (is "?l \<longleftrightarrow> ?r")
proof
  assume ?l
  then obtain c ob ev pp ch role where v: "validate_fields env req = Ok c" "callback_authentic env now req"
    "hex_decode32 env (repo_owner req) = Some ob" "find_announcement env c ob (repo_id req) = Ok ev"
    "parse_protection_tags (event_tags ev) = Ok pp" "rs = rules pp"
    and b: "check_binding env c ev = Ok ch" and r: "resolve_role env c req ob ev ch = Ok role" "g = git_role role"
    by (auto simp: hook_authority_def early_return_Ok verify_hmac_def compute_hmac_def
        callback_authentic_def MAX_CALLBACK_AGE_SECS_def not_less le_diff_conv split: option.splits)
  from r obtain pb where pb: "hex_decode32 env (pusher_pubkey req) = Some pb"
    by (auto simp: resolve_role_def split: option.splits)
  have "pusher_git_role env c ob (pusher_pubkey req) pb ev g"
    using resolve_role_git [OF b pb] r by blast
  with v b pb show ?r
    by (auto simp: find_announcement_def check_binding_Ok split: sum.splits if_splits)
next
  assume ?r
  then obtain c ob pb events pp where v: "validate_fields env req = Ok c" "callback_authentic env now req"
    "hex_decode32 env (repo_owner req) = Some ob"
    "query_events env (announcement_query c ob (repo_id req)) = Ok events" "events \<noteq> []"
    "parse_protection_tags (event_tags (the_event (last events))) = Ok pp" "rs = rules pp"
    and u: "binding_usable env c (the_event (last events))"
    and pb: "hex_decode32 env (pusher_pubkey req) = Some pb"
    and g: "pusher_git_role env c ob (pusher_pubkey req) pb (the_event (last events)) g" by blast
  from u obtain ch where b: "check_binding env c (the_event (last events)) = Ok ch"
    by (auto simp: binding_usable_def check_binding_def split: repo_binding.splits)
  from resolve_role_git [OF b pb] g obtain role where
    "resolve_role env c req ob (the_event (last events)) ch = Ok role" "git_role role = g" by blast
  with v b show ?l
    by (auto simp: hook_authority_def verify_hmac_def compute_hmac_def callback_authentic_def
        MAX_CALLBACK_AGE_SECS_def find_announcement_def)
qed

lemma default_min_role_ge_Member: "Member \<le> default_min_role ref k"
  by (cases k) (auto simp: default_min_role_def Let_def less_eq_member_role_def)

lemma evaluate_push_role:
  assumes "evaluate_push us role rs = Ok ()" and "us \<noteq> []"
  shows "Member \<le> role"
proof -
  from assms obtain u where "evaluate_ref_update u role rs = Ok ()"
    by (cases us) (auto simp: evaluate_push_def Let_def split: if_splits sum.splits)
  then show ?thesis
    using default_min_role_ge_Member [of "ref_name u" "kind u"]
    by (auto simp: evaluate_ref_update_Ok_iff has_at_least_iff_le)
qed

lemma hook_status: "status (hook_policy_check env now req) = 200 \<or> status (hook_policy_check env now req) = 403"
  by (auto simp: hook_policy_check_def split: sum.splits)

lemma hook_status_200:
  "status (hook_policy_check env now req) = 200 \<longleftrightarrow>
     (\<exists>g rs. hook_authority env now req = Ok (g, rs) \<and>
        evaluate_push (map classify_update (ref_updates req)) g rs = Ok ())"
  by (auto simp: hook_policy_check_def split: sum.splits)

lemma evaluate_push_Ok:
  "evaluate_push us role rs = Ok () \<longleftrightarrow> (\<forall>u \<in> set us. evaluate_ref_update u role rs = Ok ())"
  using denials_of_empty_iff [of us role rs] by (simp add: evaluate_push_def Let_def)

section \<open>Properties\<close>

text \<open>
  C23: The push endpoint fails closed and decides exactly: it answers 200 when the request is
  well formed, signed over its own content with the hook secret, at most 30 seconds old and
  5 ahead, the repository is announced in the community with rules that parse, its channel
  binding is usable, the pusher has a git role, and each update is permitted to that role
  by the rules. In every other case, lookup errors included, it answers 403.
\<close>

theorem push_endpoint_exact:
  "status (hook_policy_check env now req) =
     (if \<exists>community owner_bytes pusher_bytes events pp g.
           validate_fields env req = Ok community \<and> callback_authentic env now req \<and>
           hex_decode32 env (repo_owner req) = Some owner_bytes \<and>
           query_events env (announcement_query community owner_bytes (repo_id req)) = Ok events \<and> events \<noteq> [] \<and>
           parse_protection_tags (event_tags (the_event (last events))) = Ok pp \<and>
           binding_usable env community (the_event (last events)) \<and>
           hex_decode32 env (pusher_pubkey req) = Some pusher_bytes \<and>
           pusher_git_role env community owner_bytes (pusher_pubkey req) pusher_bytes (the_event (last events)) g \<and>
           list_all (\<lambda>u. evaluate_ref_update (classify_update u) g (rules pp) = Ok ()) (ref_updates req)
      then 200 else 403)"
  (is "_ = (if ?ok then _ else _)")
proof -
  have "status (hook_policy_check env now req) = 200 \<longleftrightarrow> ?ok"
    unfolding hook_status_200 hook_authority_Ok evaluate_push_Ok list_all_iff by (simp, blast)
  then show ?thesis using hook_status [of env now req] by (auto simp del: not_all not_ex)
qed

text \<open>
  Nobody pushes without membership. A push that is let through comes from the
  repository's key, from its verified managed-agent owner, or from a member of the channel
  the repository is bound to, who is owner, admin, member or bot there and never a guest,
  and that channel exists and is not archived.
\<close>

theorem push_needs_membership:
  assumes "status (hook_policy_check env now req) = 200"
  shows "\<exists>community ob pb ev.
    parse_uuid env (community_id req) = Some community \<and> callback_authentic env now req \<and>
    hex_decode env (repo_owner req) = Some ob \<and> hex_decode env (pusher_pubkey req) = Some pb \<and>
    (pusher_pubkey req = event_pubkey ev \<or> is_agent_owner env community ob pb = Ok True \<or>
     (\<exists>ch role. resolve_repo_binding (parse_uuid env) ev = Bound ch \<and>
        get_channel env community ch = Ok \<lparr>archived_at = None\<rparr> \<and>
        get_member_role env community ch pb = Ok (Some (role_as_str role)) \<and> role \<in> {Owner, Admin, Member, Bot}))"
proof -
  from assms obtain g rs where a: "hook_authority env now req = Ok (g, rs)"
    and e: "evaluate_push (map classify_update (ref_updates req)) g rs = Ok ()"
    by (auto simp: hook_status_200)
  from a obtain c ob pb ev where v: "validate_fields env req = Ok c" "callback_authentic env now req"
    "hex_decode32 env (repo_owner req) = Some ob" "hex_decode32 env (pusher_pubkey req) = Some pb"
    and u: "binding_usable env c ev" and p: "pusher_git_role env c ob (pusher_pubkey req) pb ev g"
    unfolding hook_authority_Ok by blast
  have "Member \<le> g" using evaluate_push_role [OF e] validate_fields_Ok(3) [OF v(1)] by simp
  then have r: "role \<in> {Owner, Admin, Member, Bot}" if "g = git_role role" for role
    using that by (cases role) (auto simp: git_role_def less_eq_member_role_def)
  have "hex_decode env (repo_owner req) = Some ob" "hex_decode env (pusher_pubkey req) = Some pb"
    using v by (auto simp: hex_decode32_def split: option.splits if_splits)
  moreover have "pusher_pubkey req = event_pubkey ev \<or> is_agent_owner env c ob pb = Ok True \<or>
     (\<exists>ch role. resolve_repo_binding (parse_uuid env) ev = Bound ch \<and>
        get_channel env c ch = Ok \<lparr>archived_at = None\<rparr> \<and>
        get_member_role env c ch pb = Ok (Some (role_as_str role)) \<and> role \<in> {Owner, Admin, Member, Bot})"
    using p u r unfolding pusher_git_role_def binding_usable_def by (auto split: if_splits)
  ultimately show ?thesis using v(2) validate_fields_Ok(4) [OF v(1)] by blast
qed

text \<open>
  The signed bytes are unambiguous. If two structurally valid requests have the same
  MAC payload they agree on repository, owner, community, pusher, timestamp and on the ref
  updates up to the order of different refs. The only thing needed of the UUID parser is
  that it accepts no text with a bar in it.
\<close>

theorem hmac_payload_unambiguous:
  assumes "\<And>s u. parse_uuid env s = Some u \<Longrightarrow> CHR ''|'' \<notin> set s"
    and "validate_fields env r1 = Ok c1" and "validate_fields env r2 = Ok c2"
    and "hmac_payload r1 = hmac_payload r2"
  shows "repo_id r1 = repo_id r2 \<and> repo_owner r1 = repo_owner r2 \<and> community_id r1 = community_id r2 \<and>
    pusher_pubkey r1 = pusher_pubkey r2 \<and> refs_sorted r1 = refs_sorted r2 \<and> timestamp r1 = timestamp r2"
proof -
  note v1 = validate_fields_Ok [OF assms(2)] and v2 = validate_fields_Ok [OF assms(3)]
  let ?tail = "\<lambda>r. concat (map ref_payload (refs_sorted r)) @ CHR ''|'' # nat_to_string (timestamp r)"
  from assms(4) have "repo_id r1 = repo_id r2"
    and a: "repo_owner r1 @ CHR ''|'' # community_id r1 @ CHR ''|'' # pusher_pubkey r1 @ CHR ''|'' # ?tail r1 =
      repo_owner r2 @ CHR ''|'' # community_id r2 @ CHR ''|'' # pusher_pubkey r2 @ CHR ''|'' # ?tail r2"
    by (auto simp: hmac_payload_def length_prefixed_inj)
  moreover from a v1(1) v2(1) have "repo_owner r1 = repo_owner r2"
    and b: "community_id r1 @ CHR ''|'' # pusher_pubkey r1 @ CHR ''|'' # ?tail r1 =
      community_id r2 @ CHR ''|'' # pusher_pubkey r2 @ CHR ''|'' # ?tail r2" by auto
  moreover from b assms(1) [OF v1(4)] assms(1) [OF v2(4)] have "community_id r1 = community_id r2"
    and c: "pusher_pubkey r1 @ CHR ''|'' # ?tail r1 = pusher_pubkey r2 @ CHR ''|'' # ?tail r2"
    by (auto simp: append_sep_inj)
  moreover from c v1(2) v2(2) have "pusher_pubkey r1 = pusher_pubkey r2" and d: "?tail r1 = ?tail r2" by auto
  moreover have "refs_sorted r1 = refs_sorted r2 \<and> nat_to_string (timestamp r1) = nat_to_string (timestamp r2)"
    using v1(5) v2(5) by (intro refs_payload_inj [OF _ _ d]) (auto simp: refs_sorted_def list_all_iff)
  ultimately show ?thesis by simp
qed

text \<open>
  The signature the relay hands to the hook is accepted when the callback brings the
  request back unchanged, for any hexadecimal coder that decodes what it encodes.
\<close>

theorem hook_signature_accepted:
  assumes "\<And>b. hex_decode env (hex_encode env b) = Some b"
  shows "verify_hmac env secret
    \<lparr>repo_id = rid, repo_owner = owner, community_id = cid, pusher_pubkey = pusher, ref_updates = refs,
     timestamp = ts, signature = generate_hook_hmac env secret rid owner cid pusher refs ts\<rparr>"
  using assms
  by (simp add: verify_hmac_def generate_hook_hmac_def compute_hmac_def hmac_payload_def refs_sorted_def)

section \<open>A concrete relay\<close>

text \<open>
  An environment for the examples: one repository, bound to one channel with a single
  member; the toy MAC is constant, and the decoder halves a key and keeps other texts.
\<close>

definition toy_owner :: string where "toy_owner = replicate 64 CHR ''a''"
definition toy_pusher :: string where "toy_pusher = replicate 64 CHR ''b''"

definition toy_announcement :: event where
  "toy_announcement = \<lparr>event_id = ''e'', event_pubkey = toy_owner, created_at = 1, event_kind = 30617,
     event_tags = [[''d'', ''r''], [''buzz-channel'', ''chan'']], content = [], event_sig = []\<rparr>"

definition toy_env :: git_env where
  "toy_env = \<lparr>hmac_sha256 = (\<lambda>k m. ''mac''),
     hex_decode = (\<lambda>s. Some (if length s = 64 then take 32 s else s)),
     hex_encode = (\<lambda>s. s),
     parse_uuid = (\<lambda>s. if s = ''chan'' \<or> s = ''comm'' then Some s else None),
     query_events = (\<lambda>q. Ok [stored_event_new 2 toy_announcement None]),
     get_channel = (\<lambda>c ch. Ok \<lparr>archived_at = None\<rparr>),
     is_agent_owner = (\<lambda>c ob p. Ok False),
     get_member_role = (\<lambda>c ch p. Ok (Some ''bot'')),
     git_hook_hmac_secret = ''k''\<rparr>"

definition toy_request :: hook_request where
  "toy_request = \<lparr>repo_id = ''r'', repo_owner = toy_owner, community_id = ''comm'', pusher_pubkey = toy_pusher,
     ref_updates = [\<lparr>h_old_oid = replicate 40 CHR ''1'', h_new_oid = replicate 40 CHR ''2'',
        h_ref_name = ''refs/heads/main'', h_is_ancestor = True\<rparr>], timestamp = 100, signature = []\<rparr>"

definition toy_signed :: hook_request where
  "toy_signed = toy_request\<lparr>signature := ''mac''\<rparr>"

lemma toy_request_valid: "validate_fields toy_env toy_request = Ok ''comm''"
  by (simp add: validate_fields_def toy_request_def toy_owner_def toy_pusher_def toy_env_def
      check_ref_update_def list_all_iff is_lower_hex_def ascii_class_defs less_eq_char_def
      starts_with_def is_control_byte_def)

lemma toy_signed_valid: "validate_fields toy_env toy_signed = Ok ''comm''"
  using toy_request_valid by (simp add: validate_fields_def toy_signed_def cong: if_cong option.case_cong)

lemma toy_push_accepted: "status (hook_policy_check toy_env 110 toy_signed) = 200"
proof -
  note v = toy_signed_valid
  have p: "hmac_payload toy_signed = hmac_payload toy_request"
    by (simp add: toy_signed_def hmac_payload_def refs_sorted_def)
  have h: "verify_hmac toy_env (git_hook_hmac_secret toy_env) toy_signed"
    unfolding verify_hmac_def compute_hmac_def p by (simp add: toy_env_def toy_signed_def)
  have t: "timestamp toy_signed = 100" "repo_id toy_signed = ''r''"
    by (simp_all add: toy_signed_def toy_request_def)
  have o: "hex_decode32 toy_env (repo_owner toy_signed) = Some (replicate 32 CHR ''a'')"
    by (simp add: hex_decode32_def toy_env_def toy_signed_def toy_request_def toy_owner_def)
  have f: "find_announcement toy_env ''comm'' ob ''r'' = Ok toy_announcement" for ob
    by (simp add: find_announcement_def toy_env_def stored_event_new_def)
  have g: "parse_protection_tags (event_tags toy_announcement) = Ok \<lparr>rules = [], unknown_rules = []\<rparr>"
    by (simp add: parse_protection_tags_def toy_announcement_def)
  have b: "check_binding toy_env ''comm'' toy_announcement = Ok (Some ''chan'')"
    by (simp add: check_binding_def resolve_repo_binding_def toy_announcement_def toy_env_def tag_is_def tag_content_def)
  have r: "resolve_role toy_env ''comm'' toy_signed (replicate 32 CHR ''a'') toy_announcement (Some ''chan'') = Ok Bot"
  proof -
    have "hex_decode32 toy_env (pusher_pubkey toy_signed) = Some (replicate 32 CHR ''b'')"
      by (simp add: hex_decode32_def toy_env_def toy_signed_def toy_request_def toy_pusher_def)
    moreover have "pusher_pubkey toy_signed \<noteq> event_pubkey toy_announcement"
      by (simp add: toy_signed_def toy_request_def toy_announcement_def toy_owner_def toy_pusher_def)
    ultimately show ?thesis
      by (simp add: resolve_role_def) (simp add: toy_env_def role_from_str_def)
  qed
  have "hook_authority toy_env 110 toy_signed = Ok (Member, [])"
    unfolding hook_authority_def using v h t o f g b r by (simp add: MAX_CALLBACK_AGE_SECS_def git_role_def)
  moreover have "evaluate_push (map classify_update (ref_updates toy_signed)) Member [] = Ok ()" by code_simp
  ultimately show ?thesis by (simp add: hook_policy_check_def)
qed

theorem push_needs_membership_witness:
  "\<exists>community ob pb ev.
    parse_uuid toy_env (community_id toy_signed) = Some community \<and> callback_authentic toy_env 110 toy_signed \<and>
    hex_decode toy_env (repo_owner toy_signed) = Some ob \<and> hex_decode toy_env (pusher_pubkey toy_signed) = Some pb \<and>
    (pusher_pubkey toy_signed = event_pubkey ev \<or> is_agent_owner toy_env community ob pb = Ok True \<or>
     (\<exists>ch role. resolve_repo_binding (parse_uuid toy_env) ev = Bound ch \<and>
        get_channel toy_env community ch = Ok \<lparr>archived_at = None\<rparr> \<and>
        get_member_role toy_env community ch pb = Ok (Some (role_as_str role)) \<and> role \<in> {Owner, Admin, Member, Bot}))"
  by (rule push_needs_membership [OF toy_push_accepted])

lemma toy_uuid_no_bar: "parse_uuid toy_env s = Some u \<Longrightarrow> CHR ''|'' \<notin> set s"
  by (auto simp: toy_env_def split: if_splits)

theorem hmac_payload_unambiguous_witness:
  "refs_sorted toy_request = refs_sorted toy_signed \<and> timestamp toy_request = timestamp toy_signed"
proof -
  have e: "hmac_payload toy_request = hmac_payload toy_signed"
    by (simp add: toy_signed_def hmac_payload_def refs_sorted_def)
  from hmac_payload_unambiguous [of toy_env, OF toy_uuid_no_bar toy_request_valid toy_signed_valid e] show ?thesis by simp
qed

theorem hook_signature_accepted_witness:
  "verify_hmac (toy_env\<lparr>hex_decode := Some\<rparr>) ''k''
    \<lparr>repo_id = ''r'', repo_owner = toy_owner, community_id = ''comm'', pusher_pubkey = toy_pusher, ref_updates = [],
     timestamp = 1, signature = generate_hook_hmac (toy_env\<lparr>hex_decode := Some\<rparr>) ''k'' ''r'' toy_owner ''comm'' toy_pusher [] 1\<rparr>"
  by (rule hook_signature_accepted) (simp add: toy_env_def)

end
