(* ===== verification/Rust_Text.thy ===== *)
theory Rust_Text
  imports Buzz_Prelude
begin

text \<open>
  Strings of the standard library as sequences of UTF-8 bytes: well-formedness, trimming, lines,
  suffixes, numbers, and \<open>BTreeMap\<close> as a sorted list of entries.
\<close>

section \<open>Strings\<close>

text \<open>\<open>str::from_utf8\<close> accepts exactly the well-formed byte sequences.\<close>

definition in_range :: "nat \<Rightarrow> nat \<Rightarrow> char \<Rightarrow> bool" where
  "in_range lo hi c \<longleftrightarrow> lo \<le> of_char c \<and> of_char c \<le> hi"

fun utf8_valid :: "string \<Rightarrow> bool" where
  "utf8_valid [] = True"
| "utf8_valid (a # s) =
     (if in_range 0 127 a then utf8_valid s
      else
        (case s of
           [] \<Rightarrow> False
         | b # t \<Rightarrow>
             if in_range 0xC2 0xDF a then in_range 0x80 0xBF b \<and> utf8_valid t
             else
               (case t of
                  [] \<Rightarrow> False
                | c # u \<Rightarrow>
                    if in_range 0xE0 0xEF a then
                      (if in_range 0xE0 0xE0 a then in_range 0xA0 0xBF b
                       else if in_range 0xED 0xED a then in_range 0x80 0x9F b
                       else in_range 0x80 0xBF b) \<and> in_range 0x80 0xBF c \<and> utf8_valid u
                    else
                      (case u of
                         [] \<Rightarrow> False
                       | d # v \<Rightarrow>
                           in_range 0xF0 0xF4 a \<and>
                           (if in_range 0xF0 0xF0 a then in_range 0x90 0xBF b
                            else if in_range 0xF4 0xF4 a then in_range 0x80 0x8F b
                            else in_range 0x80 0xBF b) \<and>
                           in_range 0x80 0xBF c \<and> in_range 0x80 0xBF d \<and> utf8_valid v))))"

text \<open>The characters with the Unicode property White\_Space, which \<open>str::trim\<close> removes.\<close>

definition white_space :: "string list" where
  "white_space =
     map (\<lambda>n. [char_of n]) [9, 10, 11, 12, 13, 32 :: nat] @
     [[CHR 0xC2, CHR 0x85], [CHR 0xC2, CHR 0xA0], [CHR 0xE1, CHR 0x9A, CHR 0x80]] @
     map (\<lambda>n. [CHR 0xE2, CHR 0x80, char_of n]) ([0x80..<0x8B] @ [0xA8, 0xA9, 0xAF :: nat]) @
     [[CHR 0xE2, CHR 0x81, CHR 0x9F], [CHR 0xE3, CHR 0x80, CHR 0x80]]"

function strip_front :: "string list \<Rightarrow> string \<Rightarrow> string" where
  "strip_front ws s =
     (case find (\<lambda>w. w \<noteq> [] \<and> starts_with s w) ws of
        None \<Rightarrow> s
      | Some w \<Rightarrow> strip_front ws (drop (length w) s))"
  by auto
termination
proof (relation "measure (\<lambda>(ws, s). length s)")
  fix ws :: "string list" and s w :: string
  assume "find (\<lambda>w. w \<noteq> [] \<and> starts_with s w) ws = Some w"
  then have "w \<noteq> []" "starts_with s w" by (auto simp: find_Some_iff)
  then have "s \<noteq> []" by (auto simp: starts_with_def)
  with \<open>w \<noteq> []\<close> show "((ws, drop (length w) s), (ws, s)) \<in> measure (\<lambda>(ws, s). length s)" by simp
qed simp

declare strip_front.simps [simp del]

definition str_trim :: "string \<Rightarrow> string" where
  "str_trim s = rev (strip_front (map rev white_space) (rev (strip_front white_space s)))"

text \<open>\<open>str::lines\<close>.\<close>

definition strip_cr :: "string \<Rightarrow> string" where
  "strip_cr s = (if s \<noteq> [] \<and> last s = CHR 0x0D then butlast s else s)"

definition str_lines :: "string \<Rightarrow> string list" where
  "str_lines s =
     (let parts = split_on (CHR 0x0A) s
      in map strip_cr (if last parts = [] then butlast parts else parts))"

definition ends_with_str :: "string \<Rightarrow> string \<Rightarrow> bool" where
  "ends_with_str s p \<longleftrightarrow> starts_with (rev s) (rev p)"

definition strip_suffix :: "string \<Rightarrow> string \<Rightarrow> string option" where
  "strip_suffix s p = (if ends_with_str s p then Some (take (length s - length p) s) else None)"

definition contains_str :: "string \<Rightarrow> string \<Rightarrow> bool" where
  "contains_str s p \<longleftrightarrow> sublist p s"

text \<open>A \<open>BTreeMap\<close> is its list of entries in ascending order of the keys.\<close>

fun btree_insert :: "'k::linorder \<Rightarrow> 'v \<Rightarrow> ('k \<times> 'v) list \<Rightarrow> ('k \<times> 'v) list" where
  "btree_insert k v [] = [(k, v)]"
| "btree_insert k v ((j, w) # m) =
     (if k < j then (k, v) # (j, w) # m
      else if k = j then (k, v) # m
      else (j, w) # btree_insert k v m)"

definition btree_ok :: "('k::linorder \<times> 'v) list \<Rightarrow> bool" where
  "btree_ok m \<longleftrightarrow> sorted (map fst m) \<and> distinct (map fst m)"

lemma btree_insert_keys: "set (map fst (btree_insert k v m)) = insert k (set (map fst m))"
  by (induction k v m rule: btree_insert.induct) auto

lemma btree_insert_ok: "btree_ok m \<Longrightarrow> btree_ok (btree_insert k v m)"
proof (induction k v m rule: btree_insert.induct)
  case (2 k v j w m)
  have m: "btree_ok m" "\<And>x. x \<in> set (map fst m) \<Longrightarrow> j < x"
    using "2.prems" by (force simp: btree_ok_def order_less_le)+
  show ?case
  proof (cases k j rule: linorder_cases)
    case less
    then show ?thesis using m by (force simp: btree_ok_def)
  next
    case equal
    then show ?thesis using "2.prems" by (simp add: btree_ok_def)
  next
    case greater
    then have "btree_ok (btree_insert k v m)" using 2 m by simp
    moreover have "\<forall>x \<in> set (map fst (btree_insert k v m)). j < x"
      using m(2) greater unfolding btree_insert_keys by auto
    ultimately show ?thesis using greater by (force simp: btree_ok_def)
  qed
qed (simp add: btree_ok_def)

lemma map_of_btree_insert: "btree_ok m \<Longrightarrow> map_of (btree_insert k v m) = (map_of m)(k \<mapsto> v)"
proof (induction k v m rule: btree_insert.induct)
  case (2 k v j w m)
  then have "btree_ok m" by (simp add: btree_ok_def)
  with 2 show ?case by (auto simp: fun_upd_twist)
qed simp

section \<open>Numbers\<close>

definition U64_MAX :: nat where "U64_MAX = 2 ^ 64 - 1"

definition parse_u64 :: "string \<Rightarrow> nat option" where
  "parse_u64 s =
     (let ds = (case s of c # cs \<Rightarrow> if c = CHR ''+'' then cs else s | [] \<Rightarrow> s)
      in if ds \<noteq> [] \<and> list_all is_ascii_digit ds \<and> digits_value ds \<le> U64_MAX then Some (digits_value ds) else None)"

section \<open>Trimming hexadecimal text\<close>

lemma white_space_ends:
  "w \<in> set white_space \<Longrightarrow> w \<noteq> [] \<and> \<not> is_ascii_hexdigit (hd w) \<and> \<not> is_ascii_hexdigit (last w)"
proof -
  have "list_all (\<lambda>w. w \<noteq> [] \<and> \<not> is_ascii_hexdigit (hd w) \<and> \<not> is_ascii_hexdigit (last w)) white_space"
    by (simp add: white_space_def upt_rec ascii_class_defs less_eq_char_def)
  then show "w \<in> set white_space \<Longrightarrow> w \<noteq> [] \<and> \<not> is_ascii_hexdigit (hd w) \<and> \<not> is_ascii_hexdigit (last w)"
    by (auto simp: list_all_iff)
qed

lemma strip_front_id:
  assumes "\<And>w. w \<in> set ws \<Longrightarrow> w \<noteq> [] \<Longrightarrow> s \<noteq> [] \<Longrightarrow> hd w \<noteq> hd s"
  shows "strip_front ws s = s"
proof -
  have "find (\<lambda>w. w \<noteq> [] \<and> starts_with s w) ws = None"
    unfolding find_None_iff
  proof safe
    fix w
    assume w: "w \<in> set ws" "w \<noteq> []" "starts_with s w"
    then obtain z where "s = w @ z" by (auto simp: starts_with_iff_prefix prefix_def)
    then show False using assms [OF w(1,2)] w(2) by simp
  qed
  then show ?thesis by (subst strip_front.simps) simp
qed

lemma str_trim_hex:
  assumes "list_all is_ascii_hexdigit s"
  shows "str_trim s = s"
proof -
  have ends: "is_ascii_hexdigit (hd s)" "is_ascii_hexdigit (last s)" if "s \<noteq> []"
    using assms that by (auto simp: list_all_iff)
  have "strip_front white_space s = s"
    by (rule strip_front_id) (use white_space_ends ends(1) in metis)
  moreover have "strip_front (map rev white_space) (rev s) = rev s"
  proof (rule strip_front_id)
    fix w
    assume w: "w \<in> set (map rev white_space)" "w \<noteq> []" and s: "rev s \<noteq> []"
    then obtain u where "u \<in> set white_space" "w = rev u" "u \<noteq> []" by auto
    then show "hd w \<noteq> hd (rev s)" using white_space_ends ends(2) s by (metis hd_rev rev_is_Nil_conv)
  qed
  ultimately show ?thesis by (simp add: str_trim_def)
qed

lemma utf8_valid_hex: "list_all is_ascii_hexdigit s \<Longrightarrow> utf8_valid s"
  by (induction s) (auto simp: in_range_def ascii_class_defs less_eq_char_def)

lemma utf8_ascii: "list_all (in_range 0 127) s \<Longrightarrow> utf8_valid s"
  by (induction s) auto

lemma parse_u64_digits:
  "parse_u64 (nat_to_string n) = (if n \<le> U64_MAX then Some n else None)"
proof -
  obtain c cs where s: "nat_to_string n = c # cs" by (metis nat_to_string_nonempty neq_Nil_conv)
  have "is_ascii_digit c" using nat_to_string_digits[of n] s by simp
  then have "c \<noteq> CHR ''+''" by (auto simp: is_ascii_digit_code)
  then show ?thesis
    using nat_to_string_digits[of n] digits_value_nat_to_string[of n]
    unfolding s by (simp add: parse_u64_def Let_def)
qed

lemma parse_u64_bound: "parse_u64 s = Some n \<Longrightarrow> n \<le> U64_MAX"
  by (auto simp: parse_u64_def Let_def split: if_splits)

end
