(* ===== verification/Git_Manifest.thy ===== *)
theory Git_Manifest
  imports Git_Policy Rust_Text
begin

text \<open>
  The published state of a git repository and its wire forms: the manifest with its validation
  and the composition of the next one (\<open>crates/buzz-relay/src/api/git/manifest.rs\<close> and the pure
  functions of \<open>cas_publish.rs\<close>), the names of repositories, the pkt-line framing, the ref
  advertisement that is built from the manifest and the scan of a push report
  (\<open>transport.rs\<close>), and the tags of the ref-state event (\<open>manifest_event.rs\<close>). JSON coding is
  library code and enters as the functions of \<open>git_codec\<close>. Logging and metrics are left out.
\<close>

section \<open>The manifest\<close>

definition MANIFEST_VERSION :: nat where "MANIFEST_VERSION = 1"
definition MAX_MANIFEST_PACKS :: nat where "MAX_MANIFEST_PACKS = 128"
definition PACK_COMPACTION_THRESHOLD :: nat where "PACK_COMPACTION_THRESHOLD = MAX_MANIFEST_PACKS * 3 div 4"
definition MAX_MANIFEST_REFS :: nat where "MAX_MANIFEST_REFS = 10000"

record manifest =
  mf_version :: nat
  mf_head :: string
  mf_refs :: "(string \<times> string) list"
  mf_packs :: "string list"
  mf_parent :: "string option"

datatype manifest_error =
    Serde string
  | UnsupportedVersion nat nat
  | UnsafeRefName string
  | MalformedOid string string
  | EmptyHead
  | MalformedParent string
  | TooManyPacks nat nat
  | TooManyRefs nat nat
  | MalformedPackKey string

definition refname_char :: "char \<Rightarrow> bool" where
  "refname_char c \<longleftrightarrow> is_ascii_alphanumeric c \<or> c \<in> {CHR ''/'', CHR ''_'', CHR ''.'', CHR ''-''}"

definition is_safe_refname :: "string \<Rightarrow> bool" where
  "is_safe_refname s \<longleftrightarrow>
     starts_with s ''refs/'' \<and>
     \<not> (contains_str s ''..'' \<or> contains_str s ''//'' \<or> starts_with s ''/'' \<or> ends_with_str s ''/'') \<and>
     list_all refname_char s"

definition is_hex_oid :: "string \<Rightarrow> bool" where
  "is_hex_oid s \<longleftrightarrow> (length s = 40 \<or> length s = 64) \<and> list_all is_ascii_hexdigit s"

definition digest_char :: "char \<Rightarrow> bool" where
  "digest_char c \<longleftrightarrow> CHR ''0'' \<le> c \<and> c \<le> CHR ''9'' \<or> CHR ''a'' \<le> c \<and> c \<le> CHR ''f''"

definition is_manifest_digest :: "string \<Rightarrow> bool" where
  "is_manifest_digest s \<longleftrightarrow> length s = 64 \<and> list_all digest_char s"

definition is_pack_key :: "string \<Rightarrow> bool" where
  "is_pack_key s \<longleftrightarrow> (case strip_prefix ''packs/'' s of None \<Rightarrow> False | Some d \<Rightarrow> is_manifest_digest d)"

definition repo_stem :: "string \<Rightarrow> string" where
  "repo_stem repo = (case strip_suffix repo ''.git'' of None \<Rightarrow> repo | Some r \<Rightarrow> r)"

definition pointer_key :: "uuid \<Rightarrow> string \<Rightarrow> string \<Rightarrow> string" where
  "pointer_key community owner repo = ''repos/'' @ community @ ''/'' @ owner @ ''/'' @ repo_stem repo @ ''/pointer''"

fun validate_refs :: "(string \<times> string) list \<Rightarrow> (manifest_error, unit) result" where
  "validate_refs [] = Ok ()"
| "validate_refs ((refname, oid) # rs) =
     (if \<not> is_safe_refname refname then Err (UnsafeRefName refname)
      else if \<not> is_hex_oid oid then Err (MalformedOid refname oid)
      else validate_refs rs)"

fun validate_packs :: "string list \<Rightarrow> (manifest_error, unit) result" where
  "validate_packs [] = Ok ()"
| "validate_packs (p # ps) = (if \<not> is_pack_key p then Err (MalformedPackKey p) else validate_packs ps)"

definition manifest_validate :: "manifest \<Rightarrow> (manifest_error, unit) result" where
  "manifest_validate m =
     (if length (mf_packs m) > MAX_MANIFEST_PACKS then Err (TooManyPacks (length (mf_packs m)) MAX_MANIFEST_PACKS)
      else if length (mf_refs m) > MAX_MANIFEST_REFS then Err (TooManyRefs (length (mf_refs m)) MAX_MANIFEST_REFS)
      else if mf_head m = [] then Err EmptyHead
      else if \<not> is_safe_refname (mf_head m) then Err (UnsafeRefName (mf_head m))
      else
        and_then (validate_refs (mf_refs m)) (\<lambda>_.
        and_then (validate_packs (mf_packs m)) (\<lambda>_.
        case mf_parent m of
          None \<Rightarrow> Ok ()
        | Some p \<Rightarrow> if \<not> is_manifest_digest p then Err (MalformedParent p) else Ok ())))"

text \<open>
  JSON coding, SHA-256, the formats of a string under \<open>{:?}\<close> and of a UTF-8 error, and whether
  the HTTP library accepts a text as a header value.
\<close>

record git_codec =
  manifest_to_json :: "manifest \<Rightarrow> (string, string) result"
  manifest_of_json :: "string \<Rightarrow> (string, manifest) result"
  git_sha256_hex :: "string \<Rightarrow> string"
  debug_text :: "string \<Rightarrow> string"
  utf8_error_text :: "string \<Rightarrow> string"
  header_ok :: "string \<Rightarrow> bool"

definition canonical_bytes :: "git_codec \<Rightarrow> manifest \<Rightarrow> (manifest_error, string) result" where
  "canonical_bytes env m =
     (case manifest_to_json env (m\<lparr>mf_packs := remdups_adj (sort (mf_packs m))\<rparr>) of
        Inl e \<Rightarrow> Err (Serde e)
      | Inr b \<Rightarrow> Ok b)"

definition manifest_from_bytes :: "git_codec \<Rightarrow> string \<Rightarrow> (manifest_error, manifest) result" where
  "manifest_from_bytes env bytes =
     (case manifest_of_json env bytes of
        Inl e \<Rightarrow> Err (Serde e)
      | Inr m \<Rightarrow>
          if mf_version m \<noteq> MANIFEST_VERSION then Err (UnsupportedVersion (mf_version m) MANIFEST_VERSION)
          else Ok m)"

section \<open>The next manifest\<close>

definition is_branch :: "string \<Rightarrow> bool" where
  "is_branch name \<longleftrightarrow> starts_with name ''refs/heads/''"

definition resolve_published_head :: "(string \<times> string) list \<Rightarrow> string \<Rightarrow> string \<Rightarrow> string" where
  "resolve_published_head refs observed_head parent_head =
     (let is_published_branch = (\<lambda>name. is_branch name \<and> map_of refs name \<noteq> None)
      in if is_published_branch observed_head then observed_head
         else if is_published_branch parent_head then parent_head
         else
           (case find (\<lambda>p. map_of refs p \<noteq> None) [''refs/heads/main'', ''refs/heads/master''] of
              Some preferred \<Rightarrow> preferred
            | None \<Rightarrow>
                (case find is_branch (map fst refs) of
                   Some branch \<Rightarrow> branch
                 | None \<Rightarrow> if observed_head \<noteq> [] then observed_head else parent_head)))"

definition compose_after :: "manifest \<Rightarrow> string option \<Rightarrow> string \<Rightarrow> (string \<times> string) list \<Rightarrow> string option \<Rightarrow> manifest" where
  "compose_after parent parent_digest head refs new_pack_key =
     (let packs = (case new_pack_key of
                     None \<Rightarrow> mf_packs parent
                   | Some k \<Rightarrow> if k \<in> set (mf_packs parent) then mf_packs parent else mf_packs parent @ [k])
      in \<lparr>mf_version = MANIFEST_VERSION, mf_head = head, mf_refs = refs,
          mf_packs = remdups_adj (sort packs), mf_parent = parent_digest\<rparr>)"

definition compose_compacted_after :: "string option \<Rightarrow> string \<Rightarrow> (string \<times> string) list \<Rightarrow> string list \<Rightarrow> manifest" where
  "compose_compacted_after parent_digest head refs compacted_pack_keys =
     \<lparr>mf_version = MANIFEST_VERSION, mf_head = head, mf_refs = refs,
      mf_packs = remdups_adj (sort compacted_pack_keys), mf_parent = parent_digest\<rparr>"

definition should_compact :: "nat \<Rightarrow> nat \<Rightarrow> bool" where
  "should_compact parent_pack_count threshold \<longleftrightarrow> threshold \<le> parent_pack_count"

definition compacted_pack_set_is_usable :: "nat \<Rightarrow> nat \<Rightarrow> bool" where
  "compacted_pack_set_is_usable parent_pack_count compacted_pack_count \<longleftrightarrow>
     compacted_pack_count < parent_pack_count \<or>
     MAX_MANIFEST_PACKS \<le> parent_pack_count \<and> compacted_pack_count \<le> MAX_MANIFEST_PACKS"

text \<open>The repository name of a request.\<close>

definition validate_repo_id :: "string \<Rightarrow> string \<Rightarrow> (nat \<times> string, string) result" where
  "validate_repo_id owner repo =
     (if length owner \<noteq> 64 \<or> \<not> list_all is_lower_hex owner then Err (400, ''invalid owner'')
      else
        (let repo_name = repo_stem repo
         in if repo_name = [] \<or> length repo_name > 64 \<or> starts_with repo_name ''.'' \<or> contains_str repo_name ''..'' \<or>
               \<not> list_all (\<lambda>c. is_ascii_alphanumeric c \<or> c = CHR ''.'' \<or> c = CHR ''_'' \<or> c = CHR ''-'') repo_name
            then Err (400, ''invalid repo name'')
            else Ok repo_name))"

section \<open>Pkt-lines\<close>

definition hex_char :: "nat \<Rightarrow> char" where
  "hex_char d = (if d < 10 then char_of (48 + d) else char_of (87 + d))"

fun hex_digits :: "nat \<Rightarrow> string" where
  "hex_digits n = (if n < 16 then [hex_char n] else hex_digits (n div 16) @ [hex_char (n mod 16)])"

declare hex_digits.simps [simp del]

text \<open>\<open>format!("{len:04x}")\<close>: at least four digits, more when the number needs them.\<close>

definition hex04 :: "nat \<Rightarrow> string" where
  "hex04 n = replicate (4 - length (hex_digits n)) (CHR ''0'') @ hex_digits n"

definition PKT_LINE_MAX_PAYLOAD :: nat where "PKT_LINE_MAX_PAYLOAD = 0xffff - 4"

definition pkt_line :: "string \<Rightarrow> string" where
  "pkt_line payload =
     (if length payload > PKT_LINE_MAX_PAYLOAD then ''0004''
      else hex04 (length payload + 4) @ payload)"

definition hex_value :: "char \<Rightarrow> nat option" where
  "hex_value c =
     (if is_ascii_digit c then Some (of_char c - 48)
      else if CHR ''a'' \<le> c \<and> c \<le> CHR ''f'' then Some (of_char c - 87)
      else if CHR ''A'' \<le> c \<and> c \<le> CHR ''F'' then Some (of_char c - 55)
      else None)"

fun radix16 :: "nat \<Rightarrow> string \<Rightarrow> nat option" where
  "radix16 acc [] = Some acc"
| "radix16 acc (c # cs) = (case hex_value c of None \<Rightarrow> None | Some d \<Rightarrow> radix16 (acc * 16 + d) cs)"

text \<open>\<open>usize::from_str_radix\<close> takes an optional plus sign; four digits do not overflow.\<close>

definition from_str_radix16 :: "string \<Rightarrow> nat option" where
  "from_str_radix16 s =
     (case s of
        [] \<Rightarrow> None
      | c # cs \<Rightarrow> if c = CHR ''+'' then (if cs = [] then None else radix16 0 cs) else radix16 0 (c # cs))"

text \<open>The payloads the iterator yields from the rest of the buffer.\<close>

function pkt_lines :: "string \<Rightarrow> string list" where
  "pkt_lines buf =
     (if length buf < 4 then []
      else
        (case from_str_radix16 (take 4 buf) of
           None \<Rightarrow> []
         | Some len \<Rightarrow>
             if len < 4 then pkt_lines (drop 4 buf)
             else if length buf < len then []
             else drop 4 (take len buf) # pkt_lines (drop len buf)))"
  by auto
termination by (relation "measure length") auto

declare pkt_lines.simps [simp del]

definition receive_pack_report_rejected :: "string \<Rightarrow> bool" where
  "receive_pack_report_rejected stdout \<longleftrightarrow>
     list_ex (\<lambda>payload.
       (case payload of
          c # inner \<Rightarrow>
            if of_char c = (1 :: nat) then list_ex (\<lambda>line. starts_with line ''ng '') (pkt_lines inner)
            else if of_char c = (2 :: nat) \<or> of_char c = (3 :: nat) then False
            else starts_with payload ''ng ''
        | [] \<Rightarrow> starts_with payload ''ng '')) (pkt_lines stdout)"

definition MAX_FAST_PATH_REFNAME_LEN :: nat where "MAX_FAST_PATH_REFNAME_LEN = 4096"

definition fast_path_eligible :: "manifest \<Rightarrow> bool" where
  "fast_path_eligible m \<longleftrightarrow>
     \<not> list_ex (\<lambda>r. starts_with r ''refs/tags/'') (map fst (mf_refs m)) \<and>
     map_of (mf_refs m) (mf_head m) \<noteq> None \<and>
     list_all (\<lambda>(refname, oid). is_safe_refname refname \<and> length refname \<le> MAX_FAST_PATH_REFNAME_LEN \<and> is_hex_oid oid)
       (mf_refs m)"

definition advertised_caps :: "string \<Rightarrow> string \<Rightarrow> string" where
  "advertised_caps head fmt =
     ''multi_ack thin-pack side-band side-band-64k ofs-delta shallow '' @
     ''deepen-since deepen-not deepen-relative no-progress include-tag '' @
     ''multi_ack_detailed no-done symref=HEAD:'' @ head @ '' object-format='' @ fmt @ '' agent=buzz-git''"

text \<open>\<open>manifest.refs[&manifest.head]\<close> panics when HEAD is not a ref: \<open>None\<close>.\<close>

definition build_upload_pack_advertisement :: "manifest \<Rightarrow> string option" where
  "build_upload_pack_advertisement m =
     (case map_of (mf_refs m) (mf_head m) of
        None \<Rightarrow> None
      | Some head_oid \<Rightarrow>
          (let caps = advertised_caps (mf_head m) (if length head_oid = 64 then ''sha256'' else ''sha1'')
           in Some (pkt_line (''# service=git-upload-pack'' @ [CHR 0x0A]) @ ''0000'' @
                    pkt_line (head_oid @ '' HEAD'' @ [CHR 0x00] @ caps @ [CHR 0x0A]) @
                    concat (map (\<lambda>(refname, oid). pkt_line (oid @ '' '' @ refname @ [CHR 0x0A])) (mf_refs m)) @
                    ''0000'')))"

section \<open>The ref-state event\<close>

datatype build_error = InvalidActor string | InvalidOwner string | SignError string

record ref_state_inputs =
  rs_repo_id :: string
  rs_head :: string
  rs_refs :: "(string \<times> string) list"
  rs_actor :: string
  rs_owner :: string

definition is_emittable_ref :: "string \<Rightarrow> bool" where
  "is_emittable_ref name \<longleftrightarrow>
     (starts_with name ''refs/heads/'' \<or> starts_with name ''refs/tags/'') \<and>
     \<not> (starts_with name ''/'' \<or> contains_str name ''//'') \<and> list_all refname_char name"

text \<open>Key parsing and signing are library code; a parsed key is its lower-case hexadecimal text.\<close>

definition build_ref_state_event ::
  "(string \<Rightarrow> (string, pubkey) result) \<Rightarrow> (nat \<Rightarrow> tag list \<Rightarrow> (string, event) result) \<Rightarrow> ref_state_inputs \<Rightarrow>
   (build_error, event) result" where
  "build_ref_state_event from_hex sign inputs =
     (case from_hex (rs_actor inputs) of
        Inl e \<Rightarrow> Err (InvalidActor e)
      | Inr actor \<Rightarrow>
          (case from_hex (rs_owner inputs) of
             Inl e \<Rightarrow> Err (InvalidOwner e)
           | Inr owner \<Rightarrow>
               (let ref_tags = map (\<lambda>(name, oid). [name, oid])
                      (filter (\<lambda>(name, oid). is_emittable_ref name \<and> is_hex_oid oid) (rs_refs inputs));
                    head_tags = (if rs_head inputs \<noteq> [] \<and> is_emittable_ref (rs_head inputs)
                                 then [[''HEAD'', ''ref: '' @ rs_head inputs]] else []);
                    tags = [[''d'', rs_repo_id inputs]] @ ref_tags @ head_tags @
                           [[''a'', ''30617:'' @ owner @ '':'' @ rs_repo_id inputs], [''p'', actor]]
                in case sign 30618 tags of Inl e \<Rightarrow> Err (SignError e) | Inr ev \<Rightarrow> Ok ev)))"


section \<open>Valid manifests\<close>

definition manifest_valid :: "manifest \<Rightarrow> bool" where
  "manifest_valid m \<longleftrightarrow>
     length (mf_packs m) \<le> MAX_MANIFEST_PACKS \<and> length (mf_refs m) \<le> MAX_MANIFEST_REFS \<and>
     is_safe_refname (mf_head m) \<and>
     (\<forall>(refname, oid) \<in> set (mf_refs m). is_safe_refname refname \<and> is_hex_oid oid) \<and>
     (\<forall>p \<in> set (mf_packs m). is_pack_key p) \<and>
     (\<forall>p. mf_parent m = Some p \<longrightarrow> is_manifest_digest p)"

lemma validate_refs_Ok:
  "validate_refs rs = Inr () \<longleftrightarrow> (\<forall>(refname, oid) \<in> set rs. is_safe_refname refname \<and> is_hex_oid oid)"
  by (induction rs rule: validate_refs.induct) auto

lemma validate_packs_Ok: "validate_packs ps = Inr () \<longleftrightarrow> (\<forall>p \<in> set ps. is_pack_key p)"
  by (induction ps rule: validate_packs.induct) auto

lemma safe_refname_nonempty: "is_safe_refname s \<Longrightarrow> s \<noteq> []"
  by (auto simp: is_safe_refname_def starts_with_def)

lemma manifest_validate_Ok: "manifest_validate m = Inr () \<longleftrightarrow> manifest_valid m"
  unfolding manifest_validate_def manifest_valid_def
  using safe_refname_nonempty
  by (cases "mf_parent m") (auto simp: validate_refs_Ok validate_packs_Ok)

lemma is_pack_key_iff: "is_pack_key s \<longleftrightarrow> (\<exists>d. s = ''packs/'' @ d \<and> is_manifest_digest d)"
  by (auto simp: is_pack_key_def strip_prefix_Some split: option.splits) (auto simp: strip_prefix_def)

text \<open>Sorting and removing duplicates keeps the set and is idempotent.\<close>

definition pack_list :: "string list \<Rightarrow> string list" where
  "pack_list ps = remdups_adj (sort ps)"

lemma set_pack_list [simp]: "set (pack_list ps) = set ps"
  by (simp add: pack_list_def)

lemma sorted_pack_list [simp]: "sorted (pack_list ps)"
  by (simp add: pack_list_def sorted_remdups_adj)

lemma distinct_pack_list [simp]: "distinct (pack_list ps)"
proof -
  have "distinct (remdups_adj xs)" if "sorted xs" for xs :: "string list"
    using that by (induction xs rule: remdups_adj.induct) (auto simp: order.antisym)
  then show ?thesis by (simp add: pack_list_def)
qed

lemma pack_list_idem [simp]: "pack_list (pack_list ps) = pack_list ps"
proof (rule sorted_distinct_set_unique)
  show "set (pack_list (pack_list ps)) = set (pack_list ps)" by simp
qed simp_all

lemma compose_packs:
  "mf_packs (compose_after parent d h refs k) = pack_list (mf_packs parent @ (case k of None \<Rightarrow> [] | Some x \<Rightarrow> [x]))"
  "mf_packs (compose_compacted_after d h refs ks) = pack_list ks"
proof -
  have dup: "pack_list (ps @ [x]) = pack_list ps" if "x \<in> set ps" for x :: string and ps
  proof (rule sorted_distinct_set_unique)
    show "set (pack_list (ps @ [x])) = set (pack_list ps)" using that by auto
  qed simp_all
  show "mf_packs (compose_after parent d h refs k) = pack_list (mf_packs parent @ (case k of None \<Rightarrow> [] | Some x \<Rightarrow> [x]))"
    by (cases k) (auto simp: compose_after_def Let_def dup pack_list_def [symmetric])
  show "mf_packs (compose_compacted_after d h refs ks) = pack_list ks"
    by (simp add: compose_compacted_after_def pack_list_def)
qed

lemma compose_fields [simp]:
  "mf_version (compose_after p d h refs k) = MANIFEST_VERSION" "mf_head (compose_after p d h refs k) = h"
  "mf_refs (compose_after p d h refs k) = refs" "mf_parent (compose_after p d h refs k) = d"
  "mf_version (compose_compacted_after d h refs ks) = MANIFEST_VERSION" "mf_head (compose_compacted_after d h refs ks) = h"
  "mf_refs (compose_compacted_after d h refs ks) = refs" "mf_parent (compose_compacted_after d h refs ks) = d"
  by (simp_all add: compose_after_def compose_compacted_after_def Let_def)

section \<open>HEAD\<close>

text \<open>HEAD names a published branch whenever there is one.\<close>

lemma published_head_is_branch:
  assumes "b \<in> fst ` set refs" and "is_branch b"
  shows "is_branch (resolve_published_head refs observed parent) \<and>
         resolve_published_head refs observed parent \<in> fst ` set refs"
proof -
  have in_refs: "map_of refs x \<noteq> None \<longleftrightarrow> x \<in> fst ` set refs" for x
    by (simp add: map_of_eq_None_iff)
  obtain c where c: "find is_branch (map fst refs) = Some c"
    using assms by (cases "find is_branch (map fst refs)") (auto simp: find_None_iff)
  then have "is_branch c" "c \<in> fst ` set refs" by (auto simp: find_Some_iff intro: nth_mem)
  moreover have "is_branch ''refs/heads/main''" "is_branch ''refs/heads/master''"
    by (simp_all add: is_branch_def starts_with_def)
  ultimately show ?thesis
    using c unfolding resolve_published_head_def Let_def in_refs by simp
qed

section \<open>Framing\<close>

lemma hex_value_hex_char [simp]: "d < 16 \<Longrightarrow> hex_value (hex_char d) = Some d"
proof -
  assume "d < 16"
  then have "d \<in> set [0..<16]" by simp
  moreover have "\<forall>d \<in> set [0..<16]. hex_value (hex_char d) = Some d"
    by (simp add: hex_value_def hex_char_def ascii_class_defs less_eq_char_def upt_rec)
  ultimately show ?thesis by blast
qed

lemma hex_char_not_plus: "d < 16 \<Longrightarrow> hex_char d \<noteq> CHR ''+''"
  using hex_value_hex_char [of d] by (auto simp: hex_value_def ascii_class_defs less_eq_char_def split: if_splits)

lemma radix16_append: "radix16 a (xs @ [c]) = (case radix16 a xs of None \<Rightarrow> None | Some n \<Rightarrow> radix16 n [c])"
  by (induction a xs rule: radix16.induct) (auto split: option.splits)

lemma radix16_zeros: "radix16 0 (replicate k (CHR ''0'') @ ds) = radix16 0 ds"
  by (induction k) (simp_all add: hex_value_def ascii_class_defs)

lemma radix16_hex_digits: "radix16 0 (hex_digits n) = Some n"
proof (induction n rule: hex_digits.induct)
  case (1 n)
  show ?case
  proof (cases "n < 16")
    case False
    then show ?thesis
      using 1 by (subst hex_digits.simps) (simp add: radix16_append)
  qed (subst hex_digits.simps, simp)
qed

lemma hex_digits_plain: "CHR ''+'' \<notin> set (hex_digits n)" "hex_digits n \<noteq> []"
proof -
  show "CHR ''+'' \<notin> set (hex_digits n)"
  proof (induction n rule: hex_digits.induct)
    case (1 n)
    then show ?case
      using hex_char_not_plus [of n] hex_char_not_plus [of "n mod 16"]
      by (subst hex_digits.simps) (auto simp: eq_commute)
  qed
  show "hex_digits n \<noteq> []" by (subst hex_digits.simps) simp
qed

lemma hex_digits_length: "n < 16 ^ Suc k \<Longrightarrow> length (hex_digits n) \<le> Suc k"
proof (induction k arbitrary: n)
  case 0
  then show ?case by (subst hex_digits.simps) simp
next
  case (Suc k)
  then have "n div 16 < 16 ^ Suc k" by (simp add: less_mult_imp_div_less)
  then show ?case using Suc.IH [of "n div 16"] by (subst hex_digits.simps) simp
qed

lemma hex04_length: "n \<le> 0xffff \<Longrightarrow> length (hex04 n) = 4"
  using hex_digits_length [of n 3] by (simp add: hex04_def)

lemma from_str_radix16_hex04 [simp]: "from_str_radix16 (hex04 n) = Some n"
proof -
  have "CHR ''+'' \<notin> set (hex04 n)" "hex04 n \<noteq> []"
    using hex_digits_plain [of n] by (auto simp: hex04_def)
  moreover have "radix16 0 (hex04 n) = Some n"
    by (simp add: hex04_def radix16_zeros radix16_hex_digits)
  ultimately show ?thesis
    by (cases "hex04 n") (auto simp: from_str_radix16_def simp del: radix16.simps)
qed

lemma pkt_lines_pkt_line:
  assumes "length p \<le> PKT_LINE_MAX_PAYLOAD"
  shows "pkt_lines (pkt_line p @ rest) = p # pkt_lines rest"
proof -
  let ?n = "length p + 4"
  have len: "length (hex04 ?n) = 4" using assms by (intro hex04_length) (simp add: PKT_LINE_MAX_PAYLOAD_def)
  have eq: "pkt_line p @ rest = hex04 ?n @ p @ rest" using assms by (simp add: pkt_line_def)
  have "take 4 (hex04 ?n @ p @ rest) = hex04 ?n" "drop 4 (take ?n (hex04 ?n @ p @ rest)) = p"
    "drop ?n (hex04 ?n @ p @ rest) = rest"
    using len by simp_all
  then show ?thesis unfolding eq by (subst pkt_lines.simps) (simp add: len)
qed

lemma pkt_lines_flush: "pkt_lines (''0000'' @ rest) = pkt_lines rest"
  by (subst pkt_lines.simps) (simp add: from_str_radix16_def hex_value_def ascii_class_defs)

lemma pkt_lines_Nil [simp]: "pkt_lines [] = []"
  by (subst pkt_lines.simps) simp

lemma pkt_lines_concat:
  "(\<And>p. p \<in> set ps \<Longrightarrow> length p \<le> PKT_LINE_MAX_PAYLOAD) \<Longrightarrow>
   pkt_lines (concat (map pkt_line ps) @ rest) = ps @ pkt_lines rest"
  by (induction ps) (simp_all add: pkt_lines_pkt_line)

lemma hex_oid_length: "is_hex_oid s \<Longrightarrow> length s \<le> 64"
  by (auto simp: is_hex_oid_def)


section \<open>The advertisement\<close>

text \<open>What a client reads from one line of the advertisement: the name and the object id.\<close>

definition parse_ref_line :: "string \<Rightarrow> (string \<times> string) option" where
  "parse_ref_line l = map_option prod.swap (split_once (CHR '' '') (butlast l))"

lemma hexdigit_no_space: "list_all is_ascii_hexdigit s \<Longrightarrow> CHR '' '' \<notin> set s"
  by (auto simp: list_all_iff ascii_class_defs less_eq_char_def)

lemma parse_ref_line_line: "is_hex_oid oid \<Longrightarrow> parse_ref_line (oid @ '' '' @ refname @ [CHR 0x0A]) = Some (refname, oid)"
  using split_once_at [of "CHR '' ''" oid refname] hexdigit_no_space [of oid]
  by (simp add: parse_ref_line_def is_hex_oid_def butlast_append)

text \<open>
  For every manifest that takes the fast path the advertisement is built, no line of it is
  dropped, and a client that reads its pkt-lines gets the service line, a line with HEAD's
  object and the symbolic target, and then exactly the published refs in order.
\<close>
theorem advertisement_roundtrip:
  assumes "fast_path_eligible m"
  shows "\<exists>out head_oid caps. build_upload_pack_advertisement m = Some out \<and>
    map_of (mf_refs m) (mf_head m) = Some head_oid \<and>
    take 2 (pkt_lines out) =
      [''# service=git-upload-pack'' @ [CHR 0x0A], head_oid @ '' HEAD'' @ [CHR 0x00] @ caps @ [CHR 0x0A]] \<and>
    sublist (''symref=HEAD:'' @ mf_head m @ '' '') caps \<and>
    map parse_ref_line (drop 2 (pkt_lines out)) = map Some (mf_refs m)"
proof -
  from assms obtain oid where oid: "map_of (mf_refs m) (mf_head m) = Some oid"
    by (auto simp: fast_path_eligible_def)
  have refs: "is_hex_oid o' \<and> length r \<le> 4096" if "(r, o') \<in> set (mf_refs m)" for r o'
    using assms that by (auto simp: fast_path_eligible_def list_all_iff MAX_FAST_PATH_REFNAME_LEN_def)
  have head: "length oid \<le> 64" "length (mf_head m) \<le> 4096"
    using refs [OF map_of_SomeD [OF oid]] hex_oid_length by auto
  let ?line = "\<lambda>(r, o'). o' @ '' '' @ r @ [CHR 0x0A]"
  let ?fmt = "if length oid = 64 then ''sha256'' else ''sha1''"
  let ?svc = "''# service=git-upload-pack'' @ [CHR 0x0A]"
  let ?first = "oid @ '' HEAD'' @ [CHR 0x00] @ advertised_caps (mf_head m) ?fmt @ [CHR 0x0A]"
  have out: "build_upload_pack_advertisement m = Some (pkt_line ?svc @ ''0000'' @ pkt_line ?first @
      concat (map pkt_line (map ?line (mf_refs m))) @ ''0000'')"
    by (simp add: build_upload_pack_advertisement_def oid Let_def comp_def case_prod_unfold)
  have lens: "length ?svc \<le> PKT_LINE_MAX_PAYLOAD" "length ?first \<le> PKT_LINE_MAX_PAYLOAD"
    using head by (simp_all add: advertised_caps_def PKT_LINE_MAX_PAYLOAD_def)
  have lines: "length p \<le> PKT_LINE_MAX_PAYLOAD" if "p \<in> set (map ?line (mf_refs m))" for p
    using that refs hex_oid_length by (force simp: PKT_LINE_MAX_PAYLOAD_def)
  have flush: "pkt_lines ''0000'' = []" using pkt_lines_flush [of "[]"] by simp
  have pkts: "pkt_lines (pkt_line ?svc @ ''0000'' @ pkt_line ?first @ concat (map pkt_line (map ?line (mf_refs m))) @ ''0000'')
      = ?svc # ?first # map ?line (mf_refs m)"
    by (subst pkt_lines_pkt_line [OF lens(1)], subst pkt_lines_flush, subst pkt_lines_pkt_line [OF lens(2)],
        subst pkt_lines_concat [OF lines]) (simp_all add: flush)
  have "sublist (''symref=HEAD:'' @ mf_head m @ '' '') (advertised_caps (mf_head m) ?fmt)"
  proof -
    have "advertised_caps (mf_head m) ?fmt =
        (''multi_ack thin-pack side-band side-band-64k ofs-delta shallow '' @
         ''deepen-since deepen-not deepen-relative no-progress include-tag '' @ ''multi_ack_detailed no-done '') @
        (''symref=HEAD:'' @ mf_head m @ '' '') @ ''object-format='' @ ?fmt @ '' agent=buzz-git''"
      by (simp add: advertised_caps_def)
    then show ?thesis by (metis sublist_appendI)
  qed
  moreover have "map parse_ref_line (map ?line (mf_refs m)) = map Some (mf_refs m)"
    using refs parse_ref_line_line by (auto simp: comp_def)
  ultimately show ?thesis using out oid pkts by force
qed

definition branch_manifest :: manifest where
  "branch_manifest = \<lparr>mf_version = 1, mf_head = ''refs/heads/main'',
     mf_refs = [(''refs/heads/main'', replicate 40 (CHR ''a''))], mf_packs = [], mf_parent = None\<rparr>"

lemma branch_manifest_eligible: "fast_path_eligible branch_manifest"
  by (simp add: fast_path_eligible_def branch_manifest_def is_safe_refname_def is_hex_oid_def starts_with_def
      ends_with_str_def contains_str_def refname_char_def ascii_class_defs less_eq_char_def list_all_iff
      MAX_FAST_PATH_REFNAME_LEN_def sublist_Cons_right)

theorem advertisement_roundtrip_witness:
  "\<exists>out. build_upload_pack_advertisement branch_manifest = Some out \<and>
     map parse_ref_line (drop 2 (pkt_lines out)) = [Some (''refs/heads/main'', replicate 40 (CHR ''a''))]"
  using advertisement_roundtrip [OF branch_manifest_eligible] by (auto simp: branch_manifest_def)

section \<open>The push report\<close>

text \<open>A report in one side-band packet is recognised exactly when it rejects a ref.\<close>

lemma report_rejected_sideband:
  assumes "\<And>l. l \<in> set ls \<Longrightarrow> length l \<le> PKT_LINE_MAX_PAYLOAD"
    and "length (concat (map pkt_line ls)) + 5 \<le> PKT_LINE_MAX_PAYLOAD"
  shows "receive_pack_report_rejected (pkt_line ([CHR 0x01] @ concat (map pkt_line ls) @ ''0000'') @ ''0000'') \<longleftrightarrow>
         list_ex (\<lambda>l. starts_with l ''ng '') ls"
proof -
  have inner: "pkt_lines (concat (map pkt_line ls) @ ''0000'') = ls"
    using pkt_lines_concat [OF assms(1), of ls "''0000''"] pkt_lines_flush [of "[]"] by simp
  have "pkt_lines (pkt_line ([CHR 0x01] @ concat (map pkt_line ls) @ ''0000'') @ ''0000'') =
      [[CHR 0x01] @ concat (map pkt_line ls) @ ''0000'']"
    using assms(2) pkt_lines_flush [of "[]"] by (subst pkt_lines_pkt_line) simp_all
  then show ?thesis by (simp add: receive_pack_report_rejected_def inner)
qed

section \<open>Names of repositories\<close>

lemma append_slash_inj:
  "CHR ''/'' \<notin> set xs \<Longrightarrow> CHR ''/'' \<notin> set ys \<Longrightarrow> xs @ ''/'' @ us = ys @ ''/'' @ vs \<longleftrightarrow> xs = ys \<and> us = vs"
  using append_sep_inj [of "CHR ''/''" xs ys us vs] by simp

lemma validate_repo_id_Ok:
  assumes "validate_repo_id owner repo = Ok name"
  shows "name = repo_stem repo" "CHR ''/'' \<notin> set owner" "CHR ''/'' \<notin> set name" "length owner = 64"
proof -
  from assms show "name = repo_stem repo" "length owner = 64"
    by (auto simp: validate_repo_id_def Let_def split: if_splits)
  from assms have o: "list_all is_lower_hex owner" and
    n: "list_all (\<lambda>c. is_ascii_alphanumeric c \<or> c = CHR ''.'' \<or> c = CHR ''_'' \<or> c = CHR ''-'') name"
    by (auto simp: validate_repo_id_def Let_def split: if_splits)
  from o show "CHR ''/'' \<notin> set owner"
    by (auto simp: list_all_iff is_lower_hex_def ascii_class_defs less_eq_char_def)
  from n show "CHR ''/'' \<notin> set name"
    by (auto simp: list_all_iff ascii_class_defs less_eq_char_def)
qed

lemma pointer_key_inj:
  assumes "validate_repo_id o1 r1 = Ok n1" and "validate_repo_id o2 r2 = Ok n2"
    and "CHR ''/'' \<notin> set c1" and "CHR ''/'' \<notin> set c2"
  shows "pointer_key c1 o1 r1 = pointer_key c2 o2 r2 \<longleftrightarrow> c1 = c2 \<and> o1 = o2 \<and> n1 = n2"
proof -
  note v1 = validate_repo_id_Ok [OF assms(1)] and v2 = validate_repo_id_Ok [OF assms(2)]
  have "pointer_key c1 o1 r1 = pointer_key c2 o2 r2 \<longleftrightarrow>
      c1 @ ''/'' @ o1 @ ''/'' @ n1 @ ''/'' @ ''pointer'' = c2 @ ''/'' @ o2 @ ''/'' @ n2 @ ''/'' @ ''pointer''"
    by (simp add: pointer_key_def v1(1) v2(1))
  also have "\<dots> \<longleftrightarrow> c1 = c2 \<and> o1 = o2 \<and> n1 = n2"
    unfolding append_slash_inj [OF assms(3,4)] append_slash_inj [OF v1(2) v2(2)] append_slash_inj [OF v1(3) v2(3)]
    by simp
  finally show ?thesis .
qed

end
