(* ===== verification/Shared_Programs.thy ===== *)
theory Shared_Programs
  imports Buzz_Prelude
begin

text \<open>
  Programs that talk to a shared service. An asynchronous function that sends requests to a
  store other processes use as well is a tree: a value, or a request with the continuation
  for each reply. Between two requests of one program any number of requests of other programs
  may be served, replies may be lost, and a program may be dropped. The theory gives the
  interleaved runs of such programs and a rely-guarantee rule for them.
\<close>

section \<open>Programs\<close>

datatype ('o, 'r, 'a) prog =
    Done 'a
  | Request 'o "'r \<Rightarrow> ('o, 'r, 'a) prog"

primrec bind_prog :: "('o, 'r, 'a) prog \<Rightarrow> ('a \<Rightarrow> ('o, 'r, 'b) prog) \<Rightarrow> ('o, 'r, 'b) prog" where
  "bind_prog (Done a) f = f a"
| "bind_prog (Request op k) f = Request op (\<lambda>r. bind_prog (k r) f)"

text \<open>\<open>f().await?\<close> and \<open>map_err\<close>.\<close>

definition try_prog ::
  "('o, 'r, ('e, 'a) result) prog \<Rightarrow> ('a \<Rightarrow> ('o, 'r, ('e, 'b) result) prog) \<Rightarrow> ('o, 'r, ('e, 'b) result) prog" where
  "try_prog p f = bind_prog p (\<lambda>r. case r of Inl e \<Rightarrow> Done (Inl e) | Inr a \<Rightarrow> f a)"

definition map_err :: "('e \<Rightarrow> 'f) \<Rightarrow> ('o, 'r, ('e, 'a) result) prog \<Rightarrow> ('o, 'r, ('f, 'a) result) prog" where
  "map_err g p = bind_prog p (\<lambda>r. Done (case r of Inl e \<Rightarrow> Inl (g e) | Inr a \<Rightarrow> Inr a))"

text \<open>
  \<open>tokio::time::timeout\<close>: after \<open>n\<close> requests the program is dropped, with the next request
  either not sent or in flight. A program that ends before is not affected.
\<close>

fun cut_prog :: "nat \<Rightarrow> bool \<Rightarrow> ('o, 'r, 'a) prog \<Rightarrow> ('o, 'r, 'a option) prog" where
  "cut_prog n sent (Done a) = Done (Some a)"
| "cut_prog 0 sent (Request op k) = (if sent then Request op (\<lambda>_. Done None) else Done None)"
| "cut_prog (Suc n) sent (Request op k) = Request op (\<lambda>r. cut_prog n sent (k r))"

definition bounded_prog :: "(nat \<times> bool) option \<Rightarrow> ('o, 'r, 'a) prog \<Rightarrow> ('o, 'r, 'a option) prog" where
  "bounded_prog limit p = (case limit of None \<Rightarrow> bind_prog p (\<lambda>a. Done (Some a)) | Some (n, sent) \<Rightarrow> cut_prog n sent p)"

lemma bind_prog_assoc: "bind_prog (bind_prog p f) g = bind_prog p (\<lambda>a. bind_prog (f a) g)"
  by (induction p) auto

lemma bind_prog_Done [simp]: "bind_prog p Done = p"
  by (induction p) auto

section \<open>One program alone\<close>

text \<open>
  \<open>answers perform w p w' a\<close>: served from the world \<open>w\<close> without interference, \<open>p\<close> may end with
  \<open>a\<close> in \<open>w'\<close>.
\<close>

inductive answers ::
  "('o \<Rightarrow> 'w \<Rightarrow> 'r \<Rightarrow> 'w \<Rightarrow> bool) \<Rightarrow> 'w \<Rightarrow> ('o, 'r, 'a) prog \<Rightarrow> 'w \<Rightarrow> 'a \<Rightarrow> bool"
  for perform where
  answers_Done: "answers perform w (Done a) w a"
| answers_Request: "perform op w r w1 \<Longrightarrow> answers perform w1 (k r) w2 a \<Longrightarrow> answers perform w (Request op k) w2 a"

inductive_simps answers_simps [simp]:
  "answers perform w (Done b) w' a"
  "answers perform w (Request op k) w' a"

lemma answers_bind:
  "answers perform w (bind_prog p f) w2 b \<longleftrightarrow> (\<exists>w1 a. answers perform w p w1 a \<and> answers perform w1 (f a) w2 b)"
  by (induction p arbitrary: w) auto

section \<open>Interleaved programs\<close>

text \<open>
  A system has the shared world, the running programs with what they were started for, and the
  requests served so far. A program starts, has its next request served, or is dropped.
\<close>

record ('w, 'q, 'o, 'r, 'a) system =
  world :: 'w
  sessions :: "('q \<times> ('o, 'r, 'a) prog) list"
  served :: "'o list"

datatype ('q, 'r) system_event = Begins 'q | Replies nat 'r | Drops nat

inductive system_step ::
  "('q \<Rightarrow> bool) \<Rightarrow> ('q \<Rightarrow> ('o, 'r, 'a) prog) \<Rightarrow> ('o \<Rightarrow> 'w \<Rightarrow> 'r \<Rightarrow> 'w \<Rightarrow> bool) \<Rightarrow>
   ('w, 'q, 'o, 'r, 'a) system \<Rightarrow> ('q, 'r) system_event \<Rightarrow> ('w, 'q, 'o, 'r, 'a) system \<Rightarrow> bool"
  for admitted :: "'q \<Rightarrow> bool" and code :: "'q \<Rightarrow> ('o, 'r, 'a) prog" and perform :: "'o \<Rightarrow> 'w \<Rightarrow> 'r \<Rightarrow> 'w \<Rightarrow> bool" where
  begins: "admitted q \<Longrightarrow> system_step admitted code perform s (Begins q) (s\<lparr>sessions := sessions s @ [(q, code q)]\<rparr>)"
| replies: "i < length (sessions s) \<Longrightarrow> sessions s ! i = (q, Request op k) \<Longrightarrow> perform op (world s) r w' \<Longrightarrow>
    system_step admitted code perform s (Replies i r)
      (s\<lparr>world := w', sessions := (sessions s)[i := (q, k r)], served := served s @ [op]\<rparr>)"
| drops: "i < length (sessions s) \<Longrightarrow>
    system_step admitted code perform s (Drops i) (s\<lparr>sessions := take i (sessions s) @ drop (Suc i) (sessions s)\<rparr>)"

inductive_cases system_stepE: "system_step admitted code perform s l t"

definition system_start :: "('w \<Rightarrow> bool) \<Rightarrow> ('w, 'q, 'o, 'r, 'a) system \<Rightarrow> bool" where
  "system_start w0 s \<longleftrightarrow> w0 (world s) \<and> sessions s = [] \<and> served s = []"

section \<open>Rely and guarantee\<close>

text \<open>
  \<open>safe\<close> of a program at a world: in every later world that has the invariant, an admissible
  request keeps the invariant whether or not its reply arrives, and whatever is replied the rest
  is safe there; a value satisfies the postcondition.
\<close>

primrec safe ::
  "('o, 'r, 'a) prog \<Rightarrow> ('w \<Rightarrow> bool) \<Rightarrow> ('w \<Rightarrow> 'w \<Rightarrow> bool) \<Rightarrow> ('o \<Rightarrow> bool) \<Rightarrow> ('o \<Rightarrow> 'w \<Rightarrow> 'r \<Rightarrow> 'w \<Rightarrow> bool) \<Rightarrow>
   ('a \<Rightarrow> 'w \<Rightarrow> bool) \<Rightarrow> 'w \<Rightarrow> bool" where
  "safe (Done a) good later admit perform post w = post a w"
| "safe (Request op k) good later admit perform post w =
     (\<forall>w1 r w2. later w w1 \<longrightarrow> good w1 \<longrightarrow> admit op \<longrightarrow> perform op w1 r w2 \<longrightarrow>
        good w2 \<and> safe (k r) good later admit perform post w2)"

lemma safe_bind:
  "safe (bind_prog p f) good later admit perform post =
   safe p good later admit perform (\<lambda>a. safe (f a) good later admit perform post)"
  by (induction p) (auto simp: fun_eq_iff)

lemma safe_mono:
  "safe p good later admit perform post w \<Longrightarrow> (\<And>a w. post a w \<Longrightarrow> post' a w) \<Longrightarrow> safe p good later admit perform post' w"
  by (induction p arbitrary: w) auto

locale interference =
  fixes inv :: "'w \<Rightarrow> bool"
    and later :: "'w \<Rightarrow> 'w \<Rightarrow> bool"
    and admit :: "'o \<Rightarrow> bool"
    and perform :: "'o \<Rightarrow> 'w \<Rightarrow> 'r \<Rightarrow> 'w \<Rightarrow> bool"
  assumes later_refl: "later w w"
    and later_trans: "later u v \<Longrightarrow> later v w \<Longrightarrow> later u w"
    and perform_later: "perform op w r w' \<Longrightarrow> later w w'"
begin

definition stable :: "('a \<Rightarrow> 'w \<Rightarrow> bool) \<Rightarrow> bool" where
  "stable post \<longleftrightarrow> (\<forall>a v w. post a v \<longrightarrow> later v w \<longrightarrow> post a w)"

lemma safe_later:
  assumes "stable post" and "later v w" and "safe p inv later admit perform post v"
  shows "safe p inv later admit perform post w"
proof (cases p)
  case (Done a)
  then show ?thesis using assms by (auto simp: stable_def)
next
  case (Request op k)
  show ?thesis using assms(3) unfolding Request safe.simps by (meson assms(2) later_trans)
qed

text \<open>
  The rules for sequential composition: a value also tells that the world is a later one with
  the invariant.
\<close>

lemma safe_frame:
  "inv w \<Longrightarrow> safe p inv later admit perform post w \<Longrightarrow>
   safe p inv later admit perform (\<lambda>a v. post a v \<and> later w v \<and> inv v) w"
proof (induction p arbitrary: w)
  case (Done a)
  then show ?case by (simp add: later_refl)
next
  case (Request op k)
  show ?case
    unfolding safe.simps
  proof (intro allI impI)
    fix v r u
    assume v: "later w v" "inv v" "admit op" "perform op v r u"
    then have u: "inv u" "safe (k r) inv later admit perform post u" "later w u"
      using Request.prems(2) later_trans perform_later by (simp, simp, blast)
    have "safe (k r) inv later admit perform (\<lambda>a x. post a x \<and> later u x \<and> inv x) u"
      by (rule Request.IH) (use u in auto)
    then have "safe (k r) inv later admit perform (\<lambda>a x. post a x \<and> later w x \<and> inv x) u"
      by (rule safe_mono) (use u(3) later_trans in blast)
    with u show "inv u \<and> safe (k r) inv later admit perform (\<lambda>a x. post a x \<and> later w x \<and> inv x) u" by simp
  qed
qed

lemma safe_seq:
  assumes "inv w" and "safe p inv later admit perform post w"
    and "\<And>a v. post a v \<Longrightarrow> later w v \<Longrightarrow> inv v \<Longrightarrow> safe (f a) inv later admit perform post' v"
  shows "safe (bind_prog p f) inv later admit perform post' w"
  unfolding safe_bind by (rule safe_mono [OF safe_frame [OF assms(1,2)]]) (use assms(3) in blast)

lemma safe_try:
  assumes "inv w" and "safe p inv later admit perform post w"
    and "\<And>a v. post (Inr a) v \<Longrightarrow> later w v \<Longrightarrow> inv v \<Longrightarrow> safe (f a) inv later admit perform post' v"
    and "\<And>e v. post (Inl e) v \<Longrightarrow> later w v \<Longrightarrow> inv v \<Longrightarrow> post' (Inl e) v"
  shows "safe (try_prog p f) inv later admit perform post' w"
  unfolding try_prog_def by (rule safe_seq [OF assms(1,2)]) (use assms(3,4) in \<open>auto split: sum.splits\<close>)

lemma safe_map_err:
  assumes "inv w" and "safe p inv later admit perform post w"
    and "\<And>a v. post (Inr a) v \<Longrightarrow> later w v \<Longrightarrow> inv v \<Longrightarrow> post' (Inr a) v"
    and "\<And>e v. post (Inl e) v \<Longrightarrow> later w v \<Longrightarrow> inv v \<Longrightarrow> post' (Inl (g e)) v"
  shows "safe (map_err g p) inv later admit perform post' w"
  unfolding map_err_def by (rule safe_seq [OF assms(1,2)]) (use assms(3,4) in \<open>auto split: sum.splits\<close>)

lemma safe_request:
  assumes "\<And>v r u. later w v \<Longrightarrow> inv v \<Longrightarrow> admit op \<Longrightarrow> perform op v r u \<Longrightarrow> inv u \<and> safe (k r) inv later admit perform post u"
  shows "safe (Request op k) inv later admit perform post w"
  using assms by auto

text \<open>
  A timeout keeps what the program keeps.
\<close>

lemma safe_cut:
  "safe p inv later admit perform post w \<Longrightarrow>
   safe (cut_prog n sent p) inv later admit perform (\<lambda>r v. \<forall>a. r = Some a \<longrightarrow> post a v) w"
  by (induction n sent p arbitrary: w rule: cut_prog.induct) auto

lemma safe_bounded:
  assumes "safe p inv later admit perform post w"
  shows "safe (bounded_prog limit p) inv later admit perform (\<lambda>r v. \<forall>a. r = Some a \<longrightarrow> post a v) w"
proof (cases limit)
  case None
  have "safe (bind_prog p (\<lambda>a. Done (Some a))) inv later admit perform (\<lambda>r v. \<forall>a. r = Some a \<longrightarrow> post a v) w"
    unfolding safe_bind by (rule safe_mono [OF assms]) simp
  then show ?thesis by (simp add: bounded_prog_def None)
next
  case (Some c)
  then show ?thesis using safe_cut [OF assms] by (cases c) (simp add: bounded_prog_def)
qed

text \<open>
  What every run keeps: while the served requests are admissible, the world has the invariant
  and each running program is safe for what it was started for.
\<close>

definition system_ok ::
  "('q \<Rightarrow> 'a \<Rightarrow> 'w \<Rightarrow> bool) \<Rightarrow> ('w, 'q, 'o, 'r, 'a) system \<Rightarrow> bool" where
  "system_ok post s \<longleftrightarrow>
     ((\<forall>op \<in> set (served s). admit op) \<longrightarrow>
        inv (world s) \<and> (\<forall>(q, p) \<in> set (sessions s). safe p inv later admit perform (post q) (world s)))"

lemma system_step_ok:
  assumes "system_ok post s" and "system_step admitted code perform s l t"
    and stable: "\<And>q. stable (post q)"
    and code: "\<And>q w. admitted q \<Longrightarrow> inv w \<Longrightarrow> safe (code q) inv later admit perform (post q) w"
  shows "system_ok post t"
  using assms(2)
proof (cases rule: system_step.cases)
  case (begins q)
  then show ?thesis using assms(1) code by (auto simp: system_ok_def)
next
  case (replies i q op k r w')
  have later: "later (world s) w'" using replies perform_later by blast
  have member: "(q, Request op k) \<in> set (sessions s)" using replies by (metis nth_mem)
  show ?thesis
    unfolding system_ok_def
  proof
    assume ad: "\<forall>op \<in> set (served t). admit op"
    then have s: "inv (world s)" "\<forall>(q, p) \<in> set (sessions s). safe p inv later admit perform (post q) (world s)"
      and op: "admit op"
      using assms(1) replies by (auto simp: system_ok_def)
    from s(2) member have "safe (Request op k) inv later admit perform (post q) (world s)" by blast
    with s(1) op later_refl replies have w': "inv w'" "safe (k r) inv later admit perform (post q) w'" by auto
    have "safe p inv later admit perform (post q') w'" if "(q', p) \<in> set (sessions s)" for q' p
      using s(2) that safe_later [OF stable later] by blast
    with w' replies show "inv (world t) \<and> (\<forall>(q, p) \<in> set (sessions t). safe p inv later admit perform (post q) (world t))"
      using set_update_subset_insert [of "sessions s" i "(q, k r)"] by auto
  qed
next
  case (drops i)
  then show ?thesis
    using assms(1) set_take_subset [of i "sessions s"] set_drop_subset [of "Suc i" "sessions s"]
    by (fastforce simp: system_ok_def)
qed

lemma reachable_system_ok:
  assumes "reachable (system_start w0) (system_step admitted code perform) s"
    and "\<And>w. w0 w \<Longrightarrow> inv w"
    and "\<And>q. stable (post q)"
    and "\<And>q w. admitted q \<Longrightarrow> inv w \<Longrightarrow> safe (code q) inv later admit perform (post q) w"
  shows "system_ok post s"
  using assms(1)
proof (induction rule: reachable.induct)
  case (reach_start s)
  then show ?case using assms(2) by (simp add: system_start_def system_ok_def)
next
  case (reach_step s l t)
  then show ?case using system_step_ok assms(3,4) by blast
qed

lemma reachable_finished:
  assumes "reachable (system_start w0) (system_step admitted code perform) s"
    and "\<And>w. w0 w \<Longrightarrow> inv w"
    and "\<And>q. stable (post q)"
    and "\<And>q w. admitted q \<Longrightarrow> inv w \<Longrightarrow> safe (code q) inv later admit perform (post q) w"
    and "\<forall>op \<in> set (served s). admit op"
  shows "inv (world s)" and "(q, Done a) \<in> set (sessions s) \<Longrightarrow> post q a (world s)"
  using reachable_system_ok [of w0 admitted code s post] assms by (auto simp: system_ok_def)

end


section \<open>Runs that are computed\<close>

text \<open>A service that answers by a function: one program alone, and one step of a session of a system.\<close>

primrec run_alone :: "('o, 'r, 'a) prog \<Rightarrow> ('o \<Rightarrow> 'w \<Rightarrow> 'r \<times> 'w) \<Rightarrow> 'w \<Rightarrow> 'a \<times> 'w" where
  "run_alone (Done a) serve w = (a, w)"
| "run_alone (Request op k) serve w = run_alone (k (fst (serve op w))) serve (snd (serve op w))"

lemma run_alone_bind:
  "run_alone (bind_prog p f) serve w = run_alone (f (fst (run_alone p serve w))) serve (snd (run_alone p serve w))"
  by (induction p arbitrary: w) auto

definition run_begin :: "('q \<Rightarrow> ('o, 'r, 'a) prog) \<Rightarrow> 'q \<Rightarrow> ('w, 'q, 'o, 'r, 'a) system \<Rightarrow> ('w, 'q, 'o, 'r, 'a) system" where
  "run_begin code q s = s\<lparr>sessions := sessions s @ [(q, code q)]\<rparr>"

definition run_next :: "('o \<Rightarrow> 'w \<Rightarrow> 'r \<times> 'w) \<Rightarrow> ('w, 'q, 'o, 'r, 'a) system \<Rightarrow> nat \<Rightarrow> ('w, 'q, 'o, 'r, 'a) system" where
  "run_next serve s i =
     (if i < length (sessions s) then
        (case sessions s ! i of
           (q, Done a) \<Rightarrow> s
         | (q, Request op k) \<Rightarrow>
             (let (r, w) = serve op (world s)
              in s\<lparr>world := w, sessions := (sessions s)[i := (q, k r)], served := served s @ [op]\<rparr>))
      else s)"

lemma reachable_run_begin:
  assumes "reachable start (system_step admitted code perform) s" and "admitted q"
  shows "reachable start (system_step admitted code perform) (run_begin code q s)"
proof -
  have "system_step admitted code perform s (Begins q) (run_begin code q s)"
    unfolding run_begin_def by (rule begins) (rule assms(2))
  with assms(1) show ?thesis by (rule reach_step)
qed

lemma run_next_step:
  assumes "i < length (sessions s)" and "sessions s ! i = (q, Request op k)"
    and "perform op (world s) (fst (serve op (world s))) (snd (serve op (world s)))"
  shows "system_step admitted code perform s (Replies i (fst (serve op (world s)))) (run_next serve s i)"
proof -
  have "run_next serve s i = s\<lparr>world := snd (serve op (world s)),
      sessions := (sessions s)[i := (q, k (fst (serve op (world s))))], served := served s @ [op]\<rparr>"
    using assms(1,2) by (simp add: run_next_def case_prod_unfold Let_def)
  moreover have "system_step admitted code perform s (Replies i (fst (serve op (world s))))
      (s\<lparr>world := snd (serve op (world s)),
        sessions := (sessions s)[i := (q, k (fst (serve op (world s))))], served := served s @ [op]\<rparr>)"
    using assms by (rule replies)
  ultimately show ?thesis by (simp only:)
qed

lemma reachable_run_next:
  assumes "reachable start (system_step admitted code perform) s"
    and "\<And>op w. perform op w (fst (serve op w)) (snd (serve op w))"
  shows "reachable start (system_step admitted code perform) (run_next serve s i)"
proof (cases "i < length (sessions s) \<and> (\<exists>q op k. sessions s ! i = (q, Request op k))")
  case True
  then obtain q op k where "i < length (sessions s)" "sessions s ! i = (q, Request op k)" by blast
  then have "system_step admitted code perform s (Replies i (fst (serve op (world s)))) (run_next serve s i)"
    by (rule run_next_step) (rule assms(2))
  with assms(1) show ?thesis by (rule reach_step)
next
  case False
  then have "run_next serve s i = s" by (auto simp: run_next_def split: prod.splits prog.splits)
  with assms(1) show ?thesis by simp
qed

lemma reachable_run_nexts:
  assumes "\<And>op w. perform op w (fst (serve op w)) (snd (serve op w))"
  shows "reachable start (system_step admitted code perform) s \<Longrightarrow>
    reachable start (system_step admitted code perform) (foldl (run_next serve) s is)"
  by (induction "is" arbitrary: s) (simp_all add: reachable_run_next assms)


text \<open>A session that is started and served to its end without interference.\<close>

definition logged :: "('o \<Rightarrow> 'w \<Rightarrow> 'r \<times> 'w) \<Rightarrow> 'o \<Rightarrow> 'w \<times> 'o list \<Rightarrow> 'r \<times> 'w \<times> 'o list" where
  "logged serve op wl = (fst (serve op (fst wl)), snd (serve op (fst wl)), snd wl @ [op])"

definition run_session ::
  "('q \<Rightarrow> ('o, 'r, 'a) prog) \<Rightarrow> ('o \<Rightarrow> 'w \<Rightarrow> 'r \<times> 'w) \<Rightarrow> ('w, 'q, 'o, 'r, 'a) system \<Rightarrow> 'q \<Rightarrow> ('w, 'q, 'o, 'r, 'a) system" where
  "run_session code serve s q =
     (let (a, w, ops) = run_alone (code q) (logged serve) (world s, served s)
      in s\<lparr>world := w, sessions := sessions s @ [(q, Done a)], served := ops\<rparr>)"

lemma run_nexts_session:
  "sessions s = ss @ [(q, p)] \<Longrightarrow> run_alone p (logged serve) (world s, served s) = (a, w, ops) \<Longrightarrow>
   \<exists>n. foldl (run_next serve) s (replicate n (length ss)) = s\<lparr>world := w, sessions := ss @ [(q, Done a)], served := ops\<rparr>"
proof (induction p arbitrary: s)
  case (Done b)
  then have "foldl (run_next serve) s (replicate 0 (length ss)) = s\<lparr>world := w, sessions := ss @ [(q, Done a)], served := ops\<rparr>"
    by (cases s) simp
  then show ?case by blast
next
  case (Request op k)
  let ?r = "fst (serve op (world s))"
  let ?t = "s\<lparr>world := snd (serve op (world s)), sessions := ss @ [(q, k ?r)], served := served s @ [op]\<rparr>"
  have "run_next serve s (length ss) = ?t"
    using Request.prems(1) by (simp add: run_next_def case_prod_unfold Let_def)
  moreover have "run_alone (k ?r) (logged serve) (world ?t, served ?t) = (a, w, ops)"
    using Request.prems(2) by (simp add: logged_def [of _ op])
  then obtain n where "foldl (run_next serve) ?t (replicate n (length ss)) =
      ?t\<lparr>world := w, sessions := ss @ [(q, Done a)], served := ops\<rparr>"
    using Request.IH [of "k ?r" ?t] by auto
  ultimately have "foldl (run_next serve) s (replicate (Suc n) (length ss)) = s\<lparr>world := w, sessions := ss @ [(q, Done a)], served := ops\<rparr>"
    by simp
  then show ?case by blast
qed

lemma reachable_run_session:
  assumes "reachable start (system_step admitted code perform) s" and "admitted q"
    and "\<And>op w. perform op w (fst (serve op w)) (snd (serve op w))"
  shows "reachable start (system_step admitted code perform) (run_session code serve s q)"
proof -
  obtain a w ops where run: "run_alone (code q) (logged serve) (world s, served s) = (a, w, ops)"
    by (metis prod_cases3)
  have "\<exists>n. foldl (run_next serve) (run_begin code q s) (replicate n (length (sessions s))) =
      (run_begin code q s)\<lparr>world := w, sessions := sessions s @ [(q, Done a)], served := ops\<rparr>"
    by (rule run_nexts_session) (use run in \<open>simp_all add: run_begin_def\<close>)
  moreover have "run_session code serve s q =
      (run_begin code q s)\<lparr>world := w, sessions := sessions s @ [(q, Done a)], served := ops\<rparr>"
    by (simp add: run_session_def run run_begin_def)
  ultimately show ?thesis
    using reachable_run_nexts [OF assms(3) reachable_run_begin [OF assms(1,2)]] by metis
qed

text \<open>
  Evaluation of a run: only the program at the head is unfolded, its continuations are left alone.
\<close>

named_theorems alone

lemma run_alone_distrib [alone]:
  "run_alone (case x of Inl e \<Rightarrow> f e | Inr a \<Rightarrow> g a) serve w = (case x of Inl e \<Rightarrow> run_alone (f e) serve w | Inr a \<Rightarrow> run_alone (g a) serve w)"
  "run_alone (case y of None \<Rightarrow> p | Some b \<Rightarrow> h b) serve w = (case y of None \<Rightarrow> run_alone p serve w | Some b \<Rightarrow> run_alone (h b) serve w)"
  "run_alone (if c then p else q) serve w = (if c then run_alone p serve w else run_alone q serve w)"
  "run_alone (case z of (u, v) \<Rightarrow> l u v) serve w = (case z of (u, v) \<Rightarrow> run_alone (l u v) serve w)"
  "run_alone (Let t m) serve w = run_alone (m t) serve w"
  by (simp_all split: sum.splits option.splits prod.splits)

text \<open>Evaluating with the definition of the program at the head.\<close>

lemma run_alone_unfold: "p = q \<Longrightarrow> run_alone p serve w = run_alone q serve w"
  by simp

lemma run_alone_steps [alone]:
  "run_alone (Done a) serve w = (a, w)"
  "run_alone (Request op k) serve w = (case serve op w of (r, w') \<Rightarrow> run_alone (k r) serve w')"
  by (simp_all split: prod.splits)

lemma run_alone_seq [alone]:
  "run_alone (bind_prog p f) serve w = (case run_alone p serve w of (a, w') \<Rightarrow> run_alone (f a) serve w')"
  by (simp add: run_alone_bind split: prod.splits)

lemma run_alone_try [alone]:
  "run_alone (try_prog p g) serve w =
     (case run_alone p serve w of (r, w') \<Rightarrow> (case r of Inl e \<Rightarrow> (Inl e, w') | Inr a \<Rightarrow> run_alone (g a) serve w'))"
  by (simp add: run_alone_bind try_prog_def split: prod.splits sum.splits)

lemma run_alone_map_err [alone]:
  "run_alone (map_err h p) serve w =
     (case run_alone p serve w of (r, w') \<Rightarrow> (case r of Inl e \<Rightarrow> (Inl (h e), w') | Inr a \<Rightarrow> (Inr a, w')))"
  by (simp add: run_alone_bind map_err_def split: prod.splits sum.splits)

lemma run_alone_cong: "w = w' \<Longrightarrow> run_alone p serve w = run_alone p serve w'"
  by simp

end
