(* ===== verification/Git_Publish.thy ===== *)
theory Git_Publish
  imports Git_Manifest Shared_Programs
begin

text \<open>
  Publication of pushes to object storage: the store client (\<open>crates/buzz-relay/src/api/git/store.rs\<close>),
  the read path (\<open>hydrate.rs\<close>), the commit of a push by compare-and-swap (\<open>cas_publish.rs\<close>) and the
  push handler (\<open>transport.rs\<close>). Each asynchronous function is a program over the requests of an
  S3-compatible bucket, so that its requests interleave with those of other relay processes. The
  bucket serves requests by the documented effect of conditional PUT, GET and HEAD; a reply may be
  lost before or after the effect. The subprocess git, the file system and the database are answers
  given as arguments. Logging and metrics are left out.
\<close>

section \<open>The bucket\<close>

datatype s3_error = HttpFail nat string | OtherS3 string

record s3_response =
  s3_status :: nat
  s3_etag :: "string option"
  s3_body :: string
  s3_length :: "int option"

type_synonym s3_reply = "(s3_error, s3_response) result"

datatype precond = IfNoneMatchStar | IfMatch string

datatype s3_request = GetObject string | HeadObject string | PutObject string string precond

text \<open>A bucket is the list of its writes, the newest first: key, body and entity tag.\<close>

type_synonym bucket = "(string \<times> string \<times> string) list"

type_synonym 'a store_prog = "(s3_request, s3_reply, 'a) prog"

text \<open>
  What a request does when it is served. \<open>new_etag\<close> gives the tag of a write from its body and
  the number of writes before it, so tags may depend on the content only or name versions.
\<close>

definition put_reply :: "string \<Rightarrow> s3_reply" where
  "put_reply tag = Ok \<lparr>s3_status = 200, s3_etag = Some tag, s3_body = [], s3_length = None\<rparr>"

fun s3_exec :: "(string \<Rightarrow> nat \<Rightarrow> string) \<Rightarrow> s3_request \<Rightarrow> bucket \<Rightarrow> s3_reply \<times> bucket" where
  "s3_exec new_etag (GetObject k) b =
     (case map_of b k of
        None \<Rightarrow> (Err (HttpFail 404 []), b)
      | Some (v, t) \<Rightarrow> (Ok \<lparr>s3_status = 200, s3_etag = Some t, s3_body = v, s3_length = Some (int (length v))\<rparr>, b))"
| "s3_exec new_etag (HeadObject k) b =
     (case map_of b k of
        None \<Rightarrow> (Err (HttpFail 404 []), b)
      | Some (v, t) \<Rightarrow> (Ok \<lparr>s3_status = 200, s3_etag = Some t, s3_body = [], s3_length = Some (int (length v))\<rparr>, b))"
| "s3_exec new_etag (PutObject k v IfNoneMatchStar) b =
     (if map_of b k = None
      then (put_reply (new_etag v (length b)), (k, v, new_etag v (length b)) # b)
      else (Err (HttpFail 412 []), b))"
| "s3_exec new_etag (PutObject k v (IfMatch tag)) b =
     (case map_of b k of
        None \<Rightarrow> (Err (HttpFail 404 []), b)
      | Some (old, t) \<Rightarrow>
          if t = tag
          then (put_reply (new_etag v (length b)), (k, v, new_etag v (length b)) # b)
          else (Err (HttpFail 412 []), b))"

text \<open>
  A reply that says nothing about the bucket: a failure of the service or of the transport. Such
  a reply may arrive whether or not the request was served. A served request may also come back
  without its entity tag. The client library turns every status outside 200 to 299 into an error.
\<close>

definition fault_reply :: "s3_reply \<Rightarrow> bool" where
  "fault_reply r \<longleftrightarrow>
     (case r of
        Inl (HttpFail c _) \<Rightarrow> c \<noteq> 404 \<and> c \<noteq> 412
      | Inl (OtherS3 _) \<Rightarrow> True
      | Inr resp \<Rightarrow> False)"

definition drop_etag :: "s3_reply \<Rightarrow> s3_reply" where
  "drop_etag r = (case r of Inl e \<Rightarrow> Inl e | Inr resp \<Rightarrow> Inr (resp\<lparr>s3_etag := None\<rparr>))"

definition s3_serve :: "(string \<Rightarrow> nat \<Rightarrow> string) \<Rightarrow> s3_request \<Rightarrow> bucket \<Rightarrow> s3_reply \<Rightarrow> bucket \<Rightarrow> bool" where
  "s3_serve new_etag rq b r b' \<longleftrightarrow>
     b' = snd (s3_exec new_etag rq b) \<and> (r = fst (s3_exec new_etag rq b) \<or> r = drop_etag (fst (s3_exec new_etag rq b)) \<or> fault_reply r) \<or>
     b' = b \<and> fault_reply r"

section \<open>The store client\<close>

datatype store_error =
    NotFound string
  | ObjectTooLarge string nat nat
  | DigestMismatch string string string
  | StoreBackend s3_error

datatype cas_outcome = Won string | LostRace

definition is_success :: "nat \<Rightarrow> bool" where
  "is_success c \<longleftrightarrow> 200 \<le> c \<and> c < 300"

definition content_key :: "git_codec \<Rightarrow> string \<Rightarrow> string \<Rightarrow> string" where
  "content_key env pfx bytes = pfx @ ''/'' @ git_sha256_hex env bytes"

definition manifest_key :: "string \<Rightarrow> string" where
  "manifest_key digest = ''manifests/'' @ digest"

definition idx_key_for_pack_digest :: "git_codec \<Rightarrow> string \<Rightarrow> (store_error, string) result" where
  "idx_key_for_pack_digest env d =
     (if length d \<noteq> 64 \<or> \<not> list_all is_ascii_hexdigit d
      then Err (StoreBackend (HttpFail 400 (''invalid pack digest for idx sidecar: '' @ debug_text env d)))
      else Ok (''idx/'' @ d))"

text \<open>A create-only PUT; that the key is taken already counts as success.\<close>

definition put_create_only :: "string \<Rightarrow> string \<Rightarrow> (store_error, string) result store_prog" where
  "put_create_only key bytes =
     Request (PutObject key bytes IfNoneMatchStar) (\<lambda>r. Done
       (case r of
          Inr resp \<Rightarrow>
            if is_success (s3_status resp) then Ok key
            else Err (StoreBackend (HttpFail (s3_status resp) ''unexpected status''))
        | Inl (HttpFail c msg) \<Rightarrow> if c = 412 then Ok key else Err (StoreBackend (HttpFail c msg))
        | Inl e \<Rightarrow> Err (StoreBackend e)))"

definition put_immutable :: "git_codec \<Rightarrow> string \<Rightarrow> string \<Rightarrow> (store_error, string) result store_prog" where
  "put_immutable env pfx bytes = put_create_only (content_key env pfx bytes) bytes"

definition put_pack :: "git_codec \<Rightarrow> string \<Rightarrow> (store_error, string) result store_prog" where
  "put_pack env bytes = put_immutable env ''packs'' bytes"

definition put_manifest :: "git_codec \<Rightarrow> string \<Rightarrow> (store_error, string) result store_prog" where
  "put_manifest env bytes = put_immutable env ''manifests'' bytes"

definition put_idx :: "git_codec \<Rightarrow> string \<Rightarrow> string \<Rightarrow> (store_error, string) result store_prog" where
  "put_idx env pack_digest idx_bytes =
     (case idx_key_for_pack_digest env pack_digest of
        Inl e \<Rightarrow> Done (Err e)
      | Inr key \<Rightarrow> put_create_only key idx_bytes)"

definition store_get :: "string \<Rightarrow> (store_error, string) result store_prog" where
  "store_get key =
     Request (GetObject key) (\<lambda>r. Done
       (case r of
          Inr resp \<Rightarrow> Ok (s3_body resp)
        | Inl (HttpFail c msg) \<Rightarrow> if c = 404 then Err (NotFound key) else Err (StoreBackend (HttpFail c msg))
        | Inl e \<Rightarrow> Err (StoreBackend e)))"

definition verify_digest :: "git_codec \<Rightarrow> string \<Rightarrow> string \<Rightarrow> string \<Rightarrow> (store_error, string) result" where
  "verify_digest env key expected bytes =
     (let actual = git_sha256_hex env bytes
      in if actual \<noteq> expected then Err (DigestMismatch key expected actual) else Ok bytes)"

definition get_verified :: "git_codec \<Rightarrow> string \<Rightarrow> string \<Rightarrow> (store_error, string) result store_prog" where
  "get_verified env key expected = try_prog (store_get key) (\<lambda>bytes. Done (verify_digest env key expected bytes))"

definition u64_of_i64 :: "int \<Rightarrow> nat" where
  "u64_of_i64 n = (if n < 0 then U64_MAX else nat n)"

definition get_limited :: "string \<Rightarrow> nat \<Rightarrow> (store_error, string) result store_prog" where
  "get_limited key max_bytes =
     Request (HeadObject key) (\<lambda>r.
       case r of
         Inl (HttpFail c msg) \<Rightarrow> Done (if c = 404 then Err (NotFound key) else Err (StoreBackend (HttpFail c msg)))
       | Inl e \<Rightarrow> Done (Err (StoreBackend e))
       | Inr resp \<Rightarrow>
           if s3_status resp = 404 then Done (Err (NotFound key))
           else if \<not> is_success (s3_status resp)
           then Done (Err (StoreBackend (HttpFail (s3_status resp) ''unexpected status'')))
           else
             (case s3_length resp of
                Some n \<Rightarrow>
                  if u64_of_i64 n > max_bytes then Done (Err (ObjectTooLarge key (u64_of_i64 n) max_bytes))
                  else try_prog (store_get key) (\<lambda>bytes.
                         Done (if length bytes > max_bytes then Err (ObjectTooLarge key (length bytes) max_bytes) else Ok bytes))
              | None \<Rightarrow>
                  try_prog (store_get key) (\<lambda>bytes.
                    Done (if length bytes > max_bytes then Err (ObjectTooLarge key (length bytes) max_bytes) else Ok bytes))))"

definition get_verified_limited :: "git_codec \<Rightarrow> string \<Rightarrow> string \<Rightarrow> nat \<Rightarrow> (store_error, string) result store_prog" where
  "get_verified_limited env key expected max_bytes =
     try_prog (get_limited key max_bytes) (\<lambda>bytes. Done (verify_digest env key expected bytes))"

definition get_idx :: "git_codec \<Rightarrow> string \<Rightarrow> nat \<Rightarrow> (store_error, string option) result store_prog" where
  "get_idx env pack_digest max_bytes =
     (case idx_key_for_pack_digest env pack_digest of
        Inl e \<Rightarrow> Done (Err e)
      | Inr key \<Rightarrow>
          bind_prog (get_limited key max_bytes) (\<lambda>r. Done
            (case r of
               Inr bytes \<Rightarrow> Ok (Some bytes)
             | Inl (NotFound _) \<Rightarrow> Ok None
             | Inl e \<Rightarrow> Err e)))"

definition get_pointer :: "string \<Rightarrow> (store_error, (string \<times> string) option) result store_prog" where
  "get_pointer key =
     Request (GetObject key) (\<lambda>r. Done
       (case r of
          Inr resp \<Rightarrow>
            (case s3_etag resp of
               None \<Rightarrow> Err (StoreBackend (HttpFail 500 ''GET pointer: response missing ETag''))
             | Some t \<Rightarrow> Ok (Some (t, s3_body resp)))
        | Inl (HttpFail c msg) \<Rightarrow> if c = 404 then Ok None else Err (StoreBackend (HttpFail c msg))
        | Inl e \<Rightarrow> Err (StoreBackend e)))"

definition classify_cas :: "s3_reply \<Rightarrow> (store_error, cas_outcome) result" where
  "classify_cas r =
     (case r of
        Inr resp \<Rightarrow>
          if is_success (s3_status resp) then
            (case s3_etag resp of
               None \<Rightarrow> Err (StoreBackend (HttpFail (s3_status resp)
                 (''CAS succeeded but response missing ETag header '' @
                  ''(backend does not satisfy ETag-token consistency)'')))
             | Some t \<Rightarrow> Ok (Won t))
          else Err (StoreBackend (HttpFail (s3_status resp) ''unexpected status''))
      | Inl (HttpFail c msg) \<Rightarrow> if c = 412 then Ok LostRace else Err (StoreBackend (HttpFail c msg))
      | Inl e \<Rightarrow> Err (StoreBackend e))"

definition put_pointer :: "git_codec \<Rightarrow> string \<Rightarrow> string \<Rightarrow> precond \<Rightarrow> (store_error, cas_outcome) result store_prog" where
  "put_pointer env key digest pre =
     (case pre of
        IfMatch tag \<Rightarrow>
          if \<not> header_ok env tag then Done (Err (StoreBackend (HttpFail 400 (''invalid etag '' @ tag))))
          else Request (PutObject key digest pre) (\<lambda>r. Done (classify_cas r))
      | IfNoneMatchStar \<Rightarrow> Request (PutObject key digest pre) (\<lambda>r. Done (classify_cas r)))"


section \<open>Reading the published state\<close>

datatype hydrate_error =
    InvalidPointer
  | HydrateManifest manifest_error
  | HydrateStore store_error
  | Hydrate string
  | HydrateLimit string

definition MAX_MANIFEST_BYTES :: nat where "MAX_MANIFEST_BYTES = 4 * 1024 * 1024"

definition hydrate_get_verified_limited ::
  "git_codec \<Rightarrow> string \<Rightarrow> string \<Rightarrow> nat \<Rightarrow> (hydrate_error, string) result store_prog" where
  "hydrate_get_verified_limited env key digest max_bytes =
     bind_prog (get_verified_limited env key digest max_bytes) (\<lambda>r. Done
       (case r of
          Inr bytes \<Rightarrow> Ok bytes
        | Inl (ObjectTooLarge _ sz mx) \<Rightarrow>
            Err (HydrateLimit (''object '' @ key @ '' is '' @ nat_to_string sz @ '' bytes (max '' @ nat_to_string mx @ '')''))
        | Inl e \<Rightarrow> Err (HydrateStore e)))"

text \<open>The digest a pointer body holds, if it is well formed.\<close>

definition pointer_digest :: "string \<Rightarrow> string option" where
  "pointer_digest bytes =
     (if \<not> utf8_valid bytes then None
      else
        (let digest = str_trim bytes
         in if length digest \<noteq> 64 \<or> \<not> list_all is_ascii_hexdigit digest then None else Some digest))"

definition parse_loaded :: "git_codec \<Rightarrow> string \<Rightarrow> string \<Rightarrow> string \<Rightarrow> (hydrate_error, (string \<times> string \<times> manifest) option) result" where
  "parse_loaded env tag digest manifest_bytes =
     (case manifest_from_bytes env manifest_bytes of
        Inl e \<Rightarrow> Err (HydrateManifest e)
      | Inr m \<Rightarrow>
          (case manifest_validate m of
             Inl e \<Rightarrow> Err (HydrateManifest e)
           | Inr _ \<Rightarrow> Ok (Some (tag, digest, m))))"

definition load_pointer ::
  "git_codec \<Rightarrow> uuid \<Rightarrow> string \<Rightarrow> string \<Rightarrow> (hydrate_error, (string \<times> string \<times> manifest) option) result store_prog" where
  "load_pointer env community owner repo =
     try_prog (map_err HydrateStore (get_pointer (pointer_key community owner repo))) (\<lambda>p.
     case p of
       None \<Rightarrow> Done (Ok None)
     | Some (tag, pointer_bytes) \<Rightarrow>
         (case pointer_digest pointer_bytes of
            None \<Rightarrow> Done (Err InvalidPointer)
          | Some digest \<Rightarrow>
              try_prog (hydrate_get_verified_limited env (manifest_key digest) digest MAX_MANIFEST_BYTES)
                (\<lambda>manifest_bytes. Done (parse_loaded env tag digest manifest_bytes))))"

text \<open>
  The answers of git, the file system and the pack cache while a manifest is materialised: the
  size of the pair that the cache holds and links, and what indexing a fetched pack with the
  sidecar found, if any, gives.
\<close>

record hydration =
  hy_init :: "(string, unit) result"
  hy_cached :: "string \<Rightarrow> nat option"
  hy_index :: "string \<Rightarrow> string option \<Rightarrow> (hydrate_error, unit) result"
  hy_install :: "string \<Rightarrow> (string, unit) result"
  hy_write :: "(string, unit) result"
  hy_max_pack_bytes :: nat
  hy_max_repo_bytes :: nat

definition install_or_generate_idx ::
  "git_codec \<Rightarrow> hydration \<Rightarrow> string \<Rightarrow> nat \<Rightarrow> (hydrate_error, unit) result store_prog" where
  "install_or_generate_idx env hy digest max_idx_bytes =
     bind_prog (get_idx env digest max_idx_bytes) (\<lambda>r. Done
       (case r of Inr idx \<Rightarrow> hy_index hy digest idx | Inl _ \<Rightarrow> hy_index hy digest None))"

definition materialize_pack :: "git_codec \<Rightarrow> hydration \<Rightarrow> string \<Rightarrow> string \<Rightarrow> (hydrate_error, nat) result store_prog" where
  "materialize_pack env hy object_key digest =
     (if length digest \<noteq> 64 \<or> \<not> list_all is_ascii_hexdigit digest
      then Done (Err (Hydrate ''pack cache digest is malformed''))
      else
        (case hy_cached hy digest of
           Some n \<Rightarrow> Done (Ok n)
         | None \<Rightarrow>
             try_prog (hydrate_get_verified_limited env object_key digest (hy_max_pack_bytes hy)) (\<lambda>bytes.
             try_prog (install_or_generate_idx env hy digest (hy_max_pack_bytes hy)) (\<lambda>_.
             Done (case hy_install hy digest of Inl e \<Rightarrow> Err (Hydrate e) | Inr _ \<Rightarrow> Ok (length bytes))))))"

fun materialize_packs :: "git_codec \<Rightarrow> hydration \<Rightarrow> nat \<Rightarrow> string list \<Rightarrow> (hydrate_error, nat) result store_prog" where
  "materialize_packs env hy hydrated [] = Done (Ok hydrated)"
| "materialize_packs env hy hydrated (key # keys) =
     (case strip_prefix ''packs/'' key of
        None \<Rightarrow> Done (Err (Hydrate (''malformed pack key '' @ debug_text env key)))
      | Some digest \<Rightarrow>
          try_prog (materialize_pack env hy key digest) (\<lambda>pack_bytes.
          if pack_bytes > hy_max_pack_bytes hy
          then Done (Err (HydrateLimit (''pack '' @ digest @ '' is '' @ nat_to_string pack_bytes @ '' bytes (max '' @
                 nat_to_string (hy_max_pack_bytes hy) @ '')'')))
          else if hydrated + pack_bytes > U64_MAX then Done (Err (HydrateLimit ''repo byte count overflowed u64''))
          else if hydrated + pack_bytes > hy_max_repo_bytes hy
          then Done (Err (HydrateLimit (''repo needs '' @ nat_to_string (hydrated + pack_bytes) @ '' hydrated bytes (max '' @
                 nat_to_string (hy_max_repo_bytes hy) @ '')'')))
          else materialize_packs env hy (hydrated + pack_bytes) keys))"

fun check_hydrated_refs :: "git_codec \<Rightarrow> (string \<times> string) list \<Rightarrow> (hydrate_error, unit) result" where
  "check_hydrated_refs env [] = Ok ()"
| "check_hydrated_refs env ((refname, oid) # rs) =
     (if \<not> is_safe_refname refname then Err (Hydrate (''manifest contains unsafe refname '' @ debug_text env refname))
      else if \<not> is_hex_oid oid then Err (Hydrate (''manifest ref '' @ refname @ '' has malformed oid''))
      else check_hydrated_refs env rs)"

text \<open>The refs are written after all packs; the result is the number of bytes materialised.\<close>

definition materialize_manifest :: "git_codec \<Rightarrow> hydration \<Rightarrow> manifest \<Rightarrow> (hydrate_error, nat) result store_prog" where
  "materialize_manifest env hy m =
     (case hy_init hy of
        Inl e \<Rightarrow> Done (Err (Hydrate e))
      | Inr _ \<Rightarrow>
          try_prog (materialize_packs env hy 0 (mf_packs m)) (\<lambda>hydrated.
          Done (and_then (check_hydrated_refs env (mf_refs m)) (\<lambda>_.
                if \<not> is_safe_refname (mf_head m)
                then Err (Hydrate (''manifest head '' @ debug_text env (mf_head m) @ '' is not a safe ref name''))
                else case hy_write hy of Inl e \<Rightarrow> Err (Hydrate e) | Inr _ \<Rightarrow> Ok hydrated))))"

definition hydrate_for_read ::
  "git_codec \<Rightarrow> hydration \<Rightarrow> uuid \<Rightarrow> string \<Rightarrow> string \<Rightarrow> (hydrate_error, (manifest \<times> nat) option) result store_prog" where
  "hydrate_for_read env hy community owner repo =
     try_prog (load_pointer env community owner repo) (\<lambda>p.
     case p of
       None \<Rightarrow> Done (Ok None)
     | Some (tag, digest, m) \<Rightarrow>
         try_prog (materialize_manifest env hy m) (\<lambda>hydrated. Done (Ok (Some (m, hydrated)))))"

record parent_state =
  ps_if_match :: "string option"
  ps_parent_digest :: "string option"
  ps_parent :: manifest

definition parent_fresh :: parent_state where
  "parent_fresh = \<lparr>ps_if_match = None, ps_parent_digest = None,
     ps_parent = \<lparr>mf_version = MANIFEST_VERSION, mf_head = [], mf_refs = [], mf_packs = [], mf_parent = None\<rparr>\<rparr>"

definition from_loaded :: "string \<Rightarrow> string \<Rightarrow> manifest \<Rightarrow> parent_state" where
  "from_loaded tag digest parent = \<lparr>ps_if_match = Some tag, ps_parent_digest = Some digest, ps_parent = parent\<rparr>"

definition hydrate_for_write ::
  "git_codec \<Rightarrow> hydration \<Rightarrow> uuid \<Rightarrow> string \<Rightarrow> string \<Rightarrow> (hydrate_error, nat \<times> parent_state) result store_prog" where
  "hydrate_for_write env hy community owner repo =
     try_prog (load_pointer env community owner repo) (\<lambda>p.
     case p of
       Some (tag, digest, m) \<Rightarrow>
         try_prog (materialize_manifest env hy m) (\<lambda>hydrated. Done (Ok (hydrated, from_loaded tag digest m)))
     | None \<Rightarrow>
         Done (case hy_init hy of Inl e \<Rightarrow> Err (Hydrate e) | Inr _ \<Rightarrow> Ok (0, parent_fresh)))"


section \<open>The workspace after receive-pack\<close>

datatype cas_error =
    Conflict manifest string
  | ManifestReadFailed string
  | ManifestInvalid manifest_error
  | CasBackend store_error
  | PackCapture string
  | ResourceLimit string

record publish_limits =
  pl_parent_hydrated_bytes :: nat
  pl_max_pack_bytes :: nat
  pl_max_repo_bytes :: nat

text \<open>
  One pack file of a compaction: its size and that of its index when they are checked, and what
  reading the two files gives when they are uploaded.
\<close>

record compact_file =
  cf_pack_len :: "(string, nat) result"
  cf_idx_len :: "(string, nat) result"
  cf_pack :: "(string, string) result"
  cf_idx :: "string option"

text \<open>
  The answers of git in the workspace. An \<open>Inl\<close> carries the message of a failed command. The
  symbolic ref is the decoded output of a successful command; \<open>ws_cut\<close> says after how many
  requests, and whether with one in flight, the compaction runs into its timeout.
\<close>

record workspace =
  ws_has_parent :: bool
  ws_for_each_ref :: "(string, string) result"
  ws_symbolic_ref :: "(string, string option) result"
  ws_pack_objects :: "string \<Rightarrow> (string, string) result"
  ws_index_pack :: "string \<Rightarrow> (string, string) result"
  ws_permit :: "(string, unit) result"
  ws_count_objects :: "(string, string) result"
  ws_compact_objects :: "string \<Rightarrow> (string, compact_file list) result"
  ws_cut :: "(nat \<times> bool) option"

definition MAX_REF_SNAPSHOT_BYTES :: nat where "MAX_REF_SNAPSHOT_BYTES = 4 * 1024 * 1024"

fun snapshot_refs :: "(string \<times> string) list \<Rightarrow> string list \<Rightarrow> (cas_error, (string \<times> string) list) result" where
  "snapshot_refs refs [] = Ok refs"
| "snapshot_refs refs (line # ls) =
     (case split_once (CHR '' '') line of
        None \<Rightarrow> snapshot_refs refs ls
      | Some (name, oid) \<Rightarrow>
          if length oid \<noteq> 40 \<or> \<not> list_all is_ascii_hexdigit oid then snapshot_refs refs ls
          else if length refs \<ge> MAX_MANIFEST_REFS \<and> map_of refs name = None
          then Err (ResourceLimit (''workspace contains more than '' @ nat_to_string MAX_MANIFEST_REFS @ '' refs''))
          else snapshot_refs (btree_insert name oid refs) ls)"

definition snapshot_workspace_state :: "workspace \<Rightarrow> (cas_error, (string \<times> string) list \<times> string) result" where
  "snapshot_workspace_state ws =
     (case ws_for_each_ref ws of
        Inl e \<Rightarrow> Err (PackCapture e)
      | Inr stdout \<Rightarrow>
          if length stdout > MAX_REF_SNAPSHOT_BYTES
          then Err (ResourceLimit (''ref snapshot is '' @ nat_to_string (length stdout) @ '' bytes (max '' @
                 nat_to_string MAX_REF_SNAPSHOT_BYTES @ '')''))
          else
            and_then (snapshot_refs [] (if utf8_valid stdout then str_lines stdout else [])) (\<lambda>refs.
            case ws_symbolic_ref ws of
              Inl e \<Rightarrow> Err (PackCapture e)
            | Inr out \<Rightarrow> Ok (refs, case out of Some s \<Rightarrow> str_trim s | None \<Rightarrow> [])))"

definition digest_from_pack_key :: "string \<Rightarrow> (cas_error, string) result" where
  "digest_from_pack_key key =
     (case strip_prefix ''packs/'' key of
        Some digest \<Rightarrow>
          if length digest = 64 \<and> list_all is_ascii_hexdigit digest then Ok digest
          else Err (CasBackend (StoreBackend (HttpFail 500 (''put_pack returned non-standard key: '' @ key))))
      | None \<Rightarrow> Err (CasBackend (StoreBackend (HttpFail 500 (''put_pack returned non-standard key: '' @ key)))))"

definition digest_from_manifest_key :: "string \<Rightarrow> (cas_error, string) result" where
  "digest_from_manifest_key key =
     (case strip_prefix ''manifests/'' key of
        Some digest \<Rightarrow> Ok digest
      | None \<Rightarrow> Err (CasBackend (StoreBackend (HttpFail 500 (''put_manifest returned non-standard key: '' @ key)))))"

definition write_idx_sidecar :: "git_codec \<Rightarrow> workspace \<Rightarrow> string \<Rightarrow> string \<Rightarrow> (cas_error, unit) result store_prog" where
  "write_idx_sidecar env ws pack_key pack_bytes =
     (case digest_from_pack_key pack_key of
        Inl e \<Rightarrow> Done (Err e)
      | Inr pack_digest \<Rightarrow>
          (case ws_index_pack ws pack_bytes of
             Inl e \<Rightarrow> Done (Err (PackCapture e))
           | Inr idx_bytes \<Rightarrow>
               try_prog (map_err CasBackend (put_idx env pack_digest idx_bytes)) (\<lambda>_. Done (Ok ()))))"

definition delta_revs :: "(string \<times> string) list \<Rightarrow> (string \<times> string) list \<Rightarrow> string" where
  "delta_revs refs_before refs_after =
     concat (map (\<lambda>oid. oid @ [CHR 0x0A]) (map snd refs_after)) @
     concat (map (\<lambda>oid. ''^'' @ oid @ [CHR 0x0A]) (map snd refs_before))"

definition capture_pack ::
  "workspace \<Rightarrow> (string \<times> string) list \<Rightarrow> (string \<times> string) list \<Rightarrow> nat \<Rightarrow> (cas_error, string option) result" where
  "capture_pack ws refs_before refs_after max_pack_bytes =
     (if refs_after = [] then Ok None
      else
        (case ws_pack_objects ws (delta_revs refs_before refs_after) of
           Inl e \<Rightarrow> Err (PackCapture e)
         | Inr pack \<Rightarrow>
             if length pack > max_pack_bytes
             then Err (ResourceLimit (''pack-objects output is '' @ nat_to_string (length pack) @ '' bytes (max '' @
                    nat_to_string max_pack_bytes @ '')''))
             else if pack = [] then Ok None
             else Ok (Some pack)))"

section \<open>Compaction\<close>

definition MAX_COMPACTION_OBJECTS :: nat where "MAX_COMPACTION_OBJECTS = 1000000"
definition MAX_COUNT_OBJECTS_OUTPUT_BYTES :: nat where "MAX_COUNT_OBJECTS_OUTPUT_BYTES = 64 * 1024"

definition parse_count :: "string \<Rightarrow> string \<Rightarrow> (cas_error, nat) result" where
  "parse_count output name =
     (case List.map_filter (strip_prefix name) (str_lines output) of
        v # _ \<Rightarrow> (case parse_u64 (str_trim v) of
                    Some n \<Rightarrow> Ok n
                  | None \<Rightarrow> Err (PackCapture (''count-objects omitted '' @ [CHR 0x22] @ name @ [CHR 0x22])))
      | [] \<Rightarrow> Err (PackCapture (''count-objects omitted '' @ [CHR 0x22] @ name @ [CHR 0x22])))"

definition enforce_compaction_object_limit :: "workspace \<Rightarrow> (cas_error, unit) result" where
  "enforce_compaction_object_limit ws =
     (case ws_count_objects ws of
        Inl e \<Rightarrow> Err (PackCapture e)
      | Inr output \<Rightarrow>
          if length output > MAX_COUNT_OBJECTS_OUTPUT_BYTES
          then Err (ResourceLimit (''count-objects output is '' @ nat_to_string (length output) @ '' bytes (max '' @
                 nat_to_string MAX_COUNT_OBJECTS_OUTPUT_BYTES @ '')''))
          else if \<not> utf8_valid output then Err (PackCapture ''read count-objects output: stream did not contain valid UTF-8'')
          else
            and_then (parse_count output ''count:'') (\<lambda>loose.
            and_then (parse_count output ''in-pack:'') (\<lambda>packed.
            if loose + packed > U64_MAX then Err (ResourceLimit ''compaction object count overflowed u64'')
            else if loose + packed > MAX_COMPACTION_OBJECTS
            then Err (ResourceLimit (''repository has '' @ nat_to_string (loose + packed) @ '' objects (compaction max '' @
                   nat_to_string MAX_COMPACTION_OBJECTS @ '')''))
            else Ok ())))"

text \<open>The sizes are checked file by file; the running total of the pack bytes is the result.\<close>

fun check_compact_files :: "publish_limits \<Rightarrow> nat \<Rightarrow> compact_file list \<Rightarrow> (cas_error, nat) result" where
  "check_compact_files limits total_bytes [] = Ok total_bytes"
| "check_compact_files limits total_bytes (f # fs) =
     (case cf_pack_len f of
        Inl e \<Rightarrow> Err (PackCapture e)
      | Inr n \<Rightarrow>
          if n > pl_max_pack_bytes limits
          then Err (ResourceLimit (''compacted pack is '' @ nat_to_string n @ '' bytes (max '' @
                 nat_to_string (pl_max_pack_bytes limits) @ '')''))
          else if total_bytes + n > U64_MAX then Err (ResourceLimit ''compacted byte count overflowed u64'')
          else if total_bytes + n > pl_max_repo_bytes limits
          then Err (ResourceLimit (''compacted repo needs '' @ nat_to_string (total_bytes + n) @ '' bytes (max '' @
                 nat_to_string (pl_max_repo_bytes limits) @ '')''))
          else
            (case cf_idx_len f of
               Inl e \<Rightarrow> Err (PackCapture e)
             | Inr i \<Rightarrow>
                 if i > pl_max_pack_bytes limits
                 then Err (ResourceLimit (''compacted idx is '' @ nat_to_string i @ '' bytes (max '' @
                        nat_to_string (pl_max_pack_bytes limits) @ '')''))
                 else check_compact_files limits (total_bytes + n) fs))"

definition closure_revs :: "(string \<times> string) list \<Rightarrow> string" where
  "closure_revs refs_after = concat (map (\<lambda>oid. oid @ [CHR 0x0A]) (foldl push_new [] (map snd refs_after)))"

definition capture_compacted_packs ::
  "workspace \<Rightarrow> (string \<times> string) list \<Rightarrow> publish_limits \<Rightarrow> (cas_error, compact_file list) result" where
  "capture_compacted_packs ws refs_after limits =
     (if refs_after = [] then Ok []
      else
        and_then (enforce_compaction_object_limit ws) (\<lambda>_.
        case ws_compact_objects ws (closure_revs refs_after) of
          Inl e \<Rightarrow> Err (PackCapture e)
        | Inr files \<Rightarrow>
            if length files > MAX_MANIFEST_PACKS
            then Err (ResourceLimit (''compaction produced '' @ nat_to_string (length files) @ '' packs (max '' @
                   nat_to_string MAX_MANIFEST_PACKS @ '')''))
            else and_then (check_compact_files limits 0 files) (\<lambda>_. Ok files)))"

fun upload_files :: "git_codec \<Rightarrow> string list \<Rightarrow> compact_file list \<Rightarrow> (cas_error, string list) result store_prog" where
  "upload_files env pack_keys [] = Done (Ok pack_keys)"
| "upload_files env pack_keys (f # fs) =
     (case cf_pack f of
        Inl e \<Rightarrow> Done (Err (PackCapture e))
      | Inr pack_bytes \<Rightarrow>
          if Inr (length pack_bytes) \<noteq> cf_pack_len f
          then Done (Err (PackCapture ''compacted pack changed after size validation''))
          else
            try_prog (map_err CasBackend (put_pack env pack_bytes)) (\<lambda>pack_key.
            case digest_from_pack_key pack_key of
              Inl e \<Rightarrow> Done (Err e)
            | Inr pack_digest \<Rightarrow>
                bind_prog (case cf_idx f of
                             Some idx_bytes \<Rightarrow> put_idx env pack_digest idx_bytes
                           | None \<Rightarrow> Done (Ok [])) (\<lambda>_.
                upload_files env (pack_keys @ [pack_key]) fs)))"

definition upload_compacted_packs :: "git_codec \<Rightarrow> compact_file list \<Rightarrow> (cas_error, string list) result store_prog" where
  "upload_compacted_packs env files =
     try_prog (upload_files env [] files) (\<lambda>pack_keys. Done (Ok (remdups_adj (sort pack_keys))))"

definition prepare_compaction ::
  "git_codec \<Rightarrow> workspace \<Rightarrow> (string \<times> string) list \<Rightarrow> publish_limits \<Rightarrow> nat \<Rightarrow> (cas_error, string list) result store_prog" where
  "prepare_compaction env ws refs_after limits packs_before =
     (case capture_compacted_packs ws refs_after limits of
        Inl e \<Rightarrow> Done (Err e)
      | Inr files \<Rightarrow>
          if \<not> compacted_pack_set_is_usable packs_before (length files)
          then Done (Err (ResourceLimit (''compaction did not reduce pack count (before '' @ nat_to_string packs_before @
                 '', after '' @ nat_to_string (length files) @ '')'')))
          else upload_compacted_packs env files)"

text \<open>The manifest of a compaction that succeeded, else why it failed; neither when none was due.\<close>

definition try_compaction ::
  "git_codec \<Rightarrow> workspace \<Rightarrow> parent_state \<Rightarrow> string \<Rightarrow> (string \<times> string) list \<Rightarrow> publish_limits \<Rightarrow> nat \<Rightarrow>
   (manifest option \<times> cas_error option) store_prog" where
  "try_compaction env ws parent head refs_after limits threshold =
     (let packs_before = length (mf_packs (ps_parent parent))
      in if \<not> should_compact packs_before threshold then Done (None, None)
         else
           (case ws_permit ws of
              Inl e \<Rightarrow> Done (None, Some (PackCapture e))
            | Inr _ \<Rightarrow>
                bind_prog (bounded_prog (ws_cut ws) (prepare_compaction env ws refs_after limits packs_before))
                  (\<lambda>out. Done
                    (case out of
                       Some (Inr pack_keys) \<Rightarrow>
                         (Some (compose_compacted_after (ps_parent_digest parent) head refs_after pack_keys), None)
                     | Some (Inl e) \<Rightarrow> (None, Some e)
                     | None \<Rightarrow> (None, Some (PackCapture ''pack compaction operation timed out after 600 seconds''))))))"


section \<open>The commit\<close>

definition delta_manifest ::
  "git_codec \<Rightarrow> workspace \<Rightarrow> parent_state \<Rightarrow> string \<Rightarrow> (string \<times> string) list \<Rightarrow> publish_limits \<Rightarrow> cas_error option \<Rightarrow>
   (cas_error, manifest) result store_prog" where
  "delta_manifest env ws parent head refs_after limits compaction_failure =
     (case capture_pack ws (mf_refs (ps_parent parent)) refs_after (pl_max_pack_bytes limits) of
        Inl e \<Rightarrow> Done (Err e)
      | Inr pack_bytes \<Rightarrow>
          (let packs_before = length (mf_packs (ps_parent parent));
               publish = (\<lambda>k. Done (Ok (compose_after (ps_parent parent) (ps_parent_digest parent) head refs_after k)))
           in case pack_bytes of
                None \<Rightarrow> publish None
              | Some bytes \<Rightarrow>
                  if packs_before \<ge> MAX_MANIFEST_PACKS
                  then Done (Err (case compaction_failure of
                                    Some e \<Rightarrow> e
                                  | None \<Rightarrow> ResourceLimit (''repository already names '' @ nat_to_string packs_before @
                                              '' packs and compaction failed'')))
                  else if pl_parent_hydrated_bytes limits + length bytes > U64_MAX
                  then Done (Err (ResourceLimit ''repo byte count overflowed u64''))
                  else if pl_parent_hydrated_bytes limits + length bytes > pl_max_repo_bytes limits
                  then Done (Err (ResourceLimit (''repo would need '' @
                         nat_to_string (pl_parent_hydrated_bytes limits + length bytes) @ '' hydrated bytes (max '' @
                         nat_to_string (pl_max_repo_bytes limits) @ '')'')))
                  else
                    try_prog (map_err CasBackend (put_pack env bytes)) (\<lambda>pack_key.
                    bind_prog (write_idx_sidecar env ws pack_key bytes) (\<lambda>_. publish (Some pack_key)))))"

fun store_error_text :: "store_error \<Rightarrow> string" where
  "store_error_text (NotFound k) = ''object not found: '' @ k"
| "store_error_text (DigestMismatch k x a) = ''digest mismatch on '' @ k @ '': expected '' @ x @ '', got '' @ a"
| "store_error_text _ = []"

fun manifest_parse_error_text :: "manifest_error \<Rightarrow> string" where
  "manifest_parse_error_text (Serde e) = ''manifest serde: '' @ e"
| "manifest_parse_error_text (UnsupportedVersion got want) =
     ''unsupported manifest version '' @ nat_to_string got @ '' (expected '' @ nat_to_string want @ '')''"
| "manifest_parse_error_text _ = []"

definition winner_read_error :: "store_error \<Rightarrow> cas_error" where
  "winner_read_error e =
     (case e of
        DigestMismatch _ _ _ \<Rightarrow> ManifestReadFailed (''winner manifest digest mismatch: '' @ store_error_text e)
      | NotFound _ \<Rightarrow> ManifestReadFailed (''winner pointer names missing manifest: '' @ store_error_text e)
      | _ \<Rightarrow> CasBackend e)"

definition read_winner_after_conflict :: "git_codec \<Rightarrow> string \<Rightarrow> (cas_error, manifest \<times> string) result store_prog" where
  "read_winner_after_conflict env pkey =
     try_prog (map_err CasBackend (get_pointer pkey)) (\<lambda>p.
     case p of
       None \<Rightarrow> Done (Err (ManifestReadFailed ''pointer vanished after LostRace (no-delete rule violated)''))
     | Some (tag, bytes) \<Rightarrow>
         if \<not> utf8_valid bytes
         then Done (Err (ManifestReadFailed (''winner pointer body not utf-8: '' @ utf8_error_text env bytes)))
         else
           (let digest = str_trim bytes
            in if length digest \<noteq> 64 \<or> \<not> list_all is_ascii_hexdigit digest
               then Done (Err (ManifestReadFailed (''winner pointer body is not a 64-char hex digest (got '' @
                      nat_to_string (length digest) @ '' chars)'')))
               else
                 try_prog (map_err winner_read_error (get_verified env (manifest_key digest) digest)) (\<lambda>b.
                 Done (case manifest_from_bytes env b of
                         Inl e \<Rightarrow> Err (ManifestReadFailed (''parse winner manifest: '' @ manifest_parse_error_text e))
                       | Inr winner \<Rightarrow> Ok (winner, manifest_key digest)))))"

text \<open>From the composed manifest on: validation, the manifest object, and the swap of the pointer.\<close>

definition publish_manifest ::
  "git_codec \<Rightarrow> string \<Rightarrow> string option \<Rightarrow> manifest \<Rightarrow> (cas_error, manifest \<times> string) result store_prog" where
  "publish_manifest env pkey if_match m_after =
     (case manifest_validate m_after of
        Inl e \<Rightarrow> Done (Err (ManifestInvalid e))
      | Inr _ \<Rightarrow>
          (case canonical_bytes env m_after of
             Inl e \<Rightarrow> Done (Err (ManifestInvalid e))
           | Inr manifest_bytes \<Rightarrow>
               try_prog (map_err CasBackend (put_manifest env manifest_bytes)) (\<lambda>mkey.
               case digest_from_manifest_key mkey of
                 Inl e \<Rightarrow> Done (Err e)
               | Inr manifest_digest \<Rightarrow>
                   try_prog (map_err CasBackend (put_pointer env pkey manifest_digest
                       (case if_match of Some tag \<Rightarrow> IfMatch tag | None \<Rightarrow> IfNoneMatchStar))) (\<lambda>outcome.
                   case outcome of
                     Won _ \<Rightarrow> Done (Ok (m_after, mkey))
                   | LostRace \<Rightarrow>
                       try_prog (read_winner_after_conflict env pkey) (\<lambda>(winner, key). Done (Err (Conflict winner key)))))))"

definition cas_publish_inner ::
  "git_codec \<Rightarrow> workspace \<Rightarrow> uuid \<Rightarrow> string \<Rightarrow> string \<Rightarrow> parent_state \<Rightarrow> publish_limits \<Rightarrow> nat \<Rightarrow>
   (cas_error, manifest \<times> string) result store_prog" where
  "cas_publish_inner env ws community owner repo parent limits threshold =
     (if \<not> ws_has_parent ws then Done (Err (PackCapture ''repository path has no scratch parent''))
      else
        (case snapshot_workspace_state ws of
           Inl e \<Rightarrow> Done (Err e)
         | Inr (refs_after, head_observed) \<Rightarrow>
             (let head = resolve_published_head refs_after head_observed (mf_head (ps_parent parent))
              in bind_prog (try_compaction env ws parent head refs_after limits threshold) (\<lambda>(compacted, failure).
                 try_prog
                   (case compacted of
                      Some m \<Rightarrow> Done (Ok m)
                    | None \<Rightarrow> delta_manifest env ws parent head refs_after limits failure)
                   (publish_manifest env (pointer_key community owner repo) (ps_if_match parent))))))"

definition cas_publish ::
  "git_codec \<Rightarrow> workspace \<Rightarrow> uuid \<Rightarrow> string \<Rightarrow> string \<Rightarrow> parent_state \<Rightarrow> publish_limits \<Rightarrow>
   (cas_error, manifest \<times> string) result store_prog" where
  "cas_publish env ws community owner repo parent limits =
     cas_publish_inner env ws community owner repo parent limits PACK_COMPACTION_THRESHOLD"

section \<open>The push request\<close>

type_synonym http_answer = "nat \<times> string"

datatype git_failure = GitFailed | GitTimedOut

fun git_failure_response :: "git_failure \<Rightarrow> http_answer" where
  "git_failure_response GitFailed = (500, ''git error'')"
| "git_failure_response GitTimedOut = (504, ''git operation timed out'')"

text \<open>
  A push with the answers it gets: a free permit, git's report for the hydrated parent (whether it
  exited with success, its output and the workspace it leaves), the serving lease of the community
  (acquired, still held, lost while publishing, held at the end, released), the signature of the
  ref-state event and its insertion.
\<close>

record push =
  pu_community :: uuid
  pu_owner :: string
  pu_repo :: string
  pu_pusher :: string
  pu_hydration :: hydration
  pu_permit :: bool
  pu_hook_installed :: bool
  pu_receive :: "parent_state \<Rightarrow> (git_failure, bool \<times> string \<times> workspace) result"
  pu_lease :: "bool \<times> bool \<times> (nat \<times> bool) option \<times> bool \<times> bool"
  pu_from_hex :: "string \<Rightarrow> (string, pubkey) result"
  pu_sign :: "nat \<Rightarrow> tag list \<Rightarrow> (string, event) result"
  pu_insert :: "event \<Rightarrow> (string, bool) result"

definition RECEIVE_PACK_MAX_OUTPUT_BYTES :: nat where "RECEIVE_PACK_MAX_OUTPUT_BYTES = 1024 * 1024"

record pack_output =
  po_stdout :: string
  po_ok :: bool

definition pack_output_of :: "bool \<Rightarrow> string \<Rightarrow> (http_answer, pack_output) result" where
  "pack_output_of exit_ok stdout =
     (if length stdout > RECEIVE_PACK_MAX_OUTPUT_BYTES then Err (413, ''git output exceeds relay limits'')
      else Ok \<lparr>po_stdout = stdout, po_ok = exit_ok \<and> \<not> receive_pack_report_rejected stdout\<rparr>)"

definition hydrate_error_to_response :: "hydrate_error \<Rightarrow> http_answer" where
  "hydrate_error_to_response e =
     (case e of
        HydrateLimit _ \<Rightarrow> (413, ''repository exceeds relay resource limits'')
      | _ \<Rightarrow> (500, ''git backend hydration failed''))"

definition cas_error_to_response :: "cas_error \<Rightarrow> http_answer" where
  "cas_error_to_response e =
     (case e of
        Conflict _ _ \<Rightarrow> (409, ''push superseded by a concurrent writer; pull and retry'')
      | ManifestInvalid _ \<Rightarrow> (400, ''push produced invalid manifest state'')
      | ResourceLimit _ \<Rightarrow> (413, ''repository exceeds relay resource limits'')
      | _ \<Rightarrow> (500, ''git backend error''))"

definition ref_state_published :: "push \<Rightarrow> string \<Rightarrow> parent_state \<Rightarrow> manifest \<Rightarrow> string \<Rightarrow> bool" where
  "ref_state_published pu repo_nm parent m mkey =
     (let changed = (case (ps_parent_digest parent, strip_prefix ''manifests/'' mkey) of
                       (Some before, Some after) \<Rightarrow> before \<noteq> after
                     | _ \<Rightarrow> True)
      in if \<not> changed then True
         else
           (case build_ref_state_event (pu_from_hex pu) (pu_sign pu)
                   \<lparr>rs_repo_id = repo_nm, rs_head = mf_head m, rs_refs = mf_refs m, rs_actor = pu_pusher pu,
                    rs_owner = pu_owner pu\<rparr> of
              Inl _ \<Rightarrow> False
            | Inr ev \<Rightarrow> (case pu_insert pu ev of Inl _ \<Rightarrow> False | Inr _ \<Rightarrow> True)))"

text \<open>\<open>ServingWriteGuard::protect\<close> drops the publication when the lease is lost.\<close>

definition finalize_push ::
  "git_codec \<Rightarrow> push \<Rightarrow> string \<Rightarrow> pack_output \<Rightarrow> workspace \<Rightarrow> nat \<Rightarrow> parent_state \<Rightarrow> http_answer store_prog" where
  "finalize_push env pu repo_nm pack ws hydrated parent =
     (if \<not> po_ok pack then Done (200, po_stdout pack)
      else
        (case pu_lease pu of (acquired, held, lost, held_after, released) \<Rightarrow>
           if \<not> acquired then Done (503, ''community writes are fenced'')
           else if \<not> held then Done (503, ''community write lease lost'')
           else
             (let publish = cas_publish env ws (pu_community pu) (pu_owner pu) (pu_repo pu) parent
                    \<lparr>pl_parent_hydrated_bytes = hydrated,
                     pl_max_pack_bytes = hy_max_pack_bytes (pu_hydration pu),
                     pl_max_repo_bytes = hy_max_repo_bytes (pu_hydration pu)\<rparr>
              in bind_prog (bounded_prog lost publish) (\<lambda>out. Done
                 (case out of
                    None \<Rightarrow> (503, ''community write lease lost'')
                  | Some r \<Rightarrow>
                      if \<not> held_after then (503, ''community write lease lost'')
                      else
                        (case r of
                           Inl e \<Rightarrow> cas_error_to_response e
                         | Inr (m, mkey) \<Rightarrow>
                             if \<not> released then (503, ''community write lease lost during publication'')
                             else if \<not> ref_state_published pu repo_nm parent m mkey
                             then (500, ''push committed but ref-state publication failed; retry'')
                             else (200, po_stdout pack)))))))"

definition receive_pack :: "git_codec \<Rightarrow> push \<Rightarrow> http_answer store_prog" where
  "receive_pack env pu =
     (case validate_repo_id (pu_owner pu) (pu_repo pu) of
        Inl e \<Rightarrow> Done e
      | Inr repo_name \<Rightarrow>
          if \<not> pu_permit pu then Done (503, ''git service busy'')
          else
            bind_prog (hydrate_for_write env (pu_hydration pu) (pu_community pu) (pu_owner pu) (pu_repo pu)) (\<lambda>h.
            case h of
              Inl e \<Rightarrow> Done (hydrate_error_to_response e)
            | Inr (hydrated, parent) \<Rightarrow>
                if \<not> pu_hook_installed pu then Done (500, ''git hook install failed'')
                else
                  (case pu_receive pu parent of
                     Inl e \<Rightarrow> Done (git_failure_response e)
                   | Inr (exit_ok, stdout, ws) \<Rightarrow>
                       (case pack_output_of exit_ok stdout of
                          Inl e \<Rightarrow> Done e
                        | Inr pack \<Rightarrow> finalize_push env pu repo_name pack ws hydrated parent))))"

end
