(* ===== verification/Git_Commits.thy ===== *)
theory Git_Commits
  imports Git_Publish
begin

text \<open>
  The safety of concurrent pushes. Any number of relay processes hydrate, receive and publish to
  one bucket; their requests interleave, replies get lost, and requests are dropped half-way. The
  theory shows what every such run keeps: each pointer moves along a chain of valid manifests in
  which every manifest names its predecessor, the objects a manifest needs are stored before it is
  published, a push that reports success is in the chain, and a reader finds what was published.
\<close>

section \<open>What a bucket holds\<close>

definition is_pointer_key :: "string \<Rightarrow> bool" where
  "is_pointer_key k \<longleftrightarrow> starts_with k ''repos/''"

definition manifest_at :: "git_codec \<Rightarrow> bucket \<Rightarrow> string \<Rightarrow> manifest \<Rightarrow> bool" where
  "manifest_at env b d m \<longleftrightarrow>
     (\<exists>v t. (manifest_key d, v, t) \<in> set b \<and> git_sha256_hex env v = d \<and> manifest_of_json env v = Ok m)"

definition packs_stored :: "git_codec \<Rightarrow> bucket \<Rightarrow> string list \<Rightarrow> bool" where
  "packs_stored env b ps \<longleftrightarrow> (\<forall>p \<in> set ps. \<exists>v t. (p, v, t) \<in> set b \<and> p = content_key env ''packs'' v)"

text \<open>
  \<open>promise\<close> is a further property of published manifests, kept while the bucket grows.
\<close>

definition good_manifest :: "git_codec \<Rightarrow> (bucket \<Rightarrow> manifest \<Rightarrow> bool) \<Rightarrow> bucket \<Rightarrow> string \<Rightarrow> manifest \<Rightarrow> bool" where
  "good_manifest env promise b d m \<longleftrightarrow>
     manifest_at env b d m \<and> mf_version m = MANIFEST_VERSION \<and> manifest_valid m \<and> btree_ok (mf_refs m) \<and>
     packs_stored env b (mf_packs m) \<and> promise b m"

definition pointer_ok :: "git_codec \<Rightarrow> (bucket \<Rightarrow> manifest \<Rightarrow> bool) \<Rightarrow> bucket \<Rightarrow> string \<Rightarrow> string \<Rightarrow> bool" where
  "pointer_ok env promise b k d \<longleftrightarrow>
     (\<exists>m. good_manifest env promise b d m \<and> mf_parent m = map_option fst (map_of b k))"

definition object_ok :: "git_codec \<Rightarrow> bucket \<Rightarrow> string \<Rightarrow> string \<Rightarrow> bool" where
  "object_ok env b k v \<longleftrightarrow> map_of b k = None \<and>
     (k = content_key env ''packs'' v \<or> k = content_key env ''manifests'' v \<or> starts_with k ''idx/'')"

fun bucket_ok ::
  "git_codec \<Rightarrow> (string \<Rightarrow> nat \<Rightarrow> string) \<Rightarrow> (bucket \<Rightarrow> manifest \<Rightarrow> bool) \<Rightarrow> string set \<Rightarrow> bucket \<Rightarrow> bool" where
  "bucket_ok env tags promise B [] = True"
| "bucket_ok env tags promise B ((k, v, t) # b) =
     (bucket_ok env tags promise B b \<and> v \<in> B \<and> (\<exists>n. t = tags v n) \<and>
      (if is_pointer_key k then pointer_ok env promise b k v else object_ok env b k v))"

text \<open>
  What is relied on: SHA-256 gives 64 hexadecimal digits and has no collision among the bodies
  \<open>B\<close> that are written, entity tags of different bodies of \<open>B\<close> differ, and a valid manifest is
  read back from its JSON text.
\<close>

definition hashes_ok :: "git_codec \<Rightarrow> (string \<Rightarrow> nat \<Rightarrow> string) \<Rightarrow> string set \<Rightarrow> bool" where
  "hashes_ok env tags B \<longleftrightarrow>
     (\<forall>v. is_manifest_digest (git_sha256_hex env v)) \<and> inj_on (git_sha256_hex env) B \<and>
     (\<forall>v \<in> B. \<forall>w \<in> B. \<forall>i j. tags v i = tags w j \<longrightarrow> v = w) \<and>
     (\<forall>m b. manifest_valid m \<longrightarrow> btree_ok (mf_refs m) \<longrightarrow> manifest_to_json env m = Ok b \<longrightarrow> manifest_of_json env b = Ok m)"

definition admissible :: "string set \<Rightarrow> s3_request \<Rightarrow> bool" where
  "admissible B rq \<longleftrightarrow> (case rq of PutObject k v c \<Rightarrow> v \<in> B | _ \<Rightarrow> True)"

lemma key_prefixes [simp]:
  "\<not> is_pointer_key (manifest_key d)" "\<not> is_pointer_key (''packs/'' @ d)" "\<not> is_pointer_key (''idx/'' @ d)"
  "is_pointer_key (pointer_key c ow r)" "\<not> is_pointer_key (content_key env ''packs'' v)" "\<not> is_pointer_key (content_key env ''manifests'' v)"
  by (simp_all add: is_pointer_key_def starts_with_def pointer_key_def content_key_def manifest_key_def)

lemma content_key_eq:
  "content_key env ''packs'' v = ''packs/'' @ git_sha256_hex env v"
  "content_key env ''manifests'' v = manifest_key (git_sha256_hex env v)"
  by (simp_all add: content_key_def manifest_key_def)

lemma manifest_at_mono: "manifest_at env b d m \<Longrightarrow> suffix b b' \<Longrightarrow> manifest_at env b' d m"
  unfolding manifest_at_def suffix_def by fastforce

lemma packs_stored_mono: "packs_stored env b ps \<Longrightarrow> suffix b b' \<Longrightarrow> packs_stored env b' ps"
  by (fastforce simp: packs_stored_def suffix_def)

lemma packs_stored_append [simp]: "packs_stored env b (ps @ qs) \<longleftrightarrow> packs_stored env b ps \<and> packs_stored env b qs"
  by (auto simp: packs_stored_def)

lemma packs_stored_pack_list [simp]: "packs_stored env b (pack_list ps) \<longleftrightarrow> packs_stored env b ps"
  by (simp add: packs_stored_def)

lemma bucket_ok_suffix: "bucket_ok env tags promise B b \<Longrightarrow> suffix a b \<Longrightarrow> bucket_ok env tags promise B a"
  by (induction env tags promise B b rule: bucket_ok.induct) (auto simp: suffix_Cons)

lemma bucket_ok_split:
  assumes "bucket_ok env tags promise B b" and "(k, v, t) \<in> set b"
  obtains a where "suffix ((k, v, t) # a) b" "v \<in> B" "\<exists>n. t = tags v n" "bucket_ok env tags promise B a"
    "if is_pointer_key k then pointer_ok env promise a k v else object_ok env a k v"
proof -
  from assms(2) obtain c a where "b = c @ (k, v, t) # a" by (meson split_list)
  then have "suffix ((k, v, t) # a) b" by (simp add: suffix_def)
  with bucket_ok_suffix [OF assms(1) this] show ?thesis using that by auto
qed

lemma object_lookup:
  assumes "bucket_ok env tags promise B b" and "(k, v, t) \<in> set b" and "\<not> is_pointer_key k"
  shows "map_of b k = Some (v, t)"
  using assms
proof (induction env tags promise B b rule: bucket_ok.induct)
  case (2 env tags promise B j w s b)
  show ?case
  proof (cases "(k, v, t) \<in> set b")
    case True
    with 2 have "map_of b k = Some (v, t)" by simp
    then show ?thesis using 2 by (auto simp: object_ok_def)
  next
    case False
    then show ?thesis using 2 by auto
  qed
qed simp

lemma object_unique:
  assumes "bucket_ok env tags promise B b" and "(k, v, t) \<in> set b" and "(k, v', t') \<in> set b" and "\<not> is_pointer_key k"
  shows "v = v'"
  using object_lookup [OF assms(1,2,4)] object_lookup [OF assms(1,3,4)] by simp

lemma manifest_at_unique:
  assumes "bucket_ok env tags promise B b" and "manifest_at env b d m" and "manifest_at env b d m'"
  shows "m = m'"
proof -
  from assms(2,3) obtain v t v' t' where
    v: "(manifest_key d, v, t) \<in> set b" "manifest_of_json env v = Ok m" and
    v': "(manifest_key d, v', t') \<in> set b" "manifest_of_json env v' = Ok m'"
    by (auto simp: manifest_at_def)
  have "v = v'" by (rule object_unique [OF assms(1) v(1) v'(1)]) simp
  then show ?thesis using v(2) v'(2) by simp
qed

definition promise_mono :: "(bucket \<Rightarrow> manifest \<Rightarrow> bool) \<Rightarrow> bool" where
  "promise_mono promise \<longleftrightarrow> (\<forall>a b m. promise a m \<longrightarrow> suffix a b \<longrightarrow> promise b m)"

lemma good_manifest_mono:
  "promise_mono promise \<Longrightarrow> suffix a b \<Longrightarrow> good_manifest env promise a d m \<Longrightarrow> good_manifest env promise b d m"
  unfolding good_manifest_def promise_mono_def using manifest_at_mono packs_stored_mono by blast

text \<open>What is stored under the key of some bytes are these bytes.\<close>

lemma content_stored:
  assumes "bucket_ok env tags promise B b" and "hashes_ok env tags B" and "w \<in> B"
    and "(content_key env pfx w, v, t) \<in> set b" and "pfx = ''packs'' \<or> pfx = ''manifests''"
  shows "v = w"
proof -
  have np: "\<not> is_pointer_key (content_key env pfx w)" using assms(5) by auto
  from assms(1,4) obtain a where v: "v \<in> B" "object_ok env a (content_key env pfx w) v"
    by (rule bucket_ok_split) (use np in auto)
  then have "git_sha256_hex env v = git_sha256_hex env w"
    using assms(5) by (auto simp: object_ok_def content_key_def starts_with_def)
  then show ?thesis using assms(2,3) v(1) by (auto simp: hashes_ok_def inj_on_def)
qed

lemma published_good:
  assumes "bucket_ok env tags promise B b" and "(k, d, t) \<in> set b" and "is_pointer_key k"
    and "promise_mono promise"
  obtains m where "good_manifest env promise b d m" "is_manifest_digest d \<or> \<not> hashes_ok env tags B"
proof -
  from assms(1,2) obtain a where a: "suffix ((k, d, t) # a) b" "pointer_ok env promise a k d"
    by (rule bucket_ok_split) (use assms(3) in auto)
  then have "suffix a b" by (meson suffix_ConsD)
  moreover obtain m where "good_manifest env promise a d m" using a(2) by (auto simp: pointer_ok_def)
  ultimately have "good_manifest env promise b d m"
    using good_manifest_mono [OF assms(4)] by blast
  moreover from this have "is_manifest_digest d \<or> \<not> hashes_ok env tags B"
    by (auto simp: good_manifest_def manifest_at_def hashes_ok_def)
  ultimately show ?thesis using that by blast
qed

section \<open>Interference\<close>

lemma s3_exec_suffix: "suffix b (snd (s3_exec tags rq b))"
  by (induction tags rq b rule: s3_exec.induct) (auto simp: suffix_def split: option.splits)

lemma s3_serve_suffix: "s3_serve tags rq b r b' \<Longrightarrow> suffix b b'"
  using s3_exec_suffix by (auto simp: s3_serve_def)

interpretation pushes: interference "bucket_ok env tags promise B" suffix "admissible B" "s3_serve tags"
  for env tags promise B
proof unfold_locales
  show "suffix w w" for w :: bucket by simp
  show "suffix u v \<Longrightarrow> suffix v w \<Longrightarrow> suffix u w" for u v w :: bucket by (rule suffix_order.trans)
  show "s3_serve tags op w r w' \<Longrightarrow> suffix w w'" for op w r w' by (rule s3_serve_suffix)
qed

abbreviation git_safe ::
  "git_codec \<Rightarrow> (string \<Rightarrow> nat \<Rightarrow> string) \<Rightarrow> (bucket \<Rightarrow> manifest \<Rightarrow> bool) \<Rightarrow> string set \<Rightarrow>
   'a store_prog \<Rightarrow> ('a \<Rightarrow> bucket \<Rightarrow> bool) \<Rightarrow> bucket \<Rightarrow> bool" where
  "git_safe env tags promise B p \<equiv> safe p (bucket_ok env tags promise B) suffix (admissible B) (s3_serve tags)"


section \<open>Requests\<close>

lemma serve_put_new:
  assumes "s3_serve tags (PutObject k v IfNoneMatchStar) b r b'"
  shows "b' = b \<and> fault_reply r \<or> map_of b k \<noteq> None \<and> b' = b \<or>
    map_of b k = None \<and> b' = (k, v, tags v (length b)) # b"
  using assms by (cases "map_of b k = None") (auto simp: s3_serve_def)

lemma serve_get:
  assumes "s3_serve tags (GetObject k) b r b'"
  shows "b' = b \<and> (\<forall>resp. r = Inr resp \<longrightarrow> (\<exists>t. map_of b k = Some (s3_body resp, t) \<and> (\<forall>u. s3_etag resp = Some u \<longrightarrow> u = t)))"
  using assms by (auto simp: s3_serve_def fault_reply_def drop_etag_def split: option.splits sum.splits)

lemma put_create_only_safe:
  assumes "\<not> is_pointer_key k"
    and "k = content_key env ''packs'' v \<or> k = content_key env ''manifests'' v \<or> starts_with k ''idx/''"
  shows "git_safe env tags promise B (put_create_only k v)
    (\<lambda>r b'. (\<exists>e. r = Err e) \<or> r = Ok k \<and> v \<in> B \<and> (\<exists>w t. (k, w, t) \<in> set b')) b"
  unfolding put_create_only_def
proof (rule pushes.safe_request)
  fix b1 r b2
  assume b1: "bucket_ok env tags promise B b1" and ad: "admissible B (PutObject k v IfNoneMatchStar)"
    and serve: "s3_serve tags (PutObject k v IfNoneMatchStar) b1 r b2"
  from ad have v: "v \<in> B" by (simp add: admissible_def)
  from serve_put_new [OF serve] have b2: "b2 = b1 \<or> map_of b1 k = None \<and> b2 = (k, v, tags v (length b1)) # b1" by auto
  then have "bucket_ok env tags promise B b2" using b1 v assms by (auto simp: object_ok_def)
  moreover have "\<exists>w t. (k, w, t) \<in> set b2" if "\<not> fault_reply r"
    using serve_put_new [OF serve] that by (cases "map_of b1 k") (auto dest: map_of_SomeD)
  ultimately show "bucket_ok env tags promise B b2 \<and>
    git_safe env tags promise B (Done (case r of
          Inr resp \<Rightarrow>
            if is_success (s3_status resp) then Ok k
            else Err (StoreBackend (HttpFail (s3_status resp) ''unexpected status''))
        | Inl (HttpFail c msg) \<Rightarrow> if c = 412 then Ok k else Err (StoreBackend (HttpFail c msg))
        | Inl e \<Rightarrow> Err (StoreBackend e)))
      (\<lambda>r b'. (\<exists>e. r = Err e) \<or> r = Ok k \<and> v \<in> B \<and> (\<exists>w t. (k, w, t) \<in> set b')) b2"
    using v by (auto simp: fault_reply_def split: sum.splits s3_error.splits)
qed

lemma put_immutable_safe:
  assumes "bucket_ok env tags promise B b" and "hashes_ok env tags B" and "pfx = ''packs'' \<or> pfx = ''manifests''"
  shows "git_safe env tags promise B (put_immutable env pfx v)
    (\<lambda>r b'. \<forall>k. r = Ok k \<longrightarrow> k = content_key env pfx v \<and> (\<exists>t. (k, v, t) \<in> set b')) b"
proof -
  have "git_safe env tags promise B (put_immutable env pfx v)
    (\<lambda>r b'. (\<exists>e. r = Err e) \<or> r = Ok (content_key env pfx v) \<and> v \<in> B \<and> (\<exists>w t. (content_key env pfx v, w, t) \<in> set b')) b"
    unfolding put_immutable_def by (rule put_create_only_safe) (use assms(3) in auto)
  from pushes.safe_frame [OF assms(1) this] show ?thesis
    by (rule safe_mono) (use content_stored [OF _ assms(2) _ _ assms(3)] in blast)
qed

lemma put_idx_safe: "git_safe env tags promise B (put_idx env d v) (\<lambda>_ _. True) b"
proof (cases "idx_key_for_pack_digest env d")
  case (Inr k)
  then have k: "starts_with k ''idx/''" "\<not> is_pointer_key k"
    by (auto simp: idx_key_for_pack_digest_def starts_with_def is_pointer_key_def split: if_splits)
  have "git_safe env tags promise B (put_create_only k v)
      (\<lambda>r b'. (\<exists>e. r = Err e) \<or> r = Ok k \<and> v \<in> B \<and> (\<exists>w t. (k, w, t) \<in> set b')) b"
    by (rule put_create_only_safe) (use k in auto)
  then show ?thesis by (simp add: put_idx_def Inr) (erule safe_mono, simp)
qed (simp add: put_idx_def)

lemma store_get_safe:
  "git_safe env tags promise B (store_get k) (\<lambda>r b'. \<forall>v. r = Ok v \<longrightarrow> (\<exists>t. (k, v, t) \<in> set b')) b"
  unfolding store_get_def
  by (rule pushes.safe_request)
    (use serve_get in \<open>fastforce split: sum.splits s3_error.splits dest: map_of_SomeD\<close>)

lemma get_pointer_safe:
  "git_safe env tags promise B (get_pointer k) (\<lambda>r b'. \<forall>t v. r = Ok (Some (t, v)) \<longrightarrow> (k, v, t) \<in> set b') b"
  unfolding get_pointer_def
  by (rule pushes.safe_request)
    (use serve_get in \<open>fastforce split: sum.splits s3_error.splits option.splits dest: map_of_SomeD\<close>)

lemma get_verified_safe:
  assumes "bucket_ok env tags promise B b"
  shows "git_safe env tags promise B (get_verified env k d)
    (\<lambda>r b'. \<forall>v. r = Ok v \<longrightarrow> git_sha256_hex env v = d \<and> (\<exists>t. (k, v, t) \<in> set b')) b"
  unfolding get_verified_def
  by (rule pushes.safe_try [OF assms store_get_safe]) (auto simp: verify_digest_def Let_def)

lemma get_limited_safe:
  "git_safe env tags promise B (get_limited k n) (\<lambda>r b'. \<forall>v. r = Ok v \<longrightarrow> (\<exists>t. (k, v, t) \<in> set b')) b"
  unfolding get_limited_def
proof (rule pushes.safe_request)
  fix b1 r b2
  assume "bucket_ok env tags promise B b1" and "s3_serve tags (HeadObject k) b1 r b2"
  then have b2: "bucket_ok env tags promise B b2" by (auto simp: s3_serve_def split: option.splits)
  have "git_safe env tags promise B
      (try_prog (store_get k) (\<lambda>bytes. Done (if length bytes > n then Err (ObjectTooLarge k (length bytes) n) else Ok bytes)))
      (\<lambda>r b'. \<forall>v. r = Ok v \<longrightarrow> (\<exists>t. (k, v, t) \<in> set b')) b2"
    by (rule pushes.safe_try [OF b2 store_get_safe]) auto
  with b2 show "bucket_ok env tags promise B b2 \<and> git_safe env tags promise B (case r of
         Inl (HttpFail c msg) \<Rightarrow> Done (if c = 404 then Err (NotFound k) else Err (StoreBackend (HttpFail c msg)))
       | Inl e \<Rightarrow> Done (Err (StoreBackend e))
       | Inr resp \<Rightarrow>
           if s3_status resp = 404 then Done (Err (NotFound k))
           else if \<not> is_success (s3_status resp)
           then Done (Err (StoreBackend (HttpFail (s3_status resp) ''unexpected status'')))
           else
             (case s3_length resp of
                Some m \<Rightarrow>
                  if u64_of_i64 m > n then Done (Err (ObjectTooLarge k (u64_of_i64 m) n))
                  else try_prog (store_get k) (\<lambda>bytes.
                         Done (if length bytes > n then Err (ObjectTooLarge k (length bytes) n) else Ok bytes))
              | None \<Rightarrow>
                  try_prog (store_get k) (\<lambda>bytes.
                    Done (if length bytes > n then Err (ObjectTooLarge k (length bytes) n) else Ok bytes))))
      (\<lambda>r b'. \<forall>v. r = Ok v \<longrightarrow> (\<exists>t. (k, v, t) \<in> set b')) b2"
    by (auto split: sum.splits s3_error.splits option.splits)
qed

lemma hydrate_get_safe:
  assumes "bucket_ok env tags promise B b"
  shows "git_safe env tags promise B (hydrate_get_verified_limited env k d n)
    (\<lambda>r b'. \<forall>v. r = Ok v \<longrightarrow> git_sha256_hex env v = d \<and> (\<exists>t. (k, v, t) \<in> set b')) b"
proof -
  have "git_safe env tags promise B (get_verified_limited env k d n)
      (\<lambda>r b'. \<forall>v. r = Ok v \<longrightarrow> git_sha256_hex env v = d \<and> (\<exists>t. (k, v, t) \<in> set b')) b"
    unfolding get_verified_limited_def
    by (rule pushes.safe_try [OF assms get_limited_safe]) (auto simp: verify_digest_def Let_def)
  then show ?thesis
    unfolding hydrate_get_verified_limited_def
    by (rule pushes.safe_seq [OF assms]) (auto split: sum.splits store_error.splits)
qed


section \<open>Digests as texts\<close>

lemma digest_hexdigits: "is_manifest_digest d \<Longrightarrow> list_all is_ascii_hexdigit d \<and> length d = 64"
  by (auto simp: is_manifest_digest_def digest_char_def list_all_iff ascii_class_defs)

lemma pointer_digest_id: "is_manifest_digest d \<Longrightarrow> pointer_digest d = Some d"
  by (simp add: pointer_digest_def Let_def digest_hexdigits str_trim_hex utf8_valid_hex)

section \<open>Moving a pointer\<close>

lemma serve_put_if:
  assumes "s3_serve tags (PutObject k v (IfMatch tag)) b r b'"
  shows "b' = b \<and> (\<forall>resp. r \<noteq> Inr resp) \<or>
    (\<exists>old. map_of b k = Some (old, tag) \<and> b' = (k, v, tags v (length b)) # b \<and>
      (\<forall>resp t. r = Inr resp \<longrightarrow> s3_etag resp = Some t \<longrightarrow> t = tags v (length b)))"
proof (cases "map_of b k")
  case None
  then show ?thesis using assms by (auto simp: s3_serve_def fault_reply_def drop_etag_def split: sum.splits)
next
  case (Some x)
  then show ?thesis
    using assms by (cases x) (auto simp: s3_serve_def fault_reply_def drop_etag_def put_reply_def split: sum.splits if_splits)
qed

lemma serve_put_new_reply:
  assumes "s3_serve tags (PutObject k v IfNoneMatchStar) b r b'"
  shows "b' = b \<and> (\<forall>resp. r \<noteq> Inr resp) \<or>
    map_of b k = None \<and> b' = (k, v, tags v (length b)) # b \<and>
      (\<forall>resp t. r = Inr resp \<longrightarrow> s3_etag resp = Some t \<longrightarrow> t = tags v (length b))"
  using assms
  by (cases "map_of b k = None")
    (auto simp: s3_serve_def fault_reply_def drop_etag_def put_reply_def split: sum.splits if_splits)

definition condition_parent :: "bucket \<Rightarrow> string \<Rightarrow> precond \<Rightarrow> string option \<Rightarrow> bool" where
  "condition_parent b k pre parent \<longleftrightarrow>
     (case pre of
        IfNoneMatchStar \<Rightarrow> parent = None
      | IfMatch tag \<Rightarrow> (\<exists>d. parent = Some d \<and> (k, d, tag) \<in> set b))"

text \<open>
  The swap succeeds only against the body the push was derived from: a tag that matches has been
  given to the same body.
\<close>

lemma condition_holds:
  assumes ok: "bucket_ok env tags promise B b" and h: "hashes_ok env tags B" and "suffix a b"
    and "condition_parent a k pre parent"
    and serve: "s3_serve tags (PutObject k v pre) b r b'"
  shows "b' = b \<and> (\<forall>resp. r \<noteq> Inr resp) \<or>
    parent = map_option fst (map_of b k) \<and> b' = (k, v, tags v (length b)) # b \<and>
      (\<forall>resp t. r = Inr resp \<longrightarrow> s3_etag resp = Some t \<longrightarrow> t = tags v (length b))"
proof (cases pre)
  case IfNoneMatchStar
  then show ?thesis
    using serve_put_new_reply [of tags k v b r b'] serve assms(4) by (auto simp: condition_parent_def)
next
  case (IfMatch tag)
  with assms(3,4) obtain d where d: "parent = Some d" "(k, d, tag) \<in> set b"
    by (auto simp: condition_parent_def suffix_def)
  have "old = d" if "map_of b k = Some (old, tag)" for old
  proof -
    have old: "(k, old, tag) \<in> set b" using that by (rule map_of_SomeD)
    obtain n where "old \<in> B" "tag = tags old n" by (rule bucket_ok_split [OF ok old]) blast
    moreover obtain n' where "d \<in> B" "tag = tags d n'" by (rule bucket_ok_split [OF ok d(2)]) blast
    ultimately show ?thesis using h unfolding hashes_ok_def by metis
  qed
  then show ?thesis using serve_put_if [of tags k v tag b r b'] serve IfMatch d(1) by auto
qed

lemma put_pointer_safe:
  assumes h: "hashes_ok env tags B" and pm: "promise_mono promise" and good: "good_manifest env promise b d m"
    and pk: "is_pointer_key k" and parent: "condition_parent b k pre (mf_parent m)"
  shows "git_safe env tags promise B (put_pointer env k d pre) (\<lambda>r b'. \<forall>t. r = Ok (Won t) \<longrightarrow> (k, d, t) \<in> set b') b"
proof -
  have "git_safe env tags promise B (Request (PutObject k d pre) (\<lambda>r. Done (classify_cas r)))
      (\<lambda>r b'. \<forall>t. r = Ok (Won t) \<longrightarrow> (k, d, t) \<in> set b') b"
  proof (rule pushes.safe_request)
    fix b1 r b2
    assume b1: "suffix b b1" "bucket_ok env tags promise B b1" and ad: "admissible B (PutObject k d pre)"
      and serve: "s3_serve tags (PutObject k d pre) b1 r b2"
    from condition_holds [OF b1(2) h b1(1) parent serve] have
      b2: "b2 = b1 \<and> (\<forall>resp. r \<noteq> Inr resp) \<or>
        mf_parent m = map_option fst (map_of b1 k) \<and> b2 = (k, d, tags d (length b1)) # b1 \<and>
        (\<forall>resp t. r = Inr resp \<longrightarrow> s3_etag resp = Some t \<longrightarrow> t = tags d (length b1))" .
    have "good_manifest env promise b1 d m" using good_manifest_mono [OF pm b1(1) good] .
    then have "bucket_ok env tags promise B b2"
      using b2 b1(2) ad pk by (auto simp: pointer_ok_def admissible_def)
    moreover have "\<forall>t. classify_cas r = Ok (Won t) \<longrightarrow> (k, d, t) \<in> set b2"
      using b2 by (auto simp: classify_cas_def split: sum.splits s3_error.splits if_splits option.splits)
    ultimately show "bucket_ok env tags promise B b2 \<and> git_safe env tags promise B (Done (classify_cas r))
        (\<lambda>r b'. \<forall>t. r = Ok (Won t) \<longrightarrow> (k, d, t) \<in> set b') b2" by simp
  qed
  then show ?thesis by (auto simp: put_pointer_def split: precond.splits)
qed


section \<open>The read path\<close>

lemma parse_loaded_good:
  assumes "bucket_ok env tags promise B b" and "good_manifest env promise b d m0"
    and "git_sha256_hex env v = d" and "(manifest_key d, v, t) \<in> set b"
    and "parse_loaded env tag d v = Ok (Some (t', d', m))"
  shows "t' = tag \<and> d' = d \<and> m = m0"
proof -
  from assms(5) have eq: "t' = tag" "d' = d" "manifest_of_json env v = Ok m"
    by (auto simp: parse_loaded_def manifest_from_bytes_def split: sum.splits if_splits)
  then have "manifest_at env b d m" using assms(3,4) by (auto simp: manifest_at_def)
  then show ?thesis using eq manifest_at_unique [OF assms(1)] assms(2) by (auto simp: good_manifest_def)
qed

lemma load_pointer_safe:
  assumes inv: "bucket_ok env tags promise B b" and h: "hashes_ok env tags B" and pm: "promise_mono promise"
  shows "git_safe env tags promise B (load_pointer env c ow repo)
    (\<lambda>r b'. \<forall>t d m. r = Ok (Some (t, d, m)) \<longrightarrow> (pointer_key c ow repo, d, t) \<in> set b' \<and> good_manifest env promise b' d m) b"
  (is "git_safe env tags promise B _ ?post b")
  unfolding load_pointer_def
proof (rule pushes.safe_try [OF inv], rule pushes.safe_map_err [OF inv get_pointer_safe])
  fix p b1
  assume p: "\<forall>t v. Inr p = (Ok (Some (t, v)) :: (hydrate_error, _) result) \<longrightarrow> (pointer_key c ow repo, v, t) \<in> set b1"
    and b1: "bucket_ok env tags promise B b1"
  show "git_safe env tags promise B (case p of
       None \<Rightarrow> Done (Ok None)
     | Some (tag, pointer_bytes) \<Rightarrow>
         (case pointer_digest pointer_bytes of
            None \<Rightarrow> Done (Err InvalidPointer)
          | Some digest \<Rightarrow>
              try_prog (hydrate_get_verified_limited env (manifest_key digest) digest MAX_MANIFEST_BYTES)
                (\<lambda>manifest_bytes. Done (parse_loaded env tag digest manifest_bytes)))) ?post b1"
  proof (cases p)
    case (Some x)
    obtain tag d where x: "x = (tag, d)" by (cases x)
    from p Some x have entry: "(pointer_key c ow repo, d, tag) \<in> set b1" by simp
    obtain m0 where m0: "good_manifest env promise b1 d m0" "is_manifest_digest d"
      by (rule published_good [OF b1 entry _ pm]) (use h in auto)
    have "?post (parse_loaded env tag d v) b2"
      if "git_sha256_hex env v = d" "(manifest_key d, v, t) \<in> set b2" "suffix b1 b2" "bucket_ok env tags promise B b2" for v t b2
    proof -
      have "good_manifest env promise b2 d m0" by (rule good_manifest_mono [OF pm that(3) m0(1)])
      with parse_loaded_good [OF that(4) this that(1,2), of tag] entry set_mono_suffix [OF that(3)] show ?thesis by auto
    qed
    then have "git_safe env tags promise B
        (try_prog (hydrate_get_verified_limited env (manifest_key d) d MAX_MANIFEST_BYTES)
          (\<lambda>manifest_bytes. Done (parse_loaded env tag d manifest_bytes))) ?post b1"
      by (rule_tac pushes.safe_try [OF b1 hydrate_get_safe [OF b1]]) auto
    then show ?thesis by (simp add: Some x pointer_digest_id [OF m0(2)])
  qed simp
qed auto

text \<open>Programs that only read keep the bucket as it is.\<close>

fun is_read :: "s3_request \<Rightarrow> bool" where
  "is_read (PutObject k v c) = False"
| "is_read _ = True"

primrec reads_only :: "'a store_prog \<Rightarrow> bool" where
  "reads_only (Done a) = True"
| "reads_only (Request rq k) = (is_read rq \<and> (\<forall>r. reads_only (k r)))"

lemma reads_only_bind [simp]: "reads_only p \<Longrightarrow> (\<And>a. reads_only (f a)) \<Longrightarrow> reads_only (bind_prog p f)"
  by (induction p) auto

lemma serve_read: "is_read rq \<Longrightarrow> s3_serve tags rq b r b' \<Longrightarrow> b' = b"
  by (cases rq) (auto simp: s3_serve_def split: option.splits)

lemma reads_only_safe: "reads_only p \<Longrightarrow> git_safe env tags promise B p (\<lambda>_ _. True) b"
  by (induction p arbitrary: b) (auto dest: serve_read)

lemma reads_only_try [simp]: "reads_only p \<Longrightarrow> (\<And>a. reads_only (f a)) \<Longrightarrow> reads_only (try_prog p f)"
  by (auto simp: try_prog_def split: sum.splits)

lemma reads_only_store [simp]:
  "reads_only (store_get k)" "reads_only (get_limited k n)" "reads_only (hydrate_get_verified_limited env k d n)"
  "reads_only (get_idx env d n)" "reads_only (get_pointer k)" "reads_only (get_verified env k d)"
proof -
  show g: "reads_only (store_get k)" for k by (simp add: store_get_def)
  show l: "reads_only (get_limited k n)" for k
    using g by (auto simp: get_limited_def split: sum.splits s3_error.splits option.splits)
  show "reads_only (hydrate_get_verified_limited env k d n)"
    using l by (simp add: hydrate_get_verified_limited_def get_verified_limited_def)
  show "reads_only (get_idx env d n)" using l by (simp add: get_idx_def split: sum.splits)
  show "reads_only (get_pointer k)" by (simp add: get_pointer_def)
  show "reads_only (get_verified env k d)" using g by (simp add: get_verified_def)
qed

lemma materialize_packs_reads: "reads_only (materialize_packs env hy n ks)"
  by (induction env hy n ks rule: materialize_packs.induct)
    (auto simp: materialize_pack_def install_or_generate_idx_def split: option.splits)

lemma materialize_reads [simp]: "reads_only (materialize_manifest env hy m)"
  by (simp add: materialize_manifest_def materialize_packs_reads split: sum.splits)

text \<open>The parent a workspace was hydrated from is a published state of the repository.\<close>

definition loaded_from :: "git_codec \<Rightarrow> (bucket \<Rightarrow> manifest \<Rightarrow> bool) \<Rightarrow> bucket \<Rightarrow> string \<Rightarrow> parent_state \<Rightarrow> bool" where
  "loaded_from env promise b k parent \<longleftrightarrow>
     parent = parent_fresh \<or>
     (\<exists>t d m. parent = from_loaded t d m \<and> (k, d, t) \<in> set b \<and> good_manifest env promise b d m)"

lemma loaded_from_mono:
  "promise_mono promise \<Longrightarrow> suffix a b \<Longrightarrow> loaded_from env promise a k parent \<Longrightarrow> loaded_from env promise b k parent"
  unfolding loaded_from_def using good_manifest_mono set_mono_suffix by blast

lemma hydrate_for_write_safe:
  assumes inv: "bucket_ok env tags promise B b" and h: "hashes_ok env tags B" and pm: "promise_mono promise"
  shows "git_safe env tags promise B (hydrate_for_write env hy c ow repo)
    (\<lambda>r b'. \<forall>n parent. r = Ok (n, parent) \<longrightarrow> loaded_from env promise b' (pointer_key c ow repo) parent) b"
  (is "git_safe env tags promise B _ ?post b")
  unfolding hydrate_for_write_def
proof (rule pushes.safe_try [OF inv load_pointer_safe [OF inv h pm]])
  fix p b1
  assume p: "\<forall>t d m. Inr p = (Ok (Some (t, d, m)) :: (hydrate_error, _) result) \<longrightarrow>
      (pointer_key c ow repo, d, t) \<in> set b1 \<and> good_manifest env promise b1 d m"
    and b1: "bucket_ok env tags promise B b1"
  have "git_safe env tags promise B
      (try_prog (materialize_manifest env hy m) (\<lambda>hydrated. Done (Ok (hydrated, from_loaded t d m)))) ?post b1"
    if "p = Some (t, d, m)" for t d m
  proof (rule pushes.safe_try [OF b1 reads_only_safe [OF materialize_reads]])
    fix n b2
    assume b2: "suffix b1 b2"
    have "loaded_from env promise b1 (pointer_key c ow repo) (from_loaded t d m)"
      using p that by (auto simp: loaded_from_def)
    from loaded_from_mono [OF pm b2 this]
    show "git_safe env tags promise B (Done (Ok (n, from_loaded t d m))) ?post b2" by simp
  qed simp
  then show "git_safe env tags promise B (case p of
       Some (tag, digest, m) \<Rightarrow>
         try_prog (materialize_manifest env hy m) (\<lambda>hydrated. Done (Ok (hydrated, from_loaded tag digest m)))
     | None \<Rightarrow>
         Done (case hy_init hy of Inl e \<Rightarrow> Err (Hydrate e) | Inr _ \<Rightarrow> Ok (0, parent_fresh))) ?post b1"
    by (cases p) (auto simp: loaded_from_def split: sum.splits)
qed simp


section \<open>Closure of the object graph\<close>

text \<open>
  \<open>reach oid\<close> are the objects reachable from an object and \<open>objs v\<close> the objects in a pack. What
  is documented of \<open>git pack-objects --revs\<close>: the pack for given tips without others has every
  object that is reachable from the tips and not from the others.
\<close>

definition reach_refs :: "(string \<Rightarrow> string set) \<Rightarrow> (string \<times> string) list \<Rightarrow> string set" where
  "reach_refs reach refs = \<Union> (reach ` snd ` set refs)"

lemma reach_refs_Nil [simp]: "reach_refs reach [] = {}"
  by (simp add: reach_refs_def)

definition git_covers :: "(string \<Rightarrow> string set) \<Rightarrow> (string \<Rightarrow> string set) \<Rightarrow> workspace \<Rightarrow> bool" where
  "git_covers reach objs ws \<longleftrightarrow>
     (\<forall>before after pack. ws_pack_objects ws (delta_revs before after) = Ok pack \<longrightarrow>
        reach_refs reach after \<subseteq> reach_refs reach before \<union> (if pack = [] then {} else objs pack)) \<and>
     (\<forall>after files. ws_compact_objects ws (closure_revs after) = Ok files \<longrightarrow>
        reach_refs reach after \<subseteq> (\<Union>f \<in> set files. case cf_pack f of Inl _ \<Rightarrow> {} | Inr v \<Rightarrow> objs v))"

lemma git_coversD:
  assumes "git_covers reach objs ws"
  shows "ws_pack_objects ws (delta_revs before after) = Ok pack \<Longrightarrow>
      reach_refs reach after \<subseteq> reach_refs reach before \<union> (if pack = [] then {} else objs pack)"
    and "ws_compact_objects ws (closure_revs after) = Ok files \<Longrightarrow>
      reach_refs reach after \<subseteq> (\<Union>f \<in> set files. case cf_pack f of Inl _ \<Rightarrow> {} | Inr v \<Rightarrow> objs v)"
  using assms unfolding git_covers_def by blast+

definition pack_cover :: "(string \<Rightarrow> string set) \<Rightarrow> bucket \<Rightarrow> string list \<Rightarrow> string set" where
  "pack_cover objs b ps = {x. \<exists>p v t. p \<in> set ps \<and> (p, v, t) \<in> set b \<and> x \<in> objs v}"

text \<open>The promise: if git is trusted, the packs of a published manifest contain what its refs reach.\<close>

definition closed_manifest :: "bool \<Rightarrow> (string \<Rightarrow> string set) \<Rightarrow> (string \<Rightarrow> string set) \<Rightarrow> bucket \<Rightarrow> manifest \<Rightarrow> bool" where
  "closed_manifest trusted reach objs b m \<longleftrightarrow> (trusted \<longrightarrow> reach_refs reach (mf_refs m) \<subseteq> pack_cover objs b (mf_packs m))"

lemma pack_cover_mono: "suffix a b \<Longrightarrow> pack_cover objs a ps \<subseteq> pack_cover objs b ps"
  using set_mono_suffix by (fastforce simp: pack_cover_def)

lemma pack_cover_pack_list [simp]: "pack_cover objs b (pack_list ps) = pack_cover objs b ps"
  by (simp add: pack_cover_def)

lemma pack_cover_append: "pack_cover objs b (ps @ qs) = pack_cover objs b ps \<union> pack_cover objs b qs"
  by (auto simp: pack_cover_def)

lemma closed_manifest_mono [simp]: "promise_mono (closed_manifest trusted reach objs)"
  unfolding promise_mono_def closed_manifest_def using pack_cover_mono by blast

section \<open>Composing the next manifest\<close>

definition composed ::
  "git_codec \<Rightarrow> (bucket \<Rightarrow> manifest \<Rightarrow> bool) \<Rightarrow> bucket \<Rightarrow> parent_state \<Rightarrow> string \<Rightarrow> (string \<times> string) list \<Rightarrow> manifest \<Rightarrow> bool" where
  "composed env promise b parent head refs m \<longleftrightarrow>
     mf_version m = MANIFEST_VERSION \<and> mf_head m = head \<and> mf_refs m = refs \<and> mf_parent m = ps_parent_digest parent \<and>
     pack_list (mf_packs m) = mf_packs m \<and> packs_stored env b (mf_packs m) \<and> promise b m"

lemma composed_mono:
  "promise_mono promise \<Longrightarrow> suffix a b \<Longrightarrow> composed env promise a parent head refs m \<Longrightarrow>
   composed env promise b parent head refs m"
  unfolding composed_def promise_mono_def using packs_stored_mono by blast

lemma digest_from_manifest_key_id [simp]: "digest_from_manifest_key (manifest_key d) = Ok d"
  by (simp add: digest_from_manifest_key_def manifest_key_def strip_prefix_def)

lemma digest_from_keys:
  assumes "hashes_ok env tags B"
  shows "digest_from_pack_key (content_key env ''packs'' v) = Ok (git_sha256_hex env v)"
  using assms digest_hexdigits
  by (simp add: hashes_ok_def digest_from_pack_key_def content_key_def strip_prefix_def)

lemma put_pack_safe:
  assumes "bucket_ok env tags promise B b" and "hashes_ok env tags B"
  shows "git_safe env tags promise B (map_err CasBackend (put_pack env v))
    (\<lambda>r b'. \<forall>k. r = Ok k \<longrightarrow> k = content_key env ''packs'' v \<and> (\<exists>t. (k, v, t) \<in> set b')) b"
  unfolding put_pack_def
  by (rule pushes.safe_map_err [OF assms(1) put_immutable_safe [OF assms]]) auto

definition files_stored :: "git_codec \<Rightarrow> bucket \<Rightarrow> compact_file list \<Rightarrow> string list \<Rightarrow> bool" where
  "files_stored env b fs ks \<longleftrightarrow>
     packs_stored env b ks \<and>
     (\<forall>f \<in> set fs. \<exists>v t. cf_pack f = Ok v \<and> content_key env ''packs'' v \<in> set ks \<and> (content_key env ''packs'' v, v, t) \<in> set b)"

lemma files_stored_mono: "files_stored env a fs ks \<Longrightarrow> suffix a b \<Longrightarrow> files_stored env b fs ks"
  unfolding files_stored_def using packs_stored_mono set_mono_suffix by blast

lemma upload_files_safe:
  assumes "bucket_ok env tags promise B b" and "hashes_ok env tags B" and "files_stored env b gs ks"
  shows "git_safe env tags promise B (upload_files env ks fs) (\<lambda>r b'. \<forall>ks'. r = Ok ks' \<longrightarrow> files_stored env b' (gs @ fs) ks') b"
  using assms(1,3)
proof (induction fs arbitrary: b gs ks)
  case (Cons f fs)
  note h = assms(2)
  show ?case
  proof (cases "cf_pack f")
    case (Inr v)
    have next_file: "git_safe env tags promise B
        (bind_prog (case cf_idx f of Some idx_bytes \<Rightarrow> put_idx env (git_sha256_hex env v) idx_bytes | None \<Rightarrow> Done (Ok []))
          (\<lambda>_. upload_files env (ks @ [content_key env ''packs'' v]) fs))
        (\<lambda>r b'. \<forall>ks'. r = Ok ks' \<longrightarrow> files_stored env b' (gs @ f # fs) ks') b1"
      if b1: "bucket_ok env tags promise B b1" "suffix b b1" and stored: "(content_key env ''packs'' v, v, t) \<in> set b1" for b1 t
    proof (rule pushes.safe_seq [OF b1(1), where post = "\<lambda>_ _. True"])
      show "git_safe env tags promise B
          (case cf_idx f of Some idx_bytes \<Rightarrow> put_idx env (git_sha256_hex env v) idx_bytes | None \<Rightarrow> Done (Ok []))
          (\<lambda>_ _. True) b1"
        by (auto intro: put_idx_safe split: option.splits)
    next
      fix b2
      assume b2: "suffix b1 b2" "bucket_ok env tags promise B b2"
      have "files_stored env b2 gs ks" using Cons.prems(2) b1(2) b2(1) files_stored_mono by blast
      moreover have "(content_key env ''packs'' v, v, t) \<in> set b2" using stored set_mono_suffix [OF b2(1)] by blast
      ultimately have "files_stored env b2 (gs @ [f]) (ks @ [content_key env ''packs'' v])"
        using Inr unfolding files_stored_def packs_stored_def by fastforce
      from Cons.IH [OF b2(2) this]
      show "git_safe env tags promise B (upload_files env (ks @ [content_key env ''packs'' v]) fs)
          (\<lambda>r b'. \<forall>ks'. r = Ok ks' \<longrightarrow> files_stored env b' (gs @ f # fs) ks') b2" by simp
    qed
    have "git_safe env tags promise B
        (try_prog (map_err CasBackend (put_pack env v)) (\<lambda>pack_key.
            case digest_from_pack_key pack_key of
              Inl e \<Rightarrow> Done (Err e)
            | Inr pack_digest \<Rightarrow>
                bind_prog (case cf_idx f of
                             Some idx_bytes \<Rightarrow> put_idx env pack_digest idx_bytes
                           | None \<Rightarrow> Done (Ok [])) (\<lambda>_.
                upload_files env (ks @ [pack_key]) fs)))
        (\<lambda>r b'. \<forall>ks'. r = Ok ks' \<longrightarrow> files_stored env b' (gs @ f # fs) ks') b"
      by (rule pushes.safe_try [OF Cons.prems(1) put_pack_safe [OF Cons.prems(1) h]])
        (use next_file in \<open>auto simp: digest_from_keys [OF h]\<close>)
    then show ?thesis by (simp add: Inr)
  qed simp
qed simp


lemma prepare_compaction_safe:
  assumes "bucket_ok env tags promise B b" and "hashes_ok env tags B"
  shows "git_safe env tags promise B (prepare_compaction env ws refs limits n)
    (\<lambda>r b'. \<forall>ks. r = Ok ks \<longrightarrow> packs_stored env b' ks \<and>
       (\<exists>files. (refs = [] \<or> ws_compact_objects ws (closure_revs refs) = Ok files) \<and> files_stored env b' files ks)) b"
  (is "git_safe env tags promise B _ ?post b")
proof (cases "capture_compacted_packs ws refs limits")
  case (Inr files)
  then have files: "refs = [] \<or> ws_compact_objects ws (closure_revs refs) = Ok files"
    by (auto simp: capture_compacted_packs_def split: if_splits sum.splits)
  have "files_stored env b [] []" by (simp add: files_stored_def packs_stored_def)
  note up = upload_files_safe [OF assms this, of files]
  have "git_safe env tags promise B (upload_compacted_packs env files) ?post b"
    unfolding upload_compacted_packs_def pack_list_def [symmetric]
  proof (rule pushes.safe_try [OF assms(1) up])
    fix ks b1
    assume "\<forall>ks'. Inr ks = Ok ks' \<longrightarrow> files_stored env b1 ([] @ files) ks'"
    then have "files_stored env b1 files ks" by simp
    then have "files_stored env b1 files (pack_list ks)" by (simp add: files_stored_def)
    then show "git_safe env tags promise B (Done (Ok (pack_list ks))) ?post b1"
      using files by (auto simp: files_stored_def)
  qed simp
  then show ?thesis by (simp add: prepare_compaction_def Inr)
qed (simp add: prepare_compaction_def)

lemma files_cover:
  assumes "files_stored env b files ks"
  shows "(\<Union>f \<in> set files. case cf_pack f of Inl _ \<Rightarrow> {} | Inr v \<Rightarrow> objs v) \<subseteq> pack_cover objs b ks"
  using assms by (fastforce simp: files_stored_def pack_cover_def)

lemma compacted_composed:
  assumes "packs_stored env b ks" and "refs = [] \<or> ws_compact_objects ws (closure_revs refs) = Ok files"
    and "files_stored env b files ks" and "trusted \<longrightarrow> git_covers reach objs ws"
  shows "composed env (closed_manifest trusted reach objs) b parent head refs
    (compose_compacted_after (ps_parent_digest parent) head refs ks)"
proof -
  have "trusted \<longrightarrow> reach_refs reach refs \<subseteq> pack_cover objs b ks"
    using assms(2,4) files_cover [OF assms(3), of objs] git_coversD(2) [of reach objs ws refs files] by auto
  then show ?thesis using assms(1) by (simp add: composed_def compose_packs closed_manifest_def)
qed

lemma try_compaction_safe:
  fixes trusted reach objs
  defines "promise \<equiv> closed_manifest trusted reach objs"
  assumes "bucket_ok env tags promise B b" and "hashes_ok env tags B" and "trusted \<longrightarrow> git_covers reach objs ws"
  shows "git_safe env tags promise B (try_compaction env ws parent head refs limits threshold)
    (\<lambda>r b'. \<forall>m. fst r = Some m \<longrightarrow> composed env promise b' parent head refs m) b"
  (is "git_safe env tags promise B _ ?post b")
proof -
  let ?p = "prepare_compaction env ws refs limits (length (mf_packs (ps_parent parent)))"
  let ?q = "\<lambda>r b'. \<forall>ks. r = Ok ks \<longrightarrow> packs_stored env b' ks \<and>
     (\<exists>files. (refs = [] \<or> ws_compact_objects ws (closure_revs refs) = Ok files) \<and> files_stored env b' files ks)"
  have p: "git_safe env tags promise B ?p ?q b" by (rule prepare_compaction_safe [OF assms(2,3)])
  have "git_safe env tags promise B
      (bind_prog (bounded_prog (ws_cut ws) ?p) (\<lambda>out. Done
                    (case out of
                       Some (Inr pack_keys) \<Rightarrow>
                         (Some (compose_compacted_after (ps_parent_digest parent) head refs pack_keys), None)
                     | Some (Inl e) \<Rightarrow> (None, Some e)
                     | None \<Rightarrow> (None, Some (PackCapture ''pack compaction operation timed out after 600 seconds''))))) ?post b"
    by (rule pushes.safe_seq [OF assms(2) pushes.safe_bounded [OF p]])
      (auto simp: promise_def intro: compacted_composed [OF _ _ _ assms(4)] split: option.splits sum.splits)
  then show ?thesis by (simp add: try_compaction_def Let_def split: sum.splits)
qed

lemma delta_composed:
  fixes trusted reach objs
  defines "promise \<equiv> closed_manifest trusted reach objs"
  assumes loaded: "loaded_from env promise b k parent"
    and new: "\<And>x. p = Some x \<Longrightarrow> x = content_key env ''packs'' v \<and> (\<exists>t. (x, v, t) \<in> set b)"
    and reach: "trusted \<longrightarrow> reach_refs reach refs \<subseteq> reach_refs reach (mf_refs (ps_parent parent)) \<union> (if p = None then {} else objs v)"
  shows "composed env promise b parent head refs (compose_after (ps_parent parent) (ps_parent_digest parent) head refs p)"
proof -
  have parent: "packs_stored env b (mf_packs (ps_parent parent))"
    "trusted \<longrightarrow> reach_refs reach (mf_refs (ps_parent parent)) \<subseteq> pack_cover objs b (mf_packs (ps_parent parent))"
    using loaded by (auto simp: loaded_from_def parent_fresh_def from_loaded_def good_manifest_def promise_def
        closed_manifest_def packs_stored_def)
  have "objs v \<subseteq> pack_cover objs b [x]" if "p = Some x" for x
    using new [OF that] by (auto simp: pack_cover_def)
  moreover have "packs_stored env b [x]" if "p = Some x" for x
    using new [OF that] by (auto simp: packs_stored_def)
  ultimately show ?thesis
    using parent reach
    by (cases p) (auto simp: composed_def compose_packs promise_def closed_manifest_def pack_cover_append)
qed

lemma delta_manifest_safe:
  fixes trusted reach objs
  defines "promise \<equiv> closed_manifest trusted reach objs"
  assumes inv: "bucket_ok env tags promise B b" and h: "hashes_ok env tags B"
    and git: "trusted \<longrightarrow> git_covers reach objs ws" and loaded: "loaded_from env promise b k parent"
  shows "git_safe env tags promise B (delta_manifest env ws parent head refs limits failure)
    (\<lambda>r b'. \<forall>m. r = Ok m \<longrightarrow> composed env promise b' parent head refs m) b"
  (is "git_safe env tags promise B _ ?post b")
proof (cases "capture_pack ws (mf_refs (ps_parent parent)) refs (pl_max_pack_bytes limits)")
  case (Inr pack)
  have reach: "trusted \<longrightarrow> reach_refs reach refs \<subseteq> reach_refs reach (mf_refs (ps_parent parent)) \<union>
      (case pack of None \<Rightarrow> {} | Some v \<Rightarrow> objs v)"
    using Inr git git_coversD(1) [of reach objs ws "mf_refs (ps_parent parent)" refs]
    by (cases "refs = []") (auto simp: capture_pack_def split: sum.splits if_splits)
  show ?thesis
  proof (cases pack)
    case None
    then have "composed env promise b parent head refs
        (compose_after (ps_parent parent) (ps_parent_digest parent) head refs None)"
      using reach loaded unfolding promise_def by (intro delta_composed) auto
    then show ?thesis by (simp add: delta_manifest_def Inr None Let_def)
  next
    case (Some v)
    have idx: "git_safe env tags promise B (write_idx_sidecar env ws x v) (\<lambda>_ _. True) b1"
      if "bucket_ok env tags promise B b1" for x b1
    proof -
      have "git_safe env tags promise B (map_err CasBackend (put_idx env d i)) (\<lambda>_ _. True) b1" for d i
        by (rule pushes.safe_map_err [OF that put_idx_safe]) auto
      then have "git_safe env tags promise B (try_prog (map_err CasBackend (put_idx env d i)) (\<lambda>_. Done (Ok ()))) (\<lambda>_ _. True) b1" for d i
        by (rule pushes.safe_try [OF that]) auto
      then show ?thesis by (auto simp: write_idx_sidecar_def split: sum.splits)
    qed
    have "git_safe env tags promise B
        (bind_prog (write_idx_sidecar env ws x v)
           (\<lambda>_. Done (Ok (compose_after (ps_parent parent) (ps_parent_digest parent) head refs (Some x))))) ?post b1"
      if b1: "suffix b b1" "bucket_ok env tags promise B b1" and x: "x = content_key env ''packs'' v" "(x, v, t) \<in> set b1" for x t b1
    proof (rule pushes.safe_seq [OF b1(2) idx [OF b1(2)]])
      fix b2
      assume b2: "suffix b1 b2"
      have "suffix b b2" using b1(1) b2 by (rule suffix_order.trans)
      then have "loaded_from env promise b2 k parent"
        using loaded_from_mono [of promise b b2] loaded by (simp add: promise_def)
      then have "composed env promise b2 parent head refs
          (compose_after (ps_parent parent) (ps_parent_digest parent) head refs (Some x))"
        using x reach Some set_mono_suffix [OF b2] unfolding promise_def by (intro delta_composed [where v = v]) auto
      then show "git_safe env tags promise B
          (Done (Ok (compose_after (ps_parent parent) (ps_parent_digest parent) head refs (Some x)))) ?post b2" by simp
    qed
    then have "git_safe env tags promise B (try_prog (map_err CasBackend (put_pack env v)) (\<lambda>pack_key.
        bind_prog (write_idx_sidecar env ws pack_key v)
          (\<lambda>_. Done (Ok (compose_after (ps_parent parent) (ps_parent_digest parent) head refs (Some pack_key)))))) ?post b"
      by (rule_tac pushes.safe_try [OF inv put_pack_safe [OF inv h]]) auto
    then show ?thesis by (simp add: delta_manifest_def Inr Some Let_def)
  qed
qed (simp add: delta_manifest_def)


section \<open>The commit\<close>

definition published :: "git_codec \<Rightarrow> (bucket \<Rightarrow> manifest \<Rightarrow> bool) \<Rightarrow> bucket \<Rightarrow> string \<Rightarrow> manifest \<Rightarrow> string \<Rightarrow> bool" where
  "published env promise b k m mkey \<longleftrightarrow>
     (\<exists>d t. mkey = manifest_key d \<and> (k, d, t) \<in> set b \<and> good_manifest env promise b d m)"

lemma published_mono:
  "promise_mono promise \<Longrightarrow> suffix a b \<Longrightarrow> published env promise a k m x \<Longrightarrow> published env promise b k m x"
  unfolding published_def using good_manifest_mono set_mono_suffix by blast

lemma read_winner_reads [simp]: "reads_only (read_winner_after_conflict env k)"
  by (auto simp: read_winner_after_conflict_def map_err_def Let_def split: option.splits)

lemma canonical_bytes_read_back:
  assumes "hashes_ok env tags B" and "manifest_valid m" and "btree_ok (mf_refs m)" and "pack_list (mf_packs m) = mf_packs m"
    and "canonical_bytes env m = Ok v"
  shows "manifest_of_json env v = Ok m"
proof -
  have "m\<lparr>mf_packs := remdups_adj (sort (mf_packs m))\<rparr> = m" using assms(4) by (simp add: pack_list_def)
  then have "manifest_to_json env m = Ok v" using assms(5) by (auto simp: canonical_bytes_def split: sum.splits)
  then show ?thesis using assms(1-3) by (simp add: hashes_ok_def)
qed

lemma publish_manifest_safe:
  assumes inv: "bucket_ok env tags promise B b" and h: "hashes_ok env tags B" and pm: "promise_mono promise"
    and pk: "is_pointer_key k" and comp: "composed env promise b parent head refs m" and refs: "btree_ok refs"
    and loaded: "loaded_from env promise b k parent"
  shows "git_safe env tags promise B (publish_manifest env k (ps_if_match parent) m)
    (\<lambda>r b'. \<forall>m' x. r = Ok (m', x) \<longrightarrow> m' = m \<and> published env promise b' k m x) b"
  (is "git_safe env tags promise B _ ?post b")
proof (cases "manifest_validate m")
  case valid: (Inr u)
  then have mv: "manifest_valid m" by (simp flip: manifest_validate_Ok)
  show ?thesis
  proof (cases "canonical_bytes env m")
    case (Inr v)
    let ?d = "git_sha256_hex env v"
    let ?pre = "case ps_if_match parent of Some tag \<Rightarrow> IfMatch tag | None \<Rightarrow> IfNoneMatchStar"
    have dec: "manifest_of_json env v = Ok m"
      using canonical_bytes_read_back [OF h mv _ _ Inr] comp refs by (simp add: composed_def)
    have won: "git_safe env tags promise B
        (try_prog (map_err CasBackend (put_pointer env k ?d ?pre)) (\<lambda>outcome.
           case outcome of
             Won _ \<Rightarrow> Done (Ok (m, manifest_key ?d))
           | LostRace \<Rightarrow> try_prog (read_winner_after_conflict env k) (\<lambda>(winner, key). Done (Err (Conflict winner key))))) ?post b1"
      if b1: "suffix b b1" "bucket_ok env tags promise B b1" and stored: "(manifest_key ?d, v, t) \<in> set b1" for b1 t
    proof -
      have "composed env promise b1 parent head refs m" by (rule composed_mono [OF pm b1(1) comp])
      moreover have "manifest_at env b1 ?d m" using stored dec by (auto simp: manifest_at_def)
      ultimately have good: "good_manifest env promise b1 ?d m"
        using mv refs by (auto simp: good_manifest_def composed_def)
      have cond: "condition_parent b1 k ?pre (mf_parent m)"
        using comp loaded_from_mono [OF pm b1(1) loaded]
        by (auto simp: composed_def loaded_from_def parent_fresh_def from_loaded_def condition_parent_def)
      have lost: "git_safe env tags promise B
          (try_prog (read_winner_after_conflict env k) (\<lambda>(winner, key). Done (Err (Conflict winner key)))) ?post b2"
        if "bucket_ok env tags promise B b2" for b2
        by (rule pushes.safe_try [OF that reads_only_safe [OF read_winner_reads]]) auto
      have put: "git_safe env tags promise B (map_err CasBackend (put_pointer env k ?d ?pre))
          (\<lambda>r b'. \<forall>t. r = Ok (Won t) \<longrightarrow> (k, ?d, t) \<in> set b') b1"
        by (rule pushes.safe_map_err [OF b1(2) put_pointer_safe [OF h pm good pk cond]]) auto
      show ?thesis
      proof (rule pushes.safe_try [OF b1(2) put])
        fix outcome b2
        assume out: "\<forall>t. Inr outcome = (Ok (Won t) :: (cas_error, _) result) \<longrightarrow> (k, ?d, t) \<in> set b2"
          and b2: "suffix b1 b2" "bucket_ok env tags promise B b2"
        have "good_manifest env promise b2 ?d m" by (rule good_manifest_mono [OF pm b2(1) good])
        then show "git_safe env tags promise B (case outcome of
             Won _ \<Rightarrow> Done (Ok (m, manifest_key ?d))
           | LostRace \<Rightarrow> try_prog (read_winner_after_conflict env k) (\<lambda>(winner, key). Done (Err (Conflict winner key)))) ?post b2"
          using out lost [OF b2(2)] by (cases outcome) (auto simp: published_def)
      qed simp
    qed
    have put: "git_safe env tags promise B (map_err CasBackend (put_manifest env v))
        (\<lambda>r b'. \<forall>x. r = Ok x \<longrightarrow> x = content_key env ''manifests'' v \<and> (\<exists>t. (x, v, t) \<in> set b')) b"
      unfolding put_manifest_def by (rule pushes.safe_map_err [OF inv put_immutable_safe [OF inv h]]) auto
    have "git_safe env tags promise B
        (try_prog (map_err CasBackend (put_manifest env v)) (\<lambda>mkey.
           case digest_from_manifest_key mkey of
             Inl e \<Rightarrow> Done (Err e)
           | Inr manifest_digest \<Rightarrow>
               try_prog (map_err CasBackend (put_pointer env k manifest_digest ?pre)) (\<lambda>outcome.
               case outcome of
                 Won _ \<Rightarrow> Done (Ok (m, mkey))
               | LostRace \<Rightarrow> try_prog (read_winner_after_conflict env k) (\<lambda>(winner, key). Done (Err (Conflict winner key)))))) ?post b"
      by (rule pushes.safe_try [OF inv put])
        (use won in \<open>auto simp: content_key_eq\<close>)
    then show ?thesis by (simp add: publish_manifest_def valid Inr)
  qed (simp add: publish_manifest_def valid)
qed (simp add: publish_manifest_def)

lemma snapshot_refs_ok: "btree_ok refs \<Longrightarrow> snapshot_refs refs ls = Ok refs' \<Longrightarrow> btree_ok refs'"
  by (induction refs ls rule: snapshot_refs.induct)
    (auto simp: btree_insert_ok split: option.splits if_splits)

lemma snapshot_state_ok:
  assumes "snapshot_workspace_state ws = Ok (refs, head)"
  shows "btree_ok refs"
proof -
  from assms obtain ls where "snapshot_refs [] ls = Ok refs"
    by (cases "ws_symbolic_ref ws") (auto simp: snapshot_workspace_state_def simp del: snapshot_refs.simps split: sum.splits if_splits)
  moreover have "btree_ok []" by (simp add: btree_ok_def)
  ultimately show ?thesis using snapshot_refs_ok by blast
qed

text \<open>What a successful commit has published.\<close>

definition committed ::
  "git_codec \<Rightarrow> (bucket \<Rightarrow> manifest \<Rightarrow> bool) \<Rightarrow> bucket \<Rightarrow> string \<Rightarrow> workspace \<Rightarrow> parent_state \<Rightarrow> manifest \<Rightarrow> string \<Rightarrow> bool" where
  "committed env promise b k ws parent m x \<longleftrightarrow>
     published env promise b k m x \<and> mf_parent m = ps_parent_digest parent \<and>
     (\<exists>observed. snapshot_workspace_state ws = Ok (mf_refs m, observed) \<and>
        mf_head m = resolve_published_head (mf_refs m) observed (mf_head (ps_parent parent)))"

lemma cas_publish_safe:
  fixes trusted reach objs
  defines "promise \<equiv> closed_manifest trusted reach objs"
  assumes inv: "bucket_ok env tags promise B b" and h: "hashes_ok env tags B"
    and git: "trusted \<longrightarrow> git_covers reach objs ws"
    and loaded: "loaded_from env promise b (pointer_key c ow repo) parent"
  shows "git_safe env tags promise B (cas_publish env ws c ow repo parent limits)
    (\<lambda>r b'. \<forall>m x. r = Ok (m, x) \<longrightarrow> committed env promise b' (pointer_key c ow repo) ws parent m x) b"
  (is "git_safe env tags promise B _ ?post b")
proof (cases "snapshot_workspace_state ws")
  case (Inr s)
  obtain refs observed where s: "s = (refs, observed)" by (cases s)
  have pm: "promise_mono promise" by (simp add: promise_def)
  let ?k = "pointer_key c ow repo"
  let ?h = "resolve_published_head refs observed (mf_head (ps_parent parent))"
  have refs: "btree_ok refs" using snapshot_state_ok Inr s by simp
  have publish: "git_safe env tags promise B (publish_manifest env ?k (ps_if_match parent) m) ?post b1"
    if b1: "suffix b b1" "bucket_ok env tags promise B b1" and m: "composed env promise b1 parent ?h refs m" for m b1
  proof -
    have l: "loaded_from env promise b1 ?k parent" by (rule loaded_from_mono [OF pm b1(1) loaded])
    show ?thesis
      by (rule safe_mono [OF publish_manifest_safe [OF b1(2) h pm _ m refs l]])
        (use m Inr s in \<open>auto simp: committed_def composed_def\<close>)
  qed
  have comp: "git_safe env tags promise B (try_compaction env ws parent ?h refs limits PACK_COMPACTION_THRESHOLD)
      (\<lambda>r b'. \<forall>m. fst r = Some m \<longrightarrow> composed env promise b' parent ?h refs m) b"
    unfolding promise_def by (rule try_compaction_safe) (use inv h git in \<open>auto simp: promise_def\<close>)
  have "git_safe env tags promise B
      (bind_prog (try_compaction env ws parent ?h refs limits PACK_COMPACTION_THRESHOLD) (\<lambda>(compacted, failure).
         try_prog (case compacted of Some m \<Rightarrow> Done (Ok m) | None \<Rightarrow> delta_manifest env ws parent ?h refs limits failure)
           (publish_manifest env ?k (ps_if_match parent)))) ?post b"
  proof (rule pushes.safe_seq [OF inv comp])
    fix cf :: "manifest option \<times> cas_error option" and b1
    assume c: "\<forall>m. fst cf = Some m \<longrightarrow> composed env promise b1 parent ?h refs m"
      and b1: "suffix b b1" "bucket_ok env tags promise B b1"
    have l: "loaded_from env promise b1 ?k parent" by (rule loaded_from_mono [OF pm b1(1) loaded])
    have "git_safe env tags promise B (delta_manifest env ws parent ?h refs limits failure)
        (\<lambda>r b'. \<forall>m. r = Ok m \<longrightarrow> composed env promise b' parent ?h refs m) b1" for failure
      unfolding promise_def by (rule delta_manifest_safe) (use b1 h git l in \<open>auto simp: promise_def\<close>)
    with c have "git_safe env tags promise B
        (case fst cf of Some m \<Rightarrow> Done (Ok m) | None \<Rightarrow> delta_manifest env ws parent ?h refs limits failure)
        (\<lambda>r b'. \<forall>m. r = Ok m \<longrightarrow> composed env promise b' parent ?h refs m) b1" for failure
      by (cases "fst cf") auto
    then have "git_safe env tags promise B
        (try_prog (case fst cf of Some m \<Rightarrow> Done (Ok m) | None \<Rightarrow> delta_manifest env ws parent ?h refs limits failure)
           (publish_manifest env ?k (ps_if_match parent))) ?post b1" for failure
      by (rule pushes.safe_try [OF b1(2)])
        (use publish suffix_order.trans [OF b1(1)] in auto)
    then show "git_safe env tags promise B (case cf of (compacted, failure) \<Rightarrow>
         try_prog (case compacted of Some m \<Rightarrow> Done (Ok m) | None \<Rightarrow> delta_manifest env ws parent ?h refs limits failure)
           (publish_manifest env ?k (ps_if_match parent))) ?post b1"
      by (simp add: case_prod_unfold)
  qed
  then show ?thesis by (simp add: cas_publish_def cas_publish_inner_def Inr s Let_def)
qed (simp add: cas_publish_def cas_publish_inner_def)


section \<open>The push handler\<close>

text \<open>
  What an answered push has left behind. The answer 200 passes git's report on: if the report
  accepts the push, the state of the workspace is published.
\<close>

definition push_key :: "push \<Rightarrow> string" where
  "push_key pu = pointer_key (pu_community pu) (pu_owner pu) (pu_repo pu)"

definition push_done :: "git_codec \<Rightarrow> (bucket \<Rightarrow> manifest \<Rightarrow> bool) \<Rightarrow> push \<Rightarrow> http_answer \<Rightarrow> bucket \<Rightarrow> bool" where
  "push_done env promise pu a b \<longleftrightarrow>
     (fst a = 200 \<longrightarrow>
        (\<exists>parent exit_ok ws. loaded_from env promise b (push_key pu) parent \<and> pu_receive pu parent = Ok (exit_ok, snd a, ws) \<and>
           (exit_ok \<and> \<not> receive_pack_report_rejected (snd a) \<longrightarrow>
              (\<exists>m x. committed env promise b (push_key pu) ws parent m x))))"

lemma push_done_error: "fst a \<noteq> 200 \<Longrightarrow> push_done env promise pu a b"
  by (simp add: push_done_def)

lemma push_done_ok:
  assumes "loaded_from env promise b (push_key pu) parent" "pu_receive pu parent = Ok (exit_ok, out, ws)"
    and "exit_ok \<and> \<not> receive_pack_report_rejected out \<longrightarrow> (\<exists>m x. committed env promise b (push_key pu) ws parent m x)"
  shows "push_done env promise pu (s, out) b"
  unfolding push_done_def fst_conv snd_conv using assms by blast

lemma push_done_stable: "promise_mono promise \<Longrightarrow> pushes.stable (push_done env promise pu)"
  unfolding pushes.stable_def push_done_def committed_def
  by (meson loaded_from_mono published_mono)

lemma finalize_push_safe:
  fixes trusted reach objs
  defines "promise \<equiv> closed_manifest trusted reach objs"
  assumes inv: "bucket_ok env tags promise B b" and h: "hashes_ok env tags B"
    and git: "trusted \<longrightarrow> git_covers reach objs ws"
    and loaded: "loaded_from env promise b (push_key pu) parent"
    and receive: "pu_receive pu parent = Ok (exit_ok, stdout, ws)" and pack: "pack_output_of exit_ok stdout = Ok pack"
  shows "git_safe env tags promise B (finalize_push env pu name pack ws n parent) (push_done env promise pu) b"
proof -
  have pk: "po_stdout pack = stdout" "po_ok pack = (exit_ok \<and> \<not> receive_pack_report_rejected stdout)"
    using pack by (auto simp: pack_output_of_def split: if_splits)
  have pm: "promise_mono promise" by (simp add: promise_def)
  obtain acquired held lost held_after released where lease: "pu_lease pu = (acquired, held, lost, held_after, released)"
    by (cases "pu_lease pu") auto
  let ?limits = "\<lparr>pl_parent_hydrated_bytes = n, pl_max_pack_bytes = hy_max_pack_bytes (pu_hydration pu),
     pl_max_repo_bytes = hy_max_repo_bytes (pu_hydration pu)\<rparr>"
  let ?p = "cas_publish env ws (pu_community pu) (pu_owner pu) (pu_repo pu) parent ?limits"
  have "git_safe env tags promise B ?p
      (\<lambda>r b'. \<forall>m x. r = Ok (m, x) \<longrightarrow> committed env promise b' (push_key pu) ws parent m x) b"
    unfolding push_key_def promise_def
    by (rule cas_publish_safe) (use inv h git loaded in \<open>simp_all add: promise_def push_key_def\<close>)
  note run = pushes.safe_bounded [OF this, of lost]
  have answer: "push_done env promise pu (case out of
                    None \<Rightarrow> (503, ''community write lease lost'')
                  | Some r \<Rightarrow>
                      if \<not> held_after then (503, ''community write lease lost'')
                      else
                        (case r of
                           Inl e \<Rightarrow> cas_error_to_response e
                         | Inr (m, mkey) \<Rightarrow>
                             if \<not> released then (503, ''community write lease lost during publication'')
                             else if \<not> ref_state_published pu name parent m mkey
                             then (500, ''push committed but ref-state publication failed; retry'')
                             else (200, po_stdout pack))) b1"
    if "\<forall>a. out = Some a \<longrightarrow> (\<forall>m x. a = Ok (m, x) \<longrightarrow> committed env promise b1 (push_key pu) ws parent m x)"
      and "suffix b b1" for out b1
  proof -
    have "push_done env promise pu (200, stdout) b1" if "committed env promise b1 (push_key pu) ws parent m x" for m x
      by (rule push_done_ok [OF loaded_from_mono [OF pm \<open>suffix b b1\<close> loaded] receive]) (use that in blast)
    with that pk(1) show ?thesis
      by (auto simp: push_done_error cas_error_to_response_def split: option.splits sum.splits cas_error.splits)
  qed
  show ?thesis
  proof (cases "po_ok pack")
    case False
    then show ?thesis using loaded receive pk by (auto simp: finalize_push_def push_done_def)
  next
    case True
    have "git_safe env tags promise B (bind_prog (bounded_prog lost ?p) (\<lambda>out. Done (case out of
                    None \<Rightarrow> (503, ''community write lease lost'')
                  | Some r \<Rightarrow>
                      if \<not> held_after then (503, ''community write lease lost'')
                      else
                        (case r of
                           Inl e \<Rightarrow> cas_error_to_response e
                         | Inr (m, mkey) \<Rightarrow>
                             if \<not> released then (503, ''community write lease lost during publication'')
                             else if \<not> ref_state_published pu name parent m mkey
                             then (500, ''push committed but ref-state publication failed; retry'')
                             else (200, po_stdout pack))))) (push_done env promise pu) b"
      by (rule pushes.safe_seq [OF inv run]) (use answer in auto)
    then show ?thesis using True by (simp add: finalize_push_def lease Let_def) (simp add: push_done_def)
  qed
qed

definition push_trusted :: "(string \<Rightarrow> string set) \<Rightarrow> (string \<Rightarrow> string set) \<Rightarrow> push \<Rightarrow> bool" where
  "push_trusted reach objs pu \<longleftrightarrow>
     (\<forall>parent exit_ok stdout ws. pu_receive pu parent = Ok (exit_ok, stdout, ws) \<longrightarrow> git_covers reach objs ws)"

lemma receive_pack_safe:
  fixes trusted reach objs
  defines "promise \<equiv> closed_manifest trusted reach objs"
  assumes inv: "bucket_ok env tags promise B b" and h: "hashes_ok env tags B"
    and git: "trusted \<longrightarrow> push_trusted reach objs pu"
  shows "git_safe env tags promise B (receive_pack env pu) (push_done env promise pu) b"
proof (cases "validate_repo_id (pu_owner pu) (pu_repo pu)")
  case (Inl e)
  then show ?thesis by (auto simp: receive_pack_def push_done_def validate_repo_id_def Let_def split: if_splits)
next
  case (Inr name)
  have pm: "promise_mono promise" by (simp add: promise_def)
  have hy: "git_safe env tags promise B
      (hydrate_for_write env (pu_hydration pu) (pu_community pu) (pu_owner pu) (pu_repo pu))
      (\<lambda>r b'. \<forall>n parent. r = Ok (n, parent) \<longrightarrow> loaded_from env promise b' (push_key pu) parent) b"
    unfolding push_key_def by (rule hydrate_for_write_safe [OF inv h pm])
  have step: "git_safe env tags promise B (case r of
              Inl e \<Rightarrow> Done (hydrate_error_to_response e)
            | Inr (hydrated, parent) \<Rightarrow>
                if \<not> pu_hook_installed pu then Done (500, ''git hook install failed'')
                else
                  (case pu_receive pu parent of
                     Inl e \<Rightarrow> Done (git_failure_response e)
                   | Inr (exit_ok, stdout, ws) \<Rightarrow>
                       (case pack_output_of exit_ok stdout of
                          Inl e \<Rightarrow> Done e
                        | Inr pack \<Rightarrow> finalize_push env pu name pack ws hydrated parent))) (push_done env promise pu) b1"
    if b1: "bucket_ok env tags promise B b1"
      and r: "\<forall>n parent. r = Ok (n, parent) \<longrightarrow> loaded_from env promise b1 (push_key pu) parent" for r b1
  proof (cases r)
    case (Inl e)
    then show ?thesis by (simp add: push_done_def hydrate_error_to_response_def split: hydrate_error.splits)
  next
    case ok: (Inr x)
    obtain n parent where x: "x = (n, parent)" by (cases x)
    show ?thesis
    proof (cases "pu_receive pu parent")
      case (Inl e)
      then show ?thesis by (cases e) (simp_all add: ok x push_done_def)
    next
      case (Inr y)
      obtain exit_ok stdout ws where y: "y = (exit_ok, stdout, ws)" by (cases y)
      have "git_safe env tags promise B (finalize_push env pu name pack ws n parent) (push_done env promise pu) b1"
        if "pack_output_of exit_ok stdout = Ok pack" for pack
        unfolding promise_def
        by (rule finalize_push_safe [OF _ h _ _ _ that])
          (use b1 r ok x Inr y git in \<open>auto simp: promise_def push_trusted_def\<close>)
      then show ?thesis
        by (auto simp: ok x Inr y push_done_def pack_output_of_def)
    qed
  qed
  have "git_safe env tags promise B
      (bind_prog (hydrate_for_write env (pu_hydration pu) (pu_community pu) (pu_owner pu) (pu_repo pu)) (\<lambda>h.
            case h of
              Inl e \<Rightarrow> Done (hydrate_error_to_response e)
            | Inr (hydrated, parent) \<Rightarrow>
                if \<not> pu_hook_installed pu then Done (500, ''git hook install failed'')
                else
                  (case pu_receive pu parent of
                     Inl e \<Rightarrow> Done (git_failure_response e)
                   | Inr (exit_ok, stdout, ws) \<Rightarrow>
                       (case pack_output_of exit_ok stdout of
                          Inl e \<Rightarrow> Done e
                        | Inr pack \<Rightarrow> finalize_push env pu name pack ws hydrated parent)))) (push_done env promise pu) b"
    by (rule pushes.safe_seq [OF inv hy]) (use step in blast)
  then show ?thesis by (simp add: receive_pack_def Inr push_done_def)
qed

end
