(* ===== verification/Git_History.thy ===== *)
theory Git_History
  imports Git_Commits
begin

text \<open>
  What concurrent pushes leave in the bucket, over every run of the push handler: the history of a
  repository is a chain without repetition, an acknowledged push is in it, the packs of a published
  manifest hold all its refs need, and a reader that is served gets the newest state. The runs
  start from an empty bucket; each process works on the whole handler \<open>git_receive_pack\<close> from the
  name check to the answer.
\<close>

section \<open>The history of a repository\<close>

text \<open>The digests a pointer has held, the newest first, and the manifest stored under a digest.\<close>

definition pointer_log :: "bucket \<Rightarrow> string \<Rightarrow> string list" where
  "pointer_log b k = map (\<lambda>(_, v, _). v) (filter (\<lambda>(j, _, _). j = k) b)"

definition stored_manifest :: "git_codec \<Rightarrow> bucket \<Rightarrow> string \<Rightarrow> manifest option" where
  "stored_manifest env b d =
     (case map_of b (manifest_key d) of
        None \<Rightarrow> None
      | Some (v, _) \<Rightarrow>
          if git_sha256_hex env v = d then (case manifest_of_json env v of Inl _ \<Rightarrow> None | Inr m \<Rightarrow> Some m) else None)"

fun linear_history :: "git_codec \<Rightarrow> bucket \<Rightarrow> string list \<Rightarrow> bool" where
  "linear_history env b [] = True"
| "linear_history env b (d # ds) =
     ((case stored_manifest env b d of
         None \<Rightarrow> False
       | Some m \<Rightarrow> manifest_validate m = Ok () \<and> mf_parent m = (case ds of [] \<Rightarrow> None | p # _ \<Rightarrow> Some p)) \<and>
      linear_history env b ds)"

definition written :: "(bucket, push, s3_request, s3_reply, http_answer) system \<Rightarrow> string set" where
  "written s = set (List.map_filter (\<lambda>op. case op of PutObject k v c \<Rightarrow> Some v | _ \<Rightarrow> None) (served s))"

abbreviation push_runs ::
  "(push \<Rightarrow> bool) \<Rightarrow> git_codec \<Rightarrow> (string \<Rightarrow> nat \<Rightarrow> string) \<Rightarrow>
   (bucket, push, s3_request, s3_reply, http_answer) system \<Rightarrow> bool" where
  "push_runs admitted env tags \<equiv>
     reachable (system_start (\<lambda>b. b = [])) (system_step admitted (receive_pack env) (s3_serve tags))"

lemma written_admissible: "\<forall>op \<in> set (served s). admissible (written s) op"
  by (force simp: written_def admissible_def map_filter_def split: s3_request.splits)

lemma push_runs_ok:
  fixes trusted reach objs
  defines "promise \<equiv> closed_manifest trusted reach objs"
  assumes "push_runs admitted env tags s" and "hashes_ok env tags (written s)"
    and "\<And>pu. admitted pu \<Longrightarrow> trusted \<Longrightarrow> push_trusted reach objs pu"
  shows "bucket_ok env tags promise (written s) (world s)"
    and "(pu, Done a) \<in> set (sessions s) \<Longrightarrow> push_done env promise pu a (world s)"
proof -
  have pm: "promise_mono promise" by (simp add: promise_def)
  have code: "admitted q \<Longrightarrow> bucket_ok env tags promise (written s) w \<Longrightarrow>
      git_safe env tags promise (written s) (receive_pack env q) (push_done env promise q) w" for q w
    unfolding promise_def by (rule receive_pack_safe) (use assms(3,4) in auto)
  note run = pushes.reachable_finished [OF assms(2) _ push_done_stable [OF pm] code written_admissible]
  show "bucket_ok env tags promise (written s) (world s)" by (rule run) simp_all
  show "(pu, Done a) \<in> set (sessions s) \<Longrightarrow> push_done env promise pu a (world s)" by (rule run) simp_all
qed

lemma stored_manifest_at:
  assumes "bucket_ok env tags promise B b" and "manifest_at env b d m"
  shows "stored_manifest env b d = Some m"
  using assms(2) object_lookup [OF assms(1)] by (fastforce simp: manifest_at_def stored_manifest_def)

lemma stored_manifest_mono:
  assumes "bucket_ok env tags promise B b" and "suffix a b" and "stored_manifest env a d = Some m"
  shows "stored_manifest env b d = Some m"
proof -
  from assms(3) obtain v t where "map_of a (manifest_key d) = Some (v, t)" "git_sha256_hex env v = d" "manifest_of_json env v = Inr m"
    by (auto simp: stored_manifest_def split: option.splits if_splits sum.splits)
  then have "manifest_at env a d m" by (auto simp: manifest_at_def dest: map_of_SomeD)
  then show ?thesis using stored_manifest_at [OF assms(1)] manifest_at_mono assms(2) by blast
qed

lemma linear_history_mono:
  assumes "bucket_ok env tags promise B b" and "suffix a b"
  shows "linear_history env a ds \<Longrightarrow> linear_history env b ds"
  by (induction ds) (auto split: option.splits dest: stored_manifest_mono [OF assms])

lemma map_of_pointer_log:
  "map_option fst (map_of b k) = (case pointer_log b k of [] \<Rightarrow> None | d # _ \<Rightarrow> Some d)"
  by (induction b) (auto simp: pointer_log_def)

lemma bucket_linear:
  assumes "is_pointer_key k"
  shows "bucket_ok env tags promise B b \<Longrightarrow> promise_mono promise \<Longrightarrow> linear_history env b (pointer_log b k)"
proof (induction env tags promise B b rule: bucket_ok.induct)
  case (2 env tags promise B j v t b)
  let ?b = "(j, v, t) # b"
  have sb: "suffix b ?b" by (simp add: suffix_def)
  have IH: "linear_history env ?b (pointer_log b k)"
    by (rule linear_history_mono [OF 2(2) sb]) (use 2 in simp)
  show ?case
  proof (cases "j = k")
    case True
    then obtain m where m: "good_manifest env promise b v m" "mf_parent m = map_option fst (map_of b k)"
      using 2(2) assms by (auto simp: pointer_ok_def)
    then have "manifest_at env ?b v m" by (auto simp: good_manifest_def intro: manifest_at_mono [OF _ sb])
    then have "stored_manifest env ?b v = Some m" by (rule stored_manifest_at [OF 2(2)])
    moreover have "manifest_validate m = Inr ()" using m by (simp add: good_manifest_def manifest_validate_Ok)
    ultimately show ?thesis using IH m(2) True by (simp add: pointer_log_def map_of_pointer_log)
  qed (use IH in \<open>simp add: pointer_log_def\<close>)
qed (simp add: pointer_log_def)

text \<open>A history is determined by its newest digest, so no digest occurs twice.\<close>

lemma linear_history_determined:
  "linear_history env b (d # ds) \<Longrightarrow> linear_history env b (d # es) \<Longrightarrow> ds = es"
proof (induction ds arbitrary: d es)
  case Nil
  then show ?case by (auto split: option.splits list.splits)
next
  case (Cons p ds)
  then obtain es' where "es = p # es'" by (auto split: option.splits list.splits)
  moreover have "linear_history env b (p # ds)" "linear_history env b es" using Cons.prems by simp_all
  ultimately show ?case using Cons.IH [of p es'] by blast
qed

lemma linear_history_append: "linear_history env b (ds @ es) \<Longrightarrow> linear_history env b es"
  by (induction ds) auto

lemma linear_history_distinct:
  "linear_history env b ds \<Longrightarrow> distinct ds"
proof (induction ds)
  case (Cons d ds)
  have "d \<notin> set ds"
  proof
    assume "d \<in> set ds"
    then obtain xs ys where ds: "ds = xs @ d # ys" by (meson split_list)
    then have "linear_history env b (d # ys)" using Cons.prems linear_history_append [of env b xs "d # ys"] by simp
    then have "ds = ys" by (rule linear_history_determined [OF Cons.prems])
    with ds show False by simp
  qed
  with Cons show ?case by simp
qed simp

text \<open>
  C1: however the requests of concurrent pushes interleave, whichever replies are lost and
  whichever pushes are dropped half-way, the states published for a repository form one line: each
  published digest names a stored, valid manifest whose parent is the digest published before it,
  the first one has none, and no state is published twice, even when entity tags depend on the
  content only.
\<close>

theorem git_history_linear:
  assumes "push_runs (\<lambda>_. True) env tags s" and "hashes_ok env tags (written s)"
  shows "linear_history env (world s) (pointer_log (world s) (pointer_key c ow repo)) \<and>
         distinct (pointer_log (world s) (pointer_key c ow repo))"
proof -
  have "bucket_ok env tags (closed_manifest False (\<lambda>_. {}) (\<lambda>_. {})) (written s) (world s)"
    by (rule push_runs_ok [OF assms]) simp
  then have "linear_history env (world s) (pointer_log (world s) (pointer_key c ow repo))"
    by (rule bucket_linear [rotated]) simp_all
  then show ?thesis using linear_history_distinct by blast
qed


section \<open>Acknowledged pushes\<close>

lemma good_manifest_stored:
  "bucket_ok env tags promise B b \<Longrightarrow> good_manifest env promise b d m \<Longrightarrow> stored_manifest env b d = Some m"
  by (simp add: good_manifest_def stored_manifest_at)

lemma pointer_log_iff: "d \<in> set (pointer_log b k) \<longleftrightarrow> (\<exists>t. (k, d, t) \<in> set b)"
  by (force simp: pointer_log_def)

text \<open>
  C2: in every run of concurrent pushes, a push that is answered 200 had its workspace hydrated from a
  published state of the repository or from nothing, and the answer is the report git left there. When moreover git exited
  with success and that report rejects nothing, a published manifest has exactly the refs of that workspace and that
  state as its parent. So with the linear history no push that git accepted and the relay answered 200 is lost to a concurrent
  one. Of the other answers 200, which pass on a failed or a rejecting git, nothing is claimed here.
\<close>

theorem push_success_durable:
  assumes "push_runs (\<lambda>_. True) env tags s" and "hashes_ok env tags (written s)"
    and "(pu, Done (200, out)) \<in> set (sessions s)"
  shows "\<exists>parent exit_ok ws.
    (parent = parent_fresh \<or>
       (\<exists>t d m. parent = from_loaded t d m \<and> d \<in> set (pointer_log (world s) (push_key pu)) \<and>
          stored_manifest env (world s) d = Some m)) \<and>
    pu_receive pu parent = Ok (exit_ok, out, ws) \<and>
    (exit_ok \<and> \<not> receive_pack_report_rejected out \<longrightarrow>
       (\<exists>d m observed. d \<in> set (pointer_log (world s) (push_key pu)) \<and> stored_manifest env (world s) d = Some m \<and>
          mf_parent m = ps_parent_digest parent \<and> snapshot_workspace_state ws = Ok (mf_refs m, observed) \<and>
          mf_head m = resolve_published_head (mf_refs m) observed (mf_head (ps_parent parent))))"
proof -
  let ?promise = "closed_manifest False (\<lambda>_. {}) (\<lambda>_. {})"
  have ok: "bucket_ok env tags ?promise (written s) (world s)"
    by (rule push_runs_ok [OF assms(1,2)]) simp
  have "push_done env ?promise pu (200, out) (world s)"
    by (rule push_runs_ok(2) [OF assms(1,2) _ assms(3)]) simp
  then obtain parent exit_ok ws where
    p: "loaded_from env ?promise (world s) (push_key pu) parent" "pu_receive pu parent = Ok (exit_ok, out, ws)"
    and c: "exit_ok \<and> \<not> receive_pack_report_rejected out \<Longrightarrow> \<exists>m x. committed env ?promise (world s) (push_key pu) ws parent m x"
    unfolding push_done_def fst_conv snd_conv by blast
  have "\<exists>d m observed. d \<in> set (pointer_log (world s) (push_key pu)) \<and> stored_manifest env (world s) d = Some m \<and>
      mf_parent m = ps_parent_digest parent \<and> snapshot_workspace_state ws = Ok (mf_refs m, observed) \<and>
      mf_head m = resolve_published_head (mf_refs m) observed (mf_head (ps_parent parent))"
    if "exit_ok \<and> \<not> receive_pack_report_rejected out"
    using c [OF that] good_manifest_stored [OF ok] unfolding committed_def published_def pointer_log_iff by blast
  moreover have "parent = parent_fresh \<or>
       (\<exists>t d m. parent = from_loaded t d m \<and> d \<in> set (pointer_log (world s) (push_key pu)) \<and>
          stored_manifest env (world s) d = Some m)"
    using p(1) good_manifest_stored [OF ok] unfolding loaded_from_def pointer_log_iff by blast
  ultimately show ?thesis using p(2) by blast
qed

section \<open>Complete repositories\<close>

text \<open>
  C3: when \<open>git pack-objects\<close> packs what the given revisions need, every published manifest is
  complete: the packs it names are stored and together hold every object its refs reach. This
  includes manifests whose packs were compacted, and delta packs on top of a parent that was
  itself compacted.
\<close>

theorem published_closed:
  assumes "push_runs (push_trusted reach objs) env tags s" and "hashes_ok env tags (written s)"
    and "d \<in> set (pointer_log (world s) (pointer_key c ow repo))"
  shows "\<exists>m. stored_manifest env (world s) d = Some m \<and> packs_stored env (world s) (mf_packs m) \<and>
     reach_refs reach (mf_refs m) \<subseteq> pack_cover objs (world s) (mf_packs m)"
proof -
  let ?promise = "closed_manifest True reach objs"
  have ok: "bucket_ok env tags ?promise (written s) (world s)"
    by (rule push_runs_ok [OF assms(1,2)]) simp
  from assms(3) obtain t where "(pointer_key c ow repo, d, t) \<in> set (world s)" by (auto simp: pointer_log_iff)
  then obtain m where m: "good_manifest env ?promise (world s) d m"
    using published_good [OF ok] by (metis closed_manifest_mono key_prefixes(4))
  then show ?thesis using good_manifest_stored [OF ok m] by (auto simp: good_manifest_def closed_manifest_def)
qed


section \<open>Readers\<close>

text \<open>Programs that are served by the bucket, alone.\<close>

abbreviation served_alone :: "(string \<Rightarrow> nat \<Rightarrow> string) \<Rightarrow> 'a store_prog \<Rightarrow> bucket \<Rightarrow> 'a \<times> bucket" where
  "served_alone tags p b \<equiv> run_alone p (s3_exec tags) b"

lemma alone_try:
  "served_alone tags p b = (r, b') \<Longrightarrow>
   served_alone tags (try_prog p f) b = (case r of Inl e \<Rightarrow> (Inl e, b') | Inr a \<Rightarrow> served_alone tags (f a) b')"
  by (simp add: try_prog_def run_alone_bind split: sum.splits)

lemma alone_map_err:
  "served_alone tags p b = (r, b') \<Longrightarrow>
   served_alone tags (map_err g p) b = (case r of Inl e \<Rightarrow> Inl (g e) | Inr a \<Rightarrow> Inr a, b')"
  by (simp add: map_err_def run_alone_bind)

lemma alone_reads: "reads_only p \<Longrightarrow> snd (served_alone tags p b) = b"
proof (induction p arbitrary: b)
  case (Request rq k)
  then have "snd (s3_exec tags rq b) = b" by (cases rq) (auto split: option.splits)
  with Request show ?case by simp
qed simp

lemma alone_get_pointer: "map_of b k = Some (v, t) \<Longrightarrow> served_alone tags (get_pointer k) b = (Ok (Some (t, v)), b)"
  by (simp add: get_pointer_def)

lemma alone_get_limited:
  "map_of b k = Some (v, t) \<Longrightarrow> length v \<le> n \<Longrightarrow> served_alone tags (get_limited k n) b = (Ok v, b)"
  by (simp add: get_limited_def is_success_def u64_of_i64_def try_prog_def store_get_def)

lemma alone_hydrate_get:
  assumes "map_of b k = Some (v, t)" and "length v \<le> n" and "git_sha256_hex env v = d"
  shows "served_alone tags (hydrate_get_verified_limited env k d n) b = (Ok v, b)"
  unfolding hydrate_get_verified_limited_def get_verified_limited_def run_alone_bind
  by (simp add: alone_try [OF alone_get_limited [OF assms(1,2)]] verify_digest_def assms(3))

text \<open>The bytes of the packs a manifest names.\<close>

definition pack_bytes :: "bucket \<Rightarrow> string \<Rightarrow> nat" where
  "pack_bytes b k = (case map_of b k of None \<Rightarrow> 0 | Some (v, _) \<Rightarrow> length v)"

definition hydration_works :: "hydration \<Rightarrow> bool" where
  "hydration_works hy \<longleftrightarrow> hy_init hy = Ok () \<and> (\<forall>d. hy_cached hy d = None) \<and> (\<forall>d i. hy_index hy d i = Ok ()) \<and>
     (\<forall>d. hy_install hy d = Ok ()) \<and> hy_write hy = Ok ()"

lemma alone_materialize_pack:
  assumes "bucket_ok env tags promise B b" and "packs_stored env b [k]" and "is_pack_key k" and "hydration_works hy"
    and "pack_bytes b k \<le> hy_max_pack_bytes hy"
  shows "\<exists>d. strip_prefix ''packs/'' k = Some d \<and>
    served_alone tags (materialize_pack env hy k d) b = (Ok (pack_bytes b k), b)"
proof -
  from assms(2) obtain v t where v: "(k, v, t) \<in> set b" "k = content_key env ''packs'' v" by (auto simp: packs_stored_def)
  let ?d = "git_sha256_hex env v"
  have look: "map_of b k = Some (v, t)" using object_lookup [OF assms(1) v(1)] v(2) by simp
  have k: "strip_prefix ''packs/'' k = Some ?d" by (simp add: v(2) content_key_eq strip_prefix_def)
  with assms(3) have hex: "length ?d = 64 \<and> list_all is_ascii_hexdigit ?d"
    by (auto simp: is_pack_key_def v(2) content_key_eq digest_hexdigits split: option.splits)
  have get: "served_alone tags (hydrate_get_verified_limited env k ?d (hy_max_pack_bytes hy)) b = (Ok v, b)"
    by (rule alone_hydrate_get [OF look]) (use assms(5) look in \<open>simp_all add: pack_bytes_def\<close>)
  have "snd (served_alone tags (get_idx env ?d n) b) = b" for n by (rule alone_reads) simp
  then have idx: "served_alone tags (install_or_generate_idx env hy ?d n) b = (Ok (), b)" for n
    using assms(4) by (simp add: install_or_generate_idx_def run_alone_bind hydration_works_def split: sum.splits)
  have "served_alone tags (materialize_pack env hy k ?d) b = (Ok (pack_bytes b k), b)"
    using hex assms(4)
    by (simp add: materialize_pack_def alone_try [OF get] alone_try [OF idx] hydration_works_def pack_bytes_def look)
  with k show ?thesis by blast
qed

lemma alone_materialize_packs:
  assumes "bucket_ok env tags promise B b" and "packs_stored env b ks" and "\<forall>k \<in> set ks. is_pack_key k" and "hydration_works hy"
    and "\<forall>k \<in> set ks. pack_bytes b k \<le> hy_max_pack_bytes hy"
    and "n + sum_list (map (pack_bytes b) ks) \<le> hy_max_repo_bytes hy" and "hy_max_repo_bytes hy \<le> U64_MAX"
  shows "served_alone tags (materialize_packs env hy n ks) b = (Ok (n + sum_list (map (pack_bytes b) ks)), b)"
  using assms(2-6)
proof (induction ks arbitrary: n)
  case (Cons k ks)
  have "packs_stored env b [k]" "packs_stored env b ks" using Cons.prems(1) by (auto simp: packs_stored_def)
  then have "\<exists>d. strip_prefix ''packs/'' k = Some d \<and>
      served_alone tags (materialize_pack env hy k d) b = (Ok (pack_bytes b k), b)"
    by (intro alone_materialize_pack [OF assms(1)]) (use Cons.prems in auto)
  then obtain d where d: "strip_prefix ''packs/'' k = Some d"
    "served_alone tags (materialize_pack env hy k d) b = (Ok (pack_bytes b k), b)"
    by blast
  have "served_alone tags (materialize_packs env hy (n + pack_bytes b k) ks) b =
      (Ok (n + pack_bytes b k + sum_list (map (pack_bytes b) ks)), b)"
    by (rule Cons.IH) (use Cons.prems \<open>packs_stored env b ks\<close> in auto)
  then show ?case
    using Cons.prems assms(7) by (simp add: d(1) alone_try [OF d(2)] not_less)
qed simp

lemma check_hydrated_refs_Ok:
  "\<forall>(refname, oid) \<in> set rs. is_safe_refname refname \<and> is_hex_oid oid \<Longrightarrow> check_hydrated_refs env rs = Ok ()"
  by (induction env rs rule: check_hydrated_refs.induct) auto

lemma alone_load_pointer:
  assumes b: "bucket_ok env tags promise B b" and h: "hashes_ok env tags B" and pm: "promise_mono promise"
    and cur: "map_of b (pointer_key c ow repo) = Some (d, t)"
    and small: "\<And>v t. map_of b (manifest_key d) = Some (v, t) \<Longrightarrow> length v \<le> MAX_MANIFEST_BYTES"
  obtains m where "good_manifest env promise b d m"
    "served_alone tags (load_pointer env c ow repo) b = (Ok (Some (t, d, m)), b)"
proof -
  have "(pointer_key c ow repo, d, t) \<in> set b" using cur by (rule map_of_SomeD)
  then obtain m where m: "good_manifest env promise b d m" "is_manifest_digest d"
    using published_good [OF b _ _ pm] h by (metis key_prefixes(4))
  then obtain v u where v: "map_of b (manifest_key d) = Some (v, u)" "git_sha256_hex env v = d" "manifest_of_json env v = Ok m"
    using object_lookup [OF b] by (fastforce simp: good_manifest_def manifest_at_def)
  have get: "served_alone tags (hydrate_get_verified_limited env (manifest_key d) d MAX_MANIFEST_BYTES) b = (Ok v, b)"
    by (rule alone_hydrate_get [OF v(1) small [OF v(1)] v(2)])
  have "manifest_validate m = Inr ()" using m(1) by (simp add: good_manifest_def manifest_validate_Ok)
  then have "parse_loaded env t d v = Ok (Some (t, d, m))"
    using m(1) v(3) by (simp add: parse_loaded_def manifest_from_bytes_def good_manifest_def)
  then have "served_alone tags (load_pointer env c ow repo) b = (Ok (Some (t, d, m)), b)"
    unfolding load_pointer_def
    by (simp add: alone_try [OF alone_map_err [OF alone_get_pointer [OF cur]]] pointer_digest_id [OF m(2)] alone_try [OF get])
  with m(1) show ?thesis by (rule that)
qed

text \<open>
  C39: whatever pushes ran before, a reader whose requests are served with nothing in between gets the state the
  pointer names: its manifest, with all its packs fetched and verified, and the number of bytes fetched. The reader's pack
  cache is empty, its file system and git do not fail, and the manifest, each pack and all packs together are within the
  limits of the reader. In particular no push, finished or dropped half-way, leaves a repository that cannot be read.
\<close>

theorem published_readable:
  assumes "push_runs (\<lambda>_. True) env tags s" and "hashes_ok env tags (written s)" and "hydration_works hy"
    and "map_of (world s) (pointer_key c ow repo) = Some (d, t)"
    and "stored_manifest env (world s) d = Some m"
    and "pack_bytes (world s) (manifest_key d) \<le> MAX_MANIFEST_BYTES"
    and "\<forall>k \<in> set (mf_packs m). pack_bytes (world s) k \<le> hy_max_pack_bytes hy"
    and "sum_list (map (pack_bytes (world s)) (mf_packs m)) \<le> hy_max_repo_bytes hy" and "hy_max_repo_bytes hy \<le> U64_MAX"
  shows "served_alone tags (hydrate_for_read env hy c ow repo) (world s) =
    (Ok (Some (m, sum_list (map (pack_bytes (world s)) (mf_packs m)))), world s)"
proof -
  let ?promise = "closed_manifest False (\<lambda>_. {}) (\<lambda>_. {})" and ?n = "sum_list (map (pack_bytes (world s)) (mf_packs m))"
  have ok: "bucket_ok env tags ?promise (written s) (world s)"
    by (rule push_runs_ok [OF assms(1,2)]) simp
  obtain m' where m': "good_manifest env ?promise (world s) d m'"
    "served_alone tags (load_pointer env c ow repo) (world s) = (Ok (Some (t, d, m')), world s)"
    by (rule alone_load_pointer [OF ok assms(2) closed_manifest_mono assms(4)]) (use assms(6) in \<open>simp add: pack_bytes_def\<close>)
  with good_manifest_stored [OF ok m'(1)] assms(5) have "m' = m" by simp
  then have good: "packs_stored env (world s) (mf_packs m)" "manifest_valid m"
    using m'(1) by (auto simp: good_manifest_def)
  have "served_alone tags (materialize_packs env hy 0 (mf_packs m)) (world s) = (Ok (0 + ?n), world s)"
    by (rule alone_materialize_packs [OF ok good(1)]) (use good(2) assms(3,7,8,9) in \<open>auto simp: manifest_valid_def\<close>)
  moreover have "check_hydrated_refs env (mf_refs m) = Ok ()" "is_safe_refname (mf_head m)"
    using good(2) by (auto simp: manifest_valid_def intro: check_hydrated_refs_Ok)
  ultimately have "served_alone tags (materialize_manifest env hy m) (world s) = (Ok ?n, world s)"
    using assms(3) by (simp add: materialize_manifest_def alone_try hydration_works_def)
  then show ?thesis
    unfolding hydrate_for_read_def using m'(2) \<open>m' = m\<close> by (simp add: alone_try)
qed


section \<open>A rejected ref\<close>

definition sideband_report :: "string list \<Rightarrow> string" where
  "sideband_report ls = pkt_line ([CHR 0x01] @ concat (map pkt_line ls) @ ''0000'') @ ''0000''"

lemma load_pointer_reads [simp]: "reads_only (load_pointer env c ow repo)"
  by (auto simp: load_pointer_def map_err_def split: option.splits sum.splits)

lemma hydrate_for_write_reads [simp]: "reads_only (hydrate_for_write env hy c ow repo)"
  by (auto simp: hydrate_for_write_def split: option.splits)

text \<open>
  C36: the answer 200 alone does not say that anything was published. Take a push for which git, whatever state
  it starts from, exits with an error or leaves a report with a rejected ref. Then the push sends the store no write, for any
  answers of the store and so among any other pushes. Served alone, in any state of the bucket from which the workspace
  can be hydrated, with a valid name, a permit and the hook in place and a report within the limit, it is answered 200
  with git's report unchanged and the bucket stays as it was: the refs the report says are accepted are dropped with
  the workspace too.
\<close>

theorem partial_push_dropped:
  assumes "\<And>parent exit_ok out ws. pu_receive pu parent = Ok (exit_ok, out, ws) \<Longrightarrow> \<not> exit_ok \<or> receive_pack_report_rejected out"
  shows "reads_only (receive_pack env pu) \<and>
    (\<forall>b name n parent exit_ok out ws.
       validate_repo_id (pu_owner pu) (pu_repo pu) = Ok name \<and> pu_permit pu \<and> pu_hook_installed pu \<and>
       fst (served_alone tags (hydrate_for_write env (pu_hydration pu) (pu_community pu) (pu_owner pu) (pu_repo pu)) b) = Ok (n, parent) \<and>
       pu_receive pu parent = Ok (exit_ok, out, ws) \<and> length out \<le> RECEIVE_PACK_MAX_OUTPUT_BYTES \<longrightarrow>
       served_alone tags (receive_pack env pu) b = ((200, out), b))"
proof (intro conjI allI impI)
  have no: "finalize_push env pu name pack ws n parent = Done (200, po_stdout pack)"
    if "pu_receive pu parent = Ok (exit_ok, out, ws)" "pack_output_of exit_ok out = Ok pack" for name pack ws n parent exit_ok out
    using assms [OF that(1)] that(2) by (auto simp: finalize_push_def pack_output_of_def split: if_splits)
  show "reads_only (receive_pack env pu)"
    by (auto simp: receive_pack_def no split: sum.splits prod.splits)
  fix b name n parent exit_ok out ws
  let ?h = "hydrate_for_write env (pu_hydration pu) (pu_community pu) (pu_owner pu) (pu_repo pu)"
  assume *: "validate_repo_id (pu_owner pu) (pu_repo pu) = Ok name \<and> pu_permit pu \<and> pu_hook_installed pu \<and>
       fst (served_alone tags ?h b) = Ok (n, parent) \<and>
       pu_receive pu parent = Ok (exit_ok, out, ws) \<and> length out \<le> RECEIVE_PACK_MAX_OUTPUT_BYTES"
  have "served_alone tags ?h b = (Ok (n, parent), b)" using * alone_reads [of ?h tags b] by (simp add: prod_eq_iff)
  moreover have "pack_output_of exit_ok out = Ok \<lparr>po_stdout = out, po_ok = False\<rparr>" using * assms by (auto simp: pack_output_of_def)
  ultimately show "served_alone tags (receive_pack env pu) b = ((200, out), b)"
    using * no by (simp add: receive_pack_def run_alone_bind)
qed

section \<open>Concrete runs\<close>

definition sample_oid :: "char \<Rightarrow> string" where "sample_oid c = replicate 40 c"
definition sample_digest :: "char \<Rightarrow> string" where "sample_digest c = replicate 64 c"

definition pack_named :: "char \<Rightarrow> string" where "pack_named c = ''packs/'' @ sample_digest c"
definition idx_named :: "char \<Rightarrow> string" where "idx_named c = ''idx/'' @ sample_digest c"
definition sample_pointer :: string where "sample_pointer = pointer_key ''c'' (replicate 64 (CHR ''f'')) ''r.git''"

definition sample_manifest :: "char \<Rightarrow> string list \<Rightarrow> string option \<Rightarrow> manifest" where
  "sample_manifest c packs parent = \<lparr>mf_version = 1, mf_head = ''refs/heads/main'',
     mf_refs = [(''refs/heads/main'', sample_oid c)], mf_packs = packs, mf_parent = parent\<rparr>"

definition manifest_a :: manifest where "manifest_a = sample_manifest (CHR ''a'') [pack_named (CHR ''0'')] None"
definition manifest_c :: manifest where
  "manifest_c = sample_manifest (CHR ''c'') [pack_named (CHR ''0''), pack_named (CHR ''2'')]
     (Some (sample_digest (CHR ''a'')))"

text \<open>A codec that knows the bodies of the run.\<close>

definition sample_sha :: "string \<Rightarrow> string" where
  "sample_sha v = sample_digest
     (case map_of [(''PA'', CHR ''0''), (''PC'', CHR ''2''), (''A'', CHR ''a''), (''C'', CHR ''c''),
                   (sample_digest (CHR ''a''), CHR ''3''), (sample_digest (CHR ''c''), CHR ''5'')] v
      of Some c \<Rightarrow> c | None \<Rightarrow> CHR ''6'')"

definition sample_codec :: git_codec where
  "sample_codec = \<lparr>
     manifest_to_json = (\<lambda>m. if m = manifest_a then Ok ''A''
       else if m = manifest_c then Ok ''C'' else Err ''unknown''),
     manifest_of_json = (\<lambda>v. if v = ''A'' then Ok manifest_a
       else if v = ''C'' then Ok manifest_c else Err ''unknown''),
     git_sha256_hex = sample_sha, debug_text = (\<lambda>s. s), utf8_error_text = (\<lambda>s. s), header_ok = (\<lambda>_. True)\<rparr>"

definition sample_tags :: "string \<Rightarrow> nat \<Rightarrow> string" where "sample_tags v n = v"

definition sample_hydration :: hydration where
  "sample_hydration = \<lparr>hy_init = Ok (), hy_cached = (\<lambda>_. None), hy_index = (\<lambda>_ _. Ok ()), hy_install = (\<lambda>_. Ok ()),
     hy_write = Ok (), hy_max_pack_bytes = 1000, hy_max_repo_bytes = 1000\<rparr>"

definition sample_workspace :: "char \<Rightarrow> string \<Rightarrow> workspace" where
  "sample_workspace c pack = \<lparr>ws_has_parent = True,
     ws_for_each_ref = Ok (''refs/heads/main '' @ sample_oid c @ [CHR 0x0A]),
     ws_symbolic_ref = Ok (Some ''refs/heads/main''), ws_pack_objects = (\<lambda>_. Ok pack), ws_index_pack = (\<lambda>_. Ok ''I''),
     ws_permit = Ok (), ws_count_objects = Ok [], ws_compact_objects = (\<lambda>_. Err []), ws_cut = None\<rparr>"

definition sample_push :: "char \<Rightarrow> string \<Rightarrow> push" where
  "sample_push c pack = \<lparr>pu_community = ''c'', pu_owner = replicate 64 (CHR ''f''), pu_repo = ''r.git'', pu_pusher = ''p'',
     pu_hydration = sample_hydration, pu_permit = True, pu_hook_installed = True,
     pu_receive = (\<lambda>_. Ok (True, ''0000'', sample_workspace c pack)), pu_lease = (True, True, None, True, True),
     pu_from_hex = (\<lambda>_. Ok []), pu_sign = (\<lambda>k ts. Ok \<lparr>event_id = [], event_pubkey = [], created_at = 0, event_kind = k, event_tags = ts, content = [], event_sig = []\<rparr>),
     pu_insert = (\<lambda>_. Ok True)\<rparr>"

text \<open>Two pushes to one repository, one after the other.\<close>

definition sample_run :: "(bucket, push, s3_request, s3_reply, http_answer) system" where
  "sample_run = run_session (receive_pack sample_codec) (s3_exec sample_tags)
     (run_session (receive_pack sample_codec) (s3_exec sample_tags) \<lparr>world = [], sessions = [], served = []\<rparr>
        (sample_push (CHR ''a'') ''PA''))
     (sample_push (CHR ''c'') ''PC'')"

lemma manifest_c_neq [simp]: "manifest_c \<noteq> manifest_a"
  by (simp add: manifest_a_def manifest_c_def sample_manifest_def)

lemma sample_push_simps [simp]:
  "pu_community (sample_push c p) = ''c''" "pu_owner (sample_push c p) = replicate 64 (CHR ''f'')" "pu_repo (sample_push c p) = ''r.git''"
  "pu_hydration (sample_push c p) = sample_hydration" "pu_permit (sample_push c p)" "pu_hook_installed (sample_push c p)"
  "pu_receive (sample_push c p) parent = Ok (True, ''0000'', sample_workspace c p)"
  "pu_lease (sample_push c p) = (True, True, None, True, True)"
  by (simp_all add: sample_push_def)

lemma sample_workspace_simps [simp]:
  "ws_has_parent (sample_workspace c p)" "ws_pack_objects (sample_workspace c p) rs = Ok p"
  "ws_index_pack (sample_workspace c p) v = Ok ''I''"
  by (simp_all add: sample_workspace_def)

lemma sample_hydration_simps [simp]:
  "hy_init sample_hydration = Ok ()" "hy_cached sample_hydration d = None" "hy_index sample_hydration d i = Ok ()"
  "hy_install sample_hydration d = Ok ()" "hy_write sample_hydration = Ok ()"
  "hy_max_pack_bytes sample_hydration = 1000" "hy_max_repo_bytes sample_hydration = 1000"
  by (simp_all add: sample_hydration_def)

lemma sample_codec_simps [simp]:
  "git_sha256_hex sample_codec = sample_sha" "header_ok sample_codec s"
  "manifest_of_json sample_codec ''A'' = Ok manifest_a" "manifest_of_json sample_codec ''C'' = Ok manifest_c"
  "manifest_to_json sample_codec manifest_a = Ok ''A''" "manifest_to_json sample_codec manifest_c = Ok ''C''"
  by (simp_all add: sample_codec_def)

lemma sample_shas [simp]:
  "sample_sha ''PA'' = sample_digest (CHR ''0'')" "sample_sha ''PC'' = sample_digest (CHR ''2'')"
  "sample_sha ''A'' = sample_digest (CHR ''a'')" "sample_sha ''C'' = sample_digest (CHR ''c'')"
  by (simp_all add: sample_sha_def sample_digest_def)

lemma sample_output [simp]: "pack_output_of True ''0000'' = Ok \<lparr>po_stdout = ''0000'', po_ok = True\<rparr>"
  using pkt_lines_flush [of "[]"]
  by (simp add: pack_output_of_def receive_pack_report_rejected_def RECEIVE_PACK_MAX_OUTPUT_BYTES_def)

lemma sample_oid_hex: "is_ascii_hexdigit c \<Longrightarrow> list_all is_ascii_hexdigit (sample_oid c) \<and> length (sample_oid c) = 40"
  by (simp add: sample_oid_def list_all_length)

lemma sample_chars [simp]: "is_ascii_hexdigit (CHR ''a'')" "is_ascii_hexdigit (CHR ''c'')"
  by (simp_all add: ascii_class_defs less_eq_char_def)

lemma sample_trim: "str_trim ''refs/heads/main'' = ''refs/heads/main''"
proof -
  have "list_all (\<lambda>w. \<not> is_ascii_lowercase (hd w)) white_space" "list_all (\<lambda>w. \<not> is_ascii_lowercase (hd w)) (map rev white_space)"
    by (simp_all add: white_space_def upt_rec is_ascii_lowercase_def less_eq_char_def)
  moreover have "is_ascii_lowercase (CHR ''r'')" "is_ascii_lowercase (CHR ''n'')"
    by (simp_all add: is_ascii_lowercase_def less_eq_char_def)
  ultimately have "strip_front white_space ''refs/heads/main'' = ''refs/heads/main''"
    "strip_front (map rev white_space) (rev ''refs/heads/main'') = rev ''refs/heads/main''"
    by (force intro!: strip_front_id simp: list_all_iff)+
  then show ?thesis by (simp add: str_trim_def)
qed

lemma sample_snapshot [simp]:
  assumes "is_ascii_hexdigit c"
  shows "snapshot_workspace_state (sample_workspace c p) = Ok ([(''refs/heads/main'', sample_oid c)], ''refs/heads/main'')"
proof -
  let ?l = "''refs/heads/main '' @ sample_oid c"
  note c = sample_oid_hex [OF assms]
  have r: "in_range 0 127 c" "c \<noteq> CHR 0x0A" "c \<noteq> CHR 0x0D" using assms by (auto simp: in_range_def ascii_class_defs less_eq_char_def)
  have n: "CHR 0x0A \<notin> set ?l" "last ?l \<noteq> CHR 0x0D" using r by (simp_all add: sample_oid_def)
  have "split_on (CHR 0x0A) (?l @ [CHR 0x0A]) = [?l, []]"
    using split_on_prefix [OF n(1), of "[]"] by simp
  then have lines: "str_lines (?l @ [CHR 0x0A]) = [?l]" using n(2) by (simp add: str_lines_def strip_cr_def)
  have utf: "utf8_valid (?l @ [CHR 0x0A])"
    by (rule utf8_ascii) (use r in \<open>simp add: sample_oid_def list_all_iff in_range_def\<close>)
  have once: "split_once (CHR '' '') ?l = Some (''refs/heads/main'', sample_oid c)"
    using split_once_at [of "CHR '' ''" "''refs/heads/main''" "sample_oid c"] by simp
  show ?thesis
    using c lines utf once
    by (simp add: snapshot_workspace_state_def sample_workspace_def sample_trim MAX_REF_SNAPSHOT_BYTES_def MAX_MANIFEST_REFS_def)
qed

lemma sample_digest_ok [simp]: "digest_char c \<Longrightarrow> is_manifest_digest (sample_digest c)"
  by (simp add: is_manifest_digest_def sample_digest_def list_all_length)

lemma sample_digits [simp]:
  "digest_char (CHR ''0'')" "digest_char (CHR ''2'')" "digest_char (CHR ''3'')" "digest_char (CHR ''5'')" "digest_char (CHR ''6'')"
  "digest_char (CHR ''a'')" "digest_char (CHR ''c'')"
  by (simp_all add: digest_char_def less_eq_char_def)

lemma main_safe: "is_safe_refname ''refs/heads/main''"
  by (simp add: is_safe_refname_def starts_with_def ends_with_str_def contains_str_def refname_char_def ascii_class_defs
      less_eq_char_def sublist_Cons_right)

lemma sample_manifests_valid: "manifest_valid manifest_a" "manifest_valid manifest_c"
  by (simp_all add: manifest_valid_def manifest_a_def manifest_c_def sample_manifest_def main_safe is_hex_oid_def sample_oid_hex
      is_pack_key_def pack_named_def strip_prefix_def MAX_MANIFEST_PACKS_def MAX_MANIFEST_REFS_def)

lemma sample_valid [simp]: "manifest_validate manifest_a = Ok ()" "manifest_validate manifest_c = Ok ()"
  by (simp_all add: manifest_validate_Ok sample_manifests_valid)

lemma sample_packs_sorted:
  "remdups_adj (sort (mf_packs manifest_a)) = mf_packs manifest_a" "remdups_adj (sort (mf_packs manifest_c)) = mf_packs manifest_c"
  by (simp_all add: manifest_a_def manifest_c_def sample_manifest_def pack_named_def sample_digest_def numeral_eq_Suc less_eq_char_def)

lemma sample_bytes [simp]: "canonical_bytes sample_codec manifest_a = Ok ''A''" "canonical_bytes sample_codec manifest_c = Ok ''C''"
  by (simp_all add: canonical_bytes_def sample_packs_sorted)

lemmas unfold_store =
  receive_pack_def [THEN run_alone_unfold] hydrate_for_write_def [THEN run_alone_unfold] load_pointer_def [THEN run_alone_unfold]
  get_pointer_def [THEN run_alone_unfold] hydrate_get_verified_limited_def [THEN run_alone_unfold]
  get_verified_limited_def [THEN run_alone_unfold] get_limited_def [THEN run_alone_unfold] store_get_def [THEN run_alone_unfold]
  materialize_manifest_def [THEN run_alone_unfold] materialize_packs.simps [THEN run_alone_unfold]
  materialize_pack_def [THEN run_alone_unfold] install_or_generate_idx_def [THEN run_alone_unfold] get_idx_def [THEN run_alone_unfold]

lemmas unfold_publish =
  finalize_push_def [THEN run_alone_unfold] cas_publish_def [THEN run_alone_unfold] cas_publish_inner_def [THEN run_alone_unfold]
  try_compaction_def [THEN run_alone_unfold] delta_manifest_def [THEN run_alone_unfold] put_pack_def [THEN run_alone_unfold]
  put_manifest_def [THEN run_alone_unfold] put_immutable_def [THEN run_alone_unfold] put_create_only_def [THEN run_alone_unfold]
  put_idx_def [THEN run_alone_unfold] write_idx_sidecar_def [THEN run_alone_unfold] publish_manifest_def [THEN run_alone_unfold]
  put_pointer_def [THEN run_alone_unfold] bounded_prog_def [THEN run_alone_unfold]

lemmas weak_congs = run_alone_cong sum.case_cong_weak option.case_cong_weak if_weak_cong prod.case_cong_weak
  precond.case_cong_weak cas_outcome.case_cong_weak

lemma sample_name: "validate_repo_id (replicate 64 (CHR ''f'')) ''r.git'' = Ok ''r''"
  by code_simp


lemma run_alone_store_cases [alone]:
  "run_alone (case pre of IfNoneMatchStar \<Rightarrow> p | IfMatch t \<Rightarrow> f t) serve w =
     (case pre of IfNoneMatchStar \<Rightarrow> run_alone p serve w | IfMatch t \<Rightarrow> run_alone (f t) serve w)"
  "run_alone (case out of Won t \<Rightarrow> g t | LostRace \<Rightarrow> q) serve w' =
     (case out of Won t \<Rightarrow> run_alone (g t) serve w' | LostRace \<Rightarrow> run_alone q serve w')"
  by (simp_all split: precond.splits cas_outcome.splits)

lemma parent_simps [simp]:
  "ps_parent_digest parent_fresh = None" "ps_if_match parent_fresh = None" "mf_packs (ps_parent parent_fresh) = []"
  "mf_refs (ps_parent parent_fresh) = []"
  "ps_parent_digest (from_loaded t d m) = Some d" "ps_if_match (from_loaded t d m) = Some t" "ps_parent (from_loaded t d m) = m"
  by (simp_all add: parent_fresh_def from_loaded_def)

lemma sample_manifest_simps [simp]:
  "mf_version manifest_a = 1" "mf_packs manifest_a = [pack_named (CHR ''0'')]"
  "mf_head manifest_a = ''refs/heads/main''" "mf_refs manifest_a = [(''refs/heads/main'', sample_oid (CHR ''a''))]"
  by (simp_all add: manifest_a_def sample_manifest_def)

lemma sample_capture [simp]:
  "capture_pack (sample_workspace c ''PA'') before [r] 1000 = Ok (Some ''PA'')"
  "capture_pack (sample_workspace c ''PC'') before [r] 1000 = Ok (Some ''PC'')"
  by (simp_all add: capture_pack_def)

lemma sample_head [simp]: "resolve_published_head [(''refs/heads/main'', v)] ''refs/heads/main'' p = ''refs/heads/main''"
  by (simp add: resolve_published_head_def is_branch_def starts_with_def)

lemma sample_digest_eq [simp]: "sample_digest c = sample_digest d \<longleftrightarrow> c = d"
  by (simp add: sample_digest_def)

lemma sample_keys [simp]:
  "digest_char c \<Longrightarrow> digest_from_pack_key (pack_named c) = Ok (sample_digest c)"
  "digest_char c \<Longrightarrow> idx_key_for_pack_digest env (sample_digest c) = Ok (idx_named c)"
  "strip_prefix ''packs/'' (pack_named c) = Some (sample_digest c)"
  "content_key sample_codec ''packs'' ''PA'' = pack_named (CHR ''0'')" "content_key sample_codec ''packs'' ''PC'' = pack_named (CHR ''2'')"
  using digest_hexdigits [of "sample_digest c"]
  by (simp_all add: digest_from_pack_key_def idx_key_for_pack_digest_def strip_prefix_def pack_named_def idx_named_def content_key_eq)

lemma sample_keys_differ [simp]:
  "pack_named c = pack_named d \<longleftrightarrow> c = d" "pack_named c \<noteq> idx_named d" "idx_named c \<noteq> pack_named d"
  "idx_named c = idx_named d \<longleftrightarrow> c = d"
  "pack_named c \<noteq> manifest_key x" "idx_named c \<noteq> manifest_key x" "manifest_key x \<noteq> pack_named c" "manifest_key x \<noteq> idx_named c"
  "sample_pointer \<noteq> pack_named c" "sample_pointer \<noteq> idx_named c" "sample_pointer \<noteq> manifest_key x"
  "pack_named c \<noteq> sample_pointer" "idx_named c \<noteq> sample_pointer" "manifest_key x \<noteq> sample_pointer"
  "manifest_key x = manifest_key y \<longleftrightarrow> x = y"
  by (simp_all add: pack_named_def idx_named_def manifest_key_def sample_pointer_def pointer_key_def)

lemma sample_compose [simp]:
  "compose_after (ps_parent parent_fresh) None ''refs/heads/main'' [(''refs/heads/main'', sample_oid (CHR ''a''))]
     (Some (pack_named (CHR ''0''))) = manifest_a"
  "compose_after manifest_a (Some (sample_digest (CHR ''a''))) ''refs/heads/main'' [(''refs/heads/main'', sample_oid (CHR ''c''))]
     (Some (pack_named (CHR ''2''))) = manifest_c"
  using sample_packs_sorted(2)
  by (simp_all add: compose_after_def manifest_a_def manifest_c_def sample_manifest_def MANIFEST_VERSION_def)

lemma sample_ref_state [simp]: "ref_state_published (sample_push c p) name parent m k"
  by (simp add: ref_state_published_def build_ref_state_event_def sample_push_def Let_def)

lemma sample_parse [simp]:
  "digest_char c \<Longrightarrow> pointer_digest (sample_digest c) = Some (sample_digest c)"
  "parse_loaded sample_codec t d ''A'' = Ok (Some (t, d, manifest_a))"
  "check_hydrated_refs sample_codec [(''refs/heads/main'', sample_oid (CHR ''a''))] = Ok ()"
  "digest_char c \<Longrightarrow> list_all is_ascii_hexdigit (sample_digest c)"
  using digest_hexdigits [of "sample_digest c"]
  by (simp_all add: pointer_digest_id parse_loaded_def manifest_from_bytes_def MANIFEST_VERSION_def main_safe is_hex_oid_def
      sample_oid_hex)

lemma sample_digest_length [simp]: "length (sample_digest c) = 64"
  by (simp add: sample_digest_def)

lemma sample_packs_unfold:
  "run_alone (materialize_packs env hy n (mf_packs manifest_a)) serve w =
   run_alone (materialize_packs env hy n [pack_named (CHR ''0'')]) serve w"
  by simp

lemmas sample_rules = alone unfold_store unfold_publish logged_def [of _ _ "(w, l)" for w l] sample_name content_key_eq(2)
  should_compact_def sample_pointer_def [symmetric] is_success_def put_reply_def classify_cas_def PACK_COMPACTION_THRESHOLD_def
  MAX_MANIFEST_PACKS_def U64_MAX_def sample_tags_def verify_digest_def u64_of_i64_def MAX_MANIFEST_BYTES_def main_safe
  sample_packs_unfold

definition first_bucket :: bucket where
  "first_bucket =
     [(sample_pointer, sample_digest (CHR ''a''), sample_digest (CHR ''a'')), (manifest_key (sample_digest (CHR ''a'')), ''A'', ''A''),
      (idx_named (CHR ''0''), ''I'', ''I''), (pack_named (CHR ''0''), ''PA'', ''PA'')]"

definition first_requests :: "s3_request list" where
  "first_requests =
     [GetObject sample_pointer, PutObject (pack_named (CHR ''0'')) ''PA'' IfNoneMatchStar,
      PutObject (idx_named (CHR ''0'')) ''I'' IfNoneMatchStar,
      PutObject (manifest_key (sample_digest (CHR ''a''))) ''A'' IfNoneMatchStar,
      PutObject sample_pointer (sample_digest (CHR ''a'')) IfNoneMatchStar]"

lemma sample_first:
  "run_alone (receive_pack sample_codec (sample_push (CHR ''a'') ''PA'')) (logged (s3_exec sample_tags)) ([], []) =
     ((200, ''0000''), first_bucket, first_requests)"
  by (simp cong: weak_congs add: sample_rules first_bucket_def first_requests_def)

lemma first_bucket_lookup [simp]:
  "map_of first_bucket sample_pointer = Some (sample_digest (CHR ''a''), sample_digest (CHR ''a''))"
  "map_of first_bucket (manifest_key (sample_digest (CHR ''a''))) = Some (''A'', ''A'')"
  "map_of first_bucket (manifest_key (sample_digest (CHR ''c''))) = None"
  "map_of first_bucket (idx_named (CHR ''0'')) = Some (''I'', ''I'')" "map_of first_bucket (pack_named (CHR ''0'')) = Some (''PA'', ''PA'')"
  "map_of first_bucket (idx_named (CHR ''2'')) = None" "map_of first_bucket (pack_named (CHR ''2'')) = None"
  by (simp_all add: first_bucket_def)

definition second_bucket :: bucket where
  "second_bucket =
     [(sample_pointer, sample_digest (CHR ''c''), sample_digest (CHR ''c'')), (manifest_key (sample_digest (CHR ''c'')), ''C'', ''C''),
      (idx_named (CHR ''2''), ''I'', ''I''), (pack_named (CHR ''2''), ''PC'', ''PC'')] @ first_bucket"

definition second_requests :: "s3_request list" where
  "second_requests =
     [GetObject sample_pointer, HeadObject (manifest_key (sample_digest (CHR ''a''))),
      GetObject (manifest_key (sample_digest (CHR ''a''))), HeadObject (pack_named (CHR ''0'')), GetObject (pack_named (CHR ''0'')),
      HeadObject (idx_named (CHR ''0'')), GetObject (idx_named (CHR ''0'')),
      PutObject (pack_named (CHR ''2'')) ''PC'' IfNoneMatchStar, PutObject (idx_named (CHR ''2'')) ''I'' IfNoneMatchStar,
      PutObject (manifest_key (sample_digest (CHR ''c''))) ''C'' IfNoneMatchStar,
      PutObject sample_pointer (sample_digest (CHR ''c'')) (IfMatch (sample_digest (CHR ''a'')))]"

lemma sample_oid_ok: "is_hex_oid (sample_oid (CHR ''a''))"
  by (simp add: is_hex_oid_def sample_oid_hex)

lemma sample_second:
  "run_alone (receive_pack sample_codec (sample_push (CHR ''c'') ''PC'')) (logged (s3_exec sample_tags)) (first_bucket, ops) =
     ((200, ''0000''), second_bucket, ops @ second_requests)"
  by (simp cong: weak_congs add: sample_rules sample_oid_ok second_bucket_def second_requests_def)

lemma sample_run_eq:
  "sample_run = \<lparr>world = second_bucket,
     sessions = [(sample_push (CHR ''a'') ''PA'', Done (200, ''0000'')), (sample_push (CHR ''c'') ''PC'', Done (200, ''0000''))],
     served = first_requests @ second_requests\<rparr>"
  by (simp add: sample_run_def run_session_def sample_first sample_second)

lemma s3_exec_serves: "s3_serve tags op b (fst (s3_exec tags op b)) (snd (s3_exec tags op b))"
  by (simp add: s3_serve_def)

lemma sample_run_reachable:
  assumes "\<And>c p. p \<noteq> [] \<Longrightarrow> admitted (sample_push c p)"
  shows "push_runs admitted sample_codec sample_tags sample_run"
proof -
  have "push_runs admitted sample_codec sample_tags \<lparr>world = [], sessions = [], served = []\<rparr>"
    by (rule reach_start) (simp add: system_start_def)
  then show ?thesis
    unfolding sample_run_def by (intro reachable_run_session assms s3_exec_serves) simp_all
qed

lemma written_sample:
  "written sample_run = {''PA'', ''I'', ''A'', sample_digest (CHR ''a''), ''PC'', ''C'', sample_digest (CHR ''c'')}"
  by (auto simp: written_def sample_run_eq first_requests_def second_requests_def map_filter_def)

lemma sample_digest_texts [simp]:
  "sample_digest c \<noteq> ''PA''" "sample_digest c \<noteq> ''PC''" "sample_digest c \<noteq> ''A''" "sample_digest c \<noteq> ''C''" "sample_digest c \<noteq> ''I''"
  "''I'' \<noteq> sample_digest c"
  by (auto dest: arg_cong [of _ _ length])

lemma sample_hashes: "hashes_ok sample_codec sample_tags (written sample_run)"
proof -
  have "is_manifest_digest (sample_sha v)" for v
    unfolding sample_sha_def by (rule sample_digest_ok) (simp split: option.splits)
  moreover have "inj_on sample_sha (written sample_run)"
    unfolding written_sample by (simp add: inj_on_def sample_sha_def)
  moreover have "manifest_of_json sample_codec b = Ok m" if "manifest_to_json sample_codec m = Ok b" for m b
    using that by (auto simp: sample_codec_def split: if_splits)
  ultimately show ?thesis by (simp add: hashes_ok_def sample_tags_def)
qed

lemma sample_pointer_log: "pointer_log (world sample_run) sample_pointer = [sample_digest (CHR ''c''), sample_digest (CHR ''a'')]"
  by (simp add: pointer_log_def sample_run_eq second_bucket_def first_bucket_def)

theorem git_history_linear_witness:
  "linear_history sample_codec (world sample_run) [sample_digest (CHR ''c''), sample_digest (CHR ''a'')]"
  using git_history_linear [OF sample_run_reachable sample_hashes, of "''c''" "replicate 64 (CHR ''f'')" "''r.git''"] sample_pointer_log
  by (simp add: sample_pointer_def)


lemma sample_stored:
  "stored_manifest sample_codec (world sample_run) (sample_digest (CHR ''c'')) = Some manifest_c"
  "stored_manifest sample_codec (world sample_run) (sample_digest (CHR ''a'')) = Some manifest_a"
  by (simp_all add: stored_manifest_def sample_run_eq second_bucket_def)

lemma sample_current:
  "map_of (world sample_run) sample_pointer = Some (sample_digest (CHR ''c''), sample_digest (CHR ''c''))"
  by (simp add: sample_run_eq second_bucket_def)

theorem push_success_durable_witness:
  "\<exists>d m. d \<in> set (pointer_log (world sample_run) (push_key (sample_push (CHR ''c'') ''PC''))) \<and>
     stored_manifest sample_codec (world sample_run) d = Some m \<and> mf_refs m = [(''refs/heads/main'', sample_oid (CHR ''c''))]"
proof -
  have "(sample_push (CHR ''c'') ''PC'', Done (200, ''0000'')) \<in> set (sessions sample_run)" by (simp add: sample_run_eq)
  from push_success_durable [OF sample_run_reachable sample_hashes this]
  show ?thesis using sample_output by (auto simp: pack_output_of_def split: if_splits)
qed

definition sample_reach :: "string \<Rightarrow> string set" where
  "sample_reach d = {d} \<inter> {sample_oid (CHR ''a''), sample_oid (CHR ''c'')}"

definition sample_objects :: "string \<Rightarrow> string set" where
  "sample_objects pack = (if pack = [] then {} else {sample_oid (CHR ''a''), sample_oid (CHR ''c'')})"

lemma sample_reach_bound: "reach_refs sample_reach rs \<subseteq> {sample_oid (CHR ''a''), sample_oid (CHR ''c'')}"
  by (auto simp: reach_refs_def sample_reach_def)

lemma sample_trusted: "p \<noteq> [] \<Longrightarrow> push_trusted sample_reach sample_objects (sample_push c p)"
  using sample_reach_bound
  by (auto simp: push_trusted_def git_covers_def sample_objects_def sample_workspace_def)

theorem published_closed_witness:
  "reach_refs sample_reach (mf_refs manifest_c) \<subseteq> pack_cover sample_objects (world sample_run) (mf_packs manifest_c)"
proof -
  have "push_runs (push_trusted sample_reach sample_objects) sample_codec sample_tags sample_run"
    by (rule sample_run_reachable) (simp_all add: sample_trusted)
  from published_closed [OF this sample_hashes, of "sample_digest (CHR ''c'')" "''c''" "replicate 64 (CHR ''f'')" "''r.git''"]
  show ?thesis using sample_pointer_log sample_stored by (simp add: sample_pointer_def)
qed

theorem published_readable_witness:
  "served_alone sample_tags (hydrate_for_read sample_codec sample_hydration ''c'' (replicate 64 (CHR ''f'')) ''r.git'') (world sample_run) =
     (Ok (Some (manifest_c, 4)), world sample_run)"
proof -
  have b: "pack_bytes (world sample_run) (pack_named (CHR ''0'')) = 2" "pack_bytes (world sample_run) (pack_named (CHR ''2'')) = 2"
    "pack_bytes (world sample_run) (manifest_key (sample_digest (CHR ''c''))) = 1"
    by (simp_all add: pack_bytes_def sample_run_eq second_bucket_def)
  have p: "mf_packs manifest_c = [pack_named (CHR ''0''), pack_named (CHR ''2'')]" by (simp add: manifest_c_def sample_manifest_def)
  have "hydration_works sample_hydration" by (simp add: hydration_works_def)
  from published_readable [OF sample_run_reachable sample_hashes this sample_current [unfolded sample_pointer_def] sample_stored(1)]
  show ?thesis by (simp add: b p MAX_MANIFEST_BYTES_def U64_MAX_def)
qed

definition partial_push :: push where
  "partial_push = (sample_push (CHR ''a'') ''PA'')\<lparr>pu_receive := (\<lambda>_. Ok (True,
     sideband_report [''unpack ok'', ''ok refs/heads/a'', ''ng refs/heads/b hook declined''], sample_workspace (CHR ''a'') ''PA''))\<rparr>"

theorem partial_push_dropped_witness:
  "reads_only (receive_pack sample_codec partial_push) \<and>
   served_alone sample_tags (receive_pack sample_codec partial_push) first_bucket =
     ((200, sideband_report [''unpack ok'', ''ok refs/heads/a'', ''ng refs/heads/b hook declined'']), first_bucket)"
proof -
  let ?out = "sideband_report [''unpack ok'', ''ok refs/heads/a'', ''ng refs/heads/b hook declined'']"
  have rejected: "receive_pack_report_rejected ?out"
    unfolding sideband_report_def
    by (subst report_rejected_sideband) (auto simp: PKT_LINE_MAX_PAYLOAD_def pkt_line_def hex04_length starts_with_def)
  have out: "\<not> exit_ok \<or> receive_pack_report_rejected out" if "pu_receive partial_push parent = Ok (exit_ok, out, ws)" for parent exit_ok out ws
    using that rejected by (simp add: partial_push_def)
  have small: "length ?out \<le> RECEIVE_PACK_MAX_OUTPUT_BYTES"
    by (simp add: sideband_report_def RECEIVE_PACK_MAX_OUTPUT_BYTES_def pkt_line_def hex04_length)
  have hydrated: "fst (served_alone sample_tags (hydrate_for_write sample_codec sample_hydration ''c'' (replicate 64 (CHR ''f'')) ''r.git'')
      first_bucket) = Ok (2, from_loaded (sample_digest (CHR ''a'')) (sample_digest (CHR ''a'')) manifest_a)"
    by (simp cong: weak_congs add: sample_rules sample_oid_ok)
  have "pu_receive partial_push parent = Ok (True, ?out, sample_workspace (CHR ''a'') ''PA'')" for parent by (simp add: partial_push_def)
  moreover have "validate_repo_id (pu_owner partial_push) (pu_repo partial_push) = Ok ''r''" "pu_permit partial_push" "pu_hook_installed partial_push"
    "pu_hydration partial_push = sample_hydration" "pu_community partial_push = ''c''"
    "pu_owner partial_push = replicate 64 (CHR ''f'')" "pu_repo partial_push = ''r.git''"
    by (simp_all add: partial_push_def sample_push_def sample_name)
  moreover have "reads_only (receive_pack sample_codec partial_push) \<and>
    (\<forall>b name n parent exit_ok out ws.
       validate_repo_id (pu_owner partial_push) (pu_repo partial_push) = Ok name \<and> pu_permit partial_push \<and> pu_hook_installed partial_push \<and>
       fst (served_alone sample_tags (hydrate_for_write sample_codec (pu_hydration partial_push) (pu_community partial_push)
         (pu_owner partial_push) (pu_repo partial_push)) b) = Ok (n, parent) \<and>
       pu_receive partial_push parent = Ok (exit_ok, out, ws) \<and> length out \<le> RECEIVE_PACK_MAX_OUTPUT_BYTES \<longrightarrow>
       served_alone sample_tags (receive_pack sample_codec partial_push) b = ((200, out), b))"
    by (rule partial_push_dropped) (use out in blast)
  ultimately show ?thesis using hydrated small by auto
qed

end
