(* ===== verification/Subscriptions.thy ===== *)
theory Subscriptions
  imports Nostr_Events
begin

text \<open>
  The relay's registry of live subscriptions and its fan-out indexes
  (\<open>crates/buzz-relay/src/subscription.rs\<close>). The concurrent maps are maps; each operation is
  one step, the hash-map iteration order of an operation that iterates is an argument. The
  indexes are proved to hold exactly what the authoritative table says, in every reachable
  registry, so that a fan-out through them finds exactly the matching subscriptions, and a
  fan-out is proved safe for any content of the indexes, as a stale snapshot may have.
\<close>

section \<open>Data\<close>

type_synonym conn_id = uuid
type_synonym sub_id = string
type_synonym community = uuid

datatype scope = Global | Channels "uuid list"

fun matches_channel :: "scope \<Rightarrow> uuid option \<Rightarrow> bool" where
  "matches_channel Global None = True"
| "matches_channel (Channels chs) (Some ch) = (ch \<in> set chs)"
| "matches_channel _ _ = False"

fun channel_ids :: "scope \<Rightarrow> uuid list" where
  "channel_ids Global = []"
| "channel_ids (Channels chs) = chs"

fun is_global :: "scope \<Rightarrow> bool" where
  "is_global Global = True"
| "is_global (Channels chs) = False"

type_synonym sub_entry = "event_filter list \<times> community \<times> scope"

record index_key =
  ik_channel :: uuid
  ik_kind :: nat

record global_p_kind_key =
  gp_community :: community
  gp_kind :: nat
  gp_p :: string

record removed_subscription =
  rem_sub_id :: sub_id
  rem_community :: community
  rem_scope :: scope

record channel_subscription_update =
  upd_sub_id :: sub_id
  upd_removed :: bool

type_synonym 'k sub_index = "'k \<rightharpoonup> (conn_id \<times> sub_id) list"

record registry =
  subs :: "conn_id \<rightharpoonup> (sub_id \<rightharpoonup> sub_entry)"
  channel_kind_index :: "(community \<times> index_key) sub_index"
  channel_wildcard_index :: "(community \<times> uuid) sub_index"
  global_kind_index :: "(community \<times> nat) sub_index"
  global_p_kind_index :: "global_p_kind_key sub_index"
  global_wildcard_index :: "community sub_index"

definition registry_new :: registry where
  "registry_new =
     \<lparr>subs = Map.empty, channel_kind_index = Map.empty, channel_wildcard_index = Map.empty,
      global_kind_index = Map.empty, global_p_kind_index = Map.empty,
      global_wildcard_index = Map.empty\<rparr>"

section \<open>Index keys of a subscription\<close>

text \<open>The union of the kinds, or \<open>None\<close> when some filter has no kinds.\<close>

fun extract_kinds_loop :: "nat list \<Rightarrow> event_filter list \<Rightarrow> nat list option" where
  "extract_kinds_loop ks [] = Some ks"
| "extract_kinds_loop ks (f # fs) =
     (case filter_kinds f of
        Some filter_ks \<Rightarrow> extract_kinds_loop (foldl push_new ks filter_ks) fs
      | None \<Rightarrow> None)"

definition extract_kinds_from_filters :: "event_filter list \<Rightarrow> nat list option" where
  "extract_kinds_from_filters fs = extract_kinds_loop [] fs"

fun extract_p_loop ::
  "community \<Rightarrow> global_p_kind_key list \<Rightarrow> event_filter list \<Rightarrow> global_p_kind_key list option" where
  "extract_p_loop cid ks [] = Some ks"
| "extract_p_loop cid ks (f # fs) =
     (case filter_kinds f of
        None \<Rightarrow> None
      | Some kinds \<Rightarrow>
          if kinds = [] then extract_p_loop cid ks fs
          else
            case map_of (generic_tags f) CHR ''p'' of
              None \<Rightarrow> None
            | Some ps \<Rightarrow>
                if ps = [] then None
                else extract_p_loop cid
                       (foldl push_new ks
                         (concat (map (\<lambda>k. map (\<lambda>p. \<lparr>gp_community = cid, gp_kind = k, gp_p = p\<rparr>) ps) kinds)))
                       fs)"

definition extract_global_p_kind_index_keys ::
  "community \<Rightarrow> event_filter list \<Rightarrow> global_p_kind_key list option" where
  "extract_global_p_kind_index_keys cid fs = extract_p_loop cid [] fs"

definition event_p_tag_values :: "stored_event \<Rightarrow> string list" where
  "event_p_tag_values ev = foldl push_new [] (tag_contents ''p'' (event_tags (the_event ev)))"

section \<open>Operations\<close>

definition index_channel ::
  "conn_id \<Rightarrow> sub_id \<Rightarrow> event_filter list \<Rightarrow> community \<Rightarrow> registry \<Rightarrow> uuid \<Rightarrow> registry" where
  "index_channel conn sub fs cid r ch =
     (case extract_kinds_from_filters fs of
        None \<Rightarrow> r\<lparr>channel_wildcard_index := index_push (channel_wildcard_index r) (cid, ch) (conn, sub)\<rparr>
      | Some ks \<Rightarrow>
          if ks = [] then r
          else foldl (\<lambda>r k. r\<lparr>channel_kind_index :=
                   index_push (channel_kind_index r) (cid, \<lparr>ik_channel = ch, ik_kind = k\<rparr>) (conn, sub)\<rparr>) r ks)"

definition index_global ::
  "conn_id \<Rightarrow> sub_id \<Rightarrow> event_filter list \<Rightarrow> community \<Rightarrow> registry \<Rightarrow> registry" where
  "index_global conn sub fs cid r =
     (case extract_global_p_kind_index_keys cid fs of
        Some ps \<Rightarrow>
          foldl (\<lambda>r key. r\<lparr>global_p_kind_index := index_push (global_p_kind_index r) key (conn, sub)\<rparr>) r ps
      | None \<Rightarrow>
          (case extract_kinds_from_filters fs of
             None \<Rightarrow> r\<lparr>global_wildcard_index := index_push (global_wildcard_index r) cid (conn, sub)\<rparr>
           | Some ks \<Rightarrow>
               if ks = [] then r
               else foldl (\<lambda>r k. r\<lparr>global_kind_index :=
                        index_push (global_kind_index r) (cid, k) (conn, sub)\<rparr>) r ks))"

definition not_entry :: "conn_id \<Rightarrow> sub_id \<Rightarrow> conn_id \<times> sub_id \<Rightarrow> bool" where
  "not_entry conn sub p \<longleftrightarrow> \<not> (fst p = conn \<and> snd p = sub)"

definition unindex_channel ::
  "conn_id \<Rightarrow> sub_id \<Rightarrow> event_filter list \<Rightarrow> community \<Rightarrow> registry \<Rightarrow> uuid \<Rightarrow> registry" where
  "unindex_channel conn sub fs cid r ch =
     (case extract_kinds_from_filters fs of
        None \<Rightarrow> r\<lparr>channel_wildcard_index :=
                   index_retain (not_entry conn sub) (channel_wildcard_index r) (cid, ch)\<rparr>
      | Some ks \<Rightarrow>
          if ks = [] then r
          else foldl (\<lambda>r k. r\<lparr>channel_kind_index :=
                   index_retain (not_entry conn sub) (channel_kind_index r)
                     (cid, \<lparr>ik_channel = ch, ik_kind = k\<rparr>)\<rparr>) r ks)"

definition remove_from_index ::
  "conn_id \<Rightarrow> sub_id \<Rightarrow> event_filter list \<Rightarrow> community \<Rightarrow> scope \<Rightarrow> registry \<Rightarrow> registry" where
  "remove_from_index conn sub fs cid sc r =
     (case sc of
        Channels chs \<Rightarrow> foldl (unindex_channel conn sub fs cid) r chs
      | Global \<Rightarrow>
          (case extract_global_p_kind_index_keys cid fs of
             Some ps \<Rightarrow>
               foldl (\<lambda>r key. r\<lparr>global_p_kind_index :=
                   index_retain (not_entry conn sub) (global_p_kind_index r) key\<rparr>) r ps
           | None \<Rightarrow>
               (case extract_kinds_from_filters fs of
                  None \<Rightarrow> r\<lparr>global_wildcard_index :=
                             index_retain (not_entry conn sub) (global_wildcard_index r) cid\<rparr>
                | Some ks \<Rightarrow>
                    if ks = [] then r
                    else foldl (\<lambda>r k. r\<lparr>global_kind_index :=
                             index_retain (not_entry conn sub) (global_kind_index r) (cid, k)\<rparr>) r ks)))"

definition remove_subscription ::
  "conn_id \<Rightarrow> sub_id \<Rightarrow> registry \<Rightarrow> removed_subscription option \<times> registry" where
  "remove_subscription conn sub r =
     (case subs r conn of
        None \<Rightarrow> (None, r)
      | Some conn_subs \<Rightarrow>
          (case conn_subs sub of
             None \<Rightarrow> (None, r)
           | Some (fs, cid, sc) \<Rightarrow>
               (Some \<lparr>rem_sub_id = sub, rem_community = cid, rem_scope = sc\<rparr>,
                remove_from_index conn sub fs cid sc
                  (r\<lparr>subs := (subs r)(conn \<mapsto> conn_subs(sub := None))\<rparr>))))"

definition register_with_scope ::
  "community \<Rightarrow> conn_id \<Rightarrow> sub_id \<Rightarrow> event_filter list \<Rightarrow> scope \<Rightarrow> registry \<Rightarrow>
   removed_subscription option \<times> registry" where
  "register_with_scope cid conn sub fs sc r =
     (let (removed, r1) = remove_subscription conn sub r;
          conn_subs = (case subs r1 conn of None \<Rightarrow> Map.empty | Some m \<Rightarrow> m);
          r2 = r1\<lparr>subs := (subs r1)(conn \<mapsto> conn_subs(sub \<mapsto> (fs, cid, sc)))\<rparr>
      in (removed,
          case sc of
            Channels chs \<Rightarrow> foldl (index_channel conn sub fs cid) r2 chs
          | Global \<Rightarrow> index_global conn sub fs cid r2))"

definition register_scoped ::
  "community \<Rightarrow> conn_id \<Rightarrow> sub_id \<Rightarrow> event_filter list \<Rightarrow> uuid option \<Rightarrow> registry \<Rightarrow>
   removed_subscription option \<times> registry" where
  "register_scoped cid conn sub fs ch r =
     register_with_scope cid conn sub fs (case ch of Some c \<Rightarrow> Channels [c] | None \<Rightarrow> Global) r"

definition register_channels_scoped ::
  "community \<Rightarrow> conn_id \<Rightarrow> sub_id \<Rightarrow> event_filter list \<Rightarrow> uuid list \<Rightarrow> registry \<Rightarrow>
   removed_subscription option \<times> registry" where
  "register_channels_scoped cid conn sub fs chs r = register_with_scope cid conn sub fs (Channels chs) r"

text \<open>\<open>order\<close> is the iteration order of the connection's subscriptions.\<close>

definition remove_connection_step ::
  "conn_id \<Rightarrow> (sub_id \<rightharpoonup> sub_entry) \<Rightarrow> removed_subscription list \<times> registry \<Rightarrow> sub_id \<Rightarrow>
   removed_subscription list \<times> registry" where
  "remove_connection_step conn conn_subs acc sub =
     (case conn_subs sub of
        None \<Rightarrow> acc
      | Some (fs, cid, sc) \<Rightarrow>
          (fst acc @ [\<lparr>rem_sub_id = sub, rem_community = cid, rem_scope = sc\<rparr>],
           remove_from_index conn sub fs cid sc (snd acc)))"

definition remove_connection ::
  "sub_id list \<Rightarrow> conn_id \<Rightarrow> registry \<Rightarrow> removed_subscription list \<times> registry" where
  "remove_connection order conn r =
     (case subs r conn of
        None \<Rightarrow> ([], r)
      | Some conn_subs \<Rightarrow>
          foldl (remove_connection_step conn conn_subs)
            ([], r\<lparr>subs := (subs r)(conn := None)\<rparr>) order)"

fun revoke_loop ::
  "community \<Rightarrow> conn_id \<Rightarrow> uuid \<Rightarrow> sub_id list \<Rightarrow> channel_subscription_update list \<Rightarrow> registry \<Rightarrow>
   channel_subscription_update list \<times> registry" where
  "revoke_loop cid conn ch [] ups r = (ups, r)"
| "revoke_loop cid conn ch (sub # rest) ups r =
     (case subs r conn of
        None \<Rightarrow> (ups, r)
      | Some conn_subs \<Rightarrow>
          (case conn_subs sub of
             None \<Rightarrow> revoke_loop cid conn ch rest ups r
           | Some (fs, sub_cid, sc) \<Rightarrow>
               (case sc of
                  Global \<Rightarrow> revoke_loop cid conn ch rest ups r
                | Channels chs \<Rightarrow>
                    (let chs' = filter (\<lambda>c. c \<noteq> ch) chs;
                         removed = (chs' = []);
                         r1 = remove_from_index conn sub fs cid (Channels [ch]) r;
                         conn_subs' = (if removed then conn_subs(sub := None)
                                       else conn_subs(sub \<mapsto> (fs, sub_cid, Channels chs')))
                     in revoke_loop cid conn ch rest
                          (ups @ [\<lparr>upd_sub_id = sub, upd_removed = removed\<rparr>])
                          (r1\<lparr>subs := (subs r1)(conn \<mapsto> conn_subs')\<rparr>)))))"

definition revoked_subs :: "sub_id list \<Rightarrow> community \<Rightarrow> uuid \<Rightarrow> (sub_id \<rightharpoonup> sub_entry) \<Rightarrow> sub_id list" where
  "revoked_subs order cid ch conn_subs =
     filter (\<lambda>s. case conn_subs s of
                   None \<Rightarrow> False
                 | Some (fs, sub_cid, sc) \<Rightarrow> sub_cid = cid \<and> ch \<in> set (channel_ids sc)) order"

definition remove_channel_subscriptions_scoped ::
  "sub_id list \<Rightarrow> community \<Rightarrow> conn_id \<Rightarrow> uuid \<Rightarrow> registry \<Rightarrow> channel_subscription_update list \<times> registry" where
  "remove_channel_subscriptions_scoped order cid conn ch r =
     revoke_loop cid conn ch
       (case subs r conn of None \<Rightarrow> [] | Some conn_subs \<Rightarrow> revoked_subs order cid ch conn_subs) [] r"

text \<open>\<open>order\<close> is the iteration order of the channel-kind index.\<close>

definition channel_subscriber_conns_scoped ::
  "(community \<times> index_key) list \<Rightarrow> community \<Rightarrow> uuid \<Rightarrow> registry \<Rightarrow> conn_id list" where
  "channel_subscriber_conns_scoped order cid ch r =
     (let conns = foldl (\<lambda>acc key.
            if fst key = cid \<and> ik_channel (snd key) = ch
            then foldl push_new acc (map fst (index_at (channel_kind_index r) key)) else acc) [] order
      in foldl push_new conns (map fst (index_at (channel_wildcard_index r) (cid, ch))))"

definition push_match ::
  "registry \<Rightarrow> community \<Rightarrow> stored_event \<Rightarrow> (conn_id \<times> sub_id) list \<Rightarrow> conn_id \<times> sub_id \<Rightarrow>
   (conn_id \<times> sub_id) list" where
  "push_match r cid ev results p =
     (case subs r (fst p) of
        None \<Rightarrow> results
      | Some conn_subs \<Rightarrow>
          (case conn_subs (snd p) of
             None \<Rightarrow> results
           | Some (fs, sub_cid, sc) \<Rightarrow>
               if sub_cid = cid \<and> matches_channel sc (channel_id ev) \<and> filters_match fs ev
               then push_new results p else results))"

definition fan_out_scoped :: "community \<Rightarrow> stored_event \<Rightarrow> registry \<Rightarrow> (conn_id \<times> sub_id) list" where
  "fan_out_scoped cid ev r =
     (case channel_id ev of
        Some ch \<Rightarrow>
          (let key = \<lparr>ik_channel = ch, ik_kind = event_kind (the_event ev)\<rparr>;
               results = foldl (push_match r cid ev) [] (index_at (channel_kind_index r) (cid, key))
           in foldl (push_match r cid ev) results (index_at (channel_wildcard_index r) (cid, ch)))
      | None \<Rightarrow>
          (let results = foldl (\<lambda>acc p. foldl (push_match r cid ev) acc
                   (index_at (global_p_kind_index r)
                     \<lparr>gp_community = cid, gp_kind = event_kind (the_event ev), gp_p = p\<rparr>))
                 [] (event_p_tag_values ev);
               results = foldl (push_match r cid ev) results
                 (index_at (global_kind_index r) (cid, event_kind (the_event ev)))
           in foldl (push_match r cid ev) results (index_at (global_wildcard_index r) cid)))"

definition get_filters :: "conn_id \<Rightarrow> sub_id \<Rightarrow> registry \<Rightarrow> event_filter list option" where
  "get_filters conn sub r =
     (case subs r conn of None \<Rightarrow> None | Some conn_subs \<Rightarrow> map_option fst (conn_subs sub))"

definition contains :: "conn_id \<Rightarrow> sub_id \<Rightarrow> registry \<Rightarrow> bool" where
  "contains conn sub r =
     (case subs r conn of None \<Rightarrow> False | Some conn_subs \<Rightarrow> conn_subs sub \<noteq> None)"

definition total_subscriptions :: "registry \<Rightarrow> nat" where
  "total_subscriptions r = (\<Sum>conn \<in> dom (subs r). card (dom (the (subs r conn))))"

definition total_connections :: "registry \<Rightarrow> nat" where
  "total_connections r = card (dom (subs r))"

definition per_community_subscriptions :: "registry \<Rightarrow> community \<Rightarrow> nat" where
  "per_community_subscriptions r cid =
     (\<Sum>conn \<in> dom (subs r).
        card {s \<in> dom (the (subs r conn)). fst (snd (the (the (subs r conn) s))) = cid})"

section \<open>The keys under which an entry is indexed\<close>

fun ck_keys :: "sub_entry \<Rightarrow> (community \<times> index_key) list" where
  "ck_keys (fs, cid, sc) =
     concat (map (\<lambda>ch. map (\<lambda>k. (cid, \<lparr>ik_channel = ch, ik_kind = k\<rparr>))
       (case extract_kinds_from_filters fs of None \<Rightarrow> [] | Some ks \<Rightarrow> ks)) (channel_ids sc))"

fun cw_keys :: "sub_entry \<Rightarrow> (community \<times> uuid) list" where
  "cw_keys (fs, cid, sc) =
     (if extract_kinds_from_filters fs = None then map (\<lambda>ch. (cid, ch)) (channel_ids sc) else [])"

fun gp_keys :: "sub_entry \<Rightarrow> global_p_kind_key list" where
  "gp_keys (fs, cid, sc) =
     (case sc of
        Channels chs \<Rightarrow> []
      | Global \<Rightarrow> (case extract_global_p_kind_index_keys cid fs of None \<Rightarrow> [] | Some ps \<Rightarrow> ps))"

fun gk_keys :: "sub_entry \<Rightarrow> (community \<times> nat) list" where
  "gk_keys (fs, cid, sc) =
     (case sc of
        Channels chs \<Rightarrow> []
      | Global \<Rightarrow>
          if extract_global_p_kind_index_keys cid fs = None
          then (case extract_kinds_from_filters fs of None \<Rightarrow> [] | Some ks \<Rightarrow> map (\<lambda>k. (cid, k)) ks)
          else [])"

fun gw_keys :: "sub_entry \<Rightarrow> community list" where
  "gw_keys (fs, cid, sc) =
     (case sc of
        Channels chs \<Rightarrow> []
      | Global \<Rightarrow>
          if extract_global_p_kind_index_keys cid fs = None \<and> extract_kinds_from_filters fs = None
          then [cid] else [])"

definition pushes :: "'p \<Rightarrow> ('k \<rightharpoonup> 'p list) \<Rightarrow> 'k list \<Rightarrow> ('k \<rightharpoonup> 'p list)" where
  "pushes p = foldl (\<lambda>m k. index_push m k p)"

definition retains :: "'p \<Rightarrow> ('k \<rightharpoonup> 'p list) \<Rightarrow> 'k list \<Rightarrow> ('k \<rightharpoonup> 'p list)" where
  "retains p = foldl (index_retain (\<lambda>q. q \<noteq> p))"

lemma pushes_simps [simp]:
  "pushes p m [] = m" "pushes p m (k # ks) = pushes p (index_push m k p) ks"
  "pushes p m (ks @ js) = pushes p (pushes p m ks) js"
  by (simp_all add: pushes_def)

lemma retains_simps [simp]:
  "retains p m [] = m" "retains p m (k # ks) = retains p (index_retain (\<lambda>q. q \<noteq> p) m k) ks"
  "retains p m (ks @ js) = retains p (retains p m ks) js"
  by (simp_all add: retains_def)

lemma not_entry_eq: "not_entry conn sub = (\<lambda>q. q \<noteq> (conn, sub))"
  by (auto simp: not_entry_def fun_eq_iff)

definition index_all :: "conn_id \<times> sub_id \<Rightarrow> sub_entry \<Rightarrow> registry \<Rightarrow> registry" where
  "index_all p e r =
     r\<lparr>channel_kind_index := pushes p (channel_kind_index r) (ck_keys e),
       channel_wildcard_index := pushes p (channel_wildcard_index r) (cw_keys e),
       global_kind_index := pushes p (global_kind_index r) (gk_keys e),
       global_p_kind_index := pushes p (global_p_kind_index r) (gp_keys e),
       global_wildcard_index := pushes p (global_wildcard_index r) (gw_keys e)\<rparr>"

definition unindex_all :: "conn_id \<times> sub_id \<Rightarrow> sub_entry \<Rightarrow> registry \<Rightarrow> registry" where
  "unindex_all p e r =
     r\<lparr>channel_kind_index := retains p (channel_kind_index r) (ck_keys e),
       channel_wildcard_index := retains p (channel_wildcard_index r) (cw_keys e),
       global_kind_index := retains p (global_kind_index r) (gk_keys e),
       global_p_kind_index := retains p (global_p_kind_index r) (gp_keys e),
       global_wildcard_index := retains p (global_wildcard_index r) (gw_keys e)\<rparr>"

text \<open>The loops of the code, one record update after the other, as updates of one index.\<close>

lemma push_loop_ck:
  "foldl (\<lambda>r k. r\<lparr>channel_kind_index := index_push (channel_kind_index r) (f k) p\<rparr>) r ks =
     r\<lparr>channel_kind_index := pushes p (channel_kind_index r) (map f ks)\<rparr>"
  by (induction ks arbitrary: r) simp_all

lemma push_loop_gk:
  "foldl (\<lambda>r k. r\<lparr>global_kind_index := index_push (global_kind_index r) (g k) p\<rparr>) r ks =
     r\<lparr>global_kind_index := pushes p (global_kind_index r) (map g ks)\<rparr>"
  by (induction ks arbitrary: r) simp_all

lemma push_loop_gp:
  "foldl (\<lambda>r k. r\<lparr>global_p_kind_index := index_push (global_p_kind_index r) k p\<rparr>) r ks =
     r\<lparr>global_p_kind_index := pushes p (global_p_kind_index r) ks\<rparr>"
  by (induction ks arbitrary: r) simp_all

lemmas push_loops = push_loop_ck push_loop_gk push_loop_gp

lemma retain_loop_ck:
  "foldl (\<lambda>r k. r\<lparr>channel_kind_index := index_retain (\<lambda>q. q \<noteq> p) (channel_kind_index r) (f k)\<rparr>) r ks =
     r\<lparr>channel_kind_index := retains p (channel_kind_index r) (map f ks)\<rparr>"
  by (induction ks arbitrary: r) simp_all

lemma retain_loop_gk:
  "foldl (\<lambda>r k. r\<lparr>global_kind_index := index_retain (\<lambda>q. q \<noteq> p) (global_kind_index r) (g k)\<rparr>) r ks =
     r\<lparr>global_kind_index := retains p (global_kind_index r) (map g ks)\<rparr>"
  by (induction ks arbitrary: r) simp_all

lemma retain_loop_gp:
  "foldl (\<lambda>r k. r\<lparr>global_p_kind_index := index_retain (\<lambda>q. q \<noteq> p) (global_p_kind_index r) k\<rparr>) r ks =
     r\<lparr>global_p_kind_index := retains p (global_p_kind_index r) ks\<rparr>"
  by (induction ks arbitrary: r) simp_all

lemmas retain_loops = retain_loop_ck retain_loop_gk retain_loop_gp

lemma index_channel_loop:
  "foldl (index_channel conn sub fs cid) r chs = index_all (conn, sub) (fs, cid, Channels chs) r"
proof (induction chs arbitrary: r)
  case (Cons ch chs)
  then show ?case
    by (cases "extract_kinds_from_filters fs") (simp_all add: index_channel_def push_loops index_all_def)
qed (simp add: index_all_def)

lemma index_global_all:
  "index_global conn sub fs cid r = index_all (conn, sub) (fs, cid, Global) r"
  by (simp add: index_global_def index_all_def push_loops split: option.splits)

lemma unindex_channel_loop:
  "foldl (unindex_channel conn sub fs cid) r chs = unindex_all (conn, sub) (fs, cid, Channels chs) r"
proof (induction chs arbitrary: r)
  case (Cons ch chs)
  then show ?case
    by (cases "extract_kinds_from_filters fs")
      (simp_all add: unindex_channel_def not_entry_eq retain_loops unindex_all_def)
qed (simp add: unindex_all_def)

lemma remove_from_index_all:
  "remove_from_index conn sub fs cid sc r = unindex_all (conn, sub) (fs, cid, sc) r"
proof (cases sc)
  case Global
  then show ?thesis
    by (simp add: remove_from_index_def unindex_all_def not_entry_eq retain_loops split: option.splits)
next
  case (Channels chs)
  then show ?thesis by (simp add: remove_from_index_def unindex_channel_loop)
qed

section \<open>The invariant\<close>

definition sub_lookup :: "registry \<Rightarrow> conn_id \<times> sub_id \<rightharpoonup> sub_entry" where
  "sub_lookup r p = (case subs r (fst p) of None \<Rightarrow> None | Some conn_subs \<Rightarrow> conn_subs (snd p))"

text \<open>An index holds an entry at a key exactly when the table has it and it belongs there.\<close>

definition index_ok ::
  "('e \<Rightarrow> 'k list) \<Rightarrow> ('p \<rightharpoonup> 'e) \<Rightarrow> ('k \<rightharpoonup> 'p list) \<Rightarrow> bool" where
  "index_ok keysf L m \<longleftrightarrow>
     index_tight m \<and> (\<forall>k. set (index_at m k) = {p. \<exists>e. L p = Some e \<and> k \<in> set (keysf e)})"

definition indexes_ok :: "(conn_id \<times> sub_id \<rightharpoonup> sub_entry) \<Rightarrow> registry \<Rightarrow> bool" where
  "indexes_ok L r \<longleftrightarrow>
     index_ok ck_keys L (channel_kind_index r) \<and> index_ok cw_keys L (channel_wildcard_index r) \<and>
     index_ok gk_keys L (global_kind_index r) \<and> index_ok gp_keys L (global_p_kind_index r) \<and>
     index_ok gw_keys L (global_wildcard_index r)"

definition registry_ok :: "registry \<Rightarrow> bool" where
  "registry_ok r \<longleftrightarrow> indexes_ok (sub_lookup r) r"

lemma index_ok_tight: "index_ok keysf L m \<Longrightarrow> index_tight m"
  by (simp add: index_ok_def)

lemma index_ok_empty: "index_ok keysf Map.empty m \<Longrightarrow> m = Map.empty"
  by (rule index_tight_empty) (auto simp: index_ok_def)

lemma index_ok_insert:
  "index_ok keysf L m \<Longrightarrow> L p = None \<Longrightarrow> index_ok keysf (L(p \<mapsto> e)) (pushes p m (keysf e))"
  by (auto simp: index_ok_def pushes_def vec_index.at_pushes vec_index.tight_pushes)

text \<open>
  Taking the entry out of some of its keys is right for any new entry whose keys are the
  remaining ones; \<open>None\<close> has no keys.
\<close>

lemma index_ok_retain:
  assumes "index_ok keysf L m" and "L p = Some e"
    and "(case x of None \<Rightarrow> {} | Some e' \<Rightarrow> set (keysf e')) = set (keysf e) - set ks"
  shows "index_ok keysf (L(p := x)) (retains p m ks)"
proof -
  have t: "index_tight (retains p m ks)"
    using assms(1) by (simp add: index_ok_def retains_def vec_index.tight_retains)
  have "set (index_at (retains p m ks) k) = {q. \<exists>e. (L(p := x)) q = Some e \<and> k \<in> set (keysf e)}" for k
  proof (rule set_eqI)
    fix q
    have m: "q \<in> set (index_at m k) \<longleftrightarrow> (\<exists>e. L q = Some e \<and> k \<in> set (keysf e))"
      using assms(1) by (simp add: index_ok_def)
    have "q \<in> set (index_at (retains p m ks) k) \<longleftrightarrow> q \<in> set (index_at m k) \<and> (k \<in> set ks \<longrightarrow> q \<noteq> p)"
      by (auto simp: retains_def vec_index.at_retains)
    also have "\<dots> \<longleftrightarrow> (\<exists>e. (L(p := x)) q = Some e \<and> k \<in> set (keysf e))"
    proof (cases "q = p")
      case True
      have "k \<in> (case x of None \<Rightarrow> {} | Some e' \<Rightarrow> set (keysf e')) \<longleftrightarrow> k \<in> set (keysf e) \<and> k \<notin> set ks"
        using assms(3) by simp
      then show ?thesis using True m assms(2) by (cases x) auto
    qed (simp add: m)
    finally show "q \<in> set (index_at (retains p m ks) k) \<longleftrightarrow>
        q \<in> {q. \<exists>e. (L(p := x)) q = Some e \<and> k \<in> set (keysf e)}" by simp
  qed
  with t show ?thesis by (simp add: index_ok_def)
qed

lemma indexes_ok_subs [simp]: "indexes_ok L (r\<lparr>subs := s\<rparr>) = indexes_ok L r"
  by (simp add: indexes_ok_def)

lemma subs_index_all [simp]:
  "subs (index_all p e r) = subs r" "subs (unindex_all p e r) = subs r"
  by (simp_all add: index_all_def unindex_all_def)

lemma unindex_all_sel:
  "channel_kind_index (unindex_all p e r) = retains p (channel_kind_index r) (ck_keys e)"
  "channel_wildcard_index (unindex_all p e r) = retains p (channel_wildcard_index r) (cw_keys e)"
  "global_kind_index (unindex_all p e r) = retains p (global_kind_index r) (gk_keys e)"
  "global_p_kind_index (unindex_all p e r) = retains p (global_p_kind_index r) (gp_keys e)"
  "global_wildcard_index (unindex_all p e r) = retains p (global_wildcard_index r) (gw_keys e)"
  by (simp_all add: unindex_all_def)

lemma sub_lookup_subs: "subs r = subs r' \<Longrightarrow> sub_lookup r = sub_lookup r'"
  by (simp add: sub_lookup_def fun_eq_iff)

lemma sub_lookup_upd:
  "sub_lookup (r\<lparr>subs := (subs r)(conn \<mapsto> m)\<rparr>) = (\<lambda>q. if fst q = conn then m (snd q) else sub_lookup r q)"
  by (simp add: sub_lookup_def fun_eq_iff)

lemma sub_lookup_at:
  "(case subs r conn of None \<Rightarrow> Map.empty | Some m \<Rightarrow> m) = (\<lambda>s. sub_lookup r (conn, s))"
  by (simp add: sub_lookup_def fun_eq_iff split: option.splits)

lemma indexes_ok_insert:
  "indexes_ok L r \<Longrightarrow> L p = None \<Longrightarrow> indexes_ok (L(p \<mapsto> e)) (index_all p e r)"
  unfolding indexes_ok_def index_all_def by (simp add: index_ok_insert)

lemma indexes_ok_delete:
  "indexes_ok L r \<Longrightarrow> L p = Some e \<Longrightarrow> indexes_ok (L(p := None)) (unindex_all p e r)"
  unfolding indexes_ok_def unindex_all_def by (simp add: index_ok_retain)

fun revoke_entry :: "uuid \<Rightarrow> sub_entry \<Rightarrow> sub_entry option" where
  "revoke_entry ch (fs, cid, Global) = Some (fs, cid, Global)"
| "revoke_entry ch (fs, cid, Channels chs) =
     (if filter (\<lambda>c. c \<noteq> ch) chs = [] then None else Some (fs, cid, Channels (filter (\<lambda>c. c \<noteq> ch) chs)))"

lemma revoke_keys:
  "(case revoke_entry ch (fs, cid, Channels chs) of None \<Rightarrow> {} | Some e' \<Rightarrow> set (ck_keys e')) =
     set (ck_keys (fs, cid, Channels chs)) - set (ck_keys (fs, cid, Channels [ch]))"
  "(case revoke_entry ch (fs, cid, Channels chs) of None \<Rightarrow> {} | Some e' \<Rightarrow> set (cw_keys e')) =
     set (cw_keys (fs, cid, Channels chs)) - set (cw_keys (fs, cid, Channels [ch]))"
  "(case revoke_entry ch (fs, cid, Channels chs) of None \<Rightarrow> {} | Some e' \<Rightarrow> set (gk_keys e')) =
     set (gk_keys (fs, cid, Channels chs)) - set (gk_keys (fs, cid, Channels [ch]))"
  "(case revoke_entry ch (fs, cid, Channels chs) of None \<Rightarrow> {} | Some e' \<Rightarrow> set (gp_keys e')) =
     set (gp_keys (fs, cid, Channels chs)) - set (gp_keys (fs, cid, Channels [ch]))"
  "(case revoke_entry ch (fs, cid, Channels chs) of None \<Rightarrow> {} | Some e' \<Rightarrow> set (gw_keys e')) =
     set (gw_keys (fs, cid, Channels chs)) - set (gw_keys (fs, cid, Channels [ch]))"
  by (auto simp: filter_empty_conv split: option.splits)

lemma indexes_ok_revoke:
  assumes "indexes_ok L r" and "L p = Some (fs, cid, Channels chs)"
  shows "indexes_ok (L(p := revoke_entry ch (fs, cid, Channels chs)))
           (unindex_all p (fs, cid, Channels [ch]) r)"
proof -
  from assms(1) have ok: "index_ok ck_keys L (channel_kind_index r)"
    "index_ok cw_keys L (channel_wildcard_index r)" "index_ok gk_keys L (global_kind_index r)"
    "index_ok gp_keys L (global_p_kind_index r)" "index_ok gw_keys L (global_wildcard_index r)"
    by (simp_all add: indexes_ok_def)
  show ?thesis
    unfolding indexes_ok_def unindex_all_sel
    by (intro conjI index_ok_retain [OF ok(1) assms(2) revoke_keys(1)]
        index_ok_retain [OF ok(2) assms(2) revoke_keys(2)]
        index_ok_retain [OF ok(3) assms(2) revoke_keys(3)]
        index_ok_retain [OF ok(4) assms(2) revoke_keys(4)]
        index_ok_retain [OF ok(5) assms(2) revoke_keys(5)])
qed

section \<open>What each operation does to the table\<close>

lemma remove_subscription_ok:
  assumes "registry_ok r"
  shows "registry_ok (snd (remove_subscription conn sub r))"
    and "sub_lookup (snd (remove_subscription conn sub r)) = (sub_lookup r)((conn, sub) := None)"
proof -
  have "registry_ok (snd (remove_subscription conn sub r)) \<and>
      sub_lookup (snd (remove_subscription conn sub r)) = (sub_lookup r)((conn, sub) := None)"
  proof (cases "sub_lookup r (conn, sub)")
    case None
    then have "snd (remove_subscription conn sub r) = r"
      by (auto simp: remove_subscription_def sub_lookup_def split: option.splits)
    moreover have "(sub_lookup r)((conn, sub) := None) = sub_lookup r"
      using None by auto
    ultimately show ?thesis using assms by simp
  next
    case (Some e)
    obtain fs cid sc where e: "e = (fs, cid, sc)" by (cases e)
    from Some obtain m where m: "subs r conn = Some m" "m sub = Some e"
      by (auto simp: sub_lookup_def split: option.splits)
    let ?r1 = "r\<lparr>subs := (subs r)(conn \<mapsto> m(sub := None))\<rparr>"
    have u: "snd (remove_subscription conn sub r) = unindex_all (conn, sub) e ?r1"
      using m e by (simp add: remove_subscription_def remove_from_index_all)
    have l: "sub_lookup (unindex_all (conn, sub) e ?r1) = (sub_lookup r)((conn, sub) := None)"
      using m by (auto simp: sub_lookup_def fun_eq_iff)
    from indexes_ok_delete [of "sub_lookup r" ?r1 "(conn, sub)" e] assms Some
    have "indexes_ok ((sub_lookup r)((conn, sub) := None)) (unindex_all (conn, sub) e ?r1)"
      by (simp add: registry_ok_def)
    with u l show ?thesis by (simp add: registry_ok_def)
  qed
  then show "registry_ok (snd (remove_subscription conn sub r))"
    and "sub_lookup (snd (remove_subscription conn sub r)) = (sub_lookup r)((conn, sub) := None)"
    by simp_all
qed

lemma register_ok:
  assumes "registry_ok r"
  shows "registry_ok (snd (register_with_scope cid conn sub fs sc r))"
    and "sub_lookup (snd (register_with_scope cid conn sub fs sc r)) =
           (sub_lookup r)((conn, sub) \<mapsto> (fs, cid, sc))"
proof -
  let ?r1 = "snd (remove_subscription conn sub r)"
  let ?r2 = "?r1\<lparr>subs := (subs ?r1)(conn \<mapsto> (\<lambda>s. sub_lookup ?r1 (conn, s))(sub \<mapsto> (fs, cid, sc)))\<rparr>"
  have u: "snd (register_with_scope cid conn sub fs sc r) = index_all (conn, sub) (fs, cid, sc) ?r2"
    by (simp add: register_with_scope_def Let_def case_prod_beta sub_lookup_at index_channel_loop
        index_global_all split: scope.splits)
  note r1 = remove_subscription_ok [OF assms, of conn sub]
  have l: "sub_lookup ?r2 = (sub_lookup r)((conn, sub) \<mapsto> (fs, cid, sc))"
    unfolding sub_lookup_upd using r1(2) by (auto simp: fun_eq_iff)
  show lk: "sub_lookup (snd (register_with_scope cid conn sub fs sc r)) =
      (sub_lookup r)((conn, sub) \<mapsto> (fs, cid, sc))"
    unfolding u l [symmetric] by (rule sub_lookup_subs) simp
  have "indexes_ok ((sub_lookup ?r1)((conn, sub) \<mapsto> (fs, cid, sc))) (index_all (conn, sub) (fs, cid, sc) ?r2)"
    using r1 by (intro indexes_ok_insert) (simp_all add: registry_ok_def)
  then show "registry_ok (snd (register_with_scope cid conn sub fs sc r))"
    unfolding registry_ok_def lk u [symmetric] using r1(2) by simp
qed

lemma remove_connection_loop:
  assumes "indexes_ok L r" and "distinct order" and "\<And>s. s \<in> set order \<Longrightarrow> L (conn, s) = m s"
  shows "indexes_ok (\<lambda>q. if fst q = conn \<and> snd q \<in> set order then None else L q)
      (snd (foldl (remove_connection_step conn m) (acc, r) order)) \<and>
    subs (snd (foldl (remove_connection_step conn m) (acc, r) order)) = subs r"
  using assms
proof (induction order arbitrary: L r acc)
  case (Cons s order)
  let ?L = "L((conn, s) := None)"
  have e: "L (conn, s) = m s" using Cons.prems(3) by simp
  have "\<exists>acc' r'. remove_connection_step conn m (acc, r) s = (acc', r') \<and> subs r' = subs r \<and> indexes_ok ?L r'"
  proof (cases "m s")
    case None
    then have "?L = L" using e by auto
    with None Cons.prems(1) show ?thesis by (simp add: remove_connection_step_def)
  next
    case (Some x)
    with e Cons.prems(1) show ?thesis
      using indexes_ok_delete [of L r "(conn, s)" x]
      by (cases x) (simp add: remove_connection_step_def remove_from_index_all)
  qed
  then obtain acc' r' where st: "remove_connection_step conn m (acc, r) s = (acc', r')"
    and ok: "indexes_ok ?L r'" and sb: "subs r' = subs r" by blast
  have "(\<lambda>q. if fst q = conn \<and> snd q \<in> set order then None else ?L q) =
      (\<lambda>q. if fst q = conn \<and> snd q \<in> set (s # order) then None else L q)"
    by (auto simp: fun_eq_iff)
  moreover have "?L (conn, x) = m x" if "x \<in> set order" for x
    using that Cons.prems(2,3) by auto
  ultimately show ?case using Cons.IH [OF ok, of acc'] Cons.prems(2) st sb by simp
qed simp

lemma remove_connection_ids:
  "map rem_sub_id (fst (foldl (remove_connection_step conn m) acc order)) =
     map rem_sub_id (fst acc) @ filter (\<lambda>s. m s \<noteq> None) order"
  by (induction order arbitrary: acc) (auto simp: remove_connection_step_def split: option.splits)

definition conn_order :: "sub_id list \<Rightarrow> conn_id \<Rightarrow> registry \<Rightarrow> bool" where
  "conn_order order conn r \<longleftrightarrow> (\<forall>m. subs r conn = Some m \<longrightarrow> iter_order order m)"

lemma remove_connection_ok:
  assumes "registry_ok r" and "conn_order order conn r"
  shows "registry_ok (snd (remove_connection order conn r))"
    and "sub_lookup (snd (remove_connection order conn r)) =
           (\<lambda>q. if fst q = conn then None else sub_lookup r q)"
proof -
  have "registry_ok (snd (remove_connection order conn r)) \<and>
     sub_lookup (snd (remove_connection order conn r)) = (\<lambda>q. if fst q = conn then None else sub_lookup r q)"
  proof (cases "subs r conn")
    case None
    then have "sub_lookup r = (\<lambda>q. if fst q = conn then None else sub_lookup r q)"
      by (auto simp: sub_lookup_def fun_eq_iff)
    with None assms(1) show ?thesis by (simp add: remove_connection_def)
  next
    case (Some m)
    let ?r1 = "r\<lparr>subs := (subs r)(conn := None)\<rparr>"
    let ?r2 = "snd (foldl (remove_connection_step conn m) ([], ?r1) order)"
    have o: "distinct order" "set order = dom m"
      using assms(2) Some by (auto simp: conn_order_def iter_order_def)
    have c: "sub_lookup r (conn, s) = m s" for s using Some by (simp add: sub_lookup_def)
    note loop = remove_connection_loop [of "sub_lookup r" ?r1 order conn m "[]", OF _ o(1)]
    have sb: "subs ?r2 = (subs r)(conn := None)"
      using loop assms(1) c by (simp add: registry_ok_def)
    have l: "sub_lookup ?r2 = (\<lambda>q. if fst q = conn then None else sub_lookup r q)"
      unfolding sub_lookup_def sb by (auto simp: fun_eq_iff)
    have "(\<lambda>q. if fst q = conn \<and> snd q \<in> set order then None else sub_lookup r q) = sub_lookup ?r2"
      unfolding l o(2) using c by (auto simp: fun_eq_iff)
    then have "registry_ok ?r2"
      using loop assms(1) c by (simp add: registry_ok_def)
    moreover have "snd (remove_connection order conn r) = ?r2"
      using Some by (simp add: remove_connection_def)
    ultimately show ?thesis using l by simp
  qed
  then show "registry_ok (snd (remove_connection order conn r))"
    and "sub_lookup (snd (remove_connection order conn r)) =
           (\<lambda>q. if fst q = conn then None else sub_lookup r q)" by simp_all
qed

definition revoke_opt :: "uuid \<Rightarrow> sub_entry option \<Rightarrow> sub_entry option" where
  "revoke_opt ch x = (case x of None \<Rightarrow> None | Some e \<Rightarrow> revoke_entry ch e)"

lemma revoke_loop_ok:
  assumes "registry_ok r" and "distinct ss"
    and "\<And>s e. s \<in> set ss \<Longrightarrow> sub_lookup r (conn, s) = Some e \<Longrightarrow> fst (snd e) = cid"
  shows "registry_ok (snd (revoke_loop cid conn ch ss ups r)) \<and>
     sub_lookup (snd (revoke_loop cid conn ch ss ups r)) =
       (\<lambda>q. if fst q = conn \<and> snd q \<in> set ss then revoke_opt ch (sub_lookup r q) else sub_lookup r q)"
  using assms
proof (induction ss arbitrary: r ups)
  case (Cons s ss)
  let ?e = "sub_lookup r (conn, s)"
  let ?L1 = "(sub_lookup r)((conn, s) := revoke_opt ch ?e)"
  have fin: "(\<lambda>q. if fst q = conn \<and> snd q \<in> set ss then revoke_opt ch (?L1 q) else ?L1 q) =
      (\<lambda>q. if fst q = conn \<and> snd q \<in> set (s # ss) then revoke_opt ch (sub_lookup r q) else sub_lookup r q)"
    using Cons.prems(2) by (auto simp: fun_eq_iff)
  have later: ?case
    if "revoke_loop cid conn ch (s # ss) ups r = revoke_loop cid conn ch ss ups' r'"
      and "registry_ok r'" and l: "sub_lookup r' = ?L1" for ups' r'
  proof -
    have "registry_ok (snd (revoke_loop cid conn ch ss ups' r')) \<and>
      sub_lookup (snd (revoke_loop cid conn ch ss ups' r')) =
        (\<lambda>q. if fst q = conn \<and> snd q \<in> set ss then revoke_opt ch (sub_lookup r' q) else sub_lookup r' q)"
      using that(2) Cons.prems by (intro Cons.IH) (auto simp: l split: if_splits)
    then show ?thesis unfolding that(1) l fin .
  qed
  show ?case
  proof (cases "subs r conn")
    case None
    then have "revoke_opt ch (sub_lookup r (conn, x)) = sub_lookup r (conn, x)" for x
      by (simp add: sub_lookup_def revoke_opt_def)
    then have "(\<lambda>q. if fst q = conn \<and> snd q \<in> set (s # ss) then revoke_opt ch (sub_lookup r q)
        else sub_lookup r q) = sub_lookup r" by (auto simp: fun_eq_iff)
    with None Cons.prems(1) show ?thesis by simp
  next
    case (Some m)
    then have c: "?e = m s" by (simp add: sub_lookup_def)
    consider "m s = None \<or> (\<exists>fs c. m s = Some (fs, c, Global))" | fs c chs where "m s = Some (fs, c, Channels chs)"
      by (metis option.exhaust prod_cases3 scope.exhaust)
    then show ?thesis
    proof cases
      case 1
      then have "?L1 = sub_lookup r" using c by (auto simp: revoke_opt_def fun_eq_iff)
      then show ?thesis using 1 Some Cons.prems(1) by (intro later [of ups r]) auto
    next
      case (2 fs c chs)
      have cc: "c = cid" using Cons.prems(3) [of s] 2 \<open>?e = m s\<close> by simp
      let ?x = "revoke_entry ch (fs, cid, Channels chs)"
      let ?r1 = "unindex_all (conn, s) (fs, cid, Channels [ch]) r"
      let ?r' = "?r1\<lparr>subs := (subs r)(conn \<mapsto> m(s := ?x))\<rparr>"
      have l: "sub_lookup ?r' = ?L1"
        using Some 2 cc by (auto simp: sub_lookup_def revoke_opt_def fun_eq_iff)
      have "indexes_ok ?L1 ?r1"
        using indexes_ok_revoke [of "sub_lookup r" r "(conn, s)" fs cid chs ch] Cons.prems(1) 2 cc c
        by (simp add: registry_ok_def revoke_opt_def del: revoke_entry.simps)
      then have ok: "registry_ok ?r'" unfolding registry_ok_def l by simp
      show ?thesis
        using Some 2 cc l ok
        by (intro later [of "ups @ [\<lparr>upd_sub_id = s, upd_removed = (filter (\<lambda>c. c \<noteq> ch) chs = [])\<rparr>]" ?r'])
          (simp_all add: Let_def remove_from_index_all)
    qed
  qed
qed simp

lemma revoked_subs_iff:
  "s \<in> set (revoked_subs order cid ch m) \<longleftrightarrow>
     s \<in> set order \<and> (\<exists>fs sc. m s = Some (fs, cid, sc) \<and> ch \<in> set (channel_ids sc))"
  by (auto simp: revoked_subs_def split: option.splits)

definition revoke_in_community :: "community \<Rightarrow> uuid \<Rightarrow> sub_entry option \<Rightarrow> sub_entry option" where
  "revoke_in_community cid ch x =
     (case x of
        None \<Rightarrow> None
      | Some (fs, c, sc) \<Rightarrow>
          if c = cid \<and> ch \<in> set (channel_ids sc) then revoke_entry ch (fs, c, sc) else x)"

lemma remove_channel_subscriptions_ok:
  assumes "registry_ok r" and "conn_order order conn r"
  shows "registry_ok (snd (remove_channel_subscriptions_scoped order cid conn ch r)) \<and>
    sub_lookup (snd (remove_channel_subscriptions_scoped order cid conn ch r)) =
      (\<lambda>q. if fst q = conn then revoke_in_community cid ch (sub_lookup r q) else sub_lookup r q)"
proof (cases "subs r conn")
  case None
  then have "(\<lambda>q. if fst q = conn then revoke_in_community cid ch (sub_lookup r q) else sub_lookup r q) =
      sub_lookup r"
    by (auto simp: sub_lookup_def revoke_in_community_def fun_eq_iff)
  with None assms(1) show ?thesis by (simp add: remove_channel_subscriptions_scoped_def)
next
  case (Some m)
  let ?ss = "revoked_subs order cid ch m"
  have o: "distinct order" "set order = dom m"
    using assms(2) Some by (auto simp: conn_order_def iter_order_def)
  have c: "sub_lookup r (conn, s) = m s" for s using Some by (simp add: sub_lookup_def)
  have d: "distinct ?ss" using o(1) by (simp add: revoked_subs_def)
  have cm: "fst (snd e) = cid" if "s \<in> set ?ss" "sub_lookup r (conn, s) = Some e" for s e
    using that c by (auto simp: revoked_subs_iff)
  have eq: "(if s \<in> set ?ss then revoke_opt ch (m s) else m s) = revoke_in_community cid ch (m s)" for s
    using o(2) by (cases "m s") (auto simp: revoked_subs_iff revoke_opt_def revoke_in_community_def)
  have "(\<lambda>q. if fst q = conn \<and> snd q \<in> set ?ss then revoke_opt ch (sub_lookup r q) else sub_lookup r q) =
      (\<lambda>q. if fst q = conn then revoke_in_community cid ch (sub_lookup r q) else sub_lookup r q)"
    using c eq by (simp add: fun_eq_iff) metis
  with revoke_loop_ok [OF assms(1) d cm, where ch = ch and ups = "[]"] Some show ?thesis
    by (simp add: remove_channel_subscriptions_scoped_def)
qed

section \<open>Runs of the registry\<close>

datatype reg_op =
  Register community conn_id sub_id "event_filter list" scope
| RemoveSubscription conn_id sub_id
| RemoveConnection "sub_id list" conn_id
| RemoveChannel "sub_id list" community conn_id uuid

inductive reg_step :: "registry \<Rightarrow> reg_op \<Rightarrow> registry \<Rightarrow> bool" where
  step_register: "reg_step r (Register cid conn sub fs sc) (snd (register_with_scope cid conn sub fs sc r))"
| step_remove: "reg_step r (RemoveSubscription conn sub) (snd (remove_subscription conn sub r))"
| step_remove_conn: "conn_order order conn r \<Longrightarrow>
     reg_step r (RemoveConnection order conn) (snd (remove_connection order conn r))"
| step_remove_channel: "conn_order order conn r \<Longrightarrow>
     reg_step r (RemoveChannel order cid conn ch) (snd (remove_channel_subscriptions_scoped order cid conn ch r))"

inductive_cases reg_stepE: "reg_step r l r'"

text \<open>The abstract table: what the operations do, with no index in sight.\<close>

fun table_after ::
  "reg_op \<Rightarrow> (conn_id \<times> sub_id \<rightharpoonup> sub_entry) \<Rightarrow> (conn_id \<times> sub_id \<rightharpoonup> sub_entry)" where
  "table_after (Register cid conn sub fs sc) L = L((conn, sub) \<mapsto> (fs, cid, sc))"
| "table_after (RemoveSubscription conn sub) L = L((conn, sub) := None)"
| "table_after (RemoveConnection order conn) L = (\<lambda>q. if fst q = conn then None else L q)"
| "table_after (RemoveChannel order cid conn ch) L =
     (\<lambda>q. if fst q = conn then revoke_in_community cid ch (L q) else L q)"

definition reg_start :: "registry \<Rightarrow> bool" where
  "reg_start r \<longleftrightarrow> r = registry_new"

lemma registry_new_ok: "registry_ok registry_new"
  by (auto simp: registry_ok_def indexes_ok_def index_ok_def registry_new_def index_tight_def
      index_at_def sub_lookup_def)

lemma reg_step_ok:
  "reg_step r l r' \<Longrightarrow> registry_ok r \<Longrightarrow> registry_ok r' \<and> sub_lookup r' = table_after l (sub_lookup r)"
  by (erule reg_stepE)
    (simp_all add: register_ok remove_subscription_ok remove_connection_ok remove_channel_subscriptions_ok)

interpretation reg: invariant_system reg_start reg_step registry_ok
  by unfold_locales (auto simp: reg_start_def registry_new_ok dest: reg_step_ok)

section \<open>Routing through the indexes\<close>

text \<open>
  What the indexes rely on: a filter list that matches an event has the event's kind among
  its kinds when it has kinds at all, and one of the event's \<open>p\<close> values beside that kind
  among its kind-and-recipient keys when it has such keys. Then looking an entry up where
  it was filed loses nothing.
\<close>

locale routed_filters =
  fixes fmatch :: "'f \<Rightarrow> 'e \<Rightarrow> bool"
    and kinds_of :: "'f \<Rightarrow> 'k list option"
    and pkeys_of :: "'f \<Rightarrow> 'p list option"
    and kind_of :: "'e \<Rightarrow> 'k"
    and pkeys_at :: "'e \<Rightarrow> 'p list"
  assumes kind_filed: "fmatch f e \<Longrightarrow> kinds_of f = Some ks \<Longrightarrow> kind_of e \<in> set ks"
    and p_filed: "fmatch f e \<Longrightarrow> pkeys_of f = Some ps \<Longrightarrow> \<exists>p \<in> set (pkeys_at e). p \<in> set ps"
begin

lemma route_channel:
  "fmatch f e \<Longrightarrow>
   kinds_of f = None \<or> kind_of e \<in> set (case kinds_of f of None \<Rightarrow> [] | Some ks \<Rightarrow> ks)"
  using kind_filed by (cases "kinds_of f") auto

lemma route_global:
  assumes "fmatch f e"
  obtains (by_p) ps p where "pkeys_of f = Some ps" "p \<in> set ps" "p \<in> set (pkeys_at e)"
  | (by_kind) ks where "pkeys_of f = None" "kinds_of f = Some ks" "kind_of e \<in> set ks"
  | (wild) "pkeys_of f = None" "kinds_of f = None"
  using assms kind_filed p_filed by (metis option.exhaust)

end

lemma extract_kinds_loop_mono: "extract_kinds_loop ks fs = Some out \<Longrightarrow> set ks \<subseteq> set out"
  by (induction ks fs rule: extract_kinds_loop.induct) (auto split: option.splits)

lemma extract_kinds_loop_Some:
  "extract_kinds_loop ks fs = Some out \<Longrightarrow> f \<in> set fs \<Longrightarrow>
   \<exists>kk. filter_kinds f = Some kk \<and> set kk \<subseteq> set out"
proof (induction ks fs rule: extract_kinds_loop.induct)
  case (2 ks g fs)
  then obtain gk where g: "filter_kinds g = Some gk" "extract_kinds_loop (foldl push_new ks gk) fs = Some out"
    by (auto split: option.splits)
  with 2 extract_kinds_loop_mono [OF g(2)] show ?case by auto
qed simp

definition p_keys :: "community \<Rightarrow> nat list \<Rightarrow> string list \<Rightarrow> global_p_kind_key list" where
  "p_keys cid kinds ps =
     concat (map (\<lambda>k. map (\<lambda>p. \<lparr>gp_community = cid, gp_kind = k, gp_p = p\<rparr>) ps) kinds)"

lemma extract_p_loop_step:
  "extract_p_loop cid ks (f # fs) = Some out \<Longrightarrow>
   (filter_kinds f = Some [] \<and> extract_p_loop cid ks fs = Some out) \<or>
   (\<exists>kinds ps. filter_kinds f = Some kinds \<and> map_of (generic_tags f) CHR ''p'' = Some ps \<and>
      extract_p_loop cid (foldl push_new ks (p_keys cid kinds ps)) fs = Some out)"
  by (auto simp: p_keys_def split: option.splits if_splits)

lemma extract_p_loop_mono: "extract_p_loop cid ks fs = Some out \<Longrightarrow> set ks \<subseteq> set out"
proof (induction fs arbitrary: ks)
  case (Cons f fs)
  from extract_p_loop_step [OF Cons.prems] Cons.IH show ?case by fastforce
qed simp

lemma extract_p_loop_Some:
  "extract_p_loop cid ks fs = Some out \<Longrightarrow> f \<in> set fs \<Longrightarrow>
   filter_kinds f = Some [] \<or>
   (\<exists>kinds ps. filter_kinds f = Some kinds \<and> map_of (generic_tags f) CHR ''p'' = Some ps \<and>
      set (p_keys cid kinds ps) \<subseteq> set out)"
proof (induction fs arbitrary: ks)
  case (Cons g fs)
  from extract_p_loop_step [OF Cons.prems(1)] show ?case
  proof (elim disjE exE conjE)
    assume "filter_kinds g = Some []" and e: "extract_p_loop cid ks fs = Some out"
    then show ?thesis using Cons.IH [OF e] Cons.prems(2) by auto
  next
    fix kinds ps
    assume g: "filter_kinds g = Some kinds" "map_of (generic_tags g) CHR ''p'' = Some ps"
      and e: "extract_p_loop cid (foldl push_new ks (p_keys cid kinds ps)) fs = Some out"
    then show ?thesis using Cons.IH [OF e] Cons.prems(2) extract_p_loop_mono [OF e] by auto
  qed
qed simp

definition event_p_keys :: "community \<Rightarrow> stored_event \<Rightarrow> global_p_kind_key list" where
  "event_p_keys cid ev =
     map (\<lambda>p. \<lparr>gp_community = cid, gp_kind = event_kind (the_event ev), gp_p = p\<rparr>) (event_p_tag_values ev)"

interpretation routing: routed_filters filters_match extract_kinds_from_filters
  "extract_global_p_kind_index_keys cid" "\<lambda>ev. event_kind (the_event ev)" "event_p_keys cid" for cid
proof
  fix fs ev ks
  assume "filters_match fs ev"
  then obtain f where f: "f \<in> set fs" "filter_match_one f ev"
    by (auto simp: filters_match_def list_ex_iff)
  { assume "extract_kinds_from_filters fs = Some ks"
    with f show "event_kind (the_event ev) \<in> set ks"
      using extract_kinds_loop_Some [of "[]" fs ks f]
      by (auto simp: extract_kinds_from_filters_def filter_match_one_iff) }
  { fix ps
    assume "extract_global_p_kind_index_keys cid fs = Some ps"
    then have x: "extract_p_loop cid [] fs = Some ps" by (simp add: extract_global_p_kind_index_keys_def)
    have "filter_kinds f \<noteq> Some []" using f(2) by (auto simp: filter_match_one_iff)
    with extract_p_loop_Some [OF x f(1)] obtain kinds vs
      where k: "filter_kinds f = Some kinds" and v: "map_of (generic_tags f) CHR ''p'' = Some vs"
        and s: "set (p_keys cid kinds vs) \<subseteq> set ps" by auto
    from f(2) k have "event_kind (the_event ev) \<in> set kinds" by (auto simp: filter_match_one_iff)
    moreover from map_of_SomeD [OF v] f(2) have "generic_tag_match ev (CHR ''p'', vs)"
      by (auto simp: filter_match_one_iff)
    then obtain p where "p \<in> set vs" "p \<in> set (event_p_tag_values ev)"
      by (auto simp: generic_tag_match_other event_p_tag_values_def)
    ultimately show "\<exists>p \<in> set (event_p_keys cid ev). p \<in> set ps"
      using s by (auto simp: p_keys_def event_p_keys_def) }
qed

section \<open>Fan-out\<close>

definition deliverable :: "registry \<Rightarrow> community \<Rightarrow> stored_event \<Rightarrow> conn_id \<times> sub_id \<Rightarrow> bool" where
  "deliverable r cid ev p \<longleftrightarrow>
     (\<exists>fs sc. sub_lookup r p = Some (fs, cid, sc) \<and> matches_channel sc (channel_id ev) \<and> filters_match fs ev)"

lemma push_match_eq:
  "push_match r cid ev acc p = (if deliverable r cid ev p then push_new acc p else acc)"
  by (auto simp: push_match_def deliverable_def sub_lookup_def split: option.splits)

lemma set_push_matches [simp]:
  "set (foldl (push_match r cid ev) acc ps) = set acc \<union> {p \<in> set ps. deliverable r cid ev p}"
  by (induction ps arbitrary: acc) (auto simp: push_match_eq)

lemma distinct_push_matches [simp]:
  "distinct acc \<Longrightarrow> distinct (foldl (push_match r cid ev) acc ps)"
  by (induction ps arbitrary: acc) (auto simp: push_match_eq)

lemma set_push_match_rows:
  "set (foldl (\<lambda>acc x. foldl (push_match r cid ev) acc (rows x)) acc xs) =
     set acc \<union> {p. \<exists>x \<in> set xs. p \<in> set (rows x) \<and> deliverable r cid ev p}"
  by (induction xs arbitrary: acc) auto

lemma distinct_push_match_rows:
  "distinct acc \<Longrightarrow> distinct (foldl (\<lambda>acc x. foldl (push_match r cid ev) acc (rows x)) acc xs)"
  by (induction xs arbitrary: acc) auto

definition candidates :: "community \<Rightarrow> stored_event \<Rightarrow> registry \<Rightarrow> (conn_id \<times> sub_id) set" where
  "candidates cid ev r =
     (case channel_id ev of
        Some ch \<Rightarrow>
          set (index_at (channel_kind_index r) (cid, \<lparr>ik_channel = ch, ik_kind = event_kind (the_event ev)\<rparr>)) \<union>
          set (index_at (channel_wildcard_index r) (cid, ch))
      | None \<Rightarrow>
          (\<Union>key \<in> set (event_p_keys cid ev). set (index_at (global_p_kind_index r) key)) \<union>
          set (index_at (global_kind_index r) (cid, event_kind (the_event ev))) \<union>
          set (index_at (global_wildcard_index r) cid))"

lemma set_fan_out: "set (fan_out_scoped cid ev r) = {p \<in> candidates cid ev r. deliverable r cid ev p}"
  by (auto simp: fan_out_scoped_def candidates_def Let_def set_push_match_rows event_p_keys_def
      split: option.splits)

lemma distinct_fan_out: "distinct (fan_out_scoped cid ev r)"
  by (auto simp: fan_out_scoped_def Let_def distinct_push_match_rows split: option.splits)

lemma index_at_ok: "index_ok keysf L m \<Longrightarrow> L p = Some e \<Longrightarrow> k \<in> set (keysf e) \<Longrightarrow> p \<in> set (index_at m k)"
  by (auto simp: index_ok_def)

lemma deliverable_candidate:
  assumes "registry_ok r" and "deliverable r cid ev p"
  shows "p \<in> candidates cid ev r"
proof -
  from assms(2) obtain fs sc where l: "sub_lookup r p = Some (fs, cid, sc)"
    and s: "matches_channel sc (channel_id ev)" and f: "filters_match fs ev"
    by (auto simp: deliverable_def)
  from assms(1) have ok: "index_ok ck_keys (sub_lookup r) (channel_kind_index r)"
    "index_ok cw_keys (sub_lookup r) (channel_wildcard_index r)"
    "index_ok gk_keys (sub_lookup r) (global_kind_index r)"
    "index_ok gp_keys (sub_lookup r) (global_p_kind_index r)"
    "index_ok gw_keys (sub_lookup r) (global_wildcard_index r)"
    by (simp_all add: registry_ok_def indexes_ok_def)
  show ?thesis
  proof (cases sc)
    case (Channels chs)
    with s obtain ch where ch: "channel_id ev = Some ch" "ch \<in> set chs" by (cases "channel_id ev") auto
    from routing.route_channel [OF f] show ?thesis
      using index_at_ok [OF ok(1) l, of "(cid, \<lparr>ik_channel = ch, ik_kind = event_kind (the_event ev)\<rparr>)"]
        index_at_ok [OF ok(2) l, of "(cid, ch)"] Channels ch
      by (cases "extract_kinds_from_filters fs") (auto simp: candidates_def)
  next
    case Global
    with s have n: "channel_id ev = None" by (cases "channel_id ev") auto
    from f show ?thesis
    proof (rule routing.route_global [where cid = cid])
      fix ps q
      assume "extract_global_p_kind_index_keys cid fs = Some ps" "q \<in> set ps" "q \<in> set (event_p_keys cid ev)"
      then show ?thesis using index_at_ok [OF ok(4) l, of q] Global n by (auto simp: candidates_def)
    next
      fix ks
      assume "extract_global_p_kind_index_keys cid fs = None" "extract_kinds_from_filters fs = Some ks"
        "event_kind (the_event ev) \<in> set ks"
      then show ?thesis
        using index_at_ok [OF ok(3) l, of "(cid, event_kind (the_event ev))"] Global n
        by (auto simp: candidates_def)
    next
      assume "extract_global_p_kind_index_keys cid fs = None" "extract_kinds_from_filters fs = None"
      then show ?thesis
        using index_at_ok [OF ok(5) l, of cid] Global n by (auto simp: candidates_def)
    qed
  qed
qed

lemma set_fan_out_ok: "registry_ok r \<Longrightarrow> set (fan_out_scoped cid ev r) = {p. deliverable r cid ev p}"
  by (auto simp: set_fan_out deliverable_candidate)

lemma revoke_in_community_matches:
  "(\<exists>fs sc. revoke_in_community cid ch x = Some (fs, cid', sc) \<and> matches_channel sc (channel_id ev) \<and> filters_match fs ev) \<longleftrightarrow>
   (\<exists>fs sc. x = Some (fs, cid', sc) \<and> matches_channel sc (channel_id ev) \<and> filters_match fs ev) \<and>
   \<not> (cid' = cid \<and> channel_id ev = Some ch)"
proof (cases x)
  case (Some e)
  obtain fs c sc where e: "e = (fs, c, sc)" by (cases e)
  show ?thesis
  proof (cases sc)
    case Global
    with Some e show ?thesis by (cases "channel_id ev") (auto simp: revoke_in_community_def)
  next
    case (Channels chs)
    with Some e show ?thesis
      by (cases "channel_id ev") (auto simp: revoke_in_community_def filter_empty_conv)
  qed
qed (simp add: revoke_in_community_def)

section \<open>Properties\<close>

text \<open>
  C28: The registry implements the abstract table of subscriptions. From every reachable
  registry, each operation changes the authoritative table exactly as the abstract operation
  says: a registration replaces the entry with the same id, a removal deletes one entry or
  all entries of a connection, a revocation narrows the connection's entries in that
  community and deletes those left without a channel. Nothing else changes.
\<close>

theorem registry_refines_table:
  assumes "reachable reg_start reg_step r" and "reg_step r l r'"
  shows "sub_lookup r' = table_after l (sub_lookup r)"
  using reg.reachable_inv [OF assms(1)] reg_step_ok [OF assms(2)] by simp

theorem registry_refines_table_witness:
  "sub_lookup (snd (register_with_scope ''t'' ''c'' ''s'' [] Global registry_new)) =
     [(''c'', ''s'') \<mapsto> ([], ''t'', Global)]"
proof -
  have "reachable reg_start reg_step registry_new" by (rule reach_start) (simp add: reg_start_def)
  from registry_refines_table [OF this step_register, of "''t''" "''c''" "''s''" "[]" Global]
  show ?thesis by (simp add: sub_lookup_def registry_new_def fun_eq_iff)
qed

text \<open>
  C19: Fan-out is exact. In every reachable registry the recipients of an event in a
  community are, each once, precisely the subscriptions of that community whose scope covers
  the event's channel (or that are global, for a global event) and whose filters match it:
  the five indexes lose no subscription and add none.
\<close>

theorem fan_out_exact:
  assumes "reachable reg_start reg_step r"
  shows "distinct (fan_out_scoped cid ev r) \<and>
    set (fan_out_scoped cid ev r) =
      {p. \<exists>fs sc. sub_lookup r p = Some (fs, cid, sc) \<and> matches_channel sc (channel_id ev) \<and> filters_match fs ev}"
  using set_fan_out_ok [OF reg.reachable_inv [OF assms], of cid ev] distinct_fan_out
  by (simp add: deliverable_def)

definition any_filter :: event_filter where
  "any_filter = \<lparr>filter_ids = None, filter_authors = None, filter_kinds = None, filter_since = None,
     filter_until = None, generic_tags = []\<rparr>"

definition note_in :: "uuid option \<Rightarrow> stored_event" where
  "note_in ch = stored_event_new 7 \<lparr>event_id = ''ab'', event_pubkey = ''cd'', created_at = 6, event_kind = 9,
     event_tags = [], content = ''hi'', event_sig = []\<rparr> ch"

definition one_sub :: registry where
  "one_sub = snd (register_with_scope ''t'' ''c'' ''s'' [any_filter] (Channels [''x'', ''y'']) registry_new)"

lemma one_sub_reachable: "reachable reg_start reg_step one_sub"
proof -
  have "reachable reg_start reg_step registry_new" by (rule reach_start) (simp add: reg_start_def)
  then show ?thesis unfolding one_sub_def by (rule reach_step) (rule step_register)
qed

lemma one_sub_lookup: "sub_lookup one_sub = [(''c'', ''s'') \<mapsto> ([any_filter], ''t'', Channels [''x'', ''y''])]"
  unfolding one_sub_def register_ok(2) [OF registry_new_ok]
  by (simp add: sub_lookup_def registry_new_def fun_eq_iff)

lemma any_filter_matches [simp]: "filters_match [any_filter] ev"
  by (simp add: filters_match_def filter_match_one_def any_filter_def)

theorem fan_out_exact_witness:
  "set (fan_out_scoped ''t'' (note_in (Some ''x'')) one_sub) = {(''c'', ''s'')}"
  using fan_out_exact [OF one_sub_reachable, of "''t''" "note_in (Some ''x'')"]
  by (auto simp: one_sub_lookup note_in_def stored_event_new_def)

text \<open>
  C20: No leak, even with stale indexes. Whatever the indexes hold, a recipient of an event
  is at that moment a subscription of the same community whose authoritative scope covers
  the event's channel, or a global one for an event without a channel: events never cross
  communities, channel events never reach global subscriptions and vice versa.
\<close>

theorem fan_out_no_leak:
  "set (fan_out_scoped cid ev (r\<lparr>channel_kind_index := ck, channel_wildcard_index := cw,
      global_kind_index := gk, global_p_kind_index := gp, global_wildcard_index := gw\<rparr>)) \<subseteq>
   {p. \<exists>fs sc. sub_lookup r p = Some (fs, cid, sc) \<and> filters_match fs ev \<and>
      (case channel_id ev of None \<Rightarrow> sc = Global | Some ch \<Rightarrow> ch \<in> set (channel_ids sc))}"
proof
  fix p
  let ?r = "r\<lparr>channel_kind_index := ck, channel_wildcard_index := cw,
      global_kind_index := gk, global_p_kind_index := gp, global_wildcard_index := gw\<rparr>"
  assume "p \<in> set (fan_out_scoped cid ev ?r)"
  then have "deliverable ?r cid ev p" by (simp add: set_fan_out)
  moreover have "sub_lookup ?r = sub_lookup r" by (rule sub_lookup_subs) simp
  ultimately obtain fs sc where p: "sub_lookup r p = Some (fs, cid, sc)" "filters_match fs ev"
    and "matches_channel sc (channel_id ev)" by (auto simp: deliverable_def)
  then have "case channel_id ev of None \<Rightarrow> sc = Global | Some ch \<Rightarrow> ch \<in> set (channel_ids sc)"
    by (cases sc; cases "channel_id ev") simp_all
  with p show "p \<in> {p. \<exists>fs sc. sub_lookup r p = Some (fs, cid, sc) \<and> filters_match fs ev \<and>
      (case channel_id ev of None \<Rightarrow> sc = Global | Some ch \<Rightarrow> ch \<in> set (channel_ids sc))}" by blast
qed

text \<open>
  Revoking a channel from a connection takes effect exactly. Afterwards no event of this
  channel and community goes to the connection, and every other delivery, of this channel
  to other connections or of any other event to anyone, is as before.
\<close>

theorem revocation_exact:
  assumes "reachable reg_start reg_step r" and "conn_order order conn r"
  shows "set (fan_out_scoped cid' ev (snd (remove_channel_subscriptions_scoped order cid conn ch r))) =
    (if cid' = cid \<and> channel_id ev = Some ch
     then {p \<in> set (fan_out_scoped cid' ev r). fst p \<noteq> conn} else set (fan_out_scoped cid' ev r))"
proof -
  note ok = reg.reachable_inv [OF assms(1)]
  note rev = remove_channel_subscriptions_ok [OF ok assms(2), of cid ch]
  show ?thesis
    using rev revoke_in_community_matches [of cid ch _ cid' ev]
    by (auto simp: set_fan_out_ok ok deliverable_def split: if_splits)
qed

theorem revocation_exact_witness:
  "set (fan_out_scoped ''t'' (note_in (Some ''x'')) (snd (remove_channel_subscriptions_scoped [''s''] ''t'' ''c'' ''x'' one_sub))) = {} \<and>
   set (fan_out_scoped ''t'' (note_in (Some ''y'')) (snd (remove_channel_subscriptions_scoped [''s''] ''t'' ''c'' ''x'' one_sub))) = {(''c'', ''s'')}"
proof -
  have o: "conn_order [''s''] ''c'' one_sub"
  proof -
    have "sub_lookup one_sub (''c'', x) = ([''s'' \<mapsto> ([any_filter], ''t'', Channels [''x'', ''y''])]) x" for x
      by (simp add: one_sub_lookup)
    then have "m = [''s'' \<mapsto> ([any_filter], ''t'', Channels [''x'', ''y''])]" if "subs one_sub ''c'' = Some m" for m
      using that by (auto simp: sub_lookup_def fun_eq_iff)
    then show ?thesis by (auto simp: conn_order_def iter_order_def split: if_splits)
  qed
  have f: "set (fan_out_scoped ''t'' (note_in (Some z)) one_sub) = (if z \<in> {''x'', ''y''} then {(''c'', ''s'')} else {})" for z
    by (auto simp: set_fan_out_ok reg.reachable_inv [OF one_sub_reachable] deliverable_def one_sub_lookup
        note_in_def stored_event_new_def)
  have c: "channel_id (note_in z) = z" for z by (simp add: note_in_def stored_event_new_def)
  show ?thesis
    using revocation_exact [OF one_sub_reachable o, of "''t''" "note_in (Some ''x'')" "''t''" "''x''"]
      revocation_exact [OF one_sub_reachable o, of "''t''" "note_in (Some ''y'')" "''t''" "''x''"]
    by (auto simp: f c)
qed

text \<open>
  The indexes leak no memory. In a reachable registry an index names only live
  subscriptions, no key is kept with an empty vector, and when the last subscription is gone
  all five indexes are the empty map.
\<close>

theorem indexes_do_not_leak:
  assumes "reachable reg_start reg_step r"
  shows "index_tight (channel_kind_index r) \<and> index_tight (channel_wildcard_index r) \<and>
    index_tight (global_kind_index r) \<and> index_tight (global_p_kind_index r) \<and>
    index_tight (global_wildcard_index r) \<and>
    (sub_lookup r = Map.empty \<longrightarrow>
       channel_kind_index r = Map.empty \<and> channel_wildcard_index r = Map.empty \<and>
       global_kind_index r = Map.empty \<and> global_p_kind_index r = Map.empty \<and>
       global_wildcard_index r = Map.empty)"
proof -
  have "indexes_ok (sub_lookup r) r" using reg.reachable_inv [OF assms] by (simp add: registry_ok_def)
  then show ?thesis
    unfolding indexes_ok_def by (intro conjI impI) (auto intro: index_ok_tight index_ok_empty)
qed

theorem indexes_do_not_leak_witness:
  "channel_wildcard_index (snd (remove_subscription ''c'' ''s'' one_sub)) = Map.empty"
proof -
  have "reachable reg_start reg_step (snd (remove_subscription ''c'' ''s'' one_sub))"
    by (rule reach_step [OF one_sub_reachable step_remove])
  moreover have "sub_lookup (snd (remove_subscription ''c'' ''s'' one_sub)) = Map.empty"
    by (simp add: remove_subscription_ok reg.reachable_inv [OF one_sub_reachable] one_sub_lookup)
  ultimately show ?thesis using indexes_do_not_leak by blast
qed

text \<open>
  The connection count is not the number of connections with an active subscription:
  closing the only subscription of a connection leaves the connection counted.
\<close>

theorem total_connections_counts_idle:
  "total_subscriptions (snd (remove_subscription ''c'' ''s''
     (snd (register_scoped ''t'' ''c'' ''s'' [any_filter] None registry_new)))) = 0 \<and>
   total_connections (snd (remove_subscription ''c'' ''s''
     (snd (register_scoped ''t'' ''c'' ''s'' [any_filter] None registry_new)))) = 1"
proof -
  let ?r = "snd (remove_subscription ''c'' ''s''
     (snd (register_scoped ''t'' ''c'' ''s'' [any_filter] None registry_new)))"
  have "subs ?r = [''c'' \<mapsto> Map.empty]"
    by (simp add: register_scoped_def register_with_scope_def remove_subscription_def registry_new_def
        index_global_all remove_from_index_all Let_def)
  then show ?thesis by (simp add: total_subscriptions_def total_connections_def)
qed

end
