(* ===== verification/Pairing_Session.thy ===== *)
theory Pairing_Session
  imports Nostr_Events
begin

text \<open>
  Device pairing (\<open>crates/buzz-core/src/pairing/{types,mod,crypto,session}.rs\<close>): the messages,
  the key derivations and the session state machine of one device. Byte arrays are byte
  strings. HKDF, elliptic-curve keys, NIP-44, JSON, event signing and hexadecimal coding are
  library code, the fields of \<open>pairing_env\<close>; the clock and the random values an operation draws
  are its arguments. A method that takes \<open>&mut self\<close> returns its result and the session.
\<close>

section \<open>Messages and errors\<close>

type_synonym bytes = string

datatype abort_reason =
  AbortSasMismatch | AbortUserDenied | AbortTimeout | AbortProtocolError | AbortUnknown

datatype payload_type = Nsec | Bunker | Connect | Custom

datatype pairing_message =
  Offer string nat
| SasConfirm string
| Payload payload_type string
| Complete bool
| Abort abort_reason

datatype pairing_error =
  InvalidQr string | InvalidSessionId | SasMismatch | TranscriptMismatch
| UnexpectedMessage string string | SessionExpired | Nip44 string | Json string
| InvalidPubkey string | SigningError string

definition message_name :: "pairing_message \<Rightarrow> string" where
  "message_name got =
     (case got of
        Offer i v \<Rightarrow> ''offer''
      | SasConfirm h \<Rightarrow> ''sas-confirm''
      | Payload t p \<Rightarrow> ''payload''
      | Complete b \<Rightarrow> ''complete''
      | Abort r \<Rightarrow> ''abort'')"

definition unexpected :: "string \<Rightarrow> pairing_message \<Rightarrow> pairing_error" where
  "unexpected expected got = UnexpectedMessage expected (message_name got)"

section \<open>The environment\<close>

type_synonym secret_key = string

record pairing_env =
  hkdf_extract :: "bytes \<Rightarrow> bytes \<Rightarrow> bytes"
  hkdf_expand :: "bytes \<Rightarrow> bytes \<Rightarrow> nat \<Rightarrow> bytes"
  public_key :: "secret_key \<Rightarrow> pubkey"
  pubkey_bytes :: "pubkey \<Rightarrow> bytes"
  generate_shared_key :: "secret_key \<Rightarrow> pubkey \<Rightarrow> (string, bytes) result"
  nip44_encrypt :: "secret_key \<Rightarrow> pubkey \<Rightarrow> string \<Rightarrow> bytes \<Rightarrow> (string, string) result"
  nip44_decrypt :: "secret_key \<Rightarrow> pubkey \<Rightarrow> string \<Rightarrow> (string, string) result"
  to_json :: "pairing_message \<Rightarrow> (string, string) result"
  from_json :: "string \<Rightarrow> (string, pairing_message) result"
  sign_event :: "secret_key \<Rightarrow> nat \<Rightarrow> string \<Rightarrow> tag list \<Rightarrow> nat \<Rightarrow> (string, event) result"
  verify_event :: "event \<Rightarrow> (string, unit) result"
  to_hex :: "bytes \<Rightarrow> string"
  of_hex :: "string \<Rightarrow> bytes option"

section \<open>Key derivation\<close>

definition INFO_SESSION_ID :: bytes where "INFO_SESSION_ID = ''nostr-pair-session-id''"
definition INFO_SAS :: bytes where "INFO_SAS = ''nostr-pair-sas-v1''"
definition INFO_TRANSCRIPT :: bytes where "INFO_TRANSCRIPT = ''nostr-pair-transcript-v1''"

definition hkdf32 :: "pairing_env \<Rightarrow> bytes \<Rightarrow> bytes \<Rightarrow> bytes \<Rightarrow> bytes" where
  "hkdf32 env salt ikm info = take 32 (hkdf_expand env (hkdf_extract env salt ikm) info 32)"

definition derive_session_id :: "pairing_env \<Rightarrow> bytes \<Rightarrow> bytes" where
  "derive_session_id env secret = hkdf32 env [] secret INFO_SESSION_ID"

definition from_be_bytes :: "bytes \<Rightarrow> nat" where
  "from_be_bytes bs = foldl (\<lambda>acc b. acc * 256 + of_char b) 0 bs"

definition derive_sas :: "pairing_env \<Rightarrow> bytes \<Rightarrow> bytes \<Rightarrow> nat \<times> bytes" where
  "derive_sas env ecdh secret =
     (let sas_input = hkdf32 env secret ecdh INFO_SAS
      in (from_be_bytes (take 4 sas_input) mod 1000000, sas_input))"

definition derive_transcript_hash ::
  "pairing_env \<Rightarrow> bytes \<Rightarrow> bytes \<Rightarrow> bytes \<Rightarrow> bytes \<Rightarrow> bytes \<Rightarrow> bytes" where
  "derive_transcript_hash env sid source_pk target_pk sas_in secret =
     hkdf32 env secret (sid @ source_pk @ target_pk @ sas_in) INFO_TRANSCRIPT"

text \<open>The format \<open>{code:06}\<close>: decimal, padded with zeros to six digits.\<close>

definition format_sas :: "nat \<Rightarrow> string" where
  "format_sas code =
     (let ds = nat_to_string code in replicate (6 - length ds) CHR ''0'' @ ds)"

section \<open>Sessions\<close>

datatype role = Source | Target

datatype session_state =
  Waiting | Confirming | AwaitingConfirmation | Transferring | PayloadExchanged | Completed | Aborted

definition state_name :: "session_state \<Rightarrow> string" where
  "state_name st =
     (case st of
        Waiting \<Rightarrow> ''Waiting'' | Confirming \<Rightarrow> ''Confirming''
      | AwaitingConfirmation \<Rightarrow> ''AwaitingConfirmation'' | Transferring \<Rightarrow> ''Transferring''
      | PayloadExchanged \<Rightarrow> ''PayloadExchanged'' | Completed \<Rightarrow> ''Completed'' | Aborted \<Rightarrow> ''Aborted'')"

definition role_name :: "role \<Rightarrow> string" where
  "role_name r = (case r of Source \<Rightarrow> ''Source'' | Target \<Rightarrow> ''Target'')"

text \<open>Instants and durations count nanoseconds.\<close>

record session =
  role :: role
  state :: session_state
  keys :: secret_key
  session_secret :: bytes
  relay_urls :: "string list"
  peer_pubkey :: "pubkey option"
  session_id :: bytes
  sas_code :: "nat option"
  sas_input :: "bytes option"
  processed_ids :: "string set"
  started_at :: nat
  timeout :: nat

record qr_payload =
  qr_source_pubkey :: pubkey
  qr_session_secret :: bytes
  qr_relays :: "string list"
  qr_version :: nat

definition DEFAULT_TIMEOUT :: nat where "DEFAULT_TIMEOUT = 120 * 1000000000"

definition is_expired :: "nat \<Rightarrow> session \<Rightarrow> bool" where
  "is_expired now s \<longleftrightarrow> now - started_at s > timeout s"

definition check_expired :: "nat \<Rightarrow> session \<Rightarrow> (pairing_error, unit) result" where
  "check_expired now s = (if is_expired now s then Err SessionExpired else Ok ())"

definition expect_state :: "session_state \<Rightarrow> session \<Rightarrow> (pairing_error, unit) result" where
  "expect_state expected s =
     (if state s \<noteq> expected
      then Err (UnexpectedMessage (''state '' @ state_name expected) (''state '' @ state_name (state s)))
      else Ok ())"

definition expect_role :: "role \<Rightarrow> session \<Rightarrow> (pairing_error, unit) result" where
  "expect_role expected s =
     (if role s \<noteq> expected
      then Err (UnexpectedMessage (''role '' @ role_name expected) (''role '' @ role_name (role s)))
      else Ok ())"

text \<open>The three guards most operations start with.\<close>

definition guard :: "nat \<Rightarrow> session_state \<Rightarrow> role \<Rightarrow> session \<Rightarrow> (pairing_error, unit) result" where
  "guard now st r s =
     and_then (check_expired now s) (\<lambda>_. and_then (expect_state st s) (\<lambda>_. expect_role r s))"

definition has_p_tag :: "pubkey \<Rightarrow> event \<Rightarrow> bool" where
  "has_p_tag pk ev \<longleftrightarrow>
     list_ex (\<lambda>t. tag_is ''p'' t \<and> tag_content t = Some pk) (event_tags ev)"

definition validate_event_basics :: "pairing_env \<Rightarrow> session \<Rightarrow> event \<Rightarrow> (pairing_error, unit) result" where
  "validate_event_basics env s ev =
     (case verify_event env ev of
        Inl e \<Rightarrow> Err (InvalidPubkey (''event verification failed: '' @ e))
      | Inr _ \<Rightarrow>
          if event_id ev \<in> processed_ids s
          then Err (UnexpectedMessage ''new event'' ''duplicate event id'')
          else if event_kind ev \<noteq> KIND_PAIRING
          then Err (UnexpectedMessage (''kind '' @ nat_to_string KIND_PAIRING) (''kind '' @ nat_to_string (event_kind ev)))
          else if \<not> has_p_tag (public_key env (keys s)) ev
          then Err (InvalidPubkey ''event p-tag does not match our ephemeral pubkey'')
          else Ok ())"

definition validate_event_from_peer ::
  "pairing_env \<Rightarrow> session \<Rightarrow> event \<Rightarrow> (pairing_error, unit) result" where
  "validate_event_from_peer env s ev =
     and_then (validate_event_basics env s ev) (\<lambda>_.
       case peer_pubkey s of
         None \<Rightarrow> Ok ()
       | Some expected \<Rightarrow>
           if event_pubkey ev \<noteq> expected
           then Err (InvalidPubkey (''event from '' @ event_pubkey ev @ '' but expected '' @ expected))
           else Ok ())"

text \<open>The en dash and the less-or-equal sign of two messages, in UTF-8.\<close>

definition en_dash :: string where "en_dash = [CHR 0xE2, CHR 0x80, CHR 0x93]"
definition le_sign :: string where "le_sign = [CHR 0xE2, CHR 0x89, CHR 0xA4]"

text \<open>
  A plaintext over the limit is erased before its length is reported, so the message says
  zero bytes.
\<close>

definition decrypt_message :: "pairing_env \<Rightarrow> session \<Rightarrow> event \<Rightarrow> (pairing_error, pairing_message) result" where
  "decrypt_message env s ev =
     (let content_len = length (content ev) in
      if \<not> (132 \<le> content_len \<and> content_len \<le> 87472)
      then Err (UnexpectedMessage (''NIP-44 content (132'' @ en_dash @ ''87472 chars)'') (nat_to_string content_len @ '' chars''))
      else case nip44_decrypt env (keys s) (event_pubkey ev) (content ev) of
             Inl e \<Rightarrow> Err (Nip44 e)
           | Inr decrypted \<Rightarrow>
               if length decrypted > 65535
               then Err (UnexpectedMessage (''plaintext '' @ le_sign @ '' 65535 bytes'') (nat_to_string 0 @ '' bytes''))
               else case from_json env decrypted of Inl e \<Rightarrow> Err (Json e) | Inr msg \<Rightarrow> Ok msg)"

text \<open>What building an event draws: the encryption nonce, the clock, a random 64-bit number.\<close>

record draw =
  nonce :: bytes
  unix_now :: nat
  random_u64 :: nat

definition build_event ::
  "pairing_env \<Rightarrow> draw \<Rightarrow> session \<Rightarrow> pairing_message \<Rightarrow> (pairing_error, event) result" where
  "build_event env d s msg =
     (case peer_pubkey s of
        None \<Rightarrow> Err (InvalidPubkey ''no peer pubkey set'')
      | Some peer \<Rightarrow>
          (case to_json env msg of
             Inl e \<Rightarrow> Err (Json e)
           | Inr plaintext \<Rightarrow>
               (case nip44_encrypt env (keys s) peer plaintext (nonce d) of
                  Inl e \<Rightarrow> Err (Nip44 e)
                | Inr encrypted \<Rightarrow>
                    (case sign_event env (keys s) KIND_PAIRING encrypted [[''p'', peer]]
                            (unix_now d - random_u64 d mod 31) of
                       Inl e \<Rightarrow> Err (SigningError e)
                     | Inr ev \<Rightarrow> Ok ev))))"

definition record_event :: "event \<Rightarrow> session \<Rightarrow> session" where
  "record_event ev s = s\<lparr>processed_ids := insert (event_id ev) (processed_ids s)\<rparr>"

text \<open>A 32-byte array from hexadecimal text.\<close>

definition of_hex32 :: "pairing_env \<Rightarrow> string \<Rightarrow> bytes option" where
  "of_hex32 env t = (case of_hex env t of Some b \<Rightarrow> if length b = 32 then Some b else None | None \<Rightarrow> None)"

section \<open>Source operations\<close>

definition new_source :: "pairing_env \<Rightarrow> nat \<Rightarrow> secret_key \<Rightarrow> bytes \<Rightarrow> string \<Rightarrow> session \<times> qr_payload" where
  "new_source env now sk secret relay_url =
     (\<lparr>role = Source, state = Waiting, keys = sk, session_secret = secret, relay_urls = [relay_url],
       peer_pubkey = None, session_id = derive_session_id env secret, sas_code = None, sas_input = None,
       processed_ids = {}, started_at = now, timeout = DEFAULT_TIMEOUT\<rparr>,
      \<lparr>qr_source_pubkey = public_key env sk, qr_session_secret = secret, qr_relays = [relay_url],
       qr_version = 1\<rparr>)"

definition accept_offer :: "pairing_env \<Rightarrow> session \<Rightarrow> pairing_message \<Rightarrow> (pairing_error, unit) result" where
  "accept_offer env s msg =
     (case msg of
        Offer sid_hex version \<Rightarrow>
          if version \<noteq> 1
          then Err (UnexpectedMessage ''version 1'' (''version '' @ nat_to_string version))
          else if of_hex32 env sid_hex = Some (session_id s) then Ok ()
          else Err InvalidSessionId
      | other \<Rightarrow> Err (unexpected ''offer'' other))"

definition handle_offer ::
  "pairing_env \<Rightarrow> nat \<Rightarrow> event \<Rightarrow> session \<Rightarrow> (pairing_error, string) result \<times> session" where
  "handle_offer env now ev s =
     try_in s (guard now Waiting Source s) (\<lambda>_.
     try_in s (validate_event_basics env s ev) (\<lambda>_.
     try_in s (decrypt_message env s ev) (\<lambda>msg.
     try_in s (accept_offer env s msg) (\<lambda>_.
       let peer = event_pubkey ev; s1 = s\<lparr>peer_pubkey := Some peer\<rparr> in
       case generate_shared_key env (keys s) peer of
         Inl e \<Rightarrow> (Err (SigningError e), s1)
       | Inr ecdh \<Rightarrow>
           (let (code, sas_in) = derive_sas env ecdh (session_secret s) in
            (Ok (format_sas code),
             record_event ev (s1\<lparr>sas_code := Some code, sas_input := Some sas_in, state := Confirming\<rparr>)))))))"

definition confirm_sas ::
  "pairing_env \<Rightarrow> nat \<Rightarrow> draw \<Rightarrow> session \<Rightarrow> (pairing_error, event) result \<times> session" where
  "confirm_sas env now d s =
     try_in s (guard now Confirming Source s) (\<lambda>_.
       case sas_input s of
         None \<Rightarrow> (Err SasMismatch, s)
       | Some sas_in \<Rightarrow>
           (case peer_pubkey s of
              None \<Rightarrow> (Err (InvalidPubkey ''no peer''), s)
            | Some peer \<Rightarrow>
                (let transcript_hash =
                       derive_transcript_hash env (session_id s) (pubkey_bytes env (public_key env (keys s)))
                         (pubkey_bytes env peer) sas_in (session_secret s)
                 in try_in s (build_event env d s (SasConfirm (to_hex env transcript_hash))) (\<lambda>ev.
                      (Ok ev, s\<lparr>state := Transferring\<rparr>)))))"

definition take_payload ::
  "event \<Rightarrow> session \<Rightarrow> pairing_message \<Rightarrow> (pairing_error, payload_type \<times> string) result \<times> session" where
  "take_payload ev s msg =
     (case msg of
        Payload pt p \<Rightarrow> (Ok (pt, p), record_event ev (s\<lparr>state := PayloadExchanged\<rparr>))
      | other \<Rightarrow> (Err (unexpected ''payload'' other), s))"

definition handle_return_payload ::
  "pairing_env \<Rightarrow> nat \<Rightarrow> event \<Rightarrow> session \<Rightarrow> (pairing_error, payload_type \<times> string) result \<times> session" where
  "handle_return_payload env now ev s =
     try_in s (guard now Transferring Source s) (\<lambda>_.
     try_in s (validate_event_from_peer env s ev) (\<lambda>_.
     try_in s (decrypt_message env s ev) (take_payload ev s)))"

definition send_source_complete ::
  "pairing_env \<Rightarrow> nat \<Rightarrow> draw \<Rightarrow> bool \<Rightarrow> session \<Rightarrow> (pairing_error, event) result \<times> session" where
  "send_source_complete env now d success s =
     try_in s (guard now PayloadExchanged Source s) (\<lambda>_.
     try_in s (build_event env d s (Complete success)) (\<lambda>ev.
       (Ok ev, s\<lparr>state := (if success then Completed else Aborted)\<rparr>)))"

definition send_payload ::
  "pairing_env \<Rightarrow> nat \<Rightarrow> draw \<Rightarrow> payload_type \<Rightarrow> string \<Rightarrow> session \<Rightarrow> (pairing_error, event) result \<times> session" where
  "send_payload env now d pt p s =
     try_in s (guard now Transferring Source s) (\<lambda>_.
     try_in s (build_event env d s (Payload pt p)) (\<lambda>ev.
       (Ok ev, s\<lparr>state := PayloadExchanged\<rparr>)))"

definition handle_complete ::
  "pairing_env \<Rightarrow> nat \<Rightarrow> event \<Rightarrow> session \<Rightarrow> (pairing_error, unit) result \<times> session" where
  "handle_complete env now ev s =
     try_in s (guard now PayloadExchanged Source s) (\<lambda>_.
     try_in s (validate_event_from_peer env s ev) (\<lambda>_.
     try_in s (decrypt_message env s ev) (\<lambda>msg.
       case msg of
         Complete success \<Rightarrow>
           if success then (Ok (), record_event ev (s\<lparr>state := Completed\<rparr>))
           else (Err (UnexpectedMessage ''complete(success=true)'' ''complete(success=false)''),
                 s\<lparr>state := Aborted\<rparr>)
       | other \<Rightarrow> (Err (unexpected ''complete'' other), s))))"

section \<open>Target operations\<close>

definition new_target ::
  "pairing_env \<Rightarrow> nat \<Rightarrow> draw \<Rightarrow> secret_key \<Rightarrow> qr_payload \<Rightarrow> (pairing_error, session \<times> event) result" where
  "new_target env now d sk qr =
     (case generate_shared_key env sk (qr_source_pubkey qr) of
        Inl e \<Rightarrow> Err (SigningError e)
      | Inr ecdh \<Rightarrow>
          (let sid = derive_session_id env (qr_session_secret qr);
               (code, sas_in) = derive_sas env ecdh (qr_session_secret qr);
               s = \<lparr>role = Target, state = Waiting, keys = sk, session_secret = qr_session_secret qr,
                    relay_urls = qr_relays qr, peer_pubkey = Some (qr_source_pubkey qr), session_id = sid,
                    sas_code = Some code, sas_input = Some sas_in, processed_ids = {}, started_at = now,
                    timeout = DEFAULT_TIMEOUT\<rparr>
           in and_then (build_event env d s (Offer (to_hex env sid) 1)) (\<lambda>ev.
                Ok (s\<lparr>state := Confirming\<rparr>, ev))))"

definition handle_sas_confirm ::
  "pairing_env \<Rightarrow> nat \<Rightarrow> event \<Rightarrow> session \<Rightarrow> (pairing_error, string) result \<times> session" where
  "handle_sas_confirm env now ev s =
     try_in s (guard now Confirming Target s) (\<lambda>_.
     try_in s (validate_event_from_peer env s ev) (\<lambda>_.
     try_in s (decrypt_message env s ev) (\<lambda>msg.
       case msg of
         SasConfirm received_hash \<Rightarrow>
           (case sas_input s of
              None \<Rightarrow> (Err SasMismatch, s)
            | Some sas_in \<Rightarrow>
                (case peer_pubkey s of
                   None \<Rightarrow> (Err (InvalidPubkey ''no peer''), s)
                 | Some peer \<Rightarrow>
                     (let expected_hash =
                            derive_transcript_hash env (session_id s) (pubkey_bytes env peer)
                              (pubkey_bytes env (public_key env (keys s))) sas_in (session_secret s)
                      in if of_hex32 env received_hash \<noteq> Some expected_hash
                         then (Err TranscriptMismatch, s\<lparr>state := Aborted\<rparr>)
                         else
                           (let s1 = record_event ev (s\<lparr>state := AwaitingConfirmation\<rparr>) in
                            case sas_code s of
                              None \<Rightarrow> (Err SasMismatch, s1)
                            | Some code \<Rightarrow> (Ok (format_sas code), s1)))))
       | other \<Rightarrow> (Err (unexpected ''sas-confirm'' other), s))))"

definition confirm_target_sas :: "nat \<Rightarrow> session \<Rightarrow> (pairing_error, unit) result \<times> session" where
  "confirm_target_sas now s =
     try_in s (guard now AwaitingConfirmation Target s) (\<lambda>_. (Ok (), s\<lparr>state := Transferring\<rparr>))"

definition handle_payload ::
  "pairing_env \<Rightarrow> nat \<Rightarrow> event \<Rightarrow> session \<Rightarrow> (pairing_error, payload_type \<times> string) result \<times> session" where
  "handle_payload env now ev s =
     try_in s (guard now Transferring Target s) (\<lambda>_.
     try_in s (validate_event_from_peer env s ev) (\<lambda>_.
     try_in s (decrypt_message env s ev) (take_payload ev s)))"

definition send_complete ::
  "pairing_env \<Rightarrow> nat \<Rightarrow> draw \<Rightarrow> session \<Rightarrow> (pairing_error, event) result \<times> session" where
  "send_complete env now d s =
     try_in s (guard now PayloadExchanged Target s) (\<lambda>_.
     try_in s (build_event env d s (Complete True)) (\<lambda>ev. (Ok ev, s\<lparr>state := Completed\<rparr>)))"

section \<open>Aborting\<close>

definition is_terminal :: "session_state \<Rightarrow> bool" where
  "is_terminal st \<longleftrightarrow> st = Completed \<or> st = Aborted"

definition terminal_error :: "session \<Rightarrow> pairing_error" where
  "terminal_error s = UnexpectedMessage ''non-terminal state'' (''state '' @ state_name (state s))"

definition abort ::
  "pairing_env \<Rightarrow> draw \<Rightarrow> abort_reason \<Rightarrow> session \<Rightarrow> (pairing_error, event option) result \<times> session" where
  "abort env d reason s =
     (if is_terminal (state s) then (Err (terminal_error s), s)
      else if peer_pubkey s = None then (Ok None, s\<lparr>state := Aborted\<rparr>)
      else try_in s (build_event env d s (Abort reason)) (\<lambda>ev. (Ok (Some ev), s\<lparr>state := Aborted\<rparr>)))"

definition handle_abort ::
  "pairing_env \<Rightarrow> event \<Rightarrow> session \<Rightarrow> (pairing_error, abort_reason) result \<times> session" where
  "handle_abort env ev s =
     (if is_terminal (state s) then (Err (terminal_error s), s)
      else if peer_pubkey s = None
      then (Err (InvalidPubkey ''cannot accept abort before peer is known''), s)
      else
        try_in s (validate_event_from_peer env s ev) (\<lambda>_.
        try_in s (decrypt_message env s ev) (\<lambda>msg.
          case msg of
            Abort reason \<Rightarrow> (Ok reason, record_event ev (s\<lparr>state := Aborted\<rparr>))
          | other \<Rightarrow> (Err (unexpected ''abort'' other), s))))"

section \<open>The operations of a session as one step\<close>

datatype pairing_op =
  HandleOffer nat event
| ConfirmSas nat draw
| HandleReturnPayload nat event
| SendSourceComplete nat draw bool
| SendPayload nat draw payload_type string
| HandleComplete nat event
| HandleSasConfirm nat event
| ConfirmTargetSas nat
| HandlePayload nat event
| SendComplete nat draw
| SendAbort draw abort_reason
| HandleAbort event

definition drop_value :: "('e, 'a) result \<times> 's \<Rightarrow> ('e, unit) result \<times> 's" where
  "drop_value x = (case fst x of Inl e \<Rightarrow> Err e | Inr a \<Rightarrow> Ok (), snd x)"

fun pairing_do :: "pairing_env \<Rightarrow> pairing_op \<Rightarrow> session \<Rightarrow> (pairing_error, unit) result \<times> session" where
  "pairing_do env (HandleOffer now ev) s = drop_value (handle_offer env now ev s)"
| "pairing_do env (ConfirmSas now d) s = drop_value (confirm_sas env now d s)"
| "pairing_do env (HandleReturnPayload now ev) s = drop_value (handle_return_payload env now ev s)"
| "pairing_do env (SendSourceComplete now d b) s = drop_value (send_source_complete env now d b s)"
| "pairing_do env (SendPayload now d pt p) s = drop_value (send_payload env now d pt p s)"
| "pairing_do env (HandleComplete now ev) s = drop_value (handle_complete env now ev s)"
| "pairing_do env (HandleSasConfirm now ev) s = drop_value (handle_sas_confirm env now ev s)"
| "pairing_do env (ConfirmTargetSas now) s = drop_value (confirm_target_sas now s)"
| "pairing_do env (HandlePayload now ev) s = drop_value (handle_payload env now ev s)"
| "pairing_do env (SendComplete now d) s = drop_value (send_complete env now d s)"
| "pairing_do env (SendAbort d reason) s = drop_value (abort env d reason s)"
| "pairing_do env (HandleAbort ev) s = drop_value (handle_abort env ev s)"

text \<open>The protocol: which operation leads where, by role and state.\<close>

definition edge_if :: "bool \<Rightarrow> session_state \<Rightarrow> session_state option" where
  "edge_if c st = (if c then Some st else None)"

fun edge :: "pairing_op \<Rightarrow> role \<Rightarrow> session_state \<Rightarrow> session_state option" where
  "edge (HandleOffer now ev) r st = edge_if (r = Source \<and> st = Waiting) Confirming"
| "edge (ConfirmSas now d) r st = edge_if (r = Source \<and> st = Confirming) Transferring"
| "edge (HandleReturnPayload now ev) r st = edge_if (r = Source \<and> st = Transferring) PayloadExchanged"
| "edge (SendSourceComplete now d b) r st = edge_if (r = Source \<and> st = PayloadExchanged) (if b then Completed else Aborted)"
| "edge (SendPayload now d pt p) r st = edge_if (r = Source \<and> st = Transferring) PayloadExchanged"
| "edge (HandleComplete now ev) r st = edge_if (r = Source \<and> st = PayloadExchanged) Completed"
| "edge (HandleSasConfirm now ev) r st = edge_if (r = Target \<and> st = Confirming) AwaitingConfirmation"
| "edge (ConfirmTargetSas now) r st = edge_if (r = Target \<and> st = AwaitingConfirmation) Transferring"
| "edge (HandlePayload now ev) r st = edge_if (r = Target \<and> st = Transferring) PayloadExchanged"
| "edge (SendComplete now d) r st = edge_if (r = Target \<and> st = PayloadExchanged) Completed"
| "edge (SendAbort d reason) r st = edge_if (\<not> is_terminal st) Aborted"
| "edge (HandleAbort ev) r st = edge_if (\<not> is_terminal st) Aborted"

lemma edge_if_Some [simp]: "edge_if c st = Some t \<longleftrightarrow> c \<and> st = t"
  by (simp add: edge_if_def)

fun op_time :: "pairing_op \<Rightarrow> nat option" where
  "op_time (HandleOffer now ev) = Some now"
| "op_time (ConfirmSas now d) = Some now"
| "op_time (HandleReturnPayload now ev) = Some now"
| "op_time (SendSourceComplete now d b) = Some now"
| "op_time (SendPayload now d pt p) = Some now"
| "op_time (HandleComplete now ev) = Some now"
| "op_time (HandleSasConfirm now ev) = Some now"
| "op_time (ConfirmTargetSas now) = Some now"
| "op_time (HandlePayload now ev) = Some now"
| "op_time (SendComplete now d) = Some now"
| "op_time (SendAbort d reason) = None"
| "op_time (HandleAbort ev) = None"

fun op_event :: "pairing_op \<Rightarrow> event option" where
  "op_event (HandleOffer now ev) = Some ev"
| "op_event (HandleReturnPayload now ev) = Some ev"
| "op_event (HandleComplete now ev) = Some ev"
| "op_event (HandleSasConfirm now ev) = Some ev"
| "op_event (HandlePayload now ev) = Some ev"
| "op_event (HandleAbort ev) = Some ev"
| "op_event _ = None"

lemma drop_value_Ok: "drop_value x = (Ok (), t) \<longleftrightarrow> (\<exists>a. x = (Ok a, t))"
  by (cases x; cases "fst x") (auto simp: drop_value_def)

lemma drop_value_Err: "drop_value x = (Err e, t) \<longleftrightarrow> x = (Err e, t)"
  by (cases x; cases "fst x") (auto simp: drop_value_def)

lemma guard_Ok: "guard now st r s = Ok () \<longleftrightarrow> \<not> is_expired now s \<and> state s = st \<and> role s = r"
  by (auto simp: guard_def check_expired_def expect_state_def expect_role_def)

lemma basics_Ok:
  "validate_event_basics env s ev = Ok () \<longleftrightarrow>
     verify_event env ev = Ok () \<and> event_id ev \<notin> processed_ids s \<and> event_kind ev = KIND_PAIRING \<and>
     has_p_tag (public_key env (keys s)) ev"
  by (auto simp: validate_event_basics_def split: sum.splits)

lemma from_peer_Ok:
  "validate_event_from_peer env s ev = Ok () \<longleftrightarrow>
     validate_event_basics env s ev = Ok () \<and> (\<forall>p. peer_pubkey s = Some p \<longrightarrow> event_pubkey ev = p)"
  by (auto simp: validate_event_from_peer_def split: option.splits)

lemma record_event_simps [simp]:
  "state (record_event ev s) = state s" "role (record_event ev s) = role s" "keys (record_event ev s) = keys s"
  "peer_pubkey (record_event ev s) = peer_pubkey s" "session_secret (record_event ev s) = session_secret s"
  "session_id (record_event ev s) = session_id s" "sas_code (record_event ev s) = sas_code s"
  "sas_input (record_event ev s) = sas_input s" "relay_urls (record_event ev s) = relay_urls s"
  "started_at (record_event ev s) = started_at s" "timeout (record_event ev s) = timeout s"
  "processed_ids (record_event ev s) = insert (event_id ev) (processed_ids s)"
  by (simp_all add: record_event_def)

text \<open>A match for one kind of message, read as success.\<close>

lemma message_case_Ok:
  "(case m of SasConfirm h \<Rightarrow> f h | other \<Rightarrow> (Err (unexpected n other), s)) = (Ok v, t) \<longleftrightarrow>
     (\<exists>h. m = SasConfirm h \<and> f h = (Ok v, t))"
  "(case m of Complete b \<Rightarrow> g b | other \<Rightarrow> (Err (unexpected n other), s)) = (Ok v, t) \<longleftrightarrow>
     (\<exists>b. m = Complete b \<and> g b = (Ok v, t))"
  "(case m of Abort r \<Rightarrow> k r | other \<Rightarrow> (Err (unexpected n other), s)) = (Ok v, t) \<longleftrightarrow>
     (\<exists>r. m = Abort r \<and> k r = (Ok v, t))"
  by (cases m; simp)+

lemma take_payload_Ok:
  "take_payload ev s m = (Ok v, t) \<longleftrightarrow>
     (\<exists>pt p. m = Payload pt p \<and> v = (pt, p) \<and> t = record_event ev (s\<lparr>state := PayloadExchanged\<rparr>))"
  by (cases m) (auto simp: take_payload_def)

lemma accept_offer_Ok:
  "accept_offer env s m = Ok () \<longleftrightarrow> (\<exists>h. m = Offer h 1 \<and> of_hex32 env h = Some (session_id s))"
  by (cases m) (auto simp: accept_offer_def)

lemma option_error_Ok:
  "(case x of None \<Rightarrow> (Err e, s) | Some a \<Rightarrow> f a) = (Ok v, t) \<longleftrightarrow> (\<exists>a. x = Some a \<and> f a = (Ok v, t))"
  by (cases x) auto

text \<open>What never changes in a session.\<close>

definition same_session :: "session \<Rightarrow> session \<Rightarrow> bool" where
  "same_session s t \<longleftrightarrow>
     role t = role s \<and> keys t = keys s \<and> session_secret t = session_secret s \<and> session_id t = session_id s \<and>
     relay_urls t = relay_urls s \<and> started_at t = started_at s \<and> timeout t = timeout s"

definition op_success :: "pairing_env \<Rightarrow> session \<Rightarrow> pairing_op \<Rightarrow> session \<Rightarrow> bool" where
  "op_success env s op t \<longleftrightarrow>
     edge op (role s) (state s) = Some (state t) \<and> same_session s t \<and>
     (case op_time op of None \<Rightarrow> True | Some now \<Rightarrow> \<not> is_expired now s) \<and>
     (case op_event op of None \<Rightarrow> processed_ids t = processed_ids s | Some ev \<Rightarrow> processed_ids t = insert (event_id ev) (processed_ids s)) \<and>
     (case op_event op of None \<Rightarrow> True | Some ev \<Rightarrow> validate_event_basics env s ev = Ok ()) \<and>
     (case op of
        HandleOffer now ev \<Rightarrow> peer_pubkey t = Some (event_pubkey ev) \<and> sas_code t \<noteq> None \<and> sas_input t \<noteq> None
      | _ \<Rightarrow> peer_pubkey t = peer_pubkey s \<and>
             (case op_event op of None \<Rightarrow> True | Some ev \<Rightarrow>
                (\<forall>p. peer_pubkey s = Some p \<longrightarrow> event_pubkey ev = p) \<and>
                (state s = Waiting \<longrightarrow> peer_pubkey s \<noteq> None)) \<and>
             sas_code t = sas_code s \<and> sas_input t = sas_input s)"

lemmas pairing_success_simps =
  drop_value_Ok try_in_eq_Ok guard_Ok from_peer_Ok op_success_def same_session_def is_terminal_def
  message_case_Ok take_payload_Ok accept_offer_Ok option_error_Ok

lemma success_source:
  "handle_offer env now ev s = (Ok a, t) \<Longrightarrow> op_success env s (HandleOffer now ev) t"
  "confirm_sas env now d s = (Ok b, t) \<Longrightarrow> op_success env s (ConfirmSas now d) t"
  "handle_return_payload env now ev s = (Ok c, t) \<Longrightarrow> op_success env s (HandleReturnPayload now ev) t"
  "send_source_complete env now d ok s = (Ok b, t) \<Longrightarrow> op_success env s (SendSourceComplete now d ok) t"
  "send_payload env now d pt p s = (Ok b, t) \<Longrightarrow> op_success env s (SendPayload now d pt p) t"
  "handle_complete env now ev s = (Ok (), t) \<Longrightarrow> op_success env s (HandleComplete now ev) t"
  by (auto simp: handle_offer_def confirm_sas_def handle_return_payload_def send_source_complete_def
      send_payload_def handle_complete_def pairing_success_simps Let_def
      split: sum.splits prod.splits if_splits)

lemma success_target:
  "handle_sas_confirm env now ev s = (Ok a, t) \<Longrightarrow> op_success env s (HandleSasConfirm now ev) t"
  "confirm_target_sas now s = (Ok (), t) \<Longrightarrow> op_success env s (ConfirmTargetSas now) t"
  "handle_payload env now ev s = (Ok c, t) \<Longrightarrow> op_success env s (HandlePayload now ev) t"
  "send_complete env now d s = (Ok b, t) \<Longrightarrow> op_success env s (SendComplete now d) t"
  by (auto simp: handle_sas_confirm_def confirm_target_sas_def handle_payload_def send_complete_def
      pairing_success_simps Let_def split: if_splits)

lemma success_abort:
  "abort env d reason s = (Ok x, t) \<Longrightarrow> op_success env s (SendAbort d reason) t"
  "handle_abort env ev s = (Ok r, t) \<Longrightarrow> op_success env s (HandleAbort ev) t"
  by (auto simp: abort_def handle_abort_def pairing_success_simps split: if_splits)

lemma pairing_do_success: "pairing_do env op s = (Ok (), t) \<Longrightarrow> op_success env s op t"
  by (cases op) (auto simp: drop_value_Ok intro: success_source success_target success_abort)

lemma message_case_Err:
  "(case m of SasConfirm h \<Rightarrow> f h | other \<Rightarrow> (Err (unexpected n other), s)) = (Err e, t) \<longleftrightarrow>
     (\<exists>h. m = SasConfirm h \<and> f h = (Err e, t)) \<or> (t = s \<and> e = unexpected n m \<and> (\<forall>h. m \<noteq> SasConfirm h))"
  "(case m of Complete b \<Rightarrow> g b | other \<Rightarrow> (Err (unexpected n other), s)) = (Err e, t) \<longleftrightarrow>
     (\<exists>b. m = Complete b \<and> g b = (Err e, t)) \<or> (t = s \<and> e = unexpected n m \<and> (\<forall>b. m \<noteq> Complete b))"
  "(case m of Abort r \<Rightarrow> k r | other \<Rightarrow> (Err (unexpected n other), s)) = (Err e, t) \<longleftrightarrow>
     (\<exists>r. m = Abort r \<and> k r = (Err e, t)) \<or> (t = s \<and> e = unexpected n m \<and> (\<forall>r. m \<noteq> Abort r))"
  by (cases m; auto)+

lemma take_payload_Err: "take_payload ev s m = (Err e, t) \<Longrightarrow> t = s"
  by (cases m) (auto simp: take_payload_def)

lemma option_error_Err:
  "(case x of None \<Rightarrow> (Err e, s) | Some a \<Rightarrow> f a) = (Err e', t) \<longleftrightarrow>
     x = None \<and> e' = e \<and> t = s \<or> (\<exists>a. x = Some a \<and> f a = (Err e', t))"
  by (cases x) auto

text \<open>What every session the constructors make has, and every operation keeps.\<close>

definition session_ok :: "session \<Rightarrow> bool" where
  "session_ok s \<longleftrightarrow>
     (sas_code s = None \<longleftrightarrow> sas_input s = None) \<and>
     (state s \<noteq> Waiting \<and> state s \<noteq> Aborted \<longrightarrow> peer_pubkey s \<noteq> None \<and> sas_input s \<noteq> None) \<and>
     (state s = Waiting \<longrightarrow> role s = Source)"

text \<open>The three ways an operation fails and still changes the session.\<close>

definition op_failure :: "pairing_env \<Rightarrow> session \<Rightarrow> pairing_op \<Rightarrow> pairing_error \<Rightarrow> session \<Rightarrow> bool" where
  "op_failure env s op e t \<longleftrightarrow>
     t = s \<or>
     (\<exists>now ev. op = HandleSasConfirm now ev \<and> e = TranscriptMismatch \<and> role s = Target \<and> state s = Confirming \<and>
        t = s\<lparr>state := Aborted\<rparr>) \<or>
     (\<exists>now ev. op = HandleComplete now ev \<and> role s = Source \<and> state s = PayloadExchanged \<and>
        e = UnexpectedMessage ''complete(success=true)'' ''complete(success=false)'' \<and> t = s\<lparr>state := Aborted\<rparr>) \<or>
     (\<exists>now ev m. op = HandleOffer now ev \<and> role s = Source \<and> state s = Waiting \<and>
        generate_shared_key env (keys s) (event_pubkey ev) = Err m \<and> e = SigningError m \<and>
        t = s\<lparr>peer_pubkey := Some (event_pubkey ev)\<rparr>)"

lemmas pairing_failure_simps =
  drop_value_Err try_in_eq_Err guard_Ok op_failure_def message_case_Err option_error_Err Let_def

lemma failure_source:
  "handle_offer env now ev s = (Err e, t) \<Longrightarrow> op_failure env s (HandleOffer now ev) e t"
  "confirm_sas env now d s = (Err e, t) \<Longrightarrow> op_failure env s (ConfirmSas now d) e t"
  "handle_return_payload env now ev s = (Err e, t) \<Longrightarrow> op_failure env s (HandleReturnPayload now ev) e t"
  "send_source_complete env now d ok s = (Err e, t) \<Longrightarrow> op_failure env s (SendSourceComplete now d ok) e t"
  "send_payload env now d pt p s = (Err e, t) \<Longrightarrow> op_failure env s (SendPayload now d pt p) e t"
  "handle_complete env now ev s = (Err e, t) \<Longrightarrow> op_failure env s (HandleComplete now ev) e t"
  by (auto simp: handle_offer_def confirm_sas_def handle_return_payload_def send_source_complete_def
      send_payload_def handle_complete_def pairing_failure_simps dest: take_payload_Err
      split: sum.splits prod.splits if_splits)

lemma failure_target:
  "session_ok s \<Longrightarrow> handle_sas_confirm env now ev s = (Err e, t) \<Longrightarrow> op_failure env s (HandleSasConfirm now ev) e t"
  "confirm_target_sas now s = (Err e, t) \<Longrightarrow> op_failure env s (ConfirmTargetSas now) e t"
  "handle_payload env now ev s = (Err e, t) \<Longrightarrow> op_failure env s (HandlePayload now ev) e t"
  "send_complete env now d s = (Err e, t) \<Longrightarrow> op_failure env s (SendComplete now d) e t"
  by (auto simp: handle_sas_confirm_def confirm_target_sas_def handle_payload_def send_complete_def
      pairing_failure_simps session_ok_def dest: take_payload_Err split: if_splits)

lemma failure_abort:
  "abort env d reason s = (Err e, t) \<Longrightarrow> op_failure env s (SendAbort d reason) e t"
  "handle_abort env ev s = (Err e, t) \<Longrightarrow> op_failure env s (HandleAbort ev) e t"
  by (auto simp: abort_def handle_abort_def pairing_failure_simps split: if_splits)

lemma pairing_do_failure:
  "session_ok s \<Longrightarrow> pairing_do env op s = (Err e, t) \<Longrightarrow> op_failure env s op e t"
  by (cases op) (auto simp: drop_value_Err intro: failure_source failure_target failure_abort)

lemma pairing_do_cases:
  assumes "session_ok s" and "pairing_do env op s = (r, t)"
  obtains (success) "r = Ok ()" "op_success env s op t" | (failure) e where "r = Err e" "op_failure env s op e t"
  using assms pairing_do_success pairing_do_failure by (cases r) (auto simp del: pairing_do.simps)

lemma op_success_ok: "session_ok s \<Longrightarrow> op_success env s op t \<Longrightarrow> session_ok t"
  by (cases op) (auto simp: op_success_def same_session_def session_ok_def is_terminal_def)

lemma op_failure_ok: "session_ok s \<Longrightarrow> op_failure env s op e t \<Longrightarrow> session_ok t"
  by (auto simp: op_failure_def session_ok_def)

section \<open>Runs of a session\<close>

type_synonym pairing_label = "pairing_op \<times> (pairing_error, unit) result"

definition pairing_step :: "pairing_env \<Rightarrow> session \<Rightarrow> pairing_label \<Rightarrow> session \<Rightarrow> bool" where
  "pairing_step env s l t \<longleftrightarrow> pairing_do env (fst l) s = (snd l, t)"

definition fresh_session :: "pairing_env \<Rightarrow> session \<Rightarrow> bool" where
  "fresh_session env s \<longleftrightarrow>
     (\<exists>now sk secret url. s = fst (new_source env now sk secret url)) \<or>
     (\<exists>now d sk qr ev. new_target env now d sk qr = Ok (s, ev))"

lemma fresh_session_shape:
  "fresh_session env s \<Longrightarrow>
   session_ok s \<and> processed_ids s = {} \<and> timeout s = DEFAULT_TIMEOUT \<and>
   (role s = Source \<and> state s = Waiting \<and> peer_pubkey s = None \<or> role s = Target \<and> state s = Confirming)"
  by (auto simp: fresh_session_def new_source_def new_target_def session_ok_def Let_def early_return_Ok
      case_prod_beta)

lemma pairing_step_ok: "session_ok s \<Longrightarrow> pairing_step env s l t \<Longrightarrow> session_ok t"
  unfolding pairing_step_def by (rule pairing_do_cases) (auto intro: op_success_ok op_failure_ok)

interpretation pairing: invariant_system "fresh_session env" "pairing_step env" session_ok for env
  by unfold_locales (auto simp: fresh_session_shape intro: pairing_step_ok)

fun is_payload_op :: "pairing_op \<Rightarrow> bool" where
  "is_payload_op (SendPayload now d pt p) = True"
| "is_payload_op (HandlePayload now ev) = True"
| "is_payload_op (HandleReturnPayload now ev) = True"
| "is_payload_op _ = False"

fun is_confirm_op :: "pairing_op \<Rightarrow> bool" where
  "is_confirm_op (ConfirmSas now d) = True"
| "is_confirm_op (ConfirmTargetSas now) = True"
| "is_confirm_op _ = False"

definition transfers :: "pairing_label list \<Rightarrow> pairing_label list" where
  "transfers ls = filter (\<lambda>l. is_payload_op (fst l) \<and> snd l = Ok ()) ls"

definition confirmed :: "pairing_label list \<Rightarrow> bool" where
  "confirmed ls \<longleftrightarrow> list_ex (\<lambda>l. is_confirm_op (fst l) \<and> snd l = Ok ()) ls"

text \<open>The events a run has accepted, in order.\<close>

definition accepted :: "pairing_label list \<Rightarrow> event list" where
  "accepted ls = List.map_filter (\<lambda>l. if snd l = Ok () then op_event (fst l) else None) ls"

lemma history_simps [simp]:
  "transfers [] = []" "\<not> confirmed []" "accepted [] = []"
  "transfers (ls @ [l]) = transfers ls @ (if is_payload_op (fst l) \<and> snd l = Ok () then [l] else [])"
  "confirmed (ls @ [l]) \<longleftrightarrow> confirmed ls \<or> is_confirm_op (fst l) \<and> snd l = Ok ()"
  "accepted (ls @ [l]) = accepted ls @
     (if snd l = Ok () then (case op_event (fst l) of None \<Rightarrow> [] | Some ev \<Rightarrow> [ev]) else [])"
  by (auto simp: transfers_def confirmed_def accepted_def map_filter_def split: option.splits)

definition phase_ok :: "pairing_label list \<Rightarrow> session_state \<Rightarrow> bool" where
  "phase_ok ls st \<longleftrightarrow>
     length (transfers ls) \<le> 1 \<and> (transfers ls \<noteq> [] \<longrightarrow> confirmed ls) \<and>
     (st = Transferring \<longrightarrow> confirmed ls) \<and>
     (st \<in> {Waiting, Confirming, AwaitingConfirmation, Transferring} \<longrightarrow> transfers ls = [])"

lemma phase_ok_success:
  "phase_ok ls (state s) \<Longrightarrow> op_success env s op t \<Longrightarrow> phase_ok (ls @ [(op, Ok ())]) (state t)"
  by (cases op) (auto simp: op_success_def phase_ok_def is_terminal_def split: if_splits)

lemma phase_ok_failure:
  "phase_ok ls (state s) \<Longrightarrow> op_failure env s op e t \<Longrightarrow> phase_ok (ls @ [(op, Err e)]) (state t)"
  by (auto simp: op_failure_def phase_ok_def)

definition seen_ok :: "pairing_label list \<Rightarrow> session \<Rightarrow> bool" where
  "seen_ok ls s \<longleftrightarrow>
     distinct (map event_id (accepted ls)) \<and> set (map event_id (accepted ls)) \<subseteq> processed_ids s \<and>
     (\<forall>ev \<in> set (accepted ls). peer_pubkey s = Some (event_pubkey ev)) \<and>
     (state s = Waiting \<longrightarrow> accepted ls = [])"

lemma seen_ok_success:
  assumes "seen_ok ls s" and "session_ok s" and "op_success env s op t"
  shows "seen_ok (ls @ [(op, Ok ())]) t"
proof (cases "op_event op")
  case None
  then have "peer_pubkey t = peer_pubkey s" "processed_ids t = processed_ids s" "state t \<noteq> Waiting"
    using assms(3) by (cases op; auto simp: op_success_def split: if_splits)+
  with None assms(1) show ?thesis by (auto simp: seen_ok_def)
next
  case (Some ev)
  have w: "state t \<noteq> Waiting" and p: "processed_ids t = insert (event_id ev) (processed_ids s)"
    and n: "event_id ev \<notin> processed_ids s"
    using Some assms(3) by (cases op; auto simp: op_success_def basics_Ok)+
  have peer: "peer_pubkey t = Some (event_pubkey ev) \<and> (accepted ls \<noteq> [] \<longrightarrow> peer_pubkey s = Some (event_pubkey ev))"
  proof (cases "\<exists>now ev. op = HandleOffer now ev")
    case True
    with Some assms show ?thesis by (auto simp: op_success_def seen_ok_def)
  next
    case False
    then have "peer_pubkey t = peer_pubkey s" "\<forall>q. peer_pubkey s = Some q \<longrightarrow> event_pubkey ev = q"
      using assms(3) Some by (cases op; auto simp: op_success_def)+
    moreover have "state s \<noteq> Aborted" using assms(3) Some False by (cases op) (auto simp: op_success_def is_terminal_def)
    moreover have "state s = Waiting \<longrightarrow> peer_pubkey s = Some (event_pubkey ev)"
      using assms(3) Some False by (cases op) (auto simp: op_success_def)
    ultimately show ?thesis using assms(2) by (auto simp: session_ok_def)
  qed
  then show ?thesis using assms(1) Some w p n by (auto simp: seen_ok_def)
qed

lemma seen_ok_failure: "seen_ok ls s \<Longrightarrow> op_failure env s op e t \<Longrightarrow> seen_ok (ls @ [(op, Err e)]) t"
  by (auto simp: op_failure_def seen_ok_def)

lemma same_session_steps:
  "op_success env s op t \<Longrightarrow> same_session s t" "op_failure env s op e t \<Longrightarrow> same_session s t"
  "same_session r s \<Longrightarrow> same_session s t \<Longrightarrow> same_session r t"
  by (auto simp: op_success_def op_failure_def same_session_def)

lemma pairing_run_history:
  assumes "fresh_session env s0" and "run (pairing_step env) s0 ls s"
  shows "phase_ok ls (state s) \<and> seen_ok ls s \<and> same_session s0 s"
  using assms(2)
proof (induction ls arbitrary: s rule: rev_induct)
  case Nil
  with fresh_session_shape [OF assms(1)] show ?case
    by (auto simp: phase_ok_def seen_ok_def same_session_def)
next
  case (snoc l ls)
  then obtain u where r: "run (pairing_step env) s0 ls u" and st: "pairing_step env u l s"
    by (auto simp: run_snoc)
  have ok: "session_ok u"
    using fresh_session_shape [OF assms(1)] pairing.run_inv [OF _ r] by blast
  obtain op out where l: "l = (op, out)" by (cases l)
  from st have "pairing_do env op u = (out, s)" by (simp add: pairing_step_def l)
  with ok show ?case
  proof (rule pairing_do_cases)
    assume o: "out = Ok ()" and p: "op_success env u op s"
    show ?thesis
      unfolding l o using snoc.IH [OF r] ok
      by (intro conjI phase_ok_success [OF _ p] seen_ok_success [OF _ _ p]
          same_session_steps(3) [OF _ same_session_steps(1) [OF p]]) simp_all
  next
    fix e
    assume o: "out = Err e" and p: "op_failure env u op e s"
    show ?thesis
      unfolding l o using snoc.IH [OF r]
      by (intro conjI phase_ok_failure [OF _ p] seen_ok_failure [OF _ p]
          same_session_steps(3) [OF _ same_session_steps(2) [OF p]]) simp_all
  qed
qed

section \<open>An honest exchange\<close>

text \<open>
  What the libraries promise, as far as an honest exchange needs it: Diffie-Hellman is
  symmetric, NIP-44 decrypts for the peer what was encrypted for it, in the size range of
  its version 2, JSON and hexadecimal text decode to what was encoded, HKDF has the asked
  length, a signed event verifies, carries what was signed, and its id is determined by
  different contents differently.
\<close>

fun fits :: "pairing_message \<Rightarrow> bool" where
  "fits (Offer h v) = (length h \<le> 10000 \<and> v = 1)"
| "fits (SasConfirm h) = (length h \<le> 10000)"
| "fits (Payload pt p) = (length p \<le> 10000)"
| "fits (Complete b) = True"
| "fits (Abort r) = True"

definition ecdh_ok :: "pairing_env \<Rightarrow> bool" where
  "ecdh_ok env \<longleftrightarrow>
     (\<forall>a b. \<exists>k. generate_shared_key env a (public_key env b) = Ok k \<and>
                generate_shared_key env b (public_key env a) = Ok k)"

definition nip44_ok :: "pairing_env \<Rightarrow> bool" where
  "nip44_ok env \<longleftrightarrow>
     (\<forall>a b m n. m \<noteq> [] \<and> length m \<le> 65535 \<longrightarrow>
        (\<exists>c. nip44_encrypt env a (public_key env b) m n = Ok c \<and> 132 \<le> length c \<and> length c \<le> 87472 \<and>
             nip44_decrypt env b (public_key env a) c = Ok m))"

definition json_ok :: "pairing_env \<Rightarrow> bool" where
  "json_ok env \<longleftrightarrow>
     (\<forall>m. fits m \<longrightarrow> (\<exists>j. to_json env m = Ok j \<and> j \<noteq> [] \<and> length j \<le> 65535 \<and> from_json env j = Ok m))"

definition hex_ok :: "pairing_env \<Rightarrow> bool" where
  "hex_ok env \<longleftrightarrow> (\<forall>b. of_hex env (to_hex env b) = Some b \<and> length (to_hex env b) = 2 * length b)"

definition hkdf_ok :: "pairing_env \<Rightarrow> bool" where
  "hkdf_ok env \<longleftrightarrow> (\<forall>p i. length (hkdf_expand env p i 32) = 32)"

definition sign_ok :: "pairing_env \<Rightarrow> bool" where
  "sign_ok env \<longleftrightarrow>
     (\<forall>sk k c ts t. \<exists>ev. sign_event env sk k c ts t = Ok ev \<and> verify_event env ev = Ok () \<and>
        event_pubkey ev = public_key env sk \<and> event_kind ev = k \<and> content ev = c \<and> event_tags ev = ts) \<and>
     (\<forall>sk k c ts t ev sk' k' c' ts' t' ev'. sign_event env sk k c ts t = Ok ev \<longrightarrow>
        sign_event env sk' k' c' ts' t' = Ok ev' \<longrightarrow> c \<noteq> c' \<longrightarrow> event_id ev \<noteq> event_id ev')"

definition crypto_ok :: "pairing_env \<Rightarrow> bool" where
  "crypto_ok env \<longleftrightarrow>
     ecdh_ok env \<and> nip44_ok env \<and> json_ok env \<and> hex_ok env \<and> hkdf_ok env \<and> sign_ok env"

lemma crypto_ok_parts:
  assumes "crypto_ok env"
  shows "ecdh_ok env" "nip44_ok env" "json_ok env" "hex_ok env" "hkdf_ok env" "sign_ok env"
  using assms by (simp_all add: crypto_ok_def)

text \<open>The event \<open>ev\<close> carries the message \<open>m\<close> from key \<open>a\<close> to key \<open>b\<close>.\<close>

definition carries :: "pairing_env \<Rightarrow> secret_key \<Rightarrow> secret_key \<Rightarrow> pairing_message \<Rightarrow> event \<Rightarrow> bool" where
  "carries env a b m ev \<longleftrightarrow>
     verify_event env ev = Ok () \<and> event_pubkey ev = public_key env a \<and> event_kind ev = KIND_PAIRING \<and>
     has_p_tag (public_key env b) ev \<and> (\<forall>r. keys r = b \<longrightarrow> decrypt_message env r ev = Ok m) \<and>
     (\<exists>ts t. sign_event env a KIND_PAIRING (content ev) ts t = Ok ev)"

lemma build_event_carries:
  assumes "crypto_ok env" and "keys s = a" and "peer_pubkey s = Some (public_key env b)" and "fits m"
  shows "\<exists>ev. build_event env d s m = Ok ev \<and> carries env a b m ev"
proof -
  note parts = crypto_ok_parts [OF assms(1)]
  from parts(3) assms(4) obtain j where
    j: "to_json env m = Ok j" "j \<noteq> []" "length j \<le> 65535" "from_json env j = Ok m"
    unfolding json_ok_def by metis
  from parts(2) j obtain c where c: "nip44_encrypt env a (public_key env b) j (nonce d) = Ok c"
    "132 \<le> length c" "length c \<le> 87472" "nip44_decrypt env b (public_key env a) c = Ok j"
    unfolding nip44_ok_def by metis
  let ?ts = "[[''p'', public_key env b]]" and ?t = "unix_now d - random_u64 d mod 31"
  from parts(6) obtain ev where ev: "sign_event env a KIND_PAIRING c ?ts ?t = Ok ev" "verify_event env ev = Ok ()"
    "event_pubkey ev = public_key env a" "event_kind ev = KIND_PAIRING" "content ev = c" "event_tags ev = ?ts"
    unfolding sign_ok_def by metis
  have "build_event env d s m = Ok ev" using assms(2,3) j c ev by (simp add: build_event_def)
  moreover have "carries env a b m ev"
    unfolding carries_def using j c ev
    by (auto simp: has_p_tag_def tag_is_def tag_content_def decrypt_message_def Let_def)
  ultimately show ?thesis by blast
qed


lemma carries_basics:
  "carries env a b m ev \<Longrightarrow> keys r = b \<Longrightarrow> event_id ev \<notin> processed_ids r \<Longrightarrow>
   validate_event_basics env r ev = Ok () \<and> decrypt_message env r ev = Ok m"
  by (auto simp: carries_def basics_Ok)

lemma carries_from_peer:
  "carries env a b m ev \<Longrightarrow> keys r = b \<Longrightarrow> event_id ev \<notin> processed_ids r \<Longrightarrow>
   peer_pubkey r = Some (public_key env a) \<Longrightarrow>
   validate_event_from_peer env r ev = Ok () \<and> decrypt_message env r ev = Ok m"
  using carries_basics [of env a b m ev r] by (auto simp: from_peer_Ok carries_def)

lemma of_hex32_to_hex: "crypto_ok env \<Longrightarrow> length b = 32 \<Longrightarrow> of_hex32 env (to_hex env b) = Some b"
  by (simp add: crypto_ok_def hex_ok_def of_hex32_def)

lemma length_hkdf32 [simp]: "crypto_ok env \<Longrightarrow> length (hkdf32 env s i n) = 32"
  by (simp add: crypto_ok_def hkdf_ok_def hkdf32_def)

lemma fits_hex: "crypto_ok env \<Longrightarrow> length (to_hex env (hkdf32 env s i n)) \<le> 10000"
  using length_hkdf32 [of env s i n] by (simp add: crypto_ok_def hex_ok_def del: length_hkdf32)

text \<open>The exchange up to the display of the two codes.\<close>

lemma honest_offer:
  assumes "crypto_ok env" and "new_source env t0 a secret url = (src0, qr)" and "t1 \<le> t0 + DEFAULT_TIMEOUT"
  shows "\<exists>tgt0 offer src1 code sas_in.
    new_target env t0' d b qr = Ok (tgt0, offer) \<and> carries env b a (Offer (to_hex env (derive_session_id env secret)) 1) offer \<and>
    handle_offer env t1 offer src0 = (Ok (format_sas code), src1) \<and>
    src1 = src0\<lparr>peer_pubkey := Some (public_key env b), sas_code := Some code, sas_input := Some sas_in,
       state := Confirming, processed_ids := {event_id offer}\<rparr> \<and>
    tgt0 = \<lparr>role = Target, state = Confirming, keys = b, session_secret = secret, relay_urls = [url],
       peer_pubkey = Some (public_key env a), session_id = derive_session_id env secret, sas_code = Some code,
       sas_input = Some sas_in, processed_ids = {}, started_at = t0', timeout = DEFAULT_TIMEOUT\<rparr>"
proof -
  have src0: "src0 = \<lparr>role = Source, state = Waiting, keys = a, session_secret = secret, relay_urls = [url],
       peer_pubkey = None, session_id = derive_session_id env secret, sas_code = None, sas_input = None,
       processed_ids = {}, started_at = t0, timeout = DEFAULT_TIMEOUT\<rparr>"
    and qr: "qr = \<lparr>qr_source_pubkey = public_key env a, qr_session_secret = secret, qr_relays = [url], qr_version = 1\<rparr>"
    using assms(2) by (auto simp: new_source_def)
  from assms(1) obtain k where k: "generate_shared_key env a (public_key env b) = Ok k"
    "generate_shared_key env b (public_key env a) = Ok k"
    using crypto_ok_parts(1) unfolding ecdh_ok_def by metis
  obtain code sas_in where sas: "derive_sas env k secret = (code, sas_in)" by (cases "derive_sas env k secret")
  let ?m = "Offer (to_hex env (derive_session_id env secret)) 1"
  let ?tgt = "\<lparr>role = Target, state = Waiting, keys = b, session_secret = secret, relay_urls = [url],
       peer_pubkey = Some (public_key env a), session_id = derive_session_id env secret, sas_code = Some code,
       sas_input = Some sas_in, processed_ids = {}, started_at = t0', timeout = DEFAULT_TIMEOUT\<rparr>"
  have "fits ?m" using fits_hex [OF assms(1)] by (simp add: derive_session_id_def)
  with build_event_carries [OF assms(1), of ?tgt b a ?m d] obtain offer where
    o: "build_event env d ?tgt ?m = Ok offer" "carries env b a ?m offer" by auto
  have nt: "new_target env t0' d b qr = Ok (?tgt\<lparr>state := Confirming\<rparr>, offer)"
    using k sas o qr by (simp add: new_target_def)
  have pk: "event_pubkey offer = public_key env b" using o(2) by (simp add: carries_def)
  have vb: "validate_event_basics env src0 offer = Ok ()" "decrypt_message env src0 offer = Ok ?m"
    using carries_basics [OF o(2), of src0] src0 by auto
  have g: "guard t1 Waiting Source src0 = Ok ()"
    using src0 assms(3) by (simp add: guard_Ok is_expired_def)
  have acc: "accept_offer env src0 ?m = Ok ()"
    using src0 of_hex32_to_hex [OF assms(1)] length_hkdf32 [OF assms(1)]
    by (simp add: accept_offer_Ok derive_session_id_def)
  have ho: "handle_offer env t1 offer src0 = (Ok (format_sas code),
      src0\<lparr>peer_pubkey := Some (public_key env b), sas_code := Some code, sas_input := Some sas_in,
       state := Confirming, processed_ids := {event_id offer}\<rparr>)"
    using g vb acc k sas pk src0 by (simp add: handle_offer_def Let_def record_event_def)
  from nt ho o(2) show ?thesis by (intro exI conjI) (assumption | simp)+
qed

lemma honest_confirm:
  assumes "crypto_ok env" and "role s = Source" "state s = Confirming" "\<not> is_expired t2 s"
    and "keys s = a" "peer_pubkey s = Some (public_key env b)" "sas_input s = Some x"
    and "role r = Target" "state r = Confirming" "\<not> is_expired t3 r" "\<not> is_expired t4 r"
    and "keys r = b" "peer_pubkey r = Some (public_key env a)" "sas_input r = Some x" "sas_code r = Some code"
    and "session_id r = session_id s" "session_secret r = session_secret s" "processed_ids r = {}"
  shows "\<exists>h ev. confirm_sas env t2 d s = (Ok ev, s\<lparr>state := Transferring\<rparr>) \<and> carries env a b (SasConfirm h) ev \<and>
    handle_sas_confirm env t3 ev r =
      (Ok (format_sas code), r\<lparr>state := AwaitingConfirmation, processed_ids := {event_id ev}\<rparr>) \<and>
    confirm_target_sas t4 (r\<lparr>state := AwaitingConfirmation, processed_ids := {event_id ev}\<rparr>) =
      (Ok (), r\<lparr>state := Transferring, processed_ids := {event_id ev}\<rparr>)"
proof -
  let ?hash = "derive_transcript_hash env (session_id s) (pubkey_bytes env (public_key env a))
     (pubkey_bytes env (public_key env b)) x (session_secret s)"
  have "fits (SasConfirm (to_hex env ?hash))"
    using fits_hex [OF assms(1)] by (simp add: derive_transcript_hash_def)
  from build_event_carries [OF assms(1) assms(5,6) this, of d] obtain ev where
    ev: "build_event env d s (SasConfirm (to_hex env ?hash)) = Ok ev"
    "carries env a b (SasConfirm (to_hex env ?hash)) ev" by blast
  have "confirm_sas env t2 d s = (Ok ev, s\<lparr>state := Transferring\<rparr>)"
    using assms(2-7) ev(1) by (simp add: confirm_sas_def guard_Ok [THEN iffD2] Let_def)
  moreover have "handle_sas_confirm env t3 ev r =
      (Ok (format_sas code), r\<lparr>state := AwaitingConfirmation, processed_ids := {event_id ev}\<rparr>)"
    using carries_from_peer [OF ev(2), of r] of_hex32_to_hex [OF assms(1), of ?hash] length_hkdf32 [OF assms(1)] assms(8-18)
    by (simp add: handle_sas_confirm_def guard_Ok [THEN iffD2] Let_def record_event_def derive_transcript_hash_def)
  moreover have "confirm_target_sas t4 (r\<lparr>state := AwaitingConfirmation, processed_ids := {event_id ev}\<rparr>) =
      (Ok (), r\<lparr>state := Transferring, processed_ids := {event_id ev}\<rparr>)"
    using assms(8,11) by (simp add: confirm_target_sas_def guard_Ok [THEN iffD2] is_expired_def)
  ultimately show ?thesis using ev(2) by blast
qed


section \<open>Codes\<close>

lemma derive_sas_bound: "fst (derive_sas env k secret) < 1000000"
  by (simp add: derive_sas_def Let_def)

lemma nat_to_string_length_le: "n < 10 ^ k \<Longrightarrow> 0 < k \<Longrightarrow> length (nat_to_string n) \<le> k"
proof (induction k arbitrary: n)
  case (Suc k)
  show ?case
  proof (cases "n < 10")
    case True
    then show ?thesis by (subst nat_to_string.simps) simp
  next
    case False
    then have "0 < k" using Suc.prems(1) by (cases k) auto
    moreover have "n div 10 < 10 ^ k" using Suc.prems(1) by (simp add: less_mult_imp_div_less mult.commute)
    ultimately have "length (nat_to_string (n div 10)) \<le> k" using Suc.IH by blast
    with False show ?thesis by (subst nat_to_string.simps) simp
  qed
qed simp

lemma digits_value_zeros: "digits_value (replicate k CHR ''0'' @ ds) = digits_value ds"
proof -
  have "foldl (\<lambda>acc c. acc * 10 + (of_char c - 48)) 0 (replicate k CHR ''0'') = (0 :: nat)"
    by (induction k) simp_all
  then show ?thesis by (simp add: digits_value_def)
qed

section \<open>A concrete environment\<close>

text \<open>Ciphers and codecs of the simplest kind that keep the promises, for the examples.\<close>

fun toy_encode :: "pairing_message \<Rightarrow> string" where
  "toy_encode (Offer h v) = CHR ''o'' # h"
| "toy_encode (SasConfirm h) = CHR ''s'' # h"
| "toy_encode (Payload Nsec p) = CHR ''n'' # p"
| "toy_encode (Payload Bunker p) = CHR ''b'' # p"
| "toy_encode (Payload Connect p) = CHR ''c'' # p"
| "toy_encode (Payload Custom p) = CHR ''u'' # p"
| "toy_encode (Complete b) = (if b then ''T'' else ''F'')"
| "toy_encode (Abort AbortSasMismatch) = ''1''"
| "toy_encode (Abort AbortUserDenied) = ''2''"
| "toy_encode (Abort AbortTimeout) = ''3''"
| "toy_encode (Abort AbortProtocolError) = ''4''"
| "toy_encode (Abort AbortUnknown) = ''5''"

definition toy_decode :: "string \<Rightarrow> (string, pairing_message) result" where
  "toy_decode j =
     (case j of
        [] \<Rightarrow> Err ''eof''
      | c # cs \<Rightarrow>
          if c = CHR ''o'' then Ok (Offer cs 1)
          else if c = CHR ''s'' then Ok (SasConfirm cs)
          else if c = CHR ''n'' then Ok (Payload Nsec cs)
          else if c = CHR ''b'' then Ok (Payload Bunker cs)
          else if c = CHR ''c'' then Ok (Payload Connect cs)
          else if c = CHR ''u'' then Ok (Payload Custom cs)
          else if c = CHR ''T'' then Ok (Complete True)
          else if c = CHR ''F'' then Ok (Complete False)
          else if c = CHR ''1'' then Ok (Abort AbortSasMismatch)
          else if c = CHR ''2'' then Ok (Abort AbortUserDenied)
          else if c = CHR ''3'' then Ok (Abort AbortTimeout)
          else if c = CHR ''4'' then Ok (Abort AbortProtocolError)
          else Ok (Abort AbortUnknown))"

definition toy_pairing :: pairing_env where
  "toy_pairing = \<lparr>hkdf_extract = (\<lambda>s i. i), hkdf_expand = (\<lambda>p i n. replicate 32 CHR ''z''),
     public_key = (\<lambda>sk. sk), pubkey_bytes = (\<lambda>pk. pk), generate_shared_key = (\<lambda>sk pk. Ok []),
     nip44_encrypt = (\<lambda>sk pk m n. Ok (replicate 132 CHR ''x'' @ m)), nip44_decrypt = (\<lambda>sk pk c. Ok (drop 132 c)),
     to_json = (\<lambda>m. Ok (toy_encode m)), from_json = toy_decode,
     sign_event = (\<lambda>sk k c ts t. Ok \<lparr>event_id = c, event_pubkey = sk, created_at = t, event_kind = k,
        event_tags = ts, content = c, event_sig = []\<rparr>),
     verify_event = (\<lambda>ev. Ok ()), to_hex = (\<lambda>b. b @ b), of_hex = (\<lambda>h. Some (take (length h div 2) h))\<rparr>"

lemma toy_codec: "fits m \<Longrightarrow> toy_encode m \<noteq> [] \<and> length (toy_encode m) \<le> 65535 \<and> toy_decode (toy_encode m) = Ok m"
  by (cases m rule: toy_encode.cases) (auto simp: toy_decode_def)

lemma toy_pairing_ok: "crypto_ok toy_pairing"
  unfolding crypto_ok_def ecdh_ok_def nip44_ok_def json_ok_def hex_ok_def hkdf_ok_def sign_ok_def
  using toy_codec by (simp add: toy_pairing_def)

definition toy_draw :: draw where
  "toy_draw = \<lparr>nonce = [], unix_now = 1000, random_u64 = 40\<rparr>"

definition toy_source :: session where
  "toy_source = fst (new_source toy_pairing 0 ''A'' ''secret'' ''wss://r'')"

lemma toy_source_fresh: "fresh_session toy_pairing toy_source"
  by (auto simp: fresh_session_def toy_source_def)

text \<open>The source's half of an honest exchange, up to the payload.\<close>

definition toy_labels :: "event \<Rightarrow> pairing_label list" where
  "toy_labels offer = [(HandleOffer 9 offer, Ok ()), (ConfirmSas 10 toy_draw, Ok ()),
     (SendPayload 11 toy_draw Nsec ''k'', Ok ())]"

lemma toy_source_run: "\<exists>offer s. run (pairing_step toy_pairing) toy_source (toy_labels offer) s"
proof -
  have n: "new_source toy_pairing 0 ''A'' ''secret'' ''wss://r'' =
      (toy_source, snd (new_source toy_pairing 0 ''A'' ''secret'' ''wss://r''))" by (simp add: toy_source_def)
  have s: "role toy_source = Source" "keys toy_source = ''A''" "session_secret toy_source = ''secret''"
    "session_id toy_source = derive_session_id toy_pairing ''secret''" "started_at toy_source = 0"
    "timeout toy_source = DEFAULT_TIMEOUT" by (simp_all add: toy_source_def new_source_def)
  from honest_offer [OF toy_pairing_ok n, of 9 0 toy_draw "''B''"] obtain tgt0 offer src1 code x where
    ho: "handle_offer toy_pairing 9 offer toy_source = (Ok (format_sas code), src1)"
    and src1: "src1 = toy_source\<lparr>peer_pubkey := Some (public_key toy_pairing ''B''), sas_code := Some code,
       sas_input := Some x, state := Confirming, processed_ids := {event_id offer}\<rparr>"
    and tgt0: "tgt0 = \<lparr>role = Target, state = Confirming, keys = ''B'', session_secret = ''secret'', relay_urls = [''wss://r''],
       peer_pubkey = Some (public_key toy_pairing ''A''), session_id = derive_session_id toy_pairing ''secret'',
       sas_code = Some code, sas_input = Some x, processed_ids = {}, started_at = 0, timeout = DEFAULT_TIMEOUT\<rparr>"
    by (auto simp: DEFAULT_TIMEOUT_def)
  have "\<exists>h ev. confirm_sas toy_pairing 10 toy_draw src1 = (Ok ev, src1\<lparr>state := Transferring\<rparr>) \<and>
      carries toy_pairing ''A'' ''B'' (SasConfirm h) ev \<and>
      handle_sas_confirm toy_pairing 10 ev tgt0 =
        (Ok (format_sas code), tgt0\<lparr>state := AwaitingConfirmation, processed_ids := {event_id ev}\<rparr>) \<and>
      confirm_target_sas 10 (tgt0\<lparr>state := AwaitingConfirmation, processed_ids := {event_id ev}\<rparr>) =
        (Ok (), tgt0\<lparr>state := Transferring, processed_ids := {event_id ev}\<rparr>)"
    by (rule honest_confirm [OF toy_pairing_ok, where x = x])
      (use s in \<open>simp_all add: src1 tgt0 is_expired_def DEFAULT_TIMEOUT_def\<close>)
  then obtain conf where cs: "confirm_sas toy_pairing 10 toy_draw src1 = (Ok conf, src1\<lparr>state := Transferring\<rparr>)"
    by blast
  let ?s2 = "src1\<lparr>state := Transferring\<rparr>"
  have "keys ?s2 = ''A''" "peer_pubkey ?s2 = Some (public_key toy_pairing ''B'')" "fits (Payload Nsec ''k'')"
    using s by (simp_all add: src1)
  from build_event_carries [OF toy_pairing_ok this, of toy_draw] obtain pay where
    "build_event toy_pairing toy_draw ?s2 (Payload Nsec ''k'') = Ok pay" by blast
  then have sp: "send_payload toy_pairing 11 toy_draw Nsec ''k'' ?s2 = (Ok pay, ?s2\<lparr>state := PayloadExchanged\<rparr>)"
    using s by (simp add: send_payload_def guard_Ok [THEN iffD2] src1 is_expired_def DEFAULT_TIMEOUT_def)
  have "run (pairing_step toy_pairing) toy_source (toy_labels offer) (?s2\<lparr>state := PayloadExchanged\<rparr>)"
    unfolding toy_labels_def using ho cs sp by (simp add: run_Cons_simps pairing_step_def drop_value_def)
  then show ?thesis by blast
qed

section \<open>Properties\<close>

text \<open>
  A session follows the protocol. An operation that succeeds was allowed by the device's
  role and state and leads to the state the protocol says, within the session's lifetime
  unless it aborts; role, keys, secrets and deadline never change. In particular a completed
  or aborted session is final: every operation on it fails and leaves it as it is.
\<close>

theorem pairing_follows_protocol:
  assumes "reachable (fresh_session env) (pairing_step env) s"
  shows "case pairing_do env op s of
      (Inr _, t) \<Rightarrow> edge op (role s) (state s) = Some (state t) \<and> \<not> is_terminal (state s) \<and> same_session s t \<and>
         (case op_time op of None \<Rightarrow> state t = Aborted | Some now \<Rightarrow> now - started_at s \<le> timeout s)
    | (Inl _, t) \<Rightarrow> same_session s t \<and> (is_terminal (state s) \<longrightarrow> t = s)"
proof -
  have ok: "session_ok s" using assms by (rule pairing.reachable_inv)
  obtain r t where d: "pairing_do env op s = (r, t)" by (cases "pairing_do env op s")
  from ok d show ?thesis
  proof (rule pairing_do_cases)
    assume r: "r = Ok ()" and p: "op_success env s op t"
    have "\<not> is_terminal (state s)" "op_time op = None \<longrightarrow> state t = Aborted"
      using p by (cases op; auto simp: op_success_def is_terminal_def)+
    with p d r show ?thesis
      by (auto simp: op_success_def is_expired_def not_less simp del: pairing_do.simps split: option.splits)
  next
    fix e
    assume "r = Err e" and "op_failure env s op e t"
    with d show ?thesis
      by (auto simp: op_failure_def same_session_def is_terminal_def simp del: pairing_do.simps)
  qed
qed

theorem pairing_follows_protocol_witness:
  "fst (pairing_do toy_pairing (SendAbort toy_draw AbortTimeout) toy_source) = Ok () \<and>
   state (snd (pairing_do toy_pairing (SendAbort toy_draw AbortTimeout) toy_source)) = Aborted"
proof -
  have "reachable (fresh_session toy_pairing) (pairing_step toy_pairing) toy_source"
    by (rule reach_start) (rule toy_source_fresh)
  moreover have "fst (pairing_do toy_pairing (SendAbort toy_draw AbortTimeout) toy_source) = Ok ()"
    by (simp add: drop_value_def abort_def toy_source_def new_source_def is_terminal_def)
  ultimately show ?thesis
    using pairing_follows_protocol [of toy_pairing toy_source "SendAbort toy_draw AbortTimeout"]
    by (auto simp del: pairing_do.simps split: prod.splits)
qed

text \<open>
  A failing operation leaves the session untouched, with exactly three exceptions: a
  wrong transcript hash and a reported failed import abort the session, and a failed key
  agreement on an offer has already noted the peer.
\<close>

theorem pairing_errors_keep_session:
  assumes "reachable (fresh_session env) (pairing_step env) s" and "pairing_do env op s = (Err e, t)"
  shows "t = s \<or>
     ((\<exists>now ev. op = HandleSasConfirm now ev) \<and> e = TranscriptMismatch \<and> t = s\<lparr>state := Aborted\<rparr>) \<or>
     ((\<exists>now ev. op = HandleComplete now ev) \<and> t = s\<lparr>state := Aborted\<rparr> \<and>
        e = UnexpectedMessage ''complete(success=true)'' ''complete(success=false)'') \<or>
     (\<exists>now ev m. op = HandleOffer now ev \<and> generate_shared_key env (keys s) (event_pubkey ev) = Err m \<and>
        e = SigningError m \<and> t = s\<lparr>peer_pubkey := Some (event_pubkey ev)\<rparr>)"
  using pairing_do_failure [OF pairing.reachable_inv [OF assms(1)] assms(2)] unfolding op_failure_def by blast

theorem pairing_errors_keep_session_witness:
  "snd (pairing_do toy_pairing (ConfirmSas 5 toy_draw) toy_source) = toy_source"
proof -
  have r: "reachable (fresh_session toy_pairing) (pairing_step toy_pairing) toy_source"
    by (rule reach_start) (rule toy_source_fresh)
  have "pairing_do toy_pairing (ConfirmSas 5 toy_draw) toy_source =
      (Err (UnexpectedMessage ''state Confirming'' ''state Waiting''), toy_source)"
    by (simp add: drop_value_def confirm_sas_def toy_source_def new_source_def guard_def check_expired_def
        is_expired_def expect_state_def state_name_def DEFAULT_TIMEOUT_def)
  from pairing_errors_keep_session [OF r this] this show ?thesis by auto
qed

text \<open>
  C24: No secret moves without the user's confirmation. In every run of a fresh session a
  payload is sent or accepted at most once, and only after an earlier successful
  confirmation of the short authentication string on this device.
\<close>

theorem payload_after_confirmation:
  assumes "fresh_session env s0" and "run (pairing_step env) s0 ls s"
  shows "length (transfers ls) \<le> 1 \<and>
    (\<forall>xs op ys. ls = xs @ (op, Ok ()) # ys \<and> is_payload_op op \<longrightarrow> confirmed xs)"
proof -
  have "length (transfers ls) \<le> 1" using pairing_run_history [OF assms] by (simp add: phase_ok_def)
  moreover have "confirmed xs" if l: "ls = xs @ (op, Ok ()) # ys" and p: "is_payload_op op" for xs op ys
  proof -
    from assms(2) l obtain u v where r: "run (pairing_step env) s0 xs u" and st: "pairing_step env u (op, Ok ()) v"
      by (auto simp: run_append run_Cons_simps)
    from st have "op_success env u op v" by (simp add: pairing_step_def pairing_do_success)
    with p have "state u = Transferring" by (cases op) (auto simp: op_success_def)
    with pairing_run_history [OF assms(1) r] show ?thesis by (simp add: phase_ok_def)
  qed
  ultimately show ?thesis by blast
qed

theorem payload_after_confirmation_witness:
  "\<exists>offer. length (transfers (toy_labels offer)) \<le> 1 \<and> confirmed (butlast (toy_labels offer))"
proof -
  obtain offer s where r: "run (pairing_step toy_pairing) toy_source (toy_labels offer) s"
    using toy_source_run by blast
  have l: "toy_labels offer = butlast (toy_labels offer) @ (SendPayload 11 toy_draw Nsec ''k'', Ok ()) # []"
    by (simp add: toy_labels_def)
  have "is_payload_op (SendPayload 11 toy_draw Nsec ''k'')" by simp
  with payload_after_confirmation [OF toy_source_fresh r] l show ?thesis by metis
qed

text \<open>
  A session talks to one peer and takes no replays. The events a run has accepted have
  distinct ids and all come from the key the session is locked to, and each was, when it was
  accepted, verified, of the pairing kind and addressed to the session's own key.
\<close>

theorem accepted_events_authentic:
  assumes "fresh_session env s0" and "run (pairing_step env) s0 ls s"
  shows "distinct (map event_id (accepted ls)) \<and>
    (\<forall>ev \<in> set (accepted ls). peer_pubkey s = Some (event_pubkey ev) \<and> verify_event env ev = Ok () \<and>
       event_kind ev = KIND_PAIRING \<and> has_p_tag (public_key env (keys s0)) ev)"
proof -
  have "verify_event env ev = Ok () \<and> event_kind ev = KIND_PAIRING \<and> has_p_tag (public_key env (keys s0)) ev"
    if "ev \<in> set (accepted ls)" for ev
  proof -
    from that obtain op where "(op, Ok ()) \<in> set ls" and o: "op_event op = Some ev"
      by (auto simp: accepted_def map_filter_def split: if_splits)
    then obtain xs ys where "ls = xs @ (op, Ok ()) # ys" by (auto simp: in_set_conv_decomp)
    with assms(2) obtain u v where r: "run (pairing_step env) s0 xs u" and st: "pairing_step env u (op, Ok ()) v"
      by (auto simp: run_append run_Cons_simps)
    from st have "op_success env u op v" by (simp add: pairing_step_def pairing_do_success)
    then have "validate_event_basics env u ev = Ok ()" using o by (simp add: op_success_def)
    moreover have "keys u = keys s0" using pairing_run_history [OF assms(1) r] by (simp add: same_session_def)
    ultimately show ?thesis by (simp add: basics_Ok)
  qed
  with pairing_run_history [OF assms] show ?thesis by (auto simp: seen_ok_def)
qed

theorem accepted_events_authentic_witness:
  "\<exists>offer s. run (pairing_step toy_pairing) toy_source (toy_labels offer) s \<and>
     peer_pubkey s = Some (event_pubkey offer) \<and> has_p_tag ''A'' offer"
proof -
  obtain offer s where r: "run (pairing_step toy_pairing) toy_source (toy_labels offer) s"
    using toy_source_run by blast
  have "offer \<in> set (accepted (toy_labels offer))" by (simp add: toy_labels_def accepted_def map_filter_simps)
  moreover have "public_key toy_pairing (keys toy_source) = ''A''"
    by (simp add: toy_pairing_def toy_source_def new_source_def)
  ultimately show ?thesis using accepted_events_authentic [OF toy_source_fresh r] r by metis
qed



text \<open>
  The code shown to the users is six decimal digits and tells the codes apart: two
  different codes are shown differently.
\<close>

theorem sas_display:
  "(let c = fst (derive_sas env k secret); c' = fst (derive_sas env k' secret') in
    length (format_sas c) = 6 \<and> list_all is_ascii_digit (format_sas c) \<and>
    (format_sas c = format_sas c') = (c = c'))"
proof -
  have six: "length (format_sas c) = 6" "list_all is_ascii_digit (format_sas c)" "digits_value (format_sas c) = c"
    if "c < 1000000" for c
    using nat_to_string_length_le [of c 6] that nat_to_string_digits [of c]
    by (auto simp: format_sas_def Let_def digits_value_zeros is_ascii_digit_def less_eq_char_def list_all_iff)
  let ?c = "fst (derive_sas env k secret)" and ?d = "fst (derive_sas env k' secret')"
  have "format_sas ?c = format_sas ?d \<longleftrightarrow> ?c = ?d"
    using six(3) [OF derive_sas_bound, of env k secret] six(3) [OF derive_sas_bound, of env k' secret'] by metis
  then show ?thesis using six(1,2) [OF derive_sas_bound] by (simp add: Let_def)
qed

end
