(* ===== verification/Pairing_Qr.thy ===== *)
theory Pairing_Qr
  imports Pairing_Session
begin

text \<open>
  The pairing URI shown as a QR code (\<open>crates/buzz-core/src/pairing/qr.rs\<close>): encoding and
  decoding. Hexadecimal text, public-key parsing, percent encoding, URL parsing and the debug
  quoting of strings in messages are library code, the fields of \<open>qr_env\<close>.
\<close>

section \<open>The environment\<close>

record qr_env =
  qr_to_hex :: "bytes \<Rightarrow> string"
  qr_of_hex :: "string \<Rightarrow> (string, bytes) result"
  pubkey_from_hex :: "string \<Rightarrow> (string, pubkey) result"
  percent_encode :: "string \<Rightarrow> string"
  percent_decode :: "string \<Rightarrow> string"
  url_parse :: "string \<Rightarrow> (string, string \<times> string option) result"
  debug_str :: "string \<Rightarrow> string"

section \<open>Encoding\<close>

definition url_encode :: "qr_env \<Rightarrow> string \<Rightarrow> string" where
  "url_encode env s = percent_encode env s"

definition url_decode :: "qr_env \<Rightarrow> string \<Rightarrow> string" where
  "url_decode env s = percent_decode env s"

definition encode_qr :: "qr_env \<Rightarrow> qr_payload \<Rightarrow> string" where
  "encode_qr env p =
     (let uri = ''nostrpair://'' @ qr_source_pubkey p @ ''?secret='' @ qr_to_hex env (qr_session_secret p);
          uri = foldl (\<lambda>uri relay. uri @ ''&relay='' @ url_encode env relay) uri (qr_relays p)
      in uri @ ''&v=1'')"

section \<open>Decoding\<close>

definition is_lowercase_hex :: "char \<Rightarrow> bool" where
  "is_lowercase_hex c \<longleftrightarrow> is_ascii_digit c \<or> CHR ''a'' \<le> c \<and> c \<le> CHR ''f''"

text \<open>\<open>str::parse::<u32>\<close>: an optional plus sign, then digits, within 32 bits.\<close>

definition parse_u32 :: "string \<Rightarrow> nat option" where
  "parse_u32 s =
     (let ds = (if s \<noteq> [] \<and> hd s = CHR ''+'' then tl s else s) in
      if ds \<noteq> [] \<and> list_all is_ascii_digit ds \<and> digits_value ds < 2 ^ 32 then Some (digits_value ds)
      else None)"

record qr_params =
  p_secret :: "string option"
  p_relays :: "string list"
  p_version :: "nat option"

definition param_step :: "qr_env \<Rightarrow> qr_params \<Rightarrow> string \<Rightarrow> qr_params" where
  "param_step env acc pair =
     (case split_once CHR ''='' pair of
        None \<Rightarrow> acc
      | Some (key, v) \<Rightarrow>
          if key = ''secret'' then acc\<lparr>p_secret := Some v\<rparr>
          else if key = ''relay'' then acc\<lparr>p_relays := p_relays acc @ [url_decode env v]\<rparr>
          else if key = ''v'' then acc\<lparr>p_version := parse_u32 v\<rparr>
          else acc)"

definition parse_query :: "qr_env \<Rightarrow> string \<Rightarrow> qr_params" where
  "parse_query env query =
     foldl (param_step env) \<lparr>p_secret = None, p_relays = [], p_version = None\<rparr> (split_on CHR ''&'' query)"

definition parse_secret :: "qr_env \<Rightarrow> string option \<Rightarrow> (pairing_error, bytes) result" where
  "parse_secret env secret_hex =
     (case secret_hex of
        None \<Rightarrow> Err (InvalidQr ''missing 'secret' query parameter'')
      | Some h \<Rightarrow>
          if length h \<noteq> 64 \<or> \<not> list_all is_lowercase_hex h
          then Err (InvalidQr (''secret must be 64 lowercase hex chars, got '' @ debug_str env h))
          else case qr_of_hex env h of
                 Inl e \<Rightarrow> Err (InvalidQr (''invalid secret hex: '' @ e))
               | Inr b \<Rightarrow>
                   if length b \<noteq> 32 then Err (InvalidQr ''secret must be exactly 32 bytes'')
                   else if b = replicate 32 (CHR 0x00) then Err (InvalidQr ''session_secret must not be all zeros'')
                   else Ok b)"

definition check_relay :: "qr_env \<Rightarrow> string \<Rightarrow> (pairing_error, unit) result" where
  "check_relay env relay =
     (case url_parse env relay of
        Inl e \<Rightarrow> Err (InvalidQr (''invalid relay URL '' @ debug_str env relay @ '': '' @ e))
      | Inr (scheme, host) \<Rightarrow>
          if scheme \<noteq> ''wss'' \<and> scheme \<noteq> ''ws''
          then Err (InvalidQr (''relay URL must use wss:// or ws:// scheme, got '' @ debug_str env scheme))
          else if host = None then Err (InvalidQr (''relay URL has no host: '' @ debug_str env relay))
          else Ok ())"

fun check_relays :: "qr_env \<Rightarrow> string list \<Rightarrow> (pairing_error, unit) result" where
  "check_relays env [] = Ok ()"
| "check_relays env (r # rs) = and_then (check_relay env r) (\<lambda>_. check_relays env rs)"

definition ellipsis :: string where "ellipsis = [CHR 0xE2, CHR 0x80, CHR 0xA6]"

definition decode_qr :: "qr_env \<Rightarrow> string \<Rightarrow> (pairing_error, qr_payload) result" where
  "decode_qr env uri =
     (if length uri > 2048
      then Err (InvalidQr (''URI exceeds 2048-character limit ('' @ nat_to_string (length uri) @ '' chars)''))
      else case strip_prefix ''nostrpair://'' uri of
        None \<Rightarrow> Err (InvalidQr ''URI must start with nostrpair://'')
      | Some rest \<Rightarrow>
          (case split_once CHR ''?'' rest of
             None \<Rightarrow> Err (InvalidQr (''missing query string (expected ?secret='' @ ellipsis @ ''&relay='' @ ellipsis @ '')''))
           | Some (pubkey_hex, query) \<Rightarrow>
               if length pubkey_hex \<noteq> 64 \<or> \<not> list_all is_lowercase_hex pubkey_hex
               then Err (InvalidQr (''pubkey must be 64 lowercase hex chars, got '' @ debug_str env pubkey_hex))
               else case pubkey_from_hex env pubkey_hex of
                 Inl e \<Rightarrow> Err (InvalidQr (''invalid pubkey: '' @ e))
               | Inr source_pk \<Rightarrow>
                   (let params = parse_query env query;
                        version = (case p_version params of None \<Rightarrow> 1 | Some v \<Rightarrow> v) in
                    if version \<noteq> 1
                    then Err (InvalidQr (''unsupported protocol version '' @ nat_to_string version @ '', expected 1''))
                    else and_then (parse_secret env (p_secret params)) (\<lambda>secret.
                      if p_relays params = []
                      then Err (InvalidQr ''at least one 'relay' query parameter is required'')
                      else and_then (check_relays env (p_relays params)) (\<lambda>_.
                        Ok \<lparr>qr_source_pubkey = source_pk, qr_session_secret = secret,
                            qr_relays = p_relays params, qr_version = version\<rparr>)))))"

definition qr_uri :: "pairing_env \<Rightarrow> qr_env \<Rightarrow> session \<Rightarrow> string option" where
  "qr_uri penv env s =
     (if role s \<noteq> Source then None
      else Some (encode_qr env \<lparr>qr_source_pubkey = public_key penv (keys s), qr_session_secret = session_secret s,
                   qr_relays = relay_urls s, qr_version = 1\<rparr>))"

section \<open>Lemmas\<close>

text \<open>What the libraries promise: hexadecimal text is invertible, two lower-case digits a byte,
  percent encoding is invertible and leaves letters, digits and percent signs only.\<close>

definition qr_codecs_ok :: "qr_env \<Rightarrow> bool" where
  "qr_codecs_ok env \<longleftrightarrow>
     (\<forall>b. qr_of_hex env (qr_to_hex env b) = Ok b \<and> length (qr_to_hex env b) = 2 * length b \<and>
          list_all is_lowercase_hex (qr_to_hex env b)) \<and>
     (\<forall>s. percent_decode env (percent_encode env s) = s \<and>
          list_all (\<lambda>c. is_ascii_alphanumeric c \<or> c = CHR ''%'') (percent_encode env s))"

definition relay_ok :: "qr_env \<Rightarrow> string \<Rightarrow> bool" where
  "relay_ok env r \<longleftrightarrow> (\<exists>scheme host. url_parse env r = Ok (scheme, Some host) \<and> scheme \<in> {''ws'', ''wss''})"

definition qr_valid :: "qr_env \<Rightarrow> qr_payload \<Rightarrow> bool" where
  "qr_valid env p \<longleftrightarrow>
     length (qr_source_pubkey p) = 64 \<and> list_all is_lowercase_hex (qr_source_pubkey p) \<and>
     pubkey_from_hex env (qr_source_pubkey p) = Ok (qr_source_pubkey p) \<and>
     length (qr_session_secret p) = 32 \<and> qr_session_secret p \<noteq> replicate 32 (CHR 0x00) \<and>
     qr_relays p \<noteq> [] \<and> list_all (relay_ok env) (qr_relays p) \<and> qr_version p = 1"

text \<open>The parameters of the URI of a payload, with the text of the version left open.\<close>

definition query_parts :: "qr_env \<Rightarrow> qr_payload \<Rightarrow> string \<Rightarrow> string list" where
  "query_parts env p v =
     (''secret='' @ qr_to_hex env (qr_session_secret p)) #
     map (\<lambda>r. ''relay='' @ percent_encode env r) (qr_relays p) @ [''v='' @ v]"

definition uri_with_version :: "qr_env \<Rightarrow> qr_payload \<Rightarrow> string \<Rightarrow> string" where
  "uri_with_version env p v =
     ''nostrpair://'' @ qr_source_pubkey p @ CHR ''?'' # join_with CHR ''&'' (query_parts env p v)"

lemma join_with_snoc: "ws \<noteq> [] \<Longrightarrow> join_with c (ws @ [w]) = join_with c ws @ c # w"
  by (induction c ws rule: join_with.induct) auto

lemma encode_qr_uri: "encode_qr env p = uri_with_version env p ''1''"
proof -
  have "foldl (\<lambda>uri relay. uri @ ''&relay='' @ url_encode env relay) (u @ join_with CHR ''&'' ws) rs =
      u @ join_with CHR ''&'' (ws @ map (\<lambda>r. ''relay='' @ percent_encode env r) rs)" if "ws \<noteq> []" for u ws rs
    using that
  proof (induction rs arbitrary: ws)
    case (Cons r rs)
    from Cons.IH [of "ws @ [''relay='' @ percent_encode env r]"] Cons.prems show ?case
      by (simp add: join_with_snoc url_encode_def)
  qed simp
  from this [of "[''secret='' @ qr_to_hex env (qr_session_secret p)]" "''nostrpair://'' @ qr_source_pubkey p @ ''?''" "qr_relays p"]
  show ?thesis
    using join_with_snoc [of "(''secret='' @ qr_to_hex env (qr_session_secret p)) #
        map (\<lambda>r. ''relay='' @ percent_encode env r) (qr_relays p)" "CHR ''&''" "''v=1''"]
    by (simp add: encode_qr_def query_parts_def uri_with_version_def)
qed

lemma lowercase_hex_safe: "is_lowercase_hex c \<Longrightarrow> c \<noteq> CHR ''&'' \<and> c \<noteq> CHR ''?''"
  by (auto simp: is_lowercase_hex_def ascii_class_defs less_eq_char_def)

lemma percent_safe: "is_ascii_alphanumeric c \<or> c = CHR ''%'' \<Longrightarrow> c \<noteq> CHR ''&''"
  by (auto simp: ascii_class_defs less_eq_char_def)

lemma query_parts_no_amp:
  assumes "qr_codecs_ok env" and "CHR ''&'' \<notin> set v" and "w \<in> set (query_parts env p v)"
  shows "CHR ''&'' \<notin> set w"
proof -
  have "CHR ''&'' \<notin> set (qr_to_hex env b)" for b
    using assms(1) lowercase_hex_safe unfolding qr_codecs_ok_def list_all_iff by metis
  moreover have "CHR ''&'' \<notin> set (percent_encode env r)" for r
    using assms(1) percent_safe unfolding qr_codecs_ok_def list_all_iff by metis
  ultimately show ?thesis using assms(2,3) by (auto simp: query_parts_def)
qed

lemma param_step_parts:
  "param_step env acc (''secret='' @ h) = acc\<lparr>p_secret := Some h\<rparr>"
  "param_step env acc (''relay='' @ x) = acc\<lparr>p_relays := p_relays acc @ [percent_decode env x]\<rparr>"
  "param_step env acc (''v='' @ v) = acc\<lparr>p_version := parse_u32 v\<rparr>"
proof -
  have "split_once CHR ''='' (''secret='' @ h) = Some (''secret'', h)" "split_once CHR ''='' (''relay='' @ x) = Some (''relay'', x)"
    "split_once CHR ''='' (''v='' @ v) = Some (''v'', v)"
    by (simp_all add: split_once_def)
  then show "param_step env acc (''secret='' @ h) = acc\<lparr>p_secret := Some h\<rparr>"
    "param_step env acc (''relay='' @ x) = acc\<lparr>p_relays := p_relays acc @ [percent_decode env x]\<rparr>"
    "param_step env acc (''v='' @ v) = acc\<lparr>p_version := parse_u32 v\<rparr>"
    by (simp_all add: param_step_def url_decode_def)
qed

lemma relay_params:
  assumes "qr_codecs_ok env"
  shows "foldl (param_step env) acc (map (\<lambda>r. ''relay='' @ percent_encode env r) rs) = acc\<lparr>p_relays := p_relays acc @ rs\<rparr>"
proof (induction rs arbitrary: acc)
  case (Cons r rs)
  have "percent_decode env (percent_encode env r) = r" using assms by (simp add: qr_codecs_ok_def)
  with Cons param_step_parts(2) [of env acc "percent_encode env r"] show ?case by simp
qed simp

lemma parse_query_parts:
  assumes "qr_codecs_ok env" and "CHR ''&'' \<notin> set v"
  shows "parse_query env (join_with CHR ''&'' (query_parts env p v)) =
     \<lparr>p_secret = Some (qr_to_hex env (qr_session_secret p)), p_relays = qr_relays p, p_version = parse_u32 v\<rparr>"
proof -
  have s: "split_on CHR ''&'' (join_with CHR ''&'' (query_parts env p v)) = query_parts env p v"
    using query_parts_no_amp [OF assms] by (intro split_on_join) (auto simp: query_parts_def)
  show ?thesis
    unfolding parse_query_def s
    unfolding query_parts_def foldl_append foldl_Cons foldl_Nil param_step_parts relay_params [OF assms(1)]
    by simp
qed

lemma check_relays_Ok: "list_all (relay_ok env) rs \<Longrightarrow> check_relays env rs = Ok ()"
  by (induction rs) (auto simp: check_relay_def relay_ok_def)

lemma decode_uri_with_version:
  assumes "qr_codecs_ok env" and "qr_valid env p" and "length (uri_with_version env p v) \<le> 2048"
    and "CHR ''&'' \<notin> set v"
  shows "decode_qr env (uri_with_version env p v) =
    (case parse_u32 v of
       None \<Rightarrow> Ok p
     | Some n \<Rightarrow> if n = 1 then Ok p
                 else Err (InvalidQr (''unsupported protocol version '' @ nat_to_string n @ '', expected 1'')))"
proof -
  have v: "length (qr_source_pubkey p) = 64" "list_all is_lowercase_hex (qr_source_pubkey p)"
    "pubkey_from_hex env (qr_source_pubkey p) = Ok (qr_source_pubkey p)" "length (qr_session_secret p) = 32"
    "qr_session_secret p \<noteq> replicate 32 (CHR 0x00)" "qr_relays p \<noteq> []" "list_all (relay_ok env) (qr_relays p)"
    "qr_version p = 1" using assms(2) by (auto simp: qr_valid_def)
  have q: "CHR ''?'' \<notin> set (qr_source_pubkey p)"
    using v(2) lowercase_hex_safe by (auto simp: list_all_iff)
  have e: "strip_prefix ''nostrpair://'' (uri_with_version env p v) =
      Some (qr_source_pubkey p @ CHR ''?'' # join_with CHR ''&'' (query_parts env p v))"
    by (simp add: strip_prefix_def uri_with_version_def)
  have sec: "parse_secret env (Some (qr_to_hex env (qr_session_secret p))) = Ok (qr_session_secret p)"
    using assms(1) v(4,5) by (simp add: parse_secret_def qr_codecs_ok_def)
  show ?thesis
    unfolding decode_qr_def e
    using assms(3) v sec check_relays_Ok [OF v(7)]
    by (simp add: split_once_at [OF q] parse_query_parts [OF assms(1,4)] split: option.splits)
qed

lemma parse_u32_samples:
  "parse_u32 ''1'' = Some 1" "parse_u32 ''2'' = Some 2" "parse_u32 ''4294967298'' = None"
  by (simp_all add: parse_u32_def is_ascii_digit_def less_eq_char_def digits_value_def)

section \<open>A concrete environment\<close>

definition hex_digit :: "nat \<Rightarrow> char" where
  "hex_digit n = char_of (if n < 10 then 48 + n else 87 + n)"

definition hex_value :: "char \<Rightarrow> nat" where
  "hex_value c = (if of_char c < (97 :: nat) then of_char c - 48 else of_char c - 87)"

definition hex_text :: "string \<Rightarrow> string" where
  "hex_text b = concat (map (\<lambda>c. [hex_digit (of_char c div 16), hex_digit (of_char c mod 16)]) b)"

fun hex_bytes :: "string \<Rightarrow> string" where
  "hex_bytes (x # y # zs) = char_of (hex_value x * 16 + hex_value y) # hex_bytes zs"
| "hex_bytes _ = []"

lemma hex_digit_value [simp]: "n < 16 \<Longrightarrow> hex_value (hex_digit n) = n"
  by (simp add: hex_value_def hex_digit_def)

lemma hex_digit_class: "n < 16 \<Longrightarrow> is_lowercase_hex (hex_digit n)"
  by (auto simp: is_lowercase_hex_def is_ascii_digit_def less_eq_char_def hex_digit_def)

lemma of_char_div_16: "(of_char c :: nat) div 16 < 16"
proof -
  have "(of_char c :: nat) < 256" using of_char_mod_256 [of c, where 'a = nat] by (metis mod_less_divisor zero_less_numeral)
  then show ?thesis by (simp add: div_less_iff_less_mult)
qed

lemma hex_bytes_text [simp]: "hex_bytes (hex_text b) = b"
  by (induction b) (simp_all add: hex_text_def of_char_div_16)

lemma hex_text_props: "length (hex_text b) = 2 * length b" "list_all is_lowercase_hex (hex_text b)"
  by (induction b) (auto simp: hex_text_def of_char_div_16 hex_digit_class)

lemma lowercase_hex_alphanumeric: "is_lowercase_hex c \<Longrightarrow> is_ascii_alphanumeric c"
  by (auto simp: is_lowercase_hex_def ascii_class_defs less_eq_char_def)

definition toy_qr :: qr_env where
  "toy_qr = \<lparr>qr_to_hex = hex_text, qr_of_hex = (\<lambda>h. Ok (hex_bytes h)), pubkey_from_hex = Ok,
     percent_encode = hex_text, percent_decode = hex_bytes, url_parse = (\<lambda>u. Ok (''wss'', Some u)), debug_str = (\<lambda>s. s)\<rparr>"

definition toy_payload :: qr_payload where
  "toy_payload = \<lparr>qr_source_pubkey = replicate 64 CHR ''a'', qr_session_secret = replicate 32 CHR ''k'',
     qr_relays = [''wss://r''], qr_version = 1\<rparr>"

lemma toy_qr_ok: "qr_codecs_ok toy_qr"
proof -
  have "list_all (\<lambda>c. is_ascii_alphanumeric c \<or> c = CHR ''%'') (hex_text s)" for s
    using hex_text_props(2) [of s] by (auto simp: list_all_iff intro: lowercase_hex_alphanumeric)
  then show ?thesis by (simp add: qr_codecs_ok_def toy_qr_def hex_text_props)
qed

lemma toy_payload_valid: "qr_valid toy_qr toy_payload"
  by (simp add: qr_valid_def toy_qr_def toy_payload_def relay_ok_def list_all_iff is_lowercase_hex_def less_eq_char_def)

lemma toy_uri_length: "length (uri_with_version toy_qr toy_payload v) = 172 + length v"
  by (simp add: uri_with_version_def query_parts_def toy_qr_def toy_payload_def hex_text_props)

section \<open>Properties\<close>

text \<open>
  A QR code says what it was made from. The URI of a valid payload, when it is within the
  length limit, decodes to exactly this payload, relays in order.
\<close>

theorem qr_roundtrip:
  assumes "qr_codecs_ok env" and "qr_valid env p" and "length (encode_qr env p) \<le> 2048"
  shows "decode_qr env (encode_qr env p) = Ok p"
  using decode_uri_with_version [OF assms(1,2), of "''1''"] assms(3)
  by (simp add: encode_qr_uri parse_u32_samples)

theorem qr_roundtrip_witness: "decode_qr toy_qr (encode_qr toy_qr toy_payload) = Ok toy_payload"
  by (rule qr_roundtrip [OF toy_qr_ok toy_payload_valid]) (simp add: encode_qr_uri toy_uri_length)

text \<open>
  The version check has a hole. For the URI of a valid payload with its version replaced,
  version 2 is refused as unsupported, but 4294967298, which does not fit in 32 bits, is read as
  an absent version and the URI is accepted as version 1.
\<close>

theorem qr_huge_version_accepted:
  assumes "qr_codecs_ok env" and "qr_valid env p" and "length (uri_with_version env p ''4294967298'') \<le> 2048"
    and "length (uri_with_version env p ''2'') \<le> 2048"
  shows "decode_qr env (uri_with_version env p ''2'') =
      Err (InvalidQr (''unsupported protocol version '' @ nat_to_string 2 @ '', expected 1'')) \<and>
    decode_qr env (uri_with_version env p ''4294967298'') = Ok p"
  using decode_uri_with_version [OF assms(1,2,3)] decode_uri_with_version [OF assms(1,2,4)]
  by (simp add: parse_u32_samples)

theorem qr_huge_version_accepted_witness:
  "decode_qr toy_qr (uri_with_version toy_qr toy_payload ''4294967298'') = Ok toy_payload"
  using qr_huge_version_accepted [OF toy_qr_ok toy_payload_valid] by (simp add: toy_uri_length)

end
