(* ===== verification/Mesh_Wire.thy ===== *)
theory Mesh_Wire
  imports Buzz_Prelude
begin

text \<open>
  The wire contract of the relay mesh (\<open>buzz-relay-mesh\<close>: \<open>lib.rs\<close>, \<open>wire.rs\<close> and the stream
  halves of \<open>peer.rs\<close>): the frames, the version byte in front of each encoded frame, the size
  checks of datagrams and the length-delimited framing of streams. The postcard encoder and
  the texts of transport errors are parameters.
\<close>

type_synonym bytes = "char list"
type_synonym runtime_id = bytes

datatype mesh_error =
    EncodeError string
  | DecodeError string
  | UnknownWireVersion nat
  | EmptyFrame
  | FrameTooLarge nat nat
  | DatagramTooLarge nat nat
  | PeerNotConnected runtime_id
  | PeerDraining runtime_id
  | StaleGenerationError string nat nat
  | NoActiveLease string nat nat runtime_id
  | OwnerMismatch string nat runtime_id runtime_id
  | FutureGeneration string nat nat
  | MeshDisabled
  | Transport string
  | RedisError string

section \<open>Frames\<close>

record fenced_header =
  fh_session_id :: string
  fh_generation :: nat
  fh_owner_runtime_id :: runtime_id

datatype profile = ReliableStream | RealtimeMedia | HuddleControl

record mesh_datagram =
  dg_fenced :: fenced_header
  dg_seq :: nat
  dg_payload :: bytes

datatype stream_role = Control | Session fenced_header profile

record stream_hello =
  hello_sender :: runtime_id
  hello_role :: stream_role

datatype goodbye_reason = SessionEnded | Draining | StaleGeneration

datatype mesh_stream_frame =
    Hello stream_hello
  | Data fenced_header bytes
  | Goodbye fenced_header goodbye_reason
  | Gossip bytes

definition WIRE_VERSION :: nat where "WIRE_VERSION = 1"

definition MAX_STREAM_FRAME :: nat where "MAX_STREAM_FRAME = 16 * 1024 * 1024"

text \<open>
  The serializer of a frame type and the texts of transport errors. \<open>pc_to\<close> is
  \<open>postcard::to_extend\<close> less the buffer it appends to, \<open>pc_from\<close> is \<open>postcard::from_bytes\<close>.
\<close>

record 'f codec =
  pc_to :: "'f \<Rightarrow> (string, bytes) result"
  pc_from :: "bytes \<Rightarrow> (string, 'f) result"
  read_error :: string

definition wire_encode :: "'f codec \<Rightarrow> 'f \<Rightarrow> (mesh_error, bytes) result" where
  "wire_encode c frame =
     (case pc_to c frame of
        Inl e \<Rightarrow> Err (EncodeError e)
      | Inr bs \<Rightarrow> Ok (char_of WIRE_VERSION # bs))"

definition wire_decode :: "'f codec \<Rightarrow> bytes \<Rightarrow> (mesh_error, 'f) result" where
  "wire_decode c bs =
     (case bs of
        [] \<Rightarrow> Err EmptyFrame
      | v # rest \<Rightarrow>
          if of_char v = WIRE_VERSION
          then (case pc_from c rest of Inl e \<Rightarrow> Err (DecodeError e) | Inr f \<Rightarrow> Ok f)
          else Err (UnknownWireVersion (of_char v)))"

definition encode_datagram_checked :: "mesh_datagram codec \<Rightarrow> mesh_datagram \<Rightarrow> nat \<Rightarrow> (mesh_error, bytes) result" where
  "encode_datagram_checked c dgram max_datagram_size =
     and_then (wire_encode c dgram) (\<lambda>bs.
       if length bs > max_datagram_size then Err (DatagramTooLarge (length bs) max_datagram_size)
       else Ok bs)"

section \<open>Length-delimited streams\<close>

text \<open>\<open>u32::to_le_bytes\<close> and \<open>u32::from_le_bytes\<close>.\<close>

fun le_bytes :: "nat \<Rightarrow> nat \<Rightarrow> bytes" where
  "le_bytes 0 n = []"
| "le_bytes (Suc w) n = char_of (n mod 256) # le_bytes w (n div 256)"

fun from_le_bytes :: "bytes \<Rightarrow> nat" where
  "from_le_bytes [] = 0"
| "from_le_bytes (b # bs) = of_char b + 256 * from_le_bytes bs"

text \<open>What one call of \<open>send_frame\<close> writes to the stream; the length is cast to \<open>u32\<close>.\<close>

definition send_frame :: "mesh_stream_frame codec \<Rightarrow> mesh_stream_frame \<Rightarrow> (mesh_error, bytes) result" where
  "send_frame c frame =
     and_then (wire_encode c frame) (\<lambda>bs.
       if length bs > MAX_STREAM_FRAME then Err (FrameTooLarge (length bs) MAX_STREAM_FRAME)
       else Ok (le_bytes 4 (length bs mod 2 ^ 32) @ bs))"

text \<open>
  One call of \<open>recv_frame\<close> on a stream whose remaining bytes up to its end are given. The
  result comes with the bytes left. An end of the stream before the first byte of a length
  is a clean close.
\<close>

definition recv_frame ::
  "mesh_stream_frame codec \<Rightarrow> bytes \<Rightarrow> (mesh_error, mesh_stream_frame option) result \<times> bytes" where
  "recv_frame c stream =
     (if stream = [] then (Ok None, [])
      else if length stream < 4 then (Err (Transport (read_error c)), [])
      else
        (let len = from_le_bytes (take 4 stream); rest = drop 4 stream in
         if len > MAX_STREAM_FRAME then (Err (FrameTooLarge len MAX_STREAM_FRAME), rest)
         else if length rest < len then (Err (Transport (read_error c)), [])
         else (and_then (wire_decode c (take len rest)) (\<lambda>f. Ok (Some f)), drop len rest)))"

text \<open>The frames a receive loop takes from a stream, with the error it stops at.\<close>

lemma recv_frame_consumes: "recv_frame c stream = (Inr (Some f), rest) \<Longrightarrow> length rest < length stream"
  by (auto simp: recv_frame_def Let_def split: if_splits)

function recv_all :: "mesh_stream_frame codec \<Rightarrow> bytes \<Rightarrow> mesh_stream_frame list \<times> mesh_error option" where
  "recv_all c stream =
     (case recv_frame c stream of
        (Inl e, _) \<Rightarrow> ([], Some e)
      | (Inr None, _) \<Rightarrow> ([], None)
      | (Inr (Some f), rest) \<Rightarrow> (case recv_all c rest of (fs, e) \<Rightarrow> (f # fs, e)))"
  by pat_completeness auto
termination
  by (relation "measure (\<lambda>(c, stream). length stream)") (auto dest: recv_frame_consumes [OF sym])

declare recv_all.simps [simp del]

section \<open>Round trip\<close>

lemma from_le_le_bytes: "from_le_bytes (le_bytes w n) = n mod 256 ^ w"
  by (induction w arbitrary: n) (simp_all add: mod_mult2_eq)

lemma length_le_bytes [simp]: "length (le_bytes w n) = w"
  by (induction w arbitrary: n) simp_all

lemma le_bytes_empty [simp]: "le_bytes w n = [] \<longleftrightarrow> w = 0"
  by (cases w) simp_all

definition codec_ok :: "'f codec \<Rightarrow> bool" where
  "codec_ok c \<longleftrightarrow> (\<forall>f bs. pc_to c f = Ok bs \<longrightarrow> pc_from c bs = Ok f)"

lemma wire_decode_encode: "codec_ok c \<Longrightarrow> wire_encode c f = Ok bs \<Longrightarrow> wire_decode c bs = Ok f"
  by (auto simp: wire_encode_def wire_decode_def codec_ok_def WIRE_VERSION_def split: sum.splits)

lemma recv_send_frame:
  assumes "codec_ok c" and "send_frame c f = Ok out"
  shows "recv_frame c (out @ stream) = (Ok (Some f), stream)"
proof -
  from assms(2) obtain bs where bs: "wire_encode c f = Ok bs" "length bs \<le> MAX_STREAM_FRAME"
    and out: "out = le_bytes 4 (length bs) @ bs"
    by (auto simp: send_frame_def MAX_STREAM_FRAME_def split: if_splits)
  have len: "from_le_bytes (le_bytes 4 (length bs)) = length bs"
    using bs(2) by (simp add: from_le_le_bytes MAX_STREAM_FRAME_def)
  show ?thesis
    using bs wire_decode_encode [OF assms(1) bs(1)] len unfolding out
    by (simp add: recv_frame_def Let_def)
qed

text \<open>What is written by a sequence of successful sends.\<close>

fun send_all :: "mesh_stream_frame codec \<Rightarrow> mesh_stream_frame list \<Rightarrow> (mesh_error, bytes) result" where
  "send_all c [] = Ok []"
| "send_all c (f # fs) = and_then (send_frame c f) (\<lambda>out. and_then (send_all c fs) (\<lambda>outs. Ok (out @ outs)))"

lemma recv_truncated_frame:
  assumes "send_frame c f = Ok out" and "n < length out"
  shows "fst (recv_frame c (take n out)) = (if n = 0 then Ok None else Err (Transport (read_error c)))"
proof -
  from assms(1) obtain bs where bs: "length bs \<le> MAX_STREAM_FRAME"
    and out: "out = le_bytes 4 (length bs) @ bs"
    by (auto simp: send_frame_def MAX_STREAM_FRAME_def split: if_splits)
  have len: "from_le_bytes (le_bytes 4 (length bs)) = length bs"
    using bs by (simp add: from_le_le_bytes MAX_STREAM_FRAME_def)
  show ?thesis
    using assms(2) bs len unfolding out
    by (auto simp: recv_frame_def Let_def min_def split: if_splits)
qed

lemma recv_all_close: "fst (recv_frame c s) = Ok None \<Longrightarrow> recv_all c s = ([], None)"
  by (subst recv_all.simps) (cases "recv_frame c s"; simp)

lemma recv_all_error: "fst (recv_frame c s) = Err e \<Longrightarrow> recv_all c s = ([], Some e)"
  by (subst recv_all.simps) (cases "recv_frame c s"; simp)

lemma recv_all_frame:
  "recv_frame c s = (Ok (Some f), rest) \<Longrightarrow> recv_all c s = (f # fst (recv_all c rest), snd (recv_all c rest))"
  by (subst recv_all.simps) (simp split: prod.splits)

lemma recv_cut_stream:
  assumes "codec_ok c"
  shows "send_all c fs = Ok out \<Longrightarrow>
    \<exists>k \<le> length fs. fst (recv_all c (take n out)) = take k fs \<and>
      (snd (recv_all c (take n out)) = None \<longleftrightarrow> send_all c (take k fs) = Ok (take n out)) \<and>
      snd (recv_all c (take n out)) \<in> {None, Some (Transport (read_error c))}"
proof (induction fs arbitrary: out n)
  case Nil
  then show ?case by (simp add: recv_all_close recv_frame_def)
next
  case (Cons f fs)
  from Cons.prems obtain o1 outs where
    o: "send_frame c f = Ok o1" "send_all c fs = Ok outs" "out = o1 @ outs" by auto
  show ?case
  proof (cases "n < length o1")
    case True
    have "fst (recv_frame c (take n out)) = (if n = 0 then Ok None else Err (Transport (read_error c)))"
      using recv_truncated_frame [OF o(1) True] o(3) True by simp
    then have "recv_all c (take n out) = ([], if n = 0 then None else Some (Transport (read_error c)))"
      by (cases "n = 0") (simp_all add: recv_all_close recv_all_error)
    with True o(3) show ?thesis by (intro exI [of _ 0]) (auto split: if_splits)
  next
    case False
    define m where "m = n - length o1"
    have t: "take n out = o1 @ take m outs" using False o(3) by (simp add: m_def)
    have "recv_all c (take n out) = (f # fst (recv_all c (take m outs)), snd (recv_all c (take m outs)))"
      unfolding t by (intro recv_all_frame recv_send_frame assms o(1))
    moreover obtain k where "k \<le> length fs" "fst (recv_all c (take m outs)) = take k fs"
      "snd (recv_all c (take m outs)) = None \<longleftrightarrow> send_all c (take k fs) = Ok (take m outs)"
      "snd (recv_all c (take m outs)) \<in> {None, Some (Transport (read_error c))}"
      using Cons.IH [OF o(2)] by blast
    ultimately show ?thesis
      using o(1) t by (intro exI [of _ "Suc k"]) simp
  qed
qed

lemma recv_whole_stream: "codec_ok c \<Longrightarrow> send_all c fs = Ok out \<Longrightarrow> recv_all c out = (fs, None)"
proof (induction fs arbitrary: out)
  case (Cons f fs)
  then obtain o1 outs where "send_frame c f = Ok o1" "send_all c fs = Ok outs" "out = o1 @ outs" by auto
  with Cons show ?case by (simp add: recv_all_frame [OF recv_send_frame])
qed (simp add: recv_all_close recv_frame_def)

text \<open>
  For a serializer that decodes what it encoded, everything written by successful sends is
  received frame by frame in order and then as a clean close. If the stream ends after any
  number of its bytes, the frames received are a prefix of the frames sent, nothing is
  misread, and the end is reported as clean only where it follows a whole frame.
\<close>

theorem stream_roundtrip:
  assumes "codec_ok c" and "send_all c fs = Ok out"
  shows "recv_all c out = (fs, None) \<and>
    (\<exists>k \<le> length fs. fst (recv_all c (take n out)) = take k fs \<and>
       (snd (recv_all c (take n out)) = None \<longleftrightarrow> send_all c (take k fs) = Ok (take n out)) \<and>
       snd (recv_all c (take n out)) \<in> {None, Some (Transport (read_error c))})"
  using recv_whole_stream [OF assms] recv_cut_stream [OF assms] by blast

text \<open>A serializer for gossip frames alone, which is enough to run the framing.\<close>

definition gossip_codec :: "mesh_stream_frame codec" where
  "gossip_codec =
     \<lparr>pc_to = (\<lambda>f. case f of Gossip p \<Rightarrow> Ok p | _ \<Rightarrow> Err ''unsupported''),
      pc_from = (\<lambda>bs. Ok (Gossip bs)), read_error = ''finished early''\<rparr>"

theorem stream_roundtrip_witness:
  "codec_ok gossip_codec \<and> is_ok (send_all gossip_codec [Gossip ''ab'', Gossip ''c'']) \<and>
   recv_all gossip_codec (projr (send_all gossip_codec [Gossip ''ab'', Gossip ''c''])) =
     ([Gossip ''ab'', Gossip ''c''], None)"
proof -
  have ok: "codec_ok gossip_codec"
    by (auto simp: codec_ok_def gossip_codec_def split: mesh_stream_frame.splits)
  have "is_ok (send_all gossip_codec [Gossip ''ab'', Gossip ''c''])"
    by (simp add: gossip_codec_def send_frame_def wire_encode_def MAX_STREAM_FRAME_def)
  then obtain out where out: "send_all gossip_codec [Gossip ''ab'', Gossip ''c''] = Ok out"
    by (auto simp: is_ok_iff)
  show ?thesis unfolding out using stream_roundtrip [OF ok out] ok by simp
qed

end
