(* ===== verification/Mesh_Membership.thy ===== *)
theory Mesh_Membership
  imports Mesh_Wire Complex_Main
begin

text \<open>
  Membership of the relay mesh (\<open>buzz-relay-mesh\<close>: \<open>gossip.rs\<close>, \<open>membership.rs\<close>, \<open>registry.rs\<close>,
  \<open>status.rs\<close>): the records that runtimes gossip about themselves, digests and deltas, the
  suspicion level of the failure detector, the attested records of the ready registry and the
  membership table. Hash maps are iterated in an order given as an argument; the clock is an
  argument; a point in time is a number of nanoseconds since the epoch. The result of an
  operation on floating-point numbers is the exact result passed through the rounding \<open>rnd\<close>.
\<close>

definition U64_MAX :: nat where "U64_MAX = 2 ^ 64 - 1"

definition saturating_inc :: "nat \<Rightarrow> nat" where
  "saturating_inc n = min (Suc n) U64_MAX"

section \<open>Gossip records\<close>

text \<open>The advisory load is only passed on: it is kept as the bits of the \<open>f32\<close>.\<close>

type_synonym f32_bits = nat

record gossip_record =
  gr_runtime_id :: runtime_id
  gr_endpoint_addrs :: "string list"
  gr_proto_version :: nat
  gr_load :: f32_bits
  gr_draining :: bool
  gr_capabilities :: "string list"
  gr_version :: nat
  gr_heartbeat_millis :: nat

definition gossip_record_new :: "nat \<Rightarrow> runtime_id \<Rightarrow> string list \<Rightarrow> nat \<Rightarrow> gossip_record" where
  "gossip_record_new now_ms rid addrs proto =
     \<lparr>gr_runtime_id = rid, gr_endpoint_addrs = addrs, gr_proto_version = proto, gr_load = 0,
      gr_draining = False, gr_capabilities = [], gr_version = 1, gr_heartbeat_millis = now_ms\<rparr>"

record gossip_digest_entry =
  de_runtime_id :: runtime_id
  de_version :: nat

datatype gossip_message =
    Digest nat "gossip_digest_entry list"
  | Delta nat "gossip_record list"

definition GOSSIP_PAYLOAD_VERSION :: nat where "GOSSIP_PAYLOAD_VERSION = 1"

definition encode_message :: "gossip_message codec \<Rightarrow> gossip_message \<Rightarrow> (mesh_error, bytes) result" where
  "encode_message c message =
     (case pc_to c message of Inl e \<Rightarrow> Err (EncodeError e) | Inr bs \<Rightarrow> Ok bs)"

fun message_version :: "gossip_message \<Rightarrow> nat" where
  "message_version (Digest v es) = v"
| "message_version (Delta v rs) = v"

definition decode_message :: "gossip_message codec \<Rightarrow> bytes \<Rightarrow> (mesh_error, gossip_message) result" where
  "decode_message c bs =
     (case pc_from c bs of
        Inl e \<Rightarrow> Err (DecodeError e)
      | Inr message \<Rightarrow>
          if message_version message \<noteq> GOSSIP_PAYLOAD_VERSION
          then Err (Transport (''unknown gossip payload version '' @ nat_to_string (message_version message)))
          else Ok message)"

text \<open>
  The steps both tables of the crate share: the entries of a digest and the records that a
  digest is missing or behind on, both sorted by the hexadecimal runtime id.
\<close>

definition digest_of :: "(bytes \<Rightarrow> string) \<Rightarrow> gossip_record list \<Rightarrow> gossip_message" where
  "digest_of hex rs =
     Digest GOSSIP_PAYLOAD_VERSION
       (sort_key (\<lambda>e. hex (de_runtime_id e))
         (map (\<lambda>r. \<lparr>de_runtime_id = gr_runtime_id r, de_version = gr_version r\<rparr>) rs))"

definition remote_versions :: "gossip_digest_entry list \<Rightarrow> runtime_id \<rightharpoonup> nat" where
  "remote_versions digest = foldl (\<lambda>m e. m(de_runtime_id e \<mapsto> de_version e)) Map.empty digest"

definition delta_of :: "(bytes \<Rightarrow> string) \<Rightarrow> gossip_digest_entry list \<Rightarrow> gossip_record list \<Rightarrow> gossip_message" where
  "delta_of hex digest rs =
     Delta GOSSIP_PAYLOAD_VERSION
       (sort_key (\<lambda>r. hex (gr_runtime_id r))
         (filter (\<lambda>r. case remote_versions digest (gr_runtime_id r) of
                        None \<Rightarrow> True | Some v \<Rightarrow> v < gr_version r) rs))"

section \<open>The pure gossip state\<close>

type_synonym gossip_state = "runtime_id \<rightharpoonup> gossip_record"

definition gossip_new :: "gossip_record \<Rightarrow> gossip_state" where
  "gossip_new l = [gr_runtime_id l \<mapsto> l]"

definition gossip_records :: "runtime_id list \<Rightarrow> gossip_state \<Rightarrow> gossip_record list" where
  "gossip_records order g = List.map_filter g order"

definition gossip_update_local ::
  "nat \<Rightarrow> runtime_id \<Rightarrow> (gossip_record \<Rightarrow> gossip_record) \<Rightarrow> gossip_state \<Rightarrow> gossip_record option \<times> gossip_state" where
  "gossip_update_local now_ms rid upd g =
     (case g rid of
        None \<Rightarrow> (None, g)
      | Some r \<Rightarrow>
          (let r1 = upd r;
               r2 = r1\<lparr>gr_version := saturating_inc (gr_version r1), gr_heartbeat_millis := now_ms\<rparr>
           in (Some r2, g(rid \<mapsto> r2))))"

definition gossip_digest :: "(bytes \<Rightarrow> string) \<Rightarrow> runtime_id list \<Rightarrow> gossip_state \<Rightarrow> gossip_message" where
  "gossip_digest hex order g = digest_of hex (gossip_records order g)"

definition gossip_delta_for ::
  "(bytes \<Rightarrow> string) \<Rightarrow> runtime_id list \<Rightarrow> gossip_digest_entry list \<Rightarrow> gossip_state \<Rightarrow> gossip_message" where
  "gossip_delta_for hex order digest g = delta_of hex digest (gossip_records order g)"

definition apply_record :: "runtime_id list \<times> gossip_state \<Rightarrow> gossip_record \<Rightarrow> runtime_id list \<times> gossip_state" where
  "apply_record acc r =
     (let should_apply = (case snd acc (gr_runtime_id r) of
                            None \<Rightarrow> True | Some existing \<Rightarrow> gr_version r > gr_version existing)
      in if should_apply then (fst acc @ [gr_runtime_id r], (snd acc)(gr_runtime_id r \<mapsto> r)) else acc)"

definition apply_delta :: "gossip_record list \<Rightarrow> gossip_state \<Rightarrow> runtime_id list \<times> gossip_state" where
  "apply_delta rs g = foldl apply_record ([], g) rs"

section \<open>The failure detector\<close>

record phi_accrual =
  samples :: "nat list"
  last_heartbeat :: "nat option"
  max_samples :: nat

definition phi_new :: "nat \<Rightarrow> phi_accrual" where
  "phi_new n = \<lparr>samples = [], last_heartbeat = None, max_samples = max n 1\<rparr>"

definition phi_default :: phi_accrual where
  "phi_default = phi_new 100"

definition push_sample :: "nat \<Rightarrow> nat list \<Rightarrow> nat \<Rightarrow> nat list" where
  "push_sample n xs x = (let ys = xs @ [x] in if length ys > n then tl ys else ys)"

definition phi_observe :: "nat \<Rightarrow> phi_accrual \<Rightarrow> phi_accrual" where
  "phi_observe t p =
     (let p1 = (case last_heartbeat p of
                  Some prev \<Rightarrow>
                    if t \<ge> prev \<and> t - prev \<noteq> 0
                    then p\<lparr>samples := push_sample (max_samples p) (samples p) (t - prev)\<rparr> else p
                | None \<Rightarrow> p)
      in p1\<lparr>last_heartbeat := Some t\<rparr>)"

text \<open>\<open>Duration::as_secs_f64\<close>: whole seconds and the fraction are converted apart and added.\<close>

definition as_secs_f64 :: "(real \<Rightarrow> real) \<Rightarrow> nat \<Rightarrow> real" where
  "as_secs_f64 rnd ns =
     rnd (rnd (real (ns div 1000000000)) + rnd (real (ns mod 1000000000) / 1000000000))"

definition f64_EPSILON :: real where "f64_EPSILON = 1 / 2 ^ 52"

definition LN_10 :: real where "LN_10 = 2.302585092994045684017991454684364208"

definition mean_secs :: "(real \<Rightarrow> real) \<Rightarrow> phi_accrual \<Rightarrow> real" where
  "mean_secs rnd p =
     rnd (foldl (\<lambda>acc d. rnd (acc + as_secs_f64 rnd d)) 0 (samples p) / rnd (real (length (samples p))))"

definition phi_at :: "(real \<Rightarrow> real) \<Rightarrow> nat \<Rightarrow> phi_accrual \<Rightarrow> real option" where
  "phi_at rnd now p =
     (case last_heartbeat p of
        None \<Rightarrow> None
      | Some prev \<Rightarrow>
          if samples p = [] then None
          else if now < prev then None
          else
            (let elapsed = as_secs_f64 rnd (now - prev); mean = mean_secs rnd p in
             if mean \<le> f64_EPSILON then None
             else Some (rnd (rnd (elapsed / mean) / rnd LN_10))))"

definition now_millis :: "nat \<Rightarrow> nat" where
  "now_millis now = min (now div 1000000) U64_MAX"

definition system_time_from_millis :: "nat \<Rightarrow> nat" where
  "system_time_from_millis millis = millis * 1000000"

section \<open>Attested ready records\<close>

text \<open>
  The key libraries: parsing and printing of keys and signatures, hashing, Schnorr signatures
  and hexadecimal text. Errors are the texts the library gives.
\<close>

record mesh_env =
  hex_encode :: "bytes \<Rightarrow> string"
  pk_from_hex :: "string \<Rightarrow> (string, bytes) result"
  pk_to_hex :: "bytes \<Rightarrow> string"
  pk_xonly :: "bytes \<Rightarrow> (string, bytes) result"
  sig_from_str :: "string \<Rightarrow> (string, bytes) result"
  sha256 :: "bytes \<Rightarrow> bytes"
  verify_schnorr :: "bytes \<Rightarrow> bytes \<Rightarrow> bytes \<Rightarrow> (string, unit) result"
  keys_public :: "bytes \<Rightarrow> bytes"
  sign_schnorr :: "bytes \<Rightarrow> bytes \<Rightarrow> string"

definition ATTESTATION_CONTEXT :: string where
  "ATTESTATION_CONTEXT = ''buzz-relay-mesh-ready-v1''"

definition READY_KEY_PREFIX :: string where "READY_KEY_PREFIX = ''mesh:ready:''"

definition attestation_preimage :: "mesh_env \<Rightarrow> runtime_id \<Rightarrow> string \<Rightarrow> string" where
  "attestation_preimage env rid relay_pubkey =
     ATTESTATION_CONTEXT @ [CHR 0x0A] @ ''runtime_pubkey='' @ hex_encode env rid @
     [CHR 0x0A] @ ''relay_pubkey='' @ relay_pubkey"

definition attestation_message :: "mesh_env \<Rightarrow> runtime_id \<Rightarrow> string \<Rightarrow> bytes" where
  "attestation_message env rid relay_pubkey = sha256 env (attestation_preimage env rid relay_pubkey)"

definition verify_attestation_parts :: "mesh_env \<Rightarrow> runtime_id \<Rightarrow> string \<Rightarrow> string \<Rightarrow> (mesh_error, unit) result" where
  "verify_attestation_parts env rid relay_pubkey relay_sig =
     (case pk_from_hex env relay_pubkey of
        Inl e \<Rightarrow> Err (Transport (''ready registry attestation invalid relay_pubkey: '' @ e))
      | Inr pk \<Rightarrow>
          (case pk_xonly env pk of
             Inl e \<Rightarrow> Err (Transport (''ready registry attestation relay_pubkey xonly conversion failed: '' @ e))
           | Inr xonly \<Rightarrow>
               (case sig_from_str env relay_sig of
                  Inl e \<Rightarrow> Err (Transport (''ready registry attestation invalid relay_sig: '' @ e))
                | Inr sig \<Rightarrow>
                    (case verify_schnorr env sig (attestation_message env rid (pk_to_hex env pk)) xonly of
                       Inl e \<Rightarrow> Err (Transport (''ready registry attestation signature verification failed: '' @ e))
                     | Inr u \<Rightarrow> Ok ()))))"

record runtime_attestation =
  ra_relay_pubkey :: string
  ra_relay_sig :: string

definition runtime_attestation_new :: "mesh_env \<Rightarrow> bytes \<Rightarrow> runtime_id \<Rightarrow> runtime_attestation" where
  "runtime_attestation_new env relay_keys rid =
     (let relay_pubkey = pk_to_hex env (keys_public env relay_keys);
          message = attestation_message env rid relay_pubkey
      in \<lparr>ra_relay_pubkey = relay_pubkey, ra_relay_sig = sign_schnorr env relay_keys message\<rparr>)"

definition runtime_attestation_verify :: "mesh_env \<Rightarrow> runtime_attestation \<Rightarrow> runtime_id \<Rightarrow> (mesh_error, unit) result" where
  "runtime_attestation_verify env a rid =
     verify_attestation_parts env rid (ra_relay_pubkey a) (ra_relay_sig a)"

record ready_record =
  rr_runtime_id :: runtime_id
  rr_runtime_pubkey :: string
  rr_relay_pubkey :: string
  rr_relay_sig :: string
  rr_endpoint_addrs :: "string list"
  rr_proto_version :: nat
  rr_capabilities :: "string list"

definition ready_record_new ::
  "mesh_env \<Rightarrow> runtime_id \<Rightarrow> bytes \<Rightarrow> string list \<Rightarrow> nat \<Rightarrow> string list \<Rightarrow> ready_record" where
  "ready_record_new env rid relay_keys addrs proto caps =
     (let a = runtime_attestation_new env relay_keys rid in
      \<lparr>rr_runtime_id = rid, rr_runtime_pubkey = hex_encode env rid,
       rr_relay_pubkey = ra_relay_pubkey a, rr_relay_sig = ra_relay_sig a,
       rr_endpoint_addrs = addrs, rr_proto_version = proto, rr_capabilities = caps\<rparr>)"

definition ready_key :: "mesh_env \<Rightarrow> runtime_id \<Rightarrow> string" where
  "ready_key env rid = READY_KEY_PREFIX @ hex_encode env rid"

definition verify_attestation :: "mesh_env \<Rightarrow> ready_record \<Rightarrow> (mesh_error, unit) result" where
  "verify_attestation env r =
     (if rr_runtime_pubkey r \<noteq> hex_encode env (rr_runtime_id r)
      then Err (Transport (''ready registry runtime_id/runtime_pubkey mismatch: '' @
                  hex_encode env (rr_runtime_id r) @ '' != '' @ rr_runtime_pubkey r))
      else verify_attestation_parts env (rr_runtime_id r) (rr_relay_pubkey r) (rr_relay_sig r))"

section \<open>The ready registry\<close>

text \<open>
  Redis as the registry uses it: the stored strings with their time to live in seconds, the
  outcome of getting a connection and of the one command of a call, and the replies of a scan,
  each the keys of one page up to the page whose cursor is zero. Durations are in nanoseconds.
\<close>

type_synonym redis = "string \<rightharpoonup> string \<times> nat"

record redis_reply =
  pool_get :: "(mesh_error, unit) result"
  cmd_reply :: "(mesh_error, unit) result"

definition DURATION_MAX :: nat where "DURATION_MAX = U64_MAX * 1000000000 + 999999999"

definition REGISTRY_EXPIRY_MULTIPLIER :: nat where "REGISTRY_EXPIRY_MULTIPLIER = 3"

definition expiry_for :: "nat \<Rightarrow> nat" where
  "expiry_for refresh = min (refresh * REGISTRY_EXPIRY_MULTIPLIER) DURATION_MAX"

definition publish_ready ::
  "mesh_env \<Rightarrow> (ready_record \<Rightarrow> (string, string) result) \<Rightarrow> nat \<Rightarrow> redis_reply \<Rightarrow>
   ready_record \<Rightarrow> redis \<Rightarrow> (mesh_error, unit) result \<times> redis" where
  "publish_ready env to_json refresh reply r db =
     try_in db (verify_attestation env r) (\<lambda>_.
     try_in db (pool_get reply) (\<lambda>_.
       case to_json r of
         Inl e \<Rightarrow> (Err (Transport (''ready registry encode: '' @ e)), db)
       | Inr payload \<Rightarrow>
           (let ttl_secs = max (expiry_for refresh div 1000000000) 1 in
            try_in db (cmd_reply reply) (\<lambda>_.
              (Ok (), db(ready_key env (rr_runtime_id r) \<mapsto> (payload, ttl_secs)))))))"

definition clear_ready :: "mesh_env \<Rightarrow> redis_reply \<Rightarrow> runtime_id \<Rightarrow> redis \<Rightarrow> (mesh_error, unit) result \<times> redis" where
  "clear_ready env reply rid db =
     try_in db (pool_get reply) (\<lambda>_. try_in db (cmd_reply reply) (\<lambda>_. (Ok (), db(ready_key env rid := None))))"

fun scan_keys ::
  "mesh_env \<Rightarrow> (string \<Rightarrow> (string, ready_record) result) \<Rightarrow> (string \<Rightarrow> (mesh_error, string option) result) \<Rightarrow>
   string list \<Rightarrow> ready_record list \<Rightarrow> (mesh_error, ready_record list) result" where
  "scan_keys env of_json get [] out = Ok out"
| "scan_keys env of_json get (key # ks) out =
     and_then (get key) (\<lambda>raw.
       scan_keys env of_json get ks
         (case raw of
            None \<Rightarrow> out
          | Some text \<Rightarrow>
              (case of_json text of
                 Inl e \<Rightarrow> out
               | Inr r \<Rightarrow>
                   if ready_key env (rr_runtime_id r) = key
                   then (case verify_attestation env r of Inr u \<Rightarrow> out @ [r] | Inl e \<Rightarrow> out)
                   else out)))"

fun scan_pages ::
  "mesh_env \<Rightarrow> (string \<Rightarrow> (string, ready_record) result) \<Rightarrow> (string \<Rightarrow> (mesh_error, string option) result) \<Rightarrow>
   (mesh_error, string list) result list \<Rightarrow> ready_record list \<Rightarrow> (mesh_error, ready_record list) result" where
  "scan_pages env of_json get [] out = Ok out"
| "scan_pages env of_json get (page # pages) out =
     and_then page (\<lambda>ks. and_then (scan_keys env of_json get ks out) (scan_pages env of_json get pages))"

definition scan_ready ::
  "mesh_env \<Rightarrow> (string \<Rightarrow> (string, ready_record) result) \<Rightarrow> (string \<Rightarrow> (mesh_error, string option) result) \<Rightarrow>
   (mesh_error, unit) result \<Rightarrow> (mesh_error, string list) result list \<Rightarrow> (mesh_error, ready_record list) result" where
  "scan_ready env of_json get conn pages = and_then conn (\<lambda>_. scan_pages env of_json get pages [])"

record ready_heartbeat =
  hb_record :: ready_record
  hb_published :: bool

definition heartbeat_tick ::
  "mesh_env \<Rightarrow> (ready_record \<Rightarrow> (string, string) result) \<Rightarrow> nat \<Rightarrow> redis_reply \<Rightarrow> bool \<Rightarrow>
   ready_heartbeat \<times> redis \<Rightarrow> (mesh_error, unit) result \<times> ready_heartbeat \<times> redis" where
  "heartbeat_tick env to_json refresh reply ready st =
     (case st of (h, db) \<Rightarrow>
        if ready then
          (case publish_ready env to_json refresh reply (hb_record h) db of
             (Inl e, db1) \<Rightarrow> (Err e, h, db1)
           | (Inr _, db1) \<Rightarrow> (Ok (), h\<lparr>hb_published := True\<rparr>, db1))
        else if hb_published h then
          (case clear_ready env reply (rr_runtime_id (hb_record h)) db of
             (Inl e, db1) \<Rightarrow> (Err e, h, db1)
           | (Inr _, db1) \<Rightarrow> (Ok (), h\<lparr>hb_published := False\<rparr>, db1))
        else (Ok (), h, db))"

definition heartbeat_shutdown ::
  "mesh_env \<Rightarrow> redis_reply \<Rightarrow>
   ready_heartbeat \<times> redis \<Rightarrow> (mesh_error, unit) result \<times> ready_heartbeat \<times> redis" where
  "heartbeat_shutdown env reply st =
     (case st of (h, db) \<Rightarrow>
        if hb_published h then
          (case clear_ready env reply (rr_runtime_id (hb_record h)) db of
             (Inl e, db1) \<Rightarrow> (Err e, h, db1)
           | (Inr _, db1) \<Rightarrow> (Ok (), h\<lparr>hb_published := False\<rparr>, db1))
        else (Ok (), h, db))"

section \<open>The membership table\<close>

datatype connection_state = Disconnected | Connecting | Connected | Suspect

record mesh_peer_counters =
  ctr_runtime_id :: string
  streams_opened :: nat
  streams_received :: nat
  datagrams_sent :: nat
  datagrams_received :: nat
  gossip_frames_sent :: nat
  gossip_frames_received :: nat
  ctr_stale_rejections :: nat

definition counters_for :: "string \<Rightarrow> mesh_peer_counters" where
  "counters_for rid =
     \<lparr>ctr_runtime_id = rid, streams_opened = 0, streams_received = 0, datagrams_sent = 0,
      datagrams_received = 0, gossip_frames_sent = 0, gossip_frames_received = 0,
      ctr_stale_rejections = 0\<rparr>"

record peer_state =
  ps_record :: gossip_record
  ps_phi :: phi_accrual
  ps_connection_state :: connection_state
  ps_counters :: mesh_peer_counters

record mesh_membership =
  mm_local_runtime_id :: runtime_id
  mm_local_record :: gossip_record
  mm_peers :: "runtime_id \<rightharpoonup> peer_state"
  mm_draining :: bool
  mm_stale_generation_rejections :: nat
  mm_foreign_relay_rejections :: nat
  mm_expected_relay_pubkey :: "string option"
  mm_phi_suspect_threshold :: real

definition DEFAULT_PHI_SUSPECT_THRESHOLD :: real where "DEFAULT_PHI_SUSPECT_THRESHOLD = 8"

definition membership_new :: "gossip_record \<Rightarrow> mesh_membership" where
  "membership_new l =
     \<lparr>mm_local_runtime_id = gr_runtime_id l, mm_local_record = l, mm_peers = Map.empty,
      mm_draining = False, mm_stale_generation_rejections = 0, mm_foreign_relay_rejections = 0,
      mm_expected_relay_pubkey = None, mm_phi_suspect_threshold = DEFAULT_PHI_SUSPECT_THRESHOLD\<rparr>"

definition with_expected_relay_pubkey :: "string \<Rightarrow> mesh_membership \<Rightarrow> mesh_membership" where
  "with_expected_relay_pubkey pk m = m\<lparr>mm_expected_relay_pubkey := Some pk\<rparr>"

definition with_phi_suspect_threshold :: "real \<Rightarrow> mesh_membership \<Rightarrow> mesh_membership" where
  "with_phi_suspect_threshold th m = m\<lparr>mm_phi_suspect_threshold := th\<rparr>"

definition apply_gossip_record :: "mesh_env \<Rightarrow> gossip_record \<Rightarrow> mesh_membership \<Rightarrow> bool \<times> mesh_membership" where
  "apply_gossip_record env r m =
     (if gr_runtime_id r = mm_local_runtime_id m then (False, m)
      else
        (let heartbeat = system_time_from_millis (gr_heartbeat_millis r) in
         case mm_peers m (gr_runtime_id r) of
           Some peer \<Rightarrow>
             if gr_version r \<le> gr_version (ps_record peer) then (False, m)
             else
               (True, m\<lparr>mm_peers := (mm_peers m)(gr_runtime_id r \<mapsto>
                  peer\<lparr>ps_record := r, ps_connection_state := Connected,
                       ps_phi := phi_observe heartbeat (ps_phi peer)\<rparr>)\<rparr>)
         | None \<Rightarrow>
             (True, m\<lparr>mm_peers := (mm_peers m)(gr_runtime_id r \<mapsto>
                \<lparr>ps_record = r, ps_phi = phi_observe heartbeat phi_default,
                 ps_connection_state = Connected,
                 ps_counters = counters_for (hex_encode env (gr_runtime_id r))\<rparr>)\<rparr>)))"

text \<open>One round of the loop over ready records; the counter wraps as \<open>fetch_add\<close> does.\<close>

definition apply_ready_record :: "mesh_env \<Rightarrow> nat \<Rightarrow> mesh_membership \<Rightarrow> ready_record \<Rightarrow> mesh_membership" where
  "apply_ready_record env now_ms m ready =
     (if rr_runtime_id ready = mm_local_runtime_id m then m
      else if mm_expected_relay_pubkey m \<noteq> Some (rr_relay_pubkey ready)
      then m\<lparr>mm_foreign_relay_rejections := (mm_foreign_relay_rejections m + 1) mod 2 ^ 64\<rparr>
      else
        (case verify_attestation env ready of
           Inl e \<Rightarrow> m
         | Inr u \<Rightarrow>
             (let r = gossip_record_new now_ms (rr_runtime_id ready) (rr_endpoint_addrs ready)
                        (rr_proto_version ready)
              in snd (apply_gossip_record env (r\<lparr>gr_capabilities := rr_capabilities ready\<rparr>) m))))"

definition apply_ready_records :: "mesh_env \<Rightarrow> nat \<Rightarrow> ready_record list \<Rightarrow> mesh_membership \<Rightarrow> mesh_membership" where
  "apply_ready_records env now_ms readies m = foldl (apply_ready_record env now_ms) m readies"

definition mark_connection_state :: "runtime_id \<Rightarrow> connection_state \<Rightarrow> mesh_membership \<Rightarrow> mesh_membership" where
  "mark_connection_state rid st m =
     (case mm_peers m rid of
        None \<Rightarrow> m
      | Some peer \<Rightarrow> m\<lparr>mm_peers := (mm_peers m)(rid \<mapsto> peer\<lparr>ps_connection_state := st\<rparr>)\<rparr>)"

definition update_local ::
  "nat \<Rightarrow> (gossip_record \<Rightarrow> gossip_record) \<Rightarrow> mesh_membership \<Rightarrow> gossip_record \<times> mesh_membership" where
  "update_local now_ms upd m =
     (let r1 = upd (mm_local_record m);
          r2 = r1\<lparr>gr_version := saturating_inc (gr_version r1), gr_heartbeat_millis := now_ms\<rparr>
      in (r2, m\<lparr>mm_local_record := r2\<rparr>))"

definition has_peer :: "runtime_id \<Rightarrow> mesh_membership \<Rightarrow> bool" where
  "has_peer rid m \<longleftrightarrow> mm_peers m rid \<noteq> None"

definition mm_records :: "runtime_id list \<Rightarrow> mesh_membership \<Rightarrow> gossip_record list" where
  "mm_records order m = map ps_record (List.map_filter (mm_peers m) order) @ [mm_local_record m]"

definition mm_digest :: "mesh_env \<Rightarrow> runtime_id list \<Rightarrow> mesh_membership \<Rightarrow> gossip_message" where
  "mm_digest env order m = digest_of (hex_encode env) (mm_records order m)"

definition delta_for ::
  "mesh_env \<Rightarrow> runtime_id list \<Rightarrow> gossip_digest_entry list \<Rightarrow> mesh_membership \<Rightarrow> gossip_message" where
  "delta_for env order digest m = delta_of (hex_encode env) digest (mm_records order m)"

definition update_peer_counters ::
  "runtime_id \<Rightarrow> (mesh_peer_counters \<Rightarrow> mesh_peer_counters) \<Rightarrow> mesh_membership \<Rightarrow> mesh_membership" where
  "update_peer_counters rid upd m =
     (case mm_peers m rid of
        None \<Rightarrow> m
      | Some peer \<Rightarrow> m\<lparr>mm_peers := (mm_peers m)(rid \<mapsto> peer\<lparr>ps_counters := upd (ps_counters peer)\<rparr>)\<rparr>)"

definition record_stream_opened :: "runtime_id \<Rightarrow> mesh_membership \<Rightarrow> mesh_membership" where
  "record_stream_opened rid = update_peer_counters rid (\<lambda>c. c\<lparr>streams_opened := saturating_inc (streams_opened c)\<rparr>)"

definition record_stream_received :: "runtime_id \<Rightarrow> mesh_membership \<Rightarrow> mesh_membership" where
  "record_stream_received rid =
     update_peer_counters rid (\<lambda>c. c\<lparr>streams_received := saturating_inc (streams_received c)\<rparr>)"

definition record_datagram_sent :: "runtime_id \<Rightarrow> mesh_membership \<Rightarrow> mesh_membership" where
  "record_datagram_sent rid = update_peer_counters rid (\<lambda>c. c\<lparr>datagrams_sent := saturating_inc (datagrams_sent c)\<rparr>)"

definition record_datagram_received :: "runtime_id \<Rightarrow> mesh_membership \<Rightarrow> mesh_membership" where
  "record_datagram_received rid =
     update_peer_counters rid (\<lambda>c. c\<lparr>datagrams_received := saturating_inc (datagrams_received c)\<rparr>)"

definition record_gossip_frame_sent :: "runtime_id \<Rightarrow> mesh_membership \<Rightarrow> mesh_membership" where
  "record_gossip_frame_sent rid =
     update_peer_counters rid (\<lambda>c. c\<lparr>gossip_frames_sent := saturating_inc (gossip_frames_sent c)\<rparr>)"

definition record_gossip_frame_received :: "runtime_id \<Rightarrow> mesh_membership \<Rightarrow> mesh_membership" where
  "record_gossip_frame_received rid =
     update_peer_counters rid (\<lambda>c. c\<lparr>gossip_frames_received := saturating_inc (gossip_frames_received c)\<rparr>)"

definition record_stale_generation_rejection :: "runtime_id option \<Rightarrow> mesh_membership \<Rightarrow> mesh_membership" where
  "record_stale_generation_rejection rid m =
     (let m1 = m\<lparr>mm_stale_generation_rejections := (mm_stale_generation_rejections m + 1) mod 2 ^ 64\<rparr> in
      case rid of
        None \<Rightarrow> m1
      | Some r \<Rightarrow>
          update_peer_counters r (\<lambda>c. c\<lparr>ctr_stale_rejections := saturating_inc (ctr_stale_rejections c)\<rparr>) m1)"

definition begin_drain :: "nat \<Rightarrow> mesh_membership \<Rightarrow> mesh_membership" where
  "begin_drain now_ms m =
     snd (update_local now_ms (\<lambda>r. r\<lparr>gr_draining := True\<rparr>) (m\<lparr>mm_draining := True\<rparr>))"

section \<open>What the relay reads\<close>

definition is_suspect :: "(real \<Rightarrow> real) \<Rightarrow> nat \<Rightarrow> mesh_membership \<Rightarrow> peer_state \<Rightarrow> bool" where
  "is_suspect rnd now m peer \<longleftrightarrow>
     (case phi_at rnd now (ps_phi peer) of None \<Rightarrow> False | Some p \<Rightarrow> p \<ge> mm_phi_suspect_threshold m)"

record peer_info =
  pi_runtime_id :: runtime_id
  pi_draining :: bool
  pi_phi :: "real option"
  pi_load :: f32_bits

definition peers_view :: "(real \<Rightarrow> real) \<Rightarrow> nat \<Rightarrow> runtime_id list \<Rightarrow> mesh_membership \<Rightarrow> peer_info list" where
  "peers_view rnd now order m =
     List.map_filter (\<lambda>peer.
       if is_suspect rnd now m peer then None
       else Some \<lparr>pi_runtime_id = gr_runtime_id (ps_record peer), pi_draining = gr_draining (ps_record peer),
                  pi_phi = phi_at rnd now (ps_phi peer), pi_load = gr_load (ps_record peer)\<rparr>)
       (List.map_filter (mm_peers m) order)"

record mesh_peer_status =
  st_runtime_id :: string
  st_endpoint_addrs :: "string list"
  st_proto_version :: nat
  st_draining :: bool
  st_connection_state :: connection_state
  st_phi :: "real option"
  st_load :: f32_bits
  st_record_version :: nat
  st_last_heartbeat_millis :: nat
  st_counters :: mesh_peer_counters

definition peer_statuses ::
  "mesh_env \<Rightarrow> (real \<Rightarrow> real) \<Rightarrow> nat \<Rightarrow> runtime_id list \<Rightarrow> mesh_membership \<Rightarrow> mesh_peer_status list" where
  "peer_statuses env rnd now order m =
     map (\<lambda>peer.
       \<lparr>st_runtime_id = hex_encode env (gr_runtime_id (ps_record peer)),
        st_endpoint_addrs = gr_endpoint_addrs (ps_record peer),
        st_proto_version = gr_proto_version (ps_record peer),
        st_draining = gr_draining (ps_record peer),
        st_connection_state = (if is_suspect rnd now m peer then Suspect else ps_connection_state peer),
        st_phi = phi_at rnd now (ps_phi peer), st_load = gr_load (ps_record peer),
        st_record_version = gr_version (ps_record peer),
        st_last_heartbeat_millis = gr_heartbeat_millis (ps_record peer),
        st_counters = ps_counters peer\<rparr>)
       (List.map_filter (mm_peers m) order)"

record mesh_status =
  ms_enabled :: bool
  ms_local_runtime_id :: string
  ms_draining :: bool
  ms_peer_count :: nat
  ms_peers :: "mesh_peer_status list"
  ms_stale_generation_rejections :: nat
  ms_foreign_relay_rejections :: nat
  ms_peer_counters :: "mesh_peer_counters list"

definition mm_status :: "mesh_env \<Rightarrow> (real \<Rightarrow> real) \<Rightarrow> nat \<Rightarrow> runtime_id list \<Rightarrow> mesh_membership \<Rightarrow> mesh_status" where
  "mm_status env rnd now order m =
     (let ps = sort_key st_runtime_id (peer_statuses env rnd now order m) in
      \<lparr>ms_enabled = True, ms_local_runtime_id = hex_encode env (gr_runtime_id (mm_local_record m)),
       ms_draining = mm_draining m, ms_peer_count = length ps, ms_peers = ps,
       ms_stale_generation_rejections = mm_stale_generation_rejections m,
       ms_foreign_relay_rejections = mm_foreign_relay_rejections m,
       ms_peer_counters = map st_counters ps\<rparr>)"

section \<open>Versioned tables\<close>

text \<open>
  Both tables of the crate keep, for each runtime, the record with the greatest version they
  were given; the membership table never takes a record about its own runtime. What follows
  for a whole delta is proved once from this contract.
\<close>

fun newer :: "gossip_record option \<Rightarrow> gossip_record option \<Rightarrow> gossip_record option" where
  "newer None y = y"
| "newer (Some x) None = Some x"
| "newer (Some x) (Some y) = (if gr_version y > gr_version x then Some y else Some x)"

definition version_le :: "gossip_record option \<Rightarrow> gossip_record option \<Rightarrow> bool" where
  "version_le x y \<longleftrightarrow> (\<forall>a. x = Some a \<longrightarrow> (\<exists>b. y = Some b \<and> gr_version a \<le> gr_version b))"

lemma newer_None [simp]: "newer x None = x"
  by (cases x) simp_all

lemma version_le_refl [simp]: "version_le x x"
  by (simp add: version_le_def)

lemma version_le_trans: "version_le x y \<Longrightarrow> version_le y z \<Longrightarrow> version_le x z"
  by (fastforce simp: version_le_def)

lemma version_le_newer: "version_le x (newer x y)" "version_le y (newer x y)"
  by (cases x; cases y; simp add: version_le_def)+

lemma newer_of_le: "version_le y x \<Longrightarrow> newer x y = x"
  by (cases x; cases y) (auto simp: version_le_def)

locale version_table =
  fixes look :: "'m \<Rightarrow> runtime_id \<Rightarrow> gossip_record option"
    and put :: "gossip_record \<Rightarrow> 'm \<Rightarrow> 'm"
    and owned :: "'m \<Rightarrow> runtime_id \<Rightarrow> bool"
  assumes look_put: "look (put r m) rid =
            (if gr_runtime_id r = rid \<and> \<not> owned m rid then newer (look m rid) (Some r) else look m rid)"
    and owned_put: "owned (put r m) = owned m"
begin

definition put_all :: "gossip_record list \<Rightarrow> 'm \<Rightarrow> 'm" where
  "put_all rs m = foldl (\<lambda>m r. put r m) m rs"

lemma put_all_simps [simp]: "put_all [] m = m" "put_all (r # rs) m = put_all rs (put r m)"
  by (simp_all add: put_all_def)

lemma owned_put_all [simp]: "owned (put_all rs m) = owned m"
  by (induction rs arbitrary: m) (simp_all add: owned_put)

lemma look_put_all_other: "rid \<notin> gr_runtime_id ` set rs \<Longrightarrow> look (put_all rs m) rid = look m rid"
  by (induction rs arbitrary: m) (auto simp: look_put)

lemma look_put_all:
  "distinct (map gr_runtime_id rs) \<Longrightarrow> r \<in> set rs \<Longrightarrow> \<not> owned m (gr_runtime_id r) \<Longrightarrow>
     look (put_all rs m) (gr_runtime_id r) = newer (look m (gr_runtime_id r)) (Some r)"
proof (induction rs arbitrary: m)
  case (Cons x xs)
  show ?case
  proof (cases "r = x")
    case True
    with Cons.prems have "gr_runtime_id r \<notin> gr_runtime_id ` set xs" by auto
    with True Cons.prems show ?thesis by (simp add: look_put_all_other look_put)
  next
    case False
    with Cons.prems have "gr_runtime_id x \<noteq> gr_runtime_id r" by auto
    with False Cons show ?thesis by (simp add: look_put owned_put)
  qed
qed simp

lemma look_put_all_owned: "owned m rid \<Longrightarrow> look (put_all rs m) rid = look m rid"
  by (induction rs arbitrary: m) (auto simp: look_put owned_put)

lemma version_le_put: "version_le (look m rid) (look (put r m) rid)"
  by (simp add: look_put version_le_newer)

lemma version_le_put_all: "version_le (look m rid) (look (put_all rs m) rid)"
  by (induction rs arbitrary: m) (auto intro: version_le_trans version_le_put)

end

interpretation gossip_tab: version_table "\<lambda>g rid. g rid" "\<lambda>r g. snd (apply_record ([], g) r)" "\<lambda>g rid. False"
  by unfold_locales (auto simp: apply_record_def Let_def split: option.splits)

text \<open>What a membership table knows about each runtime, its own one included.\<close>

definition known :: "mesh_membership \<Rightarrow> gossip_state" where
  "known m rid =
     (if rid = mm_local_runtime_id m then Some (mm_local_record m)
      else map_option ps_record (mm_peers m rid))"

abbreviation put_gossip :: "mesh_env \<Rightarrow> gossip_record \<Rightarrow> mesh_membership \<Rightarrow> mesh_membership" where
  "put_gossip env r m \<equiv> snd (apply_gossip_record env r m)"

lemma put_gossip_frame [simp]:
  "mm_local_runtime_id (put_gossip env r m) = mm_local_runtime_id m"
  "mm_local_record (put_gossip env r m) = mm_local_record m"
  "mm_expected_relay_pubkey (put_gossip env r m) = mm_expected_relay_pubkey m"
  by (simp_all add: apply_gossip_record_def Let_def split: option.splits)

interpretation mesh_tab: version_table known "put_gossip env" "\<lambda>m rid. rid = mm_local_runtime_id m" for env
  by unfold_locales (auto simp: apply_gossip_record_def known_def Let_def fun_eq_iff split: option.splits)

section \<open>Digest and delta\<close>

text \<open>A list of records that enumerates a table: each known runtime once.\<close>

definition enumerates :: "gossip_record list \<Rightarrow> gossip_state \<Rightarrow> bool" where
  "enumerates rs g \<longleftrightarrow> distinct (map gr_runtime_id rs) \<and>
     (\<forall>rid r. g rid = Some r \<longleftrightarrow> r \<in> set rs \<and> gr_runtime_id r = rid)"

definition mem_ok :: "mesh_membership \<Rightarrow> bool" where
  "mem_ok m \<longleftrightarrow> gr_runtime_id (mm_local_record m) = mm_local_runtime_id m \<and>
     mm_peers m (mm_local_runtime_id m) = None \<and>
     (\<forall>rid p. mm_peers m rid = Some p \<longrightarrow> gr_runtime_id (ps_record p) = rid)"

lemma foldl_upd_absent: "k \<notin> f ` set es \<Longrightarrow> foldl (\<lambda>m e. m(f e \<mapsto> v e)) m0 es k = m0 k"
  by (induction es arbitrary: m0) auto

lemma foldl_upd_distinct:
  "distinct (map f es) \<Longrightarrow> e \<in> set es \<Longrightarrow> foldl (\<lambda>m e. m(f e \<mapsto> v e)) m0 es (f e) = Some (v e)"
proof (induction es arbitrary: m0)
  case (Cons x xs)
  show ?case
  proof (cases "e = x")
    case True
    with Cons.prems have "f e \<notin> f ` set xs" by auto
    from foldl_upd_absent [OF this, of v "m0(f e \<mapsto> v e)"] True show ?thesis
      by (simp del: fun_upd_apply) simp
  next
    case False
    with Cons.prems Cons.IH [of "m0(f x \<mapsto> v x)"] show ?thesis by (simp del: fun_upd_apply)
  qed
qed simp

lemma remote_versions_digest:
  assumes e: "enumerates rs g" and d: "digest_of hex rs = Digest v es"
  shows "remote_versions es rid = map_option gr_version (g rid)"
proof -
  let ?mk = "\<lambda>r. \<lparr>de_runtime_id = gr_runtime_id r, de_version = gr_version r\<rparr>"
  from d have es: "es = sort_key (\<lambda>e. hex (de_runtime_id e)) (map ?mk rs)"
    by (simp add: digest_of_def)
  have "distinct (map de_runtime_id (map ?mk rs))"
    using e by (simp add: enumerates_def o_def)
  then have dis: "distinct (map de_runtime_id es)" unfolding es by (simp only: distinct_map_sort_key)
  have set_es: "set es = ?mk ` set rs" by (simp add: es)
  show ?thesis
  proof (cases "g rid")
    case None
    with e have "gr_runtime_id r \<noteq> rid" if "r \<in> set rs" for r
      using that unfolding enumerates_def by (metis option.distinct(1))
    then have "rid \<notin> gr_runtime_id ` set rs" by blast
    then have "rid \<notin> de_runtime_id ` set es" by (simp add: set_es image_image)
    with None show ?thesis by (simp add: remote_versions_def foldl_upd_absent)
  next
    case (Some r)
    with e have "?mk r \<in> set es" "gr_runtime_id r = rid" by (auto simp: set_es enumerates_def)
    with Some show ?thesis
      using foldl_upd_distinct [OF dis, of "?mk r" de_version Map.empty]
      by (simp add: remote_versions_def)
  qed
qed

lemma delta_records:
  assumes e: "enumerates rs g" and d: "delta_of hex es rs = Delta v out"
    and rv: "\<And>rid. remote_versions es rid = map_option gr_version (h rid)"
  shows "distinct (map gr_runtime_id out)"
    and "r \<in> set out \<longleftrightarrow> g (gr_runtime_id r) = Some r \<and> newer (h (gr_runtime_id r)) (Some r) = Some r \<and>
           (\<forall>x. h (gr_runtime_id r) = Some x \<longrightarrow> gr_version x < gr_version r)"
proof -
  let ?P = "\<lambda>r. case remote_versions es (gr_runtime_id r) of None \<Rightarrow> True | Some v \<Rightarrow> v < gr_version r"
  have out: "out = sort_key (\<lambda>r. hex (gr_runtime_id r)) (filter ?P rs)"
    using d by (simp add: delta_of_def)
  have "distinct (map gr_runtime_id (filter ?P rs))"
    using e by (simp add: enumerates_def distinct_map_filter)
  then show "distinct (map gr_runtime_id out)" unfolding out by (simp only: distinct_map_sort_key)
  show "r \<in> set out \<longleftrightarrow> g (gr_runtime_id r) = Some r \<and> newer (h (gr_runtime_id r)) (Some r) = Some r \<and>
           (\<forall>x. h (gr_runtime_id r) = Some x \<longrightarrow> gr_version x < gr_version r)"
    using e by (cases "h (gr_runtime_id r)") (auto simp: out rv enumerates_def)
qed

lemma enumerates_known:
  assumes "mem_ok m" and "iter_order order (mm_peers m)"
  shows "enumerates (mm_records order m) (known m)"
proof -
  let ?rs = "map ps_record (List.map_filter (mm_peers m) order)"
  have mf: "List.map_filter (mm_peers m) order = map (\<lambda>k. the (mm_peers m k)) order"
  proof -
    have "filter (\<lambda>k. mm_peers m k \<noteq> None) order = order"
      using assms(2) by (auto simp: iter_order_def intro!: filter_True)
    then show ?thesis by (simp add: List.map_filter_def o_def)
  qed
  have id: "gr_runtime_id (ps_record (the (mm_peers m k))) = k" if "k \<in> set order" for k
    using that assms by (auto simp: iter_order_def mem_ok_def)
  have ids: "map gr_runtime_id ?rs = order"
    unfolding mf by (simp add: o_def id map_idI)
  have "mm_local_runtime_id m \<notin> set order" using assms by (auto simp: iter_order_def mem_ok_def)
  then have dis: "distinct (map gr_runtime_id (mm_records order m))"
    using assms ids by (simp add: mm_records_def iter_order_def mem_ok_def)
  have "known m rid = Some r \<longleftrightarrow> r \<in> set (mm_records order m) \<and> gr_runtime_id r = rid" for rid r
    using assms id unfolding mm_records_def mf
    by (force simp: known_def iter_order_def mem_ok_def domD image_iff)
  with dis show ?thesis by (simp add: enumerates_def)
qed

text \<open>Applying the delta another table computed for this table's digest.\<close>

lemma known_after_delta:
  assumes "mem_ok a" "mem_ok b" "iter_order oa (mm_peers a)" "iter_order ob (mm_peers b)"
    and d: "mm_digest env oa a = Digest v es" and dl: "delta_for env ob es b = Delta w out"
  shows "known (mesh_tab.put_all env out a) rid =
    (if rid = mm_local_runtime_id a then known a rid else newer (known a rid) (known b rid))"
proof -
  note ea = enumerates_known [OF assms(1,3)] and eb = enumerates_known [OF assms(2,4)]
  have rv: "remote_versions es rid = map_option gr_version (known a rid)" for rid
    using remote_versions_digest [OF ea] d by (simp add: mm_digest_def)
  note out = delta_records [OF eb dl [unfolded delta_for_def] rv]
  show ?thesis
  proof (cases "rid \<in> gr_runtime_id ` set out")
    case True
    then obtain r where r: "r \<in> set out" "rid = gr_runtime_id r" by auto
    then have "known b rid = Some r" using out(2) by simp
    then show ?thesis
      using mesh_tab.look_put_all [OF out(1) r(1)] r(2) by (auto simp: mesh_tab.look_put_all_owned)
  next
    case False
    have "newer (known a rid) (known b rid) = known a rid"
    proof (cases "known b rid")
      case (Some r)
      then have "gr_runtime_id r = rid" using eb by (simp add: enumerates_def)
      with False Some have "r \<notin> set out" by auto
      with Some \<open>gr_runtime_id r = rid\<close> show ?thesis
        by (cases "known a rid") (auto simp: out(2))
    qed simp
    with False show ?thesis by (simp add: mesh_tab.look_put_all_other)
  qed
qed

section \<open>Refinement of the pure gossip state\<close>

lemma gossip_records_append: "gossip_records (xs @ ys) g = gossip_records xs g @ gossip_records ys g"
  by (simp add: gossip_records_def List.map_filter_def)

lemma mm_records_known:
  assumes "mm_local_runtime_id m \<notin> set order"
  shows "mm_records order m = gossip_records (order @ [mm_local_runtime_id m]) (known m)"
proof -
  have "gossip_records order (known m) = map ps_record (List.map_filter (mm_peers m) order)"
    using assms
    by (induction order) (auto simp: gossip_records_def List.map_filter_simps known_def split: option.splits)
  moreover have "gossip_records [mm_local_runtime_id m] (known m) = [mm_local_record m]"
    by (simp add: gossip_records_def List.map_filter_simps known_def)
  ultimately show ?thesis by (simp add: mm_records_def gossip_records_append)
qed

lemma known_put_gossip:
  "known (put_gossip env r m) =
     (if gr_runtime_id r = mm_local_runtime_id m then known m else snd (apply_delta [r] (known m)))"
  by (auto simp: apply_delta_def apply_record_def apply_gossip_record_def known_def Let_def fun_eq_iff
      split: option.splits)

lemma known_update_local:
  "known (snd (update_local now upd m)) = snd (gossip_update_local now (mm_local_runtime_id m) upd (known m))"
  by (auto simp: update_local_def gossip_update_local_def known_def Let_def fun_eq_iff)

lemma apply_record_snd: "snd (apply_record (ch, g) r) = snd (apply_record (ch', g) r)"
  by (simp add: apply_record_def Let_def)

lemma apply_delta_snd_Cons: "snd (apply_delta (r # rs) g) = snd (apply_delta rs (snd (apply_delta [r] g)))"
proof -
  have "snd (foldl apply_record (ch, g) rs) = snd (foldl apply_record (ch', g) rs)" for ch ch' g
  proof (induction rs arbitrary: ch ch' g)
    case (Cons r rs)
    show ?case
      using Cons [of "fst (apply_record (ch, g) r)" "snd (apply_record (ch, g) r)" "fst (apply_record (ch', g) r)"]
        apply_record_snd [of ch g r ch'] by (metis foldl_Cons prod.collapse)
  qed simp
  then show ?thesis by (simp add: apply_delta_def) (metis prod.collapse)
qed

lemma known_put_all:
  "known (foldl (\<lambda>m r. put_gossip env r m) m rs) =
     snd (apply_delta (filter (\<lambda>r. gr_runtime_id r \<noteq> mm_local_runtime_id m) rs) (known m))"
proof (induction rs arbitrary: m)
  case Nil
  then show ?case by (simp add: apply_delta_def)
next
  case (Cons r rs)
  then show ?case
    by (cases "gr_runtime_id r = mm_local_runtime_id m")
      (simp_all add: known_put_gossip apply_delta_snd_Cons [of r "filter P rs" for P])
qed

text \<open>
  The membership table, which keeps liveness and counters beside the records and holds its
  own record apart, implements the pure gossip state: with the records it knows as the abstract
  state, its digest and its deltas are those of the pure state, a list of gossiped records has
  the effect of the pure delta without the records about itself, a record is reported as
  applied exactly when the pure state applies it, and an update of the local record is the
  pure update.
\<close>

theorem membership_refines_gossip:
  assumes "mem_ok m" and "iter_order order (mm_peers m)"
  shows "mm_digest env order m = gossip_digest (hex_encode env) (order @ [mm_local_runtime_id m]) (known m) \<and>
    delta_for env order es m = gossip_delta_for (hex_encode env) (order @ [mm_local_runtime_id m]) es (known m) \<and>
    known (foldl (\<lambda>m r. snd (apply_gossip_record env r m)) m rs) =
      snd (apply_delta (filter (\<lambda>r. gr_runtime_id r \<noteq> mm_local_runtime_id m) rs) (known m)) \<and>
    (fst (apply_gossip_record env r m) \<longleftrightarrow>
       gr_runtime_id r \<noteq> mm_local_runtime_id m \<and> fst (apply_delta [r] (known m)) = [gr_runtime_id r]) \<and>
    known (snd (update_local now upd m)) = snd (gossip_update_local now (mm_local_runtime_id m) upd (known m)) \<and>
    Some (fst (update_local now upd m)) = fst (gossip_update_local now (mm_local_runtime_id m) upd (known m))"
proof -
  have "mm_local_runtime_id m \<notin> set order" using assms by (auto simp: iter_order_def mem_ok_def)
  note r = mm_records_known [OF this]
  have "fst (apply_gossip_record env r m) \<longleftrightarrow>
       gr_runtime_id r \<noteq> mm_local_runtime_id m \<and> fst (apply_delta [r] (known m)) = [gr_runtime_id r]"
    by (auto simp: apply_delta_def apply_record_def apply_gossip_record_def known_def Let_def split: option.splits)
  moreover have "Some (fst (update_local now upd m)) =
      fst (gossip_update_local now (mm_local_runtime_id m) upd (known m))"
    by (simp add: update_local_def gossip_update_local_def known_def Let_def)
  ultimately show ?thesis
    by (simp add: mm_digest_def gossip_digest_def delta_for_def gossip_delta_for_def r
        known_put_all known_update_local)
qed

section \<open>Runs of a membership table\<close>

datatype mesh_op =
    ApplyReady nat "ready_record list"
  | ApplyGossip gossip_record
  | MarkConnection runtime_id connection_state
  | Heartbeat nat
  | BeginDrain nat
  | StreamOpened runtime_id
  | StreamReceived runtime_id
  | DatagramSent runtime_id
  | DatagramReceived runtime_id
  | GossipSent runtime_id
  | GossipReceived runtime_id
  | StaleRejected "runtime_id option"

fun mesh_do :: "mesh_env \<Rightarrow> mesh_op \<Rightarrow> mesh_membership \<Rightarrow> mesh_membership" where
  "mesh_do env (ApplyReady now rs) m = apply_ready_records env now rs m"
| "mesh_do env (ApplyGossip r) m = put_gossip env r m"
| "mesh_do env (MarkConnection rid st) m = mark_connection_state rid st m"
| "mesh_do env (Heartbeat now) m = snd (update_local now id m)"
| "mesh_do env (BeginDrain now) m = begin_drain now m"
| "mesh_do env (StreamOpened rid) m = record_stream_opened rid m"
| "mesh_do env (StreamReceived rid) m = record_stream_received rid m"
| "mesh_do env (DatagramSent rid) m = record_datagram_sent rid m"
| "mesh_do env (DatagramReceived rid) m = record_datagram_received rid m"
| "mesh_do env (GossipSent rid) m = record_gossip_frame_sent rid m"
| "mesh_do env (GossipReceived rid) m = record_gossip_frame_received rid m"
| "mesh_do env (StaleRejected rid) m = record_stale_generation_rejection rid m"

definition mesh_step :: "mesh_env \<Rightarrow> mesh_membership \<Rightarrow> mesh_op \<Rightarrow> mesh_membership \<Rightarrow> bool" where
  "mesh_step env m l m' \<longleftrightarrow> m' = mesh_do env l m"

text \<open>A table as it is built at start-up, with or without the anchor; the version is a \<open>u64\<close>.\<close>

definition fresh_membership :: "mesh_membership \<Rightarrow> bool" where
  "fresh_membership m \<longleftrightarrow> (\<exists>l th. gr_version l \<le> U64_MAX \<and>
     (m = with_phi_suspect_threshold th (membership_new l) \<or>
      (\<exists>pk. m = with_phi_suspect_threshold th (with_expected_relay_pubkey pk (membership_new l)))))"

text \<open>The operations that bring a runtime into the table.\<close>

fun introduces :: "mesh_env \<Rightarrow> string option \<Rightarrow> runtime_id \<Rightarrow> mesh_op \<Rightarrow> bool" where
  "introduces env anchor rid (ApplyReady now rs) \<longleftrightarrow>
     (\<exists>r \<in> set rs. rr_runtime_id r = rid \<and> anchor = Some (rr_relay_pubkey r) \<and>
        is_ok (verify_attestation env r))"
| "introduces env anchor rid (ApplyGossip r) \<longleftrightarrow> gr_runtime_id r = rid"
| "introduces env anchor rid op \<longleftrightarrow> False"

named_theorems mesh_ops "membership operations on the peers of a table"

lemmas counter_defs [mesh_ops] =
  record_stream_opened_def record_stream_received_def record_datagram_sent_def
  record_datagram_received_def record_gossip_frame_sent_def record_gossip_frame_received_def
  record_stale_generation_rejection_def

lemmas peer_op_defs [mesh_ops] =
  mark_connection_state_def update_peer_counters_def begin_drain_def update_local_def Let_def

lemma has_peer_put_gossip:
  "has_peer rid (put_gossip env r m) \<longleftrightarrow>
     has_peer rid m \<or> gr_runtime_id r = rid \<and> rid \<noteq> mm_local_runtime_id m"
  by (auto simp: has_peer_def apply_gossip_record_def Let_def split: option.splits)

lemma mem_ok_put_gossip: "mem_ok m \<Longrightarrow> mem_ok (put_gossip env r m)"
  by (auto simp: mem_ok_def apply_gossip_record_def Let_def split: option.splits if_splits)

text \<open>
  A ready record either leaves the records alone or is applied as a gossip record of version
  one, so what each gossip record keeps is kept by each ready record.
\<close>

lemma apply_ready_cases:
  "(\<exists>n. apply_ready_record env now m r = m\<lparr>mm_foreign_relay_rejections := n\<rparr>) \<and>
      \<not> (rr_runtime_id r \<noteq> mm_local_runtime_id m \<and> mm_expected_relay_pubkey m = Some (rr_relay_pubkey r) \<and>
         is_ok (verify_attestation env r)) \<or>
   (\<exists>g. gr_runtime_id g = rr_runtime_id r \<and> gr_version g = 1 \<and>
        apply_ready_record env now m r = put_gossip env g m) \<and>
      rr_runtime_id r \<noteq> mm_local_runtime_id m \<and> mm_expected_relay_pubkey m = Some (rr_relay_pubkey r) \<and>
      is_ok (verify_attestation env r)"
proof (cases "rr_runtime_id r \<noteq> mm_local_runtime_id m \<and> mm_expected_relay_pubkey m = Some (rr_relay_pubkey r) \<and>
    is_ok (verify_attestation env r)")
  case True
  then show ?thesis
    by (intro disjI2 conjI exI [of _ "(gossip_record_new now (rr_runtime_id r) (rr_endpoint_addrs r)
          (rr_proto_version r))\<lparr>gr_capabilities := rr_capabilities r\<rparr>"])
      (auto simp: apply_ready_record_def gossip_record_new_def is_ok_iff Let_def)
next
  case False
  have "\<exists>n. m = m\<lparr>mm_foreign_relay_rejections := n\<rparr>"
    by (rule exI [of _ "mm_foreign_relay_rejections m"]) simp
  with False show ?thesis
    by (intro disjI1) (auto simp: apply_ready_record_def is_ok_iff split: sum.splits)
qed

lemma apply_ready_frame [simp]:
  "mm_local_runtime_id (apply_ready_record env now m r) = mm_local_runtime_id m"
  "mm_expected_relay_pubkey (apply_ready_record env now m r) = mm_expected_relay_pubkey m"
  "mm_local_record (apply_ready_record env now m r) = mm_local_record m"
  using apply_ready_cases [of env now m r] by auto

lemma has_peer_apply_ready:
  "has_peer rid (apply_ready_record env now m r) \<longleftrightarrow>
     has_peer rid m \<or> rid \<noteq> mm_local_runtime_id m \<and> introduces env (mm_expected_relay_pubkey m) rid (ApplyReady now [r])"
  using apply_ready_cases [of env now m r]
  by (auto simp: has_peer_put_gossip) (auto simp: has_peer_def)

lemma known_frame: "mm_local_runtime_id n = mm_local_runtime_id m \<Longrightarrow> mm_local_record n = mm_local_record m \<Longrightarrow>
    mm_peers n = mm_peers m \<Longrightarrow> known n = known m"
  by (simp add: known_def fun_eq_iff)

lemma version_le_apply_ready: "version_le (known m rid) (known (apply_ready_record env now m r) rid)"
  using apply_ready_cases [of env now m r] known_frame [of "m\<lparr>mm_foreign_relay_rejections := n\<rparr>" m for n]
  by (auto simp: mesh_tab.version_le_put)

lemma mem_ok_apply_ready: "mem_ok m \<Longrightarrow> mem_ok (apply_ready_record env now m r)"
  using apply_ready_cases [of env now m r] by (auto simp: mem_ok_put_gossip) (auto simp: mem_ok_def)

lemma apply_ready_records_frame [simp]:
  "mm_local_runtime_id (apply_ready_records env now rs m) = mm_local_runtime_id m"
  "mm_expected_relay_pubkey (apply_ready_records env now rs m) = mm_expected_relay_pubkey m"
  "mm_local_record (apply_ready_records env now rs m) = mm_local_record m"
  by (induction rs arbitrary: m) (simp_all add: apply_ready_records_def)

lemma has_peer_ready_records:
  "has_peer rid (apply_ready_records env now rs m) \<longleftrightarrow>
     has_peer rid m \<or> rid \<noteq> mm_local_runtime_id m \<and> introduces env (mm_expected_relay_pubkey m) rid (ApplyReady now rs)"
  by (induction rs arbitrary: m) (auto simp: apply_ready_records_def has_peer_apply_ready)

lemma version_le_ready_records: "version_le (known m rid) (known (apply_ready_records env now rs m) rid)"
  by (induction rs arbitrary: m)
    (auto simp: apply_ready_records_def intro: version_le_trans version_le_apply_ready)

lemma mem_ok_ready_records: "mem_ok m \<Longrightarrow> mem_ok (apply_ready_records env now rs m)"
  by (induction rs arbitrary: m) (auto simp: apply_ready_records_def mem_ok_apply_ready)

lemma mesh_do_frame [simp]:
  "mm_local_runtime_id (mesh_do env l m) = mm_local_runtime_id m"
  "mm_expected_relay_pubkey (mesh_do env l m) = mm_expected_relay_pubkey m"
  by (cases l; simp add: mesh_ops split: option.splits)+

lemma has_peer_mesh_do:
  "has_peer rid (mesh_do env l m) \<longleftrightarrow>
     has_peer rid m \<or> rid \<noteq> mm_local_runtime_id m \<and> introduces env (mm_expected_relay_pubkey m) rid l"
proof (cases l)
  case (ApplyReady now rs)
  then show ?thesis using has_peer_ready_records [of rid env now rs m] by simp
next
  case (ApplyGossip r)
  then show ?thesis by (auto simp: has_peer_put_gossip)
qed (auto simp: mesh_ops has_peer_def split: option.splits)

lemma mem_ok_mesh_do: "mem_ok m \<Longrightarrow> mem_ok (mesh_do env l m)"
proof (cases l)
  case (ApplyReady now rs)
  then show "mem_ok m \<Longrightarrow> ?thesis" by (simp add: mem_ok_ready_records)
next
  case (ApplyGossip r)
  then show "mem_ok m \<Longrightarrow> ?thesis" by (simp add: mem_ok_put_gossip)
qed (auto simp: mesh_ops mem_ok_def split: option.splits if_splits)

definition mesh_inv :: "mesh_membership \<Rightarrow> bool" where
  "mesh_inv m \<longleftrightarrow> mem_ok m \<and> gr_version (mm_local_record m) \<le> U64_MAX"

lemma saturating_inc_bounds: "saturating_inc n \<le> U64_MAX" "n \<le> U64_MAX \<Longrightarrow> n \<le> saturating_inc n"
  by (simp_all add: saturating_inc_def)

lemma mesh_inv_mesh_do: "mesh_inv m \<Longrightarrow> mesh_inv (mesh_do env l m)"
proof -
  assume i: "mesh_inv m"
  have "gr_version (mm_local_record (mesh_do env l m)) \<le> U64_MAX"
    using i by (cases l) (auto simp: mesh_ops mesh_inv_def saturating_inc_bounds split: option.splits)
  with i show ?thesis by (simp add: mesh_inv_def mem_ok_mesh_do)
qed

lemma version_le_mesh_do: "mesh_inv m \<Longrightarrow> version_le (known m rid) (known (mesh_do env l m) rid)"
proof (cases l)
  case (ApplyReady now rs)
  then show ?thesis by (simp add: version_le_ready_records)
next
  case (ApplyGossip r)
  then show ?thesis by (simp add: mesh_tab.version_le_put)
qed (auto simp: mesh_ops known_def version_le_def mesh_inv_def saturating_inc_bounds split: option.splits)

interpretation mesh: invariant_system fresh_membership "mesh_step env" mesh_inv for env
proof unfold_locales
  fix m
  assume "fresh_membership m"
  then show "mesh_inv m"
    by (auto simp: fresh_membership_def with_phi_suspect_threshold_def with_expected_relay_pubkey_def
        membership_new_def mesh_inv_def mem_ok_def)
qed (simp add: mesh_step_def mesh_inv_mesh_do)

lemma fresh_no_peer: "fresh_membership m \<Longrightarrow> \<not> has_peer rid m"
  by (auto simp: fresh_membership_def with_phi_suspect_threshold_def with_expected_relay_pubkey_def
      membership_new_def has_peer_def)

lemma run_admission:
  "run (mesh_step env) m0 ls m \<Longrightarrow>
     has_peer rid m \<longleftrightarrow> has_peer rid m0 \<or> rid \<noteq> mm_local_runtime_id m0 \<and>
       (\<exists>l \<in> set ls. introduces env (mm_expected_relay_pubkey m0) rid l)"
  by (induction ls arbitrary: m0) (auto simp: run_Cons_simps mesh_step_def has_peer_mesh_do)

lemma run_versions:
  "mesh_inv m0 \<Longrightarrow> run (mesh_step env) m0 ls m \<Longrightarrow> version_le (known m0 rid) (known m rid)"
proof (induction ls arbitrary: m0)
  case (Cons l ls)
  then show ?case
    by (auto simp: run_Cons_simps mesh_step_def
        intro: version_le_trans [OF version_le_mesh_do] mesh_inv_mesh_do)
qed simp

text \<open>
  C35: In each run of a membership table from start-up, a runtime is in the table (and so is
  admitted by the accept loop) exactly if it is not the table's own and the run applied a
  gossip record about it, or a ready record about it that carries the expected relay key and
  whose attestation verifies. Without an anchor no ready record admits anyone.
\<close>

theorem mesh_admission_exact:
  assumes "fresh_membership m0" and "run (mesh_step env) m0 ls m"
  shows "has_peer rid m \<longleftrightarrow> rid \<noteq> mm_local_runtime_id m0 \<and>
    ((\<exists>r. ApplyGossip r \<in> set ls \<and> gr_runtime_id r = rid) \<or>
     (\<exists>now rs r. ApplyReady now rs \<in> set ls \<and> r \<in> set rs \<and> rr_runtime_id r = rid \<and>
        mm_expected_relay_pubkey m0 = Some (rr_relay_pubkey r) \<and> verify_attestation env r = Ok ()))"
proof -
  have i: "introduces env a rid l \<longleftrightarrow> (\<exists>r. l = ApplyGossip r \<and> gr_runtime_id r = rid) \<or>
      (\<exists>now rs r. l = ApplyReady now rs \<and> r \<in> set rs \<and> rr_runtime_id r = rid \<and>
        a = Some (rr_relay_pubkey r) \<and> verify_attestation env r = Ok ())" for a l
    by (cases l) (auto simp: is_ok_iff)
  show ?thesis
    unfolding run_admission [OF assms(2)] i using fresh_no_peer [OF assms(1)] by blast
qed

text \<open>
  In each run the version known for a runtime never decreases and no known runtime is
  forgotten, whatever is gossiped or seeded; the table stays well formed (no entry for
  itself, each entry under the runtime id of its record, versions within 64 bits).
\<close>

theorem mesh_versions_monotone:
  assumes "fresh_membership m0" and "run (mesh_step env) m0 ls m" and "run (mesh_step env) m ms m'"
    and "known m rid = Some r"
  shows "mem_ok m' \<and> (\<exists>r'. known m' rid = Some r' \<and> gr_version r \<le> gr_version r') \<and>
    gr_version (mm_local_record m') \<le> U64_MAX"
proof -
  have m: "mesh_inv m" using mesh.run_inv mesh.start_inv assms(1,2) by blast
  then have "mesh_inv m'" using mesh.run_inv assms(3) by blast
  with run_versions [OF m assms(3), of rid] assms(4) show ?thesis
    by (auto simp: mesh_inv_def version_le_def)
qed

section \<open>Suspicion\<close>

text \<open>
  What is used of the rounding of 64-bit floating-point numbers: it is monotone and exact on
  the integers of the mantissa's range.
\<close>

definition f64_rounding :: "(real \<Rightarrow> real) \<Rightarrow> bool" where
  "f64_rounding rnd \<longleftrightarrow> mono rnd \<and> (\<forall>n \<le> 2 ^ 53. rnd (real n) = real n)"

lemma f64_mono: "f64_rounding rnd \<Longrightarrow> x \<le> y \<Longrightarrow> rnd x \<le> rnd y"
  by (simp add: f64_rounding_def monoD)

lemma f64_nat: "f64_rounding rnd \<Longrightarrow> n \<le> 2 ^ 53 \<Longrightarrow> rnd (real n) = real n"
  by (simp add: f64_rounding_def)

lemma as_secs_f64_mono:
  assumes r: "f64_rounding rnd" and "d \<le> e" and "e < 2 ^ 53 * 1000000000"
  shows "as_secs_f64 rnd d \<le> as_secs_f64 rnd e"
proof -
  let ?s = "\<lambda>n :: nat. n div 1000000000" and ?f = "\<lambda>n :: nat. real (n mod 1000000000) / 1000000000"
  have se: "?s e \<le> 2 ^ 53" and sd: "?s d \<le> ?s e" using assms(2,3) by (auto simp: div_le_mono)
  have "rnd (real (?s d)) + rnd (?f d) \<le> rnd (real (?s e)) + rnd (?f e)"
  proof (cases "?s d = ?s e")
    case True
    then have "d mod 1000000000 \<le> e mod 1000000000"
      using assms(2) by (metis add_le_cancel_left div_mult_mod_eq)
    then show ?thesis using True f64_mono [OF r, of "?f d" "?f e"] by simp
  next
    case False
    have "?f d \<le> real (1 :: nat)" "real (0 :: nat) \<le> ?f e" by (simp_all add: less_imp_le)
    from f64_mono [OF r this(1)] f64_mono [OF r this(2)] have "rnd (?f d) \<le> 1" "0 \<le> rnd (?f e)"
      using f64_nat [OF r, of 1] f64_nat [OF r, of 0] by simp_all
    moreover have "real (?s d) + 1 \<le> real (?s e)" using False sd by linarith
    ultimately show ?thesis using f64_nat [OF r se] f64_nat [OF r, of "?s d"] sd se by linarith
  qed
  then show ?thesis unfolding as_secs_f64_def by (rule f64_mono [OF r])
qed

definition phi_level :: "(real \<Rightarrow> real) \<Rightarrow> real \<Rightarrow> real \<Rightarrow> real" where
  "phi_level rnd elapsed mean = rnd (rnd (elapsed / mean) / rnd LN_10)"

lemma f64_LN_10: "f64_rounding rnd \<Longrightarrow> 2 \<le> rnd LN_10 \<and> rnd LN_10 \<le> 3"
  using f64_mono [of rnd 2 LN_10] f64_mono [of rnd LN_10 3] f64_nat [of rnd 2] f64_nat [of rnd 3]
  by (simp add: LN_10_def)

lemma phi_level_mono:
  assumes "f64_rounding rnd" and "0 < mean" and "x \<le> y"
  shows "phi_level rnd x mean \<le> phi_level rnd y mean"
proof -
  have "rnd (x / mean) \<le> rnd (y / mean)"
    by (rule f64_mono [OF assms(1)], rule divide_right_mono [OF assms(3)]) (simp add: assms(2) less_imp_le)
  then have "rnd (x / mean) / rnd LN_10 \<le> rnd (y / mean) / rnd LN_10"
    using f64_LN_10 [OF assms(1)] by (simp add: divide_right_mono)
  then show ?thesis unfolding phi_level_def by (rule f64_mono [OF assms(1)])
qed

lemma phi_level_bounds:
  assumes r: "f64_rounding rnd" and m: "0 < mean"
  shows "24 * mean \<le> e \<Longrightarrow> 8 \<le> phi_level rnd e mean" and "e \<le> 14 * mean \<Longrightarrow> phi_level rnd e mean \<le> 7"
proof -
  note ln = f64_LN_10 [OF r]
  assume "24 * mean \<le> e"
  then have "24 \<le> e / mean" using m by (simp add: le_divide_eq)
  then have "24 \<le> rnd (e / mean)"
    using f64_mono [OF r, of 24 "e / mean"] f64_nat [OF r, of 24] by simp
  then have "8 \<le> rnd (e / mean) / rnd LN_10" using ln by (simp add: le_divide_eq)
  from f64_mono [OF r this] f64_nat [OF r, of 8] show "8 \<le> phi_level rnd e mean" by (simp add: phi_level_def)
next
  note ln = f64_LN_10 [OF r]
  assume "e \<le> 14 * mean"
  then have "e / mean \<le> 14" using m by (simp add: divide_le_eq)
  then have "rnd (e / mean) \<le> 14"
    using f64_mono [OF r, of "e / mean" 14] f64_nat [OF r, of 14] by simp
  then have "rnd (e / mean) / rnd LN_10 \<le> 7" using ln by (simp add: divide_le_eq)
  from f64_mono [OF r this] f64_nat [OF r, of 7] show "phi_level rnd e mean \<le> 7" by (simp add: phi_level_def)
qed

lemma phi_at_level:
  "last_heartbeat p = Some t \<Longrightarrow> samples p \<noteq> [] \<Longrightarrow> t \<le> now \<Longrightarrow> f64_EPSILON < mean_secs rnd p \<Longrightarrow>
     phi_at rnd now p = Some (phi_level rnd (as_secs_f64 rnd (now - t)) (mean_secs rnd p))"
  by (simp add: phi_at_def phi_level_def Let_def)

lemma peers_view_ids:
  assumes "mem_ok m" and "iter_order order (mm_peers m)" and "mm_peers m rid = Some p"
  shows "rid \<in> pi_runtime_id ` set (peers_view rnd now order m) \<longleftrightarrow> \<not> is_suspect rnd now m p"
proof -
  have "rid \<in> set order" using assms by (auto simp: iter_order_def)
  have "pi_runtime_id ` set (peers_view rnd now order m) =
      {gr_runtime_id (ps_record q) | q. q \<in> set (List.map_filter (mm_peers m) order) \<and> \<not> is_suspect rnd now m q}"
    by (force simp: peers_view_def List.map_filter_def split: if_splits)
  also have "\<dots> = {k. k \<in> set order \<and> (\<exists>q. mm_peers m k = Some q \<and> \<not> is_suspect rnd now m q)}"
    using assms(1) by (force simp: List.map_filter_def mem_ok_def)
  finally show ?thesis using \<open>rid \<in> set order\<close> assms(3) by simp
qed

text \<open>
  The failure detector under the default threshold, for floating-point rounding that is
  monotone and exact on small integers: a peer with a measured mean interval is reported to
  the relay as long as it was silent for at most fourteen mean intervals, it is no longer
  reported once it was silent for twenty-four, and while it stays silent it stays unreported.
\<close>

theorem silence_detected:
  assumes r: "f64_rounding rnd" and m: "mem_ok m" "iter_order order (mm_peers m)"
    and th: "mm_phi_suspect_threshold m = DEFAULT_PHI_SUSPECT_THRESHOLD"
    and p: "mm_peers m rid = Some p" "samples (ps_phi p) \<noteq> []" "last_heartbeat (ps_phi p) = Some t" "t \<le> now"
    and mean: "f64_EPSILON < mean_secs rnd (ps_phi p)"
    and later: "now \<le> later" "later - t < 2 ^ 53 * 1000000000"
  shows "(as_secs_f64 rnd (now - t) \<le> 14 * mean_secs rnd (ps_phi p) \<longrightarrow>
        rid \<in> pi_runtime_id ` set (peers_view rnd now order m)) \<and>
    (24 * mean_secs rnd (ps_phi p) \<le> as_secs_f64 rnd (now - t) \<longrightarrow>
        rid \<notin> pi_runtime_id ` set (peers_view rnd now order m)) \<and>
    (rid \<notin> pi_runtime_id ` set (peers_view rnd now order m) \<longrightarrow>
        rid \<notin> pi_runtime_id ` set (peers_view rnd later order m))"
proof -
  have pos: "0 < mean_secs rnd (ps_phi p)" using mean by (simp add: f64_EPSILON_def order.strict_trans)
  have "t \<le> later" using p(4) later(1) by simp
  have s: "is_suspect rnd n m p \<longleftrightarrow> 8 \<le> phi_level rnd (as_secs_f64 rnd (n - t)) (mean_secs rnd (ps_phi p))"
    if "t \<le> n" for n
    using phi_at_level [OF p(3,2) that mean] th by (simp add: is_suspect_def DEFAULT_PHI_SUSPECT_THRESHOLD_def)
  have "as_secs_f64 rnd (now - t) \<le> as_secs_f64 rnd (later - t)"
    using later by (intro as_secs_f64_mono [OF r]) auto
  from phi_level_mono [OF r pos this] show ?thesis
    using phi_level_bounds [OF r pos] s [OF p(4)] s [OF \<open>t \<le> later\<close>]
    unfolding peers_view_ids [OF m p(1)] by fastforce
qed

end
