(* ===== verification/Mesh_Runtime.thy ===== *)
theory Mesh_Runtime
  imports Mesh_Membership
begin

text \<open>
  The mesh runtime (\<open>buzz-relay-mesh/src/runtime.rs\<close>): admission of inbound connections, the
  tie-break between two connections to one peer, dialing, the gossip exchange on control
  streams and the periodic digest. The tasks that wait on sockets are not modelled: each
  operation is what such a task does with one input. Sockets and the registry are parameters.
\<close>

definition CONTROL_QUEUE_DEPTH :: nat where "CONTROL_QUEUE_DEPTH = 64"

text \<open>A connection is identified by a number; \<open>pe_control\<close> is the queue of the control stream.\<close>

record mesh_peer =
  mp_runtime_id :: runtime_id
  mp_conn :: nat

record peer_entry =
  pe_peer :: mesh_peer
  pe_control :: "mesh_stream_frame list option"

record mesh_inner =
  in_runtime_id :: runtime_id
  in_membership :: mesh_membership
  in_peers :: "runtime_id \<rightharpoonup> peer_entry"

section \<open>Connections\<close>

definition new_connection_wins :: "runtime_id \<Rightarrow> runtime_id \<Rightarrow> bool \<Rightarrow> bool" where
  "new_connection_wins local remote new_dialed_by_us =
     (if local < remote then new_dialed_by_us else \<not> new_dialed_by_us)"

definition install_peer :: "mesh_peer \<Rightarrow> bool \<Rightarrow> mesh_inner \<Rightarrow> bool \<times> mesh_inner" where
  "install_peer peer dialed_by_us inner =
     (let remote = mp_runtime_id peer in
      if in_peers inner remote \<noteq> None \<and> \<not> new_connection_wins (in_runtime_id inner) remote dialed_by_us
      then (False, inner)
      else
        (True, inner\<lparr>in_peers := (in_peers inner)(remote \<mapsto>
                       \<lparr>pe_peer = peer, pe_control = (if dialed_by_us then Some [] else None)\<rparr>),
                     in_membership := mark_connection_state remote Connected (in_membership inner)\<rparr>))"

definition remove_peer :: "runtime_id \<Rightarrow> mesh_inner \<Rightarrow> mesh_inner" where
  "remove_peer rid inner =
     (case in_peers inner rid of
        None \<Rightarrow> inner
      | Some e \<Rightarrow>
          inner\<lparr>in_peers := (in_peers inner)(rid := None),
                in_membership := mark_connection_state rid Disconnected (in_membership inner)\<rparr>)"

text \<open>The registry is \<open>None\<close> in single-instance shapes, else the outcome of one scan.\<close>

definition rescan ::
  "mesh_env \<Rightarrow> nat \<Rightarrow> (mesh_error, ready_record list) result option \<Rightarrow> mesh_inner \<Rightarrow> mesh_inner" where
  "rescan env now_ms registry inner =
     (case registry of
        Some (Inr readies) \<Rightarrow>
          inner\<lparr>in_membership := apply_ready_records env now_ms readies (in_membership inner)\<rparr>
      | Some (Inl e) \<Rightarrow> inner
      | None \<Rightarrow> inner)"

definition is_known_peer ::
  "mesh_env \<Rightarrow> nat \<Rightarrow> (mesh_error, ready_record list) result option \<Rightarrow> runtime_id \<Rightarrow> mesh_inner \<Rightarrow> bool \<times> mesh_inner" where
  "is_known_peer env now_ms registry rid inner =
     (if has_peer rid (in_membership inner) then (True, inner)
      else
        (let inner1 = rescan env now_ms registry inner in (has_peer rid (in_membership inner1), inner1)))"

text \<open>What the accept loop does with one inbound connection.\<close>

definition accept_connection ::
  "mesh_env \<Rightarrow> nat \<Rightarrow> (mesh_error, ready_record list) result option \<Rightarrow> mesh_peer \<Rightarrow> mesh_inner \<Rightarrow> mesh_inner" where
  "accept_connection env now_ms registry peer inner =
     (case is_known_peer env now_ms registry (mp_runtime_id peer) inner of
        (known_peer, inner1) \<Rightarrow> if known_peer then snd (install_peer peer False inner1) else inner1)"

text \<open>
  Dialing: \<open>parse_addr\<close> parses a socket address and builds the endpoint address, with
  \<open>Inl False\<close> for an address that does not parse and \<open>Inl True\<close> for a bad peer id, after which
  the loop gives up; \<open>connect\<close> is the outcome of the handshake.
\<close>

record dialer =
  parse_addr :: "runtime_id \<Rightarrow> string \<Rightarrow> (bool, string) result"
  connect :: "string \<Rightarrow> (mesh_error, mesh_peer) result"

definition mark_in :: "runtime_id \<Rightarrow> connection_state \<Rightarrow> mesh_inner \<Rightarrow> mesh_inner" where
  "mark_in rid st inner = inner\<lparr>in_membership := mark_connection_state rid st (in_membership inner)\<rparr>"

fun dial_addrs :: "dialer \<Rightarrow> runtime_id \<Rightarrow> string list \<Rightarrow> mesh_inner \<Rightarrow> mesh_inner" where
  "dial_addrs d rid [] inner = mark_in rid Disconnected inner"
| "dial_addrs d rid (addr # addrs) inner =
     (case parse_addr d rid addr of
        Inl bad_peer_id \<Rightarrow> if bad_peer_id then inner else dial_addrs d rid addrs inner
      | Inr ea \<Rightarrow>
          (let inner1 = mark_in rid Connecting inner in
           case connect d ea of
             Inr peer \<Rightarrow> snd (install_peer peer True inner1)
           | Inl e \<Rightarrow> dial_addrs d rid addrs inner1))"

definition dial_peer :: "dialer \<Rightarrow> gossip_record \<Rightarrow> mesh_inner \<Rightarrow> mesh_inner" where
  "dial_peer d r inner = dial_addrs d (gr_runtime_id r) (gr_endpoint_addrs r) inner"

definition dial_candidates :: "runtime_id list \<Rightarrow> mesh_inner \<Rightarrow> gossip_record list" where
  "dial_candidates order inner =
     filter (\<lambda>r. gr_runtime_id r \<noteq> in_runtime_id inner \<and> \<not> gr_draining r)
       (mm_records order (in_membership inner))"

definition reconcile_once ::
  "mesh_env \<Rightarrow> nat \<Rightarrow> (mesh_error, ready_record list) result option \<Rightarrow> (mesh_membership \<Rightarrow> runtime_id list) \<Rightarrow>
   dialer \<Rightarrow> mesh_inner \<Rightarrow> mesh_inner" where
  "reconcile_once env now_ms registry order d inner =
     (let inner1 = rescan env now_ms registry inner in
      foldl (\<lambda>i r. if in_peers i (gr_runtime_id r) \<noteq> None then i else dial_peer d r i)
        inner1 (dial_candidates (order (in_membership inner1)) inner1))"

section \<open>Gossip\<close>

definition send_control_frame :: "runtime_id \<Rightarrow> mesh_stream_frame \<Rightarrow> mesh_inner \<Rightarrow> mesh_inner" where
  "send_control_frame remote frame inner =
     (case in_peers inner remote of
        None \<Rightarrow> inner
      | Some e \<Rightarrow>
          (case pe_control e of
             None \<Rightarrow> inner
           | Some q \<Rightarrow>
               if length q < CONTROL_QUEUE_DEPTH
               then inner\<lparr>in_peers := (in_peers inner)(remote \<mapsto> e\<lparr>pe_control := Some (q @ [frame])\<rparr>)\<rparr>
               else inner))"

text \<open>
  A gossip payload as the exchange loop treats it: the table afterwards and the payload of the
  answer, if there is one.
\<close>

definition gossip_receive ::
  "mesh_env \<Rightarrow> gossip_message codec \<Rightarrow> runtime_id list \<Rightarrow> runtime_id \<Rightarrow> bytes \<Rightarrow> mesh_membership \<Rightarrow>
   mesh_membership \<times> bytes option" where
  "gossip_receive env c order remote payload m =
     (let m1 = record_gossip_frame_received remote m in
      case decode_message c payload of
        Inr (Digest v entries) \<Rightarrow>
          (case encode_message c (delta_for env order entries m1) of
             Inr answer \<Rightarrow> (m1, Some answer)
           | Inl e \<Rightarrow> (m1, None))
      | Inr (Delta v rs) \<Rightarrow> (foldl (\<lambda>m r. snd (apply_gossip_record env r m)) m1 rs, None)
      | Inl e \<Rightarrow> (m1, None))"

definition handle_control_frame ::
  "mesh_env \<Rightarrow> gossip_message codec \<Rightarrow> runtime_id list \<Rightarrow> runtime_id \<Rightarrow> mesh_stream_frame \<Rightarrow> mesh_inner \<Rightarrow> mesh_inner" where
  "handle_control_frame env c order remote frame inner =
     (case frame of
        Gossip payload \<Rightarrow>
          (case gossip_receive env c order remote payload (in_membership inner) of
             (m1, reply) \<Rightarrow>
               (let inner1 = inner\<lparr>in_membership := m1\<rparr> in
                case reply of
                  None \<Rightarrow> inner1
                | Some answer \<Rightarrow> send_control_frame remote (Gossip answer) inner1))
      | other \<Rightarrow> inner)"

text \<open>One round of the writer task: the next queued frame, with the outcome of writing it.\<close>

definition control_send :: "runtime_id \<Rightarrow> bool \<Rightarrow> mesh_inner \<Rightarrow> mesh_stream_frame option \<times> mesh_inner" where
  "control_send remote written inner =
     (case in_peers inner remote of
        Some e \<Rightarrow>
          (case pe_control e of
             Some (frame # q) \<Rightarrow>
               (let inner1 = inner\<lparr>in_peers := (in_peers inner)(remote \<mapsto> e\<lparr>pe_control := Some q\<rparr>)\<rparr> in
                if written
                then (Some frame,
                      inner1\<lparr>in_membership := record_gossip_frame_sent remote (in_membership inner1)\<rparr>)
                else (None, inner1))
           | _ \<Rightarrow> (None, inner))
      | None \<Rightarrow> (None, inner))"

definition gossip_tick ::
  "mesh_env \<Rightarrow> gossip_message codec \<Rightarrow> nat \<Rightarrow> runtime_id list \<Rightarrow> runtime_id list \<Rightarrow> mesh_inner \<Rightarrow> mesh_inner" where
  "gossip_tick env c now_ms order peer_order inner =
     (let m1 = snd (update_local now_ms id (in_membership inner));
          inner1 = inner\<lparr>in_membership := m1\<rparr>
      in case encode_message c (mm_digest env order m1) of
           Inl e \<Rightarrow> inner1
         | Inr payload \<Rightarrow>
             (let targets = filter (\<lambda>rid. case in_peers inner1 rid of
                              None \<Rightarrow> False | Some e \<Rightarrow> pe_control e \<noteq> None) peer_order
              in foldl (\<lambda>i remote. send_control_frame remote (Gossip payload) i) inner1 targets))"

section \<open>Inbound streams and datagrams\<close>

text \<open>
  What the stream loop does once the first frame of a stream was read: the hello of a control
  stream gives the entry a fresh queue, the hello of a session is counted and handed over
  (\<open>Some hello\<close>) when a handler is set, anything else drops the stream.
\<close>

definition accept_stream ::
  "bool \<Rightarrow> runtime_id \<Rightarrow> (mesh_error, mesh_stream_frame option) result \<Rightarrow> mesh_inner \<Rightarrow> stream_hello option \<times> mesh_inner" where
  "accept_stream handler_set remote first inner =
     (case first of
        Inr (Some (Hello hello)) \<Rightarrow>
          (case hello_role hello of
             Control \<Rightarrow>
               (None, case in_peers inner remote of
                        None \<Rightarrow> inner
                      | Some e \<Rightarrow>
                          inner\<lparr>in_peers := (in_peers inner)(remote \<mapsto> e\<lparr>pe_control := Some []\<rparr>)\<rparr>)
           | Session fenced prof \<Rightarrow>
               (if handler_set then Some hello else None,
                inner\<lparr>in_membership := record_stream_received remote (in_membership inner)\<rparr>))
      | _ \<Rightarrow> (None, inner))"

definition send_datagram_to ::
  "mesh_datagram codec \<Rightarrow> (runtime_id \<Rightarrow> nat option) \<Rightarrow> (bytes \<Rightarrow> (string, unit) result) \<Rightarrow>
   runtime_id \<Rightarrow> mesh_datagram \<Rightarrow> mesh_inner \<Rightarrow> (mesh_error, bytes) result \<times> mesh_inner" where
  "send_datagram_to c max_size write to dgram inner =
     (case in_peers inner to of
        None \<Rightarrow> (Err (PeerNotConnected to), inner)
      | Some e \<Rightarrow>
          (case max_size to of
             None \<Rightarrow> (Err (Transport ''peer does not support QUIC datagrams''), inner)
           | Some mx \<Rightarrow>
               try_in inner (encode_datagram_checked c dgram mx) (\<lambda>bs.
                 case write bs of
                   Inl err \<Rightarrow> (Err (Transport err), inner)
                 | Inr u \<Rightarrow>
                     (Ok bs, inner\<lparr>in_membership := record_datagram_sent to (in_membership inner)\<rparr>))))"

text \<open>A received datagram: counted, and handed over when a handler is set; an error ends the peer.\<close>

definition datagram_received ::
  "bool \<Rightarrow> runtime_id \<Rightarrow> (mesh_error, mesh_datagram) result \<Rightarrow> mesh_inner \<Rightarrow> mesh_datagram option \<times> mesh_inner" where
  "datagram_received handler_set remote received inner =
     (case received of
        Inr dgram \<Rightarrow>
          (if handler_set then Some dgram else None,
           inner\<lparr>in_membership := record_datagram_received remote (in_membership inner)\<rparr>)
      | Inl e \<Rightarrow> (None, remove_peer remote inner))"

definition open_session_stream ::
  "mesh_stream_frame codec \<Rightarrow> (mesh_error, unit) result \<Rightarrow> (bytes \<Rightarrow> (mesh_error, unit) result) \<Rightarrow>
   runtime_id \<Rightarrow> stream_hello \<Rightarrow> mesh_inner \<Rightarrow> (mesh_error, bytes) result \<times> mesh_inner" where
  "open_session_stream c open_bi write to hello inner =
     (case in_peers inner to of
        None \<Rightarrow> (Err (PeerNotConnected to), inner)
      | Some e \<Rightarrow>
          try_in inner open_bi (\<lambda>_.
          try_in inner (send_frame c (Hello hello)) (\<lambda>bs.
          try_in inner (write bs) (\<lambda>_.
            (Ok bs, inner\<lparr>in_membership := record_stream_opened to (in_membership inner)\<rparr>)))))"

definition mesh_shutdown :: "mesh_inner \<Rightarrow> mesh_inner" where
  "mesh_shutdown inner = inner\<lparr>in_peers := Map.empty\<rparr>"

section \<open>Convergence\<close>

text \<open>
  One half of an exchange: \<open>a\<close> sends its digest, \<open>b\<close> answers, \<open>a\<close> takes the answer; \<open>None\<close> when a
  message cannot be encoded.
\<close>

definition gossip_pull ::
  "mesh_env \<Rightarrow> gossip_message codec \<Rightarrow> runtime_id list \<Rightarrow> runtime_id list \<Rightarrow>
   mesh_membership \<Rightarrow> mesh_membership \<Rightarrow> (mesh_membership \<times> mesh_membership) option" where
  "gossip_pull env c oa ob a b =
     (case encode_message c (mm_digest env oa a) of
        Inl e \<Rightarrow> None
      | Inr payload \<Rightarrow>
          (case gossip_receive env c ob (mm_local_runtime_id a) payload b of
             (b1, None) \<Rightarrow> None
           | (b1, Some answer) \<Rightarrow> Some (fst (gossip_receive env c oa (mm_local_runtime_id b) answer a), b1)))"

lemma received_frame [simp]:
  "mm_local_runtime_id (record_gossip_frame_received rid m) = mm_local_runtime_id m"
  "mm_local_record (record_gossip_frame_received rid m) = mm_local_record m"
  by (simp_all add: mesh_ops split: option.splits)

lemma known_received [simp]: "known (record_gossip_frame_received rid m) = known m"
  by (auto simp: mesh_ops known_def fun_eq_iff split: option.splits)

lemma mem_ok_received [simp]: "mem_ok (record_gossip_frame_received rid m) \<longleftrightarrow> mem_ok m"
  by (auto simp: mesh_ops mem_ok_def split: option.splits if_splits)

lemma iter_order_received [simp]:
  "iter_order ks (mm_peers (record_gossip_frame_received rid m)) \<longleftrightarrow> iter_order ks (mm_peers m)"
  by (auto simp: mesh_ops iter_order_def dom_def split: option.splits)

lemma decode_encode_message:
  "codec_ok c \<Longrightarrow> message_version msg = GOSSIP_PAYLOAD_VERSION \<Longrightarrow> encode_message c msg = Ok bs \<Longrightarrow>
     decode_message c bs = Ok msg"
  by (auto simp: codec_ok_def encode_message_def decode_message_def split: sum.splits)

lemma gossip_pull_steps:
  assumes c: "codec_ok c" and p: "gossip_pull env c oa ob a b = Some (a', b')"
  obtains v es w out where "mm_digest env oa a = Digest v es"
    and "delta_for env ob es (record_gossip_frame_received (mm_local_runtime_id a) b) = Delta w out"
    and "a' = mesh_tab.put_all env out (record_gossip_frame_received (mm_local_runtime_id b) a)"
    and "b' = record_gossip_frame_received (mm_local_runtime_id a) b"
proof -
  let ?b1 = "record_gossip_frame_received (mm_local_runtime_id a) b"
  obtain es where d: "mm_digest env oa a = Digest GOSSIP_PAYLOAD_VERSION es"
    by (simp add: mm_digest_def digest_of_def)
  obtain out where dl: "delta_for env ob es ?b1 = Delta GOSSIP_PAYLOAD_VERSION out"
    by (simp add: delta_for_def delta_of_def)
  obtain p1 where p1: "encode_message c (mm_digest env oa a) = Ok p1"
    using p by (auto simp: gossip_pull_def split: sum.splits)
  have q1: "decode_message c p1 = Ok (mm_digest env oa a)"
    using decode_encode_message [OF c _ p1] d by simp
  obtain p2 where p2: "encode_message c (delta_for env ob es ?b1) = Ok p2"
    using p p1 q1 d by (auto simp: gossip_pull_def gossip_receive_def Let_def split: sum.splits)
  have q2: "decode_message c p2 = Ok (delta_for env ob es ?b1)"
    using decode_encode_message [OF c _ p2] dl by simp
  have "a' = mesh_tab.put_all env out (record_gossip_frame_received (mm_local_runtime_id b) a)" "b' = ?b1"
    using p p1 p2 q1 q2 d dl by (simp_all add: gossip_pull_def gossip_receive_def mesh_tab.put_all_def)
  with d dl show thesis by (rule that)
qed

lemma gossip_pull_known:
  assumes c: "codec_ok c"
    and ok: "mem_ok a" "mem_ok b" "iter_order oa (mm_peers a)" "iter_order ob (mm_peers b)"
    and p: "gossip_pull env c oa ob a b = Some (a', b')"
  shows "known b' = known b" "mem_ok a'" "mem_ok b'"
    and "mm_local_runtime_id a' = mm_local_runtime_id a" "mm_local_runtime_id b' = mm_local_runtime_id b"
    and "known a' rid = (if rid = mm_local_runtime_id a then known a rid else newer (known a rid) (known b rid))"
proof -
  let ?a1 = "record_gossip_frame_received (mm_local_runtime_id b) a"
  let ?b1 = "record_gossip_frame_received (mm_local_runtime_id a) b"
  obtain v es w out where d: "mm_digest env oa a = Digest v es" and dl: "delta_for env ob es ?b1 = Delta w out"
    and g: "a' = mesh_tab.put_all env out ?a1" "b' = ?b1"
    using gossip_pull_steps [OF c p] .
  show "known b' = known b" "mem_ok b'" "mm_local_runtime_id b' = mm_local_runtime_id b"
    using ok by (simp_all add: g)
  have frame: "mem_ok m \<Longrightarrow> mem_ok (mesh_tab.put_all env rs m) \<and>
      mm_local_runtime_id (mesh_tab.put_all env rs m) = mm_local_runtime_id m" for rs m
    by (induction rs arbitrary: m) (simp_all add: mem_ok_put_gossip)
  show "mem_ok a'" "mm_local_runtime_id a' = mm_local_runtime_id a" using frame ok by (simp_all add: g)
  have "mm_local_runtime_id a \<notin> set oa" using ok by (auto simp: iter_order_def mem_ok_def)
  then have d1: "mm_digest env oa ?a1 = Digest v es"
    using d by (simp add: mm_digest_def mm_records_known)
  show "known a' rid = (if rid = mm_local_runtime_id a then known a rid else newer (known a rid) (known b rid))"
    using known_after_delta [of ?a1 ?b1 oa ob env v es w out rid] ok d1 dl by (simp add: g)
qed

text \<open>
  C34: Gossip converges. When two runtimes exchange digests and deltas in both directions, through
  the encoded messages, and neither knows a version of the other's own record beyond the
  owner's, then afterwards both know the same version of every runtime's record, namely the
  newest either knew, and no record comes from elsewhere. Where equal versions meant equal
  records before, the two tables hold the same record.
\<close>

theorem gossip_exchange_converges:
  assumes codec: "codec_ok c"
    and ok: "mem_ok a" "mem_ok b" "mm_local_runtime_id a \<noteq> mm_local_runtime_id b"
    and owners: "version_le (known b (mm_local_runtime_id a)) (known a (mm_local_runtime_id a))"
      "version_le (known a (mm_local_runtime_id b)) (known b (mm_local_runtime_id b))"
    and pull_a: "iter_order oa (mm_peers a)" "iter_order ob (mm_peers b)"
      "gossip_pull env c oa ob a b = Some (a1, b1)"
    and pull_b: "iter_order oa1 (mm_peers a1)" "iter_order ob1 (mm_peers b1)"
      "gossip_pull env c ob1 oa1 b1 a1 = Some (b2, a2)"
  shows "map_option gr_version (known a2 rid) = map_option gr_version (known b2 rid) \<and>
    version_le (known a rid) (known a2 rid) \<and> version_le (known b rid) (known a2 rid) \<and>
    known a2 rid \<in> {known a rid, known b rid} \<and> known b2 rid \<in> {known a rid, known b rid} \<and>
    ((\<forall>x y. known a rid = Some x \<and> known b rid = Some y \<and> gr_version x = gr_version y \<longrightarrow> x = y) \<longrightarrow>
       known a2 rid = known b2 rid)"
proof -
  note A = gossip_pull_known [OF codec ok(1,2) pull_a]
  note B = gossip_pull_known [OF codec A(3,2) pull_b(2,1,3)]
  have a2: "known a2 rid = (if rid = mm_local_runtime_id a then known a rid else newer (known a rid) (known b rid))"
    using A(6) B(1) by simp
  have b2: "known b2 rid = (if rid = mm_local_runtime_id b then known b rid else newer (known b rid) (known a2 rid))"
    using A(1,5) B(1,6) by simp
  show ?thesis
  proof (cases "rid = mm_local_runtime_id a")
    case True
    with ok(3) a2 b2 owners(1) show ?thesis
      by (cases "known a rid"; cases "known b rid") (auto simp: version_le_def)
  next
    case False
    with a2 b2 owners(2) show ?thesis
      by (cases "known a rid"; cases "known b rid"; cases "rid = mm_local_runtime_id b")
        (auto simp: version_le_def)
  qed
qed

section \<open>Two connections to one peer\<close>

text \<open>The connection kept after a sequence of installations, none before the first.\<close>

definition install_all :: "(mesh_peer \<times> bool) list \<Rightarrow> mesh_inner \<Rightarrow> mesh_inner" where
  "install_all ps inner = foldl (\<lambda>i p. snd (install_peer (fst p) (snd p) i)) inner ps"

definition canonical :: "runtime_id \<Rightarrow> runtime_id \<Rightarrow> mesh_peer \<times> bool \<Rightarrow> bool" where
  "canonical l remote p \<longleftrightarrow> mp_runtime_id (fst p) = remote \<and> new_connection_wins l remote (snd p)"

definition kept :: "runtime_id \<Rightarrow> mesh_inner \<Rightarrow> mesh_peer option" where
  "kept remote inner = map_option pe_peer (in_peers inner remote)"

lemma in_runtime_id_install [simp]: "in_runtime_id (snd (install_peer p d i)) = in_runtime_id i"
  by (simp add: install_peer_def Let_def)

lemma kept_install:
  "kept remote (snd (install_peer p d i)) =
     (if mp_runtime_id p = remote \<and> (kept remote i = None \<or> canonical (in_runtime_id i) remote (p, d))
      then Some p else kept remote i)"
  by (auto simp: install_peer_def kept_def canonical_def Let_def)

lemma kept_install_all:
  assumes "\<And>p. p \<in> set ps \<Longrightarrow> mp_runtime_id (fst p) = remote"
  shows "kept remote (install_all ps i) =
    (let cs = filter (canonical (in_runtime_id i) remote) ps in
     if cs \<noteq> [] then Some (fst (last cs))
     else if kept remote i \<noteq> None then kept remote i
     else if ps = [] then None else Some (fst (hd ps)))"
  using assms
proof (induction ps arbitrary: i)
  case Nil
  then show ?case by (simp add: install_all_def)
next
  case (Cons p ps)
  let ?i = "snd (install_peer (fst p) (snd p) i)"
  have "install_all (p # ps) i = install_all ps ?i" by (simp add: install_all_def)
  with Cons show ?case by (simp add: kept_install Let_def)
qed

text \<open>
  The tie-break between two connections is the same on both ends. Two runtimes install, in
  whatever order each sees them, the connections between them; if both see the same
  connections of the runtime with the smaller id in the same order, and at least one, both
  ends keep the same connection: the last one dialed by the runtime with the smaller id.
\<close>

theorem tie_break_agrees:
  assumes ids: "in_runtime_id i < in_runtime_id j"
    and pi: "\<forall>p \<in> set ps. mp_runtime_id (fst p) = in_runtime_id j"
    and qj: "\<forall>q \<in> set qs. mp_runtime_id (fst q) = in_runtime_id i"
    and same: "map (mp_conn \<circ> fst) (filter snd ps) = map (mp_conn \<circ> fst) (filter (Not \<circ> snd) qs)"
    and dialed: "filter snd ps \<noteq> []"
  shows "map_option mp_conn (kept (in_runtime_id j) (install_all ps i)) =
      Some (mp_conn (fst (last (filter snd ps)))) \<and>
    map_option mp_conn (kept (in_runtime_id i) (install_all qs j)) =
      Some (mp_conn (fst (last (filter snd ps))))"
proof -
  have fi: "filter (canonical (in_runtime_id i) (in_runtime_id j)) ps = filter snd ps"
    using pi ids by (intro filter_cong) (auto simp: canonical_def new_connection_wins_def)
  have fj: "filter (canonical (in_runtime_id j) (in_runtime_id i)) qs = filter (Not \<circ> snd) qs"
    using qj ids by (intro filter_cong) (auto simp: canonical_def new_connection_wins_def)
  have ne: "filter (Not \<circ> snd) qs \<noteq> []" using same dialed by (metis map_is_Nil_conv)
  have "mp_conn (fst (last (filter (Not \<circ> snd) qs))) = mp_conn (fst (last (filter snd ps)))"
    using arg_cong [OF same, of last] ne dialed by (simp add: last_map)
  then show ?thesis
    using pi qj ne dialed by (simp add: kept_install_all fi fj Let_def)
qed

section \<open>Only known runtimes are connected\<close>

datatype runtime_op =
    AcceptConnection nat "(mesh_error, ready_record list) result option" mesh_peer
  | Reconcile nat "(mesh_error, ready_record list) result option" "mesh_membership \<Rightarrow> runtime_id list" dialer
  | ConnectionLost runtime_id
  | ControlFrame "runtime_id list" runtime_id mesh_stream_frame
  | ControlSend runtime_id bool
  | GossipTick nat "runtime_id list" "runtime_id list"
  | StreamAccepted bool runtime_id "(mesh_error, mesh_stream_frame option) result"
  | DatagramIn bool runtime_id "(mesh_error, mesh_datagram) result"
  | DatagramOut "mesh_datagram codec" "runtime_id \<Rightarrow> nat option" "bytes \<Rightarrow> (string, unit) result" runtime_id mesh_datagram
  | SessionOut "mesh_stream_frame codec" "(mesh_error, unit) result" "bytes \<Rightarrow> (mesh_error, unit) result" runtime_id stream_hello
  | Drain nat
  | Shutdown

fun runtime_do :: "mesh_env \<Rightarrow> gossip_message codec \<Rightarrow> runtime_op \<Rightarrow> mesh_inner \<Rightarrow> mesh_inner" where
  "runtime_do env c (AcceptConnection now registry peer) i = accept_connection env now registry peer i"
| "runtime_do env c (Reconcile now registry order d) i = reconcile_once env now registry order d i"
| "runtime_do env c (ConnectionLost rid) i = remove_peer rid i"
| "runtime_do env c (ControlFrame order remote frame) i = handle_control_frame env c order remote frame i"
| "runtime_do env c (ControlSend remote written) i = snd (control_send remote written i)"
| "runtime_do env c (GossipTick now order porder) i = gossip_tick env c now order porder i"
| "runtime_do env c (StreamAccepted h remote first) i = snd (accept_stream h remote first i)"
| "runtime_do env c (DatagramIn h remote received) i = snd (datagram_received h remote received i)"
| "runtime_do env c (DatagramOut dc mx write to dgram) i = snd (send_datagram_to dc mx write to dgram i)"
| "runtime_do env c (SessionOut fc open_bi write to hello) i = snd (open_session_stream fc open_bi write to hello i)"
| "runtime_do env c Shutdown i = mesh_shutdown i"
| "runtime_do env c (Drain now) i = i\<lparr>in_membership := begin_drain now (in_membership i)\<rparr>"

text \<open>The handshake of the transport authenticates the dialed runtime id.\<close>

definition dialer_ok :: "dialer \<Rightarrow> bool" where
  "dialer_ok d \<longleftrightarrow> (\<forall>rid addr ea peer. parse_addr d rid addr = Ok ea \<longrightarrow> connect d ea = Ok peer \<longrightarrow>
     mp_runtime_id peer = rid)"

fun op_dialer_ok :: "runtime_op \<Rightarrow> bool" where
  "op_dialer_ok (Reconcile now registry order d) = dialer_ok d"
| "op_dialer_ok op = True"

definition runtime_step ::
  "mesh_env \<Rightarrow> gossip_message codec \<Rightarrow> mesh_inner \<Rightarrow> runtime_op \<Rightarrow> mesh_inner \<Rightarrow> bool" where
  "runtime_step env c i l i' \<longleftrightarrow> op_dialer_ok l \<and> i' = runtime_do env c l i"

definition fresh_runtime :: "mesh_inner \<Rightarrow> bool" where
  "fresh_runtime i \<longleftrightarrow> fresh_membership (in_membership i) \<and> in_peers i = Map.empty \<and>
     mm_local_runtime_id (in_membership i) = in_runtime_id i"

definition entry_ok :: "mesh_membership \<Rightarrow> runtime_id \<Rightarrow> peer_entry \<Rightarrow> bool" where
  "entry_ok m rid e \<longleftrightarrow> has_peer rid m \<and> mp_runtime_id (pe_peer e) = rid \<and>
     (\<forall>q. pe_control e = Some q \<longrightarrow> length q \<le> CONTROL_QUEUE_DEPTH)"

definition runtime_ok :: "mesh_inner \<Rightarrow> bool" where
  "runtime_ok i \<longleftrightarrow> mem_ok (in_membership i) \<and> mm_local_runtime_id (in_membership i) = in_runtime_id i \<and>
     (\<forall>rid e. in_peers i rid = Some e \<longrightarrow> entry_ok (in_membership i) rid e)"

text \<open>A membership operation keeps the table well formed and forgets no runtime.\<close>

definition table_ext :: "mesh_membership \<Rightarrow> mesh_membership \<Rightarrow> bool" where
  "table_ext m m' \<longleftrightarrow> (mem_ok m \<longrightarrow> mem_ok m') \<and> mm_local_runtime_id m' = mm_local_runtime_id m \<and>
     (\<forall>rid. has_peer rid m \<longrightarrow> has_peer rid m')"

lemma table_ext_mesh_do: "table_ext m (mesh_do env l m)"
  by (simp add: table_ext_def mem_ok_mesh_do has_peer_mesh_do)

lemma table_ext_refl [simp]: "table_ext m m"
  by (simp add: table_ext_def)

lemma table_ext_trans: "table_ext l m \<Longrightarrow> table_ext m n \<Longrightarrow> table_ext l n"
  by (simp add: table_ext_def)

lemmas table_ext_ops [simp] =
  table_ext_mesh_do [of m env "ApplyReady now rs" for m env now rs, simplified]
  table_ext_mesh_do [of m env "ApplyGossip r" for m env r, simplified]
  table_ext_mesh_do [of m env "MarkConnection rid st" for m env rid st, simplified]
  table_ext_mesh_do [of m env "Heartbeat now" for m env now, simplified]
  table_ext_mesh_do [of m env "BeginDrain now" for m env now, simplified]
  table_ext_mesh_do [of m env "StreamReceived rid" for m env rid, simplified]
  table_ext_mesh_do [of m env "StreamOpened rid" for m env rid, simplified]
  table_ext_mesh_do [of m env "DatagramSent rid" for m env rid, simplified]
  table_ext_mesh_do [of m env "DatagramReceived rid" for m env rid, simplified]
  table_ext_mesh_do [of m env "GossipSent rid" for m env rid, simplified]
  table_ext_mesh_do [of m env "GossipReceived rid" for m env rid, simplified]

lemma table_ext_gossip_all: "table_ext m (foldl (\<lambda>m r. put_gossip env r m) m rs)"
  by (induction rs arbitrary: m) (auto intro: table_ext_trans table_ext_ops(2))

lemma runtime_ok_membership:
  "runtime_ok i \<Longrightarrow> table_ext (in_membership i) m \<Longrightarrow> runtime_ok (i\<lparr>in_membership := m\<rparr>)"
  by (auto simp: runtime_ok_def table_ext_def entry_ok_def)

lemma runtime_ok_entry:
  "runtime_ok i \<Longrightarrow> entry_ok (in_membership i) rid e \<Longrightarrow> runtime_ok (i\<lparr>in_peers := (in_peers i)(rid \<mapsto> e)\<rparr>)"
  by (simp add: runtime_ok_def)

lemma runtime_ok_install:
  assumes "runtime_ok i" and "has_peer (mp_runtime_id p) (in_membership i)"
  shows "runtime_ok (snd (install_peer p d i))"
proof -
  let ?e = "\<lparr>pe_peer = p, pe_control = (if d then Some [] else None)\<rparr>"
  have "runtime_ok (i\<lparr>in_peers := (in_peers i)(mp_runtime_id p \<mapsto> ?e)\<rparr>)"
    using assms by (intro runtime_ok_entry) (auto simp: entry_ok_def)
  from runtime_ok_membership [OF this, of "mark_connection_state (mp_runtime_id p) Connected (in_membership i)"]
  show ?thesis using assms(1) by (simp add: install_peer_def Let_def)
qed

lemma runtime_ok_rescan: "runtime_ok i \<Longrightarrow> runtime_ok (rescan env now registry i)"
  by (auto simp: rescan_def runtime_ok_membership split: option.splits sum.splits)

lemma runtime_ok_accept: "runtime_ok i \<Longrightarrow> runtime_ok (accept_connection env now registry p i)"
  by (auto simp: accept_connection_def is_known_peer_def Let_def runtime_ok_install runtime_ok_rescan)

lemma runtime_ok_dial_addrs:
  "runtime_ok i \<Longrightarrow> dialer_ok d \<Longrightarrow> has_peer rid (in_membership i) \<Longrightarrow>
     runtime_ok (dial_addrs d rid addrs i) \<and> table_ext (in_membership i) (in_membership (dial_addrs d rid addrs i))"
proof (induction addrs arbitrary: i)
  case Nil
  then show ?case by (simp add: mark_in_def runtime_ok_membership)
next
  case (Cons addr addrs)
  let ?i = "mark_in rid Connecting i"
  have i: "runtime_ok ?i" "has_peer rid (in_membership ?i)" "table_ext (in_membership i) (in_membership ?i)"
    using Cons.prems table_ext_ops(3) [of "in_membership i" rid Connecting]
    by (auto simp: mark_in_def runtime_ok_membership table_ext_def)
  have inst: "table_ext m (in_membership (snd (install_peer p True j)))" if "table_ext m (in_membership j)" for p j m
    using that by (auto simp: install_peer_def Let_def intro: table_ext_trans)
  show ?case
    using Cons i inst
    by (auto simp: Let_def dialer_ok_def runtime_ok_install split: sum.splits intro: table_ext_trans)
qed

lemma runtime_ok_reconcile:
  assumes "runtime_ok i" and "dialer_ok d"
  shows "runtime_ok (reconcile_once env now registry order d i)"
proof -
  let ?i = "rescan env now registry i"
  let ?f = "\<lambda>i r. if in_peers i (gr_runtime_id r) \<noteq> None then i else dial_peer d r i"
  have ok: "runtime_ok ?i" using assms(1) by (rule runtime_ok_rescan)
  have known: "has_peer (gr_runtime_id r) (in_membership ?i)" if "r \<in> set (dial_candidates ks ?i)" for r ks
    using that ok
    by (auto simp: dial_candidates_def mm_records_def List.map_filter_def runtime_ok_def mem_ok_def has_peer_def)
  have "runtime_ok (foldl ?f j rs)"
    if "runtime_ok j" "\<forall>r \<in> set rs. has_peer (gr_runtime_id r) (in_membership j)" for j rs
    using that
  proof (induction rs arbitrary: j)
    case (Cons r rs)
    show ?case
    proof (cases "in_peers j (gr_runtime_id r) = None")
      case True
      have "runtime_ok (dial_peer d r j)" "table_ext (in_membership j) (in_membership (dial_peer d r j))"
        using runtime_ok_dial_addrs [OF Cons.prems(1) assms(2)] Cons.prems(2) by (auto simp: dial_peer_def)
      with Cons True show ?thesis by (simp add: table_ext_def)
    qed (use Cons in simp)
  qed simp
  with ok known show ?thesis by (simp add: reconcile_once_def Let_def)
qed

lemma runtime_ok_send_control: "runtime_ok i \<Longrightarrow> runtime_ok (send_control_frame remote f i)"
  by (auto simp: send_control_frame_def intro!: runtime_ok_entry split: option.splits)
    (auto simp: runtime_ok_def entry_ok_def)

lemma runtime_ok_gossip_receive:
  "table_ext m (fst (gossip_receive env c order remote payload m))"
  by (auto simp: gossip_receive_def Let_def split: sum.splits gossip_message.splits
      intro: table_ext_trans [OF _ table_ext_gossip_all])

lemma runtime_ok_control_frame: "runtime_ok i \<Longrightarrow> runtime_ok (handle_control_frame env c order remote frame i)"
  using runtime_ok_gossip_receive [of "in_membership i" env c order remote]
  by (auto simp: handle_control_frame_def Let_def runtime_ok_membership runtime_ok_send_control
      split: mesh_stream_frame.splits prod.splits option.splits) (metis fst_conv runtime_ok_membership runtime_ok_send_control)+

lemma runtime_ok_control_send: "runtime_ok i \<Longrightarrow> runtime_ok (snd (control_send remote written i))"
proof -
  assume i: "runtime_ok i"
  have "runtime_ok (i\<lparr>in_peers := (in_peers i)(remote \<mapsto> e\<lparr>pe_control := Some q\<rparr>)\<rparr>)"
    if "in_peers i remote = Some e" "pe_control e = Some (f # q)" for e f q
    using i that by (intro runtime_ok_entry) (fastforce simp: runtime_ok_def entry_ok_def)+
  then show ?thesis
    using i runtime_ok_membership [where m = "record_gossip_frame_sent remote (in_membership i)"]
    by (force simp: control_send_def Let_def split: option.splits list.splits)
qed

lemma runtime_ok_tick: "runtime_ok i \<Longrightarrow> runtime_ok (gossip_tick env c now order porder i)"
proof -
  assume "runtime_ok i"
  then have "runtime_ok (i\<lparr>in_membership := snd (update_local now id (in_membership i))\<rparr>)"
    by (simp add: runtime_ok_membership)
  moreover have "runtime_ok j \<Longrightarrow> runtime_ok (foldl (\<lambda>i remote. send_control_frame remote f i) j rs)" for j f rs
    by (induction rs arbitrary: j) (simp_all add: runtime_ok_send_control)
  ultimately show ?thesis by (simp add: gossip_tick_def Let_def split: sum.splits)
qed

lemma runtime_ok_stream: "runtime_ok i \<Longrightarrow> runtime_ok (snd (accept_stream h remote first i))"
  by (auto simp: accept_stream_def runtime_ok_membership intro!: runtime_ok_entry
      split: sum.splits option.splits mesh_stream_frame.splits stream_role.splits)
    (auto simp: runtime_ok_def entry_ok_def)

lemma runtime_ok_remove: "runtime_ok i \<Longrightarrow> runtime_ok (remove_peer rid i)"
proof -
  assume i: "runtime_ok i"
  then have "runtime_ok (i\<lparr>in_peers := (in_peers i)(rid := None)\<rparr>)" by (simp add: runtime_ok_def)
  from runtime_ok_membership [OF this, of "mark_connection_state rid Disconnected (in_membership i)"] i
  show ?thesis by (simp add: remove_peer_def split: option.splits)
qed

lemma runtime_ok_traffic:
  "runtime_ok i \<Longrightarrow> runtime_ok (snd (datagram_received h remote received i))"
  "runtime_ok i \<Longrightarrow> runtime_ok (snd (send_datagram_to dc mx write to dgram i))"
  "runtime_ok i \<Longrightarrow> runtime_ok (snd (open_session_stream fc open_bi wr to hello i))"
  "runtime_ok i \<Longrightarrow> runtime_ok (mesh_shutdown i)"
  by (simp_all add: datagram_received_def send_datagram_to_def open_session_stream_def try_in_def
      runtime_ok_membership runtime_ok_remove split: option.splits sum.splits)
    (simp add: mesh_shutdown_def runtime_ok_def)

lemma runtime_ok_do: "runtime_ok i \<Longrightarrow> op_dialer_ok l \<Longrightarrow> runtime_ok (runtime_do env c l i)"
  by (cases l) (simp_all add: runtime_ok_accept runtime_ok_reconcile runtime_ok_remove runtime_ok_control_frame
      runtime_ok_control_send runtime_ok_tick runtime_ok_stream runtime_ok_membership runtime_ok_traffic)

interpretation runtime: invariant_system fresh_runtime "runtime_step env c" runtime_ok for env c
proof unfold_locales
  fix i
  assume "fresh_runtime i"
  then show "runtime_ok i"
    using mesh.start_inv by (auto simp: fresh_runtime_def runtime_ok_def mesh_inv_def)
qed (auto simp: runtime_step_def runtime_ok_do)

text \<open>
  In each reachable state of the mesh runtime every open connection belongs to a runtime of
  the membership table, under its own id, and never to the runtime itself, and no control
  queue exceeds its depth, provided that the transport's handshake authenticates the dialed id.
\<close>

theorem connected_peers_known:
  assumes "reachable fresh_runtime (runtime_step env c) i" and "in_peers i rid = Some e"
  shows "has_peer rid (in_membership i) \<and> rid \<noteq> in_runtime_id i \<and> mp_runtime_id (pe_peer e) = rid \<and>
    (case pe_control e of None \<Rightarrow> True | Some q \<Rightarrow> length q \<le> CONTROL_QUEUE_DEPTH)"
proof -
  have "runtime_ok i" using runtime.reachable_inv [OF assms(1)] .
  with assms(2) have "entry_ok (in_membership i) rid e" "\<not> has_peer (in_runtime_id i) (in_membership i)"
    by (auto simp: runtime_ok_def mem_ok_def has_peer_def)
  then show ?thesis by (auto simp: entry_ok_def split: option.splits)
qed

section \<open>Concrete runs\<close>

text \<open>An environment in which a signature is the key followed by the message.\<close>

definition toy_mesh :: mesh_env where
  "toy_mesh =
     \<lparr>hex_encode = (\<lambda>b. b), pk_from_hex = Ok, pk_to_hex = (\<lambda>b. b), pk_xonly = Ok, sig_from_str = Ok,
      sha256 = (\<lambda>b. b), verify_schnorr = (\<lambda>sig msg pk. if sig = pk @ msg then Ok () else Err ''bad signature''),
      keys_public = (\<lambda>k. k), sign_schnorr = (\<lambda>k msg. k @ msg)\<rparr>"

definition toy_seed :: ready_record where
  "toy_seed = ready_record_new toy_mesh ''b'' ''k'' [''10.0.0.2:3478''] 1 []"

definition toy_table :: "runtime_id \<Rightarrow> mesh_membership" where
  "toy_table rid =
     with_phi_suspect_threshold 8 (with_expected_relay_pubkey ''k'' (membership_new (gossip_record_new 5 rid [] 1)))"

lemma toy_seed_verifies: "verify_attestation toy_mesh toy_seed = Ok ()"
  by (simp add: verify_attestation_def verify_attestation_parts_def toy_mesh_def toy_seed_def ready_record_new_def
      runtime_attestation_new_def attestation_message_def Let_def)

lemma fresh_toy_table: "fresh_membership (toy_table rid)"
  unfolding fresh_membership_def toy_table_def
  by (intro exI [of _ "gossip_record_new 5 rid [] 1"] exI [of _ 8]) (auto simp: gossip_record_new_def U64_MAX_def)

lemma toy_table_fields [simp]:
  "mm_local_runtime_id (toy_table rid) = rid" "mm_expected_relay_pubkey (toy_table rid) = Some ''k''"
  "mm_peers (toy_table rid) = Map.empty" "mm_local_record (toy_table rid) = gossip_record_new 5 rid [] 1"
  by (simp_all add: toy_table_def with_phi_suspect_threshold_def with_expected_relay_pubkey_def
      membership_new_def gossip_record_new_def)

lemma toy_seed_fields [simp]: "rr_runtime_id toy_seed = ''b''" "rr_relay_pubkey toy_seed = ''k''"
  by (simp_all add: toy_seed_def ready_record_new_def runtime_attestation_new_def toy_mesh_def Let_def)

theorem mesh_admission_exact_witness:
  "fresh_membership (toy_table ''a'') \<and>
   run (mesh_step toy_mesh) (toy_table ''a'') [ApplyReady 7 [toy_seed]]
     (mesh_do toy_mesh (ApplyReady 7 [toy_seed]) (toy_table ''a'')) \<and>
   has_peer ''b'' (mesh_do toy_mesh (ApplyReady 7 [toy_seed]) (toy_table ''a'')) \<and>
   \<not> has_peer ''c'' (mesh_do toy_mesh (ApplyReady 7 [toy_seed]) (toy_table ''a''))"
proof -
  let ?m = "mesh_do toy_mesh (ApplyReady 7 [toy_seed]) (toy_table ''a'')"
  have r: "run (mesh_step toy_mesh) (toy_table ''a'') [ApplyReady 7 [toy_seed]] ?m"
    by (simp add: run_Cons_simps mesh_step_def)
  show ?thesis
    using mesh_admission_exact [OF fresh_toy_table r, of "''b''"] mesh_admission_exact [OF fresh_toy_table r, of "''c''"]
      r fresh_toy_table toy_seed_verifies by simp
qed

theorem mesh_versions_monotone_witness:
  "\<exists>r'. known (mesh_do toy_mesh (Heartbeat 9) (toy_table ''a'')) ''a'' = Some r' \<and> 1 \<le> gr_version r'"
proof -
  let ?m = "mesh_do toy_mesh (Heartbeat 9) (toy_table ''a'')"
  have r: "run (mesh_step toy_mesh) (toy_table ''a'') [Heartbeat 9] ?m"
    by (simp add: run_Cons_simps mesh_step_def)
  have k: "known (toy_table ''a'') ''a'' = Some (gossip_record_new 5 ''a'' [] 1)" by (simp add: known_def)
  show ?thesis
    using mesh_versions_monotone [OF fresh_toy_table run_nil r k] by (simp add: gossip_record_new_def)
qed

theorem membership_refines_gossip_witness:
  "mem_ok (toy_table ''a'') \<and> iter_order [] (mm_peers (toy_table ''a'')) \<and>
   mm_digest toy_mesh [] (toy_table ''a'') = gossip_digest (hex_encode toy_mesh) [''a''] (known (toy_table ''a''))"
proof -
  have ok: "mem_ok (toy_table ''a'')" "iter_order [] (mm_peers (toy_table ''a''))"
    by (simp_all add: mem_ok_def iter_order_def gossip_record_new_def)
  show ?thesis using membership_refines_gossip [OF ok, of toy_mesh] ok by simp
qed

definition toy_runtime :: mesh_inner where
  "toy_runtime = \<lparr>in_runtime_id = ''a'', in_membership = toy_table ''a'', in_peers = Map.empty\<rparr>"

definition toy_peer :: mesh_peer where
  "toy_peer = \<lparr>mp_runtime_id = ''b'', mp_conn = 4\<rparr>"

theorem connected_peers_known_witness:
  "has_peer ''b'' (in_membership (accept_connection toy_mesh 7 (Some (Ok [toy_seed])) toy_peer toy_runtime))"
proof -
  let ?l = "AcceptConnection 7 (Some (Ok [toy_seed])) toy_peer"
  let ?i = "accept_connection toy_mesh 7 (Some (Ok [toy_seed])) toy_peer toy_runtime"
  have "reachable fresh_runtime (runtime_step toy_mesh c) toy_runtime" for c
    by (rule reach_start) (simp add: fresh_runtime_def toy_runtime_def fresh_toy_table)
  then have r: "reachable fresh_runtime (runtime_step toy_mesh c) ?i" for c
    by (rule reach_step [where l = ?l]) (simp add: runtime_step_def)
  have "in_peers ?i ''b'' = Some \<lparr>pe_peer = toy_peer, pe_control = None\<rparr>"
    using toy_seed_verifies
    by (simp add: accept_connection_def is_known_peer_def rescan_def toy_runtime_def toy_peer_def install_peer_def
        has_peer_ready_records Let_def)
  then show ?thesis using connected_peers_known [OF r] by simp
qed

theorem tie_break_agrees_witness:
  "map_option mp_conn (kept ''b'' (install_all
     [(\<lparr>mp_runtime_id = ''b'', mp_conn = 1\<rparr>, False), (\<lparr>mp_runtime_id = ''b'', mp_conn = 2\<rparr>, True)] toy_runtime)) =
   map_option mp_conn (kept ''a'' (install_all
     [(\<lparr>mp_runtime_id = ''a'', mp_conn = 2\<rparr>, False), (\<lparr>mp_runtime_id = ''a'', mp_conn = 1\<rparr>, True)]
     (toy_runtime\<lparr>in_runtime_id := ''b''\<rparr>)))"
proof -
  let ?ps = "[(\<lparr>mp_runtime_id = ''b'', mp_conn = 1\<rparr>, False), (\<lparr>mp_runtime_id = ''b'', mp_conn = 2\<rparr>, True)]"
  let ?qs = "[(\<lparr>mp_runtime_id = ''a'', mp_conn = 2\<rparr>, False), (\<lparr>mp_runtime_id = ''a'', mp_conn = 1\<rparr>, True)]"
  let ?j = "toy_runtime\<lparr>in_runtime_id := ''b''\<rparr>"
  have "in_runtime_id toy_runtime < in_runtime_id ?j" by (simp add: toy_runtime_def less_char_def)
  then show ?thesis
    using tie_break_agrees [of toy_runtime ?j ?ps ?qs] by (auto simp: toy_runtime_def)
qed

text \<open>A serializer that knows the four messages of one exchange between two fresh tables.\<close>

abbreviation toy_digest :: "runtime_id \<Rightarrow> gossip_message" where
  "toy_digest rid \<equiv> Digest 1 [\<lparr>de_runtime_id = rid, de_version = 1\<rparr>]"

abbreviation toy_delta :: "runtime_id \<Rightarrow> gossip_message" where
  "toy_delta rid \<equiv> Delta 1 [gossip_record_new 5 rid [] 1]"

definition toy_gossip_codec :: "gossip_message codec" where
  "toy_gossip_codec =
     \<lparr>pc_to = (\<lambda>f. if f = toy_digest ''a'' then Ok ''0'' else if f = toy_delta ''b'' then Ok ''1''
                   else if f = toy_digest ''b'' then Ok ''2'' else if f = toy_delta ''a'' then Ok ''3'' else Err ''other''),
      pc_from = (\<lambda>bs. if bs = ''0'' then Ok (toy_digest ''a'') else if bs = ''1'' then Ok (toy_delta ''b'')
                   else if bs = ''2'' then Ok (toy_digest ''b'') else if bs = ''3'' then Ok (toy_delta ''a'') else Err ''other''),
      read_error = ''closed''\<rparr>"

lemma toy_gossip_codec_ok: "codec_ok toy_gossip_codec"
  by (auto simp: codec_ok_def toy_gossip_codec_def split: if_splits)

lemma toy_codec_messages:
  "encode_message toy_gossip_codec (toy_digest ''a'') = Ok ''0''"
  "encode_message toy_gossip_codec (toy_delta ''b'') = Ok ''1''"
  "encode_message toy_gossip_codec (toy_digest ''b'') = Ok ''2''"
  "encode_message toy_gossip_codec (toy_delta ''a'') = Ok ''3''"
  "decode_message toy_gossip_codec ''0'' = Ok (toy_digest ''a'')"
  "decode_message toy_gossip_codec ''1'' = Ok (toy_delta ''b'')"
  "decode_message toy_gossip_codec ''2'' = Ok (toy_digest ''b'')"
  "decode_message toy_gossip_codec ''3'' = Ok (toy_delta ''a'')"
  by (simp_all add: encode_message_def decode_message_def toy_gossip_codec_def gossip_record_new_def
      GOSSIP_PAYLOAD_VERSION_def)

abbreviation toy_a1 :: mesh_membership where
  "toy_a1 \<equiv> put_gossip toy_mesh (gossip_record_new 5 ''b'' [] 1) (toy_table ''a'')"

lemma toy_received [simp]: "record_gossip_frame_received rid (toy_table x) = toy_table x"
  by (simp add: mesh_ops)

lemma toy_known: "known (toy_table x) y = (if y = x then Some (gossip_record_new 5 x [] 1) else None)"
  by (simp add: known_def)

lemma toy_records:
  "mm_records [] (toy_table x) = [gossip_record_new 5 x [] 1]"
  "mm_records [''b''] (record_gossip_frame_received ''b'' toy_a1) =
     [gossip_record_new 5 ''b'' [] 1, gossip_record_new 5 ''a'' [] 1]"
proof -
  have rid: "gr_runtime_id (gossip_record_new n x as v) = x" for n x as v by (simp add: gossip_record_new_def)
  show "mm_records [] (toy_table x) = [gossip_record_new 5 x [] 1]"
    by (simp add: mm_records_def List.map_filter_simps)
  show "mm_records [''b''] (record_gossip_frame_received ''b'' toy_a1) =
     [gossip_record_new 5 ''b'' [] 1, gossip_record_new 5 ''a'' [] 1]"
    by (simp add: mm_records_known gossip_records_def List.map_filter_simps mesh_tab.look_put toy_known rid)
qed

lemma toy_table_messages:
  "mm_digest toy_mesh [] (toy_table x) = toy_digest x"
  "x \<noteq> y \<Longrightarrow> delta_for toy_mesh [] [\<lparr>de_runtime_id = x, de_version = 1\<rparr>] (toy_table y) = toy_delta y"
  "delta_for toy_mesh [''b''] [\<lparr>de_runtime_id = ''b'', de_version = 1\<rparr>]
     (record_gossip_frame_received ''b'' toy_a1) = toy_delta ''a''"
  unfolding mm_digest_def delta_for_def toy_records
  by (simp_all add: digest_of_def delta_of_def remote_versions_def gossip_record_new_def GOSSIP_PAYLOAD_VERSION_def)

lemma toy_pull_1: "gossip_pull toy_mesh toy_gossip_codec [] [] (toy_table ''a'') (toy_table ''b'') = Some (toy_a1, toy_table ''b'')"
  using toy_codec_messages(1,2,5,6) toy_table_messages(1,2)
  by (simp add: gossip_pull_def gossip_receive_def Let_def)

lemma toy_pull_2:
  "\<exists>a2 b2. gossip_pull toy_mesh toy_gossip_codec [] [''b''] (toy_table ''b'') toy_a1 = Some (b2, a2)"
  using toy_codec_messages(3,4,7,8) toy_table_messages(1,3)
  by (simp add: gossip_pull_def gossip_receive_def Let_def)

theorem gossip_exchange_converges_witness:
  "\<exists>a2 b2. gossip_pull toy_mesh toy_gossip_codec [] [''b''] (toy_table ''b'') toy_a1 = Some (b2, a2) \<and>
     map_option gr_version (known b2 ''a'') = map_option gr_version (known a2 ''a'') \<and> known a2 ''a'' \<noteq> None"
proof -
  obtain a2 b2 where p2: "gossip_pull toy_mesh toy_gossip_codec [] [''b''] (toy_table ''b'') toy_a1 = Some (b2, a2)"
    using toy_pull_2 by blast
  have ok: "mem_ok (toy_table x)" for x by (simp add: mem_ok_def gossip_record_new_def)
  have o1: "iter_order [''b''] (mm_peers toy_a1)"
    by (auto simp: iter_order_def apply_gossip_record_def gossip_record_new_def Let_def)
  have v: "version_le (known (toy_table x) y) (known (toy_table y) y)" for x y
    by (simp add: version_le_def known_def gossip_record_new_def)
  have "mm_local_runtime_id (toy_table ''a'') \<noteq> mm_local_runtime_id (toy_table ''b'')" by simp
  from gossip_exchange_converges [OF toy_gossip_codec_ok ok ok this _ _ _ _ toy_pull_1 o1 _ p2, of "''a''"] v p2
  show ?thesis
    by (simp add: iter_order_def) (auto simp: version_le_def known_def)
qed

text \<open>A table with one peer whose heartbeats came once a second.\<close>

definition toy_watched :: mesh_membership where
  "toy_watched = (toy_table ''a'')\<lparr>mm_peers :=
     [''b'' \<mapsto> \<lparr>ps_record = gossip_record_new 5 ''b'' [] 1,
               ps_phi = \<lparr>samples = [1000000000, 1000000000], last_heartbeat = Some 0, max_samples = 100\<rparr>,
               ps_connection_state = Connected, ps_counters = counters_for ''b''\<rparr>]\<rparr>"

theorem silence_detected_witness:
  "''b'' \<in> pi_runtime_id ` set (peers_view id 14000000000 [''b''] toy_watched) \<and>
   ''b'' \<notin> pi_runtime_id ` set (peers_view id 24000000000 [''b''] toy_watched)"
proof -
  have r: "f64_rounding id" by (simp add: f64_rounding_def mono_def)
  have m: "mem_ok toy_watched" "iter_order [''b''] (mm_peers toy_watched)"
    "mm_phi_suspect_threshold toy_watched = DEFAULT_PHI_SUSPECT_THRESHOLD"
    by (auto simp: mem_ok_def iter_order_def toy_watched_def toy_table_def with_phi_suspect_threshold_def
        with_expected_relay_pubkey_def membership_new_def gossip_record_new_def DEFAULT_PHI_SUSPECT_THRESHOLD_def
        split: if_splits)
  obtain p where p: "mm_peers toy_watched ''b'' = Some p"
      "ps_phi p = \<lparr>samples = [1000000000, 1000000000], last_heartbeat = Some 0, max_samples = 100\<rparr>"
    by (simp add: toy_watched_def)
  then have mean: "mean_secs id (ps_phi p) = 1"
    by (simp add: mean_secs_def as_secs_f64_def)
  have "f64_EPSILON < mean_secs id (ps_phi p)" by (simp add: mean f64_EPSILON_def)
  note S = silence_detected [OF r m p(1) _ _ _ this, where t = 0]
  show ?thesis
    using S [of 14000000000 14000000000] S [of 24000000000 24000000000] mean p(2)
    by (simp add: as_secs_f64_def)
qed

end
