(* ===== verification/Event_Queue.thy ===== *)
theory Event_Queue
  imports Nostr_Events Complex_Main
begin

text \<open>
  The event queue of the agent harness (\<open>buzz-acp\<close>: \<open>queue.rs\<close>, \<open>queue-routing-cap.rs\<close>,
  \<open>conversation.rs\<close>): pending events per conversation, the conversations with a prompt in
  flight, retries with backoff, cancelled batches that are merged into the next prompt and
  events withheld while a steer is under way. The clock, the parser of UUIDs and the order in
  which a hash map is iterated are arguments; a point in time is a number of nanoseconds.
\<close>

definition MAX_PENDING_PER_CHANNEL :: nat where "MAX_PENDING_PER_CHANNEL = 500"
definition MAX_BATCH_EVENTS :: nat where "MAX_BATCH_EVENTS = 50"
definition MAX_RETRIES :: nat where "MAX_RETRIES = 10"
definition BASE_RETRY_DELAY_SECS :: nat where "BASE_RETRY_DELAY_SECS = 5"
definition MAX_RETRY_DELAY_SECS :: nat where "MAX_RETRY_DELAY_SECS = 300"
definition IN_FLIGHT_DEADLINE_BUFFER_SECS :: nat where "IN_FLIGHT_DEADLINE_BUFFER_SECS = 100"
definition DEFAULT_IN_FLIGHT_DEADLINE_SECS :: nat where "DEFAULT_IN_FLIGHT_DEADLINE_SECS = 7300"

definition from_secs :: "nat \<Rightarrow> nat" where
  "from_secs s = s * 1000000000"

section \<open>Data\<close>

record queued_event =
  qe_channel_id :: uuid
  qe_event :: event
  qe_received_at :: nat
  qe_prompt_tag :: string
  qe_edited_content :: "string option"
  qe_hold_exempt :: bool

record batch_event =
  be_event :: event
  be_prompt_tag :: string
  be_received_at :: nat
  be_edited_content :: "string option"

datatype cancel_reason = Interrupt | Steer

record flush_batch =
  fb_channel_id :: uuid
  fb_events :: "batch_event list"
  fb_cancelled_events :: "batch_event list"
  fb_cancel_reason :: "cancel_reason option"

datatype dedup_mode = Drop | Queue

record event_queue =
  queues :: "uuid \<rightharpoonup> queued_event list"
  in_flight_channels :: "uuid set"
  in_flight_deadlines :: "uuid \<rightharpoonup> nat"
  in_flight_batch_sizes :: "uuid \<rightharpoonup> nat"
  in_flight_event_ids :: "uuid \<rightharpoonup> string set"
  retry_after :: "uuid \<rightharpoonup> nat"
  retry_counts :: "uuid \<rightharpoonup> nat"
  busy_notice_sent :: "uuid set"
  eq_dedup_mode :: dedup_mode
  cancelled_batches :: "uuid \<rightharpoonup> batch_event list"
  cancel_reasons :: "uuid \<rightharpoonup> cancel_reason"
  withheld_native_steer :: "uuid \<rightharpoonup> queued_event list"
  in_flight_deadline :: nat
  dispatch_hold :: nat

text \<open>The order in which the entries of a map with the given keys are visited.\<close>

type_synonym key_order = "uuid set \<Rightarrow> uuid list"

definition order_ok :: "key_order \<Rightarrow> bool" where
  "order_ok ord \<longleftrightarrow> (\<forall>S. finite S \<longrightarrow> distinct (ord S) \<and> set (ord S) = S)"

definition queue_new :: "dedup_mode \<Rightarrow> event_queue" where
  "queue_new mode =
     \<lparr>queues = Map.empty, in_flight_channels = {}, in_flight_deadlines = Map.empty,
      in_flight_batch_sizes = Map.empty, in_flight_event_ids = Map.empty, retry_after = Map.empty,
      retry_counts = Map.empty, busy_notice_sent = {}, eq_dedup_mode = mode,
      cancelled_batches = Map.empty, cancel_reasons = Map.empty, withheld_native_steer = Map.empty,
      in_flight_deadline = from_secs DEFAULT_IN_FLIGHT_DEADLINE_SECS, dispatch_hold = 0\<rparr>"

definition with_in_flight_deadline :: "nat \<Rightarrow> event_queue \<Rightarrow> event_queue" where
  "with_in_flight_deadline max_turn_secs q =
     q\<lparr>in_flight_deadline := from_secs (max_turn_secs + IN_FLIGHT_DEADLINE_BUFFER_SECS)\<rparr>"

definition with_dispatch_hold :: "nat \<Rightarrow> event_queue \<Rightarrow> event_queue" where
  "with_dispatch_hold hold q = q\<lparr>dispatch_hold := hold\<rparr>"

section \<open>Conversations and routing\<close>

text \<open>The first \<open>h\<close> tag whose second element is a UUID.\<close>

fun find_channel_tag :: "(string \<Rightarrow> uuid option) \<Rightarrow> tag list \<Rightarrow> uuid option" where
  "find_channel_tag parse [] = None"
| "find_channel_tag parse (t # ts) =
     (case (if tag_is ''h'' t then Option.bind (tag_content t) parse else None) of
        Some ch \<Rightarrow> Some ch
      | None \<Rightarrow> find_channel_tag parse ts)"

definition routing_channel_id :: "(string \<Rightarrow> uuid option) \<Rightarrow> event \<Rightarrow> uuid option" where
  "routing_channel_id parse ev = find_channel_tag parse (event_tags ev)"

record thread_tags =
  root_event_id :: "string option"
  parent_event_id :: "string option"
  mentioned_pubkeys :: "string list"

definition parse_thread_tags :: "event \<Rightarrow> thread_tags" where
  "parse_thread_tags ev =
     (let resolved = thread_resolve (parse_thread_markers (event_tags ev)) in
      \<lparr>root_event_id = map_option fst resolved, parent_event_id = map_option snd resolved,
       mentioned_pubkeys = map (\<lambda>t. t ! 1) (filter (\<lambda>t. length t \<ge> 2 \<and> t ! 0 = ''p'') (event_tags ev))\<rparr>)"

text \<open>\<open>digest_uuid\<close> is the UUID made of the first sixteen bytes of a SHA-256 digest.\<close>

definition deterministic_id :: "(string \<Rightarrow> uuid) \<Rightarrow> (uuid \<Rightarrow> string) \<Rightarrow> uuid \<Rightarrow> string \<Rightarrow> uuid" where
  "deterministic_id digest_uuid uuid_bytes ch root_event =
     digest_uuid (''buzz-acp-conversation-v1'' @ uuid_bytes ch @ root_event)"

definition id_for_event :: "(string \<Rightarrow> uuid) \<Rightarrow> (uuid \<Rightarrow> string) \<Rightarrow> uuid \<Rightarrow> event \<Rightarrow> bool \<Rightarrow> uuid" where
  "id_for_event digest_uuid uuid_bytes ch ev is_dm =
     (if is_dm then ch
      else
        deterministic_id digest_uuid uuid_bytes ch
          (case root_event_id (parse_thread_tags ev) of Some r \<Rightarrow> r | None \<Rightarrow> event_id ev))"

definition batch_routing_channel_id :: "(string \<Rightarrow> uuid option) \<Rightarrow> flush_batch \<Rightarrow> uuid" where
  "batch_routing_channel_id parse b =
     (let l = (if fb_events b \<noteq> [] then Some (last (fb_events b))
               else if fb_cancelled_events b \<noteq> [] then Some (last (fb_cancelled_events b)) else None) in
      case Option.bind l (\<lambda>e. routing_channel_id parse (be_event e)) of
        Some ch \<Rightarrow> ch | None \<Rightarrow> fb_channel_id b)"

definition queued_routing_channel :: "(string \<Rightarrow> uuid option) \<Rightarrow> uuid \<Rightarrow> queued_event list \<Rightarrow> uuid" where
  "queued_routing_channel parse conversation q =
     (case q of
        [] \<Rightarrow> conversation
      | e # es \<Rightarrow> (case routing_channel_id parse (qe_event e) of None \<Rightarrow> conversation | Some ch \<Rightarrow> ch))"

section \<open>The aggregate cap\<close>

type_synonym queue_map = "uuid \<rightharpoonup> queued_event list"

text \<open>One pass over the queues: how many events the channel has, and its oldest head.\<close>

definition cap_scan_step ::
  "(string \<Rightarrow> uuid option) \<Rightarrow> uuid \<Rightarrow> queue_map \<Rightarrow> nat \<times> (nat \<times> uuid) option \<Rightarrow> uuid \<Rightarrow> nat \<times> (nat \<times> uuid) option" where
  "cap_scan_step parse ch qs acc conv =
     (case qs conv of
        None \<Rightarrow> acc
      | Some q \<Rightarrow>
          if queued_routing_channel parse conv q \<noteq> ch then acc
          else
            (fst acc + length q,
             case q of
               [] \<Rightarrow> snd acc
             | e # es \<Rightarrow>
                 (case snd acc of
                    None \<Rightarrow> Some (qe_received_at e, conv)
                  | Some (t, c) \<Rightarrow>
                      if qe_received_at e < t \<or> qe_received_at e = t \<and> conv < c
                      then Some (qe_received_at e, conv) else snd acc)))"

definition cap_scan ::
  "(string \<Rightarrow> uuid option) \<Rightarrow> uuid \<Rightarrow> uuid list \<Rightarrow> queue_map \<Rightarrow> nat \<times> (nat \<times> uuid) option" where
  "cap_scan parse ch ks qs = foldl (cap_scan_step parse ch qs) (0, None) ks"

definition pop_front :: "uuid \<Rightarrow> queue_map \<Rightarrow> queue_map" where
  "pop_front conv qs =
     (case qs conv of
        None \<Rightarrow> qs
      | Some q \<Rightarrow> if tl q = [] then qs(conv := None) else qs(conv \<mapsto> tl q))"

lemma cap_scan_step_victim:
  "snd (cap_scan_step parse ch qs acc conv) = Some (t, v) \<Longrightarrow>
     snd acc = Some (t, v) \<or> v = conv \<and> (\<exists>e es. qs v = Some (e # es))"
  by (auto simp: cap_scan_step_def split: option.splits list.splits if_splits prod.splits)

lemma cap_scan_victim:
  "cap_scan parse ch ks qs = (n, Some (t, v)) \<Longrightarrow> v \<in> set ks \<and> (\<exists>e es. qs v = Some (e # es))"
proof -
  have "snd (foldl (cap_scan_step parse ch qs) acc ks) = Some (t, v) \<Longrightarrow>
      snd acc = Some (t, v) \<or> v \<in> set ks \<and> (\<exists>e es. qs v = Some (e # es))" for acc
  proof (induction ks arbitrary: acc)
    case (Cons k ks)
    from Cons.IH [of "cap_scan_step parse ch qs acc k"] Cons.prems
    show ?case using cap_scan_step_victim [of parse ch qs acc k t v] by auto
  qed simp
  from this [of "(0, None)"] show "cap_scan parse ch ks qs = (n, Some (t, v)) \<Longrightarrow> ?thesis"
    by (simp add: cap_scan_def)
qed

definition pending_size :: "uuid list \<Rightarrow> queue_map \<Rightarrow> nat" where
  "pending_size ks qs = (\<Sum>k \<leftarrow> ks. case qs k of None \<Rightarrow> 0 | Some q \<Rightarrow> length q)"

lemma pending_size_pop_front:
  assumes "v \<in> set ks" and "qs v = Some (e # es)"
  shows "pending_size ks (pop_front v qs) < pending_size ks qs"
proof -
  have le: "(case pop_front v qs k of None \<Rightarrow> 0 | Some q \<Rightarrow> length q) \<le> (case qs k of None \<Rightarrow> 0 | Some q \<Rightarrow> length q)"
    for k using assms(2) by (auto simp: pop_front_def)
  have "pending_size xs (pop_front v qs) \<le> pending_size xs qs" for xs
    unfolding pending_size_def by (intro sum_list_mono le)
  moreover obtain xs ys where "ks = xs @ v # ys" using assms(1) by (meson split_list)
  moreover have "pending_size (xs @ v # ys) f =
      pending_size xs f + (case f v of None \<Rightarrow> 0 | Some q \<Rightarrow> length q) + pending_size ys f" for f
    by (simp add: pending_size_def)
  moreover have "(case pop_front v qs v of None \<Rightarrow> 0 | Some q \<Rightarrow> length q) < (case qs v of None \<Rightarrow> 0 | Some q \<Rightarrow> length q)"
    using assms(2) by (auto simp: pop_front_def)
  ultimately show ?thesis by (metis add_less_le_mono add_le_less_mono)
qed

function enforce_loop :: "(string \<Rightarrow> uuid option) \<Rightarrow> uuid \<Rightarrow> uuid list \<Rightarrow> queue_map \<Rightarrow> queue_map" where
  "enforce_loop parse ch ks qs =
     (case cap_scan parse ch ks qs of
        (n, oldest) \<Rightarrow>
          if n \<le> MAX_PENDING_PER_CHANNEL then qs
          else (case oldest of None \<Rightarrow> qs | Some (t, victim) \<Rightarrow> enforce_loop parse ch ks (pop_front victim qs)))"
  by pat_completeness auto
termination
  by (relation "measure (\<lambda>(parse, ch, ks, qs). pending_size ks qs)")
    (auto dest!: sym [of _ "cap_scan _ _ _ _"] cap_scan_victim intro: pending_size_pop_front)

declare enforce_loop.simps [simp del]

definition enforce_routing_channel_cap ::
  "(string \<Rightarrow> uuid option) \<Rightarrow> key_order \<Rightarrow> uuid \<Rightarrow> event_queue \<Rightarrow> event_queue" where
  "enforce_routing_channel_cap parse ord conversation q =
     (case queues q conversation of
        None \<Rightarrow> q
      | Some queue \<Rightarrow>
          q\<lparr>queues := enforce_loop parse (queued_routing_channel parse conversation queue)
                       (ord (dom (queues q))) (queues q)\<rparr>)"

section \<open>Adding events\<close>

definition queue_at :: "uuid \<Rightarrow> event_queue \<Rightarrow> queued_event list" where
  "queue_at conv q = (case queues q conv of None \<Rightarrow> [] | Some es \<Rightarrow> es)"

definition has_queued_id :: "string \<Rightarrow> queued_event list option \<Rightarrow> bool" where
  "has_queued_id eid es = (case es of None \<Rightarrow> False | Some xs \<Rightarrow> \<exists>e \<in> set xs. event_id (qe_event e) = eid)"

definition has_batch_id :: "string \<Rightarrow> batch_event list option \<Rightarrow> bool" where
  "has_batch_id eid es = (case es of None \<Rightarrow> False | Some xs \<Rightarrow> \<exists>e \<in> set xs. event_id (be_event e) = eid)"

definition contains_event :: "uuid \<Rightarrow> string \<Rightarrow> event_queue \<Rightarrow> bool" where
  "contains_event ch eid q \<longleftrightarrow>
     has_queued_id eid (queues q ch) \<or>
     (case in_flight_event_ids q ch of None \<Rightarrow> False | Some ids \<Rightarrow> eid \<in> ids) \<or>
     has_batch_id eid (cancelled_batches q ch) \<or>
     has_queued_id eid (withheld_native_steer q ch)"

definition queue_push ::
  "(string \<Rightarrow> uuid option) \<Rightarrow> key_order \<Rightarrow> queued_event \<Rightarrow> event_queue \<Rightarrow> bool \<times> event_queue" where
  "queue_push parse ord e q =
     (if contains_event (qe_channel_id e) (event_id (qe_event e)) q then (False, q)
      else if eq_dedup_mode q = Drop \<and> qe_channel_id e \<in> in_flight_channels q then (False, q)
      else
        (let conversation_id = qe_channel_id e;
             queue = queue_at conversation_id q;
             queue1 = (if length queue \<ge> MAX_PENDING_PER_CHANNEL then tl queue else queue);
             q1 = q\<lparr>queues := (queues q)(conversation_id \<mapsto> queue1 @ [e])\<rparr>
         in (True, enforce_routing_channel_cap parse ord conversation_id q1)))"

text \<open>
  Events put back at the front of a queue, which is then cut at its end to the cap; shared by
  the requeue operations and the release of withheld events.
\<close>

definition push_front_all ::
  "(string \<Rightarrow> uuid option) \<Rightarrow> key_order \<Rightarrow> uuid \<Rightarrow> queued_event list \<Rightarrow> event_queue \<Rightarrow> event_queue" where
  "push_front_all parse ord conv es q =
     enforce_routing_channel_cap parse ord conv
       (q\<lparr>queues := (queues q)(conv \<mapsto> take MAX_PENDING_PER_CHANNEL (es @ queue_at conv q))\<rparr>)"

section \<open>Flushing\<close>

definition recover_withheld_for_expired_channel ::
  "(string \<Rightarrow> uuid option) \<Rightarrow> key_order \<Rightarrow> uuid \<Rightarrow> event_queue \<Rightarrow> event_queue" where
  "recover_withheld_for_expired_channel parse ord conv q =
     (case withheld_native_steer q conv of
        None \<Rightarrow> q
      | Some entries \<Rightarrow>
          push_front_all parse ord conv entries
            (q\<lparr>withheld_native_steer := (withheld_native_steer q)(conv := None)\<rparr>))"

definition expire_channel ::
  "(string \<Rightarrow> uuid option) \<Rightarrow> key_order \<Rightarrow> event_queue \<Rightarrow> uuid \<Rightarrow> event_queue" where
  "expire_channel parse ord q conv =
     recover_withheld_for_expired_channel parse ord conv
       (q\<lparr>in_flight_batch_sizes := (in_flight_batch_sizes q)(conv := None),
          in_flight_channels := in_flight_channels q - {conv},
          in_flight_event_ids := (in_flight_event_ids q)(conv := None),
          in_flight_deadlines := (in_flight_deadlines q)(conv := None)\<rparr>)"

definition expired_channels :: "key_order \<Rightarrow> nat \<Rightarrow> event_queue \<Rightarrow> uuid list" where
  "expired_channels ord now q =
     filter (\<lambda>conv. case in_flight_deadlines q conv of None \<Rightarrow> False | Some d \<Rightarrow> now \<ge> d)
       (ord (dom (in_flight_deadlines q)))"

definition expire_in_flight :: "(string \<Rightarrow> uuid option) \<Rightarrow> key_order \<Rightarrow> nat \<Rightarrow> event_queue \<Rightarrow> event_queue" where
  "expire_in_flight parse ord now q = foldl (expire_channel parse ord) q (expired_channels ord now q)"

definition head_past_dispatch_hold :: "queued_event \<Rightarrow> nat \<Rightarrow> nat \<Rightarrow> bool" where
  "head_past_dispatch_hold e hold now \<longleftrightarrow> qe_hold_exempt e \<or> hold = 0 \<or> qe_received_at e + hold \<le> now"

definition not_throttled :: "nat \<Rightarrow> event_queue \<Rightarrow> uuid \<Rightarrow> bool" where
  "not_throttled now q conv \<longleftrightarrow> (case retry_after q conv of None \<Rightarrow> True | Some t \<Rightarrow> t \<le> now)"

definition flushable :: "nat \<Rightarrow> event_queue \<Rightarrow> uuid \<Rightarrow> bool" where
  "flushable now q conv \<longleftrightarrow>
     (case queues q conv of
        None \<Rightarrow> False
      | Some es \<Rightarrow>
          es \<noteq> [] \<and> conv \<notin> in_flight_channels q \<and> not_throttled now q conv \<and>
          head_past_dispatch_hold (hd es) (dispatch_hold q) now)"

text \<open>\<open>Iterator::min_by_key\<close>: the first element with the least key.\<close>

definition min_by_key :: "('a \<Rightarrow> nat) \<Rightarrow> 'a list \<Rightarrow> 'a option" where
  "min_by_key key xs =
     foldl (\<lambda>best x. case best of None \<Rightarrow> Some x | Some b \<Rightarrow> if key x < key b then Some x else best) None xs"

definition head_time :: "event_queue \<Rightarrow> uuid \<Rightarrow> nat" where
  "head_time q conv = qe_received_at (hd (queue_at conv q))"

definition to_batch_event :: "queued_event \<Rightarrow> batch_event" where
  "to_batch_event e =
     \<lparr>be_event = qe_event e, be_prompt_tag = qe_prompt_tag e, be_received_at = qe_received_at e,
      be_edited_content = qe_edited_content e\<rparr>"

definition batch_ids :: "batch_event list \<Rightarrow> string set" where
  "batch_ids es = (\<lambda>e. event_id (be_event e)) ` set es"

definition start_in_flight :: "nat \<Rightarrow> uuid \<Rightarrow> nat \<Rightarrow> string set \<Rightarrow> event_queue \<Rightarrow> event_queue" where
  "start_in_flight now conv n ids q =
     q\<lparr>in_flight_channels := insert conv (in_flight_channels q),
       in_flight_deadlines := (in_flight_deadlines q)(conv \<mapsto> now + in_flight_deadline q),
       in_flight_batch_sizes := (in_flight_batch_sizes q)(conv \<mapsto> n),
       in_flight_event_ids := (in_flight_event_ids q)(conv \<mapsto> ids)\<rparr>"

text \<open>The two ways a batch is made: from a queue, or from a cancelled batch alone.\<close>

definition flush_queue :: "nat \<Rightarrow> uuid \<Rightarrow> event_queue \<Rightarrow> flush_batch \<times> event_queue" where
  "flush_queue now conv q =
     (let queue = queue_at conv q;
          drain_count = min MAX_BATCH_EVENTS (length queue);
          events = sort_key (\<lambda>e. created_at (be_event e)) (map to_batch_event (take drain_count queue));
          rest = drop drain_count queue;
          cancelled = (case cancelled_batches q conv of None \<Rightarrow> [] | Some es \<Rightarrow> es);
          reason = (if cancelled = [] then None else cancel_reasons q conv);
          q1 = q\<lparr>queues := (queues q)(conv := (if rest = [] then None else Some rest)),
                 cancelled_batches := (cancelled_batches q)(conv := None),
                 cancel_reasons := (cancel_reasons q)(conv := None)\<rparr>
      in (\<lparr>fb_channel_id = conv, fb_events = events, fb_cancelled_events = cancelled, fb_cancel_reason = reason\<rparr>,
          start_in_flight now conv (length events) (batch_ids (events @ cancelled)) q1))"

definition flush_cancelled :: "nat \<Rightarrow> uuid \<Rightarrow> event_queue \<Rightarrow> flush_batch \<times> event_queue" where
  "flush_cancelled now conv q =
     (let cancelled = (case cancelled_batches q conv of None \<Rightarrow> [] | Some es \<Rightarrow> es);
          q1 = q\<lparr>cancelled_batches := (cancelled_batches q)(conv := None),
                 cancel_reasons := (cancel_reasons q)(conv := None)\<rparr>
      in (\<lparr>fb_channel_id = conv, fb_events = cancelled, fb_cancelled_events = [],
           fb_cancel_reason = cancel_reasons q conv\<rparr>,
          start_in_flight now conv (length cancelled) (batch_ids cancelled) q1))"

definition flush_next ::
  "(string \<Rightarrow> uuid option) \<Rightarrow> key_order \<Rightarrow> nat \<Rightarrow> event_queue \<Rightarrow> flush_batch option \<times> event_queue" where
  "flush_next parse ord now q =
     (let q1 = expire_in_flight parse ord now q in
      case min_by_key (head_time q1) (filter (flushable now q1) (ord (dom (queues q1)))) of
        Some conv \<Rightarrow> (case flush_queue now conv q1 of (b, q2) \<Rightarrow> (Some b, q2))
      | None \<Rightarrow>
          (case filter (\<lambda>conv. conv \<notin> in_flight_channels q1) (ord (dom (cancelled_batches q1))) of
             conv # convs \<Rightarrow> (case flush_cancelled now conv q1 of (b, q2) \<Rightarrow> (Some b, q2))
           | [] \<Rightarrow> (None, q1)))"

definition has_flushable_work ::
  "(string \<Rightarrow> uuid option) \<Rightarrow> key_order \<Rightarrow> nat \<Rightarrow> event_queue \<Rightarrow> bool \<times> event_queue" where
  "has_flushable_work parse ord now q =
     (let q1 = expire_in_flight parse ord now q in
      ((\<exists>conv \<in> dom (queues q1). flushable now q1 conv) \<or>
       (\<exists>conv \<in> dom (cancelled_batches q1). conv \<notin> in_flight_channels q1), q1))"

definition has_undispatched_work :: "event_queue \<Rightarrow> bool" where
  "has_undispatched_work q \<longleftrightarrow>
     (\<exists>conv es. queues q conv = Some es \<and> es \<noteq> [] \<and> conv \<notin> in_flight_channels q) \<or>
     (\<exists>conv \<in> dom (cancelled_batches q). conv \<notin> in_flight_channels q) \<or>
     (\<exists>conv es. withheld_native_steer q conv = Some es \<and> es \<noteq> [] \<and> conv \<notin> in_flight_channels q)"

definition next_hold_ready_at :: "key_order \<Rightarrow> nat \<Rightarrow> event_queue \<Rightarrow> nat option" where
  "next_hold_ready_at ord now q =
     (if dispatch_hold q = 0 then None
      else
        (let held = filter (\<lambda>conv. queue_at conv q \<noteq> [] \<and> conv \<notin> in_flight_channels q \<and> not_throttled now q conv \<and>
                      \<not> head_past_dispatch_hold (hd (queue_at conv q)) (dispatch_hold q) now)
                      (ord (dom (queues q)));
             times = map (\<lambda>conv. head_time q conv + dispatch_hold q) held
         in if times = [] then None else Some (Min (set times))))"

definition extend_in_flight_deadline :: "nat \<Rightarrow> uuid \<Rightarrow> nat \<Rightarrow> event_queue \<Rightarrow> event_queue" where
  "extend_in_flight_deadline now conv max_turn_secs q =
     (case in_flight_deadlines q conv of
        None \<Rightarrow> q
      | Some current \<Rightarrow>
          (let extended = now + from_secs (max_turn_secs + IN_FLIGHT_DEADLINE_BUFFER_SECS) in
           if extended > current
           then q\<lparr>in_flight_deadlines := (in_flight_deadlines q)(conv \<mapsto> extended)\<rparr> else q))"

section \<open>Completion and requeueing\<close>

definition mark_complete :: "nat \<Rightarrow> uuid \<Rightarrow> event_queue \<Rightarrow> event_queue" where
  "mark_complete now conv q =
     (let q1 = q\<lparr>in_flight_event_ids := (in_flight_event_ids q)(conv := None),
                 in_flight_channels := in_flight_channels q - {conv},
                 in_flight_deadlines := (in_flight_deadlines q)(conv := None),
                 in_flight_batch_sizes := (in_flight_batch_sizes q)(conv := None)\<rparr>;
          reset = q1\<lparr>retry_counts := (retry_counts q1)(conv := None),
                     busy_notice_sent := busy_notice_sent q1 - {conv}\<rparr>
      in case retry_after q1 conv of
           Some deadline \<Rightarrow>
             if deadline > now then q1 else reset\<lparr>retry_after := (retry_after q1)(conv := None)\<rparr>
         | None \<Rightarrow> reset)"

definition from_batch_event :: "uuid \<Rightarrow> batch_event \<Rightarrow> queued_event" where
  "from_batch_event conv e =
     \<lparr>qe_channel_id = conv, qe_event = be_event e, qe_received_at = be_received_at e,
      qe_prompt_tag = be_prompt_tag e, qe_edited_content = be_edited_content e, qe_hold_exempt = True\<rparr>"

definition capped_delay_secs :: "nat \<Rightarrow> nat" where
  "capped_delay_secs attempt =
     min (BASE_RETRY_DELAY_SECS * 2 ^ min (attempt - 1) 6) MAX_RETRY_DELAY_SECS"

text \<open>
  The delay in nanoseconds, from the fraction of a second of the wall clock; \<open>rnd\<close> rounds each
  floating-point operation.
\<close>

definition retry_delay :: "(real \<Rightarrow> real) \<Rightarrow> nat \<Rightarrow> nat \<Rightarrow> nat" where
  "retry_delay rnd attempt nanos =
     (let jitter = rnd (rnd 0.8 + rnd (rnd (real nanos / 4294967295) * rnd 0.4)) in
      nat (round (rnd (real (capped_delay_secs attempt) * jitter) * 1000000000)))"

definition requeue ::
  "(real \<Rightarrow> real) \<Rightarrow> (string \<Rightarrow> uuid option) \<Rightarrow> key_order \<Rightarrow> nat \<Rightarrow> nat \<Rightarrow> flush_batch \<Rightarrow> event_queue \<Rightarrow>
   flush_batch option \<times> event_queue" where
  "requeue rnd parse ord now nanos b q =
     (let conv = fb_channel_id b;
          attempt = (case retry_counts q conv of None \<Rightarrow> 0 | Some n \<Rightarrow> n) + 1
      in if attempt > MAX_RETRIES then
           (Some b, q\<lparr>retry_counts := (retry_counts q)(conv := None),
                      retry_after := (retry_after q)(conv := None),
                      busy_notice_sent := busy_notice_sent q - {conv}\<rparr>)
         else
           (let q1 = push_front_all parse ord conv (map (from_batch_event conv) (fb_events b))
                       (q\<lparr>retry_counts := (retry_counts q)(conv \<mapsto> attempt)\<rparr>)
            in (None, q1\<lparr>retry_after := (retry_after q1)(conv \<mapsto> now + retry_delay rnd attempt nanos)\<rparr>)))"

definition take_busy_notice_pending :: "uuid \<Rightarrow> event_queue \<Rightarrow> bool \<times> event_queue" where
  "take_busy_notice_pending conv q =
     (conv \<notin> busy_notice_sent q, q\<lparr>busy_notice_sent := insert conv (busy_notice_sent q)\<rparr>)"

definition requeue_preserve_timestamps ::
  "(string \<Rightarrow> uuid option) \<Rightarrow> key_order \<Rightarrow> flush_batch \<Rightarrow> event_queue \<Rightarrow> event_queue" where
  "requeue_preserve_timestamps parse ord b q =
     push_front_all parse ord (fb_channel_id b) (map (from_batch_event (fb_channel_id b)) (fb_events b)) q"

definition requeue_as_cancelled :: "flush_batch \<Rightarrow> cancel_reason \<Rightarrow> event_queue \<Rightarrow> event_queue" where
  "requeue_as_cancelled b why q =
     (let conv = fb_channel_id b;
          entry = (case cancelled_batches q conv of None \<Rightarrow> [] | Some es \<Rightarrow> es) @
                    fb_cancelled_events b @ fb_events b;
          kept = drop (length entry - MAX_PENDING_PER_CHANNEL) entry
      in q\<lparr>cancelled_batches := (cancelled_batches q)(conv \<mapsto> kept),
           cancel_reasons := (cancel_reasons q)(conv \<mapsto> why)\<rparr>)"

section \<open>Draining and editing\<close>

definition clear_retry_after :: "uuid \<Rightarrow> event_queue \<Rightarrow> event_queue" where
  "clear_retry_after conv q = q\<lparr>retry_after := (retry_after q)(conv := None)\<rparr>"

definition drain_channel :: "uuid \<Rightarrow> event_queue \<Rightarrow> string list \<times> event_queue" where
  "drain_channel conv q =
     (map (\<lambda>e. event_id (qe_event e)) (queue_at conv q),
      q\<lparr>queues := (queues q)(conv := None), retry_after := (retry_after q)(conv := None),
        retry_counts := (retry_counts q)(conv := None), busy_notice_sent := busy_notice_sent q - {conv},
        cancelled_batches := (cancelled_batches q)(conv := None),
        cancel_reasons := (cancel_reasons q)(conv := None),
        withheld_native_steer := (withheld_native_steer q)(conv := None)\<rparr>)"

definition routes_to :: "(string \<Rightarrow> uuid option) \<Rightarrow> uuid \<Rightarrow> event list \<Rightarrow> bool" where
  "routes_to parse ch evs \<longleftrightarrow> (\<exists>ev \<in> set evs. routing_channel_id parse ev = Some ch)"

definition routed_conversations :: "(string \<Rightarrow> uuid option) \<Rightarrow> uuid \<Rightarrow> event_queue \<Rightarrow> uuid set" where
  "routed_conversations parse ch q =
     {conv \<in> dom (queues q). routes_to parse ch (map qe_event (queue_at conv q))} \<union>
     {conv \<in> dom (cancelled_batches q). routes_to parse ch (map be_event (the (cancelled_batches q conv)))} \<union>
     {conv \<in> dom (withheld_native_steer q). routes_to parse ch (map qe_event (the (withheld_native_steer q conv)))}"

definition drain_routing_channel ::
  "(string \<Rightarrow> uuid option) \<Rightarrow> key_order \<Rightarrow> uuid \<Rightarrow> event_queue \<Rightarrow> string list \<times> event_queue" where
  "drain_routing_channel parse ord ch q =
     foldl (\<lambda>(ids, q) conv. case drain_channel conv q of (more_ids, q1) \<Rightarrow> (ids @ more_ids, q1))
       ([], q) (ord (routed_conversations parse ch q))"

text \<open>\<open>VecDeque::remove\<close> and \<open>Vec::remove\<close> of the first entry with the id.\<close>

definition first_with_id :: "string \<Rightarrow> queued_event list \<Rightarrow> queued_event option" where
  "first_with_id eid es = find (\<lambda>e. event_id (qe_event e) = eid) es"

fun remove_first_id :: "string \<Rightarrow> queued_event list \<Rightarrow> queued_event list" where
  "remove_first_id eid [] = []"
| "remove_first_id eid (e # es) = (if event_id (qe_event e) = eid then es else e # remove_first_id eid es)"

definition put_list :: "uuid \<Rightarrow> queued_event list \<Rightarrow> queue_map \<Rightarrow> queue_map" where
  "put_list conv es qs = (if es = [] then qs(conv := None) else qs(conv \<mapsto> es))"

definition mark_native_steer_pending :: "uuid \<Rightarrow> string \<Rightarrow> event_queue \<Rightarrow> bool \<times> event_queue" where
  "mark_native_steer_pending conv eid q =
     (case queues q conv of
        None \<Rightarrow> (False, q)
      | Some es \<Rightarrow>
          (case first_with_id eid es of
             None \<Rightarrow> (False, q)
           | Some e \<Rightarrow>
               (True, q\<lparr>queues := put_list conv (remove_first_id eid es) (queues q),
                        withheld_native_steer := index_push (withheld_native_steer q) conv e\<rparr>)))"

definition release_native_steer ::
  "(string \<Rightarrow> uuid option) \<Rightarrow> key_order \<Rightarrow> uuid \<Rightarrow> string \<Rightarrow> event_queue \<Rightarrow> event_queue" where
  "release_native_steer parse ord conv eid q =
     (case withheld_native_steer q conv of
        None \<Rightarrow> q
      | Some entries \<Rightarrow>
          (case first_with_id eid entries of
             None \<Rightarrow> q
           | Some e \<Rightarrow>
               push_front_all parse ord conv [e]
                 (q\<lparr>withheld_native_steer := put_list conv (remove_first_id eid entries) (withheld_native_steer q)\<rparr>)))"

definition without_id :: "string \<Rightarrow> queued_event list \<Rightarrow> queued_event list" where
  "without_id eid es = filter (\<lambda>e. event_id (qe_event e) \<noteq> eid) es"

definition remove_id_at :: "string \<Rightarrow> uuid \<Rightarrow> queue_map \<Rightarrow> bool \<times> queue_map" where
  "remove_id_at eid conv m =
     (case m conv of
        None \<Rightarrow> (False, m)
      | Some es \<Rightarrow> (length (without_id eid es) \<noteq> length es, put_list conv (without_id eid es) m))"

definition remove_event :: "uuid \<Rightarrow> string \<Rightarrow> event_queue \<Rightarrow> bool \<times> event_queue" where
  "remove_event conv eid q =
     (case remove_id_at eid conv (withheld_native_steer q) of
        (r1, w) \<Rightarrow>
          (case remove_id_at eid conv (queues q) of
             (r2, qs) \<Rightarrow> (r1 \<or> r2, q\<lparr>withheld_native_steer := w, queues := qs\<rparr>)))"

definition remove_id_everywhere :: "string \<Rightarrow> queue_map \<Rightarrow> bool \<times> queue_map" where
  "remove_id_everywhere eid m =
     (\<exists>conv \<in> dom m. fst (remove_id_at eid conv m), \<lambda>conv. snd (remove_id_at eid conv m) conv)"

definition remove_event_by_id :: "string \<Rightarrow> event_queue \<Rightarrow> bool \<times> event_queue" where
  "remove_event_by_id eid q =
     (case remove_id_everywhere eid (withheld_native_steer q) of
        (r1, w) \<Rightarrow>
          (case remove_id_everywhere eid (queues q) of
             (r2, qs) \<Rightarrow> (r1 \<or> r2, q\<lparr>withheld_native_steer := w, queues := qs\<rparr>)))"

fun patch_first :: "string \<Rightarrow> string \<Rightarrow> queued_event list \<Rightarrow> queued_event list" where
  "patch_first eid text [] = []"
| "patch_first eid text (e # es) =
     (if event_id (qe_event e) = eid then e\<lparr>qe_edited_content := Some text\<rparr> # es else e # patch_first eid text es)"

definition patch_event :: "key_order \<Rightarrow> string \<Rightarrow> string \<Rightarrow> event_queue \<Rightarrow> bool \<times> event_queue" where
  "patch_event ord eid text q =
     (case find (\<lambda>conv. has_queued_id eid (withheld_native_steer q conv)) (ord (dom (withheld_native_steer q))) of
        Some conv \<Rightarrow>
          (True, q\<lparr>withheld_native_steer := (withheld_native_steer q)(conv \<mapsto>
                     patch_first eid text (the (withheld_native_steer q conv)))\<rparr>)
      | None \<Rightarrow>
          (case find (\<lambda>conv. has_queued_id eid (queues q conv)) (ord (dom (queues q))) of
             Some conv \<Rightarrow> (True, q\<lparr>queues := (queues q)(conv \<mapsto> patch_first eid text (the (queues q conv)))\<rparr>)
           | None \<Rightarrow> (False, q)))"

definition compact_expired_state :: "nat \<Rightarrow> event_queue \<Rightarrow> event_queue" where
  "compact_expired_state now q =
     (let after = (\<lambda>conv. case retry_after q conv of Some d \<Rightarrow> if d > now then Some d else None | None \<Rightarrow> None) in
      q\<lparr>retry_after := after,
        retry_counts := (\<lambda>conv. if after conv \<noteq> None \<or> queue_at conv q \<noteq> [] \<or> conv \<in> in_flight_channels q
                                then retry_counts q conv else None)\<rparr>)"

section \<open>Selection of the next batch\<close>

lemma min_by_key_snoc:
  "min_by_key key (xs @ [x]) =
     (case min_by_key key xs of None \<Rightarrow> Some x | Some b \<Rightarrow> if key x < key b then Some x else Some b)"
  by (simp add: min_by_key_def split: option.splits)

lemma min_by_key_Nil [simp]: "min_by_key key [] = None"
  by (simp add: min_by_key_def)

lemma min_by_key_None [simp]: "min_by_key key xs = None \<longleftrightarrow> xs = []"
  by (induction xs rule: rev_induct) (auto simp: min_by_key_snoc split: option.splits)

lemma min_by_key_Some: "min_by_key key xs = Some x \<Longrightarrow> x \<in> set xs \<and> (\<forall>y \<in> set xs. key x \<le> key y)"
proof (induction xs arbitrary: x rule: rev_induct)
  case (snoc y ys)
  show ?case
  proof (cases "min_by_key key ys")
    case None
    with snoc.prems show ?thesis by (auto simp: min_by_key_snoc)
  next
    case (Some b)
    with snoc.IH [OF Some] snoc.prems show ?thesis
      by (fastforce simp: min_by_key_snoc split: if_splits)
  qed
qed simp

lemma enforce_cap_frame [simp]:
  "in_flight_channels (enforce_routing_channel_cap parse ord conv q) = in_flight_channels q"
  "in_flight_deadlines (enforce_routing_channel_cap parse ord conv q) = in_flight_deadlines q"
  "cancelled_batches (enforce_routing_channel_cap parse ord conv q) = cancelled_batches q"
  "withheld_native_steer (enforce_routing_channel_cap parse ord conv q) = withheld_native_steer q"
  "retry_counts (enforce_routing_channel_cap parse ord conv q) = retry_counts q"
  "retry_after (enforce_routing_channel_cap parse ord conv q) = retry_after q"
  by (simp_all add: enforce_routing_channel_cap_def split: option.splits)

lemma push_front_all_frame [simp]:
  "in_flight_channels (push_front_all parse ord conv es q) = in_flight_channels q"
  "in_flight_deadlines (push_front_all parse ord conv es q) = in_flight_deadlines q"
  "cancelled_batches (push_front_all parse ord conv es q) = cancelled_batches q"
  "withheld_native_steer (push_front_all parse ord conv es q) = withheld_native_steer q"
  "retry_counts (push_front_all parse ord conv es q) = retry_counts q"
  "retry_after (push_front_all parse ord conv es q) = retry_after q"
  by (simp_all add: push_front_all_def)

lemma expire_channel_frame [simp]:
  "in_flight_channels (expire_channel parse ord q conv) = in_flight_channels q - {conv}"
  "in_flight_deadlines (expire_channel parse ord q conv) = (in_flight_deadlines q)(conv := None)"
  "cancelled_batches (expire_channel parse ord q conv) = cancelled_batches q"
  by (simp_all add: expire_channel_def recover_withheld_for_expired_channel_def split: option.splits)

lemma in_flight_expire:
  assumes "order_ok ord" and "finite (dom (in_flight_deadlines q))"
  shows "in_flight_channels (expire_in_flight parse ord now q) =
    {conv \<in> in_flight_channels q. \<forall>d. in_flight_deadlines q conv = Some d \<longrightarrow> now < d}"
proof -
  have "in_flight_channels (foldl (expire_channel parse ord) p cs) = in_flight_channels p - set cs" for p cs
    by (induction cs arbitrary: p) auto
  moreover have "set (expired_channels ord now q) = {conv. \<exists>d. in_flight_deadlines q conv = Some d \<and> d \<le> now}"
    using assms by (auto simp: expired_channels_def order_ok_def split: option.splits)
  ultimately show ?thesis by (auto simp: expire_in_flight_def not_le)
qed

text \<open>The events of a conversation that wait for dispatch, as they would appear in a batch.\<close>

definition waiting :: "uuid \<Rightarrow> event_queue \<Rightarrow> batch_event list" where
  "waiting conv q = map to_batch_event (queue_at conv q)"

definition cancelled_at :: "uuid \<Rightarrow> event_queue \<Rightarrow> batch_event list" where
  "cancelled_at conv q = (case cancelled_batches q conv of None \<Rightarrow> [] | Some es \<Rightarrow> es)"

lemma flush_queue_effect:
  assumes "flush_queue now conv q = (b, p)"
  shows "fb_channel_id b = conv" "fb_cancelled_events b = cancelled_at conv q"
    and "fb_events b = sort_key (\<lambda>e. created_at (be_event e)) (take MAX_BATCH_EVENTS (waiting conv q))"
    and "waiting conv p = drop MAX_BATCH_EVENTS (waiting conv q)" "cancelled_at conv p = []"
    and "c \<noteq> conv \<Longrightarrow> queues p c = queues q c \<and> cancelled_batches p c = cancelled_batches q c"
    and "in_flight_channels p = insert conv (in_flight_channels q)"
    and "in_flight_event_ids p conv = Some (batch_ids (fb_events b @ fb_cancelled_events b))"
    and "in_flight_deadlines p conv = Some (now + in_flight_deadline q)"
proof -
  have m: "take (min MAX_BATCH_EVENTS (length xs)) xs = take MAX_BATCH_EVENTS xs"
    "drop (min MAX_BATCH_EVENTS (length xs)) xs = drop MAX_BATCH_EVENTS xs" for xs :: "'x list"
    by (simp_all add: min_def)
  show "fb_channel_id b = conv" "fb_cancelled_events b = cancelled_at conv q"
    "fb_events b = sort_key (\<lambda>e. created_at (be_event e)) (take MAX_BATCH_EVENTS (waiting conv q))"
    "cancelled_at conv p = []"
    "c \<noteq> conv \<Longrightarrow> queues p c = queues q c \<and> cancelled_batches p c = cancelled_batches q c"
    "in_flight_channels p = insert conv (in_flight_channels q)"
    "in_flight_event_ids p conv = Some (batch_ids (fb_events b @ fb_cancelled_events b))"
    "in_flight_deadlines p conv = Some (now + in_flight_deadline q)"
    using assms by (auto simp: flush_queue_def start_in_flight_def Let_def waiting_def cancelled_at_def m take_map)
  have "queues p conv = (if drop MAX_BATCH_EVENTS (queue_at conv q) = [] then None
      else Some (drop MAX_BATCH_EVENTS (queue_at conv q)))"
    using assms by (auto simp: flush_queue_def start_in_flight_def Let_def m)
  then show "waiting conv p = drop MAX_BATCH_EVENTS (waiting conv q)"
    by (simp add: waiting_def queue_at_def drop_map split: if_splits)
qed

lemma flush_cancelled_effect:
  assumes "flush_cancelled now conv q = (b, p)"
  shows "fb_channel_id b = conv" "fb_cancelled_events b = []" "fb_events b = cancelled_at conv q"
    and "waiting conv p = waiting conv q" "cancelled_at conv p = []"
    and "c \<noteq> conv \<Longrightarrow> queues p c = queues q c \<and> cancelled_batches p c = cancelled_batches q c"
    and "in_flight_channels p = insert conv (in_flight_channels q)"
    and "in_flight_event_ids p conv = Some (batch_ids (fb_events b @ fb_cancelled_events b))"
    and "in_flight_deadlines p conv = Some (now + in_flight_deadline q)"
  using assms by (auto simp: flush_cancelled_def start_in_flight_def Let_def waiting_def queue_at_def cancelled_at_def)

definition maps_finite :: "event_queue \<Rightarrow> bool" where
  "maps_finite q \<longleftrightarrow> finite (dom (queues q)) \<and> finite (dom (in_flight_deadlines q)) \<and>
     finite (dom (cancelled_batches q)) \<and> finite (dom (withheld_native_steer q))"

text \<open>The cap drops heads until the channel is within it, so what one drop keeps is kept.\<close>

lemma enforce_loop_rel:
  assumes refl: "\<And>qs. R qs qs" and trans: "\<And>f g h. R f g \<Longrightarrow> R g h \<Longrightarrow> R f h"
    and step: "\<And>qs n t v. cap_scan parse ch ks qs = (n, Some (t, v)) \<Longrightarrow> R qs (pop_front v qs)"
  shows "R qs (enforce_loop parse ch ks qs) \<and> fst (cap_scan parse ch ks (enforce_loop parse ch ks qs)) \<le>
    (if snd (cap_scan parse ch ks (enforce_loop parse ch ks qs)) = None
     then fst (cap_scan parse ch ks (enforce_loop parse ch ks qs)) else MAX_PENDING_PER_CHANNEL)"
  using step
proof (induction parse ch ks qs rule: enforce_loop.induct)
  case (1 parse ch ks qs)
  obtain n w where c: "cap_scan parse ch ks qs = (n, w)" by (cases "cap_scan parse ch ks qs")
  show ?case
  proof (cases "n \<le> MAX_PENDING_PER_CHANNEL \<or> w = None")
    case True
    then have "enforce_loop parse ch ks qs = qs"
      by (subst enforce_loop.simps) (auto simp: c)
    then show ?thesis using True refl c by auto
  next
    case False
    then obtain t v where w: "w = Some (t, v)" by auto
    have e: "enforce_loop parse ch ks qs = enforce_loop parse ch ks (pop_front v qs)"
      using False by (subst enforce_loop.simps) (simp add: c w)
    have "R qs (pop_front v qs)" using 1(2) c w by blast
    moreover have "R (pop_front v qs) (enforce_loop parse ch ks (pop_front v qs)) \<and>
        fst (cap_scan parse ch ks (enforce_loop parse ch ks (pop_front v qs))) \<le>
        (if snd (cap_scan parse ch ks (enforce_loop parse ch ks (pop_front v qs))) = None
         then fst (cap_scan parse ch ks (enforce_loop parse ch ks (pop_front v qs))) else MAX_PENDING_PER_CHANNEL)"
      using False by (intro "1.IH" [OF c [symmetric]]) (use w "1.prems" in auto)
    ultimately show ?thesis unfolding e using trans by blast
  qed
qed

lemma dom_enforce_loop: "dom (enforce_loop parse ch ks qs) \<subseteq> dom qs"
  by (rule conjunct1, rule enforce_loop_rel)
    (auto simp: pop_front_def split: option.splits if_splits)

lemma maps_finite_enforce: "maps_finite q \<Longrightarrow> maps_finite (enforce_routing_channel_cap parse ord conv q)"
  by (auto simp: maps_finite_def enforce_routing_channel_cap_def split: option.splits
      intro: finite_subset [OF dom_enforce_loop])

lemma maps_finite_push_front_all: "maps_finite q \<Longrightarrow> maps_finite (push_front_all parse ord conv es q)"
  unfolding push_front_all_def by (rule maps_finite_enforce) (simp add: maps_finite_def)

lemma maps_finite_expire_channel: "maps_finite q \<Longrightarrow> maps_finite (expire_channel parse ord q conv)"
  by (auto simp: expire_channel_def recover_withheld_for_expired_channel_def split: option.splits
      intro!: maps_finite_push_front_all) (auto simp: maps_finite_def)

lemma maps_finite_expire: "maps_finite q \<Longrightarrow> maps_finite (expire_in_flight parse ord now q)"
proof -
  have "maps_finite p \<Longrightarrow> maps_finite (foldl (expire_channel parse ord) p cs)" for p cs
    by (induction cs arbitrary: p) (simp_all add: maps_finite_expire_channel)
  then show "maps_finite q \<Longrightarrow> ?thesis" by (simp add: expire_in_flight_def)
qed

lemma flushable_dom: "flushable now q conv \<Longrightarrow> conv \<in> dom (queues q) \<and> conv \<notin> in_flight_channels q"
  by (auto simp: flushable_def split: option.splits)

text \<open>What a batch looks like, relative to the state after expiry it is taken from.\<close>

definition takes_batch :: "nat \<Rightarrow> event_queue \<Rightarrow> flush_batch \<Rightarrow> event_queue \<Rightarrow> bool" where
  "takes_batch now q b p \<longleftrightarrow>
     (let conv = fb_channel_id b in
      conv \<notin> in_flight_channels q \<and> in_flight_channels p = insert conv (in_flight_channels q) \<and>
      in_flight_deadlines p conv = Some (now + in_flight_deadline q) \<and>
      in_flight_event_ids p conv = Some (batch_ids (fb_events b @ fb_cancelled_events b)) \<and>
      (\<forall>c. c \<noteq> conv \<longrightarrow> queues p c = queues q c \<and> cancelled_batches p c = cancelled_batches q c) \<and>
      cancelled_at conv p = [] \<and>
      (if \<exists>c. flushable now q c
       then flushable now q conv \<and> (\<forall>c. flushable now q c \<longrightarrow> head_time q conv \<le> head_time q c) \<and>
            fb_events b = sort_key (\<lambda>e. created_at (be_event e)) (take MAX_BATCH_EVENTS (waiting conv q)) \<and>
            waiting conv p = drop MAX_BATCH_EVENTS (waiting conv q) \<and>
            fb_cancelled_events b = cancelled_at conv q
       else cancelled_batches q conv \<noteq> None \<and> fb_events b = cancelled_at conv q \<and>
            fb_cancelled_events b = [] \<and> waiting conv p = waiting conv q))"

lemma flush_next_spec:
  assumes ord: "order_ok ord" and fin: "maps_finite q" and fl: "flush_next parse ord now q = (r, p)"
  shows "let q1 = expire_in_flight parse ord now q in
    in_flight_channels q1 = {conv \<in> in_flight_channels q. \<forall>d. in_flight_deadlines q conv = Some d \<longrightarrow> now < d} \<and>
    has_flushable_work parse ord now q = (r \<noteq> None, q1) \<and>
    (case r of
       None \<Rightarrow> p = q1 \<and> (\<forall>conv. \<not> flushable now q1 conv \<and>
                 (cancelled_batches q1 conv \<noteq> None \<longrightarrow> conv \<in> in_flight_channels q1))
     | Some b \<Rightarrow> takes_batch now q1 b p)"
proof -
  define q1 where "q1 = expire_in_flight parse ord now q"
  define fs where "fs = filter (flushable now q1) (ord (dom (queues q1)))"
  define cs where "cs = filter (\<lambda>conv. conv \<notin> in_flight_channels q1) (ord (dom (cancelled_batches q1)))"
  have fin1: "maps_finite q1" unfolding q1_def using fin by (rule maps_finite_expire)
  have set_fs: "set fs = {conv. flushable now q1 conv}"
    using ord fin1 flushable_dom by (fastforce simp: fs_def order_ok_def maps_finite_def)
  have set_cs: "set cs = {conv \<in> dom (cancelled_batches q1). conv \<notin> in_flight_channels q1}"
    using ord fin1 by (auto simp: cs_def order_ok_def maps_finite_def)
  have no_fs: "fs = [] \<longleftrightarrow> (\<forall>conv. \<not> flushable now q1 conv)"
    using set_fs by (metis Collect_empty_eq set_empty)
  have no_cs: "cs = [] \<longleftrightarrow> (\<forall>conv. cancelled_batches q1 conv \<noteq> None \<longrightarrow> conv \<in> in_flight_channels q1)"
    using set_cs set_empty [of cs] by auto
  have work: "has_flushable_work parse ord now q = (\<not> (fs = [] \<and> cs = []), q1)"
    unfolding has_flushable_work_def q1_def [symmetric] Let_def no_fs no_cs using flushable_dom by fastforce
  have main: "(r = None \<longleftrightarrow> fs = [] \<and> cs = []) \<and> (r = None \<longrightarrow> p = q1) \<and>
      (\<forall>b. r = Some b \<longrightarrow> takes_batch now q1 b p)"
  proof (cases "min_by_key (head_time q1) fs")
    case (Some conv)
    obtain b where b: "flush_queue now conv q1 = (b, p)" "r = Some b"
      using fl Some by (auto simp: flush_next_def q1_def [symmetric] fs_def [symmetric] Let_def split: prod.splits)
    have "flushable now q1 conv" and least: "\<forall>c. flushable now q1 c \<longrightarrow> head_time q1 conv \<le> head_time q1 c"
      using min_by_key_Some [OF Some] set_fs by auto
    then have "takes_batch now q1 b p"
      using flush_queue_effect [OF b(1)] flushable_dom [of now q1 conv]
      unfolding takes_batch_def Let_def by auto
    with b(2) no_fs \<open>flushable now q1 conv\<close> show ?thesis by auto
  next
    case None
    then have nf: "fs = []" by simp
    show ?thesis
    proof (cases cs)
      case Nil
      with None fl nf show ?thesis
        by (auto simp: flush_next_def q1_def [symmetric] fs_def [symmetric] cs_def [symmetric] Let_def)
    next
      case (Cons conv convs)
      obtain b where b: "flush_cancelled now conv q1 = (b, p)" "r = Some b"
        using fl None Cons
        by (auto simp: flush_next_def q1_def [symmetric] fs_def [symmetric] cs_def [symmetric] Let_def split: prod.splits)
      have "cancelled_batches q1 conv \<noteq> None" "conv \<notin> in_flight_channels q1"
        using set_cs Cons by auto
      then have "takes_batch now q1 b p"
        using flush_cancelled_effect [OF b(1)] nf no_fs unfolding takes_batch_def Let_def by auto
      with b(2) Cons show ?thesis by auto
    qed
  qed
  show ?thesis
    using work main no_fs no_cs in_flight_expire [OF ord, of q parse now] fin
    unfolding q1_def [symmetric] by (cases r) (auto simp: Let_def maps_finite_def)
qed

text \<open>A queue with one event of the conversation \<open>c\<close>, received at time zero.\<close>

definition sample_event :: "string \<Rightarrow> event" where
  "sample_event i = \<lparr>event_id = i, event_pubkey = ''k'', created_at = 7, event_kind = 9, event_tags = [],
     content = [], event_sig = []\<rparr>"

definition sample_queued :: "string \<Rightarrow> queued_event" where
  "sample_queued i = \<lparr>qe_channel_id = ''c'', qe_event = sample_event i, qe_received_at = 0, qe_prompt_tag = [],
     qe_edited_content = None, qe_hold_exempt = False\<rparr>"

definition sample_batch :: "string list \<Rightarrow> batch_event list" where
  "sample_batch is = map (\<lambda>i. to_batch_event (sample_queued i)) is"

definition sample_queue :: event_queue where
  "sample_queue = (queue_new Queue)\<lparr>queues := [''c'' \<mapsto> [sample_queued ''b'']],
     cancelled_batches := [''c'' \<mapsto> sample_batch [''a'']], cancel_reasons := [''c'' \<mapsto> Steer]\<rparr>"

lemma order_ok_sorted: "order_ok sorted_list_of_set"
  by (simp add: order_ok_def)

lemma sample_queue_run:
  "maps_finite sample_queue"
  "expire_in_flight parse sorted_list_of_set now sample_queue = sample_queue"
  "flush_next parse sorted_list_of_set now sample_queue =
     (Some \<lparr>fb_channel_id = ''c'', fb_events = sample_batch [''b''], fb_cancelled_events = sample_batch [''a''],
            fb_cancel_reason = Some Steer\<rparr>,
      start_in_flight now ''c'' 1 {''a'', ''b''} (queue_new Queue))"
proof -
  show m: "maps_finite sample_queue" by (simp add: maps_finite_def sample_queue_def queue_new_def)
  show e: "expire_in_flight parse sorted_list_of_set now sample_queue = sample_queue"
    by (simp add: expire_in_flight_def expired_channels_def sample_queue_def queue_new_def)
  have "filter (flushable now sample_queue) (sorted_list_of_set (dom (queues sample_queue))) = [''c'']"
    by (simp add: sample_queue_def queue_new_def flushable_def not_throttled_def head_past_dispatch_hold_def)
  moreover have "flush_queue now ''c'' sample_queue =
     (\<lparr>fb_channel_id = ''c'', fb_events = sample_batch [''b''], fb_cancelled_events = sample_batch [''a''],
            fb_cancel_reason = Some Steer\<rparr>,
      start_in_flight now ''c'' 1 {''a'', ''b''} (queue_new Queue))"
    by (simp add: flush_queue_def Let_def sample_queue_def queue_new_def queue_at_def sample_batch_def
        MAX_BATCH_EVENTS_def batch_ids_def start_in_flight_def to_batch_event_def sample_queued_def sample_event_def
        insert_commute)
  ultimately show "flush_next parse sorted_list_of_set now sample_queue =
     (Some \<lparr>fb_channel_id = ''c'', fb_events = sample_batch [''b''], fb_cancelled_events = sample_batch [''a''],
            fb_cancel_reason = Some Steer\<rparr>,
      start_in_flight now ''c'' 1 {''a'', ''b''} (queue_new Queue))"
    by (simp add: flush_next_def e min_by_key_def)
qed

text \<open>
  C26: Flushing is exact. After releasing the conversations whose deadline has passed, the queue
  hands out a batch exactly if some conversation has flushable events, or else a cancelled batch
  waits outside the conversations in flight; \<open>has_flushable_work\<close> says the same. The batch is
  never for a conversation in flight, it is taken from the flushable conversation with the
  oldest head, consists of its first events up to the batch limit in the order of their creation
  together with its cancelled events, leaves the rest in place, and reserves the
  conversation with the ids of all events handed out.
\<close>

theorem flush_next_exact:
  assumes ord: "order_ok ord" and fin: "maps_finite q" and fl: "flush_next parse ord now q = (r, p)"
  shows "let q1 = expire_in_flight parse ord now q in
    in_flight_channels q1 = {conv \<in> in_flight_channels q. \<forall>d. in_flight_deadlines q conv = Some d \<longrightarrow> now < d} \<and>
    has_flushable_work parse ord now q = (r \<noteq> None, q1) \<and>
    (case r of
       None \<Rightarrow> p = q1 \<and> (\<forall>conv. \<not> flushable now q1 conv \<and>
                 (cancelled_batches q1 conv \<noteq> None \<longrightarrow> conv \<in> in_flight_channels q1))
     | Some b \<Rightarrow> takes_batch now q1 b p)"
  by (rule flush_next_spec [OF assms])

theorem flush_next_exact_witness:
  "has_flushable_work (\<lambda>_. None) sorted_list_of_set 3 sample_queue = (True, sample_queue) \<and>
   takes_batch 3 sample_queue
     \<lparr>fb_channel_id = ''c'', fb_events = sample_batch [''b''], fb_cancelled_events = sample_batch [''a''],
            fb_cancel_reason = Some Steer\<rparr>
     (start_in_flight 3 ''c'' 1 {''a'', ''b''} (queue_new Queue))"
  using flush_next_exact [OF order_ok_sorted sample_queue_run(1) sample_queue_run(3) [of "\<lambda>_. None" 3]]
  by (simp add: sample_queue_run(2) Let_def)

section \<open>Bounded work\<close>

text \<open>
  Events of one conversation belong to one channel: its route. The conversation id is derived
  from the channel, and an event without a channel tag counts for its conversation.
\<close>

definition event_route :: "(string \<Rightarrow> uuid option) \<Rightarrow> uuid \<Rightarrow> event \<Rightarrow> uuid" where
  "event_route parse conv ev = (case routing_channel_id parse ev of None \<Rightarrow> conv | Some ch \<Rightarrow> ch)"

definition routed :: "(string \<Rightarrow> uuid option) \<Rightarrow> (uuid \<Rightarrow> uuid) \<Rightarrow> queue_map \<Rightarrow> bool" where
  "routed parse route qs \<longleftrightarrow> (\<forall>conv es. qs conv = Some es \<longrightarrow> (\<forall>e \<in> set es. event_route parse conv (qe_event e) = route conv))"

definition qlen :: "queue_map \<Rightarrow> uuid \<Rightarrow> nat" where
  "qlen qs conv = (case qs conv of None \<Rightarrow> 0 | Some es \<Rightarrow> length es)"

definition channel_load :: "(uuid \<Rightarrow> uuid) \<Rightarrow> uuid \<Rightarrow> queue_map \<Rightarrow> nat" where
  "channel_load route ch qs = (\<Sum>conv \<in> {conv \<in> dom qs. route conv = ch}. qlen qs conv)"

definition within_caps :: "(uuid \<Rightarrow> uuid) \<Rightarrow> queue_map \<Rightarrow> bool" where
  "within_caps route qs \<longleftrightarrow> (\<forall>conv. qlen qs conv \<le> MAX_PENDING_PER_CHANNEL) \<and>
     (\<forall>ch. channel_load route ch qs \<le> MAX_PENDING_PER_CHANNEL)"

lemma qlen_simps [simp]:
  "qlen (qs(c \<mapsto> es)) d = (if d = c then length es else qlen qs d)"
  "qlen (qs(c := None)) d = (if d = c then 0 else qlen qs d)"
  by (simp_all add: qlen_def)

lemma channel_load_mono:
  assumes "finite (dom qs)" and "dom qs' \<subseteq> dom qs" and "\<And>c. qlen qs' c \<le> qlen qs c"
  shows "channel_load route ch qs' \<le> channel_load route ch qs"
proof -
  have "channel_load route ch qs' \<le> (\<Sum>conv \<in> {conv \<in> dom qs'. route conv = ch}. qlen qs conv)"
    unfolding channel_load_def by (intro sum_mono assms(3))
  also have "\<dots> \<le> channel_load route ch qs"
    unfolding channel_load_def using assms(1,2) by (intro sum_mono2) auto
  finally show ?thesis .
qed

lemma channel_load_upd_other:
  "route conv \<noteq> ch \<Longrightarrow> channel_load route ch (qs(conv := v)) = channel_load route ch qs"
  unfolding channel_load_def by (intro sum.cong) (auto simp: qlen_def)

lemma routed_head: "routed parse route qs \<Longrightarrow> qs conv = Some es \<Longrightarrow> es \<noteq> [] \<Longrightarrow>
    queued_routing_channel parse conv es = route conv"
  by (cases es) (auto simp: routed_def queued_routing_channel_def event_route_def)

lemma cap_scan_total:
  "fst (cap_scan parse ch ks qs) =
     (\<Sum>c \<leftarrow> ks. case qs c of None \<Rightarrow> 0 | Some es \<Rightarrow> if queued_routing_channel parse c es = ch then length es else 0)"
proof -
  have "fst (foldl (cap_scan_step parse ch qs) acc ks) = fst acc +
      (\<Sum>c \<leftarrow> ks. case qs c of None \<Rightarrow> 0 | Some es \<Rightarrow> if queued_routing_channel parse c es = ch then length es else 0)" for acc
    by (induction ks arbitrary: acc) (auto simp: cap_scan_step_def split: option.splits)
  then show ?thesis by (simp add: cap_scan_def)
qed

lemma cap_scan_load:
  assumes "routed parse route qs" and "distinct ks" and "dom qs \<subseteq> set ks"
  shows "fst (cap_scan parse ch ks qs) = channel_load route ch qs"
proof -
  have "(case qs c of None \<Rightarrow> 0 | Some es \<Rightarrow> if queued_routing_channel parse c es = ch then length es else 0) =
      (if route c = ch then qlen qs c else 0)" for c
  proof (cases "qs c")
    case (Some es)
    then show ?thesis using routed_head [OF assms(1) Some] by (cases "es = []") (auto simp: qlen_def)
  qed (simp add: qlen_def)
  then have "fst (cap_scan parse ch ks qs) = (\<Sum>c \<in> set ks. if route c = ch then qlen qs c else 0)"
    by (simp add: cap_scan_total sum_list_distinct_conv_sum_set [OF assms(2)])
  also have "\<dots> = (\<Sum>c \<in> {c \<in> set ks. route c = ch}. qlen qs c)"
    by (simp add: sum.inter_filter)
  also have "\<dots> = channel_load route ch qs"
    unfolding channel_load_def using assms(3) by (intro sum.mono_neutral_right) (auto simp: qlen_def split: option.splits)
  finally show ?thesis .
qed

lemma cap_scan_no_head: "snd (cap_scan parse ch ks qs) = None \<Longrightarrow> fst (cap_scan parse ch ks qs) = 0"
proof -
  have step: "snd acc = None \<and> fst (cap_scan_step parse ch qs acc c) = fst acc"
    if "snd (cap_scan_step parse ch qs acc c) = None" for acc c
    using that by (auto simp: cap_scan_step_def split: option.splits list.splits if_splits prod.splits)
  have "snd (foldl (cap_scan_step parse ch qs) acc ks) = None \<Longrightarrow>
      snd acc = None \<and> fst (foldl (cap_scan_step parse ch qs) acc ks) = fst acc" for acc
  proof (induction ks arbitrary: acc)
    case (Cons c ks)
    from Cons.IH [of "cap_scan_step parse ch qs acc c"] Cons.prems step [of acc c] show ?case by simp
  qed simp
  from this [of "(0, None)"] show "snd (cap_scan parse ch ks qs) = None \<Longrightarrow> ?thesis"
    by (simp add: cap_scan_def)
qed

text \<open>
  One map of queues is part of another: each of its queues is there, at least as long and with
  all its events. The cap, the removals and the edits of queued events give parts.
\<close>

definition part_of :: "queue_map \<Rightarrow> queue_map \<Rightarrow> bool" where
  "part_of qs' qs \<longleftrightarrow> (\<forall>c es'. qs' c = Some es' \<longrightarrow>
     (\<exists>es. qs c = Some es \<and> length es' \<le> length es \<and> qe_event ` set es' \<subseteq> qe_event ` set es))"

lemma part_of_refl [simp]: "part_of qs qs"
  by (simp add: part_of_def)

lemma part_of_trans: "part_of f g \<Longrightarrow> part_of g h \<Longrightarrow> part_of f h"
  unfolding part_of_def by (meson le_trans subset_trans)

lemma part_of_upd:
  "qs c = Some es \<Longrightarrow> length es' \<le> length es \<Longrightarrow> qe_event ` set es' \<subseteq> qe_event ` set es \<Longrightarrow> part_of (qs(c \<mapsto> es')) qs"
  by (simp add: part_of_def)

lemma part_of_delete: "part_of (qs(c := None)) qs"
  by (simp add: part_of_def)

lemma part_of_put_list:
  "qs c = Some es \<Longrightarrow> length es' \<le> length es \<Longrightarrow> set es' \<subseteq> set es \<Longrightarrow> part_of (put_list c es' qs) qs"
  by (auto simp: put_list_def intro!: part_of_upd part_of_delete)

lemma part_of_pop_front: "part_of (pop_front v qs) qs"
proof (cases "qs v")
  case (Some es)
  have "set (tl es) \<subseteq> set es" by (cases es) auto
  with Some show ?thesis by (auto simp: pop_front_def intro!: part_of_upd part_of_delete)
qed (simp add: pop_front_def)

lemma part_of_enforce_loop: "part_of (enforce_loop parse ch ks qs) qs"
  by (rule conjunct1, rule enforce_loop_rel [where R = "\<lambda>f g. part_of g f"])
    (auto intro: part_of_trans part_of_pop_front)

lemma part_of_qlen: "part_of qs' qs \<Longrightarrow> qlen qs' c \<le> qlen qs c"
  by (cases "qs' c") (fastforce simp: part_of_def qlen_def)+

lemma part_of_dom: "part_of qs' qs \<Longrightarrow> dom qs' \<subseteq> dom qs"
  by (fastforce simp: part_of_def)

lemma part_of_finite: "part_of qs' qs \<Longrightarrow> finite (dom qs) \<Longrightarrow> finite (dom qs')"
  using part_of_dom [of qs' qs] finite_subset [of "dom qs'" "dom qs"] by simp

lemma routed_events: "routed parse route qs \<longleftrightarrow>
    (\<forall>conv es. qs conv = Some es \<longrightarrow> (\<forall>ev \<in> qe_event ` set es. event_route parse conv ev = route conv))"
  by (simp add: routed_def)

lemma part_of_routed: "part_of qs' qs \<Longrightarrow> routed parse route qs \<Longrightarrow> routed parse route qs'"
proof (unfold routed_events, intro allI impI ballI)
  fix conv es' ev
  assume p: "part_of qs' qs" and r: "\<forall>conv es. qs conv = Some es \<longrightarrow>
      (\<forall>ev \<in> qe_event ` set es. event_route parse conv ev = route conv)"
    and e: "qs' conv = Some es'" "ev \<in> qe_event ` set es'"
  from p e(1) obtain es where "qs conv = Some es" "qe_event ` set es' \<subseteq> qe_event ` set es"
    unfolding part_of_def by blast
  with r e(2) show "event_route parse conv ev = route conv" by blast
qed

lemma part_of_within_caps:
  assumes "part_of qs' qs" and "finite (dom qs)" and "within_caps route qs"
  shows "within_caps route qs'"
proof -
  have "qlen qs' c \<le> MAX_PENDING_PER_CHANNEL" for c
    using part_of_qlen [OF assms(1), of c] assms(3) by (simp add: within_caps_def le_trans)
  moreover have "channel_load route c qs' \<le> MAX_PENDING_PER_CHANNEL" for c
    using channel_load_mono [OF assms(2) part_of_dom [OF assms(1)] part_of_qlen [OF assms(1)], of route c] assms(3)
    by (simp add: within_caps_def le_trans)
  ultimately show ?thesis by (simp add: within_caps_def)
qed

lemma enforce_loop_load:
  assumes "routed parse route qs" and "distinct ks" and "dom qs \<subseteq> set ks"
  shows "channel_load route ch (enforce_loop parse ch ks qs) \<le> MAX_PENDING_PER_CHANNEL"
proof -
  let ?qs = "enforce_loop parse ch ks qs"
  have r: "routed parse route ?qs" "dom ?qs \<subseteq> set ks"
    using part_of_routed [OF part_of_enforce_loop assms(1)] part_of_dom [OF part_of_enforce_loop] assms(3) by blast+
  have "fst (cap_scan parse ch ks ?qs) \<le>
      (if snd (cap_scan parse ch ks ?qs) = None then fst (cap_scan parse ch ks ?qs) else MAX_PENDING_PER_CHANNEL)"
    by (rule conjunct2, rule enforce_loop_rel [where R = "\<lambda>f g. part_of g f"])
      (auto intro: part_of_trans part_of_pop_front)
  then have "fst (cap_scan parse ch ks ?qs) \<le> MAX_PENDING_PER_CHANNEL"
    using cap_scan_no_head [of parse ch ks ?qs] by (auto split: if_splits)
  then show ?thesis using cap_scan_load [OF r(1) assms(2) r(2)] by simp
qed

definition queue_inv :: "(string \<Rightarrow> uuid option) \<Rightarrow> (uuid \<Rightarrow> uuid) \<Rightarrow> event_queue \<Rightarrow> bool" where
  "queue_inv parse route q \<longleftrightarrow> maps_finite q \<and> routed parse route (queues q) \<and>
     routed parse route (withheld_native_steer q) \<and> within_caps route (queues q) \<and>
     (\<forall>conv. length (cancelled_at conv q) \<le> MAX_PENDING_PER_CHANNEL)"

text \<open>Storing a queue of at most the cap and enforcing the aggregate cap restores the invariant.\<close>

lemma queue_inv_enforce:
  assumes i: "queue_inv parse route q" and ord: "order_ok ord" and len: "length es \<le> MAX_PENDING_PER_CHANNEL"
    and es: "\<forall>e \<in> set es. event_route parse conv (qe_event e) = route conv"
  shows "queue_inv parse route (enforce_routing_channel_cap parse ord conv (q\<lparr>queues := (queues q)(conv \<mapsto> es)\<rparr>))"
proof -
  let ?qs = "(queues q)(conv \<mapsto> es)" let ?ch = "queued_routing_channel parse conv es"
  let ?qs' = "enforce_loop parse ?ch (ord (dom ?qs)) ?qs"
  have fin: "finite (dom (queues q))" using i by (simp add: queue_inv_def maps_finite_def)
  then have ks: "distinct (ord (dom ?qs))" "dom ?qs \<subseteq> set (ord (dom ?qs))" using ord by (auto simp: order_ok_def)
  have r: "routed parse route ?qs" using i es by (simp add: queue_inv_def routed_def)
  have part: "part_of ?qs' ?qs" by (rule part_of_enforce_loop)
  have "qlen ?qs c \<le> MAX_PENDING_PER_CHANNEL" for c using i len by (simp add: queue_inv_def within_caps_def)
  then have lens: "qlen ?qs' c \<le> MAX_PENDING_PER_CHANNEL" for c using part_of_qlen [OF part] le_trans by blast
  have "channel_load route c ?qs' \<le> MAX_PENDING_PER_CHANNEL" for c
  proof (cases "c = route conv \<and> es \<noteq> []")
    case True
    then show ?thesis using enforce_loop_load [OF r ks, of ?ch] routed_head [OF r, of conv es] by simp
  next
    case False
    have "channel_load route c ?qs' \<le> channel_load route c ?qs"
      using fin part_of_dom [OF part] part_of_qlen [OF part] by (intro channel_load_mono) auto
    also have "\<dots> \<le> channel_load route c (queues q)"
    proof (cases "c = route conv")
      case True
      with False have "es = []" by simp
      then have "channel_load route c ?qs = channel_load route c ((queues q)(conv := None))"
        unfolding channel_load_def using fin by (intro sum.mono_neutral_cong) (auto simp: qlen_def)
      also have "\<dots> \<le> channel_load route c (queues q)" using fin by (intro channel_load_mono) auto
      finally show ?thesis .
    qed (simp add: channel_load_upd_other)
    also have "\<dots> \<le> MAX_PENDING_PER_CHANNEL" using i by (simp add: queue_inv_def within_caps_def)
    finally show ?thesis .
  qed
  then have "within_caps route ?qs'" using lens by (simp add: within_caps_def)
  then show ?thesis
    using i part_of_routed [OF part r] part_of_finite [OF part] fin
    by (simp add: queue_inv_def maps_finite_def enforce_routing_channel_cap_def cancelled_at_def)
qed

text \<open>Taking parts of the queues and of the withheld events keeps the invariant.\<close>

lemma queue_inv_part:
  assumes "queue_inv parse route q" and "part_of (queues p) (queues q)"
    and "part_of (withheld_native_steer p) (withheld_native_steer q)"
    and "dom (in_flight_deadlines p) \<subseteq> insert c (dom (in_flight_deadlines q))"
    and "\<And>d. cancelled_batches p d \<in> {None, cancelled_batches q d}"
  shows "queue_inv parse route p"
proof -
  have "dom (cancelled_batches p) \<subseteq> dom (cancelled_batches q)"
  proof
    fix d
    assume "d \<in> dom (cancelled_batches p)"
    then show "d \<in> dom (cancelled_batches q)" using assms(5) [of d] by auto
  qed
  moreover have "length (cancelled_at d p) \<le> length (cancelled_at d q)" for d
    using assms(5) [of d] by (auto simp: cancelled_at_def)
  ultimately show ?thesis
    using assms(1) part_of_finite [OF assms(2)] part_of_finite [OF assms(3)] part_of_routed [OF assms(2)]
      part_of_routed [OF assms(3)] part_of_within_caps [OF assms(2)] finite_subset [OF assms(4)]
    unfolding queue_inv_def maps_finite_def by (meson finite_insert finite_subset le_trans)
qed

lemma queue_inv_push_front_all:
  assumes "queue_inv parse route q" and "order_ok ord"
    and "\<forall>e \<in> set es. event_route parse conv (qe_event e) = route conv"
  shows "queue_inv parse route (push_front_all parse ord conv es q)"
  unfolding push_front_all_def
  using assms
  by (intro queue_inv_enforce) (auto simp: queue_inv_def routed_def queue_at_def split: option.splits dest!: in_set_takeD)

section \<open>Runs of the queue\<close>

datatype queue_op =
    Push key_order queued_event
  | Flush key_order nat
  | CheckWork key_order nat
  | Complete nat uuid
  | Requeue key_order nat nat flush_batch
  | RequeuePreserve key_order flush_batch
  | RequeueCancelled flush_batch cancel_reason
  | BusyNotice uuid
  | ExtendDeadline nat uuid nat
  | ClearRetry uuid
  | DrainChannel uuid
  | DrainRouting key_order uuid
  | SteerPending uuid string
  | ReleaseSteer key_order uuid string
  | RemoveEvent uuid string
  | RemoveEventById string
  | PatchEvent key_order string string
  | Compact nat

fun queue_do :: "(real \<Rightarrow> real) \<Rightarrow> (string \<Rightarrow> uuid option) \<Rightarrow> queue_op \<Rightarrow> event_queue \<Rightarrow> event_queue" where
  "queue_do rnd parse (Push ord e) q = snd (queue_push parse ord e q)"
| "queue_do rnd parse (Flush ord now) q = snd (flush_next parse ord now q)"
| "queue_do rnd parse (CheckWork ord now) q = snd (has_flushable_work parse ord now q)"
| "queue_do rnd parse (Complete now conv) q = mark_complete now conv q"
| "queue_do rnd parse (Requeue ord now nanos b) q = snd (requeue rnd parse ord now nanos b q)"
| "queue_do rnd parse (RequeuePreserve ord b) q = requeue_preserve_timestamps parse ord b q"
| "queue_do rnd parse (RequeueCancelled b why) q = requeue_as_cancelled b why q"
| "queue_do rnd parse (BusyNotice conv) q = snd (take_busy_notice_pending conv q)"
| "queue_do rnd parse (ExtendDeadline now conv secs) q = extend_in_flight_deadline now conv secs q"
| "queue_do rnd parse (ClearRetry conv) q = clear_retry_after conv q"
| "queue_do rnd parse (DrainChannel conv) q = snd (drain_channel conv q)"
| "queue_do rnd parse (DrainRouting ord ch) q = snd (drain_routing_channel parse ord ch q)"
| "queue_do rnd parse (SteerPending conv eid) q = snd (mark_native_steer_pending conv eid q)"
| "queue_do rnd parse (ReleaseSteer ord conv eid) q = release_native_steer parse ord conv eid q"
| "queue_do rnd parse (RemoveEvent conv eid) q = snd (remove_event conv eid q)"
| "queue_do rnd parse (RemoveEventById eid) q = snd (remove_event_by_id eid q)"
| "queue_do rnd parse (PatchEvent ord eid text) q = snd (patch_event ord eid text q)"
| "queue_do rnd parse (Compact now) q = compact_expired_state now q"

text \<open>
  The conditions on the arguments: iteration visits each entry once, and events reach the
  conversation of their channel.
\<close>

fun queue_op_ok :: "(string \<Rightarrow> uuid option) \<Rightarrow> (uuid \<Rightarrow> uuid) \<Rightarrow> queue_op \<Rightarrow> bool" where
  "queue_op_ok parse route (Push ord e) \<longleftrightarrow>
     order_ok ord \<and> event_route parse (qe_channel_id e) (qe_event e) = route (qe_channel_id e)"
| "queue_op_ok parse route (Flush ord now) \<longleftrightarrow> order_ok ord"
| "queue_op_ok parse route (CheckWork ord now) \<longleftrightarrow> order_ok ord"
| "queue_op_ok parse route (Requeue ord now nanos b) \<longleftrightarrow>
     order_ok ord \<and> (\<forall>e \<in> set (fb_events b). event_route parse (fb_channel_id b) (be_event e) = route (fb_channel_id b))"
| "queue_op_ok parse route (RequeuePreserve ord b) \<longleftrightarrow>
     order_ok ord \<and> (\<forall>e \<in> set (fb_events b). event_route parse (fb_channel_id b) (be_event e) = route (fb_channel_id b))"
| "queue_op_ok parse route (DrainRouting ord ch) \<longleftrightarrow> order_ok ord"
| "queue_op_ok parse route (ReleaseSteer ord conv eid) \<longleftrightarrow> order_ok ord"
| "queue_op_ok parse route (PatchEvent ord eid text) \<longleftrightarrow> order_ok ord"
| "queue_op_ok parse route op \<longleftrightarrow> True"

definition queue_step ::
  "(real \<Rightarrow> real) \<Rightarrow> (string \<Rightarrow> uuid option) \<Rightarrow> (uuid \<Rightarrow> uuid) \<Rightarrow> event_queue \<Rightarrow> queue_op \<Rightarrow> event_queue \<Rightarrow> bool" where
  "queue_step rnd parse route q l p \<longleftrightarrow> queue_op_ok parse route l \<and> p = queue_do rnd parse l q"

definition fresh_queue :: "event_queue \<Rightarrow> bool" where
  "fresh_queue q \<longleftrightarrow> (\<exists>mode secs hold.
     q = with_dispatch_hold hold (with_in_flight_deadline secs (queue_new mode)) \<or>
     q = with_dispatch_hold hold (queue_new mode))"

lemma set_tl: "set (tl xs) \<subseteq> set xs"
  by (cases xs) auto

lemma queue_inv_same:
  "queue_inv parse route q \<Longrightarrow> queues p = queues q \<Longrightarrow> withheld_native_steer p = withheld_native_steer q \<Longrightarrow>
     dom (in_flight_deadlines p) \<subseteq> insert c (dom (in_flight_deadlines q)) \<Longrightarrow>
     cancelled_batches p = cancelled_batches q \<Longrightarrow> queue_inv parse route p"
  by (rule queue_inv_part [where q = q and c = c]) auto

lemma queue_inv_push:
  assumes i: "queue_inv parse route q" and ok: "queue_op_ok parse route (Push ord e)"
  shows "queue_inv parse route (snd (queue_push parse ord e q))"
proof -
  let ?c = "qe_channel_id e"
  let ?queue = "queue_at ?c q"
  let ?es = "(if length ?queue \<ge> MAX_PENDING_PER_CHANNEL then tl ?queue else ?queue) @ [e]"
  have len: "length ?queue \<le> MAX_PENDING_PER_CHANNEL"
    using i by (simp add: queue_inv_def within_caps_def qlen_def queue_at_def split: option.splits)
  have "\<forall>x \<in> set ?queue. event_route parse ?c (qe_event x) = route ?c"
    using i by (cases "queues q ?c") (auto simp: queue_inv_def routed_def queue_at_def)
  then have "\<forall>x \<in> set ?es. event_route parse ?c (qe_event x) = route ?c"
    using ok set_tl [of ?queue] by auto
  moreover have "length ?es \<le> MAX_PENDING_PER_CHANNEL"
    using len by (auto simp: MAX_PENDING_PER_CHANNEL_def)
  ultimately show ?thesis
    using queue_inv_enforce [OF i, of ord ?es ?c] ok i by (simp add: queue_push_def Let_def)
qed

lemma queue_inv_expire:
  assumes "queue_inv parse route q" and "order_ok ord"
  shows "queue_inv parse route (expire_in_flight parse ord now q)"
proof -
  have one: "queue_inv parse route (expire_channel parse ord p c)" if p: "queue_inv parse route p" for p c
  proof -
    let ?p = "p\<lparr>in_flight_batch_sizes := (in_flight_batch_sizes p)(c := None),
      in_flight_channels := in_flight_channels p - {c}, in_flight_event_ids := (in_flight_event_ids p)(c := None),
      in_flight_deadlines := (in_flight_deadlines p)(c := None)\<rparr>"
    have p1: "queue_inv parse route ?p" by (rule queue_inv_same [OF p]) auto
    have p2: "queue_inv parse route (?p\<lparr>withheld_native_steer := (withheld_native_steer ?p)(c := None)\<rparr>)"
      by (rule queue_inv_part [OF p1]) (auto intro: part_of_delete)
    show ?thesis
      unfolding expire_channel_def recover_withheld_for_expired_channel_def
      using p1 queue_inv_push_front_all [OF p2 assms(2)] p
      by (auto simp: queue_inv_def [of _ _ p] routed_def split: option.splits)
  qed
  have "queue_inv parse route p \<Longrightarrow> queue_inv parse route (foldl (expire_channel parse ord) p cs)" for p cs
    by (induction cs arbitrary: p) (simp_all add: one)
  with assms(1) show ?thesis by (simp add: expire_in_flight_def)
qed

lemma queue_inv_flush_queue: "queue_inv parse route q \<Longrightarrow> queue_inv parse route (snd (flush_queue now conv q))"
proof (rule queue_inv_part)
  assume "queue_inv parse route q"
  have "part_of ((queues q)(conv \<mapsto> drop n (queue_at conv q))) (queues q)" if "n < length (queue_at conv q)" for n
    using that by (auto simp: part_of_def queue_at_def split: option.splits dest!: in_set_dropD)
  then show "part_of (queues (snd (flush_queue now conv q))) (queues q)"
    by (simp add: flush_queue_def start_in_flight_def Let_def part_of_delete)
qed (auto simp: flush_queue_def start_in_flight_def Let_def)

lemma queue_inv_flush_cancelled: "queue_inv parse route q \<Longrightarrow> queue_inv parse route (snd (flush_cancelled now conv q))"
  by (rule queue_inv_part) (auto simp: flush_cancelled_def start_in_flight_def Let_def)

lemma queue_inv_flush:
  "queue_inv parse route q \<Longrightarrow> order_ok ord \<Longrightarrow> queue_inv parse route (snd (flush_next parse ord now q))"
  using queue_inv_expire [of parse route q ord now] queue_inv_flush_queue queue_inv_flush_cancelled
  by (simp add: flush_next_def Let_def split: option.splits list.splits prod.splits) (metis snd_conv)

lemma queue_inv_requeue_as_cancelled: "queue_inv parse route q \<Longrightarrow> queue_inv parse route (requeue_as_cancelled b why q)"
  by (auto simp: queue_inv_def maps_finite_def requeue_as_cancelled_def Let_def cancelled_at_def split: option.splits)

lemma queue_inv_drain_channel: "queue_inv parse route q \<Longrightarrow> queue_inv parse route (snd (drain_channel conv q))"
  by (rule queue_inv_part [where q = q]) (auto simp: drain_channel_def part_of_delete)

lemma queue_inv_drain_routing: "queue_inv parse route q \<Longrightarrow> queue_inv parse route (snd (drain_routing_channel parse ord ch q))"
proof -
  let ?f = "\<lambda>(ids, q) conv. case drain_channel conv q of (more_ids, q1) \<Rightarrow> (ids @ more_ids, q1)"
  have "queue_inv parse route (snd acc) \<Longrightarrow> queue_inv parse route (snd (foldl ?f acc cs))" for acc cs
  proof (induction cs arbitrary: acc)
    case (Cons c cs)
    have "snd (?f acc c) = snd (drain_channel c (snd acc))" by (simp add: case_prod_unfold)
    with Cons.IH [of "?f acc c"] Cons.prems queue_inv_drain_channel show ?case by simp
  qed simp
  then show "queue_inv parse route q \<Longrightarrow> ?thesis" by (simp add: drain_routing_channel_def)
qed

lemma set_remove_first_id: "set (remove_first_id eid es) \<subseteq> set es" "length (remove_first_id eid es) \<le> length es"
  by (induction es) auto

lemma part_of_remove_first: "qs c = Some es \<Longrightarrow> part_of (put_list c (remove_first_id eid es) qs) qs"
  by (rule part_of_put_list [of qs c es]) (simp_all add: set_remove_first_id)

lemma queue_inv_steer_pending: "queue_inv parse route q \<Longrightarrow> queue_inv parse route (snd (mark_native_steer_pending conv eid q))"
proof (cases "\<exists>es e. queues q conv = Some es \<and> first_with_id eid es = Some e")
  case True
  assume i: "queue_inv parse route q"
  from True obtain es e where es: "queues q conv = Some es" "first_with_id eid es = Some e" by blast
  let ?w = "withheld_native_steer q"
  let ?p = "q\<lparr>queues := put_list conv (remove_first_id eid es) (queues q)\<rparr>"
  have p: "queue_inv parse route ?p"
    by (rule queue_inv_part [OF i]) (auto intro: part_of_remove_first es(1))
  have "e \<in> set es" using es(2) by (auto simp: first_with_id_def find_Some_iff)
  then have "event_route parse conv (qe_event e) = route conv" using i es(1) by (auto simp: queue_inv_def routed_def)
  then have "routed parse route (index_push ?w conv e)"
    using i by (cases "?w conv") (auto simp: queue_inv_def routed_def index_push_def)
  then have "queue_inv parse route (?p\<lparr>withheld_native_steer := index_push ?w conv e\<rparr>)"
    using p by (simp add: queue_inv_def maps_finite_def cancelled_at_def index_push_def)
  then show ?thesis using es by (simp add: mark_native_steer_pending_def)
qed (auto simp: mark_native_steer_pending_def split: option.splits)

lemma queue_inv_release:
  assumes i: "queue_inv parse route q" and ord: "order_ok ord"
  shows "queue_inv parse route (release_native_steer parse ord conv eid q)"
proof (cases "\<exists>es e. withheld_native_steer q conv = Some es \<and> first_with_id eid es = Some e")
  case True
  then obtain es e where es: "withheld_native_steer q conv = Some es" "first_with_id eid es = Some e" by blast
  have "e \<in> set es" using es(2) by (auto simp: first_with_id_def find_Some_iff)
  then have e: "\<forall>x \<in> set [e]. event_route parse conv (qe_event x) = route conv"
    using i es(1) by (auto simp: queue_inv_def routed_def)
  have "queue_inv parse route
      (q\<lparr>withheld_native_steer := put_list conv (remove_first_id eid es) (withheld_native_steer q)\<rparr>)"
    by (rule queue_inv_part [OF i]) (auto intro: part_of_remove_first es(1))
  from queue_inv_push_front_all [OF this ord e] es show ?thesis by (simp add: release_native_steer_def)
qed (use i in \<open>auto simp: release_native_steer_def split: option.splits\<close>)

lemma part_of_remove_id_at: "part_of (snd (remove_id_at eid conv m)) m"
  by (auto simp: remove_id_at_def without_id_def split: option.splits intro!: part_of_put_list)

lemma part_of_remove_everywhere: "part_of (snd (remove_id_everywhere eid m)) m"
proof -
  have "\<exists>es. m c = Some es \<and> length es' \<le> length es \<and> qe_event ` set es' \<subseteq> qe_event ` set es"
    if "snd (remove_id_at eid c m) c = Some es'" for c es'
    using part_of_remove_id_at [of eid c m] that unfolding part_of_def by blast
  then show ?thesis by (simp add: remove_id_everywhere_def part_of_def)
qed

lemma queue_inv_remove:
  "queue_inv parse route q \<Longrightarrow> queue_inv parse route (snd (remove_event conv eid q))"
  "queue_inv parse route q \<Longrightarrow> queue_inv parse route (snd (remove_event_by_id eid q))"
  by (rule queue_inv_part [where q = q];
      simp add: remove_event_def remove_event_by_id_def case_prod_unfold part_of_remove_id_at part_of_remove_everywhere; blast)+

lemma patch_first_events: "length (patch_first eid text es) = length es" "qe_event ` set (patch_first eid text es) = qe_event ` set es"
  by (induction es) auto

lemma queue_inv_patch: "queue_inv parse route q \<Longrightarrow> queue_inv parse route (snd (patch_event ord eid text q))"
proof -
  have part: "part_of (m(c \<mapsto> patch_first eid text (the (m c)))) m" if "has_queued_id eid (m c)" for m c
    using that by (cases "m c") (simp_all add: has_queued_id_def part_of_upd patch_first_events)
  show "queue_inv parse route q \<Longrightarrow> ?thesis"
    by (rule queue_inv_part [where q = q])
      (auto simp: patch_event_def part find_Some_iff intro!: part split: option.splits)
qed

lemma queue_inv_do:
  assumes i: "queue_inv parse route q" and ok: "queue_op_ok parse route l"
  shows "queue_inv parse route (queue_do rnd parse l q)"
proof (cases l)
  case (Requeue ord now nanos b)
  let ?q = "\<lambda>n. q\<lparr>retry_counts := (retry_counts q)(fb_channel_id b \<mapsto> n)\<rparr>"
  have "queue_inv parse route (?q n)" for n by (rule queue_inv_same [OF i]) auto
  then have "queue_inv parse route (push_front_all parse ord (fb_channel_id b)
      (map (from_batch_event (fb_channel_id b)) (fb_events b)) (?q n))" for n
    using ok Requeue by (intro queue_inv_push_front_all) (auto simp: from_batch_event_def)
  note r = queue_inv_same [OF this]
  show ?thesis unfolding Requeue queue_do.simps requeue_def Let_def
    by (auto intro: r queue_inv_same [OF i])
next
  case (RequeuePreserve ord b)
  then show ?thesis
    using i ok by (auto simp: requeue_preserve_timestamps_def from_batch_event_def intro!: queue_inv_push_front_all)
next
  case (Complete now conv)
  show ?thesis unfolding Complete queue_do.simps mark_complete_def Let_def
    by (rule queue_inv_same [OF i]) (auto split: option.splits)
next
  case (ExtendDeadline now conv secs)
  show ?thesis unfolding ExtendDeadline queue_do.simps extend_in_flight_deadline_def Let_def
    by (rule queue_inv_same [OF i, where c = conv]) (auto split: option.splits)
next
  case (Push ord e)
  then show ?thesis using queue_inv_push [OF i] ok by simp
next
  case (CheckWork ord now)
  then show ?thesis using queue_inv_expire [OF i] ok by (simp add: has_flushable_work_def Let_def)
next
  case (BusyNotice conv)
  show ?thesis unfolding BusyNotice by (rule queue_inv_same [OF i]) (auto simp: take_busy_notice_pending_def)
next
  case (ClearRetry conv)
  show ?thesis unfolding ClearRetry by (rule queue_inv_same [OF i]) (auto simp: clear_retry_after_def)
next
  case (Compact now)
  show ?thesis unfolding Compact by (rule queue_inv_same [OF i]) (auto simp: compact_expired_state_def Let_def)
qed (use i ok in \<open>simp_all add: queue_inv_flush queue_inv_requeue_as_cancelled queue_inv_drain_channel
    queue_inv_drain_routing queue_inv_steer_pending queue_inv_release queue_inv_remove queue_inv_patch\<close>)

interpretation queue: invariant_system fresh_queue "queue_step rnd parse route" "queue_inv parse route" for rnd parse route
proof unfold_locales
  fix q
  assume "fresh_queue q"
  then show "queue_inv parse route q"
    by (auto simp: fresh_queue_def queue_new_def with_dispatch_hold_def with_in_flight_deadline_def queue_inv_def
        maps_finite_def routed_def within_caps_def qlen_def channel_load_def cancelled_at_def)
qed (auto simp: queue_step_def queue_inv_do)

text \<open>
  C29: Pending work is bounded. In each run in which the events of a conversation belong to one
  channel, no conversation queue exceeds the cap, all conversations of one channel together do
  not exceed it either, and neither does a cancelled batch that waits to be merged, whatever
  is pushed, requeued, released or recovered.
\<close>

theorem queue_caps_hold:
  assumes "reachable fresh_queue (queue_step rnd parse route) q"
  shows "length (queue_at conv q) \<le> MAX_PENDING_PER_CHANNEL \<and>
    (\<Sum>c \<in> {c. queues q c \<noteq> None \<and> route c = ch}. length (queue_at c q)) \<le> MAX_PENDING_PER_CHANNEL \<and>
    (case cancelled_batches q conv of None \<Rightarrow> True | Some es \<Rightarrow> length es \<le> MAX_PENDING_PER_CHANNEL)"
proof -
  have i: "queue_inv parse route q" using queue.reachable_inv [OF assms] .
  have len: "length (queue_at c q) = qlen (queues q) c" for c
    by (simp add: queue_at_def qlen_def split: option.splits)
  have "(\<Sum>c \<in> {c. queues q c \<noteq> None \<and> route c = ch}. length (queue_at c q)) = channel_load route ch (queues q)"
    by (simp add: channel_load_def len dom_def)
  moreover have "length (cancelled_at conv q) \<le> MAX_PENDING_PER_CHANNEL" using i by (simp add: queue_inv_def)
  ultimately show ?thesis
    using i by (auto simp: len queue_inv_def within_caps_def cancelled_at_def split: option.splits)
qed

theorem queue_caps_hold_witness:
  "length (queue_at ''c'' (snd (queue_push (\<lambda>_. None) sorted_list_of_set (sample_queued ''a'')
     (with_dispatch_hold 0 (queue_new Queue))))) \<le> 500"
proof -
  let ?step = "queue_step (\<lambda>x. x) (\<lambda>_. None) (\<lambda>c. c)"
  have "reachable fresh_queue ?step (with_dispatch_hold 0 (queue_new Queue))"
    by (rule reach_start) (auto simp: fresh_queue_def)
  moreover have "?step (with_dispatch_hold 0 (queue_new Queue)) (Push sorted_list_of_set (sample_queued ''a''))
      (snd (queue_push (\<lambda>_. None) sorted_list_of_set (sample_queued ''a'') (with_dispatch_hold 0 (queue_new Queue))))"
    by (simp add: queue_step_def order_ok_sorted event_route_def routing_channel_id_def sample_queued_def sample_event_def)
  ultimately show ?thesis
    using queue_caps_hold [OF reach_step, of "\<lambda>x. x" "\<lambda>_. None" "\<lambda>c. c"] by (auto simp: MAX_PENDING_PER_CHANNEL_def)
qed

section \<open>Retries\<close>









lemma retry_jitter_one_sided:
  assumes "nanos < 1000000000"
  shows "real (retry_delay id attempt nanos) \<le> 0.9 * real (capped_delay_secs attempt) * 1000000000 + 1"
proof -
  let ?c = "real (capped_delay_secs attempt)"
  let ?j = "0.8 + real nanos / 4294967295 * 0.4 :: real"
  have "real nanos / 4294967295 \<le> 0.25" using assms by (simp add: divide_le_eq)
  then have j: "?j \<le> 0.9" by simp
  have "0 \<le> round (?c * ?j * 1000000000)" using round_mono [of 0 "?c * ?j * 1000000000"] by simp
  then have "real (retry_delay id attempt nanos) = of_int (round (?c * ?j * 1000000000))"
    by (simp add: retry_delay_def Let_def)
  then have "real (retry_delay id attempt nanos) \<le> ?c * ?j * 1000000000 + 1"
    using of_int_round_le [of "?c * ?j * 1000000000"] by linarith
  also have "?c * ?j \<le> ?c * 0.9" using j by (intro mult_left_mono) auto
  finally show ?thesis by (simp add: mult.commute)
qed

section \<open>Merged batches that are put back\<close>

lemma has_queued_id_iff: "has_queued_id eid w \<longleftrightarrow> (\<exists>es. w = Some es \<and> eid \<in> event_id ` qe_event ` set es)"
  by (auto simp: has_queued_id_def split: option.splits)

lemma has_queued_id_enforce:
  "has_queued_id eid (queues (enforce_routing_channel_cap parse ord conv q) c) \<Longrightarrow> has_queued_id eid (queues q c)"
proof -
  have "has_queued_id eid (qs c)" if "part_of qs' qs" "has_queued_id eid (qs' c)" for qs' qs
  proof -
    from that(2) obtain es' where es': "qs' c = Some es'" "eid \<in> event_id ` qe_event ` set es'"
      by (auto simp: has_queued_id_iff)
    with that(1) obtain es where "qs c = Some es" "qe_event ` set es' \<subseteq> qe_event ` set es"
      unfolding part_of_def by blast
    with es'(2) show ?thesis unfolding has_queued_id_iff by blast
  qed
  from this [OF part_of_enforce_loop] show "has_queued_id eid (queues (enforce_routing_channel_cap parse ord conv q) c) \<Longrightarrow> ?thesis"
    by (auto simp: enforce_routing_channel_cap_def split: option.splits)
qed

lemma has_queued_id_requeued:
  assumes "has_queued_id eid (queues (requeue_preserve_timestamps parse ord b q) (fb_channel_id b))"
  shows "eid \<in> batch_ids (fb_events b) \<or> has_queued_id eid (queues q (fb_channel_id b))"
proof -
  let ?es = "map (from_batch_event (fb_channel_id b)) (fb_events b) @ queue_at (fb_channel_id b) q"
  have "has_queued_id eid (Some (take MAX_PENDING_PER_CHANNEL ?es))"
    using has_queued_id_enforce [OF assms [unfolded requeue_preserve_timestamps_def push_front_all_def]] by simp
  then have "eid \<in> event_id ` qe_event ` set ?es"
    using set_take_subset [of MAX_PENDING_PER_CHANNEL ?es] unfolding has_queued_id_iff by blast
  then show ?thesis
    by (cases "queues q (fb_channel_id b)")
      (auto simp: batch_ids_def from_batch_event_def has_queued_id_iff queue_at_def)
qed

text \<open>
  A merged batch that is put back loses its cancelled part. When the batch that was handed
  out contains cancelled events, and no agent is free, the harness requeues it with its
  timestamps and completes the conversation; an event that was only in the cancelled part is
  then neither queued, nor in flight, nor cancelled, nor withheld, so it is never delivered.
\<close>

theorem requeue_loses_cancelled:
  assumes "order_ok ord" and "maps_finite q" and "flush_next parse ord now q = (Some b, p)"
    and "eid \<in> batch_ids (fb_cancelled_events b)"
    and "eid \<notin> batch_ids (waiting (fb_channel_id b) (expire_in_flight parse ord now q))"
    and "\<not> has_queued_id eid (withheld_native_steer p (fb_channel_id b))"
  shows "\<not> contains_event (fb_channel_id b) eid
    (mark_complete t (fb_channel_id b) (requeue_preserve_timestamps parse ord' b p))"
proof -
  let ?c = "fb_channel_id b" and ?q = "expire_in_flight parse ord now q"
  have tb: "takes_batch now ?q b p" using flush_next_spec [OF assms(1-3)] by (simp add: Let_def)
  have ne: "fb_cancelled_events b \<noteq> []" using assms(4) by (auto simp: batch_ids_def)
  then have ev: "fb_events b = sort_key (\<lambda>e. created_at (be_event e)) (take MAX_BATCH_EVENTS (waiting ?c ?q))"
    and w: "waiting ?c p = drop MAX_BATCH_EVENTS (waiting ?c ?q)" and cp: "cancelled_at ?c p = []"
    using tb by (auto simp: takes_batch_def Let_def split: if_splits)
  have "eid \<notin> batch_ids (fb_events b)"
    using assms(5) by (auto simp: ev batch_ids_def dest!: in_set_takeD)
  moreover have "\<not> has_queued_id eid (queues p ?c)"
  proof
    assume "has_queued_id eid (queues p ?c)"
    then have "eid \<in> batch_ids (waiting ?c p)"
      by (auto simp: has_queued_id_def batch_ids_def waiting_def queue_at_def to_batch_event_def image_image
          split: option.splits)
    then show False using assms(5) by (auto simp: w batch_ids_def dest!: in_set_dropD)
  qed
  ultimately have "\<not> has_queued_id eid (queues (requeue_preserve_timestamps parse ord' b p) ?c)"
    using has_queued_id_requeued by blast
  moreover have "\<not> has_batch_id eid (cancelled_batches p ?c)"
    using cp by (auto simp: has_batch_id_def cancelled_at_def split: option.splits)
  ultimately show ?thesis
    using assms(6)
    by (auto simp: contains_event_def mark_complete_def requeue_preserve_timestamps_def Let_def split: option.splits)
qed

theorem requeue_loses_cancelled_witness:
  "\<not> contains_event ''c'' ''a'' (mark_complete 4 ''c'' (requeue_preserve_timestamps (\<lambda>_. None) sorted_list_of_set
     \<lparr>fb_channel_id = ''c'', fb_events = sample_batch [''b''], fb_cancelled_events = sample_batch [''a''],
            fb_cancel_reason = Some Steer\<rparr>
     (start_in_flight 3 ''c'' 1 {''a'', ''b''} (queue_new Queue))))"
proof -
  have "''a'' \<in> batch_ids (sample_batch [''a''])" "''a'' \<notin> batch_ids (waiting ''c'' sample_queue)"
    by (simp_all add: waiting_def queue_at_def sample_queue_def sample_batch_def batch_ids_def to_batch_event_def
        sample_queued_def sample_event_def queue_new_def)
  moreover have "withheld_native_steer (start_in_flight 3 ''c'' 1 {''a'', ''b''} (queue_new Queue)) ''c'' = None"
    by (simp add: start_in_flight_def queue_new_def)
  ultimately show ?thesis
    using requeue_loses_cancelled [OF order_ok_sorted sample_queue_run(1) sample_queue_run(3) [of "\<lambda>_. None" 3],
        of "''a''" 4 sorted_list_of_set] by (simp add: sample_queue_run(2) has_queued_id_def)
qed

end
