(* ===== verification/Audit_Chain.thy ===== *)
theory Audit_Chain
  imports Nostr_Events "HOL-Library.Multiset"
begin

text \<open>
  The audit log (\<open>buzz-audit\<close>: \<open>action.rs\<close>, \<open>entry.rs\<close>, \<open>error.rs\<close>, \<open>hash.rs\<close>, \<open>service.rs\<close>):
  one hash chain per community in a database table, the canonical form of an entry that is
  hashed, appending under an advisory lock by any number of relay processes, and the
  verification of a range. SHA-256, the text of scalars and of timestamps and what a JSONB
  column gives back are arguments; a point in time is a number of nanoseconds.
\<close>

section \<open>Actions, entries and errors\<close>

datatype audit_action =
    EventCreated | EventDeleted | ChannelCreated | ChannelUpdated | ChannelDeleted
  | MemberAdded | MemberRemoved | AuthSuccess | AuthFailure | RateLimitExceeded | MediaUploaded

fun action_as_str :: "audit_action \<Rightarrow> string" where
  "action_as_str EventCreated = ''event_created''"
| "action_as_str EventDeleted = ''event_deleted''"
| "action_as_str ChannelCreated = ''channel_created''"
| "action_as_str ChannelUpdated = ''channel_updated''"
| "action_as_str ChannelDeleted = ''channel_deleted''"
| "action_as_str MemberAdded = ''member_added''"
| "action_as_str MemberRemoved = ''member_removed''"
| "action_as_str AuthSuccess = ''auth_success''"
| "action_as_str AuthFailure = ''auth_failure''"
| "action_as_str RateLimitExceeded = ''rate_limit_exceeded''"
| "action_as_str MediaUploaded = ''media_uploaded''"

definition ALL_ACTIONS :: "audit_action list" where
  "ALL_ACTIONS =
     [EventCreated, EventDeleted, ChannelCreated, ChannelUpdated, ChannelDeleted, MemberAdded,
      MemberRemoved, AuthSuccess, AuthFailure, RateLimitExceeded, MediaUploaded]"

definition action_from_str :: "string \<Rightarrow> audit_action option" where
  "action_from_str s = find (\<lambda>a. action_as_str a = s) ALL_ACTIONS"

text \<open>A JSON value; a number is given by its text, an object by its members.\<close>

datatype json =
    JNull | JBool bool | JNumber string | JString string
  | JArray "json list" | JObject "(string \<times> json) list"

record audit_entry =
  ent_community_id :: uuid
  ent_seq :: int
  ent_hash :: string
  ent_prev_hash :: "string option"
  ent_action :: audit_action
  ent_actor_pubkey :: "string option"
  ent_object_id :: "string option"
  ent_detail :: json
  ent_created_at :: int

record new_audit_entry =
  new_community_id :: uuid
  new_action :: audit_action
  new_actor_pubkey :: "string option"
  new_object_id :: "string option"
  new_detail :: json

datatype audit_error =
    Database string
  | ChainViolation int
  | HashMismatch int
  | UnknownAction
  | Serialization string

text \<open>The code of other packages.\<close>

record audit_env =
  sha256 :: "string \<Rightarrow> string"
  to_rfc3339 :: "int \<Rightarrow> string"
  json_text :: "json \<Rightarrow> (string, string) result"
  uuid_octets :: "uuid \<Rightarrow> string"
  jsonb :: "json \<Rightarrow> json"
  lock_key :: "uuid \<Rightarrow> int"

section \<open>The hash of an entry\<close>

definition GENESIS_HASH :: string where
  "GENESIS_HASH = replicate 32 (CHR 0x00)"

definition to_storage_precision :: "int \<Rightarrow> int" where
  "to_storage_precision t = t - t mod 1000"

text \<open>\<open>collect\<close> of results: all values in order, or the first error.\<close>

fun collect_results :: "('e, 'a) result list \<Rightarrow> ('e, 'a list) result" where
  "collect_results [] = Ok []"
| "collect_results (r # rs) = and_then r (\<lambda>x. and_then (collect_results rs) (\<lambda>xs. Ok (x # xs)))"

lemma size_json_member:
  "(k, v) \<in> set m \<Longrightarrow> size v < Suc (size_list (size_prod f size) m)"
  by (induction m) auto

function canonical_json :: "audit_env \<Rightarrow> json \<Rightarrow> (string, string) result" where
  "canonical_json env (JObject m) =
     and_then
       (collect_results
          (map (\<lambda>(k, v). and_then (json_text env (JString k))
                    (\<lambda>kt. and_then (canonical_json env v) (\<lambda>vt. Ok (kt @ '':'' @ vt))))
            (sort_key fst m)))
       (\<lambda>parts. Ok (''{'' @ join_with CHR '','' parts @ ''}''))"
| "canonical_json env (JArray vs) =
     and_then (collect_results (map (canonical_json env) vs))
       (\<lambda>parts. Ok (''['' @ join_with CHR '','' parts @ '']''))"
| "canonical_json env JNull = json_text env JNull"
| "canonical_json env (JBool b) = json_text env (JBool b)"
| "canonical_json env (JNumber n) = json_text env (JNumber n)"
| "canonical_json env (JString s) = json_text env (JString s)"
  by pat_completeness auto
termination
  by (relation "measure (\<lambda>(env, v). size v)") (auto simp: size_json_member less_Suc_eq_le size_list_estimation')

fun be_bytes :: "nat \<Rightarrow> nat \<Rightarrow> string" where
  "be_bytes 0 n = []"
| "be_bytes (Suc k) n = be_bytes k (n div 256) @ [char_of (n mod 256)]"

definition i64_bytes :: "int \<Rightarrow> string" where
  "i64_bytes i = be_bytes 8 (nat (i mod 2 ^ 64))"

definition tagged :: "string option \<Rightarrow> string" where
  "tagged x = (case x of Some s \<Rightarrow> CHR 0x01 # s | None \<Rightarrow> [CHR 0x00])"

definition prev_bytes :: "audit_entry \<Rightarrow> string" where
  "prev_bytes e = (case ent_prev_hash e of Some h \<Rightarrow> h | None \<Rightarrow> GENESIS_HASH)"

definition hash_input :: "audit_env \<Rightarrow> audit_entry \<Rightarrow> string \<Rightarrow> string" where
  "hash_input env e detail_text =
     uuid_octets env (ent_community_id e) @ i64_bytes (ent_seq e) @
     to_rfc3339 env (to_storage_precision (ent_created_at e)) @ action_as_str (ent_action e) @
     tagged (ent_actor_pubkey e) @ tagged (ent_object_id e) @ detail_text @ prev_bytes e"

definition compute_hash :: "audit_env \<Rightarrow> audit_entry \<Rightarrow> (audit_error, string) result" where
  "compute_hash env e =
     (case canonical_json env (ent_detail e) of
        Inl err \<Rightarrow> Err (Serialization err)
      | Inr text \<Rightarrow> Ok (sha256 env (hash_input env e text)))"

section \<open>The table\<close>

record audit_row =
  row_community_id :: uuid
  row_seq :: int
  row_hash :: string
  row_prev_hash :: "string option"
  row_action :: string
  row_actor_pubkey :: "string option"
  row_object_id :: "string option"
  row_detail :: json
  row_created_at :: int

record audit_db =
  communities :: "uuid set"
  audit_log :: "audit_row list"

definition rows_of :: "uuid \<Rightarrow> audit_db \<Rightarrow> audit_row list" where
  "rows_of c db = filter (\<lambda>r. row_community_id r = c) (audit_log db)"

text \<open>\<open>SELECT seq, hash \<dots> ORDER BY seq DESC LIMIT 1\<close>.\<close>

definition chain_head :: "uuid \<Rightarrow> audit_db \<Rightarrow> (int \<times> string) option" where
  "chain_head c db =
     (case sort_key (\<lambda>r. - row_seq r) (rows_of c db) of
        [] \<Rightarrow> None
      | r # rs \<Rightarrow> Some (row_seq r, row_hash r))"

text \<open>
  The insertion with the constraints of the table: the community exists, the primary key
  (community and sequence number) and the unique index (community and hash) are free. The
  columns keep microseconds and the JSONB form of the detail.
\<close>

definition row_of :: "audit_env \<Rightarrow> audit_entry \<Rightarrow> audit_row" where
  "row_of env e =
     \<lparr>row_community_id = ent_community_id e, row_seq = ent_seq e, row_hash = ent_hash e,
      row_prev_hash = ent_prev_hash e, row_action = action_as_str (ent_action e),
      row_actor_pubkey = ent_actor_pubkey e, row_object_id = ent_object_id e,
      row_detail = jsonb env (ent_detail e), row_created_at = to_storage_precision (ent_created_at e)\<rparr>"

definition insert_row :: "audit_env \<Rightarrow> audit_entry \<Rightarrow> audit_db \<Rightarrow> (audit_error, unit) result \<times> audit_db" where
  "insert_row env e db =
     (if ent_community_id e \<notin> communities db then (Err (Database ''foreign key violation''), db)
      else if \<exists>r \<in> set (audit_log db). row_community_id r = ent_community_id e \<and>
                (row_seq r = ent_seq e \<or> row_hash r = ent_hash e)
      then (Err (Database ''unique violation''), db)
      else (Ok (), db\<lparr>audit_log := audit_log db @ [row_of env e]\<rparr>))"

definition row_to_audit_entry :: "audit_row \<Rightarrow> (audit_error, audit_entry) result" where
  "row_to_audit_entry r =
     (case action_from_str (row_action r) of
        None \<Rightarrow> Err UnknownAction
      | Some a \<Rightarrow>
          Ok \<lparr>ent_community_id = row_community_id r, ent_seq = row_seq r, ent_hash = row_hash r,
              ent_prev_hash = row_prev_hash r, ent_action = a, ent_actor_pubkey = row_actor_pubkey r,
              ent_object_id = row_object_id r, ent_detail = row_detail r, ent_created_at = row_created_at r\<rparr>)"

section \<open>Appending\<close>

definition log_timestamp :: "int \<Rightarrow> int" where
  "log_timestamp now = to_storage_precision now"

text \<open>The next sequence number wraps as \<open>i64\<close> addition does.\<close>

definition next_seq :: "int \<Rightarrow> int" where
  "next_seq s = (s + 1 + 2 ^ 63) mod 2 ^ 64 - 2 ^ 63"

text \<open>The entry that follows the head, with its hash.\<close>

definition next_entry ::
  "audit_env \<Rightarrow> int \<Rightarrow> (int \<times> string) option \<Rightarrow> new_audit_entry \<Rightarrow> (audit_error, audit_entry) result" where
  "next_entry env now head entry =
     (let (prev_seq, prev_hash) = (case head of Some (s, h) \<Rightarrow> (s, Some h) | None \<Rightarrow> (0, None));
          e = \<lparr>ent_community_id = new_community_id entry, ent_seq = next_seq prev_seq, ent_hash = [],
               ent_prev_hash = prev_hash, ent_action = new_action entry,
               ent_actor_pubkey = new_actor_pubkey entry, ent_object_id = new_object_id entry,
               ent_detail = new_detail entry, ent_created_at = log_timestamp now\<rparr>
      in and_then (compute_hash env e) (\<lambda>h. Ok (e\<lparr>ent_hash := h\<rparr>)))"

text \<open>From the head that was read to the commit; an error rolls the transaction back.\<close>

definition log_after_head ::
  "audit_env \<Rightarrow> int \<Rightarrow> (int \<times> string) option \<Rightarrow> new_audit_entry \<Rightarrow> audit_db \<Rightarrow>
   (audit_error, audit_entry) result \<times> audit_db" where
  "log_after_head env now head entry db =
     (case next_entry env now head entry of
        Inl err \<Rightarrow> (Err err, db)
      | Inr e \<Rightarrow>
          (case insert_row env e db of
             (Inl err, db1) \<Rightarrow> (Err err, db1)
           | (Inr u, db1) \<Rightarrow> (Ok e, db1)))"

definition log_inner ::
  "audit_env \<Rightarrow> int \<Rightarrow> new_audit_entry \<Rightarrow> audit_db \<Rightarrow> (audit_error, audit_entry) result \<times> audit_db" where
  "log_inner env now entry db = log_after_head env now (chain_head (new_community_id entry) db) entry db"

section \<open>Verification and reading\<close>

fun verify_rows :: "audit_env \<Rightarrow> string option \<Rightarrow> audit_row list \<Rightarrow> (audit_error, bool) result" where
  "verify_rows env expected_prev [] = Ok True"
| "verify_rows env expected_prev (r # rs) =
     and_then (row_to_audit_entry r) (\<lambda>e.
       if expected_prev \<noteq> None \<and> ent_prev_hash e \<noteq> expected_prev then Err (ChainViolation (ent_seq e))
       else
         and_then (compute_hash env e) (\<lambda>computed.
           if computed \<noteq> ent_hash e then Err (HashMismatch (ent_seq e))
           else verify_rows env (Some (ent_hash e)) rs))"

definition select_range :: "uuid \<Rightarrow> int \<Rightarrow> int \<Rightarrow> audit_db \<Rightarrow> audit_row list" where
  "select_range c from_seq to_seq db =
     sort_key row_seq (filter (\<lambda>r. from_seq \<le> row_seq r \<and> row_seq r \<le> to_seq) (rows_of c db))"

definition verify_chain :: "audit_env \<Rightarrow> uuid \<Rightarrow> int \<Rightarrow> int \<Rightarrow> audit_db \<Rightarrow> (audit_error, bool) result" where
  "verify_chain env c from_seq to_seq db =
     (let rows = select_range c from_seq to_seq db in
      if rows = [] then Ok False else verify_rows env None rows)"

definition get_entries :: "uuid \<Rightarrow> int \<Rightarrow> nat \<Rightarrow> audit_db \<Rightarrow> (audit_error, audit_entry list) result" where
  "get_entries c from_seq limit db =
     collect_results (map row_to_audit_entry
       (take limit (sort_key row_seq (filter (\<lambda>r. from_seq \<le> row_seq r) (rows_of c db)))))"

section \<open>Many relay processes\<close>

text \<open>
  Each process has a session that runs \<open>log\<close>: it waits for the advisory lock of the
  community, reads the head, inserts and commits, and releases the lock. A statement may fail,
  which rolls back and leads to the release, and a session may be lost at any point, which
  releases its lock as well.
\<close>

datatype audit_session =
    Free
  | Locked new_audit_entry
  | HeadRead new_audit_entry "(int \<times> string) option"
  | Finished new_audit_entry "(audit_error, audit_entry) result"

record audit_system =
  sys_db :: audit_db
  sys_locks :: "int \<rightharpoonup> nat"
  sys_sessions :: "nat \<Rightarrow> audit_session"

datatype audit_event =
    TakeLock nat new_audit_entry
  | ReadHead nat
  | Commit nat int
  | StatementFails nat string
  | ReleaseLock nat
  | SessionLost nat

fun session_entry :: "audit_session \<Rightarrow> new_audit_entry option" where
  "session_entry Free = None"
| "session_entry (Locked e) = Some e"
| "session_entry (HeadRead e h) = Some e"
| "session_entry (Finished e r) = Some e"

inductive audit_step :: "audit_env \<Rightarrow> audit_system \<Rightarrow> audit_event \<Rightarrow> audit_system \<Rightarrow> bool" for env where
  take_lock:
    "sys_sessions s w = Free \<Longrightarrow> sys_locks s (lock_key env (new_community_id e)) = None \<Longrightarrow>
     audit_step env s (TakeLock w e)
       (s\<lparr>sys_locks := (sys_locks s)(lock_key env (new_community_id e) \<mapsto> w),
          sys_sessions := (sys_sessions s)(w := Locked e)\<rparr>)"
| read_head:
    "sys_sessions s w = Locked e \<Longrightarrow>
     audit_step env s (ReadHead w)
       (s\<lparr>sys_sessions := (sys_sessions s)(w := HeadRead e (chain_head (new_community_id e) (sys_db s)))\<rparr>)"
| commit:
    "sys_sessions s w = HeadRead e h \<Longrightarrow> log_after_head env now h e (sys_db s) = (r, db) \<Longrightarrow>
     audit_step env s (Commit w now) (s\<lparr>sys_db := db, sys_sessions := (sys_sessions s)(w := Finished e r)\<rparr>)"
| statement_fails:
    "sys_sessions s w = Locked e \<or> sys_sessions s w = HeadRead e h \<Longrightarrow>
     audit_step env s (StatementFails w msg)
       (s\<lparr>sys_sessions := (sys_sessions s)(w := Finished e (Err (Database msg)))\<rparr>)"
| release_lock:
    "sys_sessions s w = Finished e r \<Longrightarrow>
     audit_step env s (ReleaseLock w)
       (s\<lparr>sys_locks := (sys_locks s)(lock_key env (new_community_id e) := None),
          sys_sessions := (sys_sessions s)(w := Free)\<rparr>)"
| session_lost:
    "session_entry (sys_sessions s w) = Some e \<Longrightarrow>
     audit_step env s (SessionLost w)
       (s\<lparr>sys_locks := (sys_locks s)(lock_key env (new_community_id e) := None),
          sys_sessions := (sys_sessions s)(w := Free)\<rparr>)"

definition audit_start :: "audit_system \<Rightarrow> bool" where
  "audit_start s \<longleftrightarrow> audit_log (sys_db s) = [] \<and> sys_locks s = Map.empty \<and> sys_sessions s = (\<lambda>w. Free)"

section \<open>The canonical form does not depend on the order of keys\<close>

primrec json_norm :: "json \<Rightarrow> json" where
  "json_norm JNull = JNull"
| "json_norm (JBool b) = JBool b"
| "json_norm (JNumber n) = JNumber n"
| "json_norm (JString s) = JString s"
| "json_norm (JArray vs) = JArray (map json_norm vs)"
| "json_norm (JObject m) = JObject (sort_key fst (map (map_prod (\<lambda>k. k) json_norm) m))"

lemma insort_key_map:
  "(\<And>y. y \<in> set (x # xs) \<Longrightarrow> f (g y) = h y) \<Longrightarrow> insort_key f (g x) (map g xs) = map g (insort_key h x xs)"
  by (induction xs) auto

lemma sort_key_map: "(\<And>x. x \<in> set xs \<Longrightarrow> f (g x) = h x) \<Longrightarrow> sort_key f (map g xs) = map g (sort_key h xs)"
proof (induction xs)
  case (Cons a xs)
  have "insort_key f (g a) (map g (sort_key h xs)) = map g (insort_key h a (sort_key h xs))"
    by (rule insort_key_map) (use Cons.prems in auto)
  then show ?case using Cons by simp
qed simp

lemma canonical_json_norm: "canonical_json env (json_norm v) = canonical_json env v"
proof (induction env v rule: canonical_json.induct)
  case (1 env m)
  let ?g = "map_prod (\<lambda>k. k) json_norm"
  have "sort_key fst (map ?g m) = map ?g (sort_key fst m)" by (rule sort_key_map) auto
  then have sorted: "sort_key fst (sort_key fst (map ?g m)) = map ?g (sort_key fst m)"
    by (metis sort_key_id_if_sorted sorted_sort_key)
  have "canonical_json env (json_norm v) = canonical_json env v" if "(k, v) \<in> set m" for k v
    using 1 [of "(k, v)" k v] that by auto
  then have parts: "map (\<lambda>(k, v). and_then (json_text env (JString k))
        (\<lambda>kt. and_then (canonical_json env v) (\<lambda>vt. Ok (kt @ '':'' @ vt)))) (map ?g (sort_key fst m)) =
      map (\<lambda>(k, v). and_then (json_text env (JString k))
        (\<lambda>kt. and_then (canonical_json env v) (\<lambda>vt. Ok (kt @ '':'' @ vt)))) (sort_key fst m)"
    by (auto simp: case_prod_unfold)
  show ?case unfolding json_norm.simps canonical_json.simps sorted parts by (rule refl)
next
  case (2 env vs)
  then have parts: "map (canonical_json env) (map json_norm vs) = map (canonical_json env) vs" by simp
  show ?case unfolding json_norm.simps canonical_json.simps parts by (rule refl)
qed simp_all

lemma canonical_json_cong: "json_norm v = json_norm w \<Longrightarrow> canonical_json env v = canonical_json env w"
  by (metis canonical_json_norm)

section \<open>Rows and entries\<close>

lemma action_roundtrip [simp]: "action_from_str (action_as_str a) = Some a"
  by (cases a) (simp_all add: action_from_str_def ALL_ACTIONS_def)

lemma action_from_str_Some: "action_from_str s = Some a \<longleftrightarrow> s = action_as_str a"
proof
  assume "action_from_str s = Some a"
  then show "s = action_as_str a" by (auto simp: action_from_str_def find_Some_iff)
qed simp

text \<open>No action name is a prefix of another one.\<close>

lemma action_prefix_free: "action_as_str a @ xs = action_as_str b @ ys \<longleftrightarrow> a = b \<and> xs = ys"
  by (cases a; cases b) auto

lemma action_as_str_inj [simp]: "action_as_str a = action_as_str b \<longleftrightarrow> a = b"
  using action_prefix_free [of a "[]" b "[]"] by simp

lemma to_storage_precision_idem [simp]: "to_storage_precision (to_storage_precision t) = to_storage_precision t"
  by (simp add: to_storage_precision_def minus_mod_eq_mult_div)

lemma compute_hash_norm:
  assumes "json_norm (ent_detail e') = json_norm (ent_detail e)"
    and "e\<lparr>ent_detail := ent_detail e', ent_hash := ent_hash e', ent_created_at := ent_created_at e'\<rparr> = e'"
    and "to_storage_precision (ent_created_at e') = to_storage_precision (ent_created_at e)"
  shows "compute_hash env e' = compute_hash env e"
proof -
  have "canonical_json env (ent_detail e') = canonical_json env (ent_detail e)"
    using assms(1) by (rule canonical_json_cong)
  moreover have "hash_input env e' t = hash_input env e t" for t
    using assms(3) by (subst assms(2) [symmetric]) (simp add: hash_input_def prev_bytes_def)
  ultimately show ?thesis by (simp add: compute_hash_def split: sum.splits)
qed

text \<open>
  A JSONB column gives a value back with its keys in another order and its numbers in the notation of
  \<^verbatim>\<open>numeric\<close>: integers as they were written, but \<^verbatim>\<open>1e16\<close> as \<^verbatim>\<open>10000000000000000\<close>. Values without other
  numbers and without duplicate keys come back with the same canonical form.
\<close>

definition integer_text :: "string \<Rightarrow> bool" where
  "integer_text n \<longleftrightarrow> n = ''0'' \<or>
     (let ds = (if take 1 n = ''-'' then drop 1 n else n)
      in ds \<noteq> [] \<and> list_all is_ascii_digit ds \<and> hd ds \<noteq> CHR ''0'')"

primrec plain_json :: "json \<Rightarrow> bool" where
  "plain_json JNull = True"
| "plain_json (JBool b) = True"
| "plain_json (JNumber n) = integer_text n"
| "plain_json (JString s) = True"
| "plain_json (JArray vs) = list_all (\<lambda>b. b) (map plain_json vs)"
| "plain_json (JObject m) = (distinct (map fst m) \<and> list_all snd (map (map_prod (\<lambda>k. k) plain_json) m))"

definition jsonb_ok :: "audit_env \<Rightarrow> bool" where
  "jsonb_ok env \<longleftrightarrow> (\<forall>v. plain_json v \<longrightarrow> json_norm (jsonb env v) = json_norm v)"

definition row_valid :: "audit_env \<Rightarrow> audit_row \<Rightarrow> bool" where
  "row_valid env r \<longleftrightarrow> (\<exists>e. row_to_audit_entry r = Ok e \<and> compute_hash env e = Ok (row_hash r))"

lemma row_to_audit_entry_Ok:
  "row_to_audit_entry r = Ok e \<longleftrightarrow>
     r = \<lparr>row_community_id = ent_community_id e, row_seq = ent_seq e, row_hash = ent_hash e,
      row_prev_hash = ent_prev_hash e, row_action = action_as_str (ent_action e),
      row_actor_pubkey = ent_actor_pubkey e, row_object_id = ent_object_id e,
      row_detail = ent_detail e, row_created_at = ent_created_at e\<rparr>"
  by (cases r; cases e) (auto simp: row_to_audit_entry_def action_from_str_Some split: option.splits)

text \<open>What was stored verifies: the stored form has the hash of the entry it was made from.\<close>

lemma stored_row_valid:
  assumes "jsonb_ok env" and "plain_json (ent_detail e)" and "compute_hash env e = Ok (ent_hash e)"
  shows "row_valid env (row_of env e)"
proof -
  let ?e = "e\<lparr>ent_detail := jsonb env (ent_detail e), ent_created_at := to_storage_precision (ent_created_at e)\<rparr>"
  have "row_to_audit_entry (row_of env e) = Ok ?e"
    by (simp add: row_to_audit_entry_Ok row_of_def)
  moreover have "compute_hash env ?e = compute_hash env e"
    by (rule compute_hash_norm) (use assms(1,2) in \<open>simp_all add: jsonb_ok_def\<close>)
  ultimately show ?thesis using assms(3) by (simp add: row_valid_def row_of_def)
qed

lemma verify_rows_Ok:
  "verify_rows env p rs = Ok v \<longleftrightarrow>
     v \<and> (\<forall>r \<in> set rs. row_valid env r) \<and> (p \<noteq> None \<and> rs \<noteq> [] \<longrightarrow> row_prev_hash (hd rs) = p) \<and>
     (\<forall>i. Suc i < length rs \<longrightarrow> row_prev_hash (rs ! Suc i) = Some (row_hash (rs ! i)))"
proof (induction rs arbitrary: p)
  case (Cons r rs)
  have fields: "ent_hash e = row_hash r" "ent_prev_hash e = row_prev_hash r" if "row_to_audit_entry r = Ok e" for e
    using that by (auto simp: row_to_audit_entry_Ok)
  have "verify_rows env p (r # rs) = Ok v \<longleftrightarrow>
      row_valid env r \<and> (p \<noteq> None \<longrightarrow> row_prev_hash r = p) \<and> verify_rows env (Some (row_hash r)) rs = Ok v"
    by (cases "row_to_audit_entry r") (auto simp: row_valid_def fields split: if_splits)
  also have "\<dots> \<longleftrightarrow> v \<and> (\<forall>x \<in> set (r # rs). row_valid env x) \<and> (p \<noteq> None \<longrightarrow> row_prev_hash r = p) \<and>
      (rs \<noteq> [] \<longrightarrow> row_prev_hash (hd rs) = Some (row_hash r)) \<and>
      (\<forall>i. Suc i < length rs \<longrightarrow> row_prev_hash (rs ! Suc i) = Some (row_hash (rs ! i)))"
    by (subst Cons.IH) auto
  also have "(rs \<noteq> [] \<longrightarrow> row_prev_hash (hd rs) = Some (row_hash r)) \<and>
      (\<forall>i. Suc i < length rs \<longrightarrow> row_prev_hash (rs ! Suc i) = Some (row_hash (rs ! i))) \<longleftrightarrow>
      (\<forall>i. Suc i < length (r # rs) \<longrightarrow> row_prev_hash ((r # rs) ! Suc i) = Some (row_hash ((r # rs) ! i)))"
    by (cases rs) (auto simp: nth_Cons split: nat.splits)
  finally show ?case by auto
qed auto

section \<open>Chains\<close>

definition chain_ok :: "audit_env \<Rightarrow> audit_row list \<Rightarrow> bool" where
  "chain_ok env rs \<longleftrightarrow>
     map row_seq rs = map int [1..<Suc (length rs)] \<and> (\<forall>r \<in> set rs. row_valid env r) \<and>
     (rs \<noteq> [] \<longrightarrow> row_prev_hash (hd rs) = None) \<and>
     (\<forall>i. Suc i < length rs \<longrightarrow> row_prev_hash (rs ! Suc i) = Some (row_hash (rs ! i)))"

lemma chain_ok_seq: "chain_ok env rs \<Longrightarrow> i < length rs \<Longrightarrow> row_seq (rs ! i) = int i + 1"
proof -
  assume "chain_ok env rs" "i < length rs"
  then have "map row_seq rs ! i = map int [1..<Suc (length rs)] ! i" by (simp add: chain_ok_def)
  with \<open>i < length rs\<close> show ?thesis by (simp del: upt_Suc)
qed

lemma chain_ok_sorted:
  assumes "chain_ok env rs"
  shows "sorted (map row_seq rs)" and "inj_on row_seq (set rs)"
proof -
  have a: "map row_seq rs = map int [1..<Suc (length rs)]" using assms by (simp only: chain_ok_def)
  have "sorted (map int [1..<Suc (length rs)])" by (simp add: sorted_iff_nth_mono del: upt_Suc)
  moreover have "distinct (map row_seq rs)" unfolding a by (simp add: distinct_map del: upt_Suc)
  ultimately show "sorted (map row_seq rs)" "inj_on row_seq (set rs)"
    unfolding a [symmetric] by (simp_all add: distinct_map)
qed

lemma chain_head_ok:
  assumes "chain_ok env (rows_of c db)"
  shows "chain_head c db =
    (if rows_of c db = [] then None else Some (int (length (rows_of c db)), row_hash (last (rows_of c db))))"
proof (cases "rows_of c db = []")
  case False
  let ?rs = "rows_of c db"
  note s = chain_ok_sorted [OF assms]
  have "sorted (map (\<lambda>r. - row_seq r) (rev ?rs))"
    using s(1) by (simp add: sorted_iff_nth_mono rev_nth)
  then have "sort_key (\<lambda>r. - row_seq r) ?rs = rev ?rs"
    using s(2) by (intro sort_key_inj_key_eq) (auto simp: inj_on_def)
  moreover have "rev ?rs = last ?rs # rev (butlast ?rs)"
    using False by (metis append_butlast_last_id rev.simps(2) rev_rev_ident rev_append rev_singleton_conv append.simps)
  moreover have "row_seq (last ?rs) = int (length ?rs)"
    using chain_ok_seq [OF assms, of "length ?rs - 1"] False by (cases "length ?rs") (simp_all add: last_conv_nth)
  ultimately show ?thesis using False by (simp add: chain_head_def)
qed (simp add: chain_head_def)

lemma filter_seq_range:
  "map row_seq rs = map int [1..<Suc (length rs)] \<Longrightarrow>
     filter (\<lambda>r. a \<le> row_seq r \<and> row_seq r \<le> b) rs = drop (nat (a - 1)) (take (nat b) rs)"
proof (induction rs rule: rev_induct)
  case (snoc r rs)
  then have "map row_seq rs = map int [1..<Suc (length rs)]" and r: "row_seq r = int (length rs) + 1"
    by simp_all
  with snoc.IH have "filter (\<lambda>r. a \<le> row_seq r \<and> row_seq r \<le> b) (rs @ [r]) =
      drop (nat (a - 1)) (take (nat b) rs) @ (if a \<le> int (length rs) + 1 \<and> int (length rs) + 1 \<le> b then [r] else [])"
    by simp
  also have "\<dots> = drop (nat (a - 1)) (take (nat b) (rs @ [r]))"
  proof (cases "int (length rs) + 1 \<le> b")
    case True
    then have "nat b - length rs = Suc (nat b - length rs - 1)" by linarith
    then have "take (nat b) (rs @ [r]) = rs @ [r]" "take (nat b) rs = rs" using True by (auto simp: take_Cons')
    then show ?thesis using True by (auto simp: drop_Cons')
  next
    case False
    then have "take (nat b) (rs @ [r]) = take (nat b) rs" by simp
    then show ?thesis using False by simp
  qed
  finally show ?case .
qed simp

lemma select_range_ok:
  "chain_ok env (rows_of c db) \<Longrightarrow> select_range c a b db = drop (nat (a - 1)) (take (nat b) (rows_of c db))"
proof -
  assume ok: "chain_ok env (rows_of c db)"
  let ?rs = "drop (nat (a - 1)) (take (nat b) (rows_of c db))"
  have f: "filter (\<lambda>r. a \<le> row_seq r \<and> row_seq r \<le> b) (rows_of c db) = ?rs"
    using ok by (intro filter_seq_range) (simp add: chain_ok_def)
  from chain_ok_sorted(1) [OF ok] have "sorted (map row_seq ?rs)" by (simp add: sorted_wrt_drop sorted_wrt_take flip: drop_map take_map)
  then show ?thesis unfolding select_range_def f by (rule sort_key_id_if_sorted)
qed

lemma verify_chain_ok:
  assumes "chain_ok env (rows_of c db)"
  shows "verify_chain env c a b db = Ok (max 1 a \<le> min b (int (length (rows_of c db))))"
proof -
  let ?rs = "drop (nat (a - 1)) (take (nat b) (rows_of c db))"
  have e: "?rs = [] \<longleftrightarrow> \<not> max 1 a \<le> min b (int (length (rows_of c db)))" by auto
  have "\<forall>r \<in> set ?rs. row_valid env r"
    using assms by (auto simp: chain_ok_def dest!: in_set_dropD in_set_takeD)
  moreover have "row_prev_hash (?rs ! Suc i) = Some (row_hash (?rs ! i))" if "Suc i < length ?rs" for i
  proof -
    have "?rs ! i = rows_of c db ! (nat (a - 1) + i)" "?rs ! Suc i = rows_of c db ! Suc (nat (a - 1) + i)"
      using that by (simp_all add: nth_drop min_def split: if_splits)
    moreover have "Suc (nat (a - 1) + i) < length (rows_of c db)" using that by simp
    ultimately show ?thesis using assms unfolding chain_ok_def by simp
  qed
  ultimately have "verify_rows env None ?rs = Ok True" by (subst verify_rows_Ok) auto
  then show ?thesis using e by (simp add: verify_chain_def select_range_ok [OF assms] Let_def)
qed

section \<open>Appending keeps the chains\<close>

lemma next_seq_plain: "- (2 ^ 63) \<le> s + 1 \<Longrightarrow> s + 1 < 2 ^ 63 \<Longrightarrow> next_seq s = s + 1"
  by (simp add: next_seq_def)

lemma next_entry_Ok:
  assumes "next_entry env now head entry = Ok e"
  shows "ent_community_id e = new_community_id entry \<and> ent_prev_hash e = map_option snd head \<and>
    ent_seq e = next_seq (case head of None \<Rightarrow> 0 | Some (s, h) \<Rightarrow> s) \<and> compute_hash env e = Ok (ent_hash e) \<and>
    ent_detail e = new_detail entry"
proof -
  have same: "compute_hash env (x\<lparr>ent_hash := h\<rparr>) = compute_hash env x" for x h
    by (simp add: compute_hash_def hash_input_def prev_bytes_def split: sum.splits)
  obtain x h where "compute_hash env x = Ok h" "e = x\<lparr>ent_hash := h\<rparr>"
    "ent_community_id x = new_community_id entry" "ent_prev_hash x = map_option snd head"
    "ent_seq x = next_seq (case head of None \<Rightarrow> 0 | Some (s, h) \<Rightarrow> s)" "ent_detail x = new_detail entry"
    using assms by (cases head) (auto simp: next_entry_def Let_def simp del: audit_entry.update_convs)
  then show ?thesis by (simp add: same)
qed

lemma rows_of_append: "rows_of c (db\<lparr>audit_log := audit_log db @ [r]\<rparr>) = rows_of c db @ (if row_community_id r = c then [r] else [])"
  by (simp add: rows_of_def)

text \<open>A failing append leaves the table as it is; a successful one adds one row of its community.\<close>

lemma log_after_head_cases:
  assumes "log_after_head env now head entry db = (r, db')"
  obtains "\<exists>err. r = Err err" "db' = db"
  | e where "r = Ok e" "next_entry env now head entry = Ok e" "db' = db\<lparr>audit_log := audit_log db @ [row_of env e]\<rparr>"
proof (cases "next_entry env now head entry")
  case (Inl err)
  with assms have "r = Err err" "db' = db" by (auto simp: log_after_head_def)
  then show ?thesis by (intro that(1)) auto
next
  case (Inr e)
  with assms show ?thesis
    by (auto simp: log_after_head_def insert_row_def split: if_splits intro: that(1) that(2) [OF _ Inr])
qed

lemma chain_ok_snoc:
  assumes "chain_ok env rs" and "row_seq r = int (length rs) + 1" and "row_valid env r"
    and "row_prev_hash r = (if rs = [] then None else Some (row_hash (last rs)))"
  shows "chain_ok env (rs @ [r])"
proof -
  have "row_prev_hash ((rs @ [r]) ! Suc i) = Some (row_hash ((rs @ [r]) ! i))" if "Suc i < length (rs @ [r])" for i
  proof (cases "Suc i < length rs")
    case True
    then show ?thesis using assms(1) by (simp add: chain_ok_def nth_append)
  next
    case False
    with that have "i = length rs - 1" "rs \<noteq> []" by auto
    then show ?thesis using assms(4) by (simp add: nth_append last_conv_nth)
  qed
  then show ?thesis
    using assms(1-4) unfolding chain_ok_def by (cases "rs = []") (auto simp: hd_append)
qed

lemma chain_ok_append:
  assumes "jsonb_ok env" and "chain_ok env (rows_of c db)" and "int (length (rows_of c db)) + 1 < 2 ^ 63"
    and "next_entry env now (chain_head c db) entry = Ok e" and "new_community_id entry = c" and "plain_json (new_detail entry)"
  shows "chain_ok env (rows_of c db @ [row_of env e])"
proof -
  note n = next_entry_Ok [OF assms(4)] and h = chain_head_ok [OF assms(2)]
  have "ent_seq e = int (length (rows_of c db)) + 1"
    using n assms(3) by (auto simp: h next_seq_plain split: if_splits)
  moreover have "ent_prev_hash e = (if rows_of c db = [] then None else Some (row_hash (last (rows_of c db))))"
    using n by (simp add: h)
  moreover have "row_valid env (row_of env e)" using n assms(1,6) by (auto intro: stored_row_valid)
  ultimately show ?thesis using assms(2) by (intro chain_ok_snoc) (simp_all add: row_of_def)
qed

section \<open>Any interleaving of relay processes\<close>

text \<open>A step that begins to log an entry of the community \<open>c\<close> brings a plain detail.\<close>

fun logs_plain :: "uuid \<Rightarrow> audit_event \<Rightarrow> bool" where
  "logs_plain c (TakeLock w e) \<longleftrightarrow> (new_community_id e = c \<longrightarrow> plain_json (new_detail e))"
| "logs_plain c _ \<longleftrightarrow> True"

definition audit_inv :: "audit_env \<Rightarrow> uuid \<Rightarrow> audit_system \<Rightarrow> bool" where
  "audit_inv env c s \<longleftrightarrow>
     (\<forall>w e. session_entry (sys_sessions s w) = Some e \<longrightarrow> new_community_id e = c \<longrightarrow> plain_json (new_detail e)) \<and>
     (\<forall>w e. session_entry (sys_sessions s w) = Some e \<longrightarrow> sys_locks s (lock_key env (new_community_id e)) = Some w) \<and>
     (\<forall>w e h. sys_sessions s w = HeadRead e h \<longrightarrow> h = chain_head (new_community_id e) (sys_db s)) \<and>
     (int (length (rows_of c (sys_db s))) < 2 ^ 63 \<longrightarrow> chain_ok env (rows_of c (sys_db s)))"

lemma audit_inv_locks: "audit_inv env c0 s \<Longrightarrow> session_entry (sys_sessions s w) = Some e \<Longrightarrow>
    sys_locks s (lock_key env (new_community_id e)) = Some w"
  by (simp add: audit_inv_def)

lemma audit_inv_plain: "audit_inv env c0 s \<Longrightarrow> session_entry (sys_sessions s w) = Some e \<Longrightarrow> new_community_id e = c0 \<Longrightarrow>
    plain_json (new_detail e)"
  by (simp add: audit_inv_def)

lemma audit_inv_release:
  assumes i: "audit_inv env c0 s" and w: "session_entry (sys_sessions s w) = Some e"
  shows "audit_inv env c0 (s\<lparr>sys_locks := (sys_locks s)(lock_key env (new_community_id e) := None),
          sys_sessions := (sys_sessions s)(w := Free)\<rparr>)"
proof -
  have "lock_key env (new_community_id e') \<noteq> lock_key env (new_community_id e)"
    if "session_entry (sys_sessions s w') = Some e'" "w' \<noteq> w" for w' e'
    using audit_inv_locks [OF i w] audit_inv_locks [OF i that(1)] that(2) by auto
  then show ?thesis using i by (auto simp: audit_inv_def)
qed

lemma chain_head_other: "rows_of c db' = rows_of c db \<Longrightarrow> chain_head c db' = chain_head c db"
  by (simp add: chain_head_def)

lemma audit_inv_commit:
  assumes i: "audit_inv env c0 s" and json: "jsonb_ok env" and w: "sys_sessions s w = HeadRead e h"
    and l: "log_after_head env now h e (sys_db s) = (r, db)"
  shows "audit_inv env c0 (s\<lparr>sys_db := db, sys_sessions := (sys_sessions s)(w := Finished e r)\<rparr>)"
proof (rule log_after_head_cases [OF l])
  assume "db = sys_db s"
  then show ?thesis using i w audit_inv_plain [OF i, of w e] by (auto simp: audit_inv_def)
next
  fix e1
  assume n: "next_entry env now h e = Ok e1"
    and db: "db = sys_db s\<lparr>audit_log := audit_log (sys_db s) @ [row_of env e1]\<rparr>"
  let ?c = "new_community_id e"
  have c: "row_community_id (row_of env e1) = ?c" using next_entry_Ok [OF n] by (simp add: row_of_def)
  have h: "h = chain_head ?c (sys_db s)" using i w unfolding audit_inv_def by blast
  have rows: "rows_of c db = rows_of c (sys_db s) @ (if ?c = c then [row_of env e1] else [])" for c
    by (simp add: db rows_of_append c)
  have plain: "?c = c0 \<longrightarrow> plain_json (new_detail e)" using audit_inv_plain [OF i, of w e] w by simp
  have "chain_ok env (rows_of c0 db)" if "int (length (rows_of c0 db)) < 2 ^ 63"
    using i that json n plain chain_ok_append [of env ?c "sys_db s" now e e1] by (auto simp: audit_inv_def rows h)
  moreover have "h' = chain_head (new_community_id e') db"
    if "w' \<noteq> w" "sys_sessions s w' = HeadRead e' h'" for w' e' h'
  proof -
    have "lock_key env (new_community_id e') \<noteq> lock_key env ?c"
      using audit_inv_locks [OF i, of w e] audit_inv_locks [OF i, of w' e'] w that by auto
    then have "rows_of (new_community_id e') db = rows_of (new_community_id e') (sys_db s)" by (auto simp: rows)
    then have "chain_head (new_community_id e') db = chain_head (new_community_id e') (sys_db s)"
      by (rule chain_head_other)
    moreover have "h' = chain_head (new_community_id e') (sys_db s)"
      using i that(2) unfolding audit_inv_def by blast
    ultimately show ?thesis by simp
  qed
  ultimately show ?thesis using i w plain by (auto simp: audit_inv_def)
qed

lemma audit_inv_step:
  assumes i: "audit_inv env c0 s" and json: "jsonb_ok env" and "audit_step env s l t" and "logs_plain c0 l"
  shows "audit_inv env c0 t"
  using assms(3)
proof cases
  case (take_lock w e)
  then have "lock_key env (new_community_id e') \<noteq> lock_key env (new_community_id e)"
    if "session_entry (sys_sessions s w') = Some e'" for w' e'
    using audit_inv_locks [OF i that] by auto
  then show ?thesis using i assms(4) take_lock(1) unfolding take_lock(2) by (auto simp: audit_inv_def)
next
  case (read_head w e)
  then show ?thesis using i audit_inv_locks [OF i, of w e] audit_inv_plain [OF i, of w e] by (auto simp: audit_inv_def)
next
  case (commit w e h now r db)
  then show ?thesis using audit_inv_commit [OF i json] by simp
next
  case (statement_fails w e h msg)
  then have "session_entry (sys_sessions s w) = Some e" by auto
  from audit_inv_locks [OF i this] audit_inv_plain [OF i this] show ?thesis using i statement_fails by (auto simp: audit_inv_def)
next
  case (release_lock w e r)
  then show ?thesis using audit_inv_release [OF i, of w e] by simp
next
  case (session_lost w e)
  then show ?thesis using audit_inv_release [OF i, of w e] by simp
qed

text \<open>A concrete environment and log.\<close>

definition sample_env :: audit_env where
  "sample_env =
     \<lparr>sha256 = (\<lambda>x. replicate 32 (CHR ''h'')),
      to_rfc3339 = (\<lambda>t. replicate (nat t) (CHR ''a'') @ replicate (nat (- t)) (CHR ''b'') @ ''+00:00''),
      json_text = (\<lambda>v. case v of JNumber n \<Rightarrow> Ok n | JString x \<Rightarrow> Ok x | _ \<Rightarrow> Ok ''null''),
      uuid_octets = (\<lambda>c. take 16 (c @ replicate 16 (CHR ''x''))), jsonb = (\<lambda>v. v), lock_key = (\<lambda>c. 0)\<rparr>"

definition sample_new :: new_audit_entry where
  "sample_new = \<lparr>new_community_id = ''c'', new_action = MemberAdded, new_actor_pubkey = None,
     new_object_id = Some ''x'', new_detail = JNumber ''12''\<rparr>"

definition sample_row :: "string \<Rightarrow> string \<Rightarrow> audit_row" where
  "sample_row obj num = \<lparr>row_community_id = ''c'', row_seq = 1, row_hash = replicate 32 (CHR ''h''), row_prev_hash = None,
     row_action = ''member_added'', row_actor_pubkey = None, row_object_id = Some obj, row_detail = JNumber num,
     row_created_at = 5000\<rparr>"

definition sample_db :: "audit_row list \<Rightarrow> audit_db" where
  "sample_db rs = \<lparr>communities = {''c''}, audit_log = rs\<rparr>"

lemma sample_jsonb: "jsonb_ok sample_env"
  by (simp add: jsonb_ok_def sample_env_def)

lemma sample_log: "snd (log_inner sample_env 5432 sample_new (sample_db [])) = sample_db [sample_row ''x'' ''12'']"
  by (simp add: log_inner_def log_after_head_def chain_head_def rows_of_def next_entry_def compute_hash_def insert_row_def
      sample_env_def sample_new_def sample_db_def sample_row_def next_seq_def log_timestamp_def to_storage_precision_def
      row_of_def)

interpretation audit: invariant_system audit_start "\<lambda>s l t. audit_step env s l t \<and> logs_plain c l" "\<lambda>s. jsonb_ok env \<longrightarrow> audit_inv env c s" for env c
proof unfold_locales
  fix s
  assume "audit_start s"
  then show "jsonb_ok env \<longrightarrow> audit_inv env c s"
    by (auto simp: audit_start_def audit_inv_def rows_of_def chain_ok_def)
qed (auto intro: audit_inv_step)

text \<open>
  C30: The audit log verifies. Whatever the interleaving of any number of relay processes, with failing
  statements and lost sessions, the rows of a community whose logged details contain no numbers but integers and no
  duplicate keys are numbered from one without gaps, each row refers to the hash of the row before it, and verifying any
  range succeeds, with \<open>true\<close> exactly if the range contains a row. Of the JSONB column only this is assumed: such
  a value comes back as it was up to the order of its keys.
\<close>

theorem audit_log_verifies:
  assumes "jsonb_ok env" and "audit_start s0" and "run (audit_step env) s0 ls s"
    and "\<forall>w e. TakeLock w e \<in> set ls \<longrightarrow> new_community_id e = c \<longrightarrow> plain_json (new_detail e)"
    and "int (length (rows_of c (sys_db s))) < 2 ^ 63"
  shows "verify_chain env c from_seq to_seq (sys_db s) =
      Ok (max 1 from_seq \<le> min to_seq (int (length (rows_of c (sys_db s))))) \<and>
    (\<forall>i < length (rows_of c (sys_db s)).
       row_seq (rows_of c (sys_db s) ! i) = int i + 1 \<and>
       row_prev_hash (rows_of c (sys_db s) ! i) =
         (if i = 0 then None else Some (row_hash (rows_of c (sys_db s) ! (i - 1)))))"
proof -
  have "logs_plain c l" if "l \<in> set ls" for l using assms(4) that by (cases l) auto
  then have "run (\<lambda>s l t. audit_step env s l t \<and> logs_plain c l) s0 ls s" using assms(3) by (intro run_restrict) auto
  then have "audit_inv env c s" using audit.run_inv audit.start_inv assms(1,2) by blast
  then have ok: "chain_ok env (rows_of c (sys_db s))" using assms(5) by (simp add: audit_inv_def)
  have "row_prev_hash (rows_of c (sys_db s) ! i) =
      (if i = 0 then None else Some (row_hash (rows_of c (sys_db s) ! (i - 1))))"
    if "i < length (rows_of c (sys_db s))" for i
  proof (cases i)
    case 0
    then show ?thesis using ok that by (simp add: chain_ok_def hd_conv_nth)
  next
    case (Suc j)
    then show ?thesis using ok that by (simp add: chain_ok_def)
  qed
  then show ?thesis using verify_chain_ok [OF ok] chain_ok_seq [OF ok] by simp
qed

text \<open>One session that runs alone does what \<open>log_inner\<close> says.\<close>

lemma log_run:
  assumes "sys_sessions s w = Free" and "sys_locks s (lock_key env (new_community_id e)) = None"
    and "log_inner env now e (sys_db s) = (r, db)"
  shows "run (audit_step env) s [TakeLock w e, ReadHead w, Commit w now, ReleaseLock w] (s\<lparr>sys_db := db\<rparr>)"
proof -
  let ?k = "lock_key env (new_community_id e)"
  define s1 where "s1 = s\<lparr>sys_locks := (sys_locks s)(?k \<mapsto> w), sys_sessions := (sys_sessions s)(w := Locked e)\<rparr>"
  define s2 where "s2 = s1\<lparr>sys_sessions := (sys_sessions s1)(w := HeadRead e (chain_head (new_community_id e) (sys_db s1)))\<rparr>"
  define s3 where "s3 = s2\<lparr>sys_db := db, sys_sessions := (sys_sessions s2)(w := Finished e r)\<rparr>"
  have "audit_step env s (TakeLock w e) s1" unfolding s1_def using assms(1,2) by (rule take_lock)
  moreover have "audit_step env s1 (ReadHead w) s2" unfolding s2_def by (rule read_head) (simp add: s1_def)
  moreover have "audit_step env s2 (Commit w now) s3"
    unfolding s3_def using assms(3) by (intro commit) (auto simp: s2_def s1_def log_inner_def)
  moreover have "audit_step env s3 (ReleaseLock w)
      (s3\<lparr>sys_locks := (sys_locks s3)(?k := None), sys_sessions := (sys_sessions s3)(w := Free)\<rparr>)"
    by (rule release_lock) (simp add: s3_def)
  moreover have "s3\<lparr>sys_locks := (sys_locks s3)(?k := None), sys_sessions := (sys_sessions s3)(w := Free)\<rparr> = s\<lparr>sys_db := db\<rparr>"
  proof -
    have "((sys_locks s)(?k := None)) = sys_locks s" "((sys_sessions s)(w := Free)) = sys_sessions s"
      using assms(1,2) by (auto simp: fun_eq_iff)
    then show ?thesis by (simp add: s3_def s2_def s1_def)
  qed
  ultimately show ?thesis by (simp add: run_Cons_simps) blast
qed

theorem audit_log_verifies_witness:
  "verify_chain sample_env ''c'' 1 1 (snd (log_inner sample_env 5432 sample_new (sample_db []))) = Ok True"
proof -
  define s0 where "s0 = \<lparr>sys_db = sample_db [], sys_locks = Map.empty, sys_sessions = (\<lambda>w. Free)\<rparr>"
  obtain r db where l: "log_inner sample_env 5432 sample_new (sys_db s0) = (r, db)" by fastforce
  then have db: "db = sample_db [sample_row ''x'' ''12'']" using sample_log by (simp add: s0_def)
  have start: "audit_start s0" by (simp add: audit_start_def s0_def sample_db_def)
  have run: "run (audit_step sample_env) s0 [TakeLock 0 sample_new, ReadHead 0, Commit 0 5432, ReleaseLock 0] (s0\<lparr>sys_db := db\<rparr>)"
    by (rule log_run [OF _ _ l]) (simp_all add: s0_def)
  have plain: "plain_json (new_detail sample_new)"
    by (simp add: sample_new_def integer_text_def is_ascii_digit_def less_eq_char_def)
  have "length (rows_of ''c'' db) = 1" by (simp add: db rows_of_def sample_db_def sample_row_def)
  then show ?thesis using audit_log_verifies [OF sample_jsonb start run, of "''c''" 1 1] plain
    by (simp add: sample_log db)
qed

section \<open>Tampering\<close>

text \<open>
  What the formats of other packages promise: digests have 32 bytes, UUIDs 16, and a timestamp
  ends in the offset of UTC, with the only plus sign of its text, and determines the time.
\<close>

definition formats_ok :: "audit_env \<Rightarrow> bool" where
  "formats_ok env \<longleftrightarrow>
     (\<forall>x. length (sha256 env x) = 32) \<and> (\<forall>c. length (uuid_octets env c) = 16) \<and>
     (\<forall>t. \<exists>body. to_rfc3339 env t = body @ ''+00:00'' \<and> CHR ''+'' \<notin> set body) \<and> inj (to_rfc3339 env)"

definition key_sized :: "string option \<Rightarrow> bool" where
  "key_sized x \<longleftrightarrow> (case x of None \<Rightarrow> True | Some k \<Rightarrow> length k = 32)"

text \<open>
  What the hash determines of any entry: community, number, time and action, and the bytes of actor, object, detail
  and predecessor in one piece.
\<close>

definition same_fields :: "audit_env \<Rightarrow> audit_entry \<Rightarrow> audit_entry \<Rightarrow> bool" where
  "same_fields env e e' \<longleftrightarrow>
     uuid_octets env (ent_community_id e) = uuid_octets env (ent_community_id e') \<and>
     ent_seq e mod 2 ^ 64 = ent_seq e' mod 2 ^ 64 \<and>
     to_storage_precision (ent_created_at e) = to_storage_precision (ent_created_at e') \<and>
     ent_action e = ent_action e' \<and>
     (\<exists>t t'. canonical_json env (ent_detail e) = Ok t \<and> canonical_json env (ent_detail e') = Ok t' \<and>
        tagged (ent_actor_pubkey e) @ tagged (ent_object_id e) @ t @ prev_bytes e =
        tagged (ent_actor_pubkey e') @ tagged (ent_object_id e') @ t' @ prev_bytes e')"

text \<open>
  With keys of 32 bytes also the actor and the predecessor, and the object with the text of the detail appended to it.
\<close>

definition same_record :: "audit_env \<Rightarrow> audit_entry \<Rightarrow> audit_entry \<Rightarrow> bool" where
  "same_record env e e' \<longleftrightarrow>
     uuid_octets env (ent_community_id e) = uuid_octets env (ent_community_id e') \<and>
     ent_seq e mod 2 ^ 64 = ent_seq e' mod 2 ^ 64 \<and>
     to_storage_precision (ent_created_at e) = to_storage_precision (ent_created_at e') \<and>
     ent_action e = ent_action e' \<and> ent_actor_pubkey e = ent_actor_pubkey e' \<and>
     prev_bytes e = prev_bytes e' \<and>
     (\<exists>t t'. canonical_json env (ent_detail e) = Ok t \<and> canonical_json env (ent_detail e') = Ok t' \<and>
        tagged (ent_object_id e) @ t = tagged (ent_object_id e') @ t')"

lemma be_bytes_inj: "m < 256 ^ k \<Longrightarrow> n < 256 ^ k \<Longrightarrow> be_bytes k m = be_bytes k n \<longleftrightarrow> m = n"
proof (induction k arbitrary: m n)
  case (Suc k)
  have "m div 256 < 256 ^ k" "n div 256 < 256 ^ k" using Suc.prems by (auto simp: less_mult_imp_div_less mult.commute)
  with Suc.IH have "be_bytes k (m div 256) = be_bytes k (n div 256) \<longleftrightarrow> m div 256 = n div 256" by blast
  moreover have "(char_of (m mod 256) :: char) = char_of (n mod 256) \<longleftrightarrow> m mod 256 = n mod 256"
    by (metis of_char_of mod_mod_trivial)
  ultimately show ?case by (metis be_bytes.simps(2) append1_eq_conv div_mult_mod_eq)
qed simp

lemma length_be_bytes [simp]: "length (be_bytes k n) = k"
  by (induction k arbitrary: n) auto

lemma i64_bytes_eq: "i64_bytes i = i64_bytes j \<longleftrightarrow> i mod 2 ^ 64 = j mod 2 ^ 64"
proof -
  have "nat (x mod 2 ^ 64) < 256 ^ 8" for x :: int by (simp add: nat_less_iff)
  then show ?thesis by (auto simp: i64_bytes_def be_bytes_inj nat_eq_iff2 simp del: be_bytes.simps)
qed

lemma rfc3339_prefix_free:
  assumes "formats_ok env"
  shows "to_rfc3339 env t @ xs = to_rfc3339 env u @ ys \<longleftrightarrow> t = u \<and> xs = ys"
proof -
  obtain a b where "to_rfc3339 env t = a @ ''+00:00''" "CHR ''+'' \<notin> set a"
    "to_rfc3339 env u = b @ ''+00:00''" "CHR ''+'' \<notin> set b"
    using assms unfolding formats_ok_def by metis
  moreover have "to_rfc3339 env t = to_rfc3339 env u \<longleftrightarrow> t = u" using assms by (simp add: formats_ok_def inj_eq)
  ultimately show ?thesis by (auto simp: append_sep_inj)
qed

lemma tagged_key_inj:
  "key_sized x \<Longrightarrow> key_sized y \<Longrightarrow> tagged x @ xs = tagged y @ ys \<longleftrightarrow> x = y \<and> xs = ys"
  by (auto simp: tagged_def key_sized_def split: option.splits)

lemma hash_input_fields:
  assumes f: "formats_ok env" and eq: "hash_input env e t = hash_input env e' t'"
    and j: "canonical_json env (ent_detail e) = Ok t" "canonical_json env (ent_detail e') = Ok t'"
  shows "same_fields env e e'"
proof -
  have l: "length (uuid_octets env (ent_community_id e)) = length (uuid_octets env (ent_community_id e'))"
    "length (i64_bytes (ent_seq e)) = length (i64_bytes (ent_seq e'))"
    using f by (auto simp: formats_ok_def i64_bytes_def)
  note split_eq = append_eq_append_conv [OF disjI1 [OF l(1)]] append_eq_append_conv [OF disjI1 [OF l(2)]]
    rfc3339_prefix_free [OF f] action_prefix_free i64_bytes_eq
  show ?thesis using eq j by (simp add: same_fields_def hash_input_def split_eq)
qed

lemma same_fields_prev:
  assumes "same_fields env e e'" and "key_sized (ent_prev_hash e)" "key_sized (ent_prev_hash e')"
  shows "prev_bytes e = prev_bytes e'"
proof -
  have l: "length (prev_bytes e) = length (prev_bytes e')"
    using assms(2,3) by (auto simp: prev_bytes_def key_sized_def GENESIS_HASH_def split: option.splits)
  obtain t t' where "(tagged (ent_actor_pubkey e) @ tagged (ent_object_id e) @ t) @ prev_bytes e =
      (tagged (ent_actor_pubkey e') @ tagged (ent_object_id e') @ t') @ prev_bytes e'"
    using assms(1) by (auto simp: same_fields_def)
  then show ?thesis using append_eq_append_conv [OF disjI2 [OF l]] by blast
qed

lemma same_fields_record:
  assumes "same_fields env e e'" and k: "key_sized (ent_actor_pubkey e)" "key_sized (ent_actor_pubkey e')"
    and p: "key_sized (ent_prev_hash e)" "key_sized (ent_prev_hash e')"
  shows "same_record env e e'"
proof -
  note prev = same_fields_prev [OF assms(1) p]
  obtain t t' where t: "canonical_json env (ent_detail e) = Ok t" "canonical_json env (ent_detail e') = Ok t'"
      "tagged (ent_actor_pubkey e) @ tagged (ent_object_id e) @ t @ prev_bytes e =
       tagged (ent_actor_pubkey e') @ tagged (ent_object_id e') @ t' @ prev_bytes e'"
    using assms(1) unfolding same_fields_def by blast
  then have "ent_actor_pubkey e = ent_actor_pubkey e'" "(tagged (ent_object_id e) @ t) @ prev_bytes e = (tagged (ent_object_id e') @ t') @ prev_bytes e'"
    using tagged_key_inj [OF k] by simp_all
  then show ?thesis using assms(1) t(1,2) prev by (auto simp: same_record_def same_fields_def)
qed

definition entry_of :: "audit_row \<Rightarrow> audit_entry" where
  "entry_of r = (case row_to_audit_entry r of Inr e \<Rightarrow> e)"

text \<open>No two different inputs among the two lists of rows have the same digest.\<close>

definition collision_free :: "audit_env \<Rightarrow> audit_row list \<Rightarrow> audit_row list \<Rightarrow> bool" where
  "collision_free env rs rs' \<longleftrightarrow>
     (\<forall>r \<in> set rs. \<forall>r' \<in> set rs'. \<forall>t t'.
        canonical_json env (row_detail r) = Ok t \<longrightarrow> canonical_json env (row_detail r') = Ok t' \<longrightarrow>
        sha256 env (hash_input env (entry_of r) t) = sha256 env (hash_input env (entry_of r') t') \<longrightarrow>
        hash_input env (entry_of r) t = hash_input env (entry_of r') t')"

lemma row_valid_hash:
  assumes "row_valid env r"
  obtains t where "canonical_json env (row_detail r) = Ok t" "row_hash r = sha256 env (hash_input env (entry_of r) t)"
    "ent_detail (entry_of r) = row_detail r" "ent_prev_hash (entry_of r) = row_prev_hash r"
    "ent_actor_pubkey (entry_of r) = row_actor_pubkey r"
proof -
  obtain e where e: "row_to_audit_entry r = Ok e" and h: "compute_hash env e = Ok (row_hash r)"
    using assms by (auto simp: row_valid_def)
  have "row_detail r = ent_detail e" "row_prev_hash r = ent_prev_hash e" "row_actor_pubkey r = ent_actor_pubkey e"
    using e by (auto simp: row_to_audit_entry_Ok)
  moreover obtain t where "canonical_json env (ent_detail e) = Ok t" "row_hash r = sha256 env (hash_input env e t)"
    using h by (auto simp: compute_hash_def split: sum.splits)
  ultimately show ?thesis using that e by (simp add: entry_of_def)
qed

lemma row_valid_prev: "row_valid env r \<Longrightarrow> ent_prev_hash (entry_of r) = row_prev_hash r"
  by (erule row_valid_hash)

lemma same_hash_same_fields:
  assumes "formats_ok env" and "row_valid env r" "row_valid env r'"
    and "collision_free env rs rs'" "r \<in> set rs" "r' \<in> set rs'" and "row_hash r = row_hash r'"
  shows "same_fields env (entry_of r) (entry_of r')"
proof -
  from assms(2) obtain t where t: "canonical_json env (row_detail r) = Ok t"
    "row_hash r = sha256 env (hash_input env (entry_of r) t)" "ent_detail (entry_of r) = row_detail r"
    by (rule row_valid_hash)
  from assms(3) obtain t' where t': "canonical_json env (row_detail r') = Ok t'"
    "row_hash r' = sha256 env (hash_input env (entry_of r') t')" "ent_detail (entry_of r') = row_detail r'"
    by (rule row_valid_hash)
  have "hash_input env (entry_of r) t = hash_input env (entry_of r') t'"
    using assms(4-7) t(1,2) t'(1,2) unfolding collision_free_def by metis
  then show ?thesis using assms(1) t t' by (intro hash_input_fields) simp_all
qed

text \<open>A row after the first one has the digest of a row as its predecessor, so 32 bytes.\<close>

lemma linked_key_sized:
  assumes "formats_ok env" "verify_rows env None rs = Ok True" "Suc k < length rs"
  shows "ent_prev_hash (entry_of (rs ! Suc k)) = Some (row_hash (rs ! k)) \<and> key_sized (ent_prev_hash (entry_of (rs ! Suc k)))"
proof -
  have "row_valid env (rs ! k)" "row_valid env (rs ! Suc k)" "row_prev_hash (rs ! Suc k) = Some (row_hash (rs ! k))"
    using assms(2,3) unfolding verify_rows_Ok by auto
  then have "ent_prev_hash (entry_of (rs ! Suc k)) = Some (row_hash (rs ! k))" by (simp add: row_valid_prev)
  moreover obtain t where "row_hash (rs ! k) = sha256 env t" using \<open>row_valid env (rs ! k)\<close> by (rule row_valid_hash)
  ultimately show ?thesis using assms(1) by (simp add: key_sized_def formats_ok_def)
qed

text \<open>
  C31: Tampering is detected from a trusted head. If two versions of the log of a community verify
  over the same range, have as many rows there and the same last hash, and SHA-256 has no
  collision among them, then all rows have the same hashes, and each pair of rows agrees in community, number, time
  and action, in the predecessor except for the first pair, and in the bytes made of actor, object, detail and
  predecessor. Pairs whose actors have the 32 bytes of a key, and for the first pair the predecessors too, agree
  in actor and predecessor and in the text made of object and detail. The table does not enforce these lengths.
\<close>

theorem audit_tamper_evident:
  assumes f: "formats_ok env"
    and v: "verify_chain env c from_seq to_seq db = Ok True" "verify_chain env c from_seq to_seq db' = Ok True"
    and len: "length (select_range c from_seq to_seq db) = length (select_range c from_seq to_seq db')"
    and head: "row_hash (last (select_range c from_seq to_seq db)) = row_hash (last (select_range c from_seq to_seq db'))"
    and free: "collision_free env (select_range c from_seq to_seq db) (select_range c from_seq to_seq db')"
    and i: "i < length (select_range c from_seq to_seq db)"
    and e: "e = entry_of (select_range c from_seq to_seq db ! i)" "e' = entry_of (select_range c from_seq to_seq db' ! i)"
  shows "row_hash (select_range c from_seq to_seq db ! i) = row_hash (select_range c from_seq to_seq db' ! i)
    \<and> same_fields env e e' \<and> (0 < i \<longrightarrow> ent_prev_hash e = ent_prev_hash e')
    \<and> (key_sized (ent_actor_pubkey e) \<and> key_sized (ent_actor_pubkey e')
       \<and> (i = 0 \<longrightarrow> key_sized (ent_prev_hash e) \<and> key_sized (ent_prev_hash e')) \<longrightarrow> same_record env e e')"
proof -
  define rs rs' where "rs = select_range c from_seq to_seq db" and "rs' = select_range c from_seq to_seq db'"
  note defs = rs_def [symmetric] rs'_def [symmetric]
  have ne: "rs \<noteq> []" "rs' \<noteq> []" using i len by (auto simp: defs)
  have ok: "verify_rows env None rs = Ok True" "verify_rows env None rs' = Ok True"
    using v ne by (auto simp: verify_chain_def Let_def defs)
  have same: "same_fields env (entry_of (rs ! k)) (entry_of (rs' ! k))"
    if "k < length rs" "row_hash (rs ! k) = row_hash (rs' ! k)" for k
    using that ok [unfolded verify_rows_Ok] len free unfolding defs
    by (intro same_hash_same_fields [OF f, of _ _ rs rs']) (auto simp: nth_mem)
  note linked = linked_key_sized [OF f ok(1)] linked_key_sized [OF f ok(2)]
  have prev: "row_hash (rs ! k) = row_hash (rs' ! k)" if "Suc k < length rs" "row_hash (rs ! Suc k) = row_hash (rs' ! Suc k)" for k
    using same_fields_prev [OF same [OF that]] linked [of k] that len by (auto simp: defs prev_bytes_def)
  have "i \<le> length rs - 1" using i [unfolded defs] by simp
  then have hash: "row_hash (rs ! i) = row_hash (rs' ! i)"
  proof (induction rule: inc_induct)
    case base
    then show ?case using head len ne by (simp add: defs last_conv_nth)
  next
    case (step k)
    then show ?case using prev [of k] by simp
  qed
  have fields: "same_fields env e e'" using same [of i] hash i by (simp add: defs e)
  have links: "ent_prev_hash e = ent_prev_hash e' \<and> key_sized (ent_prev_hash e) \<and> key_sized (ent_prev_hash e')" if "0 < i"
  proof -
    obtain k where k: "i = Suc k" "Suc k < length rs" "Suc k < length rs'" using \<open>0 < i\<close> i len by (cases i) (auto simp: defs)
    then show ?thesis using linked [of k] prev [of k] hash by (auto simp: e defs)
  qed
  then show ?thesis using hash fields same_fields_record [OF fields] by (auto simp: defs)
qed

lemma sample_formats: "formats_ok sample_env"
proof -
  have "inj (to_rfc3339 sample_env)"
  proof (rule injI)
    fix t u
    assume "to_rfc3339 sample_env t = to_rfc3339 sample_env u"
    then have e: "replicate (nat t) (CHR ''a'') @ replicate (nat (- t)) (CHR ''b'') =
        replicate (nat u) (CHR ''a'') @ replicate (nat (- u)) (CHR ''b'')" by (simp add: sample_env_def)
    from arg_cong [OF e, of "\<lambda>xs. (length (filter (\<lambda>x. x = CHR ''a'') xs), length (filter (\<lambda>x. x = CHR ''b'') xs))"]
    have "nat t = nat u" "nat (- t) = nat (- u)" by simp_all
    then show "t = u" by linarith
  qed
  moreover have "\<exists>body. to_rfc3339 sample_env t = body @ ''+00:00'' \<and> CHR ''+'' \<notin> set body" for t
    by (rule exI [of _ "replicate (nat t) (CHR ''a'') @ replicate (nat (- t)) (CHR ''b'')"]) (simp add: sample_env_def)
  ultimately show ?thesis by (auto simp: formats_ok_def sample_env_def min_def)
qed

lemma sample_rows:
  "select_range ''c'' 1 1 (sample_db [sample_row obj num]) = [sample_row obj num]"
  "verify_chain sample_env ''c'' 1 1 (sample_db [sample_row obj num]) = Ok True"
proof -
  show s: "select_range ''c'' 1 1 (sample_db [sample_row obj num]) = [sample_row obj num]"
    by (simp add: select_range_def rows_of_def sample_db_def sample_row_def)
  show "verify_chain sample_env ''c'' 1 1 (sample_db [sample_row obj num]) = Ok True"
    by (simp add: verify_chain_def s Let_def)
      (simp add: sample_row_def row_to_audit_entry_def action_from_str_def ALL_ACTIONS_def compute_hash_def sample_env_def)
qed

theorem audit_tamper_evident_witness:
  "same_record sample_env (entry_of (sample_row ''x'' ''12'')) (entry_of (sample_row ''x1'' ''2''))"
proof -
  have e: "entry_of (sample_row obj num) = \<lparr>ent_community_id = ''c'', ent_seq = 1, ent_hash = replicate 32 (CHR ''h''),
      ent_prev_hash = None, ent_action = MemberAdded, ent_actor_pubkey = None, ent_object_id = Some obj,
      ent_detail = JNumber num, ent_created_at = 5000\<rparr>" for obj num
    by (simp add: entry_of_def sample_row_def row_to_audit_entry_def action_from_str_def ALL_ACTIONS_def)
  have "hash_input sample_env (entry_of (sample_row ''x'' ''12'')) ''12'' =
      hash_input sample_env (entry_of (sample_row ''x1'' ''2'')) ''2''"
    unfolding e by (simp add: hash_input_def tagged_def prev_bytes_def)
  then have "collision_free sample_env [sample_row ''x'' ''12''] [sample_row ''x1'' ''2'']"
    by (simp add: collision_free_def sample_row_def) (simp add: sample_env_def)
  moreover have "row_hash (sample_row ''x'' ''12'') = row_hash (sample_row ''x1'' ''2'')" by (simp add: sample_row_def)
  ultimately show ?thesis
    using audit_tamper_evident [OF sample_formats sample_rows(2) sample_rows(2), of "''x''" "''12''" "''x1''" "''2''" 0, OF _ _ _ _ refl refl]
    by (simp add: sample_rows(1)) (simp add: e key_sized_def)
qed

section \<open>What the hash does not determine\<close>

text \<open>Rows that the verification treats alike.\<close>

definition row_alike :: "audit_env \<Rightarrow> audit_row \<Rightarrow> audit_row \<Rightarrow> bool" where
  "row_alike env r r' \<longleftrightarrow>
     row_community_id r = row_community_id r' \<and> row_seq r = row_seq r' \<and>
     row_hash r = row_hash r' \<and> row_prev_hash r = row_prev_hash r' \<and> row_action r = row_action r' \<and>
     compute_hash env (entry_of r) = compute_hash env (entry_of r')"

lemma row_to_audit_entry_cases:
  obtains "row_to_audit_entry r = Err UnknownAction" "action_from_str (row_action r) = None"
  | "row_to_audit_entry r = Ok (entry_of r)" "action_from_str (row_action r) \<noteq> None"
    "ent_seq (entry_of r) = row_seq r" "ent_hash (entry_of r) = row_hash r" "ent_prev_hash (entry_of r) = row_prev_hash r"
  by (cases "action_from_str (row_action r)") (auto simp: entry_of_def row_to_audit_entry_def)

lemma verify_rows_alike:
  "(\<And>z. z \<in> set zs \<Longrightarrow> row_alike env (fst z) (snd z)) \<Longrightarrow>
     verify_rows env p (map fst zs) = verify_rows env p (map snd zs)"
proof (induction zs arbitrary: p)
  case (Cons z zs)
  have a: "row_alike env (fst z) (snd z)" using Cons.prems by simp
  have IH: "verify_rows env q (map fst zs) = verify_rows env q (map snd zs)" for q using Cons by simp
  show ?case
  proof (rule row_to_audit_entry_cases [of "fst z"])
    assume "row_to_audit_entry (fst z) = Err UnknownAction" "action_from_str (row_action (fst z)) = None"
    then show ?thesis using a by (simp add: row_alike_def row_to_audit_entry_def)
  next
    assume 1: "row_to_audit_entry (fst z) = Ok (entry_of (fst z))" "action_from_str (row_action (fst z)) \<noteq> None"
      "ent_seq (entry_of (fst z)) = row_seq (fst z)" "ent_hash (entry_of (fst z)) = row_hash (fst z)"
      "ent_prev_hash (entry_of (fst z)) = row_prev_hash (fst z)"
    show ?thesis
    proof (rule row_to_audit_entry_cases [of "snd z"])
      assume "action_from_str (row_action (snd z)) = None"
      then show ?thesis using a 1(2) by (simp add: row_alike_def)
    next
      assume 2: "row_to_audit_entry (snd z) = Ok (entry_of (snd z))"
        "ent_seq (entry_of (snd z)) = row_seq (snd z)" "ent_hash (entry_of (snd z)) = row_hash (snd z)"
        "ent_prev_hash (entry_of (snd z)) = row_prev_hash (snd z)"
      show ?thesis using a
        by (cases "compute_hash env (entry_of (snd z))") (simp_all add: 1 2 IH row_alike_def)
    qed
  qed
qed simp

lemma verify_chain_alike:
  assumes "\<And>z. z \<in> set zs \<Longrightarrow> row_alike env (fst z) (snd z)"
  shows "verify_chain env c a b (db\<lparr>audit_log := map fst zs\<rparr>) = verify_chain env c a b (db\<lparr>audit_log := map snd zs\<rparr>)"
proof -
  define ys where "ys = sort_key (\<lambda>z. row_seq (fst z))
    (filter (\<lambda>z. row_community_id (fst z) = c \<and> a \<le> row_seq (fst z) \<and> row_seq (fst z) \<le> b) zs)"
  have same: "row_seq (snd z) = row_seq (fst z)" "row_community_id (snd z) = row_community_id (fst z)" if "z \<in> set zs" for z
    using assms [OF that] by (simp_all add: row_alike_def)
  have "select_range c a b (db\<lparr>audit_log := map fst zs\<rparr>) = map fst ys"
    by (simp add: select_range_def rows_of_def ys_def filter_map comp_def sort_key_map)
  moreover have "filter (\<lambda>z. row_community_id (snd z) = c \<and> a \<le> row_seq (snd z) \<and> row_seq (snd z) \<le> b) zs =
      filter (\<lambda>z. row_community_id (fst z) = c \<and> a \<le> row_seq (fst z) \<and> row_seq (fst z) \<le> b) zs"
    by (rule filter_cong) (auto simp: same)
  then have "select_range c a b (db\<lparr>audit_log := map snd zs\<rparr>) = map snd ys"
    by (simp add: select_range_def rows_of_def ys_def filter_map comp_def)
      (rule sort_key_map, auto simp: same)
  moreover have "row_alike env (fst z) (snd z)" if "z \<in> set ys" for z using assms that by (auto simp: ys_def)
  ultimately show ?thesis using verify_rows_alike [of ys env None] by (simp add: verify_chain_def Let_def)
qed

text \<open>
  The border between object and detail is not protected. If the text of the detail of a row
  ends in the text of another JSON value, then moving the part before it from the detail to the
  end of the object id changes no verification result, of any community and any range: for
  example object \<open>x\<close> with detail \<open>12\<close> becomes object \<open>x1\<close> with detail \<open>2\<close>.
\<close>

theorem audit_detail_movable:
  assumes "row_object_id r = Some obj" and "canonical_json env (row_detail r) = Ok (moved @ rest)"
    and "canonical_json env d = Ok rest"
  shows "verify_chain env c from_seq to_seq
      (db\<lparr>audit_log := xs @ r\<lparr>row_object_id := Some (obj @ moved), row_detail := d\<rparr> # ys\<rparr>) =
    verify_chain env c from_seq to_seq (db\<lparr>audit_log := xs @ r # ys\<rparr>)"
proof -
  let ?r = "r\<lparr>row_object_id := Some (obj @ moved), row_detail := d\<rparr>"
  let ?zs = "map (\<lambda>x. (x, x)) xs @ (?r, r) # map (\<lambda>x. (x, x)) ys"
  have "compute_hash env (entry_of ?r) = compute_hash env (entry_of r)"
  proof (cases "action_from_str (row_action r)")
    case (Some a)
    then show ?thesis
      using assms by (simp add: entry_of_def row_to_audit_entry_def compute_hash_def hash_input_def tagged_def prev_bytes_def)
  qed (simp add: entry_of_def row_to_audit_entry_def)
  then have "row_alike env ?r r" by (simp add: row_alike_def)
  moreover have "row_alike env x x" for x by (simp add: row_alike_def)
  ultimately have "row_alike env (fst z) (snd z)" if "z \<in> set ?zs" for z using that by auto
  from verify_chain_alike [of ?zs, OF this] show ?thesis by (simp add: comp_def)
qed

theorem audit_detail_movable_witness:
  "verify_chain sample_env ''c'' 1 1 (sample_db [sample_row ''x1'' ''2'']) =
   verify_chain sample_env ''c'' 1 1 (sample_db [sample_row ''x'' ''12''])"
proof -
  have "row_object_id (sample_row ''x'' ''12'') = Some ''x''"
    "canonical_json sample_env (row_detail (sample_row ''x'' ''12'')) = Ok (''1'' @ ''2'')"
    "canonical_json sample_env (JNumber ''2'') = Ok ''2''"
    by (simp_all add: sample_row_def sample_env_def)
  from audit_detail_movable [OF this, where c = "''c''" and from_seq = 1 and to_seq = 1 and db = "sample_db []" and xs = "[]" and ys = "[]"] show ?thesis
    by (simp add: sample_db_def sample_row_def)
qed

section \<open>Numbers that are stored in another notation\<close>

text \<open>
  A detail whose canonical text changes in the JSONB column makes the chain unverifiable: the append succeeds, and
  from then on every verification of a range from the first row that reaches the new one fails with a hash
  mismatch at it, unless SHA-256 gives both texts the same digest.
\<close>

theorem reprinted_detail_unverifiable:
  assumes "chain_ok env (rows_of c db)" and "int (length (rows_of c db)) + 1 < 2 ^ 63"
    and "log_inner env now entry db = (Ok e, db')" and "new_community_id entry = c"
    and "canonical_json env (new_detail entry) = Ok t" "canonical_json env (jsonb env (new_detail entry)) = Ok t'"
    and "sha256 env (hash_input env e t) \<noteq> sha256 env (hash_input env e t')"
  shows "verify_chain env c 1 (int (length (rows_of c db)) + 1) db' = Err (HashMismatch (int (length (rows_of c db)) + 1))"
proof -
  let ?rs = "rows_of c db" and ?n = "int (length (rows_of c db)) + 1" and ?row = "row_of env e"
  let ?e = "e\<lparr>ent_detail := jsonb env (ent_detail e), ent_created_at := to_storage_precision (ent_created_at e)\<rparr>"
  from assms(3) have run: "next_entry env now (chain_head c db) entry = Ok e" "db' = db\<lparr>audit_log := audit_log db @ [?row]\<rparr>"
    unfolding log_inner_def assms(4) by (auto elim!: log_after_head_cases)
  note n = next_entry_Ok [OF run(1)] and h = chain_head_ok [OF assms(1)]
  have seq: "ent_seq e = ?n" using n assms(2) by (auto simp: h next_seq_plain split: if_splits)
  have prev: "ent_prev_hash e = (if ?rs = [] then None else Some (row_hash (last ?rs)))" using n by (simp add: h)
  have rows: "rows_of c db' = ?rs @ [?row]" using n assms(4) by (simp add: run(2) rows_of_append row_of_def)
  have sorted: "sorted (map row_seq (?rs @ [?row]))"
    using chain_ok_sorted(1) [OF assms(1)] chain_ok_seq [OF assms(1)] seq
    by (auto simp: sorted_append row_of_def in_set_conv_nth)
  have "filter (\<lambda>r. 1 \<le> row_seq r \<and> row_seq r \<le> ?n) (?rs @ [?row]) = ?rs @ [?row]"
    unfolding filter_id_conv using chain_ok_seq [OF assms(1)] seq by (auto simp: in_set_conv_nth row_of_def)
  then have range: "select_range c 1 ?n db' = ?rs @ [?row]"
    unfolding select_range_def rows using sorted sort_key_id_if_sorted by metis
  have entry: "row_to_audit_entry ?row = Ok ?e" by (simp add: row_to_audit_entry_Ok row_of_def)
  have "compute_hash env ?e = Ok (sha256 env (hash_input env e t'))"
    using assms(6) n by (simp add: compute_hash_def hash_input_def prev_bytes_def)
  moreover have "ent_hash e = sha256 env (hash_input env e t)" using n assms(5) by (auto simp: compute_hash_def)
  ultimately have last: "verify_rows env p [?row] = Err (HashMismatch ?n)" if "p \<noteq> None \<longrightarrow> ent_prev_hash e = p" for p
    using assms(7) that by (cases p) (simp_all add: entry seq)
  have "verify_rows env p (xs @ [?row]) = Err (HashMismatch ?n)"
    if "verify_rows env p xs = Ok True" "xs \<noteq> [] \<longrightarrow> ent_prev_hash e = Some (row_hash (last xs))" "xs = [] \<and> p \<noteq> None \<longrightarrow> ent_prev_hash e = p" for p xs
    using that
  proof (induction xs arbitrary: p)
    case (Cons x xs)
    then obtain y where y: "row_to_audit_entry x = Ok y" "compute_hash env y = Ok (ent_hash y)" "p \<noteq> None \<longrightarrow> ent_prev_hash y = p"
        "verify_rows env (Some (ent_hash y)) xs = Ok True"
      by (auto split: if_splits)
    have "ent_hash y = row_hash x" using y(1) by (auto simp: row_to_audit_entry_Ok)
    then have "verify_rows env (Some (ent_hash y)) (xs @ [?row]) = Err (HashMismatch ?n)"
      using Cons.prems(2) by (intro Cons.IH [OF y(4)]) (auto split: if_splits)
    then show ?case using y by (cases p) simp_all
  qed (use last in simp)
  moreover have "verify_rows env None ?rs = Ok True"
    using assms(1) by (subst verify_rows_Ok) (simp add: chain_ok_def)
  ultimately have "verify_rows env None (?rs @ [?row]) = Err (HashMismatch ?n)" using prev by simp
  then show ?thesis by (simp add: verify_chain_def range Let_def)
qed

section \<open>Communities do not interfere\<close>

text \<open>
  Audit chains of different communities are independent. An append changes nothing that
  verifying or reading another community's chain returns, and its own result depends only on
  the rows of its own community.
\<close>

theorem audit_isolation:
  assumes "log_inner env now e db = (r, db')" and "c \<noteq> new_community_id e"
    and "rows_of (new_community_id e) db2 = rows_of (new_community_id e) db"
    and "new_community_id e \<in> communities db2 \<longleftrightarrow> new_community_id e \<in> communities db"
  shows "verify_chain env c from_seq to_seq db' = verify_chain env c from_seq to_seq db \<and>
    get_entries c from_seq limit db' = get_entries c from_seq limit db \<and> fst (log_inner env now e db2) = r"
proof -
  have "rows_of c db' = rows_of c db"
    using assms(1) unfolding log_inner_def
  proof (rule log_after_head_cases)
    fix e1
    assume "next_entry env now (chain_head (new_community_id e) db) e = Ok e1"
      "db' = db\<lparr>audit_log := audit_log db @ [row_of env e1]\<rparr>"
    then show ?thesis using next_entry_Ok assms(2) by (force simp: rows_of_def row_of_def)
  qed simp
  then have "select_range c from_seq to_seq db' = select_range c from_seq to_seq db"
    "get_entries c from_seq limit db' = get_entries c from_seq limit db"
    by (simp_all add: select_range_def get_entries_def)
  moreover have "fst (insert_row env x db2) = fst (insert_row env x db)" if "ent_community_id x = new_community_id e" for x
  proof -
    have "(\<exists>y \<in> set (audit_log d). row_community_id y = new_community_id e \<and> P y) \<longleftrightarrow>
        (\<exists>y \<in> set (rows_of (new_community_id e) d). P y)" for d P by (auto simp: rows_of_def)
    then show ?thesis using assms(3,4) that by (simp add: insert_row_def)
  qed
  then have "fst (log_inner env now e db2) = r"
    using assms(1) chain_head_other [OF assms(3)] next_entry_Ok [of env now "chain_head (new_community_id e) db" e]
    by (auto simp: log_inner_def log_after_head_def split: sum.splits prod.splits) (metis fst_conv sum.inject sum.simps(4))+
  ultimately show ?thesis by (simp add: verify_chain_def)
qed

theorem audit_isolation_witness:
  "verify_chain sample_env ''d'' 1 1 (sample_db [sample_row ''x'' ''12'']) = verify_chain sample_env ''d'' 1 1 (sample_db [])"
proof -
  obtain r where "log_inner sample_env 5432 sample_new (sample_db []) = (r, sample_db [sample_row ''x'' ''12''])"
    using sample_log by (metis prod.collapse)
  moreover have "''d'' \<noteq> new_community_id sample_new" by (simp add: sample_new_def)
  ultimately show ?thesis
    using audit_isolation [of sample_env 5432 sample_new "sample_db []" r "sample_db [sample_row ''x'' ''12'']" "''d''" "sample_db []" 1 1]
    by blast
qed

end
