(* ===== verification/Http_Auth.thy ===== *)
theory Http_Auth
  imports Nostr_Events
begin

text \<open>
  Authentication and admission (\<open>buzz-auth\<close>: \<open>error.rs\<close>, \<open>scope.rs\<close>, \<open>access.rs\<close>, \<open>nip42.rs\<close>,
  \<open>nip98.rs\<close>, \<open>nip98_replay.rs\<close>, \<open>rate_limit.rs\<close>; \<open>buzz-pubsub\<close>: \<open>nip98_replay.rs\<close>,
  \<open>rate_limiter.rs\<close>; \<open>buzz-relay\<close>: \<open>api/bridge.rs\<close>, \<open>api/operator.rs\<close>, \<open>api/admin/auth.rs\<close>,
  \<open>admission.rs\<close>). Signature checks, JSON, base64, URLs and digests are arguments. Redis is given by
  the documented effect of the commands the code sends; time is in milliseconds, since Redis
  expires keys at that resolution while the verifiers read whole seconds.
\<close>

section \<open>Errors and scopes\<close>

datatype auth_error =
    InvalidSignature
  | ChallengeMismatch
  | RelayUrlMismatch
  | EventExpired
  | Nip98Invalid string
  | Nip98Replay
  | PubkeyMismatch
  | InsufficientScope string "string list"
  | ChannelAccessDenied
  | Internal string

datatype auth_scope =
    MessagesRead | MessagesWrite | ChannelsRead | ChannelsWrite | AdminChannels | UsersRead
  | UsersWrite | AdminUsers | JobsRead | JobsWrite | SubscriptionsRead | SubscriptionsWrite
  | FilesRead | FilesWrite | ReposRead | ReposWrite | UnknownScope string

definition all_known :: "auth_scope list" where
  "all_known =
     [MessagesRead, MessagesWrite, ChannelsRead, ChannelsWrite, AdminChannels, UsersRead, UsersWrite,
      AdminUsers, JobsRead, JobsWrite, SubscriptionsRead, SubscriptionsWrite, FilesRead, FilesWrite,
      ReposRead, ReposWrite]"

definition all_non_admin :: "auth_scope list" where
  "all_non_admin =
     [MessagesRead, MessagesWrite, ChannelsRead, ChannelsWrite, UsersRead, UsersWrite, JobsRead,
      JobsWrite, SubscriptionsRead, SubscriptionsWrite, FilesRead, FilesWrite, ReposRead, ReposWrite]"

fun scope_as_str :: "auth_scope \<Rightarrow> string" where
  "scope_as_str MessagesRead = ''messages:read''"
| "scope_as_str MessagesWrite = ''messages:write''"
| "scope_as_str ChannelsRead = ''channels:read''"
| "scope_as_str ChannelsWrite = ''channels:write''"
| "scope_as_str AdminChannels = ''admin:channels''"
| "scope_as_str UsersRead = ''users:read''"
| "scope_as_str UsersWrite = ''users:write''"
| "scope_as_str AdminUsers = ''admin:users''"
| "scope_as_str JobsRead = ''jobs:read''"
| "scope_as_str JobsWrite = ''jobs:write''"
| "scope_as_str SubscriptionsRead = ''subscriptions:read''"
| "scope_as_str SubscriptionsWrite = ''subscriptions:write''"
| "scope_as_str FilesRead = ''files:read''"
| "scope_as_str FilesWrite = ''files:write''"
| "scope_as_str ReposRead = ''repos:read''"
| "scope_as_str ReposWrite = ''repos:write''"
| "scope_as_str (UnknownScope s) = s"

definition scope_from_str :: "string \<Rightarrow> auth_scope" where
  "scope_from_str s =
     (if s = ''messages:read'' then MessagesRead
      else if s = ''messages:write'' then MessagesWrite
      else if s = ''channels:read'' then ChannelsRead
      else if s = ''channels:write'' then ChannelsWrite
      else if s = ''admin:channels'' then AdminChannels
      else if s = ''users:read'' then UsersRead
      else if s = ''users:write'' then UsersWrite
      else if s = ''admin:users'' then AdminUsers
      else if s = ''jobs:read'' then JobsRead
      else if s = ''jobs:write'' then JobsWrite
      else if s = ''subscriptions:read'' then SubscriptionsRead
      else if s = ''subscriptions:write'' then SubscriptionsWrite
      else if s = ''files:read'' then FilesRead
      else if s = ''files:write'' then FilesWrite
      else if s = ''repos:read'' then ReposRead
      else if s = ''repos:write'' then ReposWrite
      else UnknownScope s)"

definition parse_scopes :: "string list \<Rightarrow> auth_scope list" where
  "parse_scopes raw = map scope_from_str raw"

definition require_scope :: "auth_scope list \<Rightarrow> auth_scope \<Rightarrow> (auth_error, unit) result" where
  "require_scope scopes required =
     (if required \<in> set scopes then Ok ()
      else Err (InsufficientScope (scope_as_str required) (map scope_as_str scopes)))"

text \<open>The tenant of a request, and the database's answer to which channels a key can access.\<close>

record tenant_context =
  tc_community :: uuid
  tc_host :: string

type_synonym access_checker = "tenant_context \<Rightarrow> pubkey \<Rightarrow> (auth_error, uuid list) result"

definition can_access :: "access_checker \<Rightarrow> tenant_context \<Rightarrow> pubkey \<Rightarrow> uuid \<Rightarrow> (auth_error, bool) result" where
  "can_access accessible_channel_ids ctx pk ch =
     and_then (accessible_channel_ids ctx pk) (\<lambda>ids. Ok (ch \<in> set ids))"

definition check_access_with ::
  "auth_scope \<Rightarrow> access_checker \<Rightarrow> tenant_context \<Rightarrow> pubkey \<Rightarrow> uuid \<Rightarrow> auth_scope list \<Rightarrow> (auth_error, unit) result" where
  "check_access_with required checker ctx pk ch scopes =
     and_then (require_scope scopes required)
       (\<lambda>_. and_then (can_access checker ctx pk ch) (\<lambda>ok. if ok then Ok () else Err ChannelAccessDenied))"

definition check_read_access ::
  "access_checker \<Rightarrow> tenant_context \<Rightarrow> pubkey \<Rightarrow> uuid \<Rightarrow> auth_scope list \<Rightarrow> (auth_error, unit) result" where
  "check_read_access = check_access_with MessagesRead"

definition check_write_access ::
  "access_checker \<Rightarrow> tenant_context \<Rightarrow> pubkey \<Rightarrow> uuid \<Rightarrow> auth_scope list \<Rightarrow> (auth_error, unit) result" where
  "check_write_access = check_access_with MessagesWrite"

section \<open>Signed authentication events\<close>

text \<open>The code of other packages; \<open>'u\<close> is the type of parsed URLs.\<close>

record 'u auth_env =
  parse_event :: "string \<Rightarrow> (string, event) result"
  id_matches :: "event \<Rightarrow> bool"
  signature_matches :: "event \<Rightarrow> bool"
  url_parse :: "string \<Rightarrow> 'u option"
  url_path :: "'u \<Rightarrow> string"
  url_set_path :: "string \<Rightarrow> 'u \<Rightarrow> 'u"
  url_host_str :: "'u \<Rightarrow> string option"
  url_set_host :: "string \<Rightarrow> 'u \<Rightarrow> 'u"
  url_to_string :: "'u \<Rightarrow> string"
  to_lowercase :: "string \<Rightarrow> string"
  sha256_hex :: "string \<Rightarrow> string"
  base64_decode :: "string \<Rightarrow> string option"
  from_utf8 :: "string \<Rightarrow> string option"
  pubkey_from_hex :: "string \<Rightarrow> pubkey option"

definition verify_sig :: "'u auth_env \<Rightarrow> event \<Rightarrow> bool" where
  "verify_sig env ev \<longleftrightarrow> id_matches env ev \<and> signature_matches env ev"

definition KIND_AUTHENTICATION :: nat where "KIND_AUTHENTICATION = 22242"
definition KIND_HTTP_AUTH :: nat where "KIND_HTTP_AUTH = 27235"
definition TIMESTAMP_TOLERANCE_SECS :: nat where "TIMESTAMP_TOLERANCE_SECS = 60"

definition ascii_lower :: "char \<Rightarrow> char" where
  "ascii_lower c = (if is_ascii_uppercase c then char_of (of_char c + 32 :: nat) else c)"

definition eq_ignore_ascii_case :: "string \<Rightarrow> string \<Rightarrow> bool" where
  "eq_ignore_ascii_case a b \<longleftrightarrow> map ascii_lower a = map ascii_lower b"

definition trim_end_slashes :: "string \<Rightarrow> string" where
  "trim_end_slashes s = rev (dropWhile (\<lambda>c. c = CHR ''/'') (rev s))"

definition abs_diff :: "nat \<Rightarrow> nat \<Rightarrow> nat" where
  "abs_diff a b = (if a < b then b - a else a - b)"

definition tags_named :: "string \<Rightarrow> event \<Rightarrow> tag list" where
  "tags_named k ev = filter (tag_is k) (event_tags ev)"

definition first_tag_content :: "string \<Rightarrow> event \<Rightarrow> string option" where
  "first_tag_content k ev = Option.bind (find (tag_is k) (event_tags ev)) tag_content"

definition normalize_relay_url :: "'u auth_env \<Rightarrow> string \<Rightarrow> string" where
  "normalize_relay_url env raw =
     (case url_parse env raw of
        None \<Rightarrow> raw
      | Some parsed \<Rightarrow>
          (let parsed1 = (case url_host_str env parsed of
                            None \<Rightarrow> parsed
                          | Some host \<Rightarrow>
                              if host = ''localhost'' \<or> host = ''::1'' then url_set_host env ''127.0.0.1'' parsed
                              else parsed)
           in url_to_string env (url_set_path env (trim_end_slashes (url_path env parsed1)) parsed1)))"

definition verify_nip42_event ::
  "'u auth_env \<Rightarrow> nat \<Rightarrow> event \<Rightarrow> string \<Rightarrow> string \<Rightarrow> (auth_error, unit) result" where
  "verify_nip42_event env now_ms ev expected_challenge relay_url =
     (if event_kind ev \<noteq> KIND_AUTHENTICATION then Err InvalidSignature
      else if \<not> verify_sig env ev then Err InvalidSignature
      else
        (case first_tag_content ''challenge'' ev of
           None \<Rightarrow> Err ChallengeMismatch
         | Some challenge \<Rightarrow>
             if challenge \<noteq> expected_challenge then Err ChallengeMismatch
             else
               (case first_tag_content ''relay'' ev of
                  None \<Rightarrow> Err RelayUrlMismatch
                | Some relay \<Rightarrow>
                    if normalize_relay_url env relay \<noteq> normalize_relay_url env relay_url then Err RelayUrlMismatch
                    else if abs_diff (now_ms div 1000) (created_at ev) > TIMESTAMP_TOLERANCE_SECS then Err EventExpired
                    else Ok ())))"

datatype auth_method = Nip42 | Nip98

record auth_context =
  ac_pubkey :: pubkey
  ac_scopes :: "auth_scope list"
  ac_channel_ids :: "uuid list option"
  ac_auth_method :: auth_method
  ac_agent_owner_pubkey :: "pubkey option"

definition has_scope :: "auth_context \<Rightarrow> auth_scope \<Rightarrow> bool" where
  "has_scope ctx s \<longleftrightarrow> s \<in> set (ac_scopes ctx)"

text \<open>\<open>joined\<close> says whether the blocking task that verifies the signature finished.\<close>

definition verify_auth_event ::
  "'u auth_env \<Rightarrow> bool \<Rightarrow> nat \<Rightarrow> event \<Rightarrow> string \<Rightarrow> string \<Rightarrow> (auth_error, auth_context) result" where
  "verify_auth_event env joined now_ms ev expected_challenge relay_url =
     (if \<not> joined then Err (Internal ''spawn_blocking panicked'')
      else
        and_then (verify_nip42_event env now_ms ev expected_challenge relay_url)
          (\<lambda>_. Ok \<lparr>ac_pubkey = event_pubkey ev, ac_scopes = all_known, ac_channel_ids = None,
                   ac_auth_method = Nip42, ac_agent_owner_pubkey = None\<rparr>))"

definition normalize_url :: "'u auth_env \<Rightarrow> string \<Rightarrow> string" where
  "normalize_url env raw =
     (case url_parse env raw of
        None \<Rightarrow> to_lowercase env raw
      | Some parsed \<Rightarrow> url_to_string env (url_set_path env (trim_end_slashes (url_path env parsed)) parsed))"

definition check_u_tag :: "'u auth_env \<Rightarrow> event \<Rightarrow> string \<Rightarrow> (auth_error, unit) result" where
  "check_u_tag env ev expected_url =
     (if length (tags_named ''u'' ev) \<noteq> 1
      then Err (Nip98Invalid (''expected exactly one `u` tag, got '' @ nat_to_string (length (tags_named ''u'' ev))))
      else
        (case first_tag_content ''u'' ev of
           None \<Rightarrow> Err (Nip98Invalid ''missing `u` tag'')
         | Some u_tag \<Rightarrow>
             if normalize_url env u_tag \<noteq> normalize_url env expected_url
             then Err (Nip98Invalid (''URL mismatch: event has `'' @ u_tag @ ''`, expected `'' @ expected_url @ ''`''))
             else Ok ()))"

definition check_method_tag :: "event \<Rightarrow> string \<Rightarrow> (auth_error, unit) result" where
  "check_method_tag ev expected_method =
     (if length (tags_named ''method'' ev) \<noteq> 1
      then Err (Nip98Invalid (''expected exactly one `method` tag, got '' @ nat_to_string (length (tags_named ''method'' ev))))
      else
        (case first_tag_content ''method'' ev of
           None \<Rightarrow> Err (Nip98Invalid ''missing `method` tag'')
         | Some method_tag \<Rightarrow>
             if \<not> eq_ignore_ascii_case method_tag expected_method
             then Err (Nip98Invalid (''method mismatch: event has `'' @ method_tag @ ''`, expected `'' @ expected_method @ ''`''))
             else Ok ()))"

definition check_payload_tag :: "'u auth_env \<Rightarrow> event \<Rightarrow> string option \<Rightarrow> (auth_error, unit) result" where
  "check_payload_tag env ev body =
     (if length (tags_named ''payload'' ev) > 1
      then Err (Nip98Invalid (''at most one `payload` tag allowed, got '' @ nat_to_string (length (tags_named ''payload'' ev))))
      else
        (case (first_tag_content ''payload'' ev, body) of
           (Some payload_hex, Some body_bytes) \<Rightarrow>
             if sha256_hex env body_bytes \<noteq> payload_hex
             then Err (Nip98Invalid ''payload tag SHA-256 mismatch: request body does not match signed hash'')
             else Ok ()
         | _ \<Rightarrow> Ok ()))"

definition verify_nip98_event ::
  "'u auth_env \<Rightarrow> nat \<Rightarrow> string \<Rightarrow> string \<Rightarrow> string \<Rightarrow> string option \<Rightarrow> (auth_error, pubkey) result" where
  "verify_nip98_event env now_ms event_json expected_url expected_method body =
     (case parse_event env event_json of
        Inl e \<Rightarrow> Err (Nip98Invalid (''event JSON parse error: '' @ e))
      | Inr ev \<Rightarrow>
          if event_kind ev \<noteq> KIND_HTTP_AUTH
          then Err (Nip98Invalid (''expected kind 27235, got '' @ nat_to_string (event_kind ev)))
          else if \<not> verify_sig env ev then Err (Nip98Invalid ''invalid Schnorr signature'')
          else if abs_diff (now_ms div 1000) (created_at ev) > TIMESTAMP_TOLERANCE_SECS
          then Err (Nip98Invalid (''event timestamp outside '' @ [CHR 0xC2, CHR 0xB1] @ ''60s window (delta: '' @
                      nat_to_string (abs_diff (now_ms div 1000) (created_at ev)) @ ''s)''))
          else
            and_then (check_u_tag env ev expected_url) (\<lambda>_.
            and_then (check_method_tag ev expected_method) (\<lambda>_.
            and_then (check_payload_tag env ev body) (\<lambda>_. Ok (event_pubkey ev)))))"

text \<open>The text of the one error the verifier returns.\<close>

fun nip98_error_text :: "auth_error \<Rightarrow> string" where
  "nip98_error_text (Nip98Invalid r) = ''NIP-98 HTTP Auth verification failed: '' @ r"
| "nip98_error_text _ = []"

section \<open>Redis\<close>

text \<open>A key holds a number and may have a point in time at which it expires.\<close>

type_synonym redis = "string \<rightharpoonup> nat \<times> nat option"

definition redis_get :: "nat \<Rightarrow> redis \<Rightarrow> string \<Rightarrow> (nat \<times> nat option) option" where
  "redis_get now_ms m k =
     (case m k of
        Some (v, Some t) \<Rightarrow> if now_ms < t then Some (v, Some t) else None
      | other \<Rightarrow> other)"

definition redis_set_nx_ex :: "nat \<Rightarrow> string \<Rightarrow> nat \<Rightarrow> redis \<Rightarrow> string option \<times> redis" where
  "redis_set_nx_ex now_ms k ttl m =
     (case redis_get now_ms m k of
        Some x \<Rightarrow> (None, m)
      | None \<Rightarrow> (Some ''OK'', m(k \<mapsto> (1, Some (now_ms + ttl * 1000)))))"

definition redis_incr :: "nat \<Rightarrow> string \<Rightarrow> redis \<Rightarrow> nat \<times> redis" where
  "redis_incr now_ms k m =
     (case redis_get now_ms m k of
        Some (v, t) \<Rightarrow> (v + 1, m(k \<mapsto> (v + 1, t)))
      | None \<Rightarrow> (1, m(k \<mapsto> (1, None))))"

definition redis_expire :: "nat \<Rightarrow> string \<Rightarrow> nat \<Rightarrow> redis \<Rightarrow> redis" where
  "redis_expire now_ms k secs m =
     (case redis_get now_ms m k of Some (v, t) \<Rightarrow> m(k \<mapsto> (v, Some (now_ms + secs * 1000))) | None \<Rightarrow> m)"

definition redis_ttl :: "nat \<Rightarrow> string \<Rightarrow> redis \<Rightarrow> int" where
  "redis_ttl now_ms k m =
     (case redis_get now_ms m k of
        None \<Rightarrow> - 2
      | Some (v, None) \<Rightarrow> - 1
      | Some (v, Some t) \<Rightarrow> int ((t - now_ms + 500) div 1000))"

text \<open>A command may fail before it is sent, or with its reply lost after it took effect.\<close>

datatype redis_fault = NoFault | PoolFault string | CommandFault string bool

section \<open>Replay protection\<close>

definition DEFAULT_REPLAY_TTL_SECS :: nat where "DEFAULT_REPLAY_TTL_SECS = 120"
definition MAX_REPLAY_TTL_SECS :: nat where "MAX_REPLAY_TTL_SECS = 3600"

definition nip98_replay_key_for_scope :: "string \<Rightarrow> string \<Rightarrow> string" where
  "nip98_replay_key_for_scope scope eid = ''buzz:'' @ scope @ '':nip98:'' @ eid"

definition clamp_ttl :: "nat \<Rightarrow> nat" where
  "clamp_ttl ttl_secs = max DEFAULT_REPLAY_TTL_SECS (min ttl_secs MAX_REPLAY_TTL_SECS)"

definition try_mark_in_scope ::
  "redis_fault \<Rightarrow> nat \<Rightarrow> string \<Rightarrow> string \<Rightarrow> nat \<Rightarrow> redis \<Rightarrow> (auth_error, bool) result \<times> redis" where
  "try_mark_in_scope fault now_ms scope eid ttl_secs m =
     (let ttl = clamp_ttl ttl_secs;
          (reply, m1) = redis_set_nx_ex now_ms (nip98_replay_key_for_scope scope eid) ttl m
      in case fault of
           PoolFault e \<Rightarrow> (Err (Internal (''Redis pool: '' @ e)), m)
         | CommandFault e executed \<Rightarrow> (Err (Internal (''Redis SET NX EX: '' @ e)), if executed then m1 else m)
         | NoFault \<Rightarrow>
             (case reply of
                None \<Rightarrow> (Ok False, m1)
              | Some r \<Rightarrow>
                  if r = ''OK'' then (Ok True, m1)
                  else (Err (Internal (''unexpected SET NX EX reply: '' @ r)), m1)))"

definition try_mark ::
  "redis_fault \<Rightarrow> nat \<Rightarrow> tenant_context \<Rightarrow> string \<Rightarrow> nat \<Rightarrow> redis \<Rightarrow> (auth_error, bool) result \<times> redis" where
  "try_mark fault now_ms ctx eid ttl_secs m = try_mark_in_scope fault now_ms (tc_community ctx) eid ttl_secs m"

section \<open>The HTTP bridge\<close>

text \<open>
  A request with the values of the headers the code reads; \<open>None\<close> is a value that is not
  visible ASCII.
\<close>

record http_request =
  rq_authorization :: "string option list"
  rq_x_pubkey :: "string option list"
  rq_host :: "string option list"
  rq_origin :: "string option list"

type_synonym http_error = "nat \<times> string"

definition first_header :: "string option list \<Rightarrow> string option" where
  "first_header vs = (case vs of [] \<Rightarrow> None | v # _ \<Rightarrow> v)"

record verified_bridge_auth =
  vb_pubkey :: pubkey
  vb_event_id :: string
  vb_signed_created_at :: "nat option"

definition ZERO_EVENT_ID :: string where
  "ZERO_EVENT_ID = replicate 64 (CHR ''0'')"

definition verify_bridge_auth_with_options ::
  "'u auth_env \<Rightarrow> nat \<Rightarrow> http_request \<Rightarrow> string \<Rightarrow> string \<Rightarrow> string option \<Rightarrow> bool \<Rightarrow> bool \<Rightarrow>
   (http_error, verified_bridge_auth) result" where
  "verify_bridge_auth_with_options env now_ms req mthd url body require_auth_token require_payload =
     (case Option.bind (first_header (rq_authorization req)) (strip_prefix ''Nostr '') of
        Some auth_str \<Rightarrow>
          (case base64_decode env auth_str of
             None \<Rightarrow> Err (401, ''invalid base64 in Nostr auth'')
           | Some bs \<Rightarrow>
               (case from_utf8 env bs of
                  None \<Rightarrow> Err (401, ''invalid UTF-8 in Nostr auth'')
                | Some event_json \<Rightarrow>
                    (case parse_event env event_json of
                       Inl e \<Rightarrow> Err (401, ''invalid NIP-98 event JSON'')
                     | Inr ev \<Rightarrow>
                         if require_payload \<and> \<not> list_ex (tag_is ''payload'') (event_tags ev)
                         then Err (401, ''NIP-98: missing payload tag'')
                         else
                           (case verify_nip98_event env now_ms event_json url mthd body of
                              Inl e \<Rightarrow> Err (401, ''NIP-98: '' @ nip98_error_text e)
                            | Inr pk \<Rightarrow>
                                Ok \<lparr>vb_pubkey = pk, vb_event_id = event_id ev,
                                    vb_signed_created_at = Some (created_at ev)\<rparr>))))
      | None \<Rightarrow>
          (case (if require_auth_token then None else first_header (rq_x_pubkey req)) of
             Some hex_val \<Rightarrow>
               (case pubkey_from_hex env hex_val of
                  None \<Rightarrow> Err (401, ''invalid X-Pubkey hex'')
                | Some pk \<Rightarrow> Ok \<lparr>vb_pubkey = pk, vb_event_id = ZERO_EVENT_ID, vb_signed_created_at = None\<rparr>)
           | None \<Rightarrow> Err (401, ''missing Nostr auth'')))"

definition verify_bridge_auth ::
  "'u auth_env \<Rightarrow> nat \<Rightarrow> http_request \<Rightarrow> string \<Rightarrow> string \<Rightarrow> string option \<Rightarrow> bool \<Rightarrow>
   (http_error, verified_bridge_auth) result" where
  "verify_bridge_auth env now_ms req mthd url body require_auth_token =
     verify_bridge_auth_with_options env now_ms req mthd url body require_auth_token False"

definition check_nip98_replay_with_guard ::
  "redis_fault \<Rightarrow> nat \<Rightarrow> tenant_context \<Rightarrow> string \<Rightarrow> redis \<Rightarrow> (http_error, unit) result \<times> redis" where
  "check_nip98_replay_with_guard fault now_ms ctx eid m =
     (if eid = ZERO_EVENT_ID then (Ok (), m)
      else
        (case try_mark fault now_ms ctx eid DEFAULT_REPLAY_TTL_SECS m of
           (Inr True, m1) \<Rightarrow> (Ok (), m1)
         | (Inr False, m1) \<Rightarrow> (Err (401, ''NIP-98: replay detected''), m1)
         | (Inl e, m1) \<Rightarrow> (Err (401, ''NIP-98: replay check unavailable''), m1)))"

definition relay_scheme :: "string \<Rightarrow> string \<Rightarrow> string \<Rightarrow> string" where
  "relay_scheme config_relay_url tls plain =
     (if starts_with (dropWhile (\<lambda>c. c \<in> set [CHR '' '', CHR 0x09, CHR 0x0A, CHR 0x0B, CHR 0x0C, CHR 0x0D]) config_relay_url)
          ''wss://''
      then tls else plain)"

definition nip98_expected_url :: "string \<Rightarrow> tenant_context \<Rightarrow> string \<Rightarrow> string" where
  "nip98_expected_url config_relay_url ctx path =
     relay_scheme config_relay_url ''https'' ''http'' @ ''://'' @ tc_host ctx @ path"

definition nip42_expected_relay_url :: "string \<Rightarrow> tenant_context \<Rightarrow> string" where
  "nip42_expected_relay_url config_relay_url ctx = relay_scheme config_relay_url ''wss'' ''ws'' @ ''://'' @ tc_host ctx"

section \<open>The operator API\<close>

definition OPERATOR_REPLAY_SCOPE :: string where "OPERATOR_REPLAY_SCOPE = ''operator-management''"

record operator_config =
  relay_operator_api_origin :: "string option"
  relay_operator_pubkeys :: "pubkey list"
  relay_owner_pubkey :: "pubkey option"

definition check_operator_replay ::
  "redis_fault \<Rightarrow> nat \<Rightarrow> string \<Rightarrow> redis \<Rightarrow> (http_error, unit) result \<times> redis" where
  "check_operator_replay fault now_ms eid m =
     (case try_mark_in_scope fault now_ms OPERATOR_REPLAY_SCOPE eid DEFAULT_REPLAY_TTL_SECS m of
        (Inr True, m1) \<Rightarrow> (Ok (), m1)
      | (Inr False, m1) \<Rightarrow> (Err (401, ''NIP-98: replay detected''), m1)
      | (Inl e, m1) \<Rightarrow> (Err (401, ''NIP-98: replay check unavailable''), m1))"

text \<open>The clock is read twice: when the event is verified and when Redis takes the command.\<close>

definition authorize_operator_request ::
  "'u auth_env \<Rightarrow> operator_config \<Rightarrow> redis_fault \<Rightarrow> nat \<Rightarrow> nat \<Rightarrow> http_request \<Rightarrow> string \<Rightarrow> string \<Rightarrow> string option \<Rightarrow>
   string option \<Rightarrow> redis \<Rightarrow> (http_error, pubkey) result \<times> redis" where
  "authorize_operator_request env cfg fault now_ms redis_ms req mthd path raw_query body m =
     (case relay_operator_api_origin cfg of
        None \<Rightarrow> (Err (500, ''internal server error''), m)
      | Some origin \<Rightarrow>
          (let path_with_query = (case raw_query of
                 Some q \<Rightarrow> if q \<noteq> [] then path @ ''?'' @ q else path | None \<Rightarrow> path);
               url = origin @ path_with_query
           in try_in m (verify_bridge_auth_with_options env now_ms req mthd url body True (body \<noteq> None)) (\<lambda>v.
              case check_operator_replay fault redis_ms (vb_event_id v) m of
                (Inl e, m1) \<Rightarrow> (Err e, m1)
              | (Inr u, m1) \<Rightarrow>
                  if vb_pubkey v \<notin> set (relay_operator_pubkeys cfg)
                  then (Err (403, ''actor not authorized: not a relay operator''), m1)
                  else (Ok (vb_pubkey v), m1))))"

section \<open>The admin API\<close>

definition ADMIN_REPLAY_SCOPE :: string where "ADMIN_REPLAY_SCOPE = ''admin-moderation''"
definition ADMIN_API_PREFIX :: string where "ADMIN_API_PREFIX = ''/api/admin/v1''"

datatype admin_role = Operator | Moderator
datatype admin_source = FromConfig | OwnerFallback | FromDb

record admin_principal =
  ap_pubkey :: pubkey
  ap_role :: admin_role
  ap_source :: admin_source

fun admin_role_str :: "admin_role \<Rightarrow> string" where
  "admin_role_str Operator = ''operator''"
| "admin_role_str Moderator = ''moderator''"

fun admin_source_str :: "admin_source \<Rightarrow> string" where
  "admin_source_str FromConfig = ''config''"
| "admin_source_str OwnerFallback = ''owner_fallback''"
| "admin_source_str FromDb = ''db''"

datatype admin_auth = AuthDisabled | AuthNip98

record admin_config =
  adm_host :: string
  adm_auth :: admin_auth

record api_error =
  api_status :: nat
  api_code :: string
  api_message :: string

definition api_forbidden_with_message :: "string \<Rightarrow> api_error" where
  "api_forbidden_with_message msg = \<lparr>api_status = 403, api_code = ''forbidden'', api_message = msg\<rparr>"

definition api_forbidden :: api_error where
  "api_forbidden = \<lparr>api_status = 403, api_code = ''forbidden'', api_message = ''request is not authorized''\<rparr>"

definition api_unauthorized :: api_error where
  "api_unauthorized =
     \<lparr>api_status = 401, api_code = ''unauthorized'', api_message = ''a valid admin credential is required''\<rparr>"

definition api_not_found :: api_error where
  "api_not_found = \<lparr>api_status = 404, api_code = ''not_found'', api_message = ''record was not found''\<rparr>"

definition api_internal :: api_error where
  "api_internal = \<lparr>api_status = 500, api_code = ''internal_error'', api_message = ''request failed''\<rparr>"

definition is_admin_host :: "admin_config option \<Rightarrow> http_request \<Rightarrow> bool" where
  "is_admin_host admin req =
     (case admin of None \<Rightarrow> False | Some cfg \<Rightarrow> first_header (rq_host req) = Some (adm_host cfg))"

definition ends_with :: "string \<Rightarrow> string \<Rightarrow> bool" where
  "ends_with s t \<longleftrightarrow> drop (length s - length t) s = t \<and> length t \<le> length s"

definition scheme_for_host :: "string \<Rightarrow> string" where
  "scheme_for_host host =
     (let host_part = (case strip_prefix ''['' host of
                         Some rest \<Rightarrow> hd (split_on (CHR '']'') rest)
                       | None \<Rightarrow> hd (split_on (CHR '':'') host))
      in if host_part = ''localhost'' \<or> ends_with host_part ''.localhost'' \<or> host_part = ''::1'' \<or>
            starts_with host_part ''127.''
         then ''http'' else ''https'')"

definition canonical_url :: "string \<Rightarrow> string \<Rightarrow> string" where
  "canonical_url host path = scheme_for_host host @ ''://'' @ host @ path"

definition admin_api_origin :: "string \<Rightarrow> string" where
  "admin_api_origin host = scheme_for_host host @ ''://'' @ host"

definition origin_matches_host :: "string \<Rightarrow> string \<Rightarrow> bool" where
  "origin_matches_host origin host \<longleftrightarrow> origin = scheme_for_host host @ ''://'' @ host"

definition nostr_credential :: "string \<Rightarrow> string option" where
  "nostr_credential v =
     (case split_once (CHR '' '') v of
        None \<Rightarrow> None
      | Some (scheme, credential) \<Rightarrow>
          (let c = dropWhile (\<lambda>x. x = CHR '' '') credential in
           if eq_ignore_ascii_case scheme ''Nostr'' \<and> c \<noteq> [] then Some c else None))"

definition authorize_nip98 ::
  "'u auth_env \<Rightarrow> nat \<Rightarrow> admin_config \<Rightarrow> http_request \<Rightarrow> string \<Rightarrow> string \<Rightarrow> string option \<Rightarrow>
   (api_error, pubkey \<times> string) result" where
  "authorize_nip98 env now_ms cfg req path mthd raw_body =
     (case rq_authorization req of
        [hv] \<Rightarrow>
          (case Option.bind hv nostr_credential of
             None \<Rightarrow> Err api_unauthorized
           | Some auth_str \<Rightarrow>
               (case Option.bind (base64_decode env auth_str) (from_utf8 env) of
                  None \<Rightarrow> Err api_unauthorized
                | Some event_json \<Rightarrow>
                    (case parse_event env event_json of
                       Inl e \<Rightarrow> Err api_unauthorized
                     | Inr ev \<Rightarrow>
                         if raw_body \<noteq> None \<and> \<not> list_ex (tag_is ''payload'') (event_tags ev)
                         then Err api_unauthorized
                         else
                           (case verify_nip98_event env now_ms event_json (canonical_url (adm_host cfg) path) mthd raw_body of
                              Inl e \<Rightarrow> Err api_unauthorized
                            | Inr pk \<Rightarrow> Ok (pk, event_id ev)))))
      | _ \<Rightarrow> Err api_unauthorized)"

text \<open>\<open>get_relay_operator\<close> is the database's answer: an error, no row, or the role text of the row.\<close>

definition resolve_admin_principal ::
  "operator_config \<Rightarrow> (pubkey \<Rightarrow> (string, string option) result) \<Rightarrow> pubkey \<Rightarrow> (api_error, admin_principal) result" where
  "resolve_admin_principal cfg get_relay_operator pk =
     (if pk \<in> set (relay_operator_pubkeys cfg)
      then Ok \<lparr>ap_pubkey = pk, ap_role = Operator, ap_source = FromConfig\<rparr>
      else if relay_operator_pubkeys cfg = [] \<and> relay_owner_pubkey cfg = Some pk
      then Ok \<lparr>ap_pubkey = pk, ap_role = Operator, ap_source = OwnerFallback\<rparr>
      else
        (case get_relay_operator pk of
           Inl e \<Rightarrow> Err api_internal
         | Inr None \<Rightarrow> Err api_forbidden
         | Inr (Some role) \<Rightarrow>
             if role = ''operator'' then Ok \<lparr>ap_pubkey = pk, ap_role = Operator, ap_source = FromDb\<rparr>
             else if role = ''moderator'' then Ok \<lparr>ap_pubkey = pk, ap_role = Moderator, ap_source = FromDb\<rparr>
             else Err api_forbidden))"

definition claim_nip98_replay :: "redis_fault \<Rightarrow> nat \<Rightarrow> string \<Rightarrow> redis \<Rightarrow> (api_error, unit) result \<times> redis" where
  "claim_nip98_replay fault now_ms eid m =
     (case try_mark_in_scope fault now_ms ADMIN_REPLAY_SCOPE eid DEFAULT_REPLAY_TTL_SECS m of
        (Inr True, m1) \<Rightarrow> (Ok (), m1)
      | (Inr False, m1) \<Rightarrow> (Err api_unauthorized, m1)
      | (Inl e, m1) \<Rightarrow> (Err api_unauthorized, m1))"

definition origin_refused :: "admin_config \<Rightarrow> http_request \<Rightarrow> bool" where
  "origin_refused cfg req \<longleftrightarrow>
     (case rq_origin req of
        [] \<Rightarrow> False
      | v # _ \<Rightarrow> (case v of None \<Rightarrow> True | Some origin \<Rightarrow> \<not> origin_matches_host origin (adm_host cfg)))"

definition admin_credential ::
  "'u auth_env \<Rightarrow> operator_config \<Rightarrow> (pubkey \<Rightarrow> (string, string option) result) \<Rightarrow> nat \<Rightarrow> admin_config \<Rightarrow> http_request \<Rightarrow>
   string \<Rightarrow> string \<Rightarrow> string option \<Rightarrow> (api_error, (admin_principal \<times> string) option) result" where
  "admin_credential env cfg get_relay_operator now_ms acfg req path_and_query mthd raw_body =
     (case adm_auth acfg of
        AuthDisabled \<Rightarrow> Ok None
      | AuthNip98 \<Rightarrow>
          and_then (authorize_nip98 env now_ms acfg req (ADMIN_API_PREFIX @ path_and_query) mthd raw_body) (\<lambda>(pk, eid).
          and_then (resolve_admin_principal cfg get_relay_operator pk) (\<lambda>p. Ok (Some (p, eid)))))"

definition authorize ::
  "'u auth_env \<Rightarrow> operator_config \<Rightarrow> (pubkey \<Rightarrow> (string, string option) result) \<Rightarrow> redis_fault \<Rightarrow> nat \<Rightarrow> nat \<Rightarrow>
   admin_config option \<Rightarrow> http_request \<Rightarrow> string \<Rightarrow> string \<Rightarrow> string option \<Rightarrow> redis \<Rightarrow>
   (api_error, admin_principal option) result \<times> redis" where
  "authorize env cfg get_relay_operator fault now_ms redis_ms admin req path_and_query mthd raw_body m =
     (case admin of
        None \<Rightarrow> (Err api_not_found, m)
      | Some acfg \<Rightarrow>
          try_in m (admin_credential env cfg get_relay_operator now_ms acfg req path_and_query mthd raw_body) (\<lambda>cred.
          if \<not> is_admin_host admin req then (Err api_forbidden, m)
          else if origin_refused acfg req then (Err api_forbidden, m)
          else
            (case cred of
               None \<Rightarrow> (Ok None, m)
             | Some (p, eid) \<Rightarrow>
                 (case claim_nip98_replay fault redis_ms eid m of
                    (Inl e, m1) \<Rightarrow> (Err e, m1)
                  | (Inr u, m1) \<Rightarrow> (Ok (Some p), m1)))))"

definition require_mutation_principal :: "admin_principal option \<Rightarrow> (api_error, admin_principal) result" where
  "require_mutation_principal p =
     (case p of
        None \<Rightarrow> Err (api_forbidden_with_message ''mutations require BUZZ_ADMIN_AUTH=nip98'')
      | Some x \<Rightarrow> Ok x)"

definition require_operator :: "admin_principal \<Rightarrow> (api_error, unit) result" where
  "require_operator p =
     (if ap_role p = Operator then Ok ()
      else Err (api_forbidden_with_message ''staffing endpoints require operator role''))"

section \<open>Rate limits\<close>

record rate_limit_result =
  rl_allowed :: bool
  rl_current :: nat
  rl_limit :: nat
  rl_reset_in_secs :: nat

datatype limit_type = Messages | ApiCalls | GifSearches | WsEvents | IpConnections

fun key_suffix :: "limit_type \<Rightarrow> string" where
  "key_suffix Messages = ''msg''"
| "key_suffix ApiCalls = ''api''"
| "key_suffix GifSearches = ''gif''"
| "key_suffix WsEvents = ''ws''"
| "key_suffix IpConnections = ''conn''"

definition rate_limit_key :: "tenant_context \<Rightarrow> pubkey \<Rightarrow> limit_type \<Rightarrow> string" where
  "rate_limit_key ctx pk lt = ''buzz:'' @ tc_community ctx @ '':ratelimit:'' @ pk @ '':'' @ key_suffix lt"

definition ip_rate_limit_key :: "string \<Rightarrow> string" where
  "ip_rate_limit_key ip = ''buzz:ratelimit:ip:'' @ ip @ '':conn''"

text \<open>The script: count, start the window at the first count, and report the rest of the window.\<close>

definition rate_limit_script :: "nat \<Rightarrow> string \<Rightarrow> nat \<Rightarrow> redis \<Rightarrow> (nat \<times> int) \<times> redis" where
  "rate_limit_script now_ms k window_secs m =
     (let (n, m1) = redis_incr now_ms k m;
          m2 = (if n = 1 then redis_expire now_ms k window_secs m1 else m1)
      in ((n, redis_ttl now_ms k m2), m2))"

text \<open>The two commands may fail separately.\<close>

definition run_rate_limit ::
  "redis_fault \<Rightarrow> redis_fault \<Rightarrow> nat \<Rightarrow> string \<Rightarrow> nat \<Rightarrow> nat \<Rightarrow> redis \<Rightarrow> (auth_error, rate_limit_result) result \<times> redis" where
  "run_rate_limit fault repair_fault now_ms k window_secs limit m =
     (let ((n, ttl), m1) = rate_limit_script now_ms k window_secs m;
          answer = (\<lambda>reset. \<lparr>rl_allowed = n \<le> limit, rl_current = n, rl_limit = limit, rl_reset_in_secs = reset\<rparr>);
          m2 = redis_expire now_ms k window_secs m1
      in case fault of
           PoolFault e \<Rightarrow> (Err (Internal (''Redis pool: '' @ e)), m)
         | CommandFault e executed \<Rightarrow>
             (Err (Internal (''Redis rate limit script: '' @ e)), if executed then m1 else m)
         | NoFault \<Rightarrow>
             if ttl < 0 then
               (case repair_fault of
                  NoFault \<Rightarrow> (Ok (answer window_secs), m2)
                | PoolFault e \<Rightarrow> (Err (Internal (''Redis EXPIRE repair: '' @ e)), m1)
                | CommandFault e executed \<Rightarrow> (Err (Internal (''Redis EXPIRE repair: '' @ e)), if executed then m2 else m1))
             else (Ok (answer (nat (max ttl 0))), m1))"

definition check_and_increment ::
  "redis_fault \<Rightarrow> redis_fault \<Rightarrow> nat \<Rightarrow> tenant_context \<Rightarrow> pubkey \<Rightarrow> limit_type \<Rightarrow> nat \<Rightarrow> nat \<Rightarrow> redis \<Rightarrow>
   (auth_error, rate_limit_result) result \<times> redis" where
  "check_and_increment fault repair_fault now_ms ctx pk lt window_secs limit m =
     run_rate_limit fault repair_fault now_ms (rate_limit_key ctx pk lt) window_secs limit m"

definition check_ip_connection ::
  "redis_fault \<Rightarrow> redis_fault \<Rightarrow> nat \<Rightarrow> string \<Rightarrow> nat \<Rightarrow> nat \<Rightarrow> redis \<Rightarrow> (auth_error, rate_limit_result) result \<times> redis" where
  "check_ip_connection fault repair_fault now_ms ip window_secs limit m =
     run_rate_limit fault repair_fault now_ms (ip_rate_limit_key ip) window_secs limit m"

datatype admission_error = Exceeded nat | Unavailable

definition check_principal ::
  "redis_fault \<Rightarrow> redis_fault \<Rightarrow> nat \<Rightarrow> tenant_context \<Rightarrow> pubkey \<Rightarrow> limit_type \<Rightarrow> nat \<Rightarrow> nat \<Rightarrow> redis \<Rightarrow>
   (admission_error, unit) result \<times> redis" where
  "check_principal fault repair_fault now_ms ctx pk lt window_secs limit m =
     (case check_and_increment fault repair_fault now_ms ctx pk lt window_secs limit m of
        (Inr r, m1) \<Rightarrow> (if rl_allowed r then (Ok (), m1) else (Err (Exceeded (rl_reset_in_secs r)), m1))
      | (Inl e, m1) \<Rightarrow> (Err Unavailable, m1))"

definition WS_BURST_WINDOW_SECS :: nat where "WS_BURST_WINDOW_SECS = 5"

definition ws_admission_budget :: "nat \<Rightarrow> nat \<times> nat" where
  "ws_admission_budget per_second_limit =
     (WS_BURST_WINDOW_SECS, min (per_second_limit * WS_BURST_WINDOW_SECS) (2 ^ 64 - 1))"

definition enforce_http_admission ::
  "redis_fault \<Rightarrow> redis_fault \<Rightarrow> nat \<Rightarrow> tenant_context \<Rightarrow> pubkey \<Rightarrow> nat \<Rightarrow> redis \<Rightarrow> (http_error, unit) result \<times> redis" where
  "enforce_http_admission fault repair_fault now_ms ctx pk limit m =
     (case check_principal fault repair_fault now_ms ctx pk ApiCalls 60 limit m of
        (Inr u, m1) \<Rightarrow> (Ok (), m1)
      | (Inl (Exceeded reset), m1) \<Rightarrow>
          (Err (429, ''rate-limited: quota exceeded; retry in '' @ nat_to_string reset @ ''s''), m1)
      | (Inl Unavailable, m1) \<Rightarrow> (Err (503, ''rate-limited: shared admission unavailable''), m1))"

section \<open>Scopes\<close>

lemma scope_text_kept: "scope_as_str (scope_from_str s) = s"
  by (simp add: scope_from_str_def)

lemma scope_roundtrip: "s \<in> set all_known \<Longrightarrow> scope_from_str (scope_as_str s) = s"
  by (auto simp: all_known_def scope_from_str_def)

lemma non_admin_scopes: "set all_non_admin = set all_known - {AdminChannels, AdminUsers}"
  by (auto simp: all_known_def all_non_admin_def)

section \<open>What a verified request says\<close>

definition within_tolerance :: "nat \<Rightarrow> event \<Rightarrow> bool" where
  "within_tolerance now_ms ev \<longleftrightarrow> created_at ev \<le> now_ms div 1000 + 60 \<and> now_ms div 1000 \<le> created_at ev + 60"

lemma abs_diff_tolerance: "\<not> abs_diff (now_ms div 1000) (created_at ev) > TIMESTAMP_TOLERANCE_SECS \<longleftrightarrow> within_tolerance now_ms ev"
  by (auto simp: abs_diff_def within_tolerance_def TIMESTAMP_TOLERANCE_SECS_def)

lemma find_first: "find P xs = (case filter P xs of [] \<Rightarrow> None | x # _ \<Rightarrow> Some x)"
  by (induction xs) auto

lemma first_tag_content_named:
  "first_tag_content k ev = (case tags_named k ev of [] \<Rightarrow> None | t # _ \<Rightarrow> tag_content t)"
  by (auto simp: first_tag_content_def tags_named_def find_first split: list.splits)

text \<open>
  The event speaks for the request: its only \<open>u\<close> tag is the URL, its only \<open>method\<close> tag the method,
  and a payload tag with a value is the digest of the body.
\<close>

definition signed_for :: "'u auth_env \<Rightarrow> event \<Rightarrow> string \<Rightarrow> string \<Rightarrow> string option \<Rightarrow> bool" where
  "signed_for env ev url mthd body \<longleftrightarrow>
     (\<exists>t u. tags_named ''u'' ev = [t] \<and> tag_content t = Some u \<and> normalize_url env u = normalize_url env url) \<and>
     (\<exists>t v. tags_named ''method'' ev = [t] \<and> tag_content t = Some v \<and> eq_ignore_ascii_case v mthd) \<and>
     (tags_named ''payload'' ev = [] \<or>
      (\<exists>t. tags_named ''payload'' ev = [t] \<and>
         (case (tag_content t, body) of (Some h, Some b) \<Rightarrow> h = sha256_hex env b | _ \<Rightarrow> True)))"

lemma length_one_iff: "length xs = 1 \<longleftrightarrow> (\<exists>x. xs = [x])"
  by (cases xs) auto

lemma check_u_tag_Ok:
  "check_u_tag env ev url = Ok () \<longleftrightarrow>
     (\<exists>t u. tags_named ''u'' ev = [t] \<and> tag_content t = Some u \<and> normalize_url env u = normalize_url env url)"
  by (cases "tags_named ''u'' ev")
    (auto simp: check_u_tag_def first_tag_content_named split: option.splits if_splits)

lemma check_method_tag_Ok:
  "check_method_tag ev mthd = Ok () \<longleftrightarrow>
     (\<exists>t v. tags_named ''method'' ev = [t] \<and> tag_content t = Some v \<and> eq_ignore_ascii_case v mthd)"
  by (cases "tags_named ''method'' ev")
    (auto simp: check_method_tag_def first_tag_content_named split: option.splits if_splits)

lemma check_payload_tag_Ok:
  "check_payload_tag env ev body = Ok () \<longleftrightarrow>
     tags_named ''payload'' ev = [] \<or>
     (\<exists>t. tags_named ''payload'' ev = [t] \<and>
        (case (tag_content t, body) of (Some h, Some b) \<Rightarrow> h = sha256_hex env b | _ \<Rightarrow> True))"
proof (cases "tags_named ''payload'' ev")
  case (Cons t ts)
  then show ?thesis
    by (cases ts; cases body; cases "tag_content t")
      (auto simp: check_payload_tag_def first_tag_content_named split: if_splits)
qed (simp add: check_payload_tag_def first_tag_content_named)

lemma verify_nip98_event_Ok:
  "verify_nip98_event env now_ms json url mthd body = Ok pk \<longleftrightarrow>
     (\<exists>ev. parse_event env json = Ok ev \<and> event_kind ev = KIND_HTTP_AUTH \<and> verify_sig env ev \<and>
        within_tolerance now_ms ev \<and> signed_for env ev url mthd body \<and> pk = event_pubkey ev)"
proof (cases "parse_event env json")
  case (Inr ev)
  have "verify_nip98_event env now_ms json url mthd body = Ok pk \<longleftrightarrow>
      event_kind ev = KIND_HTTP_AUTH \<and> verify_sig env ev \<and>
      \<not> abs_diff (now_ms div 1000) (created_at ev) > TIMESTAMP_TOLERANCE_SECS \<and>
      check_u_tag env ev url = Ok () \<and> check_method_tag ev mthd = Ok () \<and> check_payload_tag env ev body = Ok () \<and>
      pk = event_pubkey ev"
    by (auto simp: verify_nip98_event_def Inr)
  then show ?thesis
    using Inr by (simp only: abs_diff_tolerance check_u_tag_Ok check_method_tag_Ok check_payload_tag_Ok signed_for_def) auto
qed (simp add: verify_nip98_event_def)

section \<open>The seen-set\<close>

text \<open>A key is held until a point in time.\<close>

definition held_until :: "nat \<Rightarrow> string \<Rightarrow> redis \<Rightarrow> bool" where
  "held_until e k m \<longleftrightarrow> (\<exists>v t. m k = Some (v, Some t) \<and> 1 \<le> v \<and> e \<le> t)"

datatype redis_use =
    Mark redis_fault string string nat
  | Count redis_fault redis_fault string nat nat

fun use_redis :: "nat \<times> redis_use \<Rightarrow> redis \<Rightarrow> redis" where
  "use_redis (now_ms, Mark fault scope eid ttl) m = snd (try_mark_in_scope fault now_ms scope eid ttl m)"
| "use_redis (now_ms, Count fault repair k window limit) m = snd (run_rate_limit fault repair now_ms k window limit m)"

lemma held_get: "held_until e k m \<Longrightarrow> now_ms < e \<Longrightarrow> \<exists>v t. redis_get now_ms m k = Some (v, Some t) \<and> 1 \<le> v \<and> e \<le> t"
  by (auto simp: held_until_def redis_get_def)

lemma held_set_nx: "held_until e k m \<Longrightarrow> now_ms < e \<Longrightarrow> held_until e k (snd (redis_set_nx_ex now_ms j ttl m))"
  using held_get [of e k m now_ms]
  by (cases "j = k") (auto simp: redis_set_nx_ex_def held_until_def split: option.splits)

lemma held_incr: "held_until e k m \<Longrightarrow> now_ms < e \<Longrightarrow> held_until e k (snd (redis_incr now_ms j m))"
  using held_get [of e k m now_ms]
  by (cases "j = k") (auto simp: redis_incr_def held_until_def split: option.splits)

lemma redis_get_incr:
  "redis_get now_ms (snd (redis_incr now_ms k m)) k = Some (fst (redis_incr now_ms k m),
     case redis_get now_ms m k of Some (v, t) \<Rightarrow> t | None \<Rightarrow> None)"
  by (auto simp: redis_incr_def redis_get_def split: option.splits if_splits)

lemma held_script: "held_until e k m \<Longrightarrow> now_ms < e \<Longrightarrow> held_until e k (snd (rate_limit_script now_ms j w m))"
proof -
  assume h: "held_until e k m" "now_ms < e"
  show ?thesis
  proof (cases "j = k")
    case True
    from held_get [OF h] obtain v t where "redis_get now_ms m k = Some (v, Some t)" "1 \<le> v" by blast
    then show ?thesis using held_incr [OF h, of j] True by (simp add: rate_limit_script_def redis_incr_def Let_def)
  next
    case False
    then show ?thesis
      using held_incr [OF h, of j]
      by (auto simp: rate_limit_script_def Let_def redis_expire_def held_until_def split: prod.splits option.splits)
  qed
qed

lemma held_expire_other: "j \<noteq> k \<Longrightarrow> held_until e k m \<Longrightarrow> held_until e k (redis_expire now_ms j w m)"
  by (auto simp: redis_expire_def held_until_def split: option.splits)

lemma held_use:
  assumes h: "held_until e k m" and now: "fst u < e"
  shows "held_until e k (use_redis u m)"
proof (cases u)
  case (Pair now_ms op)
  with now have n: "now_ms < e" by simp
  show ?thesis
  proof (cases op)
    case (Mark fault scope eid ttl)
    then show ?thesis
      using h held_set_nx [OF h n]
      by (auto simp: Pair try_mark_in_scope_def Let_def split: redis_fault.splits prod.splits option.splits)
        (metis snd_conv)+
  next
    case (Count fault repair j w l)
    let ?m1 = "snd (rate_limit_script now_ms j w m)"
    have h1: "held_until e k ?m1" by (rule held_script [OF h n])
    have "held_until e k (redis_expire now_ms j w ?m1)" if "snd (fst (rate_limit_script now_ms j w m)) < 0"
    proof (cases "j = k")
      case True
      from held_get [OF h1 n] obtain v t where g: "redis_get now_ms ?m1 k = Some (v, Some t)" by blast
      have "snd (fst (rate_limit_script now_ms j w m)) = redis_ttl now_ms j ?m1"
        by (simp add: rate_limit_script_def Let_def split: prod.splits)
      with that g True show ?thesis by (simp add: redis_ttl_def)
    qed (use h1 held_expire_other in blast)
    with h h1 show ?thesis
      by (auto simp: Pair Count run_rate_limit_def Let_def split: redis_fault.splits prod.splits)
  qed
qed

lemma held_uses:
  "held_until e k m \<Longrightarrow> (\<And>u. u \<in> set us \<Longrightarrow> fst u < e) \<Longrightarrow> held_until e k (fold use_redis us m)"
  by (induction us arbitrary: m) (auto intro: held_use)

lemma try_mark_True:
  assumes "try_mark_in_scope fault now_ms scope eid ttl m = (Ok True, m')"
  shows "redis_get now_ms m (nip98_replay_key_for_scope scope eid) = None"
    and "held_until (now_ms + clamp_ttl ttl * 1000) (nip98_replay_key_for_scope scope eid) m'"
  using assms
  by (auto simp: try_mark_in_scope_def redis_set_nx_ex_def held_until_def Let_def
      split: redis_fault.splits option.splits if_splits)

text \<open>
  A mark that succeeds again comes no earlier than the time to live after the first one,
  whatever the relays send to Redis in between.
\<close>

lemma marks_apart:
  assumes "try_mark_in_scope f1 t1 scope eid ttl m = (Ok True, m1)"
    and "\<And>u. u \<in> set us \<Longrightarrow> fst u \<le> t2"
    and "try_mark_in_scope f2 t2 scope eid ttl2 (fold use_redis us m1) = (Ok True, m2)"
  shows "t1 + clamp_ttl ttl * 1000 \<le> t2"
proof (rule ccontr)
  let ?k = "nip98_replay_key_for_scope scope eid" and ?e = "t1 + clamp_ttl ttl * 1000"
  assume "\<not> ?e \<le> t2"
  then have t: "t2 < ?e" by simp
  have "held_until ?e ?k (fold use_redis us m1)"
    using try_mark_True(2) [OF assms(1)] assms(2) t by (intro held_uses) (auto intro: le_less_trans)
  from held_get [OF this t] try_mark_True(1) [OF assms(3)] show False by auto
qed

lemma tolerance_span:
  assumes "within_tolerance n1 ev" and "within_tolerance n2 ev"
  shows "n2 < n1 + 121000"
proof -
  have "n2 div 1000 \<le> n1 div 1000 + 120" using assms by (simp add: within_tolerance_def)
  then show ?thesis by linarith
qed

section \<open>The operator API\<close>

definition presented :: "'u auth_env \<Rightarrow> http_request \<Rightarrow> event option" where
  "presented env req =
     Option.bind (first_header (rq_authorization req)) (\<lambda>h.
     Option.bind (strip_prefix ''Nostr '' h) (\<lambda>a.
     Option.bind (base64_decode env a) (\<lambda>b.
     Option.bind (from_utf8 env b) (\<lambda>j.
       case parse_event env j of Inl e \<Rightarrow> None | Inr ev \<Rightarrow> Some ev))))"

definition request_url :: "string \<Rightarrow> string \<Rightarrow> string option \<Rightarrow> string" where
  "request_url origin path raw_query =
     origin @ (case raw_query of Some q \<Rightarrow> if q \<noteq> [] then path @ ''?'' @ q else path | None \<Rightarrow> path)"

text \<open>The event is a valid credential for a request with this URL, method and body at this time.\<close>

definition credential_for ::
  "'u auth_env \<Rightarrow> nat \<Rightarrow> event \<Rightarrow> string \<Rightarrow> string \<Rightarrow> string option \<Rightarrow> bool" where
  "credential_for env now_ms ev url mthd body \<longleftrightarrow>
     event_kind ev = KIND_HTTP_AUTH \<and> verify_sig env ev \<and> within_tolerance now_ms ev \<and>
     signed_for env ev url mthd body"

lemma payload_bound:
  assumes "credential_for env now_ms ev url mthd (Some b)" and "tags_named ''payload'' ev \<noteq> []"
  shows "\<exists>t. tags_named ''payload'' ev = [t] \<and> (tag_content t = None \<or> tag_content t = Some (sha256_hex env b))"
proof -
  obtain t where t: "tags_named ''payload'' ev = [t]" "case tag_content t of Some h \<Rightarrow> h = sha256_hex env b | None \<Rightarrow> True"
    using assms by (auto simp: credential_for_def signed_for_def split: option.splits)
  then show ?thesis by (cases "tag_content t") auto
qed

lemma payload_tag_named: "list_ex (tag_is k) (event_tags ev) \<longleftrightarrow> tags_named k ev \<noteq> []"
  by (auto simp: tags_named_def list_ex_iff filter_empty_conv)

lemma bridge_auth_Ok:
  "verify_bridge_auth_with_options env now_ms req mthd url body True need_payload = Ok v \<longleftrightarrow>
     (\<exists>ev. presented env req = Some ev \<and> credential_for env now_ms ev url mthd body \<and>
        (need_payload \<longrightarrow> tags_named ''payload'' ev \<noteq> []) \<and>
        v = \<lparr>vb_pubkey = event_pubkey ev, vb_event_id = event_id ev, vb_signed_created_at = Some (created_at ev)\<rparr>)"
proof -
  have "(case verify_nip98_event env now_ms j url mthd body of Inl e \<Rightarrow> Err (m e)
        | Inr pk \<Rightarrow> Ok \<lparr>vb_pubkey = pk, vb_event_id = event_id ev, vb_signed_created_at = Some (created_at ev)\<rparr>) = Ok v \<longleftrightarrow>
      credential_for env now_ms ev url mthd body \<and>
      v = \<lparr>vb_pubkey = event_pubkey ev, vb_event_id = event_id ev, vb_signed_created_at = Some (created_at ev)\<rparr>"
    if "parse_event env j = Ok ev" for j ev and m :: "auth_error \<Rightarrow> http_error"
  proof -
    have "(\<exists>pk. verify_nip98_event env now_ms j url mthd body = Ok pk \<and> P pk) \<longleftrightarrow>
        credential_for env now_ms ev url mthd body \<and> P (event_pubkey ev)" for P
      using that by (auto simp: verify_nip98_event_Ok credential_for_def)
    from this [of "\<lambda>pk. \<lparr>vb_pubkey = pk, vb_event_id = event_id ev, vb_signed_created_at = Some (created_at ev)\<rparr> = v"]
    show ?thesis by (auto split: sum.splits)
  qed
  then show ?thesis
    by (auto simp: verify_bridge_auth_with_options_def presented_def payload_tag_named
        split: option.splits bind_splits sum.splits)
qed

lemma operator_request_Ok:
  assumes "authorize_operator_request env cfg fault now_ms redis_ms req mthd path raw_query body m = (Ok pk, m1)"
  obtains ev origin where "presented env req = Some ev" "relay_operator_api_origin cfg = Some origin"
    "credential_for env now_ms ev (request_url origin path raw_query) mthd body"
    "body \<noteq> None \<longrightarrow> tags_named ''payload'' ev \<noteq> []" "pk = event_pubkey ev" "pk \<in> set (relay_operator_pubkeys cfg)"
    "try_mark_in_scope fault redis_ms OPERATOR_REPLAY_SCOPE (event_id ev) DEFAULT_REPLAY_TTL_SECS m = (Ok True, m1)"
proof -
  obtain origin where o: "relay_operator_api_origin cfg = Some origin"
    using assms by (auto simp: authorize_operator_request_def split: option.splits)
  then obtain v where v: "verify_bridge_auth_with_options env now_ms req mthd (request_url origin path raw_query) body True
        (body \<noteq> None) = Ok v"
    and r: "(case check_operator_replay fault redis_ms (vb_event_id v) m of (Inl e, m1) \<Rightarrow> (Err e, m1)
         | (Inr u, m1) \<Rightarrow> if vb_pubkey v \<notin> set (relay_operator_pubkeys cfg)
             then (Err (403, ''actor not authorized: not a relay operator''), m1) else (Ok (vb_pubkey v), m1)) = (Ok pk, m1)"
    using assms by (auto simp: authorize_operator_request_def request_url_def try_in_eq_Ok Let_def)
  from v obtain ev where "presented env req = Some ev"
    "credential_for env now_ms ev (request_url origin path raw_query) mthd body"
    "body \<noteq> None \<longrightarrow> tags_named ''payload'' ev \<noteq> []"
    "vb_pubkey v = event_pubkey ev" "vb_event_id v = event_id ev"
    unfolding bridge_auth_Ok by auto
  moreover have "vb_pubkey v \<in> set (relay_operator_pubkeys cfg)" "pk = vb_pubkey v"
    "try_mark_in_scope fault redis_ms OPERATOR_REPLAY_SCOPE (vb_event_id v) DEFAULT_REPLAY_TTL_SECS m = (Ok True, m1)"
    using r by (auto simp: check_operator_replay_def split: prod.splits sum.splits bool.splits if_splits)
  ultimately show ?thesis using o that by auto
qed

text \<open>
  C32: A signed request is honoured again only after two minutes. If the operator API accepts the
  same signed event twice, whatever the relays send to the shared Redis in between and
  whichever commands fail, then the second acceptance is at least 120 seconds after the first,
  and the two verifications are less than 121 seconds apart. The body of each accepted request
  is the one whose digest was signed, unless the payload tag has no value.
\<close>

theorem nip98_replay_window:
  assumes "authorize_operator_request env cfg f1 n1 t1 req1 mthd1 path1 query1 body1 m = (Ok pk1, m1)"
    and "\<forall>u \<in> set uses. fst u \<le> t2"
    and "authorize_operator_request env cfg f2 n2 t2 req2 mthd2 path2 query2 body2 (fold use_redis uses m1) = (Ok pk2, m2)"
    and "presented env req1 = presented env req2"
  shows "t1 + 120000 \<le> t2 \<and> n2 < n1 + 121000 \<and>
    (\<forall>ev b. presented env req2 = Some ev \<longrightarrow> body2 = Some b \<longrightarrow>
       (\<exists>t. tags_named ''payload'' ev = [t] \<and> (tag_content t = None \<or> tag_content t = Some (sha256_hex env b))))"
proof -
  from assms(1) obtain ev o1 where 1: "presented env req1 = Some ev"
    "credential_for env n1 ev (request_url o1 path1 query1) mthd1 body1"
    "try_mark_in_scope f1 t1 OPERATOR_REPLAY_SCOPE (event_id ev) DEFAULT_REPLAY_TTL_SECS m = (Ok True, m1)"
    by (rule operator_request_Ok)
  from assms(3) obtain ev2 o2 where 2: "presented env req2 = Some ev2"
    "credential_for env n2 ev2 (request_url o2 path2 query2) mthd2 body2" "body2 \<noteq> None \<longrightarrow> tags_named ''payload'' ev2 \<noteq> []"
    "try_mark_in_scope f2 t2 OPERATOR_REPLAY_SCOPE (event_id ev2) DEFAULT_REPLAY_TTL_SECS (fold use_redis uses m1) = (Ok True, m2)"
    by (rule operator_request_Ok)
  have e: "ev2 = ev" using 1(1) 2(1) assms(4) by simp
  have "t1 + clamp_ttl DEFAULT_REPLAY_TTL_SECS * 1000 \<le> t2"
    using marks_apart [OF 1(3) _ 2(4) [unfolded e]] assms(2) by blast
  moreover have "n2 < n1 + 121000"
    using tolerance_span [of n1 ev n2] 1(2) 2(2) e by (simp add: credential_for_def)
  moreover have "\<exists>t. tags_named ''payload'' ev = [t] \<and> (tag_content t = None \<or> tag_content t = Some (sha256_hex env b))"
    if "body2 = Some b" for b
    using payload_bound [of env n2 ev2] 2(2,3) that e by simp
  ultimately show ?thesis
    using 2(1) e by (simp add: clamp_ttl_def DEFAULT_REPLAY_TTL_SECS_def MAX_REPLAY_TTL_SECS_def)
qed

text \<open>A concrete environment in which one event, signed for the future, is presented.\<close>

definition sample_auth_event :: "tag list \<Rightarrow> event" where
  "sample_auth_event payload = \<lparr>event_id = ''e'', event_pubkey = ''k'', created_at = 1060, event_kind = 27235,
     event_tags = [[''u'', ''o/p''], [''method'', ''POST'']] @ payload, content = [], event_sig = []\<rparr>"

definition sample_auth_env :: "tag list \<Rightarrow> string auth_env" where
  "sample_auth_env payload =
     \<lparr>parse_event = (\<lambda>j. Ok (sample_auth_event payload)), id_matches = (\<lambda>ev. True), signature_matches = (\<lambda>ev. True),
      url_parse = Some, url_path = (\<lambda>u. u), url_set_path = (\<lambda>p u. p), url_host_str = (\<lambda>u. None), url_set_host = (\<lambda>h u. u),
      url_to_string = (\<lambda>u. u), to_lowercase = (\<lambda>x. x), sha256_hex = (\<lambda>b. b), base64_decode = Some, from_utf8 = Some,
      pubkey_from_hex = Some\<rparr>"

definition sample_operators :: operator_config where
  "sample_operators = \<lparr>relay_operator_api_origin = Some ''o'', relay_operator_pubkeys = [''k''], relay_owner_pubkey = None\<rparr>"

definition sample_request :: http_request where
  "sample_request = \<lparr>rq_authorization = [Some ''Nostr x''], rq_x_pubkey = [], rq_host = [], rq_origin = []\<rparr>"

lemma sample_credential:
  "payload = [] \<or> payload = [[''payload'']] \<Longrightarrow> within_tolerance n (sample_auth_event payload) \<Longrightarrow>
     verify_bridge_auth_with_options (sample_auth_env payload) n sample_request ''POST'' ''o/p'' body True (payload \<noteq> []) =
     Ok \<lparr>vb_pubkey = ''k'', vb_event_id = ''e'', vb_signed_created_at = Some 1060\<rparr>"
proof -
  assume p: "payload = [] \<or> payload = [[''payload'']]" and w: "within_tolerance n (sample_auth_event payload)"
  have "presented (sample_auth_env payload) sample_request = Some (sample_auth_event payload)"
    by (simp add: presented_def sample_auth_env_def sample_request_def first_header_def strip_prefix_def)
  moreover have "credential_for (sample_auth_env payload) n (sample_auth_event payload) ''o/p'' ''POST'' body"
    using p w by (auto simp: credential_for_def signed_for_def tags_named_def tag_is_def tag_content_def verify_sig_def
        sample_auth_env_def sample_auth_event_def KIND_HTTP_AUTH_def eq_ignore_ascii_case_def)
  moreover have "payload \<noteq> [] \<longrightarrow> tags_named ''payload'' (sample_auth_event payload) \<noteq> []"
    using p by (auto simp: tags_named_def tag_is_def sample_auth_event_def)
  ultimately show ?thesis unfolding bridge_auth_Ok by (auto simp: sample_auth_event_def)
qed

lemma sample_accepted:
  assumes "payload = [] \<and> body = None \<or> payload = [[''payload'']] \<and> body \<noteq> None"
    and "within_tolerance n (sample_auth_event payload)" and "redis_get t m ''buzz:operator-management:nip98:e'' = None"
  shows "authorize_operator_request (sample_auth_env payload) sample_operators NoFault n t sample_request ''POST'' ''/p'' None body m =
    (Ok ''k'', m(''buzz:operator-management:nip98:e'' \<mapsto> (1, Some (t + 120000))))"
proof -
  have "verify_bridge_auth_with_options (sample_auth_env payload) n sample_request ''POST'' ''o/p'' body True (body \<noteq> None) =
     Ok \<lparr>vb_pubkey = ''k'', vb_event_id = ''e'', vb_signed_created_at = Some 1060\<rparr>"
    using sample_credential [of payload n body] assms(1,2) by auto
  then show ?thesis using assms(3)
    by (simp add: authorize_operator_request_def sample_operators_def check_operator_replay_def try_mark_in_scope_def
        redis_set_nx_ex_def nip98_replay_key_for_scope_def OPERATOR_REPLAY_SCOPE_def clamp_ttl_def
        DEFAULT_REPLAY_TTL_SECS_def MAX_REPLAY_TTL_SECS_def)
qed

lemma sample_tolerance: "within_tolerance 1000000 (sample_auth_event p)" "within_tolerance 1120000 (sample_auth_event p)"
  by (simp_all add: within_tolerance_def sample_auth_event_def)

theorem nip98_replay_window_witness: "(1000000 :: nat) + 120000 \<le> 1120000 \<and>
   authorize_operator_request (sample_auth_env []) sample_operators NoFault 1000000 1000000 sample_request ''POST'' ''/p'' None None Map.empty =
     (Ok ''k'', [''buzz:operator-management:nip98:e'' \<mapsto> (1, Some 1120000)])"
proof -
  let ?m1 = "[''buzz:operator-management:nip98:e'' \<mapsto> (1 :: nat, Some (1120000 :: nat))]"
  have 1: "authorize_operator_request (sample_auth_env []) sample_operators NoFault 1000000 1000000 sample_request ''POST'' ''/p''
      None None Map.empty = (Ok ''k'', ?m1)"
    using sample_accepted [OF _ sample_tolerance(1), of "[]" None 1000000 Map.empty] by (simp add: redis_get_def)
  have 2: "authorize_operator_request (sample_auth_env []) sample_operators NoFault 1120000 1120000 sample_request ''POST'' ''/p''
      None None (fold use_redis [] ?m1) = (Ok ''k'', ?m1(''buzz:operator-management:nip98:e'' \<mapsto> (1, Some 1240000)))"
    using sample_accepted [OF _ sample_tolerance(2), of "[]" None 1120000 ?m1] by (simp add: redis_get_def)
  from nip98_replay_window [OF 1 _ 2 refl] 1 show ?thesis by simp
qed

text \<open>
  The seen-set forgets an event while it is still valid. An event that is dated sixty seconds
  ahead is accepted, and it is accepted a second time exactly two minutes later: the time to
  live is 120 seconds, while the verification admits 121 different seconds.
\<close>

theorem nip98_replay_gap:
  "let (r1, m1) = authorize_operator_request (sample_auth_env []) sample_operators NoFault 1000000 1000000 sample_request
                    ''POST'' ''/p'' None None Map.empty;
       (r2, m2) = authorize_operator_request (sample_auth_env []) sample_operators NoFault 1120000 1120000 sample_request
                    ''POST'' ''/p'' None None m1
   in r1 = Ok ''k'' \<and> r2 = Ok ''k''"
proof -
  let ?m1 = "[''buzz:operator-management:nip98:e'' \<mapsto> (1 :: nat, Some (1120000 :: nat))]"
  have "redis_get 1120000 ?m1 ''buzz:operator-management:nip98:e'' = None" by (simp add: redis_get_def)
  moreover have "redis_get 1000000 Map.empty ''buzz:operator-management:nip98:e'' = None" by (simp add: redis_get_def)
  ultimately show ?thesis
    using sample_accepted [OF _ sample_tolerance(1), of "[]" None 1000000 Map.empty]
      sample_accepted [OF _ sample_tolerance(2), of "[]" None 1120000 ?m1] by simp
qed

text \<open>
  A payload tag without a value does not bind the body. For a request with a body the API
  insists on a payload tag, but if the signed tag has no value, each body is accepted.
\<close>

theorem empty_payload_tag_unbound:
  "fst (authorize_operator_request (sample_auth_env [[''payload'']]) sample_operators NoFault 1000000 1000000 sample_request
     ''POST'' ''/p'' None (Some body) Map.empty) = Ok ''k''"
  using sample_accepted [OF _ sample_tolerance(1), of "[[''payload'']]" "Some body" 1000000 Map.empty]
  by (simp add: redis_get_def)

section \<open>The admin API\<close>

text \<open>The grants of the deployment: configured operators, else the owner, else the database.\<close>

definition admin_grant ::
  "operator_config \<Rightarrow> (pubkey \<Rightarrow> (string, string option) result) \<Rightarrow> pubkey \<Rightarrow> admin_role \<Rightarrow> admin_source \<Rightarrow> bool" where
  "admin_grant cfg get_relay_operator pk role source \<longleftrightarrow>
     (case source of
        FromConfig \<Rightarrow> role = Operator \<and> pk \<in> set (relay_operator_pubkeys cfg)
      | OwnerFallback \<Rightarrow> role = Operator \<and> relay_operator_pubkeys cfg = [] \<and> relay_owner_pubkey cfg = Some pk
      | FromDb \<Rightarrow>
          pk \<notin> set (relay_operator_pubkeys cfg) \<and>
          \<not> (relay_operator_pubkeys cfg = [] \<and> relay_owner_pubkey cfg = Some pk) \<and>
          get_relay_operator pk = Ok (Some (admin_role_str role)))"

lemma resolve_admin_principal_Ok:
  "resolve_admin_principal cfg db pk = Ok p \<longleftrightarrow> ap_pubkey p = pk \<and> admin_grant cfg db pk (ap_role p) (ap_source p)"
proof -
  have "admin_role_str (ap_role p) = ''operator'' \<longleftrightarrow> ap_role p = Operator"
    "admin_role_str (ap_role p) = ''moderator'' \<longleftrightarrow> ap_role p = Moderator"
    "admin_role_str (ap_role p) \<noteq> ''operator'' \<Longrightarrow> admin_role_str (ap_role p) = ''moderator''"
    by (cases "ap_role p"; simp)+
  then show ?thesis
    by (cases p; cases "ap_source p"; cases "ap_role p")
      (auto simp: resolve_admin_principal_def admin_grant_def split: sum.splits option.splits if_splits)
qed

definition admin_event :: "'u auth_env \<Rightarrow> http_request \<Rightarrow> event option" where
  "admin_event env req =
     (case rq_authorization req of
        [hv] \<Rightarrow>
          Option.bind hv (\<lambda>h. Option.bind (nostr_credential h) (\<lambda>a. Option.bind (base64_decode env a) (\<lambda>b.
          Option.bind (from_utf8 env b) (\<lambda>j. case parse_event env j of Inl e \<Rightarrow> None | Inr ev \<Rightarrow> Some ev))))
      | _ \<Rightarrow> None)"

lemma authorize_nip98_Ok:
  "authorize_nip98 env now_ms cfg req path mthd body = Ok x \<longleftrightarrow>
     (\<exists>ev. admin_event env req = Some ev \<and> credential_for env now_ms ev (canonical_url (adm_host cfg) path) mthd body \<and>
        (body \<noteq> None \<longrightarrow> tags_named ''payload'' ev \<noteq> []) \<and> x = (event_pubkey ev, event_id ev))"
proof -
  have v: "(case verify_nip98_event env now_ms j url mthd body of Inl e \<Rightarrow> Err m | Inr pk \<Rightarrow> Ok (pk, event_id ev)) = Ok x \<longleftrightarrow>
      credential_for env now_ms ev url mthd body \<and> x = (event_pubkey ev, event_id ev)"
    if "parse_event env j = Ok ev" for j ev url and m :: api_error
  proof -
    have "(\<exists>pk. verify_nip98_event env now_ms j url mthd body = Ok pk \<and> P pk) \<longleftrightarrow>
        credential_for env now_ms ev url mthd body \<and> P (event_pubkey ev)" for P
      using that by (auto simp: verify_nip98_event_Ok credential_for_def)
    from this [of "\<lambda>pk. (pk, event_id ev) = x"] show ?thesis by (auto split: sum.splits)
  qed
  show ?thesis
  proof (cases "rq_authorization req")
    case (Cons hv hvs)
    then show ?thesis
      by (cases hvs; cases hv)
        (auto simp: authorize_nip98_def admin_event_def payload_tag_named v split: option.splits bind_splits sum.splits)
  qed (simp add: authorize_nip98_def admin_event_def)
qed

text \<open>
  Who gets into the admin API. A request yields a principal exactly if the API is configured
  with signatures, its only authorization header carries a valid event for this URL, method
  and body, the signer holds a grant (configured operators first, the owner only without
  configured operators, else the database), host and origin are the configured ones, and the
  event is not in the seen-set, to which it is added for two minutes.
\<close>

theorem admin_access_exact:
  "authorize env cfg db fault now_ms redis_ms admin req path mthd body m = (Ok (Some p), m') \<longleftrightarrow>
     (\<exists>acfg ev. admin = Some acfg \<and> adm_auth acfg = AuthNip98 \<and> admin_event env req = Some ev \<and>
        credential_for env now_ms ev (canonical_url (adm_host acfg) (ADMIN_API_PREFIX @ path)) mthd body \<and>
        (body \<noteq> None \<longrightarrow> tags_named ''payload'' ev \<noteq> []) \<and>
        ap_pubkey p = event_pubkey ev \<and> admin_grant cfg db (event_pubkey ev) (ap_role p) (ap_source p) \<and>
        first_header (rq_host req) = Some (adm_host acfg) \<and>
        (rq_origin req = [] \<or> hd (rq_origin req) = Some (admin_api_origin (adm_host acfg))) \<and>
        fault = NoFault \<and> redis_get redis_ms m (nip98_replay_key_for_scope ADMIN_REPLAY_SCOPE (event_id ev)) = None \<and>
        m' = m(nip98_replay_key_for_scope ADMIN_REPLAY_SCOPE (event_id ev) \<mapsto> (1, Some (redis_ms + 120000))))"
proof (cases admin)
  case (Some acfg)
  have claim: "claim_nip98_replay fault redis_ms eid m = (Ok (), m') \<longleftrightarrow>
      fault = NoFault \<and> redis_get redis_ms m (nip98_replay_key_for_scope ADMIN_REPLAY_SCOPE eid) = None \<and>
      m' = m(nip98_replay_key_for_scope ADMIN_REPLAY_SCOPE eid \<mapsto> (1, Some (redis_ms + 120000)))" for eid
    by (auto simp: claim_nip98_replay_def try_mark_in_scope_def redis_set_nx_ex_def clamp_ttl_def DEFAULT_REPLAY_TTL_SECS_def
        MAX_REPLAY_TTL_SECS_def split: redis_fault.splits option.splits)
  have cred: "admin_credential env cfg db now_ms acfg req path mthd body = Ok (Some (p, eid)) \<longleftrightarrow>
      adm_auth acfg = AuthNip98 \<and> (\<exists>ev. admin_event env req = Some ev \<and>
        credential_for env now_ms ev (canonical_url (adm_host acfg) (ADMIN_API_PREFIX @ path)) mthd body \<and>
        (body \<noteq> None \<longrightarrow> tags_named ''payload'' ev \<noteq> []) \<and> eid = event_id ev \<and>
        ap_pubkey p = event_pubkey ev \<and> admin_grant cfg db (event_pubkey ev) (ap_role p) (ap_source p))" for eid
    by (auto simp: admin_credential_def authorize_nip98_Ok resolve_admin_principal_Ok split: admin_auth.splits)
  have origin: "\<not> origin_refused acfg req \<longleftrightarrow>
      rq_origin req = [] \<or> hd (rq_origin req) = Some (admin_api_origin (adm_host acfg))"
    by (auto simp: origin_refused_def origin_matches_host_def admin_api_origin_def split: list.splits option.splits)
  have "authorize env cfg db fault now_ms redis_ms admin req path mthd body m = (Ok (Some p), m') \<longleftrightarrow>
      (\<exists>eid. admin_credential env cfg db now_ms acfg req path mthd body = Ok (Some (p, eid)) \<and>
        first_header (rq_host req) = Some (adm_host acfg) \<and> \<not> origin_refused acfg req \<and>
        claim_nip98_replay fault redis_ms eid m = (Ok (), m'))"
    by (cases "admin_credential env cfg db now_ms acfg req path mthd body")
      (auto simp: authorize_def Some is_admin_host_def split: if_splits option.splits prod.splits sum.splits)
  then show ?thesis unfolding claim cred origin using Some by auto
qed (simp add: authorize_def)

theorem admin_access_exact_witness:
  "authorize ((sample_auth_env [])\<lparr>url_parse := (\<lambda>u. Some ''x'')\<rparr>) sample_operators (\<lambda>pk. Ok None) NoFault 1000000 1000000
     (Some \<lparr>adm_host = ''h'', adm_auth = AuthNip98\<rparr>) (sample_request\<lparr>rq_host := [Some ''h'']\<rparr>) ''/p'' ''POST'' None Map.empty =
   (Ok (Some \<lparr>ap_pubkey = ''k'', ap_role = Operator, ap_source = FromConfig\<rparr>),
    [nip98_replay_key_for_scope ADMIN_REPLAY_SCOPE ''e'' \<mapsto> (1, Some 1120000)])"
proof -
  have "admin_event ((sample_auth_env [])\<lparr>url_parse := (\<lambda>u. Some ''x'')\<rparr>) (sample_request\<lparr>rq_host := [Some ''h'']\<rparr>) =
      Some (sample_auth_event [])"
    by (simp add: admin_event_def sample_request_def sample_auth_env_def nostr_credential_def split_once_def
        eq_ignore_ascii_case_def)
  moreover have "credential_for ((sample_auth_env [])\<lparr>url_parse := (\<lambda>u. Some ''x'')\<rparr>) 1000000 (sample_auth_event []) url ''POST'' None"
    for url
    using sample_tolerance(1)
    by (auto simp: credential_for_def signed_for_def tags_named_def tag_is_def tag_content_def verify_sig_def
        sample_auth_env_def sample_auth_event_def KIND_HTTP_AUTH_def eq_ignore_ascii_case_def normalize_url_def)
  ultimately show ?thesis
    unfolding admin_access_exact
    by (auto simp: sample_request_def first_header_def admin_grant_def sample_operators_def redis_get_def
        sample_auth_event_def intro!: exI [of _ "sample_auth_event []"])
qed

section \<open>Rate limits\<close>

fun rate_calls :: "nat \<Rightarrow> nat \<Rightarrow> string \<Rightarrow> nat list \<Rightarrow> redis \<Rightarrow> (nat \<times> bool) list \<times> redis" where
  "rate_calls w l k [] m = ([], m)"
| "rate_calls w l k (t # ts) m =
     (case run_rate_limit NoFault NoFault t k w l m of
        (r, m1) \<Rightarrow>
          (case rate_calls w l k ts m1 of
             (rs, m2) \<Rightarrow> ((t, case r of Inl e \<Rightarrow> False | Inr x \<Rightarrow> rl_allowed x) # rs, m2)))"

text \<open>The state of a counter: how often it was used in the window that ends at a given time.\<close>

definition counter_next :: "nat \<Rightarrow> nat \<Rightarrow> (nat \<times> nat) option \<Rightarrow> nat \<times> nat" where
  "counter_next w t c = (case c of Some (n, e) \<Rightarrow> if t < e then (n + 1, e) else (1, t + w * 1000) | None \<Rightarrow> (1, t + w * 1000))"

fun counter_calls :: "nat \<Rightarrow> nat \<Rightarrow> nat list \<Rightarrow> (nat \<times> nat) option \<Rightarrow> (nat \<times> bool) list" where
  "counter_calls w l [] c = []"
| "counter_calls w l (t # ts) c =
     (t, fst (counter_next w t c) \<le> l) # counter_calls w l ts (Some (counter_next w t c))"

text \<open>A counter key either does not exist or has a positive count and an expiry.\<close>

definition counter_of :: "string \<Rightarrow> redis \<Rightarrow> (nat \<times> nat) option" where
  "counter_of k m = (case m k of Some (n, Some e) \<Rightarrow> Some (n, e) | _ \<Rightarrow> None)"

definition counter_ok :: "string \<Rightarrow> redis \<Rightarrow> bool" where
  "counter_ok k m \<longleftrightarrow> (case m k of None \<Rightarrow> True | Some (n, None) \<Rightarrow> False | Some (n, Some e) \<Rightarrow> 1 \<le> n)"

lemma run_rate_limit_counter:
  assumes "counter_ok k m" and "0 < w"
  shows "\<exists>reset. run_rate_limit NoFault NoFault t k w l m =
    (let (n, e) = counter_next w t (counter_of k m) in
     (Ok \<lparr>rl_allowed = n \<le> l, rl_current = n, rl_limit = l, rl_reset_in_secs = reset\<rparr>, m(k \<mapsto> (n, Some e))))"
proof -
  have s: "rate_limit_script t k w m = (let (n, e) = counter_next w t (counter_of k m) in
      ((n, int ((e - t + 500) div 1000)), m(k \<mapsto> (n, Some e))))"
  proof (cases "redis_get t m k")
    case None
    then show ?thesis using assms
      by (auto simp: rate_limit_script_def redis_incr_def redis_expire_def redis_ttl_def redis_get_def counter_next_def
          counter_of_def counter_ok_def split: option.splits if_splits)
  next
    case (Some x)
    then obtain n e where "m k = Some (n, Some e)" "t < e" "1 \<le> n" "x = (n, Some e)"
      using assms(1) by (auto simp: redis_get_def counter_ok_def split: option.splits if_splits)
    then show ?thesis
      by (auto simp: rate_limit_script_def redis_incr_def redis_ttl_def redis_get_def counter_next_def counter_of_def)
  qed
  then show ?thesis by (auto simp: run_rate_limit_def Let_def split: prod.splits)
qed

lemma rate_calls_counter:
  assumes "counter_ok k m" and "0 < w"
  shows "fst (rate_calls w l k ts m) = counter_calls w l ts (counter_of k m)"
  using assms(1)
proof (induction ts arbitrary: m)
  case (Cons t ts)
  obtain n e where ne: "counter_next w t (counter_of k m) = (n, e)" by fastforce
  have "1 \<le> n" using ne by (auto simp: counter_next_def split: option.splits if_splits prod.splits)
  then have "counter_ok k (m(k \<mapsto> (n, Some e)))" and c: "counter_of k (m(k \<mapsto> (n, Some e))) = Some (n, e)"
    by (simp_all add: counter_ok_def counter_of_def)
  then have "fst (rate_calls w l k ts (m(k \<mapsto> (n, Some e)))) = counter_calls w l ts (Some (n, e))"
    unfolding c [symmetric] by (intro Cons.IH)
  moreover obtain reset where "run_rate_limit NoFault NoFault t k w l m =
      (Ok \<lparr>rl_allowed = n \<le> l, rl_current = n, rl_limit = l, rl_reset_in_secs = reset\<rparr>, m(k \<mapsto> (n, Some e)))"
    using run_rate_limit_counter [OF Cons.prems assms(2), of t l] ne by auto
  ultimately show ?case using ne by (simp add: case_prod_unfold)
qed simp

definition admitted :: "nat \<Rightarrow> nat \<Rightarrow> (nat \<times> bool) list \<Rightarrow> nat" where
  "admitted a b calls = length (filter (\<lambda>(t, ok). ok \<and> a \<le> t \<and> t < b) calls)"

lemma admitted_simps [simp]:
  "admitted a b [] = 0"
  "admitted a b ((t, ok) # cs) = (if ok \<and> a \<le> t \<and> t < b then 1 else 0) + admitted a b cs"
  by (simp_all add: admitted_def)

text \<open>Within one window of the counter.\<close>

lemma admitted_in_window: "admitted a b (filter (\<lambda>(t, ok). t < e) (counter_calls w l ts (Some (n, e)))) \<le> l - n"
  if "sorted ts"
  using that
proof (induction ts arbitrary: n)
  case (Cons t ts)
  show ?case
  proof (cases "t < e")
    case True
    then show ?thesis using Cons.IH [of "n + 1"] Cons.prems by (auto simp: counter_next_def)
  next
    case False
    have none: "filter (\<lambda>(t, ok). t < e) (counter_calls w l us c) = []" if "\<And>u. u \<in> set us \<Longrightarrow> \<not> u < e" for us c
      using that by (induction us arbitrary: c) auto
    have "\<not> u < e" if "u \<in> set ts" for u using False Cons.prems that by (auto dest: le_less_trans)
    from none [OF this] show ?thesis using False by (auto simp: counter_next_def)
  qed
qed simp

lemma le_last: "sorted xs \<Longrightarrow> x \<in> set xs \<Longrightarrow> x \<le> last xs"
  by (induction xs) auto

lemma admitted_before: "b \<le> e \<Longrightarrow> admitted a b (filter (\<lambda>(t, ok). t < e) cs) = admitted a b cs"
  by (induction cs) (auto simp: admitted_def)

text \<open>From a counter that has run out, at most one window meets the interval.\<close>

lemma admitted_fresh:
  assumes "sorted ts" and "\<And>t. t \<in> set ts \<Longrightarrow> a \<le> t"
    and "\<And>n e t. c = Some (n, e) \<Longrightarrow> t \<in> set ts \<Longrightarrow> e \<le> t"
  shows "admitted a (a + w * 1000) (counter_calls w l ts c) \<le> l"
proof (cases ts)
  case (Cons t us)
  have c: "counter_next w t c = (1, t + w * 1000)"
    using assms(3) [of "fst (the c)" "snd (the c)" t] Cons by (cases c) (auto simp: counter_next_def not_less)
  have "admitted a (a + w * 1000) (counter_calls w l us (Some (1, t + w * 1000))) \<le> l - 1"
    using admitted_in_window [of us a "a + w * 1000" "t + w * 1000" w l 1] assms(1,2) Cons
    by (simp add: admitted_before)
  then show ?thesis using assms(2) by (auto simp: Cons c)
qed simp

lemma admitted_from:
  assumes "sorted ts" and "\<And>t. t \<in> set ts \<Longrightarrow> a \<le> t"
  shows "admitted a (a + w * 1000) (counter_calls w l ts (Some (n, e))) \<le> (l - n) + l"
  using assms
proof (induction ts arbitrary: n)
  case (Cons t ts)
  show ?case
  proof (cases "t < e")
    case True
    then show ?thesis using Cons.IH [of "n + 1"] Cons.prems by (auto simp: counter_next_def)
  next
    case False
    have "admitted a (a + w * 1000) (counter_calls w l (t # ts) (Some (n, e))) \<le> l"
      using Cons.prems False by (intro admitted_fresh) (auto dest: le_trans [of e])
    then show ?thesis by simp
  qed
qed simp

lemma admitted_interval: "sorted ts \<Longrightarrow> admitted a (a + w * 1000) (counter_calls w l ts c) \<le> 2 * l"
proof (induction ts arbitrary: c)
  case (Cons t ts)
  show ?case
  proof (cases "t < a")
    case True
    then show ?thesis using Cons by simp
  next
    case False
    then have ge: "a \<le> u" if "u \<in> set (t # ts)" for u using Cons.prems that by auto
    show ?thesis
    proof (cases c)
      case None
      then show ?thesis using admitted_fresh [OF Cons.prems ge, of c w l] by simp
    next
      case (Some ne)
      then show ?thesis using admitted_from [OF Cons.prems ge, of w l "fst ne" "snd ne"] by simp
    qed
  qed
qed simp

text \<open>
  C33: The rate limiter admits at most twice the limit in any interval as long as its window,
  wherever the interval starts and however the calls are spread; of the calls that fall into one
  window of a fresh counter it admits exactly the first ones up to the limit.
\<close>

theorem rate_limit_bound:
  assumes "sorted ts" and "counter_ok k m" and "0 < w"
  shows "length (filter (\<lambda>(t, ok). ok \<and> a \<le> t \<and> t < a + w * 1000) (fst (rate_calls w l k ts m))) \<le> 2 * l \<and>
    (m k = None \<and> ts \<noteq> [] \<and> last ts < hd ts + w * 1000 \<longrightarrow>
       map snd (fst (rate_calls w l k ts m)) = map (\<lambda>i. i < l) [0..<length ts])"
proof -
  have calls: "fst (rate_calls w l k ts m) = counter_calls w l ts (counter_of k m)"
    using rate_calls_counter [OF assms(2,3)] .
  have run: "map snd (counter_calls w l us (Some (n, e))) = map (\<lambda>i. i + n < l) [0..<length us]"
    if "\<And>u. u \<in> set us \<Longrightarrow> u < e" for us n e
    using that
  proof (induction us arbitrary: n)
    case (Cons u us)
    have "map (\<lambda>i. i + n < l) [0..<length (u # us)] = (n < l) # map (\<lambda>i. i + (n + 1) < l) [0..<length us]"
      by (simp add: upt_conv_Cons map_Suc_upt [symmetric] comp_def del: upt_Suc)
    then show ?case using Cons by (auto simp: counter_next_def)
  qed simp
  have "map snd (counter_calls w l ts None) = map (\<lambda>i. i < l) [0..<length ts]" if ne: "ts \<noteq> []" and l: "last ts < hd ts + w * 1000"
  proof -
    obtain t us where ts: "ts = t # us" using ne by (cases ts) auto
    have "u < t + w * 1000" if "u \<in> set us" for u
    proof -
      have "u \<le> last ts" using assms(1) that ts by (intro le_last) auto
      then show ?thesis using l ts by simp
    qed
    from run [OF this, of us] have "map snd (counter_calls w l us (Some (1, t + w * 1000))) = map (\<lambda>i. i + 1 < l) [0..<length us]" by simp
    moreover have "map (\<lambda>i. i < l) [0..<length ts] = (0 < l) # map (\<lambda>i. i + 1 < l) [0..<length us]"
      unfolding ts by (simp add: upt_conv_Cons map_Suc_upt [symmetric] comp_def del: upt_Suc)
    ultimately show ?thesis by (simp add: ts counter_next_def Suc_le_eq)
  qed
  then show ?thesis
    using admitted_interval [OF assms(1), of a w l "counter_of k m"] by (auto simp: calls admitted_def counter_of_def)
qed

theorem rate_limit_bound_witness:
  "map snd (fst (rate_calls 60 2 ''k'' [10, 20, 30] Map.empty)) = [True, True, False]"
  using rate_limit_bound [of "[10, 20, 30]" "''k''" Map.empty 60 0 2] by (simp add: counter_ok_def upt_rec)

end
