(* ===== verification/Workflow_Schema.thy ===== *)
theory Workflow_Schema
  imports Nostr_Events Rust_Text
begin

text \<open>
  Workflow definitions (\<^verbatim>\<open>buzz-workflow/src/schema.rs\<close>, \<^verbatim>\<open>error.rs\<close>): the error type with its stable
  codes, the trigger, step and action types, durations, and the validation that every saved
  definition passes.  The cron parser is a parameter: it answers an error text or the function
  from an instant to the next scheduled instant after it.
\<close>

section \<open>Errors\<close>

datatype workflow_error =
    InvalidYaml string
  | InvalidDefinition string
  | ConditionError string
  | TemplateError string
  | StepTimeout string nat
  | WebhookError string
  | CapacityExceeded
  | Database string
  | Unauthorized string
  | NotImplemented string

fun error_code :: "workflow_error \<Rightarrow> string" where
  "error_code (InvalidYaml _) = ''invalid_yaml''"
| "error_code (InvalidDefinition _) = ''invalid_definition''"
| "error_code (ConditionError _) = ''condition_evaluation_failed''"
| "error_code (TemplateError _) = ''template_resolution_failed''"
| "error_code (StepTimeout _ _) = ''step_timeout''"
| "error_code (WebhookError _) = ''webhook_failed''"
| "error_code CapacityExceeded = ''capacity_exceeded''"
| "error_code (Database _) = ''database_error''"
| "error_code (Unauthorized _) = ''owner_unauthorized''"
| "error_code (NotImplemented _) = ''action_not_implemented''"

text \<open>The \<^verbatim>\<open>Display\<close> text, generated from the \<^verbatim>\<open>error\<close> attributes.\<close>
fun error_text :: "workflow_error \<Rightarrow> string" where
  "error_text (InvalidYaml e) = ''invalid YAML: '' @ e"
| "error_text (InvalidDefinition e) = ''invalid definition: '' @ e"
| "error_text (ConditionError e) = ''condition evaluation error: '' @ e"
| "error_text (TemplateError e) = ''template error: '' @ e"
| "error_text (StepTimeout s n) =
     ''step '' @ [CHR 0x27] @ s @ [CHR 0x27] @ '' timed out after '' @ nat_to_string n @ ''s''"
| "error_text (WebhookError e) = ''webhook error: '' @ e"
| "error_text CapacityExceeded = ''capacity exceeded''"
| "error_text (Database e) = ''database error: '' @ e"
| "error_text (Unauthorized e) = ''unauthorized: '' @ e"
| "error_text (NotImplemented e) = ''action not implemented: '' @ e"

section \<open>Definitions\<close>

datatype trigger_def =
    MessagePosted "string option"
  | ReactionAdded "string option" "string option"
  | DiffPosted "string option"
  | Schedule "string option" "string option"
  | Webhook

datatype action_def =
    SendMessage string "string option" bool
  | SendDm string string
  | SetChannelTopic string
  | AddReaction string
  | CallWebhook string "string option" "(string \<times> string) list option" "string option"
  | RequestApproval string string "string option"
  | Delay string

record step_def =
  step_id :: string
  step_name :: "string option"
  if_expr :: "string option"
  timeout_secs :: "nat option"
  step_action :: action_def

record workflow_def =
  wf_name :: string
  wf_description :: "string option"
  wf_trigger :: trigger_def
  wf_steps :: "step_def list"
  wf_enabled :: bool

fun is_call_webhook :: "action_def \<Rightarrow> bool" where
  "is_call_webhook (CallWebhook _ _ _ _) = True"
| "is_call_webhook _ = False"

definition requires_elevated_authority :: "workflow_def \<Rightarrow> bool" where
  "requires_elevated_authority d = list_ex (\<lambda>s. is_call_webhook (step_action s)) (wf_steps d)"

section \<open>Durations\<close>

definition invalid_duration :: "string \<Rightarrow> workflow_error" where
  "invalid_duration d = InvalidDefinition (''invalid duration: '' @ d)"

definition checked_mul :: "string \<Rightarrow> nat \<Rightarrow> nat \<Rightarrow> (workflow_error, nat) result" where
  "checked_mul d n k =
     (if n * k \<le> U64_MAX then Ok (n * k) else Err (InvalidDefinition (''duration overflow: '' @ d)))"

definition parse_duration_secs :: "string \<Rightarrow> (workflow_error, nat) result" where
  "parse_duration_secs text =
     (let d = str_trim text in
      case strip_suffix d ''h'' of
        Some n \<Rightarrow> (case parse_u64 (str_trim n) of
            None \<Rightarrow> Err (invalid_duration d) | Some hours \<Rightarrow> checked_mul d hours 3600)
      | None \<Rightarrow> (case strip_suffix d ''m'' of
        Some n \<Rightarrow> (case parse_u64 (str_trim n) of
            None \<Rightarrow> Err (invalid_duration d) | Some mins \<Rightarrow> checked_mul d mins 60)
      | None \<Rightarrow> (case strip_suffix d ''s'' of
        Some n \<Rightarrow> (case parse_u64 (str_trim n) of
            None \<Rightarrow> Err (invalid_duration d) | Some secs \<Rightarrow> Ok secs)
      | None \<Rightarrow> (case parse_u64 d of
            None \<Rightarrow> Err (invalid_duration d) | Some secs \<Rightarrow> Ok secs))))"

section \<open>Cron expressions\<close>

type_synonym cron_parser = "string \<Rightarrow> (string, int \<Rightarrow> int option) result"

text \<open>
  The number of fields \<^verbatim>\<open>split_whitespace\<close> yields.  No white-space sequence starts with a
  continuation byte, so that going on byte by byte inside a word finds the same boundaries as
  going on character by character.
\<close>
function field_count :: "bool \<Rightarrow> string \<Rightarrow> nat" where
  "field_count inside s =
     (case find (\<lambda>w. w \<noteq> [] \<and> starts_with s w) white_space of
        Some w \<Rightarrow> field_count False (drop (length w) s)
      | None \<Rightarrow> (case s of
          [] \<Rightarrow> 0
        | c # t \<Rightarrow> (if inside then 0 else 1) + field_count True t))"
  by auto
termination
proof (relation "measure (\<lambda>(i, s). length s)")
  fix s w :: string and i :: bool
  assume "find (\<lambda>w. w \<noteq> [] \<and> starts_with s w) white_space = Some w"
  then have "w \<noteq> []" "starts_with s w" by (auto simp: find_Some_iff)
  then have "s \<noteq> []" by (auto simp: starts_with_def)
  with \<open>w \<noteq> []\<close> show "((False, drop (length w) s), (i, s)) \<in> measure (\<lambda>(i, s). length s)" by simp
qed auto

declare field_count.simps [simp del]

definition normalize_cron :: "string \<Rightarrow> string" where
  "normalize_cron expr =
     (let n = field_count False expr
      in if n = 5 then ''0 '' @ expr @ '' *'' else if n = 6 then expr @ '' *'' else expr)"

definition quoted :: "string \<Rightarrow> string" where
  "quoted s = [CHR 0x27] @ s @ [CHR 0x27]"

definition validate_cron :: "cron_parser \<Rightarrow> string \<Rightarrow> (workflow_error, unit) result" where
  "validate_cron cron expr = (case cron (normalize_cron expr) of
     Err e \<Rightarrow> Err (InvalidDefinition (''invalid cron expression '' @ quoted expr @ '': '' @ e))
   | Ok _ \<Rightarrow> Ok ())"

section \<open>Validation\<close>

definition valid_step_id :: "string \<Rightarrow> bool" where
  "valid_step_id i \<longleftrightarrow> i \<noteq> [] \<and> length i \<le> 64
     \<and> list_all (\<lambda>c. is_ascii_alphanumeric c \<or> c = CHR ''_'') i"

fun check_step_ids :: "string set \<Rightarrow> step_def list \<Rightarrow> (workflow_error, unit) result" where
  "check_step_ids seen [] = Ok ()"
| "check_step_ids seen (s # ss) =
     (if str_trim (step_id s) = [] then Err (InvalidDefinition ''step id must not be empty'')
      else if \<not> valid_step_id (step_id s) then
        Err (InvalidDefinition (''step id '' @ quoted (step_id s)
          @ '' is invalid: must contain only alphanumeric characters and underscores''))
      else if step_id s \<in> seen then Err (InvalidDefinition (''duplicate step id: '' @ step_id s))
      else check_step_ids (insert (step_id s) seen) ss)"

fun trigger_has_message :: "trigger_def \<Rightarrow> bool" where
  "trigger_has_message (MessagePosted _) = True"
| "trigger_has_message (ReactionAdded _ _) = True"
| "trigger_has_message (DiffPosted _) = True"
| "trigger_has_message _ = False"

fun replies_in_thread :: "action_def \<Rightarrow> bool" where
  "replies_in_thread (SendMessage _ _ r) = r"
| "replies_in_thread _ = False"

fun check_replies :: "step_def list \<Rightarrow> (workflow_error, unit) result" where
  "check_replies [] = Ok ()"
| "check_replies (s # ss) =
     (if replies_in_thread (step_action s)
      then Err (InvalidDefinition (''step '' @ quoted (step_id s)
        @ '': reply_in_thread requires a message-based trigger ''
        @ ''(message_posted, reaction_added, or diff_posted); ''
        @ ''schedule and webhook triggers have no message to reply to''))
      else check_replies ss)"

fun check_schedule :: "cron_parser \<Rightarrow> trigger_def \<Rightarrow> (workflow_error, unit) result" where
  "check_schedule cron_lib (Schedule cron interval) =
     (if cron = None \<and> interval = None then
        Err (InvalidDefinition (''schedule trigger requires either '' @ quoted ''cron'' @ '' or '' @ quoted ''interval''))
      else if cron \<noteq> None \<and> interval \<noteq> None then
        Err (InvalidDefinition (''schedule trigger cannot specify both '' @ quoted ''cron'' @ '' and ''
          @ quoted ''interval'' @ ''; use one or the other''))
      else and_then (case cron of Some expr \<Rightarrow> validate_cron cron_lib expr | None \<Rightarrow> Ok ())
        (\<lambda>_. case interval of
           None \<Rightarrow> Ok ()
         | Some dur \<Rightarrow> (case parse_duration_secs dur of
             Err _ \<Rightarrow> Err (InvalidDefinition (''invalid interval '' @ quoted dur
               @ '': expected a duration like '' @ quoted ''30m'' @ '', '' @ quoted ''1h'' @ '', or '' @ quoted ''60s''))
           | Ok secs \<Rightarrow>
               if secs < 60
               then Err (InvalidDefinition ''interval must be at least 60s (cron loop ticks every 60 seconds)'')
               else Ok ())))"
| "check_schedule cron_lib _ = Ok ()"

definition validate :: "cron_parser \<Rightarrow> workflow_def \<Rightarrow> (workflow_error, unit) result" where
  "validate cron d =
     (if str_trim (wf_name d) = []
      then Err (InvalidDefinition ''name is required and must not be empty'')
      else if wf_steps d = [] then Err (InvalidDefinition ''at least one step is required'')
      else and_then (check_step_ids {} (wf_steps d)) (\<lambda>_.
        and_then (if trigger_has_message (wf_trigger d) then Ok () else check_replies (wf_steps d))
          (\<lambda>_. check_schedule cron (wf_trigger d))))"

text \<open>\<^verbatim>\<open>parse_yaml\<close>: the YAML reader and the JSON writer are parameters.\<close>
definition parse_yaml ::
  "(string \<Rightarrow> (string, workflow_def) result) \<Rightarrow> (workflow_def \<Rightarrow> (string, string) result) \<Rightarrow> cron_parser
    \<Rightarrow> string \<Rightarrow> (workflow_error, workflow_def \<times> string) result" where
  "parse_yaml read_yaml write_json cron yaml = (case read_yaml yaml of
     Err e \<Rightarrow> Err (InvalidYaml e)
   | Ok d \<Rightarrow> and_then (validate cron d) (\<lambda>_. case write_json d of
       Err e \<Rightarrow> Err (InvalidDefinition e)
     | Ok j \<Rightarrow> Ok (d, j)))"


section \<open>Trimming words\<close>

definition word_char :: "char \<Rightarrow> bool" where
  "word_char c \<longleftrightarrow> is_ascii_alphanumeric c \<or> c = CHR ''_''"

lemma underscore_code: "c = CHR ''_'' \<longleftrightarrow> (of_char c :: nat) = 95"
  using of_char_eq_iff[of c "CHR ''_''", where 'a = nat] by simp

lemma white_space_no_word:
  "w \<in> set white_space \<Longrightarrow> w \<noteq> [] \<and> \<not> word_char (hd w) \<and> \<not> word_char (last w)"
proof -
  have "list_all (\<lambda>w. w \<noteq> [] \<and> \<not> word_char (hd w) \<and> \<not> word_char (last w)) white_space"
    by (simp add: white_space_def upt_rec ascii_class_defs less_eq_char_def word_char_def underscore_code)
  then show "w \<in> set white_space \<Longrightarrow> w \<noteq> [] \<and> \<not> word_char (hd w) \<and> \<not> word_char (last w)"
    by (auto simp: list_all_iff)
qed

lemma str_trim_word:
  assumes "s \<noteq> [] \<Longrightarrow> word_char (hd s) \<and> word_char (last s)"
  shows "str_trim s = s"
proof -
  have "strip_front white_space s = s"
    by (rule strip_front_id) (use white_space_no_word assms in metis)
  moreover have "strip_front (map rev white_space) (rev s) = rev s"
  proof (rule strip_front_id)
    fix w
    assume w: "w \<in> set (map rev white_space)" "w \<noteq> []" and s: "rev s \<noteq> []"
    then obtain u where "u \<in> set white_space" "w = rev u" "u \<noteq> []" by auto
    then show "hd w \<noteq> hd (rev s)" using white_space_no_word assms s by (metis hd_rev rev_is_Nil_conv)
  qed
  ultimately show ?thesis by (simp add: str_trim_def)
qed

lemma str_trim_list: "list_all word_char s \<Longrightarrow> str_trim s = s"
  by (rule str_trim_word) (auto simp: list_all_iff)

lemma digit_word: "is_ascii_digit c \<Longrightarrow> word_char c"
  by (simp add: word_char_def is_ascii_alphanumeric_def)

lemma str_trim_digits: "str_trim (nat_to_string n) = nat_to_string n"
  using nat_to_string_digits[of n] by (intro str_trim_list) (auto simp: list_all_iff digit_word)

section \<open>Durations mean what they say\<close>

lemma strip_suffix_snoc: "strip_suffix (s @ [c]) [d] = (if c = d then Some s else None)"
  by (simp add: strip_suffix_def ends_with_str_def starts_with_def)

lemma duration_word:
  assumes "word_char c"
  shows "str_trim (nat_to_string n @ [c]) = nat_to_string n @ [c]"
proof (rule str_trim_word)
  have "word_char (hd (nat_to_string n))"
    using nat_to_string_digits[of n] by (cases "nat_to_string n") (auto intro: digit_word)
  then show "word_char (hd (nat_to_string n @ [c])) \<and> word_char (last (nat_to_string n @ [c]))"
    using assms by simp
qed

lemma digits_no_suffix:
  assumes "\<not> is_ascii_digit c"
  shows "strip_suffix (nat_to_string n) [c] = None"
proof -
  obtain xs x where s: "nat_to_string n = xs @ [x]" by (metis nat_to_string_nonempty rev_exhaust)
  then have "is_ascii_digit x" using nat_to_string_digits[of n] by simp
  then show ?thesis using assms by (auto simp: s strip_suffix_snoc)
qed

lemma unit_letters:
  "word_char CHR ''h''" "word_char CHR ''m''" "word_char CHR ''s''"
  "\<not> is_ascii_digit CHR ''h''" "\<not> is_ascii_digit CHR ''m''" "\<not> is_ascii_digit CHR ''s''"
  by (simp_all add: word_char_def ascii_class_defs less_eq_char_def)

lemmas duration_parse = parse_duration_secs_def Let_def duration_word strip_suffix_snoc str_trim_digits
  parse_u64_digits checked_mul_def invalid_duration_def digits_no_suffix unit_letters

lemma duration_hours: "n * 3600 \<le> U64_MAX \<Longrightarrow> parse_duration_secs (nat_to_string n @ ''h'') = Ok (n * 3600)"
  using mult_le_mono2[of 1 3600 n] by (simp add: duration_parse)

text \<open>
  A duration of \<^verbatim>\<open>n\<close> hours, minutes, seconds or plain seconds is parsed to exactly its number
  of seconds whenever both \<^verbatim>\<open>n\<close> and that number fit in 64 bits, and is rejected as an invalid
  definition otherwise; no duration text whatever yields a number that does not fit.
\<close>
theorem duration_exact:
  "parse_duration_secs (nat_to_string n @ ''h'') =
     (if n * 3600 \<le> U64_MAX then Ok (n * 3600)
      else if n \<le> U64_MAX then Err (InvalidDefinition (''duration overflow: '' @ nat_to_string n @ ''h''))
      else Err (InvalidDefinition (''invalid duration: '' @ nat_to_string n @ ''h'')))
   \<and> parse_duration_secs (nat_to_string n @ ''m'') =
     (if n * 60 \<le> U64_MAX then Ok (n * 60)
      else if n \<le> U64_MAX then Err (InvalidDefinition (''duration overflow: '' @ nat_to_string n @ ''m''))
      else Err (InvalidDefinition (''invalid duration: '' @ nat_to_string n @ ''m'')))
   \<and> parse_duration_secs (nat_to_string n @ ''s'') =
     (if n \<le> U64_MAX then Ok n
      else Err (InvalidDefinition (''invalid duration: '' @ nat_to_string n @ ''s'')))
   \<and> parse_duration_secs (nat_to_string n) =
     (if n \<le> U64_MAX then Ok n
      else Err (InvalidDefinition (''invalid duration: '' @ nat_to_string n)))
   \<and> (\<forall>text secs. parse_duration_secs text = Ok secs \<longrightarrow> secs \<le> U64_MAX)"
proof (intro conjI allI impI)
  have big: "\<not> n * k \<le> U64_MAX" if "\<not> n \<le> U64_MAX" "0 < k" for k :: nat
    using that by (metis le_trans mult_le_mono2 nat_mult_1_right Suc_leI One_nat_def)
  show "parse_duration_secs (nat_to_string n @ ''h'') =
     (if n * 3600 \<le> U64_MAX then Ok (n * 3600)
      else if n \<le> U64_MAX then Err (InvalidDefinition (''duration overflow: '' @ nat_to_string n @ ''h''))
      else Err (InvalidDefinition (''invalid duration: '' @ nat_to_string n @ ''h'')))"
    using big[of 3600] by (simp add: duration_parse)
  show "parse_duration_secs (nat_to_string n @ ''m'') =
     (if n * 60 \<le> U64_MAX then Ok (n * 60)
      else if n \<le> U64_MAX then Err (InvalidDefinition (''duration overflow: '' @ nat_to_string n @ ''m''))
      else Err (InvalidDefinition (''invalid duration: '' @ nat_to_string n @ ''m'')))"
    using big[of 60] by (simp add: duration_parse)
  show "parse_duration_secs (nat_to_string n @ ''s'') =
     (if n \<le> U64_MAX then Ok n
      else Err (InvalidDefinition (''invalid duration: '' @ nat_to_string n @ ''s'')))"
    by (simp add: duration_parse)
  show "parse_duration_secs (nat_to_string n) =
     (if n \<le> U64_MAX then Ok n
      else Err (InvalidDefinition (''invalid duration: '' @ nat_to_string n)))"
    by (simp add: duration_parse)
  show "secs \<le> U64_MAX" if "parse_duration_secs dur = Ok secs" for dur secs
    using that by (auto simp: parse_duration_secs_def checked_mul_def Let_def
        split: option.splits if_splits dest: parse_u64_bound)
qed

theorem duration_exact_witness:
  "parse_duration_secs ''5m'' = Ok 300 \<and> (300 :: nat) \<le> U64_MAX"
proof -
  have five: "nat_to_string 5 = ''5''" by code_simp
  have "parse_duration_secs ''5m'' = Ok 300"
    using duration_exact[of 5] by (simp add: five U64_MAX_def)
  then show ?thesis using duration_exact[of 5] by blast
qed

section \<open>Validation decides well-formedness\<close>

definition schedule_well_formed :: "cron_parser \<Rightarrow> trigger_def \<Rightarrow> bool" where
  "schedule_well_formed cron_lib t \<longleftrightarrow> (\<forall>c i. t = Schedule c i \<longrightarrow>
     (\<exists>e. c = Some e \<and> i = None \<and> is_ok (cron_lib (normalize_cron e))) \<or>
     (\<exists>d n. c = None \<and> i = Some d \<and> parse_duration_secs d = Ok n \<and> 60 \<le> n))"

definition well_formed :: "cron_parser \<Rightarrow> workflow_def \<Rightarrow> bool" where
  "well_formed cron_lib d \<longleftrightarrow>
     str_trim (wf_name d) \<noteq> [] \<and> wf_steps d \<noteq> []
     \<and> distinct (map step_id (wf_steps d))
     \<and> (\<forall>s \<in> set (wf_steps d). valid_step_id (step_id s)
          \<and> (replies_in_thread (step_action s) \<longrightarrow> trigger_has_message (wf_trigger d)))
     \<and> schedule_well_formed cron_lib (wf_trigger d)"

lemma valid_step_id_trim: "valid_step_id i \<Longrightarrow> str_trim i \<noteq> []"
  using str_trim_list[of i] by (auto simp: valid_step_id_def word_char_def[abs_def])

lemma check_step_ids_Ok:
  "check_step_ids seen ss = Ok () \<longleftrightarrow>
     distinct (map step_id ss) \<and> step_id ` set ss \<inter> seen = {} \<and> (\<forall>s \<in> set ss. valid_step_id (step_id s))"
  by (induction seen ss rule: check_step_ids.induct) (auto dest: valid_step_id_trim)

lemma check_replies_Ok: "check_replies ss = Ok () \<longleftrightarrow> (\<forall>s \<in> set ss. \<not> replies_in_thread (step_action s))"
  by (induction ss) auto

lemma check_schedule_Ok: "check_schedule cron_lib t = Ok () \<longleftrightarrow> schedule_well_formed cron_lib t"
  by (cases t) (auto simp: schedule_well_formed_def validate_cron_def is_ok_iff
      split: option.splits sum.splits)

lemma validate_Ok: "validate cron_lib d = Ok () \<longleftrightarrow> well_formed cron_lib d"
  by (auto simp: validate_def well_formed_def check_step_ids_Ok check_replies_Ok check_schedule_Ok)

text \<open>
  Validation accepts a definition exactly when it is well formed: a non-blank name, at least one
  step, pairwise distinct step identifiers of at most 64 word characters, threaded replies only
  under a trigger that carries a message, and for a schedule exactly one of a cron expression the
  cron library reads or an interval of at least sixty seconds.
\<close>
theorem validate_exact: "validate cron_lib d = Ok () \<longleftrightarrow> well_formed cron_lib d"
  by (rule validate_Ok)

lemma parse_yaml_well_formed:
  "parse_yaml read_yaml write_json cron_lib yaml = Ok (d, j)
     \<Longrightarrow> well_formed cron_lib d \<and> read_yaml yaml = Ok d \<and> write_json d = Ok j"
  using validate_Ok[of cron_lib d]
  by (auto simp: parse_yaml_def split: sum.splits)

end
