(* ===== verification/Workflow_Templates.thy ===== *)
theory Workflow_Templates
  imports Workflow_Schema Audit_Chain
begin

text \<open>
  Template substitution and conditions (\<^verbatim>\<open>buzz-workflow/src/executor.rs\<close>): the trigger context,
  \<^verbatim>\<open>resolve_template\<close> with its filters, the variables a condition can read, and the resolution of
  a step's action.  Strings are sequences of UTF-8 bytes.  What other packages compute is in the record
  \<^verbatim>\<open>libs\<close>: the bech32 form of a public key, the text of a compound JSON value, the reading of a
  JSON number, the variable store and the evaluator of \<^verbatim>\<open>evalexpr\<close>, and the order in which a
  \<^verbatim>\<open>HashMap\<close> is iterated.
\<close>

section \<open>Context and libraries\<close>

record trigger_context =
  tr_text :: string
  tr_author :: string
  tr_channel_id :: string
  tr_timestamp :: string
  tr_emoji :: string
  tr_message_id :: string
  tr_is_reply :: bool
  tr_webhook_fields :: "string \<rightharpoonup> string"

definition get_field :: "trigger_context \<Rightarrow> string \<Rightarrow> string option" where
  "get_field c name =
     (if name = ''text'' then Some (tr_text c)
      else if name = ''author'' then Some (tr_author c)
      else if name = ''channel_id'' then Some (tr_channel_id c)
      else if name = ''timestamp'' then Some (tr_timestamp c)
      else if name = ''emoji'' then Some (tr_emoji c)
      else if name = ''message_id'' then Some (tr_message_id c)
      else tr_webhook_fields c name)"

type_synonym outputs = "string \<rightharpoonup> json"

datatype eval_value = EV_String string | EV_Boolean bool | EV_Int int | EV_Float string | EV_Empty

text \<open>The answer of the evaluation on the blocking thread.\<close>
datatype eval_answer = Eval_Timeout | Eval_Panicked string | Eval_Failed string | Eval_Bool bool

record 'c libs =
  lib_npub :: "string \<Rightarrow> string option"
  lib_json_text :: "json \<Rightarrow> string"
  lib_as_i64 :: "string \<Rightarrow> int option"
  lib_as_f64 :: "string \<Rightarrow> string option"
  lib_new_context :: 'c
  lib_set_value :: "'c \<Rightarrow> string \<Rightarrow> eval_value \<Rightarrow> (string, 'c) result"
  lib_eval_boolean :: "string \<Rightarrow> 'c \<Rightarrow> eval_answer"
  lib_field_order :: "(string \<rightharpoonup> string) \<Rightarrow> string list"
  lib_output_order :: "outputs \<Rightarrow> string list"

section \<open>Values and filters\<close>

text \<open>\<^verbatim>\<open>str::find\<close> of a substring: the offset of its first occurrence.\<close>
fun find_str :: "string \<Rightarrow> string \<Rightarrow> nat option" where
  "find_str p [] = (if p = [] then Some 0 else None)"
| "find_str p (c # s) = (if starts_with (c # s) p then Some 0 else map_option Suc (find_str p s))"

text \<open>\<^verbatim>\<open>splitn\<close> on one character: at most \<^verbatim>\<open>n\<close> parts, the last one unsplit.\<close>
fun splitn :: "nat \<Rightarrow> char \<Rightarrow> string \<Rightarrow> string list" where
  "splitn 0 c s = []"
| "splitn (Suc 0) c s = [s]"
| "splitn (Suc (Suc n)) c s = (case split_once c s of
     None \<Rightarrow> [s] | Some (w, t) \<Rightarrow> w # splitn (Suc n) c t)"

text \<open>\<^verbatim>\<open>chars().take(n)\<close> on well-formed UTF-8.\<close>
definition char_width :: "char \<Rightarrow> nat" where
  "char_width c = (if in_range 0 127 c then 1 else if in_range 0xC2 0xDF c then 2
     else if in_range 0xE0 0xEF c then 3 else 4)"

fun take_chars :: "nat \<Rightarrow> string \<Rightarrow> string" where
  "take_chars 0 s = []"
| "take_chars (Suc n) [] = []"
| "take_chars (Suc n) (c # s) = take (char_width c) (c # s) @ take_chars n (drop (char_width c) (c # s))"

fun json_to_string :: "'c libs \<Rightarrow> json \<Rightarrow> string" where
  "json_to_string L (JString s) = s"
| "json_to_string L (JBool b) = (if b then ''true'' else ''false'')"
| "json_to_string L (JNumber n) = n"
| "json_to_string L JNull = []"
| "json_to_string L other = lib_json_text L other"

fun json_get_str :: "'c libs \<Rightarrow> json \<Rightarrow> string \<Rightarrow> string option" where
  "json_get_str L (JObject members) key = map_option (json_to_string L) (map_of members key)"
| "json_get_str L _ key = None"

definition resolve_variable :: "'c libs \<Rightarrow> trigger_context \<Rightarrow> outputs \<Rightarrow> string \<Rightarrow> string option" where
  "resolve_variable L ctx outs path = (case strip_prefix ''trigger.'' path of
     Some field \<Rightarrow> get_field ctx field
   | None \<Rightarrow> (case strip_prefix ''steps.'' path of
       Some rest \<Rightarrow> (case splitn 3 CHR ''.'' rest of
           [i, middle, field] \<Rightarrow>
             if middle \<noteq> ''output'' then None
             else (case outs i of None \<Rightarrow> None | Some output \<Rightarrow> json_get_str L output field)
         | _ \<Rightarrow> None)
     | None \<Rightarrow> None))"

definition apply_filter :: "'c libs \<Rightarrow> string \<Rightarrow> string \<Rightarrow> (workflow_error, string) result" where
  "apply_filter L v fltr =
     (let f = str_trim fltr in
      case Option.bind (strip_prefix ''truncate('' f) (\<lambda>s. strip_suffix s '')'') of
        Some inner \<Rightarrow> (case parse_u64 (str_trim inner) of
            None \<Rightarrow> Err (TemplateError (''truncate() requires a number, got: '' @ inner))
          | Some n \<Rightarrow> Ok (take_chars n v))
      | None \<Rightarrow>
          if f = ''npub'' \<or> f = ''truncate_pubkey''
          then Ok (case lib_npub L v of Some b \<Rightarrow> b | None \<Rightarrow> v)
          else Err (TemplateError (''unknown filter: '' @ f)))"

section \<open>Templates\<close>

definition split_expr :: "string \<Rightarrow> string \<times> string option" where
  "split_expr expr = (case splitn 2 CHR ''|'' expr of
     [v, f] \<Rightarrow> (str_trim v, Some (str_trim f))
   | v # _ \<Rightarrow> (str_trim v, None)
   | [] \<Rightarrow> ([], None))"

lemma find_str_bound: "find_str p s = Some n \<Longrightarrow> n + length p \<le> length s"
proof (induction p s arbitrary: n rule: find_str.induct)
  case (2 p c s)
  then show ?case
    by (cases "starts_with (c # s) p")
      (auto simp: starts_with_iff_prefix dest: prefix_length_le)
qed (auto split: if_splits)

function resolve_loop :: "'c libs \<Rightarrow> trigger_context \<Rightarrow> outputs \<Rightarrow> string \<Rightarrow> string
    \<Rightarrow> (workflow_error, string) result" where
  "resolve_loop L ctx outs out remaining = (case find_str ''{{'' remaining of
     None \<Rightarrow> Ok (out @ remaining)
   | Some start \<Rightarrow>
       (let out1 = out @ take start remaining;
            rest = drop (start + 2) remaining
        in case find_str ''}}'' rest of
             None \<Rightarrow> Ok (out1 @ ''{{'' @ rest)
           | Some stop \<Rightarrow>
               (let expr = str_trim (take stop rest);
                    rest' = drop (stop + 2) rest;
                    (var_path, fltr) = split_expr expr
                in case resolve_variable L ctx outs var_path of
                     None \<Rightarrow> resolve_loop L ctx outs (out1 @ ''{{'' @ expr @ ''}}'') rest'
                   | Some v \<Rightarrow> (case fltr of
                       None \<Rightarrow> resolve_loop L ctx outs (out1 @ v) rest'
                     | Some f \<Rightarrow> (case apply_filter L v f of
                         Err e \<Rightarrow> Err e
                       | Ok w \<Rightarrow> resolve_loop L ctx outs (out1 @ w) rest')))))"
  by auto
termination
  by (relation "measure (\<lambda>(L, ctx, outs, out, remaining). length remaining)")
    (auto dest!: find_str_bound)

declare resolve_loop.simps [simp del]

definition resolve_template :: "'c libs \<Rightarrow> trigger_context \<Rightarrow> outputs \<Rightarrow> string
    \<Rightarrow> (workflow_error, string) result" where
  "resolve_template L ctx outs template =
     (if \<not> contains_str template ''{{'' then Ok template else resolve_loop L ctx outs [] template)"

section \<open>Conditions\<close>

fun json_value_to_eval :: "'c libs \<Rightarrow> json \<Rightarrow> eval_value" where
  "json_value_to_eval L (JString s) = EV_String s"
| "json_value_to_eval L (JBool b) = EV_Boolean b"
| "json_value_to_eval L (JNumber n) = (case lib_as_i64 L n of
     Some i \<Rightarrow> EV_Int i
   | None \<Rightarrow> (case lib_as_f64 L n of Some f \<Rightarrow> EV_Float f | None \<Rightarrow> EV_String n))"
| "json_value_to_eval L JNull = EV_Empty"
| "json_value_to_eval L other = EV_String (lib_json_text L other)"

text \<open>The assignments of \<^verbatim>\<open>build_eval_context\<close>, in the order the code makes them.\<close>
definition webhook_vars :: "'c libs \<Rightarrow> trigger_context \<Rightarrow> (string \<times> eval_value) list" where
  "webhook_vars L ctx =
     map (\<lambda>k. (''trigger_'' @ k, EV_String (the (tr_webhook_fields ctx k))))
       (filter (\<lambda>k. \<not> starts_with k ''trigger_'' \<and> \<not> starts_with k ''steps_'')
          (lib_field_order L (tr_webhook_fields ctx)))"

definition trigger_vars :: "trigger_context \<Rightarrow> (string \<times> eval_value) list" where
  "trigger_vars ctx =
     [(''trigger_text'', EV_String (tr_text ctx)),
      (''trigger_author'', EV_String (tr_author ctx)),
      (''trigger_channel_id'', EV_String (tr_channel_id ctx)),
      (''trigger_timestamp'', EV_String (tr_timestamp ctx)),
      (''trigger_emoji'', EV_String (tr_emoji ctx)),
      (''trigger_message_id'', EV_String (tr_message_id ctx)),
      (''trigger_is_reply'', EV_Boolean (tr_is_reply ctx))]"

definition output_vars :: "'c libs \<Rightarrow> outputs \<Rightarrow> (string \<times> eval_value) list" where
  "output_vars L outs = concat (map (\<lambda>i. case outs i of
     Some (JObject members) \<Rightarrow>
       map (\<lambda>(field, v). (''steps_'' @ i @ ''_output_'' @ field, json_value_to_eval L v)) members
   | _ \<Rightarrow> []) (lib_output_order L outs))"

fun set_values :: "'c libs \<Rightarrow> (string \<times> eval_value) list \<Rightarrow> 'c \<Rightarrow> (workflow_error, 'c) result" where
  "set_values L [] c = Ok c"
| "set_values L ((k, v) # vs) c = (case lib_set_value L c k v of
     Err e \<Rightarrow> Err (ConditionError e) | Ok c' \<Rightarrow> set_values L vs c')"

definition build_eval_context :: "'c libs \<Rightarrow> trigger_context \<Rightarrow> outputs \<Rightarrow> (workflow_error, 'c) result" where
  "build_eval_context L ctx outs =
     and_then (set_values L (webhook_vars L ctx) (lib_new_context L)) (\<lambda>c1.
     and_then (set_values L (trigger_vars ctx) c1) (\<lambda>c2.
       set_values L (output_vars L outs) c2))"

definition MAX_EXPR_LEN :: nat where "MAX_EXPR_LEN = 4096"
definition EVAL_TIMEOUT_MS :: nat where "EVAL_TIMEOUT_MS = 100"

definition evaluate_condition :: "'c libs \<Rightarrow> string \<Rightarrow> trigger_context \<Rightarrow> outputs
    \<Rightarrow> (workflow_error, bool) result" where
  "evaluate_condition L expr ctx outs =
     and_then (build_eval_context L ctx outs) (\<lambda>c.
       if length expr > MAX_EXPR_LEN
       then Err (ConditionError (''condition expression exceeds '' @ nat_to_string MAX_EXPR_LEN @ '' byte limit''))
       else (case lib_eval_boolean L expr c of
           Eval_Timeout \<Rightarrow> Err (ConditionError (quoted expr @ '': evaluation timed out after ''
             @ nat_to_string EVAL_TIMEOUT_MS @ ''ms''))
         | Eval_Panicked e \<Rightarrow> Err (ConditionError (quoted expr @ '': eval task panicked: '' @ e))
         | Eval_Failed e \<Rightarrow> Err (ConditionError (quoted expr @ '': '' @ e))
         | Eval_Bool b \<Rightarrow> Ok b))"

section \<open>Actions\<close>

definition resolve_opt :: "(string \<Rightarrow> (workflow_error, string) result) \<Rightarrow> string option
    \<Rightarrow> (workflow_error, string option) result" where
  "resolve_opt t s = (case s of None \<Rightarrow> Ok None | Some v \<Rightarrow> and_then (t v) (\<lambda>w. Ok (Some w)))"

fun resolve_headers :: "(string \<Rightarrow> (workflow_error, string) result) \<Rightarrow> (string \<times> string) list
    \<Rightarrow> (workflow_error, (string \<times> string) list) result" where
  "resolve_headers t [] = Ok []"
| "resolve_headers t ((k, v) # hs) =
     and_then (t v) (\<lambda>w. and_then (resolve_headers t hs) (\<lambda>out. Ok ((k, w) # out)))"

fun resolve_action :: "(string \<Rightarrow> (workflow_error, string) result) \<Rightarrow> action_def
    \<Rightarrow> (workflow_error, action_def) result" where
  "resolve_action t (SendMessage msg channel in_thread) =
     and_then (t msg) (\<lambda>msg'. and_then (resolve_opt t channel) (\<lambda>ch'. Ok (SendMessage msg' ch' in_thread)))"
| "resolve_action t (SendDm to msg) =
     and_then (t to) (\<lambda>to'. and_then (t msg) (\<lambda>msg'. Ok (SendDm to' msg')))"
| "resolve_action t (SetChannelTopic topic) = and_then (t topic) (\<lambda>topic'. Ok (SetChannelTopic topic'))"
| "resolve_action t (AddReaction emoji) = and_then (t emoji) (\<lambda>emoji'. Ok (AddReaction emoji'))"
| "resolve_action t (CallWebhook url http_method headers payload) =
     and_then (case headers of None \<Rightarrow> Ok None
         | Some h \<Rightarrow> and_then (resolve_headers t h) (\<lambda>out. Ok (Some out))) (\<lambda>headers'.
     and_then (t url) (\<lambda>url'. and_then (resolve_opt t payload) (\<lambda>payload'.
       Ok (CallWebhook url' http_method headers' payload'))))"
| "resolve_action t (RequestApproval from_whom msg timeout) =
     and_then (t from_whom) (\<lambda>f'. and_then (t msg) (\<lambda>msg'. Ok (RequestApproval f' msg' timeout)))"
| "resolve_action t (Delay duration) = Ok (Delay duration)"

definition resolve_step_templates :: "'c libs \<Rightarrow> step_def \<Rightarrow> trigger_context \<Rightarrow> outputs
    \<Rightarrow> (workflow_error, action_def) result" where
  "resolve_step_templates L step ctx outs =
     resolve_action (resolve_template L ctx outs) (step_action step)"


section \<open>Substitution is a single pass\<close>

lemma find_str_occurs: "find_str p s = Some n \<Longrightarrow> starts_with (drop n s) p"
  by (induction p s arbitrary: n rule: find_str.induct)
    (auto simp: starts_with_def split: if_splits)

lemma find_str_None: "find_str p s = None \<longleftrightarrow> \<not> sublist p s"
proof (induction p s rule: find_str.induct)
  case (2 p c s)
  show ?case
  proof (cases "starts_with (c # s) p")
    case True
    then show ?thesis by (simp add: starts_with_iff_prefix)
  next
    case False
    then show ?thesis using 2 by (simp add: starts_with_iff_prefix sublist_Cons_right)
  qed
qed simp

lemma find_str_first: "find_str p s = Some n \<Longrightarrow> p \<noteq> [] \<Longrightarrow> k < n \<Longrightarrow> \<not> starts_with (drop k s) p"
proof (induction p s arbitrary: n k rule: find_str.induct)
  case (2 p c s)
  then show ?case by (cases k) (auto split: if_splits)
qed simp

lemma find_str_split:
  assumes "find_str p s = Some n"
  shows "s = take n s @ p @ drop (n + length p) s"
proof -
  have "drop n s = p @ drop (length p) (drop n s)"
    using find_str_occurs[OF assms] unfolding starts_with_def by (metis append_take_drop_id)
  then show ?thesis by (metis append_take_drop_id drop_drop add.commute)
qed

lemma find_str_before:
  assumes "find_str p s = Some n" "p \<noteq> []"
  shows "\<not> sublist p (take n s)"
proof
  assume "sublist p (take n s)"
  then obtain u v where uv: "take n s = u @ p @ v" by (auto simp: sublist_def)
  have n: "n \<le> length s" using find_str_bound[OF assms(1)] by simp
  have "length u + length p + length v = n" using arg_cong[OF uv, of length] n by simp
  then have "length u < n" using assms(2) by (cases p) auto
  moreover have "s = u @ p @ v @ drop n s" using uv by (metis append.assoc append_take_drop_id)
  then have "starts_with (drop (length u) s) p"
    by (metis append_eq_conv_conj starts_with_iff_prefix prefixI)
  ultimately show False using find_str_first assms by blast
qed

datatype segment = Lit string | Placeholder string

fun segment_text :: "segment \<Rightarrow> string" where
  "segment_text (Lit s) = s"
| "segment_text (Placeholder raw) = ''{{'' @ raw @ ''}}''"

text \<open>The reference: a template is cut once, by its own text alone.\<close>
function segments :: "string \<Rightarrow> segment list" where
  "segments s = (case find_str ''{{'' s of
     None \<Rightarrow> [Lit s]
   | Some i \<Rightarrow> (case find_str ''}}'' (drop (i + 2) s) of
       None \<Rightarrow> [Lit s]
     | Some j \<Rightarrow> Lit (take i s) # Placeholder (take j (drop (i + 2) s))
         # segments (drop (j + 2) (drop (i + 2) s))))"
  by auto
termination by (relation "measure length") (auto dest!: find_str_bound)

declare segments.simps [simp del]

fun render :: "'c libs \<Rightarrow> trigger_context \<Rightarrow> outputs \<Rightarrow> segment \<Rightarrow> (workflow_error, string) result" where
  "render L ctx outs (Lit s) = Ok s"
| "render L ctx outs (Placeholder raw) =
     (let expr = str_trim raw; (var_path, fltr) = split_expr expr
      in case resolve_variable L ctx outs var_path of
           None \<Rightarrow> Ok (''{{'' @ expr @ ''}}'')
         | Some v \<Rightarrow> (case fltr of None \<Rightarrow> Ok v | Some f \<Rightarrow> apply_filter L v f))"

fun render_all :: "(segment \<Rightarrow> (workflow_error, string) result) \<Rightarrow> segment list
    \<Rightarrow> (workflow_error, string) result" where
  "render_all r [] = Ok []"
| "render_all r (s # ss) = and_then (r s) (\<lambda>x. and_then (render_all r ss) (\<lambda>y. Ok (x @ y)))"

lemma and_then_assoc: "and_then (and_then r f) g = and_then r (\<lambda>a. and_then (f a) g)"
  by (cases r) auto

lemma resolve_loop_render:
  "resolve_loop L ctx outs out s =
     and_then (render_all (render L ctx outs) (segments s)) (\<lambda>y. Ok (out @ y))"
proof (induction L ctx outs out s rule: resolve_loop.induct)
  case (1 L ctx outs out s)
  show ?case
  proof (cases "find_str ''{{'' s")
    case None
    then show ?thesis by (simp add: resolve_loop.simps segments.simps)
  next
    case (Some i)
    note i = this
    let ?rest = "drop (i + 2) s"
    show ?thesis
    proof (cases "find_str ''}}'' ?rest")
      case None
      have "s = take i s @ ''{{'' @ ?rest" using find_str_split[OF i] by simp
      then show ?thesis using i None
        by (subst resolve_loop.simps, subst segments.simps) simp
    next
      case (Some j)
      obtain p f where pf: "split_expr (str_trim (take j ?rest)) = (p, f)" by fastforce
      note IH = 1[OF i refl refl Some refl refl pf[symmetric] refl]
      have expand: "segments s = Lit (take i s) # Placeholder (take j ?rest) # segments (drop (j + 2) ?rest)"
        using i Some by (subst segments.simps) simp
      show ?thesis
      proof (cases "resolve_variable L ctx outs p")
        case None
        then show ?thesis using i Some pf IH(1)[OF None]
          unfolding expand by (subst resolve_loop.simps) (simp add: and_then_assoc)
      next
        case (Some v)
        then show ?thesis
          using i \<open>find_str ''}}'' ?rest = Some j\<close> pf IH(2)[OF Some] IH(3)[OF Some]
          unfolding expand
          by (subst resolve_loop.simps) (auto simp: and_then_assoc split: option.splits sum.splits)
      qed
    qed
  qed
qed


lemma segments_text: "concat (map segment_text (segments s)) = s"
proof (induction s rule: segments.induct)
  case (1 s)
  show ?case
  proof (cases "find_str ''{{'' s")
    case None
    then show ?thesis by (simp add: segments.simps)
  next
    case (Some i)
    note i = this
    let ?rest = "drop (i + 2) s"
    have s: "take i s @ ''{{'' @ ?rest = s" using find_str_split[OF i] by simp
    show ?thesis
    proof (cases "find_str ''}}'' ?rest")
      case None
      then show ?thesis using i by (subst segments.simps) simp
    next
      case (Some j)
      have "take j ?rest @ ''}}'' @ drop (j + 2) ?rest = ?rest" using find_str_split[OF Some] by simp
      then show ?thesis
        using i Some s 1[OF i Some] by (subst segments.simps) simp
    qed
  qed
qed

lemma segments_placeholder: "Placeholder raw \<in> set (segments s) \<Longrightarrow> \<not> sublist ''}}'' raw"
proof (induction s rule: segments.induct)
  case (1 s)
  from "1.prems" obtain i j where ij: "find_str ''{{'' s = Some i" "find_str ''}}'' (drop (i + 2) s) = Some j"
    by (subst (asm) segments.simps) (auto split: option.splits)
  then have "raw = take j (drop (i + 2) s) \<or> Placeholder raw \<in> set (segments (drop (j + 2) (drop (i + 2) s)))"
    using "1.prems" by (subst (asm) segments.simps) simp
  then show ?case
  proof
    assume "raw = take j (drop (i + 2) s)"
    then show ?thesis using find_str_before[OF ij(2)] by simp
  next
    assume "Placeholder raw \<in> set (segments (drop (j + 2) (drop (i + 2) s)))"
    then show ?thesis using "1.IH"[OF ij] by simp
  qed
qed

text \<open>
  C40: Substitution is one pass over the template: the template's own text alone is cut into
  literals and placeholders (the pieces put together give the template back, and no placeholder
  contains a closing mark), each piece is rendered on its own, and the results are concatenated in order or
  the first filter error is returned.  A substituted value, whoever controls it, is inserted verbatim
  and never scanned for further placeholders.
\<close>
theorem template_single_pass:
  "resolve_template L ctx outs t = render_all (render L ctx outs) (segments t)
   \<and> concat (map segment_text (segments t)) = t
   \<and> (\<forall>raw. Placeholder raw \<in> set (segments t) \<longrightarrow> \<not> sublist ''}}'' raw)"
proof (intro conjI allI impI)
  show "resolve_template L ctx outs t = render_all (render L ctx outs) (segments t)"
  proof (cases "contains_str t ''{{''")
    case True
    have "and_then r (\<lambda>y. Ok ([] @ y)) = r" for r :: "(workflow_error, string) result"
      by (cases r) simp_all
    then show ?thesis using True by (simp add: resolve_template_def resolve_loop_render)
  next
    case False
    then have "find_str ''{{'' t = None" by (simp add: find_str_None contains_str_def)
    then show ?thesis using False by (simp add: resolve_template_def segments.simps)
  qed
qed (simp_all add: segments_text segments_placeholder)

section \<open>Standard variables cannot be spoofed\<close>

text \<open>What \<^verbatim>\<open>evalexpr\<close> documents of its variable store, observed through a reading function.\<close>
definition store_law :: "'c libs \<Rightarrow> ('c \<Rightarrow> string \<rightharpoonup> eval_value) \<Rightarrow> bool" where
  "store_law L look \<longleftrightarrow> (\<forall>c k v c'. lib_set_value L c k v = Ok c' \<longrightarrow> look c' = (look c)(k \<mapsto> v))"

text \<open>Its type safety: a variable that holds a string never takes a boolean.\<close>
definition store_typed :: "'c libs \<Rightarrow> ('c \<Rightarrow> string \<rightharpoonup> eval_value) \<Rightarrow> bool" where
  "store_typed L look \<longleftrightarrow> (\<forall>c k s b. look c k = Some (EV_String s) \<longrightarrow> \<not> is_ok (lib_set_value L c k (EV_Boolean b)))"

lemma set_values_look:
  assumes "store_law L look"
  shows "set_values L vs c = Ok c' \<Longrightarrow> look c' = look c ++ map_of (rev vs)"
proof (induction vs arbitrary: c)
  case (Cons kv vs)
  obtain k v where kv: "kv = (k, v)" by fastforce
  with Cons.prems obtain d where d: "lib_set_value L c k v = Ok d" "set_values L vs d = Ok c'"
    by (auto split: sum.splits)
  then have "look d = (look c)(k \<mapsto> v)" using assms by (simp add: store_law_def)
  then show ?case using Cons.IH[OF d(2)] by (auto simp: kv fun_eq_iff map_add_def split: option.splits)
qed simp

lemma set_values_Err: "set_values L vs c = Err e \<Longrightarrow> \<exists>m. e = ConditionError m"
  by (induction vs arbitrary: c) (auto split: sum.splits)

lemma set_values_fail: "\<not> is_ok (set_values L vs c) \<Longrightarrow> \<exists>m. set_values L vs c = Err (ConditionError m)"
  using set_values_Err[of L vs c] by (cases "set_values L vs c") auto

lemma set_values_append:
  "set_values L (vs @ ws) c = and_then (set_values L vs c) (set_values L ws)"
  by (induction L vs c rule: set_values.induct) (auto split: sum.splits)

lemma output_var_steps: "(k, v) \<in> set (output_vars L outs) \<Longrightarrow> starts_with k ''steps_''"
  by (auto simp: output_vars_def starts_with_def split: option.splits json.splits)

lemma trigger_var_names:
  "(k, v) \<in> set (trigger_vars ctx) \<Longrightarrow> \<not> starts_with k ''steps_'' \<and> map_of (rev (trigger_vars ctx)) k = Some v"
  by (auto simp: trigger_vars_def starts_with_def)

text \<open>
  Whatever fields a webhook's body carries and whatever earlier steps returned, a condition reads
  the standard trigger variables, among them the verified author, with the values of the trigger itself.
\<close>
theorem trigger_vars_authentic:
  assumes "store_law L look" "build_eval_context L ctx outs = Ok c" "(k, v) \<in> set (trigger_vars ctx)"
  shows "look c k = Some v"
proof -
  obtain c1 c2 where c:
    "set_values L (trigger_vars ctx) c1 = Ok c2" "set_values L (output_vars L outs) c2 = Ok c"
    using assms(2) by (auto simp: build_eval_context_def)
  have "k \<notin> fst ` set (output_vars L outs)"
    using output_var_steps trigger_var_names[OF assms(3)] by fastforce
  then have "map_of (rev (output_vars L outs)) k = None" by (simp add: map_of_eq_None_iff)
  then have "look c k = look c2 k"
    using set_values_look[OF assms(1) c(2)] by (simp add: map_add_def)
  also have "\<dots> = Some v"
    using set_values_look[OF assms(1) c(1)] trigger_var_names[OF assms(3)] by (simp add: map_add_def)
  finally show ?thesis .
qed

definition sample_libs :: "(string \<times> eval_value) list libs" where
  "sample_libs =
     \<lparr> lib_npub = (\<lambda>v. if length v = 64 then Some (''npub1'' @ v) else None),
       lib_json_text = (\<lambda>_. ''{}''), lib_as_i64 = (\<lambda>_. None), lib_as_f64 = (\<lambda>_. None),
       lib_new_context = [],
       lib_set_value = (\<lambda>c k v. case (map_of c k, v) of
           (Some (EV_String _), EV_Boolean _) \<Rightarrow> Err ''type error'' | _ \<Rightarrow> Ok ((k, v) # c)),
       lib_eval_boolean = (\<lambda>e c. case map_of c e of Some (EV_Boolean b) \<Rightarrow> Eval_Bool b | _ \<Rightarrow> Eval_Failed e),
       lib_field_order = (\<lambda>m. filter (\<lambda>k. m k \<noteq> None) [''author'', ''is_reply'']),
       lib_output_order = (\<lambda>m. filter (\<lambda>k. m k \<noteq> None) [''a'', ''b'', ''c'']) \<rparr>"

definition sample_context :: trigger_context where
  "sample_context =
     \<lparr> tr_text = ''{{trigger.author}}'', tr_author = ''alice'', tr_channel_id = ''c1'', tr_timestamp = ''7'',
       tr_emoji = [], tr_message_id = ''m1'', tr_is_reply = False,
       tr_webhook_fields = [''author'' \<mapsto> ''mallory''] \<rparr>"

lemma sample_store_law: "store_law sample_libs map_of" "store_typed sample_libs map_of"
  by (auto simp: store_law_def store_typed_def sample_libs_def split: option.splits eval_value.splits)

theorem trigger_vars_authentic_witness:
  "\<exists>c. build_eval_context sample_libs sample_context Map.empty = Ok c
     \<and> map_of c ''trigger_author'' = Some (EV_String ''alice'')"
proof -
  obtain c where c: "build_eval_context sample_libs sample_context Map.empty = Ok c"
    by (simp add: build_eval_context_def webhook_vars_def trigger_vars_def output_vars_def
        sample_libs_def sample_context_def starts_with_def)
  then show ?thesis
    using trigger_vars_authentic[OF sample_store_law(1) c, of "''trigger_author''" "EV_String ''alice''"]
    by (simp add: trigger_vars_def sample_context_def)
qed

theorem template_single_pass_witness:
  "resolve_template sample_libs sample_context Map.empty ''say {{ trigger.text }}!'' = Ok ''say {{trigger.author}}!''
   \<and> \<not> sublist ''}}'' '' trigger.text ''"
proof -
  have seg: "segments ''say {{ trigger.text }}!'' = [Lit ''say '', Placeholder '' trigger.text '', Lit ''!'']"
    by code_simp
  have trim: "str_trim '' trigger.text '' = ''trigger.text''" by code_simp
  have "str_trim ''trigger.text'' = ''trigger.text''" by code_simp
  then have expr: "split_expr ''trigger.text'' = (''trigger.text'', None)"
    by (simp add: split_expr_def numeral_2_eq_2 split_once_def)
  have "strip_prefix ''trigger.'' ''trigger.text'' = Some ''text''" by code_simp
  then have var: "resolve_variable sample_libs sample_context Map.empty ''trigger.text'' = Some (tr_text sample_context)"
    by (simp add: resolve_variable_def get_field_def)
  have "tr_text sample_context = ''{{trigger.author}}''" by (simp add: sample_context_def)
  then have "render_all (render sample_libs sample_context Map.empty) (segments ''say {{ trigger.text }}!'')
      = Ok ''say {{trigger.author}}!''"
    by (simp add: seg trim expr var Let_def)
  then show ?thesis
    using template_single_pass[of sample_libs sample_context Map.empty "''say {{ trigger.text }}!''"]
    by (simp add: seg)
qed

text \<open>
  A webhook body with a field named \<^verbatim>\<open>is_reply\<close> makes the evaluation of every condition of its
  run fail: the field is stored as a string first, and the boolean standard variable of the same
  name is then rejected by the type-safe store, so the standard value does not take precedence.
\<close>
theorem webhook_is_reply_conflict:
  assumes "store_law L look" "store_typed L look"
      "tr_webhook_fields ctx ''is_reply'' = Some v"
      "''is_reply'' \<in> set (lib_field_order L (tr_webhook_fields ctx))"
  shows "\<exists>e. evaluate_condition L expr ctx outs = Err (ConditionError e)"
proof -
  let ?k = "''trigger_is_reply''" and ?web = "webhook_vars L ctx"
  have strings: "\<exists>s. map_of (rev ?web) ?k = Some (EV_String s)"
  proof -
    have "(?k, EV_String v) \<in> set ?web"
      using assms(3,4) by (force simp: webhook_vars_def starts_with_def)
    then obtain w where "map_of (rev ?web) ?k = Some w"
      by (metis weak_map_of_SomeI set_rev)
    moreover from this have "(?k, w) \<in> set ?web" by (auto dest: map_of_SomeD)
    ultimately show ?thesis by (auto simp: webhook_vars_def)
  qed
  have "\<not> is_ok (set_values L (trigger_vars ctx) c)" if c: "set_values L ?web (lib_new_context L) = Ok c" for c
  proof -
    obtain s where s: "look c ?k = Some (EV_String s)"
      using set_values_look[OF assms(1) c] strings by (auto simp: map_add_def)
    let ?six = "butlast (trigger_vars ctx)"
    have split: "trigger_vars ctx = ?six @ [(?k, EV_Boolean (tr_is_reply ctx))]"
      by (simp add: trigger_vars_def)
    have "map_of (rev ?six) ?k = None" by (simp add: trigger_vars_def)
    then have "look d ?k = Some (EV_String s)" if "set_values L ?six c = Ok d" for d
      using set_values_look[OF assms(1) that] s by (simp add: map_add_def)
    then show ?thesis
      using assms(2) by (subst split) (auto simp: set_values_append store_typed_def is_ok_iff split: sum.splits)
  qed
  then have "\<exists>m. build_eval_context L ctx outs = Err (ConditionError m)"
    using set_values_fail[of L ?web "lib_new_context L"] set_values_fail[of L "trigger_vars ctx"]
    by (cases "set_values L ?web (lib_new_context L)") (fastforce simp: build_eval_context_def)+
  then show ?thesis by (auto simp: evaluate_condition_def)
qed

theorem webhook_is_reply_conflict_witness:
  "\<exists>e. evaluate_condition sample_libs ''true'' (sample_context\<lparr>tr_webhook_fields := [''is_reply'' \<mapsto> ''no'']\<rparr>) Map.empty
     = Err (ConditionError e)"
  by (rule webhook_is_reply_conflict[OF sample_store_law(1) sample_store_law(2)])
    (simp_all add: sample_libs_def sample_context_def)

end
