(* ===== verification/Workflow_Store.thy ===== *)
theory Workflow_Store
  imports Audit_Chain "HOL-Library.Product_Lexorder"
begin

text \<open>
  The workflow tables (\<^verbatim>\<open>buzz-db/src/store/workflow.rs\<close>): definitions, runs, scheduled-fire claims and
  approvals, each keyed by the community and an identifier, with one function per query.  A table
  is the list of its rows with their keys in the order of insertion; a query is what its SQL text
  says on such a table, with the primary and foreign keys of \<^verbatim>\<open>schema.sql\<close>.  The clock of
  the database, fresh UUIDs and the SHA-256 digest are arguments.  Among rows with equal sort
  keys a query answers in the order of insertion.
\<close>

section \<open>Status values\<close>

datatype db_error = Db_NotFound string | Db_AccessDenied string | Db_InvalidData string | Db_Failed string

datatype workflow_status = Wf_Active | Wf_Disabled | Wf_Archived

fun workflow_status_str :: "workflow_status \<Rightarrow> string" where
  "workflow_status_str Wf_Active = ''active''"
| "workflow_status_str Wf_Disabled = ''disabled''"
| "workflow_status_str Wf_Archived = ''archived''"

definition workflow_status_from_str :: "string \<Rightarrow> (db_error, workflow_status) result" where
  "workflow_status_from_str s =
     (if s = ''active'' then Ok Wf_Active
      else if s = ''disabled'' then Ok Wf_Disabled
      else if s = ''archived'' then Ok Wf_Archived
      else Err (Db_InvalidData (''unknown workflow status: '' @ s)))"

datatype run_status = Run_Pending | Run_Running | Run_WaitingApproval | Run_Completed | Run_Failed | Run_Cancelled

fun run_status_str :: "run_status \<Rightarrow> string" where
  "run_status_str Run_Pending = ''pending''"
| "run_status_str Run_Running = ''running''"
| "run_status_str Run_WaitingApproval = ''waiting_approval''"
| "run_status_str Run_Completed = ''completed''"
| "run_status_str Run_Failed = ''failed''"
| "run_status_str Run_Cancelled = ''cancelled''"

definition run_status_from_str :: "string \<Rightarrow> (db_error, run_status) result" where
  "run_status_from_str s =
     (if s = ''pending'' then Ok Run_Pending
      else if s = ''running'' then Ok Run_Running
      else if s = ''waiting_approval'' then Ok Run_WaitingApproval
      else if s = ''completed'' then Ok Run_Completed
      else if s = ''failed'' then Ok Run_Failed
      else if s = ''cancelled'' then Ok Run_Cancelled
      else Err (Db_InvalidData (''unknown run status: '' @ s)))"

datatype approval_status = Approval_Pending | Approval_Granted | Approval_Denied | Approval_Expired

fun approval_status_str :: "approval_status \<Rightarrow> string" where
  "approval_status_str Approval_Pending = ''pending''"
| "approval_status_str Approval_Granted = ''granted''"
| "approval_status_str Approval_Denied = ''denied''"
| "approval_status_str Approval_Expired = ''expired''"

definition approval_status_from_str :: "string \<Rightarrow> (db_error, approval_status) result" where
  "approval_status_from_str s =
     (if s = ''pending'' then Ok Approval_Pending
      else if s = ''granted'' then Ok Approval_Granted
      else if s = ''denied'' then Ok Approval_Denied
      else if s = ''expired'' then Ok Approval_Expired
      else Err (Db_InvalidData (''unknown approval status: '' @ s)))"

section \<open>Rows and tables\<close>

record workflow_record =
  wr_id :: uuid
  wr_community :: uuid
  wr_name :: string
  wr_owner :: string
  wr_channel :: "uuid option"
  wr_definition :: json
  wr_hash :: string
  wr_status :: workflow_status
  wr_enabled :: bool
  wr_created_at :: int
  wr_updated_at :: int

record run_record =
  rr_id :: uuid
  rr_community :: uuid
  rr_workflow :: uuid
  rr_status :: run_status
  rr_trigger_event :: "string option"
  rr_current_step :: int
  rr_trace :: json
  rr_trigger_context :: "json option"
  rr_started_at :: "int option"
  rr_completed_at :: "int option"
  rr_error_message :: "string option"
  rr_error_code :: "string option"
  rr_created_at :: int

record fire_claim =
  fc_community :: uuid
  fc_workflow :: uuid
  fc_scheduled_for :: int
  fc_claimed_at :: int

record fire_row =
  fr_claim :: fire_claim
  fr_run :: "uuid option"

record approval_record =
  ap_token :: string
  ap_workflow :: uuid
  ap_run :: uuid
  ap_step_id :: string
  ap_step_index :: int
  ap_approver_spec :: string
  ap_status :: approval_status
  ap_approver :: "string option"
  ap_note :: "string option"
  ap_granted_at :: "int option"
  ap_denied_at :: "int option"
  ap_expires_at :: int
  ap_created_at :: int

type_synonym ('k, 'v) table = "('k \<times> 'v) list"

record store =
  st_workflows :: "(uuid \<times> uuid, workflow_record) table"
  st_runs :: "(uuid \<times> uuid, run_record) table"
  st_fires :: "(uuid \<times> uuid \<times> int, fire_row) table"
  st_approvals :: "(uuid \<times> string, approval_record) table"
  st_archived :: "uuid list"

text \<open>Rows that match, rows changed in place with their number, rows removed.\<close>
definition select_rows :: "('v \<Rightarrow> bool) \<Rightarrow> ('k, 'v) table \<Rightarrow> 'v list" where
  "select_rows P t = filter P (map snd t)"

definition update_rows :: "('k \<Rightarrow> 'v \<Rightarrow> bool) \<Rightarrow> ('v \<Rightarrow> 'v) \<Rightarrow> ('k, 'v) table \<Rightarrow> ('k, 'v) table" where
  "update_rows P f t = map (\<lambda>(k, v). if P k v then (k, f v) else (k, v)) t"

definition count_rows :: "('k \<Rightarrow> 'v \<Rightarrow> bool) \<Rightarrow> ('k, 'v) table \<Rightarrow> nat" where
  "count_rows P t = length (filter (\<lambda>(k, v). P k v) t)"

definition delete_rows :: "('k \<Rightarrow> 'v \<Rightarrow> bool) \<Rightarrow> ('k, 'v) table \<Rightarrow> ('k, 'v) table" where
  "delete_rows P t = filter (\<lambda>(k, v). \<not> P k v) t"

definition newest_first :: "('v \<Rightarrow> int) \<Rightarrow> 'v list \<Rightarrow> 'v list" where
  "newest_first created vs = sort_key (\<lambda>v. - created v) vs"

definition LIST_DEFAULT_LIMIT :: int where "LIST_DEFAULT_LIMIT = 100"
definition LIST_MAX_LIMIT :: int where "LIST_MAX_LIMIT = 1000"

definition clamp_limit :: "int \<Rightarrow> nat" where
  "clamp_limit n = nat (min (max n 1) LIST_MAX_LIMIT)"

section \<open>Definitions\<close>

definition create_workflow ::
  "int \<Rightarrow> uuid \<Rightarrow> store \<Rightarrow> uuid \<Rightarrow> uuid option \<Rightarrow> string \<Rightarrow> string \<Rightarrow> json \<Rightarrow> string
    \<Rightarrow> (db_error, uuid) result \<times> store" where
  "create_workflow now fresh s community channel owner name def hash =
     (if map_of (st_workflows s) (community, fresh) \<noteq> None then (Err (Db_Failed ''duplicate key''), s)
      else (Ok fresh, s\<lparr>st_workflows := st_workflows s @ [((community, fresh),
        \<lparr>wr_id = fresh, wr_community = community, wr_name = name, wr_owner = owner, wr_channel = channel,
         wr_definition = def, wr_hash = hash, wr_status = Wf_Active, wr_enabled = True,
         wr_created_at = now, wr_updated_at = now\<rparr>)]\<rparr>))"

definition upsert_workflow ::
  "int \<Rightarrow> store \<Rightarrow> uuid \<Rightarrow> uuid \<Rightarrow> uuid option \<Rightarrow> string \<Rightarrow> string \<Rightarrow> json \<Rightarrow> string
    \<Rightarrow> (db_error, unit) result \<times> store" where
  "upsert_workflow now s community i channel owner name def hash = (case map_of (st_workflows s) (community, i) of
     None \<Rightarrow> (Ok (), s\<lparr>st_workflows := st_workflows s @ [((community, i),
        \<lparr>wr_id = i, wr_community = community, wr_name = name, wr_owner = owner, wr_channel = channel,
         wr_definition = def, wr_hash = hash, wr_status = Wf_Active, wr_enabled = True,
         wr_created_at = now, wr_updated_at = now\<rparr>)]\<rparr>)
   | Some w \<Rightarrow>
       if wr_owner w = owner \<and> wr_channel w = channel
       then (Ok (), s\<lparr>st_workflows := update_rows (\<lambda>k _. k = (community, i))
          (\<lambda>w. w\<lparr>wr_name := name, wr_definition := def, wr_hash := hash, wr_updated_at := now\<rparr>) (st_workflows s)\<rparr>)
       else (Err (Db_AccessDenied (''workflow '' @ i @ '' belongs to a different owner or channel'')), s))"

definition get_workflow :: "store \<Rightarrow> uuid \<Rightarrow> uuid \<Rightarrow> (db_error, workflow_record) result" where
  "get_workflow s community i = (case map_of (st_workflows s) (community, i) of
     None \<Rightarrow> Err (Db_NotFound (''workflow '' @ i)) | Some w \<Rightarrow> Ok w)"

definition list_channel_workflows :: "store \<Rightarrow> uuid \<Rightarrow> uuid \<Rightarrow> int option \<Rightarrow> int option \<Rightarrow> workflow_record list" where
  "list_channel_workflows s community channel limit offset =
     take (clamp_limit (case limit of None \<Rightarrow> LIST_DEFAULT_LIMIT | Some n \<Rightarrow> n))
       (drop (nat (max (case offset of None \<Rightarrow> 0 | Some n \<Rightarrow> n) 0))
         (newest_first wr_created_at
           (select_rows (\<lambda>w. wr_community w = community \<and> wr_channel w = Some channel) (st_workflows s))))"

definition list_enabled_channel_workflows :: "store \<Rightarrow> uuid \<Rightarrow> uuid \<Rightarrow> workflow_record list" where
  "list_enabled_channel_workflows s community channel =
     take (nat LIST_MAX_LIMIT) (newest_first wr_created_at
       (select_rows (\<lambda>w. wr_community w = community \<and> wr_channel w = Some channel
          \<and> wr_status w = Wf_Active \<and> wr_enabled w) (st_workflows s)))"

text \<open>The JSON path \<^verbatim>\<open>definition->'trigger'->>'on'\<close>.\<close>
definition definition_trigger_on :: "json \<Rightarrow> string option" where
  "definition_trigger_on d = (case d of
     JObject ms \<Rightarrow> (case map_of ms ''trigger'' of
       Some (JObject ts) \<Rightarrow> (case map_of ts ''on'' of Some (JString t) \<Rightarrow> Some t | _ \<Rightarrow> None)
     | _ \<Rightarrow> None)
   | _ \<Rightarrow> None)"

definition list_all_enabled_workflows :: "store \<Rightarrow> workflow_record list" where
  "list_all_enabled_workflows s =
     take (nat LIST_MAX_LIMIT) (sort_key wr_created_at
       (select_rows (\<lambda>w. wr_status w = Wf_Active \<and> wr_enabled w
          \<and> definition_trigger_on (wr_definition w) = Some ''schedule''
          \<and> wr_community w \<notin> set (st_archived s)) (st_workflows s)))"

definition update_workflow ::
  "store \<Rightarrow> uuid \<Rightarrow> uuid \<Rightarrow> string \<Rightarrow> json \<Rightarrow> string \<Rightarrow> (db_error, unit) result \<times> store" where
  "update_workflow s community i name def hash =
     (if map_of (st_workflows s) (community, i) = None then (Err (Db_NotFound (''workflow '' @ i)), s)
      else (Ok (), s\<lparr>st_workflows := update_rows (\<lambda>k _. k = (community, i))
        (\<lambda>w. w\<lparr>wr_name := name, wr_definition := def, wr_hash := hash\<rparr>) (st_workflows s)\<rparr>))"

definition update_workflow_status ::
  "store \<Rightarrow> uuid \<Rightarrow> uuid \<Rightarrow> workflow_status \<Rightarrow> (db_error, unit) result \<times> store" where
  "update_workflow_status s community i st =
     (if map_of (st_workflows s) (community, i) = None then (Err (Db_NotFound (''workflow '' @ i)), s)
      else (Ok (), s\<lparr>st_workflows := update_rows (\<lambda>k _. k = (community, i))
        (\<lambda>w. w\<lparr>wr_status := st\<rparr>) (st_workflows s)\<rparr>))"

definition set_workflow_enabled :: "store \<Rightarrow> uuid \<Rightarrow> uuid \<Rightarrow> bool \<Rightarrow> (db_error, unit) result \<times> store" where
  "set_workflow_enabled s community i b =
     (if map_of (st_workflows s) (community, i) = None then (Err (Db_NotFound (''workflow '' @ i)), s)
      else (Ok (), s\<lparr>st_workflows := update_rows (\<lambda>k _. k = (community, i))
        (\<lambda>w. w\<lparr>wr_enabled := b\<rparr>) (st_workflows s)\<rparr>))"

definition disable_workflows_for_owner_in_channel ::
  "store \<Rightarrow> uuid \<Rightarrow> uuid \<Rightarrow> string \<Rightarrow> nat \<times> store" where
  "disable_workflows_for_owner_in_channel s community channel owner =
     (let hit = (\<lambda>_ w. wr_community w = community \<and> wr_channel w = Some channel
        \<and> wr_owner w = owner \<and> wr_enabled w)
      in (count_rows hit (st_workflows s),
          s\<lparr>st_workflows := update_rows hit (\<lambda>w. w\<lparr>wr_enabled := False\<rparr>) (st_workflows s)\<rparr>))"

text \<open>
  Deleting a definition removes its runs, its fires and the approvals of either
  (\<^verbatim>\<open>ON DELETE CASCADE\<close>), unless a fire that stays is linked to a run that goes
  (\<^verbatim>\<open>ON DELETE NO ACTION\<close>).
\<close>
definition doomed_run :: "store \<Rightarrow> uuid \<Rightarrow> uuid \<Rightarrow> uuid \<Rightarrow> bool" where
  "doomed_run s community i run_id = (case map_of (st_runs s) (community, run_id) of
     None \<Rightarrow> False | Some r \<Rightarrow> rr_workflow r = i)"

definition delete_blocked :: "store \<Rightarrow> uuid \<Rightarrow> uuid \<Rightarrow> bool" where
  "delete_blocked s community i =
     list_ex (\<lambda>(k, v). fst k = community \<and> fst (snd k) \<noteq> i
       \<and> (case fr_run v of None \<Rightarrow> False | Some r \<Rightarrow> doomed_run s community i r)) (st_fires s)"

definition cascade_delete :: "store \<Rightarrow> uuid \<Rightarrow> uuid \<Rightarrow> store" where
  "cascade_delete s community i = s\<lparr>
     st_workflows := delete_rows (\<lambda>k _. k = (community, i)) (st_workflows s),
     st_runs := delete_rows (\<lambda>k r. fst k = community \<and> rr_workflow r = i) (st_runs s),
     st_fires := delete_rows (\<lambda>k _. fst k = community \<and> fst (snd k) = i) (st_fires s),
     st_approvals := delete_rows (\<lambda>k a. fst k = community \<and> (ap_workflow a = i \<or> doomed_run s community i (ap_run a)))
       (st_approvals s)\<rparr>"

definition delete_workflow :: "store \<Rightarrow> uuid \<Rightarrow> uuid \<Rightarrow> (db_error, unit) result \<times> store" where
  "delete_workflow s community i =
     (if map_of (st_workflows s) (community, i) = None then (Err (Db_NotFound (''workflow '' @ i)), s)
      else if delete_blocked s community i then (Err (Db_Failed ''foreign key''), s)
      else (Ok (), cascade_delete s community i))"

definition delete_workflow_for_owner ::
  "store \<Rightarrow> uuid \<Rightarrow> uuid \<Rightarrow> string \<Rightarrow> (db_error, uuid option) result \<times> store" where
  "delete_workflow_for_owner s community i owner = (case map_of (st_workflows s) (community, i) of
     Some w \<Rightarrow>
       if wr_owner w \<noteq> owner then (Err (Db_NotFound (''workflow '' @ i)), s)
       else if delete_blocked s community i then (Err (Db_Failed ''foreign key''), s)
       else (Ok (wr_channel w), cascade_delete s community i)
   | None \<Rightarrow> (Err (Db_NotFound (''workflow '' @ i)), s))"

definition find_by_owner_and_name :: "store \<Rightarrow> uuid \<Rightarrow> string \<Rightarrow> string \<Rightarrow> workflow_record option" where
  "find_by_owner_and_name s community owner name =
     find (\<lambda>w. wr_community w = community \<and> wr_owner w = owner \<and> wr_name w = name) (map snd (st_workflows s))"

section \<open>Scheduled fires\<close>

definition claim_scheduled_workflow_fire ::
  "int \<Rightarrow> store \<Rightarrow> uuid \<Rightarrow> uuid \<Rightarrow> int \<Rightarrow> fire_claim option \<times> store" where
  "claim_scheduled_workflow_fire now s community i instant =
     (if map_of (st_workflows s) (community, i) = None
        \<or> map_of (st_fires s) (community, i, instant) \<noteq> None then (None, s)
      else
        (let c = \<lparr>fc_community = community, fc_workflow = i, fc_scheduled_for = instant, fc_claimed_at = now\<rparr>
         in (Some c, s\<lparr>st_fires := st_fires s @ [((community, i, instant), \<lparr>fr_claim = c, fr_run = None\<rparr>)]\<rparr>)))"

definition latest_scheduled_workflow_fire :: "store \<Rightarrow> uuid \<Rightarrow> uuid \<Rightarrow> int option" where
  "latest_scheduled_workflow_fire s community i =
     (let ts = map (\<lambda>(k, v). snd (snd k)) (filter (\<lambda>(k, v). fst k = community \<and> fst (snd k) = i) (st_fires s))
      in if ts = [] then None else Some (foldr max (tl ts) (hd ts)))"

definition attach_scheduled_workflow_run ::
  "store \<Rightarrow> uuid \<Rightarrow> uuid \<Rightarrow> int \<Rightarrow> uuid \<Rightarrow> (db_error, bool) result \<times> store" where
  "attach_scheduled_workflow_run s community i instant run_id =
     (let hit = (\<lambda>k v. k = (community, i, instant) \<and> fr_run v = None)
      in if count_rows hit (st_fires s) > 0 \<and> map_of (st_runs s) (community, run_id) = None
         then (Err (Db_Failed ''foreign key''), s)
         else (Ok (count_rows hit (st_fires s) = 1),
               s\<lparr>st_fires := update_rows hit (\<lambda>v. v\<lparr>fr_run := Some run_id\<rparr>) (st_fires s)\<rparr>))"

text \<open>\<^verbatim>\<open>community_write_allowed\<close> is a function of the database.\<close>
definition prune_scheduled_workflow_fires_before :: "(uuid \<Rightarrow> bool) \<Rightarrow> store \<Rightarrow> int \<Rightarrow> nat \<times> store" where
  "prune_scheduled_workflow_fires_before write_allowed s older_than =
     (let hit = (\<lambda>k v. fc_claimed_at (fr_claim v) < older_than \<and> write_allowed (fst k))
      in (count_rows hit (st_fires s), s\<lparr>st_fires := delete_rows hit (st_fires s)\<rparr>))"

section \<open>Runs\<close>

definition create_workflow_run ::
  "int \<Rightarrow> uuid \<Rightarrow> store \<Rightarrow> uuid \<Rightarrow> uuid \<Rightarrow> string option \<Rightarrow> json option \<Rightarrow> (db_error, uuid) result \<times> store" where
  "create_workflow_run now fresh s community i event ctx =
     (if map_of (st_workflows s) (community, i) = None then (Err (Db_Failed ''foreign key''), s)
      else if map_of (st_runs s) (community, fresh) \<noteq> None then (Err (Db_Failed ''duplicate key''), s)
      else (Ok fresh, s\<lparr>st_runs := st_runs s @ [((community, fresh),
        \<lparr>rr_id = fresh, rr_community = community, rr_workflow = i, rr_status = Run_Pending,
         rr_trigger_event = event, rr_current_step = 0, rr_trace = JArray [], rr_trigger_context = ctx,
         rr_started_at = None, rr_completed_at = None, rr_error_message = None, rr_error_code = None,
         rr_created_at = now\<rparr>)]\<rparr>))"

definition get_workflow_run :: "store \<Rightarrow> uuid \<Rightarrow> uuid \<Rightarrow> (db_error, run_record) result" where
  "get_workflow_run s community i = (case map_of (st_runs s) (community, i) of
     None \<Rightarrow> Err (Db_NotFound (''workflow_run '' @ i)) | Some r \<Rightarrow> Ok r)"

definition run_key :: "run_record \<Rightarrow> int \<times> uuid" where
  "run_key r = (rr_created_at r, rr_id r)"

definition list_workflow_runs_page ::
  "store \<Rightarrow> uuid \<Rightarrow> uuid \<Rightarrow> int option \<Rightarrow> uuid option \<Rightarrow> int \<Rightarrow> run_record list" where
  "list_workflow_runs_page s community i before before_id limit =
     take (clamp_limit limit) (rev (sort_key run_key
       (select_rows (\<lambda>r. rr_community r = community \<and> rr_workflow r = i
          \<and> (case (before, before_id) of (Some t, Some j) \<Rightarrow> run_key r < (t, j) | _ \<Rightarrow> True)) (st_runs s))))"

definition list_workflow_runs :: "store \<Rightarrow> uuid \<Rightarrow> uuid \<Rightarrow> int \<Rightarrow> run_record list" where
  "list_workflow_runs s community i limit = list_workflow_runs_page s community i None None limit"

record run_failure =
  rf_code :: string
  rf_message :: string

definition run_update ::
  "int \<Rightarrow> run_status \<Rightarrow> int \<Rightarrow> json \<Rightarrow> run_failure option \<Rightarrow> run_record \<Rightarrow> run_record" where
  "run_update now st step trace failure r = r\<lparr>
     rr_status := st, rr_current_step := step, rr_trace := trace,
     rr_error_code := map_option rf_code failure, rr_error_message := map_option rf_message failure,
     rr_started_at := (if st = Run_Running \<and> rr_started_at r = None then Some now else rr_started_at r),
     rr_completed_at := (if st \<in> {Run_Completed, Run_Failed, Run_Cancelled} then Some now
       else rr_completed_at r)\<rparr>"

definition update_workflow_run ::
  "int \<Rightarrow> store \<Rightarrow> uuid \<Rightarrow> uuid \<Rightarrow> run_status \<Rightarrow> int \<Rightarrow> json \<Rightarrow> run_failure option
    \<Rightarrow> (db_error, unit) result \<times> store" where
  "update_workflow_run now s community i st step trace failure =
     (if map_of (st_runs s) (community, i) = None then (Err (Db_NotFound (''workflow_run '' @ i)), s)
      else (Ok (), s\<lparr>st_runs := update_rows (\<lambda>k _. k = (community, i))
        (run_update now st step trace failure) (st_runs s)\<rparr>))"

section \<open>Approvals\<close>

record approval_params =
  cp_community :: uuid
  cp_token :: string
  cp_workflow :: uuid
  cp_run :: uuid
  cp_step_id :: string
  cp_step_index :: int
  cp_approver_spec :: string
  cp_expires_at :: int

definition create_approval ::
  "(string \<Rightarrow> string) \<Rightarrow> int \<Rightarrow> store \<Rightarrow> approval_params \<Rightarrow> (db_error, unit) result \<times> store" where
  "create_approval sha now s p =
     (let community = cp_community p; key = (community, sha (cp_token p))
      in if map_of (st_approvals s) key \<noteq> None then (Err (Db_Failed ''duplicate key''), s)
         else if map_of (st_workflows s) (community, cp_workflow p) = None
           \<or> map_of (st_runs s) (community, cp_run p) = None then (Err (Db_Failed ''foreign key''), s)
         else (Ok (), s\<lparr>st_approvals := st_approvals s @ [(key,
           \<lparr>ap_token = sha (cp_token p), ap_workflow = cp_workflow p, ap_run = cp_run p,
            ap_step_id = cp_step_id p, ap_step_index = cp_step_index p, ap_approver_spec = cp_approver_spec p,
            ap_status = Approval_Pending, ap_approver = None, ap_note = None, ap_granted_at = None,
            ap_denied_at = None, ap_expires_at = cp_expires_at p, ap_created_at = now\<rparr>)]\<rparr>))"

definition get_approval_by_stored_hash :: "store \<Rightarrow> uuid \<Rightarrow> string \<Rightarrow> (db_error, approval_record) result" where
  "get_approval_by_stored_hash s community h = (case map_of (st_approvals s) (community, h) of
     None \<Rightarrow> Err (Db_NotFound ''approval token (hashed)'') | Some a \<Rightarrow> Ok a)"

definition get_approval :: "(string \<Rightarrow> string) \<Rightarrow> store \<Rightarrow> uuid \<Rightarrow> string \<Rightarrow> (db_error, approval_record) result" where
  "get_approval sha s community token = get_approval_by_stored_hash s community (sha token)"

definition get_run_approvals :: "store \<Rightarrow> uuid \<Rightarrow> uuid \<Rightarrow> uuid \<Rightarrow> approval_record list" where
  "get_run_approvals s community i run_id =
     sort_key (\<lambda>a. (ap_step_index a, ap_created_at a))
       (map snd (filter (\<lambda>(k, a). fst k = community \<and> ap_run a = run_id \<and> ap_workflow a = i) (st_approvals s)))"

definition update_approval_by_stored_hash ::
  "int \<Rightarrow> store \<Rightarrow> uuid \<Rightarrow> string \<Rightarrow> approval_status \<Rightarrow> string option \<Rightarrow> string option \<Rightarrow> bool \<times> store" where
  "update_approval_by_stored_hash now s community h st approver note =
     (let hit = (\<lambda>k a. k = (community, h) \<and> ap_status a = Approval_Pending);
          f = (\<lambda>a. a\<lparr>ap_status := st, ap_approver := approver, ap_note := note,
             ap_granted_at := (if st = Approval_Granted then Some now else ap_granted_at a),
             ap_denied_at := (if st = Approval_Denied then Some now else ap_denied_at a)\<rparr>)
      in (count_rows hit (st_approvals s) > 0, s\<lparr>st_approvals := update_rows hit f (st_approvals s)\<rparr>))"

definition update_approval ::
  "(string \<Rightarrow> string) \<Rightarrow> int \<Rightarrow> store \<Rightarrow> uuid \<Rightarrow> string \<Rightarrow> approval_status \<Rightarrow> string option \<Rightarrow> string option
    \<Rightarrow> bool \<times> store" where
  "update_approval sha now s community token st approver note =
     update_approval_by_stored_hash now s community (sha token) st approver note"


section \<open>Tables\<close>

definition keys :: "('k, 'v) table \<Rightarrow> 'k set" where
  "keys t = fst ` set t"

lemma keys_None: "map_of t k = None \<longleftrightarrow> k \<notin> keys t"
  by (simp add: keys_def map_of_eq_None_iff)

lemma keys_append [simp]: "keys (t @ u) = keys t \<union> keys u"
  by (simp add: keys_def image_Un)

lemma keys_single [simp]: "keys [(k, v)] = {k}"
  by (simp add: keys_def)

lemma fst_update_rows [simp]: "map fst (update_rows P f t) = map fst t"
  by (auto simp: update_rows_def)

lemma keys_update_rows [simp]: "keys (update_rows P f t) = keys t"
  by (metis fst_update_rows keys_def list.set_map)

lemma set_update_rows:
  "(k, v) \<in> set (update_rows P f t) \<longleftrightarrow> (\<exists>u. (k, u) \<in> set t \<and> v = (if P k u then f u else u))"
  by (induction t) (auto simp: update_rows_def split: if_splits)

lemma set_delete_rows [simp]: "(k, v) \<in> set (delete_rows P t) \<longleftrightarrow> (k, v) \<in> set t \<and> \<not> P k v"
  by (auto simp: delete_rows_def)

lemma distinct_delete_rows: "distinct (map fst t) \<Longrightarrow> distinct (map fst (delete_rows P t))"
  unfolding delete_rows_def by (rule distinct_map_filter)

lemma count_rows_pos: "0 < count_rows P t \<longleftrightarrow> (\<exists>k v. (k, v) \<in> set t \<and> P k v)"
  by (auto simp: count_rows_def filter_empty_conv)

lemma map_of_update_rows:
  "map_of (update_rows P f t) k = map_option (\<lambda>v. if P k v then f v else v) (map_of t k)"
  by (induction t) (auto simp: update_rows_def)

section \<open>Referential integrity\<close>

definition workflow_row_ok :: "uuid \<times> uuid \<Rightarrow> workflow_record \<Rightarrow> bool" where
  "workflow_row_ok k w \<longleftrightarrow> k = (wr_community w, wr_id w)"

definition run_row_ok :: "store \<Rightarrow> uuid \<times> uuid \<Rightarrow> run_record \<Rightarrow> bool" where
  "run_row_ok s k r \<longleftrightarrow> k = (rr_community r, rr_id r) \<and> (fst k, rr_workflow r) \<in> keys (st_workflows s)"

definition fire_row_ok :: "store \<Rightarrow> uuid \<times> uuid \<times> int \<Rightarrow> fire_row \<Rightarrow> bool" where
  "fire_row_ok s k f \<longleftrightarrow>
     k = (fc_community (fr_claim f), fc_workflow (fr_claim f), fc_scheduled_for (fr_claim f))
     \<and> (fst k, fst (snd k)) \<in> keys (st_workflows s)
     \<and> (\<forall>r. fr_run f = Some r \<longrightarrow> (fst k, r) \<in> keys (st_runs s))"

definition approval_row_ok :: "store \<Rightarrow> uuid \<times> string \<Rightarrow> approval_record \<Rightarrow> bool" where
  "approval_row_ok s k a \<longleftrightarrow> snd k = ap_token a
     \<and> (fst k, ap_workflow a) \<in> keys (st_workflows s) \<and> (fst k, ap_run a) \<in> keys (st_runs s)"

definition store_ok :: "store \<Rightarrow> bool" where
  "store_ok s \<longleftrightarrow>
     distinct (map fst (st_workflows s)) \<and> distinct (map fst (st_runs s))
     \<and> distinct (map fst (st_fires s)) \<and> distinct (map fst (st_approvals s))
     \<and> (\<forall>k w. (k, w) \<in> set (st_workflows s) \<longrightarrow> workflow_row_ok k w)
     \<and> (\<forall>k r. (k, r) \<in> set (st_runs s) \<longrightarrow> run_row_ok s k r)
     \<and> (\<forall>k f. (k, f) \<in> set (st_fires s) \<longrightarrow> fire_row_ok s k f)
     \<and> (\<forall>k a. (k, a) \<in> set (st_approvals s) \<longrightarrow> approval_row_ok s k a)"

text \<open>
  One step of the store: a query that writes, under the community it is bound to; the janitor's pruning
  is bound to none.
\<close>
inductive store_step :: "store \<Rightarrow> uuid option \<Rightarrow> store \<Rightarrow> bool" where
  st_create: "store_step s (Some c) (snd (create_workflow now fresh s c ch ow n d h))"
| st_upsert: "store_step s (Some c) (snd (upsert_workflow now s c i ch ow n d h))"
| st_update: "store_step s (Some c) (snd (update_workflow s c i n d h))"
| st_status: "store_step s (Some c) (snd (update_workflow_status s c i st))"
| st_enable: "store_step s (Some c) (snd (set_workflow_enabled s c i b))"
| st_disable: "store_step s (Some c) (snd (disable_workflows_for_owner_in_channel s c chan ow))"
| st_delete: "store_step s (Some c) (snd (delete_workflow s c i))"
| st_delete_owned: "store_step s (Some c) (snd (delete_workflow_for_owner s c i ow))"
| st_claim: "store_step s (Some c) (snd (claim_scheduled_workflow_fire now s c i t))"
| st_attach: "store_step s (Some c) (snd (attach_scheduled_workflow_run s c i t r))"
| st_prune: "store_step s None (snd (prune_scheduled_workflow_fires_before allowed s t))"
| st_create_run: "store_step s (Some c) (snd (create_workflow_run now fresh s c i ev ctx))"
| st_update_run: "store_step s (Some c) (snd (update_workflow_run now s c i rs step tr failure))"
| st_create_approval: "store_step s (Some (cp_community p)) (snd (create_approval sha now s p))"
| st_update_approval: "store_step s (Some c) (snd (update_approval sha now s c tok ast appr nt))"

lemmas store_write_defs =
  create_workflow_def upsert_workflow_def update_workflow_def update_workflow_status_def
  set_workflow_enabled_def disable_workflows_for_owner_in_channel_def delete_workflow_def
  delete_workflow_for_owner_def claim_scheduled_workflow_fire_def attach_scheduled_workflow_run_def
  prune_scheduled_workflow_fires_before_def create_workflow_run_def update_workflow_run_def
  create_approval_def update_approval_def update_approval_by_stored_hash_def

definition empty_store :: "uuid list \<Rightarrow> store" where
  "empty_store archived = \<lparr>st_workflows = [], st_runs = [], st_fires = [], st_approvals = [], st_archived = archived\<rparr>"

definition store_start :: "store \<Rightarrow> bool" where
  "store_start s \<longleftrightarrow> (\<exists>archived. s = empty_store archived)"

text \<open>What a row needs of the rest of the store is monotone in the keys.\<close>
lemma row_ok_mono:
  assumes "keys (st_workflows s) \<subseteq> keys (st_workflows t)" "keys (st_runs s) \<subseteq> keys (st_runs t)"
  shows "run_row_ok s k r \<Longrightarrow> run_row_ok t k r"
    and "fire_row_ok s l f \<Longrightarrow> fire_row_ok t l f"
    and "approval_row_ok s m a \<Longrightarrow> approval_row_ok t m a"
  using assms unfolding run_row_ok_def fire_row_ok_def approval_row_ok_def by blast+

lemma store_ok_grow:
  assumes "store_ok s"
    and "keys (st_workflows s) \<subseteq> keys (st_workflows t)" "keys (st_runs s) \<subseteq> keys (st_runs t)"
    and "distinct (map fst (st_workflows t))" "distinct (map fst (st_runs t))"
      "distinct (map fst (st_fires t))" "distinct (map fst (st_approvals t))"
    and "\<And>k w. (k, w) \<in> set (st_workflows t) \<Longrightarrow> (k, w) \<in> set (st_workflows s) \<or> workflow_row_ok k w"
    and "\<And>k r. (k, r) \<in> set (st_runs t) \<Longrightarrow> (k, r) \<in> set (st_runs s) \<or> run_row_ok t k r"
    and "\<And>k f. (k, f) \<in> set (st_fires t) \<Longrightarrow> (k, f) \<in> set (st_fires s) \<or> fire_row_ok t k f"
    and "\<And>k a. (k, a) \<in> set (st_approvals t) \<Longrightarrow> (k, a) \<in> set (st_approvals s) \<or> approval_row_ok t k a"
  shows "store_ok t"
  using assms row_ok_mono[OF assms(2,3)] unfolding store_ok_def by (fast intro: assms)


lemma store_okD:
  assumes "store_ok s"
  shows "(k, w) \<in> set (st_workflows s) \<Longrightarrow> workflow_row_ok k w"
    and "(k, r) \<in> set (st_runs s) \<Longrightarrow> run_row_ok s k r"
    and "(l, f) \<in> set (st_fires s) \<Longrightarrow> fire_row_ok s l f"
    and "(m, a) \<in> set (st_approvals s) \<Longrightarrow> approval_row_ok s m a"
  using assms unfolding store_ok_def by blast+

lemma update_workflows_ok:
  assumes "store_ok s" "\<And>k w. P k w \<Longrightarrow> workflow_row_ok k w \<Longrightarrow> workflow_row_ok k (f w)"
  shows "store_ok (s\<lparr>st_workflows := update_rows P f (st_workflows s)\<rparr>)"
  using assms(1) by (rule store_ok_grow)
    (use assms in \<open>auto simp: store_ok_def set_update_rows run_row_ok_def fire_row_ok_def approval_row_ok_def split: if_splits\<close>)

lemma update_runs_ok:
  assumes "store_ok s" "\<And>r. rr_community (f r) = rr_community r \<and> rr_id (f r) = rr_id r \<and> rr_workflow (f r) = rr_workflow r"
  shows "store_ok (s\<lparr>st_runs := update_rows P f (st_runs s)\<rparr>)"
  using assms(1) by (rule store_ok_grow)
    (use assms in \<open>auto simp: store_ok_def set_update_rows run_row_ok_def fire_row_ok_def approval_row_ok_def split: if_splits\<close>)

lemma update_approvals_ok:
  assumes "store_ok s" "\<And>a. ap_token (f a) = ap_token a \<and> ap_workflow (f a) = ap_workflow a \<and> ap_run (f a) = ap_run a"
  shows "store_ok (s\<lparr>st_approvals := update_rows P f (st_approvals s)\<rparr>)"
  using assms(1) by (rule store_ok_grow)
    (use assms in \<open>auto simp: store_ok_def set_update_rows run_row_ok_def fire_row_ok_def approval_row_ok_def split: if_splits\<close>)

lemma insert_workflow_ok:
  assumes "store_ok s" "map_of (st_workflows s) k = None" "workflow_row_ok k w"
  shows "store_ok (s\<lparr>st_workflows := st_workflows s @ [(k, w)]\<rparr>)"
  using assms(1) by (rule store_ok_grow)
    (use assms in \<open>auto simp: store_ok_def keys_None keys_def\<close>)

lemma insert_run_ok:
  assumes "store_ok s" "map_of (st_runs s) k = None" "run_row_ok s k r"
  shows "store_ok (s\<lparr>st_runs := st_runs s @ [(k, r)]\<rparr>)"
  using assms(1) by (rule store_ok_grow)
    (use assms in \<open>auto simp: store_ok_def keys_None keys_def run_row_ok_def\<close>)

lemma insert_fire_ok:
  assumes "store_ok s" "map_of (st_fires s) k = None" "fire_row_ok s k f"
  shows "store_ok (s\<lparr>st_fires := st_fires s @ [(k, f)]\<rparr>)"
  using assms(1) by (rule store_ok_grow)
    (use assms in \<open>auto simp: store_ok_def keys_None keys_def fire_row_ok_def\<close>)

lemma insert_approval_ok:
  assumes "store_ok s" "map_of (st_approvals s) k = None" "approval_row_ok s k a"
  shows "store_ok (s\<lparr>st_approvals := st_approvals s @ [(k, a)]\<rparr>)"
  using assms(1) by (rule store_ok_grow)
    (use assms in \<open>auto simp: store_ok_def keys_None keys_def approval_row_ok_def\<close>)

lemma attach_ok:
  assumes "store_ok s"
  shows "store_ok (snd (attach_scheduled_workflow_run s c i t r))"
proof -
  let ?hit = "\<lambda>k v. k = (c, i, t) \<and> fr_run v = None"
  show ?thesis
  proof (cases "0 < count_rows ?hit (st_fires s) \<and> map_of (st_runs s) (c, r) = None")
    case True
    then show ?thesis using assms by (simp add: attach_scheduled_workflow_run_def Let_def)
  next
    case False
    then have run: "\<And>v. (k, v) \<in> set (st_fires s) \<Longrightarrow> ?hit k v \<Longrightarrow> (c, r) \<in> keys (st_runs s)" for k
      by (auto simp: keys_None count_rows_pos)
    have "store_ok (s\<lparr>st_fires := update_rows ?hit (\<lambda>v. v\<lparr>fr_run := Some r\<rparr>) (st_fires s)\<rparr>)"
      using assms by (rule store_ok_grow)
        (use assms run in \<open>auto simp: store_ok_def set_update_rows fire_row_ok_def split: if_splits\<close>)
    then show ?thesis using False by (auto simp: attach_scheduled_workflow_run_def Let_def)
  qed
qed

lemma delete_fires_ok:
  assumes "store_ok s"
  shows "store_ok (s\<lparr>st_fires := delete_rows P (st_fires s)\<rparr>)"
  using assms by (rule store_ok_grow) (use assms in \<open>auto simp: store_ok_def distinct_delete_rows\<close>)

lemma cascade_delete_ok:
  assumes ok: "store_ok s" and free: "\<not> delete_blocked s c i"
  shows "store_ok (cascade_delete s c i)"
proof -
  let ?t = "cascade_delete s c i"
  have wf: "k \<in> keys (st_workflows ?t) \<longleftrightarrow> k \<in> keys (st_workflows s) \<and> k \<noteq> (c, i)" for k
    by (force simp: cascade_delete_def keys_def)
  have runs: "k \<in> keys (st_runs ?t)" if k: "k \<in> keys (st_runs s)" and stay: "fst k = c \<Longrightarrow> \<not> doomed_run s c i (snd k)" for k
  proof -
    obtain r where r: "(k, r) \<in> set (st_runs s)" using k by (fastforce simp: keys_def)
    then have "map_of (st_runs s) k = Some r" using ok by (simp add: store_ok_def)
    then have "\<not> (fst k = c \<and> rr_workflow r = i)"
      using stay by (cases k) (auto simp: doomed_run_def)
    then have "(k, r) \<in> set (st_runs ?t)" using r by (simp add: cascade_delete_def)
    then show ?thesis by (force simp: keys_def)
  qed
  have "run_row_ok ?t k r" if "(k, r) \<in> set (st_runs ?t)" for k r
  proof -
    have "(k, r) \<in> set (st_runs s)" "\<not> (fst k = c \<and> rr_workflow r = i)"
      using that by (auto simp: cascade_delete_def)
    then show ?thesis using store_okD(2)[OF ok] by (auto simp: run_row_ok_def wf)
  qed
  moreover have "fire_row_ok ?t k f" if f: "(k, f) \<in> set (st_fires ?t)" for k f
  proof -
    have old: "(k, f) \<in> set (st_fires s)" "\<not> (fst k = c \<and> fst (snd k) = i)"
      using f by (auto simp: cascade_delete_def)
    then have "fire_row_ok s k f" using store_okD(3)[OF ok] by simp
    moreover have "\<not> doomed_run s c i r" if "fr_run f = Some r" "fst k = c" for r
      using free old that by (auto simp: delete_blocked_def list_ex_iff)
    ultimately show ?thesis using old(2) runs by (auto simp: fire_row_ok_def wf)
  qed
  moreover have "approval_row_ok ?t k a" if a: "(k, a) \<in> set (st_approvals ?t)" for k a
  proof -
    have "(k, a) \<in> set (st_approvals s)"
      "\<not> (fst k = c \<and> (ap_workflow a = i \<or> doomed_run s c i (ap_run a)))"
      using a by (auto simp: cascade_delete_def)
    then show ?thesis using store_okD(4)[OF ok] runs by (fastforce simp: approval_row_ok_def wf)
  qed
  moreover have "workflow_row_ok k w" if "(k, w) \<in> set (st_workflows ?t)" for k w
    using that store_okD(1)[OF ok] by (simp add: cascade_delete_def)
  moreover have "distinct (map fst (st_workflows ?t))" "distinct (map fst (st_runs ?t))"
    "distinct (map fst (st_fires ?t))" "distinct (map fst (st_approvals ?t))"
    using ok by (simp_all add: store_ok_def cascade_delete_def distinct_delete_rows)
  ultimately show ?thesis unfolding store_ok_def by blast
qed

lemma store_step_ok:
  assumes "store_ok s" "store_step s l t"
  shows "store_ok t"
  using assms(2)
proof cases
  case st_attach
  then show ?thesis using attach_ok[OF assms(1)] by simp
next
  case (st_upsert c now i ch ow n d h)
  then show ?thesis
    using assms(1) by (cases "map_of (st_workflows s) (c, i)")
      (auto simp: upsert_workflow_def workflow_row_ok_def intro!: update_workflows_ok insert_workflow_ok)
qed (use assms(1) in \<open>auto simp: store_write_defs Let_def workflow_row_ok_def run_row_ok_def fire_row_ok_def
    approval_row_ok_def keys_None run_update_def
    intro!: update_workflows_ok update_runs_ok update_approvals_ok insert_workflow_ok insert_run_ok
      insert_fire_ok insert_approval_ok delete_fires_ok cascade_delete_ok
    split: option.splits\<close>)

interpretation wf_store: invariant_system store_start store_step store_ok
proof unfold_locales
  show "store_ok s" if "store_start s" for s
    using that by (auto simp: store_start_def empty_store_def store_ok_def)
qed (rule store_step_ok)


section \<open>Communities do not see each other's writes\<close>

definition rows_of :: "uuid \<Rightarrow> store \<Rightarrow>
    (uuid \<times> uuid, workflow_record) table \<times> (uuid \<times> uuid, run_record) table
    \<times> (uuid \<times> uuid \<times> int, fire_row) table \<times> (uuid \<times> string, approval_record) table" where
  "rows_of c s = (filter (\<lambda>(k, v). fst k = c) (st_workflows s), filter (\<lambda>(k, v). fst k = c) (st_runs s),
     filter (\<lambda>(k, v). fst k = c) (st_fires s), filter (\<lambda>(k, v). fst k = c) (st_approvals s))"

lemma filter_update_rows:
  assumes "\<And>k v. (k, v) \<in> set t \<Longrightarrow> P k v \<Longrightarrow> fst k \<noteq> c"
  shows "filter (\<lambda>(k, v). fst k = c) (update_rows P f t) = filter (\<lambda>(k, v). fst k = c) t"
  using assms
proof (induction t)
  case (Cons x t)
  obtain k v where "x = (k, v)" by fastforce
  moreover from this have "P k v \<Longrightarrow> fst k \<noteq> c" using Cons.prems[of k v] by simp
  moreover have "filter (\<lambda>(k, v). fst k = c) (update_rows P f t) = filter (\<lambda>(k, v). fst k = c) t"
    using Cons.prems by (intro Cons.IH) auto
  ultimately show ?case by (cases "P k v") (simp_all add: update_rows_def)
qed (simp add: update_rows_def)

lemma filter_delete_rows:
  assumes "\<And>k v. P k v \<Longrightarrow> fst k \<noteq> c"
  shows "filter (\<lambda>(k, v). fst k = c) (delete_rows P t) = filter (\<lambda>(k, v). fst k = c) t"
  using assms by (induction t) (auto simp: delete_rows_def)

lemma store_step_isolated:
  assumes "store_ok s" "store_step s (Some d) t" "d \<noteq> c"
  shows "rows_of c t = rows_of c s"
  using assms(2)
proof cases
  case (st_disable chan ow)
  have "wr_community w = fst k" if "(k, w) \<in> set (st_workflows s)" for k w
    using store_okD(1)[OF assms(1) that] by (simp add: workflow_row_ok_def)
  then show ?thesis
    using assms(3) by (auto simp: st_disable disable_workflows_for_owner_in_channel_def Let_def rows_of_def
        intro!: filter_update_rows)
next
  case (st_create_approval p sha now)
  then show ?thesis using assms(3) by (auto simp: create_approval_def Let_def rows_of_def)
qed (use assms(3) in \<open>auto simp: store_write_defs cascade_delete_def rows_of_def Let_def
    intro!: filter_update_rows filter_delete_rows split: option.splits\<close>)

text \<open>
  C38: Whatever sequence of queries the other communities issue, the rows of a community's workflows, runs,
  scheduled fires and approvals stay exactly as they are, even where the same UUIDs and the
  same token hashes occur in several communities.
\<close>
theorem tenant_isolated:
  assumes "store_ok s" "run store_step s ls t" "\<forall>l \<in> set ls. \<exists>d. l = Some d \<and> d \<noteq> c"
  shows "rows_of c t = rows_of c s"
  using assms
proof (induction ls arbitrary: s)
  case (Cons l ls)
  then obtain u d where u: "store_step s l u" "run store_step u ls t" "l = Some d" "d \<noteq> c"
    by (auto simp: run_Cons_simps)
  have "rows_of c t = rows_of c u"
    using Cons.IH[OF store_step_ok[OF Cons.prems(1) u(1)] u(2)] Cons.prems(3) by simp
  then show ?case using store_step_isolated Cons.prems(1) u by metis
qed simp

definition sample_store :: store where
  "sample_store = snd (create_workflow 5 ''w1'' (empty_store []) ''A'' (Some ''ch'') ''alice'' ''n'' JNull ''h'')"

lemma sample_store_ok: "store_ok sample_store"
  unfolding sample_store_def
  by (rule store_step_ok[OF _ st_create]) (simp add: empty_store_def store_ok_def)

theorem tenant_isolated_witness:
  "rows_of ''A'' (snd (delete_workflow (snd (create_workflow 6 ''w1'' sample_store ''B'' None ''bob'' ''n'' JNull ''h''))
     ''B'' ''w1'')) = rows_of ''A'' sample_store
   \<and> rows_of ''A'' sample_store \<noteq> ([], [], [], [])"
proof -
  let ?u = "snd (create_workflow 6 ''w1'' sample_store ''B'' None ''bob'' ''n'' JNull ''h'')"
  have "store_step sample_store (Some ''B'') ?u" "store_step ?u (Some ''B'') (snd (delete_workflow ?u ''B'' ''w1''))"
    by (rule st_create, rule st_delete)
  then have "run store_step sample_store [Some ''B'', Some ''B''] (snd (delete_workflow ?u ''B'' ''w1''))"
    by (blast intro: run_cons run_nil)
  then have "rows_of ''A'' (snd (delete_workflow (snd (create_workflow 6 ''w1'' sample_store ''B'' None ''bob'' ''n'' JNull ''h''))
     ''B'' ''w1'')) = rows_of ''A'' sample_store"
    using tenant_isolated[OF sample_store_ok, of "[Some ''B'', Some ''B'']" _ "''A''"] by simp
  then show ?thesis by (simp add: rows_of_def sample_store_def create_workflow_def empty_store_def)
qed

section \<open>An approval is decided once\<close>

lemma decided_step:
  assumes ok: "store_ok s" and step: "store_step s l t"
    and a: "map_of (st_approvals s) k = Some a" "ap_status a \<noteq> Approval_Pending"
  shows "map_of (st_approvals t) k \<in> {Some a, None}"
proof -
  have upd: "map_of (update_rows (\<lambda>k a. k = m \<and> ap_status a = Approval_Pending) f (st_approvals s)) k = Some a" for m f
    using a by (simp add: map_of_update_rows)
  have del: "map_of (delete_rows P (st_approvals s)) k \<in> {Some a, None}" for P
  proof (cases "map_of (delete_rows P (st_approvals s)) k")
    case (Some b)
    then have "(k, b) \<in> set (st_approvals s)" using map_of_SomeD by force
    then have "map_of (st_approvals s) k = Some b" using ok by (simp add: store_ok_def)
    with Some a show ?thesis by simp
  qed simp
  from step show ?thesis
  proof cases
    case (st_update_approval c sha now tok ast appr nt)
    then show ?thesis using upd by (simp add: update_approval_def update_approval_by_stored_hash_def Let_def)
  qed (use a del in \<open>auto simp: store_write_defs Let_def cascade_delete_def split: option.splits\<close>)
qed

lemma update_approval_decides:
  assumes "store_ok s"
  shows "fst (update_approval sha now s c tok st appr nt) \<longleftrightarrow>
     (\<exists>a. map_of (st_approvals s) (c, sha tok) = Some a \<and> ap_status a = Approval_Pending)"
  using assms by (auto simp: update_approval_def update_approval_by_stored_hash_def Let_def count_rows_pos
      store_ok_def dest: map_of_SomeD)

text \<open>
  Once an approval has been granted, denied or expired, a further grant or denial reports the
  conflict, and no query of any kind changes the row: it stays as it was decided or is deleted
  together with its workflow.
\<close>
theorem approval_decided_once:
  assumes "store_ok s" "map_of (st_approvals s) (c, sha tok) = Some a" "ap_status a \<noteq> Approval_Pending"
  shows "\<not> fst (update_approval sha now s c tok st appr nt)
    \<and> (\<forall>l t. store_step s l t \<longrightarrow> map_of (st_approvals t) (c, sha tok) \<in> {Some a, None})"
  using update_approval_decides[OF assms(1)] decided_step[OF assms(1) _ assms(2,3)] assms(2,3) by auto

section \<open>Paging through the runs of a workflow\<close>

text \<open>A reader that asks for page after page with the last row it saw as the cursor.\<close>
fun read_pages :: "nat \<Rightarrow> store \<Rightarrow> uuid \<Rightarrow> uuid \<Rightarrow> int \<Rightarrow> (int \<times> uuid) option \<Rightarrow> run_record list" where
  "read_pages 0 s c i limit cur = []"
| "read_pages (Suc n) s c i limit cur =
     (let page = list_workflow_runs_page s c i (map_option fst cur) (map_option snd cur) limit
      in if page = [] then [] else page @ read_pages n s c i limit (Some (run_key (last page))))"

definition runs_newest_first :: "store \<Rightarrow> uuid \<Rightarrow> uuid \<Rightarrow> run_record list" where
  "runs_newest_first s c i =
     rev (sort_key run_key (select_rows (\<lambda>r. rr_community r = c \<and> rr_workflow r = i) (st_runs s)))"

lemma run_keys_distinct:
  assumes "store_ok s"
  shows "distinct (map run_key (select_rows (\<lambda>r. rr_community r = c \<and> rr_workflow r = i) (st_runs s)))"
proof -
  let ?R = "filter (\<lambda>x. rr_community (snd x) = c \<and> rr_workflow (snd x) = i) (st_runs s)"
  have "distinct (map fst ?R)" using assms by (simp add: store_ok_def distinct_map_filter)
  moreover have "\<forall>x \<in> set ?R. fst x = (c, rr_id (snd x))"
    using store_okD(2)[OF assms] by (auto simp: run_row_ok_def)
  then have "map fst ?R = map (Pair c) (map (\<lambda>x. rr_id (snd x)) ?R)" by auto
  ultimately have "distinct (map (\<lambda>x. rr_id (snd x)) ?R)"
    using distinct_map[of "Pair c" "map (\<lambda>x. rr_id (snd x)) ?R"] by argo
  moreover have "map (\<lambda>x. rr_id (snd x)) ?R
      = map snd (map run_key (select_rows (\<lambda>r. rr_community r = c \<and> rr_workflow r = i) (st_runs s)))"
    by (simp add: select_rows_def filter_map o_def run_key_def)
  ultimately have "distinct (map snd (map run_key
      (select_rows (\<lambda>r. rr_community r = c \<and> rr_workflow r = i) (st_runs s))))" by argo
  then show ?thesis by (rule distinct_map[THEN iffD1, THEN conjunct1])
qed


lemma rev_sort_desc:
  assumes "distinct (map f xs)"
  shows "sorted_wrt (\<lambda>x y. f y < f x) (rev (sort_key f xs))"
proof -
  have "sorted (map f (sort_key f xs))" "distinct (map f (sort_key f xs))"
    using assms by (simp_all add: distinct_map)
  then have "sorted_wrt (<) (map f (sort_key f xs))" by (simp add: strict_sorted_iff)
  then show ?thesis by (simp add: sorted_wrt_rev sorted_wrt_map)
qed

lemma runs_desc: "store_ok s \<Longrightarrow> sorted_wrt (\<lambda>x y. run_key y < run_key x) (runs_newest_first s c i)"
  unfolding runs_newest_first_def by (rule rev_sort_desc[OF run_keys_distinct])

lemma page_after:
  assumes "store_ok s"
  shows "list_workflow_runs_page s c i (Some t) (Some j) limit =
    take (clamp_limit limit) (filter (\<lambda>r. run_key r < (t, j)) (runs_newest_first s c i))"
proof -
  have "select_rows (\<lambda>r. rr_community r = c \<and> rr_workflow r = i \<and> run_key r < (t, j)) (st_runs s)
      = filter (\<lambda>r. run_key r < (t, j)) (select_rows (\<lambda>r. rr_community r = c \<and> rr_workflow r = i) (st_runs s))"
    by (auto simp: select_rows_def intro!: filter_cong)
  then show ?thesis
    by (simp add: list_workflow_runs_page_def runs_newest_first_def rev_filter[symmetric] filter_sort)
qed

lemma filter_below_desc:
  fixes f :: "'a \<Rightarrow> 'b :: linorder"
  assumes "sorted_wrt (\<lambda>x y. f y < f x) (xs @ ys)" "xs \<noteq> []"
  shows "filter (\<lambda>x. f x < f (last xs)) (xs @ ys) = ys"
proof -
  have "f y < f (last xs)" if "y \<in> set ys" for y
    using assms that by (simp add: sorted_wrt_append)
  moreover have "f (last xs) \<le> f x" if "x \<in> set xs" for x
  proof -
    have "sorted_wrt (\<lambda>x y. f y < f x) (butlast xs @ [last xs])"
      using assms by (simp add: sorted_wrt_append)
    moreover have "x \<in> set (butlast xs) \<or> x = last xs"
      using that assms(2) by (metis append_butlast_last_id in_set_conv_decomp_last set_ConsD rotate1.simps(2)
          set_rotate1)
    ultimately show ?thesis by (auto simp: sorted_wrt_append)
  qed
  ultimately show ?thesis
    by (simp add: filter_False filter_True not_less)
qed

lemma read_pages_rest:
  assumes ok: "store_ok s" and all: "runs_newest_first s c i = seen @ rest" and "seen \<noteq> []"
    and "length rest \<le> n"
  shows "read_pages n s c i limit (Some (run_key (last seen))) = rest"
  using assms(2-)
proof (induction n arbitrary: seen rest)
  case (Suc n)
  let ?L = "clamp_limit limit"
  have L: "0 < ?L" by (simp add: clamp_limit_def LIST_MAX_LIMIT_def)
  have "filter (\<lambda>r. run_key r < run_key (last seen)) (runs_newest_first s c i) = rest"
    using filter_below_desc[of run_key seen rest] runs_desc[OF ok, of c i] Suc.prems(1,2) by simp
  then have page: "list_workflow_runs_page s c i (Some (fst (run_key (last seen)))) (Some (snd (run_key (last seen)))) limit
      = take ?L rest"
    by (simp add: page_after[OF ok])
  show ?case
  proof (cases "rest = []")
    case True
    then show ?thesis using page by simp
  next
    case False
    have "read_pages n s c i limit (Some (run_key (last (seen @ take ?L rest)))) = drop ?L rest"
      using Suc.prems False L by (intro Suc.IH) auto
    then show ?thesis using page False L by (simp add: Let_def)
  qed
qed simp

text \<open>
  A reader that pages through the runs of a workflow, handing the last row of each page back as
  the cursor, sees every run exactly once, newest first, whatever page size it asks for.
\<close>
theorem run_pages_exact:
  assumes "store_ok s" "length (st_runs s) < n"
  shows "read_pages n s c i limit None = runs_newest_first s c i"
proof (cases "runs_newest_first s c i = []")
  case True
  then show ?thesis by (cases n) (auto simp: list_workflow_runs_page_def runs_newest_first_def)
next
  case False
  let ?L = "clamp_limit limit" and ?R = "runs_newest_first s c i"
  obtain m where m: "n = Suc m" using assms(2) by (cases n) auto
  have L: "0 < ?L" by (simp add: clamp_limit_def LIST_MAX_LIMIT_def)
  have "length ?R \<le> length (st_runs s)"
    by (simp add: runs_newest_first_def select_rows_def)
  then have "read_pages m s c i limit (Some (run_key (last (take ?L ?R)))) = drop ?L ?R"
    using assms False L m by (intro read_pages_rest) auto
  then show ?thesis
    using False L by (simp add: m list_workflow_runs_page_def runs_newest_first_def Let_def)
qed


definition sample_runs :: store where
  "sample_runs = snd (create_workflow_run 9 ''r2'' (snd (create_workflow_run 8 ''r1'' sample_store ''A'' ''w1'' None None))
     ''A'' ''w1'' None None)"

lemma sample_runs_ok: "store_ok sample_runs"
  unfolding sample_runs_def
  by (rule store_step_ok[OF store_step_ok[OF sample_store_ok st_create_run] st_create_run])

theorem run_pages_exact_witness:
  "map rr_id (read_pages 3 sample_runs ''A'' ''w1'' 1 None) = [''r2'', ''r1'']"
proof -
  have rows: "map snd (st_runs sample_runs) = [the (map_of (st_runs sample_runs) (''A'', ''r1'')),
      the (map_of (st_runs sample_runs) (''A'', ''r2''))]" "length (st_runs sample_runs) = 2"
    by (simp_all add: sample_runs_def sample_store_def create_workflow_run_def create_workflow_def empty_store_def)
  have "map rr_id (runs_newest_first sample_runs ''A'' ''w1'') = [''r2'', ''r1'']"
    by (simp add: runs_newest_first_def select_rows_def run_key_def sample_runs_def sample_store_def
        create_workflow_run_def create_workflow_def empty_store_def)
  then show ?thesis using run_pages_exact[OF sample_runs_ok, of 3 "''A''" "''w1''" 1] rows(2) by simp
qed

definition sample_params :: approval_params where
  "sample_params = \<lparr>cp_community = ''A'', cp_token = ''t'', cp_workflow = ''w1'', cp_run = ''r1'',
     cp_step_id = ''gate'', cp_step_index = 0, cp_approver_spec = ''@lead'', cp_expires_at = 90\<rparr>"

definition sample_decided :: store where
  "sample_decided = snd (update_approval id 20 (snd (create_approval id 10 sample_runs sample_params))
     ''A'' ''t'' Approval_Granted (Some ''bob'') None)"

lemma sample_decided_ok: "store_ok sample_decided"
  unfolding sample_decided_def
  by (rule store_step_ok[OF store_step_ok[OF sample_runs_ok st_create_approval] st_update_approval])

theorem approval_decided_once_witness:
  "map_option ap_status (map_of (st_approvals (snd (update_approval id 30 sample_decided ''A'' ''t'' Approval_Denied None None)))
     (''A'', ''t'')) = Some Approval_Granted"
proof -
  let ?t = "snd (update_approval id 30 sample_decided ''A'' ''t'' Approval_Denied None None)"
  have defs: "map_option ap_status (map_of (st_approvals sample_decided) (''A'', ''t'')) = Some Approval_Granted"
    "keys (st_approvals sample_decided) = {(''A'', ''t'')}"
    by (simp_all add: sample_decided_def sample_params_def create_approval_def update_approval_def keys_def
        update_approval_by_stored_hash_def update_rows_def sample_runs_def sample_store_def Let_def
        create_workflow_run_def create_workflow_def empty_store_def)
  then obtain a where a: "map_of (st_approvals sample_decided) (''A'', ''t'') = Some a" "ap_status a = Approval_Granted"
    by auto
  have "map_of (st_approvals ?t) (''A'', id ''t'') \<noteq> None"
    using a by (simp add: update_approval_def update_approval_by_stored_hash_def Let_def map_of_update_rows)
  moreover have "map_of (st_approvals ?t) (''A'', id ''t'') \<in> {Some a, None}"
    using approval_decided_once[OF sample_decided_ok, of "''A''" id "''t''" a] a
      st_update_approval[of sample_decided "''A''" id 30 "''t''" Approval_Denied None None] by auto
  ultimately show ?thesis using a by auto
qed

end
