(* ===== verification/Net_Address.thy ===== *)
theory Net_Address
  imports Buzz_Prelude "HOL-Library.Word"
begin

text \<open>
  Classification of network addresses (\<^verbatim>\<open>buzz-core/src/network.rs\<close>), the predicate
  behind the protection against server-side request forgery.  An address keeps the
  form the standard library gives it: four octets or eight 16-bit segments, as
  machine words, and the tests of the code stay the mask and shift tests they are.
  The reference is a routing table of CIDR blocks over the address as a number, in
  which the longest matching block decides; the code is shown to be that table.
\<close>

unbundle bit_operations_syntax

section \<open>Addresses\<close>

datatype ipv4_addr = Ipv4Addr "8 word" "8 word" "8 word" "8 word"

datatype ipv6_addr = Ipv6Addr "16 word" "16 word" "16 word" "16 word"
  "16 word" "16 word" "16 word" "16 word"

datatype ip_addr = V4 ipv4_addr | V6 ipv6_addr

fun octets_v4 :: "ipv4_addr \<Rightarrow> 8 word list" where
  "octets_v4 (Ipv4Addr a b c d) = [a, b, c, d]"

fun segments_v6 :: "ipv6_addr \<Rightarrow> 16 word list" where
  "segments_v6 (Ipv6Addr a b c d e f g h) = [a, b, c, d, e, f, g, h]"

text \<open>The two octets of a segment, in network order.\<close>
definition segment_octets :: "16 word \<Rightarrow> 8 word list" where
  "segment_octets s = [ucast (drop_bit 8 s), ucast s]"

definition octets_v6 :: "ipv6_addr \<Rightarrow> 8 word list" where
  "octets_v6 a = concat (map segment_octets (segments_v6 a))"

section \<open>The predicate of the code\<close>

definition NAT64_WELL_KNOWN_PREFIX :: "8 word list" where
  "NAT64_WELL_KNOWN_PREFIX = [0x00, 0x64, 0xff, 0x9b, 0, 0, 0, 0, 0, 0, 0, 0]"

definition IPV4_TRANSLATED_PREFIX :: "8 word list" where
  "IPV4_TRANSLATED_PREFIX = [0, 0, 0, 0, 0, 0, 0, 0, 0xff, 0xff, 0, 0]"

definition embedded_ipv4 :: "ipv6_addr \<Rightarrow> 8 word list \<Rightarrow> ipv4_addr option" where
  "embedded_ipv4 v6 pfx =
     (let octets = octets_v6 v6
      in if take (length pfx) octets = pfx
         then Some (Ipv4Addr (octets ! 12) (octets ! 13) (octets ! 14) (octets ! 15))
         else None)"

text \<open>
  The methods of \<^verbatim>\<open>std::net\<close> that the predicate calls.  \<^verbatim>\<open>to_ipv4\<close> answers for the
  IPv4-compatible and the IPv4-mapped addresses, so also for \<^verbatim>\<open>::\<close> and \<^verbatim>\<open>::1\<close>.
\<close>
fun is_loopback_v4 :: "ipv4_addr \<Rightarrow> bool" where
  "is_loopback_v4 (Ipv4Addr a b c d) = (a = 127)"

fun is_private_v4 :: "ipv4_addr \<Rightarrow> bool" where
  "is_private_v4 (Ipv4Addr a b c d) =
     (a = 10 \<or> (a = 172 \<and> 16 \<le> b \<and> b \<le> 31) \<or> (a = 192 \<and> b = 168))"

fun is_link_local_v4 :: "ipv4_addr \<Rightarrow> bool" where
  "is_link_local_v4 (Ipv4Addr a b c d) = (a = 169 \<and> b = 254)"

fun is_broadcast_v4 :: "ipv4_addr \<Rightarrow> bool" where
  "is_broadcast_v4 (Ipv4Addr a b c d) = (a = 255 \<and> b = 255 \<and> c = 255 \<and> d = 255)"

fun to_ipv4 :: "ipv6_addr \<Rightarrow> ipv4_addr option" where
  "to_ipv4 (Ipv6Addr s0 s1 s2 s3 s4 s5 s6 s7) =
     (if s0 = 0 \<and> s1 = 0 \<and> s2 = 0 \<and> s3 = 0 \<and> s4 = 0 \<and> (s5 = 0 \<or> s5 = 0xffff)
      then Some (Ipv4Addr (ucast (drop_bit 8 s6)) (ucast s6) (ucast (drop_bit 8 s7)) (ucast s7))
      else None)"

definition is_loopback_v6 :: "ipv6_addr \<Rightarrow> bool" where
  "is_loopback_v6 a = (a = Ipv6Addr 0 0 0 0 0 0 0 1)"

definition is_unspecified_v6 :: "ipv6_addr \<Rightarrow> bool" where
  "is_unspecified_v6 a = (a = Ipv6Addr 0 0 0 0 0 0 0 0)"

text \<open>The IPv4 arm of \<^verbatim>\<open>is_not_global_unicast\<close>.\<close>
definition is_not_global_unicast_v4 :: "ipv4_addr \<Rightarrow> bool" where
  "is_not_global_unicast_v4 v4 =
     (let q = octets_v4 v4
      in is_loopback_v4 v4
       \<or> is_private_v4 v4
       \<or> is_link_local_v4 v4
       \<or> q ! 0 = 0
       \<or> is_broadcast_v4 v4
       \<or> (q ! 0 = 100 \<and> q ! 1 AND 0xC0 = 64)
       \<or> (q ! 0 = 198 \<and> q ! 1 AND 0xFE = 18)
       \<or> q ! 0 AND 0xF0 = 0xE0
       \<or> q ! 0 AND 0xF0 = 0xF0
       \<or> (q ! 0 = 192 \<and> q ! 1 = 0 \<and> q ! 2 = 0 \<and> q ! 3 \<noteq> 9 \<and> q ! 3 \<noteq> 10)
       \<or> (q ! 0 = 192 \<and> q ! 1 = 0 \<and> q ! 2 = 2)
       \<or> (q ! 0 = 192 \<and> q ! 1 = 88 \<and> q ! 2 = 99)
       \<or> (q ! 0 = 198 \<and> q ! 1 = 51 \<and> q ! 2 = 100)
       \<or> (q ! 0 = 203 \<and> q ! 1 = 0 \<and> q ! 2 = 113))"

text \<open>The carved-out entries of 2001::/23, and the tests after it.\<close>
definition is_global_exception :: "16 word list \<Rightarrow> bool" where
  "is_global_exception s \<longleftrightarrow>
     (s ! 1 = 1 \<and> s ! 2 = 0 \<and> s ! 3 = 0 \<and> s ! 4 = 0 \<and> s ! 5 = 0 \<and> s ! 6 = 0
        \<and> 1 \<le> s ! 7 \<and> s ! 7 \<le> 3)
     \<or> s ! 1 = 3
     \<or> (s ! 1 = 4 \<and> s ! 2 = 0x0112)
     \<or> drop_bit 4 (s ! 1) = 0x0002
     \<or> drop_bit 4 (s ! 1) = 0x0003"

definition denied_segments :: "16 word list \<Rightarrow> bool" where
  "denied_segments s \<longleftrightarrow>
     s ! 0 AND 0xfe00 = 0xfc00
     \<or> s ! 0 AND 0xffc0 = 0xfe80
     \<or> s ! 0 AND 0xffc0 = 0xfec0
     \<or> s ! 0 AND 0xff00 = 0xff00
     \<or> (s ! 0 = 0x0064 \<and> s ! 1 = 0xff9b \<and> s ! 2 = 1)
     \<or> (s ! 0 = 0x0100 \<and> s ! 1 = 0 \<and> s ! 2 = 0 \<and> s ! 3 = 0)
     \<or> (s ! 0 = 0x0100 \<and> s ! 1 = 0 \<and> s ! 2 = 0 \<and> s ! 3 = 1)
     \<or> (s ! 0 = 0x2001 \<and> s ! 1 = 0x0db8)
     \<or> s ! 0 = 0x2002
     \<or> (s ! 0 = 0x3fff \<and> drop_bit 12 (s ! 1) = 0)
     \<or> s ! 0 = 0x5f00"

definition is_not_global_unicast :: "ip_addr \<Rightarrow> bool" where
  "is_not_global_unicast ip = (case ip of
     V4 v4 \<Rightarrow> is_not_global_unicast_v4 v4
   | V6 v6 \<Rightarrow> (case to_ipv4 v6 of
       Some v4 \<Rightarrow> is_not_global_unicast_v4 v4
     | None \<Rightarrow>
         (let s = segments_v6 v6 in
          case embedded_ipv4 v6 NAT64_WELL_KNOWN_PREFIX of
            Some v4 \<Rightarrow> is_not_global_unicast_v4 v4
          | None \<Rightarrow> (case embedded_ipv4 v6 IPV4_TRANSLATED_PREFIX of
              Some v4 \<Rightarrow> is_not_global_unicast_v4 v4
            | None \<Rightarrow>
                if is_loopback_v6 v6 \<or> is_unspecified_v6 v6 then True
                else if s ! 0 = 0x2001 \<and> drop_bit 9 (s ! 1) = 0 \<and> \<not> is_global_exception s
                then True
                else denied_segments s))))"

definition is_private_ip :: "ip_addr \<Rightarrow> bool" where
  "is_private_ip ip = is_not_global_unicast ip"

section \<open>The reference: a table of address blocks\<close>

text \<open>
  An address is a number of \<^verbatim>\<open>w * length xs\<close> bits, most significant group first; a
  block of length \<^verbatim>\<open>l\<close> holds the addresses that agree with its base on the first \<^verbatim>\<open>l\<close> bits.
\<close>
fun groups_num :: "nat \<Rightarrow> nat list \<Rightarrow> nat" where
  "groups_num w [] = 0"
| "groups_num w (x # xs) = x * 2 ^ (w * length xs) + groups_num w xs"

definition in_block :: "nat \<Rightarrow> nat list \<Rightarrow> nat \<Rightarrow> nat list \<Rightarrow> bool" where
  "in_block w base len addr \<longleftrightarrow>
     groups_num w addr div 2 ^ (w * length addr - len)
       = groups_num w base div 2 ^ (w * length addr - len)"

datatype verdict = Deny | Allow | Payload

fun lookup_block :: "nat \<Rightarrow> (nat list \<times> nat \<times> verdict) list \<Rightarrow> nat list \<Rightarrow> verdict" where
  "lookup_block w [] addr = Allow"
| "lookup_block w ((base, len, v) # table) addr =
     (if in_block w base len addr then v else lookup_block w table addr)"

text \<open>Longest prefixes first, so the first match is the most specific one.\<close>
definition v4_table :: "(nat list \<times> nat \<times> verdict) list" where
  "v4_table =
    [([255, 255, 255, 255], 32, Deny), ([192, 0, 0, 9], 32, Allow), ([192, 0, 0, 10], 32, Allow),
     ([192, 0, 0, 0], 24, Deny), ([192, 0, 2, 0], 24, Deny), ([192, 88, 99, 0], 24, Deny),
     ([198, 51, 100, 0], 24, Deny), ([203, 0, 113, 0], 24, Deny),
     ([192, 168, 0, 0], 16, Deny), ([169, 254, 0, 0], 16, Deny), ([198, 18, 0, 0], 15, Deny),
     ([172, 16, 0, 0], 12, Deny), ([100, 64, 0, 0], 10, Deny),
     ([0, 0, 0, 0], 8, Deny), ([10, 0, 0, 0], 8, Deny), ([127, 0, 0, 0], 8, Deny),
     ([224, 0, 0, 0], 4, Deny), ([240, 0, 0, 0], 4, Deny)]"

definition v6_table :: "(nat list \<times> nat \<times> verdict) list" where
  "v6_table =
    [([0x2001, 1, 0, 0, 0, 0, 0, 1], 128, Allow), ([0x2001, 1, 0, 0, 0, 0, 0, 2], 128, Allow),
     ([0x2001, 1, 0, 0, 0, 0, 0, 3], 128, Allow),
     ([0, 0, 0, 0, 0, 0, 0, 0], 96, Payload), ([0, 0, 0, 0, 0, 0xffff, 0, 0], 96, Payload),
     ([0x64, 0xff9b, 0, 0, 0, 0, 0, 0], 96, Payload), ([0, 0, 0, 0, 0xffff, 0, 0, 0], 96, Payload),
     ([0x100, 0, 0, 0, 0, 0, 0, 0], 64, Deny), ([0x100, 0, 0, 1, 0, 0, 0, 0], 64, Deny),
     ([0x64, 0xff9b, 1, 0, 0, 0, 0, 0], 48, Deny), ([0x2001, 4, 0x112, 0, 0, 0, 0, 0], 48, Allow),
     ([0x2001, 3, 0, 0, 0, 0, 0, 0], 32, Allow), ([0x2001, 0xdb8, 0, 0, 0, 0, 0, 0], 32, Deny),
     ([0x2001, 0x20, 0, 0, 0, 0, 0, 0], 28, Allow), ([0x2001, 0x30, 0, 0, 0, 0, 0, 0], 28, Allow),
     ([0x2001, 0, 0, 0, 0, 0, 0, 0], 23, Deny), ([0x3fff, 0, 0, 0, 0, 0, 0, 0], 20, Deny),
     ([0x2002, 0, 0, 0, 0, 0, 0, 0], 16, Deny), ([0x5f00, 0, 0, 0, 0, 0, 0, 0], 16, Deny),
     ([0xfe80, 0, 0, 0, 0, 0, 0, 0], 10, Deny), ([0xfec0, 0, 0, 0, 0, 0, 0, 0], 10, Deny),
     ([0xff00, 0, 0, 0, 0, 0, 0, 0], 8, Deny), ([0xfc00, 0, 0, 0, 0, 0, 0, 0], 7, Deny)]"

text \<open>The payload of a wrapper is its last 32 bits, looked up in the IPv4 table.\<close>
definition table_denies :: "ip_addr \<Rightarrow> bool" where
  "table_denies ip = (case ip of
     V4 v4 \<Rightarrow> lookup_block 8 v4_table (map unat (octets_v4 v4)) = Deny
   | V6 v6 \<Rightarrow>
       (case lookup_block 16 v6_table (map unat (segments_v6 v6)) of
          Deny \<Rightarrow> True
        | Allow \<Rightarrow> False
        | Payload \<Rightarrow> lookup_block 8 v4_table (drop 12 (map unat (octets_v6 v6))) = Deny))"

lemma tables_longest_first:
  "sorted_wrt (\<ge>) (map (\<lambda>(base, len, v). len) v4_table)"
  "sorted_wrt (\<ge>) (map (\<lambda>(base, len, v). len) v6_table)"
  unfolding v4_table_def v6_table_def list.map prod.case by simp_all

section \<open>Blocks, group by group\<close>

lemma groups_num_less:
  assumes "\<forall>x\<in>set xs. x < 2 ^ w"
  shows "groups_num w xs < 2 ^ (w * length xs)"
  using assms
proof (induction xs)
  case (Cons x xs)
  have "groups_num w (x # xs) < x * 2 ^ (w * length xs) + 2 ^ (w * length xs)"
    using Cons by simp
  also have "\<dots> = (x + 1) * 2 ^ (w * length xs)" by simp
  also have "\<dots> \<le> 2 ^ w * 2 ^ (w * length xs)"
    using Cons.prems by (intro mult_right_mono) auto
  finally show ?case by (simp add: power_add)
qed simp

lemma horner_cancel:
  assumes "r < M" "s < (M :: nat)"
  shows "x * M + r = y * M + s \<longleftrightarrow> x = y \<and> r = s"
proof
  assume e: "x * M + r = y * M + s"
  have "x = (x * M + r) div M" "y = (y * M + s) div M" using assms by simp_all
  with e show "x = y \<and> r = s" by simp
qed simp

text \<open>A block compares whole groups first and then the leading bits of one group.\<close>
fun block_groups :: "nat \<Rightarrow> nat list \<Rightarrow> nat \<Rightarrow> nat list \<Rightarrow> bool" where
  "block_groups w (b # bs) len (x # xs) =
     (if w \<le> len then x = b \<and> block_groups w bs (len - w) xs
      else x div 2 ^ (w - len) = b div 2 ^ (w - len))"
| "block_groups w _ _ _ = True"

lemma in_block_groups:
  assumes "length base = length addr" "len \<le> w * length addr"
      "\<forall>x\<in>set base \<union> set addr. x < 2 ^ w"
  shows "in_block w base len addr = block_groups w base len addr"
  using assms
proof (induction w base len addr rule: block_groups.induct)
  case (1 w b bs len x xs)
  let ?m = "w * length xs"
  have len: "length bs = length xs" using "1.prems"(1) by simp
  have lx: "groups_num w xs < 2 ^ ?m"
    using "1.prems"(3) by (intro groups_num_less) simp
  have lb: "groups_num w bs < 2 ^ ?m"
    using "1.prems"(3) groups_num_less[of bs w] by (simp add: len)
  show ?case
  proof (cases "w \<le> len")
    case True
    define k where "k = ?m - (len - w)"
    have k: "w * length (x # xs) - len = k" "k \<le> ?m" using True by (auto simp: k_def)
    have horner: "(y * 2 ^ ?m + r) div 2 ^ k = y * 2 ^ (?m - k) + r div 2 ^ k" for y r :: nat
    proof -
      have "2 ^ ?m = 2 ^ (?m - k) * (2 :: nat) ^ k"
        using k(2) by (simp flip: power_add)
      then show ?thesis by (simp add: mult.assoc[symmetric])
    qed
    have small: "r div 2 ^ k < 2 ^ (?m - k)" if "r < 2 ^ ?m" for r :: nat
      using that k(2) by (simp add: div_less_iff_less_mult flip: power_add)
    have "in_block w (b # bs) len (x # xs) \<longleftrightarrow>
        x * 2 ^ (?m - k) + groups_num w xs div 2 ^ k
          = b * 2 ^ (?m - k) + groups_num w bs div 2 ^ k"
      unfolding in_block_def k(1) groups_num.simps len horner by (rule refl)
    also have "\<dots> \<longleftrightarrow> x = b \<and> groups_num w xs div 2 ^ k = groups_num w bs div 2 ^ k"
      using small[OF lx] small[OF lb] by (rule horner_cancel)
    also have "\<dots> \<longleftrightarrow> x = b \<and> in_block w bs (len - w) xs"
      by (simp add: in_block_def k_def)
    finally show ?thesis using 1 True by auto
  next
    case False
    then have e: "w * length (x # xs) - len = ?m + (w - len)" by simp
    have "(y * 2 ^ ?m + r) div 2 ^ (?m + (w - len)) = y div 2 ^ (w - len)" if "r < 2 ^ ?m" for y r :: nat
      using that by (simp add: power_add div_mult2_eq)
    then show ?thesis using False lx lb unfolding in_block_def e groups_num.simps len by simp
  qed
qed (auto simp: in_block_def)


section \<open>The code is the table\<close>

lemma octet_less: "unat (x :: 8 word) < 256"
  using unsigned_less[of x, where 'a = nat] by simp

lemma segment_less: "unat (x :: 16 word) < 65536"
  using unsigned_less[of x, where 'a = nat] by simp

lemma in_block_v4:
  fixes a b c d :: "8 word"
  assumes "length base = 4" "len \<le> 32" "\<forall>x\<in>set base. x < 256"
  shows "in_block 8 base len [unat a, unat b, unat c, unat d]
    = block_groups 8 base len [unat a, unat b, unat c, unat d]"
  using assms by (intro in_block_groups) (auto simp: octet_less)

lemma in_block_v6:
  fixes a b c d e f g h :: "16 word"
  assumes "length base = 8" "len \<le> 128" "\<forall>x\<in>set base. x < 65536"
  shows "in_block 16 base len [unat a, unat b, unat c, unat d, unat e, unat f, unat g, unat h]
    = block_groups 16 base len [unat a, unat b, unat c, unat d, unat e, unat f, unat g, unat h]"
  using assms by (intro in_block_groups) (auto simp: segment_less)

lemma mask_high_bits:
  fixes x y :: "'a :: len word"
  assumes "n \<le> LENGTH('a)" "y = push_bit n (drop_bit n y)" "m = push_bit n (mask (LENGTH('a) - n))"
  shows "x AND m = y \<longleftrightarrow> unat x div 2 ^ n = unat y div 2 ^ n"
proof -
  have "x AND m = push_bit n (drop_bit n x)"
    using assms(1) unfolding assms(3)
    by (intro bit_word_eqI) (auto simp: bit_simps)
  moreover have "drop_bit n (push_bit n (drop_bit n z)) = drop_bit n z" for z :: "'a word"
    by (intro bit_word_eqI) (auto simp: bit_simps dest: bit_imp_le_length)
  ultimately have "x AND m = y \<longleftrightarrow> drop_bit n x = drop_bit n y"
    by (metis assms(2))
  then show ?thesis
    by (simp add: word_unat_eq_iff[of "drop_bit n x"] unat_drop_bit_eq) (simp add: drop_bit_eq_div)
qed


lemma octet_masks:
  fixes x :: "8 word"
  shows "x AND 0xC0 = 64 \<longleftrightarrow> unat x div 64 = 1"
    and "x AND 0xFE = 18 \<longleftrightarrow> unat x div 2 = 9"
    and "x AND 0xF0 = 0xE0 \<longleftrightarrow> unat x div 16 = 14"
    and "x AND 0xF0 = 0xF0 \<longleftrightarrow> unat x div 16 = 15"
     apply (subst mask_high_bits[of 6]; simp add: mask_eq_exp_minus_1)
    apply (subst mask_high_bits[of 1]; simp add: mask_eq_exp_minus_1)
   apply (subst mask_high_bits[of 4]; simp add: mask_eq_exp_minus_1)
  apply (subst mask_high_bits[of 4]; simp add: mask_eq_exp_minus_1)
  done

lemma segment_masks:
  fixes x :: "16 word"
  shows "x AND 0xfe00 = 0xfc00 \<longleftrightarrow> unat x div 512 = 126"
    and "x AND 0xffc0 = 0xfe80 \<longleftrightarrow> unat x div 64 = 1018"
    and "x AND 0xffc0 = 0xfec0 \<longleftrightarrow> unat x div 64 = 1019"
    and "x AND 0xff00 = 0xff00 \<longleftrightarrow> unat x div 256 = 255"
     apply (subst mask_high_bits[of 9]; simp add: mask_eq_exp_minus_1)
    apply (subst mask_high_bits[of 6]; simp add: mask_eq_exp_minus_1)
   apply (subst mask_high_bits[of 6]; simp add: mask_eq_exp_minus_1)
  apply (subst mask_high_bits[of 8]; simp add: mask_eq_exp_minus_1)
  done

lemma segment_shifts:
  fixes x :: "16 word"
  shows "drop_bit 9 x = 0 \<longleftrightarrow> unat x div 512 = 0"
    and "drop_bit 4 x = 2 \<longleftrightarrow> unat x div 16 = 2"
    and "drop_bit 4 x = 3 \<longleftrightarrow> unat x div 16 = 3"
    and "drop_bit 12 x = 0 \<longleftrightarrow> unat x div 4096 = 0"
  by (simp_all only: word_unat_eq_iff unat_drop_bit_eq) (simp_all add: drop_bit_eq_div)

lemma lookup_block_verdict:
  "lookup_block w ((base, len, Deny) # table) x = Deny
     \<longleftrightarrow> in_block w base len x \<or> lookup_block w table x = Deny"
  "lookup_block w ((base, len, Allow) # table) x = Deny
     \<longleftrightarrow> \<not> in_block w base len x \<and> lookup_block w table x = Deny"
  "lookup_block w ((base, len, Payload) # table) x = Deny
     \<longleftrightarrow> \<not> in_block w base len x \<and> lookup_block w table x = Deny"
  "lookup_block w ((base, len, Payload) # table) x = Payload
     \<longleftrightarrow> in_block w base len x \<or> lookup_block w table x = Payload"
  "lookup_block w ((base, len, Allow) # table) x = Payload
     \<longleftrightarrow> \<not> in_block w base len x \<and> lookup_block w table x = Payload"
  "lookup_block w ((base, len, Deny) # table) x = Payload
     \<longleftrightarrow> \<not> in_block w base len x \<and> lookup_block w table x = Payload"
  "lookup_block w [] x = Deny \<longleftrightarrow> False" "lookup_block w [] x = Payload \<longleftrightarrow> False"
  by simp_all

lemma v4_table_exact:
  "lookup_block 8 v4_table (map unat (octets_v4 v4)) = Deny \<longleftrightarrow> is_not_global_unicast_v4 v4"
proof (cases v4)
  case (Ipv4Addr a b c d)
  have code: "is_not_global_unicast_v4 v4 \<longleftrightarrow> (let a = unat a; b = unat b; c = unat c; d = unat d in
      a = 127 \<or> a = 10 \<or> (a = 172 \<and> 16 \<le> b \<and> b \<le> 31) \<or> (a = 192 \<and> b = 168) \<or> (a = 169 \<and> b = 254)
      \<or> a = 0 \<or> (a = 255 \<and> b = 255 \<and> c = 255 \<and> d = 255) \<or> (a = 100 \<and> b div 64 = 1)
      \<or> (a = 198 \<and> b div 2 = 9) \<or> a div 16 = 14 \<or> a div 16 = 15
      \<or> (a = 192 \<and> b = 0 \<and> c = 0 \<and> d \<noteq> 9 \<and> d \<noteq> 10) \<or> (a = 192 \<and> b = 0 \<and> c = 2)
      \<or> (a = 192 \<and> b = 88 \<and> c = 99) \<or> (a = 198 \<and> b = 51 \<and> c = 100) \<or> (a = 203 \<and> b = 0 \<and> c = 113))"
    unfolding Ipv4Addr is_not_global_unicast_v4_def Let_def octets_v4.simps nth_Cons_0 nth_Cons_numeral
    by (simp add: octet_masks) (simp add: word_unat_eq_iff word_le_nat_alt)
  have "unat b div 16 = Suc 0 \<longleftrightarrow> 16 \<le> unat b \<and> unat b \<le> 31" by auto
  then show ?thesis
    unfolding code v4_table_def lookup_block_verdict
    apply (simp add: in_block_v4 Ipv4Addr Let_def octet_less)
    apply (cases "unat a = 192")
     apply auto[1]
    apply simp
    apply blast
    done
qed

lemma segment_octets_num:
  "unat (ucast (drop_bit 8 (s :: 16 word)) :: 8 word) = unat s div 256"
  "unat (ucast (s :: 16 word) :: 8 word) = unat s mod 256"
proof -
  have "unat s div 256 < 256" using segment_less[of s] by auto
  then show "unat (ucast (drop_bit 8 s) :: 8 word) = unat s div 256"
    by (simp add: unsigned_ucast_eq unat_drop_bit_eq take_bit_eq_mod) (simp add: drop_bit_eq_div)
  show "unat (ucast s :: 8 word) = unat s mod 256"
    by (simp add: unsigned_ucast_eq take_bit_eq_mod)
qed


definition wrapped :: "ipv6_addr \<Rightarrow> bool" where
  "wrapped v6 \<longleftrightarrow> (\<exists>p \<in> {[0, 0, 0, 0, 0, 0], [0, 0, 0, 0, 0, 0xffff], [0x64, 0xff9b, 0, 0, 0, 0],
      [0, 0, 0, 0, 0xffff, 0]}. take 6 (map unat (segments_v6 v6)) = p)"

fun payload :: "ipv6_addr \<Rightarrow> ipv4_addr" where
  "payload (Ipv6Addr a b c d e f g h) =
     Ipv4Addr (ucast (drop_bit 8 g)) (ucast g) (ucast (drop_bit 8 h)) (ucast h)"

lemma div_mod_256: "y < 256 \<Longrightarrow> n div 256 = x \<and> n mod 256 = y \<longleftrightarrow> n = 256 * x + (y :: nat)"
  using mult_div_mod_eq[of 256 n] by auto

lemma segment_octets_iff:
  "ucast (drop_bit 8 (s :: 16 word)) = (x :: 8 word) \<and> ucast s = (y :: 8 word)
     \<longleftrightarrow> unat s = 256 * unat x + unat y"
  unfolding word_unat_eq_iff segment_octets_num(1) unfolding segment_octets_num(2)
  using octet_less[of y] by (rule div_mod_256)

lemma embedded_ipv4_eq:
  "embedded_ipv4 (Ipv6Addr a b c d e f g h) NAT64_WELL_KNOWN_PREFIX =
     (if map unat [a, b, c, d, e, f] = [0x64, 0xff9b, 0, 0, 0, 0]
      then Some (payload (Ipv6Addr a b c d e f g h)) else None)"
  "embedded_ipv4 (Ipv6Addr a b c d e f g h) IPV4_TRANSLATED_PREFIX =
     (if map unat [a, b, c, d, e, f] = [0, 0, 0, 0, 0xffff, 0]
      then Some (payload (Ipv6Addr a b c d e f g h)) else None)"
  by (simp_all add: embedded_ipv4_def octets_v6_def segment_octets_def NAT64_WELL_KNOWN_PREFIX_def
      IPV4_TRANSLATED_PREFIX_def Let_def segment_octets_iff conj_assoc[symmetric] del: conj_assoc)


lemma to_ipv4_eq:
  "to_ipv4 (Ipv6Addr a b c d e f g h) =
     (if map unat [a, b, c, d, e, f] \<in> {[0, 0, 0, 0, 0, 0], [0, 0, 0, 0, 0, 0xffff]}
      then Some (payload (Ipv6Addr a b c d e f g h)) else None)"
  by (auto simp: word_unat_eq_iff)

lemma code_v6:
  "is_not_global_unicast (V6 v6) \<longleftrightarrow>
     (if wrapped v6 then is_not_global_unicast_v4 (payload v6)
      else let s = segments_v6 v6 in
        s ! 0 = 0x2001 \<and> drop_bit 9 (s ! 1) = 0 \<and> \<not> is_global_exception s \<or> denied_segments s)"
proof -
  let ?p = "take 6 (map unat (segments_v6 v6))"
  have "wrapped v6" if "is_loopback_v6 v6 \<or> is_unspecified_v6 v6"
    using that by (auto simp: is_loopback_v6_def is_unspecified_v6_def wrapped_def)
  moreover have
    "to_ipv4 v6 = (if ?p \<in> {[0, 0, 0, 0, 0, 0], [0, 0, 0, 0, 0, 0xffff]} then Some (payload v6) else None)"
    "embedded_ipv4 v6 NAT64_WELL_KNOWN_PREFIX
       = (if ?p = [0x64, 0xff9b, 0, 0, 0, 0] then Some (payload v6) else None)"
    "embedded_ipv4 v6 IPV4_TRANSLATED_PREFIX
       = (if ?p = [0, 0, 0, 0, 0xffff, 0] then Some (payload v6) else None)"
    by (cases v6; simp only: to_ipv4_eq embedded_ipv4_eq; simp)+
  ultimately show ?thesis
    unfolding is_not_global_unicast_def ip_addr.case wrapped_def by (simp add: Let_def) blast
qed

lemma v6_table_wrapped:
  "lookup_block 16 v6_table (map unat (segments_v6 v6)) = Payload \<longleftrightarrow> wrapped v6"
  by (cases v6) (auto simp: v6_table_def lookup_block_verdict in_block_v6 wrapped_def segment_less
    simp del: lookup_block.simps)

lemma payload_octets: "drop 12 (map unat (octets_v6 v6)) = map unat (octets_v4 (payload v6))"
  by (cases v6) (simp add: octets_v6_def segment_octets_def)

lemma v6_table_denies:
  assumes "\<not> wrapped v6"
  shows "lookup_block 16 v6_table (map unat (segments_v6 v6)) = Deny \<longleftrightarrow>
    (let s = segments_v6 v6 in
        s ! 0 = 0x2001 \<and> drop_bit 9 (s ! 1) = 0 \<and> \<not> is_global_exception s \<or> denied_segments s)"
proof (cases v6)
  case (Ipv6Addr a b c d e f g h)
  show ?thesis
    using assms unfolding v6_table_def lookup_block_verdict Ipv6Addr
    apply (simp add: in_block_v6 wrapped_def segment_less is_global_exception_def denied_segments_def
       segment_masks segment_shifts del: lookup_block.simps)
    apply (simp add: word_unat_eq_iff word_le_nat_alt)
    apply (cases "unat a = 8193"; cases "unat b = 3512"; simp)
      apply (cases "unat b = 1"; auto)
     apply blast
    apply blast
    done
qed

lemma not_global_table: "is_not_global_unicast ip \<longleftrightarrow> table_denies ip"
proof (cases ip)
  case (V4 v4)
  then show ?thesis
    by (simp add: is_not_global_unicast_def table_denies_def v4_table_exact)
next
  case (V6 v6)
  then show ?thesis
    using v6_table_denies[of v6] v6_table_wrapped[of v6]
    by (cases "wrapped v6")
      (auto simp: table_denies_def code_v6 payload_octets v4_table_exact split: verdict.split)
qed

text \<open>
  The predicate that guards every outbound request denies exactly the addresses that the
  routing table of special-purpose blocks denies by its most specific matching entry, for all
  2^32 IPv4 and 2^128 IPv6 addresses: the mask and shift tests, the carved-out exceptions and the
  recursion into embedded IPv4 addresses neither miss an address of a block nor reject one outside.
\<close>
theorem ssrf_table_exact: "is_not_global_unicast ip \<longleftrightarrow> table_denies ip"
  by (rule not_global_table)

end
