(* ===== verification/Workflow_Executor.thy ===== *)
theory Workflow_Executor
  imports Workflow_Templates Workflow_Store Net_Address
begin

text \<open>
  The sequential executor (\<^verbatim>\<open>buzz-workflow/src/executor.rs\<close>) with the finalisation of a run
  (\<^verbatim>\<open>lib.rs\<close>).  The world answers each step through a record: the community write fence, the state
  of the workflow tables at the time of the step, the action sink, name resolution and HTTP.
  What the executor does to the world is a log of effects.  A step may be cut short by its timeout or
  by the loss of the fence's lease at any point before or after its one external effect.
\<close>

section \<open>Answers and effects\<close>

datatype sink_error =
    Sink_InvalidInput string
  | Sink_ChannelNotFound string
  | Sink_ChannelArchived string
  | Sink_EventBuild string
  | Sink_Database string
  | Sink_EmptyContent

fun sink_error_text :: "sink_error \<Rightarrow> string" where
  "sink_error_text (Sink_InvalidInput e) = ''invalid input: '' @ e"
| "sink_error_text (Sink_ChannelNotFound e) = ''channel not found: '' @ e"
| "sink_error_text (Sink_ChannelArchived e) = ''channel is archived: '' @ e"
| "sink_error_text (Sink_EventBuild e) = ''event construction failed: '' @ e"
| "sink_error_text (Sink_Database e) = ''database error: '' @ e"
| "sink_error_text Sink_EmptyContent = ''empty message content''"

definition workflow_error_from_sink :: "sink_error \<Rightarrow> workflow_error" where
  "workflow_error_from_sink e = WebhookError (sink_error_text e)"

fun db_error_text :: "db_error \<Rightarrow> string" where
  "db_error_text (Db_NotFound e) = ''not found: '' @ e"
| "db_error_text (Db_AccessDenied e) = ''access denied: '' @ e"
| "db_error_text (Db_InvalidData e) = ''invalid data: '' @ e"
| "db_error_text (Db_Failed e) = ''database error: '' @ e"

text \<open>Parsers and encoders of other packages, and the environment of the process.\<close>
record net =
  net_parse_uuid :: "string \<Rightarrow> (string, uuid) result"
  net_hex :: "string \<Rightarrow> string"
  net_parse_url :: "string \<Rightarrow> (string, string option \<times> nat option) result"
  net_parse_method :: "string \<Rightarrow> (string, unit) result"
  net_utf8_lossy :: "string \<Rightarrow> string"
  net_parse_json :: "string \<Rightarrow> json option"
  net_status_text :: "nat \<Rightarrow> string"
  net_env :: "string \<Rightarrow> string option"
  net_ip_text :: "ip_addr \<Rightarrow> string"

datatype dns_answer = Dns_Task_Failed string | Dns_Failed string | Dns_Addrs "ip_addr list"

datatype http_answer = Http_Failed string | Http_Response nat "(string, string) result list"

text \<open>\<^verbatim>\<open>text()\<close> of a reaction response: its body or a reading error.\<close>
datatype reaction_answer = Reaction_Failed string | Reaction_Response nat "string option"

datatype protect_answer = Protected | Lease_Lost string bool

record answers =
  an_acquire :: "(string, unit) result"
  an_verify :: "(string, unit) result"
  an_protect :: protect_answer
  an_finish :: "(string, unit) result"
  an_timeout :: "bool option"
  an_store :: store
  an_run_fails :: "string option"
  an_workflow_fails :: "string option"
  an_sink :: "(sink_error, string) result option"
  an_token :: string
  an_dns :: dns_answer
  an_client_fails :: "string option"
  an_http :: http_answer
  an_reaction :: reaction_answer

datatype effect =
    Posted uuid string string string string "string option"
  | Requested ip_addr nat string string "(string \<times> string) list" "string option"
  | Reacted string "(string \<times> string) list" string
  | Slept nat

datatype step_result = Completed json | Suspended string | Skipped

type_synonym action_result = "(workflow_error, step_result) result \<times> effect list"

text \<open>The dash of the message texts, in UTF-8.\<close>
definition em_dash :: string where "em_dash = [CHR 0xE2, CHR 0x80, CHR 0x94]"

section \<open>Messages\<close>

definition resolve_send_message_channel ::
  "net \<Rightarrow> string option \<Rightarrow> string \<Rightarrow> uuid option \<Rightarrow> (workflow_error, string) result" where
  "resolve_send_message_channel N explicit trigger_channel workflow_channel =
     (let explicit' = (case map_option str_trim explicit of Some v \<Rightarrow> if v = [] then None else Some v | None \<Rightarrow> None);
          parse = (\<lambda>e. case net_parse_uuid N e of
             Err m \<Rightarrow> Err (InvalidDefinition (''SendMessage: invalid channel override UUID: '' @ m))
           | Ok u \<Rightarrow> Ok u)
      in case workflow_channel of
           Some home \<Rightarrow> (case explicit' of
               None \<Rightarrow> Ok home
             | Some e \<Rightarrow> and_then (parse e) (\<lambda>u.
                 if u \<noteq> home
                 then Err (InvalidDefinition (''SendMessage: channel override must match the workflow channel ('' @ home @ '')''))
                 else Ok home))
         | None \<Rightarrow> (case explicit' of
               Some e \<Rightarrow> parse e
             | None \<Rightarrow>
                 if str_trim trigger_channel = []
                 then Err (InvalidDefinition (''SendMessage: no channel_id available ''
                   @ ''(trigger has no channel context and no channel override was specified)''))
                 else Ok (str_trim trigger_channel)))"

definition load_run :: "answers \<Rightarrow> uuid \<Rightarrow> uuid \<Rightarrow> (workflow_error, run_record) result" where
  "load_run A community run_id =
     (case (case an_run_fails A of Some e \<Rightarrow> Err e
            | None \<Rightarrow> (case get_workflow_run (an_store A) community run_id of Err e \<Rightarrow> Err (db_error_text e) | Ok r \<Rightarrow> Ok r)) of
        Err e \<Rightarrow> Err (WebhookError (''SendMessage: failed to load workflow run '' @ run_id @ '': '' @ e))
      | Ok r \<Rightarrow> Ok r)"

definition load_workflow :: "answers \<Rightarrow> uuid \<Rightarrow> uuid \<Rightarrow> (workflow_error, workflow_record) result" where
  "load_workflow A community i =
     (case (case an_workflow_fails A of Some e \<Rightarrow> Err e
            | None \<Rightarrow> (case get_workflow (an_store A) community i of Err e \<Rightarrow> Err (db_error_text e) | Ok w \<Rightarrow> Ok w)) of
        Err e \<Rightarrow> Err (WebhookError (''SendMessage: failed to load workflow '' @ i @ '': '' @ e))
      | Ok w \<Rightarrow> Ok w)"

definition reply_target :: "trigger_context \<Rightarrow> bool \<Rightarrow> (workflow_error, string option) result" where
  "reply_target ctx in_thread =
     (if \<not> in_thread then Ok None
      else if tr_message_id ctx = [] then
        Err (InvalidDefinition ''SendMessage: reply_in_thread is set but the trigger has no message_id to reply to'')
      else Ok (Some (tr_message_id ctx)))"

definition authored_text :: "step_def \<Rightarrow> (workflow_error, string) result" where
  "authored_text step = (case step_action step of
     SendMessage t _ _ \<Rightarrow> Ok t
   | _ \<Rightarrow> Err (InvalidDefinition ''SendMessage: resolved action does not match its authored step''))"

definition send_message_action ::
  "net \<Rightarrow> answers \<Rightarrow> step_def \<Rightarrow> uuid \<Rightarrow> uuid \<Rightarrow> trigger_context \<Rightarrow> string \<Rightarrow> string option \<Rightarrow> bool \<Rightarrow> action_result" where
  "send_message_action N A step community run_id ctx msg channel in_thread =
     try_in [] (load_run A community run_id) (\<lambda>r.
     try_in [] (load_workflow A community (rr_workflow r)) (\<lambda>w.
     try_in [] (resolve_send_message_channel N channel (tr_channel_id ctx) (wr_channel w)) (\<lambda>ch.
     try_in [] (reply_target ctx in_thread) (\<lambda>reply_to.
     try_in [] (authored_text step) (\<lambda>authored.
       case an_sink A of
         None \<Rightarrow> (Err (InvalidDefinition
           (''action_sink not initialized '' @ em_dash @ '' call set_action_sink() before executing workflows'')), [])
       | Some answer \<Rightarrow>
           ((case answer of
               Err e \<Rightarrow> Err (workflow_error_from_sink e)
             | Ok ev_id \<Rightarrow> Ok (Completed (JObject [(''sent'', JBool True), (''event_id'', JString ev_id)]))),
            [Posted community ch msg authored (net_hex N (wr_owner w)) reply_to]))))))"

section \<open>Webhooks\<close>

definition check_ssrf :: "net \<Rightarrow> dns_answer \<Rightarrow> string \<Rightarrow> (workflow_error, ip_addr) result" where
  "check_ssrf N dns host = (case dns of
     Dns_Task_Failed e \<Rightarrow> Err (WebhookError (''SSRF check task failed: '' @ e))
   | Dns_Failed e \<Rightarrow> Err (WebhookError (''DNS resolution failed: '' @ e))
   | Dns_Addrs addrs \<Rightarrow> (case addrs of
       [] \<Rightarrow> Err (WebhookError ''DNS resolution returned no addresses'')
     | ip # _ \<Rightarrow> (case find is_private_ip addrs of
         Some bad \<Rightarrow> Err (WebhookError (''SSRF blocked: '' @ quoted host
           @ '' resolved to private/reserved address '' @ net_ip_text N bad))
       | None \<Rightarrow> Ok ip)))"

definition WEBHOOK_MAX_RESPONSE_BYTES :: nat where "WEBHOOK_MAX_RESPONSE_BYTES = 1024 * 1024"

fun read_body :: "string \<Rightarrow> (string, string) result list \<Rightarrow> (workflow_error, string) result" where
  "read_body acc [] = Ok acc"
| "read_body acc (Inl e # cs) = Err (WebhookError (''reading response body: '' @ e))"
| "read_body acc (Inr b # cs) =
     (if length (acc @ b) > WEBHOOK_MAX_RESPONSE_BYTES
      then Err (WebhookError (''response body exceeds '' @ nat_to_string WEBHOOK_MAX_RESPONSE_BYTES @ '' byte limit''))
      else read_body (acc @ b) cs)"

definition call_webhook_impl ::
  "net \<Rightarrow> answers \<Rightarrow> string \<Rightarrow> string \<Rightarrow> (string \<times> string) list option \<Rightarrow> string option
    \<Rightarrow> (workflow_error, json) result \<times> effect list" where
  "call_webhook_impl N A url http_method headers req_body = (case net_parse_url N url of
     Err e \<Rightarrow> (Err (WebhookError (''invalid URL: '' @ e)), [])
   | Ok (host_str, known_port) \<Rightarrow> (case host_str of
       None \<Rightarrow> (Err (WebhookError ''URL has no host''), [])
     | Some host \<Rightarrow>
         (let port = (case known_port of Some p \<Rightarrow> p | None \<Rightarrow> 80) in
          try_in [] (check_ssrf N (an_dns A) host) (\<lambda>safe_ip.
            case an_client_fails A of
              Some e \<Rightarrow> (Err (WebhookError e), [])
            | None \<Rightarrow> (case net_parse_method N http_method of
                Err e \<Rightarrow> (Err (WebhookError e), [])
              | Ok _ \<Rightarrow>
                  ((case an_http A of
                      Http_Failed e \<Rightarrow> Err (WebhookError e)
                    | Http_Response code chunks \<Rightarrow> and_then (read_body [] chunks) (\<lambda>b.
                        Ok (JObject [(''status'', JNumber (nat_to_string code)), (''body'', JString (net_utf8_lossy N b))]))),
                   [Requested safe_ip port http_method url
                     (case headers of None \<Rightarrow> [] | Some h \<Rightarrow> h) req_body]))))))"

section \<open>Reactions\<close>

definition relay_base_url :: "net \<Rightarrow> string" where
  "relay_base_url N = (case net_env N ''BUZZ_RELAY_BASE_URL'' of Some b \<Rightarrow> b | None \<Rightarrow> ''http://localhost:3000'')"

definition add_reaction_impl :: "net \<Rightarrow> answers \<Rightarrow> string \<Rightarrow> string \<Rightarrow> (workflow_error, json) result \<times> effect list" where
  "add_reaction_impl N A message_id emoji =
     (let base_url = relay_base_url N;
          url = base_url @ ''/api/messages/'' @ message_id @ ''/reactions'';
          auth = (case net_env N ''BUZZ_API_TOKEN'' of
              Some token \<Rightarrow> [(''Authorization'', ''Bearer '' @ token)]
            | None \<Rightarrow> (case net_env N ''BUZZ_RELAY_PUBKEY'' of
                Some pubkey \<Rightarrow> [(''X-Pubkey'', pubkey)] | None \<Rightarrow> []));
          headers = [(''Content-Type'', ''application/json'')] @ auth
      in ((case an_reaction A of
             Reaction_Failed e \<Rightarrow> Err (WebhookError (''AddReaction HTTP error: '' @ e))
           | Reaction_Response code text \<Rightarrow>
               if \<not> (200 \<le> code \<and> code < 300) then
                 Err (WebhookError (''AddReaction: relay returned '' @ net_status_text N code @ '' for message ''
                   @ message_id @ '': '' @ (case text of Some b \<Rightarrow> b | None \<Rightarrow> ''<unreadable>'')))
               else
                 (let body_text = (case text of Some b \<Rightarrow> b | None \<Rightarrow> []);
                      body_json = (case net_parse_json N body_text of
                        Some j \<Rightarrow> j | None \<Rightarrow> JObject [(''raw'', JString body_text)])
                  in Ok (JObject [(''added'', JBool True), (''status'', JNumber (nat_to_string code)), (''response'', body_json)]))),
          [Reacted url headers emoji]))"

section \<open>Dispatch\<close>

definition MAX_DELAY_SECS :: nat where "MAX_DELAY_SECS = 270"

fun complete :: "(workflow_error, json) result \<times> effect list \<Rightarrow> action_result" where
  "complete (r, es) = (and_then r (\<lambda>j. Ok (Completed j)), es)"

text \<open>The body of the protected block.\<close>
fun run_action ::
  "net \<Rightarrow> answers \<Rightarrow> step_def \<Rightarrow> uuid \<Rightarrow> uuid \<Rightarrow> trigger_context \<Rightarrow> action_def \<Rightarrow> action_result" where
  "run_action N A step community run_id ctx (SendMessage msg channel in_thread) =
     send_message_action N A step community run_id ctx msg channel in_thread"
| "run_action N A step community run_id ctx (SendDm to msg) = (Err (NotImplemented ''SendDm''), [])"
| "run_action N A step community run_id ctx (SetChannelTopic topic) = (Err (NotImplemented ''SetChannelTopic''), [])"
| "run_action N A step community run_id ctx (AddReaction emoji) =
     (if tr_message_id ctx = []
      then (Err (InvalidDefinition ''AddReaction: no trigger.message_id available''), [])
      else complete (add_reaction_impl N A (tr_message_id ctx) emoji))"
| "run_action N A step community run_id ctx (CallWebhook url http_method headers req_body) =
     complete (call_webhook_impl N A url (case http_method of Some m \<Rightarrow> m | None \<Rightarrow> ''POST'') headers req_body)"
| "run_action N A step community run_id ctx (RequestApproval from_whom msg timeout) =
     (Ok (Suspended (an_token A)), [])"
| "run_action N A step community run_id ctx (Delay duration) = (case parse_duration_secs duration of
     Err e \<Rightarrow> (Err e, [])
   | Ok secs \<Rightarrow>
       if secs > MAX_DELAY_SECS
       then (Err (InvalidDefinition (''delay exceeds maximum of '' @ nat_to_string MAX_DELAY_SECS @ '' seconds (got ''
         @ nat_to_string secs @ ''s); use the scheduled resume pattern for long delays'')), [])
       else (Ok (Completed (JObject [(''slept_secs'', JNumber (nat_to_string secs))])), [Slept secs]))"

definition lease_lost :: "string \<Rightarrow> workflow_error" where
  "lease_lost e = WebhookError (''community write lease lost: '' @ e)"

definition dispatch_action ::
  "net \<Rightarrow> answers \<Rightarrow> step_def \<Rightarrow> action_def \<Rightarrow> uuid \<Rightarrow> uuid \<Rightarrow> trigger_context \<Rightarrow> action_result" where
  "dispatch_action N A step action community run_id ctx = (case an_acquire A of
     Err e \<Rightarrow> (Err (WebhookError (''community write fence rejected workflow side effect: '' @ e)), [])
   | Ok _ \<Rightarrow> (case an_verify A of
       Err e \<Rightarrow> (Err (lease_lost e), [])
     | Ok _ \<Rightarrow>
         (let (r, effs) = run_action N A step community run_id ctx action
          in case an_protect A of
               Lease_Lost e late \<Rightarrow> (Err (lease_lost e), if late then effs else [])
             | Protected \<Rightarrow>
                 ((case r of
                     Err e \<Rightarrow> Err e
                   | Ok v \<Rightarrow> (case an_finish A of
                       Err e \<Rightarrow> Err (WebhookError (''community write lease release failed: '' @ e))
                     | Ok _ \<Rightarrow> Ok v)), effs))))"

section \<open>Runs\<close>

record execution_result =
  ex_approval_token :: "string option"
  ex_step_index :: nat
  ex_step_outputs :: outputs
  ex_trace :: "json list"

record partial_progress =
  pp_step_index :: nat
  pp_trace :: "json list"

type_synonym run_result = "(workflow_error \<times> partial_progress, execution_result) result \<times> effect list"

definition skipped_entry :: "string \<Rightarrow> json" where
  "skipped_entry i = JObject [(''step_id'', JString i), (''status'', JString ''skipped'')]"

definition completed_entry :: "string \<Rightarrow> json \<Rightarrow> json" where
  "completed_entry i output =
     JObject [(''step_id'', JString i), (''status'', JString ''completed''), (''output'', output)]"

record 'c engine =
  en_libs :: "'c libs"
  en_net :: net
  en_default_timeout_secs :: nat

definition condition_holds :: "'c engine \<Rightarrow> step_def \<Rightarrow> trigger_context \<Rightarrow> outputs \<Rightarrow> (workflow_error, bool) result" where
  "condition_holds E step ctx outs = (case if_expr step of
     None \<Rightarrow> Ok True | Some e \<Rightarrow> evaluate_condition (en_libs E) e ctx outs)"

definition timed_dispatch ::
  "'c engine \<Rightarrow> answers \<Rightarrow> step_def \<Rightarrow> action_def \<Rightarrow> uuid \<Rightarrow> uuid \<Rightarrow> trigger_context \<Rightarrow> action_result" where
  "timed_dispatch E A step action community run_id ctx =
     (let (r, effs) = dispatch_action (en_net E) A step action community run_id ctx
      in case an_timeout A of
           None \<Rightarrow> (r, effs)
         | Some late \<Rightarrow>
             (Err (StepTimeout (step_id step)
               (case timeout_secs step of Some n \<Rightarrow> n | None \<Rightarrow> en_default_timeout_secs E)),
              if late then effs else []))"

fun step_loop ::
  "'c engine \<Rightarrow> (nat \<Rightarrow> answers) \<Rightarrow> uuid \<Rightarrow> uuid \<Rightarrow> trigger_context \<Rightarrow> nat \<Rightarrow> nat \<Rightarrow> step_def list
    \<Rightarrow> outputs \<Rightarrow> json list \<Rightarrow> run_result" where
  "step_loop E ans community run_id ctx start i [] outs trace =
     (Ok \<lparr>ex_approval_token = None, ex_step_index = i, ex_step_outputs = outs, ex_trace = trace\<rparr>, [])"
| "step_loop E ans community run_id ctx start i (step # steps) outs trace =
     (if i < start then step_loop E ans community run_id ctx start (Suc i) steps outs trace
      else
        (let fail = (\<lambda>e. Err (e, \<lparr>pp_step_index = i, pp_trace = trace\<rparr>))
         in case condition_holds E step ctx outs of
              Err e \<Rightarrow> (fail e, [])
            | Ok False \<Rightarrow> step_loop E ans community run_id ctx start (Suc i) steps outs
                (trace @ [skipped_entry (step_id step)])
            | Ok True \<Rightarrow> (case resolve_step_templates (en_libs E) step ctx outs of
                Err e \<Rightarrow> (fail e, [])
              | Ok action \<Rightarrow>
                  (let (r, effs) = timed_dispatch E (ans i) step action community run_id ctx
                   in case r of
                        Err e \<Rightarrow> (fail e, effs)
                      | Ok (Completed output) \<Rightarrow>
                          (let (res, effs') = step_loop E ans community run_id ctx start (Suc i) steps
                             (outs(step_id step \<mapsto> output)) (trace @ [completed_entry (step_id step) output])
                           in (res, effs @ effs'))
                      | Ok (Suspended token) \<Rightarrow>
                          (Ok \<lparr>ex_approval_token = Some token, ex_step_index = i, ex_step_outputs = outs,
                            ex_trace = trace\<rparr>, effs)
                      | Ok Skipped \<Rightarrow>
                          (let (res, effs') = step_loop E ans community run_id ctx start (Suc i) steps outs
                             (trace @ [skipped_entry (step_id step)])
                           in (res, effs @ effs'))))))"

definition execute_steps ::
  "'c engine \<Rightarrow> (nat \<Rightarrow> answers) \<Rightarrow> uuid \<Rightarrow> uuid \<Rightarrow> workflow_def \<Rightarrow> trigger_context \<Rightarrow> nat \<Rightarrow> outputs option \<Rightarrow> run_result" where
  "execute_steps E ans community run_id def ctx start initial =
     step_loop E ans community run_id ctx start 0 (wf_steps def)
       (case initial of Some m \<Rightarrow> m | None \<Rightarrow> Map.empty) []"

text \<open>An update of the run's row that the executor asks for.\<close>
record row_update =
  ru_status :: run_status
  ru_step :: int
  ru_trace :: json
  ru_failure :: "run_failure option"

definition no_progress :: partial_progress where
  "no_progress = \<lparr>pp_step_index = 0, pp_trace = []\<rparr>"

text \<open>
  \<^verbatim>\<open>execute_run\<close>: whether a permit of the semaphore is free and the answer to the first row update
  are arguments; the result lists the updates that were asked for.
\<close>
definition execute_run ::
  "'c engine \<Rightarrow> bool \<Rightarrow> (string, unit) result \<Rightarrow> (nat \<Rightarrow> answers) \<Rightarrow> uuid \<Rightarrow> uuid \<Rightarrow> workflow_def \<Rightarrow> trigger_context
    \<Rightarrow> run_result \<times> row_update list" where
  "execute_run E permit db ans community run_id def ctx =
     (if \<not> permit then ((Err (CapacityExceeded, no_progress), []), [])
      else
        (let up = \<lparr>ru_status = Run_Running, ru_step = 0, ru_trace = JArray [], ru_failure = None\<rparr>
         in case db of
              Err e \<Rightarrow> ((Err (workflow_error.Database e, no_progress), []), [up])
            | Ok _ \<Rightarrow> (execute_steps E ans community run_id def ctx 0 None, [up])))"

definition execute_from_step ::
  "'c engine \<Rightarrow> bool \<Rightarrow> (string, json) result \<Rightarrow> (string, unit) result \<Rightarrow> (nat \<Rightarrow> answers) \<Rightarrow> uuid \<Rightarrow> uuid
    \<Rightarrow> workflow_def \<Rightarrow> trigger_context \<Rightarrow> nat \<Rightarrow> outputs option \<Rightarrow> run_result \<times> row_update list" where
  "execute_from_step E permit old_trace db ans community run_id def ctx start initial =
     (if \<not> permit then ((Err (CapacityExceeded, no_progress), []), [])
      else
        (let existing = (case old_trace of Ok t \<Rightarrow> t | Err _ \<Rightarrow> JArray []);
             up = \<lparr>ru_status = Run_Running, ru_step = int start, ru_trace = existing, ru_failure = None\<rparr>
         in case db of
              Err e \<Rightarrow> ((Err (workflow_error.Database e, no_progress), []), [up])
            | Ok _ \<Rightarrow> (execute_steps E ans community run_id def ctx start initial, [up])))"

definition finalize_run ::
  "(workflow_error \<times> partial_progress, execution_result) result \<Rightarrow> json list option \<Rightarrow> row_update" where
  "finalize_run outcome existing =
     (let pre = (case existing of Some t \<Rightarrow> t | None \<Rightarrow> [])
      in case outcome of
           Ok x \<Rightarrow>
             (if ex_approval_token x \<noteq> None
              then \<lparr>ru_status = Run_Failed, ru_step = int (ex_step_index x), ru_trace = JArray (pre @ ex_trace x),
                ru_failure = Some \<lparr>rf_code = ''approval_not_supported'',
                  rf_message = ''approval gates not yet implemented '' @ em_dash @ '' see WF-08''\<rparr>\<rparr>
              else \<lparr>ru_status = Run_Completed, ru_step = int (ex_step_index x),
                ru_trace = JArray (pre @ ex_trace x), ru_failure = None\<rparr>)
         | Err (e, p) \<Rightarrow> \<lparr>ru_status = Run_Failed, ru_step = int (pp_step_index p),
             ru_trace = JArray (pre @ pp_trace p),
             ru_failure = Some \<lparr>rf_code = error_code e, rf_message = error_text e\<rparr>\<rparr>)"

text \<open>The spawned task of a triggered run.\<close>
definition run_task ::
  "'c engine \<Rightarrow> bool \<Rightarrow> (string, unit) result \<Rightarrow> (nat \<Rightarrow> answers) \<Rightarrow> uuid \<Rightarrow> uuid \<Rightarrow> workflow_def \<Rightarrow> trigger_context
    \<Rightarrow> effect list \<times> row_update list" where
  "run_task E permit db ans community run_id def ctx =
     (let ((outcome, effs), ups) = execute_run E permit db ans community run_id def ctx
      in (effs, ups @ [finalize_run outcome None]))"


section \<open>Where effects come from\<close>

lemma step_loop_effect_cases:
  assumes "e \<in> set (snd (step_loop E ans c r ctx start i (step # steps) outs trace))"
  obtains (later) outs' trace' where "e \<in> set (snd (step_loop E ans c r ctx start (Suc i) steps outs' trace'))"
  | (here) action where "start \<le> i" "resolve_step_templates (en_libs E) step ctx outs = Ok action"
      "e \<in> set (snd (timed_dispatch E (ans i) step action c r ctx))"
  using assms
  by (auto simp: Let_def split: if_splits sum.splits bool.splits prod.splits step_result.splits) (metis snd_conv)+

lemma step_loop_effects:
  assumes "e \<in> set (snd (step_loop E ans c r ctx start i steps outs trace))"
  shows "\<exists>k outs' action. k < length steps \<and> start \<le> i + k
     \<and> resolve_step_templates (en_libs E) (steps ! k) ctx outs' = Ok action
     \<and> e \<in> set (snd (timed_dispatch E (ans (i + k)) (steps ! k) action c r ctx))"
  using assms
proof (induction steps arbitrary: i outs trace)
  case (Cons step steps)
  from Cons.prems show ?case
  proof (cases rule: step_loop_effect_cases)
    case (later outs' trace')
    then obtain k outs'' action where "k < length steps" "start \<le> Suc i + k"
      "resolve_step_templates (en_libs E) (steps ! k) ctx outs'' = Ok action"
      "e \<in> set (snd (timed_dispatch E (ans (Suc i + k)) (steps ! k) action c r ctx))"
      using Cons.IH by blast
    then show ?thesis by (intro exI[of _ "Suc k"]) auto
  next
    case (here action)
    then show ?thesis by (intro exI[of _ 0]) auto
  qed
qed simp

lemma timed_dispatch_effect:
  assumes "e \<in> set (snd (timed_dispatch E A step action c r ctx))"
  shows "is_ok (an_acquire A) \<and> is_ok (an_verify A) \<and> e \<in> set (snd (run_action (en_net E) A step c r ctx action))"
  using assms
  by (auto simp: timed_dispatch_def dispatch_action_def Let_def
      split: prod.splits option.splits sum.splits protect_answer.splits if_splits)

lemma resolve_action_send:
  "resolve_action t a = Ok (SendMessage msg ch th) \<Longrightarrow> \<exists>m c. a = SendMessage m c th"
  by (cases a) (auto split: option.splits)

text \<open>The kind of action an effect comes from.\<close>
fun effect_of_action :: "effect \<Rightarrow> action_def \<Rightarrow> bool" where
  "effect_of_action (Posted _ _ _ _ _ _) a = (\<exists>t ch th. a = SendMessage t ch th)"
| "effect_of_action (Requested _ _ _ _ _ _) a = is_call_webhook a"
| "effect_of_action (Reacted _ _ _) a = (\<exists>emoji. a = AddReaction emoji)"
| "effect_of_action (Slept _) a = (\<exists>d. a = Delay d)"

lemma run_action_kind: "e \<in> set (snd (run_action N A step c r ctx action)) \<Longrightarrow> effect_of_action e action"
  by (cases action)
    (auto simp: call_webhook_impl_def add_reaction_impl_def send_message_action_def try_in_def Let_def
      split: sum.splits option.splits if_splits prod.splits)

lemma resolve_action_kind: "resolve_action t a = Ok b \<Longrightarrow> effect_of_action e b \<Longrightarrow> effect_of_action e a"
  by (cases a; cases e) (auto split: option.splits)

lemma step_effect_kind:
  "resolve_step_templates L step ctx outs = Ok action \<Longrightarrow> e \<in> set (snd (run_action N A step' c r ctx' action))
     \<Longrightarrow> effect_of_action e (step_action step)"
  unfolding resolve_step_templates_def using run_action_kind resolve_action_kind by blast

lemma run_action_requested:
  assumes "Requested ip port m url hs b \<in> set (snd (run_action N A step c r ctx action))"
  shows "\<exists>rest. an_dns A = Dns_Addrs (ip # rest) \<and> (\<forall>x \<in> set (ip # rest). \<not> is_private_ip x)"
  using assms
  by (cases action)
    (auto simp: call_webhook_impl_def add_reaction_impl_def send_message_action_def try_in_def check_ssrf_def Let_def
      find_None_iff split: sum.splits option.splits dns_answer.splits list.splits if_splits prod.splits)

lemma run_action_slept: "Slept n \<in> set (snd (run_action N A step c r ctx action)) \<Longrightarrow> n \<le> MAX_DELAY_SECS"
  by (cases action)
    (auto simp: call_webhook_impl_def add_reaction_impl_def send_message_action_def try_in_def Let_def
      split: sum.splits option.splits if_splits prod.splits)

lemma resolve_channel_home:
  "resolve_send_message_channel N explicit trig (Some home) = Ok ch \<Longrightarrow> ch = home"
  by (auto simp: resolve_send_message_channel_def Let_def split: option.splits if_splits sum.splits)

lemma run_action_posted:
  assumes "Posted c' ch msg au ow rp \<in> set (snd (run_action N A step c r ctx action))"
  shows "c' = c \<and> (\<exists>run w. map_of (st_runs (an_store A)) (c, r) = Some run
     \<and> map_of (st_workflows (an_store A)) (c, rr_workflow run) = Some w
     \<and> (\<forall>home. wr_channel w = Some home \<longrightarrow> ch = home) \<and> ow = net_hex N (wr_owner w)
     \<and> authored_text step = Ok au \<and> (rp = None \<or> rp = Some (tr_message_id ctx)))"
proof (cases action)
  case (SendMessage t ch' th)
  have "Posted c' ch msg au ow rp \<in> set (snd (send_message_action N A step c r ctx t ch' th))"
    using assms SendMessage by simp
  then show ?thesis
    by (auto simp: send_message_action_def load_run_def load_workflow_def get_workflow_run_def get_workflow_def
        try_in_def reply_target_def split: sum.splits option.splits if_splits dest: resolve_channel_home)
qed (use assms in \<open>auto simp: call_webhook_impl_def add_reaction_impl_def try_in_def Let_def
    split: sum.splits option.splits if_splits prod.splits\<close>)


section \<open>Confinement\<close>

lemma execute_steps_effect:
  assumes "e \<in> set (snd (execute_steps E ans c r def ctx start initial))"
  shows "\<exists>k outs action. start \<le> k \<and> k < length (wf_steps def)
     \<and> is_ok (an_acquire (ans k)) \<and> is_ok (an_verify (ans k))
     \<and> resolve_step_templates (en_libs E) (wf_steps def ! k) ctx outs = Ok action
     \<and> e \<in> set (snd (run_action (en_net E) (ans k) (wf_steps def ! k) c r ctx action))"
  using step_loop_effects[of e E ans c r ctx start 0] timed_dispatch_effect assms
  unfolding execute_steps_def by fastforce

text \<open>
  C4: A run posts only into the community it belongs to, and when its workflow is bound to a channel
  only into that channel, whatever channel override its templates produce from the content of the
  triggering message; it posts in the name of the workflow's stored owner, hands on the text the
  owner stored for that step as the authored text, and replies to nothing but the triggering message.
\<close>
theorem workflow_confined:
  assumes "Posted c' ch msg authored ow reply_to \<in> set (snd (execute_steps E ans c r def ctx start initial))"
    "\<forall>k run w. map_of (st_runs (an_store (ans k))) (c, r) = Some run
       \<longrightarrow> map_of (st_workflows (an_store (ans k))) (c, rr_workflow run) = Some w
       \<longrightarrow> wr_channel w = Some home \<and> wr_owner w = stored_owner"
  shows "c' = c \<and> ch = home \<and> ow = net_hex (en_net E) stored_owner
    \<and> (\<exists>step \<in> set (wf_steps def). \<exists>o_ch th. step_action step = SendMessage authored o_ch th)
    \<and> (reply_to = None \<or> reply_to = Some (tr_message_id ctx))"
proof -
  obtain k action where k: "k < length (wf_steps def)"
    "Posted c' ch msg authored ow reply_to
       \<in> set (snd (run_action (en_net E) (ans k) (wf_steps def ! k) c r ctx action))"
    using execute_steps_effect[OF assms(1)] by blast
  have "\<exists>o_ch th. step_action (wf_steps def ! k) = SendMessage authored o_ch th"
    if "authored_text (wf_steps def ! k) = Ok authored"
    using that by (auto simp: authored_text_def split: action_def.splits)
  then show ?thesis
    using run_action_posted[OF k(2)] assms(2) k(1) by (metis nth_mem)
qed

lemma run_action_reacted:
  "Reacted url hs emoji \<in> set (snd (run_action N A step c r ctx action)) \<Longrightarrow>
   url = relay_base_url N @ ''/api/messages/'' @ tr_message_id ctx @ ''/reactions''"
  using run_action_kind[of "Reacted url hs emoji" N A step c r ctx action]
  by (auto simp: add_reaction_impl_def Let_def split: if_splits)

text \<open>
  C21: The requests that a run of the engine sends over HTTP. One of a webhook (\<^verbatim>\<open>Requested\<close>) comes from a
  webhook step of the definition and is pinned to the first address the resolver gave for that step's host; that address,
  like every other one the resolver gave, is outside all blocks of the special-purpose address table. The only others are
  those of reaction steps (\<^verbatim>\<open>Reacted\<close>), which are not pinned or screened: they go to the relay's configured
  base URL, to the reactions of the message of the trigger.
\<close>
theorem webhook_public:
  assumes "e \<in> set (snd (execute_steps E ans c r def ctx start initial))"
  shows "case e of
      Requested ip port m url hs b \<Rightarrow> \<exists>k rest. start \<le> k \<and> k < length (wf_steps def) \<and> is_call_webhook (step_action (wf_steps def ! k))
        \<and> an_dns (ans k) = Dns_Addrs (ip # rest) \<and> (\<forall>x \<in> set (ip # rest). \<not> table_denies x)
    | Reacted url hs emoji \<Rightarrow> (\<exists>k emoji'. start \<le> k \<and> k < length (wf_steps def) \<and> step_action (wf_steps def ! k) = AddReaction emoji')
        \<and> url = relay_base_url (en_net E) @ ''/api/messages/'' @ tr_message_id ctx @ ''/reactions''
    | _ \<Rightarrow> True"
proof -
  obtain k outs action where k: "start \<le> k" "k < length (wf_steps def)"
      "resolve_step_templates (en_libs E) (wf_steps def ! k) ctx outs = Ok action"
      "e \<in> set (snd (run_action (en_net E) (ans k) (wf_steps def ! k) c r ctx action))"
    using execute_steps_effect[OF assms] by blast
  have kind: "effect_of_action e (step_action (wf_steps def ! k))" using step_effect_kind[OF k(3,4)] .
  show ?thesis
  proof (cases e)
    case (Requested ip port m url hs b)
    then show ?thesis
      using run_action_requested[OF k(4)[unfolded Requested]] k(1,2) kind by (auto simp: is_private_ip_def not_global_table)
  next
    case (Reacted url hs emoji)
    then show ?thesis using run_action_reacted[OF k(4)[unfolded Reacted]] k(1,2) kind by auto
  qed simp_all
qed

text \<open>
  Every effect on the world, be it a message, a request, a reaction or a pause, comes from a step of
  the definition with the action of that kind, for which the community's write fence was acquired and
  verified; and no pause is longer than 270 seconds.
\<close>
theorem effects_fenced:
  assumes "e \<in> set (snd (execute_steps E ans c r def ctx start initial))"
  shows "(\<exists>k. start \<le> k \<and> k < length (wf_steps def) \<and> effect_of_action e (step_action (wf_steps def ! k))
      \<and> is_ok (an_acquire (ans k)) \<and> is_ok (an_verify (ans k)))
    \<and> (\<forall>n. e = Slept n \<longrightarrow> n \<le> 270)"
proof -
  obtain k outs action where k: "start \<le> k" "k < length (wf_steps def)"
      "is_ok (an_acquire (ans k))" "is_ok (an_verify (ans k))"
      "resolve_step_templates (en_libs E) (wf_steps def ! k) ctx outs = Ok action"
      "e \<in> set (snd (run_action (en_net E) (ans k) (wf_steps def ! k) c r ctx action))"
    using execute_steps_effect[OF assms] by blast
  have "n \<le> 270" if "e = Slept n" for n
    using run_action_slept[of n] k(6) that by (fastforce simp: MAX_DELAY_SECS_def)
  then show ?thesis using k(1-4) step_effect_kind[OF k(5,6)] by blast
qed

section \<open>The trace of a run\<close>

fun outcome_index :: "(workflow_error \<times> partial_progress, execution_result) result \<Rightarrow> nat" where
  "outcome_index (Inl (e, p)) = pp_step_index p"
| "outcome_index (Inr x) = ex_step_index x"

fun outcome_trace :: "(workflow_error \<times> partial_progress, execution_result) result \<Rightarrow> json list" where
  "outcome_trace (Inl (e, p)) = pp_trace p"
| "outcome_trace (Inr x) = ex_trace x"

text \<open>The step an entry is of, and the outputs a trace records.\<close>
definition entry_step :: "json \<Rightarrow> string option" where
  "entry_step j = (case j of
     JObject ((k, JString i) # _) \<Rightarrow> if k = ''step_id'' then Some i else None | _ \<Rightarrow> None)"

definition record_entry :: "outputs \<Rightarrow> json \<Rightarrow> outputs" where
  "record_entry m j = (case j of
     JObject [(k, JString i), st, (l, output)] \<Rightarrow> m(i \<mapsto> output) | _ \<Rightarrow> m)"

lemma entry_simps [simp]:
  "entry_step (skipped_entry i) = Some i" "entry_step (completed_entry i v) = Some i"
  "record_entry m (skipped_entry i) = m" "record_entry m (completed_entry i v) = m(i \<mapsto> v)"
  by (simp_all add: entry_step_def record_entry_def skipped_entry_def completed_entry_def)

definition outcome_ok :: "nat \<Rightarrow> step_def list \<Rightarrow> outputs \<Rightarrow> json list
    \<Rightarrow> (workflow_error \<times> partial_progress, execution_result) result \<Rightarrow> bool" where
  "outcome_ok i steps outs trace res \<longleftrightarrow>
     i \<le> outcome_index res \<and> outcome_index res \<le> i + length steps
     \<and> (\<exists>new. outcome_trace res = trace @ new
          \<and> map entry_step new = map (Some \<circ> step_id) (take (outcome_index res - i) steps)
          \<and> (\<forall>x. res = Inr x \<longrightarrow> ex_step_outputs x = foldl record_entry outs new))
     \<and> (\<forall>x. res = Inr x \<longrightarrow> ex_approval_token x = None \<longrightarrow> ex_step_index x = i + length steps)"

lemma outcome_ok_Cons:
  assumes "outcome_ok (Suc i) steps outs' (trace @ [entry]) res"
    "entry_step entry = Some (step_id step)" "outs' = record_entry outs entry"
  shows "outcome_ok i (step # steps) outs trace res"
proof -
  obtain new where new: "outcome_trace res = (trace @ [entry]) @ new"
    "map entry_step new = map (Some \<circ> step_id) (take (outcome_index res - Suc i) steps)"
    "\<forall>x. res = Inr x \<longrightarrow> ex_step_outputs x = foldl record_entry outs' new"
    and idx: "Suc i \<le> outcome_index res" "outcome_index res \<le> Suc i + length steps"
    and fin: "\<forall>x. res = Inr x \<longrightarrow> ex_approval_token x = None \<longrightarrow> ex_step_index x = Suc i + length steps"
    using assms(1) unfolding outcome_ok_def by blast
  have "outcome_index res - i = Suc (outcome_index res - Suc i)" using idx by simp
  then have "outcome_trace res = trace @ (entry # new)
      \<and> map entry_step (entry # new) = map (Some \<circ> step_id) (take (outcome_index res - i) (step # steps))
      \<and> (\<forall>x. res = Inr x \<longrightarrow> ex_step_outputs x = foldl record_entry outs (entry # new))"
    using new assms(2,3) by simp
  then show ?thesis using idx fin unfolding outcome_ok_def by (auto intro!: exI[of _ "entry # new"])
qed

lemma step_loop_skip:
  "i \<le> start \<Longrightarrow> start \<le> i + length steps \<Longrightarrow>
     step_loop E ans c r ctx start i steps outs trace
     = step_loop E ans c r ctx start start (drop (start - i) steps) outs trace"
proof (induction steps arbitrary: i)
  case (Cons step steps)
  show ?case
  proof (cases "i < start")
    case True
    then have "start - i = Suc (start - Suc i)" by simp
    then show ?thesis using Cons True by simp
  next
    case False
    then show ?thesis using Cons.prems by simp
  qed
qed simp

lemma step_loop_outcome:
  "start \<le> i \<Longrightarrow> outcome_ok i steps outs trace (fst (step_loop E ans c r ctx start i steps outs trace))"
proof (induction steps arbitrary: i outs trace)
  case (Cons step steps)
  have stop: "outcome_ok i (step # steps) outs trace (Inl (e, \<lparr>pp_step_index = i, pp_trace = trace\<rparr>))" for e
    by (simp add: outcome_ok_def)
  have pause: "outcome_ok i (step # steps) outs trace (Inr \<lparr>ex_approval_token = Some tok, ex_step_index = i,
      ex_step_outputs = outs, ex_trace = trace\<rparr>)" for tok
    by (simp add: outcome_ok_def)
  have skip: "outcome_ok i (step # steps) outs trace res"
    if "step_loop E ans c r ctx start (Suc i) steps outs (trace @ [skipped_entry (step_id step)]) = (res, effs)" for res effs
    using Cons.IH[of "Suc i" outs "trace @ [skipped_entry (step_id step)]"] Cons.prems that
    by (auto intro!: outcome_ok_Cons)
  have continue: "outcome_ok i (step # steps) outs trace res"
    if loop: "step_loop E ans c r ctx start (Suc i) steps (outs(step_id step \<mapsto> v))
      (trace @ [completed_entry (step_id step) v]) = (res, effs)" for v res effs
  proof (rule outcome_ok_Cons)
    have "start \<le> Suc i" using Cons.prems by simp
    then show "outcome_ok (Suc i) steps (outs(step_id step \<mapsto> v)) (trace @ [completed_entry (step_id step) v]) res"
      using Cons.IH[of "Suc i" "outs(step_id step \<mapsto> v)" "trace @ [completed_entry (step_id step) v]"]
      unfolding loop fst_conv by blast
  qed (rule entry_simps, rule entry_simps(4)[symmetric])
  have skip': "outcome_ok i (step # steps) outs trace
      (fst (step_loop E ans c r ctx start (Suc i) steps outs (trace @ [skipped_entry (step_id step)])))"
    using skip by (metis prod.collapse)
  show ?case
    using Cons.prems stop pause skip
    by (auto simp: Let_def skip' split: sum.splits bool.splits prod.splits step_result.splits dest: continue)
qed (simp add: outcome_ok_def)


text \<open>
  Whatever happens during a run, its trace has exactly one entry for each step from the start index
  up to the index it reports, in the order of the definition; a run that completes has an entry for
  every step, and the outputs later steps see are the ones its trace records, so that a run can be
  resumed from its trace.
\<close>
theorem run_trace_exact:
  assumes "start \<le> length (wf_steps def)"
    "res = fst (execute_steps E ans c r def ctx start initial)"
  shows "start \<le> outcome_index res \<and> outcome_index res \<le> length (wf_steps def)
    \<and> map entry_step (outcome_trace res)
        = map (Some \<circ> step_id) (take (outcome_index res - start) (drop start (wf_steps def)))
    \<and> (\<forall>x. res = Ok x \<longrightarrow>
          ex_step_outputs x = foldl record_entry (case initial of Some m \<Rightarrow> m | None \<Rightarrow> Map.empty) (ex_trace x)
          \<and> (ex_approval_token x = None \<longrightarrow> ex_step_index x = length (wf_steps def)))"
proof -
  let ?outs = "case initial of Some m \<Rightarrow> m | None \<Rightarrow> Map.empty"
  have "res = fst (step_loop E ans c r ctx start start (drop start (wf_steps def)) ?outs [])"
    using step_loop_skip[of 0 start "wf_steps def" E ans c r ctx ?outs "[]"] assms
    unfolding execute_steps_def by simp
  then have "outcome_ok start (drop start (wf_steps def)) ?outs [] res"
    using step_loop_outcome[of start start] by simp
  then show ?thesis using assms(1) unfolding outcome_ok_def by (cases res) auto
qed


section \<open>Resuming a run\<close>

definition prepend_trace :: "json list \<Rightarrow> (workflow_error \<times> partial_progress, execution_result) result
    \<Rightarrow> (workflow_error \<times> partial_progress, execution_result) result" where
  "prepend_trace T res = (case res of
     Inl (e, p) \<Rightarrow> Inl (e, p\<lparr>pp_trace := T @ pp_trace p\<rparr>)
   | Inr x \<Rightarrow> Inr (x\<lparr>ex_trace := T @ ex_trace x\<rparr>))"

lemma prepend_trace_simps:
  "prepend_trace T (Inl (e, \<lparr>pp_step_index = i, pp_trace = t\<rparr>)) = Inl (e, \<lparr>pp_step_index = i, pp_trace = T @ t\<rparr>)"
  "prepend_trace T (Inr \<lparr>ex_approval_token = tok, ex_step_index = j, ex_step_outputs = outs, ex_trace = t'\<rparr>)
     = Inr \<lparr>ex_approval_token = tok, ex_step_index = j, ex_step_outputs = outs, ex_trace = T @ t'\<rparr>"
  by (simp_all add: prepend_trace_def)

lemma step_loop_trace:
  "step_loop E ans c r ctx start i steps outs (T @ t) =
     map_prod (prepend_trace T) id (step_loop E ans c r ctx start i steps outs t)"
proof (induction steps arbitrary: i outs t)
  case (Cons step steps)
  show ?case
    using Cons.IH by (auto simp: Let_def prepend_trace_simps simp del: fun_upd_apply split: sum.splits bool.splits prod.splits step_result.splits)
qed (simp add: prepend_trace_simps)

lemma step_loop_start:
  "start \<le> i \<Longrightarrow> step_loop E ans c r ctx start i steps outs t = step_loop E ans c r ctx 0 i steps outs t"
proof (induction steps arbitrary: i outs t)
  case (Cons step steps)
  have "step_loop E ans c r ctx start (Suc i) steps outs' t' = step_loop E ans c r ctx 0 (Suc i) steps outs' t'" for outs' t'
    using Cons by simp
  then show ?case using Cons.prems
    by (auto simp: Let_def split: sum.splits bool.splits prod.splits step_result.splits)
qed simp

lemma step_loop_append:
  assumes "step_loop E ans c r ctx 0 i xs outs t = (Ok x, es)" "ex_approval_token x = None"
  shows "step_loop E ans c r ctx 0 i (xs @ ys) outs t =
    map_prod id (append es) (step_loop E ans c r ctx 0 (i + length xs) ys (ex_step_outputs x) (ex_trace x))"
  using assms
proof (induction xs arbitrary: i outs t es)
  case (Cons step xs)
  then show ?case
    by (auto simp: Let_def map_prod_def split: sum.splits bool.splits prod.splits step_result.splits)
qed (auto simp: map_prod_def split: prod.splits)

text \<open>
  A run can be cut at any step and resumed from its recorded trace: if the first \<^verbatim>\<open>k\<close> steps
  complete, the whole run has the effects of those steps followed by the effects of the execution
  that starts at step \<^verbatim>\<open>k\<close> with the outputs read back from the trace, and ends with the same
  outcome, the two traces put together.
\<close>
theorem run_resumes:
  assumes "k \<le> length (wf_steps def)"
    "execute_steps E ans c r (def\<lparr>wf_steps := take k (wf_steps def)\<rparr>) ctx 0 None = (Ok x, es)"
    "ex_approval_token x = None"
  shows "execute_steps E ans c r def ctx 0 None =
    map_prod (prepend_trace (ex_trace x)) (append es)
      (execute_steps E ans c r def ctx k (Some (foldl record_entry Map.empty (ex_trace x))))"
proof -
  let ?steps = "wf_steps def" and ?outs = "foldl record_entry Map.empty (ex_trace x)"
  have first: "step_loop E ans c r ctx 0 0 (take k ?steps) Map.empty [] = (Ok x, es)"
    using assms(2) by (simp add: execute_steps_def)
  have outs: "ex_step_outputs x = ?outs"
    using step_loop_outcome[of 0 0 "take k ?steps" Map.empty "[]" E ans c r ctx] first
    by (auto simp: outcome_ok_def)
  have "execute_steps E ans c r def ctx 0 None = step_loop E ans c r ctx 0 0 (take k ?steps @ drop k ?steps) Map.empty []"
    by (simp add: execute_steps_def)
  also have "\<dots> = map_prod id (append es) (step_loop E ans c r ctx 0 k (drop k ?steps) ?outs (ex_trace x @ []))"
    using step_loop_append[OF first assms(3), of "drop k ?steps"] assms(1) outs by (simp add: min_absorb2)
  also have "\<dots> = map_prod (prepend_trace (ex_trace x)) (append es) (step_loop E ans c r ctx 0 k (drop k ?steps) ?outs [])"
    unfolding step_loop_trace by (cases "step_loop E ans c r ctx 0 k (drop k ?steps) ?outs []") simp
  also have "step_loop E ans c r ctx 0 k (drop k ?steps) ?outs [] = execute_steps E ans c r def ctx k (Some ?outs)"
    using step_loop_skip[of 0 k ?steps E ans c r ctx ?outs "[]"] step_loop_start[of k k E ans c r ctx "drop k ?steps" ?outs "[]"] assms(1)
    by (simp add: execute_steps_def)
  finally show ?thesis .
qed


section \<open>How a run ends\<close>

text \<open>
  The task of a run always ends with one final row update, completed or failed: completed exactly
  when a permit was free, the first row update succeeded and every step ran without error and
  without asking for an approval, and then the trace has one entry per step; otherwise failed, with a
  stable failure code, the index of the step it stopped at and the trace up to it.
\<close>
theorem run_settles:
  assumes "res = fst (execute_steps E ans c r def ctx 0 None)"
  shows "\<exists>u ups. snd (run_task E permit db ans c r def ctx) = ups @ [u]
    \<and> (if permit \<and> is_ok db \<and> is_ok res \<and> (\<forall>x. res = Ok x \<longrightarrow> ex_approval_token x = None)
       then ru_status u = Run_Completed \<and> ru_failure u = None \<and> ru_step u = int (length (wf_steps def))
         \<and> (\<exists>t. ru_trace u = JArray t \<and> length t = length (wf_steps def))
       else ru_status u = Run_Failed \<and> ru_failure u \<noteq> None
         \<and> (permit \<and> is_ok db \<longrightarrow> ru_step u = int (outcome_index res) \<and> ru_trace u = JArray (outcome_trace res)))"
proof -
  have ok: "outcome_ok 0 (wf_steps def) Map.empty [] res"
    using step_loop_outcome[of 0 0] assms by (simp add: execute_steps_def)
  then have len: "length (ex_trace x) = length (wf_steps def) \<and> ex_step_index x = length (wf_steps def)"
    if "res = Inr x" "ex_approval_token x = None" for x
    using that unfolding outcome_ok_def by (auto dest: arg_cong[of _ _ length])
  obtain effs where run: "execute_steps E ans c r def ctx 0 None = (res, effs)"
    using assms by (metis prod.collapse)
  show ?thesis
  proof (cases "permit \<and> is_ok db")
    case True
    then obtain b where "db = Inr b" by (auto simp: is_ok_iff)
    then show ?thesis using True len run
      by (cases res) (auto simp: run_task_def execute_run_def finalize_run_def Let_def)
  next
    case False
    then show ?thesis
      by (cases db) (auto simp: run_task_def execute_run_def finalize_run_def Let_def no_progress_def)
  qed
qed


section \<open>A sample run\<close>

definition sample_net :: net where
  "sample_net =
     \<lparr> net_parse_uuid = (\<lambda>s. if s = ''ch'' then Ok s else Err ''bad uuid''), net_hex = id,
       net_parse_url = (\<lambda>u. Ok (Some ''example.org'', Some 443)), net_parse_method = (\<lambda>_. Ok ()),
       net_utf8_lossy = id, net_parse_json = (\<lambda>_. None), net_status_text = nat_to_string,
       net_env = (\<lambda>_. None), net_ip_text = (\<lambda>_. ''ip'') \<rparr>"

definition sample_engine :: "(string \<times> eval_value) list engine" where
  "sample_engine = \<lparr> en_libs = sample_libs, en_net = sample_net, en_default_timeout_secs = 300 \<rparr>"

definition sample_answers :: answers where
  "sample_answers =
     \<lparr> an_acquire = Ok (), an_verify = Ok (), an_protect = Protected, an_finish = Ok (), an_timeout = None,
       an_store = sample_runs, an_run_fails = None, an_workflow_fails = None, an_sink = Some (Ok ''ev''),
       an_token = ''tok'', an_dns = Dns_Addrs [V4 (Ipv4Addr 93 184 216 34)], an_client_fails = None,
       an_http = Http_Response 200 [Ok ''ok''], an_reaction = Reaction_Failed ''-'' \<rparr>"

definition sample_step :: "string \<Rightarrow> action_def \<Rightarrow> step_def" where
  "sample_step i a = \<lparr> step_id = i, step_name = None, if_expr = None, timeout_secs = None, step_action = a \<rparr>"

definition sample_def :: workflow_def where
  "sample_def = \<lparr> wf_name = ''n'', wf_description = None, wf_trigger = MessagePosted None,
     wf_steps = [sample_step ''a'' (SendMessage ''hi'' (Some ''ch'') True),
       sample_step ''b'' (CallWebhook ''https://example.org/'' None None (Some ''x''))], wf_enabled = True \<rparr>"

definition sample_outcome :: "(workflow_error \<times> partial_progress, execution_result) result" where
  "sample_outcome = Ok \<lparr>ex_approval_token = None, ex_step_index = 2,
     ex_step_outputs = [''a'' \<mapsto> JObject [(''sent'', JBool True), (''event_id'', JString ''ev'')],
       ''b'' \<mapsto> JObject [(''status'', JNumber ''200''), (''body'', JString ''ok'')]],
     ex_trace = [completed_entry ''a'' (JObject [(''sent'', JBool True), (''event_id'', JString ''ev'')]),
       completed_entry ''b'' (JObject [(''status'', JNumber ''200''), (''body'', JString ''ok'')])]\<rparr>"

definition sample_effects :: "effect list" where
  "sample_effects =
     [Posted ''A'' ''ch'' ''hi'' ''hi'' ''alice'' (Some ''m1''),
      Requested (V4 (Ipv4Addr 93 184 216 34)) 443 ''POST'' ''https://example.org/'' [] (Some ''x'')]"

lemma sample_no_template: "\<not> contains_str ''hi'' ''{{''" "\<not> contains_str ''ch'' ''{{''" "\<not> contains_str ''x'' ''{{''"
    "\<not> contains_str ''https://example.org/'' ''{{''"
  unfolding contains_str_def by (simp_all add: sublist_Cons_right)

lemma sample_run_rows:
  "map_of (st_runs sample_runs) (''A'', ''r1'') = Some \<lparr>rr_id = ''r1'', rr_community = ''A'', rr_workflow = ''w1'',
     rr_status = Run_Pending, rr_trigger_event = None, rr_current_step = 0, rr_trace = JArray [],
     rr_trigger_context = None, rr_started_at = None, rr_completed_at = None, rr_error_message = None,
     rr_error_code = None, rr_created_at = 8\<rparr>"
  "map_of (st_workflows sample_runs) (''A'', ''w1'') = Some \<lparr>wr_id = ''w1'', wr_community = ''A'', wr_name = ''n'',
     wr_owner = ''alice'', wr_channel = Some ''ch'', wr_definition = JNull, wr_hash = ''h'', wr_status = Wf_Active,
     wr_enabled = True, wr_created_at = 5, wr_updated_at = 5\<rparr>"
  by (simp_all add: sample_runs_def sample_store_def create_workflow_run_def create_workflow_def empty_store_def)

lemma sample_address: "\<not> is_private_ip (V4 (Ipv4Addr 93 184 216 34))"
  by (simp add: is_private_ip_def is_not_global_unicast_def is_not_global_unicast_v4_def)

lemma sample_execution:
  "execute_steps sample_engine (\<lambda>_. sample_answers) ''A'' ''r1'' sample_def sample_context 0 None
     = (sample_outcome, sample_effects)"
proof -
  have "str_trim ''ch'' = ''ch''" "nat_to_string 200 = ''200''" by code_simp+
  then show ?thesis
    by (simp add: execute_steps_def sample_def_def sample_step_def sample_engine_def condition_holds_def
        resolve_step_templates_def resolve_template_def sample_no_template resolve_opt_def timed_dispatch_def
        dispatch_action_def sample_answers_def send_message_action_def load_run_def load_workflow_def
        get_workflow_run_def get_workflow_def sample_run_rows resolve_send_message_channel_def sample_net_def
        reply_target_def sample_context_def authored_text_def call_webhook_impl_def check_ssrf_def sample_address
        WEBHOOK_MAX_RESPONSE_BYTES_def sample_outcome_def sample_effects_def)
qed


theorem workflow_confined_witness:
  "Posted ''A'' ''ch'' ''hi'' ''hi'' ''alice'' (Some ''m1'')
     \<in> set (snd (execute_steps sample_engine (\<lambda>_. sample_answers) ''A'' ''r1'' sample_def sample_context 0 None))
   \<and> ''alice'' = net_hex sample_net ''alice''
   \<and> (\<exists>step \<in> set (wf_steps sample_def). \<exists>o_ch th. step_action step = SendMessage ''hi'' o_ch th)"
proof -
  have posted: "Posted ''A'' ''ch'' ''hi'' ''hi'' ''alice'' (Some ''m1'')
     \<in> set (snd (execute_steps sample_engine (\<lambda>_. sample_answers) ''A'' ''r1'' sample_def sample_context 0 None))"
    by (simp add: sample_execution sample_effects_def)
  then show ?thesis
    using workflow_confined[OF posted, of "''ch''" "''alice''"]
    by (simp add: sample_answers_def sample_run_rows sample_engine_def)
qed

theorem webhook_public_witness:
  "\<exists>k rest. an_dns ((\<lambda>_. sample_answers) k) = Dns_Addrs (V4 (Ipv4Addr 93 184 216 34) # rest)
     \<and> \<not> table_denies (V4 (Ipv4Addr 93 184 216 34))"
proof -
  have "Requested (V4 (Ipv4Addr 93 184 216 34)) 443 ''POST'' ''https://example.org/'' [] (Some ''x'')
     \<in> set (snd (execute_steps sample_engine (\<lambda>_. sample_answers) ''A'' ''r1'' sample_def sample_context 0 None))"
    by (simp add: sample_execution sample_effects_def)
  from webhook_public[OF this] show ?thesis by auto
qed

theorem effects_fenced_witness:
  "\<exists>k < length (wf_steps sample_def). is_ok (an_acquire ((\<lambda>_. sample_answers) k))
     \<and> (\<exists>t ch th. step_action (wf_steps sample_def ! k) = SendMessage t ch th)"
proof -
  have "Posted ''A'' ''ch'' ''hi'' ''hi'' ''alice'' (Some ''m1'')
     \<in> set (snd (execute_steps sample_engine (\<lambda>_. sample_answers) ''A'' ''r1'' sample_def sample_context 0 None))"
    by (simp add: sample_execution sample_effects_def)
  from effects_fenced[OF this] show ?thesis by auto
qed

theorem run_trace_exact_witness:
  "map entry_step (outcome_trace sample_outcome) = [Some ''a'', Some ''b'']"
proof -
  have "0 \<le> length (wf_steps sample_def)"
    "sample_outcome = fst (execute_steps sample_engine (\<lambda>_. sample_answers) ''A'' ''r1'' sample_def sample_context 0 None)"
    by (simp_all add: sample_execution)
  from run_trace_exact[OF this] show ?thesis
    by (simp add: sample_outcome_def sample_def_def sample_step_def)
qed

theorem run_resumes_witness:
  "execute_steps sample_engine (\<lambda>_. sample_answers) ''A'' ''r1'' sample_def sample_context 0 None =
     map_prod (prepend_trace (outcome_trace sample_outcome)) (append sample_effects)
       (execute_steps sample_engine (\<lambda>_. sample_answers) ''A'' ''r1'' sample_def sample_context 2
         (Some (foldl record_entry Map.empty (outcome_trace sample_outcome))))"
proof -
  obtain x where x: "sample_outcome = Ok x" "ex_approval_token x = None" by (simp add: sample_outcome_def)
  have two: "2 \<le> length (wf_steps sample_def)" "sample_def\<lparr>wf_steps := take 2 (wf_steps sample_def)\<rparr> = sample_def"
    by (simp_all add: sample_def_def)
  have "execute_steps sample_engine (\<lambda>_. sample_answers) ''A'' ''r1''
      (sample_def\<lparr>wf_steps := take 2 (wf_steps sample_def)\<rparr>) sample_context 0 None = (Ok x, sample_effects)"
    unfolding two(2) sample_execution x(1) by (rule refl)
  from run_resumes[OF two(1) this x(2)] show ?thesis
    unfolding x(1) outcome_trace.simps .
qed

theorem run_settles_witness:
  "\<exists>u ups. snd (run_task sample_engine True (Ok ()) (\<lambda>_. sample_answers) ''A'' ''r1'' sample_def sample_context) = ups @ [u]
     \<and> ru_status u = Run_Completed \<and> ru_step u = 2"
proof -
  have "sample_outcome = fst (execute_steps sample_engine (\<lambda>_. sample_answers) ''A'' ''r1'' sample_def sample_context 0 None)"
    by (simp add: sample_execution)
  from run_settles[OF this, of True "Ok ()"] show ?thesis
    by (auto simp: sample_outcome_def sample_def_def)
qed

end
