(* ===== verification/Workflow_Triggers.thy ===== *)
theory Workflow_Triggers
  imports Workflow_Executor
begin

text \<open>
  Event triggers of the workflow engine (\<^verbatim>\<open>buzz-workflow/src/lib.rs\<close>): the trigger context of an event,
  the match of a trigger with an event, the fail-closed check of the owner's authority, the cache of
  enabled workflows per channel, and \<^verbatim>\<open>on_event\<close>, which creates the runs an event starts.
\<close>

section \<open>Trigger context and match\<close>

definition KIND_REACTION :: nat where "KIND_REACTION = 7"
definition KIND_STREAM_MESSAGE :: nat where "KIND_STREAM_MESSAGE = 9"
definition KIND_STREAM_MESSAGE_DIFF :: nat where "KIND_STREAM_MESSAGE_DIFF = 40008"

definition event_is_reply :: "event \<Rightarrow> bool" where
  "event_is_reply e \<longleftrightarrow> reply (parse_thread_markers (event_tags e)) \<noteq> None"

text \<open>The target of a reaction: the last \<^verbatim>\<open>e\<close> tag with a 64-digit event identifier.\<close>
fun reaction_target :: "tag list \<Rightarrow> string option" where
  "reaction_target [] = None"
| "reaction_target (t # ts) =
     (if tag_is ''e'' t then
        (case tag_content t of
           Some v \<Rightarrow> if length v = 64 \<and> list_all is_ascii_hexdigit v then Some v else reaction_target ts
         | None \<Rightarrow> reaction_target ts)
      else reaction_target ts)"

definition build_trigger_context :: "stored_event \<Rightarrow> trigger_context" where
  "build_trigger_context se =
     (let e = the_event se; is_reaction = (event_kind e = KIND_REACTION)
      in \<lparr> tr_text = content e, tr_author = event_pubkey e,
           tr_channel_id = (case channel_id se of Some ch \<Rightarrow> ch | None \<Rightarrow> []),
           tr_timestamp = nat_to_string (created_at e),
           tr_emoji = (if is_reaction then content e else []),
           tr_message_id = (if is_reaction
             then (case reaction_target (rev (event_tags e)) of Some v \<Rightarrow> v | None \<Rightarrow> event_id e)
             else event_id e),
           tr_is_reply = event_is_reply e, tr_webhook_fields = Map.empty \<rparr>)"

fun trigger_matches_event :: "trigger_def \<Rightarrow> nat \<Rightarrow> bool" where
  "trigger_matches_event (MessagePosted _) kind = (kind = KIND_STREAM_MESSAGE)"
| "trigger_matches_event (ReactionAdded _ _) kind = (kind = KIND_REACTION)"
| "trigger_matches_event (DiffPosted _) kind = (kind = KIND_STREAM_MESSAGE_DIFF)"
| "trigger_matches_event (Schedule _ _) kind = False"
| "trigger_matches_event Webhook kind = False"

fun trigger_filter :: "trigger_def \<Rightarrow> string option" where
  "trigger_filter (MessagePosted f) = f"
| "trigger_filter (ReactionAdded _ f) = f"
| "trigger_filter (DiffPosted f) = f"
| "trigger_filter (Schedule _ _) = None"
| "trigger_filter Webhook = None"

definition should_fire_workflow :: "'c libs \<Rightarrow> workflow_def \<Rightarrow> trigger_context \<Rightarrow> bool" where
  "should_fire_workflow L d ctx =
     (if (case wf_trigger d of ReactionAdded (Some expected) _ \<Rightarrow> tr_emoji ctx \<noteq> expected | _ \<Rightarrow> False) then False
      else (case trigger_filter (wf_trigger d) of
          None \<Rightarrow> True
        | Some expr \<Rightarrow> (case evaluate_condition L expr ctx Map.empty of Ok b \<Rightarrow> b | Err _ \<Rightarrow> False)))"

section \<open>The owner's authority\<close>

definition owner_authority_allows :: "string option \<Rightarrow> bool \<Rightarrow> bool" where
  "owner_authority_allows role needs_elevated = (case role of
     None \<Rightarrow> False
   | Some r \<Rightarrow> if needs_elevated then r = ''owner'' \<or> r = ''admin'' else True)"

text \<open>The membership lookup \<^verbatim>\<open>Db::get_member_role\<close> is an argument.\<close>
type_synonym role_lookup = "uuid \<Rightarrow> uuid \<Rightarrow> string \<Rightarrow> (string, string option) result"

definition check_owner_authority ::
  "role_lookup \<Rightarrow> uuid \<Rightarrow> uuid \<Rightarrow> string \<Rightarrow> workflow_def \<Rightarrow> (workflow_error, unit) result" where
  "check_owner_authority get_member_role community channel owner d =
     (case get_member_role community channel owner of
        Err e \<Rightarrow> Err (Unauthorized (''owner authority lookup failed (fail-closed): '' @ e))
      | Ok role \<Rightarrow>
          if owner_authority_allows role (requires_elevated_authority d) then Ok ()
          else Err (Unauthorized ''workflow owner lacks current channel authority''))"

section \<open>Events\<close>

text \<open>The cache of enabled workflows; its clock runs in milliseconds.\<close>
type_synonym workflow_cache = "uuid \<times> uuid \<rightharpoonup> workflow_record list \<times> int"

definition CACHE_TTL_MS :: int where "CACHE_TTL_MS = 10000"

definition cache_get :: "int \<Rightarrow> bool \<Rightarrow> workflow_cache \<Rightarrow> uuid \<times> uuid \<Rightarrow> workflow_record list option" where
  "cache_get now evicted cache key = (case cache key of
     None \<Rightarrow> None | Some (ws, t) \<Rightarrow> if evicted \<or> now \<ge> t + CACHE_TTL_MS then None else Some ws)"

definition invalidate_channel_workflows :: "workflow_cache \<Rightarrow> uuid \<Rightarrow> uuid \<Rightarrow> workflow_cache" where
  "invalidate_channel_workflows cache community channel = cache((community, channel) := None)"

text \<open>What the world answers while one event is handled.\<close>
record event_answers =
  ea_now :: int
  ea_evicted :: bool
  ea_list_fails :: "string option"
  ea_context_json :: "trigger_context \<Rightarrow> (string, json) result"
  ea_read_def :: "json \<Rightarrow> (string, workflow_def) result"
  ea_role :: role_lookup
  ea_fresh :: "workflow_record \<Rightarrow> uuid"
  ea_create_fails :: "workflow_record \<Rightarrow> bool"
  ea_db_now :: int

record spawned =
  sp_workflow :: workflow_record
  sp_run :: uuid
  sp_def :: workflow_def
  sp_ctx :: trigger_context

definition create_run_answer ::
  "event_answers \<Rightarrow> store \<Rightarrow> uuid \<Rightarrow> workflow_record \<Rightarrow> string option \<Rightarrow> json \<Rightarrow> (db_error, uuid) result \<times> store" where
  "create_run_answer A s community w event ctxj =
     (if ea_create_fails A w then (Err (Db_Failed []), s)
      else create_workflow_run (ea_db_now A) (ea_fresh A w) s community (wr_id w) event (Some ctxj))"

text \<open>The guards of one workflow, in the order of the loop: the definition that fires, if any.\<close>
definition fire_decision ::
  "'c libs \<Rightarrow> event_answers \<Rightarrow> uuid \<Rightarrow> uuid \<Rightarrow> event \<Rightarrow> trigger_context \<Rightarrow> workflow_record \<Rightarrow> workflow_def option" where
  "fire_decision L A community channel e ctx w = (case ea_read_def A (wr_definition w) of
     Err _ \<Rightarrow> None
   | Ok d \<Rightarrow>
       if \<not> wf_enabled d \<or> \<not> trigger_matches_event (wf_trigger d) (event_kind e) then None
       else if \<not> should_fire_workflow L d ctx then None
       else if \<not> is_ok (check_owner_authority (ea_role A) community channel (wr_owner w) d) then None
       else Some d)"

fun fire_matching ::
  "'c libs \<Rightarrow> event_answers \<Rightarrow> uuid \<Rightarrow> uuid \<Rightarrow> event \<Rightarrow> trigger_context \<Rightarrow> json \<Rightarrow> workflow_record list \<Rightarrow> store
    \<Rightarrow> spawned list \<times> store" where
  "fire_matching L A community channel e ctx ctxj [] s = ([], s)"
| "fire_matching L A community channel e ctx ctxj (w # ws) s =
     (case fire_decision L A community channel e ctx w of
        None \<Rightarrow> fire_matching L A community channel e ctx ctxj ws s
      | Some d \<Rightarrow>
          (case create_run_answer A s community w (Some (event_id e)) ctxj of
             (Err _, s') \<Rightarrow> fire_matching L A community channel e ctx ctxj ws s'
           | (Ok run_id, s') \<Rightarrow>
               (let (sps, s'') = fire_matching L A community channel e ctx ctxj ws s'
                in (\<lparr>sp_workflow = w, sp_run = run_id, sp_def = d, sp_ctx = ctx\<rparr> # sps, s''))))"

text \<open>The body of \<^verbatim>\<open>on_event\<close> after the lookup of the channel's workflows.\<close>
definition run_channel ::
  "'c libs \<Rightarrow> event_answers \<Rightarrow> uuid \<Rightarrow> uuid \<Rightarrow> stored_event \<Rightarrow> workflow_record list \<Rightarrow> store \<Rightarrow> spawned list \<times> store" where
  "run_channel L A community channel se ws s =
     (if ws = [] then ([], s)
      else
        (let ctx = build_trigger_context se
         in case ea_context_json A ctx of
              Err _ \<Rightarrow> ([], s)
            | Ok ctxj \<Rightarrow> fire_matching L A community channel (the_event se) ctx ctxj ws s))"

definition on_event ::
  "'c libs \<Rightarrow> event_answers \<Rightarrow> workflow_cache \<Rightarrow> store \<Rightarrow> uuid \<Rightarrow> stored_event
    \<Rightarrow> (workflow_error, spawned list) result \<times> workflow_cache \<times> store" where
  "on_event L A cache s community se = (case channel_id se of
     None \<Rightarrow> (Ok [], cache, s)
   | Some channel \<Rightarrow>
       if is_workflow_execution_kind (event_kind (the_event se)) then (Ok [], cache, s)
       else
         (case cache_get (ea_now A) (ea_evicted A) cache (community, channel) of
            Some ws \<Rightarrow> (let (sps, s') = run_channel L A community channel se ws s in (Ok sps, cache, s'))
          | None \<Rightarrow>
              (case ea_list_fails A of
                 Some e \<Rightarrow> (Err (workflow_error.Database e), cache, s)
               | None \<Rightarrow>
                   (let ws = list_enabled_channel_workflows s community channel;
                        (sps, s') = run_channel L A community channel se ws s
                    in (Ok sps, cache((community, channel) \<mapsto> (ws, ea_now A)), s')))))"

section \<open>Runs are started only with authority\<close>

text \<open>An entry of the cache lists workflows of its own community and channel.\<close>
definition cache_ok :: "workflow_cache \<Rightarrow> bool" where
  "cache_ok cache \<longleftrightarrow> (\<forall>key ws t. cache key = Some (ws, t)
     \<longrightarrow> (\<forall>w \<in> set ws. wr_community w = fst key \<and> wr_channel w = Some (snd key)))"

lemma list_enabled_scope:
  "w \<in> set (list_enabled_channel_workflows s c ch) \<Longrightarrow>
     wr_community w = c \<and> wr_channel w = Some ch \<and> wr_status w = Wf_Active \<and> wr_enabled w"
  by (auto simp: list_enabled_channel_workflows_def newest_first_def select_rows_def dest!: in_set_takeD)

lemma cache_get_scope:
  "cache_ok cache \<Longrightarrow> cache_get now ev cache (c, ch) = Some ws \<Longrightarrow> w \<in> set ws
     \<Longrightarrow> wr_community w = c \<and> wr_channel w = Some ch"
  unfolding cache_ok_def cache_get_def by (fastforce split: option.splits if_splits)

lemma cache_ok_fill:
  "cache_ok cache \<Longrightarrow> cache_ok (cache((c, ch) \<mapsto> (list_enabled_channel_workflows s c ch, now)))"
  by (auto simp: cache_ok_def dest: list_enabled_scope)

lemma cache_ok_invalidate: "cache_ok cache \<Longrightarrow> cache_ok (invalidate_channel_workflows cache c ch)"
  by (auto simp: cache_ok_def invalidate_channel_workflows_def)

text \<open>What an event runs through: nothing, or the workflows of the cache or of the table.\<close>
lemma on_event_cases:
  assumes "on_event L A cache s c se = (r, cache', s')"
  obtains (none) "r = Ok []" "s' = s" "cache' = cache"
  | (failed) e where "r = Err e" "s' = s" "cache' = cache"
  | (cached) ch ws sps where "channel_id se = Some ch" "\<not> is_workflow_execution_kind (event_kind (the_event se))"
      "cache_get (ea_now A) (ea_evicted A) cache (c, ch) = Some ws" "cache' = cache"
      "run_channel L A c ch se ws s = (sps, s')" "r = Ok sps"
  | (fresh) ch ws sps where "channel_id se = Some ch" "\<not> is_workflow_execution_kind (event_kind (the_event se))"
      "ws = list_enabled_channel_workflows s c ch" "cache' = cache((c, ch) \<mapsto> (ws, ea_now A))"
      "run_channel L A c ch se ws s = (sps, s')" "r = Ok sps"
proof (cases "channel_id se")
  case None
  then show thesis using assms none by (simp add: on_event_def)
next
  case ch: (Some ch)
  show thesis
  proof (cases "is_workflow_execution_kind (event_kind (the_event se))")
    case True
    then show thesis using assms none ch by (simp add: on_event_def)
  next
    case user: False
    show thesis
    proof (cases "cache_get (ea_now A) (ea_evicted A) cache (c, ch)")
      case (Some ws)
      moreover obtain sps s2 where ran: "run_channel L A c ch se ws s = (sps, s2)" by fastforce
      ultimately have "r = Ok sps" "s' = s2" "cache' = cache" using assms ch user by (simp_all add: on_event_def)
      then show thesis using cached[OF ch user Some] ran by simp
    next
      case miss: None
      obtain sps s2 where ran: "run_channel L A c ch se (list_enabled_channel_workflows s c ch) s = (sps, s2)" by fastforce
      show thesis
      proof (cases "ea_list_fails A")
        case None
        then have "r = Ok sps" "s' = s2" "cache' = cache((c, ch) \<mapsto> (list_enabled_channel_workflows s c ch, ea_now A))"
          using assms ch user miss ran by (simp_all add: on_event_def)
        then show thesis using fresh[OF ch user refl] ran by simp
      next
        case (Some e)
        then show thesis using assms failed ch user miss by (auto simp: on_event_def)
      qed
    qed
  qed
qed

lemma on_event_cache_ok:
  assumes "cache_ok cache" "on_event L A cache s c se = (r, cache', s')"
  shows "cache_ok cache'"
  using assms(2) by (cases rule: on_event_cases) (use assms(1) cache_ok_fill in auto)

lemma authority_Ok:
  "is_ok (check_owner_authority role c ch owner d) \<longleftrightarrow>
     (\<exists>r. role c ch owner = Ok (Some r) \<and> (requires_elevated_authority d \<longrightarrow> r = ''owner'' \<or> r = ''admin''))"
  by (auto simp: check_owner_authority_def owner_authority_allows_def is_ok_iff split: sum.splits option.splits if_splits)

lemma fire_decision_Some:
  "fire_decision L A c ch e ctx w = Some d \<longleftrightarrow>
     ea_read_def A (wr_definition w) = Ok d \<and> wf_enabled d \<and> trigger_matches_event (wf_trigger d) (event_kind e)
     \<and> should_fire_workflow L d ctx \<and> is_ok (check_owner_authority (ea_role A) c ch (wr_owner w) d)"
  by (auto simp: fire_decision_def split: sum.splits)

lemma fire_matching_spawned:
  "sp \<in> set (fst (fire_matching L A c ch e ctx ctxj ws s)) \<Longrightarrow>
     sp_workflow sp \<in> set ws \<and> sp_ctx sp = ctx \<and> fire_decision L A c ch e ctx (sp_workflow sp) = Some (sp_def sp)"
proof (induction ws arbitrary: s)
  case (Cons w ws)
  show ?case
  proof (cases "fire_decision L A c ch e ctx w")
    case None
    then show ?thesis using Cons.prems Cons.IH[of s] by auto
  next
    case (Some d)
    obtain r s' where cr: "create_run_answer A s c w (Some (event_id e)) ctxj = (r, s')" by fastforce
    show ?thesis
      using Cons.prems Cons.IH[of s'] Some cr by (cases r) (auto split: prod.splits)
  qed
qed simp

lemma run_channel_spawned:
  "run_channel L A c ch se ws s = (sps, s') \<Longrightarrow> sp \<in> set sps \<Longrightarrow>
     sp_workflow sp \<in> set ws \<and> sp_ctx sp = build_trigger_context se
     \<and> fire_decision L A c ch (the_event se) (build_trigger_context se) (sp_workflow sp) = Some (sp_def sp)"
  by (simp add: run_channel_def Let_def split: if_splits sum.splits)
     (metis fire_matching_spawned fst_conv)

text \<open>
  C22: A run that an event starts belongs to a workflow of the event's own community and channel whose
  stored definition is enabled and has a trigger for the event's kind; its owner has a role in the
  channel at that moment, owner or admin if the definition calls a webhook; its context is that of the
  event, and the event is not one that workflow execution itself writes.
\<close>
theorem event_runs_authorised:
  assumes "cache_ok cache" "on_event L A cache s c se = (Ok sps, cache', s')" "sp \<in> set sps"
  shows "\<exists>ch r. channel_id se = Some ch \<and> \<not> is_workflow_execution_kind (event_kind (the_event se))
    \<and> wr_community (sp_workflow sp) = c \<and> wr_channel (sp_workflow sp) = Some ch
    \<and> ea_read_def A (wr_definition (sp_workflow sp)) = Ok (sp_def sp) \<and> wf_enabled (sp_def sp)
    \<and> trigger_matches_event (wf_trigger (sp_def sp)) (event_kind (the_event se))
    \<and> ea_role A c ch (wr_owner (sp_workflow sp)) = Ok (Some r)
    \<and> (requires_elevated_authority (sp_def sp) \<longrightarrow> r = ''owner'' \<or> r = ''admin'')
    \<and> sp_ctx sp = build_trigger_context se \<and> cache_ok cache'"
proof -
  have "\<exists>ch ws. channel_id se = Some ch \<and> \<not> is_workflow_execution_kind (event_kind (the_event se))
      \<and> (\<forall>w \<in> set ws. wr_community w = c \<and> wr_channel w = Some ch)
      \<and> run_channel L A c ch se ws s = (sps, s')"
    using assms(2)
  proof (cases rule: on_event_cases)
    case (cached ch ws sps')
    then show ?thesis using cache_get_scope[OF assms(1)] by blast
  next
    case (fresh ch ws sps')
    then show ?thesis using list_enabled_scope by blast
  qed (use assms(3) in auto)
  then obtain ch ws where run: "channel_id se = Some ch" "\<not> is_workflow_execution_kind (event_kind (the_event se))"
      "\<forall>w \<in> set ws. wr_community w = c \<and> wr_channel w = Some ch" "run_channel L A c ch se ws s = (sps, s')"
    by blast
  note sp = run_channel_spawned[OF run(4) assms(3)]
  then have dec: "fire_decision L A c ch (the_event se) (build_trigger_context se) (sp_workflow sp) = Some (sp_def sp)"
    by simp
  then obtain r where "ea_role A c ch (wr_owner (sp_workflow sp)) = Ok (Some r)"
      "requires_elevated_authority (sp_def sp) \<longrightarrow> r = ''owner'' \<or> r = ''admin''"
    by (auto simp: fire_decision_Some authority_Ok)
  then show ?thesis
    using run(1-3) sp dec on_event_cache_ok[OF assms(1,2)] by (auto simp: fire_decision_Some)
qed

definition sample_trigger_def :: workflow_def where
  "sample_trigger_def = \<lparr> wf_name = ''n'', wf_description = None, wf_trigger = MessagePosted None, wf_steps = [], wf_enabled = True \<rparr>"

definition sample_event_answers :: event_answers where
  "sample_event_answers =
     \<lparr> ea_now = 0, ea_evicted = False, ea_list_fails = None, ea_context_json = (\<lambda>_. Ok JNull),
       ea_read_def = (\<lambda>_. Ok sample_trigger_def), ea_role = (\<lambda>_ _ _. Ok (Some ''member'')), ea_fresh = (\<lambda>_. ''r1''),
       ea_create_fails = (\<lambda>_. False), ea_db_now = 7 \<rparr>"

definition sample_posted :: stored_event where
  "sample_posted = stored_event_new 6
     \<lparr> event_id = ''e1'', event_pubkey = ''bob'', created_at = 6, event_kind = 9, event_tags = [], content = ''hi'',
       event_sig = [] \<rparr> (Some ''ch'')"

theorem event_runs_authorised_witness:
  "\<exists>sps cache' s'. on_event sample_libs sample_event_answers Map.empty sample_store ''A'' sample_posted = (Ok sps, cache', s')
     \<and> map sp_run sps = [''r1''] \<and> (\<forall>sp \<in> set sps. wr_community (sp_workflow sp) = ''A'')"
proof -
  obtain sps cache' s' where r:
    "on_event sample_libs sample_event_answers Map.empty sample_store ''A'' sample_posted = (Ok sps, cache', s')"
    "map sp_run sps = [''r1'']"
    by (simp add: on_event_def sample_posted_def sample_event_answers_def stored_event_new_def cache_get_def
        is_workflow_execution_kind_def KIND_WORKFLOW_TRIGGERED_def KIND_WORKFLOW_APPROVAL_DENIED_def list_enabled_channel_workflows_def newest_first_def select_rows_def
        sample_store_def create_workflow_def empty_store_def run_channel_def Let_def fire_decision_def sample_trigger_def_def
        KIND_STREAM_MESSAGE_def should_fire_workflow_def check_owner_authority_def owner_authority_allows_def
        requires_elevated_authority_def create_run_answer_def create_workflow_run_def LIST_MAX_LIMIT_def)
  have "wr_community (sp_workflow sp) = ''A''" if "sp \<in> set sps" for sp
    using event_runs_authorised[OF _ r(1) that] by (auto simp: cache_ok_def)
  then show ?thesis using r by simp
qed

end
