(* ===== verification/Workflow_Scheduler.thy ===== *)
theory Workflow_Scheduler
  imports Workflow_Triggers
begin

text \<open>
  The scheduler of the workflow engine (\<^verbatim>\<open>WorkflowEngine::run\<close> of \<^verbatim>\<open>buzz-workflow/src/lib.rs\<close>):
  the instants of cron and interval schedules, the interval anchor, and the scan of the enabled workflows.
  Several pods run the scan over one database, so a pod is a program counter over the atomic queries of
  the loop and the cluster is the interleaving of its pods with every other write to the database.
\<close>

section \<open>Instants\<close>

text \<open>Instants are nanoseconds since the epoch.\<close>
definition SECOND :: int where "SECOND = 1000000000"

definition timestamp_of :: "int \<Rightarrow> int" where
  "timestamp_of t = t div SECOND"

text \<open>The cron parser, \<^verbatim>\<open>DateTime::from_timestamp\<close> and the serialisation of a trigger context.\<close>
record sched_libs =
  sl_cron :: cron_parser
  sl_from_timestamp :: "int \<Rightarrow> int option"
  sl_context_json :: "trigger_context \<Rightarrow> (string, json) result"

definition cron_fire_instant :: "sched_libs \<Rightarrow> string \<Rightarrow> int \<Rightarrow> int \<Rightarrow> int option" where
  "cron_fire_instant SL expr now window_secs = (case sl_cron SL (normalize_cron expr) of
     Err _ \<Rightarrow> None
   | Ok after \<Rightarrow> (case after (now - window_secs * SECOND) of
       None \<Rightarrow> None | Some t \<Rightarrow> if t \<le> now then Some t else None))"

text \<open>\<^verbatim>\<open>as i64\<close> on a 64-bit number, and \<^verbatim>\<open>i64::div_euclid\<close>.\<close>
definition as_i64 :: "nat \<Rightarrow> int" where
  "as_i64 n = (if n < 2 ^ 63 then int n else int n - 2 ^ 64)"

definition div_euclid :: "int \<Rightarrow> int \<Rightarrow> int" where
  "div_euclid a b = (if b > 0 then a div b else - (a div (- b)))"

definition interval_fire_instant :: "sched_libs \<Rightarrow> string \<Rightarrow> int \<Rightarrow> int option" where
  "interval_fire_instant SL dur now = (case parse_duration_secs dur of
     Ok interval_secs \<Rightarrow>
       if interval_secs > 0
       then (let secs = as_i64 interval_secs; bucket = div_euclid (timestamp_of now) secs * secs
             in sl_from_timestamp SL bucket)
       else None
   | Err _ \<Rightarrow> None)"

definition interval_should_fire :: "string \<Rightarrow> int option \<Rightarrow> int \<Rightarrow> bool" where
  "interval_should_fire dur last_fired now = (case parse_duration_secs dur of
     Ok interval_secs \<Rightarrow>
       (let anchor = (case last_fired of Some t \<Rightarrow> t | None \<Rightarrow> now);
            elapsed = nat (\<bar>now - anchor\<bar> div SECOND)
        in elapsed \<ge> interval_secs)
   | Err _ \<Rightarrow> False)"

type_synonym anchors = "uuid \<times> uuid \<rightharpoonup> int"

definition interval_prefilter_should_fire ::
  "anchors \<Rightarrow> uuid \<Rightarrow> uuid \<Rightarrow> string \<Rightarrow> int option \<Rightarrow> int \<Rightarrow> bool \<times> anchors" where
  "interval_prefilter_should_fire last_fired community i dur anchor now =
     (if interval_should_fire dur anchor now then (True, last_fired)
      else (False, if anchor = None then last_fired((community, i) \<mapsto> now) else last_fired))"

section \<open>One workflow of a scan\<close>

text \<open>What the world answers to one atomic part of the loop.\<close>
record tick_answers =
  ta_now :: int
  ta_list_fails :: bool
  ta_read_def :: "json \<Rightarrow> (string, workflow_def) result"
  ta_role :: role_lookup
  ta_anchor_fails :: bool
  ta_claim_fails :: bool
  ta_create_fails :: bool
  ta_attach_fails :: bool
  ta_fresh :: uuid
  ta_db_now :: int

record candidate =
  cd_workflow :: workflow_record
  cd_def :: workflow_def
  cd_channel :: uuid
  cd_instant :: int
  cd_interval :: bool

definition read_anchor :: "tick_answers \<Rightarrow> store \<Rightarrow> anchors \<Rightarrow> uuid \<Rightarrow> uuid \<Rightarrow> int option" where
  "read_anchor A s last_fired community i = (case last_fired (community, i) of
     Some t \<Rightarrow> Some t
   | None \<Rightarrow> if ta_anchor_fails A then None else latest_scheduled_workflow_fire s community i)"

text \<open>The instant this tick fires for, whether it is an interval's, and the anchors afterwards.\<close>
definition due_instant ::
  "sched_libs \<Rightarrow> tick_answers \<Rightarrow> store \<Rightarrow> anchors \<Rightarrow> int \<Rightarrow> workflow_record \<Rightarrow> trigger_def \<Rightarrow> (int \<times> bool) option \<times> anchors" where
  "due_instant SL A s last_fired now w t = (case t of
     Schedule (Some expr) None \<Rightarrow>
       (map_option (\<lambda>i. (i, False)) (cron_fire_instant SL expr now 60), last_fired)
   | Schedule None (Some dur) \<Rightarrow>
       (let anchor = read_anchor A s last_fired (wr_community w) (wr_id w);
            (fire, last_fired') = interval_prefilter_should_fire last_fired (wr_community w) (wr_id w) dur anchor now
        in (if fire then map_option (\<lambda>i. (i, True)) (interval_fire_instant SL dur now) else None, last_fired'))
   | _ \<Rightarrow> (None, last_fired))"

text \<open>The guards of the loop body up to the claim.\<close>
definition due_candidate ::
  "sched_libs \<Rightarrow> tick_answers \<Rightarrow> store \<Rightarrow> anchors \<Rightarrow> int \<Rightarrow> workflow_record \<Rightarrow> candidate option \<times> anchors" where
  "due_candidate SL A s last_fired now w = (case ta_read_def A (wr_definition w) of
     Err _ \<Rightarrow> (None, last_fired)
   | Ok d \<Rightarrow>
       if \<not> wf_enabled d then (None, last_fired)
       else (case wr_channel w of
           None \<Rightarrow> (None, last_fired)
         | Some ch \<Rightarrow>
             (case due_instant SL A s last_fired now w (wf_trigger d) of
                (None, last_fired') \<Rightarrow> (None, last_fired')
              | (Some (instant, is_interval), last_fired') \<Rightarrow>
                  if is_ok (check_owner_authority (ta_role A) (wr_community w) ch (wr_owner w) d)
                  then (Some \<lparr>cd_workflow = w, cd_def = d, cd_channel = ch, cd_instant = instant,
                              cd_interval = is_interval\<rparr>, last_fired')
                  else (None, last_fired'))))"

definition int_to_string :: "int \<Rightarrow> string" where
  "int_to_string n = (if n < 0 then CHR ''-'' # nat_to_string (nat (- n)) else nat_to_string (nat n))"

definition schedule_context :: "candidate \<Rightarrow> int \<Rightarrow> trigger_context" where
  "schedule_context cd now =
     \<lparr> tr_text = [], tr_author = [], tr_channel_id = cd_channel cd, tr_timestamp = int_to_string (timestamp_of now),
       tr_emoji = [], tr_message_id = [], tr_is_reply = False, tr_webhook_fields = Map.empty \<rparr>"

section \<open>Pods\<close>

text \<open>A scan: its time, the rows it loaded and those it has still to visit.\<close>
record tick =
  tk_now :: int
  tk_scan :: "workflow_record list"
  tk_rest :: "workflow_record list"

datatype pc =
    Asleep
  | Visiting tick
  | Claiming tick candidate
  | Creating tick candidate
  | Attaching tick candidate uuid

record pod =
  pd_last_fired :: anchors
  pd_pc :: pc

definition pod_new :: pod where
  "pod_new = \<lparr>pd_last_fired = Map.empty, pd_pc = Asleep\<rparr>"

type_synonym fire_key = "uuid \<times> uuid \<times> int"

definition candidate_key :: "candidate \<Rightarrow> fire_key" where
  "candidate_key cd = (wr_community (cd_workflow cd), wr_id (cd_workflow cd), cd_instant cd)"

text \<open>The anchor of an interval advances after its claim is settled.\<close>
definition advance_anchor :: "anchors \<Rightarrow> candidate \<Rightarrow> int \<Rightarrow> anchors" where
  "advance_anchor last_fired cd now =
     (if cd_interval cd then last_fired((wr_community (cd_workflow cd), wr_id (cd_workflow cd)) \<mapsto> now) else last_fired)"

definition retain_active :: "anchors \<Rightarrow> workflow_record list \<Rightarrow> anchors" where
  "retain_active last_fired scan = last_fired |` {(wr_community w, wr_id w) | w. w \<in> set scan}"

text \<open>
  The atomic parts of the loop, one per query. The last component is the run an execution is started
  for by this part, with the claim it was created under.
\<close>
definition wake :: "tick_answers \<Rightarrow> store \<Rightarrow> pod \<Rightarrow> pod" where
  "wake A s p =
     (if ta_list_fails A then p
      else (let ws = list_all_enabled_workflows s
            in p\<lparr>pd_pc := Visiting \<lparr>tk_now = ta_now A, tk_scan = ws, tk_rest = ws\<rparr>\<rparr>))"

definition visit :: "sched_libs \<Rightarrow> tick_answers \<Rightarrow> store \<Rightarrow> pod \<Rightarrow> tick \<Rightarrow> pod" where
  "visit SL A s p tk = (case tk_rest tk of
     [] \<Rightarrow> p\<lparr>pd_last_fired := retain_active (pd_last_fired p) (tk_scan tk), pd_pc := Asleep\<rparr>
   | w # ws \<Rightarrow>
       (case due_candidate SL A s (pd_last_fired p) (tk_now tk) w of
          (None, lf) \<Rightarrow> \<lparr>pd_last_fired = lf, pd_pc = Visiting (tk\<lparr>tk_rest := ws\<rparr>)\<rparr>
        | (Some cd, lf) \<Rightarrow> \<lparr>pd_last_fired = lf, pd_pc = Claiming (tk\<lparr>tk_rest := ws\<rparr>) cd\<rparr>))"

definition claim :: "tick_answers \<Rightarrow> store \<Rightarrow> pod \<Rightarrow> tick \<Rightarrow> candidate \<Rightarrow> store \<times> pod" where
  "claim A s p tk cd =
     (if ta_claim_fails A then (s, p\<lparr>pd_pc := Visiting tk\<rparr>)
      else (case claim_scheduled_workflow_fire (ta_db_now A) s (wr_community (cd_workflow cd)) (wr_id (cd_workflow cd))
                  (cd_instant cd) of
          (Some _, s') \<Rightarrow> (s', p\<lparr>pd_pc := Creating tk cd\<rparr>)
        | (None, s') \<Rightarrow>
            (s', p\<lparr>pd_last_fired := advance_anchor (pd_last_fired p) cd (tk_now tk), pd_pc := Visiting tk\<rparr>)))"

definition create :: "sched_libs \<Rightarrow> tick_answers \<Rightarrow> store \<Rightarrow> pod \<Rightarrow> tick \<Rightarrow> candidate \<Rightarrow> store \<times> pod \<times> (fire_key \<times> uuid) list" where
  "create SL A s p tk cd = (case sl_context_json SL (schedule_context cd (tk_now tk)) of
     Err _ \<Rightarrow> (s, p\<lparr>pd_pc := Visiting tk\<rparr>, [])
   | Ok ctxj \<Rightarrow>
       if ta_create_fails A then (s, p\<lparr>pd_pc := Visiting tk\<rparr>, [])
       else (case create_workflow_run (ta_db_now A) (ta_fresh A) s (wr_community (cd_workflow cd)) (wr_id (cd_workflow cd))
                    None (Some ctxj) of
           (Err _, s') \<Rightarrow> (s', p\<lparr>pd_pc := Visiting tk\<rparr>, [])
         | (Ok run_id, s') \<Rightarrow> (s', p\<lparr>pd_pc := Attaching tk cd run_id\<rparr>, [(candidate_key cd, run_id)])))"

definition attach :: "tick_answers \<Rightarrow> store \<Rightarrow> pod \<Rightarrow> tick \<Rightarrow> candidate \<Rightarrow> uuid \<Rightarrow> store \<times> pod" where
  "attach A s p tk cd run_id =
     (if ta_attach_fails A then s
      else snd (attach_scheduled_workflow_run s (wr_community (cd_workflow cd)) (wr_id (cd_workflow cd)) (cd_instant cd) run_id),
      p\<lparr>pd_last_fired := advance_anchor (pd_last_fired p) cd (tk_now tk), pd_pc := Visiting tk\<rparr>)"

definition pod_step :: "sched_libs \<Rightarrow> tick_answers \<Rightarrow> store \<Rightarrow> pod \<Rightarrow> store \<times> pod \<times> (fire_key \<times> uuid) list" where
  "pod_step SL A s p = (case pd_pc p of
     Asleep \<Rightarrow> (s, wake A s p, [])
   | Visiting tk \<Rightarrow> (s, visit SL A s p tk, [])
   | Claiming tk cd \<Rightarrow> (let (s', p') = claim A s p tk cd in (s', p', []))
   | Creating tk cd \<Rightarrow> create SL A s p tk cd
   | Attaching tk cd run_id \<Rightarrow> (let (s', p') = attach A s p tk cd run_id in (s', p', [])))"

section \<open>The cluster\<close>

text \<open>
  The database, the pods, the runs created so far with the claims they were created under, and the claims
  that some other write (pruning, the deletion of a workflow) has removed.
\<close>
record cluster =
  cl_store :: store
  cl_pods :: "nat \<Rightarrow> pod"
  cl_fired :: "(fire_key \<times> uuid) list"
  cl_removed :: "fire_key set"

datatype cluster_label = Pod nat | Restart nat | Environment

text \<open>A pod's next atomic part, a pod's restart, or any write to the database from elsewhere.\<close>
inductive cluster_step :: "sched_libs \<Rightarrow> cluster \<Rightarrow> cluster_label \<Rightarrow> cluster \<Rightarrow> bool" for SL where
  cs_pod: "pod_step SL A (cl_store s) (cl_pods s i) = (st, p, fs) \<Longrightarrow>
     cluster_step SL s (Pod i) (s\<lparr>cl_store := st, cl_pods := (cl_pods s)(i := p), cl_fired := cl_fired s @ fs\<rparr>)"
| cs_restart: "cluster_step SL s (Restart i) (s\<lparr>cl_pods := (cl_pods s)(i := pod_new)\<rparr>)"
| cs_environment: "store_step (cl_store s) l st \<Longrightarrow>
     cluster_step SL s Environment
       (s\<lparr>cl_store := st, cl_removed := cl_removed s \<union> (keys (st_fires (cl_store s)) - keys (st_fires st))\<rparr>)"

definition cluster_start :: "cluster \<Rightarrow> bool" where
  "cluster_start s \<longleftrightarrow> (\<forall>i. cl_pods s i = pod_new) \<and> cl_fired s = [] \<and> cl_removed s = {}"

section \<open>At most one run per scheduled instant\<close>

text \<open>The claim a pod holds between winning it and creating the run.\<close>
fun holding :: "pc \<Rightarrow> fire_key option" where
  "holding (Creating _ cd) = Some (candidate_key cd)"
| "holding _ = None"

definition fired_keys :: "cluster \<Rightarrow> fire_key list" where
  "fired_keys s = filter (\<lambda>k. k \<notin> cl_removed s) (map fst (cl_fired s))"

definition cluster_inv :: "cluster \<Rightarrow> bool" where
  "cluster_inv s \<longleftrightarrow>
     distinct (fired_keys s) \<and> set (fired_keys s) \<subseteq> keys (st_fires (cl_store s))
     \<and> (\<forall>i k. holding (pd_pc (cl_pods s i)) = Some k \<longrightarrow> k \<notin> cl_removed s
          \<longrightarrow> k \<in> keys (st_fires (cl_store s)) \<and> k \<notin> set (fired_keys s))
     \<and> (\<forall>i j k. holding (pd_pc (cl_pods s i)) = Some k \<longrightarrow> holding (pd_pc (cl_pods s j)) = Some k
          \<longrightarrow> k \<notin> cl_removed s \<longrightarrow> i = j)"

text \<open>What a part of the loop does to the claims: it wins a new one, uses the one it holds, or neither.\<close>
lemma pod_step_claims:
  assumes "pod_step SL A s p = (s', p', fs)"
  obtains (quiet) "fs = []" "keys (st_fires s') = keys (st_fires s)" "holding (pd_pc p') = None"
  | (won) k where "fs = []" "k \<notin> keys (st_fires s)" "keys (st_fires s') = insert k (keys (st_fires s))"
      "holding (pd_pc p') = Some k"
  | (used) k run_id where "holding (pd_pc p) = Some k" "fs = [(k, run_id)]" "keys (st_fires s') = keys (st_fires s)"
      "holding (pd_pc p') = None"
proof (cases "pd_pc p")
  case Asleep
  then have "fs = []" "s' = s" "holding (pd_pc p') = None"
    using assms by (auto simp: pod_step_def wake_def Let_def split: if_splits)
  then show thesis using quiet by simp
next
  case (Visiting tk)
  then have "fs = []" "s' = s" "holding (pd_pc p') = None"
    using assms by (auto simp: pod_step_def visit_def split: list.splits prod.splits option.splits)
  then show thesis using quiet by simp
next
  case (Claiming tk cd)
  then have c: "claim A s p tk cd = (s', p')" "fs = []"
    using assms by (auto simp: pod_step_def split: prod.splits)
  show thesis
  proof (cases "ta_claim_fails A \<or> fst (claim_scheduled_workflow_fire (ta_db_now A) s (wr_community (cd_workflow cd))
      (wr_id (cd_workflow cd)) (cd_instant cd)) = None")
    case True
    then have "s' = s" "holding (pd_pc p') = None"
      using c by (auto simp: claim_def claim_scheduled_workflow_fire_def Let_def split: if_splits)
    then show thesis using quiet c(2) by simp
  next
    case False
    then have "candidate_key cd \<notin> keys (st_fires s)" "keys (st_fires s') = insert (candidate_key cd) (keys (st_fires s))"
        "holding (pd_pc p') = Some (candidate_key cd)"
      using c by (auto simp: claim_def claim_scheduled_workflow_fire_def Let_def candidate_key_def keys_None split: if_splits)
    then show thesis using won c(2) by simp
  qed
next
  case (Creating tk cd)
  then have c: "create SL A s p tk cd = (s', p', fs)" using assms by (simp add: pod_step_def)
  have fires: "st_fires s' = st_fires s" "holding (pd_pc p') = None"
    using c by (auto simp: create_def create_workflow_run_def split: sum.splits if_splits)
  have "fs = [] \<or> (\<exists>run_id. fs = [(candidate_key cd, run_id)])"
    using c by (auto simp: create_def split: sum.splits if_splits prod.splits)
  then show thesis
  proof
    assume "fs = []"
    then show thesis using quiet fires by simp
  next
    assume "\<exists>run_id. fs = [(candidate_key cd, run_id)]"
    then show thesis using used[of "candidate_key cd"] fires Creating by auto
  qed
next
  case (Attaching tk cd run_id)
  then have "fs = []" "keys (st_fires s') = keys (st_fires s)" "holding (pd_pc p') = None"
    using assms by (auto simp: pod_step_def attach_def attach_scheduled_workflow_run_def Let_def split: if_splits)
  then show thesis using quiet by simp
qed

lemma fired_keys_pod [simp]:
  "fired_keys (s\<lparr>cl_store := st, cl_pods := ps, cl_fired := cl_fired s @ fs\<rparr>)
     = fired_keys s @ filter (\<lambda>k. k \<notin> cl_removed s) (map fst fs)"
  by (simp add: fired_keys_def)

lemma fired_keys_pods [simp]:
  "fired_keys (s\<lparr>cl_store := st\<rparr>) = fired_keys s" "fired_keys (s\<lparr>cl_pods := ps\<rparr>) = fired_keys s"
  by (simp_all add: fired_keys_def)

lemma cluster_invD:
  assumes "cluster_inv s"
  shows "distinct (fired_keys s)" "set (fired_keys s) \<subseteq> keys (st_fires (cl_store s))"
    "holding (pd_pc (cl_pods s i)) = Some k \<Longrightarrow> k \<notin> cl_removed s
       \<Longrightarrow> k \<in> keys (st_fires (cl_store s)) \<and> k \<notin> set (fired_keys s)"
    "holding (pd_pc (cl_pods s i)) = Some k \<Longrightarrow> holding (pd_pc (cl_pods s j)) = Some k
       \<Longrightarrow> k \<notin> cl_removed s \<Longrightarrow> i = j"
  using assms unfolding cluster_inv_def by blast+

lemma pod_step_inv:
  assumes inv: "cluster_inv s" and step: "pod_step SL A (cl_store s) (cl_pods s i) = (st, p, fs)"
  shows "cluster_inv (s\<lparr>cl_store := st, cl_pods := (cl_pods s)(i := p), cl_fired := cl_fired s @ fs\<rparr>)"
  using step
proof (cases rule: pod_step_claims)
  case quiet
  then show ?thesis using cluster_invD[OF inv] by (simp add: cluster_inv_def)
next
  case (won k)
  have "holding (pd_pc (cl_pods s j)) \<noteq> Some k" if "k \<notin> cl_removed s" for j
    using cluster_invD(3)[OF inv, of j k] won(2) that by blast
  moreover have "k \<notin> set (fired_keys s)" using cluster_invD(2)[OF inv] won(2) by blast
  ultimately show ?thesis using cluster_invD[OF inv] won by (auto simp: cluster_inv_def)
next
  case (used k run_id)
  have "k \<notin> cl_removed s \<longrightarrow> k \<in> keys (st_fires (cl_store s)) \<and> k \<notin> set (fired_keys s)"
    using cluster_invD(3)[OF inv used(1)] by blast
  moreover have "holding (pd_pc (cl_pods s j)) \<noteq> Some k" if "k \<notin> cl_removed s" "j \<noteq> i" for j
    using cluster_invD(4)[OF inv used(1), of j] that by blast
  ultimately show ?thesis using cluster_invD[OF inv] used by (auto simp: cluster_inv_def)
qed

lemma environment_inv:
  assumes inv: "cluster_inv s"
  shows "cluster_inv (s\<lparr>cl_store := st, cl_removed := cl_removed s \<union> (keys (st_fires (cl_store s)) - keys (st_fires st))\<rparr>)"
proof -
  let ?t = "s\<lparr>cl_store := st, cl_removed := cl_removed s \<union> (keys (st_fires (cl_store s)) - keys (st_fires st))\<rparr>"
  have keep: "fired_keys ?t = filter (\<lambda>k. k \<notin> cl_removed ?t) (fired_keys s)"
    by (auto simp: fired_keys_def intro!: filter_cong)
  show ?thesis
    unfolding cluster_inv_def keep
    using cluster_invD[OF inv] by auto
qed

lemma restart_inv:
  assumes "cluster_inv s"
  shows "cluster_inv (s\<lparr>cl_pods := (cl_pods s)(i := pod_new)\<rparr>)"
  using cluster_invD[OF assms] by (simp add: cluster_inv_def pod_new_def)

interpretation scheduler: invariant_system cluster_start "cluster_step SL" cluster_inv for SL
proof unfold_locales
  show "cluster_start s \<Longrightarrow> cluster_inv s" for s
    by (simp add: cluster_start_def cluster_inv_def fired_keys_def pod_new_def)
  show "cluster_inv s \<Longrightarrow> cluster_step SL s l t \<Longrightarrow> cluster_inv t" for s l t
    by (erule cluster_step.cases) (auto intro: pod_step_inv restart_inv environment_inv)
qed

lemma distinct_filter_once: "distinct (map fst xs) \<Longrightarrow> length (filter (\<lambda>x. fst x = k) xs) \<le> 1"
  by (induction xs) (force simp: filter_empty_conv)+

text \<open>
  C5: However the pods of a cluster interleave with one another, with restarts and with every other write
  to the database, at most one run is created for a workflow and a scheduled instant as long as nothing has
  removed the row of its claim.
\<close>
theorem scheduled_fires_once:
  assumes "cluster_start s" "run (cluster_step SL) s ls t" "k \<notin> cl_removed t"
  shows "length (filter (\<lambda>f. fst f = k) (cl_fired t)) \<le> 1"
proof -
  have "cluster_inv t" using scheduler.run_inv scheduler.start_inv assms(1,2) by blast
  then have "distinct (map fst (filter (\<lambda>f. fst f \<notin> cl_removed t) (cl_fired t)))"
    using cluster_invD(1) by (simp add: fired_keys_def filter_map o_def)
  then have "length (filter (\<lambda>f. fst f = k) (filter (\<lambda>f. fst f \<notin> cl_removed t) (cl_fired t))) \<le> 1"
    by (rule distinct_filter_once)
  moreover have "filter (\<lambda>f. fst f = k) (filter (\<lambda>f. fst f \<notin> cl_removed t) (cl_fired t))
      = filter (\<lambda>f. fst f = k) (cl_fired t)"
    using assms(3) by (auto intro: filter_cong)
  ultimately show ?thesis by simp
qed

section \<open>Intervals\<close>

text \<open>What \<^verbatim>\<open>chrono\<close> documents of \<^verbatim>\<open>DateTime::from_timestamp\<close>: the instant of every second from the epoch to now.\<close>
definition timestamp_law :: "sched_libs \<Rightarrow> int \<Rightarrow> bool" where
  "timestamp_law SL now \<longleftrightarrow> (\<forall>b. 0 \<le> b \<longrightarrow> b \<le> timestamp_of now \<longrightarrow> sl_from_timestamp SL b = Some (b * SECOND))"

text \<open>The start of the interval an instant lies in.\<close>
definition bucket_start :: "nat \<Rightarrow> int \<Rightarrow> int" where
  "bucket_start n t = timestamp_of t div int n * int n * SECOND"

lemma div_mult_bounds: "0 < n \<Longrightarrow> a div int n * int n \<le> a \<and> a < a div int n * int n + int n"
  using div_mult_mod_eq[of a "int n"] pos_mod_sign[of "int n" a] pos_mod_bound[of "int n" a] by linarith

lemma interval_fire_instant_bucket:
  assumes "parse_duration_secs dur = Ok n" "0 < n" "n < 2 ^ 63" "0 \<le> now" "timestamp_law SL now"
  shows "interval_fire_instant SL dur now = Some (bucket_start n now)"
proof -
  have "0 \<le> timestamp_of now" using assms(4) by (simp add: timestamp_of_def SECOND_def)
  then have "0 \<le> timestamp_of now div int n * int n" "timestamp_of now div int n * int n \<le> timestamp_of now"
    using assms(2) div_mult_bounds[OF assms(2), of "timestamp_of now"] by (simp_all add: pos_imp_zdiv_nonneg_iff)
  then show ?thesis
    using assms unfolding timestamp_law_def
    by (simp add: interval_fire_instant_def div_euclid_def as_i64_def bucket_start_def Let_def)
qed

lemma elapsed_iff: "t \<le> now \<Longrightarrow> n \<le> nat (\<bar>now - t\<bar> div SECOND) \<longleftrightarrow> t + int n * SECOND \<le> now"
proof -
  assume "t \<le> now"
  then have "n \<le> nat (\<bar>now - t\<bar> div SECOND) \<longleftrightarrow> int n \<le> (now - t) div SECOND" by (simp add: SECOND_def) linarith
  also have "\<dots> \<longleftrightarrow> int n * SECOND \<le> now - t"
    unfolding SECOND_def by linarith
  finally show ?thesis by linarith
qed

lemma bucket_bounds: "0 < n \<Longrightarrow> bucket_start n t \<le> t \<and> t < bucket_start n t + int n * SECOND"
proof -
  assume n: "0 < n"
  let ?s = "timestamp_of t"
  have "?s div int n * int n \<le> ?s" "?s < ?s div int n * int n + int n" using div_mult_bounds[OF n] by simp_all
  then show ?thesis unfolding bucket_start_def timestamp_of_def SECOND_def by linarith
qed

lemma bucket_advances: "0 < n \<Longrightarrow> t + int n * SECOND \<le> now \<Longrightarrow> bucket_start n t < bucket_start n now"
proof -
  assume n: "0 < n" and later: "t + int n * SECOND \<le> now"
  have "timestamp_of t + int n \<le> timestamp_of now"
    using later unfolding timestamp_of_def SECOND_def by linarith
  then have "(timestamp_of t + int n) div int n \<le> timestamp_of now div int n"
    using n by (simp add: zdiv_mono1)
  then have "timestamp_of t div int n + 1 \<le> timestamp_of now div int n" using n by (simp add: div_add_self2)
  then have "timestamp_of t div int n * int n + int n \<le> timestamp_of now div int n * int n"
    using n by (metis add_mult_distrib mult_1 distrib_right mult_right_mono of_nat_0_le_iff)
  then show ?thesis using n unfolding bucket_start_def SECOND_def by linarith
qed

text \<open>With an anchor in memory the interval decides alone.\<close>
lemma due_interval:
  assumes "parse_duration_secs dur = Ok n" "0 < n" "n < 2 ^ 63" "0 \<le> now" "timestamp_law SL now"
    and "lf (wr_community w, wr_id w) = Some t" "t \<le> now"
  shows "due_instant SL A s lf now w (Schedule None (Some dur)) =
     (if now < t + int n * SECOND then None else Some (bucket_start n now, True), lf)"
  using assms elapsed_iff[of t now n] interval_fire_instant_bucket[OF assms(1-5)]
  by (auto simp: due_instant_def read_anchor_def interval_prefilter_should_fire_def interval_should_fire_def Let_def)

text \<open>
  A workflow with an interval of \<^verbatim>\<open>n\<close> seconds and no fire so far waits one interval from the tick that
  first sees it and is then due: every later tick less than \<^verbatim>\<open>n\<close> seconds after that is suppressed, every
  one from \<^verbatim>\<open>n\<close> seconds on is due, for the start of the interval the tick lies in, which is a later one than
  that of the first tick.
\<close>
theorem interval_cold_start:
  assumes "parse_duration_secs dur = Ok n" "0 < n" "n < 2 ^ 63" "0 \<le> t0" "t0 \<le> t1" "timestamp_law SL t1"
    and "read_anchor A s lf (wr_community w) (wr_id w) = None"
  shows "\<exists>lf'. due_instant SL A s lf t0 w (Schedule None (Some dur)) = (None, lf')
     \<and> due_instant SL A' s' lf' t1 w (Schedule None (Some dur)) =
         (if t1 < t0 + int n * SECOND then None else Some (bucket_start n t1, True), lf')
     \<and> bucket_start n t1 \<le> t1 \<and> t1 < bucket_start n t1 + int n * SECOND
     \<and> (t0 + int n * SECOND \<le> t1 \<longrightarrow> bucket_start n t0 < bucket_start n t1)"
proof -
  let ?lf = "lf((wr_community w, wr_id w) \<mapsto> t0)"
  have "due_instant SL A s lf t0 w (Schedule None (Some dur)) = (None, ?lf)"
    using assms by (simp add: due_instant_def interval_prefilter_should_fire_def interval_should_fire_def Let_def)
  moreover have "due_instant SL A' s' ?lf t1 w (Schedule None (Some dur)) =
      (if t1 < t0 + int n * SECOND then None else Some (bucket_start n t1, True), ?lf)"
    using assms by (intro due_interval) auto
  ultimately show ?thesis using bucket_bounds bucket_advances assms(2) by blast
qed

section \<open>Concrete clusters\<close>

definition sample_sched_libs :: sched_libs where
  "sample_sched_libs = \<lparr> sl_cron = (\<lambda>_. Ok (\<lambda>t. Some (t + 1))), sl_from_timestamp = (\<lambda>b. Some (b * SECOND)),
     sl_context_json = (\<lambda>_. Ok JNull) \<rparr>"

definition sample_scheduled :: store where
  "sample_scheduled = snd (create_workflow 5 ''w1'' (empty_store []) ''A'' (Some ''ch'') ''alice'' ''n''
     (JObject [(''trigger'', JObject [(''on'', JString ''schedule'')])]) ''h'')"

definition sample_tick :: tick_answers where
  "sample_tick = \<lparr> ta_now = 90 * SECOND, ta_list_fails = False,
     ta_read_def = (\<lambda>_. Ok (sample_trigger_def\<lparr>wf_trigger := Schedule (Some ''* * * * *'') None\<rparr>)),
     ta_role = (\<lambda>_ _ _. Ok (Some ''member'')), ta_anchor_fails = False, ta_claim_fails = False, ta_create_fails = False,
     ta_attach_fails = False, ta_fresh = ''r1'', ta_db_now = 7 \<rparr>"

definition sample_cluster :: cluster where
  "sample_cluster = \<lparr> cl_store = sample_scheduled, cl_pods = (\<lambda>_. pod_new), cl_fired = [], cl_removed = {} \<rparr>"

lemma run_pod:
  "pod_step SL A (cl_store s) (cl_pods s i) = (st, p, fs) \<Longrightarrow>
     run (cluster_step SL) (s\<lparr>cl_store := st, cl_pods := (cl_pods s)(i := p), cl_fired := cl_fired s @ fs\<rparr>) ls t \<Longrightarrow>
     run (cluster_step SL) s (Pod i # ls) t"
  by (rule run_cons, rule cs_pod)

lemmas sample_pod_defs =
  sample_cluster_def sample_scheduled_def sample_tick_def sample_sched_libs_def sample_trigger_def_def pod_new_def
  pod_step_def wake_def visit_def claim_def create_def create_workflow_def empty_store_def
  list_all_enabled_workflows_def select_rows_def definition_trigger_on_def LIST_MAX_LIMIT_def
  due_candidate_def due_instant_def cron_fire_instant_def check_owner_authority_def owner_authority_allows_def
  requires_elevated_authority_def claim_scheduled_workflow_fire_def create_workflow_run_def candidate_key_def
  SECOND_def Let_def

lemma sample_cluster_run:
  "\<exists>t. run (cluster_step sample_sched_libs) sample_cluster [Pod 0, Pod 0, Pod 0, Pod 0] t
     \<and> cl_fired t = [((''A'', ''w1'', 30 * SECOND + 1), ''r1'')] \<and> cl_removed t = {}"
  by (rule exI, rule conjI, (rule run_pod[where A = sample_tick], simp add: sample_pod_defs)+, simp)
    (simp add: sample_pod_defs)

theorem scheduled_fires_once_witness:
  "\<exists>t. run (cluster_step sample_sched_libs) sample_cluster [Pod 0, Pod 0, Pod 0, Pod 0] t
     \<and> length (filter (\<lambda>f. fst f = (''A'', ''w1'', 30 * SECOND + 1)) (cl_fired t)) = 1"
proof -
  obtain t where t: "run (cluster_step sample_sched_libs) sample_cluster [Pod 0, Pod 0, Pod 0, Pod 0] t"
      "cl_fired t = [((''A'', ''w1'', 30 * SECOND + 1), ''r1'')]" "cl_removed t = {}"
    using sample_cluster_run by blast
  have "length (filter (\<lambda>f. fst f = (''A'', ''w1'', 30 * SECOND + 1)) (cl_fired t)) \<le> 1"
    using scheduled_fires_once[OF _ t(1)] t(3) by (simp add: cluster_start_def sample_cluster_def)
  then show ?thesis using t by auto
qed

definition sample_interval :: workflow_record where
  "sample_interval = snd (hd (st_workflows sample_scheduled))"

lemma hour: "parse_duration_secs ''1h'' = Ok 3600"
proof -
  have "nat_to_string 1 = ''1''" by code_simp
  then show ?thesis using duration_hours[of 1] by (simp add: U64_MAX_def)
qed

lemma sample_timestamp_law: "timestamp_law sample_sched_libs t"
  by (simp add: timestamp_law_def sample_sched_libs_def)

theorem interval_cold_start_witness:
  "\<exists>lf'. due_instant sample_sched_libs sample_tick sample_scheduled Map.empty (60 * SECOND) sample_interval
        (Schedule None (Some ''1h'')) = (None, lf')
     \<and> due_instant sample_sched_libs sample_tick sample_scheduled lf' (3700 * SECOND) sample_interval
        (Schedule None (Some ''1h'')) = (Some (3600 * SECOND, True), lf')"
proof -
  have "read_anchor sample_tick sample_scheduled Map.empty (wr_community sample_interval) (wr_id sample_interval) = None"
    by (simp add: read_anchor_def latest_scheduled_workflow_fire_def sample_scheduled_def create_workflow_def empty_store_def)
  from interval_cold_start[OF hour _ _ _ _ sample_timestamp_law this, of "60 * SECOND" "3700 * SECOND" sample_tick sample_scheduled]
  show ?thesis by (auto simp: bucket_start_def timestamp_of_def SECOND_def)
qed

text \<open>
  The anchor of a restarted pod is the start of the last claimed interval, not the time of the fire: an
  hourly workflow that fired at 3599 s, in the interval from 0, is due again at 3660 s once its pod has
  restarted, though without the restart it is not.
\<close>
lemma restart_short_gap:
  assumes "snd (claim_scheduled_workflow_fire 3599 sample_scheduled ''A'' ''w1'' 0) = s"
    and "key = (wr_community sample_interval, wr_id sample_interval)"
  shows "due_instant sample_sched_libs sample_tick s [key \<mapsto> 3599 * SECOND] (3660 * SECOND) sample_interval
      (Schedule None (Some ''1h'')) = (None, [key \<mapsto> 3599 * SECOND])"
    and "fst (due_instant sample_sched_libs sample_tick s Map.empty (3660 * SECOND) sample_interval
      (Schedule None (Some ''1h''))) = Some (3600 * SECOND, True)"
proof -
  show "due_instant sample_sched_libs sample_tick s [key \<mapsto> 3599 * SECOND] (3660 * SECOND) sample_interval
      (Schedule None (Some ''1h'')) = (None, [key \<mapsto> 3599 * SECOND])"
    using due_interval[OF hour _ _ _ sample_timestamp_law, of "3660 * SECOND" "[key \<mapsto> 3599 * SECOND]" sample_interval
        "3599 * SECOND" sample_tick s] assms(2) by (simp add: SECOND_def)
  have "latest_scheduled_workflow_fire s (wr_community sample_interval) (wr_id sample_interval) = Some 0"
    unfolding assms(1)[symmetric]
    by (simp add: latest_scheduled_workflow_fire_def claim_scheduled_workflow_fire_def sample_interval_def
        sample_scheduled_def create_workflow_def empty_store_def Let_def)
  then show "fst (due_instant sample_sched_libs sample_tick s Map.empty (3660 * SECOND) sample_interval
      (Schedule None (Some ''1h''))) = Some (3600 * SECOND, True)"
    using interval_fire_instant_bucket[OF hour _ _ _ sample_timestamp_law, of "3660 * SECOND"]
    by (simp add: due_instant_def read_anchor_def sample_tick_def interval_prefilter_should_fire_def
        interval_should_fire_def hour SECOND_def bucket_start_def timestamp_of_def)
qed

text \<open>
  A tick that cannot read the anchor of an interval seeds the anchor with its own time, so the next tick
  finds that anchor in memory and does not read the database again.
\<close>
lemma anchor_failure_seeds:
  assumes "parse_duration_secs dur = Ok n" "0 < n" "n < 2 ^ 63" "0 \<le> t0" "t0 \<le> t1" "timestamp_law SL t1"
    and "ta_anchor_fails A" "lf (wr_community w, wr_id w) = None" "t1 < t0 + int n * SECOND"
  shows "fst (due_instant SL A' s' (snd (due_instant SL A s lf t0 w (Schedule None (Some dur)))) t1 w
      (Schedule None (Some dur))) = None"
  using assms due_interval[OF assms(1-3) _ assms(6), of "lf((wr_community w, wr_id w) \<mapsto> t0)" w t0 A' s']
  by (simp add: due_instant_def[of _ A] read_anchor_def interval_prefilter_should_fire_def interval_should_fire_def)

end
