(* ===== verification/Audio_Room.thy ===== *)
theory Audio_Room
  imports Mesh_Wire "HOL-Library.Word"
begin

text \<open>
  Audio rooms of the relay (\<^verbatim>\<open>buzz-relay/src/audio\<close>): the room with its admission guard, its roster and its
  fan-out (\<^verbatim>\<open>room.rs\<close>), the header of a client frame (\<^verbatim>\<open>wire.rs\<close>) and the media path between pods
  (\<^verbatim>\<open>mesh.rs\<close>). Every operation that takes the lock of the admission guard is one atomic step. Sums of
  8 bits wrap, as in a release build. The identifiers drawn by \<^verbatim>\<open>Uuid::new_v4\<close> are arguments.
\<close>

section \<open>Channels\<close>

text \<open>A bounded channel: what its receiver has not taken yet, and whether a receiver and a sender are left.\<close>
record 'm mpsc =
  mp_capacity :: nat
  mp_queue :: "'m list"
  mp_open :: bool

definition mpsc_channel :: "nat \<Rightarrow> 'm mpsc" where
  "mpsc_channel n = \<lparr>mp_capacity = n, mp_queue = [], mp_open = True\<rparr>"

definition try_send :: "'m \<Rightarrow> 'm mpsc \<Rightarrow> bool \<times> 'm mpsc" where
  "try_send m c =
     (if mp_open c \<and> length (mp_queue c) < mp_capacity c then (True, c\<lparr>mp_queue := mp_queue c @ [m]\<rparr>) else (False, c))"

text \<open>A receiver of a broadcast channel: the retained messages it has not seen and whether older ones were overwritten.\<close>
record 'm broadcast_rx =
  brx_queue :: "'m list"
  brx_lagged :: bool

definition brx_send :: "nat \<Rightarrow> 'm \<Rightarrow> 'm broadcast_rx \<Rightarrow> 'm broadcast_rx" where
  "brx_send capacity m rx =
     (if length (brx_queue rx) < capacity then rx\<lparr>brx_queue := brx_queue rx @ [m]\<rparr>
      else \<lparr>brx_queue = drop 1 (brx_queue rx @ [m]), brx_lagged = True\<rparr>)"

datatype 'm recv_result = Received 'm | Lagged

definition brx_recv :: "'m broadcast_rx \<Rightarrow> ('m recv_result \<times> 'm broadcast_rx) option" where
  "brx_recv rx =
     (if brx_lagged rx then Some (Lagged, rx\<lparr>brx_lagged := False\<rparr>)
      else (case brx_queue rx of [] \<Rightarrow> None | m # ms \<Rightarrow> Some (Received m, rx\<lparr>brx_queue := ms\<rparr>)))"

section \<open>The room\<close>

type_synonym u8 = "8 word"
type_synonym peer_id = string

datatype peer_ctrl = Ctrl_Json string | Ctrl_Close

record audio_peer =
  ap_pubkey :: string
  ap_audio_tx :: "bytes mpsc"
  ap_ctrl_tx :: "peer_ctrl mpsc"
  ap_peer_index :: u8
  ap_epoch :: u8
  ap_protocol_version :: u8

definition AUDIO_CHANNEL_CAPACITY :: nat where "AUDIO_CHANNEL_CAPACITY = 8"
definition CTRL_CHANNEL_CAPACITY :: nat where "CTRL_CHANNEL_CAPACITY = 32"
definition MAX_PEERS_PER_ROOM :: nat where "MAX_PEERS_PER_ROOM = 25"
definition ROSTER_CHANNEL_CAPACITY :: nat where "ROSTER_CHANNEL_CAPACITY = 64"

record roster_peer =
  rp_pubkey :: string
  rp_peer_index :: u8
  rp_epoch :: u8

record roster_snapshot =
  rs_revision :: nat
  rs_peers :: "roster_peer list"

record roster_delta =
  rd_revision :: nat
  rd_joined :: "roster_peer option"
  rd_left :: "roster_peer option"

datatype admission_error = Room_Ended | Room_Full | VersionMismatch u8 u8

record admission_guard =
  next_candidate :: u8
  active_indices :: "u8 set"
  index_epochs :: "u8 \<rightharpoonup> u8"
  ended :: bool
  pinned_version :: "u8 option"
  roster_revision :: nat

definition guard_new :: admission_guard where
  "guard_new = \<lparr>next_candidate = 0, active_indices = {}, index_epochs = Map.empty, ended = False,
     pinned_version = None, roster_revision = 0\<rparr>"

definition next_index :: "u8 \<Rightarrow> u8" where
  "next_index idx = (if idx = 254 then 0 else idx + 1)"

definition next_epoch_for :: "u8 \<Rightarrow> admission_guard \<Rightarrow> u8 \<times> admission_guard" where
  "next_epoch_for idx g =
     (let epoch = (case index_epochs g idx of Some e \<Rightarrow> e | None \<Rightarrow> 0)
      in (epoch, g\<lparr>index_epochs := (index_epochs g)(idx \<mapsto> epoch + 1)\<rparr>))"

primrec alloc_loop :: "nat \<Rightarrow> admission_guard \<Rightarrow> (u8 \<times> u8) option \<times> admission_guard" where
  "alloc_loop 0 g = (None, g)"
| "alloc_loop (Suc n) g =
     (let idx = next_candidate g; g' = g\<lparr>next_candidate := next_index idx\<rparr>
      in if idx \<in> active_indices g' then alloc_loop n g'
         else (let (epoch, g'') = next_epoch_for idx (g'\<lparr>active_indices := insert idx (active_indices g')\<rparr>)
               in (Some (idx, epoch), g'')))"

definition alloc :: "admission_guard \<Rightarrow> (u8 \<times> u8) option \<times> admission_guard" where
  "alloc = alloc_loop 255"

record room =
  rm_community_id :: string
  rm_channel_id :: string
  rm_peers :: "(peer_id \<times> audio_peer) list"
  rm_guard :: admission_guard
  rm_roster_rx :: "roster_delta broadcast_rx list"

definition room_new :: "string \<Rightarrow> string \<Rightarrow> room" where
  "room_new community_id channel_id = \<lparr>rm_community_id = community_id, rm_channel_id = channel_id, rm_peers = [],
     rm_guard = guard_new, rm_roster_rx = []\<rparr>"

definition mark_ended :: "room \<Rightarrow> bool \<times> room" where
  "mark_ended r = (rm_peers r = [], r\<lparr>rm_guard := (rm_guard r)\<lparr>ended := True\<rparr>\<rparr>)"

definition clear_ended :: "room \<Rightarrow> room" where
  "clear_ended r = r\<lparr>rm_guard := (rm_guard r)\<lparr>ended := False\<rparr>\<rparr>"

text \<open>\<^verbatim>\<open>roster_tx.send\<close>: every receiver gets the delta.\<close>
definition roster_send :: "roster_delta \<Rightarrow> room \<Rightarrow> room" where
  "roster_send delta r = r\<lparr>rm_roster_rx := map (brx_send ROSTER_CHANNEL_CAPACITY delta) (rm_roster_rx r)\<rparr>"

definition wrapping_revision :: "nat \<Rightarrow> nat" where
  "wrapping_revision n = (n + 1) mod 2 ^ 64"

text \<open>A map keeps one value for a key.\<close>
definition peers_insert :: "peer_id \<Rightarrow> audio_peer \<Rightarrow> (peer_id \<times> audio_peer) list \<Rightarrow> (peer_id \<times> audio_peer) list" where
  "peers_insert i p ps = filter (\<lambda>(j, _). j \<noteq> i) ps @ [(i, p)]"

definition version_check :: "admission_guard \<Rightarrow> u8 \<Rightarrow> (admission_error, unit) result" where
  "version_check g requested = (case pinned_version g of
     Some pinned \<Rightarrow> if pinned \<noteq> requested then Err (VersionMismatch pinned requested) else Ok ()
   | None \<Rightarrow> Ok ())"

text \<open>The end of both admissions: the pin, the peer with its channels, the revision and the delta.\<close>
definition admit :: "peer_id \<Rightarrow> string \<Rightarrow> u8 \<Rightarrow> u8 \<Rightarrow> u8 \<Rightarrow> admission_guard \<Rightarrow> room \<Rightarrow> nat \<times> room" where
  "admit i pubkey requested idx epoch g r =
     (let pin = (case pinned_version g of Some v \<Rightarrow> v | None \<Rightarrow> requested);
          revision = wrapping_revision (roster_revision g);
          p = \<lparr>ap_pubkey = pubkey, ap_audio_tx = mpsc_channel AUDIO_CHANNEL_CAPACITY,
               ap_ctrl_tx = mpsc_channel CTRL_CHANNEL_CAPACITY, ap_peer_index = idx, ap_epoch = epoch,
               ap_protocol_version = requested\<rparr>;
          delta = \<lparr>rd_revision = revision,
                   rd_joined = Some \<lparr>rp_pubkey = pubkey, rp_peer_index = idx, rp_epoch = epoch\<rparr>, rd_left = None\<rparr>
      in (revision, roster_send delta
            (r\<lparr>rm_peers := peers_insert i p (rm_peers r),
               rm_guard := g\<lparr>pinned_version := Some pin, roster_revision := revision\<rparr>\<rparr>)))"

definition add_peer :: "peer_id \<Rightarrow> string \<Rightarrow> u8 \<Rightarrow> room \<Rightarrow> (admission_error, u8 \<times> u8 \<times> nat) result \<times> room" where
  "add_peer i pubkey requested r =
     (let g = rm_guard r
      in if ended g then (Err Room_Ended, r)
         else if MAX_PEERS_PER_ROOM \<le> length (rm_peers r) then (Err Room_Full, r)
         else (case version_check g requested of
             Inl e \<Rightarrow> (Err e, r)
           | Inr _ \<Rightarrow> (case alloc g of
               (None, g') \<Rightarrow> (Err Room_Full, r\<lparr>rm_guard := g'\<rparr>)
             | (Some (idx, epoch), g') \<Rightarrow>
                 (let (revision, r') = admit i pubkey requested idx epoch g' r in (Ok (idx, epoch, revision), r')))))"

definition add_peer_at_index :: "peer_id \<Rightarrow> string \<Rightarrow> u8 \<Rightarrow> u8 \<Rightarrow> room \<Rightarrow> (admission_error, u8 \<times> nat) result \<times> room" where
  "add_peer_at_index i pubkey requested idx r =
     (let g = rm_guard r
      in if ended g then (Err Room_Ended, r)
         else if MAX_PEERS_PER_ROOM \<le> length (rm_peers r) \<or> idx \<in> active_indices g then (Err Room_Full, r)
         else (case version_check g requested of
             Inl e \<Rightarrow> (Err e, r)
           | Inr _ \<Rightarrow>
               (let (epoch, g') = next_epoch_for idx (g\<lparr>active_indices := insert idx (active_indices g)\<rparr>);
                    (revision, r') = admit i pubkey requested idx epoch (g'\<lparr>next_candidate := next_index idx\<rparr>) r
                in (Ok (epoch, revision), r'))))"

text \<open>The part the two removals share: the peer, its identity and the delta.\<close>
definition take_peer :: "peer_id \<Rightarrow> room \<Rightarrow> (roster_delta \<times> room) option" where
  "take_peer i r = (case map_of (rm_peers r) i of
     None \<Rightarrow> None
   | Some p \<Rightarrow>
       (let g = rm_guard r; revision = wrapping_revision (roster_revision g)
        in Some (\<lparr>rd_revision = revision, rd_joined = None,
                  rd_left = Some \<lparr>rp_pubkey = ap_pubkey p, rp_peer_index = ap_peer_index p, rp_epoch = ap_epoch p\<rparr>\<rparr>,
                 r\<lparr>rm_peers := filter (\<lambda>(j, _). j \<noteq> i) (rm_peers r),
                   rm_guard := g\<lparr>active_indices := active_indices g - {ap_peer_index p}, roster_revision := revision\<rparr>\<rparr>)))"

definition remove_peer :: "peer_id \<Rightarrow> room \<Rightarrow> roster_delta option \<times> room" where
  "remove_peer i r = (case take_peer i r of
     None \<Rightarrow> (None, r)
   | Some (delta, r') \<Rightarrow> (Some delta, roster_send delta r'))"

definition remove_peer_and_check_ended :: "peer_id \<Rightarrow> room \<Rightarrow> (roster_delta \<times> bool) option \<times> room" where
  "remove_peer_and_check_ended i r = (case take_peer i r of
     None \<Rightarrow> (None, r)
   | Some (delta, r') \<Rightarrow>
       (let should_end = (\<not> ended (rm_guard r') \<and> rm_peers r' = []);
            r'' = (if should_end then r'\<lparr>rm_guard := (rm_guard r')\<lparr>ended := True\<rparr>\<rparr> else r')
        in (Some (delta, should_end), roster_send delta r'')))"

text \<open>A byte of a frame.\<close>
definition byte_of :: "u8 \<Rightarrow> char" where
  "byte_of w = char_of (unat w)"

text \<open>The prefix the relay puts before a client frame.\<close>
definition media_prefix :: "u8 \<Rightarrow> u8 \<Rightarrow> u8 \<Rightarrow> bytes" where
  "media_prefix idx epoch version = byte_of idx # (if 3 \<le> version then [byte_of epoch] else [])"

definition send_audio :: "bytes \<Rightarrow> audio_peer \<Rightarrow> audio_peer" where
  "send_audio b p = p\<lparr>ap_audio_tx := snd (try_send b (ap_audio_tx p))\<rparr>"

definition broadcast_frame :: "peer_id \<Rightarrow> bytes \<Rightarrow> room \<Rightarrow> room" where
  "broadcast_frame sender frame r = (case map_of (rm_peers r) sender of
     None \<Rightarrow> r
   | Some s \<Rightarrow>
       r\<lparr>rm_peers := map (\<lambda>(i, p). if i = sender then (i, p)
           else (i, send_audio (media_prefix (ap_peer_index s) (ap_epoch s) (ap_protocol_version s) @ frame) p)) (rm_peers r)\<rparr>)"

definition deliver_prefixed :: "u8 \<Rightarrow> bytes \<Rightarrow> room \<Rightarrow> room" where
  "deliver_prefixed author prefixed r =
     r\<lparr>rm_peers := map (\<lambda>(i, p). if ap_peer_index p = author then (i, p) else (i, send_audio prefixed p)) (rm_peers r)\<rparr>"

text \<open>A full control queue is terminal: the sender is replaced by one without a receiver.\<close>
definition send_ctrl :: "string \<Rightarrow> audio_peer \<Rightarrow> audio_peer" where
  "send_ctrl json p = (case try_send (Ctrl_Json json) (ap_ctrl_tx p) of
     (True, c) \<Rightarrow> p\<lparr>ap_ctrl_tx := c\<rparr>
   | (False, _) \<Rightarrow> p\<lparr>ap_ctrl_tx := (ap_ctrl_tx p)\<lparr>mp_open := False\<rparr>\<rparr>)"

definition broadcast_control :: "string \<Rightarrow> room \<Rightarrow> room" where
  "broadcast_control json r = r\<lparr>rm_peers := map (\<lambda>(i, p). (i, send_ctrl json p)) (rm_peers r)\<rparr>"

text \<open>The new receiver and its place.\<close>
definition subscribe_roster :: "room \<Rightarrow> nat \<times> room" where
  "subscribe_roster r =
     (length (rm_roster_rx r), r\<lparr>rm_roster_rx := rm_roster_rx r @ [\<lparr>brx_queue = [], brx_lagged = False\<rparr>]\<rparr>)"

definition roster_entry :: "audio_peer \<Rightarrow> roster_peer" where
  "roster_entry p = \<lparr>rp_pubkey = ap_pubkey p, rp_peer_index = ap_peer_index p, rp_epoch = ap_epoch p\<rparr>"

definition room_snapshot :: "room \<Rightarrow> roster_snapshot" where
  "room_snapshot r = \<lparr>rs_revision = roster_revision (rm_guard r),
     rs_peers = sort_key (unat \<circ> rp_peer_index) (map (roster_entry \<circ> snd) (rm_peers r))\<rparr>"

definition peer_pubkeys :: "room \<Rightarrow> (string \<times> u8) list" where
  "peer_pubkeys r = map (\<lambda>(_, p). (ap_pubkey p, ap_peer_index p)) (rm_peers r)"

section \<open>The rooms of a pod\<close>

type_synonym rooms = "((string \<times> string) \<times> room) list"

definition get_or_create :: "string \<Rightarrow> string \<Rightarrow> rooms \<Rightarrow> room \<times> rooms" where
  "get_or_create community channel rs = (case map_of rs (community, channel) of
     Some r \<Rightarrow> (r, rs)
   | None \<Rightarrow> (room_new community channel, rs @ [((community, channel), room_new community channel)]))"

definition get_room :: "string \<Rightarrow> string \<Rightarrow> rooms \<Rightarrow> room option" where
  "get_room community channel rs = map_of rs (community, channel)"

text \<open>The only room of a channel on this pod, by its key.\<close>
definition get_unambiguous_by_channel :: "string \<Rightarrow> rooms \<Rightarrow> (string \<times> string) option" where
  "get_unambiguous_by_channel channel rs = (case filter (\<lambda>(k, _). snd k = channel) rs of
     [] \<Rightarrow> None
   | (k, _) # others \<Rightarrow> if others \<noteq> [] then None else Some k)"

definition cleanup_if_empty :: "string \<Rightarrow> string \<Rightarrow> rooms \<Rightarrow> bool \<times> rooms" where
  "cleanup_if_empty community channel rs = (case map_of rs (community, channel) of
     Some r \<Rightarrow> if rm_peers r = [] then (True, filter (\<lambda>(k, _). k \<noteq> (community, channel)) rs) else (False, rs)
   | None \<Rightarrow> (False, rs))"

definition update_room :: "string \<times> string \<Rightarrow> (room \<Rightarrow> room) \<Rightarrow> rooms \<Rightarrow> rooms" where
  "update_room k f rs = map (\<lambda>(j, r). if j = k then (j, f r) else (j, r)) rs"

section \<open>Client frames\<close>

definition V2_HEADER_LEN :: nat where "V2_HEADER_LEN = 8"
definition FLAG_DTX :: u8 where "FLAG_DTX = 1"

record frame_header =
  fr_seq :: nat
  fr_ts_48k :: nat
  fr_level_dbov :: int
  fr_flags :: u8

definition is_dtx :: "frame_header \<Rightarrow> bool" where
  "is_dtx h \<longleftrightarrow> and (fr_flags h) FLAG_DTX \<noteq> 0"

definition frame_header_parse :: "bytes \<Rightarrow> (frame_header \<times> bytes) option" where
  "frame_header_parse bs =
     (if length bs < V2_HEADER_LEN then None
      else
        (let b = (\<lambda>i. of_char (bs ! i) :: nat);
             raw_level = sint (word_of_nat (b 6) :: u8)
         in Some (\<lparr>fr_seq = b 0 * 2 ^ 8 + b 1,
                   fr_ts_48k = b 2 * 2 ^ 24 + b 3 * 2 ^ 16 + b 4 * 2 ^ 8 + b 5,
                   fr_level_dbov = (if -127 \<le> raw_level \<and> raw_level \<le> 0 then raw_level else -127),
                   fr_flags = word_of_nat (b 7)\<rparr>,
                  drop V2_HEADER_LEN bs)))"

definition MAX_AUDIO_FRAME_BYTES :: nat where "MAX_AUDIO_FRAME_BYTES = 4096"

text \<open>Whether the receive loop passes on a binary frame of a client.\<close>
definition forwards_frame :: "u8 \<Rightarrow> bytes \<Rightarrow> bool" where
  "forwards_frame version data \<longleftrightarrow>
     \<not> length data > MAX_AUDIO_FRAME_BYTES
     \<and> (2 \<le> version \<longrightarrow> \<not> length data \<le> V2_HEADER_LEN
          \<and> (case frame_header_parse data of Some (_, opus) \<Rightarrow> opus \<noteq> [] | None \<Rightarrow> False))"

section \<open>Media between pods\<close>

type_synonym generation_floor = "string \<rightharpoonup> nat"

datatype fence_verdict = Fence_Accept bool | RejectStale nat

definition floor_check :: "string \<Rightarrow> nat \<Rightarrow> generation_floor \<Rightarrow> fence_verdict \<times> generation_floor" where
  "floor_check session generation seen = (case seen session of
     Some known \<Rightarrow>
       if generation < known then (RejectStale known, seen)
       else (Fence_Accept (generation > known), if generation > known then seen(session \<mapsto> generation) else seen)
   | None \<Rightarrow> (Fence_Accept False, seen(session \<mapsto> generation)))"

definition floor_forget :: "string \<Rightarrow> generation_floor \<Rightarrow> generation_floor" where
  "floor_forget session seen = seen(session := None)"

record mesh_audio_router =
  mr_rooms :: rooms
  mr_fence :: generation_floor

definition on_media_datagram :: "mesh_datagram \<Rightarrow> mesh_audio_router \<Rightarrow> fence_verdict \<times> mesh_audio_router" where
  "on_media_datagram dgram m =
     (let session = fh_session_id (dg_fenced dgram);
          (verdict, fence) = floor_check session (fh_generation (dg_fenced dgram)) (mr_fence m);
          m' = m\<lparr>mr_fence := fence\<rparr>
      in (case verdict of
            RejectStale known \<Rightarrow> (verdict, m')
          | Fence_Accept _ \<Rightarrow> (case get_unambiguous_by_channel session (mr_rooms m) of
              None \<Rightarrow> (verdict, m')
            | Some k \<Rightarrow> (case dg_payload dgram of
                [] \<Rightarrow> (verdict, m')
              | author # rest \<Rightarrow>
                  (verdict, m'\<lparr>mr_rooms := update_room k (deliver_prefixed (word_of_nat (of_char author)) (author # rest)) (mr_rooms m)\<rparr>)))))"

text \<open>What the sink of a remote peer sends for the frames it takes from the peer's audio channel.\<close>
fun remote_peer_sink :: "fenced_header \<Rightarrow> nat \<Rightarrow> bytes list \<Rightarrow> mesh_datagram list" where
  "remote_peer_sink fenced seq [] = []"
| "remote_peer_sink fenced seq (frame # frames) =
     \<lparr>dg_fenced = fenced, dg_seq = seq, dg_payload = frame\<rparr> # remote_peer_sink fenced (wrapping_revision seq) frames"

definition media_datagram :: "u8 \<Rightarrow> u8 \<Rightarrow> u8 \<Rightarrow> fenced_header \<Rightarrow> nat \<Rightarrow> bytes \<Rightarrow> mesh_datagram" where
  "media_datagram idx epoch version fenced seq client_frame =
     \<lparr>dg_fenced = fenced, dg_seq = seq, dg_payload = media_prefix idx epoch version @ client_frame\<rparr>"

section \<open>Rooms at work\<close>

text \<open>
  What happens to a room. The receivers of the peers' channels take from them or close them (\<^verbatim>\<open>Op_Channels\<close>),
  and a subscriber of the roster takes what it got (\<^verbatim>\<open>Op_Recv\<close>).
\<close>
datatype room_op =
    Op_Add peer_id string u8
  | Op_Add_At peer_id string u8 u8
  | Op_Remove peer_id
  | Op_Leave peer_id
  | Op_Mark
  | Op_Clear
  | Op_Frame peer_id bytes
  | Op_Deliver u8 bytes
  | Op_Control string
  | Op_Channels "peer_id \<Rightarrow> bytes mpsc \<Rightarrow> bytes mpsc" "peer_id \<Rightarrow> peer_ctrl mpsc \<Rightarrow> peer_ctrl mpsc"
  | Op_Subscribe
  | Op_Recv nat

fun room_exec :: "room_op \<Rightarrow> room \<Rightarrow> room" where
  "room_exec (Op_Add i pk v) r = snd (add_peer i pk v r)"
| "room_exec (Op_Add_At i pk v idx) r = snd (add_peer_at_index i pk v idx r)"
| "room_exec (Op_Remove i) r = snd (remove_peer i r)"
| "room_exec (Op_Leave i) r = snd (remove_peer_and_check_ended i r)"
| "room_exec Op_Mark r = snd (mark_ended r)"
| "room_exec Op_Clear r = clear_ended r"
| "room_exec (Op_Frame i b) r = broadcast_frame i b r"
| "room_exec (Op_Deliver author b) r = deliver_prefixed author b r"
| "room_exec (Op_Control json) r = broadcast_control json r"
| "room_exec (Op_Channels f g) r =
     r\<lparr>rm_peers := map (\<lambda>(i, p). (i, p\<lparr>ap_audio_tx := f i (ap_audio_tx p), ap_ctrl_tx := g i (ap_ctrl_tx p)\<rparr>)) (rm_peers r)\<rparr>"
| "room_exec Op_Subscribe r = snd (subscribe_roster r)"
| "room_exec (Op_Recv n) r =
     (if n < length (rm_roster_rx r)
      then (case brx_recv (rm_roster_rx r ! n) of Some (_, rx) \<Rightarrow> r\<lparr>rm_roster_rx := (rm_roster_rx r)[n := rx]\<rparr> | None \<Rightarrow> r)
      else r)"

text \<open>The identity an operation hands out and the change of the roster it reports to its caller.\<close>
fun op_admission :: "room_op \<Rightarrow> room \<Rightarrow> (string \<times> u8 \<times> u8 \<times> nat) option" where
  "op_admission (Op_Add i pk v) r = (case fst (add_peer i pk v r) of Inr (idx, epoch, revision) \<Rightarrow> Some (pk, idx, epoch, revision) | Inl _ \<Rightarrow> None)"
| "op_admission (Op_Add_At i pk v idx) r = (case fst (add_peer_at_index i pk v idx r) of Inr (epoch, revision) \<Rightarrow> Some (pk, idx, epoch, revision) | Inl _ \<Rightarrow> None)"
| "op_admission _ r = None"

fun op_removal :: "room_op \<Rightarrow> room \<Rightarrow> roster_delta option" where
  "op_removal (Op_Remove i) r = fst (remove_peer i r)"
| "op_removal (Op_Leave i) r = map_option fst (fst (remove_peer_and_check_ended i r))"
| "op_removal _ r = None"

definition joined_delta :: "string \<times> u8 \<times> u8 \<times> nat \<Rightarrow> roster_delta" where
  "joined_delta = (\<lambda>(pk, idx, epoch, revision). \<lparr>rd_revision = revision,
     rd_joined = Some \<lparr>rp_pubkey = pk, rp_peer_index = idx, rp_epoch = epoch\<rparr>, rd_left = None\<rparr>)"

record room_state =
  rst_room :: room
  rst_admissions :: "(u8 \<times> u8) list"
  rst_deltas :: "roster_delta list"

fun op_fresh :: "room_op \<Rightarrow> room \<Rightarrow> bool" where
  "op_fresh (Op_Add i _ _) r \<longleftrightarrow> i \<notin> fst ` set (rm_peers r)"
| "op_fresh (Op_Add_At i _ _ _) r \<longleftrightarrow> i \<notin> fst ` set (rm_peers r)"
| "op_fresh _ r \<longleftrightarrow> True"

definition room_after :: "room_op \<Rightarrow> room_state \<Rightarrow> room_state" where
  "room_after op s =
     \<lparr>rst_room = room_exec op (rst_room s),
      rst_admissions = rst_admissions s @ (case op_admission op (rst_room s) of Some (_, idx, epoch, _) \<Rightarrow> [(idx, epoch)] | None \<Rightarrow> []),
      rst_deltas = rst_deltas s
        @ (case op_admission op (rst_room s) of Some a \<Rightarrow> [joined_delta a] | None \<Rightarrow> [])
        @ (case op_removal op (rst_room s) of Some d \<Rightarrow> [d] | None \<Rightarrow> [])\<rparr>"

inductive room_step :: "room_state \<Rightarrow> room_op \<Rightarrow> room_state \<Rightarrow> bool" where
  room_op: "op_fresh op (rst_room s) \<Longrightarrow> room_step s op (room_after op s)"

inductive_simps room_step_simps: "room_step s op t"

definition room_start :: "room_state \<Rightarrow> bool" where
  "room_start s \<longleftrightarrow> (\<exists>c ch. s = \<lparr>rst_room = room_new c ch, rst_admissions = [], rst_deltas = []\<rparr>)"

section \<open>What a room keeps\<close>

text \<open>Who is in a room.\<close>
type_synonym occupant = "peer_id \<times> string \<times> u8 \<times> u8 \<times> u8"

definition occupant_of :: "peer_id \<times> audio_peer \<Rightarrow> occupant" where
  "occupant_of = (\<lambda>(i, p). (i, ap_pubkey p, ap_peer_index p, ap_epoch p, ap_protocol_version p))"

definition who :: "room \<Rightarrow> occupant list" where
  "who r = map occupant_of (rm_peers r)"

definition oc_index :: "occupant \<Rightarrow> u8" where
  "oc_index = (\<lambda>(i, pk, idx, e, v). idx)"

text \<open>A roster as a reader of it understands it: who speaks under an index, and since which epoch.\<close>
type_synonym roster_view = "u8 \<rightharpoonup> string \<times> u8"

definition view_of :: "occupant list \<Rightarrow> roster_view" where
  "view_of w = map_of (map (\<lambda>(i, pk, idx, e, v). (idx, pk, e)) w)"

definition apply_delta :: "roster_delta \<Rightarrow> roster_view \<Rightarrow> roster_view" where
  "apply_delta d m = (case rd_joined d of
     Some p \<Rightarrow> m(rp_peer_index p \<mapsto> (rp_pubkey p, rp_epoch p))
   | None \<Rightarrow> (case rd_left d of Some p \<Rightarrow> m(rp_peer_index p := None) | None \<Rightarrow> m))"

definition replay :: "roster_delta list \<Rightarrow> roster_view" where
  "replay ds = fold apply_delta ds Map.empty"

text \<open>How often an index was handed out.\<close>
definition occupants :: "u8 \<Rightarrow> (u8 \<times> u8) list \<Rightarrow> nat" where
  "occupants idx adm = length (filter (\<lambda>a. fst a = idx) adm)"

definition next_epoch :: "admission_guard \<Rightarrow> u8 \<Rightarrow> u8" where
  "next_epoch g idx = (case index_epochs g idx of Some e \<Rightarrow> e | None \<Rightarrow> 0)"

definition seats_ok :: "occupant list \<Rightarrow> admission_guard \<Rightarrow> bool" where
  "seats_ok w g \<longleftrightarrow> distinct (map fst w) \<and> distinct (map oc_index w) \<and> active_indices g = oc_index ` set w
     \<and> length w \<le> MAX_PEERS_PER_ROOM \<and> next_candidate g \<noteq> 255 \<and> (\<forall>(i, pk, idx, e, v) \<in> set w. pinned_version g = Some v)"

definition epochs_ok :: "occupant list \<Rightarrow> admission_guard \<Rightarrow> (u8 \<times> u8) list \<Rightarrow> bool" where
  "epochs_ok w g adm \<longleftrightarrow> (\<forall>idx. next_epoch g idx = of_nat (occupants idx adm))
     \<and> (\<forall>k < length adm. snd (adm ! k) = of_nat (occupants (fst (adm ! k)) (take k adm)))
     \<and> (\<forall>(i, pk, idx, e, v) \<in> set w. \<exists>n. occupants idx adm = Suc n \<and> e = of_nat n)"

definition deltas_ok :: "occupant list \<Rightarrow> admission_guard \<Rightarrow> roster_delta list \<Rightarrow> bool" where
  "deltas_ok w g ds \<longleftrightarrow> view_of w = replay ds \<and> roster_revision g = length ds mod 2 ^ 64
     \<and> (\<forall>k < length ds. rd_revision (ds ! k) = Suc k mod 2 ^ 64)"

definition rx_ok :: "roster_delta list \<Rightarrow> roster_delta broadcast_rx list \<Rightarrow> bool" where
  "rx_ok ds rxs \<longleftrightarrow> (\<forall>rx \<in> set rxs. \<exists>a. brx_queue rx = drop a ds)"

definition room_inv :: "room_state \<Rightarrow> bool" where
  "room_inv s \<longleftrightarrow> seats_ok (who (rst_room s)) (rm_guard (rst_room s))
     \<and> epochs_ok (who (rst_room s)) (rm_guard (rst_room s)) (rst_admissions s)
     \<and> deltas_ok (who (rst_room s)) (rm_guard (rst_room s)) (rst_deltas s)
     \<and> rx_ok (rst_deltas s) (rm_roster_rx (rst_room s))"

section \<open>Allocation\<close>

lemma next_index_cycle:
  assumes "c \<noteq> 255"
  shows "next_index c \<noteq> 255" "unat (next_index c) = (unat c + 1) mod 255"
proof -
  have "unat c \<noteq> unat (255 :: u8)" using assms by (simp add: word_unat_eq_iff)
  moreover have "unat c < 2 ^ LENGTH(8)" by (rule unsigned_less)
  ultimately have lt: "unat c < 255" by simp
  show u: "unat (next_index c) = (unat c + 1) mod 255"
  proof (cases "c = 254")
    case False
    then have "unat c \<noteq> unat (254 :: u8)" by (simp add: word_unat_eq_iff)
    then have "unat c + 1 < 255" using lt by simp
    then show ?thesis using False by (simp add: next_index_def unat_word_ariths)
  qed (simp add: next_index_def)
  have "(unat c + 1) mod 255 < 255" by simp
  then show "next_index c \<noteq> 255" using u by (auto simp: word_unat_eq_iff)
qed

lemma next_index_iterate:
  assumes "c \<noteq> 255"
  shows "(next_index ^^ k) c \<noteq> 255 \<and> unat ((next_index ^^ k) c) = (unat c + k) mod 255"
proof (induction k)
  case 0
  have "unat c < 255" using assms next_index_cycle[of c] unsigned_less[of c, where 'a = nat] by (auto simp: word_unat_eq_iff)
  then show ?case using assms by simp
next
  case (Suc k)
  then show ?case using next_index_cycle[of "(next_index ^^ k) c"] by (auto simp: mod_Suc_eq)
qed

lemma alloc_loop_fails:
  "alloc_loop n g = (None, g') \<Longrightarrow> k < n \<Longrightarrow> (next_index ^^ k) (next_candidate g) \<in> active_indices g"
proof (induction n arbitrary: g k)
  case (Suc n)
  then show ?case
    by (cases k) (auto simp: Let_def funpow_swap1 split: if_splits prod.splits dest!: Suc.IH)
qed simp

lemma alloc_loop_finds:
  assumes "alloc_loop n g = (Some (idx, epoch), g')"
  shows "idx \<notin> active_indices g" "next_candidate g \<noteq> 255 \<Longrightarrow> idx \<noteq> 255 \<and> next_candidate g' \<noteq> 255"
    "epoch = next_epoch g idx" "\<exists>c. g' = g\<lparr>next_candidate := c, active_indices := insert idx (active_indices g),
       index_epochs := (index_epochs g)(idx \<mapsto> epoch + 1)\<rparr>"
proof -
  have "idx \<notin> active_indices g \<and> (next_candidate g \<noteq> 255 \<longrightarrow> idx \<noteq> 255 \<and> next_candidate g' \<noteq> 255) \<and> epoch = next_epoch g idx
      \<and> (\<exists>c. g' = g\<lparr>next_candidate := c, active_indices := insert idx (active_indices g),
           index_epochs := (index_epochs g)(idx \<mapsto> epoch + 1)\<rparr>)"
    using assms
  proof (induction n arbitrary: g)
    case (Suc n)
    let ?g = "g\<lparr>next_candidate := next_index (next_candidate g)\<rparr>"
    show ?case
    proof (cases "next_candidate g \<in> active_indices g")
      case True
      then have "alloc_loop n ?g = (Some (idx, epoch), g')" using Suc.prems by simp
      from Suc.IH[OF this] show ?thesis by (auto simp: next_epoch_def next_index_cycle)
    next
      case False
      then have eqs: "idx = next_candidate g" "epoch = next_epoch g idx"
          "g' = g\<lparr>next_candidate := next_index (next_candidate g), active_indices := insert idx (active_indices g),
             index_epochs := (index_epochs g)(idx \<mapsto> epoch + 1)\<rparr>"
        using Suc.prems by (auto simp: next_epoch_for_def next_epoch_def Let_def)
      have "next_candidate g' = next_index idx" using eqs by simp
      moreover have "\<exists>c. g' = g\<lparr>next_candidate := c, active_indices := insert idx (active_indices g),
           index_epochs := (index_epochs g)(idx \<mapsto> epoch + 1)\<rparr>" by (rule exI) (rule eqs(3))
      ultimately show ?thesis using False eqs(1,2) next_index_cycle(1)[of idx] by (intro conjI) (metis, metis, metis, blast)
    qed
  qed simp
  then show "idx \<notin> active_indices g" "next_candidate g \<noteq> 255 \<Longrightarrow> idx \<noteq> 255 \<and> next_candidate g' \<noteq> 255"
    "epoch = next_epoch g idx" "\<exists>c. g' = g\<lparr>next_candidate := c, active_indices := insert idx (active_indices g),
       index_epochs := (index_epochs g)(idx \<mapsto> epoch + 1)\<rparr>"
    by blast+
qed

lemma mod_add_inj: "i < m \<Longrightarrow> j < m \<Longrightarrow> (a + i) mod m = (a + j) mod m \<Longrightarrow> i = (j :: nat)"
proof (induction i j rule: linorder_wlog)
  case (le i j)
  then have "m dvd j - i" using mod_eq_dvd_iff_nat[of "a + i" "a + j" m] by simp
  then show ?case using le dvd_imp_le[of m "j - i"] by (cases "j = i") auto
next
  case (sym i j)
  then show ?case by simp
qed

lemma alloc_succeeds:
  assumes "card (active_indices g) < 255" "next_candidate g \<noteq> 255"
  obtains idx epoch g' where "alloc g = (Some (idx, epoch), g')"
proof (cases "fst (alloc g)")
  case None
  let ?visit = "\<lambda>k. (next_index ^^ k) (next_candidate g)"
  have "?visit ` {..<255} \<subseteq> active_indices g"
    using alloc_loop_fails[of 255 g "snd (alloc g)"] None unfolding alloc_def by (auto simp: prod_eq_iff)
  moreover have "inj_on ?visit {..<255}"
  proof (rule inj_onI)
    fix i j assume ij: "i \<in> {..<255}" "j \<in> {..<255 :: nat}" "?visit i = ?visit j"
    then have "(unat (next_candidate g) + i) mod 255 = (unat (next_candidate g) + j) mod 255"
      using next_index_iterate[OF assms(2)] by metis
    then show "i = j" using ij(1,2) mod_add_inj[of i 255 j] by simp
  qed
  ultimately have "card {..<255 :: nat} \<le> card (active_indices g)"
    using card_inj_on_le finite_code by blast
  then show thesis using assms(1) by simp
next
  case (Some a)
  then show thesis using that by (cases a; cases "alloc g") auto
qed

section \<open>The effect of the operations\<close>

text \<open>What an admission and a removal do to the room, and that nothing else touches seats or the roster.\<close>

definition seated :: "occupant \<Rightarrow> admission_guard \<Rightarrow> room \<Rightarrow> room \<Rightarrow> bool" where
  "seated oc g r r' \<longleftrightarrow> who r' = who r @ [oc] \<and> rm_guard r' = g
     \<and> rm_roster_rx r' = map (brx_send ROSTER_CHANNEL_CAPACITY (case oc of (i, pk, idx, e, v) \<Rightarrow> joined_delta (pk, idx, e, roster_revision g))) (rm_roster_rx r)"

lemma who_fst: "map fst (who r) = map fst (rm_peers r)"
  by (auto simp: who_def occupant_of_def)

lemma who_length: "length (who r) = length (rm_peers r)"
  by (simp add: who_def)

lemma admit_seats:
  assumes "i \<notin> fst ` set (rm_peers r)"
  shows "seated (i, pk, idx, e, v)
    (g\<lparr>pinned_version := Some (case pinned_version g of Some u \<Rightarrow> u | None \<Rightarrow> v), roster_revision := wrapping_revision (roster_revision g)\<rparr>)
    r (snd (admit i pk v idx e g r))"
  and "fst (admit i pk v idx e g r) = wrapping_revision (roster_revision g)"
proof -
  have "filter (\<lambda>(j, _). j \<noteq> i) (rm_peers r) = rm_peers r" using assms by (auto simp: filter_id_conv rev_image_eqI)
  then show "seated (i, pk, idx, e, v)
    (g\<lparr>pinned_version := Some (case pinned_version g of Some u \<Rightarrow> u | None \<Rightarrow> v), roster_revision := wrapping_revision (roster_revision g)\<rparr>)
    r (snd (admit i pk v idx e g r))"
    by (simp add: seated_def admit_def peers_insert_def who_def occupant_of_def roster_send_def joined_delta_def Let_def)
qed (simp add: admit_def Let_def)

lemma version_check_cases: "version_check g v = Ok () \<longleftrightarrow> pinned_version g = None \<or> pinned_version g = Some v"
  by (auto simp: version_check_def split: option.splits)

lemma seats_active: "seats_ok w g \<Longrightarrow> card (active_indices g) \<le> MAX_PEERS_PER_ROOM"
  by (auto simp: seats_ok_def intro: order_trans[OF card_image_le] order_trans[OF card_length])

text \<open>The branches of an admission to a room in order.\<close>
lemma add_peer_cases:
  assumes "seats_ok (who r) (rm_guard r)" "i \<notin> fst ` set (rm_peers r)"
  obtains (ended) "ended (rm_guard r)" "add_peer i pk v r = (Err Room_Ended, r)"
  | (full) "\<not> ended (rm_guard r)" "length (who r) = MAX_PEERS_PER_ROOM" "add_peer i pk v r = (Err Room_Full, r)"
  | (mismatch) u where "\<not> ended (rm_guard r)" "length (who r) < MAX_PEERS_PER_ROOM" "pinned_version (rm_guard r) = Some u" "u \<noteq> v"
      "add_peer i pk v r = (Err (VersionMismatch u v), r)"
  | (seat) idx e c where "\<not> ended (rm_guard r)" "length (who r) < MAX_PEERS_PER_ROOM"
      "pinned_version (rm_guard r) = None \<or> pinned_version (rm_guard r) = Some v"
      "idx \<notin> active_indices (rm_guard r)" "idx \<noteq> 255" "c \<noteq> 255" "e = next_epoch (rm_guard r) idx"
      "fst (add_peer i pk v r) = Ok (idx, e, wrapping_revision (roster_revision (rm_guard r)))"
      "seated (i, pk, idx, e, v) ((rm_guard r)\<lparr>next_candidate := c, active_indices := insert idx (active_indices (rm_guard r)),
         index_epochs := (index_epochs (rm_guard r))(idx \<mapsto> e + 1), pinned_version := Some v,
         roster_revision := wrapping_revision (roster_revision (rm_guard r))\<rparr>) r (snd (add_peer i pk v r))"
proof -
  let ?g = "rm_guard r"
  consider "ended ?g" | "\<not> ended ?g" "MAX_PEERS_PER_ROOM \<le> length (rm_peers r)"
    | u where "\<not> ended ?g" "length (rm_peers r) < MAX_PEERS_PER_ROOM" "pinned_version ?g = Some u" "u \<noteq> v"
    | "\<not> ended ?g" "length (rm_peers r) < MAX_PEERS_PER_ROOM" "version_check ?g v = Ok ()"
    unfolding version_check_cases by (metis not_le option.exhaust)
  then show thesis
  proof cases
    case 4
    have "card (active_indices ?g) < 255" using seats_active[OF assms(1)] by (simp add: MAX_PEERS_PER_ROOM_def)
    moreover have nc: "next_candidate ?g \<noteq> 255" using assms(1) by (simp add: seats_ok_def)
    ultimately obtain idx e g' where a: "alloc ?g = (Some (idx, e), g')" by (rule alloc_succeeds)
    note found = alloc_loop_finds[OF a[unfolded alloc_def]]
    obtain c where c: "g' = ?g\<lparr>next_candidate := c, active_indices := insert idx (active_indices ?g),
        index_epochs := (index_epochs ?g)(idx \<mapsto> e + 1)\<rparr>" using found(4) by blast
    have add: "add_peer i pk v r = (Ok (idx, e, fst (admit i pk v idx e g' r)), snd (admit i pk v idx e g' r))"
      using 4 a by (simp add: add_peer_def Let_def split: prod.splits)
    have pin: "(case pinned_version ?g of Some u \<Rightarrow> u | None \<Rightarrow> v) = v" using 4(3) by (auto simp: version_check_cases)
    have "seated (i, pk, idx, e, v) (?g\<lparr>next_candidate := c, active_indices := insert idx (active_indices ?g),
        index_epochs := (index_epochs ?g)(idx \<mapsto> e + 1), pinned_version := Some v,
        roster_revision := wrapping_revision (roster_revision ?g)\<rparr>) r (snd (add_peer i pk v r))"
      using admit_seats(1)[OF assms(2), of pk idx e v g'] unfolding add by (simp add: c pin)
    moreover have "fst (add_peer i pk v r) = Ok (idx, e, wrapping_revision (roster_revision ?g))"
      unfolding add by (simp add: c admit_seats(2)[OF assms(2)])
    moreover have "idx \<noteq> 255" "c \<noteq> 255" using found(2)[OF nc] c by simp_all
    ultimately show thesis
      using seat 4(1,2) 4(3)[unfolded version_check_cases] found(1,3) unfolding who_length by blast
  qed (use assms(1) ended full mismatch in \<open>auto simp: add_peer_def version_check_def seats_ok_def who_length Let_def\<close>)
qed

lemma add_peer_at_index_cases:
  assumes "seats_ok (who r) (rm_guard r)" "i \<notin> fst ` set (rm_peers r)"
  obtains (refused) e where "add_peer_at_index i pk v idx r = (Err e, r)"
  | (seat) e c where "\<not> ended (rm_guard r)" "length (who r) < MAX_PEERS_PER_ROOM"
      "pinned_version (rm_guard r) = None \<or> pinned_version (rm_guard r) = Some v"
      "idx \<notin> active_indices (rm_guard r)" "c \<noteq> 255" "e = next_epoch (rm_guard r) idx"
      "fst (add_peer_at_index i pk v idx r) = Ok (e, wrapping_revision (roster_revision (rm_guard r)))"
      "seated (i, pk, idx, e, v) ((rm_guard r)\<lparr>next_candidate := c, active_indices := insert idx (active_indices (rm_guard r)),
         index_epochs := (index_epochs (rm_guard r))(idx \<mapsto> e + 1), pinned_version := Some v,
         roster_revision := wrapping_revision (roster_revision (rm_guard r))\<rparr>) r (snd (add_peer_at_index i pk v idx r))"
proof -
  let ?g = "rm_guard r"
  consider "ended ?g \<or> MAX_PEERS_PER_ROOM \<le> length (rm_peers r) \<or> idx \<in> active_indices ?g" | e where "version_check ?g v = Err e"
    | "\<not> ended ?g" "length (rm_peers r) < MAX_PEERS_PER_ROOM" "idx \<notin> active_indices ?g" "version_check ?g v = Ok ()"
    by (metis not_le old.sum.exhaust old.unit.exhaust)
  then show thesis
  proof cases
    case 3
    let ?e = "next_epoch ?g idx"
    define g' where "g' = ?g\<lparr>next_candidate := next_index idx, active_indices := insert idx (active_indices ?g),
        index_epochs := (index_epochs ?g)(idx \<mapsto> ?e + 1)\<rparr>"
    have swap: "g\<lparr>active_indices := A, index_epochs := E, next_candidate := n\<rparr> = g\<lparr>next_candidate := n, active_indices := A, index_epochs := E\<rparr>"
      for g :: admission_guard and A E n by simp
    have add: "add_peer_at_index i pk v idx r = (Ok (?e, fst (admit i pk v idx ?e g' r)), snd (admit i pk v idx ?e g' r))"
      using 3 by (simp add: add_peer_at_index_def next_epoch_for_def next_epoch_def g'_def swap Let_def split_beta)
    have pin: "(case pinned_version ?g of Some u \<Rightarrow> u | None \<Rightarrow> v) = v" using 3(4) by (auto simp: version_check_cases)
    have "seated (i, pk, idx, ?e, v) (?g\<lparr>next_candidate := next_index idx, active_indices := insert idx (active_indices ?g),
        index_epochs := (index_epochs ?g)(idx \<mapsto> ?e + 1), pinned_version := Some v,
        roster_revision := wrapping_revision (roster_revision ?g)\<rparr>) r (snd (add_peer_at_index i pk v idx r))"
      using admit_seats(1)[OF assms(2), of pk idx ?e v g'] unfolding add by (simp add: g'_def pin)
    moreover have "fst (add_peer_at_index i pk v idx r) = Ok (?e, wrapping_revision (roster_revision ?g))"
      unfolding add by (simp add: g'_def admit_seats(2)[OF assms(2)])
    moreover have "next_index idx \<noteq> 255"
      using next_index_cycle(1)[of idx] by (cases "idx = 255") (simp_all add: next_index_def)
    ultimately show thesis
      using seat 3(1-3) 3(4)[unfolded version_check_cases] unfolding who_length by blast
  next
    case 1
    then have "\<exists>e. add_peer_at_index i pk v idx r = (Err e, r)" by (auto simp: add_peer_at_index_def Let_def)
    then show thesis using refused by blast
  next
    case 2
    then have "\<exists>e. add_peer_at_index i pk v idx r = (Err e, r)" by (auto simp: add_peer_at_index_def Let_def)
    then show thesis using refused by blast
  qed
qed

text \<open>An occupant leaves.\<close>
definition vacated :: "occupant \<Rightarrow> room \<Rightarrow> roster_delta \<Rightarrow> room \<Rightarrow> bool" where
  "vacated oc r d r' \<longleftrightarrow> (case oc of (i, pk, idx, e, v) \<Rightarrow>
     oc \<in> set (who r) \<and> who r' = filter (\<lambda>x. fst x \<noteq> i) (who r)
     \<and> (\<exists>b. rm_guard r' = (rm_guard r)\<lparr>active_indices := active_indices (rm_guard r) - {idx},
          roster_revision := wrapping_revision (roster_revision (rm_guard r)), ended := b\<rparr>)
     \<and> d = \<lparr>rd_revision = wrapping_revision (roster_revision (rm_guard r)), rd_joined = None,
            rd_left = Some \<lparr>rp_pubkey = pk, rp_peer_index = idx, rp_epoch = e\<rparr>\<rparr>
     \<and> rm_roster_rx r' = map (brx_send ROSTER_CHANNEL_CAPACITY d) (rm_roster_rx r))"

lemma who_filter: "map occupant_of (filter (\<lambda>(j, _). j \<noteq> i) ps) = filter (\<lambda>x. fst x \<noteq> i) (map occupant_of ps)"
  by (induction ps) (auto simp: occupant_of_def)

lemma remove_peer_cases:
  obtains "remove_peer i r = (None, r)" "remove_peer_and_check_ended i r = (None, r)"
  | oc d b where "fst (remove_peer i r) = Some d" "vacated oc r d (snd (remove_peer i r))"
      "fst (remove_peer_and_check_ended i r) = Some (d, b)" "vacated oc r d (snd (remove_peer_and_check_ended i r))"
proof (cases "map_of (rm_peers r) i")
  case (Some p)
  have p: "(i, p) \<in> set (rm_peers r)" using Some by (rule map_of_SomeD)
  let ?oc = "(i, ap_pubkey p, ap_peer_index p, ap_epoch p, ap_protocol_version p)"
  let ?d = "fst (the (take_peer i r))" and ?b = "\<not> ended (rm_guard r) \<and> rm_peers (snd (the (take_peer i r))) = []"
  have w: "?oc \<in> set (who r)" using p by (auto simp: who_def occupant_of_def intro!: rev_image_eqI)
  note defs = remove_peer_def remove_peer_and_check_ended_def take_peer_def Some roster_send_def Let_def
  have guard: "\<exists>b. (rm_guard r)\<lparr>active_indices := A, roster_revision := n\<rparr> = (rm_guard r)\<lparr>active_indices := A, roster_revision := n, ended := b\<rparr>" for A n
    by (rule exI[of _ "ended (rm_guard r)"]) simp
  have "vacated ?oc r ?d (snd (remove_peer i r))"
    using w guard by (simp add: vacated_def defs) (simp add: who_def who_filter)
  moreover have "vacated ?oc r ?d (snd (remove_peer_and_check_ended i r))"
    using w guard by (auto simp: vacated_def defs) (auto simp: who_def simp flip: who_filter)
  ultimately show thesis using that(2)[of ?d ?oc ?b] by (simp add: defs)
qed (use that(1) in \<open>simp add: remove_peer_def remove_peer_and_check_ended_def take_peer_def\<close>)

section \<open>Every reachable room is well formed\<close>

lemma occupants_snoc: "occupants j (adm @ [(idx, e)]) = occupants j adm + (if idx = j then 1 else 0)"
  by (simp add: occupants_def)

lemma rx_send_ok:
  assumes "rx_ok ds rxs"
  shows "rx_ok (ds @ [d]) (map (brx_send n d) rxs)"
proof -
  have "\<exists>a. brx_queue (brx_send n d rx) = drop a (ds @ [d])" if q: "brx_queue rx = drop a ds" for rx a
  proof -
    have snoc: "drop a ds @ [d] = drop (min a (length ds)) (ds @ [d])" by (simp add: min_def)
    then show ?thesis by (cases "length (brx_queue rx) < n") (auto simp: brx_send_def q drop_drop simp del: drop_append)
  qed
  then show ?thesis using assms by (auto simp: rx_ok_def)
qed

lemma deltas_snoc:
  assumes "deltas_ok w g ds" "view_of w' = apply_delta d (view_of w)" "rd_revision d = wrapping_revision (roster_revision g)"
    and "roster_revision g' = wrapping_revision (roster_revision g)"
  shows "deltas_ok w' g' (ds @ [d])"
  using assms by (auto simp: deltas_ok_def replay_def wrapping_revision_def mod_Suc_eq nth_append less_Suc_eq)

lemma view_snoc:
  assumes "idx \<notin> oc_index ` set w"
  shows "view_of (w @ [(i, pk, idx, e, v)]) = (view_of w)(idx \<mapsto> (pk, e))"
proof -
  have "idx \<notin> dom (view_of w)" using assms by (auto simp: view_of_def dom_map_of_conv_image_fst oc_index_def rev_image_eqI)
  then show ?thesis by (auto simp: view_of_def map_add_def fun_eq_iff domIff split: option.splits)
qed

lemma view_filter:
  assumes "distinct (map fst w)" "distinct (map oc_index w)" "(i, pk, idx, e, v) \<in> set w"
  shows "view_of (filter (\<lambda>x. fst x \<noteq> i) w) = (view_of w)(idx := None)"
  using assms
proof (induction w)
  case (Cons x w)
  obtain j pk' idx' e' v' where x: "x = (j, pk', idx', e', v')" by (cases x)
  show ?case
  proof (cases "j = i")
    case True
    then have "(i, pk, idx, e, v) = x" and i: "i \<notin> fst ` set w" "idx' \<notin> oc_index ` set w"
      using Cons.prems x by (auto simp: oc_index_def rev_image_eqI)
    moreover have "filter (\<lambda>x. fst x \<noteq> i) w = w" using i by (auto simp: filter_id_conv)
    moreover have "idx' \<notin> dom (view_of w)" using i by (auto simp: view_of_def dom_map_of_conv_image_fst oc_index_def rev_image_eqI)
    ultimately show ?thesis using x by (auto simp: view_of_def fun_eq_iff domIff)
  next
    case False
    then have "(i, pk, idx, e, v) \<in> set w" "idx' \<noteq> idx" using Cons.prems x by (force simp: oc_index_def)+
    then show ?thesis using Cons False x by (auto simp: view_of_def fun_eq_iff)
  qed
qed simp

lemma seated_keeps:
  assumes inv: "seats_ok (who r) g" "epochs_ok (who r) g adm" "deltas_ok (who r) g ds" "rx_ok ds (rm_roster_rx r)"
    and seat: "seated (i, pk, idx, e, v) g' r r'" "g' = g\<lparr>next_candidate := c, active_indices := insert idx (active_indices g),
         index_epochs := (index_epochs g)(idx \<mapsto> e + 1), pinned_version := Some v, roster_revision := wrapping_revision (roster_revision g)\<rparr>"
    and new: "i \<notin> fst ` set (rm_peers r)" "length (who r) < MAX_PEERS_PER_ROOM" "pinned_version g = None \<or> pinned_version g = Some v"
      "idx \<notin> active_indices g" "c \<noteq> 255" "e = next_epoch g idx"
    and d: "d = joined_delta (pk, idx, e, wrapping_revision (roster_revision g))"
  shows "seats_ok (who r') g'" "epochs_ok (who r') g' (adm @ [(idx, e)])" "deltas_ok (who r') g' (ds @ [d])"
    "rx_ok (ds @ [d]) (rm_roster_rx r')" "rm_guard r' = g'"
proof -
  have w: "who r' = who r @ [(i, pk, idx, e, v)]" and rx: "rm_roster_rx r' = map (brx_send ROSTER_CHANNEL_CAPACITY d) (rm_roster_rx r)"
    using seat d by (simp_all add: seated_def)
  have free: "idx \<notin> oc_index ` set (who r)" using inv(1) new(4) by (simp add: seats_ok_def)
  have "i \<notin> fst ` set (who r)" using new(1) who_fst[of r] by (metis list.set_map)
  then show "seats_ok (who r') g'"
    using inv(1) new free by (auto simp: seats_ok_def w seat(2) oc_index_def)
  have e: "e = of_nat (occupants idx adm)" using inv(2) new(6) by (simp add: epochs_ok_def)
  have old: "j \<noteq> idx" if "(k, q, j, f, u) \<in> set (who r)" for k q j f u
    using that free by (auto simp: oc_index_def rev_image_eqI)
  show "epochs_ok (who r') g' (adm @ [(idx, e)])"
    unfolding epochs_ok_def
  proof (intro conjI allI impI)
    show "next_epoch g' j = of_nat (occupants j (adm @ [(idx, e)]))" for j
      using inv(2) e by (auto simp: epochs_ok_def occupants_snoc next_epoch_def seat(2))
    show "snd ((adm @ [(idx, e)]) ! k) = of_nat (occupants (fst ((adm @ [(idx, e)]) ! k)) (take k (adm @ [(idx, e)])))"
      if "k < length (adm @ [(idx, e)])" for k
      using that inv(2) e by (auto simp: epochs_ok_def nth_append less_Suc_eq)
    show "\<forall>(k, q, j, f, u) \<in> set (who r'). \<exists>n. occupants j (adm @ [(idx, e)]) = Suc n \<and> f = of_nat n"
      using inv(2) e by (auto simp: epochs_ok_def w occupants_snoc dest: old)
  qed
  show "deltas_ok (who r') g' (ds @ [d])"
    using inv(3) by (rule deltas_snoc) (simp_all add: w d view_snoc[OF free] joined_delta_def apply_delta_def seat(2))
  show "rx_ok (ds @ [d]) (rm_roster_rx r')" unfolding rx by (rule rx_send_ok[OF inv(4)])
  show "rm_guard r' = g'" using seat(1) by (simp add: seated_def)
qed

lemma vacated_keeps:
  assumes inv: "seats_ok (who r) (rm_guard r)" "epochs_ok (who r) (rm_guard r) adm" "deltas_ok (who r) (rm_guard r) ds" "rx_ok ds (rm_roster_rx r)"
    and "vacated oc r d r'"
  shows "seats_ok (who r') (rm_guard r')" "epochs_ok (who r') (rm_guard r') adm" "deltas_ok (who r') (rm_guard r') (ds @ [d])"
    "rx_ok (ds @ [d]) (rm_roster_rx r')"
proof -
  obtain i pk idx e v where oc: "oc = (i, pk, idx, e, v)" by (cases oc)
  then have v: "(i, pk, idx, e, v) \<in> set (who r)" "who r' = filter (\<lambda>x. fst x \<noteq> i) (who r)"
      "\<exists>b. rm_guard r' = (rm_guard r)\<lparr>active_indices := active_indices (rm_guard r) - {idx},
          roster_revision := wrapping_revision (roster_revision (rm_guard r)), ended := b\<rparr>"
      "d = \<lparr>rd_revision = wrapping_revision (roster_revision (rm_guard r)), rd_joined = None,
            rd_left = Some \<lparr>rp_pubkey = pk, rp_peer_index = idx, rp_epoch = e\<rparr>\<rparr>"
      "rm_roster_rx r' = map (brx_send ROSTER_CHANNEL_CAPACITY d) (rm_roster_rx r)"
    using assms(5) by (simp_all add: vacated_def)
  have dist: "distinct (map fst (who r))" "distinct (map oc_index (who r))" using inv(1) by (simp_all add: seats_ok_def)
  have other: "fst x \<noteq> i \<longleftrightarrow> oc_index x \<noteq> idx" if "x \<in> set (who r)" for x
  proof -
    have inj: "inj_on fst (set (who r))" "inj_on oc_index (set (who r))" using dist by (simp_all add: distinct_map)
    have oc': "fst (i, pk, idx, e, v) = i" "oc_index (i, pk, idx, e, v) = idx" by (simp_all add: oc_index_def)
    show ?thesis using inj_onD[OF inj(1) _ that v(1)] inj_onD[OF inj(2) _ that v(1)] oc' by metis
  qed
  have "active_indices (rm_guard r) - {idx} = oc_index ` set (filter (\<lambda>x. fst x \<noteq> i) (who r))"
  proof -
    have "{x \<in> set (who r). fst x \<noteq> i} = {x \<in> set (who r). oc_index x \<noteq> idx}" using other by blast
    then show ?thesis using inv(1) unfolding seats_ok_def by (simp only: set_filter) blast
  qed
  then show "seats_ok (who r') (rm_guard r')"
    using inv(1) v(2,3) by (auto simp: seats_ok_def distinct_map_filter le_trans[OF length_filter_le])
  show "epochs_ok (who r') (rm_guard r') adm" using inv(2) v(2,3) by (auto simp: epochs_ok_def next_epoch_def)
  show "deltas_ok (who r') (rm_guard r') (ds @ [d])"
    using inv(3) by (rule deltas_snoc) (use v view_filter[OF dist v(1)] in \<open>auto simp: apply_delta_def\<close>)
  show "rx_ok (ds @ [d]) (rm_roster_rx r')" unfolding v(5) by (rule rx_send_ok[OF inv(4)])
qed

lemma who_map: "(\<And>x. occupant_of (f x) = occupant_of x) \<Longrightarrow> who (r\<lparr>rm_peers := map f (rm_peers r)\<rparr>) = who r"
  by (simp add: who_def)

lemma brx_recv_queue: "brx_recv rx = Some (m, rx') \<Longrightarrow> \<exists>a. brx_queue rx' = drop a (brx_queue rx)"
  by (auto simp: brx_recv_def split: if_splits list.splits intro: exI[of _ 0] exI[of _ 1])

text \<open>Operations that only move frames and messages.\<close>
lemma quiet_ops:
  assumes "op_admission op r = None" "op_removal op r = None" "seats_ok (who r) (rm_guard r)" "op_fresh op r"
  shows "who (room_exec op r) = who r" "\<exists>b. rm_guard (room_exec op r) = (rm_guard r)\<lparr>ended := b\<rparr>"
    "rx_ok ds (rm_roster_rx r) \<Longrightarrow> rx_ok ds (rm_roster_rx (room_exec op r))"
    "op \<noteq> Op_Recv n \<Longrightarrow> n < length (rm_roster_rx r) \<Longrightarrow>
      n < length (rm_roster_rx (room_exec op r)) \<and> rm_roster_rx (room_exec op r) ! n = rm_roster_rx r ! n"
proof -
  have same: "\<exists>b. g = g\<lparr>ended := b\<rparr>" for g :: admission_guard by (rule exI[of _ "ended g"]) simp
  have "who (room_exec op r) = who r \<and> (\<exists>b. rm_guard (room_exec op r) = (rm_guard r)\<lparr>ended := b\<rparr>)
      \<and> (rx_ok ds (rm_roster_rx r) \<longrightarrow> rx_ok ds (rm_roster_rx (room_exec op r)))
      \<and> (op \<noteq> Op_Recv n \<longrightarrow> n < length (rm_roster_rx r) \<longrightarrow>
           n < length (rm_roster_rx (room_exec op r)) \<and> rm_roster_rx (room_exec op r) ! n = rm_roster_rx r ! n)"
  proof (cases op)
    case (Op_Add i pk v)
    with assms have "i \<notin> fst ` set (rm_peers r)" by simp
    from add_peer_cases[OF assms(3) this, of pk v] show ?thesis using assms(1) Op_Add same by cases auto
  next
    case (Op_Add_At i pk v idx)
    with assms have "i \<notin> fst ` set (rm_peers r)" by simp
    from add_peer_at_index_cases[OF assms(3) this, of pk v idx] show ?thesis using assms(1) Op_Add_At same by cases auto
  next
    case (Op_Remove i)
    from remove_peer_cases[of i r] show ?thesis using assms(2) Op_Remove same by cases auto
  next
    case (Op_Leave i)
    from remove_peer_cases[of i r] show ?thesis using assms(2) Op_Leave same by cases auto
  next
    case Op_Mark
    then show ?thesis by (auto simp: mark_ended_def who_def)
  next
    case Op_Clear
    then show ?thesis by (auto simp: clear_ended_def who_def)
  next
    case (Op_Frame i b)
    then show ?thesis using same
      by (auto simp: broadcast_frame_def occupant_of_def send_audio_def intro!: who_map split: option.splits)
  next
    case (Op_Deliver a b)
    then show ?thesis using same by (auto simp: deliver_prefixed_def occupant_of_def send_audio_def intro!: who_map)
  next
    case (Op_Control j)
    then show ?thesis using same
      by (auto simp: broadcast_control_def occupant_of_def send_ctrl_def intro!: who_map split: prod.splits bool.splits)
  next
    case (Op_Channels f g)
    then show ?thesis using same by (auto simp: occupant_of_def intro!: who_map)
  next
    case Op_Subscribe
    have "\<exists>a. [] = drop a ds" by (rule exI[of _ "length ds"]) simp
    then show ?thesis using Op_Subscribe same by (auto simp: subscribe_roster_def who_def rx_ok_def nth_append)
  next
    case (Op_Recv k)
    have "rx_ok ds (rm_roster_rx r) \<Longrightarrow> rx_ok ds ((rm_roster_rx r)[k := rx])"
      if "brx_recv (rm_roster_rx r ! k) = Some (m, rx)" "k < length (rm_roster_rx r)" for m rx
      using brx_recv_queue[OF that(1)] that(2) set_update_subset_insert[of "rm_roster_rx r" k rx] nth_mem[OF that(2)]
      unfolding rx_ok_def by (metis drop_drop insert_iff subsetD)
    then show ?thesis using Op_Recv same by (auto simp: who_def split: option.splits)
  qed
  then show "who (room_exec op r) = who r" "\<exists>b. rm_guard (room_exec op r) = (rm_guard r)\<lparr>ended := b\<rparr>"
    "rx_ok ds (rm_roster_rx r) \<Longrightarrow> rx_ok ds (rm_roster_rx (room_exec op r))"
    "op \<noteq> Op_Recv n \<Longrightarrow> n < length (rm_roster_rx r) \<Longrightarrow>
      n < length (rm_roster_rx (room_exec op r)) \<and> rm_roster_rx (room_exec op r) ! n = rm_roster_rx r ! n" by blast+
qed

text \<open>Every operation seats somebody, lets somebody leave or keeps the roster.\<close>
lemma room_op_cases:
  assumes "seats_ok (who r) (rm_guard r)" "op_fresh op r"
  obtains (admission) i pk idx e n v c where "op_admission op r = Some (pk, idx, e, n)" "op_removal op r = None" "n = wrapping_revision (roster_revision (rm_guard r))"
      "i \<notin> fst ` set (rm_peers r)" "length (who r) < MAX_PEERS_PER_ROOM" "pinned_version (rm_guard r) = None \<or> pinned_version (rm_guard r) = Some v"
      "idx \<notin> active_indices (rm_guard r)" "c \<noteq> 255" "e = next_epoch (rm_guard r) idx"
      "seated (i, pk, idx, e, v) ((rm_guard r)\<lparr>next_candidate := c, active_indices := insert idx (active_indices (rm_guard r)),
         index_epochs := (index_epochs (rm_guard r))(idx \<mapsto> e + 1), pinned_version := Some v,
         roster_revision := wrapping_revision (roster_revision (rm_guard r))\<rparr>) r (room_exec op r)"
    | (removal) oc d where "op_admission op r = None" "op_removal op r = Some d" "vacated oc r d (room_exec op r)"
    | (quiet) "op_admission op r = None" "op_removal op r = None"
proof (cases op)
  case (Op_Add i pk v)
  with assms have fresh: "i \<notin> fst ` set (rm_peers r)" by simp
  show thesis using add_peer_cases[OF assms(1) fresh, of pk v]
  proof cases
    case (4 idx e c)
    show thesis by (rule admission[of pk idx e _ i v c]) (use Op_Add fresh 4 in simp_all)
  qed (use Op_Add in \<open>auto intro: quiet\<close>)
next
  case (Op_Add_At i pk v idx)
  with assms have fresh: "i \<notin> fst ` set (rm_peers r)" by simp
  show thesis using add_peer_at_index_cases[OF assms(1) fresh, of pk v idx]
  proof cases
    case (2 e c)
    show thesis by (rule admission[of pk idx e _ i v c]) (use Op_Add_At fresh 2 in simp_all)
  qed (use Op_Add_At in \<open>auto intro: quiet\<close>)
next
  case (Op_Remove i)
  from remove_peer_cases[of i r] show thesis using Op_Remove removal quiet by cases auto
next
  case (Op_Leave i)
  from remove_peer_cases[of i r] show thesis using Op_Leave removal quiet by cases auto
qed (use quiet in simp_all)

lemma room_inv_after:
  assumes "room_inv s" "op_fresh op (rst_room s)"
  shows "room_inv (room_after op s)"
proof -
  let ?r = "rst_room s" and ?r' = "room_exec op (rst_room s)"
  have inv: "seats_ok (who ?r) (rm_guard ?r)" "epochs_ok (who ?r) (rm_guard ?r) (rst_admissions s)"
      "deltas_ok (who ?r) (rm_guard ?r) (rst_deltas s)" "rx_ok (rst_deltas s) (rm_roster_rx ?r)"
    using assms(1) by (simp_all add: room_inv_def)
  show ?thesis using room_op_cases[OF inv(1) assms(2)]
  proof cases
    case (1 i pk idx e n v c)
    note keeps = seated_keeps[OF inv 1(10) refl 1(4-9) refl]
    show ?thesis using keeps unfolding keeps(5)[symmetric] by (simp add: room_inv_def room_after_def 1(1-3))
  next
    case (2 oc d)
    show ?thesis using vacated_keeps[OF inv 2(3)] by (simp add: room_inv_def room_after_def 2(1,2))
  next
    case 3
    obtain b where g: "rm_guard ?r' = (rm_guard ?r)\<lparr>ended := b\<rparr>" using quiet_ops(2)[OF 3 inv(1) assms(2)] by blast
    show ?thesis using inv quiet_ops(1,3)[OF 3 inv(1) assms(2)]
      by (simp add: room_inv_def room_after_def 3 g seats_ok_def epochs_ok_def deltas_ok_def next_epoch_def)
  qed
qed

text \<open>A receiver gets the deltas of an operation and nothing else, unless it takes from its own queue.\<close>
lemma room_after_rx:
  assumes "room_inv s" "op_fresh op (rst_room s)" "op \<noteq> Op_Recv n" "n < length (rm_roster_rx (rst_room s))"
  obtains ds where "rst_deltas (room_after op s) = rst_deltas s @ ds" "n < length (rm_roster_rx (rst_room (room_after op s)))"
    "rm_roster_rx (rst_room (room_after op s)) ! n = fold (brx_send ROSTER_CHANNEL_CAPACITY) ds (rm_roster_rx (rst_room s) ! n)"
    "length ds \<le> 1"
proof -
  have seats: "seats_ok (who (rst_room s)) (rm_guard (rst_room s))" using assms(1) by (simp add: room_inv_def)
  show thesis using room_op_cases[OF seats assms(2)]
  proof cases
    case (1 i pk idx e k v c)
    show thesis by (rule that[of "[joined_delta (pk, idx, e, k)]"]) (use 1 assms(4) in \<open>simp_all add: room_after_def seated_def\<close>)
  next
    case (2 oc d)
    show thesis by (rule that[of "[d]"]) (use 2 assms(4) in \<open>auto simp: room_after_def vacated_def split: prod.splits\<close>)
  next
    case 3
    show thesis by (rule that[of "[]"]) (use 3 quiet_ops(4)[OF 3 seats assms(2-4)] in \<open>simp_all add: room_after_def\<close>)
  qed
qed

interpretation rooms: invariant_system room_start room_step room_inv
proof
  fix s :: room_state assume "room_start s"
  then show "room_inv s"
    by (auto simp: room_start_def room_inv_def room_new_def guard_new_def who_def seats_ok_def epochs_ok_def deltas_ok_def rx_ok_def
        next_epoch_def occupants_def view_of_def replay_def)
qed (auto simp: room_step_simps intro: room_inv_after)

section \<open>Admission\<close>

text \<open>
  C12: A newcomer gets exactly the answer the state of the room asks for, in every reachable room: Ended when the
  room is ended, otherwise Full when all seats are taken, otherwise a mismatch when the room is pinned to another
  version, and otherwise a seat. The seat has an index nobody in the room has, and its epoch counts, modulo 256, how
  often the index was handed out before; the search for an index never fails. A refusal changes nothing.
\<close>
theorem room_admission_exact:
  assumes "reachable room_start room_step s" "r = rst_room s" "i \<notin> fst ` set (rm_peers r)"
    and "add_peer i pk v r = (result, r')"
  shows "case result of
      Inl Room_Ended \<Rightarrow> ended (rm_guard r) \<and> r' = r
    | Inl Room_Full \<Rightarrow> \<not> ended (rm_guard r) \<and> length (rm_peers r) = 25 \<and> r' = r
    | Inl (VersionMismatch pinned requested) \<Rightarrow>
        \<not> ended (rm_guard r) \<and> length (rm_peers r) < 25 \<and> pinned_version (rm_guard r) = Some pinned
        \<and> requested = v \<and> pinned \<noteq> v \<and> r' = r
    | Inr (idx, epoch, revision) \<Rightarrow>
        \<not> ended (rm_guard r) \<and> length (rm_peers r) < 25
        \<and> (\<forall>(j, p) \<in> set (rm_peers r). ap_protocol_version p = v) \<and> pinned_version (rm_guard r') = Some v
        \<and> idx < 255 \<and> (\<forall>(j, p) \<in> set (rm_peers r). ap_peer_index p \<noteq> idx)
        \<and> epoch = of_nat (occupants idx (rst_admissions s)) \<and> who r' = who r @ [(i, pk, idx, epoch, v)]"
proof -
  have inv: "room_inv s" using rooms.reachable_inv assms(1) .
  then have seats: "seats_ok (who r) (rm_guard r)" "epochs_ok (who r) (rm_guard r) (rst_admissions s)"
    using assms(2) by (simp_all add: room_inv_def)
  have members: "pinned_version (rm_guard r) = Some (ap_protocol_version p)" "ap_peer_index p \<in> active_indices (rm_guard r)"
    if "(j, p) \<in> set (rm_peers r)" for j p
    using that seats(1) by (force simp: seats_ok_def who_def occupant_of_def oc_index_def)+
  have lt: "idx < 255" if "idx \<noteq> 255" for idx :: u8
  proof -
    have "unat idx < 2 ^ LENGTH(8)" by (rule unsigned_less)
    then show ?thesis using that by (simp add: word_less_nat_alt word_unat_eq_iff)
  qed
  show ?thesis using add_peer_cases[OF seats(1) assms(3), of pk v]
  proof cases
    case (4 idx e c)
    then have "e = of_nat (occupants idx (rst_admissions s))" using seats(2) by (simp add: epochs_ok_def)
    moreover have "\<forall>(j, p) \<in> set (rm_peers r). ap_protocol_version p = v" using 4(3) members(1) by fastforce
    moreover have "\<forall>(j, p) \<in> set (rm_peers r). ap_peer_index p \<noteq> idx" using 4(4) members(2) by blast
    moreover have "who r' = who r @ [(i, pk, idx, e, v)]" "pinned_version (rm_guard r') = Some v" using 4(9) assms(4) by (simp_all add: seated_def)
    moreover have "result = Ok (idx, e, wrapping_revision (roster_revision (rm_guard r)))" using 4(8) assms(4) by simp
    ultimately show ?thesis using 4(1,2) lt[OF 4(5)] by (simp add: MAX_PEERS_PER_ROOM_def who_length)
  qed (use assms(4) in \<open>auto simp: MAX_PEERS_PER_ROOM_def who_length\<close>)
qed

text \<open>
  An identity on the wire, an index with its epoch, stands for two occupants of a room only when the index
  was handed out a multiple of 256 times from the one to the other.
\<close>
theorem identity_reuse:
  assumes "reachable room_start room_step s" "i < j" "j < length (rst_admissions s)"
    and "rst_admissions s ! i = rst_admissions s ! j"
  shows "\<exists>n > 0. occupants (fst (rst_admissions s ! i)) (take (j - i) (drop i (rst_admissions s))) = 256 * n"
proof -
  let ?adm = "rst_admissions s" and ?idx = "fst (rst_admissions s ! i)"
  let ?k = "occupants ?idx (take (j - i) (drop i ?adm))"
  have ok: "\<forall>k < length ?adm. snd (?adm ! k) = of_nat (occupants (fst (?adm ! k)) (take k ?adm))"
    using rooms.reachable_inv[OF assms(1)] by (simp add: room_inv_def epochs_ok_def)
  have "take j ?adm = take i ?adm @ take (j - i) (drop i ?adm)" using assms(2) take_add[of i "j - i" ?adm] by simp
  then have split: "occupants ?idx (take j ?adm) = occupants ?idx (take i ?adm) + ?k" by (simp add: occupants_def)
  have "(of_nat (occupants ?idx (take i ?adm)) :: u8) = of_nat (occupants ?idx (take j ?adm))"
    using ok[rule_format, of i] ok[rule_format, of j] assms(2-4) by simp
  then have "(of_nat ?k :: u8) = 0" by (simp add: split)
  then have "256 dvd ?k" by (simp add: word_of_nat_eq_0_iff)
  moreover have "drop i ?adm = ?adm ! i # drop (Suc i) ?adm" using assms(2,3) Cons_nth_drop_Suc[of i ?adm] by simp
  then have "?k > 0" using assms(2) by (cases "j - i") (simp_all add: occupants_def)
  ultimately show ?thesis by (auto elim!: dvdE)
qed

section \<open>Media across pods\<close>

text \<open>
  The datagrams the sinks of an owner's room send to a pod: one sink for each remote peer (\<^verbatim>\<open>sinks\<close> says for which
  pod a peer was registered), each with the frames of its own audio channel.
\<close>
definition sink_output :: "fenced_header \<Rightarrow> (peer_id \<rightharpoonup> runtime_id) \<Rightarrow> runtime_id \<Rightarrow> room \<Rightarrow> mesh_datagram list" where
  "sink_output fenced sinks pod r =
     concat (map (\<lambda>(i, p). if sinks i = Some pod then remote_peer_sink fenced 0 (mp_queue (ap_audio_tx p)) else []) (rm_peers r))"

fun on_media_datagrams :: "mesh_datagram list \<Rightarrow> mesh_audio_router \<Rightarrow> mesh_audio_router" where
  "on_media_datagrams [] m = m"
| "on_media_datagrams (d # ds) m = on_media_datagrams ds (snd (on_media_datagram d m))"

definition remote_peers :: "(peer_id \<rightharpoonup> runtime_id) \<Rightarrow> runtime_id \<Rightarrow> room \<Rightarrow> nat" where
  "remote_peers sinks pod r = length (filter (\<lambda>(i, _). sinks i = Some pod) (rm_peers r))"

definition idle_audio :: "room \<Rightarrow> bool" where
  "idle_audio r \<longleftrightarrow> (\<forall>(i, p) \<in> set (rm_peers r). ap_audio_tx p = mpsc_channel AUDIO_CHANNEL_CAPACITY)"

lemma byte_index: "word_of_nat (of_char (byte_of w)) = w"
proof -
  have "unat w < 2 ^ LENGTH(8)" by (rule unsigned_less)
  then show ?thesis by (simp add: byte_of_def)
qed

lemma broadcast_output:
  assumes "idle_audio r" "map_of (rm_peers r) s = Some p" "sinks s = None"
  shows "sink_output fenced sinks pod (broadcast_frame s frame r) = replicate (remote_peers sinks pod r)
    \<lparr>dg_fenced = fenced, dg_seq = 0, dg_payload = media_prefix (ap_peer_index p) (ap_epoch p) (ap_protocol_version p) @ frame\<rparr>"
proof -
  let ?b = "media_prefix (ap_peer_index p) (ap_epoch p) (ap_protocol_version p) @ frame"
  have "concat (map (\<lambda>(i, q). if sinks i = Some pod then remote_peer_sink fenced 0 (mp_queue (ap_audio_tx q)) else [])
        (map (\<lambda>(i, q). if i = s then (i, q) else (i, send_audio ?b q)) ps))
      = replicate (length (filter (\<lambda>(i, _). sinks i = Some pod) ps)) \<lparr>dg_fenced = fenced, dg_seq = 0, dg_payload = ?b\<rparr>"
    if "\<forall>(i, q) \<in> set ps. ap_audio_tx q = mpsc_channel AUDIO_CHANNEL_CAPACITY" for ps
    using that by (induction ps) (auto simp: send_audio_def try_send_def mpsc_channel_def AUDIO_CHANNEL_CAPACITY_def assms(3))
  then show ?thesis using assms(1,2) by (simp add: sink_output_def broadcast_frame_def remote_peers_def idle_audio_def)
qed

lemma send_audio_times:
  assumes "ap_audio_tx p = mpsc_channel c" "n \<le> c"
  shows "ap_audio_tx ((send_audio b ^^ n) p) = (mpsc_channel c)\<lparr>mp_queue := replicate n b\<rparr> \<and> ap_peer_index ((send_audio b ^^ n) p) = ap_peer_index p"
  using assms(2)
proof (induction n)
  case (Suc n)
  then show ?case by (simp add: send_audio_def try_send_def mpsc_channel_def replicate_append_same[symmetric])
qed (simp add: assms(1) mpsc_channel_def)

lemma deliver_times:
  "rm_peers ((deliver_prefixed idx b ^^ n) r) =
     map (\<lambda>(i, p). if ap_peer_index p = idx then (i, p) else (i, (send_audio b ^^ n) p)) (rm_peers r)"
proof (induction n)
  case (Suc n)
  have "ap_peer_index ((send_audio b ^^ m) p) = ap_peer_index p" for m p by (induction m) (simp_all add: send_audio_def)
  moreover have "rm_peers (deliver_prefixed idx b x) =
      map (\<lambda>(i, p). if ap_peer_index p = idx then (i, p) else (i, send_audio b p)) (rm_peers x)" for x
    by (simp add: deliver_prefixed_def)
  ultimately show ?case by (auto simp: Suc)
qed (auto intro!: map_idI[symmetric])

lemma update_room_twice: "update_room k f (update_room k g rs) = update_room k (f \<circ> g) rs"
  by (auto simp: update_room_def)

lemma update_room_key: "get_unambiguous_by_channel ch (update_room k f rs) = get_unambiguous_by_channel ch rs"
proof -
  have "map fst (filter (\<lambda>(j, _). snd j = ch) (update_room k f rs)) = map fst (filter (\<lambda>(j, _). snd j = ch) rs)"
    by (induction rs) (auto simp: update_room_def split: if_splits)
  then show ?thesis
    by (auto simp: get_unambiguous_by_channel_def split: list.splits)
qed

lemma on_media_datagrams_same:
  assumes "get_unambiguous_by_channel (fh_session_id fenced) (mr_rooms m) = Some k"
    and "\<forall>known. mr_fence m (fh_session_id fenced) = Some known \<longrightarrow> known \<le> fh_generation fenced"
  shows "mr_rooms (on_media_datagrams (replicate n \<lparr>dg_fenced = fenced, dg_seq = seq, dg_payload = byte_of idx # b\<rparr>) m) =
    update_room k (deliver_prefixed idx (byte_of idx # b) ^^ n) (mr_rooms m)"
  using assms
proof (induction n arbitrary: m)
  case 0
  then show ?case by (auto simp: update_room_def intro!: map_idI[symmetric])
next
  case (Suc n)
  let ?d = "\<lparr>dg_fenced = fenced, dg_seq = seq, dg_payload = byte_of idx # b\<rparr>" and ?f = "deliver_prefixed idx (byte_of idx # b)"
  let ?m = "snd (on_media_datagram ?d m)"
  have m: "mr_rooms ?m = update_room k ?f (mr_rooms m)" "mr_fence ?m (fh_session_id fenced) = Some (fh_generation fenced)"
    using Suc.prems by (auto simp: on_media_datagram_def floor_check_def byte_index Let_def split: option.splits)
  then have "mr_rooms (on_media_datagrams (replicate n ?d) ?m) = update_room k (?f ^^ n) (mr_rooms ?m)"
    using Suc.prems(1) by (intro Suc.IH) (simp_all add: update_room_key)
  then show ?case by (simp add: m update_room_twice funpow_Suc_right o_def del: funpow.simps)
qed

text \<open>
  C13: How often a frame is heard across pods. A frame spoken on the owner's pod reaches a pod once for every client
  of that pod, because each client has its own sink, and the pod hands every datagram to all its clients: so each of
  the n clients of one pod gets the frame n times, up to the capacity of its channel, where a client on the
  owner's pod gets it once.
\<close>
theorem media_copies_exact:
  assumes "idle_audio r" "map_of (rm_peers r) s = Some p" "sinks s = None"
    and "get_unambiguous_by_channel (fh_session_id fenced) (mr_rooms m) = Some k" "(k, mirror) \<in> set (mr_rooms m)"
    and "idle_audio mirror" "\<forall>(i, q) \<in> set (rm_peers mirror). ap_peer_index q \<noteq> ap_peer_index p"
    and "\<forall>known. mr_fence m (fh_session_id fenced) = Some known \<longrightarrow> known \<le> fh_generation fenced"
    and "remote_peers sinks pod r \<le> AUDIO_CHANNEL_CAPACITY"
    and "m' = on_media_datagrams (sink_output fenced sinks pod (broadcast_frame s frame r)) m"
  shows "\<exists>mirror'. (k, mirror') \<in> set (mr_rooms m') \<and> map fst (rm_peers mirror') = map fst (rm_peers mirror)
    \<and> (\<forall>(i, q) \<in> set (rm_peers mirror'). mp_queue (ap_audio_tx q) =
         replicate (remote_peers sinks pod r) (media_prefix (ap_peer_index p) (ap_epoch p) (ap_protocol_version p) @ frame))
    \<and> (\<forall>(i, q) \<in> set (rm_peers (broadcast_frame s frame r)). i \<noteq> s \<longrightarrow> mp_queue (ap_audio_tx q) =
         [media_prefix (ap_peer_index p) (ap_epoch p) (ap_protocol_version p) @ frame])"
proof -
  obtain rest where rest: "media_prefix (ap_peer_index p) (ap_epoch p) (ap_protocol_version p) @ frame = byte_of (ap_peer_index p) # rest"
    by (simp add: media_prefix_def)
  let ?n = "remote_peers sinks pod r" and ?f = "deliver_prefixed (ap_peer_index p) (byte_of (ap_peer_index p) # rest)"
  have "mr_rooms m' = update_room k (?f ^^ ?n) (mr_rooms m)"
    unfolding assms(10) broadcast_output[of r s p sinks, OF assms(1-3)] rest by (rule on_media_datagrams_same[OF assms(4,8)])
  then have "(k, (?f ^^ ?n) mirror) \<in> set (mr_rooms m')" using assms(5) by (force simp: update_room_def)
  moreover have "map fst (rm_peers ((?f ^^ ?n) mirror)) = map fst (rm_peers mirror)" by (auto simp: deliver_times)
  moreover have "mp_queue (ap_audio_tx q) = replicate ?n (byte_of (ap_peer_index p) # rest)" if "(i, q) \<in> set (rm_peers ((?f ^^ ?n) mirror))" for i q
    using that assms(6,7) send_audio_times[OF _ assms(9)] by (fastforce simp: deliver_times idle_audio_def split: if_splits)
  moreover have "\<forall>(i, q) \<in> set (rm_peers (broadcast_frame s frame r)). i \<noteq> s \<longrightarrow> mp_queue (ap_audio_tx q) =
         [media_prefix (ap_peer_index p) (ap_epoch p) (ap_protocol_version p) @ frame]"
    using assms(1,2)
    by (auto simp: broadcast_frame_def idle_audio_def send_audio_def try_send_def mpsc_channel_def AUDIO_CHANNEL_CAPACITY_def split: if_splits)
  ultimately show ?thesis unfolding rest by blast
qed

section \<open>Concrete rooms\<close>

lemma alloc_first:
  assumes "next_candidate g \<notin> active_indices g"
  shows "alloc g = (Some (next_candidate g, next_epoch g (next_candidate g)),
    g\<lparr>next_candidate := next_index (next_candidate g), active_indices := insert (next_candidate g) (active_indices g),
      index_epochs := (index_epochs g)(next_candidate g \<mapsto> next_epoch g (next_candidate g) + 1)\<rparr>)"
  unfolding alloc_def using alloc_loop.simps(2)[of 254 g] assms
  by (simp add: next_epoch_for_def next_epoch_def Let_def)

lemma sample_admission: "fst (add_peer ''p'' ''alice'' 3 (room_new ''C'' ''1'')) = Ok (0, 0, 1)"
  by (simp add: add_peer_def room_new_def guard_new_def alloc_first MAX_PEERS_PER_ROOM_def version_check_def next_epoch_def
      admit_def wrapping_revision_def Let_def)

theorem room_admission_exact_witness:
  "fst (add_peer ''p'' ''alice'' 3 (room_new ''C'' ''1'')) = Ok (0, 0, 1)
   \<and> who (snd (add_peer ''p'' ''alice'' 3 (room_new ''C'' ''1''))) = [(''p'', ''alice'', 0, 0, 3)]"
proof -
  let ?s = "\<lparr>rst_room = room_new ''C'' ''1'', rst_admissions = [], rst_deltas = []\<rparr>"
  have start: "reachable room_start room_step ?s" by (rule reach_start) (auto simp: room_start_def)
  have "add_peer ''p'' ''alice'' 3 (room_new ''C'' ''1'') = (Ok (0, 0, 1), snd (add_peer ''p'' ''alice'' 3 (room_new ''C'' ''1'')))"
    using sample_admission by (simp add: prod_eq_iff)
  from room_admission_exact[OF start _ _ this] show ?thesis
    using sample_admission by (simp add: room_new_def who_def)
qed

definition sample_peer :: "u8 \<Rightarrow> audio_peer" where
  "sample_peer idx = \<lparr>ap_pubkey = [], ap_audio_tx = mpsc_channel AUDIO_CHANNEL_CAPACITY, ap_ctrl_tx = mpsc_channel CTRL_CHANNEL_CAPACITY,
     ap_peer_index = idx, ap_epoch = 0, ap_protocol_version = 3\<rparr>"

definition sample_room :: "(peer_id \<times> audio_peer) list \<Rightarrow> room" where
  "sample_room ps = (room_new ''C'' ''1'')\<lparr>rm_peers := ps\<rparr>"

text \<open>A speaker on the owner's pod and two listeners on one other pod: each listener gets every frame twice.\<close>
theorem media_copies_exact_witness:
  "\<exists>mirror'. ((''C'', ''1''), mirror') \<in> set (mr_rooms (on_media_datagrams
       (sink_output \<lparr>fh_session_id = ''1'', fh_generation = 4, fh_owner_runtime_id = ''o''\<rparr> [''a'' \<mapsto> ''P'', ''b'' \<mapsto> ''P''] ''P''
         (broadcast_frame ''s'' ''x'' (sample_room [(''s'', sample_peer 0), (''a'', sample_peer 1), (''b'', sample_peer 2)])))
       \<lparr>mr_rooms = [((''C'', ''1''), sample_room [(''u'', sample_peer 1), (''v'', sample_peer 2)])], mr_fence = Map.empty\<rparr>))
     \<and> map fst (rm_peers mirror') = [''u'', ''v'']
     \<and> (\<forall>(i, q) \<in> set (rm_peers mirror'). length (mp_queue (ap_audio_tx q)) = 2)"
proof -
  let ?r = "sample_room [(''s'', sample_peer 0), (''a'', sample_peer 1), (''b'', sample_peer 2)]"
  let ?mirror = "sample_room [(''u'', sample_peer 1), (''v'', sample_peer 2)]"
  let ?sinks = "[''a'' \<mapsto> ''P'', ''b'' \<mapsto> ''P''] :: peer_id \<rightharpoonup> runtime_id"
  let ?m = "\<lparr>mr_rooms = [((''C'', ''1''), ?mirror)], mr_fence = Map.empty\<rparr>"
  let ?fenced = "\<lparr>fh_session_id = ''1'', fh_generation = 4, fh_owner_runtime_id = ''o''\<rparr>"
  have n: "remote_peers ?sinks ''P'' ?r = 2" by (simp add: remote_peers_def sample_room_def)
  have idle: "idle_audio ?r" "idle_audio ?mirror" by (simp_all add: idle_audio_def sample_room_def sample_peer_def)
  have speaker: "map_of (rm_peers ?r) ''s'' = Some (sample_peer 0)" "?sinks ''s'' = None" by (simp_all add: sample_room_def)
  have pod: "get_unambiguous_by_channel (fh_session_id ?fenced) (mr_rooms ?m) = Some (''C'', ''1'')" "((''C'', ''1''), ?mirror) \<in> set (mr_rooms ?m)"
      "\<forall>known. mr_fence ?m (fh_session_id ?fenced) = Some known \<longrightarrow> known \<le> fh_generation ?fenced"
    by (simp_all add: get_unambiguous_by_channel_def)
  have others: "\<forall>(i, q) \<in> set (rm_peers ?mirror). ap_peer_index q \<noteq> ap_peer_index (sample_peer 0)"
    by (simp add: sample_room_def sample_peer_def)
  have cap: "remote_peers ?sinks ''P'' ?r \<le> AUDIO_CHANNEL_CAPACITY" by (simp add: n AUDIO_CHANNEL_CAPACITY_def)
  note media_copies_exact[OF idle(1) speaker pod(1,2) idle(2) others pod(3) cap refl, of "''x''"]
  then show ?thesis unfolding n by (fastforce simp: sample_room_def)
qed

end
