(* ===== verification/Session_Directory.thy ===== *)
theory Session_Directory
  imports Mesh_Wire Rust_Text
begin

text \<open>
  The fenced session directory of the relay tunnel (\<^verbatim>\<open>buzz-relay/src/tunnel/directory.rs\<close>): ownership
  leases in Redis with a generation counter that never expires, the scripts that acquire, renew and
  release a lease, and the check of a frame's fence. Redis commands and Lua functions have their
  documented effect; hexadecimal encoding and the text of a Lua number are parameters.
\<close>

section \<open>Redis keys with an expiry\<close>

type_synonym kv = "string \<rightharpoonup> string \<times> nat option"

definition kv_get :: "nat \<Rightarrow> kv \<Rightarrow> string \<Rightarrow> string option" where
  "kv_get now m k = (case m k of
     None \<Rightarrow> None
   | Some (v, None) \<Rightarrow> Some v
   | Some (v, Some t) \<Rightarrow> if now < t then Some v else None)"

text \<open>\<^verbatim>\<open>INCR\<close>: a missing key counts as zero; the value must be a number and the sum must fit in 64 signed bits.\<close>
definition kv_incr :: "nat \<Rightarrow> kv \<Rightarrow> string \<Rightarrow> (string, nat \<times> kv) result" where
  "kv_incr now m k = (case kv_get now m k of
     None \<Rightarrow> Ok (1, m(k \<mapsto> (nat_to_string 1, None)))
   | Some v \<Rightarrow> (case parse_u64 v of
       None \<Rightarrow> Err ''ERR value is not an integer or out of range''
     | Some n \<Rightarrow>
         if n + 1 < 2 ^ 63 then Ok (n + 1, m(k \<mapsto> (nat_to_string (n + 1), snd (the (m k)))))
         else Err ''ERR increment or decrement would overflow''))"

definition kv_pexpire :: "nat \<Rightarrow> kv \<Rightarrow> string \<Rightarrow> nat \<Rightarrow> kv" where
  "kv_pexpire now m k ttl = (case kv_get now m k of None \<Rightarrow> m | Some v \<Rightarrow> m(k \<mapsto> (v, Some (now + ttl))))"

section \<open>Leases\<close>

record session_lease =
  sl_community :: string
  sl_session :: string
  sl_owner :: runtime_id
  sl_generation :: nat
  sl_profile :: profile

datatype acquire_result = Acquired session_lease | Exists session_lease
datatype renew_result = Renewed session_lease | Renew_Lost "session_lease option" "nat option"
datatype release_result = Released session_lease | NotOwner "session_lease option" "nat option"

datatype directory_error =
    DE_Pool string
  | DE_Redis string
  | MalformedLease string string string
  | MalformedGeneration string string string
  | UnexpectedScriptStatus string
  | InvalidLeaseTtl
  | CommunityWriteFenced string

text \<open>\<^verbatim>\<open>hex::encode\<close>, \<^verbatim>\<open>hex::decode\<close>, Lua's \<^verbatim>\<open>tostring\<close> on a number, and the text of an error.\<close>
record dir_env =
  de_hex :: "bytes \<Rightarrow> string"
  de_unhex :: "string \<Rightarrow> bytes option"
  de_lua_tostring :: "nat \<Rightarrow> string"
  de_error_text :: "directory_error \<Rightarrow> string"
  de_lease_ttl_ms :: nat

definition lease_key :: "string \<Rightarrow> string \<Rightarrow> string" where
  "lease_key community session = ''buzz:'' @ community @ '':tunnel:'' @ session @ '':lease''"

definition generation_key :: "string \<Rightarrow> string \<Rightarrow> string" where
  "generation_key community session = ''buzz:'' @ community @ '':tunnel:'' @ session @ '':generation''"

fun profile_as_wire_str :: "profile \<Rightarrow> string" where
  "profile_as_wire_str ReliableStream = ''reliable-stream''"
| "profile_as_wire_str RealtimeMedia = ''realtime-media''"
| "profile_as_wire_str HuddleControl = ''huddle-control''"

definition profile_from_wire :: "string \<Rightarrow> profile option" where
  "profile_from_wire v =
     (if v = ''reliable-stream'' then Some ReliableStream
      else if v = ''realtime-media'' then Some RealtimeMedia
      else if v = ''huddle-control'' then Some HuddleControl
      else None)"

definition parse_lease :: "dir_env \<Rightarrow> string \<Rightarrow> string \<Rightarrow> string \<Rightarrow> (directory_error, session_lease) result" where
  "parse_lease E community session v =
     (let malformed = Err (MalformedLease community session v)
      in case split_on CHR ''|'' v of
           owner_hex # gen_text # profile_text # rest \<Rightarrow>
             (case parse_u64 gen_text of
                None \<Rightarrow> malformed
              | Some generation \<Rightarrow>
                  if generation = 0 then malformed
                  else (case profile_from_wire profile_text of
                      None \<Rightarrow> malformed
                    | Some prof \<Rightarrow>
                        if rest \<noteq> [] then malformed
                        else (case de_unhex E owner_hex of
                            None \<Rightarrow> malformed
                          | Some owner \<Rightarrow>
                              if length owner \<noteq> 32 then malformed
                              else Ok \<lparr>sl_community = community, sl_session = session, sl_owner = owner,
                                       sl_generation = generation, sl_profile = prof\<rparr>)))
         | _ \<Rightarrow> malformed)"

definition parse_optional_lease ::
  "dir_env \<Rightarrow> string \<Rightarrow> string \<Rightarrow> string \<Rightarrow> (directory_error, session_lease option) result" where
  "parse_optional_lease E community session v =
     (if v = [] then Ok None else and_then (parse_lease E community session v) (\<lambda>l. Ok (Some l)))"

definition parse_optional_generation :: "string \<Rightarrow> string \<Rightarrow> string \<Rightarrow> (directory_error, nat option) result" where
  "parse_optional_generation community session v =
     (if v = [] then Ok None
      else (case parse_u64 v of
          None \<Rightarrow> Err (MalformedGeneration community session v)
        | Some g \<Rightarrow> if g = 0 then Err (MalformedGeneration community session v) else Ok (Some g)))"

definition ttl_ms :: "nat \<Rightarrow> (directory_error, nat) result" where
  "ttl_ms ttl = (if 0 < ttl \<and> ttl < 2 ^ 63 then Ok ttl else Err InvalidLeaseTtl)"

section \<open>Scripts\<close>

definition or_empty :: "string option \<Rightarrow> string" where
  "or_empty v = (case v of Some x \<Rightarrow> x | None \<Rightarrow> [])"

text \<open>The Lua pattern of three non-empty fields.\<close>
definition match_fields :: "string \<Rightarrow> (string \<times> string \<times> string) option" where
  "match_fields v = (case split_on CHR ''|'' v of
     [a, b, c] \<Rightarrow> if a \<noteq> [] \<and> b \<noteq> [] \<and> c \<noteq> [] then Some (a, b, c) else None
   | _ \<Rightarrow> None)"

type_synonym script_reply = "(string, string \<times> string \<times> string) result \<times> kv"

definition acquire_script :: "dir_env \<Rightarrow> nat \<Rightarrow> string \<Rightarrow> string \<Rightarrow> string \<Rightarrow> string \<Rightarrow> nat \<Rightarrow> kv \<Rightarrow> script_reply" where
  "acquire_script E now lk gk owner prof ttl m = (case kv_get now m lk of
     Some current \<Rightarrow> (Ok (''exists'', current, or_empty (kv_get now m gk)), m)
   | None \<Rightarrow> (case kv_incr now m gk of
       Err e \<Rightarrow> (Err e, m)
     | Ok (generation, m1) \<Rightarrow>
         (let v = owner @ ''|'' @ de_lua_tostring E generation @ ''|'' @ prof
          in (Ok (''acquired'', v, de_lua_tostring E generation), m1(lk \<mapsto> (v, Some (now + ttl)))))))"

definition renew_script :: "nat \<Rightarrow> string \<Rightarrow> string \<Rightarrow> string \<Rightarrow> string \<Rightarrow> nat \<Rightarrow> kv \<Rightarrow> script_reply" where
  "renew_script now lk gk owner generation ttl m = (case kv_get now m lk of
     None \<Rightarrow> (Ok (''missing'', [], or_empty (kv_get now m gk)), m)
   | Some current \<Rightarrow> (case match_fields current of
       Some (o', g, _) \<Rightarrow>
         (let known = (case kv_get now m gk of Some x \<Rightarrow> x | None \<Rightarrow> g)
          in if o' = owner \<and> g = generation
             then (Ok (''renewed'', current, known), kv_pexpire now m lk ttl)
             else (Ok (''lost'', current, known), m))
     | None \<Rightarrow> (Ok (''lost'', current, or_empty (kv_get now m gk)), m)))"

definition release_script :: "nat \<Rightarrow> string \<Rightarrow> string \<Rightarrow> string \<Rightarrow> string \<Rightarrow> kv \<Rightarrow> script_reply" where
  "release_script now lk gk owner generation m = (case kv_get now m lk of
     None \<Rightarrow> (Ok (''missing'', [], or_empty (kv_get now m gk)), m)
   | Some current \<Rightarrow> (case match_fields current of
       Some (o', g, _) \<Rightarrow>
         (let known = (case kv_get now m gk of Some x \<Rightarrow> x | None \<Rightarrow> g)
          in if o' = owner \<and> g = generation
             then (Ok (''released'', current, known), m(lk := None))
             else (Ok (''lost'', current, known), m))
     | None \<Rightarrow> (Ok (''lost'', current, or_empty (kv_get now m gk)), m)))"

section \<open>Operations\<close>

text \<open>
  What the world answers to one operation: the community's write lease (absent without a database), the
  connection pool and Redis. A lost lease or a failed command may have run the script.
\<close>
record dir_answers =
  da_begin :: "(string, unit) result option"
  da_pool :: "(string, unit) result"
  da_lease_lost :: "(string \<times> bool) option"
  da_command :: "(string \<times> bool) option"
  da_finish :: "(string, unit) result"

definition begin_serving_write :: "dir_answers \<Rightarrow> (directory_error, unit) result" where
  "begin_serving_write A = (case da_begin A of
     Some (Inl e) \<Rightarrow> Err (CommunityWriteFenced e) | _ \<Rightarrow> Ok ())"

definition finish_serving_write :: "dir_answers \<Rightarrow> (directory_error, unit) result" where
  "finish_serving_write A = (case (da_begin A, da_finish A) of
     (Some _, Inl e) \<Rightarrow> Err (CommunityWriteFenced e) | _ \<Rightarrow> Ok ())"

definition checkout :: "dir_answers \<Rightarrow> (directory_error, unit) result" where
  "checkout A = (case da_pool A of Err e \<Rightarrow> Err (DE_Pool e) | Ok _ \<Rightarrow> Ok ())"

definition run_script :: "dir_answers \<Rightarrow> kv \<Rightarrow> script_reply \<Rightarrow> (directory_error, string \<times> string \<times> string) result \<times> kv" where
  "run_script A m reply_state = (case reply_state of (r, m') \<Rightarrow>
     (case (da_begin A, da_lease_lost A) of
        (Some _, Some (e, late)) \<Rightarrow> (Err (CommunityWriteFenced e), if late then m' else m)
      | _ \<Rightarrow> (case da_command A of
          Some (e, late) \<Rightarrow> (Err (DE_Redis e), if late then m' else m)
        | None \<Rightarrow> ((case r of Err e \<Rightarrow> Err (DE_Redis e) | Ok x \<Rightarrow> Ok x), m'))))"

definition acquire ::
  "dir_env \<Rightarrow> dir_answers \<Rightarrow> nat \<Rightarrow> kv \<Rightarrow> string \<Rightarrow> string \<Rightarrow> runtime_id \<Rightarrow> profile
    \<Rightarrow> (directory_error, acquire_result) result \<times> kv" where
  "acquire E A now m community session owner prof =
     try_in m (begin_serving_write A) (\<lambda>_.
     try_in m (ttl_ms (de_lease_ttl_ms E)) (\<lambda>ttl.
     try_in m (checkout A) (\<lambda>_.
       case run_script A m (acquire_script E now (lease_key community session) (generation_key community session)
              (de_hex E owner) (profile_as_wire_str prof) ttl m) of
         (r, m') \<Rightarrow>
           try_in m' r (\<lambda>(st, v, _).
           try_in m' (parse_lease E community session v) (\<lambda>lease.
           try_in m' (finish_serving_write A) (\<lambda>_.
             (if st = ''acquired'' then Ok (Acquired lease)
              else if st = ''exists'' then Ok (Exists lease)
              else Err (UnexpectedScriptStatus st), m')))))))"

definition takeover ::
  "dir_env \<Rightarrow> dir_answers \<Rightarrow> nat \<Rightarrow> kv \<Rightarrow> string \<Rightarrow> string \<Rightarrow> runtime_id \<Rightarrow> profile
    \<Rightarrow> (directory_error, acquire_result) result \<times> kv" where
  "takeover = acquire"

definition renew ::
  "dir_env \<Rightarrow> dir_answers \<Rightarrow> nat \<Rightarrow> kv \<Rightarrow> session_lease \<Rightarrow> (directory_error, renew_result) result \<times> kv" where
  "renew E A now m lease =
     (let community = sl_community lease; session = sl_session lease in
      try_in m (begin_serving_write A) (\<lambda>_.
      try_in m (ttl_ms (de_lease_ttl_ms E)) (\<lambda>ttl.
      try_in m (checkout A) (\<lambda>_.
        case run_script A m (renew_script now (lease_key community session) (generation_key community session)
               (de_hex E (sl_owner lease)) (nat_to_string (sl_generation lease)) ttl m) of
          (r, m') \<Rightarrow>
            try_in m' r (\<lambda>(st, v, known).
            try_in m' (parse_optional_lease E community session v) (\<lambda>current.
            try_in m' (finish_serving_write A) (\<lambda>_.
              if st = ''renewed'' then (Ok (Renewed (the current)), m')
              else if st = ''missing'' \<or> st = ''lost''
              then try_in m' (parse_optional_generation community session known) (\<lambda>k. (Ok (Renew_Lost current k), m'))
              else (Err (UnexpectedScriptStatus st), m'))))))))"

definition release ::
  "dir_env \<Rightarrow> dir_answers \<Rightarrow> nat \<Rightarrow> kv \<Rightarrow> session_lease \<Rightarrow> (directory_error, release_result) result \<times> kv" where
  "release E A now m lease =
     (let community = sl_community lease; session = sl_session lease in
      try_in m (begin_serving_write A) (\<lambda>_.
      try_in m (checkout A) (\<lambda>_.
        case run_script A m (release_script now (lease_key community session) (generation_key community session)
               (de_hex E (sl_owner lease)) (nat_to_string (sl_generation lease)) m) of
          (r, m') \<Rightarrow>
            try_in m' r (\<lambda>(st, v, known).
            try_in m' (parse_optional_lease E community session v) (\<lambda>current.
            try_in m' (finish_serving_write A) (\<lambda>_.
              if st = ''released'' then (Ok (Released (the current)), m')
              else if st = ''missing'' \<or> st = ''lost''
              then try_in m' (parse_optional_generation community session known) (\<lambda>k. (Ok (NotOwner current k), m'))
              else (Err (UnexpectedScriptStatus st), m')))))))"

definition lookup_lease ::
  "dir_env \<Rightarrow> dir_answers \<Rightarrow> nat \<Rightarrow> kv \<Rightarrow> string \<Rightarrow> string \<Rightarrow> (directory_error, session_lease option) result" where
  "lookup_lease E A now m community session =
     and_then (checkout A) (\<lambda>_. case da_command A of
       Some (e, _) \<Rightarrow> Err (DE_Redis e)
     | None \<Rightarrow> (case kv_get now m (lease_key community session) of
         None \<Rightarrow> Ok None
       | Some v \<Rightarrow> and_then (parse_lease E community session v) (\<lambda>l. Ok (Some l))))"

definition known_generation ::
  "dir_answers \<Rightarrow> nat \<Rightarrow> kv \<Rightarrow> string \<Rightarrow> string \<Rightarrow> (directory_error, nat option) result" where
  "known_generation A now m community session =
     and_then (checkout A) (\<lambda>_. case da_command A of
       Some (e, _) \<Rightarrow> Err (DE_Redis e)
     | None \<Rightarrow> (case kv_get now m (generation_key community session) of
         None \<Rightarrow> Ok None
       | Some v \<Rightarrow> parse_optional_generation community session v))"

definition as_transport :: "dir_env \<Rightarrow> (directory_error, 'a) result \<Rightarrow> (mesh_error, 'a) result" where
  "as_transport E r = (case r of Err e \<Rightarrow> Err (Transport (de_error_text E e)) | Ok a \<Rightarrow> Ok a)"

definition validate_fenced_header ::
  "dir_env \<Rightarrow> dir_answers \<Rightarrow> nat \<Rightarrow> kv \<Rightarrow> string \<Rightarrow> fenced_header \<Rightarrow> (mesh_error, unit) result" where
  "validate_fenced_header E A now m community fenced =
     (let session = fh_session_id fenced; generation = fh_generation fenced; owner = fh_owner_runtime_id fenced in
      case da_pool A of
        Err e \<Rightarrow> Err (Transport (''redis pool: '' @ e))
      | Ok _ \<Rightarrow> (case da_command A of
          Some (e, _) \<Rightarrow> Err (RedisError e)
        | None \<Rightarrow>
            and_then (as_transport E (parse_optional_generation community session
              (or_empty (kv_get now m (generation_key community session))))) (\<lambda>counter.
            and_then (as_transport E (parse_optional_lease E community session
              (or_empty (kv_get now m (lease_key community session))))) (\<lambda>current.
              let known_from_counter = (case counter of Some g \<Rightarrow> g | None \<Rightarrow> 0);
                  known = max (case current of Some l \<Rightarrow> sl_generation l | None \<Rightarrow> known_from_counter) known_from_counter
              in if known > 0 \<and> generation < known
                 then Err (StaleGenerationError session generation known)
                 else (case current of
                     None \<Rightarrow> Err (NoActiveLease session generation known owner)
                   | Some l \<Rightarrow>
                       if generation \<noteq> sl_generation l
                       then Err (FutureGeneration session generation (sl_generation l))
                       else if owner \<noteq> sl_owner l
                       then Err (OwnerMismatch session generation owner (sl_owner l))
                       else Ok ())))))"

definition fenced_header_of :: "session_lease \<Rightarrow> fenced_header" where
  "fenced_header_of l = \<lparr>fh_session_id = sl_session l, fh_generation = sl_generation l, fh_owner_runtime_id = sl_owner l\<rparr>"

section \<open>The keys of a session\<close>

text \<open>What the text of a UUID never contains.\<close>
definition uuid_text :: "string \<Rightarrow> bool" where
  "uuid_text u \<longleftrightarrow> CHR '':'' \<notin> set u"

lemma split_session_keys:
  assumes "uuid_text c" "uuid_text i"
  shows "split_on CHR '':'' (lease_key c i) = [''buzz'', c, ''tunnel'', i, ''lease'']"
    and "split_on CHR '':'' (generation_key c i) = [''buzz'', c, ''tunnel'', i, ''generation'']"
  using assms split_on_prefix[of "CHR '':''" c] split_on_prefix[of "CHR '':''" i]
  by (simp_all add: lease_key_def generation_key_def uuid_text_def)

lemma session_keys_inj [simp]:
  assumes "uuid_text c" "uuid_text i" "uuid_text c'" "uuid_text i'"
  shows "lease_key c i = lease_key c' i' \<longleftrightarrow> c = c' \<and> i = i'"
    and "generation_key c i = generation_key c' i' \<longleftrightarrow> c = c' \<and> i = i'"
    and "lease_key c i \<noteq> generation_key c' i'" and "generation_key c' i' \<noteq> lease_key c i"
  using split_session_keys[OF assms(1,2)] split_session_keys[OF assms(3,4)]
    split_on_inj[of "CHR '':''" "lease_key c i" "lease_key c' i'"]
    split_on_inj[of "CHR '':''" "generation_key c i" "generation_key c' i'"]
    split_on_inj[of "CHR '':''" "lease_key c i" "generation_key c' i'"]
  by simp_all

section \<open>The text of a lease\<close>

text \<open>
  Hexadecimal text decodes to what it encodes, and Lua prints whole numbers of up to fourteen digits in
  full.
\<close>
definition GENERATION_LIMIT :: nat where "GENERATION_LIMIT = 10 ^ 14"

definition dir_env_ok :: "dir_env \<Rightarrow> bool" where
  "dir_env_ok E \<longleftrightarrow>
     (\<forall>b. de_unhex E (de_hex E b) = Some b) \<and> (\<forall>b. list_all is_ascii_hexdigit (de_hex E b))
     \<and> (\<forall>b. b \<noteq> [] \<longrightarrow> de_hex E b \<noteq> []) \<and> (\<forall>n < GENERATION_LIMIT. de_lua_tostring E n = nat_to_string n)"

definition lease_text :: "dir_env \<Rightarrow> runtime_id \<Rightarrow> nat \<Rightarrow> profile \<Rightarrow> string" where
  "lease_text E owner g p = de_hex E owner @ ''|'' @ nat_to_string g @ ''|'' @ profile_as_wire_str p"

lemma profile_wire: "profile_from_wire (profile_as_wire_str p) = Some p" "CHR ''|'' \<notin> set (profile_as_wire_str p)"
    "profile_as_wire_str p \<noteq> []"
  by (cases p; simp add: profile_from_wire_def)+

lemma split_lease_text:
  assumes "dir_env_ok E"
  shows "split_on CHR ''|'' (lease_text E owner g p) = [de_hex E owner, nat_to_string g, profile_as_wire_str p]"
proof -
  have "\<not> is_ascii_hexdigit CHR ''|''" "\<not> is_ascii_digit CHR ''|''" by (simp_all add: ascii_class_defs less_eq_char_def)
  then have "CHR ''|'' \<notin> set (de_hex E owner)" "CHR ''|'' \<notin> set (nat_to_string g)"
    using assms digit_not_in_nat_to_string unfolding dir_env_ok_def list_all_iff by blast+
  then show ?thesis
    using split_on_prefix[of "CHR ''|''" "de_hex E owner"] split_on_prefix[of "CHR ''|''" "nat_to_string g"]
      split_on_whole[OF profile_wire(2)[of p]]
    by (simp add: lease_text_def)
qed

lemma parse_lease_text:
  assumes "dir_env_ok E" "length owner = 32" "0 < g" "g \<le> U64_MAX"
  shows "parse_lease E c i (lease_text E owner g p) =
     Ok \<lparr>sl_community = c, sl_session = i, sl_owner = owner, sl_generation = g, sl_profile = p\<rparr>"
  using assms by (simp add: parse_lease_def split_lease_text parse_u64_digits profile_wire dir_env_ok_def)

lemma match_lease_text:
  assumes "dir_env_ok E" "length owner = 32"
  shows "match_fields (lease_text E owner g p) = Some (de_hex E owner, nat_to_string g, profile_as_wire_str p)"
proof -
  have "owner \<noteq> []" using assms(2) by auto
  then show ?thesis using assms(1) by (simp add: match_fields_def split_lease_text profile_wire dir_env_ok_def)
qed

lemma lease_text_nonempty: "lease_text E owner g p \<noteq> []"
  by (simp add: lease_text_def)

section \<open>Directories in use\<close>

text \<open>
  The store and its clock, with the grants that took effect, oldest first: the session, the runtime and
  the generation.
\<close>
record directory =
  dr_now :: nat
  dr_kv :: kv
  dr_log :: "(string \<times> string \<times> runtime_id \<times> nat) list"

definition granted :: "kv \<Rightarrow> kv \<Rightarrow> string \<Rightarrow> string \<Rightarrow> runtime_id \<Rightarrow> (string \<times> string \<times> runtime_id \<times> nat) list" where
  "granted m m' c i owner =
     (if m' (generation_key c i) = m (generation_key c i) then []
      else [(c, i, owner, the (parse_u64 (fst (the (m' (generation_key c i))))))])"

datatype dir_label = D_Acquire string string runtime_id | D_Renew session_lease | D_Release session_lease | D_Time | D_Expire string

text \<open>Any runtime acquires, renews or releases with any lease it may hold; time passes; Redis drops an expired key.\<close>
inductive dir_step :: "dir_env \<Rightarrow> directory \<Rightarrow> dir_label \<Rightarrow> directory \<Rightarrow> bool" for E where
  ds_acquire: "uuid_text c \<Longrightarrow> uuid_text i \<Longrightarrow> length owner = 32 \<Longrightarrow>
     acquire E A (dr_now s) (dr_kv s) c i owner p = (r, m) \<Longrightarrow>
     dir_step E s (D_Acquire c i owner) (s\<lparr>dr_kv := m, dr_log := dr_log s @ granted (dr_kv s) m c i owner\<rparr>)"
| ds_renew: "uuid_text (sl_community l) \<Longrightarrow> uuid_text (sl_session l) \<Longrightarrow>
     renew E A (dr_now s) (dr_kv s) l = (r, m) \<Longrightarrow> dir_step E s (D_Renew l) (s\<lparr>dr_kv := m\<rparr>)"
| ds_release: "uuid_text (sl_community l) \<Longrightarrow> uuid_text (sl_session l) \<Longrightarrow>
     release E A (dr_now s) (dr_kv s) l = (r, m) \<Longrightarrow> dir_step E s (D_Release l) (s\<lparr>dr_kv := m\<rparr>)"
| ds_time: "dr_now s \<le> t \<Longrightarrow> dir_step E s D_Time (s\<lparr>dr_now := t\<rparr>)"
| ds_expire: "dr_kv s k = Some (v, Some t) \<Longrightarrow> t \<le> dr_now s \<Longrightarrow>
     dir_step E s (D_Expire k) (s\<lparr>dr_kv := (dr_kv s)(k := None)\<rparr>)"

definition dir_start :: "directory \<Rightarrow> bool" where
  "dir_start s \<longleftrightarrow> dr_kv s = Map.empty \<and> dr_log s = []"

definition acquisitions :: "directory \<Rightarrow> string \<Rightarrow> string \<Rightarrow> (runtime_id \<times> nat) list" where
  "acquisitions s c i = map (\<lambda>(_, _, g). g) (filter (\<lambda>(c', i', _). c' = c \<and> i' = i) (dr_log s))"

section \<open>One owner per generation\<close>

text \<open>
  The counter of a session counts its grants, and the lease of a session, while its key exists, is that of
  the last grant.
\<close>
definition session_ok :: "dir_env \<Rightarrow> directory \<Rightarrow> string \<Rightarrow> string \<Rightarrow> bool" where
  "session_ok E s c i \<longleftrightarrow>
     (let gs = acquisitions s c i; m = dr_kv s in
      map snd gs = [1..<Suc (length gs)]
      \<and> (if gs = [] then m (generation_key c i) = None \<and> m (lease_key c i) = None
         else length (fst (last gs)) = 32 \<and> m (generation_key c i) = Some (nat_to_string (length gs), None)
           \<and> (m (lease_key c i) = None
              \<or> (\<exists>p t. m (lease_key c i) = Some (lease_text E (fst (last gs)) (length gs) p, Some t)))))"

definition dir_inv :: "dir_env \<Rightarrow> directory \<Rightarrow> bool" where
  "dir_inv E s \<longleftrightarrow> (length (dr_log s) < GENERATION_LIMIT \<longrightarrow> (\<forall>c i. uuid_text c \<longrightarrow> uuid_text i \<longrightarrow> session_ok E s c i))"

lemma run_script_kv: "run_script A m x = (r, m') \<Longrightarrow> m' = m \<or> m' = snd x"
  by (auto simp: run_script_def split: prod.splits option.splits if_splits)

lemma try_in_state: "try_in s r k = (x, t) \<Longrightarrow> t = s \<or> (\<exists>a. r = Inr a \<and> k a = (x, t))"
  by (cases r) auto

lemma ttl_ms_Ok: "ttl_ms t = Ok x \<Longrightarrow> x = t"
  by (auto simp: ttl_ms_def split: if_splits)

lemma acquire_kv:
  assumes "acquire E A now m c i owner p = (r, m')"
  shows "m' = m \<or> m' = snd (acquire_script E now (lease_key c i) (generation_key c i) (de_hex E owner)
      (profile_as_wire_str p) (de_lease_ttl_ms E) m)"
  using assms unfolding acquire_def
  by (auto dest!: try_in_state run_script_kv ttl_ms_Ok split: prod.splits)

lemma renew_kv:
  assumes "renew E A now m l = (r, m')"
  shows "m' = m \<or> m' = snd (renew_script now (lease_key (sl_community l) (sl_session l))
      (generation_key (sl_community l) (sl_session l)) (de_hex E (sl_owner l)) (nat_to_string (sl_generation l)) (de_lease_ttl_ms E) m)"
  using assms unfolding renew_def Let_def
  by (auto dest!: try_in_state run_script_kv ttl_ms_Ok split: prod.splits if_splits)

lemma release_kv:
  assumes "release E A now m l = (r, m')"
  shows "m' = m \<or> m' = snd (release_script now (lease_key (sl_community l) (sl_session l))
      (generation_key (sl_community l) (sl_session l)) (de_hex E (sl_owner l)) (nat_to_string (sl_generation l)) m)"
  using assms unfolding release_def Let_def
  by (auto dest!: try_in_state run_script_kv ttl_ms_Ok split: prod.splits if_splits)

text \<open>A change of nothing but the lease key, which keeps its text.\<close>
definition lease_change :: "kv \<Rightarrow> string \<Rightarrow> kv \<Rightarrow> bool" where
  "lease_change m lk m' \<longleftrightarrow> m' = m \<or> m' = m(lk := None) \<or> (\<exists>v t t'. m lk = Some (v, t) \<and> m' = m(lk \<mapsto> (v, Some t')))"

lemma kv_get_Some: "kv_get now m k = Some v \<Longrightarrow> \<exists>t. m k = Some (v, t)"
  by (auto simp: kv_get_def split: option.splits if_splits)

lemma renew_script_change: "lease_change m lk (snd (renew_script now lk gk ow g ttl m))"
  by (auto simp: renew_script_def kv_pexpire_def lease_change_def Let_def split: option.splits dest: kv_get_Some)

lemma release_script_change: "lease_change m lk (snd (release_script now lk gk ow g m))"
  by (auto simp: release_script_def lease_change_def Let_def split: option.splits)

lemma lease_change_refl [simp]: "lease_change m lk m"
  by (simp add: lease_change_def)

lemma session_ok_lease_change:
  assumes "session_ok E s c i" "lease_change (dr_kv s) (lease_key c' i') m"
    and "uuid_text c" "uuid_text i" "uuid_text c'" "uuid_text i'"
  shows "session_ok E (s\<lparr>dr_kv := m\<rparr>) c i"
proof -
  have "m (generation_key c i) = dr_kv s (generation_key c i)"
    using assms(2-6) by (auto simp: lease_change_def)
  moreover have "m (lease_key c i) = dr_kv s (lease_key c i) \<or> m (lease_key c i) = None
      \<or> (\<exists>v t t'. dr_kv s (lease_key c i) = Some (v, t) \<and> m (lease_key c i) = Some (v, Some t'))"
    using assms(2-6) by (auto simp: lease_change_def)
  ultimately show ?thesis
    using assms(1) by (auto simp: session_ok_def acquisitions_def Let_def)
qed

lemma acquire_script_cases:
  assumes "snd (acquire_script E now lk gk ow pr ttl m) = m'"
  obtains (same) "m' = m"
  | (grant) g m1 where "kv_get now m lk = None" "kv_incr now m gk = Ok (g, m1)"
      "m' = m1(lk \<mapsto> (ow @ ''|'' @ de_lua_tostring E g @ ''|'' @ pr, Some (now + ttl)))"
  using assms by (auto simp: acquire_script_def Let_def split: option.splits sum.splits prod.splits)

lemma session_counter:
  assumes "session_ok E s c i"
  shows "kv_get now (dr_kv s) (generation_key c i) =
      (if acquisitions s c i = [] then None else Some (nat_to_string (length (acquisitions s c i))))"
  using assms by (auto simp: session_ok_def Let_def kv_get_def)

lemma acquisitions_length: "length (acquisitions s c i) \<le> length (dr_log s)"
  by (simp add: acquisitions_def)

lemma session_incr:
  assumes "session_ok E s c i" "length (dr_log s) < GENERATION_LIMIT"
  shows "kv_incr now (dr_kv s) (generation_key c i) =
     Ok (Suc (length (acquisitions s c i)),
         (dr_kv s)(generation_key c i \<mapsto> (nat_to_string (Suc (length (acquisitions s c i))), None)))"
proof (cases "acquisitions s c i = []")
  case True
  then show ?thesis using session_counter[OF assms(1)] by (simp add: kv_incr_def)
next
  case False
  have "length (acquisitions s c i) < 10 ^ 14"
    using assms(2) acquisitions_length[of s c i] by (simp add: GENERATION_LIMIT_def)
  then have "length (acquisitions s c i) \<le> U64_MAX" "Suc (length (acquisitions s c i)) < 2 ^ 63"
    by (simp_all add: U64_MAX_def)
  moreover have "dr_kv s (generation_key c i) = Some (nat_to_string (length (acquisitions s c i)), None)"
    using assms(1) False by (simp add: session_ok_def Let_def)
  ultimately show ?thesis
    using session_counter[OF assms(1)] False by (simp add: kv_incr_def parse_u64_digits)
qed

lemma acquisitions_snoc [simp]:
  "acquisitions (s\<lparr>dr_kv := m, dr_log := dr_log s @ [(c, i, owner, g)]\<rparr>) c' i' =
     acquisitions s c' i' @ (if c' = c \<and> i' = i then [(owner, g)] else [])"
  by (auto simp: acquisitions_def)

lemma acquisitions_kv [simp]: "acquisitions (s\<lparr>dr_kv := m\<rparr>) c i = acquisitions s c i"
    "acquisitions (s\<lparr>dr_now := t\<rparr>) c i = acquisitions s c i"
  by (simp_all add: acquisitions_def)

lemma nat_to_string_Suc_neq: "nat_to_string (Suc n) \<noteq> nat_to_string n"
  using nat_to_string_inj by fastforce

lemma session_counter_next:
  "session_ok E s c i \<Longrightarrow> dr_kv s (generation_key c i) \<noteq> Some (nat_to_string (Suc (length (acquisitions s c i))), None)"
  using nat_to_string_Suc_neq[of "length (acquisitions s c i)"]
  by (auto simp: session_ok_def Let_def split: if_splits)

lemma grant_session_ok:
  assumes E: "dir_env_ok E" and ok: "\<forall>c i. uuid_text c \<longrightarrow> uuid_text i \<longrightarrow> session_ok E s c i"
    and ids: "uuid_text c" "uuid_text i" "uuid_text c'" "uuid_text i'" and "length owner = 32"
    and small: "Suc (length (dr_log s)) < GENERATION_LIMIT"
    and m: "m = (dr_kv s)(generation_key c i \<mapsto> (nat_to_string g, None),
        lease_key c i \<mapsto> (de_hex E owner @ ''|'' @ de_lua_tostring E g @ ''|'' @ profile_as_wire_str p, Some t))"
    and g: "g = Suc (length (acquisitions s c i))"
  shows "granted (dr_kv s) m c i owner = [(c, i, owner, g)]"
    and "session_ok E (s\<lparr>dr_kv := m, dr_log := dr_log s @ [(c, i, owner, g)]\<rparr>) c' i'"
proof -
  have "g < GENERATION_LIMIT" using small acquisitions_length[of s c i] g by simp
  then have shape: "de_hex E owner @ ''|'' @ de_lua_tostring E g @ ''|'' @ profile_as_wire_str p = lease_text E owner g p"
    and bound: "g \<le> U64_MAX"
    using E by (simp_all add: dir_env_ok_def lease_text_def U64_MAX_def GENERATION_LIMIT_def)
  have m2: "m = (dr_kv s)(generation_key c i \<mapsto> (nat_to_string g, None), lease_key c i \<mapsto> (lease_text E owner g p, Some t))"
    unfolding m shape ..
  have at_c: "session_ok E s c i" using ok ids by blast
  have "dr_kv s (generation_key c i) \<noteq> Some (nat_to_string g, None)"
    using session_counter_next[OF at_c] g by simp
  then show "granted (dr_kv s) m c i owner = [(c, i, owner, g)]"
    using ids bound by (auto simp: granted_def m2 parse_u64_digits)
  show "session_ok E (s\<lparr>dr_kv := m, dr_log := dr_log s @ [(c, i, owner, g)]\<rparr>) c' i'"
  proof (cases "c' = c \<and> i' = i")
    case True
    have "map snd (acquisitions s c i) = [1..<Suc (length (acquisitions s c i))]"
      using at_c by (simp add: session_ok_def Let_def)
    then show ?thesis
      using True ids assms(7) g by (auto simp: session_ok_def Let_def m2)
  next
    case False
    have "session_ok E s c' i'" using ok ids by blast
    then show ?thesis using False ids by (auto simp: session_ok_def Let_def m2)
  qed
qed

lemma granted_same [simp]: "granted m m c i owner = []"
  by (simp add: granted_def)

lemma acquire_inv:
  assumes E: "dir_env_ok E" and inv: "dir_inv E s" and ids: "uuid_text c" "uuid_text i" "length owner = 32"
    and step: "acquire E A (dr_now s) (dr_kv s) c i owner p = (r, m)"
  shows "dir_inv E (s\<lparr>dr_kv := m, dr_log := dr_log s @ granted (dr_kv s) m c i owner\<rparr>)"
proof (cases "length (dr_log s) < GENERATION_LIMIT")
  case small: True
  then have ok: "\<forall>c i. uuid_text c \<longrightarrow> uuid_text i \<longrightarrow> session_ok E s c i" using inv by (simp add: dir_inv_def)
  have same: ?thesis if "m = dr_kv s" using inv that by simp
  show ?thesis
  proof (cases "m = dr_kv s")
    case False
    then have "snd (acquire_script E (dr_now s) (lease_key c i) (generation_key c i) (de_hex E owner)
        (profile_as_wire_str p) (de_lease_ttl_ms E) (dr_kv s)) = m"
      using acquire_kv[OF step] by simp
    then show ?thesis
    proof (cases rule: acquire_script_cases)
      case (grant g m1)
      have g: "g = Suc (length (acquisitions s c i))"
          "m1 = (dr_kv s)(generation_key c i \<mapsto> (nat_to_string g, None))"
        using session_incr[of E s c i] ok ids small grant(2) by auto
      note facts = grant_session_ok[OF E ok ids(1,2) _ _ ids(3) _ grant(3)[unfolded g(2)] g(1)]
      show ?thesis
      proof (cases "Suc (length (dr_log s)) < GENERATION_LIMIT")
        case True
        then show ?thesis using facts ids by (auto simp: dir_inv_def)
      next
        case False
        have "granted (dr_kv s) m c i owner \<noteq> [] \<Longrightarrow> ?thesis"
          using False by (cases "granted (dr_kv s) m c i owner") (auto simp: dir_inv_def)
        moreover have "granted (dr_kv s) m c i owner \<noteq> []"
        proof -
          have "m (generation_key c i) = Some (nat_to_string g, None)" using grant(3) g ids by simp
          then have "m (generation_key c i) \<noteq> dr_kv s (generation_key c i)"
            using session_counter_next[of E s c i] ok ids g(1) by metis
          then show ?thesis by (simp add: granted_def)
        qed
        ultimately show ?thesis by blast
      qed
    qed (use same in simp)
  qed (use same in simp)
next
  case False
  then show ?thesis by (simp add: dir_inv_def)
qed

lemma lease_change_inv:
  assumes "dir_inv E s" "lease_change (dr_kv s) (lease_key c i) m" "uuid_text c" "uuid_text i"
  shows "dir_inv E (s\<lparr>dr_kv := m\<rparr>)"
  using assms session_ok_lease_change unfolding dir_inv_def by auto

lemma expire_inv:
  assumes "dir_inv E s" "dr_kv s k = Some (v, Some t)"
  shows "dir_inv E (s\<lparr>dr_kv := (dr_kv s)(k := None)\<rparr>)"
  unfolding dir_inv_def
proof (intro impI allI)
  fix c i
  assume "length (dr_log (s\<lparr>dr_kv := (dr_kv s)(k := None)\<rparr>)) < GENERATION_LIMIT" and ids: "uuid_text c" "uuid_text i"
  then have ok: "session_ok E s c i" using assms(1) by (simp add: dir_inv_def)
  then have "k \<noteq> generation_key c i" using assms(2) by (auto simp: session_ok_def Let_def split: if_splits)
  then show "session_ok E (s\<lparr>dr_kv := (dr_kv s)(k := None)\<rparr>) c i"
    using ok by (auto simp: session_ok_def Let_def)
qed

lemma dir_step_inv:
  assumes E: "dir_env_ok E" and inv: "dir_inv E s" and "dir_step E s l t"
  shows "dir_inv E t"
  using assms(3)
proof cases
  case ds_acquire
  then show ?thesis using acquire_inv[OF E inv] by simp
next
  case (ds_renew l A r m)
  then have "lease_change (dr_kv s) (lease_key (sl_community l) (sl_session l)) m"
    using renew_kv renew_script_change by fastforce
  then show ?thesis using lease_change_inv[OF inv] ds_renew by simp
next
  case (ds_release l A r m)
  then have "lease_change (dr_kv s) (lease_key (sl_community l) (sl_session l)) m"
    using release_kv release_script_change by fastforce
  then show ?thesis using lease_change_inv[OF inv] ds_release by simp
next
  case (ds_time t)
  then show ?thesis using inv by (simp add: dir_inv_def session_ok_def)
next
  case ds_expire
  then show ?thesis using expire_inv[OF inv] by simp
qed

interpretation session_dir: invariant_system dir_start "dir_step E" "\<lambda>s. dir_env_ok E \<longrightarrow> dir_inv E s" for E
proof unfold_locales
  show "dir_start s \<Longrightarrow> dir_env_ok E \<longrightarrow> dir_inv E s" for s
    by (simp add: dir_start_def dir_inv_def session_ok_def acquisitions_def)
  show "dir_env_ok E \<longrightarrow> dir_inv E s \<Longrightarrow> dir_step E s l t \<Longrightarrow> dir_env_ok E \<longrightarrow> dir_inv E t" for s l t
    using dir_step_inv by blast
qed

lemma dir_step_log: "dir_step E s l t \<Longrightarrow> length (dr_log t) \<le> Suc (length (dr_log s))"
  by (erule dir_step.cases) (auto simp: granted_def)

lemma dir_run_log: "run (dir_step E) s ls t \<Longrightarrow> length (dr_log t) \<le> length (dr_log s) + length ls"
proof (induction ls arbitrary: s)
  case (Cons l ls)
  then obtain u where "dir_step E s l u" "run (dir_step E) u ls t" by (auto simp: run_Cons_simps)
  then show ?case using Cons.IH dir_step_log by fastforce
qed simp

lemma dir_run_ok:
  assumes "dir_env_ok E" "dir_start s0" "run (dir_step E) s0 ls s" "length ls < GENERATION_LIMIT"
  shows "length (dr_log s) < GENERATION_LIMIT" "uuid_text c \<Longrightarrow> uuid_text i \<Longrightarrow> session_ok E s c i"
proof -
  show small: "length (dr_log s) < GENERATION_LIMIT"
    using dir_run_log[OF assms(3)] assms(2,4) by (simp add: dir_start_def)
  have "dir_inv E s" using session_dir.run_inv session_dir.start_inv assms(1-3) by blast
  then show "uuid_text c \<Longrightarrow> uuid_text i \<Longrightarrow> session_ok E s c i" using small by (simp add: dir_inv_def)
qed

section \<open>The fence\<close>

definition lease_live :: "directory \<Rightarrow> string \<Rightarrow> string \<Rightarrow> bool" where
  "lease_live s c i \<longleftrightarrow> kv_get (dr_now s) (dr_kv s) (lease_key c i) \<noteq> None"

lemma session_lease_read:
  assumes "dir_env_ok E" "session_ok E s c i" "length (dr_log s) < GENERATION_LIMIT"
  shows "\<exists>p. parse_optional_lease E c i (or_empty (kv_get (dr_now s) (dr_kv s) (lease_key c i))) =
      Ok (if lease_live s c i
          then Some \<lparr>sl_community = c, sl_session = i, sl_owner = fst (last (acquisitions s c i)),
             sl_generation = length (acquisitions s c i), sl_profile = p\<rparr>
          else None)"
    and "lease_live s c i \<Longrightarrow> acquisitions s c i \<noteq> []"
proof -
  let ?gs = "acquisitions s c i" and ?v = "kv_get (dr_now s) (dr_kv s) (lease_key c i)"
  show live: "lease_live s c i \<Longrightarrow> ?gs \<noteq> []"
    using assms(2) by (auto simp: lease_live_def kv_get_def session_ok_def Let_def)
  have bound: "length ?gs \<le> U64_MAX"
    using assms(3) acquisitions_length[of s c i] by (simp add: U64_MAX_def GENERATION_LIMIT_def)
  show "\<exists>p. parse_optional_lease E c i (or_empty ?v) =
      Ok (if lease_live s c i
          then Some \<lparr>sl_community = c, sl_session = i, sl_owner = fst (last ?gs), sl_generation = length ?gs, sl_profile = p\<rparr>
          else None)"
  proof (cases "lease_live s c i")
    case True
    obtain p where "?v = Some (lease_text E (fst (last ?gs)) (length ?gs) p)" "length (fst (last ?gs)) = 32"
      using True assms(2) live[OF True]
      by (auto simp: lease_live_def kv_get_def session_ok_def Let_def split: if_splits)
    then show ?thesis
      using True live[OF True] parse_lease_text[OF assms(1) _ _ bound] lease_text_nonempty
      by (auto simp: parse_optional_lease_def or_empty_def)
  next
    case False
    then show ?thesis by (simp add: parse_optional_lease_def or_empty_def lease_live_def)
  qed
qed

lemma session_counter_read:
  assumes "session_ok E s c i" "length (dr_log s) < GENERATION_LIMIT"
  shows "parse_optional_generation c i (or_empty (kv_get (dr_now s) (dr_kv s) (generation_key c i))) =
      Ok (if acquisitions s c i = [] then None else Some (length (acquisitions s c i)))"
proof -
  have "length (acquisitions s c i) \<le> U64_MAX"
    using assms(2) acquisitions_length[of s c i] by (simp add: U64_MAX_def GENERATION_LIMIT_def)
  then show ?thesis
    using session_counter[OF assms(1)] by (simp add: parse_optional_generation_def or_empty_def parse_u64_digits)
qed

lemma validate_session:
  assumes "dir_env_ok E" "session_ok E s c (fh_session_id h)" "length (dr_log s) < GENERATION_LIMIT"
    and "is_ok (da_pool A)" "da_command A = None"
  shows "validate_fenced_header E A (dr_now s) (dr_kv s) c h =
    (let gs = acquisitions s c (fh_session_id h); known = length gs; g = fh_generation h; owner = fh_owner_runtime_id h in
     if g < known then Err (StaleGenerationError (fh_session_id h) g known)
     else if \<not> lease_live s c (fh_session_id h) then Err (NoActiveLease (fh_session_id h) g known owner)
     else if g \<noteq> known then Err (FutureGeneration (fh_session_id h) g known)
     else if owner \<noteq> fst (last gs) then Err (OwnerMismatch (fh_session_id h) g owner (fst (last gs)))
     else Ok ())"
  using assms(4,5) session_lease_read[OF assms(1-3)] session_counter_read[OF assms(2,3)]
  by (auto simp: validate_fenced_header_def as_transport_def is_ok_iff Let_def max_def)

text \<open>
  C6: After any sequence of acquisitions, renewals, releases, failures, delays and expiries by any number
  of runtimes, the generations granted for a session are 1, 2, 3 and so on, and the fence check answers by the
  last grant alone: an older generation is stale, without a live lease there is no owner, a newer
  generation is from the future, another owner is a mismatch, and exactly the header of the last grant is
  accepted while its lease is live.
\<close>
theorem session_fence_exact:
  assumes "dir_env_ok E" "dir_start s0" "run (dir_step E) s0 ls s" "length ls < GENERATION_LIMIT"
    and "uuid_text c" "uuid_text (fh_session_id h)" "is_ok (da_pool A)" "da_command A = None"
    and "gs = acquisitions s c (fh_session_id h)"
  shows "map snd gs = [1..<Suc (length gs)]
    \<and> validate_fenced_header E A (dr_now s) (dr_kv s) c h =
      (if fh_generation h < length gs then Err (StaleGenerationError (fh_session_id h) (fh_generation h) (length gs))
       else if \<not> lease_live s c (fh_session_id h)
       then Err (NoActiveLease (fh_session_id h) (fh_generation h) (length gs) (fh_owner_runtime_id h))
       else if fh_generation h \<noteq> length gs then Err (FutureGeneration (fh_session_id h) (fh_generation h) (length gs))
       else if fh_owner_runtime_id h \<noteq> fst (last gs)
       then Err (OwnerMismatch (fh_session_id h) (fh_generation h) (fh_owner_runtime_id h) (fst (last gs)))
       else Ok ())"
proof -
  note run = dir_run_ok[OF assms(1-4)]
  have ok: "session_ok E s c (fh_session_id h)" using run(2) assms(5,6) by simp
  then show ?thesis
    using validate_session[OF assms(1) ok run(1) assms(7,8)] assms(9) by (simp add: session_ok_def Let_def)
qed

section \<open>A concrete directory\<close>

definition hex_digit_of :: "nat \<Rightarrow> char" where
  "hex_digit_of d = ''0123456789abcdef'' ! d"

definition hex_digit_value :: "char \<Rightarrow> nat" where
  "hex_digit_value x = the (map_of (zip ''0123456789abcdef'' [0,1,2,3,4,5,6,7,8,9,10,11,12,13,14,15]) x)"

definition sample_hex :: "bytes \<Rightarrow> string" where
  "sample_hex b = concat (map (\<lambda>x. [hex_digit_of (of_char x div 16), hex_digit_of (of_char x mod 16)]) b)"

fun sample_unhex :: "string \<Rightarrow> bytes option" where
  "sample_unhex [] = Some []"
| "sample_unhex [x] = None"
| "sample_unhex (x # y # xs) = map_option (Cons (char_of (16 * hex_digit_value x + hex_digit_value y))) (sample_unhex xs)"

definition sample_dir_env :: dir_env where
  "sample_dir_env = \<lparr> de_hex = sample_hex, de_unhex = sample_unhex, de_lua_tostring = nat_to_string,
     de_error_text = (\<lambda>_. []), de_lease_ttl_ms = 30000 \<rparr>"

lemma hex_digit_of: "d < 16 \<Longrightarrow> hex_digit_value (hex_digit_of d) = d \<and> is_ascii_hexdigit (hex_digit_of d)"
proof -
  assume "d < 16"
  then have "d \<in> {0,1,2,3,4,5,6,7,8,9,10,11,12,13,14,15}" by (simp only: insert_iff empty_iff) presburger
  then show ?thesis
    by (elim insertE emptyE)
      (simp_all add: hex_digit_value_def hex_digit_of_def ascii_class_defs less_eq_char_def)
qed

lemma sample_dir_env_ok: "dir_env_ok sample_dir_env"
proof -
  have byte: "(of_char x :: nat) div 16 < 16" "(of_char x :: nat) mod 16 < 16" for x :: char
    using nat_of_char_less_256[of x] by (simp_all add: div_less_iff_less_mult)
  have "sample_unhex (sample_hex b) = Some b" for b
    by (induction b) (simp_all add: sample_hex_def hex_digit_of byte)
  moreover have "list_all is_ascii_hexdigit (sample_hex b)" for b
    by (induction b) (simp_all add: sample_hex_def hex_digit_of byte)
  moreover have "sample_hex b \<noteq> []" if "b \<noteq> []" for b
    using that by (cases b) (simp_all add: sample_hex_def)
  ultimately show ?thesis by (simp add: dir_env_ok_def sample_dir_env_def)
qed

definition sample_dir_answers :: dir_answers where
  "sample_dir_answers = \<lparr> da_begin = None, da_pool = Ok (), da_lease_lost = None, da_command = None, da_finish = Ok () \<rparr>"

definition sample_directory :: directory where
  "sample_directory = \<lparr> dr_now = 0, dr_kv = Map.empty, dr_log = [] \<rparr>"

definition sample_owner :: runtime_id where
  "sample_owner = replicate 32 (CHR ''r'')"

text \<open>One acquisition from the empty directory.\<close>
lemma sample_dir_run:
  "\<exists>s. run (dir_step sample_dir_env) sample_directory [D_Acquire ''A'' ''S'' sample_owner] s
     \<and> acquisitions s ''A'' ''S'' = [(sample_owner, 1)] \<and> lease_live s ''A'' ''S''"
proof -
  let ?v = "lease_text sample_dir_env sample_owner 1 ReliableStream"
  let ?m = "[generation_key ''A'' ''S'' \<mapsto> (nat_to_string 1, None), lease_key ''A'' ''S'' \<mapsto> (?v, Some 30000)]"
  let ?s = "\<lparr>dr_now = 0, dr_kv = ?m, dr_log = [(''A'', ''S'', sample_owner, 1)]\<rparr>"
  have ids: "uuid_text ''A''" "uuid_text ''S''" "length sample_owner = 32"
    by (simp_all add: uuid_text_def sample_owner_def)
  have "acquire sample_dir_env sample_dir_answers 0 Map.empty ''A'' ''S'' sample_owner ReliableStream
      = (Ok (Acquired \<lparr>sl_community = ''A'', sl_session = ''S'', sl_owner = sample_owner, sl_generation = 1,
           sl_profile = ReliableStream\<rparr>), ?m)"
    using parse_lease_text[OF sample_dir_env_ok ids(3), of 1 "''A''" "''S''" ReliableStream]
    by (simp add: acquire_def begin_serving_write_def finish_serving_write_def checkout_def ttl_ms_def run_script_def
        acquire_script_def kv_get_def kv_incr_def sample_dir_answers_def lease_text_def U64_MAX_def sample_dir_env_def Let_def)
  moreover have "granted Map.empty ?m ''A'' ''S'' sample_owner = [(''A'', ''S'', sample_owner, 1)]"
    using ids by (simp add: granted_def parse_u64_digits U64_MAX_def)
  ultimately have "dir_step sample_dir_env sample_directory (D_Acquire ''A'' ''S'' sample_owner) ?s"
    using ds_acquire[OF ids, of sample_dir_env sample_dir_answers sample_directory ReliableStream]
    by (simp add: sample_directory_def)
  then have "run (dir_step sample_dir_env) sample_directory [D_Acquire ''A'' ''S'' sample_owner] ?s"
    by (auto intro: run_cons run_nil)
  moreover have "acquisitions ?s ''A'' ''S'' = [(sample_owner, 1)]" "lease_live ?s ''A'' ''S''"
    by (simp_all add: acquisitions_def lease_live_def kv_get_def)
  ultimately show ?thesis by blast
qed

theorem session_fence_exact_witness:
  "\<exists>s. run (dir_step sample_dir_env) sample_directory [D_Acquire ''A'' ''S'' sample_owner] s
     \<and> validate_fenced_header sample_dir_env sample_dir_answers (dr_now s) (dr_kv s) ''A''
         \<lparr>fh_session_id = ''S'', fh_generation = 1, fh_owner_runtime_id = sample_owner\<rparr> = Ok ()"
proof -
  obtain s where s: "run (dir_step sample_dir_env) sample_directory [D_Acquire ''A'' ''S'' sample_owner] s"
      "acquisitions s ''A'' ''S'' = [(sample_owner, 1)]" "lease_live s ''A'' ''S''"
    using sample_dir_run by blast
  have "dir_start sample_directory" "uuid_text ''A''" "uuid_text ''S''"
    by (simp_all add: dir_start_def sample_directory_def uuid_text_def)
  then show ?thesis
    using session_fence_exact[OF sample_dir_env_ok _ s(1), of "''A''"
        "\<lparr>fh_session_id = ''S'', fh_generation = 1, fh_owner_runtime_id = sample_owner\<rparr>" sample_dir_answers] s
    by (auto simp: GENERATION_LIMIT_def sample_dir_answers_def)
qed

end
