(* ===== verification/Reliable_Stream.thy ===== *)
theory Reliable_Stream
  imports Session_Directory
begin

text \<open>
  Reliable tunnel streams (\<^verbatim>\<open>buzz-relay/src/tunnel/reliable.rs\<close>): joining a session through the
  directory, the frames of a session stream, sending and receiving under the fence, and the renewal of a
  lease. The transport that opens a stream is a parameter; the bytes of a stream are those of the mesh.
\<close>

section \<open>Frames\<close>

text \<open>A community on the wire is the sixteen bytes of its UUID.\<close>
datatype reliable_wire_frame = RW_Data bytes bytes | RW_Goodbye bytes goodbye_reason

datatype reliable_frame = RF_Data bytes | RF_Goodbye goodbye_reason

datatype reliable_error =
    RE_Directory directory_error
  | RE_Mesh mesh_error
  | ProfileMismatch string profile profile
  | SenderMismatch runtime_id runtime_id
  | UnexpectedStreamRole
  | OwnerIsNotLocal string runtime_id runtime_id
  | UnexpectedFrame string
  | FrameFenceMismatch fenced_header fenced_header
  | CommunityMismatch string string
  | MalformedReliableFrame string

fun to_wire_byte :: "goodbye_reason \<Rightarrow> nat" where
  "to_wire_byte SessionEnded = 1"
| "to_wire_byte Draining = 2"
| "to_wire_byte StaleGeneration = 3"

definition from_wire_byte :: "nat \<Rightarrow> (reliable_error, goodbye_reason) result" where
  "from_wire_byte b =
     (if b = 1 then Ok SessionEnded else if b = 2 then Ok Draining else if b = 3 then Ok StaleGeneration
      else Err (MalformedReliableFrame ''unknown goodbye reason''))"

definition RELIABLE_VERSION :: nat where "RELIABLE_VERSION = 1"
definition RELIABLE_DATA :: nat where "RELIABLE_DATA = 1"
definition RELIABLE_GOODBYE :: nat where "RELIABLE_GOODBYE = 2"
definition MAX_RELIABLE_PAYLOAD_BYTES :: nat where "MAX_RELIABLE_PAYLOAD_BYTES = 1024 * 1024"

fun frame_community :: "reliable_wire_frame \<Rightarrow> bytes" where
  "frame_community (RW_Data c _) = c"
| "frame_community (RW_Goodbye c _) = c"

fun reliable_encode :: "reliable_wire_frame \<Rightarrow> bytes" where
  "reliable_encode (RW_Data community body) =
     char_of RELIABLE_VERSION # char_of RELIABLE_DATA # community @ body"
| "reliable_encode (RW_Goodbye community reason) =
     char_of RELIABLE_VERSION # char_of RELIABLE_GOODBYE # community @ [char_of (to_wire_byte reason)]"

definition reliable_decode :: "bytes \<Rightarrow> (reliable_error, reliable_wire_frame) result" where
  "reliable_decode bs =
     (if length bs < 18 then Err (MalformedReliableFrame ''too short'')
      else if of_char (bs ! 0) \<noteq> RELIABLE_VERSION then Err (MalformedReliableFrame ''unknown version'')
      else
        (let community = take 16 (drop 2 bs); kind = of_char (bs ! 1)
         in if kind = RELIABLE_DATA then Ok (RW_Data community (drop 18 bs))
            else if kind = RELIABLE_GOODBYE then
              (if length bs \<noteq> 19 then Err (MalformedReliableFrame ''bad goodbye length'')
               else and_then (from_wire_byte (of_char (bs ! 18))) (\<lambda>reason. Ok (RW_Goodbye community reason)))
            else Err (MalformedReliableFrame ''unknown kind'')))"

section \<open>Streams\<close>

record reliable_mesh_stream =
  rs_fenced :: fenced_header
  rs_community :: "string option"

definition reliable_stream_new :: "fenced_header \<Rightarrow> reliable_mesh_stream" where
  "reliable_stream_new h = \<lparr>rs_fenced = h, rs_community = None\<rparr>"

definition with_community :: "reliable_mesh_stream \<Rightarrow> string \<Rightarrow> reliable_mesh_stream" where
  "with_community st c = st\<lparr>rs_community := Some c\<rparr>"

text \<open>The directory, the serializer of mesh frames and the bytes of a UUID.\<close>
record tunnel_env =
  te_dir :: dir_env
  te_codec :: "mesh_stream_frame codec"
  te_uuid_bytes :: "string \<Rightarrow> bytes"
  te_uuid_of :: "bytes \<Rightarrow> string"

definition ensure_outbound_community ::
  "reliable_mesh_stream \<Rightarrow> string \<Rightarrow> (reliable_error, unit) result \<times> reliable_mesh_stream" where
  "ensure_outbound_community st c = (case rs_community st of
     Some expected \<Rightarrow> if expected \<noteq> c then (Err (CommunityMismatch expected c), st) else (Ok (), st)
   | None \<Rightarrow> (Ok (), st\<lparr>rs_community := Some c\<rparr>))"

text \<open>\<^verbatim>\<open>slice::chunks\<close>.\<close>
function chunks_of :: "nat \<Rightarrow> 'a list \<Rightarrow> 'a list list" where
  "chunks_of n xs = (if n = 0 \<or> xs = [] then [] else take n xs # chunks_of n (drop n xs))"
  by auto
termination by (relation "measure (\<lambda>(n, xs). length xs)") auto

declare chunks_of.simps [simp del]

definition as_mesh :: "(mesh_error, 'a) result \<Rightarrow> (reliable_error, 'a) result" where
  "as_mesh r = (case r of Err e \<Rightarrow> Err (RE_Mesh e) | Ok a \<Rightarrow> Ok a)"

text \<open>The frames sent for a list of chunks, up to the first one that cannot be sent.\<close>
fun send_chunks ::
  "tunnel_env \<Rightarrow> fenced_header \<Rightarrow> string \<Rightarrow> bytes list \<Rightarrow> (reliable_error, unit) result \<times> bytes" where
  "send_chunks T h c [] = (Ok (), [])"
| "send_chunks T h c (chunk # cs) =
     (case as_mesh (send_frame (te_codec T) (Data h (reliable_encode (RW_Data (te_uuid_bytes T c) chunk)))) of
        Err e \<Rightarrow> (Err e, [])
      | Ok out \<Rightarrow> (let (r, outs) = send_chunks T h c cs in (r, out @ outs)))"

definition send_bytes ::
  "tunnel_env \<Rightarrow> reliable_mesh_stream \<Rightarrow> string \<Rightarrow> bytes
    \<Rightarrow> (reliable_error, unit) result \<times> reliable_mesh_stream \<times> bytes" where
  "send_bytes T st c bs = (case ensure_outbound_community st c of
     (Err e, st') \<Rightarrow> (Err e, st', [])
   | (Ok _, st') \<Rightarrow>
       (let (r, out) = send_chunks T (rs_fenced st') c (chunks_of MAX_RELIABLE_PAYLOAD_BYTES bs) in (r, st', out)))"

text \<open>\<^verbatim>\<open>send_goodbye\<close>; the last component tells whether the send half is finished.\<close>
definition send_goodbye ::
  "tunnel_env \<Rightarrow> (mesh_error, unit) result \<Rightarrow> reliable_mesh_stream \<Rightarrow> string \<Rightarrow> goodbye_reason
    \<Rightarrow> (reliable_error, unit) result \<times> reliable_mesh_stream \<times> bytes \<times> bool" where
  "send_goodbye T fin st c reason = (case ensure_outbound_community st c of
     (Err e, st') \<Rightarrow> (Err e, st', [], False)
   | (Ok _, st') \<Rightarrow>
       (case as_mesh (send_frame (te_codec T)
               (Data (rs_fenced st') (reliable_encode (RW_Goodbye (te_uuid_bytes T c) reason)))) of
          Err e \<Rightarrow> (Err e, st', [], False)
        | Ok out \<Rightarrow> (as_mesh fin, st', out, is_ok fin)))"

definition validate_frame_fence ::
  "tunnel_env \<Rightarrow> dir_answers \<Rightarrow> directory \<Rightarrow> reliable_mesh_stream \<Rightarrow> string \<Rightarrow> fenced_header
    \<Rightarrow> (reliable_error, unit) result \<times> reliable_mesh_stream" where
  "validate_frame_fence T A d st c fenced =
     (if fenced \<noteq> rs_fenced st then (Err (FrameFenceMismatch (rs_fenced st) fenced), st)
      else (case rs_community st of
          Some expected \<Rightarrow> if expected \<noteq> c then (Err (CommunityMismatch expected c), st)
            else (as_mesh (validate_fenced_header (te_dir T) A (dr_now d) (dr_kv d) c fenced), st)
        | None \<Rightarrow> (case validate_fenced_header (te_dir T) A (dr_now d) (dr_kv d) c fenced of
            Err e \<Rightarrow> (Err (RE_Mesh e), st)
          | Ok _ \<Rightarrow> (Ok (), st\<lparr>rs_community := Some c\<rparr>))))"

text \<open>One frame from the bytes of a stream; the bytes left come last.\<close>
definition recv_validated ::
  "tunnel_env \<Rightarrow> dir_answers \<Rightarrow> directory \<Rightarrow> reliable_mesh_stream \<Rightarrow> bytes
    \<Rightarrow> (reliable_error, reliable_frame option) result \<times> reliable_mesh_stream \<times> bytes" where
  "recv_validated T A d st stream = (case recv_frame (te_codec T) stream of
     (Inl e, rest) \<Rightarrow> (Err (RE_Mesh e), st, rest)
   | (Inr None, rest) \<Rightarrow> (Ok None, st, rest)
   | (Inr (Some f), rest) \<Rightarrow> (case f of
       Data fenced body \<Rightarrow>
         (case reliable_decode body of
            Err e \<Rightarrow> (Err e, st, rest)
          | Ok rwf \<Rightarrow>
              (case validate_frame_fence T A d st (te_uuid_of T (frame_community rwf)) fenced of
                 (Err e, st') \<Rightarrow> (Err e, st', rest)
               | (Ok _, st') \<Rightarrow>
                   (Ok (Some (case rwf of RW_Data _ b \<Rightarrow> RF_Data b | RW_Goodbye _ g \<Rightarrow> RF_Goodbye g)), st', rest)))
     | Goodbye _ _ \<Rightarrow> (Err (UnexpectedFrame ''goodbye''), st, rest)
     | Hello _ \<Rightarrow> (Err (UnexpectedFrame ''hello''), st, rest)
     | Gossip _ \<Rightarrow> (Err (UnexpectedFrame ''gossip''), st, rest)))"

section \<open>Joining and accepting\<close>

datatype reliable_join = Owned session_lease | Forwarded session_lease stream_hello reliable_mesh_stream

text \<open>\<^verbatim>\<open>ReliableStreamRouter::join\<close>; the answer of the transport to opening a stream is an argument.\<close>
definition join ::
  "tunnel_env \<Rightarrow> dir_answers \<Rightarrow> (runtime_id \<Rightarrow> stream_hello \<Rightarrow> (mesh_error, unit) result) \<Rightarrow> runtime_id
    \<Rightarrow> nat \<Rightarrow> kv \<Rightarrow> string \<Rightarrow> string \<Rightarrow> (reliable_error, reliable_join) result \<times> kv" where
  "join T A open_stream local now m community session =
     (case acquire (te_dir T) A now m community session local ReliableStream of
        (Inl e, m') \<Rightarrow> (Err (RE_Directory e), m')
      | (Inr (Acquired lease), m') \<Rightarrow> (Ok (Owned lease), m')
      | (Inr (Exists lease), m') \<Rightarrow>
          if sl_profile lease \<noteq> ReliableStream
          then (Err (ProfileMismatch session ReliableStream (sl_profile lease)), m')
          else if sl_owner lease = local then (Ok (Owned lease), m')
          else
            (let fenced = fenced_header_of lease;
                 hello = \<lparr>hello_sender = local, hello_role = Session fenced ReliableStream\<rparr>
             in case open_stream (sl_owner lease) hello of
                  Err e \<Rightarrow> (Err (RE_Mesh e), m')
                | Ok _ \<Rightarrow> (Ok (Forwarded lease hello (reliable_stream_new fenced)), m')))"

record reliable_inbound =
  ri_fenced :: fenced_header
  ri_from :: runtime_id
  ri_stream :: reliable_mesh_stream

definition accept_inbound :: "runtime_id \<Rightarrow> runtime_id \<Rightarrow> stream_hello \<Rightarrow> (reliable_error, reliable_inbound) result" where
  "accept_inbound local from_peer hello =
     (if hello_sender hello \<noteq> from_peer then Err (SenderMismatch from_peer (hello_sender hello))
      else (case hello_role hello of
          Control \<Rightarrow> Err UnexpectedStreamRole
        | Session fenced prof \<Rightarrow>
            if prof \<noteq> ReliableStream then Err (ProfileMismatch (fh_session_id fenced) ReliableStream prof)
            else if fh_owner_runtime_id fenced \<noteq> local
            then Err (OwnerIsNotLocal (fh_session_id fenced) (fh_owner_runtime_id fenced) local)
            else Ok \<lparr>ri_fenced = fenced, ri_from = from_peer, ri_stream = reliable_stream_new fenced\<rparr>))"

section \<open>Renewal\<close>

text \<open>What wakes the renewal task: the caller's cancellation or a tick, with the answers to its renewal.\<close>
datatype renew_event = Cancelled | Ticked nat dir_answers

text \<open>
  The task: whether it has ended, whether it signalled the loss of the lease, and the store. The
  answers to the final release come with their time.
\<close>
definition finish_renewal ::
  "dir_env \<Rightarrow> session_lease \<Rightarrow> nat \<times> dir_answers \<Rightarrow> bool \<Rightarrow> bool \<Rightarrow> kv \<Rightarrow> bool \<times> kv" where
  "finish_renewal E lease fin caller_cancelled lost m =
     (case release E (snd fin) (fst fin) m lease of
        (Inr (Released _), m') \<Rightarrow> (lost, m')
      | (Inr (NotOwner _ _), m') \<Rightarrow> (True, m')
      | (Inl _, m') \<Rightarrow> (lost \<or> \<not> caller_cancelled, m'))"

fun renewal_task ::
  "dir_env \<Rightarrow> session_lease \<Rightarrow> nat \<times> dir_answers \<Rightarrow> renew_event list \<Rightarrow> kv \<Rightarrow> (bool \<times> kv) option" where
  "renewal_task E lease fin [] m = None"
| "renewal_task E lease fin (Cancelled # evs) m = Some (finish_renewal E lease fin True False m)"
| "renewal_task E lease fin (Ticked now A # evs) m =
     (case renew E A now m lease of
        (Inr (Renewed _), m') \<Rightarrow> renewal_task E lease fin evs m'
      | (_, m') \<Rightarrow> Some (finish_renewal E lease fin False True m'))"

section \<open>Frames come back as they were sent\<close>

lemma from_to_wire_byte [simp]: "from_wire_byte (to_wire_byte g) = Ok g" "to_wire_byte g < 256"
  by (cases g; simp add: from_wire_byte_def)+

lemma reliable_decode_encode:
  assumes "length (frame_community f) = 16"
  shows "reliable_decode (reliable_encode f) = Ok f"
proof (cases f)
  case (RW_Data c b)
  then show ?thesis using assms
    by (simp add: reliable_decode_def RELIABLE_VERSION_def RELIABLE_DATA_def Let_def)
next
  case (RW_Goodbye c g)
  then show ?thesis using assms
    by (simp add: reliable_decode_def RELIABLE_VERSION_def RELIABLE_DATA_def RELIABLE_GOODBYE_def Let_def nth_append)
qed

lemma concat_chunks: "0 < n \<Longrightarrow> concat (chunks_of n xs) = xs"
  by (induction n xs rule: chunks_of.induct) (subst chunks_of.simps, auto)

lemma chunk_length: "ch \<in> set (chunks_of n xs) \<Longrightarrow> 0 < length ch \<and> length ch \<le> n"
  by (induction n xs rule: chunks_of.induct) (subst (asm) chunks_of.simps, auto split: if_splits)

text \<open>The loop of a receiver; each read sees the directory of its own moment.\<close>
lemma recv_validated_consumes:
  "recv_validated T A d st stream = (Inr (Some f), st', rest) \<Longrightarrow> length rest < length stream"
  using recv_frame_consumes[of "te_codec T" stream]
  by (auto simp: recv_validated_def split: prod.splits sum.splits option.splits mesh_stream_frame.splits)

function recv_data ::
  "tunnel_env \<Rightarrow> (nat \<Rightarrow> dir_answers \<times> directory) \<Rightarrow> nat \<Rightarrow> reliable_mesh_stream \<Rightarrow> bytes \<Rightarrow> bytes list \<times> reliable_error option" where
  "recv_data T W i st stream =
     (case recv_validated T (fst (W i)) (snd (W i)) st stream of
        (Inl e, _) \<Rightarrow> ([], Some e)
      | (Inr None, _) \<Rightarrow> ([], None)
      | (Inr (Some (RF_Goodbye g)), _) \<Rightarrow> ([], None)
      | (Inr (Some (RF_Data b)), st', rest) \<Rightarrow> (let (bs, e) = recv_data T W (Suc i) st' rest in (b # bs, e)))"
  by pat_completeness auto
termination
  by (relation "measure (\<lambda>(T, W, i, st, stream). length stream)") (auto dest: recv_validated_consumes[OF sym])

declare recv_data.simps [simp del]

text \<open>Every sixteen bytes are a UUID, and the text of a UUID has no colon.\<close>
definition tunnel_env_ok :: "tunnel_env \<Rightarrow> bool" where
  "tunnel_env_ok T \<longleftrightarrow> dir_env_ok (te_dir T) \<and> codec_ok (te_codec T) \<and> (\<forall>b. uuid_text (te_uuid_of T b))"

text \<open>A UUID in its canonical text: its sixteen bytes read back as it.\<close>
definition uuid_value :: "tunnel_env \<Rightarrow> string \<Rightarrow> bool" where
  "uuid_value T c \<longleftrightarrow> te_uuid_of T (te_uuid_bytes T c) = c \<and> length (te_uuid_bytes T c) = 16"

lemma recv_sent_chunk:
  assumes T: "tunnel_env_ok T" and ids: "uuid_value T c"
    and sent: "send_frame (te_codec T) (Data h (reliable_encode (RW_Data (te_uuid_bytes T c) chunk))) = Ok out"
    and st: "rs_fenced st = h" "rs_community st \<in> {None, Some c}"
    and valid: "validate_fenced_header (te_dir T) A (dr_now d) (dr_kv d) c h = Ok ()"
  shows "recv_validated T A d st (out @ stream) = (Ok (Some (RF_Data chunk)), st\<lparr>rs_community := Some c\<rparr>, stream)"
proof -
  have codec: "codec_ok (te_codec T)" using T by (simp add: tunnel_env_ok_def)
  have "validate_frame_fence T A d st c h = (Ok (), st\<lparr>rs_community := Some c\<rparr>)"
    using st valid by (cases "rs_community st") (auto simp: validate_frame_fence_def as_mesh_def)
  then show ?thesis
    using recv_send_frame[OF codec sent, of stream] reliable_decode_encode[of "RW_Data (te_uuid_bytes T c) chunk"] ids
    by (simp add: recv_validated_def uuid_value_def)
qed

lemma recv_sent_chunks:
  assumes T: "tunnel_env_ok T" and ids: "uuid_value T c"
    and valid: "\<And>j. validate_fenced_header (te_dir T) (fst (W j)) (dr_now (snd (W j))) (dr_kv (snd (W j))) c h = Ok ()"
  shows "send_chunks T h c chunks = (Ok (), out) \<Longrightarrow> rs_fenced st = h \<Longrightarrow> rs_community st \<in> {None, Some c}
     \<Longrightarrow> recv_data T W i st out = (chunks, None)"
proof (induction chunks arbitrary: out st i)
  case Nil
  then show ?case by (simp add: recv_data.simps recv_validated_def recv_frame_def)
next
  case (Cons chunk chunks)
  obtain o1 o2 where sent: "send_frame (te_codec T) (Data h (reliable_encode (RW_Data (te_uuid_bytes T c) chunk))) = Ok o1"
      "send_chunks T h c chunks = (Ok (), o2)" "out = o1 @ o2"
    using Cons.prems(1) by (auto simp: as_mesh_def split: sum.splits prod.splits)
  have "recv_data T W (Suc i) (st\<lparr>rs_community := Some c\<rparr>) o2 = (chunks, None)"
    using Cons.IH[OF sent(2)] Cons.prems(2) by simp
  then show ?case
    using recv_sent_chunk[OF T ids sent(1) Cons.prems(2,3) valid[of i], of o2] sent(3)
    by (subst recv_data.simps) simp
qed

text \<open>
  C9: What a sender hands to a tunnel stream arrives: if all its frames could be sent and the fence holds
  whenever the receiver checks it, the receiver gets the bytes complete and in order, in pieces of at
  most one mebibyte, and then the end of the stream.
\<close>
theorem tunnel_bytes_arrive:
  assumes "tunnel_env_ok T" "uuid_value T c"
    and "send_bytes T st c bs = (Ok (), st', out)"
    and "rs_fenced rst = rs_fenced st" "rs_community rst = None"
    and "\<forall>j. validate_fenced_header (te_dir T) (fst (W j)) (dr_now (snd (W j))) (dr_kv (snd (W j))) c (rs_fenced st) = Ok ()"
  shows "\<exists>pieces. recv_data T W 0 rst out = (pieces, None) \<and> concat pieces = bs
    \<and> (\<forall>b \<in> set pieces. 0 < length b \<and> length b \<le> MAX_RELIABLE_PAYLOAD_BYTES)"
proof -
  let ?pieces = "chunks_of MAX_RELIABLE_PAYLOAD_BYTES bs"
  have "send_chunks T (rs_fenced st) c ?pieces = (Ok (), out)"
    using assms(3)
    by (auto simp: send_bytes_def ensure_outbound_community_def split: option.splits if_splits prod.splits)
  then have "recv_data T W 0 rst out = (?pieces, None)"
    using recv_sent_chunks[OF assms(1,2), of W "rs_fenced st" ?pieces out rst 0] assms(4-6) by simp
  moreover have "concat ?pieces = bs" by (rule concat_chunks) (simp add: MAX_RELIABLE_PAYLOAD_BYTES_def)
  ultimately show ?thesis using chunk_length by blast
qed

section \<open>Delivery under the fence\<close>

lemma last_grant_number: "session_ok E s c i \<Longrightarrow> acquisitions s c i \<noteq> [] \<Longrightarrow> snd (last (acquisitions s c i)) = length (acquisitions s c i)"
  using last_map[of "acquisitions s c i" snd] by (auto simp: session_ok_def Let_def Suc_le_eq)

lemma validate_fenced_header_reached:
  "validate_fenced_header E A now m c h = Ok () \<Longrightarrow> is_ok (da_pool A) \<and> da_command A = None"
  by (auto simp: validate_fenced_header_def Let_def is_ok_iff split: sum.splits option.splits)

lemma recv_validated_delivers:
  assumes "recv_validated T A d st stream = (Ok (Some f), st', rest)"
  obtains c where "uuid_text (te_uuid_of T c) \<or> \<not> tunnel_env_ok T" "rs_community st \<in> {None, Some (te_uuid_of T c)}"
    "st' = st\<lparr>rs_community := Some (te_uuid_of T c)\<rparr>"
    "validate_fenced_header (te_dir T) A (dr_now d) (dr_kv d) (te_uuid_of T c) (rs_fenced st) = Ok ()"
proof -
  obtain fenced body rwf where "recv_frame (te_codec T) stream = (Inr (Some (Data fenced body)), rest)"
      and "reliable_decode body = Ok rwf"
      and v: "validate_frame_fence T A d st (te_uuid_of T (frame_community rwf)) fenced = (Ok (), st')"
    using assms
    by (auto simp: recv_validated_def split: prod.splits sum.splits option.splits mesh_stream_frame.splits)
  have "st = st\<lparr>rs_community := Some c\<rparr>" if "rs_community st = Some c" for c
    using that by (cases st) simp
  then show ?thesis
    using v that[of "frame_community rwf"]
    by (auto simp: validate_frame_fence_def as_mesh_def tunnel_env_ok_def split: if_splits option.splits sum.splits)
qed

text \<open>
  C7: A frame reaches the application only under the current grant: whatever bytes arrive on a stream, in
  any reachable directory, a delivered frame names the community the stream is bound to (or binds it), its
  fence is the one pinned when the stream was opened, the lease of the session is live, and the pinned owner
  and generation are those of the last grant; so a stream of a superseded owner delivers nothing.
\<close>
theorem tunnel_delivery_owned:
  assumes "tunnel_env_ok T" "dir_start s0" "run (dir_step (te_dir T)) s0 ls d" "length ls < GENERATION_LIMIT"
    and "uuid_text (fh_session_id (rs_fenced st))"
    and "recv_validated T A d st stream = (Ok (Some f), st', rest)"
  shows "\<exists>c. rs_community st' = Some c \<and> rs_community st \<in> {None, Some c} \<and> rs_fenced st' = rs_fenced st
    \<and> lease_live d c (fh_session_id (rs_fenced st))
    \<and> acquisitions d c (fh_session_id (rs_fenced st)) \<noteq> []
    \<and> last (acquisitions d c (fh_session_id (rs_fenced st)))
        = (fh_owner_runtime_id (rs_fenced st), fh_generation (rs_fenced st))"
proof -
  let ?h = "rs_fenced st"
  obtain b where c: "uuid_text (te_uuid_of T b)" "rs_community st \<in> {None, Some (te_uuid_of T b)}"
      "st' = st\<lparr>rs_community := Some (te_uuid_of T b)\<rparr>"
      and ok: "validate_fenced_header (te_dir T) A (dr_now d) (dr_kv d) (te_uuid_of T b) ?h = Ok ()"
    using recv_validated_delivers[OF assms(6)] assms(1) by metis
  let ?gs = "acquisitions d (te_uuid_of T b) (fh_session_id ?h)"
  have E: "dir_env_ok (te_dir T)" using assms(1) by (simp add: tunnel_env_ok_def)
  note run = dir_run_ok[OF E assms(2-4)]
  have s: "session_ok (te_dir T) d (te_uuid_of T b) (fh_session_id ?h)" using run(2) c(1) assms(5) by simp
  have live: "lease_live d (te_uuid_of T b) (fh_session_id ?h)" "fh_generation ?h = length ?gs"
      "fh_owner_runtime_id ?h = fst (last ?gs)"
    using ok validate_session[OF E s run(1)] validate_fenced_header_reached[OF ok]
    by (auto simp: Let_def split: if_splits)
  have ne: "?gs \<noteq> []" using session_lease_read(2)[OF E s run(1) live(1)] .
  have "last ?gs = (fh_owner_runtime_id ?h, fh_generation ?h)"
    using last_grant_number[OF s ne] live by (simp add: prod_eq_iff)
  then show ?thesis using c(2,3) live(1) ne by auto
qed

section \<open>Joining\<close>

lemma parse_lease_owner:
  assumes "dir_env_ok E" "parse_lease E c i (de_hex E owner @ ''|'' @ v) = Ok l"
  shows "sl_owner l = owner"
proof -
  have "\<not> is_ascii_hexdigit CHR ''|''" by (simp add: ascii_class_defs less_eq_char_def)
  then have "CHR ''|'' \<notin> set (de_hex E owner)"
    using assms(1) unfolding dir_env_ok_def list_all_iff by blast
  then have "split_on CHR ''|'' (de_hex E owner @ ''|'' @ v) = de_hex E owner # split_on CHR ''|'' v"
    using split_on_prefix[of "CHR ''|''" "de_hex E owner"] by simp
  then show ?thesis
    using assms by (auto simp: parse_lease_def dir_env_ok_def Let_def split: list.splits option.splits if_splits)
qed

lemma ttl_positive: "ttl_ms t = Ok x \<Longrightarrow> 0 < t"
  by (auto simp: ttl_ms_def split: if_splits)

lemma run_script_Ok: "run_script A m x = (Ok y, m') \<Longrightarrow> x = (Ok y, m')"
  by (auto simp: run_script_def split: prod.splits option.splits sum.splits)

text \<open>The lease an acquisition returns is the one in the store, and a new one is the caller's.\<close>
lemma acquire_lease_current:
  assumes "dir_env_ok E" "acquire E A now m c i owner p = (Ok r, m')"
  obtains v l where "kv_get now m' (lease_key c i) = Some v" "parse_lease E c i v = Ok l"
    "r = Exists l \<or> r = Acquired l \<and> sl_owner l = owner"
proof -
  let ?reply = "acquire_script E now (lease_key c i) (generation_key c i) (de_hex E owner) (profile_as_wire_str p)
      (de_lease_ttl_ms E) m"
  obtain st v k l where reply: "?reply = (Ok (st, v, k), m')" and l: "parse_lease E c i v = Ok l"
      and r: "r = (if st = ''acquired'' then Acquired l else Exists l)" "st \<in> {''acquired'', ''exists''}"
    using assms(2) unfolding acquire_def
    by (cases "run_script A m ?reply")
      (auto dest!: run_script_Ok ttl_ms_Ok simp: try_in_eq_Ok split: if_splits)
  have ttl: "0 < de_lease_ttl_ms E"
    using assms(2) unfolding acquire_def by (auto simp: try_in_eq_Ok dest: ttl_positive)
  have "kv_get now m' (lease_key c i) = Some v \<and> (st = ''acquired'' \<longrightarrow> (\<exists>u. v = de_hex E owner @ ''|'' @ u))"
    using reply ttl
    by (auto simp: acquire_script_def Let_def split: option.splits sum.splits prod.splits) (simp_all add: kv_get_def)
  then show ?thesis using that[OF _ l] r parse_lease_owner[OF assms(1)] l by (auto split: if_splits)
qed

text \<open>The header of the lease that is in the store.\<close>
lemma current_lease_header:
  assumes E: "dir_env_ok E" and s: "session_ok E d c i" "length (dr_log d) < GENERATION_LIMIT"
    and v: "kv_get (dr_now d) (dr_kv d) (lease_key c i) = Some v" "parse_lease E c i v = Ok l"
  shows "last (acquisitions d c i) = (sl_owner l, sl_generation l)" "acquisitions d c i \<noteq> []"
    "is_ok (da_pool B) \<Longrightarrow> da_command B = None
      \<Longrightarrow> validate_fenced_header E B (dr_now d) (dr_kv d) c (fenced_header_of l) = Ok ()"
proof -
  have live: "lease_live d c i" using v(1) by (simp add: lease_live_def)
  have "v \<noteq> []" using v(2) by (auto simp: parse_lease_def)
  then obtain p where l: "l = \<lparr>sl_community = c, sl_session = i, sl_owner = fst (last (acquisitions d c i)),
             sl_generation = length (acquisitions d c i), sl_profile = p\<rparr>"
    using session_lease_read(1)[OF E s] v live by (auto simp: parse_optional_lease_def or_empty_def)
  show ne: "acquisitions d c i \<noteq> []" using session_lease_read(2)[OF E s live] .
  show "last (acquisitions d c i) = (sl_owner l, sl_generation l)"
    using last_grant_number[OF s(1) ne] l by (simp add: prod_eq_iff)
  have "session_ok E d c (fh_session_id (fenced_header_of l))" using s(1) l by (simp add: fenced_header_of_def)
  then show "is_ok (da_pool B) \<Longrightarrow> da_command B = None
      \<Longrightarrow> validate_fenced_header E B (dr_now d) (dr_kv d) c (fenced_header_of l) = Ok ()"
    using validate_session[OF E _ s(2)] live l by (simp add: fenced_header_of_def Let_def)
qed

text \<open>
  C8: Joining a session agrees with the directory: in any reachable directory a join that succeeds leaves a
  live lease in the store which is the last grant of the session. Either the caller is its owner, or the
  stream opened to the owner is pinned to that grant, the owner accepts the hello the caller sent (and no
  other runtime does), and the fence lets the frames of both ends through.
\<close>
theorem join_reaches_owner:
  assumes "tunnel_env_ok T" "dir_start s0" "run (dir_step (te_dir T)) s0 ls d" "Suc (length ls) < GENERATION_LIMIT"
    and "uuid_text c" "uuid_text i" "length local = 32"
    and "join T A open_stream local (dr_now d) (dr_kv d) c i = (Ok j, m')"
    and "d' = d\<lparr>dr_kv := m', dr_log := dr_log d @ granted (dr_kv d) m' c i local\<rparr>"
  shows "\<exists>l. last (acquisitions d' c i) = (sl_owner l, sl_generation l) \<and> acquisitions d' c i \<noteq> []
    \<and> (\<forall>B. is_ok (da_pool B) \<and> da_command B = None \<longrightarrow>
          validate_fenced_header (te_dir T) B (dr_now d') (dr_kv d') c (fenced_header_of l) = Ok ())
    \<and> (j = Owned l \<and> sl_owner l = local
       \<or> (\<exists>hello. j = Forwarded l hello (reliable_stream_new (fenced_header_of l)) \<and> sl_owner l \<noteq> local
           \<and> (\<forall>peer. is_ok (accept_inbound peer local hello) \<longleftrightarrow> peer = sl_owner l)
           \<and> accept_inbound (sl_owner l) local hello =
               Ok \<lparr>ri_fenced = fenced_header_of l, ri_from = local, ri_stream = reliable_stream_new (fenced_header_of l)\<rparr>))"
proof -
  have E: "dir_env_ok (te_dir T)" using assms(1) by (simp add: tunnel_env_ok_def)
  obtain r where acq: "acquire (te_dir T) A (dr_now d) (dr_kv d) c i local ReliableStream = (Ok r, m')"
    using assms(8) by (auto simp: join_def Let_def split: prod.splits sum.splits acquire_result.splits if_splits)
  obtain v l where v: "kv_get (dr_now d) m' (lease_key c i) = Some v" "parse_lease (te_dir T) c i v = Ok l"
      and r: "r = Exists l \<or> r = Acquired l \<and> sl_owner l = local"
    by (rule acquire_lease_current[OF E acq])
  have reach: "run (dir_step (te_dir T)) s0 (ls @ [D_Acquire c i local]) d'"
    using assms(3,9) ds_acquire[OF assms(5-7) acq] by (auto simp: run_snoc)
  have run: "length (dr_log d') < GENERATION_LIMIT" "session_ok (te_dir T) d' c i"
    using dir_run_ok[OF E assms(2) reach] assms(4-6) by simp_all
  have kv: "kv_get (dr_now d') (dr_kv d') (lease_key c i) = Some v" using v(1) assms(9) by simp
  note lease = current_lease_header[OF E run(2,1) kv v(2)]
  have "j = Owned l \<and> sl_owner l = local
       \<or> (\<exists>hello. j = Forwarded l hello (reliable_stream_new (fenced_header_of l)) \<and> sl_owner l \<noteq> local
           \<and> hello = \<lparr>hello_sender = local, hello_role = Session (fenced_header_of l) ReliableStream\<rparr>)"
    using assms(8) acq r by (auto simp: join_def Let_def split: if_splits sum.splits)
  then show ?thesis
    using lease
    by (auto simp: accept_inbound_def fenced_header_of_def intro!: exI[of _ l])
qed

section \<open>Renewal keeps or gives up a lease\<close>

text \<open>Only the holder of the last grant renews, and only while its lease is live.\<close>
lemma renew_current:
  assumes E: "dir_env_ok E" and s: "session_ok E d (sl_community l) (sl_session l)"
    and renew: "renew E A (dr_now d) (dr_kv d) l = (Ok (Renewed l'), m')"
  shows "lease_live d (sl_community l) (sl_session l)"
    and "last (acquisitions d (sl_community l) (sl_session l)) = (sl_owner l, sl_generation l)"
proof -
  let ?c = "sl_community l" and ?i = "sl_session l" and ?gs = "acquisitions d (sl_community l) (sl_session l)"
  let ?reply = "renew_script (dr_now d) (lease_key ?c ?i) (generation_key ?c ?i) (de_hex E (sl_owner l))
      (nat_to_string (sl_generation l)) (de_lease_ttl_ms E) (dr_kv d)"
  obtain v k m where reply: "?reply = (Ok (''renewed'', v, k), m)"
    using renew unfolding renew_def Let_def
    by (cases "run_script A (dr_kv d) ?reply")
      (auto dest!: run_script_Ok ttl_ms_Ok simp: try_in_eq_Ok split: if_splits)
  then obtain cur f where cur: "kv_get (dr_now d) (dr_kv d) (lease_key ?c ?i) = Some cur"
      and f: "match_fields cur = Some (de_hex E (sl_owner l), nat_to_string (sl_generation l), f)"
    by (auto simp: renew_script_def Let_def split: option.splits if_splits)
  show live: "lease_live d ?c ?i" using cur by (simp add: lease_live_def)
  obtain p where ne: "?gs \<noteq> []" "length (fst (last ?gs)) = 32" "cur = lease_text E (fst (last ?gs)) (length ?gs) p"
    using s kv_get_Some[OF cur] by (auto simp: session_ok_def Let_def split: if_splits)
  then have "de_hex E (fst (last ?gs)) = de_hex E (sl_owner l)" "nat_to_string (length ?gs) = nat_to_string (sl_generation l)"
    using f match_lease_text[OF E ne(2)] by simp_all
  then have "fst (last ?gs) = sl_owner l" "length ?gs = sl_generation l"
    using E nat_to_string_inj unfolding dir_env_ok_def by (metis option.inject)+
  then show "last ?gs = (sl_owner l, sl_generation l)" using last_grant_number[OF s ne(1)] by (simp add: prod_eq_iff)
qed

text \<open>The ticks of a task that all renewed the lease.\<close>
fun renewals :: "dir_env \<Rightarrow> session_lease \<Rightarrow> (nat \<times> dir_answers) list \<Rightarrow> kv \<Rightarrow> kv option" where
  "renewals E lease [] m = Some m"
| "renewals E lease ((now, A) # ts) m =
     (case renew E A now m lease of (Inr (Renewed _), m') \<Rightarrow> renewals E lease ts m' | _ \<Rightarrow> None)"

text \<open>A task ends without the loss signal only when it was cancelled after renewals that all succeeded.\<close>
lemma renewal_unlost:
  "renewal_task E lease fin evs m = Some (False, m')
    \<Longrightarrow> \<exists>ts rest mk. evs = map (\<lambda>(now, A). Ticked now A) ts @ Cancelled # rest \<and> renewals E lease ts m = Some mk
          \<and> finish_renewal E lease fin True False mk = (False, m')"
proof (induction E lease fin evs m rule: renewal_task.induct)
  case (2 E lease fin evs m)
  then show ?case by (intro exI[of _ "[]"] exI[of _ evs] exI[of _ m]) simp
next
  case (3 E lease fin now A evs m)
  from 3(2) obtain l m1 where r: "renew E A now m lease = (Inr (Renewed l), m1)"
      and t: "renewal_task E lease fin evs m1 = Some (False, m')"
    by (auto simp: finish_renewal_def split: prod.splits sum.splits renew_result.splits release_result.splits)
  from 3(1)[OF r[symmetric] refl refl t] obtain ts rest mk
    where "evs = map (\<lambda>(now, A). Ticked now A) ts @ Cancelled # rest" "renewals E lease ts m1 = Some mk"
      "finish_renewal E lease fin True False mk = (False, m')" by blast
  then show ?case using r by (intro exI[of _ "(now, A) # ts"] exI[of _ rest] exI[of _ mk]) simp
qed simp

lemma renewal_task_ends: "Cancelled \<in> set evs \<Longrightarrow> \<exists>r. renewal_task E lease fin evs m = Some r"
  by (induction E lease fin evs m rule: renewal_task.induct) (auto split: prod.splits sum.splits renew_result.splits)

section \<open>A concrete tunnel\<close>

definition sample_header :: fenced_header where
  "sample_header = \<lparr>fh_session_id = ''S'', fh_generation = 1, fh_owner_runtime_id = sample_owner\<rparr>"

definition sample_tunnel :: tunnel_env where
  "sample_tunnel = \<lparr> te_dir = sample_dir_env,
     te_codec = \<lparr>pc_to = (\<lambda>f. case f of Data h b \<Rightarrow> if h = sample_header then Ok b else Err ''header'' | _ \<Rightarrow> Err ''frame''),
       pc_from = (\<lambda>b. Ok (Data sample_header b)), read_error = ''closed''\<rparr>,
     te_uuid_bytes = (\<lambda>c. replicate 16 (if c = ''A'' then CHR ''a'' else CHR ''b'')),
     te_uuid_of = (\<lambda>b. if b = replicate 16 CHR ''a'' then ''A'' else ''B'') \<rparr>"

lemma sample_tunnel_ok: "tunnel_env_ok sample_tunnel" "uuid_value sample_tunnel ''A''" "te_dir sample_tunnel = sample_dir_env"
  using sample_dir_env_ok
  by (auto simp: tunnel_env_ok_def uuid_value_def sample_tunnel_def codec_ok_def uuid_text_def
      split: mesh_stream_frame.splits if_splits)

lemma sample_start: "dir_start sample_directory" "uuid_text ''A''" "uuid_text ''S''" "length sample_owner = 32"
  by (simp_all add: dir_start_def sample_directory_def uuid_text_def sample_owner_def)

lemma sample_fence:
  "\<exists>d. run (dir_step sample_dir_env) sample_directory [D_Acquire ''A'' ''S'' sample_owner] d
     \<and> validate_fenced_header sample_dir_env sample_dir_answers (dr_now d) (dr_kv d) ''A'' sample_header = Ok ()"
proof -
  obtain d where d: "run (dir_step sample_dir_env) sample_directory [D_Acquire ''A'' ''S'' sample_owner] d"
      "acquisitions d ''A'' ''S'' = [(sample_owner, 1)]" "lease_live d ''A'' ''S''"
    using sample_dir_run by blast
  have run: "length (dr_log d) < GENERATION_LIMIT" "session_ok sample_dir_env d ''A'' ''S''"
    using dir_run_ok[OF sample_dir_env_ok sample_start(1) d(1)] sample_start by (simp_all add: GENERATION_LIMIT_def)
  then show ?thesis
    using d validate_session[OF sample_dir_env_ok, of d "''A''" sample_header sample_dir_answers]
    by (intro exI[of _ d]) (simp add: sample_header_def sample_dir_answers_def)
qed

lemma sample_sent:
  "\<exists>st' out. send_bytes sample_tunnel (reliable_stream_new sample_header) ''A'' ''hi'' = (Ok (), st', out)"
proof -
  have "chunks_of MAX_RELIABLE_PAYLOAD_BYTES ''hi'' = [''hi'']"
    by (subst chunks_of.simps, subst chunks_of.simps) (simp add: MAX_RELIABLE_PAYLOAD_BYTES_def)
  then show ?thesis
    by (simp add: send_bytes_def ensure_outbound_community_def reliable_stream_new_def as_mesh_def send_frame_def
        wire_encode_def sample_tunnel_def MAX_STREAM_FRAME_def)
qed

theorem tunnel_bytes_arrive_witness:
  "\<exists>d st' out pieces. run (dir_step sample_dir_env) sample_directory [D_Acquire ''A'' ''S'' sample_owner] d
     \<and> send_bytes sample_tunnel (reliable_stream_new sample_header) ''A'' ''hi'' = (Ok (), st', out)
     \<and> recv_data sample_tunnel (\<lambda>_. (sample_dir_answers, d)) 0 (reliable_stream_new sample_header) out = (pieces, None)
     \<and> concat pieces = ''hi''"
proof -
  obtain d where d: "run (dir_step sample_dir_env) sample_directory [D_Acquire ''A'' ''S'' sample_owner] d"
      "validate_fenced_header sample_dir_env sample_dir_answers (dr_now d) (dr_kv d) ''A'' sample_header = Ok ()"
    using sample_fence by blast
  obtain st' out where out: "send_bytes sample_tunnel (reliable_stream_new sample_header) ''A'' ''hi'' = (Ok (), st', out)"
    using sample_sent by blast
  show ?thesis
    using tunnel_bytes_arrive[OF sample_tunnel_ok(1,2) out, of "reliable_stream_new sample_header" "\<lambda>_. (sample_dir_answers, d)"]
      d out sample_tunnel_ok(3)
    by (auto simp: reliable_stream_new_def)
qed

theorem tunnel_delivery_owned_witness:
  "\<exists>d f st' rest c. recv_validated sample_tunnel sample_dir_answers d (reliable_stream_new sample_header)
       (projr (send_frame (te_codec sample_tunnel) (Data sample_header (reliable_encode (RW_Data (te_uuid_bytes sample_tunnel ''A'') ''hi'')))))
     = (Ok (Some f), st', rest) \<and> rs_community st' = Some c \<and> lease_live d c ''S'' \<and> last (acquisitions d c ''S'') = (sample_owner, 1)"
proof -
  obtain d where d: "run (dir_step sample_dir_env) sample_directory [D_Acquire ''A'' ''S'' sample_owner] d"
      "validate_fenced_header sample_dir_env sample_dir_answers (dr_now d) (dr_kv d) ''A'' sample_header = Ok ()"
    using sample_fence by blast
  obtain out where out: "send_frame (te_codec sample_tunnel)
      (Data sample_header (reliable_encode (RW_Data (te_uuid_bytes sample_tunnel ''A'') ''hi''))) = Ok out"
    by (simp add: send_frame_def wire_encode_def sample_tunnel_def MAX_STREAM_FRAME_def)
  have recv: "\<exists>st'. recv_validated sample_tunnel sample_dir_answers d (reliable_stream_new sample_header) out
      = (Ok (Some (RF_Data ''hi'')), st', [])"
    using recv_sent_chunk[OF sample_tunnel_ok(1,2) out, of "reliable_stream_new sample_header" sample_dir_answers d "[]"]
      d(2) sample_tunnel_ok(3)
    by (simp add: reliable_stream_new_def)
  then obtain st' where recv: "recv_validated sample_tunnel sample_dir_answers d (reliable_stream_new sample_header) out
      = (Ok (Some (RF_Data ''hi'')), st', [])" by blast
  show ?thesis
    using tunnel_delivery_owned[OF sample_tunnel_ok(1) sample_start(1) _ _ _ recv, of "[D_Acquire ''A'' ''S'' sample_owner]"]
      d(1) recv out sample_tunnel_ok(3) sample_start(3)
    by (simp add: GENERATION_LIMIT_def sample_header_def reliable_stream_new_def) blast
qed

theorem join_reaches_owner_witness:
  "\<exists>l m'. join sample_tunnel sample_dir_answers (\<lambda>_ _. Ok ()) sample_owner 0 Map.empty ''A'' ''S'' = (Ok (Owned l), m')
     \<and> sl_owner l = sample_owner"
proof -
  have "\<exists>l m'. join sample_tunnel sample_dir_answers (\<lambda>_ _. Ok ()) sample_owner 0 Map.empty ''A'' ''S'' = (Ok (Owned l), m')"
    using parse_lease_text[OF sample_dir_env_ok sample_start(4), of 1 "''A''" "''S''" ReliableStream]
    by (simp add: join_def sample_tunnel_ok(3) acquire_def begin_serving_write_def finish_serving_write_def checkout_def
        ttl_ms_def run_script_def acquire_script_def kv_get_def kv_incr_def sample_dir_answers_def lease_text_def U64_MAX_def
        sample_dir_env_def Let_def)
  then obtain l m' where j: "join sample_tunnel sample_dir_answers (\<lambda>_ _. Ok ()) sample_owner
      (dr_now sample_directory) (dr_kv sample_directory) ''A'' ''S'' = (Ok (Owned l), m')"
    by (auto simp: sample_directory_def)
  have "run (dir_step (te_dir sample_tunnel)) sample_directory [] sample_directory" by simp
  from join_reaches_owner[OF sample_tunnel_ok(1) sample_start(1) this _ sample_start(2-4) j refl] j
  show ?thesis by (auto simp: GENERATION_LIMIT_def sample_directory_def)
qed

end
