(* ===== verification/Huddle_Control.thy ===== *)
theory Huddle_Control
  imports Audio_Room Reliable_Stream
begin

text \<open>
  Joining a huddle across pods (\<^verbatim>\<open>buzz-relay/src/audio/join.rs\<close>): the decision which pod owns a huddle, the
  renewal of its lease, the registry of owned huddles, the control stream between the owner and the pod of a
  client on both ends, and the replication of the roster over it. The encoder of the control messages is a
  parameter. A roster entry on the wire has the fields of an entry of the room, so both are one type here.
\<close>

section \<open>Ownership\<close>

record ownership =
  ow_owner :: runtime_id
  ow_generation :: nat

datatype huddle_renew_outcome = Huddle_Renewed session_lease | Huddle_Lost
datatype huddle_release_outcome = Huddle_Released | Huddle_NotOwner
datatype acquire_outcome = Huddle_Acquired session_lease | Huddle_Held ownership

definition ownership_of :: "session_lease \<Rightarrow> ownership" where
  "ownership_of l = \<lparr>ow_owner = sl_owner l, ow_generation = sl_generation l\<rparr>"

definition huddle_owner_of ::
  "dir_env \<Rightarrow> dir_answers \<Rightarrow> nat \<Rightarrow> kv \<Rightarrow> string \<Rightarrow> string \<Rightarrow> (mesh_error, ownership option) result" where
  "huddle_owner_of E A now m community session =
     and_then (as_transport E (lookup_lease E A now m community session)) (\<lambda>l. Ok (map_option ownership_of l))"

definition huddle_acquire ::
  "dir_env \<Rightarrow> dir_answers \<Rightarrow> nat \<Rightarrow> kv \<Rightarrow> string \<Rightarrow> string \<Rightarrow> runtime_id \<Rightarrow> (mesh_error, acquire_outcome) result \<times> kv" where
  "huddle_acquire E A now m community session owner = (case acquire E A now m community session owner HuddleControl of
     (r, m') \<Rightarrow> try_in m' (as_transport E r) (\<lambda>x. (Ok (case x of
         Acquired l \<Rightarrow> Huddle_Acquired l
       | Exists l \<Rightarrow> Huddle_Held (ownership_of l)), m')))"

definition huddle_renew ::
  "dir_env \<Rightarrow> dir_answers \<Rightarrow> nat \<Rightarrow> kv \<Rightarrow> session_lease \<Rightarrow> (mesh_error, huddle_renew_outcome) result \<times> kv" where
  "huddle_renew E A now m lease = (case renew E A now m lease of
     (r, m') \<Rightarrow> try_in m' (as_transport E r) (\<lambda>x. (Ok (case x of
         Renewed l \<Rightarrow> Huddle_Renewed l
       | Renew_Lost _ _ \<Rightarrow> Huddle_Lost), m')))"

definition huddle_release ::
  "dir_env \<Rightarrow> dir_answers \<Rightarrow> nat \<Rightarrow> kv \<Rightarrow> session_lease \<Rightarrow> (mesh_error, huddle_release_outcome) result \<times> kv" where
  "huddle_release E A now m lease = (case release E A now m lease of
     (r, m') \<Rightarrow> try_in m' (as_transport E r) (\<lambda>x. (Ok (case x of
         Released _ \<Rightarrow> Huddle_Released
       | NotOwner _ _ \<Rightarrow> Huddle_NotOwner), m')))"

datatype join_outcome = LocalOwner nat | RemoteOwner runtime_id nat

fun outcome_generation :: "join_outcome \<Rightarrow> nat" where
  "outcome_generation (LocalOwner generation) = generation"
| "outcome_generation (RemoteOwner _ generation) = generation"

fun outcome_fenced_header :: "join_outcome \<Rightarrow> string \<Rightarrow> runtime_id \<Rightarrow> fenced_header" where
  "outcome_fenced_header (LocalOwner generation) session local =
     \<lparr>fh_session_id = session, fh_generation = generation, fh_owner_runtime_id = local\<rparr>"
| "outcome_fenced_header (RemoteOwner owner generation) session local =
     \<lparr>fh_session_id = session, fh_generation = generation, fh_owner_runtime_id = owner\<rparr>"

record resolved_join =
  rj_outcome :: join_outcome
  rj_acquired :: "session_lease option"

text \<open>The answers to the lookup, the acquisition and the check of the fence, each with its time.\<close>
record join_answers =
  ja_lookup :: "nat \<times> dir_answers"
  ja_acquire :: "nat \<times> dir_answers"
  ja_validate :: "nat \<times> dir_answers"

definition resolve_owned ::
  "dir_env \<Rightarrow> join_answers \<Rightarrow> string \<Rightarrow> string \<Rightarrow> runtime_id \<Rightarrow> ownership \<Rightarrow> kv \<Rightarrow> (mesh_error, resolved_join) result \<times> kv" where
  "resolve_owned E J community session local ow m =
     (if ow_owner ow = local then (Ok \<lparr>rj_outcome = LocalOwner (ow_generation ow), rj_acquired = None\<rparr>, m)
      else
        (let fenced = \<lparr>fh_session_id = session, fh_generation = ow_generation ow, fh_owner_runtime_id = ow_owner ow\<rparr>
         in try_in m (validate_fenced_header E (snd (ja_validate J)) (fst (ja_validate J)) m community fenced)
              (\<lambda>_. (Ok \<lparr>rj_outcome = RemoteOwner (ow_owner ow) (ow_generation ow), rj_acquired = None\<rparr>, m))))"

definition resolve_join ::
  "dir_env \<Rightarrow> join_answers \<Rightarrow> string \<Rightarrow> string \<Rightarrow> runtime_id \<Rightarrow> kv \<Rightarrow> (mesh_error, resolved_join) result \<times> kv" where
  "resolve_join E J community session local m =
     try_in m (huddle_owner_of E (snd (ja_lookup J)) (fst (ja_lookup J)) m community session) (\<lambda>found. case found of
         Some ow \<Rightarrow> resolve_owned E J community session local ow m
       | None \<Rightarrow> (case huddle_acquire E (snd (ja_acquire J)) (fst (ja_acquire J)) m community session local of
           (r, m') \<Rightarrow> try_in m' r (\<lambda>x. case x of
               Huddle_Acquired l \<Rightarrow> (Ok \<lparr>rj_outcome = LocalOwner (sl_generation l), rj_acquired = Some l\<rparr>, m')
             | Huddle_Held ow \<Rightarrow> resolve_owned E J community session local ow m')))"

definition OWNER_READY_MAX_ATTEMPTS :: nat where "OWNER_READY_MAX_ATTEMPTS = 25"

text \<open>
  \<^verbatim>\<open>resolve_join_owner_ready\<close>: each attempt has the result of its \<^verbatim>\<open>resolve_join\<close> and whether the registry
  had a live entry for the session afterwards.
\<close>
fun owner_ready_loop :: "((mesh_error, resolved_join) result \<times> bool) list \<Rightarrow> (mesh_error, resolved_join) result" where
  "owner_ready_loop [] = Err (Transport ''huddle owner not ready'')"
| "owner_ready_loop ((r, live) # attempts) = and_then r (\<lambda>resolved.
     case (rj_outcome resolved, rj_acquired resolved) of
       (LocalOwner _, None) \<Rightarrow> if live then Ok resolved else owner_ready_loop attempts
     | _ \<Rightarrow> Ok resolved)"

definition resolve_join_owner_ready :: "((mesh_error, resolved_join) result \<times> bool) list \<Rightarrow> (mesh_error, resolved_join) result" where
  "resolve_join_owner_ready attempts = owner_ready_loop (take OWNER_READY_MAX_ATTEMPTS attempts)"

text \<open>The renewal of an owned huddle, with the answers to the final release: whether it signalled a loss.\<close>
definition finish_huddle_renewal :: "dir_env \<Rightarrow> session_lease \<Rightarrow> nat \<times> dir_answers \<Rightarrow> bool \<Rightarrow> bool \<Rightarrow> kv \<Rightarrow> bool \<times> kv" where
  "finish_huddle_renewal E lease fin caller_cancelled lost m = (case huddle_release E (snd fin) (fst fin) m lease of
     (Inr Huddle_Released, m') \<Rightarrow> (lost, m')
   | (Inr Huddle_NotOwner, m') \<Rightarrow> (True, m')
   | (Inl _, m') \<Rightarrow> (if \<not> caller_cancelled then True else lost, m'))"

fun huddle_renewal_task ::
  "dir_env \<Rightarrow> session_lease \<Rightarrow> nat \<times> dir_answers \<Rightarrow> renew_event list \<Rightarrow> kv \<Rightarrow> (bool \<times> kv) option" where
  "huddle_renewal_task E lease fin [] m = None"
| "huddle_renewal_task E lease fin (Cancelled # evs) m = Some (finish_huddle_renewal E lease fin True False m)"
| "huddle_renewal_task E lease fin (Ticked now A # evs) m = (case huddle_renew E A now m lease of
     (Inr (Huddle_Renewed _), m') \<Rightarrow> huddle_renewal_task E lease fin evs m'
   | (Inr Huddle_Lost, m') \<Rightarrow> Some (finish_huddle_renewal E lease fin False True m')
   | (Inl _, m') \<Rightarrow> Some (finish_huddle_renewal E lease fin False True m'))"

section \<open>The registry of owned huddles\<close>

text \<open>A cancellation token is a number; the registry knows which are cancelled. The renewers it started are recorded with their token.\<close>
type_synonym token = nat

record owner_entry =
  oe_lost :: token
  oe_draining :: token
  oe_cancel :: token
  oe_generation :: nat

record owner_registry =
  or_entries :: "(string \<times> owner_entry) list"
  or_draining :: bool
  or_cancelled :: "token set"
  or_next :: token
  or_renewers :: "(session_lease \<times> token) list"

definition is_draining :: "owner_registry \<Rightarrow> bool" where
  "is_draining R = or_draining R"

definition lost_for :: "string \<Rightarrow> owner_registry \<Rightarrow> token option" where
  "lost_for session R = map_option oe_lost (map_of (or_entries R) session)"

definition drain_for :: "string \<Rightarrow> owner_registry \<Rightarrow> token option" where
  "drain_for session R = map_option oe_draining (map_of (or_entries R) session)"

definition token_new :: "owner_registry \<Rightarrow> token \<times> owner_registry" where
  "token_new R = (or_next R, R\<lparr>or_next := or_next R + 1\<rparr>)"

definition token_cancel :: "token \<Rightarrow> owner_registry \<Rightarrow> owner_registry" where
  "token_cancel t R = R\<lparr>or_cancelled := insert t (or_cancelled R)\<rparr>"

text \<open>\<^verbatim>\<open>spawn_observable_huddle_renewer\<close> gives the renewer a fresh loss signal.\<close>
definition spawn_renewer :: "session_lease \<Rightarrow> token \<Rightarrow> owner_registry \<Rightarrow> token \<times> owner_registry" where
  "spawn_renewer lease cancel R = token_new (R\<lparr>or_renewers := or_renewers R @ [(lease, cancel)]\<rparr>)"

text \<open>A renewer that is cancelled from the start, which releases its lease.\<close>
definition release_at_once :: "session_lease \<Rightarrow> owner_registry \<Rightarrow> owner_registry" where
  "release_at_once lease R = (let (cancel, R1) = token_new R in snd (spawn_renewer lease cancel (token_cancel cancel R1)))"

definition registry_remove :: "string \<Rightarrow> nat \<Rightarrow> (owner_entry \<Rightarrow> owner_registry \<Rightarrow> owner_registry) \<Rightarrow> owner_registry \<Rightarrow> bool \<times> owner_registry" where
  "registry_remove session generation act R = (case map_of (or_entries R) session of
     Some e \<Rightarrow> if oe_generation e = generation
               then (True, act e (R\<lparr>or_entries := filter (\<lambda>(s, _). s \<noteq> session) (or_entries R)\<rparr>)) else (False, R)
   | None \<Rightarrow> (False, R))"

definition registry_release :: "string \<Rightarrow> nat \<Rightarrow> owner_registry \<Rightarrow> owner_registry" where
  "registry_release session generation R = snd (registry_remove session generation (\<lambda>e. token_cancel (oe_cancel e)) R)"

definition registry_drain :: "string \<Rightarrow> nat \<Rightarrow> owner_registry \<Rightarrow> bool \<times> owner_registry" where
  "registry_drain session generation =
     registry_remove session generation (\<lambda>e R. token_cancel (oe_cancel e) (token_cancel (oe_draining e) R))"

fun drain_rooms :: "(string \<times> nat) list \<Rightarrow> owner_registry \<Rightarrow> nat \<times> owner_registry" where
  "drain_rooms [] R = (0, R)"
| "drain_rooms ((session, generation) # rooms) R =
     (let (b, R1) = registry_drain session generation R; (n, R2) = drain_rooms rooms R1
      in ((if b then 1 else 0) + n, R2))"

definition drain_all :: "owner_registry \<Rightarrow> nat \<times> owner_registry" where
  "drain_all R = drain_rooms (map (\<lambda>(s, e). (s, oe_generation e)) (or_entries R)) (R\<lparr>or_draining := True\<rparr>)"

text \<open>
  \<^verbatim>\<open>attach_signals\<close>: the loss and the drain signal. Shutdown may begin between the first look at the flag and
  the second (\<^verbatim>\<open>late_drain\<close>).
\<close>
definition attach_signals :: "bool \<Rightarrow> string \<Rightarrow> session_lease \<Rightarrow> owner_registry \<Rightarrow> (token \<times> token) \<times> owner_registry" where
  "attach_signals late_drain session lease R =
     (if is_draining R then
        (let R1 = release_at_once lease R; (draining, R2) = token_new R1; (lost, R3) = token_new (token_cancel draining R2)
         in ((lost, draining), R3))
      else (case map_of (or_entries R) session of
          Some e \<Rightarrow> ((oe_lost e, oe_draining e), release_at_once lease R)
        | None \<Rightarrow>
            (let (cancel, R1) = token_new R; (lost, R2) = spawn_renewer lease cancel R1; (draining, R3) = token_new R2;
                 R4 = R3\<lparr>or_entries := or_entries R3 @ [(session,
                   \<lparr>oe_lost = lost, oe_draining = draining, oe_cancel = cancel, oe_generation = sl_generation lease\<rparr>)]\<rparr>;
                 R5 = (if late_drain then R4\<lparr>or_draining := True\<rparr> else R4)
             in if is_draining R5
                then ((lost, draining), token_cancel cancel (token_cancel draining (snd (registry_drain session (sl_generation lease) R5))))
                else ((lost, draining), R5))))"

section \<open>Control messages\<close>

datatype fence_rejection = FR_StaleGeneration | FR_NoActiveLease | FR_OwnerMismatch | FR_FutureGeneration

datatype register_rejection = RR_RoomFull | RR_RoomEnded | RR_VersionMismatch u8 u8 | RR_Fenced fence_rejection

datatype huddle_control_msg =
    RegisterPeer string string u8
  | PeerRegistered string u8 u8 roster_snapshot
  | RosterSnapshotMsg roster_snapshot
  | RosterDeltaMsg roster_delta
  | RosterResync
  | RegisterRejected string register_rejection
  | UnregisterPeer string

fun fence_rejection_of :: "mesh_error \<Rightarrow> fence_rejection option" where
  "fence_rejection_of (StaleGenerationError _ _ _) = Some FR_StaleGeneration"
| "fence_rejection_of (NoActiveLease _ _ _ _) = Some FR_NoActiveLease"
| "fence_rejection_of (OwnerMismatch _ _ _ _) = Some FR_OwnerMismatch"
| "fence_rejection_of (FutureGeneration _ _ _) = Some FR_FutureGeneration"
| "fence_rejection_of _ = None"

fun fence_rejection_code :: "fence_rejection \<Rightarrow> string" where
  "fence_rejection_code FR_StaleGeneration = ''stale_generation''"
| "fence_rejection_code FR_NoActiveLease = ''no_active_lease''"
| "fence_rejection_code FR_OwnerMismatch = ''owner_mismatch''"
| "fence_rejection_code FR_FutureGeneration = ''future_generation''"

fun admission_to_rejection :: "admission_error \<Rightarrow> register_rejection" where
  "admission_to_rejection Room_Full = RR_RoomFull"
| "admission_to_rejection Room_Ended = RR_RoomEnded"
| "admission_to_rejection (VersionMismatch pinned requested) = RR_VersionMismatch pinned requested"

text \<open>The encoder and the decoder of control messages and the texts of the JSON for the clients of a room.\<close>
record control_env =
  ce_encode :: "huddle_control_msg \<Rightarrow> (mesh_error, bytes) result"
  ce_decode :: "bytes \<Rightarrow> (mesh_error, huddle_control_msg) result"
  ce_joined :: "roster_peer \<Rightarrow> nat \<Rightarrow> string"
  ce_left :: "roster_peer \<Rightarrow> nat \<Rightarrow> string"

section \<open>The owner's end of a control stream\<close>

definition huddle_accept :: "runtime_id \<Rightarrow> runtime_id \<Rightarrow> stream_hello \<Rightarrow> (mesh_error, fenced_header) result" where
  "huddle_accept local from_peer hello =
     (if hello_sender hello \<noteq> from_peer then Err (Transport ''huddle-control hello.sender != authenticated peer'')
      else (case hello_role hello of
          Control \<Rightarrow> Err (Transport ''huddle-control stream Hello was not a session role'')
        | Session fenced prof \<Rightarrow>
            if prof \<noteq> HuddleControl then Err (Transport ''huddle-control acceptor got another profile'')
            else if fh_owner_runtime_id fenced \<noteq> local
            then Err (OwnerMismatch (fh_session_id fenced) (fh_generation fenced) (fh_owner_runtime_id fenced) local)
            else Ok fenced))"

text \<open>The pod of the owner: its rooms, its registry and the sinks of its remote peers.\<close>
record owner_pod =
  op_rooms :: rooms
  op_owners :: owner_registry
  op_sinks :: "peer_id \<rightharpoonup> runtime_id"

definition peer_left_control :: "control_env \<Rightarrow> roster_delta \<Rightarrow> string option" where
  "peer_left_control C d = map_option (\<lambda>p. ce_left C p (rd_revision d)) (rd_left d)"

definition broadcast_peer_left :: "control_env \<Rightarrow> roster_delta \<Rightarrow> room \<Rightarrow> room" where
  "broadcast_peer_left C d r = (case peer_left_control C d of None \<Rightarrow> r | Some json \<Rightarrow> broadcast_control json r)"

definition remove_remote_peer :: "control_env \<Rightarrow> string \<Rightarrow> string \<Rightarrow> nat \<Rightarrow> peer_id \<Rightarrow> owner_pod \<Rightarrow> owner_pod" where
  "remove_remote_peer C community session generation i P = (case get_room community session (op_rooms P) of
     None \<Rightarrow> P
   | Some r \<Rightarrow> (case remove_peer_and_check_ended i r of
       (None, _) \<Rightarrow> P
     | (Some (d, should_end), r') \<Rightarrow>
         (let rooms' = update_room (community, session) (\<lambda>_. broadcast_peer_left C d r') (op_rooms P);
              (cleaned, rooms'') = (if should_end then cleanup_if_empty community session rooms' else (False, rooms'))
          in P\<lparr>op_rooms := rooms'',
               op_owners := (if should_end \<and> cleaned then registry_release session generation (op_owners P) else op_owners P)\<rparr>)))"

text \<open>The state of the loop: whom the stream registered, its community and its subscription of the roster.\<close>
record control_loop =
  cl_registered :: "(string \<times> peer_id) list"
  cl_community :: "string option"
  cl_roster_rx :: "nat option"

definition register_remote_peer ::
  "control_env \<Rightarrow> string \<times> string \<Rightarrow> runtime_id \<Rightarrow> peer_id \<Rightarrow> string \<Rightarrow> u8 \<Rightarrow> control_loop \<Rightarrow> owner_pod \<Rightarrow> room
    \<Rightarrow> huddle_control_msg \<times> control_loop \<times> owner_pod" where
  "register_remote_peer C k from_peer i pubkey version L P r = (case add_peer i pubkey version r of
     (Inr (idx, epoch, revision), r') \<Rightarrow>
       (let r'' = broadcast_control (ce_joined C \<lparr>rp_pubkey = pubkey, rp_peer_index = idx, rp_epoch = epoch\<rparr> revision) r'
        in (PeerRegistered pubkey idx epoch (room_snapshot r''),
            L\<lparr>cl_registered := filter (\<lambda>(pk, _). pk \<noteq> pubkey) (cl_registered L) @ [(pubkey, i)]\<rparr>,
            P\<lparr>op_rooms := update_room k (\<lambda>_. r'') (op_rooms P), op_sinks := (op_sinks P)(i \<mapsto> from_peer)\<rparr>))
   | (Inl e, r') \<Rightarrow> (RegisterRejected pubkey (admission_to_rejection e), L, P\<lparr>op_rooms := update_room k (\<lambda>_. r') (op_rooms P)\<rparr>))"

text \<open>The message for what a subscription of the roster gives.\<close>
fun roster_event_message :: "room \<Rightarrow> roster_delta recv_result \<Rightarrow> huddle_control_msg" where
  "roster_event_message r (Received d) = RosterDeltaMsg d"
| "roster_event_message r Lagged = RosterSnapshotMsg (room_snapshot r)"

text \<open>
  What wakes the loop. A frame comes with what the directory says to the fence, a fresh identifier, and with
  whether the stream takes the answer.
\<close>
datatype loop_event =
    Ev_Drain
  | Ev_Lost
  | Ev_Roster "(mesh_error, unit) result"
  | Ev_Frame "(mesh_error, mesh_stream_frame option) result" "(mesh_error, unit) result" peer_id "(mesh_error, unit) result"

text \<open>The loop goes on, is left towards the teardown, or the function returns in the middle of it.\<close>
datatype loop_result =
    Continue control_loop
  | Break "(mesh_error, unit) result" "goodbye_reason option" control_loop
  | Return mesh_error

definition send_control :: "control_env \<Rightarrow> fenced_header \<Rightarrow> huddle_control_msg \<Rightarrow> (mesh_error, unit) result \<Rightarrow> (mesh_error, mesh_stream_frame) result" where
  "send_control C fenced msg sent = and_then (ce_encode C msg) (\<lambda>b. and_then sent (\<lambda>_. Ok (Data fenced b)))"

definition loop_register ::
  "control_env \<Rightarrow> fenced_header \<Rightarrow> runtime_id \<Rightarrow> string \<Rightarrow> string \<Rightarrow> u8 \<Rightarrow> (mesh_error, unit) result \<Rightarrow> peer_id \<Rightarrow> (mesh_error, unit) result
    \<Rightarrow> control_loop \<Rightarrow> owner_pod \<Rightarrow> loop_result \<times> owner_pod \<times> mesh_stream_frame list" where
  "loop_register C fenced from_peer community pubkey version fence i sent L P =
     (if cl_community L \<noteq> None \<and> cl_community L \<noteq> Some community
      then (Break (Err (Transport ''huddle-control stream community changed'')) None L, P, [])
      else
        (let L1 = L\<lparr>cl_community := Some community\<rparr>; k = (community, fh_session_id fenced)
         in if is_draining (op_owners P) then (Break (Ok ()) (Some Draining) L1, P, [])
            else
              (let (r, rooms1) = get_or_create community (fh_session_id fenced) (op_rooms P);
                   (rx, r1) = subscribe_roster r;
                   P1 = P\<lparr>op_rooms := update_room k (\<lambda>_. r1) rooms1\<rparr>;
                   reply = (case fence of
                       Inr _ \<Rightarrow> Inr (register_remote_peer C k from_peer i pubkey version L1 P1 r1)
                     | Inl e \<Rightarrow> (case fence_rejection_of e of
                         Some reason \<Rightarrow> Inr (RegisterRejected pubkey (RR_Fenced reason), L1, P1)
                       | None \<Rightarrow> Inl e))
               in (case reply of
                     Inl e \<Rightarrow> (Break (Err e) None L1, P1, [])
                   | Inr (msg, L2, P2) \<Rightarrow> (case ce_encode C msg of
                       Inl e \<Rightarrow> (Return e, P2, [])
                     | Inr b \<Rightarrow> (case sent of
                         Inl e \<Rightarrow> (Break (Err e) None L2, P2, [])
                       | Inr _ \<Rightarrow> (Continue (case msg of PeerRegistered _ _ _ _ \<Rightarrow> L2\<lparr>cl_roster_rx := Some rx\<rparr> | _ \<Rightarrow> L2), P2, [Data fenced b])))))))"

definition loop_message ::
  "control_env \<Rightarrow> fenced_header \<Rightarrow> runtime_id \<Rightarrow> huddle_control_msg \<Rightarrow> (mesh_error, unit) result \<Rightarrow> peer_id \<Rightarrow> (mesh_error, unit) result
    \<Rightarrow> control_loop \<Rightarrow> owner_pod \<Rightarrow> loop_result \<times> owner_pod \<times> mesh_stream_frame list" where
  "loop_message C fenced from_peer msg fence i sent L P = (case msg of
     RegisterPeer community pubkey version \<Rightarrow> loop_register C fenced from_peer community pubkey version fence i sent L P
   | UnregisterPeer pubkey \<Rightarrow>
       (let L' = L\<lparr>cl_registered := filter (\<lambda>(pk, _). pk \<noteq> pubkey) (cl_registered L)\<rparr>
        in (Continue L', (case (map_of (cl_registered L) pubkey, cl_community L) of
              (Some peer, Some community) \<Rightarrow> remove_remote_peer C community (fh_session_id fenced) (fh_generation fenced) peer P
            | _ \<Rightarrow> P), []))
   | RosterResync \<Rightarrow>
       (case Option.bind (cl_community L) (\<lambda>community. get_room community (fh_session_id fenced) (op_rooms P)) of
          None \<Rightarrow> (Break (Ok ()) None L, P, [])
        | Some r \<Rightarrow> (case send_control C fenced (RosterSnapshotMsg (room_snapshot r)) sent of
            Inl e \<Rightarrow> (Return e, P, [])
          | Inr f \<Rightarrow> (Continue L, P, [f])))
   | _ \<Rightarrow> (Break (Err (Transport ''huddle-control owner received an owner to non-owner reply'')) None L, P, []))"

text \<open>
  A subscription belongs to the room it was made in. The manager keeps that room as long as a peer of the stream is
  in it; a room that is gone has closed its subscriptions.
\<close>
definition loop_roster ::
  "control_env \<Rightarrow> fenced_header \<Rightarrow> (mesh_error, unit) result \<Rightarrow> control_loop \<Rightarrow> owner_pod \<Rightarrow> loop_result \<times> owner_pod \<times> mesh_stream_frame list" where
  "loop_roster C fenced sent L P = (case (cl_community L, cl_roster_rx L) of
     (Some community, Some rx) \<Rightarrow>
       (case get_room community (fh_session_id fenced) (op_rooms P) of
          None \<Rightarrow> (Break (Ok ()) None L, P, [])
        | Some r \<Rightarrow>
            if \<not> rx < length (rm_roster_rx r) then (Break (Ok ()) None L, P, [])
            else (case brx_recv (rm_roster_rx r ! rx) of
                None \<Rightarrow> (Continue L, P, [])
              | Some (event, rx') \<Rightarrow>
                  (let P' = P\<lparr>op_rooms := update_room (community, fh_session_id fenced) (\<lambda>_. r\<lparr>rm_roster_rx := (rm_roster_rx r)[rx := rx']\<rparr>) (op_rooms P)\<rparr>
                   in case send_control C fenced (roster_event_message r event) sent of
                        Inl e \<Rightarrow> (Return e, P', [])
                      | Inr f \<Rightarrow> (Continue L, P', [f]))))
   | _ \<Rightarrow> (Continue L, P, []))"

definition loop_step ::
  "control_env \<Rightarrow> runtime_id \<Rightarrow> fenced_header \<Rightarrow> runtime_id \<Rightarrow> loop_event \<Rightarrow> control_loop \<Rightarrow> owner_pod
    \<Rightarrow> loop_result \<times> owner_pod \<times> mesh_stream_frame list" where
  "loop_step C local fenced from_peer ev L P = (case ev of
     Ev_Drain \<Rightarrow> (Break (Ok ()) (Some Draining) L, P, [])
   | Ev_Lost \<Rightarrow> (Break (Ok ()) (Some StaleGeneration) L, P, [])
   | Ev_Roster sent \<Rightarrow> loop_roster C fenced sent L P
   | Ev_Frame frame fence i sent \<Rightarrow> (case frame of
       Inl e \<Rightarrow> (Break (Err e) None L, P, [])
     | Inr None \<Rightarrow> (Break (Ok ()) None L, P, [])
     | Inr (Some (Goodbye _ _)) \<Rightarrow> (Break (Ok ()) None L, P, [])
     | Inr (Some (Data f b)) \<Rightarrow>
         if f \<noteq> fenced
         then (Break (Err (OwnerMismatch (fh_session_id fenced) (fh_generation f) (fh_owner_runtime_id f) local)) None L, P, [])
         else (case ce_decode C b of
             Inl e \<Rightarrow> (Break (Err e) None L, P, [])
           | Inr msg \<Rightarrow> loop_message C fenced from_peer msg fence i sent L P)
     | Inr (Some _) \<Rightarrow> (Break (Err (Transport ''huddle-control stream got unexpected frame'')) None L, P, [])))"

fun loop_teardown :: "control_env \<Rightarrow> fenced_header \<Rightarrow> string \<Rightarrow> (string \<times> peer_id) list \<Rightarrow> owner_pod \<Rightarrow> owner_pod" where
  "loop_teardown C fenced community [] P = P"
| "loop_teardown C fenced community ((_, i) # peers) P =
     loop_teardown C fenced community peers (remove_remote_peer C community (fh_session_id fenced) (fh_generation fenced) i P)"

text \<open>\<^verbatim>\<open>serve_control_loop\<close> on the events of its life: its result, the pod, what it sent; no result while it runs.\<close>
fun serve_control_loop ::
  "control_env \<Rightarrow> runtime_id \<Rightarrow> fenced_header \<Rightarrow> runtime_id \<Rightarrow> loop_event list \<Rightarrow> control_loop \<Rightarrow> owner_pod
    \<Rightarrow> (mesh_error, unit) result option \<times> owner_pod \<times> mesh_stream_frame list" where
  "serve_control_loop C local fenced from_peer [] L P = (None, P, [])"
| "serve_control_loop C local fenced from_peer (ev # evs) L P = (case loop_step C local fenced from_peer ev L P of
     (Continue L', P', fs) \<Rightarrow> (case serve_control_loop C local fenced from_peer evs L' P' of (r, P'', fs') \<Rightarrow> (r, P'', fs @ fs'))
   | (Break r reason L', P', fs) \<Rightarrow>
       (Some r, (case cl_community L' of Some community \<Rightarrow> loop_teardown C fenced community (cl_registered L') P' | None \<Rightarrow> P'),
        fs @ (case reason of Some g \<Rightarrow> [Goodbye fenced g] | None \<Rightarrow> []))
   | (Return e, P', fs) \<Rightarrow> (Some (Err e), P', fs))"

section \<open>The client's end\<close>

datatype huddle_teardown_cause = OwnerLost | OwnerDraining | Huddle_SessionEnded | StreamClosed

fun cause_of_goodbye :: "goodbye_reason \<Rightarrow> huddle_teardown_cause" where
  "cause_of_goodbye StaleGeneration = OwnerLost"
| "cause_of_goodbye Draining = OwnerDraining"
| "cause_of_goodbye SessionEnded = Huddle_SessionEnded"

text \<open>What the client is told.\<close>
datatype client_msg = Client_Roster nat "roster_peer list" | Client_Joined nat roster_peer | Client_Left nat roster_peer

text \<open>One control message: the revision, what the client is told and whether a snapshot is asked for.\<close>
definition owner_control :: "huddle_control_msg \<Rightarrow> nat \<Rightarrow> nat \<times> client_msg option \<times> bool" where
  "owner_control msg revision = (case msg of
     RosterSnapshotMsg snap \<Rightarrow> (rs_revision snap, Some (Client_Roster (rs_revision snap) (rs_peers snap)), False)
   | RosterDeltaMsg d \<Rightarrow>
       if rd_revision d = wrapping_revision revision
       then (rd_revision d, (case rd_joined d of
               Some p \<Rightarrow> Some (Client_Joined (rd_revision d) p)
             | None \<Rightarrow> map_option (Client_Left (rd_revision d)) (rd_left d)), False)
       else if rd_revision d \<le> revision then (revision, None, False)
       else (revision, None, True)
   | _ \<Rightarrow> (revision, None, False))"

text \<open>
  \<^verbatim>\<open>read_owner_control\<close> on what the stream gives: the cause of the end, if it came, what the client was told and the
  frames sent. The list says for each message to the client and each frame whether it was taken.
\<close>
fun read_owner_control ::
  "control_env \<Rightarrow> fenced_header \<Rightarrow> nat \<Rightarrow> ((mesh_error, mesh_stream_frame option) result \<times> bool) list
    \<Rightarrow> huddle_teardown_cause option \<times> client_msg list \<times> mesh_stream_frame list" where
  "read_owner_control C fenced revision [] = (None, [], [])"
| "read_owner_control C fenced revision ((frame, taken) # input) = (case frame of
     Inl e \<Rightarrow> (Some StreamClosed, [], [])
   | Inr None \<Rightarrow> (Some StreamClosed, [], [])
   | Inr (Some (Goodbye _ reason)) \<Rightarrow> (Some (cause_of_goodbye reason), [], [])
   | Inr (Some (Data _ b)) \<Rightarrow> (case ce_decode C b of
       Inl e \<Rightarrow> read_owner_control C fenced revision input
     | Inr msg \<Rightarrow> (case owner_control msg revision of
         (revision', Some out, _) \<Rightarrow>
           if taken then (case read_owner_control C fenced revision' input of (c, outs, fs) \<Rightarrow> (c, out # outs, fs))
           else (Some Huddle_SessionEnded, [], [])
       | (revision', None, False) \<Rightarrow> read_owner_control C fenced revision' input
       | (revision', None, True) \<Rightarrow> (case ce_encode C RosterResync of
           Inl _ \<Rightarrow> (Some StreamClosed, [], [])
         | Inr b' \<Rightarrow>
             if taken then (case read_owner_control C fenced revision' input of (c, outs, fs) \<Rightarrow> (c, outs, Data fenced b' # fs))
             else (Some StreamClosed, [], []))))
   | Inr (Some _) \<Rightarrow> read_owner_control C fenced revision input)"

record remote_huddle_session =
  rh_peer_index :: u8
  rh_epoch :: u8
  rh_protocol_version :: u8
  rh_roster :: roster_snapshot
  rh_fenced :: fenced_header
  rh_owner :: runtime_id
  rh_pubkey :: string
  rh_seq :: nat

datatype dial_error = Dial_Rejected register_rejection | Dial_Mesh mesh_error

text \<open>\<^verbatim>\<open>dial_remote_owner\<close>: the answers to opening the stream and to sending, and the first frame of the owner, are arguments.\<close>
definition dial_remote_owner ::
  "control_env \<Rightarrow> runtime_id \<Rightarrow> fenced_header \<Rightarrow> string \<Rightarrow> string \<Rightarrow> u8 \<Rightarrow> (mesh_error, unit) result \<Rightarrow> (mesh_error, unit) result
    \<Rightarrow> (mesh_error, mesh_stream_frame option) result \<Rightarrow> (dial_error, remote_huddle_session) result" where
  "dial_remote_owner C owner fenced community pubkey version opened sent answer =
     (case and_then opened (\<lambda>_. and_then (ce_encode C (RegisterPeer community pubkey version)) (\<lambda>_. and_then sent (\<lambda>_. answer))) of
        Inl e \<Rightarrow> Err (Dial_Mesh e)
      | Inr (Some (Data _ b)) \<Rightarrow> (case ce_decode C b of
          Inl e \<Rightarrow> Err (Dial_Mesh e)
        | Inr (PeerRegistered _ idx epoch roster) \<Rightarrow>
            Ok \<lparr>rh_peer_index = idx, rh_epoch = epoch, rh_protocol_version = version, rh_roster = roster, rh_fenced = fenced,
                rh_owner = owner, rh_pubkey = pubkey, rh_seq = 0\<rparr>
        | Inr (RegisterRejected _ reason) \<Rightarrow> Err (Dial_Rejected reason)
        | Inr _ \<Rightarrow> Err (Dial_Mesh (Transport ''expected PeerRegistered/RegisterRejected'')))
      | Inr None \<Rightarrow> Err (Dial_Mesh (Transport ''owner closed HuddleControl stream before replying''))
      | Inr (Some (Goodbye _ _)) \<Rightarrow> Err (Dial_Mesh (Transport ''owner closed HuddleControl stream before replying''))
      | Inr (Some _) \<Rightarrow> Err (Dial_Mesh (Transport ''unexpected HuddleControl frame from owner'')))"

definition forward_media :: "bytes \<Rightarrow> remote_huddle_session \<Rightarrow> mesh_datagram \<times> remote_huddle_session" where
  "forward_media frame h =
     (media_datagram (rh_peer_index h) (rh_epoch h) (rh_protocol_version h) (rh_fenced h) (rh_seq h) frame,
      h\<lparr>rh_seq := wrapping_revision (rh_seq h)\<rparr>)"

text \<open>What is sent when the local client leaves.\<close>
definition send_clean_close :: "control_env \<Rightarrow> fenced_header \<Rightarrow> string \<Rightarrow> mesh_stream_frame list" where
  "send_clean_close C fenced pubkey =
     (case ce_encode C (UnregisterPeer pubkey) of Inr b \<Rightarrow> [Data fenced b] | Inl _ \<Rightarrow> []) @ [Goodbye fenced SessionEnded]"

section \<open>The roster over a control stream\<close>

text \<open>
  A client on another pod and its owner: the owner's room with everything that happens in it, the subscription the
  stream made, the control messages on the way to the client's pod and back, and the reader there with the
  revision it is at and what it told the client. Messages on a stream arrive in order.
\<close>
datatype stream_phase = Subscribed | Admitted string u8 u8 | Serving

record roster_stream =
  st_room :: room_state
  st_rx :: nat
  st_phase :: stream_phase
  st_down :: "huddle_control_msg list"
  st_up :: "huddle_control_msg list"
  st_reader :: "(nat \<times> client_msg list) option"

datatype stream_label = S_Room room_op | S_Admit | S_Reply | S_Roster | S_Answer | S_Dialed | S_Read

definition room_of :: "roster_stream \<Rightarrow> room" where
  "room_of s = rst_room (st_room s)"

definition options :: "'a option \<Rightarrow> 'a list" where
  "options x = (case x of Some a \<Rightarrow> [a] | None \<Rightarrow> [])"

inductive stream_step :: "roster_stream \<Rightarrow> stream_label \<Rightarrow> roster_stream \<Rightarrow> bool" where
  ss_room: "op \<noteq> Op_Recv (st_rx s) \<Longrightarrow> op_fresh op (room_of s) \<Longrightarrow>
     stream_step s (S_Room op) (s\<lparr>st_room := room_after op (st_room s)\<rparr>)"
| ss_admit: "st_phase s = Subscribed \<Longrightarrow> op_fresh (Op_Add i pk v) (room_of s) \<Longrightarrow>
     op_admission (Op_Add i pk v) (room_of s) = Some (pk, idx, epoch, n) \<Longrightarrow>
     stream_step s S_Admit (s\<lparr>st_room := room_after (Op_Add i pk v) (st_room s), st_phase := Admitted pk idx epoch\<rparr>)"
| ss_reply: "st_phase s = Admitted pk idx epoch \<Longrightarrow>
     stream_step s S_Reply (s\<lparr>st_phase := Serving, st_down := st_down s @ [PeerRegistered pk idx epoch (room_snapshot (room_of s))]\<rparr>)"
| ss_roster: "st_phase s = Serving \<Longrightarrow> brx_recv (rm_roster_rx (room_of s) ! st_rx s) = Some (event, rx) \<Longrightarrow>
     stream_step s S_Roster (s\<lparr>st_room := room_after (Op_Recv (st_rx s)) (st_room s),
       st_down := st_down s @ [roster_event_message (room_of s) event]\<rparr>)"
| ss_answer: "st_phase s = Serving \<Longrightarrow> st_up s = RosterResync # up \<Longrightarrow>
     stream_step s S_Answer (s\<lparr>st_up := up, st_down := st_down s @ [RosterSnapshotMsg (room_snapshot (room_of s))]\<rparr>)"
| ss_dialed: "st_reader s = None \<Longrightarrow> st_down s = PeerRegistered pk idx epoch snap # down \<Longrightarrow>
     stream_step s S_Dialed (s\<lparr>st_down := down, st_reader := Some (rs_revision snap, [Client_Roster (rs_revision snap) (rs_peers snap)])\<rparr>)"
| ss_read: "st_reader s = Some (n, out) \<Longrightarrow> st_down s = msg # down \<Longrightarrow> owner_control msg n = (n', told, resync) \<Longrightarrow>
     stream_step s S_Read (s\<lparr>st_down := down, st_reader := Some (n', out @ options told),
       st_up := st_up s @ (if resync then [RosterResync] else [])\<rparr>)"

inductive_cases stream_stepE: "stream_step s l t"

text \<open>A stream begins with a subscription in some room that is in use.\<close>
definition stream_start :: "roster_stream \<Rightarrow> bool" where
  "stream_start s \<longleftrightarrow> (\<exists>u. reachable room_start room_step u
     \<and> s = \<lparr>st_room = room_after Op_Subscribe u, st_rx = fst (subscribe_roster (rst_room u)), st_phase = Subscribed,
            st_down = [], st_up = [], st_reader = None\<rparr>)"

text \<open>What a client makes of what it was told.\<close>
definition roster_entries :: "roster_peer list \<Rightarrow> roster_view" where
  "roster_entries ps = map_of (map (\<lambda>p. (rp_peer_index p, rp_pubkey p, rp_epoch p)) ps)"

fun client_apply :: "client_msg \<Rightarrow> roster_view \<Rightarrow> roster_view" where
  "client_apply (Client_Roster _ ps) m = roster_entries ps"
| "client_apply (Client_Joined _ p) m = m(rp_peer_index p \<mapsto> (rp_pubkey p, rp_epoch p))"
| "client_apply (Client_Left _ p) m = m(rp_peer_index p := None)"

definition client_view :: "client_msg list \<Rightarrow> roster_view" where
  "client_view out = fold client_apply out Map.empty"

text \<open>The revision after reading messages; none when a delta is missing.\<close>
fun reads :: "nat \<Rightarrow> huddle_control_msg list \<Rightarrow> nat option" where
  "reads n [] = Some n"
| "reads n (RosterSnapshotMsg snap # ms) = reads (rs_revision snap) ms"
| "reads n (RosterDeltaMsg d # ms) =
     (if rd_revision d = Suc n then reads (Suc n) ms else if rd_revision d \<le> n then reads n ms else None)"
| "reads n (_ # ms) = None"

lemma reads_snoc: "reads n (ms @ [m]) = Option.bind (reads n ms) (\<lambda>k. reads k [m])"
  by (induction n ms rule: reads.induct) auto

definition snap_ok :: "roster_delta list \<Rightarrow> roster_snapshot \<Rightarrow> bool" where
  "snap_ok ds snap \<longleftrightarrow> rs_revision snap \<le> length ds \<and> roster_entries (rs_peers snap) = replay (take (rs_revision snap) ds)"

fun msg_ok :: "roster_delta list \<Rightarrow> huddle_control_msg \<Rightarrow> bool" where
  "msg_ok ds (RosterSnapshotMsg snap) \<longleftrightarrow> snap_ok ds snap"
| "msg_ok ds (RosterDeltaMsg d) \<longleftrightarrow> (\<exists>k < length ds. d = ds ! k)"
| "msg_ok ds _ \<longleftrightarrow> True"

text \<open>The subscription goes on at or before the revision the messages on the way lead to, or it will say that it lagged.\<close>
definition follows :: "roster_delta list \<Rightarrow> roster_delta broadcast_rx \<Rightarrow> nat \<Rightarrow> bool" where
  "follows ds rx n \<longleftrightarrow> n \<le> length ds \<and> (\<exists>a \<le> length ds. brx_queue rx = drop a ds \<and> (brx_lagged rx \<or> a \<le> n))"

definition rx_of :: "roster_stream \<Rightarrow> roster_delta broadcast_rx" where
  "rx_of s = rm_roster_rx (room_of s) ! st_rx s"

text \<open>The messages on the way are true and lead a reader at a revision to where the subscription goes on.\<close>
definition carried :: "roster_delta list \<Rightarrow> roster_delta broadcast_rx \<Rightarrow> nat \<Rightarrow> huddle_control_msg list \<Rightarrow> bool" where
  "carried ds rx k ms \<longleftrightarrow> list_all (msg_ok ds) ms \<and> (\<exists>n. reads k ms = Some n \<and> follows ds rx n)"

definition reader_ok :: "roster_delta list \<Rightarrow> roster_stream \<Rightarrow> bool" where
  "reader_ok ds s \<longleftrightarrow> st_up s = [] \<and>
     (if st_phase s \<noteq> Serving then st_reader s = None \<and> st_down s = []
      else (case st_reader s of
          None \<Rightarrow> (\<exists>pk idx e snap ms. st_down s = PeerRegistered pk idx e snap # ms \<and> snap_ok ds snap \<and> carried ds (rx_of s) (rs_revision snap) ms)
        | Some (k, out) \<Rightarrow> k \<le> length ds \<and> client_view out = replay (take k ds) \<and> carried ds (rx_of s) k (st_down s)))"

definition stream_inv :: "roster_stream \<Rightarrow> bool" where
  "stream_inv s \<longleftrightarrow> room_inv (st_room s) \<and> st_rx s < length (rm_roster_rx (room_of s))
     \<and> (length (rst_deltas (st_room s)) < 2 ^ 64 \<longrightarrow> reader_ok (rst_deltas (st_room s)) s)"

subsection \<open>The invariant of a stream\<close>

lemma snapshot_exact:
  assumes "room_inv u" "length (rst_deltas u) < 2 ^ 64"
  shows "rs_revision (room_snapshot (rst_room u)) = length (rst_deltas u)"
    "roster_entries (rs_peers (room_snapshot (rst_room u))) = replay (rst_deltas u)"
proof -
  let ?r = "rst_room u"
  have inv: "seats_ok (who ?r) (rm_guard ?r)" "deltas_ok (who ?r) (rm_guard ?r) (rst_deltas u)" using assms(1) by (simp_all add: room_inv_def)
  show "rs_revision (room_snapshot ?r) = length (rst_deltas u)" using inv(2) assms(2) by (simp add: room_snapshot_def deltas_ok_def)
  let ?f = "\<lambda>p. (rp_peer_index p, rp_pubkey p, rp_epoch p)" and ?g = "\<lambda>(i :: peer_id, pk, idx, e, v :: u8). (idx :: u8, pk :: string, e :: u8)"
  let ?ps = "map (roster_entry \<circ> snd) (rm_peers ?r)"
  have eq: "map ?f ?ps = map ?g (who ?r)" by (auto simp: who_def occupant_of_def roster_entry_def)
  have fst: "map (fst \<circ> ?g) (who ?r) = map oc_index (who ?r)" by (auto simp: oc_index_def)
  have dist: "distinct (map fst (map ?g (who ?r)))" unfolding map_map fst using inv(1) by (simp add: seats_ok_def)
  have "distinct (map (fst \<circ> ?f) ?ps)" using dist unfolding eq[symmetric] by (simp only: map_map o_assoc)
  then have "distinct (map fst (map ?f (sort_key (unat \<circ> rp_peer_index) ?ps)))"
    by (simp only: map_map[of fst ?f] distinct_map_sort_key)
  moreover have "set (map ?f (sort_key (unat \<circ> rp_peer_index) ?ps)) = set (map ?g (who ?r))"
    unfolding eq[symmetric] by (simp only: set_map[of ?f] set_sort)
  ultimately have "roster_entries (rs_peers (room_snapshot ?r)) = view_of (who ?r)"
    unfolding roster_entries_def view_of_def room_snapshot_def by (simp add: map_of_inject_set[OF _ dist, THEN iffD2])
  then show "roster_entries (rs_peers (room_snapshot ?r)) = replay (rst_deltas u)" using inv(2) by (simp add: deltas_ok_def)
qed

lemma snapshot_ok: "room_inv u \<Longrightarrow> length (rst_deltas u) < 2 ^ 64 \<Longrightarrow> snap_ok (rst_deltas u) (room_snapshot (rst_room u))"
  using snapshot_exact by (simp add: snap_ok_def)

lemma delta_revision:
  assumes "room_inv u" "length (rst_deltas u) < 2 ^ 64" "k < length (rst_deltas u)"
  shows "rd_revision (rst_deltas u ! k) = Suc k"
proof -
  have "Suc k < 2 ^ 64" using assms(2,3) by linarith
  then show ?thesis using assms(1,3) by (simp add: room_inv_def deltas_ok_def)
qed

lemma snap_ok_append: "snap_ok ds snap \<Longrightarrow> snap_ok (ds @ es) snap"
  by (simp add: snap_ok_def)

lemma msg_ok_append: "msg_ok ds m \<Longrightarrow> msg_ok (ds @ es) m"
  by (cases m) (auto simp: snap_ok_append nth_append)

lemma msgs_ok_append: "list_all (msg_ok ds) ms \<Longrightarrow> list_all (msg_ok (ds @ es)) ms"
  by (auto simp: list_all_iff msg_ok_append)

lemma follows_send: "follows ds rx n \<Longrightarrow> follows (ds @ [d]) (brx_send c d rx) n"
proof -
  assume "follows ds rx n"
  then obtain a where a: "n \<le> length ds" "a \<le> length ds" "brx_queue rx = drop a ds" "brx_lagged rx \<or> a \<le> n" by (auto simp: follows_def)
  show ?thesis
  proof (cases "length (brx_queue rx) < c")
    case True
    then show ?thesis using a by (auto simp: follows_def brx_send_def intro!: exI[of _ a])
  next
    case False
    have "drop 1 (brx_queue rx @ [d]) = drop (Suc a) (ds @ [d])" using a(2,3) by (simp add: drop_drop flip: drop_Suc)
    then show ?thesis using a False by (auto simp: follows_def brx_send_def intro!: exI[of _ "Suc a"])
  qed
qed

lemma follows_recv:
  assumes inv: "room_inv u" "length (rst_deltas u) < 2 ^ 64" and f: "follows (rst_deltas u) rx n"
    and r: "brx_recv rx = Some (event, rx')"
  obtains k where "reads n [roster_event_message (rst_room u) event] = Some k" "follows (rst_deltas u) rx' k"
    "msg_ok (rst_deltas u) (roster_event_message (rst_room u) event)"
proof (cases "brx_lagged rx")
  case True
  then have "event = Lagged" "rx' = rx\<lparr>brx_lagged := False\<rparr>" using r by (auto simp: brx_recv_def)
  then show thesis using that[of "length (rst_deltas u)"] f snapshot_ok[OF inv] snapshot_exact(1)[OF inv] by (auto simp: follows_def)
next
  case False
  obtain a where a: "n \<le> length (rst_deltas u)" "a \<le> length (rst_deltas u)" "brx_queue rx = drop a (rst_deltas u)" "a \<le> n"
    using f False by (auto simp: follows_def)
  obtain d rest where d: "event = Received d" "brx_queue rx = d # rest" "rx' = rx\<lparr>brx_queue := rest\<rparr>"
    using r False by (auto simp: brx_recv_def split: list.splits)
  have lt: "a < length (rst_deltas u)" using a(3) d(2) by (metis drop_all list.distinct(1) not_le)
  then have da: "d = rst_deltas u ! a" "rest = drop (Suc a) (rst_deltas u)"
    using a(3) d(2) Cons_nth_drop_Suc[OF lt] by (metis list.inject)+
  have "reads n [RosterDeltaMsg d] = Some (max n (Suc a))" using a(4) by (auto simp: da(1) delta_revision[OF inv lt])
  moreover have "follows (rst_deltas u) rx' (max n (Suc a))" using a(1) lt d(3) da(2) False by (auto simp: follows_def intro!: exI[of _ "Suc a"])
  ultimately show thesis using that lt da(1) d(1) by auto
qed

lemma client_view_snoc: "client_view (out @ options told) = (case told of Some m \<Rightarrow> client_apply m (client_view out) | None \<Rightarrow> client_view out)"
  by (simp add: client_view_def options_def split: option.splits)

lemma replay_step: "k < length ds \<Longrightarrow> replay (take (Suc k) ds) = apply_delta (ds ! k) (replay (take k ds))"
  by (simp add: replay_def take_Suc_conv_app_nth)

text \<open>The reader keeps up with the replay of the deltas and never has to ask for a snapshot.\<close>
lemma read_message:
  assumes inv: "room_inv u" "length (rst_deltas u) < 2 ^ 64"
    and v: "client_view out = replay (take k (rst_deltas u))" "k \<le> length (rst_deltas u)"
    and m: "msg_ok (rst_deltas u) msg" "reads k (msg # ms) = Some n" "owner_control msg k = (k', told, resync)"
  shows "\<not> resync \<and> k' \<le> length (rst_deltas u) \<and> client_view (out @ options told) = replay (take k' (rst_deltas u)) \<and> reads k' ms = Some n"
proof (cases msg)
  case (RosterSnapshotMsg snap)
  then show ?thesis using m by (auto simp: owner_control_def snap_ok_def client_view_snoc)
next
  case (RosterDeltaMsg d)
  then obtain j where j: "j < length (rst_deltas u)" "d = rst_deltas u ! j" using m(1) by auto
  have rev: "rd_revision d = Suc j" using delta_revision[OF inv j(1)] j(2) by simp
  have wrap: "wrapping_revision k = Suc k" if "j = k" using that j(1) inv(2) by (simp add: wrapping_revision_def)
  have nowrap: "Suc j = wrapping_revision k \<Longrightarrow> j = k"
  proof (rule ccontr)
    assume *: "Suc j = wrapping_revision k" "j \<noteq> k"
    have "Suc k \<le> 2 ^ 64" using v(2) inv(2) by simp
    then show False using * by (cases "Suc k = 2 ^ 64") (auto simp: wrapping_revision_def)
  qed
  show ?thesis
  proof (cases "j = k")
    case True
    have "client_view (out @ options told) = apply_delta d (client_view out)"
      using m(3) RosterDeltaMsg rev wrap[OF True] True by (auto simp: owner_control_def client_view_snoc apply_delta_def split: option.splits)
    then show ?thesis using m(2,3) RosterDeltaMsg rev wrap[OF True] True j v(1) replay_step[OF j(1)]
      by (auto simp: owner_control_def)
  next
    case False
    then have "Suc j \<le> k" using m(2) RosterDeltaMsg rev by (auto split: if_splits)
    then show ?thesis using m(2,3) RosterDeltaMsg rev False nowrap v by (auto simp: owner_control_def client_view_snoc split: if_splits)
  qed
qed (use m in simp_all)

lemma carried_room:
  assumes "carried ds rx k ms" "length es \<le> 1"
  shows "carried (ds @ es) (fold (brx_send c) es rx) k ms"
  using assms follows_send by (cases es) (auto simp: carried_def intro: msgs_ok_append)

lemma carried_roster:
  assumes "room_inv u" "length (rst_deltas u) < 2 ^ 64" "carried (rst_deltas u) rx k ms" "brx_recv rx = Some (event, rx')"
  shows "carried (rst_deltas u) rx' k (ms @ [roster_event_message (rst_room u) event])"
proof -
  obtain n where n: "list_all (msg_ok (rst_deltas u)) ms" "reads k ms = Some n" "follows (rst_deltas u) rx n"
    using assms(3) by (auto simp: carried_def)
  obtain j where "reads n [roster_event_message (rst_room u) event] = Some j" "follows (rst_deltas u) rx' j"
      "msg_ok (rst_deltas u) (roster_event_message (rst_room u) event)"
    by (rule follows_recv[OF assms(1,2) n(3) assms(4)])
  then show ?thesis using n by (simp add: carried_def reads_snoc)
qed

lemma stream_inv_room:
  assumes "stream_inv s" "op \<noteq> Op_Recv (st_rx s)" "op_fresh op (room_of s)"
  shows "stream_inv (s\<lparr>st_room := room_after op (st_room s)\<rparr>)"
proof -
  let ?u = "room_after op (st_room s)" and ?t = "s\<lparr>st_room := room_after op (st_room s)\<rparr>"
  have inv: "room_inv (st_room s)" "st_rx s < length (rm_roster_rx (room_of s))" using assms(1) by (simp_all add: stream_inv_def)
  obtain es where es: "rst_deltas ?u = rst_deltas (st_room s) @ es" "st_rx s < length (rm_roster_rx (rst_room ?u))"
      "rm_roster_rx (rst_room ?u) ! st_rx s = fold (brx_send ROSTER_CHANNEL_CAPACITY) es (rx_of s)" "length es \<le> 1"
    using room_after_rx[OF inv(1) assms(3)[unfolded room_of_def] assms(2) inv(2)[unfolded room_of_def]] unfolding rx_of_def room_of_def .
  have rx: "rx_of ?t = fold (brx_send ROSTER_CHANNEL_CAPACITY) es (rx_of s)" using es(3) by (simp add: rx_of_def room_of_def)
  have "reader_ok (rst_deltas ?u) ?t" if "reader_ok (rst_deltas (st_room s)) s"
    using that es(4) unfolding reader_ok_def rx es(1)
    by (auto simp: carried_room snap_ok_append split: option.splits)
  then show ?thesis
    using assms(1) es room_inv_after[OF inv(1) assms(3)[unfolded room_of_def]] by (simp add: stream_inv_def room_of_def)
qed

lemma stream_inv_roster:
  assumes "stream_inv s" "st_phase s = Serving" "brx_recv (rm_roster_rx (room_of s) ! st_rx s) = Some (event, rx)"
  shows "stream_inv (s\<lparr>st_room := room_after (Op_Recv (st_rx s)) (st_room s), st_down := st_down s @ [roster_event_message (room_of s) event]\<rparr>)"
    (is "stream_inv ?t")
proof -
  let ?r = "room_of s" and ?u = "room_after (Op_Recv (st_rx s)) (st_room s)" and ?ds = "rst_deltas (st_room s)"
  have inv: "room_inv (st_room s)" "st_rx s < length (rm_roster_rx ?r)" using assms(1) by (simp_all add: stream_inv_def)
  have u: "rst_deltas ?u = ?ds" "rst_room ?u = ?r\<lparr>rm_roster_rx := (rm_roster_rx ?r)[st_rx s := rx]\<rparr>"
    using inv(2) assms(3) by (simp_all add: room_after_def room_of_def)
  have rx: "rx_of ?t = rx" "st_rx ?t < length (rm_roster_rx (room_of ?t))" using inv(2) u(2) by (simp_all add: rx_of_def room_of_def)
  have "reader_ok ?ds ?t" if "length ?ds < 2 ^ 64" "reader_ok ?ds s"
    using that(2) assms(2) carried_roster[OF inv(1) that(1) _ assms(3)[folded rx_of_def]]
    unfolding reader_ok_def rx by (auto simp: room_of_def split: option.splits)
  moreover have "room_inv ?u" by (rule room_inv_after[OF inv(1)]) simp
  ultimately show ?thesis using assms(1) rx(2) u(1) by (simp add: stream_inv_def)
qed

lemma stream_inv_read:
  assumes "stream_inv s" "st_reader s = Some (n, out)" "st_down s = msg # down" "owner_control msg n = (n', told, resync)"
  shows "stream_inv (s\<lparr>st_down := down, st_reader := Some (n', out @ options told), st_up := st_up s @ (if resync then [RosterResync] else [])\<rparr>)"
    (is "stream_inv ?t")
proof -
  let ?ds = "rst_deltas (st_room s)"
  have inv: "room_inv (st_room s)" using assms(1) by (simp add: stream_inv_def)
  have "reader_ok ?ds ?t" if "length ?ds < 2 ^ 64" "reader_ok ?ds s"
  proof -
    have s: "st_phase s = Serving" "st_up s = []" "n \<le> length ?ds" "client_view out = replay (take n ?ds)" "carried ?ds (rx_of s) n (msg # down)"
      using that(2) assms(2,3) by (auto simp: reader_ok_def split: if_splits)
    obtain k where k: "msg_ok ?ds msg" "list_all (msg_ok ?ds) down" "reads n (msg # down) = Some k" "follows ?ds (rx_of s) k"
      using s(5) by (auto simp: carried_def)
    note read_message[OF inv that(1) s(4,3) k(1,3) assms(4)]
    then show ?thesis using s k by (auto simp: reader_ok_def carried_def rx_of_def room_of_def)
  qed
  then show ?thesis using assms(1) by (simp add: stream_inv_def room_of_def)
qed

lemma stream_inv_step:
  assumes "stream_inv s" "stream_step s l t"
  shows "stream_inv t"
proof -
  let ?ds = "rst_deltas (st_room s)"
  have inv: "room_inv (st_room s)" "st_rx s < length (rm_roster_rx (room_of s))" using assms(1) by (simp_all add: stream_inv_def)
  have "rx_ok ?ds (rm_roster_rx (room_of s))" using inv(1) by (simp add: room_inv_def room_of_def)
  then obtain a where "brx_queue (rx_of s) = drop a ?ds"
    using nth_mem[OF inv(2)] unfolding rx_ok_def rx_of_def by blast
  then have catch: "follows ?ds (rx_of s) (length ?ds)"
    by (cases "a \<le> length ?ds") (auto simp: follows_def intro: exI[of _ a] exI[of _ "length ?ds"])
  show ?thesis using assms(2)
  proof (cases rule: stream_step.cases)
    case (ss_room op)
    then show ?thesis using stream_inv_room[OF assms(1)] by simp
  next
    case (ss_admit i pk v idx e n)
    have "stream_inv (s\<lparr>st_room := room_after (Op_Add i pk v) (st_room s)\<rparr>)"
      by (rule stream_inv_room[OF assms(1) _ ss_admit(4)]) simp
    then show ?thesis using ss_admit(3) unfolding ss_admit(2) by (simp add: stream_inv_def reader_ok_def room_of_def rx_of_def)
  next
    case (ss_reply pk idx e)
    then show ?thesis using assms(1) catch snapshot_ok[OF inv(1)] snapshot_exact(1)[OF inv(1)]
      by (auto simp: stream_inv_def reader_ok_def carried_def room_of_def rx_of_def)
  next
    case (ss_roster event rx)
    then show ?thesis using stream_inv_roster[OF assms(1)] by simp
  next
    case (ss_answer up)
    then show ?thesis using assms(1) catch snapshot_ok[OF inv(1)] snapshot_exact(1)[OF inv(1)]
      by (auto simp: stream_inv_def reader_ok_def room_of_def)
  next
    case (ss_dialed pk idx e snap down)
    have "client_view [Client_Roster (rs_revision snap) (rs_peers snap)] = roster_entries (rs_peers snap)" by (simp add: client_view_def)
    then show ?thesis using assms(1) ss_dialed
      by (auto simp: stream_inv_def reader_ok_def snap_ok_def rx_of_def room_of_def split: if_splits)
  next
    case (ss_read n out msg down n' told resync)
    then show ?thesis using stream_inv_read[OF assms(1)] by simp
  qed
qed

interpretation roster_streams: invariant_system stream_start stream_step stream_inv
proof
  fix s :: roster_stream assume "stream_start s"
  then obtain u where u: "reachable room_start room_step u" "s = \<lparr>st_room = room_after Op_Subscribe u, st_rx = fst (subscribe_roster (rst_room u)),
      st_phase = Subscribed, st_down = [], st_up = [], st_reader = None\<rparr>" by (auto simp: stream_start_def)
  have "room_inv (room_after Op_Subscribe u)" by (rule room_inv_after[OF rooms.reachable_inv[OF u(1)]]) simp
  then show "stream_inv s" by (simp add: u(2) stream_inv_def reader_ok_def room_of_def room_after_def subscribe_roster_def)
qed (rule stream_inv_step)

text \<open>Nothing is left to carry: the subscription is empty and no message is on the way.\<close>
definition quiet :: "roster_stream \<Rightarrow> bool" where
  "quiet s \<longleftrightarrow> st_down s = [] \<and> brx_recv (rx_of s) = None"

lemma quiet_current:
  assumes "stream_inv s" "length (rst_deltas (st_room s)) < 2 ^ 64" "st_reader s = Some (n, out)" "quiet s"
  shows "client_view out = view_of (who (rst_room (st_room s)))"
proof -
  let ?ds = "rst_deltas (st_room s)"
  have "reader_ok ?ds s" using assms(1,2) by (simp add: stream_inv_def)
  then have v: "client_view out = replay (take n ?ds)" "follows ?ds (rx_of s) n"
    using assms(3,4) by (auto simp: reader_ok_def carried_def quiet_def split: if_splits)
  have "\<not> brx_lagged (rx_of s)" "brx_queue (rx_of s) = []" using assms(4) by (auto simp: quiet_def brx_recv_def split: if_splits list.splits)
  then have "n = length ?ds" using v(2) by (auto simp: follows_def)
  then show ?thesis using v(1) assms(1) by (simp add: stream_inv_def room_inv_def deltas_ok_def)
qed

text \<open>
  C10: A client on another pod always sees a roster the huddle really had: whatever happens in the owner's room,
  however far the stream lags behind, what the client was told adds up to the roster after exactly the changes
  its revision counts; when nothing is on the way any more this is the present roster of the owner's room; and
  the reader never has to ask for a snapshot.
\<close>
theorem roster_replicated:
  assumes "reachable stream_start stream_step s" "length (rst_deltas (st_room s)) < 2 ^ 64" "st_reader s = Some (n, out)"
  shows "n \<le> length (rst_deltas (st_room s)) \<and> client_view out = replay (take n (rst_deltas (st_room s)))
    \<and> (quiet s \<longrightarrow> client_view out = view_of (who (rst_room (st_room s)))) \<and> st_up s = []"
proof -
  let ?ds = "rst_deltas (st_room s)"
  have inv: "stream_inv s" by (rule roster_streams.reachable_inv[OF assms(1)])
  then have r: "reader_ok ?ds s" "view_of (who (rst_room (st_room s))) = replay ?ds"
    using assms(2) by (simp_all add: stream_inv_def room_inv_def deltas_ok_def)
  then have v: "n \<le> length ?ds" "client_view out = replay (take n ?ds)" "carried ?ds (rx_of s) n (st_down s)" "st_up s = []"
    using assms(3) by (auto simp: reader_ok_def split: if_splits)
  then show ?thesis using quiet_current[OF inv assms(2,3)] r(2) by auto
qed

text \<open>How much a stream has still to do.\<close>
definition pending :: "'m broadcast_rx \<Rightarrow> nat" where
  "pending rx = length (brx_queue rx) + (if brx_lagged rx then 1 else 0)"

definition backlog :: "roster_stream \<Rightarrow> nat" where
  "backlog s = 2 * pending (rx_of s) + length (st_down s)"

lemma pending_recv: "brx_recv rx = Some (m, rx') \<Longrightarrow> pending rx' < pending rx"
  by (auto simp: pending_def brx_recv_def split: if_splits list.splits)

lemma stream_progress:
  assumes "stream_inv s" "length (rst_deltas (st_room s)) < 2 ^ 64" "st_phase s = Serving" "\<not> quiet s"
  obtains l t where "stream_step s l t" "l \<in> {S_Roster, S_Dialed, S_Read}" "backlog t < backlog s"
    "rst_deltas (st_room t) = rst_deltas (st_room s)" "who (room_of t) = who (room_of s)" "st_phase t = Serving"
proof (cases "brx_recv (rx_of s)")
  case (Some x)
  obtain event rx where x: "brx_recv (rx_of s) = Some (event, rx)" using Some by (cases x) auto
  let ?t = "s\<lparr>st_room := room_after (Op_Recv (st_rx s)) (st_room s), st_down := st_down s @ [roster_event_message (room_of s) event]\<rparr>"
  have i: "st_rx s < length (rm_roster_rx (room_of s))" using assms(1) by (simp add: stream_inv_def)
  have u: "rst_deltas (st_room ?t) = rst_deltas (st_room s)" "room_of ?t = (room_of s)\<lparr>rm_roster_rx := (rm_roster_rx (room_of s))[st_rx s := rx]\<rparr>"
    using i x by (simp_all add: room_after_def room_of_def rx_of_def)
  have "rx_of ?t = rx" unfolding rx_of_def u(2) using i by simp
  then have "backlog ?t < backlog s" using pending_recv[OF x] unfolding backlog_def by simp
  moreover have "stream_step s S_Roster ?t" by (rule ss_roster[OF assms(3) x[unfolded rx_of_def]])
  ultimately show thesis using that[of S_Roster ?t] u assms(3) by (simp add: who_def)
next
  case None
  then obtain m ms where down: "st_down s = m # ms" using assms(4) by (cases "st_down s") (auto simp: quiet_def)
  have r: "reader_ok (rst_deltas (st_room s)) s" using assms(1,2) by (simp add: stream_inv_def)
  show thesis
  proof (cases "st_reader s")
    case None
    then obtain pk idx e snap where "m = PeerRegistered pk idx e snap" using r down assms(3) by (auto simp: reader_ok_def)
    with down have "stream_step s S_Dialed (s\<lparr>st_down := ms, st_reader := Some (rs_revision snap, [Client_Roster (rs_revision snap) (rs_peers snap)])\<rparr>)"
      by (intro ss_dialed[OF None]) simp
    then show thesis by (rule that) (use down assms(3) in \<open>simp_all add: backlog_def rx_of_def room_of_def\<close>)
  next
    case (Some r)
    obtain n out n' told resync where "st_reader s = Some (n, out)" "owner_control m n = (n', told, resync)"
      using Some by (metis prod_cases3 surj_pair)
    from ss_read[OF this(1) down this(2)] show thesis
      by (rule that) (use down assms(3) in \<open>simp_all add: backlog_def rx_of_def room_of_def\<close>)
  qed
qed

text \<open>
  C11: A client on another pod catches up: from every reachable moment after its registration was answered, the
  owner's loop and the reader alone, in finitely many steps, bring it to the roster of the owner's room, whatever
  was lost from the subscription in between.
\<close>
theorem roster_catches_up:
  assumes "reachable stream_start stream_step s" "length (rst_deltas (st_room s)) < 2 ^ 64" "st_phase s = Serving"
  shows "\<exists>ls t n out. run stream_step s ls t \<and> set ls \<subseteq> {S_Roster, S_Dialed, S_Read} \<and> st_reader t = Some (n, out)
    \<and> client_view out = view_of (who (rst_room (st_room s))) \<and> who (rst_room (st_room t)) = who (rst_room (st_room s))"
  using assms
proof (induction "backlog s" arbitrary: s rule: less_induct)
  case less
  have inv: "stream_inv s" by (rule roster_streams.reachable_inv[OF less.prems(1)])
  show ?case
  proof (cases "quiet s")
    case True
    have "reader_ok (rst_deltas (st_room s)) s" using inv less.prems(2) by (simp add: stream_inv_def)
    then obtain n out where r: "st_reader s = Some (n, out)"
      using True less.prems(3) by (auto simp: reader_ok_def quiet_def split: option.splits)
    have "client_view out = view_of (who (rst_room (st_room s)))" by (rule quiet_current[OF inv less.prems(2) r True])
    then show ?thesis using r by (intro exI[of _ "[]"] exI[of _ s]) auto
  next
    case False
    obtain l u where u: "stream_step s l u" "l \<in> {S_Roster, S_Dialed, S_Read}" "backlog u < backlog s"
        "rst_deltas (st_room u) = rst_deltas (st_room s)" "who (room_of u) = who (room_of s)" "st_phase u = Serving"
      by (rule stream_progress[OF inv less.prems(2,3) False])
    have "reachable stream_start stream_step u" by (rule reach_step[OF less.prems(1) u(1)])
    from less.hyps[OF u(3) this] obtain ls t n out where t: "run stream_step u ls t" "set ls \<subseteq> {S_Roster, S_Dialed, S_Read}" "st_reader t = Some (n, out)"
        "client_view out = view_of (who (rst_room (st_room u)))" "who (rst_room (st_room t)) = who (rst_room (st_room u))"
      using u(4,6) less.prems(2) by auto
    then show ?thesis using u(1,2,5) unfolding room_of_def by (intro exI[of _ "l # ls"] exI[of _ t]) (auto simp: run_Cons_simps)
  qed
qed

section \<open>The end of a control stream\<close>

lemma map_of_update_room: "map_of (update_room k f rs) j = (if j = k then map_option f (map_of rs j) else map_of rs j)"
  by (induction rs) (auto simp: update_room_def)

lemma map_of_without: "map_of (filter (\<lambda>(k, _). k \<noteq> j) rs) i = (if i = j then None else map_of rs i)"
  by (induction rs) auto

lemma map_of_cleanup: "map_of (snd (cleanup_if_empty c ch rs)) k = Some r \<Longrightarrow> map_of rs k = Some r"
  by (auto simp: cleanup_if_empty_def map_of_without split: option.splits if_splits)

lemma peers_control: "map fst (rm_peers (broadcast_peer_left C d r)) = map fst (rm_peers r)"
  by (auto simp: broadcast_peer_left_def broadcast_control_def split: option.splits)

lemma peers_leave:
  assumes "remove_peer_and_check_ended i r = (Some x, r')"
  shows "fst ` set (rm_peers r') = fst ` set (rm_peers r) - {i}"
proof -
  have "rm_peers r' = filter (\<lambda>(j, _). j \<noteq> i) (rm_peers r)"
    using assms by (auto simp: remove_peer_and_check_ended_def take_peer_def roster_send_def Let_def split: option.splits if_splits)
  then show ?thesis by (simp only: set_filter) force
qed

text \<open>Taking a remote peer out of its room frees its seat and touches no other.\<close>
lemma remove_remote_peer_seats:
  assumes "get_room c ses (op_rooms (remove_remote_peer C c ses g i P)) = Some r'"
  shows "\<exists>r. get_room c ses (op_rooms P) = Some r \<and> fst ` set (rm_peers r') = fst ` set (rm_peers r) - {i}"
proof (cases "get_room c ses (op_rooms P)")
  case None
  then show ?thesis using assms by (simp add: remove_remote_peer_def)
next
  case (Some r)
  show ?thesis
  proof (cases "fst (remove_peer_and_check_ended i r)")
    case None
    then have "map_of (rm_peers r) i = None"
      by (auto simp: remove_peer_and_check_ended_def take_peer_def Let_def split: option.splits)
    then have "i \<notin> fst ` set (rm_peers r)" by (simp add: map_of_eq_None_iff)
    then show ?thesis using assms Some None by (auto simp: remove_remote_peer_def split: prod.splits)
  next
    case (Some x)
    obtain d b r1 where rem: "remove_peer_and_check_ended i r = (Some (d, b), r1)" using Some by (metis fst_conv surj_pair)
    let ?rooms = "update_room (c, ses) (\<lambda>_. broadcast_peer_left C d r1) (op_rooms P)"
    have "map_of ?rooms (c, ses) = Some r'"
      using assms \<open>get_room c ses (op_rooms P) = Some r\<close> rem map_of_cleanup[of c ses ?rooms]
      by (auto simp: remove_remote_peer_def get_room_def Let_def split_beta split: if_splits)
    then have "r' = broadcast_peer_left C d r1"
      using \<open>get_room c ses (op_rooms P) = Some r\<close> by (simp add: map_of_update_room get_room_def)
    then have "fst ` set (rm_peers r') = fst ` set (rm_peers r1)" by (metis list.set_map peers_control)
    then show ?thesis using peers_leave[OF rem] \<open>get_room c ses (op_rooms P) = Some r\<close> by simp
  qed
qed

lemma teardown_seats:
  "get_room c (fh_session_id fenced) (op_rooms (loop_teardown C fenced c peers P)) = Some r' \<Longrightarrow>
   \<exists>r. get_room c (fh_session_id fenced) (op_rooms P) = Some r \<and> fst ` set (rm_peers r') = fst ` set (rm_peers r) - snd ` set peers"
proof (induction C fenced c peers P arbitrary: r' rule: loop_teardown.induct)
  case (2 C fenced c pk i peers P)
  from "2.IH"[of r'] "2.prems" obtain r where r: "get_room c (fh_session_id fenced) (op_rooms (remove_remote_peer C c (fh_session_id fenced) (fh_generation fenced) i P)) = Some r"
      "fst ` set (rm_peers r') = fst ` set (rm_peers r) - snd ` set peers" by auto
  from remove_remote_peer_seats[OF r(1)] r(2) show ?case by auto
qed auto

text \<open>
  C14: How a control stream ends decides whether its seats are freed. When the loop is left, every client the
  stream registered is out of the owner's room. But when the owner fails to send a change of the roster, because the
  other pod is gone, the function returns from the middle of the loop, and everybody stays seated in the room.
\<close>
theorem stream_end_seats:
  assumes "cl_community L = Some c" "serve_control_loop C local fenced from_peer (ev # evs) L P = (Some res, P', fs)"
  shows "(\<forall>r why L' Q gs r'. loop_step C local fenced from_peer ev L P = (Break r why L', Q, gs) \<longrightarrow> cl_community L' = Some c \<longrightarrow>
      get_room c (fh_session_id fenced) (op_rooms P') = Some r' \<longrightarrow> fst ` set (rm_peers r') \<inter> snd ` set (cl_registered L') = {})
    \<and> (\<forall>e n r x. ev = Ev_Roster (Err e) \<longrightarrow> cl_roster_rx L = Some n \<longrightarrow> get_room c (fh_session_id fenced) (op_rooms P) = Some r \<longrightarrow>
         n < length (rm_roster_rx r) \<longrightarrow> brx_recv (rm_roster_rx r ! n) = Some x \<longrightarrow>
         (\<exists>r'. get_room c (fh_session_id fenced) (op_rooms P') = Some r' \<and> who r' = who r) \<and> \<not> is_ok res)"
proof (intro conjI allI impI)
  fix r why L' Q gs r'
  assume *: "loop_step C local fenced from_peer ev L P = (Break r why L', Q, gs)" "cl_community L' = Some c"
    "get_room c (fh_session_id fenced) (op_rooms P') = Some r'"
  then have "P' = loop_teardown C fenced c (cl_registered L') Q" using assms(2) by simp
  then show "fst ` set (rm_peers r') \<inter> snd ` set (cl_registered L') = {}" using teardown_seats *(3) by blast
next
  fix e n r x
  assume *: "ev = Ev_Roster (Err e)" "cl_roster_rx L = Some n" "get_room c (fh_session_id fenced) (op_rooms P) = Some r"
    "n < length (rm_roster_rx r)" "brx_recv (rm_roster_rx r ! n) = Some x"
  obtain event rx where x: "x = (event, rx)" by (cases x)
  obtain e' where sent: "send_control C fenced (roster_event_message r event) (Err e) = Err e'"
    by (cases "ce_encode C (roster_event_message r event)") (auto simp: send_control_def)
  have "loop_step C local fenced from_peer ev L P = (Return e',
      P\<lparr>op_rooms := update_room (c, fh_session_id fenced) (\<lambda>_. r\<lparr>rm_roster_rx := (rm_roster_rx r)[n := rx]\<rparr>) (op_rooms P)\<rparr>, [])"
    using * assms(1) x sent by (simp add: loop_step_def loop_roster_def Let_def)
  then have P': "res = Err e'" "op_rooms P' = update_room (c, fh_session_id fenced) (\<lambda>_. r\<lparr>rm_roster_rx := (rm_roster_rx r)[n := rx]\<rparr>) (op_rooms P)"
    using assms(2) by auto
  show "\<exists>r'. get_room c (fh_session_id fenced) (op_rooms P') = Some r' \<and> who r' = who r"
    using *(3) by (auto simp: P'(2) get_room_def map_of_update_room who_def)
  show "\<not> is_ok res" by (simp add: P'(1))
qed

section \<open>Registrations and ownership\<close>

text \<open>
  A refused registration is not without effect: the owner looks its room up before it asks the directory, so a
  registration that names another community leaves an empty room there, the huddle's channel is no longer
  unambiguous on the pod, and the media of everybody in it are dropped from then on.
\<close>
theorem refused_registration_mutes:
  assumes "get_unambiguous_by_channel (fh_session_id fenced) (op_rooms P) = Some (c0, fh_session_id fenced)" "c \<noteq> c0"
    and "cl_community L = None" "\<not> is_draining (op_owners P)" "fence_rejection_of e = Some reason"
    and "loop_register C fenced from_peer c pubkey v (Err e) i sent L P = (result, P', fs)"
    and "fh_session_id (dg_fenced dgram) = fh_session_id fenced"
  shows "mr_rooms (snd (on_media_datagram dgram \<lparr>mr_rooms = op_rooms P', mr_fence = floor\<rparr>)) = op_rooms P'"
proof -
  let ?ses = "fh_session_id fenced"
  obtain r0 where rooms: "filter (\<lambda>(k, _). snd k = ?ses) (op_rooms P) = [((c0, ?ses), r0)]"
    using assms(1) by (auto simp: get_unambiguous_by_channel_def split: list.splits if_splits prod.splits)
  have "(c, ?ses) \<notin> fst ` set (op_rooms P)"
  proof
    assume "(c, ?ses) \<in> fst ` set (op_rooms P)"
    then obtain r where "((c, ?ses), r) \<in> set (filter (\<lambda>(k, _). snd k = ?ses) (op_rooms P))" by auto
    then show False using assms(2) by (simp add: rooms)
  qed
  then have "map_of (op_rooms P) (c, ?ses) = None" by (simp add: map_of_eq_None_iff)
  then have new: "get_or_create c ?ses (op_rooms P) = (room_new c ?ses, op_rooms P @ [((c, ?ses), room_new c ?ses)])"
    by (simp add: get_or_create_def)
  obtain f where "op_rooms P' = update_room (c, ?ses) f (op_rooms P @ [((c, ?ses), room_new c ?ses)])"
    using assms(3-6) new
    by (auto simp: loop_register_def subscribe_roster_def Let_def split: sum.splits prod.splits)
  then have "get_unambiguous_by_channel ?ses (op_rooms P') =
      get_unambiguous_by_channel ?ses (op_rooms P @ [((c, ?ses), room_new c ?ses)])" by (simp only: update_room_key)
  also have "\<dots> = None" by (simp add: get_unambiguous_by_channel_def rooms)
  finally have "get_unambiguous_by_channel ?ses (op_rooms P') = None" .
  then show ?thesis using assms(7)
    by (auto simp: on_media_datagram_def Let_def split: fence_verdict.splits prod.splits)
qed

text \<open>
  The registry of owned huddles is keyed by the channel alone: when it has an entry, a lease the directory granted
  later, for another community or after a loss, is released at once, and its holder watches the older signals.
\<close>
theorem attach_keeps_older:
  assumes "\<not> is_draining R" "map_of (or_entries R) session = Some e" "attach_signals late session lease R = (signals, R')"
  shows "signals = (oe_lost e, oe_draining e) \<and> or_entries R' = or_entries R \<and> (\<exists>t \<in> or_cancelled R'. (lease, t) \<in> set (or_renewers R'))"
  using assms by (auto simp: attach_signals_def release_at_once_def token_new_def token_cancel_def spawn_renewer_def Let_def)

text \<open>The renewer of a huddle is the renewer of a tunnel.\<close>
lemma huddle_renewal_same: "huddle_renewal_task E lease fin evs m = renewal_task E lease fin evs m"
proof (induction evs arbitrary: m)
  case (Cons ev evs)
  have fin: "finish_huddle_renewal E lease fin b l m' = finish_renewal E lease fin b l m'" for b l m'
    by (auto simp: finish_huddle_renewal_def finish_renewal_def huddle_release_def try_in_def as_transport_def
        split: prod.splits sum.splits release_result.splits)
  show ?case
    by (cases ev) (auto simp: fin Cons huddle_renew_def try_in_def as_transport_def split: prod.splits sum.splits renew_result.splits)
qed simp

text \<open>A join that ends as the local owner without a fresh lease has seen a live entry of the registry.\<close>
lemma owner_ready_live:
  assumes "resolve_join_owner_ready attempts = Ok r" "rj_outcome r = LocalOwner g" "rj_acquired r = None"
  shows "(Ok r, True) \<in> set (take OWNER_READY_MAX_ATTEMPTS attempts)"
proof -
  have "owner_ready_loop as = Ok r \<Longrightarrow> (Ok r, True) \<in> set as" for as
  proof (induction as)
    case (Cons a as)
    obtain x live where a: "a = (x, live)" by (cases a)
    then obtain y where y: "x = Ok y" using Cons.prems by (auto simp: and_then_Ok_iff)
    show ?case
      using Cons a y assms(2,3)
      by (cases "rj_outcome y"; cases "rj_acquired y") (auto simp: and_then_Ok_iff split: if_splits)
  qed simp
  then show ?thesis using assms(1) by (simp add: resolve_join_owner_ready_def)
qed

section \<open>A concrete stream\<close>

definition sample_state :: room_state where
  "sample_state = \<lparr>rst_room = room_new ''C'' ''1'', rst_admissions = [], rst_deltas = []\<rparr>"

definition sample_subscribed :: roster_stream where
  "sample_subscribed = \<lparr>st_room = room_after Op_Subscribe sample_state, st_rx = fst (subscribe_roster (rst_room sample_state)),
     st_phase = Subscribed, st_down = [], st_up = [], st_reader = None\<rparr>"

definition sample_admitted :: roster_stream where
  "sample_admitted = sample_subscribed\<lparr>st_room := room_after (Op_Add ''p'' ''alice'' 3) (st_room sample_subscribed),
     st_phase := Admitted ''alice'' 0 0\<rparr>"

definition sample_serving :: roster_stream where
  "sample_serving = sample_admitted\<lparr>st_phase := Serving, st_down := [PeerRegistered ''alice'' 0 0 (room_snapshot (room_of sample_admitted))]\<rparr>"

definition sample_dialed :: roster_stream where
  "sample_dialed = sample_serving\<lparr>st_down := [], st_reader := Some (rs_revision (room_snapshot (room_of sample_admitted)),
     [Client_Roster (rs_revision (room_snapshot (room_of sample_admitted))) (rs_peers (room_snapshot (room_of sample_admitted)))])\<rparr>"

lemma sample_join: "op_admission (Op_Add ''p'' ''alice'' 3) (room_of sample_subscribed) = Some (''alice'', 0, 0, 1)"
  by (simp add: sample_subscribed_def sample_state_def room_of_def room_after_def subscribe_roster_def add_peer_def room_new_def guard_new_def
      alloc_first MAX_PEERS_PER_ROOM_def version_check_def next_epoch_def admit_def wrapping_revision_def roster_send_def Let_def)

lemma sample_reached: "reachable stream_start stream_step sample_serving" "reachable stream_start stream_step sample_dialed"
proof -
  have room: "reachable room_start room_step sample_state" by (rule reach_start) (auto simp: room_start_def sample_state_def)
  then have "reachable stream_start stream_step sample_subscribed"
    by (intro reach_start) (auto simp: stream_start_def sample_subscribed_def)
  moreover have "stream_step sample_subscribed S_Admit sample_admitted"
    unfolding sample_admitted_def
    by (rule ss_admit[OF _ _ sample_join]) (simp_all add: sample_subscribed_def sample_state_def room_of_def room_after_def subscribe_roster_def room_new_def)
  ultimately have "reachable stream_start stream_step sample_admitted" by (rule reach_step)
  moreover have "stream_step sample_admitted S_Reply sample_serving"
  proof -
    have down: "st_down sample_admitted = []" by (simp add: sample_admitted_def sample_subscribed_def)
    have "st_phase sample_admitted = Admitted ''alice'' 0 0" by (simp add: sample_admitted_def)
    from ss_reply[OF this] show ?thesis unfolding sample_serving_def down by simp
  qed
  ultimately show serving: "reachable stream_start stream_step sample_serving" by (rule reach_step)
  have "stream_step sample_serving S_Dialed sample_dialed"
    unfolding sample_dialed_def by (rule ss_dialed) (simp_all add: sample_serving_def sample_admitted_def sample_subscribed_def)
  with serving show "reachable stream_start stream_step sample_dialed" by (rule reach_step)
qed

lemma sample_changes: "length (rst_deltas (st_room sample_serving)) < 2 ^ 64" "length (rst_deltas (st_room sample_dialed)) < 2 ^ 64"
  using sample_join
  by (simp_all add: sample_dialed_def sample_serving_def sample_admitted_def sample_subscribed_def sample_state_def room_of_def room_after_def)

theorem roster_replicated_witness:
  "\<exists>s n out. reachable stream_start stream_step s \<and> st_reader s = Some (n, out) \<and> client_view out = replay (take n (rst_deltas (st_room s)))"
proof -
  obtain n out where r: "st_reader sample_dialed = Some (n, out)" by (simp add: sample_dialed_def)
  from roster_replicated[OF sample_reached(2) sample_changes(2) r] show ?thesis using sample_reached(2) r by blast
qed

theorem roster_catches_up_witness:
  "\<exists>ls t n out. run stream_step sample_serving ls t \<and> st_reader t = Some (n, out)
     \<and> client_view out = view_of (who (rst_room (st_room sample_serving)))"
proof -
  have "st_phase sample_serving = Serving" by (simp add: sample_serving_def)
  from roster_catches_up[OF sample_reached(1) sample_changes(1) this] show ?thesis by blast
qed

definition sample_control_env :: control_env where
  "sample_control_env = \<lparr>ce_encode = (\<lambda>_. Ok []), ce_decode = (\<lambda>_. Ok RosterResync), ce_joined = (\<lambda>_ _. []), ce_left = (\<lambda>_ _. [])\<rparr>"

definition sample_full_room :: room where
  "sample_full_room = (sample_room [(''a'', sample_peer 1)])\<lparr>rm_roster_rx :=
     [\<lparr>brx_queue = [\<lparr>rd_revision = 1, rd_joined = None, rd_left = None\<rparr>], brx_lagged = False\<rparr>]\<rparr>"

definition sample_pod :: owner_pod where
  "sample_pod = \<lparr>op_rooms = [((''C'', ''1''), sample_full_room)],
     op_owners = \<lparr>or_entries = [], or_draining = False, or_cancelled = {}, or_next = 0, or_renewers = []\<rparr>, op_sinks = Map.empty\<rparr>"

definition sample_fence :: fenced_header where
  "sample_fence = \<lparr>fh_session_id = ''1'', fh_generation = 1, fh_owner_runtime_id = ''o''\<rparr>"

definition sample_loop :: control_loop where
  "sample_loop = \<lparr>cl_registered = [(''alice'', ''a'')], cl_community = Some ''C'', cl_roster_rx = Some 0\<rparr>"

text \<open>The other pod is gone when its owner tells it of a change: its client keeps the seat.\<close>
theorem stream_end_seats_witness:
  "\<exists>res P' fs r'. serve_control_loop sample_control_env ''o'' sample_fence ''n'' [Ev_Roster (Err MeshDisabled)] sample_loop sample_pod = (Some res, P', fs)
     \<and> \<not> is_ok res \<and> get_room ''C'' ''1'' (op_rooms P') = Some r' \<and> map fst (who r') = [''a'']"
proof -
  let ?run = "serve_control_loop sample_control_env ''o'' sample_fence ''n'' [Ev_Roster (Err MeshDisabled)] sample_loop sample_pod"
  have room: "get_room ''C'' (fh_session_id sample_fence) (op_rooms sample_pod) = Some sample_full_room"
    by (simp add: get_room_def sample_fence_def sample_pod_def)
  have rx: "0 < length (rm_roster_rx sample_full_room)" "\<exists>x. brx_recv (rm_roster_rx sample_full_room ! 0) = Some x"
    by (simp_all add: sample_full_room_def brx_recv_def)
  obtain res P' fs where run: "?run = (Some res, P', fs)"
    using room rx
    by (auto simp: sample_loop_def loop_step_def loop_roster_def send_control_def sample_control_env_def Let_def)
  have loop: "cl_community sample_loop = Some ''C''" "cl_roster_rx sample_loop = Some 0" by (simp_all add: sample_loop_def)
  have "(\<exists>r'. get_room ''C'' (fh_session_id sample_fence) (op_rooms P') = Some r' \<and> who r' = who sample_full_room) \<and> \<not> is_ok res"
    using stream_end_seats[OF loop(1) run] loop(2) room rx by blast
  then show ?thesis using run
    by (auto simp: sample_fence_def sample_full_room_def sample_room_def who_def occupant_of_def)
qed

end
