(* ===== verification/Channel_Members.thy ===== *)
theory Channel_Members
  imports Channel_Roles Rust_Text
begin

text \<open>
  Channels and their members in the database (\<^verbatim>\<open>buzz-db/src/store/channel_members.rs\<close>,
  \<^verbatim>\<open>channel.rs\<close>, \<^verbatim>\<open>dm.rs\<close> and the kick of \<^verbatim>\<open>relay_admin_actions.rs\<close>, with the keys of
  \<^verbatim>\<open>schema/schema.sql\<close>). A membership transaction is a tree of statements; sessions run them statement by
  statement under the membership lock of the channel, beside all other writers.
\<close>

section \<open>Tables\<close>

datatype db_error =
    Sqlx string
  | ChannelNotFound string
  | MemberNotFound string
  | Not_Found string
  | AccessDenied string
  | InvalidData string

text \<open>
  A row of \<^verbatim>\<open>channels\<close>. The columns that only carry text (description, canvas, topic, purpose and who set
  them) are left out.
\<close>
record channel_record =
  ch_name :: string
  ch_type :: channel_type
  ch_visibility :: channel_visibility
  ch_created_by :: string
  ch_archived_at :: "nat option"
  ch_deleted_at :: "nat option"
  ch_ttl_seconds :: "nat option"
  ch_ttl_deadline :: "nat option"
  ch_participant_hash :: "string option"

record member_record =
  mr_role :: member_role
  mr_joined_at :: nat
  mr_invited_by :: "string option"
  mr_removed_at :: "nat option"
  mr_removed_by :: "string option"
  mr_hidden_at :: "nat option"

text \<open>A community and a channel; a member of it by its public key.\<close>
type_synonym channel_key = "string \<times> string"

record channel_db =
  db_channels :: "(channel_key \<times> channel_record) list"
  db_members :: "((channel_key \<times> string) \<times> member_record) list"

definition update_channel_row :: "channel_key \<Rightarrow> (channel_record \<Rightarrow> channel_record) \<Rightarrow> channel_db \<Rightarrow> channel_db" where
  "update_channel_row k f db = db\<lparr>db_channels := map (\<lambda>(j, r). (j, if j = k then f r else r)) (db_channels db)\<rparr>"

text \<open>The row of a live channel.\<close>
definition live_channel :: "channel_db \<Rightarrow> channel_key \<Rightarrow> channel_record option" where
  "live_channel db k = (case map_of (db_channels db) k of
     Some r \<Rightarrow> if ch_deleted_at r = None then Some r else None | None \<Rightarrow> None)"

text \<open>\<^verbatim>\<open>INSERT \<dots> ON CONFLICT (community_id, channel_id, pubkey) DO UPDATE\<close>.\<close>
definition upsert_member :: "nat \<Rightarrow> channel_key \<Rightarrow> string \<Rightarrow> member_role \<Rightarrow> string option \<Rightarrow> channel_db \<Rightarrow> channel_db" where
  "upsert_member now k pk role invited_by db = db\<lparr>db_members :=
     (if map_of (db_members db) (k, pk) = None
      then db_members db @ [((k, pk), \<lparr>mr_role = role, mr_joined_at = now, mr_invited_by = invited_by,
             mr_removed_at = None, mr_removed_by = None, mr_hidden_at = None\<rparr>)]
      else map (\<lambda>(j, r). (j, if j = (k, pk) then r\<lparr>mr_role := role, mr_removed_at := None, mr_removed_by := None\<rparr> else r))
             (db_members db))\<rparr>"

definition active :: "member_record \<Rightarrow> bool" where
  "active r \<longleftrightarrow> mr_removed_at r = None"

text \<open>\<^verbatim>\<open>UPDATE channel_members SET \<dots> WHERE \<dots> AND removed_at IS NULL\<close>, with the number of rows.\<close>
definition update_active_member ::
  "channel_key \<Rightarrow> string \<Rightarrow> (member_record \<Rightarrow> member_record) \<Rightarrow> channel_db \<Rightarrow> nat \<times> channel_db" where
  "update_active_member k pk f db =
     (let hit = (\<lambda>(j, r). j = (k, pk) \<and> active r)
      in (length (filter hit (db_members db)),
          db\<lparr>db_members := map (\<lambda>(j, r). (j, if hit (j, r) then f r else r)) (db_members db)\<rparr>))"

definition set_removed :: "nat \<Rightarrow> string \<Rightarrow> member_record \<Rightarrow> member_record" where
  "set_removed now actor r = r\<lparr>mr_removed_at := Some now, mr_removed_by := Some actor\<rparr>"

definition get_active_role_tx :: "channel_db \<Rightarrow> channel_key \<Rightarrow> string \<Rightarrow> string option" where
  "get_active_role_tx db k pk = (case map_of (db_members db) (k, pk) of
     Some r \<Rightarrow> if active r then Some (role_as_str (mr_role r)) else None | None \<Rightarrow> None)"

definition owner_count :: "channel_db \<Rightarrow> channel_key \<Rightarrow> nat" where
  "owner_count db k =
     length (filter (\<lambda>((j, _), r). j = k \<and> mr_role r = Owner \<and> active r) (db_members db))"

section \<open>Reads\<close>

definition get_channel :: "channel_db \<Rightarrow> channel_key \<Rightarrow> (db_error, channel_record) result" where
  "get_channel db k = (case live_channel db k of Some r \<Rightarrow> Ok r | None \<Rightarrow> Err (ChannelNotFound (snd k)))"

text \<open>Active members of a live channel, oldest first; equal times keep the order of the table.\<close>
definition get_members :: "channel_db \<Rightarrow> channel_key \<Rightarrow> (string \<times> member_record) list" where
  "get_members db k =
     (if live_channel db k = None then []
      else sort_key (mr_joined_at \<circ> snd)
        (map (\<lambda>((_, pk), r). (pk, r)) (filter (\<lambda>((j, _), r). j = k \<and> active r) (db_members db))))"

definition is_member :: "channel_db \<Rightarrow> channel_key \<Rightarrow> string \<Rightarrow> bool" where
  "is_member db k pk \<longleftrightarrow> live_channel db k \<noteq> None \<and> get_active_role_tx db k pk \<noteq> None"

definition get_member_role :: "channel_db \<Rightarrow> channel_key \<Rightarrow> string \<Rightarrow> string option" where
  "get_member_role db k pk = (if live_channel db k = None then None else get_active_role_tx db k pk)"

definition get_accessible_channel_ids :: "channel_db \<Rightarrow> string \<Rightarrow> string \<Rightarrow> string list" where
  "get_accessible_channel_ids db community pk =
     remdups (map (\<lambda>(((_, ch), _), _). ch)
        (filter (\<lambda>((j, p), r). fst j = community \<and> p = pk \<and> active r \<and> live_channel db j \<noteq> None) (db_members db))
      @ map (\<lambda>((_, ch), _). ch)
        (filter (\<lambda>((c, _), r). c = community \<and> ch_visibility r = Open \<and> ch_deleted_at r = None) (db_channels db)))"

definition get_member_count :: "channel_db \<Rightarrow> channel_key \<Rightarrow> nat" where
  "get_member_count db k = length (filter (\<lambda>((j, _), r). j = k \<and> active r) (db_members db))"

section \<open>Membership transactions\<close>

text \<open>
  The statements of a transaction on one channel, each with the continuation for its answer. A write comes
  with the end of its transaction: a row that is inserted is read back and the transaction commits.
\<close>
datatype 'a member_tx =
    Tx_Done 'a
  | Tx_Channel "channel_record option \<Rightarrow> 'a member_tx"
  | Tx_Role string "string option \<Rightarrow> 'a member_tx"
  | Tx_Owners "nat \<Rightarrow> 'a member_tx"
  | Tx_Upsert string member_role "string option" "member_record \<Rightarrow> 'a member_tx"
  | Tx_Remove string string "nat \<Rightarrow> 'a member_tx"

text \<open>The role of the member who invites; without one there is nothing to read.\<close>
definition tx_inviter_role :: "string option \<Rightarrow> (string option \<Rightarrow> 'a member_tx) \<Rightarrow> 'a member_tx" where
  "tx_inviter_role invited_by k = (case invited_by of Some i \<Rightarrow> Tx_Role i k | None \<Rightarrow> k None)"

type_synonym member_result = "(db_error, member_record option) result"

text \<open>The last part of \<^verbatim>\<open>add_member\<close>: the guards on changing an active role, and the write.\<close>
definition add_member_apply :: "string \<Rightarrow> member_role \<Rightarrow> string option \<Rightarrow> member_result member_tx" where
  "add_member_apply pk effective_role invited_by =
     (let write = Tx_Upsert pk effective_role invited_by (\<lambda>row. Tx_Done (Ok (Some row)))
      in Tx_Role pk (\<lambda>current. case current of
           Some current_role \<Rightarrow>
             if current_role = role_as_str effective_role then write
             else tx_inviter_role invited_by (\<lambda>actor.
               if \<not> (case actor of Some r \<Rightarrow> (case role_from_str r of Inr x \<Rightarrow> is_elevated x | Inl _ \<Rightarrow> False) | None \<Rightarrow> False)
               then Tx_Done (Err (AccessDenied ''only owners/admins may change an active member's role''))
               else if current_role = ''owner'' \<and> effective_role \<noteq> Owner
               then Tx_Owners (\<lambda>n. if n \<le> 1
                 then Tx_Done (Err (AccessDenied ''cannot demote the last owner'')) else write)
               else write)
         | None \<Rightarrow> write))"

text \<open>The part of \<^verbatim>\<open>add_member\<close> that finds the effective role.\<close>
definition add_member_in :: "channel_record \<Rightarrow> string \<Rightarrow> member_role \<Rightarrow> string option \<Rightarrow> member_result member_tx" where
  "add_member_in c pk role invited_by =
     (if visibility_as_str (ch_visibility c) = ''private'' then
        (case invited_by of
           None \<Rightarrow> Tx_Done (Err (AccessDenied ''private channel requires an invite''))
         | Some inviter \<Rightarrow>
             if inviter = pk \<and> inviter = ch_created_by c then add_member_apply pk role invited_by
             else Tx_Role inviter (\<lambda>r. case r of
                 None \<Rightarrow> Tx_Done (Err (AccessDenied ''inviter is not an active member''))
               | Some s \<Rightarrow> (case role_from_str s of
                   Inl _ \<Rightarrow> Tx_Done (Err (InvalidData ''invalid role in database''))
                 | Inr inviter_role \<Rightarrow>
                     if is_elevated role \<and> \<not> is_elevated inviter_role
                     then Tx_Done (Err (AccessDenied ''only owners/admins may grant elevated roles''))
                     else add_member_apply pk role invited_by)))
      else if is_elevated role then
        tx_inviter_role invited_by (\<lambda>granter.
          if granter = Some ''owner'' \<or> granter = Some ''admin'' then add_member_apply pk role invited_by
          else Tx_Done (Err (AccessDenied ''only owners/admins may grant elevated roles'')))
      else add_member_apply pk role invited_by)"

definition add_member_tx :: "string \<Rightarrow> string \<Rightarrow> member_role \<Rightarrow> string option \<Rightarrow> member_result member_tx" where
  "add_member_tx ch pk role invited_by = Tx_Channel (\<lambda>channel. case channel of
     None \<Rightarrow> Tx_Done (Err (ChannelNotFound ch))
   | Some c \<Rightarrow> add_member_in c pk role invited_by)"

definition remove_member_apply :: "string \<Rightarrow> string \<Rightarrow> string \<Rightarrow> member_result member_tx" where
  "remove_member_apply ch pk actor =
     (let write = Tx_Remove pk actor (\<lambda>n. Tx_Done (if n = 0 then Err (MemberNotFound ch) else Ok None))
      in Tx_Role pk (\<lambda>target_role.
           if target_role = Some ''owner''
           then Tx_Owners (\<lambda>n. if n \<le> 1 then Tx_Done (Err (AccessDenied ''cannot remove the last owner'')) else write)
           else write))"

text \<open>The answer of \<^verbatim>\<open>is_agent_owner\<close>, which is asked before the transaction, is an argument.\<close>
definition remove_member_tx :: "bool \<Rightarrow> string \<Rightarrow> string \<Rightarrow> string \<Rightarrow> member_result member_tx" where
  "remove_member_tx actor_is_agent_owner ch pk actor =
     (if pk = actor then remove_member_apply ch pk actor
      else Tx_Role actor (\<lambda>r. case r of
          None \<Rightarrow> Tx_Done (Err (AccessDenied ''actor is not an active member''))
        | Some s \<Rightarrow> (case role_from_str s of
            Inl _ \<Rightarrow> Tx_Done (Err (InvalidData ''invalid role in database''))
          | Inr actor_role \<Rightarrow>
              if \<not> is_elevated actor_role \<and> \<not> actor_is_agent_owner
              then Tx_Done (Err (AccessDenied ''only owners/admins or the agent's owner may remove other members''))
              else remove_member_apply ch pk actor)))"

text \<open>A transaction that nothing interrupts.\<close>
primrec run_tx :: "'a member_tx \<Rightarrow> nat \<Rightarrow> channel_key \<Rightarrow> channel_db \<Rightarrow> 'a \<times> channel_db" where
  "run_tx (Tx_Done a) now k db = (a, db)"
| "run_tx (Tx_Channel f) now k db = run_tx (f (live_channel db k)) now k db"
| "run_tx (Tx_Role pk f) now k db = run_tx (f (get_active_role_tx db k pk)) now k db"
| "run_tx (Tx_Owners f) now k db = run_tx (f (owner_count db k)) now k db"
| "run_tx (Tx_Upsert pk r i f) now k db =
     (let db' = upsert_member now k pk r i db in run_tx (f (the (map_of (db_members db') (k, pk)))) now k db')"
| "run_tx (Tx_Remove pk actor f) now k db =
     (let (n, db') = update_active_member k pk (set_removed now actor) db in run_tx (f n) now k db')"

definition add_member ::
  "nat \<Rightarrow> channel_key \<Rightarrow> string \<Rightarrow> member_role \<Rightarrow> string option \<Rightarrow> channel_db \<Rightarrow> member_result \<times> channel_db" where
  "add_member now k pk role invited_by db =
     (if length pk \<noteq> 32 then (Err (InvalidData ''pubkey must be 32 bytes''), db)
      else run_tx (add_member_tx (snd k) pk role invited_by) now k db)"

definition remove_member ::
  "bool \<Rightarrow> nat \<Rightarrow> channel_key \<Rightarrow> string \<Rightarrow> string \<Rightarrow> channel_db \<Rightarrow> member_result \<times> channel_db" where
  "remove_member agent_owner now k pk actor db =
     run_tx (remove_member_tx (pk \<noteq> actor \<and> agent_owner) (snd k) pk actor) now k db"

section \<open>Channels\<close>

text \<open>Surrounding white space and leading hashes are removed.\<close>
definition canonical_channel_name :: "string \<Rightarrow> string" where
  "canonical_channel_name name =
     rev (strip_front (map rev white_space) (rev (strip_front (''#'' # white_space) name)))"

definition new_channel ::
  "nat \<Rightarrow> string \<Rightarrow> channel_type \<Rightarrow> channel_visibility \<Rightarrow> string \<Rightarrow> nat option \<Rightarrow> channel_record" where
  "new_channel now name t v created_by ttl =
     \<lparr>ch_name = name, ch_type = t, ch_visibility = v, ch_created_by = created_by, ch_archived_at = None,
      ch_deleted_at = None, ch_ttl_seconds = ttl, ch_ttl_deadline = map_option (\<lambda>t. now + t) ttl,
      ch_participant_hash = None\<rparr>"

definition insert_channel :: "channel_key \<Rightarrow> channel_record \<Rightarrow> channel_db \<Rightarrow> channel_db" where
  "insert_channel k r db = db\<lparr>db_channels := db_channels db @ [(k, r)]\<rparr>"

definition checked_name :: "string \<Rightarrow> (db_error, string) result" where
  "checked_name name =
     (let n = canonical_channel_name name
      in if str_trim n = [] then Err (InvalidData ''channel name is required'') else Ok n)"

text \<open>\<^verbatim>\<open>create_channel\<close>; the new identifier is an argument, and one that exists is refused by the primary key.\<close>
definition create_channel ::
  "nat \<Rightarrow> channel_key \<Rightarrow> string \<Rightarrow> channel_type \<Rightarrow> channel_visibility \<Rightarrow> string \<Rightarrow> nat option \<Rightarrow> channel_db
    \<Rightarrow> (db_error, channel_record) result \<times> channel_db" where
  "create_channel now k name t v created_by ttl db =
     (if length created_by \<noteq> 32 then (Err (InvalidData ''pubkey must be 32 bytes''), db)
      else try_in db (checked_name name) (\<lambda>n.
        if map_of (db_channels db) k \<noteq> None then (Err (Sqlx ''duplicate key''), db)
        else (let r = new_channel now n t v created_by ttl
              in (Ok r, upsert_member now k created_by Owner (Some created_by) (insert_channel k r db)))))"

definition create_channel_with_id ::
  "nat \<Rightarrow> bool \<Rightarrow> channel_key \<Rightarrow> string \<Rightarrow> channel_type \<Rightarrow> channel_visibility \<Rightarrow> string \<Rightarrow> nat option \<Rightarrow> channel_db
    \<Rightarrow> (db_error, channel_record \<times> bool) result \<times> channel_db" where
  "create_channel_with_id now is_nil k name t v created_by ttl db =
     (if length created_by \<noteq> 32 then (Err (InvalidData ''pubkey must be 32 bytes''), db)
      else if is_nil then (Err (InvalidData ''channel_id must not be nil (reserved for global fan-out)''), db)
      else try_in db (checked_name name) (\<lambda>n.
        case map_of (db_channels db) k of
          Some r \<Rightarrow> (Ok (r, False), db)
        | None \<Rightarrow>
            (let r = new_channel now n t v created_by ttl
             in (Ok (r, True), upsert_member now k created_by Owner (Some created_by) (insert_channel k r db)))))"

record channel_update =
  cu_name :: "string option"
  cu_description :: "string option"
  cu_visibility :: "channel_visibility option"
  cu_ttl_seconds :: "nat option option"

definition apply_update :: "nat \<Rightarrow> channel_update \<Rightarrow> channel_record \<Rightarrow> channel_record" where
  "apply_update now u r =
     (let r1 = (case cu_name u of Some n \<Rightarrow> r\<lparr>ch_name := canonical_channel_name n\<rparr> | None \<Rightarrow> r);
          r2 = (case cu_visibility u of Some v \<Rightarrow> r1\<lparr>ch_visibility := v\<rparr> | None \<Rightarrow> r1)
      in (case cu_ttl_seconds u of
            Some ttl \<Rightarrow> r2\<lparr>ch_ttl_seconds := ttl, ch_ttl_deadline := map_option (\<lambda>t. now + t) ttl\<rparr>
          | None \<Rightarrow> r2))"

definition update_channel ::
  "nat \<Rightarrow> channel_key \<Rightarrow> channel_update \<Rightarrow> channel_db \<Rightarrow> (db_error, channel_record) result \<times> channel_db" where
  "update_channel now k u db =
     (if cu_name u = None \<and> cu_description u = None \<and> cu_visibility u = None \<and> cu_ttl_seconds u = None
      then (Err (InvalidData ''at least one field must be provided for update''), db)
      else if (case cu_name u of Some n \<Rightarrow> canonical_channel_name n = [] | None \<Rightarrow> False)
      then (Err (InvalidData ''channel name is required''), db)
      else if live_channel db k = None then (Err (ChannelNotFound (snd k)), db)
      else (let db' = update_channel_row k (apply_update now u) db in (get_channel db' k, db')))"

definition archive_channel :: "nat \<Rightarrow> channel_key \<Rightarrow> channel_db \<Rightarrow> (db_error, unit) result \<times> channel_db" where
  "archive_channel now k db = (case live_channel db k of
     None \<Rightarrow> (Err (ChannelNotFound (snd k)), db)
   | Some r \<Rightarrow>
       if ch_archived_at r \<noteq> None then (Err (AccessDenied ''channel is already archived''), db)
       else (Ok (), update_channel_row k (\<lambda>r. r\<lparr>ch_archived_at := Some now\<rparr>) db))"

definition unarchive_channel :: "nat \<Rightarrow> channel_key \<Rightarrow> channel_db \<Rightarrow> (db_error, unit) result \<times> channel_db" where
  "unarchive_channel now k db = (case live_channel db k of
     None \<Rightarrow> (Err (ChannelNotFound (snd k)), db)
   | Some r \<Rightarrow>
       if ch_archived_at r = None then (Err (AccessDenied ''channel is not archived''), db)
       else (Ok (), update_channel_row k (\<lambda>r. r\<lparr>ch_archived_at := None,
               ch_ttl_deadline := (case ch_ttl_seconds r of Some t \<Rightarrow> Some (now + t) | None \<Rightarrow> ch_ttl_deadline r)\<rparr>) db))"

definition soft_delete_channel :: "nat \<Rightarrow> channel_key \<Rightarrow> channel_db \<Rightarrow> bool \<times> channel_db" where
  "soft_delete_channel now k db =
     (if live_channel db k = None then (False, db)
      else (True, update_channel_row k (\<lambda>r. r\<lparr>ch_deleted_at := Some now\<rparr>) db))"

text \<open>\<^verbatim>\<open>reap_expired_ephemeral_channels\<close>; which communities may be written is an argument.\<close>
definition expired :: "nat \<Rightarrow> (string \<Rightarrow> bool) \<Rightarrow> channel_key \<Rightarrow> channel_record \<Rightarrow> bool" where
  "expired now write_allowed k r \<longleftrightarrow>
     ch_ttl_seconds r \<noteq> None \<and> (case ch_ttl_deadline r of Some t \<Rightarrow> t < now | None \<Rightarrow> False)
     \<and> ch_archived_at r = None \<and> ch_deleted_at r = None \<and> write_allowed (fst k)"

definition reap_expired_ephemeral_channels ::
  "nat \<Rightarrow> (string \<Rightarrow> bool) \<Rightarrow> channel_db \<Rightarrow> channel_key list \<times> channel_db" where
  "reap_expired_ephemeral_channels now write_allowed db =
     (map fst (filter (\<lambda>(k, r). expired now write_allowed k r) (db_channels db)),
      db\<lparr>db_channels := map (\<lambda>(k, r). (k, if expired now write_allowed k r then r\<lparr>ch_archived_at := Some now\<rparr> else r))
           (db_channels db)\<rparr>)"

text \<open>\<^verbatim>\<open>deploy_kick_member\<close>: the deployment's authority, without the membership lock and its guards.\<close>
definition deploy_kick_member :: "nat \<Rightarrow> channel_key \<Rightarrow> string \<Rightarrow> string \<Rightarrow> channel_db \<Rightarrow> bool \<times> channel_db" where
  "deploy_kick_member now k target actor db =
     (let (n, db') = update_active_member k target (set_removed now actor) db in (0 < n, db'))"

section \<open>Direct messages\<close>

text \<open>\<^verbatim>\<open>compute_participant_hash\<close>; SHA-256 is an argument.\<close>
definition compute_participant_hash :: "(string \<Rightarrow> string) \<Rightarrow> string list \<Rightarrow> string" where
  "compute_participant_hash sha pubkeys = sha (concat (remdups_adj (sort pubkeys)))"

definition find_dm_by_participants :: "channel_db \<Rightarrow> string \<Rightarrow> string \<Rightarrow> (channel_key \<times> channel_record) option" where
  "find_dm_by_participants db community hash =
     find (\<lambda>((c, _), r). c = community \<and> ch_participant_hash r = Some hash \<and> ch_type r = Dm \<and> ch_deleted_at r = None)
       (db_channels db)"

definition create_dm ::
  "(string \<Rightarrow> string) \<Rightarrow> nat \<Rightarrow> channel_key \<Rightarrow> string list \<Rightarrow> string \<Rightarrow> channel_db
    \<Rightarrow> (db_error, channel_key) result \<times> channel_db" where
  "create_dm sha now k participants created_by db =
     (if length participants < 2 then (Err (InvalidData ''DM requires at least 2 participants''), db)
      else if length participants > 9 then (Err (InvalidData ''DM supports at most 9 participants''), db)
      else if \<not> list_all (\<lambda>pk. length pk = 32) participants then (Err (InvalidData ''pubkey must be 32 bytes''), db)
      else
        (let hash = compute_participant_hash sha participants
         in case find_dm_by_participants db (fst k) hash of
              Some (j, _) \<Rightarrow> (Ok j, db)
            | None \<Rightarrow>
                if map_of (db_channels db) k \<noteq> None
                   \<or> list_ex (\<lambda>((c, _), r). c = fst k \<and> ch_participant_hash r = Some hash) (db_channels db)
                then (Err (Sqlx ''duplicate key''), db)
                else
                  (let name = (if length participants = 2 then ''DM'' else ''Group DM ('' @ nat_to_string (length participants) @ '')'');
                       r = (new_channel now name Dm Private created_by None)\<lparr>ch_participant_hash := Some hash\<rparr>
                   in (Ok k, fold (\<lambda>pk. upsert_member now k pk Member (Some created_by)) participants (insert_channel k r db)))))"

definition hide_dm :: "nat \<Rightarrow> channel_key \<Rightarrow> string \<Rightarrow> channel_db \<Rightarrow> (db_error, unit) result \<times> channel_db" where
  "hide_dm now k pk db =
     (let (n, db') = update_active_member k pk (\<lambda>r. r\<lparr>mr_hidden_at := Some now\<rparr>) db
      in if n = 0 then (Err (Not_Found ''no active membership for channel''), db') else (Ok (), db'))"

definition unhide_dm :: "channel_key \<Rightarrow> string \<Rightarrow> channel_db \<Rightarrow> channel_db" where
  "unhide_dm k pk db = snd (update_active_member k pk (\<lambda>r. r\<lparr>mr_hidden_at := None\<rparr>) db)"

text \<open>\<^verbatim>\<open>open_dm\<close>; the identifier for a new channel is an argument.\<close>
definition open_dm ::
  "(string \<Rightarrow> string) \<Rightarrow> nat \<Rightarrow> channel_key \<Rightarrow> string list \<Rightarrow> string \<Rightarrow> channel_db
    \<Rightarrow> (db_error, channel_key \<times> bool) result \<times> channel_db" where
  "open_dm sha now k pubkeys created_by db =
     (let everyone = (if created_by \<in> set pubkeys then pubkeys else pubkeys @ [created_by])
      in if length everyone > 9 then (Err (InvalidData ''DM supports at most 9 participants''), db)
         else (case find_dm_by_participants db (fst k) (compute_participant_hash sha everyone) of
             Some (j, _) \<Rightarrow> (Ok (j, False), unhide_dm j created_by db)
           | None \<Rightarrow> (case create_dm sha now k everyone created_by db of
               (Inl e, db') \<Rightarrow> (Err e, db')
             | (Inr j, db') \<Rightarrow> (Ok (j, True), db'))))"

definition list_hidden_dms :: "channel_db \<Rightarrow> string \<Rightarrow> string \<Rightarrow> string list" where
  "list_hidden_dms db community pk =
     sort (map (\<lambda>(((_, ch), _), _). ch)
       (filter (\<lambda>((j, p), r). fst j = community \<and> p = pk \<and> active r \<and> mr_hidden_at r \<noteq> None
          \<and> (case live_channel db j of Some c \<Rightarrow> ch_type c = Dm | None \<Rightarrow> False)) (db_members db)))"

section \<open>Rosters\<close>

text \<open>The active members of a channel with their roles.\<close>
definition roster :: "channel_db \<Rightarrow> channel_key \<Rightarrow> string \<Rightarrow> member_role option" where
  "roster db k pk = (case map_of (db_members db) (k, pk) of
     Some r \<Rightarrow> if active r then Some (mr_role r) else None | None \<Rightarrow> None)"

abbreviation channel_keys :: "channel_db \<Rightarrow> channel_key list" where
  "channel_keys db \<equiv> map fst (db_channels db)"

abbreviation member_keys :: "channel_db \<Rightarrow> (channel_key \<times> string) list" where
  "member_keys db \<equiv> map fst (db_members db)"

text \<open>Primary keys are unique and a member belongs to a channel.\<close>
definition channel_db_ok :: "channel_db \<Rightarrow> bool" where
  "channel_db_ok db \<longleftrightarrow> distinct (channel_keys db) \<and> distinct (member_keys db)
     \<and> fst ` set (member_keys db) \<subseteq> set (channel_keys db)"

lemma map_of_map_keyed: "map_of (map (\<lambda>(j, r). (j, f j r)) xs) k = map_option (f k) (map_of xs k)"
  by (induction xs) auto

lemma fst_map_keyed [simp]: "map (fst \<circ> (\<lambda>(j, r). (j, f j r))) xs = map fst xs"
  by (induction xs) auto

lemma active_role_roster: "get_active_role_tx db k pk = map_option role_as_str (roster db k pk)"
  by (simp add: get_active_role_tx_def roster_def split: option.splits)

lemma roster_upsert:
  "roster (upsert_member now k pk r i db) j = (if j = k then (roster db k)(pk \<mapsto> r) else roster db j)"
  by (rule ext) (auto simp: roster_def upsert_member_def map_of_map_keyed map_add_def active_def split: option.splits)

lemma upsert_member_keys:
  "member_keys (upsert_member now k pk r i db) =
     (if (k, pk) \<in> set (member_keys db) then member_keys db else member_keys db @ [(k, pk)])"
  "db_channels (upsert_member now k pk r i db) = db_channels db"
  by (auto simp: upsert_member_def map_of_eq_None_iff)

lemma upsert_member_ok:
  "channel_db_ok db \<Longrightarrow> k \<in> set (channel_keys db) \<Longrightarrow> channel_db_ok (upsert_member now k pk r i db)"
  unfolding channel_db_ok_def upsert_member_keys by auto

lemma update_active_members:
  "snd (update_active_member k pk f db) = db\<lparr>db_members :=
     map (\<lambda>(j, r). (j, if j = (k, pk) \<and> active r then f r else r)) (db_members db)\<rparr>"
  by (simp add: update_active_member_def Let_def)

lemma update_active_channels [simp]: "db_channels (snd (update_active_member k pk f db)) = db_channels db"
  by (simp add: update_active_members)

lemma roster_set_removed:
  "roster (snd (update_active_member k pk (set_removed now actor) db)) j = (if j = k then (roster db k)(pk := None) else roster db j)"
  by (rule ext) (auto simp: roster_def update_active_members map_of_map_keyed set_removed_def active_def split: option.splits)

lemma roster_update_other:
  assumes "\<And>r. mr_role (f r) = mr_role r" "\<And>r. mr_removed_at (f r) = mr_removed_at r"
  shows "roster (snd (update_active_member k pk f db)) = roster db"
  by (intro ext) (auto simp: roster_def update_active_members map_of_map_keyed active_def assms split: option.splits)

lemma update_active_ok: "channel_db_ok db \<Longrightarrow> channel_db_ok (snd (update_active_member k pk f db))"
  by (simp add: channel_db_ok_def update_active_members)

lemma owner_count_roster:
  assumes "channel_db_ok db"
  shows "owner_count db k = card {pk. roster db k pk = Some Owner}"
proof -
  let ?rows = "filter (\<lambda>((j, _), r). j = k \<and> mr_role r = Owner \<and> active r) (db_members db)"
  have keys: "distinct (map fst (db_members db))" using assms by (simp add: channel_db_ok_def)
  have "distinct (map (snd \<circ> fst) (filter (\<lambda>((j, _), r). j = k \<and> mr_role r = Owner \<and> active r) xs))"
    if "distinct (map fst xs)" for xs :: "((channel_key \<times> string) \<times> member_record) list"
    using that by (induction xs) (auto simp: image_iff)
  then have d: "distinct (map (snd \<circ> fst) ?rows)" using keys by blast
  have "pk \<in> set (map (snd \<circ> fst) ?rows) \<longleftrightarrow> (\<exists>r. ((k, pk), r) \<in> set (db_members db) \<and> mr_role r = Owner \<and> active r)" for pk
    by (cases k) (auto simp: image_iff)
  then have "pk \<in> set (map (snd \<circ> fst) ?rows) \<longleftrightarrow> roster db k pk = Some Owner" for pk
    unfolding map_of_eq_Some_iff[OF keys, symmetric] by (auto simp: roster_def split: option.splits if_splits)
  then have "set (map (snd \<circ> fst) ?rows) = {pk. roster db k pk = Some Owner}" by blast
  then show ?thesis using distinct_card[OF d] by (simp add: owner_count_def)
qed

section \<open>Sessions\<close>

text \<open>
  Operations of the membership interface; \<^verbatim>\<open>remove_member\<close> comes with what it learned about the agent's owner. The
  callers look the channel up before, so an operation starts on a channel that exists.
\<close>
datatype member_op = Op_Add string member_role "string option" | Op_Remove bool string string

fun member_code :: "string \<Rightarrow> member_op \<Rightarrow> member_result member_tx" where
  "member_code ch (Op_Add pk role invited_by) = add_member_tx ch pk role invited_by"
| "member_code ch (Op_Remove ao pk actor) = remove_member_tx ao ch pk actor"

text \<open>One statement, with what the lookup of the channel answered.\<close>
fun tx_step ::
  "nat \<Rightarrow> channel_key \<Rightarrow> 'a member_tx \<Rightarrow> channel_record option option \<Rightarrow> channel_db
    \<Rightarrow> ('a member_tx \<times> channel_record option option \<times> channel_db) option" where
  "tx_step now k (Tx_Done a) v db = None"
| "tx_step now k (Tx_Channel f) v db = Some (f (live_channel db k), Some (live_channel db k), db)"
| "tx_step now k (Tx_Role pk f) v db = Some (f (get_active_role_tx db k pk), v, db)"
| "tx_step now k (Tx_Owners f) v db = Some (f (owner_count db k), v, db)"
| "tx_step now k (Tx_Upsert pk r i f) v db =
     (let db' = upsert_member now k pk r i db in Some (f (the (map_of (db_members db') (k, pk))), v, db'))"
| "tx_step now k (Tx_Remove pk actor f) v db =
     (let (n, db') = update_active_member k pk (set_removed now actor) db in Some (f n, v, db'))"

record member_session =
  ses_key :: channel_key
  ses_op :: member_op
  ses_channel :: "channel_record option option"
  ses_tx :: "member_result member_tx"

text \<open>The database, the membership locks, the sessions, and the channels somebody was kicked from.\<close>
record member_system =
  ms_db :: channel_db
  ms_locks :: "channel_key \<rightharpoonup> nat"
  ms_sessions :: "nat \<rightharpoonup> member_session"
  ms_kicked :: "channel_key set"

text \<open>The writers that do not take the membership lock, each one atomic.\<close>
inductive channel_write :: "(string \<Rightarrow> string) \<Rightarrow> channel_db \<Rightarrow> channel_db \<Rightarrow> bool" for sha where
  cw_create: "create_channel now k name t v by_key ttl db = (r, db') \<Longrightarrow> channel_write sha db db'"
| cw_create_id: "create_channel_with_id now is_nil k name t v by_key ttl db = (r', db') \<Longrightarrow> channel_write sha db db'"
| cw_update: "update_channel now k u db = (r, db') \<Longrightarrow> channel_write sha db db'"
| cw_archive: "archive_channel now k db = (r'', db') \<Longrightarrow> channel_write sha db db'"
| cw_unarchive: "unarchive_channel now k db = (r'', db') \<Longrightarrow> channel_write sha db db'"
| cw_delete: "soft_delete_channel now k db = (b, db') \<Longrightarrow> channel_write sha db db'"
| cw_reap: "reap_expired_ephemeral_channels now allowed db = (ks, db') \<Longrightarrow> channel_write sha db db'"
| cw_dm: "create_dm sha now k ps by_key db = (r3, db') \<Longrightarrow> channel_write sha db db'"
| cw_hide: "hide_dm now k pk db = (r'', db') \<Longrightarrow> channel_write sha db db'"
| cw_unhide: "channel_write sha db (unhide_dm k pk db)"

datatype member_label =
    M_Begin nat channel_key member_op
  | M_Statement nat
  | M_End nat
  | M_Lost nat
  | M_Channel
  | M_Kick channel_key string

text \<open>\<open>AO\<close> tells who owns an agent in a community; an owner is set once and never changed.\<close>
fun op_ok :: "(string \<Rightarrow> string \<Rightarrow> string \<Rightarrow> bool) \<Rightarrow> channel_key \<Rightarrow> member_op \<Rightarrow> bool" where
  "op_ok AO k (Op_Add pk role invited_by) \<longleftrightarrow> length pk = 32"
| "op_ok AO k (Op_Remove ao pk actor) \<longleftrightarrow> (ao \<longrightarrow> pk \<noteq> actor \<and> AO (fst k) pk actor)"

inductive member_step ::
  "(string \<Rightarrow> string) \<Rightarrow> (string \<Rightarrow> string \<Rightarrow> string \<Rightarrow> bool) \<Rightarrow> member_system \<Rightarrow> member_label \<Rightarrow> member_system \<Rightarrow> bool"
  for sha AO where
  mt_begin: "ms_sessions s w = None \<Longrightarrow> ms_locks s k = None \<Longrightarrow> k \<in> set (channel_keys (ms_db s)) \<Longrightarrow> op_ok AO k opn \<Longrightarrow>
     member_step sha AO s (M_Begin w k opn)
       (s\<lparr>ms_locks := (ms_locks s)(k \<mapsto> w), ms_sessions := (ms_sessions s)(w \<mapsto>
          \<lparr>ses_key = k, ses_op = opn, ses_channel = None, ses_tx = member_code (snd k) opn\<rparr>)\<rparr>)"
| mt_statement: "ms_sessions s w = Some ss \<Longrightarrow>
     tx_step now (ses_key ss) (ses_tx ss) (ses_channel ss) (ms_db s) = Some (tx', v', db') \<Longrightarrow>
     member_step sha AO s (M_Statement w)
       (s\<lparr>ms_db := db', ms_sessions := (ms_sessions s)(w \<mapsto> ss\<lparr>ses_tx := tx', ses_channel := v'\<rparr>)\<rparr>)"
| mt_end: "ms_sessions s w = Some ss \<Longrightarrow> ses_tx ss = Tx_Done a \<Longrightarrow>
     member_step sha AO s (M_End w)
       (s\<lparr>ms_locks := (ms_locks s)(ses_key ss := None), ms_sessions := (ms_sessions s)(w := None)\<rparr>)"
| mt_lost: "ms_sessions s w = Some ss \<Longrightarrow>
     member_step sha AO s (M_Lost w)
       (s\<lparr>ms_locks := (ms_locks s)(ses_key ss := None), ms_sessions := (ms_sessions s)(w := None)\<rparr>)"
| mt_channel: "channel_write sha (ms_db s) db' \<Longrightarrow> member_step sha AO s M_Channel (s\<lparr>ms_db := db'\<rparr>)"
| mt_kick: "deploy_kick_member now k pk actor (ms_db s) = (b, db') \<Longrightarrow>
     member_step sha AO s (M_Kick k pk) (s\<lparr>ms_db := db', ms_kicked := insert k (ms_kicked s)\<rparr>)"

inductive_cases member_stepE: "member_step sha AO s l t"

definition member_start :: "member_system \<Rightarrow> bool" where
  "member_start s \<longleftrightarrow> ms_db s = \<lparr>db_channels = [], db_members = []\<rparr> \<and> ms_locks s = Map.empty
     \<and> ms_sessions s = Map.empty \<and> ms_kicked s = {}"

section \<open>What writes without the lock keep\<close>

text \<open>Channels stay, the rosters of existing channels stay, and a new channel has an owner or is a direct message.\<close>
definition channels_grow :: "channel_db \<Rightarrow> channel_db \<Rightarrow> bool" where
  "channels_grow db db' \<longleftrightarrow> channel_db_ok db'
     \<and> (\<forall>k \<in> set (channel_keys db). k \<in> set (channel_keys db') \<and> roster db' k = roster db k
          \<and> ch_participant_hash (the (map_of (db_channels db') k)) = ch_participant_hash (the (map_of (db_channels db) k)))
     \<and> (\<forall>k r. k \<notin> set (channel_keys db) \<longrightarrow> map_of (db_channels db') k = Some r \<longrightarrow> ch_participant_hash r = None
          \<longrightarrow> (\<exists>pk. roster db' k pk = Some Owner))"

lemma channels_grow_refl [simp]: "channel_db_ok db \<Longrightarrow> channels_grow db db"
  by (auto simp: channels_grow_def map_of_eq_None_iff dest: map_of_SomeD) (metis domI domIff image_eqI fst_conv map_of_SomeD)

text \<open>Changes to the columns of channels.\<close>
lemma channels_grow_rows:
  assumes "channel_db_ok db" and "\<And>k r. ch_participant_hash (f k r) = ch_participant_hash r"
  shows "channels_grow db (db\<lparr>db_channels := map (\<lambda>(k, r). (k, f k r)) (db_channels db)\<rparr>)"
proof -
  have "channel_db_ok (db\<lparr>db_channels := map (\<lambda>(k, r). (k, f k r)) (db_channels db)\<rparr>)"
    using assms(1) by (simp add: channel_db_ok_def)
  moreover have "roster (db\<lparr>db_channels := x\<rparr>) = roster db" for x by (intro ext) (simp add: roster_def)
  ultimately show ?thesis
    using assms(2)
    by (auto simp: channels_grow_def map_of_map_keyed image_iff map_of_eq_None_iff split: prod.splits dest!: map_of_SomeD)
      (metis (no_types, lifting) map_of_eq_None_iff not_None_eq option.map_sel fst_conv image_iff)
qed

lemma channels_grow_row:
  assumes "channel_db_ok db" and "\<And>r. ch_participant_hash (f r) = ch_participant_hash r"
  shows "channels_grow db (update_channel_row k f db)"
  unfolding update_channel_row_def
  by (rule channels_grow_rows[OF assms(1), of "\<lambda>j r. if j = k then f r else r"]) (simp add: assms(2))

text \<open>A new channel with its first members.\<close>
lemma channels_grow_new:
  assumes "k \<notin> set (channel_keys db)" and "channel_db_ok db'" and "db_channels db' = db_channels db @ [(k, r)]"
    and "\<And>j. j \<noteq> k \<Longrightarrow> roster db' j = roster db j"
    and "ch_participant_hash r = None \<Longrightarrow> \<exists>pk. roster db' k pk = Some Owner"
  shows "channels_grow db db'"
proof -
  have "map_of (db_channels db @ [(k, r)]) j = map_of (db_channels db) j" if "j \<in> set (channel_keys db)" for j
    using that by (cases "map_of (db_channels db) j") (auto simp: map_add_def map_of_eq_None_iff)
  moreover have "map_of (db_channels db @ [(k, r)]) j = (if j = k then Some r else None)" if "j \<notin> set (channel_keys db)" for j
    using that map_of_eq_None_iff[of "db_channels db" j] by (auto simp: map_add_def)
  moreover have "roster db' j = roster db j" if "j \<in> set (channel_keys db)" for j
    using that assms(1,4) by metis
  ultimately show ?thesis
    unfolding channels_grow_def assms(3) using assms(2,5) by (intro conjI ballI allI impI) (simp_all split: if_splits)
qed

lemma insert_channel_ok: "channel_db_ok db \<Longrightarrow> k \<notin> set (channel_keys db) \<Longrightarrow> channel_db_ok (insert_channel k r db)"
  by (simp add: channel_db_ok_def insert_channel_def) blast

lemma insert_channel_simps [simp]:
  "db_channels (insert_channel k r db) = db_channels db @ [(k, r)]" "roster (insert_channel k r db) = roster db"
  by (auto simp: insert_channel_def roster_def fun_eq_iff)

lemma channels_grow_create:
  assumes "channel_db_ok db" "k \<notin> set (channel_keys db)"
  shows "channels_grow db (upsert_member now k pk Owner i (insert_channel k r db))"
  by (rule channels_grow_new[where k = k and r = r])
    (use assms in \<open>auto simp: roster_upsert upsert_member_keys insert_channel_ok upsert_member_ok\<close>)

lemma fold_upsert:
  "channel_db_ok db \<Longrightarrow> k \<in> set (channel_keys db) \<Longrightarrow>
     channel_db_ok (fold (\<lambda>pk. upsert_member now k pk Member i) ps db)
     \<and> db_channels (fold (\<lambda>pk. upsert_member now k pk Member i) ps db) = db_channels db
     \<and> (j \<noteq> k \<longrightarrow> roster (fold (\<lambda>pk. upsert_member now k pk Member i) ps db) j = roster db j)"
  by (induction ps arbitrary: db) (simp_all add: upsert_member_ok upsert_member_keys roster_upsert)

lemma channels_grow_dm:
  assumes "channel_db_ok db" "k \<notin> set (channel_keys db)" "ch_participant_hash r \<noteq> None"
  shows "channels_grow db (fold (\<lambda>pk. upsert_member now k pk Member i) ps (insert_channel k r db))"
proof (rule channels_grow_new[where k = k and r = r])
  note f = fold_upsert[of "insert_channel k r db" k now i ps] insert_channel_ok[OF assms(1,2), of r]
  show "channel_db_ok (fold (\<lambda>pk. upsert_member now k pk Member i) ps (insert_channel k r db))"
    "db_channels (fold (\<lambda>pk. upsert_member now k pk Member i) ps (insert_channel k r db)) = db_channels db @ [(k, r)]"
    "\<And>j. j \<noteq> k \<Longrightarrow> roster (fold (\<lambda>pk. upsert_member now k pk Member i) ps (insert_channel k r db)) j = roster db j"
    using f by simp_all
qed (use assms in auto)

lemma channels_grow_members:
  assumes "channel_db_ok db" "roster db' = roster db" "channel_db_ok db'" "db_channels db' = db_channels db"
  shows "channels_grow db db'"
  using channels_grow_refl[OF assms(1)] assms by (simp add: channels_grow_def)

lemma hidden_grows:
  assumes "channel_db_ok db"
  shows "channels_grow db (snd (update_active_member k pk (\<lambda>r. r\<lparr>mr_hidden_at := h\<rparr>) db))"
  using assms by (intro channels_grow_members roster_update_other update_active_ok) (simp_all add: update_active_members)

lemma channel_write_grows:
  assumes "channel_write sha db db'" and ok: "channel_db_ok db"
  shows "channels_grow db db'"
  using assms(1)
proof cases
  case (cw_create now k name t v by_key ttl r)
  then show ?thesis using ok channels_grow_create[OF ok, of k]
    by (auto simp: create_channel_def Let_def try_in_def map_of_eq_None_iff split: if_splits sum.splits)
next
  case (cw_create_id now is_nil k name t v by_key ttl r')
  then show ?thesis using ok channels_grow_create[OF ok, of k]
    by (auto simp: create_channel_with_id_def Let_def try_in_def map_of_eq_None_iff split: if_splits sum.splits option.splits)
next
  case (cw_update now k u r)
  then show ?thesis using ok
    by (auto simp: update_channel_def Let_def apply_update_def intro!: channels_grow_row split: if_splits option.splits)
next
  case (cw_archive now k r'')
  then show ?thesis using ok by (auto simp: archive_channel_def intro!: channels_grow_row split: if_splits option.splits)
next
  case (cw_unarchive now k r'')
  then show ?thesis using ok by (auto simp: unarchive_channel_def intro!: channels_grow_row split: if_splits option.splits)
next
  case (cw_delete now k b)
  then show ?thesis using ok by (auto simp: soft_delete_channel_def intro!: channels_grow_row split: if_splits)
next
  case (cw_reap now allowed ks)
  then show ?thesis
    using channels_grow_rows[OF ok, of "\<lambda>k r. if expired now allowed k r then r\<lparr>ch_archived_at := Some now\<rparr> else r"]
    by (auto simp: reap_expired_ephemeral_channels_def)
next
  case (cw_dm now k ps by_key r3)
  then show ?thesis using ok
    by (auto simp: create_dm_def Let_def map_of_eq_None_iff intro!: channels_grow_dm split: if_splits option.splits)
next
  case (cw_hide now k pk r'')
  then show ?thesis using hidden_grows[OF ok, of k pk "Some now"] by (auto simp: hide_dm_def split: prod.splits if_splits)
next
  case (cw_unhide k pk)
  then show ?thesis using hidden_grows[OF ok, of k pk None] by (simp add: unhide_dm_def)
qed

section \<open>Every write of a transaction\<close>

datatype member_write = W_Upsert string member_role "string option" | W_Remove string string

fun write_roster :: "member_write \<Rightarrow> (string \<rightharpoonup> member_role) \<Rightarrow> (string \<rightharpoonup> member_role)" where
  "write_roster (W_Upsert pk r i) m = m(pk \<mapsto> r)"
| "write_roster (W_Remove pk actor) m = m(pk := None)"

text \<open>
  All writes a transaction may still do have a property, when its reads of members see the roster \<open>m\<close> and
  its lookup of the channel has answered \<open>v\<close>.
\<close>
primrec tx_all ::
  "'a member_tx \<Rightarrow> (channel_record option option \<Rightarrow> member_write \<Rightarrow> (string \<rightharpoonup> member_role) \<Rightarrow> bool)
    \<Rightarrow> channel_record option option \<Rightarrow> (string \<rightharpoonup> member_role) \<Rightarrow> bool" where
  "tx_all (Tx_Done a) P v m = True"
| "tx_all (Tx_Channel f) P v m = (\<forall>c. tx_all (f c) P (Some c) m)"
| "tx_all (Tx_Role pk f) P v m = tx_all (f (map_option role_as_str (m pk))) P v m"
| "tx_all (Tx_Owners f) P v m = tx_all (f (card {pk. m pk = Some Owner})) P v m"
| "tx_all (Tx_Upsert pk r i f) P v m \<longleftrightarrow> P v (W_Upsert pk r i) m \<and> (\<forall>row. tx_all (f row) P v (m(pk \<mapsto> r)))"
| "tx_all (Tx_Remove pk actor f) P v m \<longleftrightarrow> P v (W_Remove pk actor) m \<and> (\<forall>n. tx_all (f n) P v (m(pk := None)))"

definition keeps_owner :: "channel_record option option \<Rightarrow> member_write \<Rightarrow> (string \<rightharpoonup> member_role) \<Rightarrow> bool" where
  "keeps_owner v wr m \<longleftrightarrow> ((\<exists>p. m p = Some Owner) \<longrightarrow> (\<exists>p. write_roster wr m p = Some Owner))"

text \<open>Who may make a write.\<close>
definition elevated_in :: "(string \<rightharpoonup> member_role) \<Rightarrow> string \<Rightarrow> bool" where
  "elevated_in m pk \<longleftrightarrow> (\<exists>r. m pk = Some r \<and> is_elevated r)"

fun authorised ::
  "(string \<Rightarrow> string \<Rightarrow> string \<Rightarrow> bool) \<Rightarrow> string \<Rightarrow> channel_record option option \<Rightarrow> member_write \<Rightarrow> (string \<rightharpoonup> member_role) \<Rightarrow> bool" where
  "authorised AO community v (W_Upsert pk r invited_by) m \<longleftrightarrow>
     m pk = Some r
     \<or> (\<exists>actor. invited_by = Some actor \<and> elevated_in m actor)
     \<or> (\<exists>c. v = Some (Some c) \<and> m pk = None
          \<and> (\<not> is_elevated r \<and> (ch_visibility c = Open \<or> (\<exists>actor. invited_by = Some actor \<and> m actor \<noteq> None))
             \<or> ch_visibility c = Private \<and> invited_by = Some pk \<and> ch_created_by c = pk))"
| "authorised AO community v (W_Remove pk actor) m \<longleftrightarrow>
     actor = pk \<or> elevated_in m actor \<or> m actor \<noteq> None \<and> AO community pk actor"

lemma another_owner:
  assumes "\<not> card {p. m p = Some Owner} \<le> 1"
  shows "\<exists>p. p \<noteq> pk \<and> m p = Some Owner"
proof (rule ccontr)
  assume "\<not> ?thesis"
  then have "{p. m p = Some Owner} \<subseteq> {pk}" by blast
  then have "card {p. m p = Some Owner} \<le> card {pk}" by (intro card_mono) simp_all
  then show False using assms by simp
qed

lemma role_text [simp]: "role_as_str r = ''owner'' \<longleftrightarrow> r = Owner" "role_as_str r = ''admin'' \<longleftrightarrow> r = Admin"
  by (cases r; simp)+

text \<open>When the guards of each transaction let it write.\<close>
lemma tx_all_add_apply:
  assumes "m pk = None \<or> m pk = Some r
      \<or> (\<exists>actor. invited_by = Some actor \<and> elevated_in m actor) \<and> (m pk = Some Owner \<longrightarrow> r \<noteq> Owner \<longrightarrow> \<not> card {p. m p = Some Owner} \<le> 1)
      \<Longrightarrow> P v (W_Upsert pk r invited_by) m"
  shows "tx_all (add_member_apply pk r invited_by) P v m"
proof (cases "m pk")
  case None
  then show ?thesis using assms by (simp add: add_member_apply_def Let_def)
next
  case (Some cur)
  show ?thesis
  proof (cases invited_by)
    case None
    then show ?thesis using assms Some by (simp add: add_member_apply_def tx_inviter_role_def Let_def)
  next
    case (Some actor)
    then show ?thesis using assms \<open>m pk = Some cur\<close>
      by (cases "m actor") (simp_all add: add_member_apply_def tx_inviter_role_def elevated_in_def Let_def)
  qed
qed

lemma tx_all_remove_apply:
  assumes "(m pk = Some Owner \<longrightarrow> \<not> card {p. m p = Some Owner} \<le> 1) \<Longrightarrow> P v (W_Remove pk actor) m"
  shows "tx_all (remove_member_apply ch pk actor) P v m"
  using assms by (cases "m pk") (simp_all add: remove_member_apply_def Let_def)

text \<open>What else the transactions have checked before.\<close>
lemma tx_all_add_in:
  assumes "ch_visibility c = Open \<Longrightarrow> (is_elevated r \<longrightarrow> (\<exists>a. invited_by = Some a \<and> elevated_in m a))
      \<Longrightarrow> tx_all (add_member_apply pk r invited_by) P v m"
    and "\<And>a. ch_visibility c = Private \<Longrightarrow> invited_by = Some a
      \<Longrightarrow> a = pk \<and> ch_created_by c = pk \<or> m a \<noteq> None \<and> (is_elevated r \<longrightarrow> elevated_in m a)
      \<Longrightarrow> tx_all (add_member_apply pk r invited_by) P v m"
  shows "tx_all (add_member_in c pk r invited_by) P v m"
proof (cases invited_by)
  case None
  then show ?thesis using assms(1)
    by (cases "ch_visibility c") (simp_all add: add_member_in_def tx_inviter_role_def)
next
  case (Some a)
  have el: "is_elevated ar \<longleftrightarrow> ar = Owner \<or> ar = Admin" for ar by (cases ar) simp_all
  show ?thesis
  proof (cases "ch_visibility c")
    case Open
    then show ?thesis using assms(1) Some
      by (cases "m a") (auto simp: add_member_in_def tx_inviter_role_def elevated_in_def el)
  next
    case Private
    then show ?thesis using assms(2)[OF Private Some] Some
      by (cases "m a") (auto simp: add_member_in_def elevated_in_def)
  qed
qed

lemma tx_all_remove:
  assumes "actor = pk \<or> elevated_in m actor \<or> m actor \<noteq> None \<and> ao \<Longrightarrow> tx_all (remove_member_apply ch pk actor) P v m"
  shows "tx_all (remove_member_tx ao ch pk actor) P v m"
  using assms by (cases "m actor") (auto simp: remove_member_tx_def elevated_in_def)

lemma keeps_owner_upsert:
  "r = Owner \<or> m pk \<noteq> Some Owner \<or> (\<exists>p. p \<noteq> pk \<and> m p = Some Owner) \<Longrightarrow> keeps_owner v (W_Upsert pk r i) m"
  unfolding keeps_owner_def write_roster.simps by (metis fun_upd_apply)

lemma keeps_owner_remove:
  "m pk \<noteq> Some Owner \<or> (\<exists>p. p \<noteq> pk \<and> m p = Some Owner) \<Longrightarrow> keeps_owner v (W_Remove pk actor) m"
  unfolding keeps_owner_def write_roster.simps by (metis fun_upd_apply)

lemma code_keeps_owner: "tx_all (member_code ch opn) keeps_owner v m"
proof (cases opn)
  case (Op_Add pk r i)
  have "tx_all (add_member_apply pk r i) keeps_owner u m" for u
    by (rule tx_all_add_apply, rule keeps_owner_upsert) (use another_owner[of m pk] in auto)
  then show ?thesis using Op_Add by (auto simp: add_member_tx_def intro: tx_all_add_in split: option.splits)
next
  case (Op_Remove ao pk actor)
  have "tx_all (remove_member_apply ch pk actor) keeps_owner v m"
    by (rule tx_all_remove_apply, rule keeps_owner_remove) (use another_owner[of m pk] in auto)
  then show ?thesis using Op_Remove by (auto intro: tx_all_remove)
qed

lemma code_authorised:
  assumes "op_ok AO k opn"
  shows "tx_all (member_code (snd k) opn) (authorised AO (fst k)) v m"
proof (cases opn)
  case (Op_Add pk r i)
  have "tx_all (add_member_in c pk r i) (authorised AO (fst k)) (Some (Some c)) m" for c
    by (rule tx_all_add_in; rule tx_all_add_apply) auto
  then show ?thesis using Op_Add by (auto simp: add_member_tx_def split: option.splits)
next
  case (Op_Remove ao pk actor)
  then show ?thesis using assms
    by (auto intro!: tx_all_remove tx_all_remove_apply)
qed

section \<open>The system keeps its owners\<close>

fun write_of :: "member_op \<Rightarrow> member_write \<Rightarrow> bool" where
  "write_of (Op_Add pk r i) wr \<longleftrightarrow> wr = W_Upsert pk r i"
| "write_of (Op_Remove ao pk actor) wr \<longleftrightarrow> wr = W_Remove pk actor"

lemma code_writes: "tx_all (member_code ch opn) (\<lambda>v wr m. write_of opn wr) v m"
  by (cases opn) (auto simp: add_member_tx_def intro!: tx_all_add_in tx_all_add_apply tx_all_remove tx_all_remove_apply split: option.splits)

definition good_write ::
  "(string \<Rightarrow> string \<Rightarrow> string \<Rightarrow> bool) \<Rightarrow> channel_key \<Rightarrow> member_op \<Rightarrow> channel_record option option \<Rightarrow> member_write \<Rightarrow> (string \<rightharpoonup> member_role) \<Rightarrow> bool" where
  "good_write AO k opn v wr m \<longleftrightarrow> keeps_owner v wr m \<and> authorised AO (fst k) v wr m \<and> write_of opn wr"

lemma tx_all_conj: "tx_all tx (\<lambda>v wr m. P v wr m \<and> Q v wr m) v m \<longleftrightarrow> tx_all tx P v m \<and> tx_all tx Q v m"
  by (induction tx arbitrary: v m) auto

lemma code_good: "op_ok AO k opn \<Longrightarrow> tx_all (member_code (snd k) opn) (good_write AO k opn) v m"
  unfolding good_write_def using code_keeps_owner code_authorised code_writes by (auto simp: tx_all_conj)

abbreviation tx_good :: "(string \<Rightarrow> string \<Rightarrow> string \<Rightarrow> bool) \<Rightarrow> channel_db \<Rightarrow> member_session \<Rightarrow> bool" where
  "tx_good AO db ss \<equiv> tx_all (ses_tx ss) (good_write AO (ses_key ss) (ses_op ss)) (ses_channel ss) (roster db (ses_key ss))"

definition member_inv :: "(string \<Rightarrow> string \<Rightarrow> string \<Rightarrow> bool) \<Rightarrow> member_system \<Rightarrow> bool" where
  "member_inv AO s \<longleftrightarrow> channel_db_ok (ms_db s)
     \<and> (\<forall>w ss. ms_sessions s w = Some ss \<longrightarrow> ms_locks s (ses_key ss) = Some w \<and> ses_key ss \<in> set (channel_keys (ms_db s))
          \<and> (ses_key ss \<notin> ms_kicked s \<longrightarrow> tx_good AO (ms_db s) ss))
     \<and> (\<forall>k r. map_of (db_channels (ms_db s)) k = Some r \<longrightarrow> ch_participant_hash r = None \<longrightarrow> k \<notin> ms_kicked s
          \<longrightarrow> (\<exists>pk. roster (ms_db s) k pk = Some Owner))"

text \<open>A statement changes at most the roster of its own channel, by a write the transaction announced.\<close>
lemma tx_step_cases:
  assumes st: "tx_step now k tx v db = Some (tx', v', db')" and ok: "channel_db_ok db" and k: "k \<in> set (channel_keys db)"
    and P: "tx_all tx P v (roster db k)"
  shows "channel_db_ok db' \<and> db_channels db' = db_channels db \<and> (j \<noteq> k \<longrightarrow> roster db' j = roster db j)
    \<and> tx_all tx' P v' (roster db' k)
    \<and> (roster db' k = roster db k \<or> (\<exists>wr. P v wr (roster db k) \<and> roster db' k = write_roster wr (roster db k) \<and> v' = v))"
proof (cases tx)
  case (Tx_Role pk f)
  then show ?thesis using assms by (auto simp: active_role_roster)
next
  case (Tx_Owners f)
  then show ?thesis using assms by (auto simp: owner_count_roster)
next
  case (Tx_Upsert pk r i f)
  then have db': "db' = upsert_member now k pk r i db" and "v' = v" using st by (simp_all add: Let_def)
  have "roster db' k = write_roster (W_Upsert pk r i) (roster db k)" by (simp add: db' roster_upsert)
  moreover have "P v (W_Upsert pk r i) (roster db k)" using P Tx_Upsert by simp
  moreover have "tx_all tx' P v (roster db' k)" using st P Tx_Upsert by (auto simp: Let_def roster_upsert)
  ultimately show ?thesis
    using upsert_member_ok[OF ok k] \<open>v' = v\<close> by (auto simp: db' upsert_member_keys(2) roster_upsert)
next
  case (Tx_Remove pk actor f)
  then have db': "db' = snd (update_active_member k pk (set_removed now actor) db)" and "v' = v"
    using st by (simp_all add: Let_def split: prod.splits)
  have "roster db' k = write_roster (W_Remove pk actor) (roster db k)" by (simp add: db' roster_set_removed)
  moreover have "P v (W_Remove pk actor) (roster db k)" using P Tx_Remove by simp
  moreover have "tx_all tx' P v (roster db' k)"
    using st P Tx_Remove by (auto simp: db' Let_def roster_set_removed split: prod.splits)
  ultimately show ?thesis
    using update_active_ok[OF ok] \<open>v' = v\<close> by (auto simp: db' roster_set_removed)
qed (use assms in auto)

lemma member_inv_sessions:
  assumes "member_inv AO s" "ms_sessions s w = Some ss" "ms_sessions s w' = Some ss'" "w \<noteq> w'"
  shows "ses_key ss' \<noteq> ses_key ss"
  using assms unfolding member_inv_def by (metis option.inject)

lemma member_inv_channels:
  assumes i: "member_inv AO s" and grow: "channels_grow (ms_db s) db'"
  shows "member_inv AO (s\<lparr>ms_db := db'\<rparr>)"
proof -
  have "\<exists>pk. roster db' k pk = Some Owner"
    if "map_of (db_channels db') k = Some r" "ch_participant_hash r = None" "k \<notin> ms_kicked s" for k r
  proof (cases "k \<in> set (channel_keys (ms_db s))")
    case True
    then obtain r0 where r0: "map_of (db_channels (ms_db s)) k = Some r0" by (metis map_of_eq_None_iff list.set_map option.exhaust)
    then have "roster db' k = roster (ms_db s) k" "ch_participant_hash r0 = None"
      using grow True that(1,2) unfolding channels_grow_def by (metis option.sel)+
    then show ?thesis using i r0 that(3) unfolding member_inv_def by metis
  next
    case False
    then show ?thesis using grow that unfolding channels_grow_def by blast
  qed
  moreover have same: "k \<in> set (channel_keys db') \<and> roster db' k = roster (ms_db s) k" if "k \<in> set (channel_keys (ms_db s))" for k
    using grow that unfolding channels_grow_def by blast
  have "ms_locks s (ses_key ss) = Some w \<and> ses_key ss \<in> set (channel_keys db') \<and> (ses_key ss \<notin> ms_kicked s \<longrightarrow> tx_good AO db' ss)"
    if "ms_sessions s w = Some ss" for w ss
    using i that same[of "ses_key ss"] unfolding member_inv_def by simp
  moreover have "channel_db_ok db'" using grow unfolding channels_grow_def by blast
  ultimately show ?thesis by (simp add: member_inv_def)
qed

lemma member_inv_statement:
  assumes i: "member_inv AO s" and w: "ms_sessions s w = Some ss"
    and st: "tx_step now (ses_key ss) (ses_tx ss) (ses_channel ss) (ms_db s) = Some (tx', v', db')"
  shows "member_inv AO (s\<lparr>ms_db := db', ms_sessions := (ms_sessions s)(w \<mapsto> ss\<lparr>ses_tx := tx', ses_channel := v'\<rparr>)\<rparr>)"
proof -
  let ?k = "ses_key ss"
  let ?Q = "\<lambda>v wr m. ?k \<notin> ms_kicked s \<longrightarrow> good_write AO ?k (ses_op ss) v wr m"
  have ss: "ms_locks s ?k = Some w" "?k \<in> set (channel_keys (ms_db s))" "channel_db_ok (ms_db s)"
      "?k \<notin> ms_kicked s \<longrightarrow> tx_good AO (ms_db s) ss"
    using i w unfolding member_inv_def by blast+
  have all: "tx_all tx (\<lambda>_ _ _. True) v m" for tx :: "member_result member_tx" and v m by (induction tx arbitrary: v m) auto
  have "tx_all (ses_tx ss) ?Q (ses_channel ss) (roster (ms_db s) ?k)"
    using ss(4) all by (cases "?k \<in> ms_kicked s") simp_all
  note c = tx_step_cases[OF st ss(3,2) this]
  have other: "roster db' j = roster (ms_db s) j" if "j \<noteq> ?k" for j using c[of j] that by blast
  have chans: "db_channels db' = db_channels (ms_db s)" and ok: "channel_db_ok db'" using c by blast+
  have owner: "\<exists>pk. roster db' j pk = Some Owner"
    if "map_of (db_channels (ms_db s)) j = Some r" "ch_participant_hash r = None" "j \<notin> ms_kicked s" for j r
  proof -
    have "\<exists>pk. roster (ms_db s) j pk = Some Owner" using i that unfolding member_inv_def by blast
    then show ?thesis using other c[of j] that(3) by (cases "j = ?k") (auto simp: good_write_def keeps_owner_def)
  qed
  have tx: "?k \<notin> ms_kicked s \<longrightarrow> tx_good AO db' (ss\<lparr>ses_tx := tx', ses_channel := v'\<rparr>)"
    using c by (cases "?k \<in> ms_kicked s") simp_all
  have others: "ms_locks s (ses_key ss') = Some w' \<and> ses_key ss' \<in> set (channel_keys db')
      \<and> (ses_key ss' \<notin> ms_kicked s \<longrightarrow> tx_good AO db' ss')" if "ms_sessions s w' = Some ss'" "w' \<noteq> w" for w' ss'
    using i that chans other[OF member_inv_sessions[OF i w that(1)]] unfolding member_inv_def by auto
  show ?thesis
    unfolding member_inv_def using ok owner tx ss chans others by (simp del: fun_upd_apply) (simp add: fun_upd_def)
qed

lemma member_inv_release:
  assumes i: "member_inv AO s" and w: "ms_sessions s w = Some ss"
  shows "member_inv AO (s\<lparr>ms_locks := (ms_locks s)(ses_key ss := None), ms_sessions := (ms_sessions s)(w := None)\<rparr>)"
  using i member_inv_sessions[OF i w] unfolding member_inv_def by simp

lemma member_inv_begin:
  assumes i: "member_inv AO s" and free: "ms_sessions s w = None" "ms_locks s k = None"
    and k: "k \<in> set (channel_keys (ms_db s))" and "op_ok AO k opn"
  shows "member_inv AO (s\<lparr>ms_locks := (ms_locks s)(k \<mapsto> w), ms_sessions := (ms_sessions s)(w \<mapsto>
          \<lparr>ses_key = k, ses_op = opn, ses_channel = None, ses_tx = member_code (snd k) opn\<rparr>)\<rparr>)"
proof -
  have "ses_key ss \<noteq> k" if "ms_sessions s w' = Some ss" for w' ss
    using i that free(2) unfolding member_inv_def by fastforce
  then show ?thesis using i k code_good[OF assms(5)] unfolding member_inv_def by simp
qed

lemma member_inv_kick:
  assumes i: "member_inv AO s"
  shows "member_inv AO (s\<lparr>ms_db := snd (update_active_member k pk (set_removed now actor) (ms_db s)), ms_kicked := insert k (ms_kicked s)\<rparr>)"
  using i unfolding member_inv_def by (simp add: update_active_ok roster_set_removed)

lemma member_step_inv:
  assumes "member_inv AO s" "member_step sha AO s l t"
  shows "member_inv AO t"
  using assms(2)
proof cases
  case mt_channel
  moreover have "channel_db_ok (ms_db s)" using assms(1) by (simp add: member_inv_def)
  ultimately show ?thesis using member_inv_channels[OF assms(1)] channel_write_grows by simp
next
  case (mt_kick now k pk actor b db')
  then have "db' = snd (update_active_member k pk (set_removed now actor) (ms_db s))"
    by (simp add: deploy_kick_member_def split: prod.splits)
  then show ?thesis using mt_kick(2) member_inv_kick[OF assms(1)] by simp
qed (use assms(1) member_inv_begin member_inv_statement member_inv_release in simp_all)

interpretation memberships: invariant_system member_start "member_step sha AO" "member_inv AO" for sha AO
proof unfold_locales
  show "member_start s \<Longrightarrow> member_inv AO s" for s
    by (simp add: member_start_def member_inv_def channel_db_ok_def)
qed (rule member_step_inv)

lemma member_run_kicked:
  "run (member_step sha AO) s ls t \<Longrightarrow> ms_kicked t = ms_kicked s \<union> {k. \<exists>pk. M_Kick k pk \<in> set ls}"
proof (induction ls arbitrary: s)
  case (Cons l ls)
  then obtain u where u: "member_step sha AO s l u" "run (member_step sha AO) u ls t" by (auto simp: run_Cons_simps)
  then have "ms_kicked u = ms_kicked s \<union> {k. \<exists>pk. M_Kick k pk = l}" by (auto elim!: member_stepE)
  then show ?case using Cons.IH[OF u(2)] by auto
qed simp

text \<open>
  C16: A channel keeps an owner: whatever sessions add, promote, demote and remove members of a channel
  concurrently, statement by statement and with failures at any point, and whatever happens to channels and
  direct messages meanwhile, every channel that is not a direct message has an active owner, unless the
  deployment's own authority kicked somebody from it.
\<close>
theorem last_owner_kept:
  assumes "member_start s0" "run (member_step sha AO) s0 ls s"
    and "map_of (db_channels (ms_db s)) k = Some c" "ch_participant_hash c = None"
    and "\<forall>pk. M_Kick k pk \<notin> set ls"
  shows "\<exists>pk. get_active_role_tx (ms_db s) k pk = Some ''owner''"
proof -
  have i: "member_inv AO s" using memberships.run_inv memberships.start_inv assms(1,2) by blast
  have "k \<notin> ms_kicked s" using member_run_kicked[OF assms(2)] assms(1,5) by (simp add: member_start_def)
  then have "\<exists>pk. roster (ms_db s) k pk = Some Owner" using i assms(3,4) unfolding member_inv_def by blast
  then show ?thesis by (auto simp: active_role_roster)
qed

text \<open>A kick that takes effect while a session is running takes away what the session has read.\<close>

definition begins :: "nat \<Rightarrow> member_label \<Rightarrow> bool" where
  "begins w l \<longleftrightarrow> (case l of M_Begin w' k opn \<Rightarrow> w' = w | _ \<Rightarrow> False)"

definition kicked_since :: "nat \<Rightarrow> channel_key \<Rightarrow> member_label list \<Rightarrow> bool" where
  "kicked_since w k ls \<longleftrightarrow> (\<exists>pk. M_Kick k pk \<in> set (takeWhile (\<lambda>l. \<not> begins w l) (rev ls)))"

lemma kicked_since_snoc:
  "kicked_since w k (ls @ [l]) \<longleftrightarrow> \<not> begins w l \<and> ((\<exists>pk. l = M_Kick k pk) \<or> kicked_since w k ls)"
  by (auto simp: kicked_since_def begins_def)

primrec tx_only :: "(member_write \<Rightarrow> bool) \<Rightarrow> 'a member_tx \<Rightarrow> bool" where
  "tx_only P (Tx_Done a) = True"
| "tx_only P (Tx_Channel f) = (\<forall>c. tx_only P (f c))"
| "tx_only P (Tx_Role pk f) = (\<forall>r. tx_only P (f r))"
| "tx_only P (Tx_Owners f) = (\<forall>n. tx_only P (f n))"
| "tx_only P (Tx_Upsert pk r i f) = (P (W_Upsert pk r i) \<and> (\<forall>row. tx_only P (f row)))"
| "tx_only P (Tx_Remove pk actor f) = (P (W_Remove pk actor) \<and> (\<forall>n. tx_only P (f n)))"

lemma code_only: "tx_only (write_of opn) (member_code ch opn)"
proof -
  have "tx_only (write_of (Op_Add pk r i)) (add_member_apply pk r i)" for pk r i
    by (auto simp: add_member_apply_def tx_inviter_role_def Let_def split: option.splits)
  then have "tx_only (write_of (Op_Add pk r i)) (add_member_in c pk r i)" for c pk r i
    by (auto simp: add_member_in_def tx_inviter_role_def Let_def split: option.split sum.split)
  moreover have "tx_only (write_of (Op_Remove ao pk actor)) (remove_member_apply ch pk actor)" for ao pk actor
    by (auto simp: remove_member_apply_def Let_def)
  ultimately show ?thesis
    by (cases opn) (auto simp: add_member_tx_def remove_member_tx_def Let_def split: option.split sum.split)
qed

lemma tx_only_step: "tx_only P tx \<Longrightarrow> tx_step now k tx v db = Some (tx', v', db') \<Longrightarrow> tx_only P tx'"
  by (cases tx) (auto simp: Let_def split: prod.splits)

lemma tx_only_all: "tx_only P tx \<Longrightarrow> tx_all tx (\<lambda>v wr m. P wr) v m"
  by (induction tx arbitrary: v m) auto

definition sessions_read :: "(string \<Rightarrow> string \<Rightarrow> string \<Rightarrow> bool) \<Rightarrow> member_label list \<Rightarrow> member_system \<Rightarrow> bool" where
  "sessions_read AO ls s \<longleftrightarrow> (\<forall>w ss. ms_sessions s w = Some ss \<longrightarrow>
     tx_only (write_of (ses_op ss)) (ses_tx ss) \<and> (\<not> kicked_since w (ses_key ss) ls \<longrightarrow> tx_good AO (ms_db s) ss))"

lemma sessions_read_step:
  assumes r: "sessions_read AO ls s" and i: "member_inv AO s" and st: "member_step sha AO s l t"
  shows "sessions_read AO (ls @ [l]) t"
  using st
proof cases
  case (mt_begin w k opn)
  then show ?thesis using r code_only code_good[OF mt_begin(6)]
    by (auto simp: sessions_read_def kicked_since_snoc begins_def split: if_splits)
next
  case (mt_statement w ss now tx' v' db')
  let ?P = "\<lambda>v wr m. \<not> kicked_since w (ses_key ss) ls \<longrightarrow> good_write AO (ses_key ss) (ses_op ss) v wr m"
  have ss: "tx_only (write_of (ses_op ss)) (ses_tx ss)" "\<not> kicked_since w (ses_key ss) ls \<longrightarrow> tx_good AO (ms_db s) ss"
      "channel_db_ok (ms_db s)" "ses_key ss \<in> set (channel_keys (ms_db s))"
    using r i mt_statement(3) by (auto simp: sessions_read_def member_inv_def)
  have all: "tx_all tx (\<lambda>_ _ _. True) v m" for tx :: "member_result member_tx" and v m by (induction tx arbitrary: v m) auto
  have "tx_all (ses_tx ss) ?P (ses_channel ss) (roster (ms_db s) (ses_key ss))"
    using ss(2) all by (cases "kicked_since w (ses_key ss) ls") simp_all
  note c = tx_step_cases[OF mt_statement(4) ss(3,4) this]
  have "tx_only (write_of (ses_op ss)) tx'" by (rule tx_only_step[OF ss(1) mt_statement(4)])
  moreover have "\<not> kicked_since w (ses_key ss) ls \<longrightarrow> tx_all tx' (good_write AO (ses_key ss) (ses_op ss)) v' (roster db' (ses_key ss))"
    using c by (cases "kicked_since w (ses_key ss) ls") simp_all
  moreover have "roster db' (ses_key ss') = roster (ms_db s) (ses_key ss')" if "ms_sessions s w' = Some ss'" "w' \<noteq> w" for w' ss'
    using c member_inv_sessions[OF i mt_statement(3) that(1)] that(2) by blast
  ultimately show ?thesis using r
    by (auto simp: sessions_read_def kicked_since_snoc begins_def mt_statement(1,2) split: if_splits)
next
  case (mt_channel db')
  have "roster db' (ses_key ss) = roster (ms_db s) (ses_key ss)" if "ms_sessions s w = Some ss" for w ss
    using channel_write_grows[OF mt_channel(3)] i that unfolding member_inv_def channels_grow_def by blast
  then show ?thesis using r mt_channel(1,2) by (auto simp: sessions_read_def kicked_since_snoc begins_def)
next
  case (mt_kick now k pk actor b db')
  have "db' = snd (update_active_member k pk (set_removed now actor) (ms_db s))"
    using mt_kick(3) by (simp add: deploy_kick_member_def split: prod.splits)
  then have "roster db' j = roster (ms_db s) j" if "j \<noteq> k" for j using that by (simp add: roster_set_removed)
  then have "tx_good AO db' ss" if "ses_key ss \<noteq> k" "tx_good AO (ms_db s) ss" for ss using that by simp
  then show ?thesis using r mt_kick(1,2) by (auto simp: sessions_read_def kicked_since_snoc begins_def)
qed (use r in \<open>auto simp: sessions_read_def kicked_since_snoc begins_def split: if_splits\<close>)

lemma sessions_read_run:
  assumes "member_start s0"
  shows "run (member_step sha AO) s0 ls s \<Longrightarrow> sessions_read AO ls s"
proof (induction ls arbitrary: s rule: rev_induct)
  case Nil
  then show ?case using assms by (simp add: member_start_def sessions_read_def)
next
  case (snoc l ls)
  then obtain u where u: "run (member_step sha AO) s0 ls u" "member_step sha AO u l s" by (auto simp: run_snoc)
  then have "member_inv AO u" using memberships.run_inv memberships.start_inv assms by blast
  then show ?case using sessions_read_step snoc.IH u by blast
qed

text \<open>
  C17: Roles change only with authority, under every interleaving: a step that changes the active role of
  somebody in a channel creates the channel, or is the deployment's own kick of exactly this member, or is the write
  of a session whose operation names exactly this member. At the moment of such a write the operation is
  authorised, unless the deployment kicked somebody from the channel while the session was running: its actor
  is an owner or admin; or the member was not active, the new role is not elevated and the channel was read as
  open or the inviter is active; or the creator of a private channel, not active, adds themselves; or a
  member leaves, or is removed by an owner, an admin or, inside the channel, by the owner of the agent.
\<close>
theorem role_changes_authorised:
  assumes "member_start s0" "run (member_step sha AO) s0 ls s" "member_step sha AO s l t"
    and "get_active_role_tx (ms_db t) k pk \<noteq> get_active_role_tx (ms_db s) k pk"
  shows "l = M_Channel \<and> k \<notin> set (channel_keys (ms_db s))
    \<or> l = M_Kick k pk \<and> get_active_role_tx (ms_db t) k pk = None
    \<or> (\<exists>w ss wr. l = M_Statement w \<and> ms_sessions s w = Some ss \<and> ses_key ss = k \<and> write_of (ses_op ss) wr
         \<and> wr \<in> {W_Upsert pk r i |r i. True} \<union> {W_Remove pk a |a. True}
         \<and> get_active_role_tx (ms_db t) k pk = map_option role_as_str (write_roster wr (roster (ms_db s) k) pk)
         \<and> (kicked_since w k ls \<or> authorised AO (fst k) (ses_channel ss) wr (roster (ms_db s) k)))"
proof -
  have i: "member_inv AO s" using memberships.run_inv memberships.start_inv assms(1,2) by blast
  have diff: "roster (ms_db t) k pk \<noteq> roster (ms_db s) k pk" using assms(4) by (auto simp: active_role_roster)
  show ?thesis using assms(3)
  proof cases
    case (mt_statement w ss now tx' v' db')
    have ss: "ses_key ss \<in> set (channel_keys (ms_db s))" "channel_db_ok (ms_db s)"
      using i mt_statement(3) unfolding member_inv_def by blast+
    let ?P = "\<lambda>v wr m. write_of (ses_op ss) wr \<and> (kicked_since w (ses_key ss) ls \<or> authorised AO (fst (ses_key ss)) v wr m)"
    have read: "tx_only (write_of (ses_op ss)) (ses_tx ss)" "\<not> kicked_since w (ses_key ss) ls \<longrightarrow> tx_good AO (ms_db s) ss"
      using sessions_read_run[OF assms(1,2)] mt_statement(3) by (auto simp: sessions_read_def)
    have P: "tx_all (ses_tx ss) ?P (ses_channel ss) (roster (ms_db s) (ses_key ss))"
      using tx_only_all[OF read(1)] read(2)
      by (cases "kicked_since w (ses_key ss) ls") (simp_all add: good_write_def[abs_def] tx_all_conj)
    note c = tx_step_cases[OF mt_statement(4) ss(2,1) P, of k]
    have key: "ses_key ss = k" using c diff mt_statement(2) by auto
    then obtain wr where wr: "?P (ses_channel ss) wr (roster (ms_db s) k)" "roster (ms_db t) k = write_roster wr (roster (ms_db s) k)"
      using c diff mt_statement(2) by auto
    have "wr \<in> {W_Upsert pk r i |r i. True} \<union> {W_Remove pk a |a. True}"
      using diff wr(2) by (cases wr) (auto split: if_splits)
    then show ?thesis using mt_statement(1,3) key wr by (auto simp: active_role_roster)
  next
    case (mt_channel db')
    have "k \<notin> set (channel_keys (ms_db s))"
    proof
      assume "k \<in> set (channel_keys (ms_db s))"
      then have "roster db' k = roster (ms_db s) k"
        using channel_write_grows[OF mt_channel(3)] i unfolding member_inv_def channels_grow_def by blast
      then show False using diff mt_channel(2) by simp
    qed
    then show ?thesis using mt_channel(1) by blast
  next
    case (mt_kick now k' pk' actor b db')
    have db': "roster db' j = (if j = k' then write_roster (W_Remove pk' actor) (roster (ms_db s) j) else roster (ms_db s) j)" for j
      using mt_kick(3) by (auto simp: deploy_kick_member_def roster_set_removed dest!: arg_cong[where f = snd] split: prod.splits)
    then have "k' = k" "pk' = pk" using diff mt_kick(2) by (auto split: if_splits)
    then show ?thesis using mt_kick(1,2) db' by (simp add: active_role_roster)
  qed (use diff in auto)
qed

section \<open>Single operations\<close>

lemma run_tx_step: "tx_step now k tx v db = Some (tx', v', db') \<Longrightarrow> run_tx tx now k db = run_tx tx' now k db'"
  by (cases tx) (auto simp: Let_def split: prod.splits)

text \<open>
  The creator of a private channel who is no longer a member adds themselves again in any role, also after the
  owners removed them: the exception for the first membership does not ask whether it is the first.
\<close>
theorem creator_returns_as_owner:
  assumes "live_channel db k = Some c" "ch_visibility c = Private" "ch_created_by c = pk" "length pk = 32"
    and "get_active_role_tx db k pk = None" "add_member now k pk Owner (Some pk) db = (r, db')"
  shows "is_ok r" "get_active_role_tx db' k pk = Some ''owner''"
  using assms
  by (auto simp: add_member_def add_member_tx_def add_member_in_def add_member_apply_def Let_def active_role_roster roster_upsert)

text \<open>
  Opening a direct message that exists does not bring back a participant who left it: the caller gets the
  channel and is still not a member of it.
\<close>
theorem reopened_dm_without_caller:
  assumes "length everyone \<le> 9" "created_by \<in> set everyone"
    and "find_dm_by_participants db (fst k) (compute_participant_hash sha everyone) = Some (j, c)"
    and "get_active_role_tx db j created_by = None" "open_dm sha now k everyone created_by db = (r, db')"
  shows "r = Ok (j, False)" "\<not> is_member db' j created_by"
proof -
  have "db' = snd (update_active_member j created_by (\<lambda>r. r\<lparr>mr_hidden_at := None\<rparr>) db)" and r: "r = Ok (j, False)"
    using assms by (auto simp: open_dm_def unhide_dm_def Let_def split: prod.splits)
  then have "roster db' = roster db" by (simp add: roster_update_other)
  then show "\<not> is_member db' j created_by" using assms(4) by (simp add: is_member_def active_role_roster)
  show "r = Ok (j, False)" by (fact r)
qed

section \<open>A concrete system\<close>

abbreviation sample_creator :: string where "sample_creator \<equiv> replicate 32 CHR ''a''"
abbreviation sample_joiner :: string where "sample_joiner \<equiv> replicate 32 CHR ''b''"
abbreviation sample_channel :: channel_key where "sample_channel \<equiv> (''C'', ''1'')"

definition sample_row :: channel_record where
  "sample_row = new_channel 0 ''x'' Stream Open sample_creator None"

definition sample_db :: channel_db where
  "sample_db = upsert_member 0 sample_channel sample_creator Owner (Some sample_creator)
     (insert_channel sample_channel sample_row \<lparr>db_channels = [], db_members = []\<rparr>)"

definition sample_system :: member_system where
  "sample_system = \<lparr>ms_db = \<lparr>db_channels = [], db_members = []\<rparr>, ms_locks = Map.empty, ms_sessions = Map.empty, ms_kicked = {}\<rparr>"

lemma sample_channel_name: "checked_name ''x'' = Ok ''x''"
  by code_simp

lemma sample_created: "run (member_step sha AO) sample_system [M_Channel] (sample_system\<lparr>ms_db := sample_db\<rparr>)"
proof -
  have "create_channel 0 sample_channel ''x'' Stream Open sample_creator None (ms_db sample_system) = (Ok sample_row, sample_db)"
    by (simp add: create_channel_def sample_channel_name sample_db_def sample_row_def sample_system_def Let_def)
  then show ?thesis
    by (auto simp: run_Cons_simps intro: mt_channel[of sha sample_system, OF cw_create])
qed

theorem last_owner_kept_witness:
  "\<exists>pk. get_active_role_tx sample_db sample_channel pk = Some ''owner''"
proof -
  have "member_start sample_system" by (simp add: member_start_def sample_system_def)
  moreover have "map_of (db_channels sample_db) sample_channel = Some sample_row" "ch_participant_hash sample_row = None"
    by (simp_all add: sample_db_def sample_row_def upsert_member_keys new_channel_def)
  ultimately show ?thesis
    using last_owner_kept[OF _ sample_created[of id "\<lambda>_ _ _. False"], of sample_channel sample_row] by simp
qed

definition sample_session :: "channel_record option option \<Rightarrow> member_result member_tx \<Rightarrow> member_session" where
  "sample_session v tx = \<lparr>ses_key = sample_channel, ses_op = Op_Add sample_joiner Member None, ses_channel = v, ses_tx = tx\<rparr>"

definition sample_joining :: "channel_record option option \<Rightarrow> member_result member_tx \<Rightarrow> member_system" where
  "sample_joining v tx = \<lparr>ms_db = sample_db, ms_locks = [sample_channel \<mapsto> 0], ms_sessions = [0 \<mapsto> sample_session v tx], ms_kicked = {}\<rparr>"

abbreviation sample_write :: "member_result member_tx" where
  "sample_write \<equiv> Tx_Upsert sample_joiner Member None (\<lambda>row. Tx_Done (Ok (Some row)))"

lemma sample_reads: "live_channel sample_db sample_channel = Some sample_row" "get_active_role_tx sample_db sample_channel sample_joiner = None"
  by (simp_all add: sample_db_def sample_row_def live_channel_def upsert_member_keys new_channel_def active_role_roster
      roster_upsert) (simp add: roster_def)

lemma sample_statement:
  "tx_step 0 sample_channel tx v sample_db = Some (tx', v', db')
    \<Longrightarrow> member_step sha AO (sample_joining v tx) (M_Statement 0) ((sample_joining v' tx')\<lparr>ms_db := db'\<rparr>)"
  using mt_statement[of "sample_joining v tx" 0 "sample_session v tx" 0 tx' v' db' sha AO]
  by (simp add: sample_joining_def sample_session_def)

lemma sample_joining_db [simp]: "(sample_joining v tx)\<lparr>ms_db := sample_db\<rparr> = sample_joining v tx"
  by (simp add: sample_joining_def)

lemma sample_join_run:
  "run (member_step sha AO) sample_system
     [M_Channel, M_Begin 0 sample_channel (Op_Add sample_joiner Member None), M_Statement 0, M_Statement 0]
     (sample_joining (Some (Some sample_row)) sample_write)"
proof -
  let ?apply = "add_member_apply sample_joiner Member None"
  have "member_step sha AO (sample_system\<lparr>ms_db := sample_db\<rparr>) (M_Begin 0 sample_channel (Op_Add sample_joiner Member None))
      (sample_joining None (add_member_tx ''1'' sample_joiner Member None))"
    using mt_begin[of "sample_system\<lparr>ms_db := sample_db\<rparr>" 0 sample_channel AO "Op_Add sample_joiner Member None" sha]
    by (simp add: sample_system_def sample_joining_def sample_session_def sample_db_def upsert_member_keys)
  moreover have "member_step sha AO (sample_joining None (add_member_tx ''1'' sample_joiner Member None)) (M_Statement 0)
      (sample_joining (Some (Some sample_row)) ?apply)"
    by (rule sample_statement[where db' = sample_db, unfolded sample_joining_db])
      (simp add: add_member_tx_def sample_reads add_member_in_def sample_row_def new_channel_def)
  moreover have "member_step sha AO (sample_joining (Some (Some sample_row)) ?apply) (M_Statement 0)
      (sample_joining (Some (Some sample_row)) sample_write)"
    by (rule sample_statement[where db' = sample_db, unfolded sample_joining_db])
      (simp add: add_member_apply_def sample_reads Let_def)
  ultimately show ?thesis
    using sample_created[of sha AO] by (simp add: run_Cons_simps) blast
qed

theorem role_changes_authorised_witness:
  "\<exists>t. member_step id (\<lambda>_ _ _. False) (sample_joining (Some (Some sample_row)) sample_write) (M_Statement 0) t
     \<and> get_active_role_tx (ms_db t) sample_channel sample_joiner = Some ''member''
     \<and> (\<exists>wr. write_of (Op_Add sample_joiner Member None) wr
          \<and> authorised (\<lambda>_ _ _. False) ''C'' (Some (Some sample_row)) wr (roster sample_db sample_channel))"
proof -
  let ?s = "sample_joining (Some (Some sample_row)) sample_write"
  obtain t where t: "member_step id (\<lambda>_ _ _. False) ?s (M_Statement 0) t"
      "ms_db t = upsert_member 0 sample_channel sample_joiner Member None sample_db"
    using sample_statement[of sample_write "Some (Some sample_row)" _ _ _ id "\<lambda>_ _ _. False"] by (fastforce simp: Let_def)
  have role: "get_active_role_tx (ms_db t) sample_channel sample_joiner = Some ''member''"
    by (simp add: t(2) active_role_roster roster_upsert)
  moreover have "get_active_role_tx (ms_db ?s) sample_channel sample_joiner = None"
    by (simp add: sample_joining_def sample_reads)
  ultimately show ?thesis
    using role_changes_authorised[OF _ sample_join_run t(1), of sample_channel sample_joiner] t(1)
    by (auto simp: member_start_def sample_system_def sample_joining_def sample_session_def kicked_since_def begins_def)
qed

end
