(* ===== verification/Channel_Authz.thy ===== *)
theory Channel_Authz
  imports Channel_Members Nostr_Events
begin

text \<open>
  Authority over channels and their members in the relay: the pure decisions of
  \<^verbatim>\<open>buzz-relay/src/handlers/channel_authz.rs\<close> and, from \<^verbatim>\<open>side_effects.rs\<close>, the validation of an
  administration event before it is stored and what the handlers of membership events do to the database.
  Database failures, which every query turns into an error, and the notifications that follow a change are
  left out.
\<close>

section \<open>Decisions\<close>

datatype channel_authz_error =
    ActorNotAuthorized
  | ElevatedRoleGrantDenied
  | RoleChangeDenied
  | LastOwnerDemotion
  | NotActiveMember
  | LastOwnerRemoval
  | LastOwnerRemovalTransferFirst
  | PolicyOwnerOnlyNoOwner
  | PolicyOwnerOnlyDenied
  | PolicyNobody

type_synonym members = "(string \<times> member_record) list"

abbreviation role_text_of :: "member_record \<Rightarrow> string" where
  "role_text_of m \<equiv> role_as_str (mr_role m)"

definition is_sole_owner :: "members \<Rightarrow> string \<Rightarrow> bool" where
  "is_sole_owner members pk = (case filter (\<lambda>(_, m). role_text_of m = ''owner'') members of
     [] \<Rightarrow> False
   | (first, _) # others \<Rightarrow> first = pk \<and> others = [])"

definition decide_self_departure :: "members \<Rightarrow> string \<Rightarrow> (channel_authz_error, unit) result" where
  "decide_self_departure members actor =
     (if \<not> list_ex (\<lambda>(pk, _). pk = actor) members then Err NotActiveMember
      else if is_sole_owner members actor then Err LastOwnerRemoval
      else Ok ())"

datatype put_user_decision = Put_Allow | CheckAddPolicy

definition elevated_option :: "member_role option \<Rightarrow> bool" where
  "elevated_option r = (case r of Some x \<Rightarrow> is_elevated x | None \<Rightarrow> False)"

definition decide_put_user ::
  "string \<Rightarrow> member_role option \<Rightarrow> member_role option \<Rightarrow> members \<Rightarrow> string \<Rightarrow> string
    \<Rightarrow> (channel_authz_error, put_user_decision) result" where
  "decide_put_user visibility actor_role requested_role members target actor =
     (if visibility = ''private'' \<and> actor_role = None then Err ActorNotAuthorized
      else if visibility = ''private'' \<and> elevated_option requested_role \<and> \<not> elevated_option actor_role
      then Err ElevatedRoleGrantDenied
      else
        (let decision = (if target = actor then Put_Allow else CheckAddPolicy)
         in case (find (\<lambda>(pk, _). pk = target) members, requested_role) of
              (Some (_, existing), Some role) \<Rightarrow>
                if role_text_of existing \<noteq> role_as_str role then
                  (if \<not> elevated_option actor_role then Err RoleChangeDenied
                   else if role_text_of existing = ''owner'' \<and> role \<noteq> Owner \<and> is_sole_owner members target
                   then Err LastOwnerDemotion
                   else Ok decision)
                else Ok decision
            | _ \<Rightarrow> Ok decision))"

definition decide_channel_add_policy :: "string \<Rightarrow> string option \<Rightarrow> string \<Rightarrow> (channel_authz_error, unit) result" where
  "decide_channel_add_policy policy owner actor =
     (if policy = ''owner_only'' then
        (case owner of
           None \<Rightarrow> Err PolicyOwnerOnlyNoOwner
         | Some o' \<Rightarrow> if actor \<noteq> o' then Err PolicyOwnerOnlyDenied else Ok ())
      else if policy = ''nobody'' then Err PolicyNobody
      else Ok ())"

datatype remove_other_decision = Remove_Allow | CheckAgentOwner | Remove_Deny

definition classify_remove_other :: "members \<Rightarrow> string \<Rightarrow> remove_other_decision" where
  "classify_remove_other members actor = (case find (\<lambda>(pk, _). pk = actor) members of
     Some (_, m) \<Rightarrow> if role_text_of m = ''owner'' \<or> role_text_of m = ''admin'' then Remove_Allow else CheckAgentOwner
   | None \<Rightarrow> Remove_Deny)"

section \<open>Validation before storage\<close>

text \<open>Decoders of the event library and of text.\<close>
record authz_env =
  ae_unhex :: "string \<Rightarrow> string option"
  ae_uuid :: "string \<Rightarrow> string option"
  ae_key_bytes :: "pubkey \<Rightarrow> string"
  ae_relay_key :: pubkey

text \<open>What the validation reads: the tables, owners and policies of agents, events, and the membership cache.\<close>
record admin_world =
  aw_db :: channel_db
  aw_agent_owner :: "string \<Rightarrow> string \<Rightarrow> string \<Rightarrow> bool"
  aw_policy :: "string \<Rightarrow> string \<Rightarrow> (string \<times> string option) option"
  aw_event :: "string \<Rightarrow> string \<Rightarrow> stored_event option"
  aw_member_cached :: "channel_key \<Rightarrow> string \<Rightarrow> bool"

datatype admin_error = AE_Text string | AE_Authz channel_authz_error | AE_Db db_error

definition as_authz :: "(channel_authz_error, 'a) result \<Rightarrow> (admin_error, 'a) result" where
  "as_authz r = (case r of Err e \<Rightarrow> Err (AE_Authz e) | Ok a \<Rightarrow> Ok a)"

text \<open>The first tag of a name whose content decodes.\<close>
fun find_tag_map :: "string \<Rightarrow> (string \<Rightarrow> 'a option) \<Rightarrow> tag list \<Rightarrow> 'a option" where
  "find_tag_map name f [] = None"
| "find_tag_map name f (t # ts) =
     (case (if tag_is name t then Option.bind (tag_content t) f else None) of
        Some a \<Rightarrow> Some a | None \<Rightarrow> find_tag_map name f ts)"

definition key_of_hex :: "authz_env \<Rightarrow> string \<Rightarrow> string option" where
  "key_of_hex E v = (case ae_unhex E v of Some b \<Rightarrow> if length b = 32 then Some b else None | None \<Rightarrow> None)"

definition extract_h_tag_channel :: "authz_env \<Rightarrow> event \<Rightarrow> string option" where
  "extract_h_tag_channel E ev = find_tag_map ''h'' (ae_uuid E) (event_tags ev)"

definition extract_p_tag :: "authz_env \<Rightarrow> event \<Rightarrow> string option" where
  "extract_p_tag E ev = find_tag_map ''p'' (key_of_hex E) (event_tags ev)"

definition extract_tag_value :: "event \<Rightarrow> string \<Rightarrow> string option" where
  "extract_tag_value ev name = Option.bind (find (tag_is name) (event_tags ev)) tag_content"

definition effective_message_author :: "authz_env \<Rightarrow> event \<Rightarrow> string" where
  "effective_message_author E ev =
     (if event_pubkey ev = ae_relay_key E then
        (case Option.bind (extract_tag_value ev ''actor'') (key_of_hex E) of
           Some b \<Rightarrow> b
         | None \<Rightarrow> (case extract_p_tag E ev of Some b \<Rightarrow> b | None \<Rightarrow> ae_key_bytes E (event_pubkey ev)))
      else ae_key_bytes E (event_pubkey ev))"

definition has_moderation_delete_metadata :: "event \<Rightarrow> bool" where
  "has_moderation_delete_metadata ev \<longleftrightarrow>
     list_ex (\<lambda>n. extract_tag_value ev n \<noteq> None) [''action_id'', ''reason_code'', ''public_reason'']"

definition author_delete_can_use_self_delete_path :: "string \<Rightarrow> string \<Rightarrow> event \<Rightarrow> bool" where
  "author_delete_can_use_self_delete_path author actor ev \<longleftrightarrow> author = actor \<and> \<not> has_moderation_delete_metadata ev"

definition actor_is_channel_owner_or_admin :: "members \<Rightarrow> string \<Rightarrow> bool" where
  "actor_is_channel_owner_or_admin members actor \<longleftrightarrow>
     list_ex (\<lambda>(pk, m). pk = actor \<and> (role_text_of m = ''owner'' \<or> role_text_of m = ''admin'')) members"

definition actor_owns_any_owner_agent :: "admin_world \<Rightarrow> string \<Rightarrow> members \<Rightarrow> string \<Rightarrow> bool" where
  "actor_owns_any_owner_agent W community members actor \<longleftrightarrow>
     list_ex (\<lambda>(pk, m). role_text_of m = ''owner'' \<and> aw_agent_owner W community pk actor) members"

definition validate_put_user ::
  "authz_env \<Rightarrow> admin_world \<Rightarrow> channel_key \<Rightarrow> channel_record \<Rightarrow> event \<Rightarrow> (admin_error, unit) result" where
  "validate_put_user E W k channel ev =
     (let actor = ae_key_bytes E (event_pubkey ev);
          members = get_members (aw_db W) k;
          actor_role = map_option (\<lambda>(_, m). mr_role m) (find (\<lambda>(pk, _). pk = actor) members)
      in and_then (case extract_tag_value ev ''role'' of
             None \<Rightarrow> Ok None
           | Some s \<Rightarrow> (case role_from_str s of Inr r \<Rightarrow> Ok (Some r) | Inl _ \<Rightarrow> Err (AE_Text ''invalid role''))) (\<lambda>requested.
         case extract_p_tag E ev of
           None \<Rightarrow> Err (AE_Text ''missing p tag'')
         | Some target \<Rightarrow>
             and_then (as_authz (decide_put_user (visibility_as_str (ch_visibility channel)) actor_role requested members target actor))
               (\<lambda>d. case d of
                  Put_Allow \<Rightarrow> Ok ()
                | CheckAddPolicy \<Rightarrow> (case aw_policy W (fst k) target of
                    Some (policy, owner) \<Rightarrow> as_authz (decide_channel_add_policy policy owner actor)
                  | None \<Rightarrow> Ok ()))))"

definition validate_remove_user ::
  "authz_env \<Rightarrow> admin_world \<Rightarrow> channel_key \<Rightarrow> event \<Rightarrow> (admin_error, unit) result" where
  "validate_remove_user E W k ev = (case extract_p_tag E ev of
     None \<Rightarrow> Err (AE_Text ''missing p tag'')
   | Some target \<Rightarrow>
       (let actor = ae_key_bytes E (event_pubkey ev); members = get_members (aw_db W) k
        in if target = actor then as_authz (decide_self_departure members actor)
           else (case classify_remove_other members actor of
               Remove_Allow \<Rightarrow> Ok ()
             | CheckAgentOwner \<Rightarrow>
                 if aw_agent_owner W (fst k) target actor then Ok () else Err (AE_Authz ActorNotAuthorized)
             | Remove_Deny \<Rightarrow> Err (AE_Authz ActorNotAuthorized))))"

text \<open>A positive number of seconds that fits in 32 signed bits.\<close>
definition ttl_value_ok :: "string \<Rightarrow> bool" where
  "ttl_value_ok v \<longleftrightarrow> v = [] \<or> (case parse_u64 v of Some n \<Rightarrow> 0 < n \<and> n < 2 ^ 31 | None \<Rightarrow> False)"

definition all_tags :: "string \<Rightarrow> (string option \<Rightarrow> bool) \<Rightarrow> event \<Rightarrow> bool" where
  "all_tags name p ev \<longleftrightarrow> list_all (\<lambda>t. tag_is name t \<longrightarrow> p (tag_content t)) (event_tags ev)"

definition has_any_tag :: "string list \<Rightarrow> event \<Rightarrow> bool" where
  "has_any_tag names ev \<longleftrightarrow> list_ex (\<lambda>t. list_ex (\<lambda>n. tag_is n t) names) (event_tags ev)"

definition validate_edit_metadata ::
  "authz_env \<Rightarrow> admin_world \<Rightarrow> channel_key \<Rightarrow> event \<Rightarrow> (admin_error, unit) result" where
  "validate_edit_metadata E W k ev =
     (let actor = ae_key_bytes E (event_pubkey ev)
      in if \<not> has_any_tag [''name'', ''about'', ''archived'', ''topic'', ''purpose'', ''visibility'', ''ttl''] ev
         then Err (AE_Text ''no metadata tag'')
         else if \<not> all_tags ''archived'' (\<lambda>c. c = Some ''true'' \<or> c = Some ''false'') ev
         then Err (AE_Text ''invalid archived value'')
         else if \<not> all_tags ''name'' (\<lambda>c. case c of Some v \<Rightarrow> str_trim (canonical_channel_name v) \<noteq> [] | None \<Rightarrow> False) ev
         then Err (AE_Text ''channel name is required'')
         else if \<not> all_tags ''visibility'' (\<lambda>c. c = Some ''open'' \<or> c = Some ''private'') ev
         then Err (AE_Text ''invalid visibility value'')
         else if \<not> all_tags ''ttl'' (\<lambda>c. case c of Some v \<Rightarrow> ttl_value_ok v | None \<Rightarrow> False) ev
         then Err (AE_Text ''invalid ttl value'')
         else if has_any_tag [''name'', ''about'', ''archived'', ''visibility'', ''ttl''] ev then
           (let members = get_members (aw_db W) k
            in if (case find (\<lambda>(pk, _). pk = actor) members of
                     Some (_, m) \<Rightarrow> role_text_of m = ''owner'' \<or> role_text_of m = ''admin'' | None \<Rightarrow> False)
                  \<or> actor_owns_any_owner_agent W (fst k) members actor
               then Ok () else Err (AE_Text ''actor not authorized for name/about/archived/visibility/ttl changes''))
         else if aw_member_cached W k actor then Ok () else Err (AE_Text ''not a member''))"

definition validate_delete_event ::
  "authz_env \<Rightarrow> admin_world \<Rightarrow> channel_key \<Rightarrow> event \<Rightarrow> (admin_error, unit) result" where
  "validate_delete_event E W k ev =
     (let actor = ae_key_bytes E (event_pubkey ev)
      in if (case extract_tag_value ev ''action_id'' of Some a \<Rightarrow> ae_uuid E a = None | None \<Rightarrow> False)
         then Err (AE_Text ''invalid action_id tag'')
         else (case find_tag_map ''e'' (ae_unhex E) (event_tags ev) of
             None \<Rightarrow> Err (AE_Text ''missing e tag for target event'')
           | Some target_id \<Rightarrow> (case aw_event W (fst k) target_id of
               None \<Rightarrow> Err (AE_Text ''target event not found'')
             | Some target \<Rightarrow>
                 if channel_id target = None then Err (AE_Text ''target event has no channel'')
                 else if channel_id target \<noteq> Some (snd k) then Err (AE_Text ''target event belongs to a different channel'')
                 else
                   (let author = effective_message_author E (the_event target);
                        members = get_members (aw_db W) k
                    in if author_delete_can_use_self_delete_path author actor ev
                          \<and> (aw_member_cached W k actor
                             \<or> (case live_channel (aw_db W) k of Some c \<Rightarrow> ch_visibility c = Open | None \<Rightarrow> False))
                       then Ok ()
                       else if actor_is_channel_owner_or_admin members actor then Ok ()
                       else if aw_agent_owner W (fst k) author actor then Ok ()
                       else Err (AE_Text ''must be event author or channel owner/admin'')))))"

definition validate_delete_group :: "authz_env \<Rightarrow> admin_world \<Rightarrow> channel_key \<Rightarrow> event \<Rightarrow> (admin_error, unit) result" where
  "validate_delete_group E W k ev =
     (let actor = ae_key_bytes E (event_pubkey ev); members = get_members (aw_db W) k
      in if (case find (\<lambda>(pk, _). pk = actor) members of Some (_, m) \<Rightarrow> role_text_of m = ''owner'' | None \<Rightarrow> False)
            \<or> actor_owns_any_owner_agent W (fst k) members actor
         then Ok () else Err (AE_Text ''only owner can delete group''))"

text \<open>\<^verbatim>\<open>validate_admin_event\<close>, in the community of the request.\<close>
definition validate_admin_event ::
  "authz_env \<Rightarrow> admin_world \<Rightarrow> string \<Rightarrow> nat \<Rightarrow> event \<Rightarrow> (admin_error, unit) result" where
  "validate_admin_event E W community kind ev =
     (if kind = 9007 then Ok ()
      else (case extract_h_tag_channel E ev of
          None \<Rightarrow> Err (AE_Text ''missing or invalid h tag'')
        | Some ch \<Rightarrow> (case live_channel (aw_db W) (community, ch) of
            None \<Rightarrow> Err (AE_Text ''channel not found'')
          | Some channel \<Rightarrow>
              (let k = (community, ch);
                   unarchive = (kind = 9002 \<and> list_ex (\<lambda>t. 2 \<le> length t \<and> t ! 0 = ''archived'' \<and> t ! 1 = ''false'') (event_tags ev))
               in if ch_archived_at channel \<noteq> None \<and> \<not> unarchive then Err (AE_Text ''channel is archived'')
                  else if kind = 9000 then validate_put_user E W k channel ev
                  else if kind = 9001 then validate_remove_user E W k ev
                  else if kind = 9002 then validate_edit_metadata E W k ev
                  else if kind = 9005 then validate_delete_event E W k ev
                  else if kind = 9008 then validate_delete_group E W k ev
                  else if kind = 9022
                  then as_authz (decide_self_departure (get_members (aw_db W) k) (ae_key_bytes E (event_pubkey ev)))
                  else Ok ()))))"

section \<open>Handlers\<close>

text \<open>The role of \<^verbatim>\<open>handle_put_user\<close>: without a role tag the role the target has, or Member.\<close>
definition put_user_role :: "channel_db \<Rightarrow> channel_key \<Rightarrow> string \<Rightarrow> string option \<Rightarrow> (admin_error, member_role) result" where
  "put_user_role db k target role_tag = (case role_tag of
     Some s \<Rightarrow> (case role_from_str s of Inr r \<Rightarrow> Ok r | Inl _ \<Rightarrow> Err (AE_Text ''invalid role''))
   | None \<Rightarrow> Ok (case find (\<lambda>(pk, _). pk = target) (get_members db k) of Some (_, m) \<Rightarrow> mr_role m | None \<Rightarrow> Member))"

definition db_part :: "member_result \<times> channel_db \<Rightarrow> (admin_error, unit) result \<times> channel_db" where
  "db_part x = (case x of (Inl e, db) \<Rightarrow> (Err (AE_Db e), db) | (Inr _, db) \<Rightarrow> (Ok (), db))"

definition handle_put_user ::
  "authz_env \<Rightarrow> nat \<Rightarrow> string \<Rightarrow> event \<Rightarrow> channel_db \<Rightarrow> (admin_error, unit) result \<times> channel_db" where
  "handle_put_user E now community ev db = (case extract_h_tag_channel E ev of
     None \<Rightarrow> (Err (AE_Text ''missing h tag''), db)
   | Some ch \<Rightarrow> (case extract_p_tag E ev of
       None \<Rightarrow> (Err (AE_Text ''missing p tag''), db)
     | Some target \<Rightarrow>
         try_in db (put_user_role db (community, ch) target (extract_tag_value ev ''role'')) (\<lambda>role.
           db_part (add_member now (community, ch) target role (Some (ae_key_bytes E (event_pubkey ev))) db))))"

definition handle_remove_user ::
  "authz_env \<Rightarrow> (string \<Rightarrow> string \<Rightarrow> string \<Rightarrow> bool) \<Rightarrow> nat \<Rightarrow> string \<Rightarrow> event \<Rightarrow> channel_db
    \<Rightarrow> (admin_error, unit) result \<times> channel_db" where
  "handle_remove_user E AO now community ev db = (case extract_h_tag_channel E ev of
     None \<Rightarrow> (Err (AE_Text ''missing h tag''), db)
   | Some ch \<Rightarrow> (case extract_p_tag E ev of
       None \<Rightarrow> (Err (AE_Text ''missing p tag''), db)
     | Some target \<Rightarrow>
         (let k = (community, ch); actor = ae_key_bytes E (event_pubkey ev)
          in if target = actor \<and> is_sole_owner (get_members db k) actor
             then (Err (AE_Authz LastOwnerRemovalTransferFirst), db)
             else db_part (remove_member (AO community target actor) now k target actor db))))"

definition handle_join_request ::
  "authz_env \<Rightarrow> (channel_key \<Rightarrow> string \<Rightarrow> bool) \<Rightarrow> nat \<Rightarrow> string \<Rightarrow> event \<Rightarrow> channel_db
    \<Rightarrow> (admin_error, unit) result \<times> channel_db" where
  "handle_join_request E cached now community ev db = (case extract_h_tag_channel E ev of
     None \<Rightarrow> (Err (AE_Text ''missing h tag''), db)
   | Some ch \<Rightarrow>
       (let k = (community, ch); actor = ae_key_bytes E (event_pubkey ev)
        in case live_channel db k of
             None \<Rightarrow> (Err (AE_Text ''channel not found''), db)
           | Some c \<Rightarrow>
               if visibility_as_str (ch_visibility c) \<noteq> ''open'' then (Err (AE_Text ''channel is private''), db)
               else if cached k actor then (Ok (), db)
               else db_part (add_member now k actor Member None db)))"

definition handle_leave_request ::
  "authz_env \<Rightarrow> nat \<Rightarrow> string \<Rightarrow> event \<Rightarrow> channel_db \<Rightarrow> (admin_error, unit) result \<times> channel_db" where
  "handle_leave_request E now community ev db = (case extract_h_tag_channel E ev of
     None \<Rightarrow> (Err (AE_Text ''missing h tag''), db)
   | Some ch \<Rightarrow>
       (let k = (community, ch); actor = ae_key_bytes E (event_pubkey ev)
        in if is_sole_owner (get_members db k) actor then (Err (AE_Authz LastOwnerRemovalTransferFirst), db)
           else db_part (remove_member False now k actor actor db)))"

section \<open>Lists of members and rosters\<close>

lemma distinct_map_sort: "distinct (map g xs) \<Longrightarrow> distinct (map g (sort_key f xs))"
  by (simp add: distinct_map)

lemma get_members_facts:
  assumes ok: "channel_db_ok db" and live: "live_channel db k \<noteq> None"
  shows "distinct (map fst (get_members db k))"
    and "(pk, r) \<in> set (get_members db k) \<longleftrightarrow> map_of (db_members db) (k, pk) = Some r \<and> active r"
proof -
  let ?rows = "map (\<lambda>((_, pk), r). (pk, r)) (filter (\<lambda>((j, _), r). j = k \<and> active r) (db_members db))"
  have keys: "distinct (map fst (db_members db))" using ok by (simp add: channel_db_ok_def)
  have "distinct (map fst (map (\<lambda>((_, pk), r). (pk, r)) (filter (\<lambda>((j, _), r). j = k \<and> active r) xs)))"
    if "distinct (map fst xs)" for xs :: "((channel_key \<times> string) \<times> member_record) list"
    using that by (induction xs) (auto simp: image_iff)
  then have rows: "distinct (map fst ?rows)" using keys by blast
  have eq: "get_members db k = sort_key (mr_joined_at \<circ> snd) ?rows"
    unfolding get_members_def using live by (simp only: if_False)
  show "distinct (map fst (get_members db k))" unfolding eq by (rule distinct_map_sort[OF rows])
  show "(pk, r) \<in> set (get_members db k) \<longleftrightarrow> map_of (db_members db) (k, pk) = Some r \<and> active r"
    unfolding eq map_of_eq_Some_iff[OF keys] by (cases k) (auto simp: image_iff)
qed

lemma find_member:
  assumes "channel_db_ok db" "live_channel db k \<noteq> None"
  shows "map_option (\<lambda>(_, m). mr_role m) (find (\<lambda>(p, _). p = pk) (get_members db k)) = roster db k pk"
proof (cases "find (\<lambda>(p, _). p = pk) (get_members db k)")
  case None
  then have "(pk, r) \<notin> set (get_members db k)" for r by (auto simp: find_None_iff)
  then have "roster db k pk = None"
    using get_members_facts(2)[OF assms] by (auto simp: roster_def split: option.splits)
  then show ?thesis using None by simp
next
  case (Some x)
  then obtain m where x: "x = (pk, m)" "(pk, m) \<in> set (get_members db k)"
    by (auto simp: find_Some_iff) (metis nth_mem)
  then have "map_of (db_members db) (k, pk) = Some m" "active m" using get_members_facts(2)[OF assms] by blast+
  then show ?thesis using Some x by (simp add: roster_def)
qed

lemma find_member_cases:
  assumes "channel_db_ok db" "live_channel db k \<noteq> None"
  obtains "find (\<lambda>(p, _). p = pk) (get_members db k) = None" "roster db k pk = None"
  | p m where "find (\<lambda>(p, _). p = pk) (get_members db k) = Some (p, m)" "roster db k pk = Some (mr_role m)"
  using find_member[OF assms, of pk] that by (cases "find (\<lambda>(p, _). p = pk) (get_members db k)") auto

lemma any_member:
  assumes "channel_db_ok db" "live_channel db k \<noteq> None"
  shows "list_ex (\<lambda>(p, _). p = pk) (get_members db k) \<longleftrightarrow> roster db k pk \<noteq> None"
proof -
  have "list_ex (\<lambda>(p, _). p = pk) (get_members db k) \<longleftrightarrow> find (\<lambda>(p, _). p = pk) (get_members db k) \<noteq> None"
    by (auto simp: list_ex_iff find_None_iff)
  also have "\<dots> \<longleftrightarrow> roster db k pk \<noteq> None" using find_member[OF assms, of pk] by (metis option.map_disc_iff)
  finally show ?thesis .
qed

lemma sole_owner_roster:
  assumes "channel_db_ok db" "live_channel db k \<noteq> None"
  shows "is_sole_owner (get_members db k) pk \<longleftrightarrow> {p. roster db k p = Some Owner} = {pk}"
proof -
  let ?os = "filter (\<lambda>(_, m). role_text_of m = ''owner'') (get_members db k)"
  have d: "distinct (map fst ?os)" using get_members_facts(1)[OF assms] by (simp add: distinct_map_filter)
  have "p \<in> set (map fst ?os) \<longleftrightarrow> (\<exists>m. map_of (db_members db) (k, p) = Some m \<and> active m \<and> mr_role m = Owner)" for p
    using get_members_facts(2)[OF assms, of p] by (auto simp: image_iff)
  moreover have "roster db k p = Some Owner \<longleftrightarrow> (\<exists>m. map_of (db_members db) (k, p) = Some m \<and> active m \<and> mr_role m = Owner)" for p
    by (auto simp: roster_def split: option.splits if_splits)
  ultimately have set: "set (map fst ?os) = {p. roster db k p = Some Owner}" by blast
  have "is_sole_owner (get_members db k) pk \<longleftrightarrow> map fst ?os = [pk]"
    by (auto simp: is_sole_owner_def split: list.splits prod.splits)
  also have "\<dots> \<longleftrightarrow> set (map fst ?os) = {pk}"
    using d by (cases "map fst ?os"; cases "tl (map fst ?os)") auto
  finally show ?thesis using set by simp
qed

section \<open>When an operation succeeds\<close>

lemma finite_owners: "channel_db_ok db \<Longrightarrow> finite {p. roster db k p = Some Owner}"
proof -
  have "{p. roster db k p = Some Owner} \<subseteq> (\<lambda>x. snd (fst x)) ` set (db_members db)"
    by (force simp: roster_def split: option.splits dest: map_of_SomeD)
  then show ?thesis by (rule finite_subset) simp
qed

lemma owner_alone:
  assumes "channel_db_ok db" "roster db k pk = Some Owner"
  shows "owner_count db k \<le> 1 \<longleftrightarrow> {p. roster db k p = Some Owner} = {pk}"
proof
  assume "owner_count db k \<le> 1"
  then have "{p. roster db k p = Some Owner} \<subseteq> {pk}"
    using another_owner[of "roster db k" pk] assms
    by (auto simp: owner_count_roster card_le_Suc0_iff_eq[OF finite_owners[OF assms(1)]])
  then show "{p. roster db k p = Some Owner} = {pk}" using assms(2) by blast
qed (simp add: owner_count_roster assms(1))

lemma add_apply_ok:
  assumes "channel_db_ok db"
  shows "is_ok (fst (run_tx (add_member_apply pk r (Some a)) now k db)) \<longleftrightarrow>
     roster db k pk = None \<or> roster db k pk = Some r
     \<or> elevated_in (roster db k) a \<and> (roster db k pk = Some Owner \<longrightarrow> r \<noteq> Owner \<longrightarrow> {p. roster db k p = Some Owner} \<noteq> {pk})"
proof (cases "roster db k pk")
  case (Some cur)
  show ?thesis
  proof (cases "roster db k a")
    case None
    then show ?thesis using Some by (auto simp: add_member_apply_def tx_inviter_role_def active_role_roster elevated_in_def Let_def)
  next
    case (Some ar)
    then show ?thesis using \<open>roster db k pk = Some cur\<close> owner_alone[OF assms, of k pk]
      by (auto simp: add_member_apply_def tx_inviter_role_def active_role_roster elevated_in_def Let_def)
  qed
qed (simp add: add_member_apply_def active_role_roster Let_def)

lemma elevated_roles: "is_elevated r \<longleftrightarrow> r = Owner \<or> r = Admin"
  by (cases r) simp_all

lemma add_in_ok:
  "is_ok (fst (run_tx (add_member_in c pk r (Some a)) now k db)) \<longleftrightarrow>
     (ch_visibility c = Private \<and> a = pk \<and> ch_created_by c = pk
      \<or> (ch_visibility c = Private \<longrightarrow> roster db k a \<noteq> None) \<and> (is_elevated r \<longrightarrow> elevated_in (roster db k) a))
     \<and> is_ok (fst (run_tx (add_member_apply pk r (Some a)) now k db))"
proof (cases "ch_visibility c")
  case Open
  then show ?thesis
    by (cases "roster db k a") (simp_all add: add_member_in_def tx_inviter_role_def active_role_roster elevated_in_def elevated_roles)
next
  case Private
  then show ?thesis
    by (cases "roster db k a"; cases "a = pk \<and> a = ch_created_by c")
      (simp_all add: add_member_in_def active_role_roster elevated_in_def, auto)
qed

lemma add_member_ok:
  assumes "channel_db_ok db" "live_channel db k = Some c" "length pk = 32"
  shows "is_ok (fst (add_member now k pk r (Some a) db)) \<longleftrightarrow>
     (ch_visibility c = Private \<and> a = pk \<and> ch_created_by c = pk
      \<or> (ch_visibility c = Private \<longrightarrow> roster db k a \<noteq> None) \<and> (is_elevated r \<longrightarrow> elevated_in (roster db k) a))
     \<and> (roster db k pk = None \<or> roster db k pk = Some r
        \<or> elevated_in (roster db k) a \<and> (roster db k pk = Some Owner \<longrightarrow> r \<noteq> Owner \<longrightarrow> {p. roster db k p = Some Owner} \<noteq> {pk}))"
proof -
  have "add_member now k pk r (Some a) db = run_tx (add_member_in c pk r (Some a)) now k db"
    using assms(2,3) by (simp add: add_member_def add_member_tx_def)
  then show ?thesis by (simp only: add_in_ok add_apply_ok[OF assms(1)])
qed

lemma removed_rows:
  assumes "channel_db_ok db"
  shows "fst (update_active_member k pk f db) = 0 \<longleftrightarrow> roster db k pk = None"
proof -
  have keys: "distinct (map fst (db_members db))" using assms by (simp add: channel_db_ok_def)
  have "fst (update_active_member k pk f db) = 0 \<longleftrightarrow> (\<forall>r. ((k, pk), r) \<in> set (db_members db) \<longrightarrow> \<not> active r)"
    by (cases k) (auto simp: update_active_member_def filter_empty_conv Let_def)
  also have "\<dots> \<longleftrightarrow> roster db k pk = None"
    unfolding map_of_eq_Some_iff[OF keys, symmetric] by (auto simp: roster_def split: option.splits)
  finally show ?thesis .
qed

lemma remove_apply_ok:
  assumes "channel_db_ok db"
  shows "is_ok (fst (run_tx (remove_member_apply ch pk a) now k db)) \<longleftrightarrow>
     roster db k pk \<noteq> None \<and> (roster db k pk = Some Owner \<longrightarrow> {p. roster db k p = Some Owner} \<noteq> {pk})"
proof -
  have "is_ok (fst (run_tx (remove_member_apply ch pk a) now k db)) \<longleftrightarrow>
      fst (update_active_member k pk (set_removed now a) db) \<noteq> 0 \<and> (roster db k pk = Some Owner \<longrightarrow> \<not> owner_count db k \<le> 1)"
    by (cases "roster db k pk") (simp_all add: remove_member_apply_def active_role_roster Let_def split: prod.splits)
  then show ?thesis using removed_rows[OF assms] owner_alone[OF assms, of k pk] by simp
qed

lemma remove_member_ok:
  assumes "channel_db_ok db"
  shows "is_ok (fst (remove_member ao now k pk a db)) \<longleftrightarrow>
     (a = pk \<or> roster db k a \<noteq> None \<and> (elevated_in (roster db k) a \<or> ao)) \<and> roster db k pk \<noteq> None
     \<and> (roster db k pk = Some Owner \<longrightarrow> {p. roster db k p = Some Owner} \<noteq> {pk})"
  unfolding remove_apply_ok[OF assms, of "snd k" pk a now k, symmetric]
  by (cases "roster db k a") (auto simp: remove_member_def remove_member_tx_def active_role_roster elevated_in_def)

section \<open>What is accepted is applied\<close>

lemma db_part_ok: "is_ok (fst (db_part x)) \<longleftrightarrow> is_ok (fst x)"
  by (auto simp: db_part_def split: prod.splits sum.splits)

lemma as_authz_ok: "as_authz r = Ok a \<longleftrightarrow> r = Ok a"
  by (cases r) (simp_all add: as_authz_def)

lemma find_tag_map_key: "find_tag_map n (key_of_hex E) ts = Some b \<Longrightarrow> length b = 32"
  by (induction ts) (auto simp: key_of_hex_def split: if_splits option.splits Option.bind_splits)

lemma elevated_option_roster: "elevated_option (roster db k a) \<longleftrightarrow> elevated_in (roster db k) a"
  by (cases "roster db k a") (simp_all add: elevated_option_def elevated_in_def)

text \<open>What an accepted decision on adding a user has established.\<close>
lemma decide_put_user_ok:
  assumes ok: "channel_db_ok db" "live_channel db k = Some c"
    and d: "decide_put_user (visibility_as_str (ch_visibility c)) (roster db k actor) requested (get_members db k) target actor = Ok d"
  shows "ch_visibility c = Private \<Longrightarrow> roster db k actor \<noteq> None"
    and "requested = Some r \<Longrightarrow> roster db k target = None \<or> roster db k target = Some r
      \<or> elevated_in (roster db k) actor \<and> (roster db k target = Some Owner \<longrightarrow> r \<noteq> Owner \<longrightarrow> {p. roster db k p = Some Owner} \<noteq> {target})"
proof -
  have live: "live_channel db k \<noteq> None" using ok(2) by simp
  show "ch_visibility c = Private \<Longrightarrow> roster db k actor \<noteq> None"
    using d by (cases "roster db k actor") (simp_all add: decide_put_user_def)
  show "requested = Some r \<Longrightarrow> roster db k target = None \<or> roster db k target = Some r
      \<or> elevated_in (roster db k) actor \<and> (roster db k target = Some Owner \<longrightarrow> r \<noteq> Owner \<longrightarrow> {p. roster db k p = Some Owner} \<noteq> {target})"
    using find_member_cases[OF ok(1) live, of target]
  proof cases
    case (2 p e)
    assume "requested = Some r"
    then show ?thesis
      using d 2 sole_owner_roster[OF ok(1) live, of target] unfolding elevated_option_roster[symmetric]
      by (simp add: decide_put_user_def Let_def split: if_splits) blast+
  qed simp
qed

text \<open>The channel and the roster an accepted membership event refers to.\<close>
lemma validated_channel:
  assumes "validate_admin_event E W community kind ev = Ok ()" "kind \<noteq> 9007"
  obtains ch c where "extract_h_tag_channel E ev = Some ch" "live_channel (aw_db W) (community, ch) = Some c"
    "kind = 9000 \<Longrightarrow> validate_put_user E W (community, ch) c ev = Ok ()"
    "kind = 9001 \<Longrightarrow> validate_remove_user E W (community, ch) ev = Ok ()"
    "kind = 9022 \<Longrightarrow> decide_self_departure (get_members (aw_db W) (community, ch)) (ae_key_bytes E (event_pubkey ev)) = Ok ()"
proof -
  obtain ch where ch: "extract_h_tag_channel E ev = Some ch"
    using assms by (cases "extract_h_tag_channel E ev") (simp_all add: validate_admin_event_def)
  moreover obtain c where c: "live_channel (aw_db W) (community, ch) = Some c"
    using assms ch by (cases "live_channel (aw_db W) (community, ch)") (simp_all add: validate_admin_event_def)
  ultimately show thesis
    using assms that by (simp add: validate_admin_event_def as_authz_ok Let_def split: if_splits)
qed

text \<open>
  C18: An event that adds a user and passed the validation is applied to the same database exactly when the
  role it ends in is not elevated or its actor is an owner or admin: so the validation is as strict as the
  store except where somebody without an elevated role re-adds an owner or admin, or asks for an elevated role
  for a newcomer of an open channel; those are accepted and stored, and then fail.
\<close>
theorem put_user_agreement:
  assumes "channel_db_ok (aw_db W)" "validate_admin_event E W community 9000 ev = Ok ()"
    and "extract_h_tag_channel E ev = Some ch" "extract_p_tag E ev = Some target"
    and "put_user_role (aw_db W) (community, ch) target (extract_tag_value ev ''role'') = Ok role"
  shows "is_ok (fst (handle_put_user E now community ev (aw_db W))) \<longleftrightarrow>
    (is_elevated role \<longrightarrow> elevated_in (roster (aw_db W) (community, ch)) (ae_key_bytes E (event_pubkey ev)))"
proof -
  let ?k = "(community, ch)" and ?db = "aw_db W" and ?a = "ae_key_bytes E (event_pubkey ev)"
  obtain ch' c where "extract_h_tag_channel E ev = Some ch'" "live_channel ?db (community, ch') = Some c"
      "validate_put_user E W (community, ch') c ev = Ok ()"
    by (rule validated_channel[OF assms(2)]) simp_all
  then have c: "live_channel ?db ?k = Some c" "validate_put_user E W ?k c ev = Ok ()" using assms(3) by simp_all
  have live: "live_channel ?db ?k \<noteq> None" using c by simp
  have len: "length target = 32" using assms(4) find_tag_map_key by (auto simp: extract_p_tag_def)
  obtain requested d where req: "requested = (case extract_tag_value ev ''role'' of None \<Rightarrow> None | Some s \<Rightarrow> Some role)"
      and d: "decide_put_user (visibility_as_str (ch_visibility c)) (roster ?db ?k ?a) requested (get_members ?db ?k) target ?a = Ok d"
    using c(2) assms(4,5) find_member[OF assms(1) live, of ?a]
    by (auto simp: validate_put_user_def put_user_role_def as_authz_ok Let_def split: option.splits sum.splits)
  note dec = decide_put_user_ok[OF assms(1) c(1) d]
  have "roster ?db ?k target = None \<or> roster ?db ?k target = Some role
      \<or> elevated_in (roster ?db ?k) ?a \<and> (roster ?db ?k target = Some Owner \<longrightarrow> role \<noteq> Owner \<longrightarrow> {p. roster ?db ?k p = Some Owner} \<noteq> {target})"
  proof (cases "extract_tag_value ev ''role''")
    case None
    then have "roster ?db ?k target = None \<or> roster ?db ?k target = Some role"
      using assms(5) find_member[OF assms(1) live, of target] by (auto simp: put_user_role_def split: option.splits prod.splits)
    then show ?thesis by blast
  next
    case (Some s)
    then show ?thesis using dec(2) req by simp
  qed
  moreover have "ch_visibility c = Private \<Longrightarrow> roster ?db ?k ?a \<noteq> None" by (rule dec(1))
  moreover have "ch_visibility c = Private \<and> ?a = target \<Longrightarrow> is_elevated role \<Longrightarrow> elevated_in (roster ?db ?k) ?a"
    using calculation dec(1) unfolding elevated_in_def by fastforce
  moreover have "is_ok (fst (handle_put_user E now community ev ?db)) \<longleftrightarrow> is_ok (fst (add_member now ?k target role (Some ?a) ?db))"
    using assms(3-5) by (simp add: handle_put_user_def db_part_ok)
  ultimately show ?thesis
    unfolding add_member_ok[OF assms(1) c(1) len] by blast
qed

text \<open>
  Removals: an accepted event that removes a user is applied exactly when the user is a member and not
  the only owner; an accepted request to leave is always applied.
\<close>
theorem remove_user_agreement:
  assumes "channel_db_ok (aw_db W)" "validate_admin_event E W community 9001 ev = Ok ()"
    and "extract_h_tag_channel E ev = Some ch" "extract_p_tag E ev = Some target"
  shows "is_ok (fst (handle_remove_user E (aw_agent_owner W) now community ev (aw_db W))) \<longleftrightarrow>
    roster (aw_db W) (community, ch) target \<noteq> None
    \<and> {p. roster (aw_db W) (community, ch) p = Some Owner} \<noteq> {target}"
proof -
  let ?k = "(community, ch)" and ?db = "aw_db W" and ?a = "ae_key_bytes E (event_pubkey ev)"
  obtain ch' c where "extract_h_tag_channel E ev = Some ch'" "live_channel ?db (community, ch') = Some c"
      "validate_remove_user E W (community, ch') ev = Ok ()"
    by (rule validated_channel[OF assms(2)]) simp_all
  then have live: "live_channel ?db ?k \<noteq> None" and v: "validate_remove_user E W ?k ev = Ok ()" using assms(3) by simp_all
  have owner: "{p. roster ?db ?k p = Some Owner} = {target} \<Longrightarrow> roster ?db ?k target = Some Owner" by blast
  have actor: "?a = target \<or> roster ?db ?k ?a \<noteq> None \<and> (elevated_in (roster ?db ?k) ?a \<or> aw_agent_owner W community target ?a)"
    using find_member_cases[OF assms(1) live, of ?a]
    by cases (use v assms(4) in \<open>auto simp: validate_remove_user_def classify_remove_other_def elevated_in_def elevated_roles
          Let_def split: if_splits\<close>)
  show ?thesis
    using actor owner assms(3,4) sole_owner_roster[OF assms(1) live, of target]
    unfolding handle_remove_user_def Let_def
    by (auto simp: db_part_ok remove_member_ok[OF assms(1)])
qed

theorem leave_agreement:
  assumes "channel_db_ok (aw_db W)" "validate_admin_event E W community 9022 ev = Ok ()"
  shows "is_ok (fst (handle_leave_request E now community ev (aw_db W)))"
proof -
  let ?db = "aw_db W" and ?a = "ae_key_bytes E (event_pubkey ev)"
  obtain ch c where ch: "extract_h_tag_channel E ev = Some ch" "live_channel ?db (community, ch) = Some c"
      and d: "decide_self_departure (get_members ?db (community, ch)) ?a = Ok ()"
    by (rule validated_channel[OF assms(2)]) simp_all
  have live: "live_channel ?db (community, ch) \<noteq> None" using ch by simp
  show ?thesis
    using d ch(1) any_member[OF assms(1) live, of ?a] sole_owner_roster[OF assms(1) live, of ?a]
    by (auto simp: decide_self_departure_def handle_leave_request_def Let_def db_part_ok remove_member_ok[OF assms(1)] split: if_splits)
qed

section \<open>A concrete event\<close>

definition sample_authz_env :: authz_env where
  "sample_authz_env = \<lparr>ae_unhex = Some, ae_uuid = Some, ae_key_bytes = id, ae_relay_key = []\<rparr>"

definition sample_world :: admin_world where
  "sample_world = \<lparr>aw_db = sample_db, aw_agent_owner = (\<lambda>_ _ _. False), aw_policy = (\<lambda>_ _. None), aw_event = (\<lambda>_ _. None),
     aw_member_cached = (\<lambda>_ _. False)\<rparr>"

definition sample_put_event :: "string \<Rightarrow> event" where
  "sample_put_event role = \<lparr>event_id = [], event_pubkey = sample_joiner, created_at = 0, event_kind = 9000,
     event_tags = [[''h'', ''1''], [''p'', sample_joiner], [''role'', role]], content = [], event_sig = []\<rparr>"

lemma sample_db_ok: "channel_db_ok sample_db"
  unfolding sample_db_def by (intro upsert_member_ok insert_channel_ok) (simp_all add: channel_db_ok_def)

lemma sample_roster: "roster sample_db sample_channel sample_joiner = None"
  using sample_reads(2) by (simp add: active_role_roster)

lemma sample_put_valid: "validate_admin_event sample_authz_env sample_world ''C'' 9000 (sample_put_event ''owner'') = Ok ()"
proof -
  have live: "live_channel sample_db sample_channel \<noteq> None" using sample_reads(1) by simp
  have "find (\<lambda>(pk, _). pk = sample_joiner) (get_members sample_db sample_channel) = None"
    using find_member[OF sample_db_ok live, of sample_joiner] sample_roster by simp
  then show ?thesis
    using sample_reads(1)
    by (simp add: validate_admin_event_def validate_put_user_def sample_put_event_def sample_authz_env_def sample_world_def
        extract_h_tag_channel_def extract_p_tag_def extract_tag_value_def key_of_hex_def tag_is_def tag_content_def
        sample_row_def new_channel_def decide_put_user_def as_authz_def role_from_str_def Let_def)
qed

text \<open>Anybody may ask for ownership of an open channel: the event is accepted, its effect is refused.\<close>
theorem put_user_agreement_witness:
  "validate_admin_event sample_authz_env sample_world ''C'' 9000 (sample_put_event ''owner'') = Ok ()
   \<and> \<not> is_ok (fst (handle_put_user sample_authz_env 0 ''C'' (sample_put_event ''owner'') (aw_db sample_world)))"
proof -
  have tags: "extract_h_tag_channel sample_authz_env (sample_put_event ''owner'') = Some ''1''"
      "extract_p_tag sample_authz_env (sample_put_event ''owner'') = Some sample_joiner"
      "put_user_role (aw_db sample_world) (''C'', ''1'') sample_joiner (extract_tag_value (sample_put_event ''owner'') ''role'') = Ok Owner"
    by (simp_all add: sample_put_event_def sample_authz_env_def extract_h_tag_channel_def extract_p_tag_def extract_tag_value_def
        put_user_role_def key_of_hex_def tag_is_def tag_content_def role_from_str_def)
  have "channel_db_ok (aw_db sample_world)" using sample_db_ok by (simp add: sample_world_def)
  from put_user_agreement[OF this sample_put_valid tags] show ?thesis
    using sample_roster sample_put_valid
    by (simp add: sample_world_def sample_authz_env_def sample_put_event_def elevated_in_def)
qed

end
