(* ===== verification/Huddle_Connection.thy ===== *)
theory Huddle_Connection
  imports Huddle_Control Channel_Authz
begin

text \<open>
  The connection of a huddle client (\<^verbatim>\<open>buzz-relay/src/audio/handler.rs\<close>): who may enter, how a connection gets its
  seat on this pod or at the owner, and what its end does to the room, the channel and the lease. The
  web socket, its tasks and the events announcing participants are left out; failing queries, the answers of
  the event store and of the mesh are arguments. The membership cache of the pod (\<^verbatim>\<open>state.rs\<close>) is part of the model.
\<close>

section \<open>Entering\<close>

datatype membership_error =
    ME_Db string
  | ME_Channel db_error
  | ME_Archived
  | ME_No_Parent
  | ME_Not_Linked
  | ME_Auto_Add db_error
  | ME_Not_Member

text \<open>
  The membership cache of a pod: what a query answered and when it was entered. An entry counts for ten seconds; the cache
  may drop any entry earlier.
\<close>

type_synonym membership_cache = "channel_key \<times> string \<rightharpoonup> bool \<times> nat"

definition MEMBERSHIP_CACHE_TTL :: nat where "MEMBERSHIP_CACHE_TTL = 10"

definition membership_cache_get :: "nat \<Rightarrow> membership_cache \<Rightarrow> channel_key \<times> string \<Rightarrow> bool option" where
  "membership_cache_get now m key = (case m key of None \<Rightarrow> None | Some (b, t) \<Rightarrow> if now < t + MEMBERSHIP_CACHE_TTL then Some b else None)"

text \<open>Which membership queries fail, and what the store says on the link of a huddle to its parent.\<close>
record entry_answers =
  ea_query_error :: "channel_key \<Rightarrow> string option"
  ea_link :: "string \<Rightarrow> string \<Rightarrow> string \<Rightarrow> string \<Rightarrow> (string, bool) result"

definition is_member_cached ::
  "entry_answers \<Rightarrow> nat \<Rightarrow> channel_key \<Rightarrow> string \<Rightarrow> channel_db \<Rightarrow> membership_cache \<Rightarrow> (string, bool) result \<times> membership_cache" where
  "is_member_cached A now k pk db m =
     (case membership_cache_get now m (k, pk) of
        Some cached \<Rightarrow> (Ok cached, m)
      | None \<Rightarrow>
          (case ea_query_error A k of
             Some e \<Rightarrow> (Err e, m)
           | None \<Rightarrow> (Ok (is_member db k pk), m((k, pk) \<mapsto> (is_member db k pk, now)))))"

definition invalidate_membership :: "channel_key \<Rightarrow> string \<Rightarrow> membership_cache \<Rightarrow> membership_cache" where
  "invalidate_membership k pk m = m((k, pk) := None)"

definition as_db :: "(string, 'a) result \<Rightarrow> (membership_error, 'a) result" where
  "as_db r = (case r of Inl e \<Rightarrow> Err (ME_Db e) | Inr a \<Rightarrow> Ok a)"

text \<open>The channel the lifecycle events belong to.\<close>
definition lifecycle_parent ::
  "entry_answers \<Rightarrow> channel_key \<Rightarrow> channel_record \<Rightarrow> string option \<Rightarrow> (membership_error, string) result" where
  "lifecycle_parent A k c parent =
     (if ch_ttl_seconds c \<noteq> None then
        (case parent of
           None \<Rightarrow> Err ME_No_Parent
         | Some p \<Rightarrow> and_then (as_db (ea_link A (fst k) p (snd k) (ch_created_by c)))
             (\<lambda>linked. if linked then Ok p else Err ME_Not_Linked))
      else Ok (snd k))"

definition ensure_membership ::
  "entry_answers \<Rightarrow> nat \<Rightarrow> channel_key \<Rightarrow> string \<Rightarrow> string option \<Rightarrow> channel_db \<times> membership_cache
    \<Rightarrow> (membership_error, string) result \<times> channel_db \<times> membership_cache" where
  "ensure_membership A now k pk parent S = (let (db, m) = S in
     try_in S (case get_channel db k of Inl e \<Rightarrow> Inl (ME_Channel e) | Inr c \<Rightarrow> Inr c) (\<lambda>c.
       if ch_archived_at c \<noteq> None then (Err ME_Archived, S)
       else try_in S (lifecycle_parent A k c parent) (\<lambda>lp.
         let (r, m1) = is_member_cached A now k pk db m in
         try_in (db, m1) (as_db r) (\<lambda>member.
           if member then (Ok lp, db, m1)
           else if visibility_as_str (ch_visibility c) = ''open'' then (Ok lp, db, m1)
           else if ch_ttl_seconds c \<noteq> None then
             let (r', m2) = is_member_cached A now (fst k, lp) pk db m1 in
             try_in (db, m2) (as_db r') (\<lambda>parent_member.
               if parent_member then
                 (case add_member now k pk Member (Some (ch_created_by c)) db of
                    (Inl e, db') \<Rightarrow> (Err (ME_Auto_Add e), db', m2)
                  | (Inr _, db') \<Rightarrow> (Ok lp, db', invalidate_membership k pk m2))
               else (Err ME_Not_Member, db, m2))
           else (Err ME_Not_Member, db, m1)))))"

section \<open>The seat of a connection\<close>

definition CURRENT_PROTOCOL_VERSION :: u8 where "CURRENT_PROTOCOL_VERSION = 3"

datatype audio_error =
    AU_Draining
  | AU_Join_Rejected
  | AU_Unavailable
  | AU_Archived
  | AU_Channel_Check
  | AU_Unsupported_Version
  | AU_Remote register_rejection
  | AU_Owner_Unreachable
  | AU_Admission admission_error

text \<open>
  What the pod answers while a client joins: the mesh with the resolved owner (absent without a mesh), whether
  audio is offered without one, the dial to a remote owner, a fresh identifier and a drain that begins late.
\<close>
record join_inputs =
  ji_mesh :: "(mesh_error, resolved_join) result option"
  ji_audio_available :: bool
  ji_dial :: "(dial_error, remote_huddle_session) result"
  ji_peer_id :: peer_id
  ji_late_drain :: bool

record audio_pod =
  au_rooms :: rooms
  au_owners :: owner_registry
  au_db :: channel_db

record audio_seat =
  as_peer_id :: peer_id
  as_peer_index :: u8
  as_epoch :: u8
  as_remote :: "remote_huddle_session option"
  as_owner_lost :: "token option"
  as_owner_generation :: "nat option"

definition cleanup :: "string \<Rightarrow> string \<Rightarrow> audio_pod \<Rightarrow> audio_pod" where
  "cleanup community channel P = P\<lparr>au_rooms := snd (cleanup_if_empty community channel (au_rooms P))\<rparr>"

text \<open>The owner of the huddle and the lease this connection won, before a room is touched.\<close>
definition resolve_connection :: "join_inputs \<Rightarrow> audio_pod \<Rightarrow> (audio_error, join_outcome option \<times> session_lease option) result" where
  "resolve_connection I P = (case ji_mesh I of
     Some resolved \<Rightarrow>
       if is_draining (au_owners P) then Err AU_Draining
       else (case resolved of
           Inl _ \<Rightarrow> Err AU_Join_Rejected
         | Inr r \<Rightarrow> Ok (Some (rj_outcome r), rj_acquired r))
   | None \<Rightarrow> if \<not> ji_audio_available I then Err AU_Unavailable else Ok (None, None))"

text \<open>The owner's side of the lease once a peer is seated: the loss signal and the generation.\<close>
definition watch_owner ::
  "join_inputs \<Rightarrow> string \<Rightarrow> join_outcome option \<Rightarrow> session_lease option \<Rightarrow> owner_registry \<Rightarrow> (token option \<times> nat option) \<times> owner_registry" where
  "watch_owner I channel outcome acquired R = (case (outcome, acquired) of
     (Some (LocalOwner g), Some lease) \<Rightarrow> (case attach_signals (ji_late_drain I) channel lease R of ((lost, _), R') \<Rightarrow> ((Some lost, Some g), R'))
   | (Some (LocalOwner g), None) \<Rightarrow> ((lost_for channel R, Some g), R)
   | _ \<Rightarrow> ((None, None), R))"

text \<open>From the room, which the caller has just looked up, to the seat; a refused client of a remote owner is unregistered there.\<close>
definition seat_connection ::
  "join_inputs \<Rightarrow> string \<Rightarrow> string \<Rightarrow> string \<Rightarrow> u8 \<Rightarrow> join_outcome option \<Rightarrow> session_lease option \<Rightarrow> remote_huddle_session option \<Rightarrow> audio_pod
    \<Rightarrow> (audio_error, audio_seat) result \<times> audio_pod" where
  "seat_connection I community channel pubkey version outcome acquired remote P = (case get_room community channel (au_rooms P) of
     None \<Rightarrow> (Err (AU_Admission Room_Ended), P)
   | Some r \<Rightarrow>
       (let (admission, r') = (case remote of
              Some h \<Rightarrow> (case add_peer_at_index (ji_peer_id I) pubkey version (rh_peer_index h) r of
                  (Inl e, r') \<Rightarrow> (Inl e, r')
                | (Inr _, r') \<Rightarrow> (Inr (rh_peer_index h, rh_epoch h), r'))
            | None \<Rightarrow> (case add_peer (ji_peer_id I) pubkey version r of
                  (Inl e, r') \<Rightarrow> (Inl e, r')
                | (Inr (idx, epoch, _), r') \<Rightarrow> (Inr (idx, epoch), r')));
            P' = P\<lparr>au_rooms := update_room (community, channel) (\<lambda>_. r') (au_rooms P)\<rparr>
        in (case admission of
              Inl e \<Rightarrow> (Err (AU_Admission e), P')
            | Inr (idx, epoch) \<Rightarrow> (case watch_owner I channel outcome acquired (au_owners P') of
                ((lost, g), R) \<Rightarrow>
                  (Ok \<lparr>as_peer_id = ji_peer_id I, as_peer_index = idx, as_epoch = epoch, as_remote = remote, as_owner_lost = lost, as_owner_generation = g\<rparr>,
                   P'\<lparr>au_owners := R\<rparr>)))))"

definition join_audio :: "join_inputs \<Rightarrow> string \<Rightarrow> string \<Rightarrow> string \<Rightarrow> u8 \<Rightarrow> audio_pod \<Rightarrow> (audio_error, audio_seat) result \<times> audio_pod" where
  "join_audio I community channel pubkey version P =
     try_in P (resolve_connection I P) (\<lambda>(outcome, acquired).
       let P1 = P\<lparr>au_rooms := snd (get_or_create community channel (au_rooms P))\<rparr> in
       case get_channel (au_db P) (community, channel) of
         Inl _ \<Rightarrow> (Err AU_Channel_Check, cleanup community channel P1)
       | Inr c \<Rightarrow>
           if ch_archived_at c \<noteq> None then (Err AU_Archived, cleanup community channel P1)
           else if version = 0 \<or> version > CURRENT_PROTOCOL_VERSION then (Err AU_Unsupported_Version, P1)
           else (case outcome of
               Some (RemoteOwner _ _) \<Rightarrow> (case ji_dial I of
                   Inl (Dial_Rejected reason) \<Rightarrow> (Err (AU_Remote reason), cleanup community channel P1)
                 | Inl (Dial_Mesh _) \<Rightarrow> (Err AU_Owner_Unreachable, cleanup community channel P1)
                 | Inr h \<Rightarrow> seat_connection I community channel pubkey version outcome acquired (Some h) P1)
             | _ \<Rightarrow> seat_connection I community channel pubkey version outcome acquired None P1))"

section \<open>Leaving\<close>

text \<open>The end of a connection: whether the huddle ended with it, and the pod.\<close>
definition leave_audio :: "control_env \<Rightarrow> nat \<Rightarrow> string \<Rightarrow> string \<Rightarrow> audio_seat \<Rightarrow> audio_pod \<Rightarrow> bool \<times> audio_pod" where
  "leave_audio C now community channel st P = (case get_room community channel (au_rooms P) of
     None \<Rightarrow> (False, P)
   | Some r \<Rightarrow>
       (let (removal, r1) = (if as_remote st \<noteq> None
              then (case remove_peer (as_peer_id st) r of (d, r') \<Rightarrow> (map_option (\<lambda>d. (d, False)) d, r'))
              else remove_peer_and_check_ended (as_peer_id st) r);
            should_end = (case removal of Some (_, b) \<Rightarrow> b | None \<Rightarrow> False);
            r2 = (case (as_remote st, removal) of (None, Some (d, _)) \<Rightarrow> broadcast_peer_left C d r1 | _ \<Rightarrow> r1);
            P2 = P\<lparr>au_rooms := update_room (community, channel) (\<lambda>_. r2) (au_rooms P)\<rparr>;
            (ended, emptied, P3) =
              (if should_end then
                 (case archive_channel now (community, channel) (au_db P2) of
                    (Inl _, _) \<Rightarrow> (False, False, P2\<lparr>au_rooms := update_room (community, channel) clear_ended (au_rooms P2)\<rparr>)
                  | (Inr _, db') \<Rightarrow> (case cleanup_if_empty community channel (au_rooms P2) of
                      (b, rs) \<Rightarrow> (True, b, P2\<lparr>au_rooms := rs, au_db := db'\<rparr>)))
               else (case cleanup_if_empty community channel (au_rooms P2) of (b, rs) \<Rightarrow> (False, b, P2\<lparr>au_rooms := rs\<rparr>)))
        in (ended, case as_owner_generation st of
              Some g \<Rightarrow> if emptied then P3\<lparr>au_owners := registry_release channel g (au_owners P3)\<rparr> else P3
            | None \<Rightarrow> P3)))"

text \<open>What the client is shown for a registration the owner refused.\<close>
fun remote_rejection_code :: "register_rejection \<Rightarrow> string" where
  "remote_rejection_code RR_RoomFull = ''room_full''"
| "remote_rejection_code RR_RoomEnded = ''room_ended''"
| "remote_rejection_code (RR_VersionMismatch _ _) = ''upgrade_required''"
| "remote_rejection_code (RR_Fenced _) = ''join_rejected''"

section \<open>Who may enter\<close>

text \<open>What the pod takes for a membership: an entry of the last ten seconds, or else the database.\<close>
definition seen_member :: "nat \<Rightarrow> membership_cache \<Rightarrow> channel_db \<Rightarrow> channel_key \<Rightarrow> string \<Rightarrow> bool" where
  "seen_member now m db k pk = (case membership_cache_get now m (k, pk) of Some b \<Rightarrow> b | None \<Rightarrow> is_member db k pk)"

lemma is_member_cached_seen:
  "ea_query_error A k = None \<Longrightarrow> fst (is_member_cached A now k pk db m) = Ok (seen_member now m db k pk)"
  by (simp add: is_member_cached_def seen_member_def split: option.splits)

lemma is_member_cached_keeps: "seen_member now (snd (is_member_cached A now k pk db m)) db j q = seen_member now m db j q"
  by (auto simp: is_member_cached_def seen_member_def membership_cache_get_def MEMBERSHIP_CACHE_TTL_def split: option.splits)

text \<open>
  C15: Who may enter a huddle, for every content of the pod's membership cache, when no query fails. The
  channel exists and is not archived; when it was made for another channel, the client names that one and a link to it that
  the creator signed is stored. And the client is taken for a member of the channel, by an entry of the cache younger than
  ten seconds or else by the database; or the channel is open; or it is a private one made for another channel of which the
  client is taken for a member, and the creator can add them: the creator is a member, or is the client, and the client has
  no other role in the database, or one that the creator may change.
\<close>
theorem huddle_entry_exact:
  assumes "channel_db_ok db" "length pk = 32" "\<And>j. ea_query_error A j = None"
    and "\<And>p creator. ea_link A (fst k) p (snd k) creator = Ok (linked p creator)"
  shows "is_ok (fst (ensure_membership A now k pk parent (db, m))) \<longleftrightarrow>
    (\<exists>c. live_channel db k = Some c \<and> ch_archived_at c = None
      \<and> (ch_ttl_seconds c \<noteq> None \<longrightarrow> (\<exists>p. parent = Some p \<and> linked p (ch_created_by c)))
      \<and> (seen_member now m db k pk \<or> ch_visibility c = Open
         \<or> ch_ttl_seconds c \<noteq> None \<and> seen_member now m db (fst k, the parent) pk
           \<and> (is_member db k (ch_created_by c) \<or> ch_created_by c = pk)
           \<and> (roster db k pk = None \<or> roster db k pk = Some Member
              \<or> elevated_in (roster db k) (ch_created_by c) \<and> (roster db k pk = Some Owner \<longrightarrow> {p. roster db k p = Some Owner} \<noteq> {pk}))))"
proof (cases "live_channel db k")
  case None
  then show ?thesis by (simp add: ensure_membership_def get_channel_def try_in_def Let_def)
next
  case (Some c)
  have vis: "visibility_as_str (ch_visibility c) = ''open'' \<longleftrightarrow> ch_visibility c = Open" by (cases "ch_visibility c") simp_all
  have roster: "is_member db k q \<longleftrightarrow> roster db k q \<noteq> None" for q
    using Some by (simp add: is_member_def active_role_roster)
  let ?may = "(is_member db k (ch_created_by c) \<or> ch_created_by c = pk)
    \<and> (roster db k pk = None \<or> roster db k pk = Some Member
       \<or> elevated_in (roster db k) (ch_created_by c) \<and> (roster db k pk = Some Owner \<longrightarrow> {p. roster db k p = Some Owner} \<noteq> {pk}))"
  have add: "is_ok (fst (add_member now k pk Member (Some (ch_created_by c)) db)) \<longleftrightarrow> ?may" if "ch_visibility c \<noteq> Open"
    using that add_member_ok[OF assms(1) Some assms(2), of now Member "ch_created_by c"] roster
    by (cases "ch_visibility c") auto
  have added: "is_ok (fst (case add_member now k pk Member (Some (ch_created_by c)) db of
      (Inl e, db') \<Rightarrow> (Err (ME_Auto_Add e), db', m2) | (Inr _, db') \<Rightarrow> (Ok lp, db', invalidate_membership k pk m2))) \<longleftrightarrow>
      is_ok (fst (add_member now k pk Member (Some (ch_created_by c)) db))" for lp m2
    by (auto split: prod.splits sum.splits)
  obtain m1 where m1: "is_member_cached A now k pk db m = (Ok (seen_member now m db k pk), m1)" "\<And>j q. seen_member now m1 db j q = seen_member now m db j q"
    using is_member_cached_seen[of A k now pk db m] is_member_cached_keeps[of now A k pk db m] assms(3) by (metis prod.collapse)
  have m2: "\<exists>m2. is_member_cached A now j pk db m1 = (Ok (seen_member now m db j pk), m2)" for j
    using is_member_cached_seen[of A j now pk db m1] assms(3) m1(2)
    by (intro exI[of _ "snd (is_member_cached A now j pk db m1)"]) (simp add: prod_eq_iff)
  show ?thesis
  proof (cases "ch_archived_at c = None \<and> (ch_ttl_seconds c \<noteq> None \<longrightarrow> (\<exists>p. parent = Some p \<and> linked p (ch_created_by c)))")
    case True
    then have "\<exists>lp. lifecycle_parent A k c parent = Ok lp \<and> (ch_ttl_seconds c \<noteq> None \<longrightarrow> lp = the parent)"
      using assms(4) by (auto simp: lifecycle_parent_def as_db_def)
    then obtain lp where lp: "lifecycle_parent A k c parent = Ok lp" "ch_ttl_seconds c \<noteq> None \<longrightarrow> lp = the parent" by blast
    obtain m2 where m2: "is_member_cached A now (fst k, lp) pk db m1 = (Ok (seen_member now m db (fst k, lp) pk), m2)" using m2 by blast
    have "is_ok (fst (ensure_membership A now k pk parent (db, m))) \<longleftrightarrow>
        seen_member now m db k pk \<or> ch_visibility c = Open \<or> ch_ttl_seconds c \<noteq> None \<and> seen_member now m db (fst k, lp) pk \<and> ?may"
      using True add by (simp add: ensure_membership_def Some get_channel_def lp(1) m1(1) m2 as_db_def vis added)
    then show ?thesis using True Some lp(2) by auto
  next
    case False
    then show ?thesis
      using Some assms(4)
      by (auto simp: ensure_membership_def get_channel_def try_in_def lifecycle_parent_def as_db_def Let_def split: option.splits)
  qed
qed

text \<open>
  A stale entry can cost a role: a client whom the cache still takes for no member of a private huddle, but who is an
  admin of it already, is added again as a plain member when the creator is elevated.
\<close>
lemma stale_entry_demotes:
  assumes "channel_db_ok db" "length pk = 32" "\<And>j. ea_query_error A j = None"
    and "live_channel db k = Some c" "ch_archived_at c = None" "ch_ttl_seconds c \<noteq> None" "ch_visibility c = Private"
    and "ea_link A (fst k) p (snd k) (ch_created_by c) = Ok True"
    and "membership_cache_get now m (k, pk) = Some False" "seen_member now m db (fst k, p) pk"
    and "roster db k pk = Some Admin" "elevated_in (roster db k) (ch_created_by c)"
  shows "roster (fst (snd (ensure_membership A now k pk (Some p) (db, m)))) k pk = Some Member"
proof -
  have cached: "is_member_cached A now k pk db m = (Ok False, m)" using assms(9) by (simp add: is_member_cached_def)
  obtain m2 where m2: "is_member_cached A now (fst k, p) pk db m = (Ok True, m2)"
    using is_member_cached_seen[of A "(fst k, p)" now pk db m] assms(3,10) by (metis prod.collapse)
  obtain cr where cr: "roster db k (ch_created_by c) = Some cr" "is_elevated cr" using assms(12) by (auto simp: elevated_in_def)
  have add: "add_member now k pk Member (Some (ch_created_by c)) db = (Ok (Some (the (map_of (db_members db') (k, pk)))), db')"
    if "db' = upsert_member now k pk Member (Some (ch_created_by c)) db" for db'
    using assms(2,4,7,11) cr that
    by (cases cr; cases "ch_created_by c = pk")
      (simp_all add: add_member_def add_member_tx_def add_member_in_def add_member_apply_def tx_inviter_role_def active_role_roster
        role_from_str_def Let_def)
  show ?thesis
    using assms(4-8) by (simp add: ensure_membership_def get_channel_def lifecycle_parent_def as_db_def cached m2 add[OF refl] roster_upsert)
qed

section \<open>The lease of a join\<close>

lemma renewers_token: "or_renewers (snd (token_new R)) = or_renewers R" "or_renewers (token_cancel t R) = or_renewers R"
  by (simp_all add: token_new_def token_cancel_def)

lemma attach_renews: "\<exists>t. (lease, t) \<in> set (or_renewers (snd (attach_signals late session lease R)))"
  by (auto simp: attach_signals_def release_at_once_def spawn_renewer_def token_new_def token_cancel_def registry_drain_def registry_remove_def
      Let_def split: option.splits)

lemma cleanup_owners: "au_owners (cleanup c ch P) = au_owners P"
  by (simp add: cleanup_def)

lemma seat_connection_owners:
  assumes "seat_connection I c ch pk v outcome acquired remote P = (res, P')"
  shows "is_ok res \<Longrightarrow> au_owners P' = snd (watch_owner I ch outcome acquired (au_owners P))" "\<not> is_ok res \<Longrightarrow> au_owners P' = au_owners P"
  using assms
  by (auto simp: seat_connection_def Let_def split: option.splits prod.splits sum.splits)

text \<open>
  A lease that a join has won gets a renewer exactly when the join succeeds: when the channel turns out to be
  archived, the version is not supported or the room is full, the lease is neither renewed nor released, and this
  pod holds the huddle until it expires.
\<close>
theorem won_lease_renewed_iff_seated:
  assumes "resolve_connection I P = Ok (Some (LocalOwner g), Some lease)" "join_audio I c ch pk v P = (res, P')"
    and "lease \<notin> fst ` set (or_renewers (au_owners P))"
  shows "(\<exists>t. (lease, t) \<in> set (or_renewers (au_owners P'))) \<longleftrightarrow> is_ok res"
proof -
  let ?P1 = "P\<lparr>au_rooms := snd (get_or_create c ch (au_rooms P))\<rparr>"
  consider "\<not> is_ok res" "au_owners P' = au_owners P"
    | "seat_connection I c ch pk v (Some (LocalOwner g)) (Some lease) None ?P1 = (res, P')"
    using assms(1,2) by (auto simp: join_audio_def try_in_def Let_def cleanup_owners split: sum.splits if_splits)
  then show ?thesis
  proof cases
    case 1
    then show ?thesis using assms(3) by (force intro: rev_image_eqI)
  next
    case 2
    show ?thesis
    proof (cases "is_ok res")
      case True
      then show ?thesis
        using seat_connection_owners(1)[OF 2] attach_renews[of lease "ji_late_drain I" ch "au_owners P"]
        by (auto simp: watch_owner_def split: prod.splits)
    next
      case False
      then show ?thesis using seat_connection_owners(2)[OF 2] assms(3) by (force intro: rev_image_eqI)
    qed
  qed
qed

text \<open>Meanwhile every join on this pod fails: the directory names this pod and the registry has no entry.\<close>
lemma owner_without_entry_fails:
  assumes "\<And>a. a \<in> set attempts \<Longrightarrow> \<exists>g. a = (Ok \<lparr>rj_outcome = LocalOwner g, rj_acquired = None\<rparr>, False)"
  shows "\<not> is_ok (resolve_join_owner_ready attempts)"
proof -
  have "\<not> is_ok (owner_ready_loop as)" if "\<And>a. a \<in> set as \<Longrightarrow> \<exists>g. a = (Ok \<lparr>rj_outcome = LocalOwner g, rj_acquired = None\<rparr>, False)" for as
    using that
  proof (induction as)
    case (Cons a as)
    then obtain g where "a = (Ok \<lparr>rj_outcome = LocalOwner g, rj_acquired = None\<rparr>, False)" by fastforce
    then show ?case using Cons by simp
  qed simp
  from this[of "take OWNER_READY_MAX_ATTEMPTS attempts"] show ?thesis
    using assms in_set_takeD unfolding resolve_join_owner_ready_def by fast
qed

section \<open>A concrete huddle\<close>

text \<open>In the open channel of the sample anybody enters, although the cache says that they are no member.\<close>
theorem huddle_entry_exact_witness:
  "is_ok (fst (ensure_membership \<lparr>ea_query_error = (\<lambda>_. None), ea_link = (\<lambda>_ _ _ _. Ok False)\<rparr>
     0 sample_channel sample_joiner None (sample_db, [(sample_channel, sample_joiner) \<mapsto> (False, 0)])))"
proof -
  let ?A = "\<lparr>ea_query_error = (\<lambda>_. None), ea_link = (\<lambda>_ _ _ _. Ok False)\<rparr>"
  have live: "live_channel sample_db sample_channel = Some sample_row" using sample_reads(1) by simp
  have row: "ch_archived_at sample_row = None" "ch_ttl_seconds sample_row = None" "ch_visibility sample_row = Open"
    by (simp_all add: sample_row_def new_channel_def)
  show ?thesis
    using huddle_entry_exact[OF sample_db_ok, of sample_joiner ?A sample_channel "\<lambda>_ _. False" 0 None] live row by simp
qed

end
