(* ===== verification/Spec2Isabelle.thy ===== *)
theory Spec2Isabelle
  imports Ifc_Core Git_History Subscriptions Pairing_Qr Mesh_Runtime Event_Queue Audit_Chain Http_Auth
    Workflow_Scheduler Huddle_Connection
begin

text \<open>
  \<^bold>\<open>Verification of the Buzz relay and of its core crates.\<close>

  The program is a Nostr-based team server. Clients connect to a relay over web sockets,
  subscribe to events with filters and publish events; the relay stores events per community
  and per channel, fans them out to subscriptions, serves Git repositories whose pushes are
  decided by channel roles and protection rules, and pairs a new device with an old one over
  an untrusted relay. Agents run beside the relay; what they may send where is decided by
  information-flow labels. This development models the decision-making code of these parts as
  HOL functions and states and proves what makes it correct.

  \<^bold>\<open>Theories and the code they model\<close> (paths under src/crates/)

  \<^item> Buzz\_Prelude: results and early returns (Rust's Result and the question mark operator),
    splitting and joining of strings, ASCII character classes, decimal numbers, index maps from
    keys to vectors, runs and reachable states of a labelled step relation. Its locales are
    invariant\_system (an invariant kept by each step holds in each reachable state) and
    multi\_index with its extension vec\_index (the contract of a multi-map index: what is found
    after a push and after a retain).
  \<^item> Ifc\_Core: ifc-core/src/lib.rs. Reader sets, confidentiality labels (label\_join,
    label\_can\_flow\_to), the accumulating flow state (observe, mark\_unknown) and the egress
    check (check\_egress). The locale flow\_lattice is the contract the flow state relies on; it
    is interpreted on the reader sets of the code.
  \<^item> Channel\_Roles: buzz-core/src/channel.rs. Visibility, channel type and member role with
    their parsers and the permission order.
  \<^item> Git\_Perms: buzz-core/src/git\_perms.rs. Ref patterns (ref\_pattern\_parse,
    ref\_pattern\_matches), the classification of an update, protection tags and their parser,
    the effective rules of a ref (for\_ref) and the decision on an update and on a push
    (evaluate\_ref\_update, evaluate\_push).
  \<^item> Git\_Policy: buzz-relay/src/api/git/policy.rs and binding.rs. The callback of the
    pre-receive hook as a whole: structural validation, the signed payload, the time window,
    the repository announcement, the channel binding, the role and the decision
    (hook\_policy\_check).
  \<^item> Nostr\_Events: buzz-core/src/event.rs, filter.rs, nip10.rs and kind.rs. Stored events, filter
    matching with the fallback on the stored channel, reader gating, the resolution of thread
    markers and the classes of event kinds.
  \<^item> Subscriptions: buzz-relay/src/subscription.rs. The subscription registry with its
    authoritative table and its five indexes: registration, removal of a subscription, of a
    connection and of a channel, and fan-out (fan\_out\_scoped). The locale routed\_filters and its
    extension routing state what fan-out needs of the filters and of the keys; they are
    interpreted on the code's filters and indexes.
  \<^item> Pairing\_Session: buzz-core/src/pairing/session.rs, types.rs, crypto.rs, mod.rs. Both roles of
    the pairing protocol with each operation of PairingSession, its guards, early returns and
    its state changes on errors, and a step relation over all of them.
  \<^item> Pairing\_Qr: buzz-core/src/pairing/qr.rs. The pairing URI, its encoder and its decoder.
  \<^item> Mesh\_Wire, Mesh\_Membership, Mesh\_Runtime: buzz-relay-mesh/src. Frames and stream framing
    (wire.rs, peer.rs); the gossip state, the membership table with its failure detector, the ready
    records and the registry (gossip.rs, membership.rs, registry.rs, status.rs); admission, dialing,
    the tie-break and the gossip exchange of the runtime (runtime.rs). The locale version\_table is
    the contract of a table of versioned records; it is interpreted on the pure gossip state
    (gossip\_tab) and on the membership table (mesh\_tab). Floating-point operations take the
    rounding function as an argument.
  \<^item> Event\_Queue: buzz-acp/src/queue.rs, queue-routing-cap.rs, conversation.rs. The queue of an
    agent harness: pushing, batching, retries, cancellation, withheld steers and the caps. The
    interpretation queue is one of invariant\_system.
  \<^item> Audit\_Chain: buzz-audit/src. Canonical JSON and hashing of entries, appending by concurrent
    sessions under the lock of a community (audit\_step), verification of a chain. The interpretation
    audit is one of invariant\_system.
  \<^item> Http\_Auth: buzz-auth/src, buzz-pubsub/src/nip98\_replay.rs and rate\_limiter.rs and the
    operator, bridge and admin routes of buzz-relay/src/api. NIP-98 verification, the replay guard
    and the rate limiter over Redis commands with their documented effect, scopes and admin access.
  \<^item> Shared\_Programs: asynchronous functions as trees of requests (prog), interleaved runs of such
    programs with lost replies and dropped programs (system\_step), and a rely-guarantee rule: the
    locale interference gives, from an invariant that each admissible request keeps, the safety of
    sequences, early returns and timeouts, and of every reachable system.
  \<^item> Git\_Manifest, Git\_Publish, Git\_Commits, Git\_History: buzz-relay/src/api/git. Manifests and
    their validation, the advertisement and the pkt-line framing; the object store client, hydration
    and the commit of a push as programs over a bucket (s3\_exec, s3\_serve); the invariant of the
    bucket with the interpretation pushes of interference and the safety of each program up to the
    push handler (receive\_pack); the properties of runs.
  \<^item> Rust\_Text: what the modelled crates use of Rust's strings (trimming with the Unicode white space
    as bytes, parsing of unsigned numbers, searching and case folding of ASCII).
  \<^item> Net\_Address: buzz-core/src/network.rs. The predicate on outbound addresses (is\_not\_global\_unicast)
    on 8-bit and 16-bit words and the table of special-purpose blocks it implements (v4\_table, v6\_table).
  \<^item> Workflow\_Schema: buzz-workflow/src/error.rs and schema.rs and the durations of executor.rs.
    Definitions of workflows, their validation (validate) and what well formed means (well\_formed).
  \<^item> Workflow\_Templates: the first part of buzz-workflow/src/executor.rs. The trigger context, template
    substitution (resolve\_template) and conditions (build\_eval\_context, evaluate\_condition).
  \<^item> Workflow\_Store: buzz-db/src/store/workflow.rs with the keys and cascades of schema/schema.sql. The
    tables of workflows, runs, scheduled fires and approvals, one function per query, and the step
    relation of all queries that write (store\_step). The interpretation wf\_store is one of
    invariant\_system.
  \<^item> Workflow\_Executor: the rest of executor.rs, action\_sink.rs and finalize\_run of lib.rs. The dispatch of
    each action under the write lease with the effects it has on the world (dispatch\_action), the loop
    over the steps (step\_loop), starting, resuming and finishing a run.
  \<^item> Workflow\_Triggers: the event side of buzz-workflow/src/lib.rs. The context of an event, trigger
    matching, the owner's authority, the cache of enabled workflows and on\_event.
  \<^item> Workflow\_Scheduler: the scheduler of buzz-workflow/src/lib.rs. The instants of cron and interval
    schedules, the atomic parts of the scan (wake, visit, claim, create, attach) and the cluster of pods
    that run it (cluster\_step). The interpretation scheduler is one of invariant\_system.
  \<^item> Session\_Directory: buzz-relay/src/tunnel/directory.rs. Ownership leases of tunnel sessions in Redis: the
    scripts that acquire, renew and release a lease on a store of keys with an expiry, the operations
    around them, the fence check (validate\_fenced\_header) and the step relation of all runtimes that
    use one directory (dir\_step). The interpretation session\_dir is one of invariant\_system.
  \<^item> Reliable\_Stream: buzz-relay/src/tunnel/reliable.rs. Joining a session, accepting a stream, the frames
    of a session stream (reliable\_encode, reliable\_decode), sending and receiving under the fence
    (send\_bytes, recv\_validated) and the renewal of a lease (renewal\_task).
  \<^item> Channel\_Members: buzz-db/src/store/channel\_members.rs, channel.rs and dm.rs and the kick of
    relay\_admin\_actions.rs. The tables of channels and memberships, the queries on them and each operation
    that writes them. The transactions that take row locks (add\_member, remove\_member) are trees of
    statements (member\_tx) and the step relation member\_step interleaves the statements of all sessions
    with the other writes (channel\_write). The interpretation memberships is one of invariant\_system.
  \<^item> Channel\_Authz: buzz-relay/src/handlers/channel\_authz.rs and the group administration events of
    side\_effects.rs. The decision on each kind of event before it is stored (validate\_admin\_event) and the
    handlers that apply the stored event to the membership tables (handle\_put\_user,
    handle\_remove\_user, handle\_join\_request, handle\_leave\_request).
  \<^item> Audio\_Room: buzz-relay/src/audio/room.rs, wire.rs and mesh.rs. A huddle's room with its admission guard,
    the routing indexes and their epochs, the roster with its broadcast, the fan-out of frames (broadcast\_frame),
    the header of a client frame and the media path between pods. The interpretation rooms is one of
    invariant\_system.
  \<^item> Huddle\_Control: buzz-relay/src/audio/join.rs. Which pod owns a huddle, the renewal of its lease, the
    registry of owned huddles, both ends of a control stream (the loop of the owner, owner\_control at the
    client's pod) and the step relation of a roster that changes while a stream reads it (stream\_step).
    The interpretation roster\_streams is one of invariant\_system.
  \<^item> Huddle\_Connection: the decisions of buzz-relay/src/audio/handler.rs. Who may enter (ensure\_membership, with the
    membership cache of buzz-relay/src/state.rs, is\_member\_cached),
    how a connection gets its seat on this pod or at the owner (join\_audio) and what its end does to
    the room, the channel and the lease (leave\_audio).

  \<^bold>\<open>How state and errors are modelled.\<close> A struct is a record with the fields of the source, an
  enum a datatype with its constructors. A method that takes a mutable receiver returns the new
  state, beside its result. A Result is a sum type, an early return is and\_then or try\_in, and the
  state in which an error leaves an object is part of the returned value. A panic is None (for
  example in ref\_pattern\_matches, where a theorem shows that it is not reached). A hash map is a
  map; where the code iterates over one, the order of iteration is an argument, so that the
  theorems hold for each order. Unsigned integers are natural numbers where the code saturates,
  compares or divides, with the width written out where it matters (parse\_u32, derive\_sas).

  \<^bold>\<open>Concurrency.\<close> Where processes share a store, each process is a sequence of requests and a
  property speaks of every interleaving: the sessions of the audit log, the pods of the scheduler,
  the runtimes that share a session directory, the sessions of the database that change
  memberships under row locks, the roster streams that follow a room and may lag behind it, and the pushes, whose replies may also be lost before or after their effect.

  \<^bold>\<open>Parameters.\<close> Code of other packages is an argument: the record git\_env holds HMAC, the
  decoding of hexadecimal text and of UUIDs and the database queries; pairing\_env holds key
  agreement, key derivation, encryption, JSON, signatures and their verification; auth\_env the
  verification of events and URLs; git\_codec JSON, SHA-256 and the debug format of strings; the
  records hydration, workspace and push the answers of git, the file system, the lease and the
  database during one push; libs holds the expression evaluator and the encodings the workflow engine
  uses, net the parsers of URLs, UUIDs and JSON, answers the replies to one step of a run,
  event\_answers and tick\_answers those to one event and to one part of a scan, and sched\_libs the
  cron parser and the calendar; dir\_env and tunnel\_env hold hexadecimal text, Lua's printing of numbers, the
  frame serializer and the bytes of UUIDs, dir\_answers the connection pool, Redis and the write lease;
  authz\_env and admin\_world hold what the authority decisions read beside the membership tables;
  control\_env holds the encoder of the huddle's control messages, entry\_answers the failing membership queries and
  the stored link of a huddle, join\_answers and join\_inputs what one join is told by the mesh and by the network.
  What a theorem needs of them is a named hypothesis (for example
  crypto\_ok, hashes\_ok, git\_covers, timestamp\_law), and its witness instantiates the record with concrete
  functions. Time is an argument of each operation that reads a clock.

  \<^bold>\<open>What the theorems show.\<close>
  \<^item> Git publication: the states published for a repository form one line under every interleaving
    of pushes; a push that git accepted and that is answered 200 is in that line with the refs of its workspace;
    published packs hold what the refs reach, across compactions; a reader gets the newest state; a push that git fails
    or of which it rejects one ref writes nothing, and is answered 200 with a report in which the client sees the other
    refs accepted.
  \<^item> Fan-out returns exactly the matching subscriptions in each reachable registry, and never
    leaves the community and the channel scope, even with stale indexes; the registry refines a
    plain table; revocation removes exactly the revoked deliveries.
  \<^item> A push is accepted exactly under the documented conditions; the signed payload is
    unambiguous; protection rules only restrict; matching of patterns is the glob.
  \<^item> A pairing payload moves once and only after the confirmation on this device; an honest run
    completes with equal codes and the payload unchanged; accepted events are authentic and not
    replayed; failing operations keep the session.
  \<^item> The egress decision depends exactly on the observed labels and a denial is final.
  \<^item> Mesh: one exchange in both directions makes two runtimes agree on the newest records;
    admission and open connections need an attested or gossiped record; the membership table
    implements the pure gossip state; frames round-trip over a stream.
  \<^item> Agent queue: a flush takes the oldest ready conversation; the caps hold in every run; a
    failing batch is given up after ten retries; requeueing loses merged cancelled events.
  \<^item> Audit log: chains stay gap-free and verify under every interleaving as long as the logged details hold no
    numbers but integers (a detail that the JSONB column reprints makes its row unverifiable); two verifying
    chains of the same length with the same head agree in the hashed bytes, and in every field up to the border between object
    and detail where actors and predecessors have the length of a key.
  \<^item> Authentication: replayed requests are rejected within the window and accepted in the gap of
    one second behind it; admin access is exact; the rate limiter's bound.
  \<^item> Workflows: a run posts only where and as its stored workflow may, calls webhooks only at public addresses
    and has effects only under the write fence; its trace records exactly the steps it took and is
    enough to resume it; an event starts runs only for owners with a current role; a scheduled instant
    fires at most once in the whole cluster and an interval workflow comes due after one interval;
    communities cannot touch each other's rows and a decided approval stays decided. The address predicate equals the table of blocks,
    substitution is a single pass and validation decides well-formedness.
  \<^item> Tunnel: the generations of a session count its grants without gaps and the fence accepts exactly the
    header of the last grant while its lease is live; frames are delivered only under it and arrive complete
    and in order; a join ends at the owner of the last grant.
  \<^item> Channel membership: under every interleaving of sessions a channel that has an owner keeps one; a
    member's role changes only by a kick or by a caller with the authority for it, unless a kick came in between; an accepted put-user event is
    applied exactly as it was decided, with the cases in which the two checks disagree spelled out.
  \<^item> Huddles: in every reachable room admission is exact, indexes are unique and an occupant's identity is
    counted by its epoch; a frame reaches each other client of the owner's pod once and each client of another
    pod as often as that pod has clients; what a client on another pod was told adds
    up to the owner's roster at its revision, however far the stream lags, and it catches up; the end of a
    stream empties exactly its seats; entry is decided exactly by the membership rules,
    for every content of the pod's membership cache.
  Theorems that are not listed as properties of the manifest (round trips of the pairing URI, the
  failure detector, isolation of audit chains, resumption of runs, the anchor of an interval after a
  restart and others) are lemmas of their theories.

  \<^bold>\<open>Bounds and fuel.\<close> No definition of modelled code uses fuel (read\_pages, a reader of pages,
  counts the pages it asks for, and its theorem gives the number that is enough): each loop of the modelled code is a recursion,
  structural or with a measure (strip\_front, pkt\_lines, enforce\_loop, canonical\_json, resolve\_loop). Numeric
  limits are the constants of the source under their names. GENERATION\_LIMIT (10 to the 14) bounds the number
  of grants the theorems on the session directory speak of: Lua prints whole numbers of up to fourteen
  digits in full and larger ones in scientific notation, which parse\_lease rejects.

  \<^bold>\<open>Not modelled.\<close> Socket, file and database I/O beyond the requests above, logging, metrics, the
  wiping of secrets from memory and the text of messages that only a person reads. Of the git
  service: the conformance probe of the store, the eviction of the pack cache, streaming of reads
  and the seeding of a pointer by a repository announcement. The agent harness around the queue, the
  tables of the database layer other than workflows, channels and memberships, the web sockets, timers and announcements of huddle
  connections, the command-line tools, the media, voice and push services and the desktop,
  mobile and web applications are listed in the manifest with the reason.
\<close>

end
